(* ===== verification/Prelude.thy ===== *)
theory Prelude
  imports Main "HOL-Library.Word"
begin

text \<open>
  The vocabulary every component of the development shares: the fixed-width integer types
  of \<open>libdwarf.h\<close>, the three-valued result of a libdwarf call extended with a
  memory fault, the byte buffer a section is read from, and the generic facts about them.
\<close>

unbundle bit_operations_syntax

section \<open>Collections of proof hints\<close>

named_theorems dw_simps \<open>equations that evaluate the result type\<close>
named_theorems no_fault \<open>facts of the form: an operation does not read out of bounds\<close>

section \<open>Integers\<close>

text \<open>
  \<open>Dwarf_Small\<close>, \<open>Dwarf_Half\<close>, \<open>Dwarf_Unsigned\<close>, \<open>Dwarf_Addr\<close> and \<open>Dwarf_Off\<close>
  are 8, 16 and 64 bit unsigned integers; \<open>Dwarf_Signed\<close> is a 64 bit two's complement
  integer, kept as the same word and read with \<^const>\<open>sint\<close>.
\<close>

type_synonym u8 = "8 word"
type_synonym u16 = "16 word"
type_synonym u32 = "32 word"
type_synonym u64 = "64 word"
type_synonym s64 = "64 word"

section \<open>Memory\<close>

text \<open>
  A section that libdwarf has loaded is one block of bytes. A C pointer into it is the
  distance from the start of the block, so pointer comparison and subtraction are those
  of \<^typ>\<open>nat\<close>. A dereference outside the block is undefined behaviour in C and the value
  \<open>FAULT\<close> here; no operation of the model recovers from it.
\<close>

type_synonym bytes = "u8 list"
type_synonym ptr = nat

section \<open>Results\<close>

text \<open>
  The error numbers of \<open>libdwarf.h\<close> (\<open>DW_DLE_*\<close>, a C \<open>int\<close>) that the modelled code raises. The
  message text that goes with an error is not modelled.
\<close>

type_synonym dle = int

abbreviation (input) DW_DLE_ALLOC_FAIL :: dle where "DW_DLE_ALLOC_FAIL \<equiv> 62"
abbreviation (input) DW_DLE_LEB_IMPROPER :: dle where "DW_DLE_LEB_IMPROPER \<equiv> 329"
abbreviation (input) DW_DLE_READ_LITTLEENDIAN_ERROR :: dle where "DW_DLE_READ_LITTLEENDIAN_ERROR \<equiv> 331"
abbreviation (input) DW_DLE_ARITHMETIC_OVERFLOW :: dle where "DW_DLE_ARITHMETIC_OVERFLOW \<equiv> 501"
abbreviation (input) DW_DLE_HEADER_LEN_BIGGER_THAN_SECSIZE :: dle where "DW_DLE_HEADER_LEN_BIGGER_THAN_SECSIZE \<equiv> 342"
abbreviation (input) DW_DLE_FORM_BLOCK_LENGTH_ERROR :: dle where "DW_DLE_FORM_BLOCK_LENGTH_ERROR \<equiv> 337"
abbreviation (input) DW_DLE_FORM_STRING_BAD_STRING :: dle where "DW_DLE_FORM_STRING_BAD_STRING \<equiv> 361"
abbreviation (input) DW_DLE_STRING_NOT_TERMINATED :: dle where "DW_DLE_STRING_NOT_TERMINATED \<equiv> 303"
abbreviation (input) DW_DLE_NESTED_FORM_INDIRECT_ERROR :: dle where "DW_DLE_NESTED_FORM_INDIRECT_ERROR \<equiv> 255"
abbreviation (input) DW_DLE_DEBUG_FORM_HANDLING_INCOMPLETE :: dle where "DW_DLE_DEBUG_FORM_HANDLING_INCOMPLETE \<equiv> 251"
abbreviation (input) DW_DLE_UNIT_TYPE_NOT_HANDLED :: dle where "DW_DLE_UNIT_TYPE_NOT_HANDLED \<equiv> 386"
abbreviation (input) DW_DLE_DEBUG_ABBREV_NULL :: dle where "DW_DLE_DEBUG_ABBREV_NULL \<equiv> 34"
abbreviation (input) DW_DLE_TAG_CORRUPT :: dle where "DW_DLE_TAG_CORRUPT \<equiv> 449"
abbreviation (input) DW_DLE_ABBREV_OFF_END :: dle where "DW_DLE_ABBREV_OFF_END \<equiv> 360"
abbreviation (input) DW_DLE_ABBREV_ATTR_DUPLICATION :: dle where "DW_DLE_ABBREV_ATTR_DUPLICATION \<equiv> 452"
abbreviation (input) DW_DLE_ATTR_CORRUPT :: dle where "DW_DLE_ATTR_CORRUPT \<equiv> 451"
abbreviation (input) DW_DLE_UNKNOWN_FORM :: dle where "DW_DLE_UNKNOWN_FORM \<equiv> 321"
abbreviation (input) DW_DLE_DEBUGFRAME_ERROR :: dle where "DW_DLE_DEBUGFRAME_ERROR \<equiv> 83"
abbreviation (input) DW_DLE_DF_FRAME_DECODING_ERROR :: dle where "DW_DLE_DF_FRAME_DECODING_ERROR \<equiv> 193"
abbreviation (input) DW_DLE_DF_NO_CIE_AUGMENTATION :: dle where "DW_DLE_DF_NO_CIE_AUGMENTATION \<equiv> 187"
abbreviation (input) DW_DLE_DF_REG_NUM_TOO_HIGH :: dle where "DW_DLE_DF_REG_NUM_TOO_HIGH \<equiv> 188"
abbreviation (input) DW_DLE_DF_MAKE_INSTR_NO_INIT :: dle where "DW_DLE_DF_MAKE_INSTR_NO_INIT \<equiv> 189"
abbreviation (input) DW_DLE_DF_NEW_LOC_LESS_OLD_LOC :: dle where "DW_DLE_DF_NEW_LOC_LESS_OLD_LOC \<equiv> 190"
abbreviation (input) DW_DLE_DF_POP_EMPTY_STACK :: dle where "DW_DLE_DF_POP_EMPTY_STACK \<equiv> 191"
abbreviation (input) DW_DLE_FRAME_ITERATOR_ERR :: dle where "DW_DLE_FRAME_ITERATOR_ERR \<equiv> 510"
abbreviation (input) DW_DLE_FRAME_TABLE_COL_BAD :: dle where "DW_DLE_FRAME_TABLE_COL_BAD \<equiv> 96"
abbreviation (input) DW_DLE_PC_NOT_IN_FDE_RANGE :: dle where "DW_DLE_PC_NOT_IN_FDE_RANGE \<equiv> 97"
abbreviation (input) DW_DLE_CIE_INSTR_PTR_ERROR :: dle where "DW_DLE_CIE_INSTR_PTR_ERROR \<equiv> 339"
abbreviation (input) DW_DLE_FDE_INSTR_PTR_ERROR :: dle where "DW_DLE_FDE_INSTR_PTR_ERROR \<equiv> 340"
abbreviation (input) DW_DLE_FDE_NULL :: dle where "DW_DLE_FDE_NULL \<equiv> 92"
abbreviation (input) DW_DLE_FDE_PTR_NULL :: dle where "DW_DLE_FDE_PTR_NULL \<equiv> 100"
abbreviation (input) DW_DLE_CFA_INSTRUCTION_ERROR :: dle where "DW_DLE_CFA_INSTRUCTION_ERROR \<equiv> 485"
abbreviation (input) DW_DLE_RET_OP_LIST_NULL :: dle where "DW_DLE_RET_OP_LIST_NULL \<equiv> 101"
abbreviation (input) DW_DLE_GROUP_MAP_ALLOC :: dle where "DW_DLE_GROUP_MAP_ALLOC \<equiv> 387"
abbreviation (input) DW_DLE_GROUP_MAP_DUPLICATE :: dle where "DW_DLE_GROUP_MAP_DUPLICATE \<equiv> 388"
abbreviation (input) DW_DLE_GROUP_COUNT_ERROR :: dle where "DW_DLE_GROUP_COUNT_ERROR \<equiv> 389"
abbreviation (input) DW_DLE_GROUP_INTERNAL_ERROR :: dle where "DW_DLE_GROUP_INTERNAL_ERROR \<equiv> 390"
abbreviation (input) DW_DLE_ABBREV_DECODE_ERROR :: dle where "DW_DLE_ABBREV_DECODE_ERROR \<equiv> 109"
abbreviation (input) DW_DLE_ATTR_FORM_SIZE_BAD :: dle where "DW_DLE_ATTR_FORM_SIZE_BAD \<equiv> 116"
abbreviation (input) DW_DLE_LINE_TABLE_BAD :: dle where "DW_DLE_LINE_TABLE_BAD \<equiv> 357"
abbreviation (input) DW_DLE_LINE_TABLE_LINENO_ERROR :: dle where "DW_DLE_LINE_TABLE_LINENO_ERROR \<equiv> 430"
abbreviation (input) DW_DLE_LINE_INDEX_WRONG :: dle where "DW_DLE_LINE_INDEX_WRONG \<equiv> 499"
abbreviation (input) DW_DLE_LINE_NUM_OPERANDS_BAD :: dle where "DW_DLE_LINE_NUM_OPERANDS_BAD \<equiv> 56"
abbreviation (input) DW_DLE_DEFINE_FILE_STRING_BAD :: dle where "DW_DLE_DEFINE_FILE_STRING_BAD \<equiv> 365"
abbreviation (input) DW_DLE_DEBUG_LINE_LENGTH_BAD :: dle where "DW_DLE_DEBUG_LINE_LENGTH_BAD \<equiv> 54"
abbreviation (input) DW_DLE_VERSION_STAMP_ERROR :: dle where "DW_DLE_VERSION_STAMP_ERROR \<equiv> 48"
abbreviation (input) DW_DLE_LINE_OFFSET_BAD :: dle where "DW_DLE_LINE_OFFSET_BAD \<equiv> 120"
abbreviation (input) DW_DLE_DEBUG_LINE_RANGE_ZERO :: dle where "DW_DLE_DEBUG_LINE_RANGE_ZERO \<equiv> 330"
abbreviation (input) DW_DLE_LINE_STRING_BAD :: dle where "DW_DLE_LINE_STRING_BAD \<equiv> 364"
abbreviation (input) DW_DLE_LINE_NUMBER_HEADER_ERROR :: dle where "DW_DLE_LINE_NUMBER_HEADER_ERROR \<equiv> 235"
abbreviation (input) DW_DLE_DIR_INDEX_BAD :: dle where "DW_DLE_DIR_INDEX_BAD \<equiv> 127"
abbreviation (input) DW_DLE_DIRECTORY_FORMAT_COUNT_VS_DIRECTORIES_MISMATCH :: dle where "DW_DLE_DIRECTORY_FORMAT_COUNT_VS_DIRECTORIES_MISMATCH \<equiv> 346"
abbreviation (input) DW_DLE_LINE_STRP_OFFSET_BAD :: dle where "DW_DLE_LINE_STRP_OFFSET_BAD \<equiv> 326"
abbreviation (input) DW_DLE_STRP_OFFSET_BAD :: dle where "DW_DLE_STRP_OFFSET_BAD \<equiv> 204"
abbreviation (input) DW_DLE_LNCT_FORM_CODE_NOT_HANDLED :: dle where "DW_DLE_LNCT_FORM_CODE_NOT_HANDLED \<equiv> 383"
abbreviation (input) DW_DLE_LNCT_MD5_WRONG_FORM :: dle where "DW_DLE_LNCT_MD5_WRONG_FORM \<equiv> 400"
abbreviation (input) DW_DLE_DATA16_OUTSIDE_SECTION :: dle where "DW_DLE_DATA16_OUTSIDE_SECTION \<equiv> 399"
abbreviation (input) DW_DLE_ATTR_FORM_NOT_STR_INDEX :: dle where "DW_DLE_ATTR_FORM_NOT_STR_INDEX \<equiv> 259"
abbreviation (input) DW_DLE_ATTR_FORM_BAD :: dle where "DW_DLE_ATTR_FORM_BAD \<equiv> 114"
abbreviation (input) DW_DLE_LINE_PROLOG_LENGTH_BAD :: dle where "DW_DLE_LINE_PROLOG_LENGTH_BAD \<equiv> 55"
abbreviation (input) DW_DLE_FISSION_ADDITION_ERROR :: dle where "DW_DLE_FISSION_ADDITION_ERROR \<equiv> 341"
abbreviation (input) DW_DLE_LINE_COUNT_WRONG :: dle where "DW_DLE_LINE_COUNT_WRONG \<equiv> 500"
abbreviation (input) DW_DLE_INCL_DIR_NUM_BAD :: dle where "DW_DLE_INCL_DIR_NUM_BAD \<equiv> 60"
abbreviation (input) DW_DLE_NO_FILE_NAME :: dle where "DW_DLE_NO_FILE_NAME \<equiv> 140"
abbreviation (input) DW_DLE_LINE_HEADER_CORRUPT :: dle where "DW_DLE_LINE_HEADER_CORRUPT \<equiv> 401"
abbreviation (input) DW_DLE_LINE_CONTEXT_INDEX_WRONG :: dle where "DW_DLE_LINE_CONTEXT_INDEX_WRONG \<equiv> 306"
abbreviation (input) DW_DLE_ABBREV_MISSING :: dle where "DW_DLE_ABBREV_MISSING \<equiv> 394"
abbreviation (input) DW_DLE_ADDRESS_SIZE_ERROR :: dle where "DW_DLE_ADDRESS_SIZE_ERROR \<equiv> 50"
abbreviation (input) DW_DLE_ADDRESS_SIZE_ZERO :: dle where "DW_DLE_ADDRESS_SIZE_ZERO \<equiv> 371"
abbreviation (input) DW_DLE_CU_LENGTH_ERROR :: dle where "DW_DLE_CU_LENGTH_ERROR \<equiv> 47"
abbreviation (input) DW_DLE_CU_UT_TYPE_ERROR :: dle where "DW_DLE_CU_UT_TYPE_ERROR \<equiv> 285"
abbreviation (input) DW_DLE_DBG_NO_CU_CONTEXT :: dle where "DW_DLE_DBG_NO_CU_CONTEXT \<equiv> 103"
abbreviation (input) DW_DLE_DEBUG_TYPEOFFSET_BAD :: dle where "DW_DLE_DEBUG_TYPEOFFSET_BAD \<equiv> 239"
abbreviation (input) DW_DLE_DIE_ABBREV_LIST_NULL :: dle where "DW_DLE_DIE_ABBREV_LIST_NULL \<equiv> 151"
abbreviation (input) DW_DLE_FIRST_DIE_NOT_CU :: dle where "DW_DLE_FIRST_DIE_NOT_CU \<equiv> 105"
abbreviation (input) DW_DLE_INFO_HEADER_ERROR :: dle where "DW_DLE_INFO_HEADER_ERROR \<equiv> 334"
abbreviation (input) DW_DLE_NEXT_DIE_LOW_ERROR :: dle where "DW_DLE_NEXT_DIE_LOW_ERROR \<equiv> 284"
abbreviation (input) DW_DLE_NEXT_DIE_NO_ABBREV_LIST :: dle where "DW_DLE_NEXT_DIE_NO_ABBREV_LIST \<equiv> 254"
abbreviation (input) DW_DLE_NEXT_DIE_PAST_END :: dle where "DW_DLE_NEXT_DIE_PAST_END \<equiv> 252"
abbreviation (input) DW_DLE_NEXT_DIE_PTR_NULL :: dle where "DW_DLE_NEXT_DIE_PTR_NULL \<equiv> 106"
abbreviation (input) DW_DLE_NEXT_DIE_WRONG_FORM :: dle where "DW_DLE_NEXT_DIE_WRONG_FORM \<equiv> 253"
abbreviation (input) DW_DLE_SIBLING_OFFSET_WRONG :: dle where "DW_DLE_SIBLING_OFFSET_WRONG \<equiv> 413"
abbreviation (input) DW_DLE_OFFSET_BAD :: dle where "DW_DLE_OFFSET_BAD \<equiv> 131"
abbreviation (input) DW_DLE_CU_DIE_NO_ABBREV_LIST :: dle where "DW_DLE_CU_DIE_NO_ABBREV_LIST \<equiv> 256"
abbreviation (input) DW_DLE_DIE_ABBREV_BAD :: dle where "DW_DLE_DIE_ABBREV_BAD \<equiv> 113"
abbreviation (input) DW_DLE_ATTR_EXPRLOC_FORM_BAD :: dle where "DW_DLE_ATTR_EXPRLOC_FORM_BAD \<equiv> 224"
abbreviation (input) DW_DLE_ATTR_FORM_NOT_ADDR_INDEX :: dle where "DW_DLE_ATTR_FORM_NOT_ADDR_INDEX \<equiv> 258"
abbreviation (input) DW_DLE_ATTR_FORM_OFFSET_BAD :: dle where "DW_DLE_ATTR_FORM_OFFSET_BAD \<equiv> 119"
abbreviation (input) DW_DLE_ATTR_OUTSIDE_SECTION :: dle where "DW_DLE_ATTR_OUTSIDE_SECTION \<equiv> 281"
abbreviation (input) DW_DLE_BAD_REF_FORM :: dle where "DW_DLE_BAD_REF_FORM \<equiv> 118"
abbreviation (input) DW_DLE_NOT_REF_FORM :: dle where "DW_DLE_NOT_REF_FORM \<equiv> 226"
abbreviation (input) DW_DLE_REF_SIG8_NOT_HANDLED :: dle where "DW_DLE_REF_SIG8_NOT_HANDLED \<equiv> 228"
abbreviation (input) DW_DLE_FORM_SEC_OFFSET_LENGTH_BAD :: dle where "DW_DLE_FORM_SEC_OFFSET_LENGTH_BAD \<equiv> 225"
abbreviation (input) DW_DLE_LOWPC_WRONG_CLASS :: dle where "DW_DLE_LOWPC_WRONG_CLASS \<equiv> 396"
abbreviation (input) DW_DLE_HIGHPC_WRONG_FORM :: dle where "DW_DLE_HIGHPC_WRONG_FORM \<equiv> 397"
abbreviation (input) DW_DLE_MISSING_NEEDED_DEBUG_ADDR_SECTION :: dle where "DW_DLE_MISSING_NEEDED_DEBUG_ADDR_SECTION \<equiv> 257"
abbreviation (input) DW_DLE_STRING_FORM_IMPROPER :: dle where "DW_DLE_STRING_FORM_IMPROPER \<equiv> 327"
abbreviation (input) DW_DLE_UDATA_VALUE_NEGATIVE :: dle where "DW_DLE_UDATA_VALUE_NEGATIVE \<equiv> 483"
abbreviation (input) DW_DLE_STR_OFFSETS_ARRAY_SIZE :: dle where "DW_DLE_STR_OFFSETS_ARRAY_SIZE \<equiv> 405"
abbreviation (input) DW_DLE_DISCR_ARRAY_ERROR :: dle where "DW_DLE_DISCR_ARRAY_ERROR \<equiv> 353"
abbreviation (input) DW_DLE_LOC_EXPR_BAD :: dle where "DW_DLE_LOC_EXPR_BAD \<equiv> 128"
abbreviation (input) DW_DLE_LOCEXPR_OFF_SECTION_END :: dle where "DW_DLE_LOCEXPR_OFF_SECTION_END \<equiv> 343"
abbreviation (input) DW_DLE_LOC_BAD_TERMINATION :: dle where "DW_DLE_LOC_BAD_TERMINATION \<equiv> 230"
abbreviation (input) DW_DLE_LLE_CODE_UNKNOWN :: dle where "DW_DLE_LLE_CODE_UNKNOWN \<equiv> 310"
abbreviation (input) DW_DLE_LOCATION_ERROR :: dle where "DW_DLE_LOCATION_ERROR \<equiv> 478"
abbreviation (input) DW_DLE_LOCLISTS_ERROR :: dle where "DW_DLE_LOCLISTS_ERROR \<equiv> 469"
abbreviation (input) DW_DLE_DEBUG_LOC_SECTION_SHORT :: dle where "DW_DLE_DEBUG_LOC_SECTION_SHORT \<equiv> 194"
abbreviation (input) DW_DLE_ARANGES_HEADER_ERROR :: dle where "DW_DLE_ARANGES_HEADER_ERROR \<equiv> 335"
abbreviation (input) DW_DLE_ARANGE_LENGTH_BAD :: dle where "DW_DLE_ARANGE_LENGTH_BAD \<equiv> 136"
abbreviation (input) DW_DLE_ARANGE_OFFSET_BAD :: dle where "DW_DLE_ARANGE_OFFSET_BAD \<equiv> 134"
abbreviation (input) DW_DLE_SEGMENT_SIZE_BAD :: dle where "DW_DLE_SEGMENT_SIZE_BAD \<equiv> 135"
abbreviation (input) DW_DLE_ARANGE_DECODE_ERROR :: dle where "DW_DLE_ARANGE_DECODE_ERROR \<equiv> 137"
abbreviation (input) DW_DLE_DEBUG_ADDR_ERROR :: dle where "DW_DLE_DEBUG_ADDR_ERROR \<equiv> 492"
abbreviation (input) DW_DLE_RNGLISTS_ERROR :: dle where "DW_DLE_RNGLISTS_ERROR \<equiv> 468"
abbreviation (input) DW_DLE_RLE_ERROR :: dle where "DW_DLE_RLE_ERROR \<equiv> 506"
abbreviation (input) DW_DLE_DEBUG_RANGES_OFFSET_BAD :: dle where "DW_DLE_DEBUG_RANGES_OFFSET_BAD \<equiv> 206"
abbreviation (input) DW_DLE_STR_OFFSETS_EXTRA_BYTES :: dle where "DW_DLE_STR_OFFSETS_EXTRA_BYTES \<equiv> 408"
abbreviation (input) DW_DLE_STR_OFFSETS_VERSION_WRONG :: dle where "DW_DLE_STR_OFFSETS_VERSION_WRONG \<equiv> 406"
abbreviation (input) DW_DLE_STR_OFFSETS_ARRAY_INDEX_WRONG :: dle where "DW_DLE_STR_OFFSETS_ARRAY_INDEX_WRONG \<equiv> 407"
abbreviation (input) DW_DLE_MACRO_VERSION_ERROR :: dle where "DW_DLE_MACRO_VERSION_ERROR \<equiv> 481"
abbreviation (input) DW_DLE_MACRO_OPCODE_BAD :: dle where "DW_DLE_MACRO_OPCODE_BAD \<equiv> 319"
abbreviation (input) DW_DLE_MACRO_OP_UNHANDLED :: dle where "DW_DLE_MACRO_OP_UNHANDLED \<equiv> 324"
abbreviation (input) DW_DLE_MACRO_PAST_END :: dle where "DW_DLE_MACRO_PAST_END \<equiv> 325"
abbreviation (input) DW_DLE_BAD_MACRO_INDEX :: dle where "DW_DLE_BAD_MACRO_INDEX \<equiv> 323"
abbreviation (input) DW_DLE_MACRO_OPCODE_FORM_BAD :: dle where "DW_DLE_MACRO_OPCODE_FORM_BAD \<equiv> 320"
abbreviation (input) DW_DLE_ERRONEOUS_XU_INDEX_SECTION :: dle where "DW_DLE_ERRONEOUS_XU_INDEX_SECTION \<equiv> 345"
abbreviation (input) DW_DLE_XU_HASH_ROW_ERROR :: dle where "DW_DLE_XU_HASH_ROW_ERROR \<equiv> 271"
abbreviation (input) DW_DLE_XU_HASH_INDEX_ERROR :: dle where "DW_DLE_XU_HASH_INDEX_ERROR \<equiv> 272"
abbreviation (input) DW_DLE_XU_NAME_COL_ERROR :: dle where "DW_DLE_XU_NAME_COL_ERROR \<equiv> 270"
abbreviation (input) DW_DLE_XU_TYPE_ARG_ERROR :: dle where "DW_DLE_XU_TYPE_ARG_ERROR \<equiv> 268"
abbreviation (input) DW_DLE_DEBUG_NAMES_ERROR :: dle where "DW_DLE_DEBUG_NAMES_ERROR \<equiv> 484"
abbreviation (input) DW_DLE_SIG_TYPE_WRONG_STRING :: dle where "DW_DLE_SIG_TYPE_WRONG_STRING \<equiv> 289"
abbreviation (input) DW_DLE_GLOBAL_NULL :: dle where "DW_DLE_GLOBAL_NULL \<equiv> 125"
abbreviation (input) DW_DLE_SECTION_SIZE_ERROR :: dle where "DW_DLE_SECTION_SIZE_ERROR \<equiv> 435"

text \<open>
  \<open>DW_DLV_OK\<close> with the values stored through the out-parameters, \<open>DW_DLV_NO_ENTRY\<close>,
  \<open>DW_DLV_ERROR\<close> with the error number, or a memory fault.
\<close>

datatype 'a dw = DW_OK 'a | DW_NO_ENTRY | DW_ERROR dle | FAULT

fun dw_bind :: "'a dw \<Rightarrow> ('a \<Rightarrow> 'b dw) \<Rightarrow> 'b dw" where
  "dw_bind (DW_OK x) f = f x"
| "dw_bind DW_NO_ENTRY f = DW_NO_ENTRY"
| "dw_bind (DW_ERROR e) f = DW_ERROR e"
| "dw_bind FAULT f = FAULT"

lemma dw_bind_OK_iff [dw_simps]: "dw_bind m f = DW_OK y \<longleftrightarrow> (\<exists>x. m = DW_OK x \<and> f x = DW_OK y)"
  by (cases m) auto

lemma dw_bind_FAULT_iff [dw_simps]: "dw_bind m f = FAULT \<longleftrightarrow> m = FAULT \<or> (\<exists>x. m = DW_OK x \<and> f x = FAULT)"
  by (cases m) auto

lemma dw_bind_OKE:
  assumes "dw_bind m f = DW_OK y"
  obtains x where "m = DW_OK x" "f x = DW_OK y"
  using assms by (auto simp: dw_bind_OK_iff)

lemma dw_bind_no_fault [intro]:
  "m \<noteq> FAULT \<Longrightarrow> (\<And>x. m = DW_OK x \<Longrightarrow> f x \<noteq> FAULT) \<Longrightarrow> dw_bind m f \<noteq> FAULT"
  by (cases m) auto

lemma dw_bind_assoc: "dw_bind (dw_bind m f) g = dw_bind m (\<lambda>x. dw_bind (f x) g)"
  by (cases m) auto

lemma dw_bind_return [simp]: "dw_bind m DW_OK = m"
  by (cases m) auto

lemma dw_bind_cong [fundef_cong]:
  "m = n \<Longrightarrow> (\<And>x. n = DW_OK x \<Longrightarrow> f x = g x) \<Longrightarrow> dw_bind m f = dw_bind n g"
  by (cases n) auto

text \<open>
  \<open>spec G P m\<close>: the computation does not fault under the guard, and its result satisfies the
  postcondition whenever it returns one. The rules below push it through a chain of binds.
\<close>

definition spec :: "bool \<Rightarrow> ('a \<Rightarrow> bool) \<Rightarrow> 'a dw \<Rightarrow> bool" where
  "spec G P m \<longleftrightarrow> (m = FAULT \<longrightarrow> \<not> G) \<and> (\<forall>x. m = DW_OK x \<longrightarrow> P x)"

lemma spec_OK [simp]: "spec G P (DW_OK x) = P x"
  by (simp add: spec_def)

lemma spec_ERROR [simp]: "spec G P (DW_ERROR e)" "spec G P DW_NO_ENTRY"
  by (simp_all add: spec_def)

lemma spec_FAULT [simp]: "spec G P FAULT = (\<not> G)"
  by (simp add: spec_def)

lemma spec_bind: "spec G P m \<Longrightarrow> (\<And>x. P x \<Longrightarrow> spec G Q (f x)) \<Longrightarrow> spec G Q (dw_bind m f)"
  by (cases m) (auto simp: spec_def)

lemma spec_bind_prod:
  "spec G (\<lambda>(x, y). P x y) m \<Longrightarrow> (\<And>x y. P x y \<Longrightarrow> spec G Q (f x y)) \<Longrightarrow>
   spec G Q (dw_bind m (\<lambda>(x, y). f x y))"
  by (cases m) (auto simp: spec_def)

lemma spec_bind_eq:
  "spec G P m \<Longrightarrow> (\<And>x. m = DW_OK x \<Longrightarrow> P x \<Longrightarrow> spec G Q (f x)) \<Longrightarrow> spec G Q (dw_bind m f)"
  by (cases m) (auto simp: spec_def)

lemma spec_skip: "(\<And>x. m = DW_OK x \<Longrightarrow> spec False Q (f x)) \<Longrightarrow> spec False Q (dw_bind m f)"
  by (cases m) (auto simp: spec_def)

lemma spec_skip_prod:
  "(\<And>x y. m = DW_OK (x, y) \<Longrightarrow> spec False Q (f x y)) \<Longrightarrow> spec False Q (dw_bind m (\<lambda>(x, y). f x y))"
  by (rule spec_skip) auto

lemma spec_if: "(b \<Longrightarrow> spec G P m) \<Longrightarrow> (\<not> b \<Longrightarrow> spec G P n) \<Longrightarrow> spec G P (if b then m else n)"
  by simp

lemma spec_no_fault: "spec G P m \<Longrightarrow> G \<Longrightarrow> m \<noteq> FAULT"
  by (simp add: spec_def)

lemma spec_result: "spec G P m \<Longrightarrow> m = DW_OK x \<Longrightarrow> P x"
  by (simp add: spec_def)

lemma spec_mono: "spec G P m \<Longrightarrow> (\<And>x. P x \<Longrightarrow> Q x) \<Longrightarrow> spec G Q m"
  by (auto simp: spec_def)

definition rd8 :: "bytes \<Rightarrow> ptr \<Rightarrow> u8 dw" where
  "rd8 buf p = (if p < length buf then DW_OK (buf ! p) else FAULT)"

lemma rd8_OK [simp]: "p < length buf \<Longrightarrow> rd8 buf p = DW_OK (buf ! p)"
  by (simp add: rd8_def)

lemma rd8_eq_OK: "rd8 buf p = DW_OK b \<longleftrightarrow> p < length buf \<and> b = buf ! p"
  by (auto simp: rd8_def)

lemma rd8_FAULT [simp]: "rd8 buf p = FAULT \<longleftrightarrow> length buf \<le> p"
  by (simp add: rd8_def)

lemma rd8_cases: "rd8 buf p = FAULT \<or> (\<exists>b. rd8 buf p = DW_OK b)"
  by (simp add: rd8_def)

section \<open>Words as bit fields\<close>

text \<open>Unsigned values are read as naturals throughout; keep \<^term>\<open>of_nat (unat w)\<close> folded.\<close>

declare of_nat_unat [simp del]

lemma u8_bound [simp]: "unat (b :: u8) < 256"
  using unsigned_less [of b] by simp

lemma u64_bound [simp]: "unat (w :: u64) < 18446744073709551616"
  using unsigned_less [of w] by simp

lemma u64_upper [simp]: "unat (w :: u64) \<le> 18446744073709551615"
  using u64_bound [of w] by linarith

lemma unat_ucast8 [simp]: "unat (ucast (b :: u8) :: u64) = unat b"
  by (simp add: unsigned_ucast_eq take_bit_nat_eq_self_iff less_trans [OF u8_bound])

lemma unat_ucast16 [simp]: "unat (ucast (b :: u16) :: u64) = unat b"
proof -
  have "unat b < 2 ^ 16" using unsigned_less [of b] by simp
  then have "unat b < 2 ^ 64" by simp
  then show ?thesis by (simp only: unsigned_ucast_eq) (simp add: take_bit_nat_eq_self_iff)
qed

lemma unat_ucast32 [simp]: "unat (ucast (b :: u32) :: u64) = unat b"
proof -
  have "unat b < 2 ^ 32" using unsigned_less [of b] by simp
  then have "unat b < 2 ^ 64" by simp
  then show ?thesis by (simp only: unsigned_ucast_eq) (simp add: take_bit_nat_eq_self_iff)
qed

lemma and_7f_mod: "unat (b AND 0x7f :: u8) = unat b mod 128"
proof -
  have "unat (b AND 0x7f) = take_bit 7 (unat b)"
    by (simp add: unsigned_and_eq take_bit_eq_mask mask_eq_exp_minus_1)
  then show ?thesis by (simp add: take_bit_eq_mod)
qed

lemma and_80_zero: "(b AND 0x80 = (0 :: u8)) \<longleftrightarrow> unat b < 128"
proof -
  have "(b AND 0x80 = 0) = (unat (b AND 0x80) = 0)"
    by (simp add: unat_eq_zero)
  also have "unat (b AND 0x80) = unat b AND 128"
    by (simp add: unsigned_and_eq)
  also have "(unat b AND 128 = 0) = (\<not> bit (unat b) 7)"
    using and_exp_eq_0_iff_not_bit [of "unat b" 7] by simp
  also have "\<dots> = even (unat b div 128)"
    by (simp add: bit_iff_odd)
  also have "\<dots> = (unat b < 128)"
  proof -
    have "unat b div 128 < 2"
      using u8_bound [of b] by (simp add: div_less_iff_less_mult del: u8_bound)
    then show ?thesis
      by (auto simp: less_2_cases_iff div_eq_0_iff)
  qed
  finally show ?thesis .
qed

lemma sint_of_small: "0 \<le> i \<Longrightarrow> i < 2 ^ 63 \<Longrightarrow> sint (word_of_int i :: u64) = i"
  by (simp add: signed_of_int signed_take_bit_int_eq_self)

lemma sint_of_small_nat: "n < 2 ^ 63 \<Longrightarrow> sint (word_of_nat n :: u64) = int n"
  using sint_of_small [of "int n"] by simp

lemma sint_nonneg_unat:
  assumes "0 \<le> sint (w :: u64)"
  shows "sint w = int (unat w)"
proof -
  have "sint w < 2 ^ 63" using sint_range_size [of w] by (simp add: word_size)
  then have "take_bit 64 (sint w) = sint w" using assms by (simp add: take_bit_int_eq_self_iff)
  then show ?thesis using uint_sint [of w] by (simp add: of_nat_unat)
qed

text \<open>Shifting a byte in above the bits a number already has is an addition.\<close>

lemma or_push_bit_add:
  assumes "m < 2 ^ s" and "s < 64"
  shows "(word_of_nat m :: u64) OR push_bit s (word_of_nat x) = word_of_nat (m + 2 ^ s * x)"
proof -
  have "(word_of_nat m :: u64) + push_bit s (word_of_nat x)
      = word_of_nat m OR push_bit s (word_of_nat x)"
  proof (rule disjunctive_add)
    fix n
    have "n < s \<or> \<not> bit m n"
    proof (rule disjCI)
      assume "\<not> \<not> bit m n"
      then show "n < s"
        using assms(1) by (metis bit_take_bit_iff take_bit_nat_eq_self)
    qed
    then show "\<not> bit (word_of_nat m :: u64) n \<or> \<not> bit (push_bit s (word_of_nat x :: u64)) n"
      by (auto simp: bit_push_bit_iff bit_of_nat_iff)
  qed
  then show ?thesis by (simp add: push_bit_eq_mult mult.commute)
qed

section \<open>The bytes a pair of pointers delimits\<close>

definition seg :: "bytes \<Rightarrow> ptr \<Rightarrow> ptr \<Rightarrow> bytes" where
  "seg buf p e = drop p (take e buf)"

lemma seg_Cons: "p < e \<Longrightarrow> e \<le> length buf \<Longrightarrow> seg buf p e = buf ! p # seg buf (Suc p) e"
  by (simp add: seg_def Cons_nth_drop_Suc [symmetric])

lemma seg_Nil [simp]: "e \<le> p \<Longrightarrow> seg buf p e = []"
  by (simp add: seg_def)

lemma length_seg [simp]: "e \<le> length buf \<Longrightarrow> length (seg buf p e) = e - p"
  by (simp add: seg_def)

lemma seg_append [simp]:
  "seg (xs @ ys @ zs) (length xs) (length xs + length ys) = ys"
  by (simp add: seg_def)

section \<open>Bounded readers\<close>

text \<open>
  The contract of every operation that consumes something encoded between a pointer and an
  end pointer: it stays inside a buffer that holds the end pointer, and when it succeeds it
  has moved forward and not past the end. A client of such a reader inherits both.
\<close>

locale bounded_reader =
  fixes read :: "bytes \<Rightarrow> ptr \<Rightarrow> ptr \<Rightarrow> ('v \<times> ptr) dw"
  assumes read_no_fault: "e \<le> length buf \<Longrightarrow> read buf p e \<noteq> FAULT"
    and read_advances: "read buf p e = DW_OK (v, p') \<Longrightarrow> p < p' \<and> p' \<le> e"
begin

lemma bind_no_fault:
  assumes "e \<le> length buf"
    and "\<And>v p'. read buf p e = DW_OK (v, p') \<Longrightarrow> p < p' \<Longrightarrow> p' \<le> e \<Longrightarrow> k v p' \<noteq> FAULT"
  shows "dw_bind (read buf p e) (\<lambda>(v, p'). k v p') \<noteq> FAULT"
  using assms read_no_fault read_advances by (auto simp: dw_simps)

lemma bind_OK:
  assumes "dw_bind (read buf p e) (\<lambda>(v, p'). k v p') = DW_OK r"
  obtains v p' where "read buf p e = DW_OK (v, p')" "p < p'" "p' \<le> e" "k v p' = DW_OK r"
  using assms read_advances by (auto simp: dw_simps)

text \<open>A counted sequence of items.\<close>

fun read_seq :: "nat \<Rightarrow> bytes \<Rightarrow> ptr \<Rightarrow> ptr \<Rightarrow> ('v list \<times> ptr) dw" where
  "read_seq 0 buf p e = DW_OK ([], p)"
| "read_seq (Suc n) buf p e =
     dw_bind (read buf p e) (\<lambda>(v, p'). dw_bind (read_seq n buf p' e) (\<lambda>(vs, p''). DW_OK (v # vs, p'')))"

lemma read_seq_no_fault: "e \<le> length buf \<Longrightarrow> read_seq n buf p e \<noteq> FAULT"
proof (induction n arbitrary: p)
  case (Suc n)
  show ?case unfolding read_seq.simps
    by (rule bind_no_fault [OF Suc.prems]) (use Suc in \<open>auto simp: dw_simps\<close>)
qed simp

lemma read_seq_advances:
  "read_seq n buf p e = DW_OK (vs, p') \<Longrightarrow> p \<le> e \<Longrightarrow> length vs = n \<and> p + n \<le> p' \<and> p' \<le> e"
proof (induction n arbitrary: p vs)
  case (Suc n)
  then obtain v q ws where r: "read buf p e = DW_OK (v, q)"
    "read_seq n buf q e = DW_OK (ws, p')" "vs = v # ws"
    by (auto simp: dw_simps)
  then show ?case using Suc.IH [OF r(2)] read_advances [OF r(1)] by auto
qed simp

end

end
