(* ===== verification/SafeArith.thy ===== *)
theory SafeArith
  imports Prelude "HOL-Library.Signed_Division"
begin

text \<open>
  \<open>dwarf_safe_arithmetic.c\<close>: 64 bit arithmetic that reports an overflow. The signed
  operands are words read with \<^const>\<open>sint\<close>; the divisions of the tests truncate towards
  zero as those of C do. The unsigned operations return \<open>DW_DLV_ERROR\<close> without an error
  object, with whatever they have stored.
\<close>

section \<open>The operations\<close>

datatype dlv = DLV_OK | DLV_NO_ENTRY | DLV_ERROR

abbreviation (input) LLONG_MAX :: int where "LLONG_MAX \<equiv> 0x7fffffffffffffff"
abbreviation (input) LLONG_MIN :: int where "LLONG_MIN \<equiv> - 0x8000000000000000"

definition int64_mult :: "s64 \<Rightarrow> s64 \<Rightarrow> s64 dw" where
  "int64_mult x y =
     (if x = 0 \<or> y = 0 then DW_OK 0
      else if 0 < sint x \<and> 0 < sint y \<and> sint x > LLONG_MAX sdiv sint y
        then DW_ERROR DW_DLE_ARITHMETIC_OVERFLOW
      else if sint x < 0 \<and> 0 < sint y \<and> sint x < LLONG_MIN sdiv sint y
        then DW_ERROR DW_DLE_ARITHMETIC_OVERFLOW
      else if 0 < sint x \<and> sint y < 0 \<and> sint y < LLONG_MIN sdiv sint x
        then DW_ERROR DW_DLE_ARITHMETIC_OVERFLOW
      else if sint x < 0 \<and> sint y < 0 \<and>
          (sint x \<le> LLONG_MIN \<or> sint y \<le> LLONG_MIN \<or> - sint x > LLONG_MAX sdiv (- sint y))
        then DW_ERROR DW_DLE_ARITHMETIC_OVERFLOW
      else DW_OK (x * y))"

definition uint64_mult :: "u64 \<Rightarrow> u64 \<Rightarrow> dlv \<times> u64" where
  "uint64_mult x y =
     (let computed = x * y in
      if x = 0 \<or> y = 0 then (DLV_OK, computed)
      else if computed div y \<noteq> x then (DLV_ERROR, computed)
      else (DLV_OK, computed))"

definition uint64_add :: "u64 \<Rightarrow> u64 \<Rightarrow> u64 \<Rightarrow> dlv \<times> u64" where
  "uint64_add dw_lhs dw_rhs result =
     (let computed = dw_lhs + dw_rhs in
      if dw_lhs = 0 \<or> dw_rhs = 0 then (DLV_OK, computed)
      else
        let bigger = (if dw_lhs > dw_rhs then dw_lhs else dw_rhs) in
        if computed < bigger then (DLV_ERROR, result) else (DLV_OK, computed))"

section \<open>Exactness\<close>

lemma sint_s64_bounds: "LLONG_MIN \<le> sint (w :: s64)" "sint (w :: s64) \<le> LLONG_MAX"
  using sint_range_size [of w] by (simp_all add: word_size)

lemma sdiv_pos: "0 \<le> a \<Longrightarrow> 0 < b \<Longrightarrow> a sdiv b = a div (b :: int)"
  by (cases "a = 0") (simp_all add: signed_divide_int_def)

lemma sdiv_neg: "a < 0 \<Longrightarrow> 0 < b \<Longrightarrow> a sdiv b = - ((- a) div (b :: int))"
  by (simp add: signed_divide_int_def)

text \<open>The division tests are tests of the exact product.\<close>

lemma less_div_iff_mult: "0 < b \<Longrightarrow> a div b < x \<longleftrightarrow> (a :: int) < x * b"
proof -
  assume b: "0 < b"
  have a: "a = a div b * b + a mod b" by simp
  have m: "0 \<le> a mod b" "a mod b < b" using b by simp_all
  show ?thesis
  proof
    assume "a div b < x"
    then have "(a div b + 1) * b \<le> x * b" using b by (intro mult_right_mono) simp_all
    then have "a div b * b + b \<le> x * b" by (simp only: distrib_right mult_1)
    then show "a < x * b" using m a by linarith
  next
    assume lt: "a < x * b"
    show "a div b < x"
    proof (rule ccontr)
      assume "\<not> a div b < x"
      then have "x * b \<le> a div b * b" using b by (intro mult_right_mono) simp_all
      then show False using m a lt by linarith
    qed
  qed
qed

lemma product_fits:
  assumes "x \<noteq> 0" "y \<noteq> 0"
  shows "int64_mult x y =
    (if LLONG_MIN \<le> sint x * sint y \<and> sint x * sint y \<le> LLONG_MAX then DW_OK (x * y)
     else DW_ERROR DW_DLE_ARITHMETIC_OVERFLOW)"
proof -
  define a b where "a = sint x" and "b = sint y"
  have nz: "a \<noteq> 0" "b \<noteq> 0" using assms by (simp_all add: a_def b_def signed_eq_0_iff)
  have r: "LLONG_MIN \<le> a" "a \<le> LLONG_MAX" "LLONG_MIN \<le> b" "b \<le> LLONG_MAX"
    using sint_s64_bounds by (simp_all add: a_def b_def)
  consider (pp) "0 < a" "0 < b" | (np) "a < 0" "0 < b" | (pn) "0 < a" "b < 0" | (nn) "a < 0" "b < 0"
    using nz by linarith
  then show ?thesis
  proof cases
    case pp
    then have "0 < a * b" by simp
    then have "LLONG_MIN \<le> a * b" by linarith
    then show ?thesis using pp assms less_div_iff_mult [of b LLONG_MAX a]
      by (auto simp: int64_mult_def a_def [symmetric] b_def [symmetric] sdiv_pos)
  next
    case np
    then have "a * b < 0" by (simp add: mult_neg_pos)
    moreover have "a < LLONG_MIN sdiv b \<longleftrightarrow> a * b < LLONG_MIN"
      using less_div_iff_mult [of b "- LLONG_MIN" "- a"] np by (auto simp: sdiv_neg sdiv_pos)
    ultimately show ?thesis using np assms
      by (auto simp: int64_mult_def a_def [symmetric] b_def [symmetric])
  next
    case pn
    then have "a * b < 0" by (simp add: mult_pos_neg)
    moreover have "b < LLONG_MIN sdiv a \<longleftrightarrow> a * b < LLONG_MIN"
      using less_div_iff_mult [of a "- LLONG_MIN" "- b"] pn
      by (auto simp: sdiv_neg sdiv_pos mult.commute)
    ultimately show ?thesis using pn assms
      by (auto simp: int64_mult_def a_def [symmetric] b_def [symmetric])
  next
    case nn
    then have "0 < a * b" by (simp add: mult_neg_neg)
    moreover have "- a > LLONG_MAX sdiv (- b) \<longleftrightarrow> a * b > LLONG_MAX"
    proof -
      have "LLONG_MAX sdiv (- b) = LLONG_MAX div (- b)" by (rule sdiv_pos) (use nn in simp_all)
      then show ?thesis
        using less_div_iff_mult [of "- b" LLONG_MAX "- a"] nn by (simp only: minus_mult_minus)
    qed
    moreover have "a \<le> LLONG_MIN \<Longrightarrow> a * b > LLONG_MAX"
      using nn r mult_mono [of "- LLONG_MIN" "- a" 1 "- b"] by simp
    moreover have "b \<le> LLONG_MIN \<Longrightarrow> a * b > LLONG_MAX"
      using nn r mult_mono [of 1 "- a" "- LLONG_MIN" "- b"] by simp
    ultimately show ?thesis using nn assms
      by (auto simp: int64_mult_def a_def [symmetric] b_def [symmetric])
  qed
qed

lemma sint_mult_exact:
  assumes "LLONG_MIN \<le> sint x * sint y" "sint x * sint y \<le> LLONG_MAX"
  shows "sint (x * y :: s64) = sint x * sint y"
  using assms by (simp add: sint_word_ariths signed_take_bit_int_eq_self)

lemma unat_mult_exact: "unat x * unat y < 2 ^ 64 \<Longrightarrow> unat (x * y :: u64) = unat x * unat y"
  by (simp add: unat_word_ariths)

section \<open>Properties\<close>

text \<open>
  C37: The signed multiplication succeeds exactly when the product is a 64 bit integer, the two
  extreme operands included, and then its result is the product.
\<close>

theorem int64_mult_exact:
  "(\<exists>r. int64_mult x y = DW_OK r) = (LLONG_MIN \<le> sint x * sint y \<and> sint x * sint y \<le> LLONG_MAX) \<and>
   (\<forall>r. int64_mult x y = DW_OK r \<longrightarrow> sint r = sint x * sint y) \<and>
   int64_mult x y \<noteq> FAULT"
proof (cases "x = 0 \<or> y = 0")
  case True
  then show ?thesis by (auto simp: int64_mult_def)
next
  case False
  then show ?thesis using product_fits [of x y] sint_mult_exact [of x y] by simp
qed

theorem int64_mult_exact_witness:
  "int64_mult 3 (- 5) = DW_OK (- 15) \<and> sint (- 15 :: s64) = sint (3 :: s64) * sint (- 5 :: s64)"
proof -
  have "int64_mult 3 (- 5) = DW_OK (- 15)" by code_simp
  then show ?thesis using int64_mult_exact [of 3 "- 5"] by blast
qed

lemma mult_div_exact:
  assumes y: "y \<noteq> 0"
  shows "x * y div y = x \<longleftrightarrow> unat x * unat (y :: u64) < 2 ^ 64"
proof
  assume "unat x * unat y < 2 ^ 64"
  then have "unat (x * y div y) = unat x"
    using y by (simp add: unat_div_distrib unat_mult_exact unat_eq_0)
  then show "x * y div y = x" by (rule word_unat_eq_iff [THEN iffD2])
next
  assume "x * y div y = x"
  then have "unat x = unat (x * y) div unat y" by (metis unat_div_distrib)
  then have "unat x * unat y \<le> unat (x * y)" by (metis div_times_less_eq_dividend)
  then show "unat x * unat y < 2 ^ 64" by (rule le_less_trans) simp
qed

text \<open>
  The unsigned multiplication and addition report an error exactly when the result does not
  fit in 64 bits; otherwise they store the exact sum or product.
\<close>

theorem uint64_arithmetic_exact:
  "(fst (uint64_mult x y) = DLV_OK \<longleftrightarrow> unat x * unat y < 2 ^ 64) \<and>
   (fst (uint64_add x y r) = DLV_OK \<longleftrightarrow> unat x + unat y < 2 ^ 64) \<and>
   (fst (uint64_mult x y) = DLV_OK \<longrightarrow> unat (snd (uint64_mult x y)) = unat x * unat y) \<and>
   (fst (uint64_add x y r) = DLV_OK \<longrightarrow> unat (snd (uint64_add x y r)) = unat x + unat y)"
proof -
  have add: "x + y < (if x > y then x else y) \<longleftrightarrow> \<not> unat x + unat y < 2 ^ 64"
    using u64_bound [of x] u64_bound [of y]
    by (auto simp: word_less_nat_alt unat_word_ariths mod_if simp del: u64_bound)
  have z: "unat (0 :: u64) = 0" by simp
  have sum: "unat x + unat y < 2 ^ 64 \<Longrightarrow> unat (x + y) = unat x + unat y"
    by (simp add: unat_word_ariths)
  show ?thesis
    using mult_div_exact [of y x] add sum unat_mult_exact [of x y]
    by (auto simp: uint64_mult_def uint64_add_def Let_def)
qed

theorem uint64_arithmetic_exact_witness:
  "unat (snd (uint64_mult 6 7)) = 42 \<and> fst (uint64_add (2 ^ 63) (2 ^ 63) 0) = DLV_ERROR"
proof -
  have "fst (uint64_mult 6 7) = DLV_OK" by code_simp
  moreover have "fst (uint64_add (2 ^ 63) (2 ^ 63) 0) = DLV_ERROR" by code_simp
  ultimately show ?thesis using uint64_arithmetic_exact [of 6 7 0] by simp
qed

end
