(* ===== verification/Leb.thy ===== *)
theory Leb
  imports Prelude
begin

text \<open>
  \<open>dwarf_leb.c\<close>: the variable length integers of DWARF. The decoders walk a pointer
  towards the end pointer and keep the C function's local variables as arguments of a
  loop; the encoders write at most the space they are given.
\<close>

section \<open>The decoders\<close>

text \<open>
  The result of a decoder: \<open>DW_DLV_OK\<close> with the stored length and value,
  \<open>DW_DLV_ERROR\<close> with the length the code stores on some of its error exits, or a read
  outside the buffer. The optional out-pointers of the C functions are taken as given
  (a null pointer only skips its store), but for \<open>outval\<close> of the signed decoder,
  whose absence is an error.
\<close>

datatype 'v leb_result = LEB_OK nat 'v | LEB_ERROR "nat option" | LEB_FAULT

definition BYTESLEBMAX :: nat where
  "BYTESLEBMAX = 24"

function skip_leb128_loop :: "bytes \<Rightarrow> ptr \<Rightarrow> nat \<Rightarrow> ptr \<Rightarrow> unit leb_result" where
  "skip_leb128_loop buf leb128 byte_length endptr =
     (if leb128 \<ge> endptr then LEB_ERROR None
      else if leb128 \<ge> length buf then LEB_FAULT
      else if buf ! leb128 AND 0x80 \<noteq> 0 then
        if byte_length \<ge> BYTESLEBMAX then LEB_ERROR None
        else skip_leb128_loop buf (leb128 + 1) (byte_length + 1) endptr
      else LEB_OK byte_length ())"
  by pat_completeness auto
termination
  by (relation "measure (\<lambda>(buf, p, n, e). e - p)") auto

declare skip_leb128_loop.simps [simp del]

definition skip_leb128 :: "bytes \<Rightarrow> ptr \<Rightarrow> ptr \<Rightarrow> unit leb_result" where
  "skip_leb128 buf leb128 endptr =
     (if leb128 \<ge> endptr then LEB_ERROR None
      else if leb128 \<ge> length buf then LEB_FAULT
      else if buf ! leb128 AND 0x80 = 0 then LEB_OK 1 ()
      else if leb128 + 1 \<ge> endptr then LEB_ERROR None
      else if leb128 + 1 \<ge> length buf then LEB_FAULT
      else if buf ! (leb128 + 1) AND 0x80 = 0 then LEB_OK 2 ()
      else skip_leb128_loop buf (leb128 + 1) 2 endptr)"

text \<open>
  The loop of \<open>dwarf_decode_leb128\<close>: \<open>byte\<close> is the byte at \<open>leb128\<close>, already read.
  Once the shift has passed 64 bits only padding is expected, and the byte that follows
  is fetched even when the present one has no continuation bit.
\<close>

function decode_leb128_loop ::
  "bytes \<Rightarrow> ptr \<Rightarrow> ptr \<Rightarrow> u8 \<Rightarrow> u64 \<Rightarrow> nat \<Rightarrow> nat \<Rightarrow> u64 leb_result"
where
  "decode_leb128_loop buf leb128 endptr byte number shift byte_length =
     (let b = byte AND 0x7f in
      if shift \<ge> 64 then
        if b = 0 then
          if byte_length \<ge> BYTESLEBMAX then LEB_ERROR (Some BYTESLEBMAX)
          else if leb128 + 1 \<ge> endptr then
            if leb128 + 1 = endptr \<and> byte = 0 then LEB_OK byte_length number
            else LEB_ERROR None
          else if leb128 + 1 \<ge> length buf then LEB_FAULT
          else decode_leb128_loop buf (leb128 + 1) endptr (buf ! (leb128 + 1)) number
                 (shift + 7) (byte_length + 1)
        else LEB_ERROR None
      else
        let number' = number OR push_bit shift (ucast b) in
        if byte AND 0x80 = 0 then LEB_OK byte_length number'
        else if byte_length + 1 > BYTESLEBMAX then LEB_ERROR (Some BYTESLEBMAX)
        else if leb128 + 1 \<ge> endptr then LEB_ERROR None
        else if leb128 + 1 \<ge> length buf then LEB_FAULT
        else decode_leb128_loop buf (leb128 + 1) endptr (buf ! (leb128 + 1)) number'
               (shift + 7) (byte_length + 1))"
  by pat_completeness auto
termination
  by (relation "measure (\<lambda>(buf, p, e, b, n, s, l). e - p)") auto

declare decode_leb128_loop.simps [simp del]

definition decode_leb128 :: "bytes \<Rightarrow> ptr \<Rightarrow> ptr \<Rightarrow> u64 leb_result" where
  "decode_leb128 buf leb128 endptr =
     (if leb128 \<ge> endptr then LEB_ERROR None
      else if leb128 \<ge> length buf then LEB_FAULT
      else
        let byte = buf ! leb128 in
        if byte AND 0x80 = 0 then LEB_OK 1 (ucast byte)
        else if leb128 + 1 \<ge> endptr then LEB_ERROR None
        else if leb128 + 1 \<ge> length buf then LEB_FAULT
        else
          let byte2 = buf ! (leb128 + 1) in
          if byte2 AND 0x80 = 0 then
            LEB_OK 2 (ucast (byte AND 0x7f) OR push_bit 7 (ucast (byte2 AND 0x7f)))
          else decode_leb128_loop buf leb128 endptr byte 0 0 1)"

text \<open>The tail of \<open>dwarf_decode_signed_leb128\<close>: extend the sign and store.\<close>

definition sign_extend :: "bool \<Rightarrow> nat \<Rightarrow> s64 \<Rightarrow> s64" where
  "sign_extend sign shift number =
     (if sign then
        if shift < 63 then number OR - push_bit shift 1
        else if shift = 63 then number OR push_bit shift 1
        else number OR push_bit 63 1
      else number)"

function decode_signed_leb128_loop ::
  "bytes \<Rightarrow> ptr \<Rightarrow> ptr \<Rightarrow> u8 \<Rightarrow> s64 \<Rightarrow> nat \<Rightarrow> nat \<Rightarrow> s64 leb_result"
where
  "decode_signed_leb128_loop buf leb128 endptr byte number shift byte_length =
     (let b = byte AND 0x7f; sign = (b AND 0x40 \<noteq> 0) in
      if shift \<ge> 64 then
        if byte = 0 \<or> byte = 0x40 then LEB_OK byte_length (sign_extend sign shift number)
        else if b = 0 then
          if byte_length + 1 > BYTESLEBMAX then LEB_ERROR (Some BYTESLEBMAX)
          else if leb128 + 1 \<ge> endptr then LEB_ERROR None
          else if leb128 + 1 \<ge> length buf then LEB_FAULT
          else decode_signed_leb128_loop buf (leb128 + 1) endptr (buf ! (leb128 + 1)) number
                 (shift + 7) (byte_length + 1)
        else LEB_ERROR None
      else
        let number' = number OR push_bit shift (ucast b) in
        if byte AND 0x80 = 0 then
          LEB_OK byte_length (sign_extend sign (shift + 7) number')
        else if leb128 + 1 \<ge> endptr then LEB_ERROR None
        else if leb128 + 1 \<ge> length buf then LEB_FAULT
        else if byte_length + 1 > BYTESLEBMAX then LEB_ERROR (Some BYTESLEBMAX)
        else decode_signed_leb128_loop buf (leb128 + 1) endptr (buf ! (leb128 + 1)) number'
               (shift + 7) (byte_length + 1))"
  by pat_completeness auto
termination
  by (relation "measure (\<lambda>(buf, p, e, b, n, s, l). e - p)") auto

declare decode_signed_leb128_loop.simps [simp del]

definition decode_signed_leb128 :: "bytes \<Rightarrow> ptr \<Rightarrow> bool \<Rightarrow> ptr \<Rightarrow> s64 leb_result" where
  "decode_signed_leb128 buf leb128 outval_given endptr =
     (if \<not> outval_given then LEB_ERROR None
      else if leb128 \<ge> endptr then LEB_ERROR None
      else if leb128 \<ge> length buf then LEB_FAULT
      else decode_signed_leb128_loop buf leb128 endptr (buf ! leb128) 0 0 1)"

section \<open>The encoders\<close>

text \<open>
  The bytes are appended to what has been written; \<open>splen\<close> is the caller's signed space
  length. The result is the byte string, whose length is the stored \<open>nbytes\<close>, or
  \<open>None\<close> for \<open>DW_DLV_ERROR\<close>.
\<close>

function encode_leb128_loop :: "u64 \<Rightarrow> int \<Rightarrow> bytes \<Rightarrow> bytes option" where
  "encode_leb128_loop val splen out =
     (if int (length out) \<ge> splen then None
      else
        let uc = ucast (val AND 0x7f) :: u8; val' = drop_bit 7 val in
        if val' \<noteq> 0 then encode_leb128_loop val' splen (out @ [uc OR 0x80])
        else Some (out @ [uc]))"
  by pat_completeness auto
termination
  by (relation "measure (\<lambda>(val, splen, out). nat (splen - int (length out)))") auto

declare encode_leb128_loop.simps [simp del]

definition encode_leb128 :: "u64 \<Rightarrow> int \<Rightarrow> bytes option" where
  "encode_leb128 val splen = encode_leb128_loop val splen []"

function encode_signed_leb128_loop :: "s64 \<Rightarrow> s64 \<Rightarrow> int \<Rightarrow> bytes \<Rightarrow> bytes option" where
  "encode_signed_leb128_loop sign value splen out =
     (let byte = ucast (value AND 0x7f) :: u8; value' = signed_drop_bit 7 value in
      if int (length out) \<ge> splen then None
      else if value' = sign \<and> (ucast (byte AND 0x40) :: s64) = sign AND 0x40 then
        Some (out @ [byte])
      else encode_signed_leb128_loop sign value' splen (out @ [byte OR 0x80]))"
  by pat_completeness auto
termination
  by (relation "measure (\<lambda>(sign, value, splen, out). nat (splen - int (length out)))") auto

declare encode_signed_leb128_loop.simps [simp del]

definition encode_signed_leb128 :: "s64 \<Rightarrow> int \<Rightarrow> bytes option" where
  "encode_signed_leb128 value splen =
     encode_signed_leb128_loop (if value <s 0 then -1 else 0) value splen []"

section \<open>What an unsigned LEB128 string means\<close>

text \<open>
  \<open>uleb_length\<close> is the number of bytes up to and including the first one without the
  continuation bit, \<open>uleb_value\<close> the number those bytes denote.
\<close>

lemma ucast_and_7f: "(ucast (b AND 0x7f :: u8) :: u64) = word_of_nat (unat b mod 128)"
  by (metis and_7f_mod of_nat_unat)

fun uleb_length :: "bytes \<Rightarrow> nat option" where
  "uleb_length [] = None"
| "uleb_length (b # bs) = (if unat b < 128 then Some 1 else map_option Suc (uleb_length bs))"

fun uleb_value :: "bytes \<Rightarrow> nat" where
  "uleb_value [] = 0"
| "uleb_value (b # bs) = unat b mod 128 + (if unat b < 128 then 0 else 128 * uleb_value bs)"

lemma uleb_length_pos: "uleb_length bs = Some n \<Longrightarrow> 0 < n \<and> n \<le> length bs"
  by (induction bs arbitrary: n) (auto split: if_splits)

lemma uleb_length_append: "uleb_length xs = Some n \<Longrightarrow> uleb_length (xs @ ys) = Some n"
  by (induction xs arbitrary: n) (auto split: if_splits)

lemma uleb_value_append: "uleb_length xs = Some n \<Longrightarrow> uleb_value (xs @ ys) = uleb_value xs"
  by (induction xs arbitrary: n) (auto split: if_splits)

lemma uleb_value_bound: "uleb_length bs = Some n \<Longrightarrow> uleb_value bs < 2 ^ (7 * n)"
proof (induction bs arbitrary: n)
  case (Cons b bs)
  show ?case
  proof (cases "unat b < 128")
    case False
    with Cons.prems obtain n' where n': "uleb_length bs = Some n'" "n = Suc n'" by auto
    from Cons.IH [OF n'(1)] have "uleb_value bs + 1 \<le> 2 ^ (7 * n')" by simp
    then have "128 * (uleb_value bs + 1) \<le> 128 * 2 ^ (7 * n')" by (rule mult_le_mono2)
    moreover have "unat b mod 128 < 128" by simp
    ultimately show ?thesis using False n'(2) by (simp add: power_add)
  qed (use Cons.prems in auto)
qed simp

lemma skip_leb128_loop_eq:
  assumes "e \<le> length buf" and "k \<le> 24"
  shows "skip_leb128_loop buf p k e =
    (case uleb_length (seg buf p e) of None \<Rightarrow> LEB_ERROR None
     | Some n \<Rightarrow> if k + n \<le> 25 then LEB_OK (k + n - 1) () else LEB_ERROR None)"
  using assms
proof (induction buf p k e rule: skip_leb128_loop.induct)
  case (1 buf p k e)
  show ?case
  proof (cases "p < e")
    case True
    then have s: "seg buf p e = buf ! p # seg buf (p + 1) e"
      using "1.prems" by (simp add: seg_Cons)
    show ?thesis
      using 1 True s
      by (subst skip_leb128_loop.simps)
        (auto simp: and_80_zero BYTESLEBMAX_def dest: uleb_length_pos split: option.splits)
  qed (simp add: skip_leb128_loop.simps)
qed

lemma skip_leb128_eq:
  assumes "e \<le> length buf"
  shows "skip_leb128 buf p e =
    (case uleb_length (seg buf p e) of None \<Rightarrow> LEB_ERROR None
     | Some n \<Rightarrow> if n \<le> 24 then LEB_OK n () else LEB_ERROR None)"
proof (cases "p < e")
  case True
  then have s: "seg buf p e = buf ! p # seg buf (p + 1) e"
    using assms by (simp add: seg_Cons)
  show ?thesis
    using assms True s
    by (auto simp: skip_leb128_def and_80_zero skip_leb128_loop_eq seg_Cons [of "Suc p" e buf]
        split: option.splits)
qed (simp add: skip_leb128_def)

lemma decode_leb128_loop_eq:
  assumes "p < e" "e \<le> length buf" "uleb_length (seg buf p e) = Some n"
    and "n + k \<le> 10" "m < 2 ^ (7 * k)"
  shows "decode_leb128_loop buf p e (buf ! p) (word_of_nat m) (7 * k) (Suc k) =
    LEB_OK (n + k) (word_of_nat (m + 2 ^ (7 * k) * uleb_value (seg buf p e)))"
  using assms
proof (induction n arbitrary: p k m)
  case 0
  then show ?case using uleb_length_pos by fastforce
next
  case (Suc n)
  let ?b = "buf ! p" and ?m = "m + 2 ^ (7 * k) * (unat (buf ! p) mod 128)"
  have s: "seg buf p e = ?b # seg buf (Suc p) e"
    using Suc.prems by (simp add: seg_Cons)
  have k: "7 * k < 64" using Suc.prems(4) by simp
  have number: "(word_of_nat m :: u64) OR push_bit (7 * k) (ucast (?b AND 0x7f)) = word_of_nat ?m"
    using or_push_bit_add [OF Suc.prems(5) k] by (simp add: ucast_and_7f)
  show ?case
  proof (cases "unat ?b < 128")
    case True
    then show ?thesis
      using Suc.prems(3) s k number
      by (subst decode_leb128_loop.simps) (simp add: Let_def and_80_zero)
  next
    case False
    then have n: "uleb_length (seg buf (Suc p) e) = Some n" using Suc.prems(3) s by auto
    then have pe: "Suc p < e" by (metis not_less option.distinct(1) seg_Nil uleb_length.simps(1))
    have "?m < 2 ^ (7 * Suc k)"
    proof -
      have "?m < 2 ^ (7 * k) + 2 ^ (7 * k) * (unat ?b mod 128)" using Suc.prems(5) by simp
      also have "\<dots> = 2 ^ (7 * k) * (unat ?b mod 128 + 1)" by (simp add: algebra_simps)
      also have "\<dots> \<le> 2 ^ (7 * k) * 128" by (rule mult_le_mono2) (simp add: Suc_leI)
      finally show ?thesis by (simp add: power_add)
    qed
    from Suc.IH [OF pe Suc.prems(2) n _ this]
    have "decode_leb128_loop buf (Suc p) e (buf ! Suc p) (word_of_nat ?m) (7 * Suc k) (Suc (Suc k))
        = LEB_OK (n + Suc k) (word_of_nat (?m + 2 ^ (7 * Suc k) * uleb_value (seg buf (Suc p) e)))"
      using Suc.prems(4) by simp
    then show ?thesis
      using False pe k number Suc.prems(2,4) s
      by (subst decode_leb128_loop.simps)
        (simp add: Let_def and_80_zero BYTESLEBMAX_def algebra_simps power_add)
  qed
qed

lemma decode_leb128_eq:
  assumes "e \<le> length buf" "uleb_length (seg buf p e) = Some n" "n \<le> 10"
  shows "decode_leb128 buf p e = LEB_OK n (word_of_nat (uleb_value (seg buf p e)))"
proof -
  have pe: "p < e" using assms by (metis not_less option.distinct(1) seg_Nil uleb_length.simps(1))
  have s: "seg buf p e = buf ! p # seg buf (Suc p) e" using pe assms by (simp add: seg_Cons)
  have loop: "decode_leb128_loop buf p e (buf ! p) 0 0 1 =
      LEB_OK n (word_of_nat (uleb_value (seg buf p e)))"
    using decode_leb128_loop_eq [of p e buf n 0 0] pe assms by simp
  show ?thesis
  proof (cases "unat (buf ! p) < 128")
    case True
    then show ?thesis using assms pe s
      by (simp add: decode_leb128_def Let_def and_80_zero of_nat_unat)
  next
    case False
    then have pe': "Suc p < e" using assms s
      by (metis map_option_is_None not_less option.distinct(1) seg_Nil uleb_length.simps)
    then have s': "seg buf (Suc p) e = buf ! Suc p # seg buf (Suc (Suc p)) e"
      using assms by (simp add: seg_Cons)
    show ?thesis
    proof (cases "unat (buf ! Suc p) < 128")
      case True
      then show ?thesis
        using False assms pe pe' s s' or_push_bit_add [of "unat (buf ! p) mod 128" 7 "unat (buf ! Suc p) mod 128"]
        by (simp add: decode_leb128_def Let_def and_80_zero ucast_and_7f)
    next
      case False
      then show ?thesis using \<open>\<not> unat (buf ! p) < 128\<close> loop assms pe pe'
        by (simp add: decode_leb128_def Let_def and_80_zero)
    qed
  qed
qed

section \<open>Safety and progress of the decoders\<close>


lemma skip_leb128_loop_OK:
  "skip_leb128_loop buf p k e = LEB_OK n u \<Longrightarrow> k \<le> 24 \<Longrightarrow> k \<le> n \<and> n \<le> 24 \<and> p + n < e + k"
proof (induction buf p k e rule: skip_leb128_loop.induct)
  case (1 buf p k e)
  show ?case
    using 1 "1.prems"(1)[unfolded skip_leb128_loop.simps [of buf p k e]]
    by (fastforce simp: BYTESLEBMAX_def split: if_splits)
qed

lemma skip_leb128_OK:
  assumes "skip_leb128 buf p e = LEB_OK n u"
  shows "0 < n \<and> n \<le> 24 \<and> p + n \<le> e"
  using assms skip_leb128_loop_OK [of buf "p + 1" 2 e n u]
  by (auto simp: skip_leb128_def split: if_splits)

lemma skip_leb128_no_fault [no_fault]: "e \<le> length buf \<Longrightarrow> skip_leb128 buf p e \<noteq> LEB_FAULT"
  by (simp add: skip_leb128_eq split: option.splits)

lemma decode_leb128_loop_no_fault:
  "decode_leb128_loop buf p e b v s k = LEB_FAULT \<Longrightarrow> length buf < e"
proof (induction buf p e b v s k rule: decode_leb128_loop.induct)
  case (1 buf p e b v s k)
  show ?case
    using 1 "1.prems"(1)[unfolded decode_leb128_loop.simps [of buf p e b v s k]]
    by (fastforce simp: Let_def split: if_splits)
qed

lemma decode_leb128_loop_OK:
  "decode_leb128_loop buf p e b v s k = LEB_OK n w \<Longrightarrow> p < e \<Longrightarrow> k \<le> 24 \<Longrightarrow>
   k \<le> n \<and> n \<le> 24 \<and> p + n < e + k"
proof (induction buf p e b v s k rule: decode_leb128_loop.induct)
  case (1 buf p e b v s k)
  show ?case
    using 1 "1.prems"(1)[unfolded decode_leb128_loop.simps [of buf p e b v s k]]
    by (fastforce simp: Let_def BYTESLEBMAX_def split: if_splits)
qed

lemma decode_leb128_no_fault [no_fault]: "e \<le> length buf \<Longrightarrow> decode_leb128 buf p e \<noteq> LEB_FAULT"
  using decode_leb128_loop_no_fault by (fastforce simp: decode_leb128_def Let_def split: if_splits)

lemma decode_leb128_OK:
  assumes "decode_leb128 buf p e = LEB_OK n v"
  shows "0 < n \<and> n \<le> 24 \<and> p + n \<le> e"
  using assms decode_leb128_loop_OK [of buf p e "buf ! p" 0 0 1 n v]
  by (auto simp: decode_leb128_def Let_def split: if_splits)

lemma decode_signed_leb128_loop_no_fault:
  "decode_signed_leb128_loop buf p e b v s k = LEB_FAULT \<Longrightarrow> length buf < e"
proof (induction buf p e b v s k rule: decode_signed_leb128_loop.induct)
  case (1 buf p e b v s k)
  show ?case
    using 1 "1.prems"(1)[unfolded decode_signed_leb128_loop.simps [of buf p e b v s k]]
    by (fastforce simp: Let_def split: if_splits)
qed

lemma decode_signed_leb128_loop_OK:
  "decode_signed_leb128_loop buf p e b v s k = LEB_OK n w \<Longrightarrow> p < e \<Longrightarrow> k \<le> 24 \<Longrightarrow>
   k \<le> n \<and> n \<le> 24 \<and> p + n < e + k"
proof (induction buf p e b v s k rule: decode_signed_leb128_loop.induct)
  case (1 buf p e b v s k)
  show ?case
    using 1 "1.prems"(1)[unfolded decode_signed_leb128_loop.simps [of buf p e b v s k]]
    by (fastforce simp: Let_def BYTESLEBMAX_def split: if_splits)
qed

lemma decode_signed_leb128_no_fault [no_fault]:
  "e \<le> length buf \<Longrightarrow> decode_signed_leb128 buf p g e \<noteq> LEB_FAULT"
  using decode_signed_leb128_loop_no_fault
  by (fastforce simp: decode_signed_leb128_def split: if_splits)

lemma decode_signed_leb128_OK:
  assumes "decode_signed_leb128 buf p g e = LEB_OK n v"
  shows "0 < n \<and> n \<le> 24 \<and> p + n \<le> e"
  using assms decode_signed_leb128_loop_OK [of buf p e "buf ! p" 0 0 1 n v]
  by (auto simp: decode_signed_leb128_def split: if_splits)

section \<open>The unsigned encoder\<close>

fun uleb_encode :: "nat \<Rightarrow> bytes" where
  "uleb_encode v = (if v < 128 then [word_of_nat v]
     else word_of_nat (v mod 128 + 128) # uleb_encode (v div 128))"

declare uleb_encode.simps [simp del]

lemma unat_u8: "n < 256 \<Longrightarrow> unat (word_of_nat n :: u8) = n"
  by (simp add: unat_of_nat)

lemma unat_u8_cont: "n < 128 \<Longrightarrow> unat (word_of_nat n + 128 :: u8) = n + 128"
  by (simp add: unat_word_ariths unat_of_nat)

lemma uleb_encode_length: "uleb_length (uleb_encode v) = Some (length (uleb_encode v))"
proof (induction v rule: uleb_encode.induct)
  case (1 v)
  then show ?case
    by (cases "v < 128") (simp_all add: uleb_encode.simps [of v] unat_u8 unat_u8_cont)
qed

lemma uleb_encode_value: "uleb_value (uleb_encode v) = v"
proof (induction v rule: uleb_encode.induct)
  case (1 v)
  then show ?case
    by (cases "v < 128") (simp_all add: uleb_encode.simps [of v] unat_u8 unat_u8_cont)
qed

lemma uleb_encode_bound: "0 < n \<Longrightarrow> v < 2 ^ (7 * n) \<Longrightarrow> length (uleb_encode v) \<le> n"
proof (induction n arbitrary: v)
  case (Suc n)
  show ?case
  proof (cases "v < 128")
    case False
    then have "0 < n" using Suc.prems(2) by (cases n) auto
    moreover have "v div 128 < 2 ^ (7 * n)"
      using Suc.prems(2) by (simp add: div_less_iff_less_mult power_add)
    ultimately show ?thesis using Suc.IH False by (subst uleb_encode.simps) simp
  qed (subst uleb_encode.simps, simp)
qed simp

text \<open>No string that denotes the same number is shorter.\<close>

lemma uleb_encode_shortest:
  assumes "uleb_length bs = Some n"
  shows "length (uleb_encode (uleb_value bs)) \<le> n"
  using assms uleb_encode_bound uleb_value_bound uleb_length_pos by blast

lemma or_80_byte: "x < 128 \<Longrightarrow> (word_of_nat x :: u8) OR 0x80 = word_of_nat (x + 128)"
proof -
  assume "x < 128"
  then have "(word_of_nat x :: u8) AND 0x80 = 0"
    by (simp add: and_80_zero unat_u8)
  then show ?thesis by (simp add: disjunctive_add_eq_or [symmetric])
qed

lemma ucast_7f_u64: "(ucast (w AND 0x7f :: u64) :: u8) = word_of_nat (unat w mod 128)"
proof -
  have "unat (w AND 0x7f) = take_bit 7 (unat w)"
    by (simp add: unsigned_and_eq take_bit_eq_mask mask_eq_exp_minus_1)
  then have "unat (w AND 0x7f) = unat w mod 128" by (simp add: take_bit_eq_mod)
  then show ?thesis by (metis of_nat_unat)
qed

lemma encode_leb128_loop_eq:
  "encode_leb128_loop v splen out =
    (if int (length out + length (uleb_encode (unat v))) \<le> splen
     then Some (out @ uleb_encode (unat v)) else None)"
proof (induction v splen out rule: encode_leb128_loop.induct)
  case (1 v splen out)
  have d: "unat (drop_bit 7 v) = unat v div 128"
    using unat_drop_bit_eq [of 7 v] by (simp add: drop_bit_eq_div)
  then have z: "drop_bit 7 v = 0 \<longleftrightarrow> unat v < 128"
    by (metis div_eq_0_iff unat_eq_0 zero_neq_numeral)
  show ?case
  proof (cases "int (length out) \<ge> splen")
    case True
    have "0 < length (uleb_encode (unat v))"
      using uleb_encode_length uleb_length_pos by blast
    with True have "splen < int (length out + length (uleb_encode (unat v)))" by linarith
    with True show ?thesis by (simp add: encode_leb128_loop.simps [of v])
  next
    case False
    show ?thesis
    proof (cases "unat v < 128")
      case True
      then show ?thesis using False z
        by (simp add: encode_leb128_loop.simps [of v] uleb_encode.simps [of "unat v"]
            ucast_7f_u64 Let_def)
    next
      case big: False
      then have "encode_leb128_loop (drop_bit 7 v) splen (out @ [ucast (v AND 0x7f) OR 0x80]) =
        (if int (length (out @ [0 :: u8]) + length (uleb_encode (unat v div 128))) \<le> splen
         then Some ((out @ [ucast (v AND 0x7f) OR 0x80]) @ uleb_encode (unat v div 128)) else None)"
        using 1 False z d by simp
      then show ?thesis using False big z
        by (simp add: encode_leb128_loop.simps [of v] uleb_encode.simps [of "unat v"]
            ucast_7f_u64 or_80_byte Let_def)
    qed
  qed
qed

lemma encode_leb128_eq:
  "encode_leb128 v splen =
    (if int (length (uleb_encode (unat v))) \<le> splen then Some (uleb_encode (unat v)) else None)"
  by (simp add: encode_leb128_def encode_leb128_loop_eq)

lemma uleb_encode_u64: "length (uleb_encode (unat (v :: u64))) \<le> 10"
proof (rule uleb_encode_bound)
  show "unat v < 2 ^ (7 * 10)" by (rule le_less_trans [OF u64_upper]) simp
qed simp

lemma decode_encode_leb128:
  assumes "encode_leb128 v splen = Some out" and "length pre + length out \<le> e"
    and "e \<le> length (pre @ out @ post)"
  shows "decode_leb128 (pre @ out @ post) (length pre) e = LEB_OK (length out) v"
proof -
  have out: "out = uleb_encode (unat v)"
    using assms(1) by (simp add: encode_leb128_eq split: if_splits)
  have sg: "seg (pre @ out @ post) (length pre) e = out @ take (e - length pre - length out) post"
    using assms(2) by (simp add: seg_def)
  have "uleb_length (seg (pre @ out @ post) (length pre) e) = Some (length out)"
    unfolding sg unfolding out using uleb_encode_length uleb_length_append by blast
  moreover have "uleb_value (seg (pre @ out @ post) (length pre) e) = unat v"
    unfolding sg unfolding out using uleb_encode_length uleb_encode_value uleb_value_append by metis
  moreover have "length out \<le> 10" unfolding out by (rule uleb_encode_u64)
  ultimately show ?thesis using decode_leb128_eq assms(3) by (metis of_nat_unat ucast_id)
qed


section \<open>Signed LEB128 strings\<close>

fun sleb_value :: "bytes \<Rightarrow> int" where
  "sleb_value [] = 0"
| "sleb_value (b # bs) =
     (if unat b < 128 then if unat b < 64 then int (unat b) else int (unat b) - 128
      else int (unat b mod 128) + 128 * sleb_value bs)"

lemma and_7f_40: "((b AND 0x7f) AND 0x40 = (0 :: u8)) \<longleftrightarrow> unat b mod 128 < 64"
proof -
  have "((b AND 0x7f) AND 0x40 = 0) = (unat ((b AND 0x7f) AND 0x40) = 0)"
    by (simp add: unat_eq_zero)
  also have "unat ((b AND 0x7f) AND 0x40) = (unat b mod 128) AND 64"
    using and_7f_mod [of b] by (simp add: unsigned_and_eq)
  also have "((unat b mod 128) AND 64 = 0) = (\<not> bit (unat b mod 128) 6)"
    using and_exp_eq_0_iff_not_bit [of "unat b mod 128" 6] by simp
  also have "\<dots> = even ((unat b mod 128) div 64)"
    by (simp add: bit_iff_odd)
  also have "\<dots> = (unat b mod 128 < 64)"
  proof -
    have "(unat b mod 128) div 64 < 2"
      by (simp add: div_less_iff_less_mult)
    then show ?thesis by (auto simp: less_2_cases_iff div_eq_0_iff)
  qed
  finally show ?thesis .
qed

lemma or_minus_exp:
  assumes "m < 2 ^ s" "s < 64"
  shows "(word_of_nat m :: u64) OR - push_bit s 1 = word_of_int (int m - 2 ^ s)"
proof -
  have "(word_of_nat m :: u64) AND - push_bit s 1 = 0"
  proof (rule bit_eqI)
    fix n
    have "bit m n \<Longrightarrow> n < s" 
      using assms(1) by (metis bit_take_bit_iff take_bit_nat_eq_self)
    then show "bit ((word_of_nat m :: u64) AND - push_bit s 1) n = bit (0 :: u64) n"
      by (auto simp: bit_and_iff bit_of_nat_iff minus_exp_eq_not_mask bit_not_iff bit_mask_iff push_bit_of_1)
  qed
  then have "(word_of_nat m :: u64) + - push_bit s 1 = word_of_nat m OR - push_bit s 1"
    by (rule disjunctive_add_eq_or)
  then have "(word_of_nat m :: u64) OR - push_bit s 1 = word_of_nat m - 2 ^ s"
    by (simp add: push_bit_eq_mult)
  then show ?thesis by simp
qed


lemma sleb_value_bound:
  "uleb_length bs = Some n \<Longrightarrow> - (2 ^ (7 * n - 1)) \<le> sleb_value bs \<and> sleb_value bs < 2 ^ (7 * n - 1)"
proof (induction bs arbitrary: n)
  case (Cons b bs)
  show ?case
  proof (cases "unat b < 128")
    case False
    with Cons.prems obtain n' where n': "uleb_length bs = Some n'" "n = Suc n'" by auto
    then have e: "7 * n - 1 = 7 + (7 * n' - 1)" using uleb_length_pos [OF n'(1)] by simp
    have "- (2 ^ (7 * n' - 1)) \<le> sleb_value bs" "sleb_value bs + 1 \<le> 2 ^ (7 * n' - 1)"
      using Cons.IH [OF n'(1)] by auto
    moreover have "0 \<le> int (unat b mod 128)" "int (unat b mod 128) < 128" by simp_all
    ultimately show ?thesis using False unfolding e by (simp add: power_add)
  qed (use Cons.prems in auto)
qed simp

text \<open>The last byte, with the sign it carries, at bit \<open>7 * k\<close>.\<close>

lemma sign_extend_last:
  assumes "k \<le> 9" "m < 2 ^ (7 * k)" "unat (b :: u8) < 128"
    and "k = 9 \<Longrightarrow> unat b = 0 \<or> unat b = 127"
  shows "sign_extend ((b AND 0x7f) AND 0x40 \<noteq> 0) (7 * k + 7)
      (word_of_nat m OR push_bit (7 * k) (ucast (b AND 0x7f)))
    = word_of_int (int m + 2 ^ (7 * k) * (if unat b < 64 then int (unat b) else int (unat b) - 128))"
proof -
  let ?m = "m + 2 ^ (7 * k) * unat b"
  have number: "(word_of_nat m :: u64) OR push_bit (7 * k) (ucast (b AND 0x7f)) = word_of_nat ?m"
    using or_push_bit_add [OF assms(2)] assms(1,3) by (simp add: ucast_and_7f)
  show ?thesis
  proof (cases "unat b < 64")
    case True
    then show ?thesis using number assms(3) by (simp add: sign_extend_def and_7f_40)
  next
    case neg: False
    have lt: "?m < 2 ^ (7 * k + 7)"
    proof -
      have "?m < 2 ^ (7 * k) * (unat b + 1)" using assms(2) by (simp add: algebra_simps)
      also have "\<dots> \<le> 2 ^ (7 * k) * 128" by (rule mult_le_mono2) (use assms(3) in simp)
      finally show ?thesis by (simp add: power_add)
    qed
    have goal: "int ?m - 2 ^ (7 * k + 7) = int m + 2 ^ (7 * k) * (int (unat b) - 128)"
      by (simp add: power_add algebra_simps)
    have sign: "((b AND 0x7f) AND 0x40 \<noteq> 0) = True"
      using neg assms(3) by (simp add: and_7f_40)
    have "sign_extend True (7 * k + 7) (word_of_nat ?m) = word_of_int (int ?m - 2 ^ (7 * k + 7))"
    proof -
    consider "k \<le> 7" | "k = 8" | "k = 9" using assms(1) by linarith
    then show ?thesis
    proof cases
      case 1
      then show ?thesis
        using or_minus_exp [OF lt] by (simp add: sign_extend_def)
    next
      case 2
      have "(word_of_nat ?m :: u64) + push_bit 63 1 = word_of_nat ?m OR push_bit 63 1"
      proof (rule disjunctive_add_eq_or)
        have "\<not> bit ?m 63"
          using lt 2 by (simp add: bit_iff_odd)
        then show "(word_of_nat ?m :: u64) AND push_bit 63 1 = 0"
          by (simp only: push_bit_of_1 and_exp_eq_0_iff_not_bit bit_of_nat_iff) simp
      qed
      then have "sign_extend True 63 (word_of_nat ?m) = word_of_nat ?m + 2 ^ 63"
        by (simp add: sign_extend_def push_bit_eq_mult)
      moreover have "(2 ^ 63 :: u64) = - (2 ^ 63)" by simp
      ultimately show ?thesis using 2 by simp
    next
      case 3
      then have b: "unat b = 127" using neg assms(4) by auto
      have m: "m < 9223372036854775808" using assms(2) 3 by simp
      have "(m + 1171368248680556527616) div 9223372036854775808 = 127"
        by (rule div_nat_eqI) (use m in simp_all)
      then have "bit ?m 63"
        using b 3 by (simp add: bit_iff_odd)
      then have "bit (word_of_nat ?m :: u64) 63"
        by (simp only: bit_of_nat_iff) simp
      then have "(word_of_nat ?m :: u64) OR push_bit 63 1 = word_of_nat ?m"
        by (simp only: set_bit_eq_or [symmetric] set_bit_eq) simp
      then have "sign_extend True 70 (word_of_nat ?m) = word_of_nat ?m"
        by (simp add: sign_extend_def)
      then show ?thesis using 3 by simp
    qed
    qed
    then show ?thesis
      unfolding number sign using neg goal by (simp only: if_False)
  qed
qed

lemma decode_signed_leb128_loop_eq:
  assumes "p < e" "e \<le> length buf" "uleb_length (seg buf p e) = Some n"
    and "n + k \<le> 10" "m < 2 ^ (7 * k)"
    and "n + k = 10 \<Longrightarrow> unat (seg buf p e ! (n - 1)) = 0 \<or> unat (seg buf p e ! (n - 1)) = 127"
  shows "decode_signed_leb128_loop buf p e (buf ! p) (word_of_nat m) (7 * k) (Suc k) =
    LEB_OK (n + k) (word_of_int (int m + 2 ^ (7 * k) * sleb_value (seg buf p e)))"
  using assms
proof (induction n arbitrary: p k m)
  case 0
  then show ?case using uleb_length_pos by fastforce
next
  case (Suc n)
  let ?b = "buf ! p" and ?m = "m + 2 ^ (7 * k) * (unat (buf ! p) mod 128)"
  have s: "seg buf p e = ?b # seg buf (Suc p) e"
    using Suc.prems by (simp add: seg_Cons)
  have k: "7 * k < 64" "k \<le> 9" using Suc.prems(4) by simp_all
  show ?case
  proof (cases "unat ?b < 128")
    case True
    then have n: "n = 0" using Suc.prems(3) s by simp
    have "k = 9 \<Longrightarrow> unat ?b = 0 \<or> unat ?b = 127" using Suc.prems(6) n s by simp
    from sign_extend_last [OF k(2) Suc.prems(5) True this] show ?thesis
      using True s k n
      by (subst decode_signed_leb128_loop.simps) (simp add: Let_def and_80_zero)
  next
    case False
    then have n: "uleb_length (seg buf (Suc p) e) = Some n" using Suc.prems(3) s by auto
    then have pe: "Suc p < e" by (metis not_less option.distinct(1) seg_Nil uleb_length.simps(1))
    have n0: "0 < n" using uleb_length_pos [OF n] by simp
    have number: "(word_of_nat m :: u64) OR push_bit (7 * k) (ucast (?b AND 0x7f)) = word_of_nat ?m"
      using or_push_bit_add [OF Suc.prems(5) k(1)] by (simp add: ucast_and_7f)
    have "?m < 2 ^ (7 * Suc k)"
    proof -
      have "?m < 2 ^ (7 * k) * (unat ?b mod 128 + 1)" using Suc.prems(5) by (simp add: algebra_simps)
      also have "\<dots> \<le> 2 ^ (7 * k) * 128" by (rule mult_le_mono2) (simp add: Suc_leI)
      finally show ?thesis by (simp add: power_add)
    qed
    note lt = this
    have "n + Suc k = 10 \<Longrightarrow>
        unat (seg buf (Suc p) e ! (n - 1)) = 0 \<or> unat (seg buf (Suc p) e ! (n - 1)) = 127"
      using Suc.prems(6) s n0 by (simp add: nth_Cons')
    with Suc.IH [OF pe Suc.prems(2) n _ lt] Suc.prems(4)
    have "decode_signed_leb128_loop buf (Suc p) e (buf ! Suc p) (word_of_nat ?m)
        (7 * Suc k) (Suc (Suc k)) =
        LEB_OK (n + Suc k) (word_of_int (int ?m + 2 ^ (7 * Suc k) * sleb_value (seg buf (Suc p) e)))"
      by simp
    moreover have "int ?m + 2 ^ (7 * Suc k) * sleb_value (seg buf (Suc p) e)
        = int m + 2 ^ (7 * k) * sleb_value (seg buf p e)"
      using False s by (simp add: power_add algebra_simps)
    ultimately show ?thesis
      using False pe k number Suc.prems(2,4) n0
      by (subst decode_signed_leb128_loop.simps)
        (simp add: Let_def and_80_zero BYTESLEBMAX_def add.commute del: of_nat_add of_int_add)
  qed
qed

lemma sleb_value_last:
  "uleb_length bs = Some n \<Longrightarrow> \<exists>low. 0 \<le> low \<and> low < 2 ^ (7 * (n - 1)) \<and> unat (bs ! (n - 1)) < 128 \<and>
     sleb_value bs = low + 2 ^ (7 * (n - 1)) *
       (if unat (bs ! (n - 1)) < 64 then int (unat (bs ! (n - 1))) else int (unat (bs ! (n - 1))) - 128)"
proof (induction bs arbitrary: n)
  case (Cons b bs)
  show ?case
  proof (cases "unat b < 128")
    case False
    with Cons.prems obtain n' where n': "uleb_length bs = Some n'" "n = Suc n'" by auto
    have n0: "0 < n'" using uleb_length_pos [OF n'(1)] by simp
    obtain low where low: "0 \<le> low" "low < 2 ^ (7 * (n' - 1))" "unat (bs ! (n' - 1)) < 128"
      "sleb_value bs = low + 2 ^ (7 * (n' - 1)) *
       (if unat (bs ! (n' - 1)) < 64 then int (unat (bs ! (n' - 1))) else int (unat (bs ! (n' - 1))) - 128)"
      using Cons.IH [OF n'(1)] by blast
    have e: "7 * (n - 1) = 7 + 7 * (n' - 1)" using n0 n'(2) by simp
    have l: "(b # bs) ! (n - 1) = bs ! (n' - 1)" using n0 n'(2) by (simp add: nth_Cons')
    have bd: "0 \<le> int (unat b mod 128)" "int (unat b mod 128) < 128" by simp_all
    have "low + 1 \<le> 2 ^ (7 * (n' - 1))" using low(2) by simp
    then have "128 * (low + 1) \<le> 128 * 2 ^ (7 * (n' - 1))" by simp
    then show ?thesis
      using low False bd unfolding e l
      by (intro exI [of _ "int (unat b mod 128) + 128 * low"])
        (auto simp: power_add algebra_simps)
  qed (use Cons.prems in \<open>auto intro!: exI [of _ 0]\<close>)
qed simp

lemma decode_signed_leb128_eq:
  assumes "e \<le> length buf" "uleb_length (seg buf p e) = Some n" "n \<le> 10"
    and "- (2 ^ 63) \<le> sleb_value (seg buf p e)" "sleb_value (seg buf p e) < 2 ^ 63"
  shows "decode_signed_leb128 buf p True e = LEB_OK n (word_of_int (sleb_value (seg buf p e)))"
proof -
  have pe: "p < e" using assms by (metis not_less option.distinct(1) seg_Nil uleb_length.simps(1))
  have "n + 0 = 10 \<Longrightarrow> unat (seg buf p e ! (n - 1)) = 0 \<or> unat (seg buf p e ! (n - 1)) = 127"
  proof -
    assume n: "n + 0 = 10"
    obtain low where "0 \<le> low" "low < 2 ^ 63" "unat (seg buf p e ! 9) < 128"
      "sleb_value (seg buf p e) = low + 2 ^ 63 *
       (if unat (seg buf p e ! 9) < 64 then int (unat (seg buf p e ! 9)) else int (unat (seg buf p e ! 9)) - 128)"
      using sleb_value_last [OF assms(2)] n by auto
    then show ?thesis using assms(4,5) n by (auto split: if_splits)
  qed
  then show ?thesis
    using decode_signed_leb128_loop_eq [of p e buf n 0 0] pe assms
    by (simp add: decode_signed_leb128_def)
qed

section \<open>The signed encoder\<close>

definition sleb_last :: "int \<Rightarrow> bool" where
  "sleb_last v \<longleftrightarrow> (v div 128 = 0 \<and> v mod 128 < 64) \<or> (v div 128 = -1 \<and> 64 \<le> v mod 128)"

lemma sleb_last_range: "sleb_last v \<longleftrightarrow> -64 \<le> v \<and> v < 64"
proof -
  define q r where "q = v div 128" and "r = v mod 128"
  then have "v = 128 * q + r" "0 \<le> r" "r < 128" by simp_all
  then show ?thesis unfolding sleb_last_def q_def [symmetric] r_def [symmetric] by linarith
qed

function sleb_encode :: "int \<Rightarrow> bytes" where
  "sleb_encode v =
     (if sleb_last v then [word_of_int (v mod 128)]
      else (word_of_int (v mod 128) + 128) # sleb_encode (v div 128))"
  by pat_completeness auto
termination
proof (relation "measure (\<lambda>v. nat \<bar>v\<bar>)")
  fix v :: int
  define q r where "q = v div 128" and "r = v mod 128"
  then have v: "v = 128 * q + r" "0 \<le> r" "r < 128" by simp_all
  assume "\<not> sleb_last v"
  then have "\<not> (-64 \<le> v \<and> v < 64)" by (simp add: sleb_last_range)
  then have "\<bar>q\<bar> < \<bar>v\<bar>" using v by linarith
  then show "(v div 128, v) \<in> measure (\<lambda>v. nat \<bar>v\<bar>)" by (simp add: q_def)
qed simp

declare sleb_encode.simps [simp del]

lemma unat_sleb_byte:
  "unat (word_of_int (v mod 128) :: u8) = nat (v mod 128)"
  "unat (word_of_int (v mod 128) + 128 :: u8) = nat (v mod 128) + 128"
proof -
  obtain n where n: "v mod 128 = int n" "n < 128"
    by (metis of_nat_less_iff of_nat_numeral pos_mod_bound pos_mod_sign zero_le_imp_eq_int zero_less_numeral)
  have w: "(word_of_int (v mod 128) :: u8) = word_of_nat n" unfolding n(1) by simp
  show "unat (word_of_int (v mod 128) :: u8) = nat (v mod 128)"
    unfolding w using n unat_u8 [of n] by simp
  show "unat (word_of_int (v mod 128) + 128 :: u8) = nat (v mod 128) + 128"
    unfolding w using n unat_u8_cont [of n] by simp
qed

lemma sleb_encode_length: "uleb_length (sleb_encode v) = Some (length (sleb_encode v))"
proof (induction v rule: sleb_encode.induct)
  case (1 v)
  then show ?case
    by (cases "sleb_last v") (simp_all add: sleb_encode.simps [of v] unat_sleb_byte nat_less_iff)
qed

lemma sleb_encode_value: "sleb_value (sleb_encode v) = v"
proof (induction v rule: sleb_encode.induct)
  case (1 v)
  have r: "v mod 128 < 64 \<longleftrightarrow> nat (v mod 128) < 64" "nat (v mod 128) < 128"
    by (simp_all add: nat_less_iff)
  show ?case
  proof (cases "sleb_last v")
    case True
    then have "sleb_encode v = [word_of_int (v mod 128)]" by (simp add: sleb_encode.simps)
    then have "sleb_value (sleb_encode v) =
        (if v mod 128 < 64 then v mod 128 else v mod 128 - 128)"
      using r by (simp add: unat_sleb_byte)
    moreover have "v mod 128 + 128 * (v div 128) = v" by (rule mod_mult_div_eq)
    ultimately show ?thesis using True
      unfolding sleb_last_def by (elim disjE conjE) auto
  next
    case False
    then show ?thesis using 1
      by (simp add: sleb_encode.simps [of v] unat_sleb_byte)
  qed
qed

lemma sleb_encode_bound:
  "0 < n \<Longrightarrow> - (2 ^ (7 * n - 1)) \<le> v \<Longrightarrow> v < 2 ^ (7 * n - 1) \<Longrightarrow> length (sleb_encode v) \<le> n"
proof (induction n arbitrary: v)
  case (Suc n)
  show ?case
  proof (cases "sleb_last v")
    case False
    then have n: "0 < n" using Suc.prems(2,3) by (cases n) (auto simp: sleb_last_range)
    define q r where "q = v div 128" and "r = v mod 128"
    then have v: "v = 128 * q + r" "0 \<le> r" "r < 128" by simp_all
    define P :: int where "P = 2 ^ (7 * n - 1)"
    have e: "7 * Suc n - 1 = 7 + (7 * n - 1)" using n by simp
    have "- (128 * P) \<le> v" "v < 128 * P"
      using Suc.prems(2,3) unfolding e P_def by (simp_all add: power_add)
    then have "- P \<le> q" "q < P" using v by linarith+
    then have "length (sleb_encode q) \<le> n" using Suc.IH n unfolding P_def by blast
    then show ?thesis using False by (subst sleb_encode.simps) (simp add: q_def)
  qed (subst sleb_encode.simps, simp)
qed simp


lemma sint_div: "sint (signed_drop_bit 7 (w :: s64)) = sint w div 128"
  using sint_signed_drop_bit_eq [of 7 w] by (simp add: drop_bit_eq_div)

lemma ucast_7f_s64: "(ucast (w AND 0x7f :: s64) :: u8) = word_of_int (sint w mod 128)"
proof -
  have "sint w mod 128 = uint w mod 128"
    using take_bit_signed_take_bit [of 7 63 "uint w"] by (simp add: sint_uint take_bit_eq_mod)
  also have "\<dots> = int (unat w mod 128)" by (simp add: zmod_int of_nat_unat)
  finally show ?thesis unfolding ucast_7f_u64 by simp
qed


lemma and_40_cases: "(b AND 0x40 :: u8) = (if unat b mod 128 < 64 then 0 else 0x40)"
proof -
  have "(b AND 0x40 :: u8) = (if bit b 6 then 0x40 else 0)"
  proof (rule bit_word_eqI)
    fix n assume n: "n < LENGTH(8)"
    have "(0x40 :: u8) = push_bit 6 1" by simp
    then have "bit (0x40 :: u8) n \<longleftrightarrow> n = 6"
      by (simp only: bit_push_bit_iff) (use n in \<open>auto simp: bit_1_iff\<close>)
    then show "bit (b AND 0x40 :: u8) n = bit (if bit b 6 then 0x40 else 0 :: u8) n"
      by (auto simp: bit_and_iff)
  qed
  moreover have "bit b 6 \<longleftrightarrow> \<not> unat b mod 128 < 64"
  proof -
    have "(b AND 0x7f) AND 0x40 = (0 :: u8) \<longleftrightarrow> \<not> bit b 6"
      using and_exp_eq_0_iff_not_bit [of b 6] by (simp add: and.assoc)
    then show ?thesis using and_7f_40 [of b] by blast
  qed
  ultimately show ?thesis by simp
qed

lemma encode_signed_leb128_last:
  assumes "sign = (if sint value < 0 then -1 else 0)"
  shows "(signed_drop_bit 7 value = sign \<and>
    (ucast ((ucast (value AND 0x7f) :: u8) AND 0x40) :: s64) = sign AND 0x40) = sleb_last (sint value)"
proof -
  define q r where "q = sint value div 128" and "r = sint value mod 128"
  then have v: "sint value = 128 * q + r" "0 \<le> r" "r < 128" by simp_all
  have c: "(ucast ((ucast (value AND 0x7f) :: u8) AND 0x40) :: s64) = (if r < 64 then 0 else 0x40)"
    unfolding ucast_7f_s64 using unat_sleb_byte(1) [of "sint value"] v
    by (auto simp: and_40_cases r_def [symmetric] nat_less_iff)
  have d: "sint (signed_drop_bit 7 value) = q" by (simp add: sint_div q_def)
  have "signed_drop_bit 7 value = 0 \<longleftrightarrow> q = 0" "signed_drop_bit 7 value = -1 \<longleftrightarrow> q = -1"
    using d by (metis signed_0 signed_eq_0_iff, metis signed_minus_1 signed_word_eqI)
  then show ?thesis
    unfolding c sleb_last_def q_def [symmetric] r_def [symmetric] assms
    using v by auto
qed

lemma encode_signed_leb128_loop_eq:
  assumes "sign = (if sint value < 0 then -1 else 0)"
  shows "encode_signed_leb128_loop sign value splen out =
    (if int (length out + length (sleb_encode (sint value))) \<le> splen
     then Some (out @ sleb_encode (sint value)) else None)"
  using assms
proof (induction sign "value" splen out rule: encode_signed_leb128_loop.induct)
  case (1 sign "value" splen out)
  have pos: "0 < length (sleb_encode (sint value))"
    using sleb_encode_length uleb_length_pos by blast
  have r: "0 \<le> sint value mod 128" "sint value mod 128 < 128" by simp_all
  have cont: "(word_of_int (sint value mod 128) :: u8) OR 0x80 = word_of_int (sint value mod 128) + 128"
    using or_80_byte [of "nat (sint value mod 128)"] r by (simp add: nat_less_iff)
  show ?case
  proof (cases "int (length out) \<ge> splen")
    case True
    with pos have "\<not> int (length out + length (sleb_encode (sint value))) \<le> splen" by linarith
    with True show ?thesis by (simp add: encode_signed_leb128_loop.simps [of sign "value"] Let_def)
  next
    case room: False
    show ?thesis
    proof (cases "sleb_last (sint value)")
      case True
      then show ?thesis using encode_signed_leb128_last [OF 1(2)] room
        by (simp add: encode_signed_leb128_loop.simps [of sign "value"] Let_def ucast_7f_s64
            sleb_encode.simps [of "sint value"])
    next
      case False
      have s: "sign = (if sint (signed_drop_bit 7 value) < 0 then -1 else 0)"
        using 1(2) by (simp add: sint_div pos_imp_zdiv_neg_iff)
      show ?thesis
        using 1(1) [OF refl refl _ _ s] encode_signed_leb128_last [OF 1(2)] room False
        by (simp add: encode_signed_leb128_loop.simps [of sign "value"] Let_def ucast_7f_s64
            sleb_encode.simps [of "sint value"] sint_div cont)
    qed
  qed
qed

lemma encode_signed_leb128_eq:
  "encode_signed_leb128 value splen =
    (if int (length (sleb_encode (sint value))) \<le> splen then Some (sleb_encode (sint value)) else None)"
  by (simp add: encode_signed_leb128_def encode_signed_leb128_loop_eq word_sless_alt)

lemma sleb_encode_s64: "length (sleb_encode (sint (v :: s64))) \<le> 10"
proof (rule sleb_encode_bound)
  have "- (2 ^ 63) \<le> sint v" "sint v < 2 ^ 63" using sint_range_size [of v] by (simp_all add: word_size)
  then show "- (2 ^ (7 * 10 - 1)) \<le> sint v" "sint v < 2 ^ (7 * 10 - 1)" by simp_all
qed simp

lemma sleb_value_append: "uleb_length xs = Some n \<Longrightarrow> sleb_value (xs @ ys) = sleb_value xs"
  by (induction xs arbitrary: n) (auto split: if_splits)

lemma decode_encode_signed_leb128:
  assumes "encode_signed_leb128 v splen = Some out" and "length pre + length out \<le> e"
    and "e \<le> length (pre @ out @ post)"
  shows "decode_signed_leb128 (pre @ out @ post) (length pre) True e = LEB_OK (length out) v"
proof -
  have out: "out = sleb_encode (sint v)"
    using assms(1) by (simp add: encode_signed_leb128_eq split: if_splits)
  have sg: "seg (pre @ out @ post) (length pre) e = out @ take (e - length pre - length out) post"
    using assms(2) by (simp add: seg_def)
  have l: "uleb_length (seg (pre @ out @ post) (length pre) e) = Some (length out)"
    unfolding sg unfolding out using sleb_encode_length uleb_length_append by blast
  have v: "sleb_value (seg (pre @ out @ post) (length pre) e) = sint v"
    unfolding sg unfolding out using sleb_encode_length sleb_encode_value sleb_value_append by metis
  have b: "- (2 ^ 63) \<le> sint v" "sint v < 2 ^ 63"
    using sint_range_size [of v] by (simp_all add: word_size)
  have "length out \<le> 10" unfolding out by (rule sleb_encode_s64)
  from decode_signed_leb128_eq [OF assms(3) l this] show ?thesis
    unfolding v using b by simp
qed

section \<open>The codecs\<close>

text \<open>
  What a reader of an encoded stream relies on: decoding at the start of an encoding, whatever
  surrounds it, returns the value and the number of bytes. The decoder only sees the bytes up
  to the end pointer.
\<close>

locale leb_codec =
  fixes enc :: "'v \<Rightarrow> int \<Rightarrow> bytes option"
    and dec :: "bytes \<Rightarrow> ptr \<Rightarrow> ptr \<Rightarrow> 'v leb_result"
  assumes dec_enc: "enc v s = Some out \<Longrightarrow> length pre + length out \<le> e \<Longrightarrow>
      e \<le> length (pre @ out @ post) \<Longrightarrow>
      dec (pre @ out @ post) (length pre) e = LEB_OK (length out) v"
    and enc_length: "enc v s = Some out \<Longrightarrow> 0 < length out \<and> length out \<le> 10"
    and enc_room: "10 \<le> s \<Longrightarrow> enc v s \<noteq> None"
begin

text \<open>No encoding is a prefix of the encoding of another value.\<close>

lemma prefix_free:
  assumes "enc v s = Some out" "enc w t = Some (out @ rest)"
  shows "v = w \<and> rest = []"
proof -
  have "dec ([] @ out @ rest) 0 (length (out @ rest)) = LEB_OK (length out) v"
    using dec_enc [OF assms(1), of "[]" "length (out @ rest)" rest] by simp
  moreover have "dec ([] @ (out @ rest) @ []) 0 (length (out @ rest)) = LEB_OK (length (out @ rest)) w"
    using dec_enc [OF assms(2), of "[]" "length (out @ rest)" "[]"] by simp
  ultimately show ?thesis by simp
qed

lemma round_trip:
  assumes "10 \<le> s"
  shows "\<exists>out. enc v s = Some out \<and> length out \<le> 10 \<and>
    (\<forall>pre post e. length pre + length out \<le> e \<and> e \<le> length (pre @ out @ post) \<longrightarrow>
      dec (pre @ out @ post) (length pre) e = LEB_OK (length out) v)"
proof -
  obtain out where "enc v s = Some out" using enc_room [OF assms] by auto
  then show ?thesis using dec_enc enc_length by blast
qed

text \<open>A concatenation of encodings, read back one after the other.\<close>

fun read_all :: "bytes \<Rightarrow> ptr \<Rightarrow> ptr \<Rightarrow> nat \<Rightarrow> ('v list \<times> ptr) option" where
  "read_all buf p e 0 = Some ([], p)"
| "read_all buf p e (Suc n) =
     (case dec buf p e of
        LEB_OK l v \<Rightarrow> map_option (map_prod (Cons v) id) (read_all buf (p + l) e n)
      | _ \<Rightarrow> None)"

lemma read_all_concat:
  assumes "list_all2 (\<lambda>v out. enc v s = Some out) vs outs"
  shows "read_all (pre @ concat outs @ post) (length pre) (length pre + length (concat outs))
    (length vs) = Some (vs, length pre + length (concat outs))"
  using assms
proof (induction vs outs arbitrary: pre rule: list_all2_induct)
  case (Cons v vs out outs)
  have "dec (pre @ out @ concat outs @ post) (length pre)
      (length pre + (length out + length (concat outs))) = LEB_OK (length out) v"
    using dec_enc [OF Cons.hyps(1), of pre _ "concat outs @ post"] by simp
  then show ?case using Cons.IH [of "pre @ out"] by (simp add: add.assoc)
qed simp

end

interpretation uleb: leb_codec encode_leb128 decode_leb128
proof unfold_locales
  fix v s out assume "encode_leb128 v s = Some out"
  then have "out = uleb_encode (unat v)" by (simp add: encode_leb128_eq split: if_splits)
  then show "0 < length out \<and> length out \<le> 10"
    using uleb_encode_u64 [of v] uleb_length_pos [OF uleb_encode_length] by simp
next
  fix s :: int and v :: u64 assume "10 \<le> s"
  then show "encode_leb128 v s \<noteq> None" using uleb_encode_u64 [of v] by (simp add: encode_leb128_eq)
qed (rule decode_encode_leb128)

interpretation sleb: leb_codec encode_signed_leb128 "\<lambda>buf p e. decode_signed_leb128 buf p True e"
proof unfold_locales
  fix v s out assume "encode_signed_leb128 v s = Some out"
  then have "out = sleb_encode (sint v)" by (simp add: encode_signed_leb128_eq split: if_splits)
  then show "0 < length out \<and> length out \<le> 10"
    using sleb_encode_s64 [of v] uleb_length_pos [OF sleb_encode_length] by simp
next
  fix s :: int and v :: s64 assume "10 \<le> s"
  then show "encode_signed_leb128 v s \<noteq> None"
    using sleb_encode_s64 [of v] by (simp add: encode_signed_leb128_eq)
qed (rule decode_encode_signed_leb128)

section \<open>Properties\<close>

text \<open>
  C22: Writing an unsigned number with at least ten bytes of room succeeds, uses at most ten
  bytes and no more than any other encoding of that number, and the decoder reads the number and its
  length back wherever those bytes stand in a buffer.
\<close>

theorem encode_decode_leb128:
  assumes "10 \<le> splen"
  shows "\<exists>out. encode_leb128 v splen = Some out \<and> length out \<le> 10 \<and>
    (\<forall>bs n. uleb_length bs = Some n \<and> uleb_value bs = unat v \<longrightarrow> length out \<le> n) \<and>
    (\<forall>pre post e. length pre + length out \<le> e \<and> e \<le> length (pre @ out @ post) \<longrightarrow>
      decode_leb128 (pre @ out @ post) (length pre) e = LEB_OK (length out) v)"
  using uleb.round_trip [OF assms, of v]
  by (auto simp: encode_leb128_eq split: if_splits) (metis uleb_encode_shortest)

theorem encode_decode_leb128_witness:
  "\<exists>out. encode_leb128 0x12345 10 = Some out \<and> length out \<le> 10"
  using encode_decode_leb128 [of 10 "0x12345"] by auto

text \<open>
  C35: Writing a signed number with at least ten bytes of room succeeds with at most ten bytes,
  and the signed decoder reads the number and its length back wherever those bytes stand.
\<close>

theorem encode_decode_signed_leb128:
  assumes "10 \<le> splen"
  shows "\<exists>out. encode_signed_leb128 v splen = Some out \<and> length out \<le> 10 \<and>
    (\<forall>pre post e. length pre + length out \<le> e \<and> e \<le> length (pre @ out @ post) \<longrightarrow>
      decode_signed_leb128 (pre @ out @ post) (length pre) True e = LEB_OK (length out) v)"
  by (rule sleb.round_trip [OF assms])

theorem encode_decode_signed_leb128_witness:
  "\<exists>out. encode_signed_leb128 (- 129) 10 = Some out \<and> length out \<le> 10"
  using encode_decode_signed_leb128 [of 10 "- 129"] by auto

text \<open>
  C23: Inside a buffer, skipping and decoding agree on every encoding of at most ten bytes: both
  stop after the first byte without a continuation bit, the decoder with the number its seven bit groups
  denote modulo 2 to the 64, and skipping fails exactly when no such byte is among the first 24 before the end.
\<close>

theorem skip_and_decode_leb128:
  assumes "e \<le> length buf"
  shows "skip_leb128 buf p e =
      (case uleb_length (seg buf p e) of
         Some n \<Rightarrow> if n \<le> 24 then LEB_OK n () else LEB_ERROR None | None \<Rightarrow> LEB_ERROR None) \<and>
    (\<forall>n \<le> 10. uleb_length (seg buf p e) = Some n \<longrightarrow>
      decode_leb128 buf p e = LEB_OK n (word_of_nat (uleb_value (seg buf p e))))"
  using skip_leb128_eq [OF assms] decode_leb128_eq [OF assms] by (auto split: option.splits)

theorem skip_and_decode_leb128_witness:
  "skip_leb128 [0xe5, 0x8e, 0x26] 0 3 = LEB_OK 3 () \<and>
   decode_leb128 [0xe5, 0x8e, 0x26] 0 3 = LEB_OK 3 624485"
  using skip_and_decode_leb128 [of 3 "[0xe5, 0x8e, 0x26]" 0] by (simp add: seg_def)

text \<open>
  C36: Whatever the bytes are, no decoder reads outside the buffer its end pointer lies in, and a
  decoder that succeeds has consumed between one and 24 bytes, all of them before the end.
\<close>

theorem leb128_memory_safe:
  fixes v w :: u64
  assumes "e \<le> length buf"
  shows "skip_leb128 buf p e \<noteq> LEB_FAULT \<and> decode_leb128 buf p e \<noteq> LEB_FAULT \<and>
    decode_signed_leb128 buf p g e \<noteq> LEB_FAULT \<and>
    (skip_leb128 buf p e = LEB_OK n () \<or> decode_leb128 buf p e = LEB_OK n v \<or>
     decode_signed_leb128 buf p g e = LEB_OK n w \<longrightarrow> 0 < n \<and> n \<le> 24 \<and> p + n \<le> e)"
  using skip_leb128_OK [of buf p e n] decode_leb128_OK [of buf p e n v]
    decode_signed_leb128_OK [of buf p g e n w] assms by (auto simp: no_fault)

theorem leb128_memory_safe_witness:
  "decode_leb128 [0x80, 0x80] 0 2 \<noteq> LEB_FAULT"
  using leb128_memory_safe [of 2 "[0x80, 0x80]"] by simp

text \<open>
  The decoder and \<open>_dwarf_skip_leb128\<close> disagree on a padded number of eleven bytes: once the shift
  has reached 64 the terminating zero byte is not recognised unless it is the last before the end.
\<close>

theorem padded_leb128_diverges:
  "skip_leb128 ([0x81] @ replicate 9 0x80 @ [0x00, 0x05]) 0 12 = LEB_OK 11 () \<and>
   decode_leb128 ([0x81] @ replicate 9 0x80 @ [0x00, 0x05]) 0 12 = LEB_ERROR None \<and>
   decode_leb128 ([0x81] @ replicate 9 0x80 @ [0x00]) 0 11 = LEB_OK 11 1"
  by code_simp

end
