(* ===== verification/Reader.thy ===== *)
theory Reader
  imports Leb
begin

text \<open>
  The reading macros of \<open>dwarf_util.h\<close> with the wrapper functions of \<open>dwarf_util.c\<close>, the two
  copy functions of \<open>dwarf_memcpy_swap.c\<close>, and the fields of \<open>struct Dwarf_Debug_s\<close>
  the model needs. The host is little endian, so the bytes copied to the start of the
  temporary are its low bytes.
\<close>

section \<open>The debug object\<close>

datatype copy_word = memcpy_noswap_bytes | memcpy_swap_bytes

datatype endianness = DW_END_little | DW_END_big

record dwarf_debug =
  de_big_endian_object :: bool
  de_copy_word :: copy_word
  de_length_size :: u8
  de_pointer_size :: u8
  de_assume_string_in_bounds :: bool
  de_debug_info :: bytes
  de_debug_types :: bytes
  de_debug_abbrev :: "bytes option"
  de_debug_line :: bytes
  de_debug_line_str :: bytes
  de_debug_str :: "bytes option"
  de_filesize :: u64
  de_fde_count :: nat
  de_fde_count_eh :: nat
  de_frame_rule_initial_value :: u64
  de_frame_reg_rules_entry_count :: u64
  de_frame_cfa_col_number :: u64
  de_frame_same_value_number :: u64
  de_frame_undefined_value_number :: u64
  de_frame_numbers_validated :: bool

text \<open>The fields for a 64 bit little endian object, used as a concrete instance.\<close>

definition debug_le64 :: dwarf_debug where
  "debug_le64 = \<lparr>de_big_endian_object = False, de_copy_word = memcpy_noswap_bytes,
     de_length_size = 8, de_pointer_size = 8, de_assume_string_in_bounds = False,
     de_debug_info = [], de_debug_types = [], de_debug_abbrev = None, de_debug_line = [], de_debug_line_str = [],
     de_debug_str = None, de_filesize = 0x10000, de_fde_count = 0, de_fde_count_eh = 0,
     de_frame_rule_initial_value = 12288, de_frame_reg_rules_entry_count = 50,
     de_frame_cfa_col_number = 12290, de_frame_same_value_number = 12289,
     de_frame_undefined_value_number = 12288, de_frame_numbers_validated = False\<rparr>"

text \<open>The part of \<open>_dwarf_setup\<close> that fixes the byte order.\<close>

definition setup_byte_order :: "endianness \<Rightarrow> dwarf_debug \<Rightarrow> dwarf_debug" where
  "setup_byte_order endianness dbg =
     (let dbg = dbg\<lparr>de_copy_word := memcpy_noswap_bytes\<rparr>;
          dbg = dbg\<lparr>de_big_endian_object := False\<rparr>
      in if endianness = DW_END_big
         then dbg\<lparr>de_big_endian_object := True, de_copy_word := memcpy_swap_bytes\<rparr>
         else dbg)"

section \<open>Copying\<close>

text \<open>The loop of \<open>_dwarf_memcpy_swap_bytes\<close>: \<open>i\<close> runs up over the source, \<open>n\<close> down over the target.\<close>

function memcpy_swap_loop :: "bytes \<Rightarrow> nat \<Rightarrow> nat \<Rightarrow> bytes \<Rightarrow> bytes" where
  "memcpy_swap_loop src i n targ =
     (if i < length src then memcpy_swap_loop src (i + 1) (n - 1) (targ[n := src ! i]) else targ)"
  by pat_completeness auto
termination by (relation "measure (\<lambda>(src, i, n, targ). length src - i)") auto

declare memcpy_swap_loop.simps [simp del]

definition memcpy_swap :: "bytes \<Rightarrow> bytes \<Rightarrow> bytes" where
  "memcpy_swap targ src =
     (if length src > 8 then src @ drop (length src) targ
      else memcpy_swap_loop src 0 (length src - 1) targ)"

definition memcpy_noswap :: "bytes \<Rightarrow> bytes \<Rightarrow> bytes" where
  "memcpy_noswap targ src = src @ drop (length src) targ"

definition run_copy_word :: "copy_word \<Rightarrow> bytes \<Rightarrow> bytes \<Rightarrow> bytes" where
  "run_copy_word c targ src =
     (case c of memcpy_noswap_bytes \<Rightarrow> memcpy_noswap targ src
              | memcpy_swap_bytes \<Rightarrow> memcpy_swap targ src)"

text \<open>The number a little endian host reads from memory.\<close>

fun le_nat :: "bytes \<Rightarrow> nat" where
  "le_nat [] = 0"
| "le_nat (b # bs) = unat b + 256 * le_nat bs"

section \<open>Reading\<close>

text \<open>
  The copy writes into a local of eight bytes; a longer copy, and a source that leaves the
  section, are memory faults.
\<close>

definition read_unaligned_ck ::
  "dwarf_debug \<Rightarrow> bytes \<Rightarrow> ptr \<Rightarrow> nat \<Rightarrow> ptr \<Rightarrow> u64 dw"
where
  "read_unaligned_ck dbg buf source len endptr =
     (let readend = source + len in
      if readend < source then DW_ERROR DW_DLE_READ_LITTLEENDIAN_ERROR
      else if readend > endptr then DW_ERROR DW_DLE_READ_LITTLEENDIAN_ERROR
      else if readend > length buf \<or> len > 8 then FAULT
      else DW_OK (word_of_nat (le_nat
             (run_copy_word (de_copy_word dbg) (replicate 8 0) (seg buf source readend)))))"

definition read_area_length_ck ::
  "dwarf_debug \<Rightarrow> bytes \<Rightarrow> ptr \<Rightarrow> u64 \<Rightarrow> ptr \<Rightarrow> ((u64 \<times> nat \<times> nat) \<times> ptr) dw"
where
  "read_area_length_ck dbg buf p sectionlen endptr =
     dw_bind (read_unaligned_ck dbg buf p 4 endptr) (\<lambda>target.
       if target = 0xffffffff then
         dw_bind (read_unaligned_ck dbg buf (p + 4) 8 endptr) (\<lambda>target.
           if target > sectionlen then DW_ERROR DW_DLE_HEADER_LEN_BIGGER_THAN_SECSIZE
           else DW_OK ((target, 8, 4), p + 4 + 8))
       else if target = 0 \<and> de_big_endian_object dbg then
         if de_length_size dbg = 8 then
           dw_bind (read_unaligned_ck dbg buf p 8 endptr) (\<lambda>target.
             if target > sectionlen then DW_ERROR DW_DLE_HEADER_LEN_BIGGER_THAN_SECSIZE
             else DW_OK ((target, 8, 0), p + 8))
         else DW_OK ((target, 4, 0), p + 4)
       else if target > sectionlen then DW_ERROR DW_DLE_HEADER_LEN_BIGGER_THAN_SECSIZE
       else DW_OK ((target, 4, 0), p + 4))"

text \<open>
  The LEB128 macros and their wrappers: the decoders with an error number, and the pointer advanced
  past what was read. The result is the value, its encoded length and the new pointer.
\<close>

definition skip_leb128_len_ck :: "bytes \<Rightarrow> ptr \<Rightarrow> ptr \<Rightarrow> (nat \<times> ptr) dw" where
  "skip_leb128_len_ck buf p endptr =
     (case skip_leb128 buf p endptr of
        LEB_OK leblen _ \<Rightarrow> DW_OK (leblen, p + leblen)
      | LEB_ERROR _ \<Rightarrow> DW_ERROR DW_DLE_LEB_IMPROPER
      | LEB_FAULT \<Rightarrow> FAULT)"

definition decode_leb128_uword_len_ck :: "bytes \<Rightarrow> ptr \<Rightarrow> ptr \<Rightarrow> ((u64 \<times> nat) \<times> ptr) dw" where
  "decode_leb128_uword_len_ck buf p endptr =
     (case decode_leb128 buf p endptr of
        LEB_OK leblen val \<Rightarrow> DW_OK ((val, leblen), p + leblen)
      | LEB_ERROR _ \<Rightarrow> DW_ERROR DW_DLE_LEB_IMPROPER
      | LEB_FAULT \<Rightarrow> FAULT)"

definition decode_leb128_sword_len_ck :: "bytes \<Rightarrow> ptr \<Rightarrow> ptr \<Rightarrow> ((s64 \<times> nat) \<times> ptr) dw" where
  "decode_leb128_sword_len_ck buf p endptr =
     (case decode_signed_leb128 buf p True endptr of
        LEB_OK leblen val \<Rightarrow> DW_OK ((val, leblen), p + leblen)
      | LEB_ERROR _ \<Rightarrow> DW_ERROR DW_DLE_LEB_IMPROPER
      | LEB_FAULT \<Rightarrow> FAULT)"

definition leb128_uword_wrapper :: "bytes \<Rightarrow> ptr \<Rightarrow> ptr \<Rightarrow> (u64 \<times> ptr) dw" where
  "leb128_uword_wrapper buf startptr endptr =
     dw_bind (decode_leb128_uword_len_ck buf startptr endptr) (\<lambda>((val, _), p). DW_OK (val, p))"

definition leb128_sword_wrapper :: "bytes \<Rightarrow> ptr \<Rightarrow> ptr \<Rightarrow> (s64 \<times> ptr) dw" where
  "leb128_sword_wrapper buf startptr endptr =
     dw_bind (decode_leb128_sword_len_ck buf startptr endptr) (\<lambda>((val, _), p). DW_OK (val, p))"

definition leb128_skip_wrapper :: "bytes \<Rightarrow> ptr \<Rightarrow> ptr \<Rightarrow> (unit \<times> ptr) dw" where
  "leb128_skip_wrapper buf startptr endptr =
     dw_bind (skip_leb128_len_ck buf startptr endptr) (\<lambda>(_, p). DW_OK ((), p))"

section \<open>What a fixed width read returns\<close>

lemma memcpy_swap_loop_eq:
  assumes "i \<le> length src" "length src \<le> length targ"
    and "i < length src \<Longrightarrow> n = length src - 1 - i"
  shows "memcpy_swap_loop src i n targ =
    rev (drop i src) @ drop (length src - i) targ"
  using assms
proof (induction src i n targ rule: memcpy_swap_loop.induct)
  case (1 src i n targ)
  show ?case
  proof (cases "i < length src")
    case True
    have n: "n = length src - 1 - i" using 1 True by simp
    have "memcpy_swap_loop src (i + 1) (n - 1) (targ[n := src ! i]) =
        rev (drop (i + 1) src) @ drop (length src - (i + 1)) (targ[n := src ! i])"
      using 1(1) [OF True] 1(2-4) True n by simp
    moreover have "drop (length src - (i + 1)) (targ[n := src ! i]) = src ! i # drop (length src - i) targ"
    proof -
      have "length src - (i + 1) = n" "length src - i = Suc n" "n < length targ"
        using n True 1(3) by simp_all
      then show ?thesis by (simp add: Cons_nth_drop_Suc [symmetric] drop_update_cancel)
    qed
    moreover have "drop i src = src ! i # drop (i + 1) src" using True by (simp add: Cons_nth_drop_Suc)
    ultimately show ?thesis using True by (simp add: memcpy_swap_loop.simps [of src i])
  next
    case False
    then have "memcpy_swap_loop src i n targ = targ" by (subst memcpy_swap_loop.simps) simp
    then show ?thesis using False 1(2) by simp
  qed
qed

lemma memcpy_swap_rev:
  "length src \<le> 8 \<Longrightarrow> length src \<le> length targ \<Longrightarrow>
   memcpy_swap targ src = rev src @ drop (length src) targ"
  by (simp add: memcpy_swap_def memcpy_swap_loop_eq)

lemma le_nat_append: "le_nat (xs @ ys) = le_nat xs + 256 ^ length xs * le_nat ys"
  by (induction xs) (simp_all add: algebra_simps)

lemma le_nat_zeros [simp]: "le_nat (replicate n 0) = 0"
  by (induction n) simp_all

lemma le_nat_bound: "le_nat bs < 256 ^ length bs"
proof (induction bs)
  case (Cons b bs)
  then have "256 * (le_nat bs + 1) \<le> 256 * 256 ^ length bs" by (intro mult_le_mono2) simp
  moreover have "unat b < 256" by simp
  ultimately show ?case by (simp del: u8_bound)
qed simp

definition number_of_bytes :: "dwarf_debug \<Rightarrow> bytes \<Rightarrow> nat" where
  "number_of_bytes dbg bs =
     (case de_copy_word dbg of memcpy_noswap_bytes \<Rightarrow> le_nat bs | memcpy_swap_bytes \<Rightarrow> le_nat (rev bs))"

lemma number_of_bytes_bound: "number_of_bytes dbg bs < 256 ^ length bs"
  using le_nat_bound [of bs] le_nat_bound [of "rev bs"]
  by (simp add: number_of_bytes_def split: copy_word.splits)

lemma read_unaligned_ck_eq:
  assumes "e \<le> length buf" "len \<le> 8"
  shows "read_unaligned_ck dbg buf p len e =
    (if p + len \<le> e then DW_OK (word_of_nat (number_of_bytes dbg (seg buf p (p + len))))
     else DW_ERROR DW_DLE_READ_LITTLEENDIAN_ERROR)"
  using assms
  by (simp add: read_unaligned_ck_def Let_def run_copy_word_def memcpy_noswap_def memcpy_swap_rev
      number_of_bytes_def le_nat_append split: copy_word.splits)

lemma read_unaligned_ck_no_fault [no_fault]:
  "e \<le> length buf \<Longrightarrow> len \<le> 8 \<Longrightarrow> read_unaligned_ck dbg buf p len e \<noteq> FAULT"
  by (simp add: read_unaligned_ck_eq)

lemma read_unaligned_ck_OK:
  "read_unaligned_ck dbg buf p len e = DW_OK v \<Longrightarrow> p + len \<le> e \<and> p + len \<le> length buf \<and> len \<le> 8"
  by (simp add: read_unaligned_ck_def Let_def split: if_splits)

lemma read_unaligned_ck_not_NO_ENTRY [simp]: "read_unaligned_ck dbg buf p len e \<noteq> DW_NO_ENTRY"
  by (simp add: read_unaligned_ck_def Let_def)

lemma unat_read_unaligned_ck:
  assumes "e \<le> length buf" "len \<le> 8" "read_unaligned_ck dbg buf p len e = DW_OK v"
  shows "unat v = number_of_bytes dbg (seg buf p (p + len))" "unat v < 256 ^ len"
proof -
  have v: "v = word_of_nat (number_of_bytes dbg (seg buf p (p + len)))" "p + len \<le> e"
    using assms by (simp_all add: read_unaligned_ck_eq split: if_splits)
  have b: "number_of_bytes dbg (seg buf p (p + len)) < 256 ^ len"
    using number_of_bytes_bound [of dbg "seg buf p (p + len)"] v(2) assms(1) by simp
  also have "(256 :: nat) ^ len \<le> 256 ^ 8" using assms(2) by (intro power_increasing) simp_all
  finally have "number_of_bytes dbg (seg buf p (p + len)) < 2 ^ 64" by simp
  then show "unat v = number_of_bytes dbg (seg buf p (p + len))"
    unfolding v(1) by (simp add: unat_of_nat)
  then show "unat v < 256 ^ len" using b by simp
qed

section \<open>The readers keep the contract\<close>

lemma skip_leb128_len_ck_OK:
  "skip_leb128_len_ck buf p e = DW_OK (n, p') \<Longrightarrow> 0 < n \<and> n \<le> 24 \<and> p' = p + n \<and> p' \<le> e"
  by (auto simp: skip_leb128_len_ck_def dest!: skip_leb128_OK split: leb_result.splits)

lemma skip_leb128_len_ck_no_fault [no_fault]:
  "e \<le> length buf \<Longrightarrow> skip_leb128_len_ck buf p e \<noteq> FAULT"
  using skip_leb128_no_fault by (auto simp: skip_leb128_len_ck_def split: leb_result.splits)

lemma decode_leb128_uword_len_ck_OK:
  "decode_leb128_uword_len_ck buf p e = DW_OK ((v, n), p') \<Longrightarrow> 0 < n \<and> n \<le> 24 \<and> p' = p + n \<and> p' \<le> e"
  by (auto simp: decode_leb128_uword_len_ck_def dest!: decode_leb128_OK split: leb_result.splits)

lemma decode_leb128_uword_len_ck_no_fault [no_fault]:
  "e \<le> length buf \<Longrightarrow> decode_leb128_uword_len_ck buf p e \<noteq> FAULT"
  using decode_leb128_no_fault by (auto simp: decode_leb128_uword_len_ck_def split: leb_result.splits)

lemma decode_leb128_sword_len_ck_OK:
  "decode_leb128_sword_len_ck buf p e = DW_OK ((v, n), p') \<Longrightarrow> 0 < n \<and> n \<le> 24 \<and> p' = p + n \<and> p' \<le> e"
  by (auto simp: decode_leb128_sword_len_ck_def dest!: decode_signed_leb128_OK split: leb_result.splits)

lemma decode_leb128_sword_len_ck_no_fault [no_fault]:
  "e \<le> length buf \<Longrightarrow> decode_leb128_sword_len_ck buf p e \<noteq> FAULT"
  using decode_signed_leb128_no_fault
  by (auto simp: decode_leb128_sword_len_ck_def split: leb_result.splits)

interpretation uleb_len: bounded_reader decode_leb128_uword_len_ck
  by unfold_locales (auto simp: no_fault dest: decode_leb128_uword_len_ck_OK)

interpretation sleb_len: bounded_reader decode_leb128_sword_len_ck
  by unfold_locales (auto simp: no_fault dest: decode_leb128_sword_len_ck_OK)

interpretation skip_len: bounded_reader skip_leb128_len_ck
  by unfold_locales (auto simp: no_fault dest: skip_leb128_len_ck_OK)

interpretation uword: bounded_reader leb128_uword_wrapper
proof unfold_locales
  fix e :: ptr and buf :: bytes and p :: ptr assume "e \<le> length buf"
  then show "leb128_uword_wrapper buf p e \<noteq> FAULT"
    using decode_leb128_uword_len_ck_no_fault by (auto simp: leb128_uword_wrapper_def dw_simps)
next
  fix buf p e v p' assume "leb128_uword_wrapper buf p e = DW_OK (v, p')"
  then show "p < p' \<and> p' \<le> e"
    by (auto simp: leb128_uword_wrapper_def dw_bind_OK_iff dest: decode_leb128_uword_len_ck_OK)
qed

interpretation sword: bounded_reader leb128_sword_wrapper
proof unfold_locales
  fix e :: ptr and buf :: bytes and p :: ptr assume "e \<le> length buf"
  then show "leb128_sword_wrapper buf p e \<noteq> FAULT"
    using decode_leb128_sword_len_ck_no_fault by (auto simp: leb128_sword_wrapper_def dw_simps)
next
  fix buf p e v p' assume "leb128_sword_wrapper buf p e = DW_OK (v, p')"
  then show "p < p' \<and> p' \<le> e"
    by (auto simp: leb128_sword_wrapper_def dw_bind_OK_iff dest: decode_leb128_sword_len_ck_OK)
qed

interpretation skip: bounded_reader leb128_skip_wrapper
proof unfold_locales
  fix e :: ptr and buf :: bytes and p :: ptr assume "e \<le> length buf"
  then show "leb128_skip_wrapper buf p e \<noteq> FAULT"
    using skip_leb128_len_ck_no_fault by (auto simp: leb128_skip_wrapper_def dw_simps)
next
  fix buf p e v p' assume "leb128_skip_wrapper buf p e = DW_OK (v, p')"
  then show "p < p' \<and> p' \<le> e"
    by (auto simp: leb128_skip_wrapper_def dw_bind_OK_iff dest: skip_leb128_len_ck_OK)
qed

lemma read_area_length_ck_no_fault [no_fault]:
  "e \<le> length buf \<Longrightarrow> read_area_length_ck dbg buf p seclen e \<noteq> FAULT"
  by (auto simp: read_area_length_ck_def no_fault dw_simps split: if_splits)

lemma read_area_length_ck_OK:
  assumes "read_area_length_ck dbg buf p seclen e = DW_OK ((len, lsize, xsize), p')"
  shows "p' = p + lsize + xsize \<and> p' \<le> e \<and> len \<le> seclen \<and>
    (lsize = 4 \<and> xsize = 0 \<or> lsize = 8 \<and> xsize = 4 \<or>
     lsize = 8 \<and> xsize = 0 \<and> de_big_endian_object dbg \<and> de_length_size dbg = 8)"
  using assms
  by (auto simp: read_area_length_ck_def dw_bind_OK_iff not_less
      dest!: read_unaligned_ck_OK split: if_splits)

interpretation area: bounded_reader "\<lambda>buf p e. read_area_length_ck dbg buf p seclen e" for dbg seclen
proof unfold_locales
  fix buf p e v p' assume "read_area_length_ck dbg buf p seclen e = DW_OK (v, p')"
  then show "p < p' \<and> p' \<le> e"
    by (cases v) (auto dest!: read_area_length_ck_OK)
qed (rule read_area_length_ck_no_fault)

section \<open>Properties\<close>

text \<open>
  After the byte order of the object is set up, a read of at most eight bytes inside the buffer
  returns the number those bytes denote in that order, low byte first for a little endian and high byte
  first for a big endian object, and a read that would pass the end pointer is the error and nothing else.
\<close>

theorem read_unaligned_value:
  assumes "e \<le> length buf" "len \<le> 8"
  shows "read_unaligned_ck (setup_byte_order order dbg) buf p len e =
    (if p + len \<le> e then
       DW_OK (word_of_nat (le_nat (if order = DW_END_little then seg buf p (p + len)
                                   else rev (seg buf p (p + len)))))
     else DW_ERROR DW_DLE_READ_LITTLEENDIAN_ERROR)"
  using assms
  by (cases order) (simp_all add: read_unaligned_ck_eq number_of_bytes_def setup_byte_order_def Let_def)

theorem read_unaligned_value_witness:
  "read_unaligned_ck (setup_byte_order DW_END_big debug_le64) [0x12, 0x34, 0x56] 0 2 3 = DW_OK 0x1234"
  using read_unaligned_value [of 3 "[0x12, 0x34, 0x56]" 2 DW_END_big debug_le64 0]
  by (simp add: seg_def)

text \<open>
  C38: Reading an initial length never leaves the section; when it succeeds the offset size is 4 or 8,
  the pointer stands just past the bytes read, still inside, and the length is at most that of the section.
\<close>

theorem read_area_length_spec:
  assumes "e \<le> length buf"
  shows "read_area_length_ck dbg buf p seclen e \<noteq> FAULT \<and>
    (\<forall>len lsize xsize p'. read_area_length_ck dbg buf p seclen e = DW_OK ((len, lsize, xsize), p') \<longrightarrow>
      p' = p + lsize + xsize \<and> p' \<le> e \<and> len \<le> seclen \<and> (lsize = 4 \<or> lsize = 8) \<and>
      (lsize = 4 \<longrightarrow> xsize = 0))"
  using read_area_length_ck_no_fault [OF assms] read_area_length_ck_OK by fastforce

theorem read_area_length_spec_witness:
  "read_area_length_ck debug_le64 ([0xff, 0xff, 0xff, 0xff, 6] @ replicate 15 0) 0 20 20 =
     DW_OK ((6, 8, 4), 12) \<and> (6 :: u64) \<le> 20 \<and> (12 :: nat) \<le> 20"
proof -
  let ?b = "[0xff, 0xff, 0xff, 0xff, 6 :: u8] @ replicate 15 0"
  have "read_area_length_ck debug_le64 ?b 0 20 20 = DW_OK ((6, 8, 4), 12)"
    by (simp add: read_area_length_ck_def read_unaligned_ck_eq number_of_bytes_def debug_le64_def
        seg_def)
  moreover have "20 \<le> length ?b" by simp
  note read_area_length_spec [OF this, of debug_le64 0 20]
  ultimately show ?thesis by fastforce
qed

end
