(* ===== verification/Forms.thy ===== *)
theory Forms
  imports Reader
begin

text \<open>
  Attribute forms, strings and unit headers (\<open>dwarf_util.c\<close>): how many bytes a value of a given
  form occupies, which forms are known, whether a string ends inside its area, and the size of a compilation
  unit header. Forms are the numbers of \<open>dwarf.h\<close>.
\<close>

section \<open>Constants\<close>

abbreviation (input) DW_FORM_addr :: u64 where "DW_FORM_addr \<equiv> 0x01"
abbreviation (input) DW_FORM_block2 :: u64 where "DW_FORM_block2 \<equiv> 0x03"
abbreviation (input) DW_FORM_block4 :: u64 where "DW_FORM_block4 \<equiv> 0x04"
abbreviation (input) DW_FORM_data2 :: u64 where "DW_FORM_data2 \<equiv> 0x05"
abbreviation (input) DW_FORM_data4 :: u64 where "DW_FORM_data4 \<equiv> 0x06"
abbreviation (input) DW_FORM_data8 :: u64 where "DW_FORM_data8 \<equiv> 0x07"
abbreviation (input) DW_FORM_string :: u64 where "DW_FORM_string \<equiv> 0x08"
abbreviation (input) DW_FORM_block :: u64 where "DW_FORM_block \<equiv> 0x09"
abbreviation (input) DW_FORM_block1 :: u64 where "DW_FORM_block1 \<equiv> 0x0a"
abbreviation (input) DW_FORM_data1 :: u64 where "DW_FORM_data1 \<equiv> 0x0b"
abbreviation (input) DW_FORM_flag :: u64 where "DW_FORM_flag \<equiv> 0x0c"
abbreviation (input) DW_FORM_sdata :: u64 where "DW_FORM_sdata \<equiv> 0x0d"
abbreviation (input) DW_FORM_strp :: u64 where "DW_FORM_strp \<equiv> 0x0e"
abbreviation (input) DW_FORM_udata :: u64 where "DW_FORM_udata \<equiv> 0x0f"
abbreviation (input) DW_FORM_ref_addr :: u64 where "DW_FORM_ref_addr \<equiv> 0x10"
abbreviation (input) DW_FORM_ref1 :: u64 where "DW_FORM_ref1 \<equiv> 0x11"
abbreviation (input) DW_FORM_ref2 :: u64 where "DW_FORM_ref2 \<equiv> 0x12"
abbreviation (input) DW_FORM_ref4 :: u64 where "DW_FORM_ref4 \<equiv> 0x13"
abbreviation (input) DW_FORM_ref8 :: u64 where "DW_FORM_ref8 \<equiv> 0x14"
abbreviation (input) DW_FORM_ref_udata :: u64 where "DW_FORM_ref_udata \<equiv> 0x15"
abbreviation (input) DW_FORM_indirect :: u64 where "DW_FORM_indirect \<equiv> 0x16"
abbreviation (input) DW_FORM_sec_offset :: u64 where "DW_FORM_sec_offset \<equiv> 0x17"
abbreviation (input) DW_FORM_exprloc :: u64 where "DW_FORM_exprloc \<equiv> 0x18"
abbreviation (input) DW_FORM_flag_present :: u64 where "DW_FORM_flag_present \<equiv> 0x19"
abbreviation (input) DW_FORM_strx :: u64 where "DW_FORM_strx \<equiv> 0x1a"
abbreviation (input) DW_FORM_addrx :: u64 where "DW_FORM_addrx \<equiv> 0x1b"
abbreviation (input) DW_FORM_ref_sup4 :: u64 where "DW_FORM_ref_sup4 \<equiv> 0x1c"
abbreviation (input) DW_FORM_strp_sup :: u64 where "DW_FORM_strp_sup \<equiv> 0x1d"
abbreviation (input) DW_FORM_data16 :: u64 where "DW_FORM_data16 \<equiv> 0x1e"
abbreviation (input) DW_FORM_line_strp :: u64 where "DW_FORM_line_strp \<equiv> 0x1f"
abbreviation (input) DW_FORM_ref_sig8 :: u64 where "DW_FORM_ref_sig8 \<equiv> 0x20"
abbreviation (input) DW_FORM_implicit_const :: u64 where "DW_FORM_implicit_const \<equiv> 0x21"
abbreviation (input) DW_FORM_loclistx :: u64 where "DW_FORM_loclistx \<equiv> 0x22"
abbreviation (input) DW_FORM_rnglistx :: u64 where "DW_FORM_rnglistx \<equiv> 0x23"
abbreviation (input) DW_FORM_ref_sup8 :: u64 where "DW_FORM_ref_sup8 \<equiv> 0x24"
abbreviation (input) DW_FORM_strx1 :: u64 where "DW_FORM_strx1 \<equiv> 0x25"
abbreviation (input) DW_FORM_strx2 :: u64 where "DW_FORM_strx2 \<equiv> 0x26"
abbreviation (input) DW_FORM_strx3 :: u64 where "DW_FORM_strx3 \<equiv> 0x27"
abbreviation (input) DW_FORM_strx4 :: u64 where "DW_FORM_strx4 \<equiv> 0x28"
abbreviation (input) DW_FORM_addrx1 :: u64 where "DW_FORM_addrx1 \<equiv> 0x29"
abbreviation (input) DW_FORM_addrx2 :: u64 where "DW_FORM_addrx2 \<equiv> 0x2a"
abbreviation (input) DW_FORM_addrx3 :: u64 where "DW_FORM_addrx3 \<equiv> 0x2b"
abbreviation (input) DW_FORM_addrx4 :: u64 where "DW_FORM_addrx4 \<equiv> 0x2c"
abbreviation (input) DW_FORM_GNU_addr_index :: u64 where "DW_FORM_GNU_addr_index \<equiv> 0x1f01"
abbreviation (input) DW_FORM_GNU_str_index :: u64 where "DW_FORM_GNU_str_index \<equiv> 0x1f02"
abbreviation (input) DW_FORM_GNU_ref_alt :: u64 where "DW_FORM_GNU_ref_alt \<equiv> 0x1f20"
abbreviation (input) DW_FORM_GNU_strp_alt :: u64 where "DW_FORM_GNU_strp_alt \<equiv> 0x1f21"
abbreviation (input) DW_FORM_LLVM_addrx_offset :: u64 where "DW_FORM_LLVM_addrx_offset \<equiv> 0x2001"

section \<open>Strings\<close>

text \<open>\<open>_dwarf_check_string_valid\<close>: its \<open>while\<close> loop, then the checks before it.\<close>

function check_string_loop :: "bytes \<Rightarrow> ptr \<Rightarrow> ptr \<Rightarrow> unit dw" where
  "check_string_loop buf p e =
     (if p < e then
        dw_bind (rd8 buf p) (\<lambda>b. if b = 0 then DW_OK () else check_string_loop buf (p + 1) e)
      else DW_ERROR DW_DLE_STRING_NOT_TERMINATED)"
  by pat_completeness auto
termination by (relation "measure (\<lambda>(buf, p, e). e - p)") auto

declare check_string_loop.simps [simp del]

definition check_string_valid ::
  "dwarf_debug \<Rightarrow> bytes \<Rightarrow> ptr \<Rightarrow> ptr \<Rightarrow> ptr \<Rightarrow> dle \<Rightarrow> unit dw"
where
  "check_string_valid dbg buf start p e suggested_error =
     (if p < start then DW_ERROR suggested_error
      else if p \<ge> e then DW_ERROR suggested_error
      else if de_assume_string_in_bounds dbg then DW_OK ()
      else check_string_loop buf p e)"

text \<open>The C library's \<open>strlen\<close>, which reads up to the first zero byte wherever it is.\<close>

function strlen :: "bytes \<Rightarrow> ptr \<Rightarrow> nat dw" where
  "strlen buf p =
     (if p < length buf then
        if buf ! p = 0 then DW_OK 0 else dw_bind (strlen buf (p + 1)) (\<lambda>n. DW_OK (n + 1))
      else FAULT)"
  by pat_completeness auto
termination by (relation "measure (\<lambda>(buf, p). length buf - p)") auto

declare strlen.simps [simp del]

text \<open>\<open>_dwarf_basename\<close>: the offset of the name after the last slash in a zero terminated path.\<close>

function basename_loop :: "bytes \<Rightarrow> ptr \<Rightarrow> u32 \<Rightarrow> u32 \<Rightarrow> u32 dw" where
  "basename_loop buf cp slashat charnum =
     (if cp < length buf then
        if buf ! cp \<noteq> 0 then
          basename_loop buf (cp + 1) (if buf ! cp = 0x2f then charnum else slashat) (charnum + 1)
        else DW_OK slashat
      else FAULT)"
  by pat_completeness auto
termination by (relation "measure (\<lambda>(buf, p, s, n). length buf - p)") auto

declare basename_loop.simps [simp del]

definition basename :: "bytes \<Rightarrow> ptr \<Rightarrow> ptr dw" where
  "basename buf full =
     dw_bind (basename_loop buf full 0 0) (\<lambda>slashat.
       let slashat = (if slashat \<noteq> 0 then slashat + 1 else slashat) in DW_OK (full + unat slashat))"

section \<open>The size of a value\<close>

text \<open>
  \<open>_dwarf_get_size_of_val\<close>, case by case. \<open>size_out\<close> is what the caller's variable held before,
  returned where the function does not store; \<open>v_length_size\<close> is a C \<open>int\<close>. The space checked for a
  block starts at its length field. In the case of \<open>DW_FORM_indirect\<close> the macro \<open>DECODE_LEB128_UWORD_LEN_CK\<close> has
  moved \<open>val_ptr\<close> behind the form already when the code adds \<open>indir_len\<close> to it once more.
\<close>

definition space_left :: "ptr \<Rightarrow> ptr \<Rightarrow> u64" where
  "space_left section_end_ptr val_ptr =
     (if section_end_ptr \<ge> val_ptr then word_of_nat (section_end_ptr - val_ptr) else 0)"

definition size_of_block1 :: "bytes \<Rightarrow> ptr \<Rightarrow> ptr \<Rightarrow> u64 dw" where
  "size_of_block1 buf val_ptr section_end_ptr =
     (if val_ptr \<ge> section_end_ptr then DW_ERROR DW_DLE_FORM_BLOCK_LENGTH_ERROR
      else dw_bind (rd8 buf val_ptr) (\<lambda>b.
        let ret_value = ucast b in
        if ret_value > space_left section_end_ptr val_ptr
        then DW_ERROR DW_DLE_FORM_BLOCK_LENGTH_ERROR
        else DW_OK (ret_value + 1)))"

definition size_of_block2 :: "dwarf_debug \<Rightarrow> bytes \<Rightarrow> ptr \<Rightarrow> ptr \<Rightarrow> u64 dw" where
  "size_of_block2 dbg buf val_ptr section_end_ptr =
     dw_bind (read_unaligned_ck dbg buf val_ptr 2 section_end_ptr) (\<lambda>ret_value.
       if ret_value > space_left section_end_ptr val_ptr
       then DW_ERROR DW_DLE_FORM_BLOCK_LENGTH_ERROR
       else DW_OK (ret_value + 2))"

definition size_of_block4 :: "dwarf_debug \<Rightarrow> bytes \<Rightarrow> ptr \<Rightarrow> ptr \<Rightarrow> u64 dw" where
  "size_of_block4 dbg buf val_ptr section_end_ptr =
     dw_bind (read_unaligned_ck dbg buf val_ptr 4 section_end_ptr) (\<lambda>ret_value.
       if ret_value > space_left section_end_ptr val_ptr
       then DW_ERROR DW_DLE_FORM_BLOCK_LENGTH_ERROR
       else DW_OK (ret_value + 4))"

definition size_of_string :: "dwarf_debug \<Rightarrow> bytes \<Rightarrow> ptr \<Rightarrow> ptr \<Rightarrow> u64 dw" where
  "size_of_string dbg buf val_ptr section_end_ptr =
     dw_bind (check_string_valid dbg buf val_ptr val_ptr section_end_ptr DW_DLE_FORM_STRING_BAD_STRING)
       (\<lambda>_. dw_bind (strlen buf val_ptr) (\<lambda>n. DW_OK (word_of_nat n + 1)))"

definition size_of_block :: "bytes \<Rightarrow> ptr \<Rightarrow> ptr \<Rightarrow> u64 dw" where
  "size_of_block buf val_ptr section_end_ptr =
     dw_bind (decode_leb128_uword_len_ck buf val_ptr section_end_ptr)
       (\<lambda>((len, leb128_length), _). DW_OK (len + word_of_nat leb128_length))"

definition size_of_leb :: "bytes \<Rightarrow> ptr \<Rightarrow> ptr \<Rightarrow> u64 dw" where
  "size_of_leb buf val_ptr section_end_ptr =
     dw_bind (skip_leb128_len_ck buf val_ptr section_end_ptr)
       (\<lambda>(leb128_length, _). DW_OK (word_of_nat leb128_length))"

text \<open>The cases after \<open>DW_FORM_indirect\<close>, in the order of the source.\<close>

definition size_of_val_tail :: "u64 \<Rightarrow> bytes \<Rightarrow> ptr \<Rightarrow> int \<Rightarrow> ptr \<Rightarrow> u64 dw" where
  "size_of_val_tail form buf val_ptr v_length_size section_end_ptr =
     (if form = DW_FORM_ref1 then DW_OK 1
      else if form = DW_FORM_ref2 then DW_OK 2
      else if form = DW_FORM_ref4 then DW_OK 4
      else if form = DW_FORM_ref8 then DW_OK 8
      else if form = DW_FORM_implicit_const then DW_OK 0
      else if form = DW_FORM_sdata then size_of_leb buf val_ptr section_end_ptr
      else if form = DW_FORM_ref_sup4 then DW_OK 4
      else if form = DW_FORM_ref_sup8 then DW_OK 8
      else if form = DW_FORM_addrx1 then DW_OK 1
      else if form = DW_FORM_addrx2 then DW_OK 2
      else if form = DW_FORM_addrx3 then DW_OK 3
      else if form = DW_FORM_addrx4 then DW_OK 4
      else if form = DW_FORM_strx1 then DW_OK 1
      else if form = DW_FORM_strx2 then DW_OK 2
      else if form = DW_FORM_strx3 then DW_OK 3
      else if form = DW_FORM_strx4 then DW_OK 4
      else if form \<in> {DW_FORM_loclistx, DW_FORM_rnglistx, DW_FORM_addrx, DW_FORM_GNU_addr_index,
          DW_FORM_strx, DW_FORM_GNU_str_index}
        then size_of_leb buf val_ptr section_end_ptr
      else if form = DW_FORM_line_strp \<or> form = DW_FORM_strp then DW_OK (word_of_int v_length_size)
      else if form = DW_FORM_LLVM_addrx_offset
        then dw_bind (size_of_leb buf val_ptr section_end_ptr) (\<lambda>n. DW_OK (n + 4))
      else if form = DW_FORM_udata then size_of_leb buf val_ptr section_end_ptr
      else DW_ERROR DW_DLE_DEBUG_FORM_HANDLING_INCOMPLETE)"

function get_size_of_val ::
  "dwarf_debug \<Rightarrow> u64 \<Rightarrow> u16 \<Rightarrow> u16 \<Rightarrow> bytes \<Rightarrow> ptr \<Rightarrow> int \<Rightarrow> u64 \<Rightarrow> ptr \<Rightarrow> u64 dw"
where
  "get_size_of_val dbg form cu_version address_size buf val_ptr v_length_size size_out section_end_ptr =
     (if form = 0 then DW_OK size_out
      else if form = DW_FORM_GNU_ref_alt \<or> form = DW_FORM_GNU_strp_alt \<or> form = DW_FORM_strp_sup
        then DW_OK (word_of_int v_length_size)
      else if form = DW_FORM_addr then
        DW_OK (if address_size \<noteq> 0 then ucast address_size else ucast (de_pointer_size dbg))
      else if form = DW_FORM_ref_sig8 then DW_OK 8
      else if form = DW_FORM_ref_addr then
        DW_OK (if cu_version = 2 then ucast address_size else word_of_int v_length_size)
      else if form = DW_FORM_block1 then size_of_block1 buf val_ptr section_end_ptr
      else if form = DW_FORM_block2 then size_of_block2 dbg buf val_ptr section_end_ptr
      else if form = DW_FORM_block4 then size_of_block4 dbg buf val_ptr section_end_ptr
      else if form = DW_FORM_data1 then DW_OK 1
      else if form = DW_FORM_data2 then DW_OK 2
      else if form = DW_FORM_data4 then DW_OK 4
      else if form = DW_FORM_data8 then DW_OK 8
      else if form = DW_FORM_data16 then DW_OK 16
      else if form = DW_FORM_string then size_of_string dbg buf val_ptr section_end_ptr
      else if form = DW_FORM_block \<or> form = DW_FORM_exprloc then size_of_block buf val_ptr section_end_ptr
      else if form = DW_FORM_flag_present then DW_OK 0
      else if form = DW_FORM_flag then DW_OK 1
      else if form = DW_FORM_sec_offset then DW_OK (word_of_int v_length_size)
      else if form = DW_FORM_ref_udata then size_of_leb buf val_ptr section_end_ptr
      else if form = DW_FORM_indirect then
        dw_bind (decode_leb128_uword_len_ck buf val_ptr section_end_ptr) (\<lambda>((form_indirect, indir_len), val_ptr).
          if form_indirect = DW_FORM_indirect then DW_ERROR DW_DLE_NESTED_FORM_INDIRECT_ERROR
          else dw_bind (get_size_of_val dbg form_indirect cu_version address_size buf
                 (val_ptr + indir_len) v_length_size 0 section_end_ptr)
               (\<lambda>info_data_len. DW_OK (word_of_nat indir_len + info_data_len)))
      else size_of_val_tail form buf val_ptr v_length_size section_end_ptr)"
  by pat_completeness auto
termination
  by (relation "measure (\<lambda>(dbg, form, r). if form = DW_FORM_indirect then 1 else 0)") auto

declare get_size_of_val.simps [simp del]

section \<open>Known forms\<close>

definition valid_form_we_know :: "u64 \<Rightarrow> u64 \<Rightarrow> bool" where
  "valid_form_we_know at_form at_name =
     (if at_form = 0 \<and> at_name = 0 then True
      else if at_name = 0 then False
      else if at_form \<le> DW_FORM_addrx4 then True
      else if at_form = DW_FORM_GNU_addr_index \<or> at_form = DW_FORM_GNU_str_index \<or>
          at_form = DW_FORM_GNU_ref_alt \<or> at_form = DW_FORM_GNU_strp_alt then True
      else False)"

section \<open>Unit headers\<close>

definition cu_section :: "dwarf_debug \<Rightarrow> bool \<Rightarrow> bytes" where
  "cu_section dbg is_info = (if is_info then de_debug_info dbg else de_debug_types dbg)"

definition cu_header_size_v5 :: "u64 \<Rightarrow> u64 \<Rightarrow> u64 \<Rightarrow> u64 dw" where
  "cu_header_size_v5 unit_type lsize xsize =
     (if unit_type = 0x01 \<or> unit_type = 0x03
      then DW_OK (xsize + lsize + 2 + 1 + 1 + lsize)
      else if unit_type = 0x02 \<or> unit_type = 0x06
      then DW_OK (xsize + lsize + 2 + 1 + 1 + lsize + 8 + lsize)
      else if unit_type = 0x04 \<or> unit_type = 0x05
      then DW_OK (xsize + lsize + 2 + 1 + 1 + lsize + 8)
      else DW_ERROR DW_DLE_UNIT_TYPE_NOT_HANDLED)"

text \<open>The part of \<open>_dwarf_length_of_cu_header\<close> behind the length field.\<close>

definition cu_header_size :: "dwarf_debug \<Rightarrow> bytes \<Rightarrow> ptr \<Rightarrow> ptr \<Rightarrow> bool \<Rightarrow> u64 \<Rightarrow> u64 \<Rightarrow> u64 dw" where
  "cu_header_size dbg buf cuptr section_end_ptr is_info lsize xsize =
     dw_bind (read_unaligned_ck dbg buf cuptr 2 section_end_ptr) (\<lambda>version.
       let cuptr = cuptr + 2 in
       if version = 5 then
         dw_bind (read_unaligned_ck dbg buf cuptr 1 section_end_ptr)
           (\<lambda>unit_type. cu_header_size_v5 unit_type lsize xsize)
       else if version = 4 then
         DW_OK (xsize + lsize + 2 + lsize + 1 + (if \<not> is_info then 8 + lsize else 0))
       else if version < 4 then DW_OK (xsize + lsize + 2 + lsize + 1)
       else DW_OK 0)"

definition length_of_cu_header :: "dwarf_debug \<Rightarrow> u64 \<Rightarrow> bool \<Rightarrow> u64 dw" where
  "length_of_cu_header dbg offset is_info =
     (let buf = cu_section dbg is_info;
          section_length = word_of_nat (length buf) :: u64;
          section_end_ptr = length buf
      in dw_bind (read_area_length_ck dbg buf (unat offset) section_length section_end_ptr)
        (\<lambda>((len, local_length_size, local_extension_size), cuptr).
          let lsize = word_of_nat local_length_size; xsize = word_of_nat local_extension_size in
          if len > section_length \<or> len + lsize + xsize > section_length
          then DW_ERROR DW_DLE_HEADER_LEN_BIGGER_THAN_SECSIZE
          else cu_header_size dbg buf cuptr section_end_ptr is_info lsize xsize))"

definition length_of_cu_header_simple :: "dwarf_debug \<Rightarrow> bool \<Rightarrow> u64" where
  "length_of_cu_header_simple dbg dinfo =
     (let finalsize = ucast (de_length_size dbg) + 2 + ucast (de_length_size dbg) + 1 in
      if \<not> dinfo then finalsize + (8 + ucast (de_length_size dbg)) else finalsize)"

definition reference_outside_section :: "dwarf_debug \<Rightarrow> bool \<Rightarrow> ptr \<Rightarrow> ptr \<Rightarrow> bool" where
  "reference_outside_section dbg di_is_info startaddr pastend =
     (if startaddr < 0 then True
      else if pastend > 0 + length (cu_section dbg di_is_info) then True
      else False)"

section \<open>Strings in their area\<close>

lemma check_string_loop_no_fault: "e \<le> length buf \<Longrightarrow> check_string_loop buf p e \<noteq> FAULT"
proof (induction buf p e rule: check_string_loop.induct)
  case (1 buf p e)
  then show ?case by (subst check_string_loop.simps) (auto simp: dw_simps)
qed

lemma check_string_loop_OK:
  "check_string_loop buf p e = DW_OK u \<Longrightarrow>
   \<exists>n. strlen buf p = DW_OK n \<and> p + n < e \<and> buf ! (p + n) = 0 \<and> (\<forall>i < n. buf ! (p + i) \<noteq> 0)"
proof (induction buf p e rule: check_string_loop.induct)
  case (1 buf p e)
  then have pe: "p < e" "p < length buf"
    by (auto simp: check_string_loop.simps [of buf p] rd8_def split: if_splits)
  show ?case
  proof (cases "buf ! p = 0")
    case True
    then show ?thesis using pe by (subst strlen.simps) auto
  next
    case False
    then have "check_string_loop buf (p + 1) e = DW_OK u"
      using "1.prems" pe by (simp add: check_string_loop.simps [of buf p])
    with 1 pe False obtain n where n: "strlen buf (p + 1) = DW_OK n" "p + 1 + n < e"
      "buf ! (p + 1 + n) = 0" "\<forall>i < n. buf ! (p + 1 + i) \<noteq> 0" by auto
    have "\<forall>i < Suc n. buf ! (p + i) \<noteq> 0"
      using n(4) False by (auto simp: less_Suc_eq_0_disj)
    then show ?thesis using n pe False by (subst strlen.simps) (auto intro: exI [of _ "Suc n"])
  qed
qed

lemma check_string_valid_no_fault [no_fault]:
  "e \<le> length buf \<Longrightarrow> check_string_valid dbg buf s p e err \<noteq> FAULT"
  by (auto simp: check_string_valid_def check_string_loop_no_fault)

lemma size_of_string_no_fault [no_fault]:
  assumes "e \<le> length buf" "\<not> de_assume_string_in_bounds dbg"
  shows "size_of_string dbg buf p e \<noteq> FAULT"
  using assms check_string_loop_OK [of buf p e] check_string_loop_no_fault [of e buf p]
  by (auto simp: size_of_string_def dw_simps no_fault check_string_valid_def split: if_splits)

section \<open>Sizes\<close>

lemma size_of_block_no_fault [no_fault]: "e \<le> length buf \<Longrightarrow> size_of_block buf p e \<noteq> FAULT"
  by (auto simp: size_of_block_def dw_simps no_fault)

lemma size_of_leb_no_fault [no_fault]: "e \<le> length buf \<Longrightarrow> size_of_leb buf p e \<noteq> FAULT"
  by (auto simp: size_of_leb_def dw_simps no_fault)

lemma size_of_blocks_no_fault [no_fault]:
  "e \<le> length buf \<Longrightarrow> size_of_block1 buf p e \<noteq> FAULT"
  "e \<le> length buf \<Longrightarrow> size_of_block2 dbg buf p e \<noteq> FAULT"
  "e \<le> length buf \<Longrightarrow> size_of_block4 dbg buf p e \<noteq> FAULT"
  by (auto simp: size_of_block1_def size_of_block2_def size_of_block4_def dw_simps Let_def no_fault
      split: if_splits)

lemma size_of_val_tail_no_fault [no_fault]:
  "e \<le> length buf \<Longrightarrow> size_of_val_tail form buf p vl e \<noteq> FAULT"
  by (simp add: size_of_val_tail_def no_fault dw_simps)

lemma get_size_of_val_no_fault:
  assumes "e \<le> length buf" "\<not> de_assume_string_in_bounds dbg"
  shows "get_size_of_val dbg form cuv asz buf p vl so e \<noteq> FAULT"
  using assms
proof (induction dbg form cuv asz buf p vl so e rule: get_size_of_val.induct)
  case (1 dbg form cuv asz buf p vl so e)
  show ?case
  proof (cases "form = DW_FORM_indirect")
    case True
    have "\<And>f n p'. f \<noteq> DW_FORM_indirect \<Longrightarrow> decode_leb128_uword_len_ck buf p e = DW_OK ((f, n), p') \<Longrightarrow>
        get_size_of_val dbg f cuv asz buf (p' + n) vl 0 e \<noteq> FAULT"
      using 1 True by simp
    then show ?thesis using 1(2) True
      by (subst get_size_of_val.simps) (auto simp: dw_simps no_fault split: if_splits)
  next
    case False
    then show ?thesis using 1(2,3)
      by (subst get_size_of_val.simps) (simp add: no_fault)
  qed
qed

text \<open>The space check of the blocks is made from the length field, not from behind it.\<close>

lemma unat_space_left: "length buf < 2 ^ 64 \<Longrightarrow> e \<le> length buf \<Longrightarrow> unat (space_left e p) = e - p"
  by (simp add: space_left_def unat_of_nat del: of_nat_diff)

lemma block_bound:
  assumes "\<not> len > space_left e p" "unat len < 2 ^ 32" "k < 2 ^ 32" "p \<le> e"
    and "e \<le> length buf" "length buf < 2 ^ 64"
  shows "unat (len + word_of_nat k) = unat len + k \<and> p + (unat len + k) \<le> e + k"
proof -
  have "unat len \<le> e - p"
    using assms(1) unat_space_left [OF assms(6,5), of p] by (simp add: not_less word_le_nat_alt)
  moreover have "unat (len + word_of_nat k) = unat len + k"
    using assms(2,3) by (simp add: unat_word_ariths unat_of_nat)
  ultimately show ?thesis using assms(4) by linarith
qed

lemma size_of_block1_bound:
  assumes "size_of_block1 buf p e = DW_OK n" "e \<le> length buf" "length buf < 2 ^ 64"
  shows "p + unat n \<le> e + 1"
proof -
  have n: "n = ucast (buf ! p) + 1" "p < e" "\<not> ucast (buf ! p) > space_left e p"
    using assms(1,2) by (auto simp: size_of_block1_def Let_def split: if_splits)
  have "unat (ucast (buf ! p) :: u64) < 2 ^ 32"
    using less_trans [OF u8_bound [of "buf ! p"], of "2 ^ 32"] by simp
  from block_bound [OF n(3) this _ _ assms(2,3), of 1] show ?thesis using n by simp
qed

lemma size_of_block2_bound:
  assumes "size_of_block2 dbg buf p e = DW_OK n" "e \<le> length buf" "length buf < 2 ^ 64"
  shows "p + unat n \<le> e + 2"
proof -
  obtain v where v: "read_unaligned_ck dbg buf p 2 e = DW_OK v" "n = v + 2" "\<not> v > space_left e p"
    using assms(1) by (auto simp: size_of_block2_def dw_simps split: if_splits)
  have "unat v < 256 ^ 2" using unat_read_unaligned_ck(2) [OF assms(2) _ v(1)] by simp
  then have "unat v < 2 ^ 32" by simp
  from block_bound [OF v(3) this _ _ assms(2,3), of 2] show ?thesis
    using v(2) read_unaligned_ck_OK [OF v(1)] by simp
qed

lemma size_of_block4_bound:
  assumes "size_of_block4 dbg buf p e = DW_OK n" "e \<le> length buf" "length buf < 2 ^ 64"
  shows "p + unat n \<le> e + 4"
proof -
  obtain v where v: "read_unaligned_ck dbg buf p 4 e = DW_OK v" "n = v + 4" "\<not> v > space_left e p"
    using assms(1) by (auto simp: size_of_block4_def dw_simps split: if_splits)
  have "unat v < 256 ^ 4" using unat_read_unaligned_ck(2) [OF assms(2) _ v(1)] by simp
  then have "unat v < 2 ^ 32" by simp
  from block_bound [OF v(3) this _ _ assms(2,3), of 4] show ?thesis
    using v(2) read_unaligned_ck_OK [OF v(1)] by simp
qed

lemma size_of_string_OK:
  assumes "size_of_string dbg buf p e = DW_OK n" "\<not> de_assume_string_in_bounds dbg"
    and "e \<le> length buf" "length buf < 2 ^ 64"
  shows "strlen buf p = DW_OK (unat n - 1) \<and> 0 < unat n \<and> p + unat n \<le> e \<and>
    buf ! (p + (unat n - 1)) = 0 \<and> (\<forall>i < unat n - 1. buf ! (p + i) \<noteq> 0)"
proof -
  obtain m u where m: "strlen buf p = DW_OK m" "n = word_of_nat m + 1" "check_string_loop buf p e = DW_OK u"
    using assms(1,2) by (auto simp: size_of_string_def dw_simps check_string_valid_def split: if_splits)
  from check_string_loop_OK [OF m(3)] m(1)
  have b: "p + m < e" "buf ! (p + m) = 0" "\<forall>i < m. buf ! (p + i) \<noteq> 0" by auto
  have "unat n = m + 1"
    using b(1) assms(3,4) unfolding m(2) by (simp add: unat_word_ariths unat_of_nat)
  then show ?thesis using m(1) b by simp
qed

lemma size_of_leb_OK:
  assumes "size_of_leb buf p e = DW_OK n" "e \<le> length buf"
  shows "uleb_length (seg buf p e) = Some (unat n) \<and> p + unat n \<le> e"
proof -
  obtain k p' where k: "skip_leb128_len_ck buf p e = DW_OK (k, p')" "n = word_of_nat k"
    using assms(1) by (auto simp: size_of_leb_def dw_simps)
  then have "skip_leb128 buf p e = LEB_OK k ()"
    by (auto simp: skip_leb128_len_ck_def split: leb_result.splits)
  moreover have "k \<le> 24" "p + k \<le> e" using skip_leb128_len_ck_OK [OF k(1)] by simp_all
  moreover have "unat n = k" using \<open>k \<le> 24\<close> unfolding k(2) by (simp add: unat_of_nat)
  ultimately show ?thesis using skip_leb128_eq [OF assms(2), of p]
    by (auto split: option.splits if_splits)
qed

section \<open>The layout of a unit header\<close>

text \<open>
  The widths of the fields of a header in the order of the DWARF standard, the length field with its
  64 bit escape first.
\<close>

definition cu_header_fields :: "nat \<Rightarrow> nat \<Rightarrow> bool \<Rightarrow> nat \<Rightarrow> nat \<Rightarrow> nat list" where
  "cu_header_fields version unit_type is_info off ext =
     [ext, off, 2] @
     (if version = 5 then [1, 1, off] @
        (if unit_type = 2 \<or> unit_type = 6 then [8, off] else if unit_type = 4 \<or> unit_type = 5 then [8] else [])
      else [off, 1] @ (if version = 4 \<and> \<not> is_info then [8, off] else []))"

lemma cu_header_size_OK:
  assumes "cu_header_size dbg buf p e is_info (word_of_nat off) (word_of_nat ext) = DW_OK n"
  shows "\<exists>version. read_unaligned_ck dbg buf p 2 e = DW_OK version \<and>
    (if version < 5 then n = word_of_nat (sum_list (cu_header_fields (unat version) 0 is_info off ext))
     else if version = 5 then \<exists>ut. read_unaligned_ck dbg buf (p + 2) 1 e = DW_OK ut \<and>
       n = word_of_nat (sum_list (cu_header_fields 5 (unat ut) is_info off ext))
     else n = 0)"
proof -
  obtain version where r: "read_unaligned_ck dbg buf p 2 e = DW_OK version"
    using assms by (auto simp: cu_header_size_def elim: dw_bind_OKE)
  have lt: "version < 5 \<longleftrightarrow> version = 4 \<or> version < 4" "version < 4 \<Longrightarrow> unat version < 4"
    by (simp_all add: word_less_nat_alt word_unat_eq_iff) linarith
  have ut: "unat u = 1 \<longleftrightarrow> u = 1" "unat u = 2 \<longleftrightarrow> u = 2" "unat u = 4 \<longleftrightarrow> u = 4" "unat u = 5 \<longleftrightarrow> u = 5"
    "unat u = 6 \<longleftrightarrow> u = 6" for u :: u64 by (simp_all add: word_unat_eq_iff)
  consider "version < 4" | "version = 4" | "version = 5" | "5 < version"
    using lt by fastforce
  then show ?thesis
  proof cases
    case 1
    then have "version \<noteq> 4" "version \<noteq> 5" "unat version \<noteq> 4" "unat version \<noteq> 5" using lt by auto
    with 1 lt show ?thesis using assms r
      by (intro exI [of _ version]) (auto simp: cu_header_size_def Let_def cu_header_fields_def)
  next
    case 2
    then show ?thesis using assms r
      by (intro exI [of _ version]) (auto simp: cu_header_size_def Let_def cu_header_fields_def)
  next
    case 3
    then obtain t where t: "read_unaligned_ck dbg buf (p + 2) 1 e = DW_OK t"
      "cu_header_size_v5 t (word_of_nat off) (word_of_nat ext) = DW_OK n"
      using assms r by (auto simp: cu_header_size_def Let_def elim: dw_bind_OKE)
    then have "n = word_of_nat (sum_list (cu_header_fields 5 (unat t) is_info off ext))"
      using ut by (auto simp: cu_header_fields_def cu_header_size_v5_def split: if_splits)
    then show ?thesis using 3 r t(1) by (intro exI [of _ version]) auto
  next
    case 4
    then have "version \<noteq> 4" "version \<noteq> 5" "\<not> version < 4" "\<not> version < 5" using lt by auto
    then show ?thesis using assms r
      by (intro exI [of _ version]) (auto simp: cu_header_size_def Let_def)
  qed
qed

section \<open>Properties\<close>

text \<open>
  C30: Unless strings are assumed to be in bounds, finding the size of a value of any form, indirect ones
  included, at any place of any section contents, never reads outside the section.
\<close>

theorem get_size_of_val_safe:
  assumes "e \<le> length buf" "\<not> de_assume_string_in_bounds dbg"
  shows "get_size_of_val dbg form cu_version address_size buf p v_length_size size_out e \<noteq> FAULT"
  by (rule get_size_of_val_no_fault [OF assms])

theorem get_size_of_val_safe_witness:
  "get_size_of_val debug_le64 DW_FORM_string 4 8 [0x61, 0x62] 0 4 0 2 \<noteq> FAULT"
  using get_size_of_val_safe [of 2 "[0x61, 0x62]" debug_le64] by (simp add: debug_le64_def)

text \<open>
  When the size of a string, of a number in LEB128 form or of a counted block is found, it is the size of
  that value: a string ends with its first zero byte, inside the section; a number ends at its last
  byte, inside the section; a block with a one, two or four byte count reaches at most that count field's width past it.
\<close>

theorem get_size_of_val_extent:
  assumes "get_size_of_val dbg form cu_version address_size buf p v_length_size size_out e = DW_OK n"
    and "e \<le> length buf" "length buf < 2 ^ 64" "\<not> de_assume_string_in_bounds dbg"
  shows "(form = DW_FORM_string \<longrightarrow> strlen buf p = DW_OK (unat n - 1) \<and> 0 < unat n \<and> p + unat n \<le> e) \<and>
    (form \<in> {DW_FORM_udata, DW_FORM_sdata, DW_FORM_ref_udata, DW_FORM_strx, DW_FORM_addrx} \<longrightarrow>
       uleb_length (seg buf p e) = Some (unat n) \<and> p + unat n \<le> e) \<and>
    (form = DW_FORM_block1 \<longrightarrow> p + unat n \<le> e + 1) \<and>
    (form = DW_FORM_block2 \<longrightarrow> p + unat n \<le> e + 2) \<and>
    (form = DW_FORM_block4 \<longrightarrow> p + unat n \<le> e + 4)"
  using assms size_of_string_OK [of dbg buf p e n] size_of_leb_OK [of buf p e n]
    size_of_block1_bound [of buf p e n] size_of_block2_bound [of dbg buf p e n]
    size_of_block4_bound [of dbg buf p e n]
  by (auto simp: get_size_of_val.simps [of dbg form] size_of_val_tail_def)

theorem get_size_of_val_extent_witness:
  "strlen [0x61, 0, 0x62] 0 = DW_OK 1"
proof -
  have "get_size_of_val debug_le64 DW_FORM_string 4 8 [0x61, 0, 0x62] 0 4 0 3 = DW_OK 2"
    by code_simp
  from get_size_of_val_extent [OF this] show ?thesis by (simp add: debug_le64_def)
qed

text \<open>
  The size found for a unit header of version 5 or less is the sum of the widths of the fields that version
  and unit type have, for either offset size; for a later version it is zero.
\<close>

theorem length_of_cu_header_layout:
  assumes "length_of_cu_header dbg offset is_info = DW_OK n"
  shows "\<exists>len off ext p version.
    read_area_length_ck dbg (cu_section dbg is_info) (unat offset)
      (word_of_nat (length (cu_section dbg is_info))) (length (cu_section dbg is_info)) =
      DW_OK ((len, off, ext), p) \<and>
    read_unaligned_ck dbg (cu_section dbg is_info) p 2 (length (cu_section dbg is_info)) = DW_OK version \<and>
    (if version < 5 then n = word_of_nat (sum_list (cu_header_fields (unat version) 0 is_info off ext))
     else if version = 5 then \<exists>ut.
       read_unaligned_ck dbg (cu_section dbg is_info) (p + 2) 1 (length (cu_section dbg is_info)) = DW_OK ut \<and>
       n = word_of_nat (sum_list (cu_header_fields 5 (unat ut) is_info off ext))
     else n = 0)"
proof -
  let ?b = "cu_section dbg is_info"
  obtain len off ext p where a: "read_area_length_ck dbg ?b (unat offset) (word_of_nat (length ?b)) (length ?b)
      = DW_OK ((len, off, ext), p)"
    and "cu_header_size dbg ?b p (length ?b) is_info (word_of_nat off) (word_of_nat ext) = DW_OK n"
    using assms by (auto simp: length_of_cu_header_def Let_def elim!: dw_bind_OKE split: if_splits)
  from a cu_header_size_OK [OF this(2)] show ?thesis by blast
qed

definition debug_unit :: dwarf_debug where
  "debug_unit = debug_le64\<lparr>de_debug_info := [8, 0, 0, 0, 5, 0, 1, 8, 0, 0, 0, 0]\<rparr>"

theorem length_of_cu_header_layout_witness:
  "\<exists>version. read_unaligned_ck debug_unit (cu_section debug_unit True) 4 2 12 = DW_OK version \<and>
     length_of_cu_header debug_unit 0 True = DW_OK 12"
proof -
  have s: "cu_section debug_unit True = [8, 0, 0, 0, 5, 0, 1, 8, 0, 0, 0, 0]"
    by (simp add: cu_section_def debug_unit_def)
  have l: "length (cu_section debug_unit True) = 12" by (simp add: s)
  have a: "read_area_length_ck debug_unit (cu_section debug_unit True) 0 12 12 = DW_OK ((8, 4, 0), 4)"
    unfolding s by (simp add: read_area_length_ck_def read_unaligned_ck_eq number_of_bytes_def
        debug_unit_def debug_le64_def seg_def)
  have "cu_header_size debug_unit (cu_section debug_unit True) 4 12 True 4 0 = DW_OK 12"
    unfolding s by (simp add: cu_header_size_def read_unaligned_ck_eq number_of_bytes_def
        cu_header_size_v5_def debug_unit_def debug_le64_def seg_def)
  with a l have r: "length_of_cu_header debug_unit 0 True = DW_OK 12"
    by (simp add: length_of_cu_header_def)
  from length_of_cu_header_layout [OF this] r a l show ?thesis by auto
qed

text \<open>
  The count of a block is compared with the space from the count field on, so a block of the
  largest accepted count reaches past the end; the count of a LEB128 block is not compared at all,
  and its sum with the length of the count wraps around.
\<close>

theorem block_past_the_end:
  "get_size_of_val debug_le64 DW_FORM_block1 4 8 [2, 7] 0 4 0 2 = DW_OK 3 \<and>
   get_size_of_val debug_le64 DW_FORM_block 4 8 [0xff, 0xff, 0xff, 0xff, 0xff, 0xff, 0xff, 0xff, 0xff, 1] 0 4 0 10 = DW_OK 9"
proof
  show "get_size_of_val debug_le64 DW_FORM_block1 4 8 [2, 7] 0 4 0 2 = DW_OK 3"
    by (simp add: get_size_of_val.simps size_of_block1_def space_left_def)
  have "uleb_length [0xff, 0xff, 0xff, 0xff, 0xff, 0xff, 0xff, 0xff, 0xff, 1] = Some 10"
    "uleb_value [0xff, 0xff, 0xff, 0xff, 0xff, 0xff, 0xff, 0xff, 0xff, 1] = 18446744073709551615" by simp_all
  then have "decode_leb128 [0xff, 0xff, 0xff, 0xff, 0xff, 0xff, 0xff, 0xff, 0xff, 1] 0 10 = LEB_OK 10 (- 1)"
    using decode_leb128_eq [of 10 "[0xff, 0xff, 0xff, 0xff, 0xff, 0xff, 0xff, 0xff, 0xff, 1]" 0 10] by (simp add: seg_def)
  then show "get_size_of_val debug_le64 DW_FORM_block 4 8 [0xff, 0xff, 0xff, 0xff, 0xff, 0xff, 0xff, 0xff, 0xff, 1] 0 4 0 10 = DW_OK 9"
    by (simp add: get_size_of_val.simps size_of_block_def decode_leb128_uword_len_ck_def)
qed

text \<open>
  The size of a value in indirect form is that of the value \<open>n\<close> bytes behind the one it should measure, where \<open>n\<close> is the length of the
  form's number: the string in \<open>08 'a' 'b' 00\<close> ends after four bytes, and the size found is three.
\<close>

theorem indirect_value_misplaced:
  assumes "decode_leb128_uword_len_ck buf p e = DW_OK ((f, n), p + n)" "f \<noteq> DW_FORM_indirect"
  shows "get_size_of_val dbg DW_FORM_indirect cu_version address_size buf p v_length_size size_out e =
    dw_bind (get_size_of_val dbg f cu_version address_size buf (p + 2 * n) v_length_size 0 e)
      (\<lambda>m. DW_OK (word_of_nat n + m))"
  using assms by (subst get_size_of_val.simps) (simp add: mult_2 add.assoc)

theorem indirect_value_misplaced_witness:
  "get_size_of_val debug_le64 DW_FORM_indirect 4 8 [8, 0x61, 0x62, 0] 0 4 0 4 = DW_OK 3 \<and>
   get_size_of_val debug_le64 DW_FORM_string 4 8 [8, 0x61, 0x62, 0] 1 4 0 4 = DW_OK 3"
proof
  have d: "decode_leb128_uword_len_ck [8, 0x61, 0x62, 0] 0 4 = DW_OK ((8, 1), 0 + 1)" by code_simp
  have m: "get_size_of_val debug_le64 DW_FORM_string 4 8 [8, 0x61, 0x62, 0] (0 + 2 * 1) 4 0 4 = DW_OK 2" by code_simp
  show "get_size_of_val debug_le64 DW_FORM_indirect 4 8 [8, 0x61, 0x62, 0] 0 4 0 4 = DW_OK 3"
    unfolding indirect_value_misplaced [OF d, of debug_le64 4 8 4 0, simplified] using m by simp
  show "get_size_of_val debug_le64 DW_FORM_string 4 8 [8, 0x61, 0x62, 0] 1 4 0 4 = DW_OK 3" by code_simp
qed

end
