(* ===== verification/FrameExec.thy ===== *)
theory FrameExec
  imports Reader SafeArith
begin

text \<open>
  \<open>_dwarf_exec_frame_instr\<close> (\<open>dwarf_frame_cfa_read.c\<close>): the interpreter of call frame
  instructions. Each instruction of the switch is an operation on the interpreter's local
  variables, a step reads one opcode and runs its operation, and the loop runs steps until the end of the
  instructions or the end of a search.
\<close>

section \<open>The register table\<close>

text \<open>
  \<open>Dwarf_Regtable_Entry3\<close>, \<open>Dwarf_Regtable3\<close> and \<open>struct Dwarf_Frame_s\<close>. The array of rules is a
  list whose length is what is allocated, whatever the size fields say; an access beyond it is
  a memory fault. Of \<open>Dwarf_Block\<close> only the two fields the frame code fills are kept. The chain of remembered rows is a list in the interpreter's state.
\<close>

record block =
  bl_len :: u64
  bl_data :: "ptr option"

record reg_rule =
  dw_offset_relevant :: u8
  dw_value_type :: u8
  dw_regnum :: u16
  dw_offset :: u64
  dw_args_size :: u64
  dw_block :: block

abbreviation (input) DW_EXPR_OFFSET :: u8 where "DW_EXPR_OFFSET \<equiv> 0"
abbreviation (input) DW_EXPR_VAL_OFFSET :: u8 where "DW_EXPR_VAL_OFFSET \<equiv> 1"
abbreviation (input) DW_EXPR_EXPRESSION :: u8 where "DW_EXPR_EXPRESSION \<equiv> 2"
abbreviation (input) DW_EXPR_VAL_EXPRESSION :: u8 where "DW_EXPR_VAL_EXPRESSION \<equiv> 3"

record regtable =
  rt3_cfa_rule :: reg_rule
  rt3_reg_table_size :: u16
  rt3_rules :: "reg_rule list"

record frame =
  fr_loc :: u64
  fr_reg_count :: u64
  fr_regtable :: regtable

text \<open>The rule \<open>_dwarf_init_reg_rules_dw3\<close> stores in every entry from \<open>first\<close> to \<open>last\<close>.\<close>

definition init_rule :: "u64 \<Rightarrow> reg_rule" where
  "init_rule initial_value =
     \<lparr>dw_offset_relevant = 0, dw_value_type = DW_EXPR_OFFSET, dw_regnum = ucast initial_value,
      dw_offset = 0, dw_args_size = 0, dw_block = \<lparr>bl_len = 0, bl_data = None\<rparr>\<rparr>"

function init_reg_rules_dw3 :: "reg_rule list \<Rightarrow> nat \<Rightarrow> nat \<Rightarrow> u64 \<Rightarrow> reg_rule list dw" where
  "init_reg_rules_dw3 base i stop initial_value =
     (if i < stop then
        if i < length base then
          init_reg_rules_dw3 (base[i := init_rule initial_value]) (i + 1) stop initial_value
        else FAULT
      else DW_OK base)"
  by pat_completeness auto
termination by (relation "measure (\<lambda>(base, i, stop, v). stop - i)") auto

declare init_reg_rules_dw3.simps [simp del]

text \<open>The loops that assign the first \<open>n\<close> rules of one array to another.\<close>

definition copy_rules :: "nat \<Rightarrow> reg_rule list \<Rightarrow> reg_rule list \<Rightarrow> reg_rule list dw" where
  "copy_rules n from to =
     (if n \<le> length from \<and> n \<le> length to then DW_OK (take n from @ drop n to) else FAULT)"

section \<open>Expanded instructions\<close>

text \<open>\<open>struct Dwarf_Frame_Instr_s\<close>: all zero and the empty field string when it is allocated.\<close>

record frame_instr =
  fi_op :: u8
  fi_instr_offset :: u64
  fi_fields :: string
  fi_u0 :: u64
  fi_u1 :: u64
  fi_u2 :: u64
  fi_s0 :: s64
  fi_s1 :: s64
  fi_code_align_factor :: u64
  fi_data_align_factor :: s64
  fi_expr :: block

definition new_frame_instr :: "u8 \<Rightarrow> u64 \<Rightarrow> frame_instr" where
  "new_frame_instr opcode fp_instr_offset =
     \<lparr>fi_op = opcode, fi_instr_offset = fp_instr_offset, fi_fields = [], fi_u0 = 0, fi_u1 = 0,
      fi_u2 = 0, fi_s0 = 0, fi_s1 = 0, fi_code_align_factor = 0, fi_data_align_factor = 0,
      fi_expr = \<lparr>bl_len = 0, bl_data = None\<rparr>\<rparr>"

section \<open>Arguments and local variables of the interpreter\<close>

text \<open>
  The part of \<open>struct Dwarf_Cie_s\<close> in use. \<open>ci_augmentation\<close> is only compared with the null pointer.
\<close>

record cie =
  ci_length :: u64
  ci_augmentation :: "bytes option"
  ci_code_alignment_factor :: u64
  ci_data_alignment_factor :: s64
  ci_cie_start :: ptr
  ci_cie_instr_start :: ptr
  ci_cie_end :: ptr
  ci_length_size :: u16
  ci_extension_size :: u16
  ci_address_size :: u16
  ci_return_address_register :: u64
  ci_cie_version_number :: u16
  ci_section_ptr :: ptr
  ci_gnu_eh_augmentation_len :: u64
  ci_gnu_eh_augmentation_bytes :: ptr
  ci_initial_table :: "frame option"

text \<open>
  What \<open>cie->ci_initial_table\<close> points to while the interpreter runs: nothing, the very table it
  fills (while the initial row of the CIE itself is being made), or a finished row.
\<close>

datatype init_table = No_Table | Self_Table | Other_Table frame

text \<open>
  A row callback gets the table, the row's pc, whether rows follow, and the next pc, and returns
  a result code; \<open>'u\<close> is the user data behind \<open>aa_user_data\<close>. It is taken not to change the table.
\<close>

type_synonym 'u callback = "regtable \<Rightarrow> u64 \<Rightarrow> bool \<Rightarrow> u64 \<Rightarrow> 'u \<Rightarrow> dlv \<times> 'u"

record 'u xparams =
  xp_make_instr :: bool
  xp_search_pc :: bool
  xp_search_pc_val :: u64
  xp_buf :: bytes
  xp_start :: ptr
  xp_final :: ptr
  xp_cie :: "cie option"
  xp_init :: init_table
  xp_dbg :: dwarf_debug
  xp_reg_num_of_cfa :: u64
  xp_iter :: "'u callback option"

definition reg_count :: "'u xparams \<Rightarrow> u64" where
  "reg_count p = de_frame_reg_rules_entry_count (xp_dbg p)"

definition address_size :: "'u xparams \<Rightarrow> u16" where
  "address_size p = (case xp_cie p of Some cie \<Rightarrow> ci_address_size cie
                                    | None \<Rightarrow> ucast (de_pointer_size (xp_dbg p)))"

definition code_align :: "'u xparams \<Rightarrow> u64" where
  "code_align p = (case xp_cie p of
     Some cie \<Rightarrow> if ci_augmentation cie \<noteq> None then ci_code_alignment_factor cie else 1 | None \<Rightarrow> 1)"

definition data_align :: "'u xparams \<Rightarrow> s64" where
  "data_align p = (case xp_cie p of
     Some cie \<Rightarrow> if ci_augmentation cie \<noteq> None then ci_data_alignment_factor cie else 1 | None \<Rightarrow> 1)"

definition need_augmentation :: "'u xparams \<Rightarrow> bool" where
  "need_augmentation p = (case xp_cie p of
     Some cie \<Rightarrow> if ci_augmentation cie \<noteq> None then False else \<not> xp_make_instr p
   | None \<Rightarrow> \<not> xp_make_instr p)"

record 'u xstate =
  xs_instr_ptr :: ptr
  xs_area_pos :: nat
  xs_current_loc :: u64
  xs_subsequent_pc :: u64
  xs_search_over :: bool
  xs_table :: frame
  xs_top_stack :: "regtable list"
  xs_ilist :: "frame_instr list"
  xs_user :: 'u

text \<open>A case of the switch ends with \<open>break\<close> or with \<open>continue\<close>.\<close>

datatype 'u opres = BREAK "'u xstate" frame_instr | CONTINUE "'u xstate"

fun opres_state :: "'u opres \<Rightarrow> 'u xstate" where
  "opres_state (BREAK st _) = st"
| "opres_state (CONTINUE st) = st"

abbreviation (input) xs_rules :: "'u xstate \<Rightarrow> reg_rule list" where
  "xs_rules st \<equiv> rt3_rules (fr_regtable (xs_table st))"

section \<open>What the operations share\<close>

definition get_uword :: "'u xparams \<Rightarrow> 'u xstate \<Rightarrow> (u64 \<times> 'u xstate) dw" where
  "get_uword p st = dw_bind (leb128_uword_wrapper (xp_buf p) (xs_instr_ptr st) (xp_final p))
     (\<lambda>(v, q). DW_OK (v, st\<lparr>xs_instr_ptr := q\<rparr>))"

definition get_sword :: "'u xparams \<Rightarrow> 'u xstate \<Rightarrow> (s64 \<times> 'u xstate) dw" where
  "get_sword p st = dw_bind (leb128_sword_wrapper (xp_buf p) (xs_instr_ptr st) (xp_final p))
     (\<lambda>(v, q). DW_OK (v, st\<lparr>xs_instr_ptr := q\<rparr>))"

definition get_fixed :: "'u xparams \<Rightarrow> nat \<Rightarrow> 'u xstate \<Rightarrow> (u64 \<times> 'u xstate) dw" where
  "get_fixed p n st =
     dw_bind (read_unaligned_ck (xp_dbg p) (xp_buf p) (xs_instr_ptr st) n (xp_final p))
       (\<lambda>v. DW_OK (v, st\<lparr>xs_instr_ptr := xs_instr_ptr st + n, xs_area_pos := xs_area_pos st + n\<rparr>))"

text \<open>\<open>CUR_INSTR_POS\<close>\<close>

definition cur_instr_pos :: "'u xparams \<Rightarrow> 'u xstate \<Rightarrow> 'u xstate" where
  "cur_instr_pos p st = st\<lparr>xs_area_pos := xs_instr_ptr st - xp_start p\<rparr>"

text \<open>\<open>ERROR_IF_REG_NUM_TOO_HIGH\<close>, the test of \<open>need_augmentation\<close> and \<open>INVALIDUNSIGNED\<close>\<close>

definition check_reg :: "u64 \<Rightarrow> u64 \<Rightarrow> unit dw" where
  "check_reg macreg machigh_reg =
     (if macreg \<ge> machigh_reg then DW_ERROR DW_DLE_DF_REG_NUM_TOO_HIGH else DW_OK ())"

definition check_augmentation :: "'u xparams \<Rightarrow> unit dw" where
  "check_augmentation p =
     (if need_augmentation p then DW_ERROR DW_DLE_DF_NO_CIE_AUGMENTATION else DW_OK ())"

definition check_unsigned :: "u64 \<Rightarrow> unit dw" where
  "check_unsigned x =
     (if x AND 0x8000000000000000 \<noteq> 0 then DW_ERROR DW_DLE_ARITHMETIC_OVERFLOW else DW_OK ())"

definition mult_or_error :: "u64 \<Rightarrow> u64 \<Rightarrow> u64 dw" where
  "mult_or_error x y = (case uint64_mult x y of
     (DLV_ERROR, _) \<Rightarrow> DW_ERROR DW_DLE_ARITHMETIC_OVERFLOW | (_, r) \<Rightarrow> DW_OK r)"

definition add_or_error :: "u64 \<Rightarrow> u64 \<Rightarrow> u64 dw" where
  "add_or_error x y = (case uint64_add x y 0 of
     (DLV_ERROR, _) \<Rightarrow> DW_ERROR DW_DLE_ARITHMETIC_OVERFLOW | (_, r) \<Rightarrow> DW_OK r)"

definition set_rules :: "reg_rule list \<Rightarrow> 'u xstate \<Rightarrow> 'u xstate" where
  "set_rules rs st = st\<lparr>xs_table := (xs_table st)\<lparr>fr_regtable :=
     (fr_regtable (xs_table st))\<lparr>rt3_rules := rs\<rparr>\<rparr>\<rparr>"

definition set_cfa :: "reg_rule \<Rightarrow> 'u xstate \<Rightarrow> 'u xstate" where
  "set_cfa r st = st\<lparr>xs_table := (xs_table st)\<lparr>fr_regtable :=
     (fr_regtable (xs_table st))\<lparr>rt3_cfa_rule := r\<rparr>\<rparr>\<rparr>"

definition get_cfa :: "'u xstate \<Rightarrow> reg_rule" where
  "get_cfa st = rt3_cfa_rule (fr_regtable (xs_table st))"

text \<open>An assignment to \<open>localregtab[reg_no]\<close>.\<close>

definition upd_rule :: "u64 \<Rightarrow> (reg_rule \<Rightarrow> reg_rule) \<Rightarrow> 'u xstate \<Rightarrow> 'u xstate dw" where
  "upd_rule reg_no f st =
     (if unat reg_no < length (xs_rules st)
      then DW_OK (set_rules ((xs_rules st)[unat reg_no := f (xs_rules st ! unat reg_no)]) st)
      else FAULT)"

text \<open>\<open>UPDATE_STD_RULE\<close>\<close>

definition std_rule :: "u8 \<Rightarrow> u8 \<Rightarrow> u64 \<Rightarrow> u64 \<Rightarrow> reg_rule \<Rightarrow> reg_rule" where
  "std_rule offrel valtype regnum result r =
     r\<lparr>dw_offset_relevant := offrel, dw_value_type := valtype, dw_regnum := ucast regnum,
       dw_offset := result\<rparr>"

text \<open>\<open>_dwarf_emit_row\<close>\<close>

definition emit_row ::
  "'u callback \<Rightarrow> frame \<Rightarrow> u64 \<Rightarrow> bool \<Rightarrow> u64 \<Rightarrow> 'u \<Rightarrow> 'u dw"
where
  "emit_row aa_callback fr row_pc has_more_rows subsequent_pc aa_user_data =
     (if row_pc \<noteq> fr_loc fr then DW_ERROR DW_DLE_FRAME_ITERATOR_ERR
      else case aa_callback (fr_regtable fr) row_pc has_more_rows subsequent_pc aa_user_data of
        (res, user) \<Rightarrow>
          if res = DLV_ERROR then DW_ERROR DW_DLE_FRAME_ITERATOR_ERR else DW_OK user)"

text \<open>
  The tail of every instruction that starts a new row: \<open>new_pc\<close> is compared with the pc that is
  searched. With a callback the finished row is handed out and the location becomes \<open>possible_subsequent_pc\<close>.
\<close>

definition new_row :: "'u xparams \<Rightarrow> u64 \<Rightarrow> u64 \<Rightarrow> 'u xstate \<Rightarrow> frame_instr \<Rightarrow> 'u opres dw" where
  "new_row p new_pc emitted_pc st dfi =
     (let st = st\<lparr>xs_table := (xs_table st)\<lparr>fr_loc := xs_current_loc st\<rparr>\<rparr> in
      if xp_iter p \<noteq> None \<and> xs_instr_ptr st > xp_start p then
        dw_bind (emit_row (the (xp_iter p)) (xs_table st) (xs_current_loc st)
                  (xs_instr_ptr st < xp_final p) emitted_pc (xs_user st))
          (\<lambda>user. DW_OK (CONTINUE (st\<lparr>xs_user := user, xs_subsequent_pc := emitted_pc,
                                      xs_current_loc := emitted_pc\<rparr>)))
      else
        let search_over = (xp_search_pc p \<and> new_pc > xp_search_pc_val p) in
        DW_OK (BREAK (st\<lparr>xs_subsequent_pc := new_pc, xs_search_over := search_over,
                         xs_current_loc := (if search_over then xs_current_loc st else new_pc)\<rparr>) dfi))"

section \<open>Instructions that advance the location\<close>

definition op_advance_loc :: "'u xparams \<Rightarrow> u8 \<Rightarrow> 'u xstate \<Rightarrow> frame_instr \<Rightarrow> 'u opres dw" where
  "op_advance_loc p instr st dfi =
     (let adv_pc_val = ucast (instr AND 0x3f) in
      dw_bind (check_augmentation p) (\<lambda>_.
      dw_bind (mult_or_error adv_pc_val (code_align p)) (\<lambda>adv_pc.
      dw_bind (check_unsigned adv_pc) (\<lambda>_.
      dw_bind (add_or_error (xs_current_loc st) adv_pc) (\<lambda>next_pc.
      new_row p next_pc next_pc st
        (dfi\<lparr>fi_fields := ''uc'', fi_u0 := adv_pc_val, fi_code_align_factor := code_align p\<rparr>))))))"

definition op_set_loc :: "'u xparams \<Rightarrow> 'u xstate \<Rightarrow> frame_instr \<Rightarrow> 'u opres dw" where
  "op_set_loc p st dfi =
     dw_bind (get_fixed p (unat (address_size p)) st) (\<lambda>(new_loc, st).
     if new_loc \<noteq> 0 \<and> xs_current_loc st \<noteq> 0 \<and> new_loc \<le> xs_current_loc st
     then DW_ERROR DW_DLE_DF_NEW_LOC_LESS_OLD_LOC
     else new_row p new_loc (xs_subsequent_pc st) st (dfi\<lparr>fi_fields := ''u'', fi_u0 := new_loc\<rparr>))"

definition op_advance_loc1 :: "'u xparams \<Rightarrow> 'u xstate \<Rightarrow> frame_instr \<Rightarrow> 'u opres dw" where
  "op_advance_loc1 p st dfi =
     dw_bind (get_fixed p 1 st) (\<lambda>(advloc_val, st).
     dw_bind (check_augmentation p) (\<lambda>_.
     dw_bind (mult_or_error advloc_val (code_align p)) (\<lambda>adv_loc.
     dw_bind (add_or_error (xs_current_loc st) adv_loc) (\<lambda>next_pc.
     new_row p next_pc next_pc st
       (dfi\<lparr>fi_fields := ''uc'', fi_u0 := advloc_val, fi_code_align_factor := code_align p\<rparr>)))))"

definition op_advance_loc2 :: "'u xparams \<Rightarrow> 'u xstate \<Rightarrow> frame_instr \<Rightarrow> 'u opres dw" where
  "op_advance_loc2 p st dfi =
     dw_bind (get_fixed p 2 st) (\<lambda>(advloc_val, st).
     dw_bind (check_augmentation p) (\<lambda>_.
     dw_bind (mult_or_error advloc_val (code_align p)) (\<lambda>adv_loc.
     dw_bind (check_unsigned adv_loc) (\<lambda>_.
     dw_bind (add_or_error (xs_current_loc st) adv_loc) (\<lambda>next_pc.
     new_row p next_pc next_pc st
       (dfi\<lparr>fi_fields := ''uc'', fi_u0 := advloc_val, fi_code_align_factor := code_align p\<rparr>))))))"

definition op_advance_loc4 :: "'u xparams \<Rightarrow> 'u xstate \<Rightarrow> frame_instr \<Rightarrow> 'u opres dw" where
  "op_advance_loc4 p st dfi =
     dw_bind (get_fixed p 4 st) (\<lambda>(advloc_val, st).
     dw_bind (check_augmentation p) (\<lambda>_.
     dw_bind (mult_or_error advloc_val (code_align p)) (\<lambda>adv_loc.
     dw_bind (add_or_error (xs_current_loc st) adv_loc) (\<lambda>next_pc.
     new_row p next_pc next_pc st
       (dfi\<lparr>fi_fields := ''uc'', fi_u0 := advloc_val, fi_code_align_factor := code_align p\<rparr>)))))"

definition op_MIPS_advance_loc8 :: "'u xparams \<Rightarrow> 'u xstate \<Rightarrow> frame_instr \<Rightarrow> 'u opres dw" where
  "op_MIPS_advance_loc8 p st dfi =
     dw_bind (get_fixed p 8 st) (\<lambda>(advloc_val, st).
     dw_bind (check_augmentation p) (\<lambda>_.
     dw_bind (mult_or_error advloc_val (code_align p)) (\<lambda>adv_loc.
     dw_bind (add_or_error (xs_current_loc st) adv_loc) (\<lambda>next_pc.
     new_row p next_pc next_pc st
       (dfi\<lparr>fi_fields := ''u'', fi_u0 := advloc_val, fi_code_align_factor := code_align p\<rparr>)))))"

section \<open>Instructions that set the rule of a register\<close>

definition op_offset :: "'u xparams \<Rightarrow> u8 \<Rightarrow> 'u xstate \<Rightarrow> frame_instr \<Rightarrow> 'u opres dw" where
  "op_offset p instr st dfi =
     (let reg_no = ucast (instr AND 0x3f) in
      dw_bind (check_reg reg_no (reg_count p)) (\<lambda>_.
      dw_bind (get_uword p st) (\<lambda>(factored_N_value, st).
      dw_bind (check_augmentation p) (\<lambda>_.
      dw_bind (check_unsigned factored_N_value) (\<lambda>_.
      let st = cur_instr_pos p st in
      dw_bind (int64_mult factored_N_value (data_align p)) (\<lambda>result.
      dw_bind (upd_rule reg_no (std_rule 1 DW_EXPR_OFFSET (xp_reg_num_of_cfa p) result) st) (\<lambda>st.
      DW_OK (BREAK st (dfi\<lparr>fi_fields := ''rud'', fi_u0 := reg_no, fi_u1 := factored_N_value,
        fi_data_align_factor := data_align p\<rparr>)))))))))"

text \<open>The body of the two restore instructions: the rule the CIE's initial row has.\<close>

definition restore_rule :: "'u xparams \<Rightarrow> u64 \<Rightarrow> 'u xstate \<Rightarrow> 'u xstate dw" where
  "restore_rule p reg_no st =
     (case xp_init p of
        No_Table \<Rightarrow> if \<not> xp_make_instr p then DW_ERROR DW_DLE_DF_MAKE_INSTR_NO_INIT else DW_OK st
      | Self_Table \<Rightarrow> upd_rule reg_no (\<lambda>r. r) st
      | Other_Table t \<Rightarrow>
          if unat reg_no < length (rt3_rules (fr_regtable t))
          then upd_rule reg_no (\<lambda>_. rt3_rules (fr_regtable t) ! unat reg_no) st
          else FAULT)"

definition op_restore :: "'u xparams \<Rightarrow> u8 \<Rightarrow> 'u xstate \<Rightarrow> frame_instr \<Rightarrow> 'u opres dw" where
  "op_restore p instr st dfi =
     (let reg_no = ucast (instr AND 0x3f) in
      dw_bind (check_reg reg_no (reg_count p)) (\<lambda>_.
      dw_bind (restore_rule p reg_no st) (\<lambda>st.
      DW_OK (BREAK st (dfi\<lparr>fi_fields := ''r'', fi_u0 := reg_no\<rparr>)))))"

definition op_offset_extended :: "'u xparams \<Rightarrow> 'u xstate \<Rightarrow> frame_instr \<Rightarrow> 'u opres dw" where
  "op_offset_extended p st dfi =
     dw_bind (get_uword p st) (\<lambda>(lreg, st).
     dw_bind (check_reg lreg (reg_count p)) (\<lambda>_.
     dw_bind (get_uword p st) (\<lambda>(factored_N_value, st).
     let st = cur_instr_pos p st in
     dw_bind (check_augmentation p) (\<lambda>_.
     dw_bind (check_unsigned factored_N_value) (\<lambda>_.
     dw_bind (int64_mult factored_N_value (data_align p)) (\<lambda>result.
     dw_bind (upd_rule lreg (std_rule 1 DW_EXPR_OFFSET (xp_reg_num_of_cfa p) result) st) (\<lambda>st.
     DW_OK (BREAK st (dfi\<lparr>fi_fields := ''rud'', fi_u0 := lreg, fi_u1 := factored_N_value,
       fi_data_align_factor := data_align p\<rparr>)))))))))"

definition op_restore_extended :: "'u xparams \<Rightarrow> 'u xstate \<Rightarrow> frame_instr \<Rightarrow> 'u opres dw" where
  "op_restore_extended p st dfi =
     dw_bind (get_uword p st) (\<lambda>(lreg, st).
     let st = cur_instr_pos p st in
     dw_bind (check_reg lreg (reg_count p)) (\<lambda>_.
     dw_bind (restore_rule p lreg st) (\<lambda>st.
     DW_OK (BREAK st (dfi\<lparr>fi_fields := ''r'', fi_u0 := lreg\<rparr>)))))"

definition op_undefined :: "'u xparams \<Rightarrow> 'u xstate \<Rightarrow> frame_instr \<Rightarrow> 'u opres dw" where
  "op_undefined p st dfi =
     dw_bind (get_uword p st) (\<lambda>(lreg, st).
     let st = cur_instr_pos p st in
     dw_bind (check_reg lreg (reg_count p)) (\<lambda>_.
     dw_bind (upd_rule lreg
       (std_rule 0 DW_EXPR_OFFSET (de_frame_undefined_value_number (xp_dbg p)) 0) st) (\<lambda>st.
     DW_OK (BREAK st (dfi\<lparr>fi_fields := ''r'', fi_u0 := lreg\<rparr>)))))"

definition op_same_value :: "'u xparams \<Rightarrow> 'u xstate \<Rightarrow> frame_instr \<Rightarrow> 'u opres dw" where
  "op_same_value p st dfi =
     dw_bind (get_uword p st) (\<lambda>(lreg, st).
     let st = cur_instr_pos p st in
     dw_bind (check_reg lreg (reg_count p)) (\<lambda>_.
     dw_bind (upd_rule lreg
       (std_rule 0 DW_EXPR_OFFSET (de_frame_same_value_number (xp_dbg p)) 0) st) (\<lambda>st.
     DW_OK (BREAK st (dfi\<lparr>fi_fields := ''r'', fi_u0 := lreg\<rparr>)))))"

definition op_register :: "'u xparams \<Rightarrow> 'u xstate \<Rightarrow> frame_instr \<Rightarrow> 'u opres dw" where
  "op_register p st dfi =
     dw_bind (get_uword p st) (\<lambda>(reg_noA, st).
     dw_bind (check_reg reg_noA (reg_count p)) (\<lambda>_.
     dw_bind (get_uword p st) (\<lambda>(reg_noB, st).
     let st = cur_instr_pos p st in
     dw_bind (check_reg reg_noB (reg_count p + 1)) (\<lambda>_.
     dw_bind (upd_rule reg_noA (std_rule 0 DW_EXPR_OFFSET reg_noB 0) st) (\<lambda>st.
     DW_OK (BREAK st (dfi\<lparr>fi_fields := ''rr'', fi_u0 := reg_noA, fi_u1 := reg_noB\<rparr>)))))))"

definition op_expression :: "'u xparams \<Rightarrow> 'u xstate \<Rightarrow> frame_instr \<Rightarrow> 'u opres dw" where
  "op_expression p st dfi =
     (let base_instr_ptr = xs_instr_ptr st; instr_area_length = xp_final p - xp_start p in
      dw_bind (get_uword p st) (\<lambda>(lreg, st).
      dw_bind (check_reg lreg (reg_count p)) (\<lambda>_.
      dw_bind (get_uword p st) (\<lambda>(block_len, st).
      let st = cur_instr_pos p st; expr = \<lparr>bl_len = block_len, bl_data = Some (xs_instr_ptr st)\<rparr> in
      dw_bind (upd_rule lreg (\<lambda>r. r\<lparr>dw_offset_relevant := 0, dw_value_type := DW_EXPR_EXPRESSION,
          dw_regnum := ucast lreg, dw_block := expr\<rparr>) st) (\<lambda>st.
      if xs_area_pos st > instr_area_length \<or> unat block_len > instr_area_length \<or>
         xs_area_pos st + unat block_len > instr_area_length \<or> xs_instr_ptr st < base_instr_ptr
      then DW_ERROR DW_DLE_DF_FRAME_DECODING_ERROR
      else DW_OK (BREAK (st\<lparr>xs_instr_ptr := xs_instr_ptr st + unat block_len,
                            xs_area_pos := xs_area_pos st + unat block_len\<rparr>)
             (dfi\<lparr>fi_fields := ''rb'', fi_u0 := lreg, fi_expr := expr\<rparr>)))))))"

definition op_offset_extended_sf :: "'u xparams \<Rightarrow> 'u xstate \<Rightarrow> frame_instr \<Rightarrow> 'u opres dw" where
  "op_offset_extended_sf p st dfi =
     dw_bind (get_uword p st) (\<lambda>(lreg, st).
     dw_bind (check_reg lreg (reg_count p)) (\<lambda>_.
     dw_bind (get_sword p st) (\<lambda>(signed_factored_N_value, st).
     dw_bind (check_augmentation p) (\<lambda>_.
     dw_bind (int64_mult signed_factored_N_value (data_align p)) (\<lambda>result.
     let st = cur_instr_pos p st in
     dw_bind (upd_rule lreg (std_rule 1 DW_EXPR_OFFSET (xp_reg_num_of_cfa p) result) st) (\<lambda>st.
     DW_OK (BREAK st (dfi\<lparr>fi_fields := ''rsd'', fi_u0 := lreg, fi_s1 := signed_factored_N_value,
       fi_data_align_factor := data_align p\<rparr>))))))))"

definition op_val_offset :: "'u xparams \<Rightarrow> 'u xstate \<Rightarrow> frame_instr \<Rightarrow> 'u opres dw" where
  "op_val_offset p st dfi =
     dw_bind (get_uword p st) (\<lambda>(lreg, st).
     dw_bind (check_reg lreg (reg_count p)) (\<lambda>_.
     dw_bind (get_uword p st) (\<lambda>(factored_N_value, st).
     let st = cur_instr_pos p st in
     dw_bind (check_unsigned factored_N_value) (\<lambda>_.
     dw_bind (check_augmentation p) (\<lambda>_.
     dw_bind (int64_mult factored_N_value (data_align p)) (\<lambda>result.
     dw_bind (upd_rule lreg (std_rule 1 DW_EXPR_VAL_OFFSET (xp_reg_num_of_cfa p) result) st) (\<lambda>st.
     DW_OK (BREAK st (dfi\<lparr>fi_fields := ''rud'', fi_u0 := lreg, fi_u1 := factored_N_value,
       fi_data_align_factor := data_align p\<rparr>)))))))))"

text \<open>
  \<open>reg_no\<close> is declared in the loop body as zero and this case does not assign it: the register
  read into \<open>lreg\<close> is used for the expanded instruction only.
\<close>

definition op_val_offset_sf :: "'u xparams \<Rightarrow> 'u xstate \<Rightarrow> frame_instr \<Rightarrow> 'u opres dw" where
  "op_val_offset_sf p st dfi =
     (let reg_no = 0 in
     dw_bind (get_uword p st) (\<lambda>(lreg, st).
     dw_bind (check_reg reg_no (reg_count p)) (\<lambda>_.
     dw_bind (get_sword p st) (\<lambda>(signed_factored_N_value, st).
     dw_bind (check_augmentation p) (\<lambda>_.
     dw_bind (int64_mult signed_factored_N_value (data_align p)) (\<lambda>result.
     let st = cur_instr_pos p st in
     dw_bind (upd_rule reg_no (\<lambda>r. r\<lparr>dw_offset_relevant := 1, dw_value_type := DW_EXPR_VAL_OFFSET,
         dw_offset := result\<rparr>) st) (\<lambda>st.
     DW_OK (BREAK st (dfi\<lparr>fi_fields := ''rsd'', fi_u0 := lreg, fi_s1 := signed_factored_N_value,
       fi_data_align_factor := data_align p\<rparr>)))))))))"

definition op_val_expression :: "'u xparams \<Rightarrow> 'u xstate \<Rightarrow> frame_instr \<Rightarrow> 'u opres dw" where
  "op_val_expression p st dfi =
     (let base_instr_ptr = xs_instr_ptr st; instr_area_length = xp_final p - xp_start p in
      dw_bind (get_uword p st) (\<lambda>(lreg, st).
      dw_bind (check_reg lreg (reg_count p)) (\<lambda>_.
      dw_bind (get_uword p st) (\<lambda>(block_len, st).
      let st = cur_instr_pos p st; expr = \<lparr>bl_len = block_len, bl_data = Some (xs_instr_ptr st)\<rparr> in
      dw_bind (upd_rule lreg (\<lambda>r. r\<lparr>dw_offset_relevant := 0, dw_value_type := DW_EXPR_VAL_EXPRESSION,
          dw_offset := 0, dw_block := expr\<rparr>) st) (\<lambda>st.
      let st = st\<lparr>xs_instr_ptr := xs_instr_ptr st + unat block_len,
                  xs_area_pos := xs_area_pos st + unat block_len\<rparr> in
      if instr_area_length < unat block_len \<or> xs_instr_ptr st < base_instr_ptr
      then DW_ERROR DW_DLE_DF_FRAME_DECODING_ERROR
      else DW_OK (BREAK st (dfi\<lparr>fi_fields := ''rb'', fi_u0 := lreg, fi_expr := expr\<rparr>)))))))"

section \<open>Remembering and restoring a row\<close>

definition op_remember_state :: "'u xparams \<Rightarrow> 'u xstate \<Rightarrow> frame_instr \<Rightarrow> 'u opres dw" where
  "op_remember_state p st dfi =
     dw_bind (copy_rules (unat (reg_count p)) (xs_rules st)
         (replicate (unat (reg_count p)) (init_rule 0))) (\<lambda>rules.
     let regtab = \<lparr>rt3_cfa_rule = get_cfa st, rt3_reg_table_size = ucast (reg_count p),
                   rt3_rules = rules\<rparr> in
     DW_OK (BREAK (st\<lparr>xs_top_stack := regtab # xs_top_stack st\<rparr>) (dfi\<lparr>fi_fields := []\<rparr>)))"

definition op_restore_state :: "'u xparams \<Rightarrow> 'u xstate \<Rightarrow> frame_instr \<Rightarrow> 'u opres dw" where
  "op_restore_state p st dfi =
     (case xs_top_stack st of
        [] \<Rightarrow> DW_ERROR DW_DLE_DF_POP_EMPTY_STACK
      | regtab # rest \<Rightarrow>
          dw_bind (copy_rules (unat (reg_count p)) (rt3_rules regtab) (xs_rules st)) (\<lambda>rules.
          DW_OK (BREAK (set_cfa (rt3_cfa_rule regtab) (set_rules rules (st\<lparr>xs_top_stack := rest\<rparr>)))
            (dfi\<lparr>fi_fields := []\<rparr>))))"

section \<open>Instructions that set the CFA rule\<close>

definition op_def_cfa :: "'u xparams \<Rightarrow> 'u xstate \<Rightarrow> frame_instr \<Rightarrow> 'u opres dw" where
  "op_def_cfa p st dfi =
     dw_bind (get_uword p st) (\<lambda>(lreg, st).
     dw_bind (check_reg lreg (reg_count p)) (\<lambda>_.
     dw_bind (get_uword p st) (\<lambda>(nonfactoredoffset, st).
     let st = cur_instr_pos p st in
     dw_bind (check_augmentation p) (\<lambda>_.
     dw_bind (check_unsigned nonfactoredoffset) (\<lambda>_.
     DW_OK (BREAK (set_cfa (std_rule 1 DW_EXPR_OFFSET lreg nonfactoredoffset (get_cfa st)) st)
       (dfi\<lparr>fi_fields := ''ru'', fi_u0 := lreg, fi_u1 := nonfactoredoffset\<rparr>)))))))"

definition op_def_cfa_register :: "'u xparams \<Rightarrow> 'u xstate \<Rightarrow> frame_instr \<Rightarrow> 'u opres dw" where
  "op_def_cfa_register p st dfi =
     dw_bind (get_uword p st) (\<lambda>(lreg, st).
     let st = cur_instr_pos p st in
     dw_bind (check_reg lreg (reg_count p)) (\<lambda>_.
     DW_OK (BREAK (set_cfa ((get_cfa st)\<lparr>dw_regnum := ucast lreg\<rparr>) st)
       (dfi\<lparr>fi_fields := ''r'', fi_u0 := lreg\<rparr>))))"

definition cfa_offset_rule :: "u64 \<Rightarrow> reg_rule \<Rightarrow> reg_rule" where
  "cfa_offset_rule offset r =
     r\<lparr>dw_offset_relevant := 1, dw_value_type := DW_EXPR_OFFSET, dw_offset := offset\<rparr>"

definition op_def_cfa_offset :: "'u xparams \<Rightarrow> 'u xstate \<Rightarrow> frame_instr \<Rightarrow> 'u opres dw" where
  "op_def_cfa_offset p st dfi =
     dw_bind (get_uword p st) (\<lambda>(factored_N_value, st).
     let st = cur_instr_pos p st in
     dw_bind (check_augmentation p) (\<lambda>_.
     dw_bind (check_unsigned factored_N_value) (\<lambda>_.
     DW_OK (BREAK (set_cfa (cfa_offset_rule factored_N_value (get_cfa st)) st)
       (dfi\<lparr>fi_fields := ''u'', fi_u0 := factored_N_value\<rparr>)))))"

definition op_METAWARE_info :: "'u xparams \<Rightarrow> 'u xstate \<Rightarrow> frame_instr \<Rightarrow> 'u opres dw" where
  "op_METAWARE_info p st dfi =
     dw_bind (get_uword p st) (\<lambda>(factored_N_value, st).
     dw_bind (check_unsigned factored_N_value) (\<lambda>_.
     let st = cur_instr_pos p st in
     DW_OK (BREAK (set_cfa (cfa_offset_rule factored_N_value (get_cfa st)) st)
       (dfi\<lparr>fi_fields := ''u'', fi_u0 := factored_N_value\<rparr>))))"

definition op_def_cfa_expression :: "'u xparams \<Rightarrow> 'u xstate \<Rightarrow> frame_instr \<Rightarrow> 'u opres dw" where
  "op_def_cfa_expression p st dfi =
     (let base_instr_ptr = xs_instr_ptr st; instr_area_length = xp_final p - xp_start p in
      dw_bind (get_uword p st) (\<lambda>(block_len, st).
      let st = cur_instr_pos p st;
          expr = \<lparr>bl_len = block_len, bl_data = Some (xs_instr_ptr st)\<rparr>;
          st = set_cfa ((get_cfa st)\<lparr>dw_offset_relevant := 0, dw_value_type := DW_EXPR_EXPRESSION,
                 dw_block := expr\<rparr>) st
      in
      if unat block_len \<ge> instr_area_length then DW_ERROR DW_DLE_DF_FRAME_DECODING_ERROR
      else
        let st = st\<lparr>xs_instr_ptr := xs_instr_ptr st + unat block_len,
                    xs_area_pos := xs_area_pos st + unat block_len\<rparr> in
        if instr_area_length < xs_area_pos st \<or> xs_instr_ptr st < base_instr_ptr
        then DW_ERROR DW_DLE_DF_FRAME_DECODING_ERROR
        else DW_OK (BREAK st (dfi\<lparr>fi_fields := ''b'', fi_expr := expr\<rparr>))))"

definition op_def_cfa_sf :: "'u xparams \<Rightarrow> 'u xstate \<Rightarrow> frame_instr \<Rightarrow> 'u opres dw" where
  "op_def_cfa_sf p st dfi =
     dw_bind (get_uword p st) (\<lambda>(lreg, st).
     dw_bind (check_reg lreg (reg_count p)) (\<lambda>_.
     dw_bind (get_sword p st) (\<lambda>(signed_factored_N_value, st).
     let st = cur_instr_pos p st in
     dw_bind (check_augmentation p) (\<lambda>_.
     dw_bind (int64_mult signed_factored_N_value (data_align p)) (\<lambda>result.
     DW_OK (BREAK (set_cfa (std_rule 1 DW_EXPR_OFFSET lreg result (get_cfa st)) st)
       (dfi\<lparr>fi_fields := ''rsd'', fi_u0 := lreg, fi_s1 := signed_factored_N_value,
         fi_data_align_factor := data_align p\<rparr>)))))))"

definition op_def_cfa_offset_sf :: "'u xparams \<Rightarrow> 'u xstate \<Rightarrow> frame_instr \<Rightarrow> 'u opres dw" where
  "op_def_cfa_offset_sf p st dfi =
     dw_bind (get_sword p st) (\<lambda>(signed_factored_N_value, st).
     let st = cur_instr_pos p st in
     dw_bind (check_augmentation p) (\<lambda>_.
     dw_bind (int64_mult signed_factored_N_value (data_align p)) (\<lambda>result.
     DW_OK (BREAK (set_cfa (cfa_offset_rule result (get_cfa st)) st)
       (dfi\<lparr>fi_fields := ''sd'', fi_s0 := signed_factored_N_value,
         fi_data_align_factor := data_align p\<rparr>)))))"

section \<open>Vendor instructions\<close>

definition op_GNU_args_size :: "'u xparams \<Rightarrow> 'u xstate \<Rightarrow> frame_instr \<Rightarrow> 'u opres dw" where
  "op_GNU_args_size p st dfi =
     dw_bind (get_uword p st) (\<lambda>(asize, st).
     let st = cur_instr_pos p st in
     DW_OK (BREAK st (dfi\<lparr>fi_fields := ''u'', fi_u0 := asize\<rparr>)))"

definition op_LLVM_def_aspace_cfa :: "'u xparams \<Rightarrow> 'u xstate \<Rightarrow> frame_instr \<Rightarrow> 'u opres dw" where
  "op_LLVM_def_aspace_cfa p st dfi =
     dw_bind (get_uword p st) (\<lambda>(lreg, st).
     dw_bind (check_reg lreg (reg_count p)) (\<lambda>_.
     dw_bind (get_uword p st) (\<lambda>(offset, st).
     dw_bind (get_uword p st) (\<lambda>(addrspace, st).
     let st = cur_instr_pos p st in
     DW_OK (BREAK st (dfi\<lparr>fi_fields := ''rua'', fi_u0 := lreg, fi_u1 := offset,
       fi_u2 := addrspace\<rparr>))))))"

text \<open>Here too \<open>reg_no\<close> keeps its initial zero.\<close>

definition op_LLVM_def_aspace_cfa_sf :: "'u xparams \<Rightarrow> 'u xstate \<Rightarrow> frame_instr \<Rightarrow> 'u opres dw" where
  "op_LLVM_def_aspace_cfa_sf p st dfi =
     (let reg_no = 0 in
     dw_bind (get_uword p st) (\<lambda>(lreg, st).
     dw_bind (check_reg lreg (reg_count p)) (\<lambda>_.
     dw_bind (get_sword p st) (\<lambda>(offset, st).
     dw_bind (get_uword p st) (\<lambda>(addrspace, st).
     let st = cur_instr_pos p st in
     dw_bind (int64_mult offset (data_align p)) (\<lambda>result.
     dw_bind (upd_rule reg_no (std_rule 1 DW_EXPR_OFFSET (xp_reg_num_of_cfa p) result) st) (\<lambda>st.
     DW_OK (BREAK st (dfi\<lparr>fi_fields := ''rsda'', fi_u0 := lreg, fi_s1 := offset,
       fi_u2 := addrspace, fi_data_align_factor := data_align p\<rparr>)))))))))"

section \<open>Steps\<close>

text \<open>The switch. \<open>DW_CFA_lo_user\<close>, \<open>DW_CFA_nop\<close> and \<open>DW_CFA_GNU_window_save\<close> have no operands.\<close>

definition exec_op :: "'u xparams \<Rightarrow> u8 \<Rightarrow> u8 \<Rightarrow> 'u xstate \<Rightarrow> frame_instr \<Rightarrow> 'u opres dw" where
  "exec_op p opcode instr st dfi =
     (if opcode = 0x1c then DW_OK (BREAK st (dfi\<lparr>fi_fields := []\<rparr>))
      else if opcode = 0x40 then op_advance_loc p instr st dfi
      else if opcode = 0x80 then op_offset p instr st dfi
      else if opcode = 0xc0 then op_restore p instr st dfi
      else if opcode = 0x01 then op_set_loc p st dfi
      else if opcode = 0x02 then op_advance_loc1 p st dfi
      else if opcode = 0x03 then op_advance_loc2 p st dfi
      else if opcode = 0x04 then op_advance_loc4 p st dfi
      else if opcode = 0x1d then op_MIPS_advance_loc8 p st dfi
      else if opcode = 0x05 then op_offset_extended p st dfi
      else if opcode = 0x06 then op_restore_extended p st dfi
      else if opcode = 0x07 then op_undefined p st dfi
      else if opcode = 0x08 then op_same_value p st dfi
      else if opcode = 0x09 then op_register p st dfi
      else if opcode = 0x0a then op_remember_state p st dfi
      else if opcode = 0x0b then op_restore_state p st dfi
      else if opcode = 0x0c then op_def_cfa p st dfi
      else if opcode = 0x0d then op_def_cfa_register p st dfi
      else if opcode = 0x0e then op_def_cfa_offset p st dfi
      else if opcode = 0x34 then op_METAWARE_info p st dfi
      else if opcode = 0x00 then DW_OK (BREAK st (dfi\<lparr>fi_fields := []\<rparr>))
      else if opcode = 0x0f then op_def_cfa_expression p st dfi
      else if opcode = 0x10 then op_expression p st dfi
      else if opcode = 0x11 then op_offset_extended_sf p st dfi
      else if opcode = 0x12 then op_def_cfa_sf p st dfi
      else if opcode = 0x13 then op_def_cfa_offset_sf p st dfi
      else if opcode = 0x14 then op_val_offset p st dfi
      else if opcode = 0x15 then op_val_offset_sf p st dfi
      else if opcode = 0x16 then op_val_expression p st dfi
      else if opcode = 0x2d then DW_OK (BREAK st (dfi\<lparr>fi_fields := []\<rparr>))
      else if opcode = 0x2e then op_GNU_args_size p st dfi
      else if opcode = 0x30 then op_LLVM_def_aspace_cfa p st dfi
      else if opcode = 0x31 then op_LLVM_def_aspace_cfa_sf p st dfi
      else DW_ERROR DW_DLE_DF_FRAME_DECODING_ERROR)"

definition opcode_of :: "u8 \<Rightarrow> u8" where
  "opcode_of instr = (if instr AND 0xc0 = 0 then instr else instr AND 0xc0)"

definition end_of_case :: "'u xparams \<Rightarrow> 'u opres \<Rightarrow> 'u xstate" where
  "end_of_case p r =
     (case r of
        CONTINUE st \<Rightarrow> st
      | BREAK st dfi \<Rightarrow> if xp_make_instr p then st\<lparr>xs_ilist := xs_ilist st @ [dfi]\<rparr> else st)"

text \<open>One turn of the loop.\<close>

definition exec_step :: "'u xparams \<Rightarrow> 'u xstate \<Rightarrow> 'u xstate dw" where
  "exec_step p st =
     (let instr_ptr = xs_instr_ptr st in
      if instr_ptr < xp_start p then DW_ERROR DW_DLE_ALLOC_FAIL
      else
        let fp_instr_offset = word_of_nat (instr_ptr - xp_start p) in
        if instr_ptr \<ge> xp_final p then DW_ERROR DW_DLE_DF_FRAME_DECODING_ERROR
        else dw_bind (rd8 (xp_buf p) instr_ptr) (\<lambda>instr.
          let opcode = opcode_of instr;
              st = st\<lparr>xs_instr_ptr := instr_ptr + 1, xs_area_pos := xs_area_pos st + 1\<rparr>
          in dw_bind (exec_op p opcode instr st (new_frame_instr opcode fp_instr_offset))
               (\<lambda>r. DW_OK (end_of_case p r))))"

section \<open>What every operation keeps\<close>

text \<open>
  \<open>exec_ok\<close>: the buffer holds the instructions, an address can be read into a local, and every
  table an operation touches has the configured number of rules. \<open>search_ok\<close>: without a
  callback, the location never passes the pc that is searched, and a search that is over has found the next row beyond it.
\<close>

definition exec_ok :: "'u xparams \<Rightarrow> 'u xstate \<Rightarrow> bool" where
  "exec_ok p st \<longleftrightarrow> xp_final p \<le> length (xp_buf p) \<and> unat (address_size p) \<le> 8 \<and>
     unat (reg_count p) \<le> length (xs_rules st) \<and>
     (\<forall>t \<in> set (xs_top_stack st). unat (reg_count p) \<le> length (rt3_rules t)) \<and>
     (case xp_init p of Other_Table t \<Rightarrow> unat (reg_count p) \<le> length (rt3_rules (fr_regtable t)) | _ \<Rightarrow> True)"

definition search_ok :: "'u xparams \<Rightarrow> 'u xstate \<Rightarrow> bool" where
  "search_ok p st \<longleftrightarrow> xp_iter p = None \<longrightarrow>
     (xp_search_pc p \<longrightarrow> xs_current_loc st \<le> xp_search_pc_val p) \<and>
     (xs_search_over st \<longrightarrow> xp_search_pc p \<and> xp_search_pc_val p < xs_subsequent_pc st)"

definition advances :: "'u xparams \<Rightarrow> 'u xstate \<Rightarrow> 'u xstate \<Rightarrow> bool" where
  "advances p st st' \<longleftrightarrow> xs_instr_ptr st \<le> xs_instr_ptr st' \<and> (exec_ok p st \<longrightarrow> exec_ok p st') \<and>
     (search_ok p st \<longrightarrow> search_ok p st') \<and> xs_ilist st' = xs_ilist st \<and>
     length (xs_rules st') = length (xs_rules st)"

lemma advances_refl [simp]: "advances p st st"
  by (simp add: advances_def)

lemma advances_trans: "advances p a b \<Longrightarrow> advances p b c \<Longrightarrow> advances p a c"
  by (auto simp: advances_def)

lemma advances_exec_ok: "advances p a b \<Longrightarrow> exec_ok p a \<Longrightarrow> exec_ok p b"
  by (simp add: advances_def)

lemma xs_set_rules [simp]:
  "xs_instr_ptr (set_rules rs st) = xs_instr_ptr st" "xs_area_pos (set_rules rs st) = xs_area_pos st"
  "xs_current_loc (set_rules rs st) = xs_current_loc st"
  "xs_subsequent_pc (set_rules rs st) = xs_subsequent_pc st"
  "xs_search_over (set_rules rs st) = xs_search_over st"
  "xs_top_stack (set_rules rs st) = xs_top_stack st" "xs_ilist (set_rules rs st) = xs_ilist st"
  "xs_user (set_rules rs st) = xs_user st" "xs_rules (set_rules rs st) = rs"
  "get_cfa (set_rules rs st) = get_cfa st"
  by (simp_all add: set_rules_def get_cfa_def)

lemma xs_set_cfa [simp]:
  "xs_instr_ptr (set_cfa r st) = xs_instr_ptr st" "xs_area_pos (set_cfa r st) = xs_area_pos st"
  "xs_current_loc (set_cfa r st) = xs_current_loc st"
  "xs_subsequent_pc (set_cfa r st) = xs_subsequent_pc st"
  "xs_search_over (set_cfa r st) = xs_search_over st"
  "xs_top_stack (set_cfa r st) = xs_top_stack st" "xs_ilist (set_cfa r st) = xs_ilist st"
  "xs_user (set_cfa r st) = xs_user st" "xs_rules (set_cfa r st) = xs_rules st"
  "get_cfa (set_cfa r st) = r"
  by (simp_all add: set_cfa_def get_cfa_def)

lemma exec_ok_update [simp]:
  "exec_ok p (set_cfa r st) = exec_ok p st" "exec_ok p (cur_instr_pos p st) = exec_ok p st"
  "exec_ok p (st\<lparr>xs_instr_ptr := q\<rparr>) = exec_ok p st"
  "exec_ok p (st\<lparr>xs_instr_ptr := q, xs_area_pos := n\<rparr>) = exec_ok p st"
  "length rs = length (xs_rules st) \<Longrightarrow> exec_ok p (set_rules rs st) = exec_ok p st"
  by (simp_all add: exec_ok_def cur_instr_pos_def)

lemma search_ok_update [simp]:
  "search_ok p (set_cfa r st) = search_ok p st" "search_ok p (cur_instr_pos p st) = search_ok p st"
  "search_ok p (st\<lparr>xs_instr_ptr := q\<rparr>) = search_ok p st"
  "search_ok p (st\<lparr>xs_instr_ptr := q, xs_area_pos := n\<rparr>) = search_ok p st"
  "search_ok p (set_rules rs st) = search_ok p st"
  by (simp_all add: search_ok_def cur_instr_pos_def)

lemma cur_instr_pos_simps [simp]:
  "xs_instr_ptr (cur_instr_pos p st) = xs_instr_ptr st" "xs_ilist (cur_instr_pos p st) = xs_ilist st"
  "xs_table (cur_instr_pos p st) = xs_table st" "xs_top_stack (cur_instr_pos p st) = xs_top_stack st"
  by (simp_all add: cur_instr_pos_def)

lemma advances_set_cfa: "advances p a b \<Longrightarrow> advances p a (set_cfa r b)"
  by (simp add: advances_def)

lemma advances_cur_instr_pos: "advances p a b \<Longrightarrow> advances p a (cur_instr_pos p b)"
  by (simp add: advances_def)

lemma advances_ptr:
  "advances p a b \<Longrightarrow> xs_instr_ptr b \<le> q \<Longrightarrow> advances p a (b\<lparr>xs_instr_ptr := q\<rparr>)"
  "advances p a b \<Longrightarrow> xs_instr_ptr b \<le> q \<Longrightarrow> advances p a (b\<lparr>xs_instr_ptr := q, xs_area_pos := n\<rparr>)"
  by (simp_all add: advances_def)

lemma exec_okD:
  assumes "exec_ok p st"
  shows "xp_final p \<le> length (xp_buf p)" "unat (address_size p) \<le> 8"
    "unat (reg_count p) \<le> length (xs_rules st)"
    "t \<in> set (xs_top_stack st) \<Longrightarrow> unat (reg_count p) \<le> length (rt3_rules t)"
    "xp_init p = Other_Table f \<Longrightarrow> unat (reg_count p) \<le> length (rt3_rules (fr_regtable f))"
  using assms by (simp_all add: exec_ok_def)

text \<open>
  An operation fills in operands of the expanded instruction but leaves its opcode and offset,
  and it takes the \<open>continue\<close> exit only when rows go to a callback.
\<close>

definition same_instr :: "'u xparams \<Rightarrow> frame_instr \<Rightarrow> 'u opres \<Rightarrow> bool" where
  "same_instr p dfi r = (case r of
     BREAK st d \<Rightarrow> fi_op d = fi_op dfi \<and> fi_instr_offset d = fi_instr_offset dfi
   | CONTINUE st \<Rightarrow> xp_iter p \<noteq> None)"

lemma same_instr_BREAK [simp]:
  "same_instr p dfi (BREAK st d) = (fi_op d = fi_op dfi \<and> fi_instr_offset d = fi_instr_offset dfi)"
  by (simp add: same_instr_def)

lemma same_instr_CONTINUE [simp]: "same_instr p dfi (CONTINUE st) = (xp_iter p \<noteq> None)"
  by (simp add: same_instr_def)

subsection \<open>The shared parts\<close>

lemma spec_get_uword:
  assumes "advances p a b"
  shows "spec (exec_ok p a) (\<lambda>(v, st). advances p a st) (get_uword p b)"
proof (cases "leb128_uword_wrapper (xp_buf p) (xs_instr_ptr b) (xp_final p)")
  case (DW_OK x)
  then show ?thesis using assms
    by (cases x) (auto simp: get_uword_def dest!: uword.read_advances intro!: advances_ptr)
next
  case FAULT
  then have "\<not> exec_ok p a" using uword.read_no_fault exec_okD(1) by metis
  then show ?thesis using FAULT by (simp add: get_uword_def)
qed (simp_all add: get_uword_def)

lemma spec_get_sword:
  assumes "advances p a b"
  shows "spec (exec_ok p a) (\<lambda>(v, st). advances p a st) (get_sword p b)"
proof (cases "leb128_sword_wrapper (xp_buf p) (xs_instr_ptr b) (xp_final p)")
  case (DW_OK x)
  then show ?thesis using assms
    by (cases x) (auto simp: get_sword_def dest!: sword.read_advances intro!: advances_ptr)
next
  case FAULT
  then have "\<not> exec_ok p a" using sword.read_no_fault exec_okD(1) by metis
  then show ?thesis using FAULT by (simp add: get_sword_def)
qed (simp_all add: get_sword_def)

lemma spec_get_fixed:
  assumes "advances p a b" "exec_ok p a \<Longrightarrow> n \<le> 8"
  shows "spec (exec_ok p a) (\<lambda>(v, st). advances p a st) (get_fixed p n b)"
proof (cases "read_unaligned_ck (xp_dbg p) (xp_buf p) (xs_instr_ptr b) n (xp_final p)")
  case (DW_OK x)
  then show ?thesis using assms by (simp add: get_fixed_def advances_ptr)
next
  case FAULT
  then have "\<not> exec_ok p a" using read_unaligned_ck_no_fault exec_okD(1) assms(2) by metis
  then show ?thesis using FAULT by (simp add: get_fixed_def)
qed (simp_all add: get_fixed_def)

lemma spec_get_address:
  "spec (exec_ok p a) (\<lambda>(v, st). advances p a st) (get_fixed p (unat (address_size p)) a)"
  by (rule spec_get_fixed) (simp_all add: exec_okD)

lemma spec_check_reg: "spec G (\<lambda>_. unat r < unat h) (check_reg r h)"
  by (simp add: check_reg_def word_less_nat_alt not_le)

lemma spec_checks:
  "spec G (\<lambda>_. True) (check_augmentation p)" "spec G (\<lambda>_. True) (check_unsigned x)"
  "spec G (\<lambda>_. True) (int64_mult y z)"
  by (simp_all add: check_augmentation_def check_unsigned_def int64_mult_def)

lemma spec_mult: "spec G (\<lambda>_. True) (mult_or_error x y)"
  by (auto simp: mult_or_error_def split: prod.splits dlv.splits)

lemma spec_add: "spec G (\<lambda>_. True) (add_or_error x y)"
  by (auto simp: add_or_error_def split: prod.splits dlv.splits)

lemma advances_set_rules:
  "advances p a b \<Longrightarrow> length rs = length (xs_rules b) \<Longrightarrow> advances p a (set_rules rs b)"
  by (simp add: advances_def)

lemma spec_upd_rule:
  assumes "advances p a b" "unat r < unat (reg_count p)"
  shows "spec (exec_ok p a) (advances p a) (upd_rule r f b)"
proof (cases "unat r < length (xs_rules b)")
  case True
  then show ?thesis using assms(1) by (simp add: upd_rule_def advances_set_rules)
next
  case False
  then have "\<not> exec_ok p b" using assms(2) exec_okD(3) by (metis less_le_trans)
  then show ?thesis using False advances_exec_ok [OF assms(1)] by (auto simp: upd_rule_def)
qed

lemma spec_restore_rule:
  assumes "advances p a b" "unat r < unat (reg_count p)"
  shows "spec (exec_ok p a) (advances p a) (restore_rule p r b)"
proof (cases "xp_init p")
  case (Other_Table t)
  then have "exec_ok p a \<Longrightarrow> unat r < length (rt3_rules (fr_regtable t))"
    using exec_okD(5) assms(2) less_le_trans by metis
  then show ?thesis using Other_Table spec_upd_rule [OF assms]
    by (auto simp: restore_rule_def)
qed (use assms spec_upd_rule [OF assms] in \<open>simp_all add: restore_rule_def\<close>)

text \<open>Rules that push \<^const>\<open>spec\<close> through an operation.\<close>

lemmas exec_intros = spec_bind_prod [OF spec_get_uword] spec_bind_prod [OF spec_get_sword]
  spec_bind [OF spec_check_reg] spec_bind [OF spec_checks(1)] spec_bind [OF spec_checks(2)]
  spec_bind [OF spec_checks(3)] spec_bind [OF spec_mult] spec_bind [OF spec_add]
  spec_bind [OF spec_upd_rule] spec_bind [OF spec_restore_rule]

lemma exec_ok_row [simp]:
  "exec_ok p (st\<lparr>xs_table := (xs_table st)\<lparr>fr_loc := l\<rparr>, xs_user := u, xs_subsequent_pc := s,
     xs_current_loc := c\<rparr>) = exec_ok p st"
  "exec_ok p (st\<lparr>xs_table := (xs_table st)\<lparr>fr_loc := l\<rparr>, xs_subsequent_pc := s, xs_search_over := b,
     xs_current_loc := c\<rparr>) = exec_ok p st"
  "exec_ok p (st\<lparr>xs_table := (xs_table st)\<lparr>fr_loc := l\<rparr>, xs_subsequent_pc := s, xs_search_over := b\<rparr>) =
     exec_ok p st"
  by (simp_all add: exec_ok_def)

lemma emit_row_no_fault [simp]: "emit_row cb fr pc h s u \<noteq> FAULT"
  by (simp add: emit_row_def split: prod.splits)

lemma spec_new_row:
  assumes "advances p a b" "fi_op dfi = fi_op dfi0" "fi_instr_offset dfi = fi_instr_offset dfi0"
  shows "spec (exec_ok p a) (\<lambda>r. advances p a (opres_state r) \<and> same_instr p dfi0 r) (new_row p n e b dfi)"
proof (cases "xp_iter p \<noteq> None \<and> xs_instr_ptr b > xp_start p")
  case True
  then have "search_ok p st" for st by (auto simp: search_ok_def)
  then have "advances p a (b\<lparr>xs_table := (xs_table b)\<lparr>fr_loc := l\<rparr>, xs_user := u, xs_subsequent_pc := s,
     xs_current_loc := c\<rparr>)" for l u s c
    using assms by (simp add: advances_def)
  then show ?thesis using True
    by (auto simp: new_row_def spec_def dw_simps)
next
  case False
  show ?thesis
  proof (cases "xp_search_pc p \<and> n > xp_search_pc_val p")
    case True
    have "search_ok p b \<Longrightarrow> search_ok p (b\<lparr>xs_table := (xs_table b)\<lparr>fr_loc := xs_current_loc b\<rparr>,
        xs_subsequent_pc := n, xs_search_over := True, xs_current_loc := xs_current_loc b\<rparr>)"
      using True by (simp add: search_ok_def)
    then show ?thesis using False True assms
      by (auto simp: new_row_def Let_def advances_def)
  next
    case go_on: False
    have "search_ok p b \<Longrightarrow> search_ok p (b\<lparr>xs_table := (xs_table b)\<lparr>fr_loc := xs_current_loc b\<rparr>,
        xs_subsequent_pc := n, xs_search_over := False, xs_current_loc := n\<rparr>)"
      using go_on by (simp add: search_ok_def not_less)
    then show ?thesis using False go_on assms
      by (auto simp: new_row_def Let_def advances_def)
  qed
qed

subsection \<open>The operations\<close>

text \<open>\<open>keeps p st dfi m\<close>: an operation started in \<open>st\<close> does not fault and only moves forward.\<close>

definition keeps :: "'u xparams \<Rightarrow> 'u xstate \<Rightarrow> frame_instr \<Rightarrow> 'u opres dw \<Rightarrow> bool" where
  "keeps p st dfi m =
     spec (exec_ok p st) (\<lambda>r. advances p st (opres_state r) \<and> same_instr p dfi r) m"

named_theorems op_keeps \<open>operations only move forward\<close>

lemma keeps_advance_loc [op_keeps]: "keeps p st dfi (op_advance_loc p instr st dfi)"
  unfolding keeps_def op_advance_loc_def Let_def
  by (intro exec_intros spec_new_row) simp_all

lemma keeps_set_loc [op_keeps]: "keeps p st dfi (op_set_loc p st dfi)"
  unfolding keeps_def op_set_loc_def
  by (rule spec_bind_prod [OF spec_get_address]) (auto intro: spec_new_row)

lemma keeps_advance_loc1 [op_keeps]: "keeps p st dfi (op_advance_loc1 p st dfi)"
  unfolding keeps_def op_advance_loc1_def
  by (rule spec_bind_prod [OF spec_get_fixed]) (auto intro!: exec_intros spec_new_row)

lemma keeps_advance_loc2 [op_keeps]: "keeps p st dfi (op_advance_loc2 p st dfi)"
  unfolding keeps_def op_advance_loc2_def
  by (rule spec_bind_prod [OF spec_get_fixed]) (auto intro!: exec_intros spec_new_row)

lemma keeps_advance_loc4 [op_keeps]: "keeps p st dfi (op_advance_loc4 p st dfi)"
  unfolding keeps_def op_advance_loc4_def
  by (rule spec_bind_prod [OF spec_get_fixed]) (auto intro!: exec_intros spec_new_row)

lemma keeps_MIPS_advance_loc8 [op_keeps]: "keeps p st dfi (op_MIPS_advance_loc8 p st dfi)"
  unfolding keeps_def op_MIPS_advance_loc8_def
  by (rule spec_bind_prod [OF spec_get_fixed]) (auto intro!: exec_intros spec_new_row)

lemma keeps_offset [op_keeps]: "keeps p st dfi (op_offset p instr st dfi)"
  unfolding keeps_def op_offset_def Let_def
  by (intro exec_intros advances_cur_instr_pos) simp_all

lemma keeps_restore [op_keeps]: "keeps p st dfi (op_restore p instr st dfi)"
  unfolding keeps_def op_restore_def Let_def
  by (intro exec_intros advances_cur_instr_pos) simp_all

lemma keeps_offset_extended [op_keeps]: "keeps p st dfi (op_offset_extended p st dfi)"
  unfolding keeps_def op_offset_extended_def Let_def
  by (intro exec_intros advances_cur_instr_pos) simp_all

lemma keeps_restore_extended [op_keeps]: "keeps p st dfi (op_restore_extended p st dfi)"
  unfolding keeps_def op_restore_extended_def Let_def
  by (intro exec_intros advances_cur_instr_pos) simp_all

lemma keeps_undefined [op_keeps]: "keeps p st dfi (op_undefined p st dfi)"
  unfolding keeps_def op_undefined_def Let_def
  by (intro exec_intros advances_cur_instr_pos) (simp_all add: advances_cur_instr_pos)

lemma keeps_same_value [op_keeps]: "keeps p st dfi (op_same_value p st dfi)"
  unfolding keeps_def op_same_value_def Let_def
  by (intro exec_intros advances_cur_instr_pos) (simp_all add: advances_cur_instr_pos)

lemma keeps_register [op_keeps]: "keeps p st dfi (op_register p st dfi)"
  unfolding keeps_def op_register_def Let_def
  by (intro exec_intros advances_cur_instr_pos) (simp_all add: advances_cur_instr_pos)

lemma keeps_offset_extended_sf [op_keeps]: "keeps p st dfi (op_offset_extended_sf p st dfi)"
  unfolding keeps_def op_offset_extended_sf_def Let_def
  by (intro exec_intros advances_cur_instr_pos) (simp_all add: advances_cur_instr_pos)

lemma keeps_val_offset [op_keeps]: "keeps p st dfi (op_val_offset p st dfi)"
  unfolding keeps_def op_val_offset_def Let_def
  by (intro exec_intros advances_cur_instr_pos) (simp_all add: advances_cur_instr_pos)

lemma keeps_val_offset_sf [op_keeps]: "keeps p st dfi (op_val_offset_sf p st dfi)"
  unfolding keeps_def op_val_offset_sf_def Let_def
  by (intro exec_intros advances_cur_instr_pos) (simp_all add: advances_cur_instr_pos)

lemma keeps_GNU_args_size [op_keeps]: "keeps p st dfi (op_GNU_args_size p st dfi)"
  unfolding keeps_def op_GNU_args_size_def Let_def
  by (intro exec_intros advances_cur_instr_pos) (simp_all add: advances_cur_instr_pos)

lemma keeps_LLVM_def_aspace_cfa [op_keeps]: "keeps p st dfi (op_LLVM_def_aspace_cfa p st dfi)"
  unfolding keeps_def op_LLVM_def_aspace_cfa_def Let_def
  by (intro exec_intros advances_cur_instr_pos) (simp_all add: advances_cur_instr_pos)

lemma keeps_LLVM_def_aspace_cfa_sf [op_keeps]: "keeps p st dfi (op_LLVM_def_aspace_cfa_sf p st dfi)"
  unfolding keeps_def op_LLVM_def_aspace_cfa_sf_def Let_def
  by (intro exec_intros advances_cur_instr_pos) (simp_all add: advances_cur_instr_pos)

lemma keeps_def_cfa [op_keeps]: "keeps p st dfi (op_def_cfa p st dfi)"
  unfolding keeps_def op_def_cfa_def Let_def
  by (intro exec_intros) (simp_all add: advances_set_cfa advances_cur_instr_pos)

lemma keeps_def_cfa_register [op_keeps]: "keeps p st dfi (op_def_cfa_register p st dfi)"
  unfolding keeps_def op_def_cfa_register_def Let_def
  by (intro exec_intros) (simp_all add: advances_set_cfa advances_cur_instr_pos)

lemma keeps_def_cfa_offset [op_keeps]: "keeps p st dfi (op_def_cfa_offset p st dfi)"
  unfolding keeps_def op_def_cfa_offset_def Let_def
  by (intro exec_intros) (simp_all add: advances_set_cfa advances_cur_instr_pos)

lemma keeps_METAWARE_info [op_keeps]: "keeps p st dfi (op_METAWARE_info p st dfi)"
  unfolding keeps_def op_METAWARE_info_def Let_def
  by (intro exec_intros) (simp_all add: advances_set_cfa advances_cur_instr_pos)

lemma keeps_def_cfa_sf [op_keeps]: "keeps p st dfi (op_def_cfa_sf p st dfi)"
  unfolding keeps_def op_def_cfa_sf_def Let_def
  by (intro exec_intros) (simp_all add: advances_set_cfa advances_cur_instr_pos)

lemma keeps_def_cfa_offset_sf [op_keeps]: "keeps p st dfi (op_def_cfa_offset_sf p st dfi)"
  unfolding keeps_def op_def_cfa_offset_sf_def Let_def
  by (intro exec_intros) (simp_all add: advances_set_cfa advances_cur_instr_pos)

lemma spec_if_error: "spec G P n \<Longrightarrow> spec G P (if b then DW_ERROR e else n)"
  by simp

lemma keeps_expression [op_keeps]: "keeps p st dfi (op_expression p st dfi)"
  unfolding keeps_def op_expression_def Let_def
  by (intro exec_intros spec_if_error advances_cur_instr_pos) (simp_all add: advances_ptr)

lemma keeps_val_expression [op_keeps]: "keeps p st dfi (op_val_expression p st dfi)"
  unfolding keeps_def op_val_expression_def Let_def
  by (intro exec_intros spec_if_error advances_cur_instr_pos) (simp_all add: advances_ptr)

lemma keeps_def_cfa_expression [op_keeps]: "keeps p st dfi (op_def_cfa_expression p st dfi)"
  unfolding keeps_def op_def_cfa_expression_def Let_def
  by (intro exec_intros spec_if_error)
    (simp_all add: advances_ptr advances_set_cfa advances_cur_instr_pos)

lemma keeps_remember_state [op_keeps]: "keeps p st dfi (op_remember_state p st dfi)"
proof (cases "unat (reg_count p) \<le> length (xs_rules st)")
  case True
  then have "exec_ok p st \<Longrightarrow> exec_ok p (st\<lparr>xs_top_stack := t # xs_top_stack st\<rparr>)"
    if "unat (reg_count p) \<le> length (rt3_rules t)" for t
    using that by (simp add: exec_ok_def)
  moreover have "search_ok p (st\<lparr>xs_top_stack := ts\<rparr>) = search_ok p st" for ts
    by (simp add: search_ok_def)
  ultimately show ?thesis using True
    by (simp add: keeps_def op_remember_state_def copy_rules_def Let_def advances_def)
next
  case False
  then have "\<not> exec_ok p st" using exec_okD(3) by blast
  then show ?thesis using False by (simp add: keeps_def op_remember_state_def copy_rules_def)
qed

lemma keeps_restore_state [op_keeps]: "keeps p st dfi (op_restore_state p st dfi)"
proof (cases "xs_top_stack st")
  case (Cons t ts)
  show ?thesis
  proof (cases "unat (reg_count p) \<le> length (rt3_rules t) \<and> unat (reg_count p) \<le> length (xs_rules st)")
    case True
    have "exec_ok p st \<Longrightarrow> exec_ok p (st\<lparr>xs_top_stack := ts\<rparr>)"
      using Cons by (simp add: exec_ok_def)
    moreover have "search_ok p (st\<lparr>xs_top_stack := ts\<rparr>) = search_ok p st"
      by (simp add: search_ok_def)
    ultimately have "advances p st (st\<lparr>xs_top_stack := ts\<rparr>)" by (simp add: advances_def)
    then show ?thesis using True Cons
      by (simp add: keeps_def op_restore_state_def copy_rules_def advances_set_cfa advances_set_rules)
  next
    case False
    then have "\<not> exec_ok p st" using exec_okD(3) exec_okD(4) [of p st t] Cons by auto
    then show ?thesis using False Cons by (auto simp: keeps_def op_restore_state_def copy_rules_def)
  qed
qed (simp add: keeps_def op_restore_state_def)

lemma keeps_if: "keeps p st dfi m \<Longrightarrow> keeps p st dfi n \<Longrightarrow> keeps p st dfi (if b then m else n)"
  by simp

lemma keeps_exec_op: "keeps p st dfi (exec_op p opcode instr st dfi)"
  unfolding exec_op_def
  by (intro keeps_if op_keeps) (simp_all add: keeps_def)


subsection \<open>Steps\<close>

text \<open>What one turn of the loop does to the state, the list of expanded instructions apart.\<close>

lemma exec_step_cases:
  assumes "exec_step p st = DW_OK st'"
  obtains r where "xs_instr_ptr st < xp_final p" "xp_start p \<le> xs_instr_ptr st"
    "st' = end_of_case p r"
    "xs_instr_ptr st < xs_instr_ptr (opres_state r)"
    "exec_ok p st \<longrightarrow> exec_ok p (opres_state r)" "search_ok p st \<longrightarrow> search_ok p (opres_state r)"
    "xs_ilist (opres_state r) = xs_ilist st"
    "length (xs_rules (opres_state r)) = length (xs_rules st)"
    "same_instr p (new_frame_instr (opcode_of (xp_buf p ! xs_instr_ptr st))
       (word_of_nat (xs_instr_ptr st - xp_start p))) r"
proof -
  let ?st = "st\<lparr>xs_instr_ptr := xs_instr_ptr st + 1, xs_area_pos := xs_area_pos st + 1\<rparr>"
  let ?i = "xp_buf p ! xs_instr_ptr st"
  let ?d = "new_frame_instr (opcode_of ?i) (word_of_nat (xs_instr_ptr st - xp_start p))"
  obtain r where r: "exec_op p (opcode_of ?i) ?i ?st ?d = DW_OK r" "st' = end_of_case p r"
    "xs_instr_ptr st < xp_final p" "xp_start p \<le> xs_instr_ptr st"
    using assms by (auto simp: exec_step_def Let_def dw_simps rd8_eq_OK split: if_splits)
  have "advances p ?st (opres_state r) \<and> same_instr p ?d r"
    using spec_result [OF keeps_exec_op [unfolded keeps_def] r(1)] .
  then show thesis using that [of r] r by (auto simp: advances_def)
qed

lemma end_of_case_simps [simp]:
  "xs_instr_ptr (end_of_case p r) = xs_instr_ptr (opres_state r)"
  "exec_ok p (end_of_case p r) = exec_ok p (opres_state r)"
  "search_ok p (end_of_case p r) = search_ok p (opres_state r)"
  "xs_table (end_of_case p r) = xs_table (opres_state r)"
  by (cases r; simp add: end_of_case_def exec_ok_def search_ok_def)+

lemma exec_step_OK:
  assumes "exec_step p st = DW_OK st'"
  shows "xs_instr_ptr st < xs_instr_ptr st' \<and> xs_instr_ptr st < xp_final p \<and>
    (exec_ok p st \<longrightarrow> exec_ok p st') \<and> (search_ok p st \<longrightarrow> search_ok p st')"
  using assms by (elim exec_step_cases) simp

lemma exec_step_no_fault:
  assumes "exec_ok p st"
  shows "exec_step p st \<noteq> FAULT"
proof -
  let ?st = "st\<lparr>xs_instr_ptr := Suc (xs_instr_ptr st), xs_area_pos := Suc (xs_area_pos st)\<rparr>"
  have "exec_op p opcode instr ?st dfi \<noteq> FAULT" for opcode instr dfi
    using spec_no_fault [OF keeps_exec_op [unfolded keeps_def, of p ?st]] assms by simp
  then show ?thesis using exec_okD(1) [OF assms]
    by (auto simp: exec_step_def Let_def dw_simps)
qed

text \<open>The \<open>while\<close> loop.\<close>

function exec_loop :: "'u xparams \<Rightarrow> 'u xstate \<Rightarrow> 'u xstate dw" where
  "exec_loop p st =
     (if xs_instr_ptr st < xp_final p \<and> \<not> xs_search_over st
      then dw_bind (exec_step p st) (exec_loop p)
      else DW_OK st)"
  by pat_completeness auto
termination
  by (relation "measure (\<lambda>(p, st). xp_final p - xs_instr_ptr st)") (auto dest!: exec_step_OK)

declare exec_loop.simps [simp del]


lemma exec_loop_inv:
  assumes "\<And>st st'. P st \<Longrightarrow> exec_step p st = DW_OK st' \<Longrightarrow> P st'"
    and "P st" "exec_loop p st = DW_OK st'"
  shows "P st' \<and> (xp_final p \<le> xs_instr_ptr st' \<or> xs_search_over st')"
  using assms
proof (induction p st rule: exec_loop.induct)
  case (1 p st)
  show ?case
  proof (cases "xs_instr_ptr st < xp_final p \<and> \<not> xs_search_over st")
    case True
    then obtain st1 where "exec_step p st = DW_OK st1" "exec_loop p st1 = DW_OK st'"
      using 1(4) by (auto simp: exec_loop.simps [of p st] dw_simps)
    then show ?thesis using 1 True by blast
  qed (use 1 in \<open>auto simp: exec_loop.simps [of p st]\<close>)
qed


lemma exec_loop_no_fault: "exec_ok p st \<Longrightarrow> exec_loop p st \<noteq> FAULT"
proof (induction p st rule: exec_loop.induct)
  case (1 p st)
  then show ?case
    by (auto simp: exec_loop.simps [of p st] dw_simps exec_step_no_fault dest: exec_step_OK)
qed

section \<open>The interpreter\<close>

text \<open>The preload of the table before the loop.\<close>

definition set_table :: "reg_rule list \<Rightarrow> reg_rule \<Rightarrow> frame \<Rightarrow> frame" where
  "set_table rs c fr = fr\<lparr>fr_regtable := (fr_regtable fr)\<lparr>rt3_rules := rs, rt3_cfa_rule := c\<rparr>\<rparr>"

definition preload :: "'u xparams \<Rightarrow> frame \<Rightarrow> frame dw" where
  "preload p table =
     (let rules = rt3_rules (fr_regtable table) in
      case xp_init p of
        No_Table \<Rightarrow>
          let v = de_frame_rule_initial_value (xp_dbg p) in
          dw_bind (init_reg_rules_dw3 rules 0 (unat (reg_count p)) v)
            (\<lambda>rs. DW_OK (set_table rs (init_rule v) table))
      | Self_Table \<Rightarrow>
          dw_bind (copy_rules (unat (ucast (min (reg_count p) (fr_reg_count table)) :: u32)) rules rules)
            (\<lambda>rs. DW_OK (set_table rs (rt3_cfa_rule (fr_regtable table)) table))
      | Other_Table t \<Rightarrow>
          dw_bind (copy_rules (unat (ucast (min (reg_count p) (fr_reg_count t)) :: u32))
              (rt3_rules (fr_regtable t)) rules)
            (\<lambda>rs. DW_OK (set_table rs (rt3_cfa_rule (fr_regtable t)) table)))"

definition init_state :: "'u xparams \<Rightarrow> u64 \<Rightarrow> frame \<Rightarrow> 'u \<Rightarrow> 'u xstate" where
  "init_state p initial_loc table user =
     \<lparr>xs_instr_ptr = xp_start p, xs_area_pos = 0, xs_current_loc = initial_loc, xs_subsequent_pc = 0,
      xs_search_over = False, xs_table = table, xs_top_stack = [], xs_ilist = [], xs_user = user\<rparr>"

text \<open>
  What the caller finds afterwards: the table, the variables behind \<open>has_more_rows\<close> and \<open>subsequent_pc\<close>,
  the expanded instructions, and the user data. With a callback the two variables are left as they were.
\<close>

record 'u xresult =
  xr_table :: frame
  xr_has_more_rows :: bool
  xr_subsequent_pc :: u64
  xr_instrs :: "frame_instr list"
  xr_user :: 'u

definition exec_finish :: "'u xparams \<Rightarrow> bool \<Rightarrow> u64 \<Rightarrow> 'u xstate \<Rightarrow> 'u xresult dw" where
  "exec_finish p has_more_rows subsequent_pc st =
     (if xs_instr_ptr st > xp_final p then DW_ERROR DW_DLE_DF_FRAME_DECODING_ERROR
      else
        let table = (xs_table st)\<lparr>fr_loc := xs_current_loc st\<rparr> in
        case xp_iter p of
          Some cb \<Rightarrow>
            dw_bind (emit_row cb table (xs_current_loc st) False (xs_subsequent_pc st) (xs_user st))
              (\<lambda>user. DW_OK \<lparr>xr_table = table, xr_has_more_rows = has_more_rows,
                 xr_subsequent_pc = subsequent_pc, xr_instrs = [], xr_user = user\<rparr>)
        | None \<Rightarrow>
            let more = \<not> (xs_instr_ptr st = xp_final p \<and> \<not> xs_search_over st) in
            DW_OK \<lparr>xr_table = table, xr_has_more_rows = more,
              xr_subsequent_pc = (if more then xs_subsequent_pc st else 0),
              xr_instrs = (if xp_make_instr p then xs_ilist st else []), xr_user = xs_user st\<rparr>)"

definition exec_frame_instr ::
  "'u xparams \<Rightarrow> bool \<Rightarrow> u64 \<Rightarrow> u64 \<Rightarrow> frame \<Rightarrow> 'u \<Rightarrow> 'u xresult dw"
where
  "exec_frame_instr p has_more_rows subsequent_pc initial_loc table user =
     dw_bind (preload p table) (\<lambda>table.
     dw_bind (exec_loop p (init_state p initial_loc table user))
       (exec_finish p has_more_rows subsequent_pc))"

section \<open>The preload\<close>

lemma init_reg_rules_dw3_eq:
  "i \<le> n \<Longrightarrow> n \<le> length rs \<Longrightarrow>
   init_reg_rules_dw3 rs i n v = DW_OK (take i rs @ replicate (n - i) (init_rule v) @ drop n rs)"
proof (induction rs i n v rule: init_reg_rules_dw3.induct)
  case (1 rs i n v)
  show ?case
  proof (cases "i < n")
    case True
    then have "init_reg_rules_dw3 rs i n v = init_reg_rules_dw3 (rs[i := init_rule v]) (i + 1) n v"
      using 1(3) by (simp add: init_reg_rules_dw3.simps [of rs i])
    also have "\<dots> = DW_OK (take (i + 1) (rs[i := init_rule v]) @ replicate (n - (i + 1)) (init_rule v)
        @ drop n (rs[i := init_rule v]))"
      using 1 True by simp
    also have "take (i + 1) (rs[i := init_rule v]) = take i rs @ [init_rule v]"
      using True 1(3) by (simp add: take_Suc_conv_app_nth)
    also have "replicate (n - i) (init_rule v) = init_rule v # replicate (n - (i + 1)) (init_rule v)"
      using True by (simp flip: replicate_Suc)
    ultimately show ?thesis using True by simp
  next
    case False
    then have "i = n" using 1(2) by simp
    then show ?thesis by (subst init_reg_rules_dw3.simps) simp
  qed
qed

lemma copy_rules_length: "copy_rules n a b = DW_OK c \<Longrightarrow> length c = length b"
  by (auto simp: copy_rules_def split: if_splits)

definition tables_ok :: "'u xparams \<Rightarrow> frame \<Rightarrow> bool" where
  "tables_ok p table \<longleftrightarrow> xp_final p \<le> length (xp_buf p) \<and> unat (address_size p) \<le> 8 \<and>
     unat (reg_count p) \<le> length (rt3_rules (fr_regtable table)) \<and>
     (case xp_init p of Other_Table t \<Rightarrow> unat (reg_count p) \<le> length (rt3_rules (fr_regtable t)) | _ \<Rightarrow> True)"

lemma unat_min32: "unat (ucast (min a b :: u64) :: u32) \<le> unat a"
proof -
  have "unat (ucast (min a b) :: u32) \<le> unat (min a b)"
    by (simp add: unsigned_ucast_eq take_bit_nat_less_eq_self)
  also have "\<dots> \<le> unat a" by (simp add: word_le_nat_alt [symmetric])
  finally show ?thesis .
qed

lemma preload_spec:
  "spec (tables_ok p table)
     (\<lambda>t. length (rt3_rules (fr_regtable t)) = length (rt3_rules (fr_regtable table))) (preload p table)"
proof (cases "tables_ok p table")
  case True
  then have rc: "unat (reg_count p) \<le> length (rt3_rules (fr_regtable table))"
    by (simp add: tables_ok_def)
  show ?thesis
  proof (cases "xp_init p")
    case No_Table
    then show ?thesis using init_reg_rules_dw3_eq [OF _ rc, of 0] rc
      by (simp add: preload_def set_table_def Let_def)
  next
    case Self_Table
    have "unat (ucast (min (reg_count p) (fr_reg_count table)) :: u32) \<le> length (rt3_rules (fr_regtable table))"
      using unat_min32 rc by (rule order_trans)
    then show ?thesis using Self_Table
      by (simp add: preload_def set_table_def Let_def copy_rules_def)
  next
    case (Other_Table t)
    then have "unat (reg_count p) \<le> length (rt3_rules (fr_regtable t))"
      using True by (simp add: tables_ok_def)
    with unat_min32 [of "reg_count p" "fr_reg_count t"] rc show ?thesis using Other_Table
      by (simp add: preload_def set_table_def Let_def copy_rules_def)
  qed
next
  case False
  have init: "length r = length rs" if "init_reg_rules_dw3 rs i n v = DW_OK r" for rs i n v r
    using that
  proof (induction rs i n v rule: init_reg_rules_dw3.induct)
    case (1 rs i n v)
    then show ?case
      by (cases "i < n \<and> i < length rs") (auto simp: init_reg_rules_dw3.simps [of rs i] split: if_splits)
  qed
  show ?thesis using False
    by (auto simp: spec_def preload_def Let_def dw_simps set_table_def dest: init copy_rules_length
        split: init_table.splits)
qed

lemma init_state_ok:
  "tables_ok p table \<Longrightarrow> length (rt3_rules (fr_regtable t)) = length (rt3_rules (fr_regtable table)) \<Longrightarrow>
   exec_ok p (init_state p loc t user)"
  by (simp add: tables_ok_def exec_ok_def init_state_def)

lemma exec_finish_no_fault: "exec_finish p h s st \<noteq> FAULT"
  by (auto simp: exec_finish_def Let_def dw_simps split: option.splits)

lemma exec_frame_instr_no_fault:
  assumes "tables_ok p table"
  shows "exec_frame_instr p h s loc table user \<noteq> FAULT"
  using spec_no_fault [OF preload_spec assms] spec_result [OF preload_spec [of p table]]
  by (auto simp: exec_frame_instr_def dw_simps exec_finish_no_fault exec_loop_no_fault
      init_state_ok [OF assms])

text \<open>The states the result is made from.\<close>

lemma exec_frame_instr_cases:
  assumes "exec_frame_instr p h s loc table user = DW_OK r"
  obtains t st where "preload p table = DW_OK t" "exec_loop p (init_state p loc t user) = DW_OK st"
    "exec_finish p h s st = DW_OK r"
  using assms by (auto simp: exec_frame_instr_def dw_simps)

lemma exec_frame_instr_search:
  assumes "exec_frame_instr p h s loc table user = DW_OK r" "xp_iter p = None"
    and "xp_search_pc p \<Longrightarrow> loc \<le> xp_search_pc_val p"
  shows "(xp_search_pc p \<longrightarrow> fr_loc (xr_table r) \<le> xp_search_pc_val p) \<and>
    (xr_has_more_rows r \<longrightarrow> xp_search_pc p \<and> xp_search_pc_val p < xr_subsequent_pc r) \<and>
    (\<not> xr_has_more_rows r \<longrightarrow> xr_subsequent_pc r = 0)"
proof -
  obtain t st where st: "exec_loop p (init_state p loc t user) = DW_OK st"
    "exec_finish p h s st = DW_OK r" using exec_frame_instr_cases [OF assms(1)] .
  have "search_ok p (init_state p loc t user)"
    using assms(3) by (simp add: search_ok_def init_state_def)
  then have "search_ok p st \<and> (xp_final p \<le> xs_instr_ptr st \<or> xs_search_over st)"
    by (rule exec_loop_inv [where P = "search_ok p", rotated]) (use st exec_step_OK in auto)
  then show ?thesis using st(2) assms(2)
    by (auto simp: exec_finish_def search_ok_def Let_def split: if_splits)
qed


section \<open>The list of expanded instructions\<close>

definition listed :: "'u xparams \<Rightarrow> nat \<Rightarrow> frame_instr list \<Rightarrow> bool" where
  "listed p q ds \<longleftrightarrow>
     sorted_wrt (<) (map (\<lambda>d. unat (fi_instr_offset d)) ds) \<and>
     (\<forall>d \<in> set ds. xp_start p + unat (fi_instr_offset d) < q \<and>
        xp_start p + unat (fi_instr_offset d) < xp_final p \<and>
        fi_op d = opcode_of (xp_buf p ! (xp_start p + unat (fi_instr_offset d))))"

lemma listed_mono: "listed p q ds \<Longrightarrow> q \<le> q' \<Longrightarrow> listed p q' ds"
  by (auto simp: listed_def intro: less_le_trans)

lemma listed_snoc:
  assumes "listed p q ds" "xp_start p \<le> q" "q < xp_final p" "xp_final p < 2 ^ 64" "q < q'"
    and "fi_op d = opcode_of (xp_buf p ! q)" "fi_instr_offset d = word_of_nat (q - xp_start p)"
  shows "listed p q' (ds @ [d])"
proof -
  have u: "unat (fi_instr_offset d) = q - xp_start p"
    unfolding assms(7) using assms(3,4) by (simp add: unat_of_nat del: of_nat_diff)
  then have "xp_start p + unat (fi_instr_offset d) = q" using assms(2) by simp
  moreover have "\<forall>x \<in> set ds. unat (fi_instr_offset x) < unat (fi_instr_offset d)"
    using assms(1,2) u by (auto simp: listed_def)
  moreover have "listed p q' ds" using listed_mono [OF assms(1)] assms(5) by simp
  ultimately show ?thesis using assms(3,5,6)
    by (auto simp: listed_def sorted_wrt_append)
qed

lemma exec_loop_listed:
  assumes "xp_iter p = None" "xp_make_instr p" "xp_final p < 2 ^ 64"
    and "exec_loop p st = DW_OK st'" "listed p (xs_instr_ptr st) (xs_ilist st)"
  shows "listed p (xs_instr_ptr st') (xs_ilist st') \<and>
    (xs_ilist st = [] \<and> xs_instr_ptr st = xp_start p \<and> xp_start p < xp_final p \<and> \<not> xs_search_over st \<longrightarrow>
      (\<exists>d ds. xs_ilist st' = d # ds \<and> fi_instr_offset d = 0))"
proof -
  have step: "listed p (xs_instr_ptr b) (xs_ilist b) \<and>
      (\<exists>d. xs_ilist b = xs_ilist a @ [d] \<and> fi_instr_offset d = word_of_nat (xs_instr_ptr a - xp_start p))"
    if "listed p (xs_instr_ptr a) (xs_ilist a)" "exec_step p a = DW_OK b" for a b
  proof (rule exec_step_cases [OF that(2)])
    fix r
    assume r: "xs_instr_ptr a < xp_final p" "xp_start p \<le> xs_instr_ptr a" "b = end_of_case p r"
      "xs_instr_ptr a < xs_instr_ptr (opres_state r)" "xs_ilist (opres_state r) = xs_ilist a"
      "same_instr p (new_frame_instr (opcode_of (xp_buf p ! xs_instr_ptr a))
         (word_of_nat (xs_instr_ptr a - xp_start p))) r"
    then obtain s d where sd: "r = BREAK s d" using assms(1) by (cases r) auto
    have d: "fi_op d = opcode_of (xp_buf p ! xs_instr_ptr a)"
      "fi_instr_offset d = word_of_nat (xs_instr_ptr a - xp_start p)"
      using r(6) unfolding sd by (simp_all add: new_frame_instr_def del: of_nat_diff)
    have b: "xs_ilist b = xs_ilist a @ [d]" "xs_instr_ptr b = xs_instr_ptr (opres_state r)"
      using r(3,5) assms(2) sd by (simp_all add: end_of_case_def)
    show ?thesis
      using listed_snoc [OF that(1) r(2,1) assms(3) r(4) d] b d(2) by auto
  qed
  let ?P = "\<lambda>s. listed p (xs_instr_ptr s) (xs_ilist s)"
  have l: "?P st'" using exec_loop_inv [where P = ?P, OF _ assms(5,4)] step by blast
  show ?thesis
  proof (intro conjI impI)
    assume e: "xs_ilist st = [] \<and> xs_instr_ptr st = xp_start p \<and> xp_start p < xp_final p \<and> \<not> xs_search_over st"
    then obtain st1 where s1: "exec_step p st = DW_OK st1" "exec_loop p st1 = DW_OK st'"
      using assms(4) by (auto simp: exec_loop.simps [of p st] dw_simps)
    let ?Q = "\<lambda>s. ?P s \<and> (\<exists>d ds. xs_ilist s = d # ds \<and> fi_instr_offset d = 0)"
    have "?Q st1" using step [OF assms(5) s1(1)] e by auto
    with s1(2) have "?Q st'" using exec_loop_inv [where P = ?Q and st = st1 and p = p and st' = st'] step
      by fastforce
    then show "\<exists>d ds. xs_ilist st' = d # ds \<and> fi_instr_offset d = 0" by blast
  qed (rule l)
qed

lemma exec_frame_instr_listed:
  assumes "exec_frame_instr p h s loc table user = DW_OK r" "xp_iter p = None"
    and "xp_make_instr p" "xp_final p < 2 ^ 64" "xp_start p < xp_final p"
  shows "listed p (xp_final p) (xr_instrs r) \<and>
    (\<exists>d ds. xr_instrs r = d # ds \<and> fi_instr_offset d = 0)"
proof -
  obtain t st where st: "exec_loop p (init_state p loc t user) = DW_OK st"
    "exec_finish p h s st = DW_OK r" using exec_frame_instr_cases [OF assms(1)] .
  have "listed p (xs_instr_ptr (init_state p loc t user)) (xs_ilist (init_state p loc t user))"
    by (simp add: listed_def init_state_def)
  note l = exec_loop_listed [OF assms(2-4) st(1) this]
  have i: "xr_instrs r = xs_ilist st" "xs_instr_ptr st \<le> xp_final p"
    using st(2) assms(2,3) by (auto simp: exec_finish_def Let_def split: if_splits)
  show ?thesis
    using l assms(5) listed_mono i by (auto simp: init_state_def)
qed

section \<open>Remembering and restoring\<close>

lemma restore_after_remember:
  assumes "op_remember_state p st dfi = DW_OK (BREAK st1 dfi1)"
    and "length (xs_rules st) = unat (reg_count p)" "length (xs_rules st2) = unat (reg_count p)"
    and "xs_top_stack st2 = xs_top_stack st1"
  shows "\<exists>st3 dfi3. op_restore_state p st2 dfi2 = DW_OK (BREAK st3 dfi3) \<and>
    xs_rules st3 = xs_rules st \<and> get_cfa st3 = get_cfa st \<and> xs_top_stack st3 = xs_top_stack st \<and>
    xs_instr_ptr st3 = xs_instr_ptr st2 \<and> xs_current_loc st3 = xs_current_loc st2"
proof -
  have "xs_top_stack st1 = \<lparr>rt3_cfa_rule = get_cfa st, rt3_reg_table_size = ucast (reg_count p),
      rt3_rules = xs_rules st\<rparr> # xs_top_stack st"
    using assms(1,2) by (auto simp: op_remember_state_def copy_rules_def Let_def)
  then show ?thesis using assms(2-4)
    by (simp add: op_restore_state_def copy_rules_def)
qed

section \<open>A concrete instance\<close>

definition sample_cie :: cie where
  "sample_cie = \<lparr>ci_length = 0, ci_augmentation = Some [], ci_code_alignment_factor = 1,
     ci_data_alignment_factor = - 8, ci_cie_start = 0, ci_cie_instr_start = 0, ci_cie_end = 0,
     ci_length_size = 4, ci_extension_size = 0, ci_address_size = 8, ci_return_address_register = 2,
     ci_cie_version_number = 3, ci_section_ptr = 0, ci_gnu_eh_augmentation_len = 0,
     ci_gnu_eh_augmentation_bytes = 0, ci_initial_table = None\<rparr>"

definition sample_params :: "bool \<Rightarrow> 'u callback option \<Rightarrow> bytes \<Rightarrow> 'u xparams" where
  "sample_params make_instr iter code = \<lparr>xp_make_instr = make_instr, xp_search_pc = \<not> make_instr,
     xp_search_pc_val = 0x102, xp_buf = code, xp_start = 0, xp_final = length code,
     xp_cie = Some sample_cie, xp_init = No_Table,
     xp_dbg = debug_le64\<lparr>de_frame_reg_rules_entry_count := 3\<rparr>,
     xp_reg_num_of_cfa = 12290, xp_iter = iter\<rparr>"

definition zero_frame :: "nat \<Rightarrow> frame" where
  "zero_frame n = \<lparr>fr_loc = 0, fr_reg_count = word_of_nat n, fr_regtable =
     \<lparr>rt3_cfa_rule = init_rule 0, rt3_reg_table_size = word_of_nat n,
      rt3_rules = replicate n (init_rule 0)\<rparr>\<rparr>"

text \<open>A function prologue: two advances, each followed by a new CFA rule.\<close>

definition prologue :: bytes where
  "prologue = [0x0c, 1, 8, 0x82, 1, 0x41, 0x0e, 16, 0x80, 2, 0x43, 0x0d, 0]"

definition collect_rows :: "(u64 \<times> bool \<times> u64) list callback" where
  "collect_rows t pc has_more nxt rows = (DLV_OK, rows @ [(pc, has_more, nxt)])"

section \<open>Properties\<close>

text \<open>
  C7: Running the interpreter over any bytes, in any of its modes, reads and writes only inside the instruction
  buffer and the register tables, provided every table has the configured number of rules and
  addresses are at most eight bytes long. It always returns.
\<close>

theorem exec_frame_instr_safe:
  assumes "xp_final p \<le> length (xp_buf p)" "unat (address_size p) \<le> 8"
    and "unat (de_frame_reg_rules_entry_count (xp_dbg p)) \<le> length (rt3_rules (fr_regtable table))"
    and "\<And>t. xp_init p = Other_Table t \<Longrightarrow>
      unat (de_frame_reg_rules_entry_count (xp_dbg p)) \<le> length (rt3_rules (fr_regtable t))"
  shows "exec_frame_instr p has_more_rows subsequent_pc initial_loc table user \<noteq> FAULT"
  by (rule exec_frame_instr_no_fault)
    (use assms in \<open>simp add: tables_ok_def reg_count_def split: init_table.splits\<close>)

theorem exec_frame_instr_safe_witness:
  "exec_frame_instr (sample_params False None prologue) False 0 0x100 (zero_frame 3) (0 :: nat) \<noteq> FAULT"
  by (rule exec_frame_instr_safe)
    (simp_all add: sample_params_def zero_frame_def address_size_def sample_cie_def)

text \<open>
  C6: A search for a pc at or above the initial location ends in the row that covers it: the row starts at or below the
  pc, and when more rows are announced the next one starts above it; otherwise the next pc is zero.
\<close>

theorem exec_search_row:
  assumes "exec_frame_instr p has_more_rows subsequent_pc initial_loc table user = DW_OK r"
    and "xp_iter p = None" "xp_search_pc p" "initial_loc \<le> xp_search_pc_val p"
  shows "fr_loc (xr_table r) \<le> xp_search_pc_val p \<and>
    (if xr_has_more_rows r then xp_search_pc_val p < xr_subsequent_pc r else xr_subsequent_pc r = 0)"
  using exec_frame_instr_search [OF assms(1,2)] assms(3,4) by auto

theorem exec_search_row_witness:
  "\<exists>r. exec_frame_instr (sample_params False None prologue) False 0 0x100 (zero_frame 3) (0 :: nat) = DW_OK r \<and>
     fr_loc (xr_table r) = 0x101 \<and> xr_subsequent_pc r = 0x104 \<and> fr_loc (xr_table r) \<le> 0x102 \<and>
     dw_offset (rt3_cfa_rule (fr_regtable (xr_table r))) = 16"
proof -
  have e: "(case exec_frame_instr (sample_params False None prologue) False 0 0x100 (zero_frame 3) (0 :: nat) of
      DW_OK r \<Rightarrow> fr_loc (xr_table r) = 0x101 \<and> xr_subsequent_pc r = 0x104 \<and>
        dw_offset (rt3_cfa_rule (fr_regtable (xr_table r))) = 16 | _ \<Rightarrow> False)"
    by code_simp
  then obtain r where r: "exec_frame_instr (sample_params False None prologue) False 0 0x100 (zero_frame 3) (0 :: nat)
      = DW_OK r" by (auto split: dw.splits)
  from exec_search_row [OF r] e r show ?thesis by (simp add: sample_params_def)
qed

text \<open>
  C33: Expanding instructions lists each decoded instruction with the opcode that stands at its offset; the first
  offset is zero and the offsets increase strictly and stay inside the instructions.
\<close>

theorem exec_expand_lists:
  assumes "exec_frame_instr p has_more_rows subsequent_pc initial_loc table user = DW_OK r"
    and "xp_iter p = None" "xp_make_instr p" "xp_start p < xp_final p" "xp_final p < 2 ^ 64"
  shows "sorted_wrt (<) (map (\<lambda>d. unat (fi_instr_offset d)) (xr_instrs r)) \<and>
    (\<exists>d ds. xr_instrs r = d # ds \<and> fi_instr_offset d = 0) \<and>
    (\<forall>d \<in> set (xr_instrs r). xp_start p + unat (fi_instr_offset d) < xp_final p \<and>
       fi_op d = opcode_of (xp_buf p ! (xp_start p + unat (fi_instr_offset d))))"
  using exec_frame_instr_listed [OF assms(1-3,5,4)] by (auto simp: listed_def)

theorem exec_expand_lists_witness:
  "\<exists>r. exec_frame_instr (sample_params True None prologue) False 0 0 (zero_frame 3) (0 :: nat) = DW_OK r \<and>
     sorted_wrt (<) (map (\<lambda>d. unat (fi_instr_offset d)) (xr_instrs r)) \<and>
     map fi_op (xr_instrs r) = [0x0c, 0x80, 0x40, 0x0e, 0x80, 0x40, 0x0d]"
proof -
  have e: "(case exec_frame_instr (sample_params True None prologue) False 0 0 (zero_frame 3) (0 :: nat) of
      DW_OK r \<Rightarrow> map fi_op (xr_instrs r) = [0x0c, 0x80, 0x40, 0x0e, 0x80, 0x40, 0x0d] | _ \<Rightarrow> False)"
    by code_simp
  then obtain r where r: "exec_frame_instr (sample_params True None prologue) False 0 0 (zero_frame 3) (0 :: nat)
      = DW_OK r" by (auto split: dw.splits)
  have "xp_start (sample_params True None prologue) < xp_final (sample_params True None prologue)"
    "xp_final (sample_params True None prologue) < 2 ^ 64"
    by (simp_all add: sample_params_def prologue_def)
  from exec_expand_lists [OF r _ _ this] e r show ?thesis by (simp add: sample_params_def)
qed

text \<open>
  C24: A \<open>DW_CFA_restore_state\<close> that meets the stack a \<open>DW_CFA_remember_state\<close> left, whatever ran between them,
  brings back exactly the rules and the CFA rule of the moment they were remembered, pops the row, and does not touch the location.
\<close>

theorem remember_restore:
  assumes "op_remember_state p st dfi = DW_OK (BREAK st1 dfi1)"
    and "length (rt3_rules (fr_regtable (xs_table st))) = unat (reg_count p)"
    and "length (rt3_rules (fr_regtable (xs_table st2))) = unat (reg_count p)"
    and "xs_top_stack st2 = xs_top_stack st1"
  shows "\<exists>st3 dfi3. op_restore_state p st2 dfi2 = DW_OK (BREAK st3 dfi3) \<and>
    rt3_rules (fr_regtable (xs_table st3)) = rt3_rules (fr_regtable (xs_table st)) \<and>
    get_cfa st3 = get_cfa st \<and> xs_top_stack st3 = xs_top_stack st \<and>
    xs_instr_ptr st3 = xs_instr_ptr st2 \<and> xs_current_loc st3 = xs_current_loc st2"
  by (rule restore_after_remember [OF assms])

theorem remember_restore_witness:
  "\<exists>st3 dfi3. op_restore_state (sample_params False None [])
      (init_state (sample_params False None []) 0x100 (zero_frame 3) (0 :: nat)\<lparr>xs_top_stack :=
        [\<lparr>rt3_cfa_rule = init_rule 7, rt3_reg_table_size = 3, rt3_rules = replicate 3 (init_rule 9)\<rparr>]\<rparr>)
      (new_frame_instr 0 0) = DW_OK (BREAK st3 dfi3) \<and> get_cfa st3 = init_rule 7"
proof -
  let ?p = "sample_params False None [] :: nat xparams"
  let ?t = "zero_frame 3\<lparr>fr_regtable := \<lparr>rt3_cfa_rule = init_rule 7, rt3_reg_table_size = 3,
      rt3_rules = replicate 3 (init_rule 9)\<rparr>\<rparr>"
  let ?d = "new_frame_instr 0 0"
  let ?st = "init_state ?p 0x100 ?t 0"
  let ?s1 = "?st\<lparr>xs_top_stack := [\<lparr>rt3_cfa_rule = init_rule 7, rt3_reg_table_size = 3,
      rt3_rules = replicate 3 (init_rule 9)\<rparr>]\<rparr>"
  let ?s2 = "init_state ?p 0x100 (zero_frame 3) 0\<lparr>xs_top_stack := xs_top_stack ?s1\<rparr>"
  have "op_remember_state ?p ?st ?d = DW_OK (BREAK ?s1 (?d\<lparr>fi_fields := []\<rparr>))"
    by (simp add: op_remember_state_def copy_rules_def sample_params_def reg_count_def
        init_state_def get_cfa_def)
  from remember_restore [OF this, of ?s2 ?d] show ?thesis
    by (auto simp: sample_params_def reg_count_def init_state_def zero_frame_def get_cfa_def)
qed

text \<open>
  \<open>DW_CFA_val_offset_sf\<close> and \<open>DW_CFA_LLVM_def_aspace_cfa_sf\<close> ignore the register they name: whatever it is, they
  leave the rules of every register but number zero, and the CFA rule, as they are.
\<close>

theorem sf_rules_change_register_zero:
  assumes "op_val_offset_sf p st dfi = DW_OK r \<or> op_LLVM_def_aspace_cfa_sf p st dfi = DW_OK r"
    and "0 < i"
  shows "rt3_rules (fr_regtable (xs_table (opres_state r))) ! i =
      rt3_rules (fr_regtable (xs_table st)) ! i \<and> get_cfa (opres_state r) = get_cfa st"
proof -
  have g: "xs_table st' = xs_table s"
    if "get_uword p s = DW_OK (v, st') \<or> get_sword p s = DW_OK (v, st')" for s v st'
    using that by (auto simp: get_uword_def get_sword_def dw_simps)
  have u: "xs_rules s' ! i = xs_rules s ! i \<and> get_cfa s' = get_cfa s" if "upd_rule 0 f s = DW_OK s'" for f s s'
    using that assms(2) by (auto simp: upd_rule_def split: if_splits)
  show ?thesis using assms(1)
  proof
    assume "op_val_offset_sf p st dfi = DW_OK r"
    then obtain v s1 w s2 f s3 where s: "get_uword p st = DW_OK (v, s1)" "get_sword p s1 = DW_OK (w, s2)"
      "upd_rule 0 f (cur_instr_pos p s2) = DW_OK s3" "opres_state r = s3"
      by (auto simp: op_val_offset_sf_def dw_simps Let_def)
    have "xs_table s2 = xs_table st" using g s(1,2) by metis
    then show ?thesis using u [OF s(3)] s(4) by (simp add: get_cfa_def)
  next
    assume "op_LLVM_def_aspace_cfa_sf p st dfi = DW_OK r"
    then obtain v s1 w s2 x s3 f s4 where s: "get_uword p st = DW_OK (v, s1)" "get_sword p s1 = DW_OK (w, s2)"
      "get_uword p s2 = DW_OK (x, s3)" "upd_rule 0 f (cur_instr_pos p s3) = DW_OK s4" "opres_state r = s4"
      by (auto simp: op_LLVM_def_aspace_cfa_sf_def dw_simps Let_def)
    have "xs_table s3 = xs_table st" using g s(1-3) by metis
    then show ?thesis using u [OF s(4)] s(5) by (simp add: get_cfa_def)
  qed
qed

theorem sf_rules_change_register_zero_witness:
  "\<exists>r. op_val_offset_sf (sample_params False None [2, 4])
      (init_state (sample_params False None [2, 4]) 0x100 (zero_frame 3) (0 :: nat)) (new_frame_instr 0x15 0) = DW_OK r \<and>
     rt3_rules (fr_regtable (xs_table (opres_state r))) ! 2 = init_rule 0 \<and>
     dw_value_type (rt3_rules (fr_regtable (xs_table (opres_state r))) ! 0) = 1"
proof -
  let ?p = "sample_params False None [2, 4] :: nat xparams"
  let ?st = "init_state ?p 0x100 (zero_frame 3) 0"
  have e: "(case op_val_offset_sf ?p ?st (new_frame_instr 0x15 0) of DW_OK r \<Rightarrow>
      dw_value_type (rt3_rules (fr_regtable (xs_table (opres_state r))) ! 0) = 1 | _ \<Rightarrow> False)"
    by code_simp
  then obtain r where r: "op_val_offset_sf ?p ?st (new_frame_instr 0x15 0) = DW_OK r"
    by (auto split: dw.splits)
  from sf_rules_change_register_zero [OF disjI1 [OF r], of 2] e r show ?thesis
    by (auto simp: init_state_def zero_frame_def)
qed

text \<open>
  While rows go to a callback, \<open>DW_CFA_set_loc\<close> drops the location it sets: iterating over an FDE that sets the
  location 0x108 hands out rows at 0x100 and at 0, where a search past 0x108 ends in a row at 0x108.
\<close>

theorem set_loc_lost_in_iteration:
  "(\<exists>r. exec_frame_instr (sample_params False (Some collect_rows) [1, 8, 1, 0, 0, 0, 0, 0, 0])
       False 0 0x100 (zero_frame 3) [] = DW_OK r \<and> xr_user r = [(0x100, False, 0), (0, False, 0)]) \<and>
   (\<exists>r. exec_frame_instr (sample_params False None [1, 8, 1, 0, 0, 0, 0, 0, 0]\<lparr>xp_search_pc_val := 0x200\<rparr>)
       False 0 0x100 (zero_frame 3) ([] :: (u64 \<times> bool \<times> u64) list) = DW_OK r \<and>
     fr_loc (xr_table r) = 0x108)"
proof -
  have "(case exec_frame_instr (sample_params False (Some collect_rows) [1, 8, 1, 0, 0, 0, 0, 0, 0])
       False 0 0x100 (zero_frame 3) [] of DW_OK r \<Rightarrow> xr_user r = [(0x100, False, 0), (0, False, 0)]
     | _ \<Rightarrow> False)" by code_simp
  moreover have "(case exec_frame_instr (sample_params False None [1, 8, 1, 0, 0, 0, 0, 0, 0]\<lparr>xp_search_pc_val := 0x200\<rparr>)
       False 0 0x100 (zero_frame 3) ([] :: (u64 \<times> bool \<times> u64) list) of DW_OK r \<Rightarrow> fr_loc (xr_table r) = 0x108
     | _ \<Rightarrow> False)" by code_simp
  ultimately show ?thesis by (auto split: dw.splits)
qed

text \<open>
  The preload copies at most the rules the CIE's initial row has, but \<open>DW_CFA_restore\<close> does not look at its size: a
  register below the configured count and beyond that row makes it read outside the row's array.
\<close>

theorem restore_reads_past_initial_row:
  assumes "xp_init p = Other_Table t" "length (rt3_rules (fr_regtable t)) \<le> unat (instr AND 0x3f)"
    and "unat (instr AND 0x3f) < unat (reg_count p)"
  shows "op_restore p instr st dfi = FAULT"
proof -
  have u: "unat (ucast (instr AND 0x3f) :: u64) = unat (instr AND 0x3f)" by simp
  then show ?thesis using assms
    by (simp add: op_restore_def check_reg_def word_le_nat_alt restore_rule_def)
qed

theorem restore_reads_past_initial_row_witness:
  "op_restore (sample_params False None []\<lparr>xp_init := Other_Table (zero_frame 2)\<rparr>) 0xc2
     (init_state (sample_params False None []) 0x100 (zero_frame 3) (0 :: nat)) (new_frame_instr 0xc0 0) = FAULT"
  by (rule restore_reads_past_initial_row [where t = "zero_frame 2"])
    (simp_all add: sample_params_def zero_frame_def reg_count_def)

end
