(* ===== verification/FrameQuery.thy ===== *)
theory FrameQuery
  imports FrameExec
begin

text \<open>
  The consumer functions of \<open>dwarf_frame.c\<close> and \<open>dwarf_frame_iter.c\<close> on a finished FDE: the settings of the
  register table, the search for the FDE of a pc, the rows for a pc, and the iteration over all rows. Functions that change the
  debug object or the FDE return them updated beside their result, on the error paths too.
\<close>

section \<open>Settings\<close>

text \<open>\<open>_dwarf_validate_register_numbers\<close> and the setters, which return the value they replace.\<close>

definition validate_register_numbers :: "dwarf_debug \<Rightarrow> dwarf_debug \<times> unit dw" where
  "validate_register_numbers dbg =
     (if de_frame_numbers_validated dbg then (dbg, DW_OK ())
      else if de_frame_same_value_number dbg = de_frame_undefined_value_number dbg
        then (dbg, DW_ERROR DW_DLE_DEBUGFRAME_ERROR)
      else if de_frame_cfa_col_number dbg = de_frame_same_value_number dbg
        then (dbg, DW_ERROR DW_DLE_DEBUGFRAME_ERROR)
      else if de_frame_cfa_col_number dbg = de_frame_undefined_value_number dbg
        then (dbg, DW_ERROR DW_DLE_DEBUGFRAME_ERROR)
      else if de_frame_rule_initial_value dbg \<noteq> de_frame_same_value_number dbg \<and>
              de_frame_rule_initial_value dbg \<noteq> de_frame_undefined_value_number dbg
        then (dbg, DW_ERROR DW_DLE_DEBUGFRAME_ERROR)
      else if de_frame_undefined_value_number dbg \<le> de_frame_reg_rules_entry_count dbg
        then (dbg, DW_ERROR DW_DLE_DEBUGFRAME_ERROR)
      else if de_frame_same_value_number dbg \<le> de_frame_reg_rules_entry_count dbg
        then (dbg, DW_ERROR DW_DLE_DEBUGFRAME_ERROR)
      else if de_frame_cfa_col_number dbg \<le> de_frame_reg_rules_entry_count dbg
        then (dbg, DW_ERROR DW_DLE_DEBUGFRAME_ERROR)
      else (dbg\<lparr>de_frame_numbers_validated := True\<rparr>, DW_OK ()))"

definition set_frame_rule_initial_value :: "dwarf_debug \<Rightarrow> u16 \<Rightarrow> dwarf_debug \<times> u16" where
  "set_frame_rule_initial_value dbg val =
     (let orig = ucast (de_frame_rule_initial_value dbg) in
      (dbg\<lparr>de_frame_rule_initial_value := ucast val, de_frame_numbers_validated := False\<rparr>, orig))"

definition set_frame_rule_table_size :: "dwarf_debug \<Rightarrow> u16 \<Rightarrow> dwarf_debug \<times> u16" where
  "set_frame_rule_table_size dbg val =
     (let orig = ucast (de_frame_reg_rules_entry_count dbg);
          val = (if val < 50 then 50 else val) in
      (dbg\<lparr>de_frame_reg_rules_entry_count := ucast val, de_frame_numbers_validated := False\<rparr>, orig))"

definition set_frame_cfa_value :: "dwarf_debug \<Rightarrow> u16 \<Rightarrow> dwarf_debug \<times> u16" where
  "set_frame_cfa_value dbg val =
     (let orig = ucast (de_frame_cfa_col_number dbg) in
      (dbg\<lparr>de_frame_cfa_col_number := ucast val, de_frame_numbers_validated := False\<rparr>, orig))"

definition set_frame_same_value :: "dwarf_debug \<Rightarrow> u16 \<Rightarrow> dwarf_debug \<times> u16" where
  "set_frame_same_value dbg val =
     (let orig = ucast (de_frame_same_value_number dbg) in
      (dbg\<lparr>de_frame_same_value_number := ucast val, de_frame_numbers_validated := False\<rparr>, orig))"

definition set_frame_undefined_value :: "dwarf_debug \<Rightarrow> u16 \<Rightarrow> dwarf_debug \<times> u16" where
  "set_frame_undefined_value dbg val =
     (let orig = ucast (de_frame_same_value_number dbg) in
      (dbg\<lparr>de_frame_undefined_value_number := ucast val, de_frame_numbers_validated := False\<rparr>, orig))"

definition set_default_address_size :: "dwarf_debug \<Rightarrow> u8 \<Rightarrow> dwarf_debug \<times> u8" where
  "set_default_address_size dbg val =
     (let orig = de_pointer_size dbg in
      (if 0 < val \<and> val \<le> 8 then dbg\<lparr>de_pointer_size := val\<rparr> else dbg, orig))"

section \<open>Frame tables of an FDE\<close>

text \<open>
  The \<open>fd_fde_frame_table\<close> of an FDE: its register table may be absent, its own, or one the
  caller lent it. The contents a lent table has after an error are not modelled.
\<close>

record frame_slot =
  fs_loc :: u64
  fs_reg_count :: u64
  fs_regtable :: "regtable option"
  fs_owns_regtable :: bool

record fde =
  fd_length :: u64
  fd_cie_offset :: u64
  fd_cie_index :: u64
  fd_cie :: cie
  fd_initial_location :: u64
  fd_address_range :: u64
  fd_fde_start :: ptr
  fd_fde_instr_start :: ptr
  fd_fde_end :: ptr
  fd_length_size :: u8
  fd_extension_size :: u8
  fd_is_eh :: bool
  fd_section_ptr :: ptr
  fd_gnu_eh_aug_present :: bool
  fd_gnu_eh_augmentation_len :: u64
  fd_gnu_eh_augmentation_bytes :: ptr
  fd_offset_into_exception_tables :: s64
  fd_fde_frame_table :: frame_slot
  fd_fde_pc_requested :: u64
  fd_have_fde_frame_tab :: bool

definition empty_frame_table :: "frame_slot \<Rightarrow> frame_slot" where
  "empty_frame_table fr =
     (if fs_owns_regtable fr then fr\<lparr>fs_regtable := None, fs_owns_regtable := False\<rparr> else fr)"

definition zero_regtable :: "u64 \<Rightarrow> regtable" where
  "zero_regtable n = \<lparr>rt3_cfa_rule = init_rule 0, rt3_reg_table_size = ucast n,
     rt3_rules = replicate (unat n) (init_rule 0)\<rparr>"

definition initialize_frame_table :: "u64 \<Rightarrow> regtable option \<Rightarrow> frame_slot" where
  "initialize_frame_table table_real_data_size rt =
     (case rt of
        Some r \<Rightarrow> \<lparr>fs_loc = 0, fs_reg_count = table_real_data_size, fs_regtable = Some r,
                   fs_owns_regtable = False\<rparr>
      | None \<Rightarrow> \<lparr>fs_loc = 0, fs_reg_count = table_real_data_size,
                 fs_regtable = Some (zero_regtable table_real_data_size), fs_owns_regtable = True\<rparr>)"

definition empty_fde_table :: "fde \<Rightarrow> fde" where
  "empty_fde_table fde =
     fde\<lparr>fd_fde_frame_table := empty_frame_table (fd_fde_frame_table fde),
         fd_have_fde_frame_tab := False\<rparr>"

section \<open>The row for a pc\<close>

text \<open>The initial row of the CIE, made on first use and kept in the CIE.\<close>

definition cie_instr_end :: "cie \<Rightarrow> ptr" where
  "cie_instr_end cie =
     ci_cie_instr_start cie + unat (ci_length cie) + unat (ci_length_size cie) + unat (ci_extension_size cie) -
     (ci_cie_instr_start cie - ci_cie_start cie)"

definition cie_params :: "dwarf_debug \<Rightarrow> bytes \<Rightarrow> cie \<Rightarrow> u64 \<Rightarrow> 'u xparams" where
  "cie_params dbg buf cie cfa_reg_col_num =
     \<lparr>xp_make_instr = False, xp_search_pc = False, xp_search_pc_val = 0, xp_buf = buf,
      xp_start = ci_cie_instr_start cie, xp_final = cie_instr_end cie, xp_cie = Some cie,
      xp_init = Self_Table, xp_dbg = dbg, xp_reg_num_of_cfa = cfa_reg_col_num, xp_iter = None\<rparr>"

text \<open>\<open>cieframe\<close> with every rule at its initial value, as it is when the CIE's instructions are run.\<close>

definition cie_frame :: "dwarf_debug \<Rightarrow> frame dw" where
  "cie_frame dbg =
     (let n = de_frame_reg_rules_entry_count dbg; v = de_frame_rule_initial_value dbg in
      dw_bind (init_reg_rules_dw3 (rt3_rules (zero_regtable n)) 0 (unat n) v)
        (\<lambda>rs. DW_OK \<lparr>fr_loc = 0, fr_reg_count = n,
                      fr_regtable = (zero_regtable n)\<lparr>rt3_rules := rs, rt3_cfa_rule := init_rule v\<rparr>\<rparr>))"

definition make_initial_table ::
  "dwarf_debug \<Rightarrow> bytes \<Rightarrow> cie \<Rightarrow> u64 \<Rightarrow> bool \<Rightarrow> u64 \<Rightarrow> 'u \<Rightarrow> cie \<times> (bool \<times> u64) dw"
where
  "make_initial_table dbg buf cie cfa_reg_col_num has_more_rows subsequent_pc user =
     (if ci_initial_table cie \<noteq> None then (cie, DW_OK (has_more_rows, subsequent_pc))
      else if cie_instr_end cie > ci_cie_end cie then (cie, DW_ERROR DW_DLE_CIE_INSTR_PTR_ERROR)
      else
        case dw_bind (cie_frame dbg) (\<lambda>cieframe.
          exec_frame_instr (cie_params dbg buf cie cfa_reg_col_num) has_more_rows subsequent_pc 0 cieframe user)
        of
          DW_OK r \<Rightarrow> (cie\<lparr>ci_initial_table := Some (xr_table r)\<rparr>,
                     DW_OK (xr_has_more_rows r, xr_subsequent_pc r))
        | DW_NO_ENTRY \<Rightarrow> (cie, DW_NO_ENTRY)
        | DW_ERROR e \<Rightarrow> (cie, DW_ERROR e)
        | FAULT \<Rightarrow> (cie, FAULT))"

definition fde_instr_end :: "fde \<Rightarrow> ptr" where
  "fde_instr_end fde =
     unat (fd_length fde) + unat (fd_length_size fde) + unat (fd_extension_size fde) + fd_fde_start fde"

definition fde_params ::
  "dwarf_debug \<Rightarrow> bytes \<Rightarrow> fde \<Rightarrow> u64 \<Rightarrow> u64 \<Rightarrow> 'u callback option \<Rightarrow> 'u xparams"
where
  "fde_params dbg buf fde pc_requested cfa_reg_col_num iter =
     \<lparr>xp_make_instr = False, xp_search_pc = True, xp_search_pc_val = pc_requested, xp_buf = buf,
      xp_start = fd_fde_instr_start fde, xp_final = fde_instr_end fde, xp_cie = Some (fd_cie fde),
      xp_init = (case ci_initial_table (fd_cie fde) of Some t \<Rightarrow> Other_Table t | None \<Rightarrow> No_Table),
      xp_dbg = dbg, xp_reg_num_of_cfa = cfa_reg_col_num, xp_iter = iter\<rparr>"

definition pc_outside_fde :: "fde \<Rightarrow> u64 \<Rightarrow> bool" where
  "pc_outside_fde fde pc \<longleftrightarrow>
     pc < fd_initial_location fde \<or> pc \<ge> fd_initial_location fde + fd_address_range fde"

text \<open>
  The table argument of both callers is the FDE's own slot; a slot without a register table
  is dereferenced as a null pointer.
\<close>

definition get_fde_info_for_a_pc_row ::
  "dwarf_debug \<Rightarrow> bytes \<Rightarrow> fde \<Rightarrow> u64 \<Rightarrow> u64 \<Rightarrow> bool \<Rightarrow> u64 \<Rightarrow> 'u callback option \<Rightarrow> 'u \<Rightarrow>
   fde \<times> 'u xresult dw"
where
  "get_fde_info_for_a_pc_row dbg buf fde pc_requested cfa_reg_col_num has_more_rows subsequent_pc iter user =
     (if pc_outside_fde fde pc_requested then (fde, DW_ERROR DW_DLE_PC_NOT_IN_FDE_RANGE)
      else
        case make_initial_table dbg buf (fd_cie fde) cfa_reg_col_num has_more_rows subsequent_pc user of
          (cie, m) \<Rightarrow>
            let fde = fde\<lparr>fd_cie := cie\<rparr> in
            case m of
              DW_OK (has_more_rows, subsequent_pc) \<Rightarrow>
                if fde_instr_end fde > fd_fde_end fde then (fde, DW_ERROR DW_DLE_FDE_INSTR_PTR_ERROR)
                else
                  (case fs_regtable (fd_fde_frame_table fde) of
                     None \<Rightarrow> (fde, FAULT)
                   | Some rt \<Rightarrow>
                       let table = \<lparr>fr_loc = fs_loc (fd_fde_frame_table fde),
                             fr_reg_count = fs_reg_count (fd_fde_frame_table fde), fr_regtable = rt\<rparr> in
                       case exec_frame_instr (fde_params dbg buf fde pc_requested cfa_reg_col_num iter)
                              has_more_rows subsequent_pc (fd_initial_location fde) table user of
                         DW_OK r \<Rightarrow>
                           (fde\<lparr>fd_fde_frame_table := (fd_fde_frame_table fde)\<lparr>
                              fs_loc := fr_loc (xr_table r), fs_regtable := Some (fr_regtable (xr_table r))\<rparr>\<rparr>,
                            DW_OK r)
                       | DW_NO_ENTRY \<Rightarrow> (fde, DW_NO_ENTRY)
                       | DW_ERROR e \<Rightarrow> (fde, DW_ERROR e)
                       | FAULT \<Rightarrow> (fde, FAULT))
            | DW_NO_ENTRY \<Rightarrow> (fde, DW_NO_ENTRY)
            | DW_ERROR e \<Rightarrow> (fde, DW_ERROR e)
            | FAULT \<Rightarrow> (fde, FAULT))"

text \<open>
  \<open>dwarf_get_fde_info_for_all_regs3_b\<close>: the result is the caller's table, the pc of the row, and
  the two optional outputs.
\<close>

definition get_fde_info_for_all_regs3_b ::
  "dwarf_debug \<Rightarrow> bytes \<Rightarrow> fde \<Rightarrow> u64 \<Rightarrow> regtable \<Rightarrow> bool \<Rightarrow> u64 \<Rightarrow>
   dwarf_debug \<times> fde \<times> (regtable \<times> u64 \<times> bool \<times> u64) dw"
where
  "get_fde_info_for_all_regs3_b dbg buf fde pc_requested reg_table has_more_rows subsequent_pc =
     (let output_table_real_data_size = ucast (rt3_reg_table_size reg_table) :: u64;
          output_table_real_data_size =
            min output_table_real_data_size (de_frame_reg_rules_entry_count dbg)
      in case validate_register_numbers dbg of
        (dbg, DW_OK _) \<Rightarrow>
          let fde = fde\<lparr>fd_fde_frame_table :=
                initialize_frame_table output_table_real_data_size (Some reg_table)\<rparr> in
          (case get_fde_info_for_a_pc_row dbg buf fde pc_requested (de_frame_cfa_col_number dbg)
                  has_more_rows subsequent_pc None () of
             (fde, DW_OK r) \<Rightarrow>
               (dbg, fde\<lparr>fd_fde_frame_table := empty_frame_table (fd_fde_frame_table fde)\<rparr>,
                DW_OK (fr_regtable (xr_table r), fr_loc (xr_table r), xr_has_more_rows r, xr_subsequent_pc r))
           | (fde, DW_NO_ENTRY) \<Rightarrow> (dbg, empty_fde_table fde, DW_NO_ENTRY)
           | (fde, DW_ERROR e) \<Rightarrow> (dbg, empty_fde_table fde, DW_ERROR e)
           | (fde, FAULT) \<Rightarrow> (dbg, fde, FAULT))
      | (dbg, DW_NO_ENTRY) \<Rightarrow> (dbg, fde, DW_NO_ENTRY)
      | (dbg, DW_ERROR e) \<Rightarrow> (dbg, fde, DW_ERROR e)
      | (dbg, FAULT) \<Rightarrow> (dbg, fde, FAULT))"

definition get_fde_info_for_all_regs3 ::
  "dwarf_debug \<Rightarrow> bytes \<Rightarrow> fde \<Rightarrow> u64 \<Rightarrow> regtable \<Rightarrow> dwarf_debug \<times> fde \<times> (regtable \<times> u64) dw"
where
  "get_fde_info_for_all_regs3 dbg buf fde pc_requested reg_table =
     (case get_fde_info_for_all_regs3_b dbg buf fde pc_requested reg_table False 0 of
        (dbg, fde, res) \<Rightarrow> (dbg, fde, dw_bind res (\<lambda>(rt, pc, _, _). DW_OK (rt, pc))))"

text \<open>What \<open>dwarf_get_fde_info_for_reg3_c\<close> stores about one column.\<close>

record column =
  col_value_type :: u8
  col_offset_relevant :: u64
  col_register_num :: u64
  col_offset :: s64
  col_block :: block
  col_row_pc :: u64
  col_has_more_rows :: bool
  col_subsequent_pc :: u64

definition column_of_rule :: "reg_rule \<Rightarrow> 'u xresult \<Rightarrow> column" where
  "column_of_rule rule r =
     \<lparr>col_value_type = dw_value_type rule, col_offset_relevant = ucast (dw_offset_relevant rule),
      col_register_num = ucast (dw_regnum rule), col_offset = dw_offset rule, col_block = dw_block rule,
      col_row_pc = fr_loc (xr_table r), col_has_more_rows = xr_has_more_rows r,
      col_subsequent_pc = xr_subsequent_pc r\<rparr>"

definition prepare_fde_table :: "dwarf_debug \<Rightarrow> fde \<Rightarrow> u64 \<Rightarrow> fde" where
  "prepare_fde_table dbg fde pc_requested =
     (if \<not> fd_have_fde_frame_tab fde \<or> fd_fde_pc_requested fde \<noteq> pc_requested then
        let fde = (if fd_have_fde_frame_tab fde then empty_fde_table fde else fde) in
        fde\<lparr>fd_fde_frame_table := initialize_frame_table (de_frame_reg_rules_entry_count dbg) None\<rparr>
      else fde)"

definition get_fde_info_for_reg3_c ::
  "dwarf_debug \<Rightarrow> bytes \<Rightarrow> fde \<Rightarrow> u16 \<Rightarrow> u64 \<Rightarrow> bool \<Rightarrow> u64 \<Rightarrow> dwarf_debug \<times> fde \<times> column dw"
where
  "get_fde_info_for_reg3_c dbg buf fde table_column pc_requested has_more_rows subsequent_pc =
     (case validate_register_numbers dbg of
        (dbg, DW_OK _) \<Rightarrow>
          let col_is_cfa = (ucast table_column = de_frame_cfa_col_number dbg) in
          if \<not> col_is_cfa \<and> ucast table_column \<ge> de_frame_reg_rules_entry_count dbg
          then (dbg, fde, DW_ERROR DW_DLE_FRAME_TABLE_COL_BAD)
          else
            let fde = prepare_fde_table dbg fde pc_requested in
            (case get_fde_info_for_a_pc_row dbg buf fde pc_requested (de_frame_cfa_col_number dbg)
                    has_more_rows subsequent_pc None () of
               (fde, DW_OK r) \<Rightarrow>
                 let rt = fr_regtable (xr_table r);
                     found = fde\<lparr>fd_have_fde_frame_tab := True, fd_fde_pc_requested := pc_requested\<rparr> in
                 if col_is_cfa then (dbg, found, DW_OK (column_of_rule (rt3_cfa_rule rt) r))
                 else if unat table_column < length (rt3_rules rt)
                 then (dbg, found, DW_OK (column_of_rule (rt3_rules rt ! unat table_column) r))
                 else (dbg, fde, FAULT)
             | (fde, DW_NO_ENTRY) \<Rightarrow> (dbg, empty_fde_table fde, DW_NO_ENTRY)
             | (fde, DW_ERROR e) \<Rightarrow> (dbg, empty_fde_table fde, DW_ERROR e)
             | (fde, FAULT) \<Rightarrow> (dbg, fde, FAULT))
      | (dbg, DW_NO_ENTRY) \<Rightarrow> (dbg, fde, DW_NO_ENTRY)
      | (dbg, DW_ERROR e) \<Rightarrow> (dbg, fde, DW_ERROR e)
      | (dbg, FAULT) \<Rightarrow> (dbg, fde, FAULT))"

definition get_fde_info_for_cfa_reg3_c ::
  "dwarf_debug \<Rightarrow> bytes \<Rightarrow> fde \<Rightarrow> u64 \<Rightarrow> bool \<Rightarrow> u64 \<Rightarrow> dwarf_debug \<times> fde \<times> column dw"
where
  "get_fde_info_for_cfa_reg3_c dbg buf fde pc_requested has_more_rows subsequent_pc =
     get_fde_info_for_reg3_c dbg buf fde (ucast (de_frame_cfa_col_number dbg)) pc_requested
       has_more_rows subsequent_pc"

section \<open>Iterating over the rows\<close>

text \<open>
  \<open>dwarf_iterate_fde_all_regs3\<close>; \<open>None\<close> stands for a null table or callback. The user data comes back
  with the result.
\<close>

definition iterate_fde_all_regs3 ::
  "dwarf_debug \<Rightarrow> bytes \<Rightarrow> fde \<Rightarrow> regtable option \<Rightarrow> 'u callback option \<Rightarrow> 'u \<Rightarrow> dwarf_debug \<times> fde \<times> 'u dw"
where
  "iterate_fde_all_regs3 dbg buf fde regtab3 cb user =
     (case validate_register_numbers dbg of
        (dbg, DW_OK _) \<Rightarrow>
          (case (regtab3, cb) of
             (Some rt, Some f) \<Rightarrow>
               let lowpc = fd_initial_location fde;
                   fde = fde\<lparr>fd_fde_frame_table :=
                     initialize_frame_table (ucast (rt3_reg_table_size rt)) (Some rt)\<rparr> in
               (case get_fde_info_for_a_pc_row dbg buf fde lowpc (de_frame_cfa_col_number dbg)
                       False 0 (Some f) user of
                  (fde, res) \<Rightarrow>
                    (dbg, fde\<lparr>fd_fde_frame_table := empty_frame_table (fd_fde_frame_table fde)\<rparr>,
                     dw_bind res (\<lambda>r. DW_OK (xr_user r))))
           | _ \<Rightarrow> (dbg, fde, DW_ERROR DW_DLE_DEBUGFRAME_ERROR))
      | (dbg, DW_NO_ENTRY) \<Rightarrow> (dbg, fde, DW_NO_ENTRY)
      | (dbg, DW_ERROR e) \<Rightarrow> (dbg, fde, DW_ERROR e)
      | (dbg, FAULT) \<Rightarrow> (dbg, fde, FAULT))"

section \<open>Finding the FDE of a pc\<close>

text \<open>The array the caller passes; its length in use is a field of the debug object.\<close>

definition fde_count :: "dwarf_debug \<Rightarrow> fde list \<Rightarrow> nat" where
  "fde_count dbg fde_data = (if fd_is_eh (fde_data ! 0) then de_fde_count_eh dbg else de_fde_count dbg)"

definition get_fde_n :: "dwarf_debug \<Rightarrow> fde list \<Rightarrow> u64 \<Rightarrow> fde dw" where
  "get_fde_n dbg fde_data fde_index =
     (if fde_data = [] then FAULT
      else if unat fde_index \<ge> fde_count dbg fde_data then DW_NO_ENTRY
      else if unat fde_index < length fde_data then DW_OK (fde_data ! unat fde_index)
      else FAULT)"

function fde_search :: "fde list \<Rightarrow> u64 \<Rightarrow> int \<Rightarrow> int \<Rightarrow> fde dw" where
  "fde_search fde_data pc low high =
     (if low \<le> high then
        let middle = (low + high) div 2 in
        if middle < 0 \<or> nat middle \<ge> length fde_data then FAULT
        else
          let cur_fde = fde_data ! nat middle in
          if pc < fd_initial_location cur_fde then fde_search fde_data pc low (middle - 1)
          else if pc \<ge> fd_initial_location cur_fde + fd_address_range cur_fde
          then fde_search fde_data pc (middle + 1) high
          else DW_OK cur_fde
      else DW_NO_ENTRY)"
  by pat_completeness auto
termination
  by (relation "measure (\<lambda>(d, pc, low, high). nat (high - low + 1))") auto

declare fde_search.simps [simp del]

definition get_fde_at_pc :: "dwarf_debug \<Rightarrow> fde list \<Rightarrow> u64 \<Rightarrow> (fde \<times> u64 \<times> u64) dw" where
  "get_fde_at_pc dbg fde_data pc_of_interest =
     (if fde_data = [] then FAULT
      else dw_bind (fde_search fde_data pc_of_interest 0 (int (fde_count dbg fde_data) - 1))
        (\<lambda>fde. DW_OK (fde, fd_initial_location fde, fd_initial_location fde + fd_address_range fde - 1)))"

section \<open>Expansion and access to fields\<close>

text \<open>\<open>dwarf_expand_frame_instructions\<close> of a CIE in the same section; \<open>instruction\<close> is a pointer into it.\<close>

definition expand_params :: "dwarf_debug \<Rightarrow> bytes \<Rightarrow> cie \<Rightarrow> ptr \<Rightarrow> ptr \<Rightarrow> unit xparams" where
  "expand_params dbg buf cie instr_start instr_end =
     \<lparr>xp_make_instr = True, xp_search_pc = False, xp_search_pc_val = 0, xp_buf = buf,
      xp_start = instr_start, xp_final = instr_end, xp_cie = Some cie,
      xp_init = (case ci_initial_table cie of Some t \<Rightarrow> Other_Table t | None \<Rightarrow> No_Table),
      xp_dbg = dbg, xp_reg_num_of_cfa = de_frame_cfa_col_number dbg, xp_iter = None\<rparr>"

definition expand_frame_instructions ::
  "dwarf_debug \<Rightarrow> bytes \<Rightarrow> cie \<Rightarrow> ptr \<Rightarrow> u64 \<Rightarrow> frame_instr list dw"
where
  "expand_frame_instructions dbg buf cie instruction i_length =
     (let instr_start = instruction; instr_end = instruction + unat i_length in
      if instr_end < instr_start then DW_ERROR DW_DLE_FDE_INSTR_PTR_ERROR
      else
        let n = de_frame_reg_rules_entry_count dbg;
            cieframe = \<lparr>fr_loc = 0, fr_reg_count = n, fr_regtable = zero_regtable n\<rparr> in
        dw_bind (exec_frame_instr (expand_params dbg buf cie instr_start instr_end) False 0 0 cieframe ())
          (\<lambda>r. DW_OK (xr_instrs r)))"

definition get_frame_instruction_a :: "frame_instr list option \<Rightarrow> u64 \<Rightarrow> frame_instr dw" where
  "get_frame_instruction_a head instr_index =
     (case head of
        None \<Rightarrow> DW_ERROR DW_DLE_CFA_INSTRUCTION_ERROR
      | Some fh_array \<Rightarrow>
          if unat instr_index \<ge> length fh_array then DW_NO_ENTRY
          else DW_OK (fh_array ! unat instr_index))"

definition get_return_address_reg :: "bytes \<Rightarrow> ptr \<Rightarrow> int \<Rightarrow> ptr \<Rightarrow> (u64 \<times> nat) dw" where
  "get_return_address_reg buf frame_ptr version section_end =
     (if version = 1 then
        if frame_ptr \<ge> section_end then DW_ERROR DW_DLE_DF_FRAME_DECODING_ERROR
        else dw_bind (rd8 buf frame_ptr) (\<lambda>b. DW_OK (ucast b, 1))
      else dw_bind (decode_leb128_uword_len_ck buf frame_ptr section_end)
        (\<lambda>((uvalue, leb128_length), _). DW_OK (uvalue, leb128_length)))"

record cie_info =
  ci_bytes_in_cie :: u64
  ci_ptr_to_version :: u8
  ci_augmenter :: "bytes option"
  ci_code_factor :: u64
  ci_data_factor :: s64
  ci_return_reg :: u16
  ci_initial_instructions :: ptr
  ci_initial_instructions_length :: u64
  ci_offset_size :: u16

definition get_cie_info_b :: "cie \<Rightarrow> cie_info" where
  "get_cie_info_b cie =
     \<lparr>ci_bytes_in_cie = ci_length cie, ci_ptr_to_version = ucast (ci_cie_version_number cie),
      ci_augmenter = ci_augmentation cie, ci_code_factor = ci_code_alignment_factor cie,
      ci_data_factor = ci_data_alignment_factor cie,
      ci_return_reg = ucast (ci_return_address_register cie),
      ci_initial_instructions = ci_cie_instr_start cie,
      ci_initial_instructions_length =
        ci_length cie + ucast (ci_length_size cie) + ucast (ci_extension_size cie) -
        word_of_int (int (ci_cie_instr_start cie) - int (ci_cie_start cie)),
      ci_offset_size = ci_length_size cie\<rparr>"

definition get_fde_instr_bytes :: "fde \<Rightarrow> ptr \<times> u64" where
  "get_fde_instr_bytes fde =
     (fd_fde_instr_start fde, word_of_int (int (fd_fde_end fde) - int (fd_fde_instr_start fde)))"

record fde_range =
  fr_low_pc :: u64
  fr_func_length :: u64
  fr_fde_bytes :: ptr
  fr_fde_byte_length :: u64
  fr_cie_offset :: u64
  fr_cie_index :: u64
  fr_fde_offset :: int

definition get_fde_range :: "fde \<Rightarrow> fde_range" where
  "get_fde_range fde =
     \<lparr>fr_low_pc = fd_initial_location fde, fr_func_length = fd_address_range fde,
      fr_fde_bytes = fd_fde_start fde, fr_fde_byte_length = fd_length fde,
      fr_cie_offset = fd_cie_offset fde, fr_cie_index = fd_cie_index fde,
      fr_fde_offset = int (fd_fde_start fde) - int (fd_section_ptr fde)\<rparr>"

definition fde_section_offset :: "fde \<Rightarrow> int \<times> u64" where
  "fde_section_offset fde = (int (fd_fde_start fde) - int (fd_section_ptr fde), fd_cie_offset fde)"

definition cie_section_offset :: "cie \<Rightarrow> int" where
  "cie_section_offset cie = int (ci_cie_start cie) - int (ci_section_ptr cie)"

definition get_cie_augmentation_data :: "cie \<Rightarrow> (ptr \<times> u64) dw" where
  "get_cie_augmentation_data cie =
     (if ci_gnu_eh_augmentation_len cie = 0 then DW_NO_ENTRY
      else DW_OK (ci_gnu_eh_augmentation_bytes cie, ci_gnu_eh_augmentation_len cie))"

definition get_fde_augmentation_data :: "fde \<Rightarrow> (ptr \<times> u64) dw" where
  "get_fde_augmentation_data fde =
     (if \<not> fd_gnu_eh_aug_present fde then DW_NO_ENTRY
      else DW_OK (fd_gnu_eh_augmentation_bytes fde, fd_gnu_eh_augmentation_len fde))"

definition get_fde_exception_info :: "fde \<Rightarrow> s64" where
  "get_fde_exception_info fde = fd_offset_into_exception_tables fde"

section \<open>The tables keep their size\<close>

lemma exec_frame_instr_length:
  assumes "exec_frame_instr p h s loc table user = DW_OK r"
  shows "length (rt3_rules (fr_regtable (xr_table r))) = length (rt3_rules (fr_regtable table))"
proof -
  obtain t st where st: "preload p table = DW_OK t" "exec_loop p (init_state p loc t user) = DW_OK st"
    "exec_finish p h s st = DW_OK r" using exec_frame_instr_cases [OF assms] .
  let ?P = "\<lambda>x. length (xs_rules x) = length (rt3_rules (fr_regtable table))"
  have "?P (init_state p loc t user)"
    using spec_result [OF preload_spec st(1)] by (simp add: init_state_def)
  moreover have "?P b" if "?P a" "exec_step p a = DW_OK b" for a b
    using that(2) by (rule exec_step_cases) (use that(1) in simp)
  ultimately have "?P st" using exec_loop_inv [where P = ?P, OF _ _ st(2)] by blast
  then show ?thesis using st(3)
    by (auto simp: exec_finish_def Let_def dw_simps split: option.splits if_splits)
qed

section \<open>Frame queries do not fault\<close>

text \<open>
  \<open>fde_ok n\<close>: the instructions of the CIE and the FDE lie in the section, an address fits a local, and the tables
  they remember have at least \<open>n\<close> rules.
\<close>

definition fde_ok :: "nat \<Rightarrow> bytes \<Rightarrow> fde \<Rightarrow> bool" where
  "fde_ok n buf fde \<longleftrightarrow> fd_fde_end fde \<le> length buf \<and> ci_cie_end (fd_cie fde) \<le> length buf \<and>
     unat (ci_address_size (fd_cie fde)) \<le> 8 \<and>
     (case ci_initial_table (fd_cie fde) of Some t \<Rightarrow> n \<le> length (rt3_rules (fr_regtable t)) | None \<Rightarrow> True) \<and>
     (fd_have_fde_frame_tab fde \<longrightarrow>
       (case fs_regtable (fd_fde_frame_table fde) of Some t \<Rightarrow> n \<le> length (rt3_rules t) | None \<Rightarrow> False))"

lemma length_zero_regtable [simp]: "length (rt3_rules (zero_regtable n)) = unat n"
  by (simp add: zero_regtable_def)

lemma cie_frame_OK:
  "\<exists>rs. cie_frame dbg = DW_OK \<lparr>fr_loc = 0, fr_reg_count = de_frame_reg_rules_entry_count dbg,
     fr_regtable = (zero_regtable (de_frame_reg_rules_entry_count dbg))\<lparr>rt3_rules := rs,
       rt3_cfa_rule := init_rule (de_frame_rule_initial_value dbg)\<rparr>\<rparr> \<and>
     length rs = unat (de_frame_reg_rules_entry_count dbg)"
  by (rule exI [of _ "replicate (unat (de_frame_reg_rules_entry_count dbg))
        (init_rule (de_frame_rule_initial_value dbg))"])
    (simp add: cie_frame_def Let_def init_reg_rules_dw3_eq)

lemma make_initial_table_ok:
  assumes "ci_cie_end cie \<le> length buf" "unat (ci_address_size cie) \<le> 8"
    and "\<And>t. ci_initial_table cie = Some t \<Longrightarrow>
      unat (de_frame_reg_rules_entry_count dbg) \<le> length (rt3_rules (fr_regtable t))"
    and "make_initial_table dbg buf cie col h s u = (cie', m)"
  shows "m \<noteq> FAULT \<and> ci_cie_end cie' = ci_cie_end cie \<and> ci_address_size cie' = ci_address_size cie \<and>
    (\<forall>t. ci_initial_table cie' = Some t \<longrightarrow>
      unat (de_frame_reg_rules_entry_count dbg) \<le> length (rt3_rules (fr_regtable t)))"
proof (cases "ci_initial_table cie")
  case (Some t)
  then have "cie' = cie" "m = DW_OK (h, s)"
    using assms(4) by (simp_all add: make_initial_table_def)
  then show ?thesis using assms(3) by simp
next
  case None
  show ?thesis
  proof (cases "cie_instr_end cie > ci_cie_end cie")
    case True
    then have "cie' = cie" "m = DW_ERROR DW_DLE_CIE_INSTR_PTR_ERROR"
      using assms(4) None by (simp_all add: make_initial_table_def)
    then show ?thesis using None by simp
  next
    case False
    let ?p = "cie_params dbg buf cie col"
    obtain f where f: "cie_frame dbg = DW_OK f"
      "length (rt3_rules (fr_regtable f)) = unat (de_frame_reg_rules_entry_count dbg)"
      using cie_frame_OK [of dbg] by auto
    have nf: "exec_frame_instr ?p h s 0 f u \<noteq> FAULT"
      by (rule exec_frame_instr_no_fault)
        (use assms(1,2) False f(2) in
          \<open>simp add: tables_ok_def cie_params_def reg_count_def address_size_def\<close>)
    show ?thesis
    proof (cases "exec_frame_instr ?p h s 0 f u")
      case (DW_OK r)
      then have "length (rt3_rules (fr_regtable (xr_table r))) = unat (de_frame_reg_rules_entry_count dbg)"
        using exec_frame_instr_length f(2) by metis
      moreover have "cie' = cie\<lparr>ci_initial_table := Some (xr_table r)\<rparr>"
        "m = DW_OK (xr_has_more_rows r, xr_subsequent_pc r)"
        using assms(4) None False f(1) DW_OK by (simp_all add: make_initial_table_def)
      ultimately show ?thesis by simp
    qed (use assms(4) None False f(1) nf in \<open>auto simp: make_initial_table_def\<close>)
  qed
qed

lemma get_fde_info_for_a_pc_row_ok:
  assumes "fde_ok (unat (de_frame_reg_rules_entry_count dbg)) buf fde"
    and "fs_regtable (fd_fde_frame_table fde) = Some rt"
      "unat (de_frame_reg_rules_entry_count dbg) \<le> length (rt3_rules rt)"
    and "get_fde_info_for_a_pc_row dbg buf fde pc col h s iter u = (fde', m)"
  shows "m \<noteq> FAULT \<and> fde_ok (unat (de_frame_reg_rules_entry_count dbg)) buf fde' \<and>
    (\<forall>r. m = DW_OK r \<longrightarrow> fs_regtable (fd_fde_frame_table fde') = Some (fr_regtable (xr_table r)) \<and>
       length (rt3_rules (fr_regtable (xr_table r))) = length (rt3_rules rt))"
proof (cases "pc_outside_fde fde pc")
  case True
  then show ?thesis using assms(1,4) by (auto simp: get_fde_info_for_a_pc_row_def)
next
  case False
  let ?n = "unat (de_frame_reg_rules_entry_count dbg)"
  obtain cie' mi where mi: "make_initial_table dbg buf (fd_cie fde) col h s u = (cie', mi)"
    by fastforce
  have t: "\<And>t. ci_initial_table (fd_cie fde) = Some t \<Longrightarrow> ?n \<le> length (rt3_rules (fr_regtable t))"
    using assms(1) by (simp add: fde_ok_def)
  have c: "ci_cie_end (fd_cie fde) \<le> length buf" "unat (ci_address_size (fd_cie fde)) \<le> 8"
    using assms(1) by (simp_all add: fde_ok_def)
  note ok = make_initial_table_ok [OF c t mi]
  let ?fde = "fde\<lparr>fd_cie := cie'\<rparr>"
  have fok: "fde_ok ?n buf ?fde"
    using assms(1) ok by (simp add: fde_ok_def split: option.splits)
  show ?thesis
  proof (cases mi)
    case (DW_OK x)
    obtain h1 s1 where x: "x = (h1, s1)" by (cases x)
    show ?thesis
    proof (cases "fde_instr_end ?fde > fd_fde_end ?fde")
      case True
      then show ?thesis using assms(4) False mi DW_OK x fok
        by (auto simp: get_fde_info_for_a_pc_row_def Let_def)
    next
      case inside: False
      let ?p = "fde_params dbg buf ?fde pc col iter"
      let ?tab = "\<lparr>fr_loc = fs_loc (fd_fde_frame_table ?fde),
        fr_reg_count = fs_reg_count (fd_fde_frame_table ?fde), fr_regtable = rt\<rparr>"
      have nf: "exec_frame_instr ?p h1 s1 (fd_initial_location ?fde) ?tab u \<noteq> FAULT"
        by (rule exec_frame_instr_no_fault)
          (use fok inside assms(3) in \<open>auto simp: tables_ok_def fde_params_def reg_count_def
            address_size_def fde_ok_def split: option.splits\<close>)
      have ln: "length (rt3_rules (fr_regtable (xr_table r))) = length (rt3_rules rt)"
        if "exec_frame_instr ?p h1 s1 (fd_initial_location ?fde) ?tab u = DW_OK r" for r
        using exec_frame_instr_length [OF that] by simp
      have up: "fde_ok ?n buf (?fde\<lparr>fd_fde_frame_table := (fd_fde_frame_table ?fde)\<lparr>fs_loc := l,
          fs_regtable := Some k\<rparr>\<rparr>)" if "?n \<le> length (rt3_rules k)" for l k
        using fok that by (simp add: fde_ok_def)
      show ?thesis
        using assms(2,3,4) False mi DW_OK x inside fok nf ln up
        by (cases "exec_frame_instr ?p h1 s1 (fd_initial_location ?fde) ?tab u")
          (auto simp: get_fde_info_for_a_pc_row_def Let_def)
    qed
  qed (use assms(4) False mi fok ok in \<open>auto simp: get_fde_info_for_a_pc_row_def Let_def\<close>)
qed


lemma a_pc_row_found:
  assumes "get_fde_info_for_a_pc_row dbg buf fde pc col h s None u = (fde', DW_OK r)"
  shows "fr_loc (xr_table r) \<le> pc \<and>
    (if xr_has_more_rows r then pc < xr_subsequent_pc r else xr_subsequent_pc r = 0) \<and>
    \<not> pc_outside_fde fde pc"
proof -
  have out: "\<not> pc_outside_fde fde pc"
    using assms by (auto simp: get_fde_info_for_a_pc_row_def)
  obtain cie h1 s1 tab where e: "exec_frame_instr (fde_params dbg buf (fde\<lparr>fd_cie := cie\<rparr>) pc col None) h1 s1
      (fd_initial_location fde) tab u = DW_OK r"
    using assms out
    by (auto simp: get_fde_info_for_a_pc_row_def Let_def split: prod.splits dw.splits if_splits option.splits)
  have "fd_initial_location fde \<le> pc" using out by (simp add: pc_outside_fde_def not_less)
  then show ?thesis
    using exec_frame_instr_search [OF e] out by (auto simp: fde_params_def)
qed

lemma validate_dbg:
  "validate_register_numbers dbg = (dbg', m) \<Longrightarrow>
   de_frame_reg_rules_entry_count dbg' = de_frame_reg_rules_entry_count dbg \<and> m \<noteq> FAULT"
  by (auto simp: validate_register_numbers_def split: if_splits)

lemma prepare_fde_table_ok:
  assumes "fde_ok (unat (de_frame_reg_rules_entry_count dbg)) buf fde"
  shows "fde_ok (unat (de_frame_reg_rules_entry_count dbg)) buf (prepare_fde_table dbg fde pc) \<and>
    (\<exists>rt. fs_regtable (fd_fde_frame_table (prepare_fde_table dbg fde pc)) = Some rt \<and>
      unat (de_frame_reg_rules_entry_count dbg) \<le> length (rt3_rules rt))"
  using assms
  by (auto simp: prepare_fde_table_def Let_def fde_ok_def initialize_frame_table_def
      empty_fde_table_def empty_frame_table_def split: option.splits)

lemma empty_fde_table_ok: "fde_ok n buf fde \<Longrightarrow> fde_ok n buf (empty_fde_table fde)"
  by (simp add: fde_ok_def empty_fde_table_def)

lemma reg3_c_ok:
  assumes "fde_ok (unat (de_frame_reg_rules_entry_count dbg)) buf fde"
    and "get_fde_info_for_reg3_c dbg buf fde column pc h s = (dbg', fde', m)"
  shows "m \<noteq> FAULT \<and> fde_ok (unat (de_frame_reg_rules_entry_count dbg)) buf fde' \<and>
    de_frame_reg_rules_entry_count dbg' = de_frame_reg_rules_entry_count dbg"
proof -
  obtain dbg1 v where v: "validate_register_numbers dbg = (dbg1, v)" by fastforce
  note c = validate_dbg [OF v]
  show ?thesis
  proof (cases v)
    case (DW_OK x)
    let ?cfa = "ucast column = de_frame_cfa_col_number dbg1"
    let ?n = "unat (de_frame_reg_rules_entry_count dbg1)"
    let ?f = "prepare_fde_table dbg1 fde pc"
    have ok: "fde_ok ?n buf fde" using assms(1) c by simp
    obtain f1 m1 where f1: "get_fde_info_for_a_pc_row dbg1 buf ?f pc (de_frame_cfa_col_number dbg1) h s None ()
        = (f1, m1)" by fastforce
    from prepare_fde_table_ok [OF ok, of pc] obtain rt where rt: "fde_ok ?n buf ?f"
      "fs_regtable (fd_fde_frame_table ?f) = Some rt" "?n \<le> length (rt3_rules rt)" by auto
    note g = get_fde_info_for_a_pc_row_ok [OF rt f1]
    show ?thesis
    proof (cases "\<not> ?cfa \<and> ucast column \<ge> de_frame_reg_rules_entry_count dbg1")
      case True
      then show ?thesis using assms c v DW_OK by (auto simp: get_fde_info_for_reg3_c_def Let_def)
    next
      case False
      then have col: "\<not> ?cfa \<Longrightarrow> unat column < ?n"
        by (simp add: word_le_nat_alt not_le)
      show ?thesis
      proof (cases m1)
        case r: (DW_OK r)
        have "\<not> ?cfa \<Longrightarrow> unat column < length (rt3_rules (fr_regtable (xr_table r)))"
          using col g r rt(3) by fastforce
        moreover have "fde_ok ?n buf (f1\<lparr>fd_have_fde_frame_tab := True, fd_fde_pc_requested := pc\<rparr>)"
          using g r rt(3) by (simp add: fde_ok_def)
        ultimately show ?thesis using assms(2) v DW_OK False f1 r c
          by (auto simp: get_fde_info_for_reg3_c_def Let_def split: if_splits)
      qed (use assms(2) v DW_OK False f1 c g empty_fde_table_ok in
          \<open>auto simp: get_fde_info_for_reg3_c_def Let_def\<close>)
    qed
  qed (use assms v c in \<open>auto simp: get_fde_info_for_reg3_c_def\<close>)
qed

lemma all_regs3_b_ok:
  assumes "fde_ok (unat (de_frame_reg_rules_entry_count dbg)) buf fde"
    and "unat (de_frame_reg_rules_entry_count dbg) \<le> length (rt3_rules rt)"
    and "get_fde_info_for_all_regs3_b dbg buf fde pc rt h s = (dbg', fde', m)"
  shows "m \<noteq> FAULT"
proof -
  obtain dbg1 v where v: "validate_register_numbers dbg = (dbg1, v)" by fastforce
  note c = validate_dbg [OF v]
  let ?size = "min (ucast (rt3_reg_table_size rt)) (de_frame_reg_rules_entry_count dbg)"
  let ?f = "fde\<lparr>fd_fde_frame_table := initialize_frame_table ?size (Some rt)\<rparr>"
  let ?n = "unat (de_frame_reg_rules_entry_count dbg1)"
  obtain f1 m1 where f1: "get_fde_info_for_a_pc_row dbg1 buf ?f pc (de_frame_cfa_col_number dbg1) h s None ()
      = (f1, m1)" by fastforce
  have f: "fde_ok ?n buf ?f" "fs_regtable (fd_fde_frame_table ?f) = Some rt" "?n \<le> length (rt3_rules rt)"
    using assms(1,2) c by (simp_all add: fde_ok_def initialize_frame_table_def)
  note g = get_fde_info_for_a_pc_row_ok [OF f f1]
  show ?thesis using assms(3) v f1 g c
    by (cases v; cases m1) (auto simp: get_fde_info_for_all_regs3_b_def Let_def)
qed


section \<open>The search for the FDE of a pc\<close>

definition covers :: "fde \<Rightarrow> u64 \<Rightarrow> bool" where
  "covers f pc \<longleftrightarrow> unat (fd_initial_location f) \<le> unat pc \<and>
     unat pc < unat (fd_initial_location f) + unat (fd_address_range f)"

text \<open>The array of FDEs is in the order of addresses, the ranges do not overlap or wrap around.\<close>

definition fdes_sorted :: "nat \<Rightarrow> fde list \<Rightarrow> bool" where
  "fdes_sorted n d \<longleftrightarrow> n \<le> length d \<and>
     (\<forall>i < n. unat (fd_initial_location (d ! i)) + unat (fd_address_range (d ! i)) < 2 ^ 64) \<and>
     (\<forall>j < n. \<forall>i < j. unat (fd_initial_location (d ! i)) + unat (fd_address_range (d ! i)) \<le>
        unat (fd_initial_location (d ! j)))"

lemma fde_end:
  assumes "fdes_sorted n d" "i < n"
  shows "unat (fd_initial_location (d ! i) + fd_address_range (d ! i)) =
    unat (fd_initial_location (d ! i)) + unat (fd_address_range (d ! i))"
  using assms by (simp add: fdes_sorted_def unat_word_ariths)

lemma covers_unique:
  assumes "fdes_sorted n d" "i < n" "j < n" "covers (d ! i) pc" "covers (d ! j) pc"
  shows "i = j"
proof (rule ccontr)
  assume "i \<noteq> j"
  then consider "i < j" | "j < i" by linarith
  then show False using assms
    by cases (fastforce simp: fdes_sorted_def covers_def)+
qed

lemma fde_search_eq:
  assumes "fdes_sorted n d" "0 \<le> low" "high < int n"
    and "\<And>i. i < n \<Longrightarrow> covers (d ! i) pc \<Longrightarrow> low \<le> int i \<and> int i \<le> high"
  shows "(\<forall>i < n. covers (d ! i) pc \<longrightarrow> fde_search d pc low high = DW_OK (d ! i)) \<and>
    ((\<forall>i < n. \<not> covers (d ! i) pc) \<longrightarrow> fde_search d pc low high = DW_NO_ENTRY)"
  using assms
proof (induction d pc low high rule: fde_search.induct)
  case (1 d pc low high)
  show ?case
  proof (cases "low \<le> high")
    case False
    then have "fde_search d pc low high = DW_NO_ENTRY" by (simp add: fde_search.simps)
    then show ?thesis using 1(6) False by force
  next
    case True
    define m where "m = nat ((low + high) div 2)"
    have m: "(low + high) div 2 = int m" "low \<le> int m" "int m \<le> high" "m < n" "m < length d"
      using True "1.prems" by (auto simp: m_def fdes_sorted_def)
    let ?f = "d ! m"
    have e: "unat (fd_initial_location ?f + fd_address_range ?f) =
        unat (fd_initial_location ?f) + unat (fd_address_range ?f)"
      by (rule fde_end [OF "1.prems"(1) m(4)])
    have o: "unat (fd_initial_location (d ! i)) + unat (fd_address_range (d ! i)) \<le>
        unat (fd_initial_location (d ! j))" if "i < j" "j < n" for i j
      using "1.prems"(1) that by (simp add: fdes_sorted_def)
    have step: "fde_search d pc low high =
        (if pc < fd_initial_location ?f then fde_search d pc low (int m - 1)
         else if pc \<ge> fd_initial_location ?f + fd_address_range ?f then fde_search d pc (int m + 1) high
         else DW_OK ?f)"
      using True m by (subst fde_search.simps) simp
    show ?thesis
    proof (cases "pc < fd_initial_location ?f")
      case less: True
      have "low \<le> int i \<and> int i \<le> int m - 1" if i: "i < n" "covers (d ! i) pc" for i
      proof -
        have "\<not> m \<le> i"
        proof
          assume "m \<le> i"
          then have "unat (fd_initial_location ?f) \<le> unat (fd_initial_location (d ! i))"
            using o [of m i] i(1) by (cases "m = i") auto
          then show False using less i(2) by (simp add: covers_def word_less_nat_alt)
        qed
        then show ?thesis using "1.prems"(4) [OF i] by simp
      qed
      moreover have "int m - 1 < int n" using m(4) by simp
      ultimately show ?thesis
        using "1.IH"(1) [OF True refl _ refl] less m "1.prems"(1,2) step by simp
    next
      case above: False
      show ?thesis
      proof (cases "pc \<ge> fd_initial_location ?f + fd_address_range ?f")
        case more: True
        have "int m + 1 \<le> int i \<and> int i \<le> high" if i: "i < n" "covers (d ! i) pc" for i
        proof -
          have "\<not> i \<le> m"
          proof
            assume "i \<le> m"
            then have "unat (fd_initial_location (d ! i)) + unat (fd_address_range (d ! i)) \<le>
                unat (fd_initial_location ?f) + unat (fd_address_range ?f)"
              using o [of i m] m(4) by (cases "i = m") auto
            then show False using more i(2) e by (simp add: covers_def word_le_nat_alt)
          qed
          then show ?thesis using "1.prems"(4) [OF i] by simp
        qed
        moreover have "0 \<le> int m + 1" by simp
        ultimately show ?thesis
          using "1.IH"(2) [OF True refl _ refl] above more m "1.prems"(1,3) step by simp
      next
        case False
        then have "covers ?f pc"
          using above e by (simp add: covers_def word_less_nat_alt word_le_nat_alt)
        moreover have "fde_search d pc low high = DW_OK ?f" using step above False by simp
        ultimately show ?thesis using covers_unique [OF "1.prems"(1) m(4)] m(4) by auto
      qed
    qed
  qed
qed

section \<open>The settings\<close>

definition numbers_ok :: "dwarf_debug \<Rightarrow> bool" where
  "numbers_ok dbg \<longleftrightarrow>
     (let n = de_frame_reg_rules_entry_count dbg; cfa = de_frame_cfa_col_number dbg;
          same = de_frame_same_value_number dbg; undef = de_frame_undefined_value_number dbg in
      distinct [cfa, same, undef] \<and> n < cfa \<and> n < same \<and> n < undef \<and>
      de_frame_rule_initial_value dbg \<in> {same, undef})"

definition settings_ok :: "dwarf_debug \<Rightarrow> bool" where
  "settings_ok dbg \<longleftrightarrow> (de_frame_numbers_validated dbg \<longrightarrow> numbers_ok dbg)"

text \<open>The calls that change the settings of a debug object.\<close>

datatype setting = Rule_Initial u16 | Table_Size u16 | Cfa_Value u16 | Same_Value u16 | Undefined_Value u16
  | Address_Size u8 | Query fde u16 u64

fun apply_setting :: "bytes \<Rightarrow> setting \<Rightarrow> dwarf_debug \<Rightarrow> dwarf_debug" where
  "apply_setting buf (Rule_Initial v) dbg = fst (set_frame_rule_initial_value dbg v)"
| "apply_setting buf (Table_Size v) dbg = fst (set_frame_rule_table_size dbg v)"
| "apply_setting buf (Cfa_Value v) dbg = fst (set_frame_cfa_value dbg v)"
| "apply_setting buf (Same_Value v) dbg = fst (set_frame_same_value dbg v)"
| "apply_setting buf (Undefined_Value v) dbg = fst (set_frame_undefined_value dbg v)"
| "apply_setting buf (Address_Size v) dbg = fst (set_default_address_size dbg v)"
| "apply_setting buf (Query fde col pc) dbg = fst (get_fde_info_for_reg3_c dbg buf fde col pc False 0)"

lemma validate_eq:
  "validate_register_numbers dbg =
     (if de_frame_numbers_validated dbg then (dbg, DW_OK ())
      else if numbers_ok dbg then (dbg\<lparr>de_frame_numbers_validated := True\<rparr>, DW_OK ())
      else (dbg, DW_ERROR DW_DLE_DEBUGFRAME_ERROR))"
proof -
  have c: "(if a then y else if b then y else if c then y else if d then y else if e then y else if f then y
      else if g then y else x) = (if a \<or> b \<or> c \<or> d \<or> e \<or> f \<or> g then y else x)"
    for a b c d e f g and x y :: "dwarf_debug \<times> unit dw" by simp
  have r: "(if nv then r else if b then y else x) = (if nv then r else if k then x else y)" if "b = (\<not> k)"
    for nv b k and r x y :: "dwarf_debug \<times> unit dw" using that by simp
  show ?thesis unfolding validate_register_numbers_def c
    by (rule r) (simp add: numbers_ok_def Let_def not_le [symmetric], blast)
qed

lemma validate_settings_ok:
  "validate_register_numbers dbg = (dbg', m) \<Longrightarrow> settings_ok dbg \<Longrightarrow>
   settings_ok dbg' \<and> (\<forall>u. m = DW_OK u \<longrightarrow> numbers_ok dbg')"
  unfolding validate_eq by (auto simp: settings_ok_def numbers_ok_def Let_def split: if_splits)

lemma reg3_c_dbg:
  "fst (get_fde_info_for_reg3_c dbg buf fde col pc h s) = fst (validate_register_numbers dbg)"
  by (auto simp: get_fde_info_for_reg3_c_def Let_def split: prod.splits dw.splits)

lemma apply_setting_ok: "settings_ok dbg \<Longrightarrow> settings_ok (apply_setting buf c dbg)"
proof (cases c)
  case (Query fde col pc)
  assume s: "settings_ok dbg"
  obtain d v where "validate_register_numbers dbg = (d, v)" by fastforce
  then show ?thesis using Query validate_settings_ok [OF _ s] by (simp add: reg3_c_dbg)
qed (simp_all add: settings_ok_def set_frame_rule_initial_value_def set_frame_rule_table_size_def
    set_frame_cfa_value_def set_frame_same_value_def set_frame_undefined_value_def
    set_default_address_size_def numbers_ok_def Let_def)

lemma fold_settings_ok: "settings_ok dbg \<Longrightarrow> settings_ok (fold (apply_setting buf) cs dbg)"
  by (induction cs arbitrary: dbg) (simp_all add: apply_setting_ok)

section \<open>Samples\<close>

definition sample_fde :: fde where
  "sample_fde = \<lparr>fd_length = 9, fd_cie_offset = 0, fd_cie_index = 0, fd_cie = sample_cie\<lparr>ci_length := 0, ci_length_size := 0\<rparr>,
     fd_initial_location = 0x100, fd_address_range = 0x10, fd_fde_start = 0, fd_fde_instr_start = 0,
     fd_fde_end = 13, fd_length_size = 4, fd_extension_size = 0, fd_is_eh = False, fd_section_ptr = 0,
     fd_gnu_eh_aug_present = False, fd_gnu_eh_augmentation_len = 0, fd_gnu_eh_augmentation_bytes = 0,
     fd_offset_into_exception_tables = 0,
     fd_fde_frame_table = \<lparr>fs_loc = 0, fs_reg_count = 0, fs_regtable = None, fs_owns_regtable = False\<rparr>,
     fd_fde_pc_requested = 0, fd_have_fde_frame_tab = False\<rparr>"

definition sample_fdes :: "fde list" where
  "sample_fdes = [sample_fde, sample_fde\<lparr>fd_initial_location := 0x140\<rparr>,
     sample_fde\<lparr>fd_initial_location := 0x150\<rparr>]"

section \<open>Properties\<close>

text \<open>
  C12: On an array of FDEs in address order whose ranges do not overlap, the search for the FDE of a pc finds the one
  FDE that covers it, wherever it stands, with the addresses of the first and of the last byte of its range, and reports that there is
  no entry exactly when none covers it. The comment in \<open>libdwarf.h\<close> says that the high pc is one past the last byte; the code
  subtracts one.
\<close>

theorem get_fde_at_pc_correct:
  assumes "d \<noteq> []" "fdes_sorted (fde_count dbg d) d"
  shows "(\<forall>i < fde_count dbg d. covers (d ! i) pc \<longrightarrow>
      get_fde_at_pc dbg d pc = DW_OK (d ! i, fd_initial_location (d ! i),
        fd_initial_location (d ! i) + fd_address_range (d ! i) - 1)) \<and>
    ((\<forall>i < fde_count dbg d. \<not> covers (d ! i) pc) \<longrightarrow> get_fde_at_pc dbg d pc = DW_NO_ENTRY)"
  using fde_search_eq [where low = 0 and high = "int (fde_count dbg d) - 1" and pc = pc, OF assms(2)] assms(1)
  by (simp add: get_fde_at_pc_def)

theorem get_fde_at_pc_correct_witness:
  "get_fde_at_pc (debug_le64\<lparr>de_fde_count := 3\<rparr>) sample_fdes 0x14f =
     DW_OK (sample_fdes ! 1, 0x140, 0x14f) \<and>
   get_fde_at_pc (debug_le64\<lparr>de_fde_count := 3\<rparr>) sample_fdes 0x110 = DW_NO_ENTRY"
proof -
  let ?d = "debug_le64\<lparr>de_fde_count := 3\<rparr>"
  have n: "fde_count ?d sample_fdes = 3" by (simp add: fde_count_def sample_fdes_def sample_fde_def)
  have s: "fdes_sorted (fde_count ?d sample_fdes) sample_fdes"
    unfolding n by (simp add: fdes_sorted_def sample_fdes_def sample_fde_def numeral_3_eq_3 less_Suc_eq all_conj_distrib)
  have ne: "sample_fdes \<noteq> []" by (simp add: sample_fdes_def)
  have "covers (sample_fdes ! 1) 0x14f" by (simp add: covers_def sample_fdes_def sample_fde_def)
  moreover have "\<forall>i < 3. \<not> covers (sample_fdes ! i) 0x110"
    by (simp add: covers_def sample_fdes_def sample_fde_def numeral_3_eq_3 less_Suc_eq all_conj_distrib)
  moreover have "fd_initial_location (sample_fdes ! 1) = 0x140" "fd_address_range (sample_fdes ! 1) = 0x10"
    by (simp_all add: sample_fdes_def sample_fde_def)
  ultimately show ?thesis
    using conjunct1 [OF get_fde_at_pc_correct [where pc = "0x14f", OF ne s], rule_format, of 1] get_fde_at_pc_correct [where pc = "0x110", OF ne s]
    unfolding n by simp
qed

text \<open>
  C39: Asking for one column of the row of a pc never leaves the section or a register table, whatever the pc and the column
  are, and leaves the FDE and its CIE fit for the next query; the number of rules configured does not change.
\<close>

theorem get_fde_info_for_reg3_c_safe:
  assumes "fde_ok (unat (de_frame_reg_rules_entry_count dbg)) buf fde"
    and "get_fde_info_for_reg3_c dbg buf fde column pc h s = (dbg', fde', m)"
  shows "m \<noteq> FAULT \<and> fde_ok (unat (de_frame_reg_rules_entry_count dbg')) buf fde'"
  using reg3_c_ok [OF assms] by simp

theorem get_fde_info_for_reg3_c_safe_witness:
  "snd (snd (get_fde_info_for_reg3_c debug_le64 prologue sample_fde 7 0x102 False 0)) \<noteq> FAULT"
proof -
  obtain dbg' fde' m where r: "get_fde_info_for_reg3_c debug_le64 prologue sample_fde 7 0x102 False 0 = (dbg', fde', m)"
    by (rule prod_cases3)
  have "fde_ok (unat (de_frame_reg_rules_entry_count debug_le64)) prologue sample_fde"
    by (simp add: fde_ok_def sample_fde_def sample_cie_def prologue_def)
  from get_fde_info_for_reg3_c_safe [OF this r] r show ?thesis by simp
qed

text \<open>
  C27: The row a column query answers from covers the pc asked for: the pc is in the range of the FDE, the row starts at or below
  it, and the next row, when there is one, starts above it. This is so after every successful query, whether the pc is the one of the
  query before or not; the comment above \<open>dwarf_get_fde_info_for_reg3_b\<close> says that the two results for the next row are
  set only when the pc has changed.
\<close>

theorem get_fde_info_for_reg3_c_row:
  assumes "get_fde_info_for_reg3_c dbg buf fde column pc h s = (dbg', fde', DW_OK c)"
  shows "\<not> pc_outside_fde fde pc \<and> col_row_pc c \<le> pc \<and>
    (if col_has_more_rows c then pc < col_subsequent_pc c else col_subsequent_pc c = 0)"
proof -
  obtain dbg1 f r where r: "get_fde_info_for_a_pc_row dbg1 buf (prepare_fde_table dbg1 fde pc) pc
      (de_frame_cfa_col_number dbg1) h s None () = (f, DW_OK r)"
    "\<exists>rule. c = column_of_rule rule r"
    using assms
    by (auto simp: get_fde_info_for_reg3_c_def Let_def split: prod.splits dw.splits if_splits)
  have "pc_outside_fde (prepare_fde_table dbg1 fde pc) pc = pc_outside_fde fde pc"
    by (simp add: prepare_fde_table_def empty_fde_table_def pc_outside_fde_def Let_def)
  then show ?thesis using a_pc_row_found [OF r(1)] r(2) by (auto simp: column_of_rule_def)
qed

theorem get_fde_info_for_reg3_c_row_witness:
  "\<exists>dbg' fde' c. get_fde_info_for_reg3_c debug_le64 prologue sample_fde 12290 0x102 False 0 = (dbg', fde', DW_OK c) \<and>
     col_row_pc c = 0x101 \<and> col_row_pc c \<le> 0x102 \<and> col_offset c = 16 \<and> col_subsequent_pc c = 0x104"
proof -
  have e: "(case get_fde_info_for_reg3_c debug_le64 prologue sample_fde 12290 0x102 False 0 of
      (_, _, DW_OK c) \<Rightarrow> col_row_pc c = 0x101 \<and> col_offset c = 16 \<and> col_subsequent_pc c = 0x104 | _ \<Rightarrow> False)"
    by code_simp
  then obtain dbg' fde' c where
    c: "get_fde_info_for_reg3_c debug_le64 prologue sample_fde 12290 0x102 False 0 = (dbg', fde', DW_OK c)"
    by (auto split: prod.splits dw.splits)
  from get_fde_info_for_reg3_c_row [OF c] e c show ?thesis by simp
qed

text \<open>
  C32: Whatever settings are changed and whatever columns are asked for, in any order, a debug object marked as validated has sound numbers:
  the CFA column, the same value number and the undefined value number differ, none of them is a register of the table, and
  rules start as one of the last two. A query of such an object is answered only after that check.
\<close>

theorem validated_numbers_are_sound:
  assumes "de_frame_numbers_validated (fold (apply_setting buf) cs debug_le64)"
  shows "numbers_ok (fold (apply_setting buf) cs debug_le64)"
proof -
  have "settings_ok debug_le64" by (simp add: settings_ok_def debug_le64_def)
  then show ?thesis using fold_settings_ok assms unfolding settings_ok_def by blast
qed

theorem validated_numbers_are_sound_witness:
  "numbers_ok (fold (apply_setting prologue) [Table_Size 60, Cfa_Value 0x100, Query sample_fde 7 0x102] debug_le64)"
  by (rule validated_numbers_are_sound) code_simp

text \<open>
  Setting back what \<open>dwarf_set_frame_undefined_value\<close> returns, as the original value it replaced, makes the
  undefined value equal to the same value, so that every later query fails its check of the numbers,
  while the CFA, same value and initial value setters do restore the debug object up to that flag.
\<close>

theorem undefined_value_is_not_restored:
  assumes "de_frame_same_value_number dbg < 2 ^ 16" "de_frame_cfa_col_number dbg < 2 ^ 16"
    and "de_frame_rule_initial_value dbg < 2 ^ 16"
  shows "(case set_frame_undefined_value dbg v of (d, orig) \<Rightarrow>
      let d' = fst (set_frame_undefined_value d orig) in
      snd (snd (get_fde_info_for_reg3_c d' buf fde col pc h s)) = DW_ERROR DW_DLE_DEBUGFRAME_ERROR) \<and>
    (case set_frame_same_value dbg v of (d, orig) \<Rightarrow> fst (set_frame_same_value d orig)) =
      dbg\<lparr>de_frame_numbers_validated := False\<rparr> \<and>
    (case set_frame_cfa_value dbg v of (d, orig) \<Rightarrow> fst (set_frame_cfa_value d orig)) =
      dbg\<lparr>de_frame_numbers_validated := False\<rparr> \<and>
    (case set_frame_rule_initial_value dbg v of (d, orig) \<Rightarrow> fst (set_frame_rule_initial_value d orig)) =
      dbg\<lparr>de_frame_numbers_validated := False\<rparr>"
proof -
  have u: "(ucast (ucast x :: u16) :: u64) = x" if "x < 2 ^ 16" for x :: u64
    proof -
    have "unat (ucast (ucast x :: u16) :: u64) = unat x"
      using that by (simp add: word_less_nat_alt unsigned_ucast_eq unsigned_take_bit_eq take_bit_nat_eq_self)
    then show ?thesis by (simp add: word_unat_eq_iff)
  qed
  show ?thesis using assms
    by (simp add: set_frame_undefined_value_def set_frame_same_value_def set_frame_cfa_value_def
        set_frame_rule_initial_value_def get_fde_info_for_reg3_c_def validate_register_numbers_def Let_def u)
qed

theorem undefined_value_is_not_restored_witness:
  "snd (snd (get_fde_info_for_reg3_c
     (fst (set_frame_undefined_value (fst (set_frame_undefined_value debug_le64 0x200))
       (snd (set_frame_undefined_value debug_le64 0x200)))) prologue sample_fde 7 0x102 False 0)) =
     DW_ERROR DW_DLE_DEBUGFRAME_ERROR"
  using undefined_value_is_not_restored [where dbg = debug_le64 and v = "0x200" and buf = prologue and
      fde = sample_fde and col = 7 and pc = "0x102" and h = False and s = 0]
  by (simp add: debug_le64_def case_prod_beta Let_def)

text \<open>
  A caller's table with fewer rules than the library is configured for is written past its end: the size the
  caller states is stored but never looked at again, and the preload copies as many rules as the CIE's initial row and the
  configuration have.
\<close>

theorem short_table_is_overrun:
  assumes "de_frame_numbers_validated dbg" "\<not> pc_outside_fde fde pc"
    and "ci_initial_table (fd_cie fde) = Some t" "fr_reg_count t = de_frame_reg_rules_entry_count dbg"
    and "de_frame_reg_rules_entry_count dbg < 2 ^ 16" "fde_instr_end fde \<le> fd_fde_end fde"
    and "length (rt3_rules rt) = unat (rt3_reg_table_size rt)"
      "ucast (rt3_reg_table_size rt) < de_frame_reg_rules_entry_count dbg"
  shows "snd (snd (get_fde_info_for_all_regs3_b dbg buf fde pc rt h s)) = FAULT"
proof -
  have n: "unat (ucast (de_frame_reg_rules_entry_count dbg) :: u32) = unat (de_frame_reg_rules_entry_count dbg)"
    using assms(5) by (simp add: unsigned_ucast_eq take_bit_nat_eq_self word_less_nat_alt)
  have l: "length (rt3_rules rt) < unat (de_frame_reg_rules_entry_count dbg)"
    using assms(7,8) by (simp add: word_less_nat_alt)
  let ?f = "fde\<lparr>fd_fde_frame_table := initialize_frame_table (min (ucast (rt3_reg_table_size rt))
      (de_frame_reg_rules_entry_count dbg)) (Some rt)\<rparr>"
  have i: "make_initial_table dbg buf (fd_cie fde) c h s () = (fd_cie fde, DW_OK (h, s))" for c
    by (simp add: make_initial_table_def assms(3))
  have f: "fs_regtable (fd_fde_frame_table ?f) = Some rt" by (simp add: initialize_frame_table_def)
  have "snd (get_fde_info_for_a_pc_row dbg buf ?f pc (de_frame_cfa_col_number dbg) h s None ()) = FAULT"
    using assms(2,3,4,6) f l n
    by (simp add: get_fde_info_for_a_pc_row_def pc_outside_fde_def i exec_frame_instr_def preload_def
        fde_params_def reg_count_def copy_rules_def fde_instr_end_def Let_def)
  then obtain f where "get_fde_info_for_a_pc_row dbg buf ?f pc (de_frame_cfa_col_number dbg) h s None () = (f, FAULT)"
    by (metis prod.collapse)
  then show ?thesis using assms(1)
    by (simp add: get_fde_info_for_all_regs3_b_def validate_register_numbers_def Let_def)
qed

theorem short_table_is_overrun_witness:
  "snd (snd (get_fde_info_for_all_regs3_b (debug_le64\<lparr>de_frame_numbers_validated := True\<rparr>) prologue
     (sample_fde\<lparr>fd_cie := sample_cie\<lparr>ci_initial_table := Some (zero_frame 50)\<rparr>\<rparr>) 0x102
     (zero_regtable 16) False 0)) = FAULT"
  by (rule short_table_is_overrun [where t = "zero_frame 50"])
    (simp_all add: pc_outside_fde_def sample_fde_def zero_frame_def zero_regtable_def debug_le64_def
      fde_instr_end_def)

text \<open>
  After a column query at a pc, asking for all registers leaves the caller's own table in the FDE, still
  marked as the FDE's row of that pc: the next column query at the pc does not make a table of its own but runs in the one
  the caller lent, which by then may be gone.
\<close>

theorem lent_table_is_used_again:
  assumes "fd_have_fde_frame_tab fde" "fd_fde_pc_requested fde = pc"
    and "get_fde_info_for_all_regs3_b dbg buf fde pc' rt h s = (dbg', fde', DW_OK (rt', rest))"
  shows "prepare_fde_table dbg' fde' pc = fde' \<and> fs_regtable (fd_fde_frame_table fde') = Some rt' \<and>
    \<not> fs_owns_regtable (fd_fde_frame_table fde')"
proof -
  obtain dbg1 v where v: "validate_register_numbers dbg = (dbg1, v)" by fastforce
  let ?f = "fde\<lparr>fd_fde_frame_table := initialize_frame_table (min (ucast (rt3_reg_table_size rt))
      (de_frame_reg_rules_entry_count dbg)) (Some rt)\<rparr>"
  obtain f r where r: "get_fde_info_for_a_pc_row dbg1 buf ?f pc' (de_frame_cfa_col_number dbg1) h s None () =
      (f, DW_OK r)" "dbg' = dbg1" "fde' = f\<lparr>fd_fde_frame_table := empty_frame_table (fd_fde_frame_table f)\<rparr>"
      "rt' = fr_regtable (xr_table r)"
    using assms(3) v
    by (auto simp: get_fde_info_for_all_regs3_b_def Let_def split: prod.splits dw.splits)
  have "fd_have_fde_frame_tab f = fd_have_fde_frame_tab fde \<and> fd_fde_pc_requested f = fd_fde_pc_requested fde \<and>
      \<not> fs_owns_regtable (fd_fde_frame_table f) \<and> fs_regtable (fd_fde_frame_table f) = Some (fr_regtable (xr_table r))"
    using r(1)
    by (auto simp: get_fde_info_for_a_pc_row_def initialize_frame_table_def Let_def
        split: prod.splits dw.splits if_splits option.splits)
  then show ?thesis using assms(1,2) r
    by (simp add: prepare_fde_table_def empty_frame_table_def)
qed

theorem lent_table_is_used_again_witness:
  "\<exists>dbg1 fde1 dbg2 fde2 rt' more.
     fst (snd (get_fde_info_for_reg3_c debug_le64 prologue sample_fde 7 0x102 False 0)) = fde1 \<and>
     get_fde_info_for_all_regs3_b dbg1 prologue fde1 0x102 (zero_regtable 50) False 0 =
       (dbg2, fde2, DW_OK (rt', more)) \<and>
     prepare_fde_table dbg2 fde2 0x102 = fde2 \<and> fs_regtable (fd_fde_frame_table fde2) = Some rt'"
proof -
  let ?q = "get_fde_info_for_reg3_c debug_le64 prologue sample_fde 7 0x102 False 0"
  let ?a = "get_fde_info_for_all_regs3_b (fst ?q) prologue (fst (snd ?q)) 0x102 (zero_regtable 50) False 0"
  have e: "fd_have_fde_frame_tab (fst (snd ?q)) \<and> fd_fde_pc_requested (fst (snd ?q)) = 0x102 \<and>
      (case ?a of (_, _, DW_OK _) \<Rightarrow> True | _ \<Rightarrow> False)"
    by code_simp
  then obtain dbg2 fde2 rt' rest where a: "?a = (dbg2, fde2, DW_OK (rt', rest))"
    by (auto split: prod.splits dw.splits)
  from lent_table_is_used_again [OF _ _ a] e a show ?thesis by blast
qed

end
