(* ===== verification/Abbrev.thy ===== *)
theory Abbrev
  imports Forms "HOL-Library.Multiset"
begin

text \<open>
  Abbreviation declarations: the pass over the attribute specifications of one declaration
  (\<open>dwarf_abbrev.c\<close>, \<open>dwarf_fill_in_attr_form.c\<close>), the lookup of a code with its hash table (\<open>dwarf_util.c\<close>),
  and the functions that print \<open>.debug_abbrev\<close>. Pointers are offsets into that section. The static flag
  \<open>_dwarf_allow_dup_attr\<close> is the argument \<open>allow_dup\<close>.
\<close>

abbreviation (input) DW_TAG_hi_user :: u64 where "DW_TAG_hi_user \<equiv> 0xffff"
abbreviation (input) DW_AT_hi_user :: u64 where "DW_AT_hi_user \<equiv> 0x3fff"
abbreviation (input) MAX_AT_CK :: nat where "MAX_AT_CK \<equiv> 30"
abbreviation (input) MAX_AT_STD_CK :: nat where "MAX_AT_STD_CK \<equiv> 256"
abbreviation (input) NONSENSE_AT_COUNT :: u64 where "NONSENSE_AT_COUNT \<equiv> 340"

section \<open>Counting attribute specifications\<close>

text \<open>
  The attributes seen so far: a flag for each standard number, and the first others. The result is
  \<open>iserror\<close> and the arrays updated.
\<close>

definition check_duplicate :: "u64 \<Rightarrow> bool list \<Rightarrow> u16 list \<Rightarrow> bool \<times> bool list \<times> u16 list" where
  "check_duplicate attr_number arysmall ary =
     (if attr_number < of_nat MAX_AT_STD_CK
      then (arysmall ! unat attr_number, arysmall[unat attr_number := True], ary)
      else (ucast attr_number \<in> set ary, arysmall,
            if length ary < MAX_AT_CK - 1 then ary @ [ucast attr_number] else ary))"

text \<open>One attribute number and form, and the skipped value of an implicit constant.\<close>

definition read_spec :: "bytes \<Rightarrow> ptr \<Rightarrow> ptr \<Rightarrow> ((u64 \<times> u64) \<times> ptr) dw" where
  "read_spec buf abbrev_ptr abbrev_section_end =
     dw_bind (leb128_uword_wrapper buf abbrev_ptr abbrev_section_end) (\<lambda>(attr_number, p).
       if attr_number > DW_AT_hi_user then DW_ERROR DW_DLE_ATTR_CORRUPT
       else dw_bind (leb128_uword_wrapper buf p abbrev_section_end) (\<lambda>(attr_form, p).
         if \<not> valid_form_we_know attr_form attr_number then DW_ERROR DW_DLE_UNKNOWN_FORM
         else DW_OK ((attr_number, attr_form), p)))"

definition skip_implicit :: "bytes \<Rightarrow> u64 \<Rightarrow> ptr \<Rightarrow> ptr \<Rightarrow> ptr dw" where
  "skip_implicit buf attr_form p abbrev_section_end =
     (if attr_form = DW_FORM_implicit_const
      then dw_bind (leb128_skip_wrapper buf p abbrev_section_end) (\<lambda>(_, p). DW_OK p)
      else DW_OK p)"

lemma leb128_uword_advances: "leb128_uword_wrapper buf p e = DW_OK (v, q) \<Longrightarrow> p < q \<and> q \<le> e"
  by (rule uword.read_advances)

lemma read_spec_advances: "read_spec buf p e = DW_OK (v, q) \<Longrightarrow> p < q \<and> q \<le> e"
  by (auto simp: read_spec_def dw_simps split: if_splits dest!: uword.read_advances)

lemma skip_implicit_advances: "skip_implicit buf form p e = DW_OK q \<Longrightarrow> p \<le> q \<and> (p \<le> e \<longrightarrow> q \<le> e)"
  by (auto simp: skip_implicit_def dw_simps split: if_splits dest!: skip.read_advances)

text \<open>
  One round of the \<open>do\<close> loop of \<open>_dwarf_count_abbrev_entries\<close> up to the counting: the attribute and form, the arrays, and
  the new pointer.
\<close>

definition count_round ::
  "bool \<Rightarrow> bytes \<Rightarrow> ptr \<Rightarrow> ptr \<Rightarrow> bool list \<Rightarrow> u16 list \<Rightarrow> (u64 \<times> u64 \<times> bool list \<times> u16 list \<times> ptr) dw"
where
  "count_round allow_dup buf abbrev_ptr abbrev_section_end arysmall ary =
     dw_bind (read_spec buf abbrev_ptr abbrev_section_end) (\<lambda>((attr_number, attr_form), p).
       case (if allow_dup then (False, arysmall, ary) else check_duplicate attr_number arysmall ary) of
         (iserror, arysmall, ary) \<Rightarrow>
           if iserror then DW_ERROR DW_DLE_ABBREV_ATTR_DUPLICATION
           else dw_bind (skip_implicit buf attr_form p abbrev_section_end) (\<lambda>q.
             DW_OK (attr_number, attr_form, arysmall, ary, q)))"

lemma count_round_advances:
  assumes "count_round allow_dup buf p e small ary = DW_OK (attr, form, small', ary', q)"
  shows "p < q \<and> q \<le> e"
proof -
  obtain a f p1 where r: "read_spec buf p e = DW_OK ((a, f), p1)"
    using assms by (auto simp: count_round_def dw_simps)
  obtain x s y where d: "(if allow_dup then (False, small, ary) else check_duplicate a small ary) = (x, s, y)"
    by (rule prod_cases3)
  have "skip_implicit buf f p1 e = DW_OK q"
    using assms r d by (auto simp: count_round_def dw_simps split: if_splits)
  then show ?thesis using read_spec_advances [OF r] skip_implicit_advances by fastforce
qed

text \<open>The loop; it returns both counts and the new pointer.\<close>

function count_loop ::
  "bool \<Rightarrow> bytes \<Rightarrow> ptr \<Rightarrow> ptr \<Rightarrow> u64 \<Rightarrow> u64 \<Rightarrow> bool list \<Rightarrow> u16 list \<Rightarrow> (u64 \<times> u64 \<times> ptr) dw"
where
  "count_loop allow_dup buf abbrev_ptr abbrev_section_end abbrev_count implicit_count arysmall ary =
     dw_bind (count_round allow_dup buf abbrev_ptr abbrev_section_end arysmall ary)
       (\<lambda>(attr_number, attr_form, arysmall, ary, p).
         let implicit_count =
               (if attr_form = DW_FORM_implicit_const then implicit_count + 1 else implicit_count);
             abbrev_count = abbrev_count + 1
         in if abbrev_count > NONSENSE_AT_COUNT then DW_ERROR DW_DLE_ABBREV_ATTR_DUPLICATION
            else if p < abbrev_section_end \<and> (attr_number \<noteq> 0 \<or> attr_form \<noteq> 0)
            then count_loop allow_dup buf p abbrev_section_end abbrev_count implicit_count arysmall ary
            else DW_OK (abbrev_count - 1, implicit_count, p))"
  by pat_completeness auto
termination
  by (relation "measure (\<lambda>(_, buf, p, e, _). e - p)") (auto dest!: count_round_advances)

declare count_loop.simps [simp del]

definition count_abbrev_entries :: "bool \<Rightarrow> bytes \<Rightarrow> ptr \<Rightarrow> ptr \<Rightarrow> (u64 \<times> u64 \<times> ptr) dw" where
  "count_abbrev_entries allow_dup buf abbrev_ptr abbrev_section_end =
     count_loop allow_dup buf abbrev_ptr abbrev_section_end 0 0 (replicate MAX_AT_STD_CK False) []"

section \<open>Entries and their hash table\<close>

text \<open>
  \<open>struct Dwarf_Abbrev_List_s\<close> without the link; an entry of the table is the list that hangs from it. The arrays filled in
  later are \<open>None\<close> until then: an attribute, its form and the implicit constant at each index.
\<close>

type_synonym attr_form = "u16 \<times> u16 \<times> s64 option"

record abbrev_list =
  abl_code :: u64
  abl_tag :: u16
  abl_has_child :: u8
  abl_reference_count :: u64
  abl_goffset :: ptr
  abl_abbrev_ptr :: ptr
  abl_abbrev_count :: u64
  abl_implicit_const_count :: u64
  abl_attr_form :: "attr_form list option"

record abbrev_table =
  tb_table_entry_count :: nat
  tb_total_abbrev_count :: nat
  tb_highest_used_entry :: nat
  tb_entries :: "abbrev_list list list option"

record cu_context =
  cc_abbrev_offset :: nat
  cc_highest_known_code :: u64
  cc_last_abbrev_ptr :: "ptr option"
  cc_last_abbrev_endptr :: ptr
  cc_abbrev_hash_table :: abbrev_table

abbreviation (input) HT_DEFAULT_TABLE_SIZE :: nat where "HT_DEFAULT_TABLE_SIZE \<equiv> 128"
abbreviation (input) HT_MULTIPLE :: nat where "HT_MULTIPLE \<equiv> 2"

definition ht_hash :: "nat \<Rightarrow> u64 \<Rightarrow> nat" where
  "ht_hash table_entry_count code = unat (code AND word_of_nat (table_entry_count - 1))"

text \<open>Linking an entry in front of its list.\<close>

definition link_entry :: "abbrev_list \<Rightarrow> abbrev_table \<Rightarrow> abbrev_table" where
  "link_entry ent ht =
     (let hash_num = ht_hash (tb_table_entry_count ht) (abl_code ent) in
      ht\<lparr>tb_highest_used_entry := max (tb_highest_used_entry ht) hash_num,
         tb_total_abbrev_count := tb_total_abbrev_count ht + 1,
         tb_entries := map_option (\<lambda>es. es[hash_num := ent # es ! hash_num]) (tb_entries ht)\<rparr>)"

definition copy_abbrev_table_to_new_table :: "abbrev_table \<Rightarrow> abbrev_table \<Rightarrow> abbrev_table" where
  "copy_abbrev_table_to_new_table htin htout =
     fold link_entry (case tb_entries htin of None \<Rightarrow> [] | Some es \<Rightarrow> concat es) htout"

definition new_abbrev_table :: "nat \<Rightarrow> abbrev_table" where
  "new_abbrev_table n =
     \<lparr>tb_table_entry_count = n, tb_total_abbrev_count = 0, tb_highest_used_entry = 0,
      tb_entries = Some (replicate n [])\<rparr>"

text \<open>The first part of \<open>_dwarf_get_abbrev_for_code\<close>: the table is made, or grown when it is full.\<close>

definition prepare_table :: "abbrev_table \<Rightarrow> abbrev_table" where
  "prepare_table ht =
     (if tb_entries ht = None
      then ht\<lparr>tb_table_entry_count := HT_DEFAULT_TABLE_SIZE, tb_total_abbrev_count := 0,
              tb_entries := Some (replicate HT_DEFAULT_TABLE_SIZE [])\<rparr>
      else if tb_total_abbrev_count ht > tb_table_entry_count ht * HT_MULTIPLE
      then copy_abbrev_table_to_new_table ht (new_abbrev_table (tb_table_entry_count ht * HT_MULTIPLE))
      else ht)"

fun find_code :: "u64 \<Rightarrow> abbrev_list list \<Rightarrow> nat \<Rightarrow> nat option" where
  "find_code code [] i = None"
| "find_code code (e # es) i = (if abl_code e = code then Some i else find_code code es (Suc i))"

definition chain_of :: "abbrev_table \<Rightarrow> nat \<Rightarrow> abbrev_list list" where
  "chain_of ht hash_num = (case tb_entries ht of None \<Rightarrow> [] | Some es \<Rightarrow> es ! hash_num)"

definition update_entry :: "nat \<Rightarrow> nat \<Rightarrow> abbrev_list \<Rightarrow> abbrev_table \<Rightarrow> abbrev_table" where
  "update_entry hash_num i ent ht =
     ht\<lparr>tb_entries := map_option (\<lambda>es. es[hash_num := (es ! hash_num)[i := ent]]) (tb_entries ht)\<rparr>"

section \<open>Reading declarations\<close>

text \<open>Code, tag and children flag of a declaration.\<close>

definition read_abbrev_head :: "bytes \<Rightarrow> ptr \<Rightarrow> ptr \<Rightarrow> ((u64 \<times> u64 \<times> u8) \<times> ptr) dw" where
  "read_abbrev_head buf abbrev_ptr end_abbrev_ptr =
     dw_bind (leb128_uword_wrapper buf abbrev_ptr end_abbrev_ptr) (\<lambda>(abbrev_code, p).
     dw_bind (leb128_uword_wrapper buf p end_abbrev_ptr) (\<lambda>(abbrev_tag, p).
       if abbrev_tag > DW_TAG_hi_user then DW_ERROR DW_DLE_TAG_CORRUPT
       else if p \<ge> end_abbrev_ptr then DW_ERROR DW_DLE_ABBREV_OFF_END
       else dw_bind (rd8 buf p) (\<lambda>has_child. DW_OK ((abbrev_code, abbrev_tag, has_child), p + 1))))"

definition note_code :: "u64 \<Rightarrow> cu_context \<Rightarrow> cu_context" where
  "note_code code ctx = ctx\<lparr>cc_highest_known_code := max (cc_highest_known_code ctx) code\<rparr>"

text \<open>
  One round of the \<open>do\<close> loop: the entry is linked before its specifications are counted, and completed
  after that.
\<close>

definition add_abbrev :: "bool \<Rightarrow> bytes \<Rightarrow> ptr \<Rightarrow> ptr \<Rightarrow> cu_context \<Rightarrow> cu_context \<times> (abbrev_list \<times> ptr) dw" where
  "add_abbrev allow_dup buf abbrev_ptr end_abbrev_ptr ctx =
     (case read_abbrev_head buf abbrev_ptr end_abbrev_ptr of
        DW_OK ((abbrev_code, abbrev_tag, has_child), p) \<Rightarrow>
          let ent = \<lparr>abl_code = abbrev_code, abl_tag = ucast abbrev_tag, abl_has_child = has_child,
                abl_reference_count = 0, abl_goffset = abbrev_ptr, abl_abbrev_ptr = p,
                abl_abbrev_count = 0, abl_implicit_const_count = 0,
                abl_attr_form = None\<rparr>;
              hash_num = ht_hash (tb_table_entry_count (cc_abbrev_hash_table ctx)) abbrev_code;
              ctx = note_code abbrev_code ctx;
              ctx = ctx\<lparr>cc_abbrev_hash_table := link_entry ent (cc_abbrev_hash_table ctx)\<rparr>
          in (case count_abbrev_entries allow_dup buf p end_abbrev_ptr of
                DW_OK (atcount, impl_const_count, abbrev_ptr2) \<Rightarrow>
                  let ent = ent\<lparr>abl_implicit_const_count := impl_const_count, abl_abbrev_count := atcount\<rparr>
                  in (ctx\<lparr>cc_abbrev_hash_table := update_entry hash_num 0 ent (cc_abbrev_hash_table ctx)\<rparr>,
                      DW_OK (ent, abbrev_ptr2))
              | DW_NO_ENTRY \<Rightarrow> (ctx, DW_NO_ENTRY)
              | DW_ERROR e \<Rightarrow> (ctx, DW_ERROR e)
              | FAULT \<Rightarrow> (ctx, FAULT))
      | DW_NO_ENTRY \<Rightarrow> (ctx, DW_NO_ENTRY)
      | DW_ERROR e \<Rightarrow> (ctx, DW_ERROR e)
      | FAULT \<Rightarrow> (ctx, FAULT))"

lemma read_abbrev_head_advances: "read_abbrev_head buf p e = DW_OK (v, q) \<Longrightarrow> p < q \<and> q \<le> e"
  by (auto simp: read_abbrev_head_def dw_simps not_le split: if_splits dest!: uword.read_advances)

lemma count_loop_advances:
  "count_loop allow_dup buf p e c i small ary = DW_OK (c', i', q) \<Longrightarrow> p < q \<and> q \<le> e"
proof (induction allow_dup buf p e c i small ary rule: count_loop.induct)
  case (1 allow_dup buf p e c i small ary)
  obtain attr form small' ary' p1 where r:
    "count_round allow_dup buf p e small ary = DW_OK (attr, form, small', ary', p1)"
    using 1(2) by (auto simp: count_loop.simps [of _ _ p] dw_simps)
  note a = count_round_advances [OF r]
  show ?case
  proof (cases "\<not> c + 1 > NONSENSE_AT_COUNT \<and> p1 < e \<and> (attr \<noteq> 0 \<or> form \<noteq> 0)")
    case True
    then have "count_loop allow_dup buf p e c i small ary =
        count_loop allow_dup buf p1 e (c + 1) (if form = DW_FORM_implicit_const then i + 1 else i) small' ary'"
      using r by (simp add: count_loop.simps [of _ _ p] Let_def)
    then have "p1 < q \<and> q \<le> e"
      using 1(1) [OF r refl refl refl refl refl refl] 1(2) True by simp
    then show ?thesis using a by simp
  qed (use 1(2) r a in \<open>auto simp: count_loop.simps [of _ _ p] Let_def split: if_splits\<close>)
qed

lemma add_abbrev_advances: "add_abbrev allow_dup buf p e ctx = (ctx', DW_OK (ent, q)) \<Longrightarrow> p < q \<and> q \<le> e"
  by (auto simp: add_abbrev_def count_abbrev_entries_def Let_def split: dw.splits
      dest!: read_abbrev_head_advances count_loop_advances)

section \<open>Looking up a code\<close>

function abbrev_scan ::
  "bool \<Rightarrow> bytes \<Rightarrow> ptr \<Rightarrow> ptr \<Rightarrow> u64 \<Rightarrow> cu_context \<Rightarrow> cu_context \<times> (abbrev_list \<times> ptr) dw"
where
  "abbrev_scan allow_dup buf abbrev_ptr end_abbrev_ptr code ctx =
     (case add_abbrev allow_dup buf abbrev_ptr end_abbrev_ptr ctx of
        (ctx, DW_OK (ent, p)) \<Rightarrow>
          if p < end_abbrev_ptr then
            (case rd8 buf p of
               DW_OK b \<Rightarrow>
                 if b \<noteq> 0 \<and> abl_code ent \<noteq> code then abbrev_scan allow_dup buf p end_abbrev_ptr code ctx
                 else (ctx, DW_OK (ent, p))
             | _ \<Rightarrow> (ctx, FAULT))
          else (ctx, DW_OK (ent, p))
      | r \<Rightarrow> r)"
  by pat_completeness auto
termination
  by (relation "measure (\<lambda>(_, buf, p, e, _). e - p)") (auto dest: add_abbrev_advances [OF sym])

declare abbrev_scan.simps [simp del]

text \<open>
  \<open>_dwarf_get_abbrev_for_code\<close> on the contents of \<open>.debug_abbrev\<close>, \<open>None\<close> when it is missing. The second result is what is stored in
  \<open>*highest_known_code\<close>, \<open>None\<close> when nothing is; after an error it is not modelled. The offsets of a
  package file, which the code reads and ignores, do not appear.
\<close>

definition start_lookup :: "u64 \<Rightarrow> cu_context \<Rightarrow> cu_context" where
  "start_lookup code ctx =
     (let ht = prepare_table (cc_abbrev_hash_table ctx);
          hash_num = ht_hash (tb_table_entry_count ht) code
      in note_code code (ctx\<lparr>cc_abbrev_hash_table :=
           ht\<lparr>tb_highest_used_entry := max (tb_highest_used_entry ht) hash_num\<rparr>\<rparr>))"

definition count_reference :: "nat \<Rightarrow> nat \<Rightarrow> abbrev_list \<Rightarrow> cu_context \<Rightarrow> cu_context \<times> abbrev_list" where
  "count_reference hash_num i ent ctx =
     (let ent = ent\<lparr>abl_reference_count := abl_reference_count ent + 1\<rparr> in
      (ctx\<lparr>cc_abbrev_hash_table := update_entry hash_num i ent (cc_abbrev_hash_table ctx)\<rparr>, ent))"

definition scan_for_code ::
  "bool \<Rightarrow> bytes \<Rightarrow> u64 \<Rightarrow> cu_context \<Rightarrow> cu_context \<times> u64 option \<times> abbrev_list dw"
where
  "scan_for_code allow_dup buf code ctx =
     (let (abbrev_ptr, end_abbrev_ptr) =
            (case cc_last_abbrev_ptr ctx of
               Some p \<Rightarrow> (p, cc_last_abbrev_endptr ctx)
             | None \<Rightarrow> (cc_abbrev_offset ctx, length buf))
      in if abbrev_ptr \<ge> end_abbrev_ptr then (ctx, None, DW_NO_ENTRY)
         else
           case rd8 buf abbrev_ptr of
             DW_OK b \<Rightarrow>
               if b = 0 then (ctx, Some (cc_highest_known_code ctx), DW_NO_ENTRY)
               else
                 (case abbrev_scan allow_dup buf abbrev_ptr end_abbrev_ptr code ctx of
                    (ctx, DW_OK (ent, p)) \<Rightarrow>
                      let ctx = ctx\<lparr>cc_last_abbrev_ptr := Some p, cc_last_abbrev_endptr := end_abbrev_ptr\<rparr>
                      in if abl_code ent = code then
                           let (ctx, ent) = count_reference
                                 (ht_hash (tb_table_entry_count (cc_abbrev_hash_table ctx)) code) 0 ent ctx
                           in (ctx, Some (cc_highest_known_code ctx), DW_OK ent)
                         else (ctx, Some (cc_highest_known_code ctx), DW_NO_ENTRY)
                  | (ctx, DW_NO_ENTRY) \<Rightarrow> (ctx, None, DW_NO_ENTRY)
                  | (ctx, DW_ERROR e) \<Rightarrow> (ctx, None, DW_ERROR e)
                  | (ctx, FAULT) \<Rightarrow> (ctx, None, FAULT))
           | _ \<Rightarrow> (ctx, None, FAULT))"

definition get_abbrev_for_code ::
  "bool \<Rightarrow> bytes option \<Rightarrow> cu_context \<Rightarrow> u64 \<Rightarrow> cu_context \<times> u64 option \<times> abbrev_list dw"
where
  "get_abbrev_for_code allow_dup dss_data ctx code =
     (case dss_data of
        None \<Rightarrow> (ctx, None, DW_ERROR DW_DLE_DEBUG_ABBREV_NULL)
      | Some buf \<Rightarrow>
          let ctx = start_lookup code ctx;
              hash_num = ht_hash (tb_table_entry_count (cc_abbrev_hash_table ctx)) code;
              entries = chain_of (cc_abbrev_hash_table ctx) hash_num
          in (case find_code code entries 0 of
                Some i \<Rightarrow>
                  let (ctx, ent) = count_reference hash_num i (entries ! i) ctx
                  in (ctx, Some (cc_highest_known_code ctx), DW_OK ent)
              | None \<Rightarrow> scan_for_code allow_dup buf code ctx))"

section \<open>The attribute arrays of an entry\<close>

text \<open>
  One round of the loop of \<open>_dwarf_fill_in_attr_form_abtable\<close>: what stands at the index of the arrays after it, and the pointer behind
  the specification. The array of constants is only allocated when \<open>have_consts\<close>.
\<close>

definition fill_spec :: "bool \<Rightarrow> bytes \<Rightarrow> ptr \<Rightarrow> ptr \<Rightarrow> attr_form \<times> ptr dw" where
  "fill_spec have_consts buf abbrev_ptr abbrev_end =
     (case leb128_uword_wrapper buf abbrev_ptr abbrev_end of
        DW_OK (attr, p) \<Rightarrow>
          if attr > 0xffff then ((0, 0, None), DW_ERROR DW_DLE_ATTR_FORM_SIZE_BAD)
          else if attr > DW_AT_hi_user then ((ucast attr, 0, None), DW_ERROR DW_DLE_ATTR_CORRUPT)
          else
            (case leb128_uword_wrapper buf p abbrev_end of
               DW_OK (attr_form, p) \<Rightarrow>
                 if attr_form > 0xffff then ((ucast attr, 0, None), DW_ERROR DW_DLE_ATTR_FORM_SIZE_BAD)
                 else if \<not> valid_form_we_know attr_form attr
                 then ((ucast attr, 0, None), DW_ERROR DW_DLE_UNKNOWN_FORM)
                 else if attr_form = DW_FORM_implicit_const then
                   (case leb128_sword_wrapper buf p abbrev_end of
                      DW_OK (implicit_const, p) \<Rightarrow>
                        if have_consts then ((ucast attr, ucast attr_form, Some implicit_const), DW_OK p)
                        else ((ucast attr, ucast attr_form, None), FAULT)
                    | r \<Rightarrow> ((ucast attr, ucast attr_form, None), dw_bind r (\<lambda>(_, p). DW_OK p)))
                 else ((ucast attr, ucast attr_form, None), DW_OK p)
             | r \<Rightarrow> ((ucast attr, 0, None), dw_bind r (\<lambda>(_, p). DW_OK p)))
      | r \<Rightarrow> ((0, 0, None), dw_bind r (\<lambda>(_, p). DW_OK p)))"

text \<open>
  The loop over \<open>abl_abbrev_count\<close> specifications. The arrays are zero where it did not arrive, and they stay where they are when
  it fails.
\<close>

fun fill_loop :: "nat \<Rightarrow> bool \<Rightarrow> bytes \<Rightarrow> ptr \<Rightarrow> ptr \<Rightarrow> attr_form list \<times> unit dw" where
  "fill_loop 0 have_consts buf abbrev_ptr abbrev_end = ([], DW_OK ())"
| "fill_loop (Suc n) have_consts buf abbrev_ptr abbrev_end =
     (case fill_spec have_consts buf abbrev_ptr abbrev_end of
        (x, DW_OK p) \<Rightarrow> (case fill_loop n have_consts buf p abbrev_end of (xs, r) \<Rightarrow> (x # xs, r))
      | (x, r) \<Rightarrow> (x # replicate n (0, 0, None), dw_bind r (\<lambda>_. DW_OK ())))"

definition count_consts :: "attr_form list \<Rightarrow> u64" where
  "count_consts xs = word_of_nat (length (filter (\<lambda>(_, _, c). c \<noteq> None) xs))"

definition fill_in_attr_form_abtable :: "bytes \<Rightarrow> ptr \<Rightarrow> ptr \<Rightarrow> abbrev_list \<Rightarrow> abbrev_list \<times> unit dw" where
  "fill_in_attr_form_abtable buf abbrev_ptr abbrev_end ent =
     (case fill_loop (unat (abl_abbrev_count ent)) (abl_implicit_const_count ent > 0) buf abbrev_ptr abbrev_end of
        (xs, r) \<Rightarrow>
          (ent\<lparr>abl_attr_form := Some xs,
             abl_implicit_const_count := abl_implicit_const_count ent + count_consts xs\<rparr>, r))"

text \<open>
  The call its users make when the arrays are not there yet. The entry is the one a lookup of its code has just returned, the first with
  that code in its chain.
\<close>

definition ensure_attr_form ::
  "bytes \<Rightarrow> abbrev_list \<Rightarrow> cu_context \<Rightarrow> cu_context \<times> abbrev_list \<times> unit dw"
where
  "ensure_attr_form buf ent ctx =
     (if abl_attr_form ent \<noteq> None then (ctx, ent, DW_OK ())
      else
        let (ent', r) = fill_in_attr_form_abtable buf (abl_abbrev_ptr ent) (length buf) ent;
            ht = cc_abbrev_hash_table ctx;
            hash_num = ht_hash (tb_table_entry_count ht) (abl_code ent)
        in (case find_code (abl_code ent) (chain_of ht hash_num) 0 of
              Some i \<Rightarrow> (ctx\<lparr>cc_abbrev_hash_table := update_entry hash_num i ent' ht\<rparr>, ent', r)
            | None \<Rightarrow> (ctx, ent', FAULT)))"

section \<open>Printing the section\<close>

record dwarf_abbrev =
  dab_tag :: u64
  dab_code :: u64
  dab_has_child :: u8
  dab_abbrev_ptr :: ptr
  dab_goffset :: u64
  dab_count :: u64
  dab_implicit_count :: u64
  dab_next_ptr :: ptr
  dab_next_index :: u64

text \<open>\<open>dwarf_get_abbrev\<close> on the loaded section; the results are the abbreviation, the length and the count.\<close>

definition get_abbrev :: "bool \<Rightarrow> bytes \<Rightarrow> u64 \<Rightarrow> (dwarf_abbrev \<times> u64 \<times> u64) dw" where
  "get_abbrev allow_dup buf offset =
     (if unat offset \<ge> length buf then DW_NO_ENTRY
      else
        dw_bind (leb128_uword_wrapper buf (unat offset) (length buf)) (\<lambda>(code, p).
        if code = 0 then
          DW_OK (\<lparr>dab_tag = 0, dab_code = 0, dab_has_child = 0, dab_abbrev_ptr = 0, dab_goffset = 0,
             dab_count = 0, dab_implicit_count = 0, dab_next_ptr = 0, dab_next_index = 0\<rparr>, 1, 0)
        else
          dw_bind (leb128_uword_wrapper buf p (length buf)) (\<lambda>(tag, p).
          if tag > DW_TAG_hi_user then DW_ERROR DW_DLE_TAG_CORRUPT
          else if p \<ge> length buf then DW_ERROR DW_DLE_ABBREV_DECODE_ERROR
          else dw_bind (rd8 buf p) (\<lambda>has_child.
          dw_bind (count_abbrev_entries allow_dup buf (p + 1) (length buf)) (\<lambda>(count, implicit, q).
          if q > length buf then DW_ERROR DW_DLE_ABBREV_DECODE_ERROR
          else DW_OK (\<lparr>dab_tag = tag, dab_code = code, dab_has_child = has_child, dab_abbrev_ptr = p + 1,
             dab_goffset = offset, dab_count = count, dab_implicit_count = implicit, dab_next_ptr = p + 1,
             dab_next_index = 0\<rparr>, word_of_nat q - offset, count))))))"

text \<open>
  The loop of \<open>dwarf_get_abbrev_entry_b\<close>; \<open>local_indx\<close> is signed. It returns the index, the pointer, the pointer to the last
  specification read, and its attribute, form and constant.
\<close>

definition read_entry :: "bool \<Rightarrow> bytes \<Rightarrow> ptr \<Rightarrow> ptr \<Rightarrow> (ptr \<times> u64 \<times> u64 \<times> s64) dw" where
  "read_entry filter_outliers buf abbrev_ptr abbrev_end =
     dw_bind (leb128_uword_wrapper buf abbrev_ptr abbrev_end) (\<lambda>(attr, p).
       if filter_outliers \<and> attr > DW_AT_hi_user then DW_ERROR DW_DLE_ATTR_CORRUPT
       else dw_bind (leb128_uword_wrapper buf p abbrev_end) (\<lambda>(form, p).
         if filter_outliers \<and> \<not> valid_form_we_know form attr then DW_ERROR DW_DLE_UNKNOWN_FORM
         else if form = DW_FORM_implicit_const then
           dw_bind (leb128_sword_wrapper buf p abbrev_end) (\<lambda>(implicitconst, p). DW_OK (p, attr, form, implicitconst))
         else DW_OK (p, attr, form, 0)))"

lemma read_entry_advances: "read_entry f buf p e = DW_OK (q, r) \<Longrightarrow> p < q \<and> q \<le> e"
  by (auto simp: read_entry_def dw_simps split: if_splits dest!: uword.read_advances sword.read_advances)

function entry_loop ::
  "bool \<Rightarrow> bytes \<Rightarrow> ptr \<Rightarrow> s64 \<Rightarrow> ptr \<times> ptr option \<times> u64 \<times> u64 \<times> s64 \<Rightarrow>
   (s64 \<times> ptr \<times> ptr option \<times> u64 \<times> u64 \<times> s64) dw"
where
  "entry_loop filter_outliers buf abbrev_end local_indx (abbrev_ptr, mark, attr, form, implicitconst) =
     (if 0 \<le> sint local_indx \<and> abbrev_ptr < abbrev_end \<and> (attr \<noteq> 0 \<or> form \<noteq> 0) then
        dw_bind (read_entry filter_outliers buf abbrev_ptr abbrev_end) (\<lambda>(p, attr, form, implicitconst).
          entry_loop filter_outliers buf abbrev_end (local_indx - 1) (p, Some abbrev_ptr, attr, form, implicitconst))
      else DW_OK (local_indx, abbrev_ptr, mark, attr, form, implicitconst))"
  by pat_completeness auto
termination
  by (relation "measure (\<lambda>(f, buf, e, i, p, _). e - p)") (auto dest!: read_entry_advances)

declare entry_loop.simps [simp del]

text \<open>
  The pointer to the last specification is null until one has been read. The offset returned is its distance from the start of the
  section; \<open>None\<close> stands for the distance of the null pointer.
\<close>

definition get_abbrev_entry_b ::
  "bytes \<Rightarrow> dwarf_abbrev \<Rightarrow> u64 \<Rightarrow> bool \<Rightarrow> dwarf_abbrev \<times> (u64 \<times> u64 \<times> s64 \<times> ptr option) dw"
where
  "get_abbrev_entry_b buf ab indx filter_outliers =
     (if dab_code ab = 0 then (ab, DW_NO_ENTRY)
      else
        let local_indx = indx; abbrev_ptr = dab_abbrev_ptr ab; abbrev_end = length buf;
            (abbrev_ptr, local_indx) =
              (if local_indx \<ge> dab_next_index ab then (dab_next_ptr ab, local_indx - dab_next_index ab)
               else (abbrev_ptr, local_indx))
        in case entry_loop filter_outliers buf abbrev_end local_indx (abbrev_ptr, None, 1, 1, 0) of
             DW_OK (local_indx, abbrev_ptr, mark, attr, form, implicitconst) \<Rightarrow>
               if abbrev_ptr \<ge> abbrev_end then (ab, DW_ERROR DW_DLE_ABBREV_DECODE_ERROR)
               else if 0 \<le> sint local_indx then (ab, DW_NO_ENTRY)
               else (ab\<lparr>dab_next_ptr := abbrev_ptr, dab_next_index := local_indx\<rparr>,
                     DW_OK (attr, form, implicitconst, mark))
           | DW_NO_ENTRY \<Rightarrow> (ab, DW_NO_ENTRY)
           | DW_ERROR e \<Rightarrow> (ab, DW_ERROR e)
           | FAULT \<Rightarrow> (ab, FAULT))"

section \<open>Declarations as they stand in the section\<close>

definition read_decl :: "bool \<Rightarrow> bytes \<Rightarrow> ptr \<Rightarrow> (abbrev_list \<times> ptr) dw" where
  "read_decl allow_dup buf p =
     dw_bind (read_abbrev_head buf p (length buf)) (\<lambda>((code, tag, child), p1).
     dw_bind (count_abbrev_entries allow_dup buf p1 (length buf)) (\<lambda>(n, ic, q).
       DW_OK (\<lparr>abl_code = code, abl_tag = ucast tag, abl_has_child = child, abl_reference_count = 0,
          abl_goffset = p, abl_abbrev_ptr = p1, abl_abbrev_count = n, abl_implicit_const_count = ic,
          abl_attr_form = None\<rparr>, q)))"

text \<open>
  \<open>declared allow_dup buf p ds q\<close>: from \<open>p\<close> on stand the declarations \<open>ds\<close>, and at \<open>q\<close> the zero that ends them, or the
  end of the section.
\<close>

inductive declared :: "bool \<Rightarrow> bytes \<Rightarrow> ptr \<Rightarrow> abbrev_list list \<Rightarrow> ptr \<Rightarrow> bool" for allow_dup buf where
  stop: "q \<ge> length buf \<or> buf ! q = 0 \<Longrightarrow> declared allow_dup buf q [] q"
| decl: "p < length buf \<Longrightarrow> buf ! p \<noteq> 0 \<Longrightarrow> read_decl allow_dup buf p = DW_OK (d, p1) \<Longrightarrow>
    declared allow_dup buf p1 ds q \<Longrightarrow> declared allow_dup buf p (d # ds) q"

inductive_simps declared_Nil: "declared allow_dup buf p [] q"
inductive_simps declared_Cons: "declared allow_dup buf p (d # ds) q"

section \<open>Well-formed tables\<close>

text \<open>An entry without what lookups and the filling of its arrays change.\<close>

definition plain :: "abbrev_list \<Rightarrow> abbrev_list" where
  "plain ent = ent\<lparr>abl_reference_count := 0, abl_attr_form := None,
     abl_implicit_const_count := abl_implicit_const_count ent -
       (case abl_attr_form ent of None \<Rightarrow> 0 | Some xs \<Rightarrow> count_consts xs)\<rparr>"

lemma plain_simps [simp]: "abl_code (plain ent) = abl_code ent" "plain (plain ent) = plain ent"
  "plain (ent\<lparr>abl_reference_count := n\<rparr>) = plain ent"
  by (simp_all add: plain_def)

lemma plain_fill: "abl_attr_form ent = None \<Longrightarrow> plain (fst (fill_in_attr_form_abtable buf p e ent)) = plain ent"
  by (simp add: fill_in_attr_form_abtable_def plain_def split: prod.splits)

definition abbrevs_ok :: "abbrev_table \<Rightarrow> bool" where
  "abbrevs_ok ht \<longleftrightarrow>
     (case tb_entries ht of
        None \<Rightarrow> True
      | Some es \<Rightarrow> length es = tb_table_entry_count ht \<and> 0 < tb_table_entry_count ht \<and>
          (\<forall>h < length es. \<forall>ent \<in> set (es ! h). ht_hash (tb_table_entry_count ht) (abl_code ent) = h))"

definition listed :: "abbrev_table \<Rightarrow> abbrev_list multiset" where
  "listed ht = (case tb_entries ht of None \<Rightarrow> {#} | Some es \<Rightarrow> image_mset plain (mset (concat es)))"

lemma ht_hash_less: "0 < n \<Longrightarrow> ht_hash n code < n"
proof -
  assume "0 < n"
  have "unat (code AND word_of_nat (n - 1)) \<le> unat (word_of_nat (n - 1) :: u64)"
    by (simp add: word_and_le1 word_le_nat_alt [symmetric])
  also have "\<dots> \<le> n - 1" by (simp add: unsigned_of_nat take_bit_nat_less_eq_self)
  finally show ?thesis using \<open>0 < n\<close> by (simp add: ht_hash_def)
qed

lemma mset_concat_upd:
  "i < length xs \<Longrightarrow> mset (concat (xs[i := y])) + mset (xs ! i) = mset (concat xs) + mset y"
  by (induction xs arbitrary: i) (auto split: nat.splits simp: ac_simps add_mset_commute)

lemma link_entry_ok:
  assumes "abbrevs_ok ht" "tb_entries ht \<noteq> None"
  shows "abbrevs_ok (link_entry ent ht) \<and> tb_entries (link_entry ent ht) \<noteq> None \<and>
    tb_table_entry_count (link_entry ent ht) = tb_table_entry_count ht \<and>
    listed (link_entry ent ht) = add_mset (plain ent) (listed ht)"
proof -
  obtain es where es: "tb_entries ht = Some es" using assms(2) by auto
  let ?h = "ht_hash (tb_table_entry_count ht) (abl_code ent)"
  have h: "?h < length es" using assms es ht_hash_less by (simp add: abbrevs_ok_def)
  have "mset (concat (es[?h := ent # es ! ?h])) = add_mset ent (mset (concat es))"
    using mset_concat_upd [OF h, of "ent # es ! ?h"] by simp
  then have "image_mset plain (mset (concat (es[?h := ent # es ! ?h]))) =
      add_mset (plain ent) (image_mset plain (mset (concat es)))"
    by (simp only: image_mset_add_mset)
  then have "listed (link_entry ent ht) = add_mset (plain ent) (listed ht)"
    unfolding listed_def link_entry_def Let_def by (simp add: es del: mset_concat)
  then show ?thesis using assms(1) es h
    by (auto simp: abbrevs_ok_def link_entry_def Let_def nth_list_update)
qed

lemma copy_abbrevs_ok:
  assumes "abbrevs_ok ht" "tb_entries ht \<noteq> None"
  shows "abbrevs_ok (fold link_entry ents ht) \<and> tb_entries (fold link_entry ents ht) \<noteq> None \<and>
    listed (fold link_entry ents ht) = image_mset plain (mset ents) + listed ht"
  using assms
proof (induction ents arbitrary: ht)
  case (Cons ent ents)
  then show ?case using link_entry_ok [OF Cons.prems, of ent] Cons.IH [of "link_entry ent ht"] by simp
qed simp

lemma prepare_table_ok:
  assumes "abbrevs_ok ht"
  shows "abbrevs_ok (prepare_table ht) \<and> tb_entries (prepare_table ht) \<noteq> None \<and>
    listed (prepare_table ht) = listed ht"
proof -
  have new: "abbrevs_ok (new_abbrev_table n)" "listed (new_abbrev_table n) = {#}"
    "tb_entries (new_abbrev_table n) \<noteq> None" if "0 < n" for n
    using that by (simp_all add: abbrevs_ok_def listed_def new_abbrev_table_def)
  show ?thesis
  proof (cases "tb_entries ht")
    case None
    then show ?thesis by (simp add: prepare_table_def abbrevs_ok_def listed_def)
  next
    case (Some es)
    let ?n = "tb_table_entry_count ht * HT_MULTIPLE"
    have "0 < ?n" using assms Some by (simp add: abbrevs_ok_def)
    note c = copy_abbrevs_ok [OF new(1,3) [OF this], of "concat es"]
    have "listed ht = image_mset plain (mset (concat es))" using Some by (simp add: listed_def)
    then show ?thesis using c new(2) [OF \<open>0 < ?n\<close>] assms Some
      by (simp add: prepare_table_def copy_abbrev_table_to_new_table_def del: mset_concat)
  qed
qed

lemma update_entry_ok:
  assumes "abbrevs_ok ht" "h < tb_table_entry_count ht" "i < length (chain_of ht h)" "plain ent = plain (chain_of ht h ! i)"
  shows "abbrevs_ok (update_entry h i ent ht) \<and> listed (update_entry h i ent ht) = listed ht \<and>
    (tb_entries (update_entry h i ent ht) = None \<longleftrightarrow> tb_entries ht = None)"
proof (cases "tb_entries ht")
  case None
  then show ?thesis using assms by (simp add: update_entry_def abbrevs_ok_def listed_def)
next
  case (Some es)
  have c: "chain_of ht h = es ! h" using Some by (simp add: chain_of_def)
  have h: "h < length es" using assms(1,2) Some by (simp add: abbrevs_ok_def)
  have code: "abl_code ent = abl_code (es ! h ! i)" using arg_cong [OF assms(4), of abl_code] c by simp
  have "image_mset plain (mset ((es ! h)[i := ent])) = mset (map plain ((es ! h)[i := ent]))" by simp
  also have "map plain ((es ! h)[i := ent]) = map plain (es ! h)"
    using assms(3,4) c by (simp add: map_update) (metis list_update_id nth_map)
  finally have m: "image_mset plain (mset ((es ! h)[i := ent])) = image_mset plain (mset (es ! h))" by simp
  have "image_mset plain (mset (concat (es[h := (es ! h)[i := ent]]))) = image_mset plain (mset (concat es))"
    using arg_cong [OF mset_concat_upd [OF h, of "(es ! h)[i := ent]"], of "image_mset plain"] m
    by (simp del: mset_concat)
  moreover have "\<forall>x \<in> set ((es ! h)[i := ent]). ht_hash (tb_table_entry_count ht) (abl_code x) = h"
    using assms(1,3) c h Some code
    by (auto simp: abbrevs_ok_def dest!: set_update_subset_insert [THEN subsetD])
  ultimately show ?thesis using assms(1) Some h
    by (simp add: abbrevs_ok_def listed_def update_entry_def nth_list_update del: mset_concat)
qed


section \<open>One declaration\<close>

lemma update_linked:
  assumes "abbrevs_ok ht" "tb_entries ht \<noteq> None" "abl_code ent' = abl_code ent"
  shows "update_entry (ht_hash (tb_table_entry_count ht) (abl_code ent)) 0 ent' (link_entry ent ht) = link_entry ent' ht"
proof -
  obtain es where es: "tb_entries ht = Some es" using assms(2) by auto
  then have "ht_hash (tb_table_entry_count ht) (abl_code ent) < length es"
    using assms(1) ht_hash_less by (simp add: abbrevs_ok_def)
  then show ?thesis using es assms(3) by (simp add: update_entry_def link_entry_def Let_def)
qed

definition with_table :: "abbrev_table \<Rightarrow> cu_context \<Rightarrow> cu_context" where
  "with_table ht ctx = ctx\<lparr>cc_abbrev_hash_table := ht\<rparr>"

lemma add_abbrev_decl:
  assumes "abbrevs_ok (cc_abbrev_hash_table ctx)" "tb_entries (cc_abbrev_hash_table ctx) \<noteq> None"
    and "read_decl allow_dup buf p = DW_OK (d, q)"
  shows "add_abbrev allow_dup buf p (length buf) ctx =
    (with_table (link_entry d (cc_abbrev_hash_table ctx)) (note_code (abl_code d) ctx), DW_OK (d, q))"
proof -
  obtain code tag child p1 n ic where r: "read_abbrev_head buf p (length buf) = DW_OK ((code, tag, child), p1)"
    "count_abbrev_entries allow_dup buf p1 (length buf) = DW_OK (n, ic, q)"
    and d: "d = \<lparr>abl_code = code, abl_tag = ucast tag, abl_has_child = child, abl_reference_count = 0,
          abl_goffset = p, abl_abbrev_ptr = p1, abl_abbrev_count = n, abl_implicit_const_count = ic,
          abl_attr_form = None\<rparr>"
    using assms(3) by (auto simp: read_decl_def dw_simps)
  let ?e = "d\<lparr>abl_abbrev_count := 0, abl_implicit_const_count := 0\<rparr>"
  have "update_entry (ht_hash (tb_table_entry_count (cc_abbrev_hash_table ctx)) code) 0 d
      (link_entry ?e (cc_abbrev_hash_table ctx)) = link_entry d (cc_abbrev_hash_table ctx)"
    using update_linked [OF assms(1,2), of d ?e] by (simp add: d)
  then show ?thesis using r by (simp add: add_abbrev_def d Let_def note_code_def with_table_def)
qed

lemma read_decl_advances: "read_decl allow_dup buf p = DW_OK (d, q) \<Longrightarrow> p < q \<and> q \<le> length buf"
  by (auto simp: read_decl_def dw_simps count_abbrev_entries_def
      dest!: read_abbrev_head_advances count_loop_advances)

lemma read_decl_plain: "read_decl allow_dup buf p = DW_OK (d, q) \<Longrightarrow> plain d = d"
  by (auto simp: read_decl_def dw_simps plain_def)

lemma declared_plain: "declared allow_dup buf p ds q \<Longrightarrow> d \<in> set ds \<Longrightarrow> plain d = d"
  by (induction rule: declared.induct) (auto dest: read_decl_plain)

text \<open>Scanning reads declarations up to the one with the code, or to the end.\<close>

definition scanned :: "abbrev_list list \<Rightarrow> cu_context \<Rightarrow> cu_context \<Rightarrow> bool" where
  "scanned xs ctx ctx' \<longleftrightarrow>
     abbrevs_ok (cc_abbrev_hash_table ctx') \<and> tb_entries (cc_abbrev_hash_table ctx') \<noteq> None \<and>
     listed (cc_abbrev_hash_table ctx') = mset xs + listed (cc_abbrev_hash_table ctx) \<and>
     cc_abbrev_offset ctx' = cc_abbrev_offset ctx"

lemma abbrev_scan_decls:
  assumes "declared allow_dup buf p ds q" "ds \<noteq> []"
    and "abbrevs_ok (cc_abbrev_hash_table ctx)" "tb_entries (cc_abbrev_hash_table ctx) \<noteq> None"
  shows "\<exists>ctx' xs d ys p'. abbrev_scan allow_dup buf p (length buf) code ctx = (ctx', DW_OK (d, p')) \<and>
    ds = xs @ d # ys \<and> (\<forall>x \<in> set xs. abl_code x \<noteq> code) \<and> (abl_code d = code \<or> ys = []) \<and>
    declared allow_dup buf p' ys q \<and> scanned (xs @ [d]) ctx ctx' \<and>
    (\<exists>rest. chain_of (cc_abbrev_hash_table ctx')
        (ht_hash (tb_table_entry_count (cc_abbrev_hash_table ctx')) (abl_code d)) = d # rest)"
  using assms
proof (induction arbitrary: ctx rule: declared.induct)
  case (stop q)
  then show ?case by simp
next
  case (decl p d p1 ds q)
  let ?ctx = "with_table (link_entry d (cc_abbrev_hash_table ctx)) (note_code (abl_code d) ctx)"
  note a = add_abbrev_decl [OF decl.prems(2,3) decl.hyps(3)]
  note l = link_entry_ok [OF decl.prems(2,3), of d]
  have s1: "scanned [d] ctx ?ctx"
    using l read_decl_plain [OF decl.hyps(3)] by (simp add: scanned_def with_table_def note_code_def)
  have ch: "\<exists>rest. chain_of (cc_abbrev_hash_table ?ctx)
      (ht_hash (tb_table_entry_count (cc_abbrev_hash_table ?ctx)) (abl_code d)) = d # rest"
  proof -
    obtain es where es: "tb_entries (cc_abbrev_hash_table ctx) = Some es" using decl.prems(3) by auto
    then have "ht_hash (tb_table_entry_count (cc_abbrev_hash_table ctx)) (abl_code d) < length es"
      using decl.prems(2) ht_hash_less by (simp add: abbrevs_ok_def)
    then show ?thesis using es by (simp add: with_table_def link_entry_def chain_of_def Let_def)
  qed
  show ?case
  proof (cases "p1 < length buf \<and> buf ! p1 \<noteq> 0 \<and> abl_code d \<noteq> code")
    case True
    then have ne: "ds \<noteq> []" using decl.hyps(4) by (auto simp: declared_Nil)
    have ok: "abbrevs_ok (cc_abbrev_hash_table ?ctx)" "tb_entries (cc_abbrev_hash_table ?ctx) \<noteq> None"
      using s1 by (simp_all only: scanned_def simp_thms)
    from decl.IH [OF ne ok] obtain ctx' xs e ys p' where i:
      "abbrev_scan allow_dup buf p1 (length buf) code ?ctx = (ctx', DW_OK (e, p'))"
      "ds = xs @ e # ys" "\<forall>x \<in> set xs. abl_code x \<noteq> code" "abl_code e = code \<or> ys = []"
      "declared allow_dup buf p' ys q" "scanned (xs @ [e]) ?ctx ctx'"
      "\<exists>rest. chain_of (cc_abbrev_hash_table ctx')
        (ht_hash (tb_table_entry_count (cc_abbrev_hash_table ctx')) (abl_code e)) = e # rest"
      by blast
    have "abbrev_scan allow_dup buf p (length buf) code ctx = (ctx', DW_OK (e, p'))"
      by (subst abbrev_scan.simps) (simp add: a i(1) True rd8_def)
    moreover have "scanned ((d # xs) @ [e]) ctx ctx'"
      using s1 i(6) by (simp add: scanned_def)
    ultimately show ?thesis using i True
      by (intro exI [of _ ctx'] exI [of _ "d # xs"] exI [of _ e] exI [of _ ys] exI [of _ p']) simp
  next
    case False
    have stop: "abbrev_scan allow_dup buf p (length buf) code ctx = (?ctx, DW_OK (d, p1))"
      by (subst abbrev_scan.simps) (use False in \<open>auto simp: a rd8_def\<close>)
    have "abl_code d = code \<or> ds = []"
      using False decl.hyps(4) by (cases ds) (auto simp: declared_Cons)
    then show ?thesis using stop s1 ch decl.hyps(4)
      by (intro exI [of _ ?ctx] exI [of _ "[]"] exI [of _ d] exI [of _ ds] exI [of _ p1]) simp
  qed
qed


section \<open>Lookups\<close>

definition next_decl :: "cu_context \<Rightarrow> ptr" where
  "next_decl ctx = (case cc_last_abbrev_ptr ctx of None \<Rightarrow> cc_abbrev_offset ctx | Some p \<Rightarrow> p)"

text \<open>The table holds the declarations before the next one to read.\<close>

definition cache_ok :: "bool \<Rightarrow> bytes \<Rightarrow> abbrev_list list \<Rightarrow> cu_context \<Rightarrow> bool" where
  "cache_ok allow_dup buf ds ctx \<longleftrightarrow>
     (\<exists>seen todo q. ds = seen @ todo \<and> abbrevs_ok (cc_abbrev_hash_table ctx) \<and>
        listed (cc_abbrev_hash_table ctx) = mset seen \<and> declared allow_dup buf (next_decl ctx) todo q \<and>
        (cc_last_abbrev_ptr ctx \<noteq> None \<longrightarrow> cc_last_abbrev_endptr ctx = length buf))"

lemma cache_ok_cong:
  assumes "cache_ok allow_dup buf ds ctx" "abbrevs_ok (cc_abbrev_hash_table ctx')"
    and "listed (cc_abbrev_hash_table ctx') = listed (cc_abbrev_hash_table ctx)"
      "cc_abbrev_offset ctx' = cc_abbrev_offset ctx" "cc_last_abbrev_ptr ctx' = cc_last_abbrev_ptr ctx"
      "cc_last_abbrev_endptr ctx' = cc_last_abbrev_endptr ctx"
  shows "cache_ok allow_dup buf ds ctx'"
proof -
  have "next_decl ctx' = next_decl ctx"
    by (cases "cc_last_abbrev_ptr ctx") (simp_all add: next_decl_def assms(4,5))
  then show ?thesis using assms unfolding cache_ok_def by auto
qed

lemma find_code_Some:
  "find_code code es i = Some j \<Longrightarrow> i \<le> j \<and> j - i < length es \<and> abl_code (es ! (j - i)) = code"
proof (induction es arbitrary: i)
  case (Cons e es)
  show ?case
  proof (cases "abl_code e = code")
    case False
    then have *: "Suc i \<le> j \<and> j - Suc i < length es \<and> abl_code (es ! (j - Suc i)) = code"
      using Cons.IH [of "Suc i"] Cons.prems by simp
    then have "j - i = Suc (j - Suc i)" by linarith
    then show ?thesis using * by simp
  qed (use Cons.prems in simp)
qed simp

lemma find_code_None: "find_code code es i = None \<longleftrightarrow> (\<forall>e \<in> set es. abl_code e \<noteq> code)"
  by (induction es arbitrary: i) auto

lemma find_declared:
  "distinct (map abl_code ds) \<Longrightarrow> d \<in> set ds \<Longrightarrow> abl_code d = code \<Longrightarrow> find (\<lambda>x. abl_code x = code) ds = Some d"
  by (induction ds) force+

lemma listed_chain:
  assumes "abbrevs_ok ht" "e \<in># listed ht"
  shows "\<exists>x \<in> set (chain_of ht (ht_hash (tb_table_entry_count ht) (abl_code e))). plain x = e"
proof -
  obtain es where es: "tb_entries ht = Some es" using assms(2) by (cases "tb_entries ht") (auto simp: listed_def)
  then obtain c x where x: "c \<in> set es" "x \<in> set c" "plain x = e" using assms(2) by (auto simp: listed_def)
  then obtain h where h: "h < length es" "c = es ! h" by (auto simp: in_set_conv_nth)
  then have "ht_hash (tb_table_entry_count ht) (abl_code x) = h" using assms(1) es x by (auto simp: abbrevs_ok_def)
  then show ?thesis using x h es by (auto simp: chain_of_def)
qed

lemma chain_listed:
  assumes "abbrevs_ok ht" "h < tb_table_entry_count ht" "x \<in> set (chain_of ht h)"
  shows "plain x \<in># listed ht"
proof -
  obtain es where es: "tb_entries ht = Some es" using assms(3) by (cases "tb_entries ht") (auto simp: chain_of_def)
  then have "es ! h \<in> set es" using assms(1,2) by (simp add: abbrevs_ok_def)
  then show ?thesis using assms(3) es by (auto simp: listed_def chain_of_def)
qed

lemma highest_used [simp]:
  "abbrevs_ok (ht\<lparr>tb_highest_used_entry := n\<rparr>) = abbrevs_ok ht"
  "listed (ht\<lparr>tb_highest_used_entry := n\<rparr>) = listed ht"
  by (cases "tb_entries ht"; simp add: abbrevs_ok_def listed_def)+

lemma start_lookup_ok:
  assumes "abbrevs_ok (cc_abbrev_hash_table ctx)"
  shows "abbrevs_ok (cc_abbrev_hash_table (start_lookup code ctx)) \<and>
    tb_entries (cc_abbrev_hash_table (start_lookup code ctx)) \<noteq> None \<and>
    listed (cc_abbrev_hash_table (start_lookup code ctx)) = listed (cc_abbrev_hash_table ctx) \<and>
    cc_abbrev_offset (start_lookup code ctx) = cc_abbrev_offset ctx \<and>
    cc_last_abbrev_ptr (start_lookup code ctx) = cc_last_abbrev_ptr ctx \<and>
    cc_last_abbrev_endptr (start_lookup code ctx) = cc_last_abbrev_endptr ctx"
  using prepare_table_ok [OF assms] by (simp add: start_lookup_def note_code_def Let_def)

lemma count_reference_ok:
  assumes "abbrevs_ok (cc_abbrev_hash_table ctx)" "h < tb_table_entry_count (cc_abbrev_hash_table ctx)"
    and "i < length (chain_of (cc_abbrev_hash_table ctx) h)" "ent = chain_of (cc_abbrev_hash_table ctx) h ! i"
    and "count_reference h i ent ctx = (ctx', ent')"
  shows "abbrevs_ok (cc_abbrev_hash_table ctx') \<and> plain ent' = plain ent \<and>
    listed (cc_abbrev_hash_table ctx') = listed (cc_abbrev_hash_table ctx) \<and>
    cc_abbrev_offset ctx' = cc_abbrev_offset ctx \<and> cc_last_abbrev_ptr ctx' = cc_last_abbrev_ptr ctx \<and>
    cc_last_abbrev_endptr ctx' = cc_last_abbrev_endptr ctx"
  using update_entry_ok [OF assms(1,2,3), of "ent\<lparr>abl_reference_count := abl_reference_count ent + 1\<rparr>"] assms(4,5)
  by (auto simp: count_reference_def Let_def)

lemma lookup_step:
  assumes cache: "cache_ok allow_dup buf ds ctx" and dist: "distinct (map abl_code ds)"
    and look: "get_abbrev_for_code allow_dup (Some buf) ctx code = (ctx', h, r)"
  shows "cache_ok allow_dup buf ds ctx' \<and>
    (case find (\<lambda>d. abl_code d = code) ds of
       Some d \<Rightarrow> (\<exists>ent. r = DW_OK ent \<and> plain ent = d) | None \<Rightarrow> r = DW_NO_ENTRY)"
proof -
  obtain seen todo q where c: "ds = seen @ todo" "abbrevs_ok (cc_abbrev_hash_table ctx)"
    "listed (cc_abbrev_hash_table ctx) = mset seen" "declared allow_dup buf (next_decl ctx) todo q"
    "cc_last_abbrev_ptr ctx \<noteq> None \<longrightarrow> cc_last_abbrev_endptr ctx = length buf"
    using cache by (auto simp: cache_ok_def)
  let ?c = "start_lookup code ctx"
  let ?ht = "cc_abbrev_hash_table ?c"
  let ?h = "ht_hash (tb_table_entry_count ?ht) code"
  note s = start_lookup_ok [OF c(2), of code]
  have h: "?h < tb_table_entry_count ?ht" using s by (auto simp: abbrevs_ok_def intro: ht_hash_less)
  have next_c: "next_decl ?c = next_decl ctx"
    using s by (cases "cc_last_abbrev_ptr ctx") (simp_all add: next_decl_def)
  show ?thesis
  proof (cases "find_code code (chain_of ?ht ?h) 0")
    case (Some i)
    note i = find_code_Some [OF Some]
    let ?e = "chain_of ?ht ?h ! i"
    obtain ctx1 ent where u: "count_reference ?h i ?e ?c = (ctx1, ent)" by fastforce
    have "plain ?e \<in># mset seen" using chain_listed [OF _ h, of ?e] s i c(3) by simp
    then have "plain ?e \<in> set ds" "abl_code (plain ?e) = code" using c(1) i by simp_all
    then have "find (\<lambda>d. abl_code d = code) ds = Some (plain ?e)"
      using find_declared [OF dist] by blast
    moreover have "ctx' = ctx1 \<and> r = DW_OK ent"
      using look Some u by (simp add: get_abbrev_for_code_def Let_def)
    moreover have "cache_ok allow_dup buf ds ctx1"
      by (rule cache_ok_cong [OF cache]) (use count_reference_ok [OF _ h _ refl u] s i in auto)
    ultimately show ?thesis using count_reference_ok [OF _ h _ refl u] s i by simp
  next
    case None
    have absent: "abl_code d \<noteq> code" if "d \<in> set seen" for d
    proof
      assume "abl_code d = code"
      moreover have "d \<in># listed ?ht" using that s c(3) by simp
      ultimately obtain x where "x \<in> set (chain_of ?ht ?h)" "plain x = d"
        using listed_chain [of ?ht d] s by auto
      then show False using None \<open>abl_code d = code\<close> by (auto simp: find_code_None)
    qed
    have look': "scan_for_code allow_dup buf code ?c = (ctx', h, r)"
      using look None by (simp add: get_abbrev_for_code_def Let_def)
    have pe: "(case cc_last_abbrev_ptr ?c of Some p \<Rightarrow> (p, cc_last_abbrev_endptr ?c)
        | None \<Rightarrow> (cc_abbrev_offset ?c, length buf)) = (next_decl ctx, length buf)"
      using s c(5) by (auto simp: next_decl_def split: option.splits)
    show ?thesis
    proof (cases todo)
      case Nil
      then have "next_decl ctx \<ge> length buf \<or> buf ! next_decl ctx = 0"
        using c(4) by (simp add: declared_Nil)
      then have "ctx' = ?c \<and> r = DW_NO_ENTRY"
        using look' pe by (auto simp: scan_for_code_def rd8_def split: if_splits)
      moreover have "cache_ok allow_dup buf ds ?c"
        by (rule cache_ok_cong [OF cache]) (use s in auto)
      moreover have "find (\<lambda>d. abl_code d = code) ds = None"
        using absent c(1) Nil by (auto simp: find_None_iff)
      ultimately show ?thesis by simp
    next
      case (Cons d0 ds0)
      then have p: "next_decl ctx < length buf" "buf ! next_decl ctx \<noteq> 0"
        using c(4) by (auto simp: declared_Cons)
      have "todo \<noteq> []" using Cons by simp
      from abbrev_scan_decls [OF c(4) this conjunct1 [OF s], of code] s
      obtain ctx1 xs d ys p' where sc: "abbrev_scan allow_dup buf (next_decl ctx) (length buf) code ?c = (ctx1, DW_OK (d, p'))"
        "todo = xs @ d # ys" "\<forall>x \<in> set xs. abl_code x \<noteq> code" "abl_code d = code \<or> ys = []"
        "declared allow_dup buf p' ys q" "scanned (xs @ [d]) ?c ctx1"
        "\<exists>rest. chain_of (cc_abbrev_hash_table ctx1)
          (ht_hash (tb_table_entry_count (cc_abbrev_hash_table ctx1)) (abl_code d)) = d # rest"
        by blast
      let ?c1 = "ctx1\<lparr>cc_last_abbrev_ptr := Some p', cc_last_abbrev_endptr := length buf\<rparr>"
      have k: "cache_ok allow_dup buf ds ?c1"
        unfolding cache_ok_def next_decl_def
        by (rule exI [of _ "seen @ xs @ [d]"], rule exI [of _ ys], rule exI [of _ q])
          (use sc c s in \<open>simp add: scanned_def\<close>)
      show ?thesis
      proof (cases "abl_code d = code")
        case True
        let ?h1 = "ht_hash (tb_table_entry_count (cc_abbrev_hash_table ctx1)) code"
        obtain ctx2 ent where u: "count_reference ?h1 0 d ?c1 = (ctx2, ent)" by fastforce
        have h1: "?h1 < tb_table_entry_count (cc_abbrev_hash_table ?c1)"
          using sc(6) by (auto simp: scanned_def abbrevs_ok_def intro: ht_hash_less)
        have ch: "0 < length (chain_of (cc_abbrev_hash_table ?c1) ?h1)"
          "d = chain_of (cc_abbrev_hash_table ?c1) ?h1 ! 0"
          using sc(7) True by auto
        have ok1: "abbrevs_ok (cc_abbrev_hash_table ?c1)" using sc(6) by (simp add: scanned_def)
        note r = count_reference_ok [OF ok1 h1 ch u]
        have "ctx' = ctx2 \<and> r = DW_OK ent"
          using look' pe p sc(1) True u by (simp add: scan_for_code_def rd8_def Let_def)
        moreover have "cache_ok allow_dup buf ds ctx2"
          by (rule cache_ok_cong [OF k]) (use r in auto)
        moreover have "find (\<lambda>d. abl_code d = code) ds = Some d"
          using find_declared [OF dist, of d] c(1) sc(2) True by simp
        moreover have "plain d = d"
          using declared_plain [OF c(4)] sc(2) by simp
        ultimately show ?thesis using r by simp
      next
        case False
        then have "ctx' = ?c1 \<and> r = DW_NO_ENTRY"
          using look' pe p sc(1) by (simp add: scan_for_code_def rd8_def Let_def)
        moreover have "find (\<lambda>d. abl_code d = code) ds = None"
          using False sc(2,3,4) absent c(1) by (auto simp: find_None_iff)
        ultimately show ?thesis using k by simp
      qed
    qed
  qed
qed


text \<open>A sequence of lookups, and their results without the reference counts.\<close>

definition fresh_context :: "nat \<Rightarrow> cu_context" where
  "fresh_context abbrev_offset =
     \<lparr>cc_abbrev_offset = abbrev_offset, cc_highest_known_code = 0, cc_last_abbrev_ptr = None,
      cc_last_abbrev_endptr = 0, cc_abbrev_hash_table =
        \<lparr>tb_table_entry_count = 0, tb_total_abbrev_count = 0, tb_highest_used_entry = 0, tb_entries = None\<rparr>\<rparr>"

fun lookup_all :: "bool \<Rightarrow> bytes \<Rightarrow> cu_context \<Rightarrow> u64 list \<Rightarrow> abbrev_list dw list" where
  "lookup_all allow_dup buf ctx [] = []"
| "lookup_all allow_dup buf ctx (c # cs) =
     (case get_abbrev_for_code allow_dup (Some buf) ctx c of
        (ctx', _, r) \<Rightarrow> dw_bind r (\<lambda>ent. DW_OK (plain ent)) # lookup_all allow_dup buf ctx' cs)"

lemma lookup_all_eq:
  assumes "cache_ok allow_dup buf ds ctx" "distinct (map abl_code ds)"
  shows "lookup_all allow_dup buf ctx cs =
    map (\<lambda>c. case find (\<lambda>d. abl_code d = c) ds of Some d \<Rightarrow> DW_OK d | None \<Rightarrow> DW_NO_ENTRY) cs"
  using assms(1)
proof (induction cs arbitrary: ctx)
  case (Cons c cs)
  obtain ctx' h r where l: "get_abbrev_for_code allow_dup (Some buf) ctx c = (ctx', h, r)" by (rule prod_cases3)
  note s = lookup_step [OF Cons.prems assms(2) l]
  then show ?case using l Cons.IH [of ctx'] by (auto split: option.splits)
qed simp

section \<open>Entries by index\<close>

lemma entry_loop_index:
  "entry_loop f buf e i st = DW_OK (j, r) \<Longrightarrow> -1 \<le> sint i \<Longrightarrow> -1 \<le> sint j"
proof (induction f buf e i st arbitrary: j r rule: entry_loop.induct)
  case (1 f buf e i p m a fo im)
  show ?case
  proof (cases "0 \<le> sint i \<and> p < e \<and> (a \<noteq> 0 \<or> fo \<noteq> 0)")
    case True
    then obtain p1 a1 f1 i1 where "read_entry f buf p e = DW_OK (p1, a1, f1, i1)"
      "entry_loop f buf e (i - 1) (p1, Some p, a1, f1, i1) = DW_OK (j, r)"
      using 1(2) by (auto simp: entry_loop.simps [of _ _ _ i] dw_simps)
    moreover have "sint (i - 1) = sint i - 1"
      using True sint_lt [of i] by (simp add: sint_word_ariths signed_take_bit_int_eq_self)
    ultimately show ?thesis using 1(1) [OF True] True by simp
  next
    case False
    then show ?thesis using 1(2,3) by (auto simp: entry_loop.simps [of _ _ _ i])
  qed
qed

text \<open>The two states the memory of the last specification is ever in.\<close>

definition memo_ok :: "dwarf_abbrev \<Rightarrow> dwarf_abbrev \<Rightarrow> bool" where
  "memo_ok ab0 ab \<longleftrightarrow> dab_code ab = dab_code ab0 \<and> dab_abbrev_ptr ab = dab_abbrev_ptr ab0 \<and>
     (dab_next_index ab = 0 \<and> dab_next_ptr ab = dab_abbrev_ptr ab \<or> dab_next_index ab = - 1)"

lemma entry_start:
  assumes "memo_ok ab0 ab" "i < 2 ^ 63"
  shows "(if i \<ge> dab_next_index ab then (dab_next_ptr ab, i - dab_next_index ab) else (dab_abbrev_ptr ab, i)) =
    (dab_abbrev_ptr ab0, i)"
proof -
  have "unat (- 1 :: u64) = 2 ^ 64 - 1" by (simp add: unsigned_minus_1_eq_mask mask_eq_exp_minus_1)
  then have "\<not> (- 1 :: u64) \<le> i" using assms(2) by (simp add: word_le_nat_alt word_less_nat_alt del: unsigned_minus_1_eq_mask)
  then show ?thesis using assms(1) by (auto simp: memo_ok_def)
qed

lemma sint_small:
  assumes "(i :: u64) < 2 ^ 63"
  shows "0 \<le> sint i"
proof -
  have "uint i < 2 ^ 63" using assms by (simp add: word_less_def)
  then have "sint i = uint i"
    unfolding sint_uint by (intro signed_take_bit_int_eq_self) (simp_all add: order_trans [OF _ uint_ge_0])
  then show ?thesis by simp
qed

lemma entry_memo:
  assumes "memo_ok ab0 ab" "i < 2 ^ 63"
  shows "memo_ok ab0 (fst (get_abbrev_entry_b buf ab i f)) \<and>
    (memo_ok ab0 ab0 \<longrightarrow> snd (get_abbrev_entry_b buf ab i f) = snd (get_abbrev_entry_b buf ab0 i f))"
proof -
  have c: "dab_code ab = dab_code ab0" using assms(1) by (simp add: memo_ok_def)
  show ?thesis
  proof (cases "entry_loop f buf (length buf) i (dab_abbrev_ptr ab0, None, 1, 1, 0)")
    case (DW_OK x)
    obtain j q m a fo im where x: "x = (j, q, m, a, fo, im)" by (cases x) auto
    have "-1 \<le> sint j" using entry_loop_index [OF DW_OK [unfolded x]] sint_small [OF assms(2)] by simp
    then have "sint j = - 1" if "sint j < 0" using that by linarith
    then have "sint j < 0 \<Longrightarrow> j = - 1" by (metis signed_word_eqI sint_n1)
    then show ?thesis using assms DW_OK x c entry_start [OF assms] entry_start [of ab0 ab0 i]
      by (auto simp: get_abbrev_entry_b_def Let_def memo_ok_def)
  qed (use assms c entry_start [OF assms] entry_start [of ab0 ab0 i] in
      \<open>auto simp: get_abbrev_entry_b_def Let_def\<close>)
qed

section \<open>Samples\<close>

text \<open>Two declarations: code 1, a compile unit with children, and code 2, a base type without attributes.\<close>

definition sample_section :: bytes where
  "sample_section = [1, 0x11, 1, 0x25, 0x0e, 0x13, 0x05, 0, 0, 2, 0x24, 0, 0, 0, 0]"

definition sample_decls :: "abbrev_list list" where
  "sample_decls =
     [\<lparr>abl_code = 1, abl_tag = 0x11, abl_has_child = 1, abl_reference_count = 0, abl_goffset = 0, abl_abbrev_ptr = 3,
       abl_abbrev_count = 2, abl_implicit_const_count = 0, abl_attr_form = None\<rparr>,
      \<lparr>abl_code = 2, abl_tag = 0x24, abl_has_child = 0, abl_reference_count = 0, abl_goffset = 9, abl_abbrev_ptr = 12,
       abl_abbrev_count = 0, abl_implicit_const_count = 0,
                abl_attr_form = None\<rparr>]"

section \<open>Properties\<close>

text \<open>
  C10: Looking up any codes in any order, through a hash table that is filled as the section is scanned, finds exactly
  what the section declares: the declaration with that code, with its tag, children flag, place and number of
  attributes, or no entry when none has it. This holds however many lookups went before and however often the table grew.
\<close>

theorem lookups_find_declarations:
  assumes "declared allow_dup buf abbrev_offset ds q" "distinct (map abl_code ds)"
  shows "lookup_all allow_dup buf (fresh_context abbrev_offset) cs =
    map (\<lambda>c. case find (\<lambda>d. abl_code d = c) ds of Some d \<Rightarrow> DW_OK d | None \<Rightarrow> DW_NO_ENTRY) cs"
proof (rule lookup_all_eq [OF _ assms(2)])
  have "next_decl (fresh_context abbrev_offset) = abbrev_offset"
    by (simp add: next_decl_def fresh_context_def)
  then show "cache_ok allow_dup buf ds (fresh_context abbrev_offset)"
    unfolding cache_ok_def using assms(1)
    by (intro exI [of _ "[]"] exI [of _ ds] exI [of _ q])
      (simp add: fresh_context_def abbrevs_ok_def listed_def)
qed

theorem lookups_find_declarations_witness:
  "lookup_all False sample_section (fresh_context 0) [2, 7, 1, 2] =
     [DW_OK (sample_decls ! 1), DW_NO_ENTRY, DW_OK (sample_decls ! 0), DW_OK (sample_decls ! 1)]"
proof -
  have r: "read_decl False sample_section 0 = DW_OK (sample_decls ! 0, 9)"
    "read_decl False sample_section 9 = DW_OK (sample_decls ! 1, 14)"
    by code_simp+
  have "declared False sample_section 0 [sample_decls ! 0, sample_decls ! 1] 14"
    by (rule declared.decl [OF _ _ r(1)] declared.decl [OF _ _ r(2)] declared.stop | simp add: sample_section_def)+
  moreover have "distinct (map abl_code [sample_decls ! 0, sample_decls ! 1])"
    by (simp add: sample_decls_def)
  ultimately show ?thesis
    by (subst lookups_find_declarations) (assumption | simp add: sample_decls_def)+
qed



text \<open>
  Asking for an attribute specification by its index gives the same answer whatever indices were asked for before, so the
  remembered position never shows. An index of 2 to the 63 or more is not refused: on a new abbreviation
  it is answered with attribute 1 and form 1, at no offset, without reading anything.
\<close>

theorem abbrev_entry_by_index:
  assumes "dab_next_index ab = 0" "dab_next_ptr ab = dab_abbrev_ptr ab" "\<forall>(j, g) \<in> set earlier. j < 2 ^ 63"
  shows "(i < 2 ^ 63 \<longrightarrow>
      snd (get_abbrev_entry_b buf (fold (\<lambda>(j, g) a. fst (get_abbrev_entry_b buf a j g)) earlier ab) i f) =
      snd (get_abbrev_entry_b buf ab i f)) \<and>
    (sint i < 0 \<longrightarrow> dab_code ab \<noteq> 0 \<longrightarrow> dab_abbrev_ptr ab < length buf \<longrightarrow>
      snd (get_abbrev_entry_b buf ab i f) = DW_OK (1, 1, 0, None))"
proof -
  have m: "memo_ok ab ab" using assms(1,2) by (simp add: memo_ok_def)
  have "memo_ok ab (fold (\<lambda>(j, g) a. fst (get_abbrev_entry_b buf a j g)) es a)"
    if "memo_ok ab a" "\<forall>(j, g) \<in> set es. j < 2 ^ 63" for es a
    using that
  proof (induction es arbitrary: a)
    case (Cons x es)
    obtain j g where x: "x = (j, g)" by (cases x)
    show ?case using Cons.prems Cons.IH entry_memo [OF Cons.prems(1), of j buf g] by (simp add: x)
  qed simp
  then have "memo_ok ab (fold (\<lambda>(j, g) a. fst (get_abbrev_entry_b buf a j g)) earlier ab)"
    using m assms(3) by blast
  moreover have "entry_loop f buf (length buf) i (dab_abbrev_ptr ab, None, 1, 1, 0) =
      DW_OK (i, dab_abbrev_ptr ab, None, 1, 1, 0)" if "sint i < 0"
    using that by (subst entry_loop.simps) simp
  then have "snd (get_abbrev_entry_b buf ab i f) = DW_OK (1, 1, 0, None)"
    if "sint i < 0" "dab_code ab \<noteq> 0" "dab_abbrev_ptr ab < length buf"
    using that by (simp add: get_abbrev_entry_b_def Let_def assms(1,2))
  ultimately show ?thesis using entry_memo m by blast
qed

theorem abbrev_entry_by_index_witness:
  "\<exists>ab. get_abbrev False sample_section 0 = DW_OK (ab, 9, 2) \<and>
     snd (get_abbrev_entry_b sample_section (fst (get_abbrev_entry_b sample_section ab 1 True)) 0 True) =
       DW_OK (0x25, 0x0e, 0, Some 3) \<and>
     snd (get_abbrev_entry_b sample_section ab (- 1) True) = DW_OK (1, 1, 0, None)"
proof -
  have e: "case get_abbrev False sample_section 0 of DW_OK (ab, n, c) \<Rightarrow> n = 9 \<and> c = 2 \<and> dab_next_index ab = 0 \<and>
      dab_next_ptr ab = dab_abbrev_ptr ab \<and> dab_code ab \<noteq> 0 \<and> dab_abbrev_ptr ab < length sample_section \<and>
      snd (get_abbrev_entry_b sample_section ab 0 True) = DW_OK (0x25, 0x0e, 0, Some 3) | _ \<Rightarrow> False"
    by code_simp
  then obtain ab where ab: "get_abbrev False sample_section 0 = DW_OK (ab, 9, 2)"
    by (auto split: dw.splits)
  have i: "dab_next_index ab = 0" "dab_next_ptr ab = dab_abbrev_ptr ab" using e ab by simp_all
  have "\<forall>(j, g) \<in> set [(1 :: u64, True)]. j < 2 ^ 63" by simp
  note r = abbrev_entry_by_index [OF i this, of 0 sample_section True] abbrev_entry_by_index [OF i this, of "- 1" sample_section True]
  show ?thesis using r e ab by simp
qed

end
