(* ===== verification/Tsearch.thy ===== *)
theory Tsearch
  imports Prelude "HOL-Library.Multiset"
begin

text \<open>
  The hash table of \<open>dwarf_tsearchhash.c\<close>, which stores pointers to records of its callers. A pointer is an
  option, \<open>None\<close> the null pointer; the hash function and the comparison are the caller's. The \<open>ts_entry\<close>
  structures that hang from an entry of the table are the list \<open>chain\<close> of their key pointers, each in use. A pointer to an entry is a
  place in the table; the pointers the interface returns point to the key pointer of an entry, and are
  modelled by its contents. Allocation succeeds and the counts, which count allocated records, do not wrap around.
\<close>

section \<open>The table\<close>

definition primes :: "nat list" where
  "primes = [521, 1009, 5591, 10007, 21839, 41413, 99907, 199967, 400009, 800029, 1600141, 3000089, 6000121,
     12000257, 24000143, 48000203, 100000127, 200001611, 400000669, 800000573, 0]"

definition allowed_fill_percent :: nat where
  "allowed_fill_percent = 90"

record 'k ts_entry =
  keyptr :: "'k option"
  entryused :: bool
  chain :: "'k option list"

record 'k hs_base =
  tablesize :: nat
  tablesize_entry_index :: nat
  allowed_fill :: nat
  record_count :: nat
  hashtab :: "'k ts_entry list"
  hashfunc :: "('k option \<Rightarrow> u64) option"

type_synonym 'k comparison = "'k option \<Rightarrow> 'k option \<Rightarrow> int"

datatype search_intent = want_insert | only_find | want_delete

datatype place = In_Tab nat | In_Chain nat nat

definition key_at :: "'k hs_base \<Rightarrow> place \<Rightarrow> 'k option" where
  "key_at head r = (case r of In_Tab i \<Rightarrow> keyptr (hashtab head ! i) | In_Chain i j \<Rightarrow> chain (hashtab head ! i) ! j)"

definition calculate_allowed_fill :: "nat \<Rightarrow> nat \<Rightarrow> nat" where
  "calculate_allowed_fill fill_percent ct =
     (if ct < 100000 then (ct * fill_percent) div 100 else (ct div 100) * fill_percent)"

definition empty_entry :: "'k ts_entry" where
  "empty_entry = \<lparr>keyptr = None, entryused = False, chain = []\<rparr>"

text \<open>The loop over the primes: the first that is not below the estimate, \<open>None\<close> when they run out.\<close>

fun pick_prime :: "nat \<Rightarrow> nat list \<Rightarrow> nat \<Rightarrow> (nat \<times> nat) option" where
  "pick_prime size_estimate [] k = None"
| "pick_prime size_estimate (p # ps) k =
     (if p = 0 then None
      else if size_estimate \<noteq> 0 \<and> size_estimate > p then pick_prime size_estimate ps (Suc k)
      else Some (k, p))"

definition initialize_search_hash ::
  "'k hs_base option \<Rightarrow> ('k option \<Rightarrow> u64) \<Rightarrow> nat \<Rightarrow> 'k hs_base option"
where
  "initialize_search_hash treeptr hf size_estimate =
     (case treeptr of
        Some base \<Rightarrow> Some base
      | None \<Rightarrow>
          (case pick_prime size_estimate primes 0 of
             None \<Rightarrow> None
           | Some (entry_index, prime_to_use) \<Rightarrow>
               let allowed = calculate_allowed_fill allowed_fill_percent prime_to_use in
               if allowed < prime_to_use div 2 then None
               else Some \<lparr>tablesize = prime_to_use, tablesize_entry_index = entry_index, allowed_fill = allowed,
                      record_count = 0, hashtab = replicate prime_to_use empty_entry, hashfunc = Some hf\<rparr>))"

section \<open>Searching\<close>

fun chain_find :: "'k comparison \<Rightarrow> 'k option \<Rightarrow> 'k option list \<Rightarrow> nat \<Rightarrow> nat option" where
  "chain_find compar key [] i = None"
| "chain_find compar key (c # cs) i = (if compar key c = 0 then Some i else chain_find compar key cs (Suc i))"

text \<open>\<open>_tsearch_inner\<close> after the table has been resized where that is due; the last result is \<open>*inserted\<close>.\<close>

definition search_slot ::
  "'k comparison \<Rightarrow> search_intent \<Rightarrow> 'k option \<Rightarrow> ('k option \<Rightarrow> u64) \<Rightarrow> 'k hs_base \<Rightarrow>
   place option \<times> 'k hs_base \<times> bool"
where
  "search_slot compar intent key hf head =
     (let hindx = unat (hf key) mod tablesize head;
          s = hashtab head ! hindx
      in if \<not> entryused s then
           if intent \<noteq> want_insert then (None, head, False)
           else (Some (In_Tab hindx),
                 head\<lparr>record_count := record_count head + 1,
                      hashtab := (hashtab head)[hindx := \<lparr>keyptr = key, entryused = True, chain = []\<rparr>]\<rparr>, True)
         else if compar key (keyptr s) = 0 then (Some (In_Tab hindx), head, False)
         else
           case chain_find compar key (chain s) 0 of
             Some j \<Rightarrow> (Some (In_Chain hindx j), head, False)
           | None \<Rightarrow>
               if intent \<noteq> want_insert then (None, head, False)
               else (Some (In_Chain hindx 0),
                     head\<lparr>record_count := record_count head + 1,
                          hashtab := (hashtab head)[hindx := s\<lparr>chain := key # chain s\<rparr>]\<rparr>, True))"

text \<open>The keys the resizing reads from an old table, and the loop that inserts them in the new one.\<close>

definition keys_to_move :: "'k ts_entry \<Rightarrow> 'k option list" where
  "keys_to_move p = (if keyptr p \<noteq> None then [keyptr p] else []) @ chain p"

fun refill ::
  "('k option \<Rightarrow> 'k hs_base \<Rightarrow> place option \<times> 'k hs_base \<times> bool) \<Rightarrow> 'k option list \<Rightarrow> 'k hs_base \<Rightarrow>
   'k hs_base option"
where
  "refill ins [] newhead = Some newhead"
| "refill ins (k # ks) newhead =
     (case ins k newhead of
        (_, newhead, inserted) \<Rightarrow> if inserted then refill ins ks newhead else None)"

definition resize_table ::
  "('k option \<Rightarrow> 'k hs_base \<Rightarrow> place option \<times> 'k hs_base \<times> bool) \<Rightarrow> 'k hs_base \<Rightarrow> 'k hs_base"
where
  "resize_table ins head =
     (let new_entry_index = tablesize_entry_index head + 1;
          prime_to_use = primes ! new_entry_index;
          allowed = calculate_allowed_fill allowed_fill_percent prime_to_use
      in if prime_to_use = 0 then head
         else if allowed < prime_to_use div 2 then head
         else
           case refill ins (concat (map keys_to_move (hashtab head)))
                  (head\<lparr>record_count := 0, tablesize := prime_to_use, allowed_fill := allowed,
                        tablesize_entry_index := new_entry_index,
                        hashtab := replicate prime_to_use empty_entry\<rparr>) of
             None \<Rightarrow> head
           | Some newhead \<Rightarrow> newhead)"

text \<open>
  \<open>_tsearch_inner\<close> and \<open>resize_table\<close> call each other, each time with a larger prime: a depth of as many calls as there are
  primes is enough.
\<close>

primrec tsearch_at ::
  "nat \<Rightarrow> 'k comparison \<Rightarrow> search_intent \<Rightarrow> 'k option \<Rightarrow> 'k hs_base \<Rightarrow> place option \<times> 'k hs_base \<times> bool"
where
  "tsearch_at 0 compar intent key head =
     (case hashfunc head of
        None \<Rightarrow> (None, head, False)
      | Some hf \<Rightarrow> search_slot compar intent key hf head)"
| "tsearch_at (Suc d) compar intent key head =
     (case hashfunc head of
        None \<Rightarrow> (None, head, False)
      | Some hf \<Rightarrow>
          search_slot compar intent key hf
            (if intent = want_insert \<and> record_count head > allowed_fill head
             then resize_table (\<lambda>k. tsearch_at d compar want_insert k) head
             else head))"

definition tsearch_inner ::
  "'k comparison \<Rightarrow> search_intent \<Rightarrow> 'k option \<Rightarrow> 'k hs_base \<Rightarrow> place option \<times> 'k hs_base \<times> bool"
where
  "tsearch_inner = tsearch_at (length primes)"

section \<open>The interface\<close>

text \<open>The table pointer may be null. \<open>None\<close> as a result is the null pointer.\<close>

definition tsearch ::
  "'k comparison \<Rightarrow> 'k option \<Rightarrow> 'k hs_base option \<Rightarrow> 'k option option \<times> 'k hs_base option"
where
  "tsearch compar key rootp =
     (case rootp of
        None \<Rightarrow> (None, None)
      | Some head \<Rightarrow>
          (case tsearch_inner compar want_insert key head of
             (r, head, _) \<Rightarrow> (map_option (key_at head) r, Some head)))"

definition tfind :: "'k comparison \<Rightarrow> 'k option \<Rightarrow> 'k hs_base option \<Rightarrow> 'k option option" where
  "tfind compar key rootp =
     (case rootp of
        None \<Rightarrow> None
      | Some head \<Rightarrow>
          (case tsearch_inner compar only_find key head of
             (r, head, _) \<Rightarrow> map_option (key_at head) r))"

definition remove_at :: "nat \<Rightarrow> 'a list \<Rightarrow> 'a list" where
  "remove_at j xs = take j xs @ drop (Suc j) xs"

definition tdelete ::
  "'k comparison \<Rightarrow> 'k option \<Rightarrow> 'k hs_base option \<Rightarrow> 'k option option \<times> 'k hs_base option"
where
  "tdelete compar key rootp =
     (case rootp of
        None \<Rightarrow> (None, None)
      | Some head \<Rightarrow>
          (case tsearch_inner compar want_delete key head of
             (None, head, _) \<Rightarrow> (None, Some head)
           | (Some (In_Chain i j), head, _) \<Rightarrow>
               let s = hashtab head ! i; parent = (if j = 0 then keyptr s else chain s ! (j - 1)) in
               (Some parent,
                Some (head\<lparr>record_count := record_count head - 1,
                       hashtab := (hashtab head)[i := s\<lparr>chain := remove_at j (chain s)\<rparr>]\<rparr>))
           | (Some (In_Tab i), head, _) \<Rightarrow>
               (case chain (hashtab head ! i) of
                  pullup # rest \<Rightarrow>
                    (Some pullup,
                     Some (head\<lparr>record_count := record_count head - 1,
                       hashtab := (hashtab head)[i := \<lparr>keyptr = pullup, entryused = True, chain = rest\<rparr>]\<rparr>))
                | [] \<Rightarrow>
                    (None,
                     Some (head\<lparr>record_count := record_count head - 1,
                       hashtab := (hashtab head)[i := empty_entry]\<rparr>)))))"

text \<open>The keys \<open>dwarf_twalk\<close> calls the action on, in order, and those \<open>dwarf_tdestroy\<close> frees.\<close>

definition twalk_keys :: "'k hs_base option \<Rightarrow> 'k option list" where
  "twalk_keys rootp =
     (case rootp of
        None \<Rightarrow> []
      | Some head \<Rightarrow> concat (map (\<lambda>p. (if keyptr p \<noteq> None then [keyptr p] else []) @ chain p) (hashtab head)))"

definition twalk :: "('k option \<Rightarrow> 's \<Rightarrow> 's) \<Rightarrow> 'k hs_base option \<Rightarrow> 's \<Rightarrow> 's" where
  "twalk action rootp = fold action (twalk_keys rootp)"

definition tdestroy_keys :: "'k hs_base option \<Rightarrow> 'k option list" where
  "tdestroy_keys rootp =
     (case rootp of
        None \<Rightarrow> []
      | Some head \<Rightarrow> concat (map (\<lambda>p. (if keyptr p \<noteq> None \<and> entryused p then [keyptr p] else []) @ chain p)
          (hashtab head)))"

section \<open>Well-formed tables\<close>

definition slot_keys :: "'k ts_entry \<Rightarrow> 'k option list" where
  "slot_keys s = (if entryused s then [keyptr s] else []) @ chain s"

definition elems :: "'k hs_base \<Rightarrow> 'k option list" where
  "elems head = concat (map slot_keys (hashtab head))"

definition slot_ok :: "('k option \<Rightarrow> u64) \<Rightarrow> 'k comparison \<Rightarrow> nat \<Rightarrow> nat \<Rightarrow> 'k ts_entry \<Rightarrow> bool" where
  "slot_ok hf compar n i s \<longleftrightarrow>
     (entryused s \<or> s = empty_entry) \<and> None \<notin> set (slot_keys s) \<and>
     (\<forall>k \<in> set (slot_keys s). unat (hf k) mod n = i) \<and>
     sorted_wrt (\<lambda>a b. compar a b \<noteq> 0) (slot_keys s)"

definition table_ok :: "('k option \<Rightarrow> u64) \<Rightarrow> 'k comparison \<Rightarrow> 'k hs_base \<Rightarrow> bool" where
  "table_ok hf compar head \<longleftrightarrow>
     0 < tablesize head \<and> length (hashtab head) = tablesize head \<and> hashfunc head = Some hf \<and>
     (\<forall>i < tablesize head. slot_ok hf compar (tablesize head) i (hashtab head ! i)) \<and>
     record_count head = length (elems head)"

definition contents :: "'k hs_base option \<Rightarrow> 'k option multiset" where
  "contents t = (case t of None \<Rightarrow> {#} | Some head \<Rightarrow> mset (elems head))"

text \<open>The fill: one record more than allowed until the next insertion, any number once the primes run out.\<close>

definition size_ok :: "'k hs_base \<Rightarrow> bool" where
  "size_ok head \<longleftrightarrow>
     tablesize_entry_index head < 20 \<and> tablesize head = primes ! tablesize_entry_index head \<and>
     allowed_fill head = calculate_allowed_fill allowed_fill_percent (tablesize head) \<and>
     (record_count head \<le> allowed_fill head + 1 \<or> tablesize_entry_index head = 19)"

definition table_inv :: "('k option \<Rightarrow> u64) \<Rightarrow> 'k comparison \<Rightarrow> 'k hs_base option \<Rightarrow> bool" where
  "table_inv hf compar t \<longleftrightarrow> (\<exists>h. t = Some h \<and> table_ok hf compar h \<and> size_ok h)"

lemma slot_keys_empty [simp]: "slot_keys empty_entry = []"
  by (simp add: slot_keys_def empty_entry_def)

lemma slot_keys_make [simp]:
  "slot_keys \<lparr>keyptr = k, entryused = u, chain = cs\<rparr> = (if u then [k] else []) @ cs"
  by (simp add: slot_keys_def)

lemma elems_replicate: "concat (map slot_keys (replicate n empty_entry)) = []"
  by (induction n) simp_all

lemma mset_concat_update:
  "i < length xs \<Longrightarrow>
   mset (concat (map f (xs[i := y]))) + mset (f (xs ! i)) = mset (concat (map f xs)) + mset (f y)"
  by (induction xs arbitrary: i) (auto split: nat.splits simp: ac_simps add_mset_commute)

lemma elems_update:
  assumes "i < length (hashtab head)"
  shows "mset (elems (head\<lparr>record_count := c, hashtab := (hashtab head)[i := y]\<rparr>)) + mset (slot_keys (hashtab head ! i)) =
    mset (elems head) + mset (slot_keys y)"
  using mset_concat_update [OF assms, of slot_keys y] by (simp add: elems_def)

lemma slot_in_elems: "i < length (hashtab head) \<Longrightarrow> k \<in> set (slot_keys (hashtab head ! i)) \<Longrightarrow> k \<in> set (elems head)"
  by (auto simp: elems_def)

lemma chain_find_Some:
  "chain_find compar key cs i = Some j \<Longrightarrow> i \<le> j \<and> j - i < length cs \<and> compar key (cs ! (j - i)) = 0"
proof (induction cs arbitrary: i)
  case (Cons c cs)
  show ?case
  proof (cases "compar key c = 0")
    case False
    then have *: "Suc i \<le> j \<and> j - Suc i < length cs \<and> compar key (cs ! (j - Suc i)) = 0"
      using Cons.IH [of "Suc i"] Cons.prems by simp
    then have "j - i = Suc (j - Suc i)" by linarith
    then show ?thesis using * by simp
  qed (use Cons.prems in simp)
qed simp

lemma chain_find_None: "chain_find compar key cs i = None \<longleftrightarrow> (\<forall>c \<in> set cs. compar key c \<noteq> 0)"
  by (induction cs arbitrary: i) auto

lemma primes_grow:
  "k < 19 \<Longrightarrow> calculate_allowed_fill allowed_fill_percent (primes ! k) + 1 \<le>
     calculate_allowed_fill allowed_fill_percent (primes ! Suc k) \<and>
   primes ! Suc k \<noteq> 0 \<and> primes ! Suc k div 2 \<le> calculate_allowed_fill allowed_fill_percent (primes ! Suc k)"
proof -
  have "\<forall>k \<in> {..< 19 :: nat}. calculate_allowed_fill allowed_fill_percent (primes ! k) + 1 \<le>
     calculate_allowed_fill allowed_fill_percent (primes ! Suc k) \<and>
   primes ! Suc k \<noteq> 0 \<and> primes ! Suc k div 2 \<le> calculate_allowed_fill allowed_fill_percent (primes ! Suc k)"
    by (simp add: lessThan_nat_numeral lessThan_Suc primes_def calculate_allowed_fill_def allowed_fill_percent_def)
  then show "k < 19 \<Longrightarrow> ?thesis" by blast
qed


lemma sorted_wrt_irrefl_eq:
  assumes "k \<in> set xs" "l \<in> set xs" "sorted_wrt P xs" "\<not> P k l" "\<not> P l k"
  shows "k = l"
  using assms by (induction xs) auto

lemma sorted_wrt_concat_map:
  "sorted_wrt (\<lambda>x y. \<forall>a \<in> set (f x). \<forall>b \<in> set (f y). P a b) xs \<Longrightarrow> \<forall>x \<in> set xs. sorted_wrt P (f x) \<Longrightarrow>
   sorted_wrt P (concat (map f xs))"
  by (induction xs) (auto simp: sorted_wrt_append)

lemma remove_at_split:
  "j < length xs \<Longrightarrow> xs = take j xs @ xs ! j # drop (Suc j) xs \<and> remove_at j xs = take j xs @ drop (Suc j) xs"
  by (simp add: remove_at_def id_take_nth_drop)

lemma mset_remove_at: "j < length xs \<Longrightarrow> add_mset (xs ! j) (mset (remove_at j xs)) = mset xs"
  using remove_at_split [of j xs] by (metis mset.simps(2) mset_append union_mset_add_mset_right)

lemma set_remove_at: "set (remove_at j xs) \<subseteq> set xs"
  by (auto simp: remove_at_def dest: in_set_takeD in_set_dropD)

lemma sorted_wrt_remove_at:
  assumes "sorted_wrt P xs" "j < length xs"
  shows "sorted_wrt P (remove_at j xs)"
proof -
  have "sorted_wrt P (take j xs @ xs ! j # drop (Suc j) xs)"
    using assms remove_at_split [of j xs] by simp
  then show ?thesis by (auto simp: remove_at_def sorted_wrt_append)
qed

lemma pick_prime_Some:
  "pick_prime est ps k = Some (i, p) \<Longrightarrow> k \<le> i \<and> i - k < length ps \<and> p = ps ! (i - k) \<and> p \<noteq> 0 \<and> est \<le> p"
proof (induction ps arbitrary: k)
  case (Cons q ps)
  show ?case
  proof (cases "q \<noteq> 0 \<and> est \<noteq> 0 \<and> est > q")
    case True
    then have *: "Suc k \<le> i \<and> i - Suc k < length ps \<and> p = ps ! (i - Suc k) \<and> p \<noteq> 0 \<and> est \<le> p"
      using Cons.IH [of "Suc k"] Cons.prems by simp
    then have "i - k = Suc (i - Suc k)" by linarith
    then show ?thesis using * by simp
  qed (use Cons.prems in \<open>auto split: if_splits\<close>)
qed simp

lemma sorted_wrt_neq_distinct: "sorted_wrt (\<noteq>) xs \<Longrightarrow> distinct xs"
  by (induction xs) auto

lemma initialize_succeeds:
  assumes "est \<le> 800000573"
  shows "\<exists>h. initialize_search_hash None hf est = Some h"
proof -
  have "\<exists>i p. pick_prime est primes 0 = Some (i, p)"
    using assms by (simp add: primes_def)
  then obtain i p where p: "pick_prime est primes 0 = Some (i, p)" by blast
  note q = pick_prime_Some [OF p]
  have "i \<noteq> 20" using q by (auto simp: primes_def)
  moreover have "i < 21" using q by (simp add: primes_def)
  ultimately have i: "i < 20" by linarith
  have "\<not> calculate_allowed_fill allowed_fill_percent p < p div 2"
  proof (cases i)
    case 0
    then show ?thesis using q by (simp add: primes_def calculate_allowed_fill_def allowed_fill_percent_def)
  next
    case (Suc j)
    then show ?thesis using primes_grow [of j] q i by simp
  qed
  then show ?thesis using p by (simp add: initialize_search_hash_def Let_def)
qed

section \<open>Searching a slot\<close>

text \<open>What a caller's hash function and comparison have to satisfy.\<close>

locale hash_keys =
  fixes hf :: "'k option \<Rightarrow> u64" and compar :: "'k comparison"
  assumes compar_refl: "compar k k = 0"
    and compar_sym: "compar k l = 0 \<Longrightarrow> compar l k = 0"
    and compar_trans: "compar k l = 0 \<Longrightarrow> compar l m = 0 \<Longrightarrow> compar k m = 0"
    and hash_respects: "compar k l = 0 \<Longrightarrow> hf k = hf l"
begin

lemma in_own_slot:
  assumes "table_ok hf compar head" "k \<in> set (elems head)" "compar key k = 0"
  shows "k \<in> set (slot_keys (hashtab head ! (unat (hf key) mod tablesize head)))"
proof -
  obtain i where i: "i < length (hashtab head)" "k \<in> set (slot_keys (hashtab head ! i))"
    using assms(2) by (auto simp: elems_def in_set_conv_nth [of _ "hashtab head"])
  then have "unat (hf k) mod tablesize head = i"
    using assms(1) by (auto simp: table_ok_def slot_ok_def)
  then show ?thesis using i(2) hash_respects [OF assms(3)] by simp
qed

lemma own_slot_unique:
  assumes "table_ok hf compar head" "k \<in> set (elems head)" "l \<in> set (elems head)" "compar k l = 0"
  shows "k = l"
proof -
  let ?s = "hashtab head ! (unat (hf k) mod tablesize head)"
  have "k \<in> set (slot_keys ?s)" "l \<in> set (slot_keys ?s)"
    using in_own_slot [OF assms(1,2) compar_refl] in_own_slot [OF assms(1,3,4)] by simp_all
  moreover have "sorted_wrt (\<lambda>a b. compar a b \<noteq> 0) (slot_keys ?s)"
    using assms(1) by (simp add: table_ok_def slot_ok_def)
  ultimately show ?thesis
    by (rule sorted_wrt_irrefl_eq) (use assms(4) compar_sym [OF assms(4)] in simp_all)
qed

lemma table_ok_update:
  assumes "table_ok hf compar head" "i < tablesize head" "slot_ok hf compar (tablesize head) i s"
    and "int c = int (record_count head) + int (length (slot_keys s)) - int (length (slot_keys (hashtab head ! i)))"
  shows "table_ok hf compar (head\<lparr>record_count := c, hashtab := (hashtab head)[i := s]\<rparr>)"
proof -
  have i: "i < length (hashtab head)" using assms(1,2) by (simp add: table_ok_def)
  have "length (elems (head\<lparr>record_count := c, hashtab := (hashtab head)[i := s]\<rparr>)) +
      length (slot_keys (hashtab head ! i)) = length (elems head) + length (slot_keys s)"
    using arg_cong [OF elems_update [OF i, where c = c and y = s], of size] by simp
  moreover have "record_count head = length (elems head)" using assms(1) by (simp add: table_ok_def)
  ultimately have "c = length (elems (head\<lparr>record_count := c, hashtab := (hashtab head)[i := s]\<rparr>))"
    using assms(4) by linarith
  then show ?thesis using assms(1,2,3)
    by (auto simp: table_ok_def nth_list_update elems_def)
qed

lemma search_slot_found:
  assumes "table_ok hf compar head" "k \<in> set (elems head)" "compar key k = 0"
  shows "\<exists>pl. search_slot compar intent key hf head = (Some pl, head, False) \<and> key_at head pl = k \<and>
    (case pl of In_Tab i \<Rightarrow> i < tablesize head \<and> entryused (hashtab head ! i)
     | In_Chain i j \<Rightarrow> i < tablesize head \<and> entryused (hashtab head ! i) \<and> j < length (chain (hashtab head ! i)))"
proof -
  let ?h = "unat (hf key) mod tablesize head"
  let ?s = "hashtab head ! ?h"
  have h: "?h < tablesize head" "?h < length (hashtab head)" using assms(1) by (simp_all add: table_ok_def)
  have ok: "slot_ok hf compar (tablesize head) ?h ?s" using assms(1) h by (simp add: table_ok_def)
  have k: "k \<in> set (slot_keys ?s)" by (rule in_own_slot [OF assms])
  then have u: "entryused ?s" using ok by (auto simp: slot_ok_def)
  have eq: "l = k" if "l \<in> set (slot_keys ?s)" "compar key l = 0" for l
    using own_slot_unique [OF assms(1) slot_in_elems [OF h(2) that(1)] assms(2)]
      compar_trans [OF compar_sym [OF that(2)] assms(3)] by simp
  show ?thesis
  proof (cases "compar key (keyptr ?s) = 0")
    case True
    then have "keyptr ?s = k" using eq u by (simp add: slot_keys_def)
    then show ?thesis using True u h by (simp add: search_slot_def Let_def key_at_def)
  next
    case False
    then have "\<exists>c \<in> set (chain ?s). compar key c = 0"
      using k assms(3) by (auto simp: slot_keys_def split: if_splits)
    then obtain j where j: "chain_find compar key (chain ?s) 0 = Some j"
      using chain_find_None [of compar key "chain ?s" 0] by fastforce
    note js = chain_find_Some [OF j]
    then have "chain ?s ! j = k" using eq [of "chain ?s ! j"] by (simp add: slot_keys_def)
    then show ?thesis using False u j js h by (simp add: search_slot_def Let_def key_at_def)
  qed
qed

lemma search_slot_absent:
  assumes "table_ok hf compar head" "\<And>k. k \<in> set (elems head) \<Longrightarrow> compar key k \<noteq> 0"
  shows "intent \<noteq> want_insert \<Longrightarrow> search_slot compar intent key hf head = (None, head, False)"
    and "key \<noteq> None \<Longrightarrow> \<exists>pl s. search_slot compar want_insert key hf head =
        (Some pl, head\<lparr>record_count := record_count head + 1, hashtab := s\<rparr>, True) \<and>
      key_at (head\<lparr>record_count := record_count head + 1, hashtab := s\<rparr>) pl = key \<and>
      table_ok hf compar (head\<lparr>record_count := record_count head + 1, hashtab := s\<rparr>) \<and>
      mset (elems (head\<lparr>record_count := record_count head + 1, hashtab := s\<rparr>)) = add_mset key (mset (elems head))"
proof -
  let ?h = "unat (hf key) mod tablesize head"
  let ?s = "hashtab head ! ?h"
  have h: "?h < tablesize head" "?h < length (hashtab head)" using assms(1) by (simp_all add: table_ok_def)
  have ok: "slot_ok hf compar (tablesize head) ?h ?s" using assms(1) h by (simp add: table_ok_def)
  have no: "compar key k \<noteq> 0" if "k \<in> set (slot_keys ?s)" for k
    using assms(2) slot_in_elems [OF h(2) that] by blast
  then have c: "entryused ?s \<Longrightarrow> compar key (keyptr ?s) \<noteq> 0" "chain_find compar key (chain ?s) 0 = None"
    by (simp_all add: slot_keys_def chain_find_None)
  show "intent \<noteq> want_insert \<Longrightarrow> search_slot compar intent key hf head = (None, head, False)"
    using c by (simp add: search_slot_def Let_def)
  assume nk: "key \<noteq> None"
  show "\<exists>pl s. search_slot compar want_insert key hf head =
        (Some pl, head\<lparr>record_count := record_count head + 1, hashtab := s\<rparr>, True) \<and>
      key_at (head\<lparr>record_count := record_count head + 1, hashtab := s\<rparr>) pl = key \<and>
      table_ok hf compar (head\<lparr>record_count := record_count head + 1, hashtab := s\<rparr>) \<and>
      mset (elems (head\<lparr>record_count := record_count head + 1, hashtab := s\<rparr>)) = add_mset key (mset (elems head))"
  proof (cases "entryused ?s")
    case False
    let ?n = "\<lparr>keyptr = key, entryused = True, chain = []\<rparr>"
    have e: "?s = empty_entry" using ok False by (simp add: slot_ok_def)
    have "slot_ok hf compar (tablesize head) ?h ?n"
      using nk by (auto simp: slot_ok_def slot_keys_def)
    then have "table_ok hf compar (head\<lparr>record_count := record_count head + 1, hashtab := (hashtab head)[?h := ?n]\<rparr>)"
      by (rule table_ok_update [OF assms(1) h(1)]) (simp add: e)
    moreover have "mset (elems (head\<lparr>record_count := record_count head + 1, hashtab := (hashtab head)[?h := ?n]\<rparr>)) =
        add_mset key (mset (elems head))"
      using elems_update [OF h(2), where c = "record_count head + 1" and y = ?n] e by simp
    ultimately show ?thesis using False h
      by (intro exI [of _ "In_Tab ?h"] exI [of _ "(hashtab head)[?h := ?n]"])
        (simp add: search_slot_def Let_def key_at_def)
  next
    case True
    let ?n = "?s\<lparr>chain := key # chain ?s\<rparr>"
    have "slot_ok hf compar (tablesize head) ?h ?n"
      using nk ok True no compar_sym by (auto simp: slot_ok_def slot_keys_def)
    then have "table_ok hf compar (head\<lparr>record_count := record_count head + 1, hashtab := (hashtab head)[?h := ?n]\<rparr>)"
      using table_ok_update [OF assms(1) h(1)] by (simp add: slot_keys_def)
    moreover have "mset (elems (head\<lparr>record_count := record_count head + 1, hashtab := (hashtab head)[?h := ?n]\<rparr>)) =
        add_mset key (mset (elems head))"
      using elems_update [OF h(2), where c = "record_count head + 1" and y = ?n] True by (simp add: slot_keys_def)
    ultimately show ?thesis using True h c
      by (intro exI [of _ "In_Chain ?h 0"] exI [of _ "(hashtab head)[?h := ?n]"])
        (simp add: search_slot_def Let_def key_at_def)
  qed
qed


lemma refill_spec:
  assumes "\<And>k h. record_count h \<le> allowed_fill h \<Longrightarrow> hashfunc h = Some hf \<Longrightarrow> ins k h = search_slot compar want_insert k hf h"
  shows "table_ok hf compar h \<Longrightarrow> None \<notin> set ks \<Longrightarrow> sorted_wrt (\<lambda>a b. compar a b \<noteq> 0) ks \<Longrightarrow>
    (\<And>k l. k \<in> set ks \<Longrightarrow> l \<in> set (elems h) \<Longrightarrow> compar k l \<noteq> 0) \<Longrightarrow>
    length (elems h) + length ks \<le> allowed_fill h + 1 \<Longrightarrow>
    \<exists>c s. refill ins ks h = Some (h\<lparr>record_count := c, hashtab := s\<rparr>) \<and>
      table_ok hf compar (h\<lparr>record_count := c, hashtab := s\<rparr>) \<and>
      mset (elems (h\<lparr>record_count := c, hashtab := s\<rparr>)) = mset (elems h) + mset ks"
proof (induction ks arbitrary: h)
  case Nil
  then show ?case by (intro exI [of _ "record_count h"] exI [of _ "hashtab h"]) simp
next
  case (Cons k ks)
  have rc: "record_count h \<le> allowed_fill h" "hashfunc h = Some hf"
    using Cons.prems(1,5) by (simp_all add: table_ok_def)
  have "k \<noteq> None" using Cons.prems(2) by (metis list.set_intros(1))
  then obtain pl s where s:
    "search_slot compar want_insert k hf h = (Some pl, h\<lparr>record_count := record_count h + 1, hashtab := s\<rparr>, True)"
    "table_ok hf compar (h\<lparr>record_count := record_count h + 1, hashtab := s\<rparr>)"
    "mset (elems (h\<lparr>record_count := record_count h + 1, hashtab := s\<rparr>)) = add_mset k (mset (elems h))"
    using search_slot_absent(2) [OF Cons.prems(1), of k] Cons.prems(4) by auto
  let ?h = "h\<lparr>record_count := record_count h + 1, hashtab := s\<rparr>"
  have set: "set (elems ?h) = insert k (set (elems h))" "length (elems ?h) = length (elems h) + 1"
    using arg_cong [OF s(3), of set_mset] arg_cong [OF s(3), of size] by simp_all
  have "\<exists>c t. refill ins ks ?h = Some (?h\<lparr>record_count := c, hashtab := t\<rparr>) \<and>
      table_ok hf compar (?h\<lparr>record_count := c, hashtab := t\<rparr>) \<and>
      mset (elems (?h\<lparr>record_count := c, hashtab := t\<rparr>)) = mset (elems ?h) + mset ks"
  proof (rule Cons.IH [OF s(2)])
    fix a l assume "a \<in> set ks" "l \<in> set (elems ?h)"
    then have "a \<in> set ks" "l = k \<or> l \<in> set (elems h)" using set(1) by auto
    then show "compar a l \<noteq> 0"
      using Cons.prems(3,4) compar_sym by auto
  qed (use Cons.prems set in simp_all)
  then show ?case using s(1,3) assms [OF rc, of k] by simp
qed

lemma keys_to_move_eq:
  "slot_ok hf compar n i s \<Longrightarrow> keys_to_move s = slot_keys s"
  by (auto simp: keys_to_move_def slot_keys_def slot_ok_def empty_entry_def)

lemma moved_keys: "table_ok hf compar h \<Longrightarrow> concat (map keys_to_move (hashtab h)) = elems h"
  unfolding elems_def
  by (intro arg_cong [where f = concat] map_cong refl)
    (metis in_set_conv_nth keys_to_move_eq table_ok_def)

lemma elems_sorted:
  assumes "table_ok hf compar h"
  shows "sorted_wrt (\<lambda>a b. compar a b \<noteq> 0) (elems h)" "None \<notin> set (elems h)"
proof -
  have ok: "slot_ok hf compar (tablesize h) i (hashtab h ! i)" if "i < length (hashtab h)" for i
    using assms that by (simp add: table_ok_def)
  have "compar a b \<noteq> 0" if "i < j" "j < length (hashtab h)" "a \<in> set (slot_keys (hashtab h ! i))"
    "b \<in> set (slot_keys (hashtab h ! j))" for i j a b
    using ok [of i] ok [OF that(2)] that hash_respects [of a b] by (auto simp: slot_ok_def)
  then have "sorted_wrt (\<lambda>x y. \<forall>a \<in> set (slot_keys x). \<forall>b \<in> set (slot_keys y). compar a b \<noteq> 0) (hashtab h)"
    by (auto simp: sorted_wrt_iff_nth_less)
  moreover have "\<forall>x \<in> set (hashtab h). sorted_wrt (\<lambda>a b. compar a b \<noteq> 0) (slot_keys x)"
    using ok by (auto simp: slot_ok_def in_set_conv_nth [of _ "hashtab h"])
  ultimately show "sorted_wrt (\<lambda>a b. compar a b \<noteq> 0) (elems h)"
    unfolding elems_def by (rule sorted_wrt_concat_map)
  show "None \<notin> set (elems h)"
    using ok by (auto simp: elems_def slot_ok_def in_set_conv_nth [of _ "hashtab h"])
qed

lemma resize_table_spec:
  assumes t: "table_ok hf compar h" and s: "size_ok h" and full: "record_count h > allowed_fill h"
    and ins: "\<And>k g. record_count g \<le> allowed_fill g \<Longrightarrow> hashfunc g = Some hf \<Longrightarrow>
      ins k g = search_slot compar want_insert k hf g"
  shows "table_ok hf compar (resize_table ins h) \<and> size_ok (resize_table ins h) \<and>
    mset (elems (resize_table ins h)) = mset (elems h) \<and>
    (record_count (resize_table ins h) \<le> allowed_fill (resize_table ins h) \<or>
     tablesize_entry_index (resize_table ins h) = 19)"
proof (cases "tablesize_entry_index h = 19")
  case True
  then have "resize_table ins h = h" by (simp add: resize_table_def primes_def)
  then show ?thesis using t s True by simp
next
  case False
  let ?i = "tablesize_entry_index h"
  have i: "?i < 19" using s False by (simp add: size_ok_def)
  note p = primes_grow [OF i]
  let ?a = "calculate_allowed_fill allowed_fill_percent (primes ! Suc ?i)"
  let ?n = "h\<lparr>record_count := 0, tablesize := primes ! Suc ?i, allowed_fill := ?a,
      tablesize_entry_index := Suc ?i, hashtab := replicate (primes ! Suc ?i) empty_entry\<rparr>"
  have e: "elems ?n = []" by (simp add: elems_def elems_replicate del: map_replicate)
  have n: "table_ok hf compar ?n"
    using p t e by (simp add: table_ok_def slot_ok_def)
  have c: "record_count h = allowed_fill h + 1" "record_count h = length (elems h)"
    "allowed_fill h = calculate_allowed_fill allowed_fill_percent (primes ! ?i)"
    using s full False t by (auto simp: size_ok_def table_ok_def)
  obtain c s' where r: "refill ins (elems h) ?n = Some (?n\<lparr>record_count := c, hashtab := s'\<rparr>)"
    "table_ok hf compar (?n\<lparr>record_count := c, hashtab := s'\<rparr>)"
    "mset (elems (?n\<lparr>record_count := c, hashtab := s'\<rparr>)) = mset (elems h)"
    using refill_spec [OF ins n elems_sorted(2) [OF t] elems_sorted(1) [OF t]] e c p by auto
  have "resize_table ins h = ?n\<lparr>record_count := c, hashtab := s'\<rparr>"
    using p r(1) moved_keys [OF t] by (simp add: resize_table_def Let_def)
  moreover have "c = length (elems h)"
    using r(2) arg_cong [OF r(3), of size] by (simp add: table_ok_def)
  moreover from this have "size_ok (?n\<lparr>record_count := c, hashtab := s'\<rparr>)"
    using c p i by (simp add: size_ok_def)
  ultimately show ?thesis using r c p by simp
qed


lemma tsearch_at_eq:
  assumes "table_ok hf compar h" "size_ok h"
  obtains g where "tsearch_at (Suc d) compar intent key h = search_slot compar intent key hf g"
    "table_ok hf compar g" "size_ok g" "mset (elems g) = mset (elems h)" "intent \<noteq> want_insert \<Longrightarrow> g = h"
    "intent = want_insert \<Longrightarrow> record_count g \<le> allowed_fill g \<or> tablesize_entry_index g = 19"
proof -
  have h: "hashfunc h = Some hf" using assms(1) by (simp add: table_ok_def)
  show thesis
  proof (cases "intent = want_insert \<and> record_count h > allowed_fill h")
    case True
    let ?ins = "\<lambda>k. tsearch_at d compar want_insert k"
    have ins: "?ins k g = search_slot compar want_insert k hf g"
      if "record_count g \<le> allowed_fill g" "hashfunc g = Some hf" for k g
      using that by (cases d) simp_all
    have r: "table_ok hf compar (resize_table ?ins h) \<and> size_ok (resize_table ?ins h) \<and>
        mset (elems (resize_table ?ins h)) = mset (elems h) \<and>
        (record_count (resize_table ?ins h) \<le> allowed_fill (resize_table ?ins h) \<or>
         tablesize_entry_index (resize_table ?ins h) = 19)"
      by (rule resize_table_spec [OF assms]) (use True ins in blast)+
    have "tsearch_at (Suc d) compar intent key h = search_slot compar intent key hf (resize_table ?ins h)"
      using True h by simp
    then show thesis using that [of "resize_table ?ins h"] r True by blast
  next
    case False
    then have "tsearch_at (Suc d) compar intent key h = search_slot compar intent key hf h"
      using h by auto
    moreover have "intent = want_insert \<Longrightarrow> record_count h \<le> allowed_fill h" using False by linarith
    ultimately show thesis using that [of h] assms by blast
  qed
qed


section \<open>The operations on well-formed tables\<close>

lemma inner_eq: "tsearch_inner = tsearch_at (Suc 20)"
proof -
  have "length primes = Suc 20" by (simp add: primes_def)
  then show ?thesis by (simp only: tsearch_inner_def)
qed

lemma inner_lookup:
  assumes "table_ok hf compar h" "size_ok h" "intent \<noteq> want_insert"
  shows "tsearch_inner compar intent key h = search_slot compar intent key hf h"
  unfolding inner_eq
  by (rule tsearch_at_eq [OF assms(1,2), where d = 20 and intent = intent and key = key])
    (use assms(3) in blast)

lemma tfind_found:
  assumes "table_inv hf compar t" "k \<in># contents t" "compar key k = 0"
  shows "tfind compar key t = Some k"
proof -
  obtain h where h: "t = Some h" "table_ok hf compar h" "size_ok h"
    using assms(1) by (auto simp: table_inv_def)
  have "tsearch_inner compar only_find key h = search_slot compar only_find key hf h"
    by (rule inner_lookup [OF h(2,3)]) simp
  moreover have "k \<in> set (elems h)" using assms(2) h(1) by (simp add: contents_def)
  from search_slot_found [OF h(2) this assms(3), of only_find]
  obtain pl where "search_slot compar only_find key hf h = (Some pl, h, False)" "key_at h pl = k" by blast
  ultimately show ?thesis using h(1) by (simp add: tfind_def)
qed

lemma tfind_absent:
  assumes "table_inv hf compar t" "\<And>k. k \<in># contents t \<Longrightarrow> compar key k \<noteq> 0"
  shows "tfind compar key t = None"
proof -
  obtain h where h: "t = Some h" "table_ok hf compar h" "size_ok h"
    using assms(1) by (auto simp: table_inv_def)
  have "tsearch_inner compar only_find key h = search_slot compar only_find key hf h"
    by (rule inner_lookup [OF h(2,3)]) simp
  then show ?thesis using search_slot_absent(1) [OF h(2), of key only_find] assms(2) h(1)
    by (simp add: tfind_def contents_def)
qed

lemma tsearch_present:
  assumes "table_inv hf compar t" "k \<in># contents t" "compar key k = 0" "tsearch compar key t = (r, t')"
  shows "table_inv hf compar t' \<and> r = Some k \<and> contents t' = contents t"
proof -
  obtain h where h: "t = Some h" "table_ok hf compar h" "size_ok h"
    using assms(1) by (auto simp: table_inv_def)
  obtain g where g: "tsearch_inner compar want_insert key h = search_slot compar want_insert key hf g"
    "table_ok hf compar g" "size_ok g" "mset (elems g) = mset (elems h)"
    unfolding inner_eq
    by (rule tsearch_at_eq [OF h(2,3), where d = 20 and intent = want_insert and key = key]) blast
  have "k \<in> set (elems g)" using assms(2) h(1) mset_eq_setD [OF g(4)] by (simp add: contents_def)
  from search_slot_found [OF g(2) this assms(3), of want_insert] assms(4) h(1) g show ?thesis
    by (auto simp: tsearch_def table_inv_def contents_def)
qed

lemma tsearch_absent:
  assumes "table_inv hf compar t" "\<And>k. k \<in># contents t \<Longrightarrow> compar key k \<noteq> 0" "key \<noteq> None"
    and "tsearch compar key t = (r, t')"
  shows "table_inv hf compar t' \<and> r = Some key \<and> contents t' = add_mset key (contents t)"
proof -
  obtain h where h: "t = Some h" "table_ok hf compar h" "size_ok h"
    using assms(1) by (auto simp: table_inv_def)
  obtain g where g: "tsearch_inner compar want_insert key h = search_slot compar want_insert key hf g"
    "table_ok hf compar g" "size_ok g" "mset (elems g) = mset (elems h)"
    "record_count g \<le> allowed_fill g \<or> tablesize_entry_index g = 19"
    unfolding inner_eq
    by (rule tsearch_at_eq [OF h(2,3), where d = 20 and intent = want_insert and key = key]) blast
  have no: "compar key k \<noteq> 0" if "k \<in> set (elems g)" for k
    using assms(2) that h(1) mset_eq_setD [OF g(4)] by (simp add: contents_def)
  obtain pl s where s:
    "search_slot compar want_insert key hf g = (Some pl, g\<lparr>record_count := record_count g + 1, hashtab := s\<rparr>, True)"
    "key_at (g\<lparr>record_count := record_count g + 1, hashtab := s\<rparr>) pl = key"
    "table_ok hf compar (g\<lparr>record_count := record_count g + 1, hashtab := s\<rparr>)"
    "mset (elems (g\<lparr>record_count := record_count g + 1, hashtab := s\<rparr>)) = add_mset key (mset (elems g))"
    using search_slot_absent(2) [OF g(2) no assms(3)] by blast
  moreover have "size_ok (g\<lparr>record_count := record_count g + 1, hashtab := s\<rparr>)"
    using g(3,5) by (auto simp: size_ok_def)
  ultimately show ?thesis using assms(4) h(1) g(1,4)
    by (auto simp: tsearch_def table_inv_def contents_def)
qed


lemma tdelete_absent:
  assumes "table_inv hf compar t" "\<And>k. k \<in># contents t \<Longrightarrow> compar key k \<noteq> 0"
  shows "tdelete compar key t = (None, t)"
proof -
  obtain h where h: "t = Some h" "table_ok hf compar h" "size_ok h"
    using assms(1) by (auto simp: table_inv_def)
  have "tsearch_inner compar want_delete key h = search_slot compar want_delete key hf h"
    by (rule inner_lookup [OF h(2,3)]) simp
  then show ?thesis using search_slot_absent(1) [OF h(2), of key want_delete] assms(2) h(1)
    by (simp add: tdelete_def contents_def)
qed

lemma delete_slot:
  assumes "table_ok hf compar h" "size_ok h" "i < tablesize h"
    and "slot_ok hf compar (tablesize h) i s" "add_mset k (mset (slot_keys s)) = mset (slot_keys (hashtab h ! i))"
  shows "table_inv hf compar (Some (h\<lparr>record_count := record_count h - 1, hashtab := (hashtab h)[i := s]\<rparr>)) \<and>
    add_mset k (contents (Some (h\<lparr>record_count := record_count h - 1, hashtab := (hashtab h)[i := s]\<rparr>))) =
      contents (Some h)"
proof -
  let ?h = "h\<lparr>record_count := record_count h - 1, hashtab := (hashtab h)[i := s]\<rparr>"
  have i: "i < length (hashtab h)" using assms(1,3) by (simp add: table_ok_def)
  have len: "length (slot_keys (hashtab h ! i)) = Suc (length (slot_keys s))"
    using arg_cong [OF assms(5), of size] by simp
  have m: "mset (elems ?h) + mset (slot_keys (hashtab h ! i)) = mset (elems h) + mset (slot_keys s)"
    by (rule elems_update [OF i])
  then have e: "add_mset k (mset (elems ?h)) = mset (elems h)"
    unfolding assms(5) [symmetric] by simp
  have "length (elems h) = Suc (length (elems ?h))"
    using arg_cong [OF e, of size] by simp
  then have "int (record_count h - 1) = int (record_count h) + int (length (slot_keys s)) -
      int (length (slot_keys (hashtab h ! i)))"
    using len assms(1) by (simp add: table_ok_def)
  from table_ok_update [OF assms(1,3,4) this] have "table_ok hf compar ?h" .
  moreover have "size_ok ?h" using assms(2) by (auto simp: size_ok_def)
  ultimately show ?thesis using e by (simp add: table_inv_def contents_def)
qed

lemma tdelete_present:
  assumes "table_inv hf compar t" "k \<in># contents t" "compar key k = 0" "tdelete compar key t = (r, t')"
  shows "table_inv hf compar t' \<and> add_mset k (contents t') = contents t"
proof -
  obtain h where h: "t = Some h" "table_ok hf compar h" "size_ok h"
    using assms(1) by (auto simp: table_inv_def)
  have inner: "tsearch_inner compar want_delete key h = search_slot compar want_delete key hf h"
    by (rule inner_lookup [OF h(2,3)]) simp
  have "k \<in> set (elems h)" using assms(2) h(1) by (simp add: contents_def)
  from search_slot_found [OF h(2) this assms(3), of want_delete]
  obtain pl where pl: "search_slot compar want_delete key hf h = (Some pl, h, False)" "key_at h pl = k"
    "case pl of In_Tab i \<Rightarrow> i < tablesize h \<and> entryused (hashtab h ! i)
     | In_Chain i j \<Rightarrow> i < tablesize h \<and> entryused (hashtab h ! i) \<and> j < length (chain (hashtab h ! i))"
    by blast
  have ok: "slot_ok hf compar (tablesize h) i (hashtab h ! i)" if "i < tablesize h" for i
    using h(2) that by (simp add: table_ok_def)
  show ?thesis
  proof (cases pl)
    case (In_Chain i j)
    let ?s = "hashtab h ! i"
    have i: "i < tablesize h" "entryused ?s" "j < length (chain ?s)" "chain ?s ! j = k"
      using pl In_Chain by (simp_all add: key_at_def)
    let ?n = "?s\<lparr>chain := remove_at j (chain ?s)\<rparr>"
    have "slot_ok hf compar (tablesize h) i ?n"
      using ok [OF i(1)] i(2,3) set_remove_at [of j "chain ?s"] sorted_wrt_remove_at [of _ "chain ?s" j]
      by (auto simp: slot_ok_def slot_keys_def)
    moreover have "add_mset k (mset (slot_keys ?n)) = mset (slot_keys ?s)"
      using mset_remove_at [OF i(3)] i(2,4) by (simp add: slot_keys_def add_mset_commute)
    ultimately show ?thesis
      using delete_slot [OF h(2,3) i(1)] assms(4) inner pl(1) In_Chain h(1)
      by (auto simp: tdelete_def Let_def)
  next
    case (In_Tab i)
    let ?s = "hashtab h ! i"
    have i: "i < tablesize h" "entryused ?s" "keyptr ?s = k" using pl In_Tab by (simp_all add: key_at_def)
    show ?thesis
    proof (cases "chain ?s")
      case Nil
      have "slot_ok hf compar (tablesize h) i empty_entry" by (simp add: slot_ok_def)
      moreover have "add_mset k (mset (slot_keys empty_entry)) = mset (slot_keys ?s)"
        using i Nil by (simp add: slot_keys_def [of ?s])
      ultimately show ?thesis
        using delete_slot [OF h(2,3) i(1)] assms(4) inner pl(1) In_Tab h(1) Nil
        by (auto simp: tdelete_def Let_def)
    next
      case (Cons p ps)
      let ?n = "\<lparr>keyptr = p, entryused = True, chain = ps\<rparr>"
      have "slot_ok hf compar (tablesize h) i ?n"
        using ok [OF i(1)] i(2) Cons by (auto simp: slot_ok_def slot_keys_def [of ?s])
      moreover have "add_mset k (mset (slot_keys ?n)) = mset (slot_keys ?s)"
        using i Cons by (simp add: slot_keys_def [of ?s])
      ultimately show ?thesis
        using delete_slot [OF h(2,3) i(1)] assms(4) inner pl(1) In_Tab h(1) Cons
        by (auto simp: tdelete_def Let_def)
    qed
  qed
qed

lemma initialize_inv:
  assumes "initialize_search_hash None hf est = Some h"
  shows "table_inv hf compar (Some h) \<and> contents (Some h) = {#}"
proof -
  obtain i p where p: "pick_prime est primes 0 = Some (i, p)"
    using assms by (auto simp: initialize_search_hash_def split: option.splits)
  note q = pick_prime_Some [OF p]
  have "i \<noteq> 20" using q by (auto simp: primes_def)
  moreover have "i < 21" using q by (simp add: primes_def)
  ultimately have i: "i < 20" by linarith
  have h: "h = \<lparr>tablesize = p, tablesize_entry_index = i, allowed_fill =
      calculate_allowed_fill allowed_fill_percent p, record_count = 0, hashtab = replicate p empty_entry,
      hashfunc = Some hf\<rparr>"
    using assms p by (simp add: initialize_search_hash_def Let_def split: if_splits)
  have e: "elems h = []" unfolding elems_def h by (simp add: elems_replicate del: map_replicate)
  have "slot_ok hf compar p j empty_entry" for j by (simp add: slot_ok_def)
  then have "table_ok hf compar h" using q e by (simp add: table_ok_def h)
  moreover have "size_ok h" using q i by (simp add: size_ok_def h)
  ultimately show ?thesis using e by (simp add: table_inv_def contents_def)
qed

lemma twalk_contents: "table_inv hf compar t \<Longrightarrow> mset (twalk_keys t) = contents t"
  unfolding table_inv_def twalk_keys_def contents_def
  using moved_keys by (fastforce simp: keys_to_move_def [abs_def])


lemma contents_not_None: "table_inv hf compar t \<Longrightarrow> None \<notin># contents t"
  using elems_sorted(2) by (auto simp: table_inv_def contents_def)

lemma contents_distinct: "table_inv hf compar t \<Longrightarrow> count (contents t) k \<le> 1"
proof -
  assume "table_inv hf compar t"
  then obtain h where h: "t = Some h" "table_ok hf compar h" by (auto simp: table_inv_def)
  have "sorted_wrt (\<noteq>) (elems h)"
    by (rule sorted_wrt_mono_rel [OF _ elems_sorted(1) [OF h(2)]]) (use compar_refl in auto)
  then have "distinct (elems h)" by (rule sorted_wrt_neq_distinct)
  then show ?thesis using h(1) by (simp add: contents_def distinct_count_atmost_1)
qed

end

section \<open>Tables of records\<close>

text \<open>
  What the users of the table rely on: a collection of records of which no two are the same, looked up by sameness.
\<close>

locale record_table =
  fixes inv :: "'t \<Rightarrow> bool" and records :: "'t \<Rightarrow> 'r multiset" and same :: "'r \<Rightarrow> 'r \<Rightarrow> bool"
    and storable :: "'r \<Rightarrow> bool" and lookup :: "'r \<Rightarrow> 't \<Rightarrow> 'r option"
    and store :: "'r \<Rightarrow> 't \<Rightarrow> 'r option \<times> 't" and remove :: "'r \<Rightarrow> 't \<Rightarrow> 'r option \<times> 't"
  assumes same_refl: "same r r"
    and same_sym: "same r s \<Longrightarrow> same s r"
    and same_trans: "same r s \<Longrightarrow> same s q \<Longrightarrow> same r q"
    and records_once: "inv t \<Longrightarrow> count (records t) r \<le> 1"
    and lookup_found: "inv t \<Longrightarrow> r \<in># records t \<Longrightarrow> same k r \<Longrightarrow> lookup k t = Some r"
    and lookup_absent: "inv t \<Longrightarrow> (\<And>r. r \<in># records t \<Longrightarrow> \<not> same k r) \<Longrightarrow> lookup k t = None"
    and store_present: "inv t \<Longrightarrow> r \<in># records t \<Longrightarrow> same k r \<Longrightarrow> store k t = (x, t') \<Longrightarrow>
      inv t' \<and> x = Some r \<and> records t' = records t"
    and store_absent: "inv t \<Longrightarrow> (\<And>r. r \<in># records t \<Longrightarrow> \<not> same k r) \<Longrightarrow> storable k \<Longrightarrow> store k t = (x, t') \<Longrightarrow>
      inv t' \<and> x = Some k \<and> records t' = add_mset k (records t)"
    and remove_present: "inv t \<Longrightarrow> r \<in># records t \<Longrightarrow> same k r \<Longrightarrow> remove k t = (x, t') \<Longrightarrow>
      inv t' \<and> add_mset r (records t') = records t"
    and remove_absent: "inv t \<Longrightarrow> (\<And>r. r \<in># records t \<Longrightarrow> \<not> same k r) \<Longrightarrow> remove k t = (None, t)"
begin

lemma lookup_iff: "inv t \<Longrightarrow> lookup k t = Some r \<longleftrightarrow> r \<in># records t \<and> same k r"
  using lookup_found lookup_absent by (metis option.distinct(1) option.inject)

lemma lookup_None_iff: "inv t \<Longrightarrow> lookup k t = None \<longleftrightarrow> (\<forall>r \<in># records t. \<not> same k r)"
  using lookup_iff by (metis not_None_eq)

lemma same_unique:
  assumes "inv t" "r \<in># records t" "s \<in># records t" "same r s"
  shows "r = s"
  using lookup_found [OF assms(1,2) same_refl] lookup_found [OF assms(1,3,4)] by simp

lemma lookup_cong:
  assumes "inv t" "same k l"
  shows "lookup k t = lookup l t"
proof -
  have "lookup k t = Some r \<longleftrightarrow> lookup l t = Some r" for r
    using lookup_iff [OF assms(1)] same_trans assms(2) same_sym by blast
  then show ?thesis by (metis (full_types) not_None_eq)
qed

lemma store_cases:
  assumes "inv t" "storable k" "store k t = (x, t')"
  shows "inv t' \<and> (case lookup k t of Some r \<Rightarrow> x = Some r \<and> records t' = records t
    | None \<Rightarrow> x = Some k \<and> records t' = add_mset k (records t))"
proof (cases "lookup k t")
  case None
  then show ?thesis using store_absent [OF assms(1) _ assms(2,3)] lookup_None_iff [OF assms(1), of k] by simp
next
  case (Some r)
  then show ?thesis using store_present [OF assms(1) _ _ assms(3), of r] lookup_iff [OF assms(1), of k r] by simp
qed

lemma lookup_store:
  assumes "inv t" "storable k" "store k t = (x, t')"
  shows "lookup l t' = (if lookup l t = None \<and> same l k then Some k else lookup l t)"
proof -
  note c = store_cases [OF assms]
  have "lookup l t' = Some r \<longleftrightarrow> (if lookup l t = None \<and> same l k then r = k else lookup l t = Some r)" for r
  proof (cases "lookup k t")
    case (Some s)
    then have "lookup l t \<noteq> None" if "same l k"
      using lookup_iff [OF assms(1)] same_trans [OF that] by (metis option.distinct(1))
    moreover have "lookup l t' = Some r \<longleftrightarrow> lookup l t = Some r"
      using c Some lookup_iff [OF assms(1), of l r] lookup_iff [of t' l r] by simp
    ultimately show ?thesis by auto
  next
    case None
    then have no: "\<And>r. r \<in># records t \<Longrightarrow> \<not> same k r" using lookup_None_iff [OF assms(1)] by simp
    have t': "lookup l t' = Some r \<longleftrightarrow> (r = k \<or> r \<in># records t) \<and> same l r"
      using c None lookup_iff [of t' l r] by simp
    show ?thesis
    proof (cases "same l k")
      case True
      then have "\<not> same l r" if "r \<in># records t" for r
        using no [OF that] same_trans same_sym by blast
      then show ?thesis using t' True lookup_None_iff [OF assms(1)] by auto
    next
      case False
      then show ?thesis using t' lookup_iff [OF assms(1)] by auto
    qed
  qed
  then show ?thesis by (metis (full_types) not_None_eq)
qed

lemma lookup_remove:
  assumes "inv t" "remove k t = (x, t')"
  shows "inv t' \<and> lookup l t' = (if same l k then None else lookup l t)"
proof (cases "lookup k t")
  case None
  then have no: "\<And>r. r \<in># records t \<Longrightarrow> \<not> same k r" using lookup_None_iff [OF assms(1)] by simp
  then have "t' = t" using remove_absent [OF assms(1) no] assms(2) by simp
  moreover have "lookup l t = None" if "same l k"
    using no same_trans [OF same_sym [OF that]] lookup_None_iff [OF assms(1)] by blast
  ultimately show ?thesis using assms(1) by simp
next
  case (Some r)
  then have r: "r \<in># records t" "same k r" using lookup_iff [OF assms(1)] by simp_all
  note d = remove_present [OF assms(1) r assms(2)]
  have "lookup l t' = Some s \<longleftrightarrow> (if same l k then False else lookup l t = Some s)" for s
  proof -
    have "count (records t') r = 0"
      using records_once [OF assms(1), of r] arg_cong [OF conjunct2 [OF d], of "\<lambda>m. count m r"] by simp
    then have "r \<notin># records t'" by (simp add: not_in_iff)
    then have "s \<in># records t' \<longleftrightarrow> s \<in># records t \<and> s \<noteq> r"
      by (auto simp: conjunct2 [OF d, symmetric])
    moreover have "s = r" if "s \<in># records t" "same l s" "same l k"
      using lookup_found [OF assms(1)] that r same_trans same_sym by (metis option.inject)
    moreover have "\<not> same l k \<Longrightarrow> \<not> same l r" using r(2) same_trans same_sym by blast
    ultimately show ?thesis using d lookup_iff [OF assms(1), of l s] lookup_iff [of t' l s] by auto
  qed
  then show ?thesis using d by (metis (full_types) not_None_eq)
qed

text \<open>Storing one record after the other keeps, of records that are the same, the one that came first.\<close>

lemma lookup_fold_store:
  assumes "inv t" "records t = {#}" "\<forall>r \<in> set rs. storable r"
  shows "inv (fold (\<lambda>r t. snd (store r t)) rs t) \<and>
    lookup k (fold (\<lambda>r t. snd (store r t)) rs t) = find (same k) rs"
proof -
  have "inv (fold (\<lambda>r t. snd (store r t)) rs t) \<and>
      lookup k (fold (\<lambda>r t. snd (store r t)) rs t) =
        (case lookup k t of Some r \<Rightarrow> Some r | None \<Rightarrow> find (same k) rs)"
    if "inv t" "\<forall>r \<in> set rs. storable r" for t
    using that
  proof (induction rs arbitrary: t)
    case (Cons r rs)
    obtain x t' where s: "store r t = (x, t')" by fastforce
    have "inv t'" using store_cases [OF Cons.prems(1) _ s] Cons.prems(2) by simp
    then show ?case using Cons.IH [of t'] Cons.prems s lookup_store [OF Cons.prems(1) _ s, of k]
      by (auto split: option.splits)
  qed (auto split: option.splits)
  moreover have "lookup k t = None" using lookup_None_iff [OF assms(1)] assms(2) by simp
  ultimately show ?thesis using assms(1,3) by fastforce
qed

end

sublocale hash_keys \<subseteq> record_table "table_inv hf compar" contents "\<lambda>k l. compar k l = 0" "\<lambda>k. k \<noteq> None"
  "tfind compar" "tsearch compar" "tdelete compar"
proof (unfold_locales, goal_cases)
  case 1 show ?case by (rule compar_refl)
next
  case 2 then show ?case by (rule compar_sym)
next
  case 3 then show ?case by (rule compar_trans)
next
  case 4 then show ?case by (rule contents_distinct)
next
  case 5 then show ?case by (rule tfind_found)
next
  case 6 then show ?case by (rule tfind_absent)
next
  case 7 then show ?case by (rule tsearch_present)
next
  case 8 then show ?case by (rule tsearch_absent)
next
  case 9 then show ?case by (rule tdelete_present)
next
  case 10 then show ?case by (rule tdelete_absent)
qed

context hash_keys
begin

lemma fold_tsearch:
  assumes "initialize_search_hash None hf est = Some h" "None \<notin> set ks"
  shows "tfind compar key (fold (\<lambda>k t. snd (tsearch compar k t)) ks (Some h)) = find (\<lambda>k. compar key k = 0) ks"
proof -
  have "\<forall>k \<in> set ks. k \<noteq> None" using assms(2) by metis
  then show ?thesis using lookup_fold_store [of "Some h" ks key] initialize_inv [OF assms(1)] by simp
qed

end

section \<open>Properties\<close>

text \<open>
  C11: A table made by \<open>dwarf_initialize_search_hash\<close>, after any sequence of insertions and however often it was resized
  on the way, finds for a key the first record inserted that compares equal to it, and nothing when there was none,
  provided the comparison is an equivalence that the hash function respects.
\<close>

theorem tsearch_history:
  assumes "hash_keys hf compar" "initialize_search_hash None hf est = Some h" "None \<notin> set ks"
  shows "tfind compar key (fold (\<lambda>k t. snd (tsearch compar k t)) ks (Some h)) = find (\<lambda>k. compar key k = 0) ks"
  by (rule hash_keys.fold_tsearch [OF assms])

text \<open>Numbers that hash to their last digit and compare by their last two.\<close>

definition sample_hash :: "nat option \<Rightarrow> u64" where
  "sample_hash k = (case k of None \<Rightarrow> 0 | Some n \<Rightarrow> word_of_nat (n mod 10))"

definition sample_compare :: "nat option \<Rightarrow> nat option \<Rightarrow> int" where
  "sample_compare k l = (if map_option (\<lambda>n. n mod 100) k = map_option (\<lambda>n. n mod 100) l then 0 else 1)"

theorem tsearch_history_witness:
  "\<exists>h. initialize_search_hash None sample_hash 2 = Some h \<and>
     tfind sample_compare (Some 342)
       (fold (\<lambda>k t. snd (tsearch sample_compare k t)) [Some 12, Some 142, Some 242] (Some h)) = Some (Some 142)"
proof -
  have h: "sample_hash k = (case map_option (\<lambda>n. n mod 100) k of None \<Rightarrow> 0 | Some r \<Rightarrow> word_of_nat (r mod 10))" for k
    by (cases k) (simp_all add: sample_hash_def mod_mod_cancel)
  have c: "sample_compare k l = 0 \<longleftrightarrow> map_option (\<lambda>n. n mod 100) k = map_option (\<lambda>n. n mod 100) l" for k l
    by (simp add: sample_compare_def)
  have l: "hash_keys sample_hash sample_compare"
    by unfold_locales (unfold h c, simp_all only:)
  obtain h where h: "initialize_search_hash None sample_hash 2 = Some h"
    using initialize_succeeds [of 2 sample_hash] by auto
  have n: "None \<notin> set [Some 12, Some 142, Some (242 :: nat)]" by simp
  show ?thesis using tsearch_history [OF l h n, of "Some 342"] h by (simp add: sample_compare_def)
qed

end
