(* ===== verification/AllocTree.thy ===== *)
theory AllocTree
  imports Tsearch
begin

text \<open>
  The use \<open>dwarf_alloc.c\<close> makes of the hash table of \<open>dwarf_tsearchhash.c\<close>: a debug object remembers the addresses it
  has allocated, to tell a string it has to free from one that lies in a section. A record of this table is the address itself.
\<close>

definition uintptr :: "u64 option \<Rightarrow> u64" where
  "uintptr p = (case p of None \<Rightarrow> 0 | Some a \<Rightarrow> a)"

definition simple_value_hashfunc :: "u64 option \<Rightarrow> u64" where
  "simple_value_hashfunc keyp = uintptr keyp"

definition simple_compare_function :: "u64 option \<Rightarrow> u64 option \<Rightarrow> int" where
  "simple_compare_function l r =
     (if uintptr l < uintptr r then - 1 else if uintptr l > uintptr r then 1 else 0)"

lemma simple_compare_0 [simp]: "simple_compare_function l r = 0 \<longleftrightarrow> uintptr l = uintptr r"
  by (auto simp: simple_compare_function_def)

interpretation addresses: hash_keys simple_value_hashfunc simple_compare_function
  by unfold_locales (simp_all add: simple_value_hashfunc_def)

text \<open>The table \<open>_dwarf_get_debug\<close> makes; \<open>tree_on\<close> is \<open>global_de_alloc_tree_on\<close>.\<close>

definition get_debug_tree :: "bool \<Rightarrow> nat \<Rightarrow> u64 hs_base option" where
  "get_debug_tree tree_on filesize =
     (if tree_on then
        let size_est = filesize div 30;
            size_est = (if size_est > 2000000 then 2000000 else size_est)
        in initialize_search_hash None simple_value_hashfunc size_est
      else None)"

text \<open>The last step of \<open>_dwarf_get_alloc\<close>, for the address it is about to return.\<close>

definition record_alloc :: "bool \<Rightarrow> u64 \<Rightarrow> u64 hs_base option \<Rightarrow> u64 hs_base option" where
  "record_alloc tree_on key de_alloc_tree =
     (if tree_on then snd (tsearch simple_compare_function (Some key) de_alloc_tree) else de_alloc_tree)"

definition string_is_in_debug_section :: "u64 hs_base option \<Rightarrow> u64 \<Rightarrow> bool" where
  "string_is_in_debug_section de_alloc_tree space =
     (tfind simple_compare_function (Some space) de_alloc_tree = None)"

text \<open>The step of \<open>dwarf_dealloc\<close> that forgets an address before it is freed.\<close>

definition forget_alloc :: "u64 \<Rightarrow> u64 hs_base option \<Rightarrow> u64 hs_base option" where
  "forget_alloc space de_alloc_tree =
     (if de_alloc_tree \<noteq> None
      then snd (tdelete simple_compare_function (Some space) de_alloc_tree) else de_alloc_tree)"

section \<open>Histories\<close>

datatype alloc_event = Got u64 | Freed u64

fun apply_event :: "alloc_event \<Rightarrow> u64 hs_base option \<Rightarrow> u64 hs_base option" where
  "apply_event (Got a) t = record_alloc True a t"
| "apply_event (Freed a) t = forget_alloc a t"

fun live_after :: "alloc_event \<Rightarrow> u64 set \<Rightarrow> u64 set" where
  "live_after (Got a) l = insert a l"
| "live_after (Freed a) l = l - {a}"

definition tracks :: "u64 hs_base option \<Rightarrow> u64 set \<Rightarrow> bool" where
  "tracks t l \<longleftrightarrow> table_inv simple_value_hashfunc simple_compare_function t \<and>
     (\<forall>p. tfind simple_compare_function (Some p) t = (if p \<in> l then Some (Some p) else None))"

lemma apply_event_tracks:
  assumes "tracks t l"
  shows "tracks (apply_event e t) (live_after e l)"
proof (cases e)
  case (Got a)
  obtain x t' where t': "tsearch simple_compare_function (Some a) t = (x, t')" by fastforce
  have i: "table_inv simple_value_hashfunc simple_compare_function t" using assms by (simp add: tracks_def)
  show ?thesis using Got assms addresses.store_cases [OF i _ t'] addresses.lookup_store [OF i _ t']
    by (auto simp: tracks_def record_alloc_def t' uintptr_def split: if_splits)
next
  case (Freed a)
  obtain x t' where t': "tdelete simple_compare_function (Some a) t = (x, t')" by fastforce
  have i: "table_inv simple_value_hashfunc simple_compare_function t" using assms by (simp add: tracks_def)
  then have "t \<noteq> None" by (auto simp: table_inv_def)
  then show ?thesis using Freed assms addresses.lookup_remove [OF i t']
    by (auto simp: tracks_def forget_alloc_def t' uintptr_def split: if_splits)
qed

lemma get_debug_tree_tracks: "tracks (get_debug_tree True filesize) {}"
proof -
  let ?e = "if filesize div 30 > 2000000 then 2000000 else filesize div 30"
  have "?e \<le> 800000573" by simp
  from initialize_succeeds [OF this] obtain h where
    h: "initialize_search_hash None simple_value_hashfunc ?e = Some h" by blast
  have "tfind simple_compare_function k (Some h) = None" for k
    using addresses.lookup_None_iff [of "Some h" k] addresses.initialize_inv [OF h] by simp
  then show ?thesis using h addresses.initialize_inv [OF h]
    by (simp add: tracks_def get_debug_tree_def Let_def)
qed

section \<open>Properties\<close>

text \<open>
  Whatever allocations and deallocations a debug object has seen, a pointer counts as lying in a section, and is not freed as a
  string, exactly when it is not an address allocated and not freed since.
\<close>

theorem string_is_in_debug_section_iff:
  "string_is_in_debug_section (fold apply_event evs (get_debug_tree True filesize)) p \<longleftrightarrow>
     p \<notin> fold live_after evs {}"
proof -
  have "tracks (fold apply_event evs t) (fold live_after evs l)" if "tracks t l" for t l
    using that by (induction evs arbitrary: t l) (simp_all add: apply_event_tracks)
  from this [OF get_debug_tree_tracks] show ?thesis
    by (simp add: tracks_def string_is_in_debug_section_def)
qed

end
