(* ===== verification/SectionGroups.thy ===== *)
theory SectionGroups
  imports Tsearch
begin

text \<open>
  \<open>dwarf_groups.c\<close>: the map from object sections to section groups, kept in the hash table of
  \<open>dwarf_tsearchhash.c\<close>. A map entry carries its address, by which the code tells a new record from one found. The
  address a new entry gets from \<open>calloc\<close> is an argument; the static variables of the file are arguments and results.
\<close>

section \<open>Map entries\<close>

record group_entry =
  gm_ptr :: nat
  gm_key :: u32
  gm_group_number :: u32
  gm_section_name :: string

definition grp_make_entry :: "nat \<Rightarrow> u32 \<Rightarrow> u32 \<Rightarrow> string \<Rightarrow> group_entry" where
  "grp_make_entry addr section_index groupnum name =
     \<lparr>gm_ptr = addr, gm_key = section_index, gm_group_number = groupnum, gm_section_name = name\<rparr>"

text \<open>Both functions dereference their arguments, which are never null here.\<close>

definition grp_data_hashfunc :: "group_entry option \<Rightarrow> u64" where
  "grp_data_hashfunc keyp = ucast (gm_key (the keyp))"

definition grp_compare_function :: "group_entry option \<Rightarrow> group_entry option \<Rightarrow> int" where
  "grp_compare_function l r =
     (if gm_key (the l) < gm_key (the r) then - 1
      else if gm_key (the l) > gm_key (the r) then 1
      else 0)"

lemma grp_compare_0 [simp]: "grp_compare_function l r = 0 \<longleftrightarrow> gm_key (the l) = gm_key (the r)"
  by (auto simp: grp_compare_function_def)

interpretation grp: hash_keys grp_data_hashfunc grp_compare_function
  by unfold_locales (simp_all add: grp_data_hashfunc_def)

section \<open>The group map\<close>

record group_data =
  gd_number_of_groups :: nat
  gd_number_of_sections :: nat
  gd_map_entry_count :: nat
  gd_map :: "group_entry hs_base option"

definition insert_in_group_map ::
  "group_data \<Rightarrow> nat \<Rightarrow> u32 \<Rightarrow> u32 \<Rightarrow> string \<Rightarrow> group_data \<times> unit dw"
where
  "insert_in_group_map grp addr groupnum section_index name =
     (let grp = (if gd_map grp = None
                 then grp\<lparr>gd_map := initialize_search_hash None grp_data_hashfunc (gd_number_of_sections grp)\<rparr>
                 else grp)
      in if gd_map grp = None then (grp, DW_NO_ENTRY)
         else
           let entry3 = grp_make_entry addr section_index groupnum name in
           case tsearch grp_compare_function (Some entry3) (gd_map grp) of
             (None, m) \<Rightarrow> (grp\<lparr>gd_map := m\<rparr>, DW_ERROR DW_DLE_GROUP_MAP_ALLOC)
           | (Some re, m) \<Rightarrow>
               if gm_ptr (the re) \<noteq> gm_ptr entry3
               then (grp\<lparr>gd_map := m\<rparr>, DW_ERROR DW_DLE_GROUP_MAP_DUPLICATE)
               else (grp\<lparr>gd_map := m, gd_map_entry_count := gd_map_entry_count grp + 1\<rparr>, DW_OK ()))"

definition section_get_target_group_from_map :: "group_data \<Rightarrow> u32 \<Rightarrow> u32 dw" where
  "section_get_target_group_from_map grp obj_section_index =
     (if gd_map grp = None then DW_NO_ENTRY
      else
        let entry = grp_make_entry 0 obj_section_index 0 [] in
        case tfind grp_compare_function (Some entry) (gd_map grp) of
          None \<Rightarrow> DW_NO_ENTRY
        | Some e2 \<Rightarrow> DW_OK (gm_group_number (the e2)))"

definition sec_group_sizes :: "group_data \<Rightarrow> nat \<Rightarrow> nat \<times> nat \<times> nat \<times> nat" where
  "sec_group_sizes grp groupnumber =
     (gd_number_of_sections grp, gd_number_of_groups grp, groupnumber, gd_map_entry_count grp)"

section \<open>The sorted map\<close>

text \<open>A line of \<open>temp_map_data\<close>: the number of the group, that of the section, and the name.\<close>

datatype temp_map_rank = Map_Rank (rank_group: u64) (rank_section: u64)

record temp_map_struc =
  tm_rank :: temp_map_rank
  tm_name :: string

fun map_sort_compar :: "temp_map_rank \<Rightarrow> temp_map_rank \<Rightarrow> int" where
  "map_sort_compar (Map_Rank lg ls) (Map_Rank rg rs) =
     (if lg < rg then - 1
      else if lg > rg then 1
      else if ls < rs then - 1
      else if ls > rs then 1
      else 0)"

text \<open>The comparison is a linear order, so that \<open>qsort\<close> with it is sorting by rank.\<close>

instantiation temp_map_rank :: linorder
begin

definition less_eq_temp_map_rank :: "temp_map_rank \<Rightarrow> temp_map_rank \<Rightarrow> bool" where
  "less_eq_temp_map_rank l r \<longleftrightarrow> map_sort_compar l r \<le> 0"

definition less_temp_map_rank :: "temp_map_rank \<Rightarrow> temp_map_rank \<Rightarrow> bool" where
  "less_temp_map_rank l r \<longleftrightarrow> map_sort_compar l r < 0"

instance
proof
  fix x y z :: temp_map_rank
  show "(x < y) = (x \<le> y \<and> \<not> y \<le> x)"
    by (cases x; cases y) (auto simp: less_eq_temp_map_rank_def less_temp_map_rank_def)
  show "x \<le> x" by (cases x) (simp add: less_eq_temp_map_rank_def)
  show "x \<le> y \<Longrightarrow> y \<le> z \<Longrightarrow> x \<le> z"
    by (cases x; cases y; cases z) (auto simp: less_eq_temp_map_rank_def split: if_splits)
  show "x \<le> y \<Longrightarrow> y \<le> x \<Longrightarrow> x = y"
    by (cases x; cases y) (auto simp: less_eq_temp_map_rank_def split: if_splits)
  show "x \<le> y \<or> y \<le> x"
    by (cases x; cases y) (auto simp: less_eq_temp_map_rank_def split: if_splits)
qed

end

text \<open>
  The callback writes the next line of an array that has room for \<open>room\<close> of them.
\<close>

definition grp_walk_map :: "nat \<Rightarrow> group_entry option \<Rightarrow> temp_map_struc list dw \<Rightarrow> temp_map_struc list dw" where
  "grp_walk_map room nodep acc =
     dw_bind acc (\<lambda>lines.
       if length lines < room then
         DW_OK (lines @ [\<lparr>tm_rank = Map_Rank (ucast (gm_group_number (the nodep))) (ucast (gm_key (the nodep))),
                          tm_name = gm_section_name (the nodep)\<rparr>])
       else FAULT)"

text \<open>\<open>busy\<close> says that \<open>temp_map_data\<close> is not null.\<close>

definition sec_group_map :: "bool \<Rightarrow> group_data \<Rightarrow> nat \<Rightarrow> bool \<times> temp_map_struc list dw" where
  "sec_group_map busy grp map_entry_count =
     (if busy then (busy, DW_ERROR DW_DLE_GROUP_INTERNAL_ERROR)
      else if map_entry_count < gd_map_entry_count grp then (busy, DW_ERROR DW_DLE_GROUP_COUNT_ERROR)
      else
        case twalk (grp_walk_map map_entry_count) (gd_map grp) (DW_OK []) of
          DW_OK temp_map_data \<Rightarrow>
            if length temp_map_data \<noteq> gd_map_entry_count grp
            then (True, DW_ERROR DW_DLE_GROUP_INTERNAL_ERROR)
            else (False, DW_OK (sort_key tm_rank temp_map_data))
        | m \<Rightarrow> (True, m))"

section \<open>Names\<close>

definition dwo_secnames :: "string list" where
  "dwo_secnames = [''.debug_info.dwo'', ''.debug_types.dwo'', ''.debug_abbrev.dwo'', ''.debug_line.dwo'',
     ''.debug_loc.dwo'', ''.debug_str.dwo'', ''.debug_loclists.dwo'', ''.debug_rnglists.dwo'',
     ''.debug_str_offsets.dwo'', ''.debug_macro.dwo'', ''.debug_cu_index'', ''.debug_tu_index'']"

fun match_dwo_name :: "string \<Rightarrow> string list \<Rightarrow> nat dw" where
  "match_dwo_name name [] = DW_NO_ENTRY"
| "match_dwo_name name (s # ss) = (if name = s then DW_OK 2 else match_dwo_name name ss)"

definition dwo_groupnumber_given_name :: "string \<Rightarrow> nat dw" where
  "dwo_groupnumber_given_name name = match_dwo_name name dwo_secnames"

definition grp_walk_for_name :: "u32 \<Rightarrow> string \<Rightarrow> group_entry option \<Rightarrow> bool \<Rightarrow> bool" where
  "grp_walk_for_name target_group lookfor_name nodep found_name_in_group =
     (if gm_group_number (the nodep) = target_group \<and> lookfor_name = gm_section_name (the nodep)
      then True else found_name_in_group)"

definition section_in_group_by_name :: "group_data \<Rightarrow> string \<Rightarrow> u32 \<Rightarrow> bool" where
  "section_in_group_by_name grp scn_name groupnum =
     twalk (grp_walk_for_name groupnum scn_name) (gd_map grp) False"

definition destroy_group_map :: "group_data \<Rightarrow> group_data" where
  "destroy_group_map grp = grp\<lparr>gd_map := None\<rparr>"

section \<open>The map the entries stand for\<close>

text \<open>The invariant of the group data; before the first entry there is no table.\<close>

definition group_ok :: "group_data \<Rightarrow> bool" where
  "group_ok grp \<longleftrightarrow>
     (gd_map grp = None \<or> table_inv grp_data_hashfunc grp_compare_function (gd_map grp)) \<and>
     gd_map_entry_count grp = size (contents (gd_map grp))"

abbreviation entry_for :: "u32 \<Rightarrow> group_entry option" where
  "entry_for s \<equiv> Some (grp_make_entry 0 s 0 [])"

lemma lookup_eq:
  assumes "group_ok grp"
  shows "section_get_target_group_from_map grp s =
    (case tfind grp_compare_function (entry_for s) (gd_map grp) of
       None \<Rightarrow> DW_NO_ENTRY | Some e \<Rightarrow> DW_OK (gm_group_number (the e)))"
  by (simp add: section_get_target_group_from_map_def tfind_def)

lemma key_make [simp]: "gm_key (grp_make_entry a s g n) = s" "gm_group_number (grp_make_entry a s g n) = g"
  "gm_ptr (grp_make_entry a s g n) = a" "gm_section_name (grp_make_entry a s g n) = n"
  by (simp_all add: grp_make_entry_def)

text \<open>The state after the first lines of \<open>_dwarf_insert_in_group_map\<close>.\<close>

definition with_table :: "group_data \<Rightarrow> group_data" where
  "with_table grp =
     (if gd_map grp = None
      then grp\<lparr>gd_map := initialize_search_hash None grp_data_hashfunc (gd_number_of_sections grp)\<rparr> else grp)"

lemma with_table_ok:
  assumes "group_ok grp" "gd_number_of_sections grp \<le> 800000573"
  shows "table_inv grp_data_hashfunc grp_compare_function (gd_map (with_table grp)) \<and>
    contents (gd_map (with_table grp)) = contents (gd_map grp) \<and>
    gd_map_entry_count (with_table grp) = size (contents (gd_map grp)) \<and>
    section_get_target_group_from_map (with_table grp) = section_get_target_group_from_map grp"
proof (cases "gd_map grp")
  case None
  obtain h where h: "initialize_search_hash None grp_data_hashfunc (gd_number_of_sections grp) = Some h"
    using initialize_succeeds [OF assms(2)] by blast
  note i = grp.initialize_inv [OF h]
  have "tfind grp_compare_function k (Some h) = None" for k
    using grp.lookup_None_iff [of "Some h" k] i by simp
  then show ?thesis using None h i assms(1)
    by (auto simp: with_table_def group_ok_def contents_def section_get_target_group_from_map_def)
qed (use assms(1) in \<open>simp add: with_table_def group_ok_def\<close>)

lemma insert_eq:
  assumes "group_ok grp" "gd_number_of_sections grp \<le> 800000573"
  shows "insert_in_group_map grp addr g s name =
    (case tsearch grp_compare_function (Some (grp_make_entry addr s g name)) (gd_map (with_table grp)) of
       (None, m) \<Rightarrow> ((with_table grp)\<lparr>gd_map := m\<rparr>, DW_ERROR DW_DLE_GROUP_MAP_ALLOC)
     | (Some re, m) \<Rightarrow>
         if gm_ptr (the re) \<noteq> addr then ((with_table grp)\<lparr>gd_map := m\<rparr>, DW_ERROR DW_DLE_GROUP_MAP_DUPLICATE)
         else ((with_table grp)\<lparr>gd_map := m, gd_map_entry_count := gd_map_entry_count (with_table grp) + 1\<rparr>,
               DW_OK ()))"
proof -
  have "gd_map (with_table grp) \<noteq> None" using with_table_ok [OF assms] by (auto simp: table_inv_def)
  then show ?thesis unfolding insert_in_group_map_def with_table_def [symmetric] Let_def
    by (auto split: prod.split option.split)
qed

lemma insert_spec:
  assumes ok: "group_ok grp" "gd_number_of_sections grp \<le> 800000573"
    and fresh: "\<And>e. Some e \<in># contents (gd_map grp) \<Longrightarrow> gm_ptr e \<noteq> addr"
    and ins: "insert_in_group_map grp addr g s name = (grp', r)"
  shows "group_ok grp' \<and> gd_number_of_sections grp' = gd_number_of_sections grp \<and>
    (if section_get_target_group_from_map grp s = DW_NO_ENTRY
     then r = DW_OK () \<and> contents (gd_map grp') = add_mset (Some (grp_make_entry addr s g name)) (contents (gd_map grp)) \<and>
       section_get_target_group_from_map grp' = (section_get_target_group_from_map grp)(s := DW_OK g)
     else r = DW_ERROR DW_DLE_GROUP_MAP_DUPLICATE \<and> contents (gd_map grp') = contents (gd_map grp) \<and>
       section_get_target_group_from_map grp' = section_get_target_group_from_map grp)"
proof -
  let ?w = "with_table grp"
  let ?e = "Some (grp_make_entry addr s g name)"
  note w = with_table_ok [OF ok]
  obtain x m where x: "tsearch grp_compare_function ?e (gd_map ?w) = (x, m)" by fastforce
  note st = grp.store_cases [OF conjunct1 [OF w] _ x, simplified]
  note lk = grp.lookup_store [OF conjunct1 [OF w] _ x, simplified]
  have wok: "group_ok ?w" using w by (simp add: group_ok_def)
  have num: "gd_number_of_sections ?w = gd_number_of_sections grp" by (simp add: with_table_def)
  have look: "section_get_target_group_from_map grp = section_get_target_group_from_map ?w" using w by simp
  have find_same: "tfind grp_compare_function ?e (gd_map ?w) = tfind grp_compare_function (entry_for s) (gd_map ?w)"
    by (rule grp.lookup_cong [OF conjunct1 [OF w]]) simp
  show ?thesis
  proof (cases "tfind grp_compare_function (entry_for s) (gd_map ?w)")
    case None
    then have m: "table_inv grp_data_hashfunc grp_compare_function m" "x = Some ?e"
      "contents m = add_mset ?e (contents (gd_map grp))"
      using st find_same w by simp_all
    have g': "grp' = ?w\<lparr>gd_map := m, gd_map_entry_count := gd_map_entry_count ?w + 1\<rparr>" "r = DW_OK ()"
      using ins insert_eq [OF ok] x m(2) by simp_all
    have ok'': "group_ok grp'" using m w g' by (simp add: group_ok_def)
    have "section_get_target_group_from_map grp' l = ((section_get_target_group_from_map ?w)(s := DW_OK g)) l" for l
      unfolding lookup_eq [OF ok''] fun_upd_def lookup_eq [OF wok] using lk [of "entry_for l"] None g' by simp
    then have "section_get_target_group_from_map grp' = (section_get_target_group_from_map grp)(s := DW_OK g)"
      unfolding look by blast
    moreover have "section_get_target_group_from_map grp s = DW_NO_ENTRY"
      unfolding look lookup_eq [OF wok] using None by simp
    ultimately show ?thesis using ok'' g' m num by simp
  next
    case (Some e)
    then have m: "table_inv grp_data_hashfunc grp_compare_function m" "x = Some e"
      "contents m = contents (gd_map grp)"
      using st find_same w by simp_all
    have "e \<in># contents (gd_map grp)"
      using grp.lookup_iff [OF conjunct1 [OF w], of "entry_for s" e] Some w by simp
    moreover from this have "e \<noteq> None" using grp.contents_not_None [OF conjunct1 [OF w]] w by (cases e) auto
    ultimately have "gm_ptr (the e) \<noteq> addr" using fresh [of "the e"] by simp
    then have g': "grp' = ?w\<lparr>gd_map := m\<rparr>" "r = DW_ERROR DW_DLE_GROUP_MAP_DUPLICATE"
      using ins insert_eq [OF ok] x m(2) by simp_all
    have ok'': "group_ok grp'" using m w g' by (simp add: group_ok_def)
    have "tfind grp_compare_function (entry_for l) m = tfind grp_compare_function (entry_for l) (gd_map ?w)" for l
      using lk [of "entry_for l"] Some find_same
        grp.lookup_cong [OF conjunct1 [OF w], of "entry_for l" "entry_for s"] by auto
    then have "section_get_target_group_from_map grp' l = section_get_target_group_from_map ?w l" for l
      unfolding lookup_eq [OF ok''] lookup_eq [OF wok] using g' by simp
    then have "section_get_target_group_from_map grp' = section_get_target_group_from_map grp"
      unfolding look by blast
    moreover have "section_get_target_group_from_map grp s \<noteq> DW_NO_ENTRY"
      unfolding look lookup_eq [OF wok] using Some by simp
    ultimately show ?thesis using ok'' g' m num by simp
  qed
qed

section \<open>The sorted map\<close>

definition line_of :: "group_entry option \<Rightarrow> temp_map_struc" where
  "line_of e = \<lparr>tm_rank = Map_Rank (ucast (gm_group_number (the e))) (ucast (gm_key (the e))),
     tm_name = gm_section_name (the e)\<rparr>"

lemma fold_grp_walk_map:
  "length acc + length ks \<le> room \<Longrightarrow>
   fold (grp_walk_map room) ks (DW_OK acc) = DW_OK (acc @ map line_of ks)"
  by (induction ks arbitrary: acc) (simp_all add: grp_walk_map_def line_of_def)

lemma walk_lines:
  assumes "group_ok grp" "gd_map_entry_count grp \<le> room"
  shows "\<exists>ks. twalk (grp_walk_map room) (gd_map grp) (DW_OK []) = DW_OK (map line_of ks) \<and>
    mset ks = contents (gd_map grp)"
proof -
  have m: "mset (twalk_keys (gd_map grp)) = contents (gd_map grp)"
    using assms(1) grp.twalk_contents by (auto simp: group_ok_def twalk_keys_def contents_def)
  then have "length (twalk_keys (gd_map grp)) \<le> room"
    using assms by (metis group_ok_def size_mset)
  then show ?thesis using m fold_grp_walk_map [of "[]"] by (auto simp: twalk_def)
qed

lemma lookup_iff_entry:
  assumes "group_ok grp"
  shows "section_get_target_group_from_map grp s = DW_OK g \<longleftrightarrow>
    (\<exists>e. e \<in># contents (gd_map grp) \<and> gm_key (the e) = s \<and> gm_group_number (the e) = g)"
proof (cases "gd_map grp")
  case None
  then show ?thesis by (simp add: section_get_target_group_from_map_def contents_def)
next
  case (Some h)
  then have t: "table_inv grp_data_hashfunc grp_compare_function (gd_map grp)"
    using assms by (simp add: group_ok_def)
  have f: "tfind grp_compare_function (entry_for s) (gd_map grp) = Some e \<longleftrightarrow>
      e \<in># contents (gd_map grp) \<and> gm_key (the e) = s" for e
    using grp.lookup_iff [OF t, of "entry_for s" e] by auto
  show ?thesis
  proof (cases "tfind grp_compare_function (entry_for s) (gd_map grp)")
    case None
    then have "\<not> (e \<in># contents (gd_map grp) \<and> gm_key (the e) = s)" for e using f [of e] by simp
    then show ?thesis unfolding lookup_eq [OF assms] None by auto
  next
    case (Some x)
    then have "x \<in># contents (gd_map grp) \<and> gm_key (the x) = s" using f [of x] by simp
    moreover have "e = x" if "e \<in># contents (gd_map grp)" "gm_key (the e) = s" for e
      using f [of e] Some that by simp
    ultimately show ?thesis unfolding lookup_eq [OF assms] Some by auto
  qed
qed


lemma entries_differ:
  assumes "group_ok grp" "mset ks = contents (gd_map grp)"
  shows "distinct (map (\<lambda>e. gm_key (the e)) ks)"
proof -
  have t: "table_inv grp_data_hashfunc grp_compare_function (gd_map grp)" if "ks \<noteq> []"
    using assms that by (cases "gd_map grp") (auto simp: group_ok_def contents_def)
  have "count (mset ks) e \<le> 1" for e
    using grp.records_once [OF t, of e] assms(2) by (cases ks) simp_all
  then have "count (mset ks) e = (if e \<in> set ks then 1 else 0)" for e
    using count_greater_zero_iff [of "mset ks" e] by (auto simp: le_antisym Suc_leI not_in_iff [symmetric])
  then have "distinct ks" by (simp add: distinct_count_atmost_1)
  moreover have "e = f" if "e \<in> set ks" "f \<in> set ks" "gm_key (the e) = gm_key (the f)" for e f
    using grp.same_unique [OF t, of e f] that assms(2) by (metis empty_iff empty_set grp_compare_0 set_mset_mset)
  ultimately show ?thesis by (auto simp: distinct_map inj_on_def)
qed

section \<open>Properties\<close>

text \<open>
  C29: Recording a section keeps the group data well formed and is a map update: a section not recorded yet gets its group
  and no other section changes, a section recorded already is refused as a duplicate and nothing changes.
\<close>

theorem insert_in_group_map_updates:
  assumes "group_ok grp" "gd_number_of_sections grp \<le> 800000573"
    and "\<And>e. Some e \<in># contents (gd_map grp) \<Longrightarrow> gm_ptr e \<noteq> addr"
    and "insert_in_group_map grp addr g s name = (grp', r)"
  shows "group_ok grp' \<and>
    (if section_get_target_group_from_map grp s = DW_NO_ENTRY
     then r = DW_OK () \<and>
       section_get_target_group_from_map grp' = (section_get_target_group_from_map grp)(s := DW_OK g)
     else r = DW_ERROR DW_DLE_GROUP_MAP_DUPLICATE \<and>
       section_get_target_group_from_map grp' = section_get_target_group_from_map grp)"
  using insert_spec [OF assms] by (simp split: if_splits)

definition no_groups :: group_data where
  "no_groups = \<lparr>gd_number_of_groups = 1, gd_number_of_sections = 30, gd_map_entry_count = 0, gd_map = None\<rparr>"

theorem insert_in_group_map_updates_witness:
  "\<exists>grp' r. insert_in_group_map no_groups 100 3 7 ''.text'' = (grp', r) \<and> r = DW_OK () \<and>
     section_get_target_group_from_map grp' 7 = DW_OK 3 \<and> section_get_target_group_from_map grp' 8 = DW_NO_ENTRY"
proof -
  obtain grp' r where i: "insert_in_group_map no_groups 100 3 7 ''.text'' = (grp', r)" by fastforce
  have "group_ok no_groups" "gd_number_of_sections no_groups \<le> 800000573"
    "\<And>e. Some e \<in># contents (gd_map no_groups) \<Longrightarrow> gm_ptr e \<noteq> 100"
    by (simp_all add: group_ok_def no_groups_def contents_def)
  note u = insert_in_group_map_updates [OF this i]
  have "section_get_target_group_from_map no_groups k = DW_NO_ENTRY" for k
    by (simp add: section_get_target_group_from_map_def no_groups_def)
  then show ?thesis using u i by simp
qed

text \<open>
  Asked for with enough room, the sorted map lists each recorded section once with its group, ordered by
  group and then by section, never fails, and leaves the temporary array free for the next call.
\<close>

theorem sec_group_map_lists:
  assumes "group_ok grp" "gd_map_entry_count grp \<le> room"
  shows "\<exists>ls. sec_group_map False grp room = (False, DW_OK ls) \<and> sorted (map tm_rank ls) \<and>
    length ls = gd_map_entry_count grp \<and> distinct (map (\<lambda>l. rank_section (tm_rank l)) ls) \<and>
    (\<forall>s g. (\<exists>l \<in> set ls. tm_rank l = Map_Rank (ucast g) (ucast s)) \<longleftrightarrow>
      section_get_target_group_from_map grp s = DW_OK g)"
proof -
  obtain ks where ks: "twalk (grp_walk_map room) (gd_map grp) (DW_OK []) = DW_OK (map line_of ks)"
    "mset ks = contents (gd_map grp)"
    using walk_lines [OF assms] by blast
  let ?ls = "sort_key tm_rank (map line_of ks)"
  have len: "length ks = gd_map_entry_count grp"
    using arg_cong [OF ks(2), of size] assms(1) by (simp add: group_ok_def)
  have u: "(ucast a :: u64) = ucast b \<longleftrightarrow> a = b" for a b :: u32
    by (metis unat_ucast32 word_unat_eq_iff)
  have "sec_group_map False grp room = (False, DW_OK ?ls)"
    using assms(2) ks(1) len by (simp add: sec_group_map_def)
  moreover have "sorted (map tm_rank ?ls)" by simp
  moreover have "length ?ls = gd_map_entry_count grp" using len by simp
  moreover have "distinct (map (\<lambda>l. rank_section (tm_rank l)) (map line_of ks))"
    using entries_differ [OF assms(1) ks(2)] by (simp add: line_of_def distinct_map inj_on_def u)
  then have "distinct (map (\<lambda>l. rank_section (tm_rank l)) ?ls)"
    by (rule mset_eq_imp_distinct_iff [THEN iffD1, rotated]) (simp add: image_mset.compositionality)
  moreover have "(\<exists>l \<in> set ?ls. tm_rank l = Map_Rank (ucast g) (ucast s)) \<longleftrightarrow>
      section_get_target_group_from_map grp s = DW_OK g" for s g
    unfolding lookup_iff_entry [OF assms(1)] ks(2) [symmetric] by (auto simp: line_of_def u)
  ultimately show ?thesis by blast
qed


theorem sec_group_map_lists_witness:
  "\<exists>ls. sec_group_map False (fst (insert_in_group_map no_groups 100 3 7 ''.text'')) 5 = (False, DW_OK ls) \<and>
     length ls = 1 \<and> sorted (map tm_rank ls)"
proof -
  obtain grp' r where i: "insert_in_group_map no_groups 100 3 7 ''.text'' = (grp', r)" by fastforce
  have n: "group_ok no_groups" "gd_number_of_sections no_groups \<le> 800000573"
    "\<And>e. Some e \<in># contents (gd_map no_groups) \<Longrightarrow> gm_ptr e \<noteq> 100"
    by (simp_all add: group_ok_def no_groups_def contents_def)
  have "section_get_target_group_from_map no_groups 7 = DW_NO_ENTRY" "contents (gd_map no_groups) = {#}"
    by (simp_all add: section_get_target_group_from_map_def no_groups_def contents_def)
  then have g: "group_ok grp'" "gd_map_entry_count grp' = 1"
    using insert_spec [OF n i] by (simp_all add: group_ok_def)
  from sec_group_map_lists [OF g(1), of 5] g(2) i show ?thesis by auto
qed

end
