(* ===== verification/LineHeader.thy ===== *)
theory LineHeader
  imports Forms SafeArith
begin

text \<open>
  The header of a line table: \<open>_dwarf_read_line_table_header\<close> (\<open>dwarf_line_table_reader_common.h\<close>) for all versions,
  with the decoders of its string and number forms (\<open>dwarf_line.c\<close>, \<open>dwarf_form.c\<close>). Pointers are offsets into
  \<open>.debug_line\<close>; a string can also lie in \<open>.debug_line_str\<close>. Sums of a pointer and a count do not wrap around. Reports of
  harmless oddities, and what the line context holds after an error, are not modelled.
\<close>

section \<open>The line context\<close>

datatype section_string = No_String | Debug_Line ptr | Debug_Line_Str ptr

record dwarf_line =
  li_address :: u64
  li_discriminator :: u64
  li_file :: u64
  li_line :: u64
  li_column :: u16
  li_isa :: u16
  li_call_context :: u64
  li_subprogram :: u64
  li_is_stmt :: bool
  li_basic_block :: bool
  li_end_sequence :: bool
  li_prologue_end :: bool
  li_epilogue_begin :: bool
  li_is_addr_set :: bool
  li_is_actuals_table :: bool

record file_entry =
  fi_file_name :: section_string
  fi_llvm_source :: section_string
  fi_dir_index :: u64
  fi_time_last_mod :: u64
  fi_file_length :: u64
  fi_gnu_subprogram_name :: section_string
  fi_gnu_decl_file :: u64
  fi_gnu_decl_line :: u64
  fi_md5_value :: bytes
  fi_dir_index_present :: bool
  fi_time_last_mod_present :: bool
  fi_file_length_present :: bool
  fi_md5_present :: bool
  fi_gnu_decl_file_present :: bool
  fi_gnu_decl_line_present :: bool

record subprog_entry =
  ds_subprog_name :: section_string
  ds_decl_file :: u64
  ds_decl_line :: u64

text \<open>The fields of \<open>struct Dwarf_Line_Context_s\<close> that hold the list of files, and the others in use.\<close>

record file_list =
  lc_file_entries :: "file_entry list"
  lc_file_entry_count :: u64
  lc_file_entry_baseindex :: u64
  lc_file_entry_endindex :: u64

record line_context =
  lc_section_offset :: nat
  lc_version_number :: u16
  lc_total_length :: u64
  lc_length_field_length :: u16
  lc_address_size :: u8
  lc_segment_selector_size :: u8
  lc_prologue_length :: u64
  lc_actuals_table_offset :: u64
  lc_logicals_table_offset :: u64
  lc_minimum_instruction_length :: u8
  lc_maximum_ops_per_instruction :: u8
  lc_line_ptr_start :: ptr
  lc_line_ptr_end :: ptr
  lc_line_prologue_start :: ptr
  lc_default_is_stmt :: u8
  lc_line_base :: u8
  lc_line_range :: u8
  lc_opcode_base :: u8
  lc_opcode_length_table :: ptr
  lc_std_op_count :: u8
  lc_include_directories :: "section_string list"
  lc_include_directories_count :: u64
  lc_directory_entry_format_count :: u64
  lc_directory_format_values :: "(u64 \<times> u64) list"
  lc_file_name_format_count :: u64
  lc_file_format_values :: "(u64 \<times> u64) list"
  lc_files :: file_list
  lc_subprogs :: "subprog_entry list"
  lc_subprogs_count :: u64
  lc_table_count :: u8
  lc_linebuf_logicals :: "dwarf_line list"
  lc_linecount_logicals :: nat
  lc_linebuf_actuals :: "dwarf_line list"
  lc_linecount_actuals :: nat

text \<open>A context, an entry for a file and one for a subprogram as they are allocated, all zero.\<close>

definition new_line_context :: line_context where
  "new_line_context =
     \<lparr>lc_section_offset = 0, lc_version_number = 0, lc_total_length = 0, lc_length_field_length = 0,
      lc_address_size = 0, lc_segment_selector_size = 0, lc_prologue_length = 0,
      lc_actuals_table_offset = 0, lc_logicals_table_offset = 0, lc_minimum_instruction_length = 0,
      lc_maximum_ops_per_instruction = 0, lc_line_ptr_start = 0, lc_line_ptr_end = 0,
      lc_line_prologue_start = 0, lc_default_is_stmt = 0, lc_line_base = 0, lc_line_range = 0,
      lc_opcode_base = 0, lc_opcode_length_table = 0, lc_std_op_count = 0, lc_include_directories = [],
      lc_include_directories_count = 0, lc_directory_entry_format_count = 0,
      lc_directory_format_values = [], lc_file_name_format_count = 0, lc_file_format_values = [],
      lc_files = \<lparr>lc_file_entries = [], lc_file_entry_count = 0, lc_file_entry_baseindex = 0,
        lc_file_entry_endindex = 0\<rparr>,
      lc_subprogs = [], lc_subprogs_count = 0, lc_table_count = 0, lc_linebuf_logicals = [],
      lc_linecount_logicals = 0, lc_linebuf_actuals = [], lc_linecount_actuals = 0\<rparr>"

definition new_file_entry :: file_entry where
  "new_file_entry =
     \<lparr>fi_file_name = No_String, fi_llvm_source = No_String, fi_dir_index = 0, fi_time_last_mod = 0,
      fi_file_length = 0, fi_gnu_subprogram_name = No_String, fi_gnu_decl_file = 0, fi_gnu_decl_line = 0,
      fi_md5_value = replicate 16 0, fi_dir_index_present = False, fi_time_last_mod_present = False,
      fi_file_length_present = False, fi_md5_present = False, fi_gnu_decl_file_present = False,
      fi_gnu_decl_line_present = False\<rparr>"

definition new_subprog_entry :: subprog_entry where
  "new_subprog_entry = \<lparr>ds_subprog_name = No_String, ds_decl_file = 0, ds_decl_line = 0\<rparr>"

definition add_to_files_list :: "u16 \<Rightarrow> file_entry \<Rightarrow> file_list \<Rightarrow> file_list" where
  "add_to_files_list version fe files =
     (let count = lc_file_entry_count files + 1 in
      if version = 5
      then \<lparr>lc_file_entries = lc_file_entries files @ [fe], lc_file_entry_count = count,
            lc_file_entry_baseindex = 0, lc_file_entry_endindex = count\<rparr>
      else \<lparr>lc_file_entries = lc_file_entries files @ [fe], lc_file_entry_count = count,
            lc_file_entry_baseindex = 1, lc_file_entry_endindex = count + 1\<rparr>)"

section \<open>The forms of a header\<close>

definition read_str_index_val_itself :: "dwarf_debug \<Rightarrow> u64 \<Rightarrow> bytes \<Rightarrow> ptr \<Rightarrow> ptr \<Rightarrow> (u64 \<times> nat) dw" where
  "read_str_index_val_itself dbg theform buf info_ptr section_end =
     (if theform = DW_FORM_strx \<or> theform = DW_FORM_GNU_str_index then
        dw_bind (decode_leb128_uword_len_ck buf info_ptr section_end) (\<lambda>((index, indexlen), _).
          DW_OK (index, indexlen))
      else if theform = DW_FORM_strx1 then
        dw_bind (read_unaligned_ck dbg buf info_ptr 1 section_end) (\<lambda>index. DW_OK (index, 1))
      else if theform = DW_FORM_strx2 then
        dw_bind (read_unaligned_ck dbg buf info_ptr 2 section_end) (\<lambda>index. DW_OK (index, 2))
      else if theform = DW_FORM_strx3 then
        dw_bind (read_unaligned_ck dbg buf info_ptr 3 section_end) (\<lambda>index. DW_OK (index, 3))
      else if theform = DW_FORM_strx4 then
        dw_bind (read_unaligned_ck dbg buf info_ptr 4 section_end) (\<lambda>index. DW_OK (index, 4))
      else DW_ERROR DW_DLE_ATTR_FORM_NOT_STR_INDEX)"

text \<open>The result is the offset of the string in the section the form selects.\<close>

definition extract_local_debug_str_string_given_offset :: "dwarf_debug \<Rightarrow> u64 \<Rightarrow> u64 \<Rightarrow> ptr dw" where
  "extract_local_debug_str_string_given_offset dbg attrform offset =
     (if attrform = DW_FORM_line_strp then
        let sec = de_debug_line_str dbg in
        if unat offset \<ge> length sec then DW_ERROR DW_DLE_LINE_STRP_OFFSET_BAD
        else dw_bind (check_string_valid dbg sec 0 (unat offset) (length sec) DW_DLE_LINE_STRP_OFFSET_BAD)
               (\<lambda>_. DW_OK (unat offset))
      else if attrform \<in> {DW_FORM_strp, DW_FORM_GNU_str_index, DW_FORM_strx1, DW_FORM_strx2,
          DW_FORM_strx3, DW_FORM_strx4, DW_FORM_strx} then
        (case de_debug_str dbg of
           None \<Rightarrow> DW_NO_ENTRY
         | Some sec \<Rightarrow>
             if unat offset \<ge> length sec then DW_ERROR DW_DLE_STRP_OFFSET_BAD
             else dw_bind (check_string_valid dbg sec 0 (unat offset) (length sec) DW_DLE_STRP_OFFSET_BAD)
                    (\<lambda>_. DW_OK (unat offset)))
      else DW_ERROR DW_DLE_ATTR_FORM_BAD)"

text \<open>
  The string of an index form lies in \<open>.debug_str\<close>, but its pointer is compared with the bounds of \<open>.debug_line_str\<close>. The two
  sections do not overlap, so the pointer is below the one or not below the other bound; both are the same error.
\<close>

definition decode_line_string_form ::
  "dwarf_debug \<Rightarrow> u64 \<Rightarrow> nat \<Rightarrow> bytes \<Rightarrow> ptr \<Rightarrow> ptr \<Rightarrow> (section_string \<times> ptr) dw"
where
  "decode_line_string_form dbg form offset_size buf line_ptr line_ptr_end =
     (if form = DW_FORM_line_strp then
        dw_bind (read_unaligned_ck dbg buf line_ptr offset_size line_ptr_end) (\<lambda>offset.
        dw_bind (check_string_valid dbg (de_debug_line_str dbg) 0 (unat offset)
                  (length (de_debug_line_str dbg)) DW_DLE_LINE_STRP_OFFSET_BAD) (\<lambda>_.
          DW_OK (Debug_Line_Str (unat offset), line_ptr + offset_size)))
      else if form = DW_FORM_string then
        dw_bind (check_string_valid dbg buf line_ptr line_ptr line_ptr_end DW_DLE_LINE_STRING_BAD) (\<lambda>_.
        dw_bind (strlen buf line_ptr) (\<lambda>n. DW_OK (Debug_Line line_ptr, line_ptr + n + 1)))
      else if form \<in> {DW_FORM_strx1, DW_FORM_strx2, DW_FORM_strx3, DW_FORM_strx4, DW_FORM_strx} then
        dw_bind (read_str_index_val_itself dbg form buf line_ptr line_ptr_end) (\<lambda>(offset, index_length).
        dw_bind (extract_local_debug_str_string_given_offset dbg form offset) (\<lambda>stritself.
          DW_ERROR DW_DLE_LINE_STRING_BAD))
      else DW_ERROR DW_DLE_LNCT_FORM_CODE_NOT_HANDLED)"

abbreviation (input) DW_LNCT_path :: u64 where "DW_LNCT_path \<equiv> 0x1"
abbreviation (input) DW_LNCT_directory_index :: u64 where "DW_LNCT_directory_index \<equiv> 0x2"
abbreviation (input) DW_LNCT_timestamp :: u64 where "DW_LNCT_timestamp \<equiv> 0x3"
abbreviation (input) DW_LNCT_size :: u64 where "DW_LNCT_size \<equiv> 0x4"
abbreviation (input) DW_LNCT_MD5 :: u64 where "DW_LNCT_MD5 \<equiv> 0x5"
abbreviation (input) DW_LNCT_GNU_subprogram_name :: u64 where "DW_LNCT_GNU_subprogram_name \<equiv> 0x6"
abbreviation (input) DW_LNCT_GNU_decl_file :: u64 where "DW_LNCT_GNU_decl_file \<equiv> 0x7"
abbreviation (input) DW_LNCT_GNU_decl_line :: u64 where "DW_LNCT_GNU_decl_line \<equiv> 0x8"
abbreviation (input) DW_LNCT_LLVM_source :: u64 where "DW_LNCT_LLVM_source \<equiv> 0x2001"

text \<open>
  The decoding macro of the case \<open>DW_FORM_block\<close> has already moved \<open>lp\<close> past the length when the code adds the size
  of the length to it.
\<close>

definition decode_line_block :: "dwarf_debug \<Rightarrow> bytes \<Rightarrow> ptr \<Rightarrow> ptr \<Rightarrow> (u64 \<times> ptr) dw" where
  "decode_line_block dbg buf lp line_end_ptr =
     dw_bind (decode_leb128_uword_len_ck buf lp line_end_ptr) (\<lambda>((len, leblen), lp).
       let dataptr = lp + leblen in
       if len > 8 then DW_ERROR DW_DLE_LNCT_FORM_CODE_NOT_HANDLED
       else if dataptr \<ge> line_end_ptr then DW_ERROR DW_DLE_LNCT_FORM_CODE_NOT_HANDLED
       else if dataptr + unat len > line_end_ptr then DW_ERROR DW_DLE_LNCT_FORM_CODE_NOT_HANDLED
       else dw_bind (read_unaligned_ck dbg buf dataptr (unat len) line_end_ptr) (\<lambda>val.
         DW_OK (val, dataptr + unat len)))"

definition decode_line_udata_form ::
  "dwarf_debug \<Rightarrow> u64 \<Rightarrow> u64 \<Rightarrow> bytes \<Rightarrow> ptr \<Rightarrow> ptr \<Rightarrow> (u64 \<times> ptr) dw"
where
  "decode_line_udata_form dbg ltype form buf lp line_end_ptr =
     (let decl = {DW_LNCT_GNU_decl_file, DW_LNCT_GNU_decl_line, DW_LNCT_size};
          bad = DW_ERROR DW_DLE_LNCT_FORM_CODE_NOT_HANDLED;
          fixed = (\<lambda>n. dw_bind (read_unaligned_ck dbg buf lp n line_end_ptr) (\<lambda>val. DW_OK (val, lp + n)))
      in if form = DW_FORM_udata then
           if ltype \<in> {DW_LNCT_directory_index, DW_LNCT_timestamp} \<union> decl
           then leb128_uword_wrapper buf lp line_end_ptr else bad
         else if form = DW_FORM_data1 then
           if ltype \<in> {DW_LNCT_directory_index} \<union> decl
           then dw_bind (rd8 buf lp) (\<lambda>b. DW_OK (ucast b, lp + 1)) else bad
         else if form = DW_FORM_data2 then
           if ltype \<in> {DW_LNCT_directory_index} \<union> decl then fixed 2 else bad
         else if form = DW_FORM_data4 then
           if ltype \<in> {DW_LNCT_timestamp} \<union> decl then fixed 4 else bad
         else if form = DW_FORM_block then
           if ltype = DW_LNCT_timestamp then decode_line_block dbg buf lp line_end_ptr else bad
         else if form = DW_FORM_data8 then
           if ltype \<in> {DW_LNCT_size, DW_LNCT_timestamp} then fixed 8 else bad
         else bad)"

definition extract_data16 :: "bytes \<Rightarrow> ptr \<Rightarrow> ptr \<Rightarrow> ptr \<Rightarrow> bytes dw" where
  "extract_data16 buf data section_start section_end =
     (let data16end = data + 16 in
      if data < section_start \<or> section_end < data16end then DW_ERROR DW_DLE_DATA16_OUTSIDE_SECTION
      else if data16end > length buf then FAULT
      else DW_OK (seg buf data data16end))"

section \<open>The fixed part of the header\<close>

definition header_lengths ::
  "dwarf_debug \<Rightarrow> bytes \<Rightarrow> ptr \<Rightarrow> line_context \<Rightarrow> ((line_context \<times> nat) \<times> ptr) dw"
where
  "header_lengths dbg buf data_start ctx =
     dw_bind (read_area_length_ck dbg buf data_start (word_of_nat (length buf)) (length buf))
       (\<lambda>((total_length, local_length_size, local_extension_size), line_ptr).
         let line_ptr_end = line_ptr + unat total_length in
         if line_ptr_end > length buf then DW_ERROR DW_DLE_DEBUG_LINE_LENGTH_BAD
         else DW_OK ((ctx\<lparr>lc_line_ptr_start := data_start, lc_line_ptr_end := line_ptr_end,
             lc_length_field_length := word_of_nat (local_length_size + local_extension_size),
             lc_section_offset := data_start, lc_total_length := total_length\<rparr>, local_length_size), line_ptr))"

abbreviation (input) EXPERIMENTAL_LINE_TABLES_VERSION :: u16 where
  "EXPERIMENTAL_LINE_TABLES_VERSION \<equiv> 0xf006"

text \<open>A byte of the table, or an error at its end.\<close>

definition header_byte :: "bytes \<Rightarrow> line_context \<Rightarrow> ptr \<Rightarrow> dle \<Rightarrow> u8 dw" where
  "header_byte buf ctx line_ptr e =
     (if line_ptr \<ge> lc_line_ptr_end ctx then DW_ERROR e else rd8 buf line_ptr)"

definition header_version ::
  "dwarf_debug \<Rightarrow> bytes \<Rightarrow> u8 \<Rightarrow> u8 \<Rightarrow> line_context \<Rightarrow> ptr \<Rightarrow> (line_context \<times> ptr) dw"
where
  "header_version dbg buf cc_address_size cc_segment_selector_size ctx line_ptr =
     dw_bind (read_unaligned_ck dbg buf line_ptr 2 (lc_line_ptr_end ctx)) (\<lambda>htmp.
       let version = ucast htmp; ctx = ctx\<lparr>lc_version_number := version\<rparr>; line_ptr = line_ptr + 2 in
       if version \<notin> {2, 3, 4, 5, EXPERIMENTAL_LINE_TABLES_VERSION}
       then DW_ERROR DW_DLE_VERSION_STAMP_ERROR
       else if version = 5 then
         dw_bind (header_byte buf ctx line_ptr DW_DLE_DEBUG_LINE_LENGTH_BAD) (\<lambda>a.
         dw_bind (header_byte buf ctx (line_ptr + 1) DW_DLE_DEBUG_LINE_LENGTH_BAD) (\<lambda>s.
           DW_OK (ctx\<lparr>lc_address_size := a, lc_segment_selector_size := s\<rparr>, line_ptr + 2)))
       else DW_OK (ctx\<lparr>lc_address_size := cc_address_size,
                       lc_segment_selector_size := cc_segment_selector_size\<rparr>, line_ptr))"

definition header_prologue ::
  "dwarf_debug \<Rightarrow> bytes \<Rightarrow> nat \<Rightarrow> line_context \<Rightarrow> ptr \<Rightarrow> (line_context \<times> ptr) dw"
where
  "header_prologue dbg buf local_length_size ctx line_ptr =
     dw_bind (read_unaligned_ck dbg buf line_ptr local_length_size (lc_line_ptr_end ctx)) (\<lambda>prologue_length.
       if prologue_length > lc_total_length ctx then DW_ERROR DW_DLE_DEBUG_LINE_LENGTH_BAD
       else
         let line_ptr = line_ptr + local_length_size;
             ctx = ctx\<lparr>lc_prologue_length := prologue_length, lc_line_prologue_start := line_ptr\<rparr>
         in dw_bind (header_byte buf ctx line_ptr DW_DLE_DEBUG_LINE_LENGTH_BAD) (\<lambda>b.
              DW_OK (ctx\<lparr>lc_minimum_instruction_length := b\<rparr>, line_ptr + 1)))"

definition header_max_ops :: "bytes \<Rightarrow> line_context \<Rightarrow> ptr \<Rightarrow> (line_context \<times> ptr) dw" where
  "header_max_ops buf ctx line_ptr =
     (if lc_version_number ctx \<in> {4, 5, EXPERIMENTAL_LINE_TABLES_VERSION} then
        dw_bind (header_byte buf ctx line_ptr DW_DLE_DEBUG_LINE_LENGTH_BAD) (\<lambda>b.
          DW_OK (ctx\<lparr>lc_maximum_ops_per_instruction := (if b = 0 then 1 else b)\<rparr>, line_ptr + 1))
      else DW_OK (ctx, line_ptr))"

definition header_opcodes :: "bytes \<Rightarrow> line_context \<Rightarrow> ptr \<Rightarrow> (line_context \<times> ptr) dw" where
  "header_opcodes buf ctx line_ptr =
     dw_bind (header_byte buf ctx line_ptr DW_DLE_DEBUG_LINE_LENGTH_BAD) (\<lambda>is_stmt.
     dw_bind (header_byte buf ctx (line_ptr + 1) DW_DLE_DEBUG_LINE_LENGTH_BAD) (\<lambda>base.
     dw_bind (header_byte buf ctx (line_ptr + 2) DW_DLE_LINE_OFFSET_BAD) (\<lambda>range.
       if range = 0 then DW_ERROR DW_DLE_DEBUG_LINE_RANGE_ZERO
       else dw_bind (header_byte buf ctx (line_ptr + 3) DW_DLE_LINE_OFFSET_BAD) (\<lambda>opcode_base.
         let table = line_ptr + 4; line_ptr = table + unat opcode_base - 1;
             ctx = ctx\<lparr>lc_default_is_stmt := is_stmt, lc_line_base := base, lc_line_range := range,
               lc_opcode_base := opcode_base, lc_opcode_length_table := table,
               lc_std_op_count := opcode_base - 1\<rparr>
         in if line_ptr \<ge> lc_line_ptr_end ctx then DW_ERROR DW_DLE_LINE_OFFSET_BAD
            else DW_OK (ctx, line_ptr)))))"


section \<open>The table of operand counts\<close>

abbreviation (input) STANDARD_OPERAND_COUNT_DWARF3 :: nat where "STANDARD_OPERAND_COUNT_DWARF3 \<equiv> 12"

definition dwarf_standard_opcode_operand_count :: bytes where
  "dwarf_standard_opcode_operand_count = [0, 1, 1, 1, 1, 0, 0, 0, 1, 0, 0, 1, 1, 2, 0]"

definition dwarf_arm_standard_opcode_operand_count :: bytes where
  "dwarf_arm_standard_opcode_operand_count = [0, 1, 1, 1, 1, 0, 0, 0, 0, 0, 0, 1]"

text \<open>The entries from \<open>i\<close> on, \<open>n\<close> of them.\<close>

fun operandmismatch_from :: "nat \<Rightarrow> bytes \<Rightarrow> bytes \<Rightarrow> ptr \<Rightarrow> nat \<Rightarrow> bool dw" where
  "operandmismatch_from i table buf linetable 0 = DW_OK False"
| "operandmismatch_from i table buf linetable (Suc n) =
     dw_bind (rd8 buf (linetable + i)) (\<lambda>lineval.
       if i \<ge> length table then DW_OK True
       else if table ! i = lineval then operandmismatch_from (i + 1) table buf linetable n
       else DW_OK True)"

definition operandmismatch :: "bytes \<Rightarrow> bytes \<Rightarrow> ptr \<Rightarrow> nat \<Rightarrow> bool dw" where
  "operandmismatch table buf linetable check_count = operandmismatch_from 0 table buf linetable check_count"

definition header_operand_counts :: "bytes \<Rightarrow> line_context \<Rightarrow> unit dw" where
  "header_operand_counts buf ctx =
     (let tab_count = length dwarf_standard_opcode_operand_count;
          arm_count = length dwarf_arm_standard_opcode_operand_count;
          check_count = min (unat (lc_std_op_count ctx)) tab_count;
          linetable = lc_opcode_length_table ctx
      in if linetable + check_count \<ge> length buf then DW_ERROR DW_DLE_LINE_NUM_OPERANDS_BAD
         else dw_bind (operandmismatch dwarf_standard_opcode_operand_count buf linetable check_count)
           (\<lambda>mismatch.
             dw_bind (if mismatch
                      then operandmismatch dwarf_arm_standard_opcode_operand_count buf linetable
                             (min check_count arm_count)
                      else DW_OK False)
               (\<lambda>mismatch. if mismatch then DW_ERROR DW_DLE_LINE_NUM_OPERANDS_BAD else DW_OK ())))"

section \<open>The lists of versions up to 4\<close>

text \<open>A string of the table, and the pointer past its zero byte.\<close>

definition header_string :: "dwarf_debug \<Rightarrow> bytes \<Rightarrow> ptr \<Rightarrow> line_context \<Rightarrow> ptr \<Rightarrow> ptr dw" where
  "header_string dbg buf data_start ctx line_ptr =
     dw_bind (check_string_valid dbg buf data_start line_ptr (lc_line_ptr_end ctx) DW_DLE_LINE_STRING_BAD)
       (\<lambda>_. dw_bind (strlen buf line_ptr) (\<lambda>n. DW_OK (line_ptr + n + 1)))"

lemma header_string_advances: "header_string dbg buf s ctx p = DW_OK q \<Longrightarrow> p < q"
  by (auto simp: header_string_def dw_simps)

function old_include_directories ::
  "dwarf_debug \<Rightarrow> bytes \<Rightarrow> ptr \<Rightarrow> line_context \<Rightarrow> section_string list \<Rightarrow> ptr \<Rightarrow>
   (section_string list \<times> ptr) dw"
where
  "old_include_directories dbg buf data_start ctx dirs line_ptr =
     dw_bind (rd8 buf line_ptr) (\<lambda>b.
       if b = 0 then DW_OK (dirs, line_ptr + 1)
       else dw_bind (header_string dbg buf data_start ctx line_ptr) (\<lambda>next_ptr.
         if next_ptr \<ge> lc_line_ptr_end ctx then DW_ERROR DW_DLE_LINE_NUMBER_HEADER_ERROR
         else old_include_directories dbg buf data_start ctx (dirs @ [Debug_Line line_ptr]) next_ptr))"
  by pat_completeness auto
termination
  by (relation "measure (\<lambda>(dbg, buf, data_start, ctx, dirs, p). lc_line_ptr_end ctx - p)")
     (auto dest: header_string_advances)

declare old_include_directories.simps [simp del]

definition old_file_entry ::
  "dwarf_debug \<Rightarrow> bytes \<Rightarrow> ptr \<Rightarrow> line_context \<Rightarrow> ptr \<Rightarrow> (file_entry \<times> ptr) dw"
where
  "old_file_entry dbg buf data_start ctx line_ptr =
     dw_bind (header_string dbg buf data_start ctx line_ptr) (\<lambda>p.
     dw_bind (leb128_uword_wrapper buf p (lc_line_ptr_end ctx)) (\<lambda>(dir_index, p).
       if dir_index > lc_include_directories_count ctx then DW_ERROR DW_DLE_DIR_INDEX_BAD
       else dw_bind (leb128_uword_wrapper buf p (lc_line_ptr_end ctx)) (\<lambda>(lastmod, p).
         dw_bind (leb128_uword_wrapper buf p (lc_line_ptr_end ctx)) (\<lambda>(file_length, p).
           DW_OK (new_file_entry\<lparr>fi_file_name := Debug_Line line_ptr, fi_dir_index := dir_index,
             fi_dir_index_present := True, fi_time_last_mod := lastmod,
             fi_time_last_mod_present := True, fi_file_length := file_length,
             fi_file_length_present := True\<rparr>, p)))))"

lemma old_file_entry_advances: "old_file_entry dbg buf s ctx p = DW_OK (fe, q) \<Longrightarrow> p < q"
  by (auto simp: old_file_entry_def dw_bind_OK_iff split: if_splits
      dest!: header_string_advances uword.read_advances)

function old_file_entries ::
  "dwarf_debug \<Rightarrow> bytes \<Rightarrow> ptr \<Rightarrow> line_context \<Rightarrow> file_list \<Rightarrow> ptr \<Rightarrow> (file_list \<times> ptr) dw"
where
  "old_file_entries dbg buf data_start ctx files line_ptr =
     dw_bind (rd8 buf line_ptr) (\<lambda>b.
       if b = 0 then DW_OK (files, line_ptr + 1)
       else dw_bind (old_file_entry dbg buf data_start ctx line_ptr) (\<lambda>(currfile, next_ptr).
         if next_ptr \<ge> lc_line_ptr_end ctx then DW_ERROR DW_DLE_LINE_NUMBER_HEADER_ERROR
         else old_file_entries dbg buf data_start ctx
                (add_to_files_list (lc_version_number ctx) currfile files) next_ptr))"
  by pat_completeness auto
termination
  by (relation "measure (\<lambda>(dbg, buf, data_start, ctx, files, p). lc_line_ptr_end ctx - p)")
     (auto dest: old_file_entry_advances)

declare old_file_entries.simps [simp del]

definition header_old_directories ::
  "dwarf_debug \<Rightarrow> bytes \<Rightarrow> ptr \<Rightarrow> line_context \<Rightarrow> ptr \<Rightarrow> (line_context \<times> ptr) dw"
where
  "header_old_directories dbg buf data_start ctx line_ptr =
     (if line_ptr \<ge> lc_line_ptr_end ctx then DW_ERROR DW_DLE_LINE_OFFSET_BAD
      else
        dw_bind
          (if lc_version_number ctx < 5 then
             dw_bind (old_include_directories dbg buf data_start ctx [] line_ptr) (\<lambda>(dirs, line_ptr).
               DW_OK (ctx\<lparr>lc_include_directories := dirs,
                 lc_include_directories_count := word_of_nat (length dirs)\<rparr>, line_ptr))
           else if lc_version_number ctx = EXPERIMENTAL_LINE_TABLES_VERSION then DW_OK (ctx, line_ptr + 1)
           else DW_OK (ctx, line_ptr))
          (\<lambda>(ctx, line_ptr).
             if line_ptr > lc_line_ptr_end ctx then DW_ERROR DW_DLE_LINE_OFFSET_BAD
             else DW_OK (ctx, line_ptr)))"

definition header_old_files ::
  "dwarf_debug \<Rightarrow> bytes \<Rightarrow> ptr \<Rightarrow> line_context \<Rightarrow> ptr \<Rightarrow> (line_context \<times> ptr) dw"
where
  "header_old_files dbg buf data_start ctx line_ptr =
     dw_bind
       (if lc_version_number ctx < 5 then
          if line_ptr \<ge> lc_line_ptr_end ctx then DW_ERROR DW_DLE_LINE_NUMBER_HEADER_ERROR
          else dw_bind (old_file_entries dbg buf data_start ctx (lc_files ctx) line_ptr)
                 (\<lambda>(files, line_ptr). DW_OK (ctx\<lparr>lc_files := files\<rparr>, line_ptr))
        else if lc_version_number ctx = EXPERIMENTAL_LINE_TABLES_VERSION then
          dw_bind (header_byte buf ctx line_ptr DW_DLE_LINE_NUMBER_HEADER_ERROR) (\<lambda>b.
            if b \<noteq> 0 then DW_ERROR DW_DLE_LINE_NUMBER_HEADER_ERROR else DW_OK (ctx, line_ptr + 1))
        else DW_OK (ctx, line_ptr))
       (\<lambda>(ctx, line_ptr).
          if line_ptr > lc_line_ptr_end ctx then DW_ERROR DW_DLE_LINE_OFFSET_BAD
          else DW_OK (ctx, line_ptr))"

section \<open>Two level tables\<close>

fun expect_bytes :: "bytes \<Rightarrow> bytes \<Rightarrow> line_context \<Rightarrow> ptr \<Rightarrow> ptr dw" where
  "expect_bytes [] buf ctx line_ptr = DW_OK line_ptr"
| "expect_bytes (e # es) buf ctx line_ptr =
     dw_bind (header_byte buf ctx line_ptr DW_DLE_LINE_NUMBER_HEADER_ERROR) (\<lambda>b.
       if b \<noteq> e then DW_ERROR DW_DLE_LINE_NUMBER_HEADER_ERROR
       else expect_bytes es buf ctx (line_ptr + 1))"

definition header_experimental_offsets ::
  "dwarf_debug \<Rightarrow> bytes \<Rightarrow> nat \<Rightarrow> line_context \<Rightarrow> ptr \<Rightarrow> (line_context \<times> ptr) dw"
where
  "header_experimental_offsets dbg buf local_length_size ctx line_ptr =
     (if lc_version_number ctx = EXPERIMENTAL_LINE_TABLES_VERSION then
        dw_bind (expect_bytes [0, 0xff, 0xff, 0x7f, 0x7f] buf ctx line_ptr) (\<lambda>line_ptr.
        dw_bind (read_unaligned_ck dbg buf line_ptr local_length_size (lc_line_ptr_end ctx)) (\<lambda>logicals.
        let line_ptr = line_ptr + local_length_size in
        dw_bind (read_unaligned_ck dbg buf line_ptr local_length_size (lc_line_ptr_end ctx)) (\<lambda>actuals.
        let line_ptr = line_ptr + local_length_size in
          if line_ptr > lc_line_ptr_end ctx then DW_ERROR DW_DLE_LINE_OFFSET_BAD
          else if actuals > de_filesize dbg then DW_ERROR DW_DLE_LINE_OFFSET_BAD
          else if line_ptr + unat actuals > lc_line_ptr_end ctx then DW_ERROR DW_DLE_LINE_OFFSET_BAD
          else DW_OK (ctx\<lparr>lc_logicals_table_offset := logicals, lc_actuals_table_offset := actuals\<rparr>,
                      line_ptr))))
      else DW_OK (ctx, line_ptr))"


section \<open>The lists of version 5\<close>

text \<open>The overflow tests before the memory for a list is allocated.\<close>

definition check_alloc_size :: "u64 \<Rightarrow> u64 \<Rightarrow> unit dw" where
  "check_alloc_size entry_size count =
     (if fst (uint64_mult entry_size count) = DLV_ERROR then DW_ERROR DW_DLE_ALLOC_FAIL else DW_OK ())"

fun read_format_pairs :: "nat \<Rightarrow> bytes \<Rightarrow> ptr \<Rightarrow> ptr \<Rightarrow> ((u64 \<times> u64) list \<times> ptr) dw" where
  "read_format_pairs 0 buf line_ptr line_ptr_end = DW_OK ([], line_ptr)"
| "read_format_pairs (Suc n) buf line_ptr line_ptr_end =
     dw_bind (leb128_uword_wrapper buf line_ptr line_ptr_end) (\<lambda>(up_first, line_ptr).
     dw_bind (leb128_uword_wrapper buf line_ptr line_ptr_end) (\<lambda>(up_second, line_ptr).
     dw_bind (read_format_pairs n buf line_ptr line_ptr_end) (\<lambda>(pairs, line_ptr).
       DW_OK ((up_first, up_second) # pairs, line_ptr))))"

fun directory_fields ::
  "(u64 \<times> u64) list \<Rightarrow> dwarf_debug \<Rightarrow> nat \<Rightarrow> bytes \<Rightarrow> ptr \<Rightarrow> section_string \<Rightarrow> ptr \<Rightarrow>
   (section_string \<times> ptr) dw"
where
  "directory_fields [] dbg osize buf line_ptr_end dir line_ptr = DW_OK (dir, line_ptr)"
| "directory_fields ((lntype, lnform) # pairs) dbg osize buf line_ptr_end dir line_ptr =
     (if line_ptr \<ge> line_ptr_end then DW_ERROR DW_DLE_LINE_NUMBER_HEADER_ERROR
      else if lntype = DW_LNCT_path then
        dw_bind (decode_line_string_form dbg lnform osize buf line_ptr line_ptr_end) (\<lambda>(inc_dir, line_ptr).
          directory_fields pairs dbg osize buf line_ptr_end inc_dir line_ptr)
      else DW_ERROR DW_DLE_LINE_NUMBER_HEADER_ERROR)"

fun directories ::
  "nat \<Rightarrow> (u64 \<times> u64) list \<Rightarrow> dwarf_debug \<Rightarrow> nat \<Rightarrow> bytes \<Rightarrow> ptr \<Rightarrow> ptr \<Rightarrow>
   (section_string list \<times> ptr) dw"
where
  "directories 0 pairs dbg osize buf line_ptr_end line_ptr = DW_OK ([], line_ptr)"
| "directories (Suc n) pairs dbg osize buf line_ptr_end line_ptr =
     dw_bind (directory_fields pairs dbg osize buf line_ptr_end No_String line_ptr) (\<lambda>(dir, line_ptr).
       if line_ptr > line_ptr_end then DW_ERROR DW_DLE_LINE_NUMBER_HEADER_ERROR
       else dw_bind (directories n pairs dbg osize buf line_ptr_end line_ptr) (\<lambda>(dirs, line_ptr).
         DW_OK (dir # dirs, line_ptr)))"

definition header_directories ::
  "dwarf_debug \<Rightarrow> bytes \<Rightarrow> nat \<Rightarrow> line_context \<Rightarrow> ptr \<Rightarrow> (line_context \<times> ptr) dw"
where
  "header_directories dbg buf local_length_size ctx line_ptr =
     (let line_ptr_end = lc_line_ptr_end ctx in
      dw_bind (header_byte buf ctx line_ptr DW_DLE_LINE_NUMBER_HEADER_ERROR) (\<lambda>format_count.
        let line_ptr = line_ptr + 1 in
        if line_ptr \<ge> line_ptr_end then DW_ERROR DW_DLE_LINE_OFFSET_BAD
        else dw_bind (read_format_pairs (unat format_count) buf line_ptr line_ptr_end) (\<lambda>(pairs, line_ptr).
          if line_ptr \<ge> line_ptr_end then DW_ERROR DW_DLE_LINE_OFFSET_BAD
          else dw_bind (leb128_uword_wrapper buf line_ptr line_ptr_end) (\<lambda>(directories_count, line_ptr).
            if directories_count > lc_total_length ctx then DW_ERROR DW_DLE_DEBUG_LINE_LENGTH_BAD
            else dw_bind (check_alloc_size 8 directories_count) (\<lambda>_.
              if format_count = 0 \<and> directories_count > 0
              then DW_ERROR DW_DLE_DIRECTORY_FORMAT_COUNT_VS_DIRECTORIES_MISMATCH
              else dw_bind (directories (unat directories_count) pairs dbg local_length_size buf
                              line_ptr_end line_ptr) (\<lambda>(dirs, line_ptr).
                DW_OK (ctx\<lparr>lc_directory_entry_format_count := ucast format_count,
                  lc_include_directories := dirs, lc_directory_format_values := pairs,
                  lc_include_directories_count := directories_count\<rparr>, line_ptr)))))))"

text \<open>One field of the description of a file; the form of a digest is fixed.\<close>

definition file_field ::
  "dwarf_debug \<Rightarrow> nat \<Rightarrow> bytes \<Rightarrow> ptr \<Rightarrow> u64 \<Rightarrow> u64 \<Rightarrow> file_entry \<Rightarrow> ptr \<Rightarrow> (file_entry \<times> ptr) dw"
where
  "file_field dbg osize buf line_ptr_end lntype lnform fe line_ptr =
     (let udata = (\<lambda>k. dw_bind (decode_line_udata_form dbg lntype lnform buf line_ptr line_ptr_end)
            (\<lambda>(v, line_ptr). DW_OK (k v, line_ptr)));
          str = (\<lambda>k. dw_bind (decode_line_string_form dbg lnform osize buf line_ptr line_ptr_end)
            (\<lambda>(s, line_ptr). DW_OK (k s, line_ptr)))
      in if lntype = DW_LNCT_GNU_decl_file then
           udata (\<lambda>v. fe\<lparr>fi_gnu_decl_file := v, fi_gnu_decl_file_present := True\<rparr>)
         else if lntype = DW_LNCT_GNU_decl_line then
           udata (\<lambda>v. fe\<lparr>fi_gnu_decl_line := v, fi_gnu_decl_line_present := True\<rparr>)
         else if lntype = DW_LNCT_path then str (\<lambda>s. fe\<lparr>fi_file_name := s\<rparr>)
         else if lntype = DW_LNCT_GNU_subprogram_name then str (\<lambda>s. fe\<lparr>fi_gnu_subprogram_name := s\<rparr>)
         else if lntype = DW_LNCT_LLVM_source then str (\<lambda>s. fe\<lparr>fi_llvm_source := s\<rparr>)
         else if lntype = DW_LNCT_directory_index then
           udata (\<lambda>v. fe\<lparr>fi_dir_index := v, fi_dir_index_present := True\<rparr>)
         else if lntype = DW_LNCT_timestamp then
           udata (\<lambda>v. fe\<lparr>fi_time_last_mod := v, fi_time_last_mod_present := True\<rparr>)
         else if lntype = DW_LNCT_size then
           udata (\<lambda>v. fe\<lparr>fi_file_length := v, fi_file_length_present := True\<rparr>)
         else if lntype = DW_LNCT_MD5 then
           if lnform \<noteq> DW_FORM_data16 then DW_ERROR DW_DLE_LNCT_MD5_WRONG_FORM
           else dw_bind (extract_data16 buf line_ptr line_ptr line_ptr_end) (\<lambda>md5.
             DW_OK (fe\<lparr>fi_md5_value := md5, fi_md5_present := True\<rparr>, line_ptr + 16))
         else DW_ERROR DW_DLE_LINE_NUMBER_HEADER_ERROR)"

fun file_fields ::
  "(u64 \<times> u64) list \<Rightarrow> dwarf_debug \<Rightarrow> nat \<Rightarrow> bytes \<Rightarrow> ptr \<Rightarrow> file_entry \<Rightarrow> ptr \<Rightarrow> (file_entry \<times> ptr) dw"
where
  "file_fields [] dbg osize buf line_ptr_end fe line_ptr = DW_OK (fe, line_ptr)"
| "file_fields ((lntype, lnform) # pairs) dbg osize buf line_ptr_end fe line_ptr =
     (if line_ptr \<ge> line_ptr_end then DW_ERROR DW_DLE_LINE_NUMBER_HEADER_ERROR
      else dw_bind (file_field dbg osize buf line_ptr_end lntype lnform fe line_ptr) (\<lambda>(fe, line_ptr).
        if line_ptr > line_ptr_end then DW_ERROR DW_DLE_LINE_NUMBER_HEADER_ERROR
        else file_fields pairs dbg osize buf line_ptr_end fe line_ptr))"

fun file_names ::
  "nat \<Rightarrow> (u64 \<times> u64) list \<Rightarrow> dwarf_debug \<Rightarrow> nat \<Rightarrow> bytes \<Rightarrow> line_context \<Rightarrow> file_list \<Rightarrow> ptr \<Rightarrow>
   (file_list \<times> ptr) dw"
where
  "file_names 0 pairs dbg osize buf ctx files line_ptr = DW_OK (files, line_ptr)"
| "file_names (Suc n) pairs dbg osize buf ctx files line_ptr =
     dw_bind (file_fields pairs dbg osize buf (lc_line_ptr_end ctx) new_file_entry line_ptr) (\<lambda>(fe, line_ptr).
       file_names n pairs dbg osize buf ctx (add_to_files_list (lc_version_number ctx) fe files) line_ptr)"

definition header_files ::
  "dwarf_debug \<Rightarrow> bytes \<Rightarrow> nat \<Rightarrow> line_context \<Rightarrow> ptr \<Rightarrow> (line_context \<times> ptr) dw"
where
  "header_files dbg buf local_length_size ctx line_ptr =
     (let line_ptr_end = lc_line_ptr_end ctx in
      dw_bind (header_byte buf ctx line_ptr DW_DLE_LINE_NUMBER_HEADER_ERROR) (\<lambda>format_count.
        let line_ptr = line_ptr + 1 in
        if line_ptr \<ge> line_ptr_end then DW_ERROR DW_DLE_LINE_NUMBER_HEADER_ERROR
        else dw_bind (read_format_pairs (unat format_count) buf line_ptr line_ptr_end) (\<lambda>(pairs, line_ptr).
          dw_bind (leb128_uword_wrapper buf line_ptr line_ptr_end) (\<lambda>(files_count, line_ptr).
            if files_count > lc_total_length ctx then DW_ERROR DW_DLE_DEBUG_LINE_LENGTH_BAD
            else dw_bind (file_names (unat files_count) pairs dbg local_length_size buf ctx (lc_files ctx)
                            line_ptr) (\<lambda>(files, line_ptr).
              DW_OK (ctx\<lparr>lc_file_name_format_count := ucast format_count, lc_files := files,
                lc_file_format_values := pairs\<rparr>, line_ptr))))))"

section \<open>The subprograms of two level tables\<close>

fun read_subprog_formats :: "nat \<Rightarrow> bytes \<Rightarrow> line_context \<Rightarrow> ptr \<Rightarrow> ((u64 \<times> u64) list \<times> ptr) dw" where
  "read_subprog_formats 0 buf ctx line_ptr = DW_OK ([], line_ptr)"
| "read_subprog_formats (Suc n) buf ctx line_ptr =
     dw_bind (leb128_uword_wrapper buf line_ptr (lc_line_ptr_end ctx)) (\<lambda>(entry_type, line_ptr).
       if entry_type > lc_total_length ctx then DW_ERROR DW_DLE_LINE_TABLE_BAD
       else dw_bind (leb128_uword_wrapper buf line_ptr (lc_line_ptr_end ctx)) (\<lambda>(entry_form, line_ptr).
         if entry_form > lc_total_length ctx then DW_ERROR DW_DLE_LINE_TABLE_BAD
         else dw_bind (read_subprog_formats n buf ctx line_ptr) (\<lambda>(formats, line_ptr).
           DW_OK ((entry_type, entry_form) # formats, line_ptr))))"

definition subprog_field ::
  "dwarf_debug \<Rightarrow> nat \<Rightarrow> bytes \<Rightarrow> ptr \<Rightarrow> u64 \<Rightarrow> u64 \<Rightarrow> subprog_entry \<Rightarrow> ptr \<Rightarrow> (subprog_entry \<times> ptr) dw"
where
  "subprog_field dbg osize buf line_ptr_end lntype lnform sub line_ptr =
     (let udata = (\<lambda>k. dw_bind (decode_line_udata_form dbg lntype lnform buf line_ptr line_ptr_end)
            (\<lambda>(v, line_ptr). DW_OK (k v, line_ptr)))
      in if lntype = DW_LNCT_GNU_subprogram_name then
           dw_bind (decode_line_string_form dbg lnform osize buf line_ptr line_ptr_end)
             (\<lambda>(s, line_ptr). DW_OK (sub\<lparr>ds_subprog_name := s\<rparr>, line_ptr))
         else if lntype = DW_LNCT_GNU_decl_file then udata (\<lambda>v. sub\<lparr>ds_decl_file := v\<rparr>)
         else if lntype = DW_LNCT_GNU_decl_line then udata (\<lambda>v. sub\<lparr>ds_decl_line := v\<rparr>)
         else DW_ERROR DW_DLE_LINE_NUMBER_HEADER_ERROR)"

fun subprog_fields ::
  "(u64 \<times> u64) list \<Rightarrow> dwarf_debug \<Rightarrow> nat \<Rightarrow> bytes \<Rightarrow> ptr \<Rightarrow> subprog_entry \<Rightarrow> ptr \<Rightarrow> (subprog_entry \<times> ptr) dw"
where
  "subprog_fields [] dbg osize buf line_ptr_end sub line_ptr = DW_OK (sub, line_ptr)"
| "subprog_fields ((lntype, lnform) # pairs) dbg osize buf line_ptr_end sub line_ptr =
     dw_bind (subprog_field dbg osize buf line_ptr_end lntype lnform sub line_ptr) (\<lambda>(sub, line_ptr).
       if line_ptr \<ge> line_ptr_end then DW_ERROR DW_DLE_LINE_NUMBER_HEADER_ERROR
       else subprog_fields pairs dbg osize buf line_ptr_end sub line_ptr)"

fun subprogs ::
  "nat \<Rightarrow> (u64 \<times> u64) list \<Rightarrow> dwarf_debug \<Rightarrow> nat \<Rightarrow> bytes \<Rightarrow> ptr \<Rightarrow> ptr \<Rightarrow>
   (subprog_entry list \<times> ptr) dw"
where
  "subprogs 0 pairs dbg osize buf line_ptr_end line_ptr = DW_OK ([], line_ptr)"
| "subprogs (Suc n) pairs dbg osize buf line_ptr_end line_ptr =
     (if line_ptr \<ge> line_ptr_end then DW_ERROR DW_DLE_LINE_NUMBER_HEADER_ERROR
      else dw_bind (subprog_fields pairs dbg osize buf line_ptr_end new_subprog_entry line_ptr)
        (\<lambda>(sub, line_ptr).
          dw_bind (subprogs n pairs dbg osize buf line_ptr_end line_ptr) (\<lambda>(subs, line_ptr).
            DW_OK (sub # subs, line_ptr))))"

definition header_subprograms ::
  "dwarf_debug \<Rightarrow> bytes \<Rightarrow> nat \<Rightarrow> line_context \<Rightarrow> ptr \<Rightarrow> (line_context \<times> ptr) dw"
where
  "header_subprograms dbg buf local_length_size ctx line_ptr =
     (let line_ptr_end = lc_line_ptr_end ctx in
      dw_bind (header_byte buf ctx line_ptr DW_DLE_LINE_NUMBER_HEADER_ERROR) (\<lambda>format_count.
        let line_ptr = line_ptr + 1 in
        if ucast format_count > lc_total_length ctx then DW_ERROR DW_DLE_LINE_TABLE_BAD
        else if line_ptr \<ge> line_ptr_end then DW_ERROR DW_DLE_LINE_NUMBER_HEADER_ERROR
        else dw_bind (read_subprog_formats (unat format_count) buf ctx line_ptr) (\<lambda>(formats, line_ptr).
          dw_bind (leb128_uword_wrapper buf line_ptr line_ptr_end) (\<lambda>(subprogs_count, line_ptr).
            if subprogs_count > lc_total_length ctx then DW_ERROR DW_DLE_LINE_TABLE_BAD
            else dw_bind (check_alloc_size 24 subprogs_count) (\<lambda>_.
              dw_bind (subprogs (unat subprogs_count) formats dbg local_length_size buf line_ptr_end
                         line_ptr) (\<lambda>(subs, line_ptr).
                DW_OK (ctx\<lparr>lc_subprogs := subs, lc_subprogs_count := subprogs_count\<rparr>, line_ptr)))))))"

section \<open>The whole header\<close>

text \<open>
  A program that starts after the pointer starts at the pointer all the same; the distance between the
  two is only reported.
\<close>

definition header_finish :: "line_context \<Rightarrow> ptr \<Rightarrow> (line_context \<times> ptr) dw" where
  "header_finish ctx line_ptr =
     (let lp_begin = lc_line_prologue_start ctx +
            (if lc_version_number ctx = EXPERIMENTAL_LINE_TABLES_VERSION
             then unat (lc_logicals_table_offset ctx) else unat (lc_prologue_length ctx))
      in if line_ptr > lc_line_ptr_end ctx then DW_ERROR DW_DLE_LINE_OFFSET_BAD
         else if line_ptr > lp_begin then DW_ERROR DW_DLE_LINE_PROLOG_LENGTH_BAD
         else
           let lp_begin = line_ptr;
               count = (if lc_actuals_table_offset ctx \<noteq> 0 then 2
                        else if lc_line_ptr_end ctx > lp_begin then 1 else 0)
           in DW_OK (ctx\<lparr>lc_line_ptr_start := lp_begin, lc_table_count := count\<rparr>, lp_begin))"

definition header_version5_part ::
  "dwarf_debug \<Rightarrow> bytes \<Rightarrow> nat \<Rightarrow> line_context \<Rightarrow> ptr \<Rightarrow> (line_context \<times> ptr) dw"
where
  "header_version5_part dbg buf osize ctx line_ptr =
     (if lc_version_number ctx \<in> {5, EXPERIMENTAL_LINE_TABLES_VERSION} then
        dw_bind (header_directories dbg buf osize ctx line_ptr) (\<lambda>(ctx, line_ptr).
        dw_bind (header_files dbg buf osize ctx line_ptr) (\<lambda>(ctx, line_ptr).
          if lc_version_number ctx = EXPERIMENTAL_LINE_TABLES_VERSION
          then header_subprograms dbg buf osize ctx line_ptr else DW_OK (ctx, line_ptr)))
      else DW_OK (ctx, line_ptr))"

definition read_line_table_header ::
  "dwarf_debug \<Rightarrow> u8 \<Rightarrow> u8 \<Rightarrow> bytes \<Rightarrow> ptr \<Rightarrow> line_context \<Rightarrow> (line_context \<times> ptr) dw"
where
  "read_line_table_header dbg cc_address_size cc_segment_selector_size buf data_start ctx =
     dw_bind (header_lengths dbg buf data_start ctx) (\<lambda>((ctx, osize), line_ptr).
     dw_bind (header_version dbg buf cc_address_size cc_segment_selector_size ctx line_ptr) (\<lambda>(ctx, line_ptr).
     dw_bind (header_prologue dbg buf osize ctx line_ptr) (\<lambda>(ctx, line_ptr).
     dw_bind (header_max_ops buf ctx line_ptr) (\<lambda>(ctx, line_ptr).
     dw_bind (header_opcodes buf ctx line_ptr) (\<lambda>(ctx, line_ptr).
     dw_bind (header_operand_counts buf ctx) (\<lambda>_.
     dw_bind (header_old_directories dbg buf data_start ctx line_ptr) (\<lambda>(ctx, line_ptr).
     dw_bind (header_old_files dbg buf data_start ctx line_ptr) (\<lambda>(ctx, line_ptr).
     dw_bind (header_experimental_offsets dbg buf osize ctx line_ptr) (\<lambda>(ctx, line_ptr).
     dw_bind (header_version5_part dbg buf osize ctx line_ptr) (\<lambda>(ctx, line_ptr).
       header_finish ctx line_ptr))))))))))"


section \<open>The readers stay inside the table\<close>

lemma spec_uword:
  "e \<le> length buf \<Longrightarrow> spec G (\<lambda>(v, q). p < q \<and> q \<le> e) (leb128_uword_wrapper buf p e)"
  using uword.read_no_fault [of e buf p] uword.read_advances [of buf p e] by (auto simp: spec_def)

lemma spec_unaligned:
  "e \<le> length buf \<Longrightarrow> n \<le> 8 \<Longrightarrow> spec G (\<lambda>_. p + n \<le> e) (read_unaligned_ck dbg buf p n e)"
  using read_unaligned_ck_no_fault [of e buf n dbg p] read_unaligned_ck_OK [of dbg buf p n e]
  by (auto simp: spec_def)

lemma spec_check_string:
  "e \<le> length buf \<Longrightarrow> spec (\<not> de_assume_string_in_bounds dbg)
     (\<lambda>_. de_assume_string_in_bounds dbg \<or> (\<exists>n. strlen buf p = DW_OK n \<and> p + n < e))
     (check_string_valid dbg buf s p e err)"
  using check_string_valid_no_fault [of e buf dbg s p err] check_string_loop_OK [of buf p e]
  by (auto simp: spec_def check_string_valid_def split: if_splits)

lemma spec_string:
  assumes "e \<le> length buf"
  shows "spec (\<not> de_assume_string_in_bounds dbg) (\<lambda>q. p < q \<and> (de_assume_string_in_bounds dbg \<or> q \<le> e))
    (dw_bind (check_string_valid dbg buf s p e err) (\<lambda>_. dw_bind (strlen buf p) (\<lambda>n. DW_OK (p + n + 1))))"
  by (rule spec_bind [OF spec_check_string [OF assms]], cases "strlen buf p") auto

abbreviation (input) "in_bounds dbg \<equiv> \<not> de_assume_string_in_bounds dbg"

lemma spec_header_string:
  assumes "in_bounds dbg" "lc_line_ptr_end ctx \<le> length buf"
  shows "spec True (\<lambda>q. p < q \<and> q \<le> lc_line_ptr_end ctx) (header_string dbg buf s ctx p)"
  using spec_string [OF assms(2), of dbg p s DW_DLE_LINE_STRING_BAD] assms(1) by (simp add: header_string_def)

lemma spec_header_byte:
  "lc_line_ptr_end ctx \<le> length buf \<Longrightarrow> spec G (\<lambda>_. p < lc_line_ptr_end ctx) (header_byte buf ctx p e)"
  by (simp add: header_byte_def)

lemma spec_str_index:
  assumes "e \<le> length buf"
  shows "spec G (\<lambda>_. True) (read_str_index_val_itself dbg form buf p e)"
proof -
  have "spec G (\<lambda>_. True) (dw_bind (read_unaligned_ck dbg buf p n e) (\<lambda>i. DW_OK (i, n :: nat)))"
    if "n \<le> 8" for n
    by (rule spec_bind [OF spec_unaligned [OF assms that]]) simp
  moreover have "spec G (\<lambda>_. True) (dw_bind (decode_leb128_uword_len_ck buf p e) (\<lambda>((i, n), _). DW_OK (i, n)))"
    using assms by (auto simp: spec_def dw_simps no_fault)
  ultimately show ?thesis by (simp add: read_str_index_val_itself_def)
qed

lemma spec_debug_str: "spec G (\<lambda>_. True) (extract_local_debug_str_string_given_offset dbg form offset)"
  using check_string_valid_no_fault [of "length sec" sec dbg 0 "unat offset" err for sec err]
  by (auto simp: extract_local_debug_str_string_given_offset_def spec_def dw_simps Let_def
      split: option.splits if_splits)

lemma spec_line_string_form:
  assumes "in_bounds dbg" "e \<le> length buf" "0 < n" "n \<le> 8"
  shows "spec True (\<lambda>(s, q). p < q \<and> q \<le> e) (decode_line_string_form dbg form n buf p e)"
proof -
  let ?sec = "de_debug_line_str dbg"
  have c: "spec True (\<lambda>_. True) (check_string_valid dbg ?sec 0 off (length ?sec) err)" for off err
    using check_string_valid_no_fault [of "length ?sec" ?sec dbg 0 off err] by (simp add: spec_def)
  have a: "spec True (\<lambda>(s, q). p < q \<and> q \<le> e)
      (dw_bind (read_unaligned_ck dbg buf p n e) (\<lambda>offset.
       dw_bind (check_string_valid dbg ?sec 0 (unat offset) (length ?sec) DW_DLE_LINE_STRP_OFFSET_BAD) (\<lambda>_.
         DW_OK (Debug_Line_Str (unat offset), p + n))))"
    by (rule spec_bind [OF spec_unaligned [OF assms(2,4)]], rule spec_bind [OF c])
       (use assms(3) in simp)
  have b: "spec True (\<lambda>(s, q). p < q \<and> q \<le> e)
      (dw_bind (check_string_valid dbg buf p p e DW_DLE_LINE_STRING_BAD) (\<lambda>_.
       dw_bind (strlen buf p) (\<lambda>n. DW_OK (Debug_Line p, p + n + 1))))"
    by (rule spec_bind [OF spec_check_string [OF assms(2), of dbg p, simplified assms(1) simp_thms]])
       (use assms(1) in auto)
  have d: "spec True (\<lambda>(s, q). p < q \<and> q \<le> e)
      (dw_bind (read_str_index_val_itself dbg form buf p e) (\<lambda>(offset, index_length).
       dw_bind (extract_local_debug_str_string_given_offset dbg form offset) (\<lambda>stritself.
         DW_ERROR DW_DLE_LINE_STRING_BAD)))"
    by (rule spec_bind [OF spec_str_index [OF assms(2)]]) (auto intro: spec_bind [OF spec_debug_str])
  show ?thesis
    unfolding decode_line_string_form_def by (intro spec_if) (rule a b d spec_ERROR)+
qed

lemma spec_line_block:
  assumes "e \<le> length buf"
  shows "spec G (\<lambda>(v, q). p < q \<and> q \<le> e) (decode_line_block dbg buf p e)"
proof -
  have "spec G (\<lambda>((v, n), q). p < q) (decode_leb128_uword_len_ck buf p e)"
    using assms by (auto simp: spec_def no_fault dest: decode_leb128_uword_len_ck_OK)
  moreover have "spec G (\<lambda>(v, q'). p < q' \<and> q' \<le> e)
      (dw_bind (read_unaligned_ck dbg buf d n e) (\<lambda>val. DW_OK (val, d + n)))" if "p < d" "n \<le> 8" for d n
    by (rule spec_bind [OF spec_unaligned [OF assms that(2)]]) (use that in simp)
  ultimately show ?thesis unfolding decode_line_block_def
    by (intro spec_bind [where P = "\<lambda>((v, n), q). p < q"]) (auto simp: Let_def word_le_nat_alt word_less_nat_alt not_less)
qed

lemma spec_line_udata_form:
  assumes "e \<le> length buf" "p < e"
  shows "spec G (\<lambda>(v, q). p < q \<and> q \<le> e) (decode_line_udata_form dbg ltype form buf p e)"
proof -
  have a: "spec G (\<lambda>(v, q). p < q \<and> q \<le> e)
      (dw_bind (read_unaligned_ck dbg buf p n e) (\<lambda>val. DW_OK (val, p + n)))" if "0 < n" "n \<le> 8" for n
    by (rule spec_bind [OF spec_unaligned [OF assms(1) that(2)]]) (use that in simp)
  have b: "spec G (\<lambda>(v, q). p < q \<and> q \<le> e) (dw_bind (rd8 buf p) (\<lambda>b. DW_OK (ucast b :: u64, p + 1)))"
    using assms by simp
  show ?thesis
    unfolding decode_line_udata_form_def Let_def
    by (intro spec_if; (rule spec_ERROR b spec_uword [OF assms(1)] spec_line_block [OF assms(1)] a; simp)?)
qed

lemma spec_data16: "e \<le> length buf \<Longrightarrow> spec G (\<lambda>v. length v = 16 \<and> p + 16 \<le> e) (extract_data16 buf p p e)"
  by (simp add: extract_data16_def Let_def)


section \<open>The parts of the header are safe\<close>

text \<open>
  The first parts establish, and the others keep: the end of the table is in the section, and what the line number
  program relies on. The pointer never falls behind the start of the prologue.
\<close>

definition header_inv :: "bytes \<Rightarrow> line_context \<Rightarrow> ptr \<Rightarrow> bool" where
  "header_inv buf ctx p \<longleftrightarrow> lc_line_ptr_end ctx \<le> length buf \<and> lc_line_range ctx \<noteq> 0 \<and>
     lc_std_op_count ctx = lc_opcode_base ctx - 1 \<and> lc_linecount_logicals ctx = 0 \<and>
     lc_line_prologue_start ctx \<le> p \<and> p \<le> lc_line_ptr_end ctx \<and>
     lc_line_prologue_start ctx + unat (lc_actuals_table_offset ctx) \<le> lc_line_ptr_end ctx"

text \<open>The operation keeps the invariant and moves forward, unless it fails or faults.\<close>

definition advances_header :: "bytes \<Rightarrow> ptr \<Rightarrow> (line_context \<times> ptr) dw \<Rightarrow> bool" where
  "advances_header buf p m = spec True (\<lambda>(ctx, q). header_inv buf ctx q \<and> p \<le> q) m"

lemma advances_headerI:
  assumes "header_inv buf ctx p" "spec True (\<lambda>(x, q). p \<le> q \<and> q \<le> lc_line_ptr_end ctx) m"
    and "\<And>x q. header_inv buf (f x) q = header_inv buf ctx q"
  shows "advances_header buf p (dw_bind m (\<lambda>(x, q). DW_OK (f x, q)))"
  unfolding advances_header_def
  by (rule spec_bind_prod [OF assms(2)]) (use assms(1,3) in \<open>auto simp: header_inv_def\<close>)

lemma header_inv_end: "header_inv buf ctx p \<Longrightarrow> lc_line_ptr_end ctx \<le> length buf \<and> p \<le> lc_line_ptr_end ctx"
  by (simp add: header_inv_def)

lemma spec_old_include_directories:
  "in_bounds dbg \<Longrightarrow> lc_line_ptr_end ctx \<le> length buf \<Longrightarrow> p < lc_line_ptr_end ctx \<Longrightarrow>
   spec True (\<lambda>(ds, q). p \<le> q \<and> q \<le> lc_line_ptr_end ctx) (old_include_directories dbg buf s ctx dirs p)"
proof (induction dbg buf s ctx dirs p rule: old_include_directories.induct)
  case (1 dbg buf s ctx dirs p)
  have b: "rd8 buf p = DW_OK (buf ! p)" using 1 by simp
  show ?case
  proof (cases "buf ! p = 0")
    case True
    then show ?thesis using 1(4) b by (subst old_include_directories.simps) simp
  next
    case False
    show ?thesis
      apply (subst old_include_directories.simps)
      apply (simp add: b False)
      apply (rule spec_bind_eq [OF spec_header_string [OF 1(2,3)]])
      subgoal for q
        using 1(2,3) by (intro spec_if spec_mono [OF "1.IH" [OF b False]]) auto
      done
  qed
qed

lemma spec_old_file_entry:
  assumes "in_bounds dbg" "lc_line_ptr_end ctx \<le> length buf"
  shows "spec True (\<lambda>(fe, q). p < q \<and> q \<le> lc_line_ptr_end ctx) (old_file_entry dbg buf s ctx p)"
  unfolding old_file_entry_def
  apply (rule spec_bind [OF spec_header_string [OF assms]])
  apply (rule spec_bind_prod [OF spec_uword [OF assms(2)]])
  apply (rule spec_if, simp)
  apply (rule spec_bind_prod [OF spec_uword [OF assms(2)]])+
  apply simp
  done

lemma spec_old_file_entries:
  "in_bounds dbg \<Longrightarrow> lc_line_ptr_end ctx \<le> length buf \<Longrightarrow> p < lc_line_ptr_end ctx \<Longrightarrow>
   spec True (\<lambda>(fs, q). p \<le> q \<and> q \<le> lc_line_ptr_end ctx) (old_file_entries dbg buf s ctx files p)"
proof (induction dbg buf s ctx files p rule: old_file_entries.induct)
  case (1 dbg buf s ctx files p)
  have b: "rd8 buf p = DW_OK (buf ! p)" using 1 by simp
  show ?case
  proof (cases "buf ! p = 0")
    case True
    then show ?thesis using 1(4) b by (subst old_file_entries.simps) simp
  next
    case False
    show ?thesis
      apply (subst old_file_entries.simps)
      apply (simp add: b False)
      apply (rule spec_bind_eq [OF spec_old_file_entry [OF 1(2,3)]])
      subgoal for x
        using 1(2,3)
        by (cases x) (auto intro!: spec_mono [OF "1.IH" [OF b False _ refl]])
      done
  qed
qed

lemma spec_expect_bytes:
  "lc_line_ptr_end ctx \<le> length buf \<Longrightarrow> p \<le> lc_line_ptr_end ctx \<Longrightarrow>
   spec True (\<lambda>q. p \<le> q \<and> q \<le> lc_line_ptr_end ctx) (expect_bytes es buf ctx p)"
proof (induction es arbitrary: p)
  case (Cons e es)
  show ?case unfolding expect_bytes.simps
    by (rule spec_bind [OF spec_header_byte [OF Cons.prems(1)]], rule spec_if, simp,
        rule spec_mono [OF Cons.IH]) (use Cons.prems(1) in auto)
qed simp

lemma spec_format_pairs:
  "e \<le> length buf \<Longrightarrow> p \<le> e \<Longrightarrow> spec G (\<lambda>(ps, q). p \<le> q \<and> q \<le> e) (read_format_pairs n buf p e)"
proof (induction n arbitrary: p)
  case (Suc n)
  show ?case unfolding read_format_pairs.simps
    apply (rule spec_bind_prod [OF spec_uword [OF Suc.prems(1)]])+
    apply (rule spec_bind_prod [OF Suc.IH [OF Suc.prems(1)]])
    by auto
qed simp

lemma spec_directory_fields:
  "in_bounds dbg \<Longrightarrow> e \<le> length buf \<Longrightarrow> p \<le> e \<Longrightarrow> 0 < n \<Longrightarrow> n \<le> 8 \<Longrightarrow>
   spec True (\<lambda>(d, q). p \<le> q \<and> q \<le> e) (directory_fields pairs dbg n buf e d p)"
proof (induction pairs arbitrary: d p)
  case (Cons pr pairs)
  obtain a b where [simp]: "pr = (a, b)" by (cases pr)
  note str = spec_bind_prod [OF spec_line_string_form [OF Cons.prems(1,2,4,5)]]
  have "spec True (\<lambda>(d, q). p \<le> q \<and> q \<le> e) (directory_fields pairs dbg n buf e d' q)"
    if "p < q \<and> q \<le> e" for d' q
    by (rule spec_mono [OF Cons.IH]) (use Cons.prems that in auto)
  note step = str [OF this]
  show ?case
    by (simp add: step)
qed simp

lemma spec_directories:
  "in_bounds dbg \<Longrightarrow> e \<le> length buf \<Longrightarrow> p \<le> e \<Longrightarrow> 0 < n \<Longrightarrow> n \<le> 8 \<Longrightarrow>
   spec True (\<lambda>(ds, q). length ds = k \<and> p \<le> q \<and> q \<le> e) (directories k pairs dbg n buf e p)"
proof (induction k arbitrary: p)
  case (Suc k)
  show ?case
    unfolding directories.simps
    apply (rule spec_bind_prod [OF spec_directory_fields [OF Suc.prems]])
    apply (rule spec_if, simp)
    apply (rule spec_bind_prod [OF Suc.IH])
    using Suc.prems by auto
qed simp


lemma spec_file_field:
  assumes "in_bounds dbg" "e \<le> length buf" "p < e" "0 < n" "n \<le> 8"
  shows "spec True (\<lambda>(fe, q). p < q \<and> q \<le> e) (file_field dbg n buf e ty form fe p)"
proof -
  have u: "spec True (\<lambda>(fe, q). p < q \<and> q \<le> e)
      (dw_bind (decode_line_udata_form dbg ty form buf p e) (\<lambda>(v, q). DW_OK (k v, q)))" for k :: "u64 \<Rightarrow> file_entry"
    by (rule spec_bind_prod [OF spec_line_udata_form [OF assms(2,3)]]) simp
  have s: "spec True (\<lambda>(fe, q). p < q \<and> q \<le> e)
      (dw_bind (decode_line_string_form dbg form n buf p e) (\<lambda>(v, q). DW_OK (k v, q)))"
    for k :: "section_string \<Rightarrow> file_entry"
    by (rule spec_bind_prod [OF spec_line_string_form [OF assms(1,2,4,5)]]) simp
  have d: "spec True (\<lambda>(fe, q). p < q \<and> q \<le> e)
      (dw_bind (extract_data16 buf p p e) (\<lambda>v. DW_OK (k v, p + 16)))" for k :: "bytes \<Rightarrow> file_entry"
    by (rule spec_bind [OF spec_data16 [OF assms(2)]]) simp
  show ?thesis
    unfolding file_field_def Let_def by (intro spec_if) (rule u s d spec_ERROR)+
qed

lemma spec_file_fields:
  "in_bounds dbg \<Longrightarrow> e \<le> length buf \<Longrightarrow> p \<le> e \<Longrightarrow> 0 < n \<Longrightarrow> n \<le> 8 \<Longrightarrow>
   spec True (\<lambda>(fe, q). p \<le> q \<and> q \<le> e) (file_fields pairs dbg n buf e fe p)"
proof (induction pairs arbitrary: fe p)
  case (Cons pr pairs)
  obtain a b where [simp]: "pr = (a, b)" by (cases pr)
  have "spec True (\<lambda>(fe, q). p \<le> q \<and> q \<le> e) (file_fields pairs dbg n buf e fe' q)"
    if "p < q \<and> q \<le> e" for fe' q
    by (rule spec_mono [OF Cons.IH]) (use Cons.prems that in auto)
  then show ?case
    using Cons.prems by (auto intro!: spec_bind_prod [OF spec_file_field])
qed simp

lemma spec_file_names:
  "in_bounds dbg \<Longrightarrow> lc_line_ptr_end ctx \<le> length buf \<Longrightarrow> p \<le> lc_line_ptr_end ctx \<Longrightarrow> 0 < n \<Longrightarrow> n \<le> 8 \<Longrightarrow>
   spec True (\<lambda>(fs, q). p \<le> q \<and> q \<le> lc_line_ptr_end ctx) (file_names k pairs dbg n buf ctx files p)"
proof (induction k arbitrary: files p)
  case (Suc k)
  have "spec True (\<lambda>(fs, q). p \<le> q \<and> q \<le> lc_line_ptr_end ctx) (file_names k pairs dbg n buf ctx fs' q)"
    if "p \<le> q \<and> q \<le> lc_line_ptr_end ctx" for fs' q
    by (rule spec_mono [OF Suc.IH]) (use Suc.prems that in auto)
  then show ?case
    using Suc.prems by (auto intro!: spec_bind_prod [OF spec_file_fields])
qed simp

lemma spec_subprog_formats:
  "lc_line_ptr_end ctx \<le> length buf \<Longrightarrow> p \<le> lc_line_ptr_end ctx \<Longrightarrow>
   spec True (\<lambda>(fs, q). p \<le> q \<and> q \<le> lc_line_ptr_end ctx) (read_subprog_formats n buf ctx p)"
proof (induction n arbitrary: p)
  case (Suc n)
  show ?case unfolding read_subprog_formats.simps
    apply (rule spec_bind_prod [OF spec_uword [OF Suc.prems(1)]])
    apply (rule spec_if, simp)
    apply (rule spec_bind_prod [OF spec_uword [OF Suc.prems(1)]])
    apply (rule spec_if, simp)
    apply (rule spec_bind_prod [OF Suc.IH [OF Suc.prems(1)]])
    by auto
qed simp

lemma spec_subprog_field:
  assumes "in_bounds dbg" "e \<le> length buf" "p < e" "0 < n" "n \<le> 8"
  shows "spec True (\<lambda>(sub, q). p < q \<and> q \<le> e) (subprog_field dbg n buf e ty form sub p)"
proof -
  have u: "spec True (\<lambda>(sub, q). p < q \<and> q \<le> e)
      (dw_bind (decode_line_udata_form dbg ty form buf p e) (\<lambda>(v, q). DW_OK (k v, q)))" for k :: "u64 \<Rightarrow> subprog_entry"
    by (rule spec_bind_prod [OF spec_line_udata_form [OF assms(2,3)]]) simp
  have s: "spec True (\<lambda>(sub, q). p < q \<and> q \<le> e)
      (dw_bind (decode_line_string_form dbg form n buf p e) (\<lambda>(v, q). DW_OK (k v, q)))"
    for k :: "section_string \<Rightarrow> subprog_entry"
    by (rule spec_bind_prod [OF spec_line_string_form [OF assms(1,2,4,5)]]) simp
  show ?thesis
    unfolding subprog_field_def Let_def by (intro spec_if) (rule u s spec_ERROR)+
qed

lemma spec_subprog_fields:
  "in_bounds dbg \<Longrightarrow> e \<le> length buf \<Longrightarrow> p < e \<Longrightarrow> 0 < n \<Longrightarrow> n \<le> 8 \<Longrightarrow>
   spec True (\<lambda>(sub, q). p \<le> q \<and> q \<le> e) (subprog_fields pairs dbg n buf e sub p)"
proof (induction pairs arbitrary: sub p)
  case (Cons pr pairs)
  obtain a b where [simp]: "pr = (a, b)" by (cases pr)
  have "spec True (\<lambda>(sub, q). p \<le> q \<and> q \<le> e) (subprog_fields pairs dbg n buf e sub' q)"
    if "p < q \<and> q < e" for sub' q
    by (rule spec_mono [OF Cons.IH]) (use Cons.prems that in auto)
  then show ?case
    using Cons.prems by (auto intro!: spec_bind_prod [OF spec_subprog_field])
qed simp

lemma spec_subprogs:
  "in_bounds dbg \<Longrightarrow> e \<le> length buf \<Longrightarrow> p \<le> e \<Longrightarrow> 0 < n \<Longrightarrow> n \<le> 8 \<Longrightarrow>
   spec True (\<lambda>(subs, q). length subs = k \<and> p \<le> q \<and> q \<le> e) (subprogs k pairs dbg n buf e p)"
proof (induction k arbitrary: p)
  case (Suc k)
  show ?case
    unfolding subprogs.simps
    apply (rule spec_if, simp)
    apply (rule spec_bind_prod [OF spec_subprog_fields [OF Suc.prems(1,2) _ Suc.prems(4,5)]], simp)
    apply (rule spec_bind_prod [OF Suc.IH])
    using Suc.prems by auto
qed simp

lemma spec_check_alloc_size: "spec G (\<lambda>_. True) (check_alloc_size n k)"
  by (simp add: check_alloc_size_def)

text \<open>The parts that follow the operand counts.\<close>


named_theorems header_advance \<open>parts of the header keep the invariant\<close>

lemma advances_simple [simp]:
  "advances_header buf p (DW_ERROR e)" "advances_header buf p (DW_OK (ctx, q)) = (header_inv buf ctx q \<and> p \<le> q)"
  by (simp_all add: advances_header_def)

lemma advances_bind:
  "advances_header buf p m \<Longrightarrow>
   (\<And>ctx q. header_inv buf ctx q \<Longrightarrow> p \<le> q \<Longrightarrow> advances_header buf p (f ctx q)) \<Longrightarrow>
   advances_header buf p (dw_bind m (\<lambda>(ctx, q). f ctx q))"
  unfolding advances_header_def
  by (rule spec_bind_prod [where P = "\<lambda>ctx q. header_inv buf ctx q \<and> p \<le> q"]) auto

lemma advances_later: "advances_header buf q m \<Longrightarrow> p \<le> q \<Longrightarrow> advances_header buf p m"
  unfolding advances_header_def by (erule spec_mono) auto

lemma advances_checked:
  "advances_header buf p m \<Longrightarrow>
   advances_header buf p (dw_bind m (\<lambda>(ctx, q). if q > lc_line_ptr_end ctx then DW_ERROR e else DW_OK (ctx, q)))"
  by (rule advances_bind) auto

lemma advances_old_directories [header_advance]:
  assumes "header_inv buf ctx p" "in_bounds dbg"
  shows "advances_header buf p (header_old_directories dbg buf s ctx p)"
proof -
  let ?f = "\<lambda>ds. ctx\<lparr>lc_include_directories := ds, lc_include_directories_count := word_of_nat (length ds)\<rparr>"
  have "advances_header buf p (dw_bind (old_include_directories dbg buf s ctx [] p) (\<lambda>(ds, q). DW_OK (?f ds, q)))"
    if "p < lc_line_ptr_end ctx"
    by (rule advances_headerI [OF assms(1) spec_old_include_directories])
       (use assms that in \<open>simp_all add: header_inv_def\<close>)
  then show ?thesis
    using assms unfolding header_old_directories_def
    by (auto intro!: advances_checked simp: header_inv_def not_le)
qed

lemma advances_old_files [header_advance]:
  assumes "header_inv buf ctx p" "in_bounds dbg"
  shows "advances_header buf p (header_old_files dbg buf s ctx p)"
proof -
  have "advances_header buf p (dw_bind (old_file_entries dbg buf s ctx (lc_files ctx) p)
      (\<lambda>(fs, q). DW_OK (ctx\<lparr>lc_files := fs\<rparr>, q)))" if "p < lc_line_ptr_end ctx"
    by (rule advances_headerI [OF assms(1) spec_old_file_entries])
       (use assms that in \<open>simp_all add: header_inv_def\<close>)
  moreover have "advances_header buf p (dw_bind (header_byte buf ctx p e) (\<lambda>b.
      if b \<noteq> 0 then DW_ERROR e else DW_OK (ctx, p + 1)))" for e
    unfolding advances_header_def
    by (rule spec_bind [OF spec_header_byte]) (use assms in \<open>auto simp: header_inv_def\<close>)
  ultimately show ?thesis
    using assms unfolding header_old_files_def by (auto intro!: advances_checked simp: not_le)
qed

lemma advances_experimental_offsets [header_advance]:
  assumes "header_inv buf ctx p" "n \<le> 8"
  shows "advances_header buf p (header_experimental_offsets dbg buf n ctx p)"
proof (cases "lc_version_number ctx = EXPERIMENTAL_LINE_TABLES_VERSION")
  case True
  note e = header_inv_end [OF assms(1)]
  show ?thesis
    unfolding advances_header_def header_experimental_offsets_def Let_def if_P [OF True]
    apply (rule spec_bind [OF spec_expect_bytes])
    using e apply (simp_all only: simp_thms)
    apply (rule spec_bind [OF spec_unaligned], rule e [THEN conjunct1], rule assms)
    apply (rule spec_bind [OF spec_unaligned], rule e [THEN conjunct1], rule assms)
    using assms by (auto simp: header_inv_def)
qed (use assms in \<open>simp add: header_experimental_offsets_def\<close>)

lemma advances_directories [header_advance]:
  assumes "header_inv buf ctx p" "in_bounds dbg" "0 < n" "n \<le> 8"
  shows "advances_header buf p (header_directories dbg buf n ctx p)"
  unfolding advances_header_def header_directories_def Let_def
  apply (rule spec_bind [OF spec_header_byte])
  using assms apply (simp add: header_inv_def)
  apply (rule spec_if, simp)
  apply (rule spec_bind_prod [OF spec_format_pairs])
  using assms apply (simp add: header_inv_def)
  apply simp
  apply (rule spec_if, simp)
  apply (rule spec_bind_prod [OF spec_uword])
  using assms apply (simp add: header_inv_def)
  apply (rule spec_if, simp)
  apply (rule spec_bind [OF spec_check_alloc_size])
  apply (rule spec_if, simp)
  apply (rule spec_bind_prod [OF spec_directories])
  using assms by (auto simp: header_inv_def)

lemma advances_files [header_advance]:
  assumes "header_inv buf ctx p" "in_bounds dbg" "0 < n" "n \<le> 8"
  shows "advances_header buf p (header_files dbg buf n ctx p)"
  unfolding advances_header_def header_files_def Let_def
  apply (rule spec_bind [OF spec_header_byte])
  using assms apply (simp add: header_inv_def)
  apply (rule spec_if, simp)
  apply (rule spec_bind_prod [OF spec_format_pairs])
  using assms apply (simp add: header_inv_def)
  apply simp
  apply (rule spec_bind_prod [OF spec_uword])
  using assms apply (simp add: header_inv_def)
  apply (rule spec_if, simp)
  apply (rule spec_bind_prod [OF spec_file_names])
  using assms by (auto simp: header_inv_def)

lemma advances_subprograms [header_advance]:
  assumes "header_inv buf ctx p" "in_bounds dbg" "0 < n" "n \<le> 8"
  shows "advances_header buf p (header_subprograms dbg buf n ctx p)"
  unfolding advances_header_def header_subprograms_def Let_def
  apply (rule spec_bind [OF spec_header_byte])
  using assms apply (simp add: header_inv_def)
  apply (rule spec_if, simp)
  apply (rule spec_if, simp)
  apply (rule spec_bind_prod [OF spec_subprog_formats])
  using assms apply (simp add: header_inv_def)
  apply simp
  apply (rule spec_bind_prod [OF spec_uword])
  using assms apply (simp add: header_inv_def)
  apply (rule spec_if, simp)
  apply (rule spec_bind [OF spec_check_alloc_size])
  apply (rule spec_bind_prod [OF spec_subprogs])
  using assms by (auto simp: header_inv_def)

lemma advances_version5_part [header_advance]:
  assumes "header_inv buf ctx p" "in_bounds dbg" "0 < n" "n \<le> 8"
  shows "advances_header buf p (header_version5_part dbg buf n ctx p)"
proof -
  have "advances_header buf p (header_directories dbg buf n ctx p)"
    using assms by (rule advances_directories)
  then show ?thesis
    using assms unfolding header_version5_part_def
    by (auto intro!: advances_bind intro: advances_later [OF header_advance(5)]
      advances_later [OF header_advance(6)])
qed

lemma spec_header_finish:
  assumes "header_inv buf ctx p"
  shows "spec True (\<lambda>(ctx', q). q = p \<and> header_inv buf ctx' p \<and> lc_line_ptr_start ctx' = p) (header_finish ctx p)"
  using assms by (simp add: header_finish_def Let_def header_inv_def)

section \<open>The fixed part is safe\<close>

lemma spec_header_lengths:
  "spec G (\<lambda>((ctx', n), q). lc_line_ptr_end ctx' \<le> length buf \<and> (n = 4 \<or> n = 8) \<and> s \<le> q \<and>
      lc_linecount_logicals ctx' = lc_linecount_logicals ctx \<and>
      lc_actuals_table_offset ctx' = lc_actuals_table_offset ctx)
    (header_lengths dbg buf s ctx)"
proof -
  have "spec G (\<lambda>((len, n, x), q). (n = 4 \<or> n = 8) \<and> s \<le> q)
      (read_area_length_ck dbg buf s (word_of_nat (length buf)) (length buf))"
    by (auto simp: spec_def no_fault dest!: read_area_length_ck_OK)
  then show ?thesis unfolding header_lengths_def
    by (rule spec_bind) (auto simp: Let_def)
qed

definition early_inv :: "bytes \<Rightarrow> line_context \<Rightarrow> ptr \<Rightarrow> bool" where
  "early_inv buf ctx p \<longleftrightarrow> lc_line_ptr_end ctx \<le> length buf \<and> lc_linecount_logicals ctx = 0 \<and>
     lc_actuals_table_offset ctx = 0"

lemma spec_header_version:
  assumes "early_inv buf ctx p"
  shows "spec True (\<lambda>(ctx', q). early_inv buf ctx' q \<and> p \<le> q) (header_version dbg buf a s ctx p)"
  using assms unfolding header_version_def early_inv_def
  by (auto intro!: spec_bind [OF spec_unaligned] spec_bind [OF spec_header_byte] simp: Let_def)

lemma spec_header_prologue:
  assumes "early_inv buf ctx p" "n \<le> 8"
  shows "spec True (\<lambda>(ctx', q). early_inv buf ctx' q \<and> lc_line_prologue_start ctx' \<le> q \<and> p \<le> q)
    (header_prologue dbg buf n ctx p)"
  using assms unfolding header_prologue_def early_inv_def
  by (auto intro!: spec_bind [OF spec_unaligned] spec_bind [OF spec_header_byte] simp: Let_def)

lemma spec_header_max_ops:
  assumes "early_inv buf ctx p" "lc_line_prologue_start ctx \<le> p"
  shows "spec True (\<lambda>(ctx', q). early_inv buf ctx' q \<and> lc_line_prologue_start ctx' \<le> q \<and> p \<le> q)
    (header_max_ops buf ctx p)"
  using assms unfolding header_max_ops_def early_inv_def
  by (auto intro!: spec_bind [OF spec_header_byte])

lemma spec_header_opcodes:
  assumes "early_inv buf ctx p" "lc_line_prologue_start ctx \<le> p"
  shows "spec True (\<lambda>(ctx', q). header_inv buf ctx' q \<and> p \<le> q) (header_opcodes buf ctx p)"
  using assms unfolding header_opcodes_def early_inv_def header_inv_def
  by (auto intro!: spec_bind [OF spec_header_byte] simp: Let_def)

lemma spec_operandmismatch_from:
  "i + n + linetable \<le> length buf \<Longrightarrow> spec True (\<lambda>_. True) (operandmismatch_from i table buf linetable n)"
  by (induction n arbitrary: i) auto

lemma spec_header_operand_counts: "spec True (\<lambda>_. True) (header_operand_counts buf ctx)"
proof -
  have "spec True (\<lambda>_. True) (operandmismatch table buf linetable n)"
    if "linetable + n < length buf" for table linetable n
    unfolding operandmismatch_def by (rule spec_operandmismatch_from) (use that in simp)
  then show ?thesis unfolding header_operand_counts_def Let_def
    by (intro spec_if spec_bind [where P = "\<lambda>_. True"]) auto
qed

text \<open>The reader of the whole header, for a new line context.\<close>

lemma spec_read_line_table_header:
  assumes "in_bounds dbg"
  shows "spec True (\<lambda>(ctx, q). header_inv buf ctx q \<and> lc_line_ptr_start ctx = q \<and> s \<le> q)
    (read_line_table_header dbg a g buf s new_line_context)"
proof -
  have later: "spec True (\<lambda>(ctx, q). header_inv buf ctx q \<and> lc_line_ptr_start ctx = q \<and> s \<le> q)
      (dw_bind (header_old_directories dbg buf s ctx p) (\<lambda>(ctx, p).
       dw_bind (header_old_files dbg buf s ctx p) (\<lambda>(ctx, p).
       dw_bind (header_experimental_offsets dbg buf n ctx p) (\<lambda>(ctx, p).
       dw_bind (header_version5_part dbg buf n ctx p) (\<lambda>(ctx, p). header_finish ctx p)))))"
    if "header_inv buf ctx p \<and> s \<le> p" "n = 4 \<or> n = 8" for ctx p n
  proof -
    have step: "spec True (\<lambda>(ctx, q). header_inv buf ctx q \<and> s \<le> q) m"
      if "advances_header buf p m" "s \<le> p" for m p
      using that unfolding advances_header_def by (auto elim: spec_mono)
    have "0 < n" "n \<le> 8" using that(2) by auto
    then show ?thesis
      using that(1) assms
      by (auto intro!: spec_bind_prod [OF step] header_advance spec_mono [OF spec_header_finish])
  qed
  show ?thesis unfolding read_line_table_header_def
    apply (rule spec_bind [OF spec_header_lengths])
    apply (clarsimp simp del: not_less)
    apply (rule spec_bind_prod [OF spec_header_version], simp add: early_inv_def new_line_context_def)
    apply (rule spec_bind_prod [OF spec_header_prologue], simp, fastforce)
    apply (rule spec_bind_prod [OF spec_header_max_ops], simp, simp)
    apply (rule spec_bind_prod [OF spec_header_opcodes], simp, simp)
    apply (rule spec_bind [OF spec_header_operand_counts])
    apply (rule later) by auto
qed

end
