(* ===== verification/Lines.thy ===== *)
theory Lines
  imports LineHeader
begin

text \<open>
  The line number program: \<open>read_line_table_program\<close> (\<open>dwarf_line_table_reader_common.h\<close>) with the helpers of
  \<open>dwarf_line.c\<close> and \<open>dwarf_line.h\<close> it uses, compiled without \<open>PRINTING_DETAILS\<close>. Each opcode is an operation on the
  function's local variables. Pointers are offsets into \<open>.debug_line\<close>. The header of the table has been read (\<^verbatim>\<open>LineHeader\<close>).
\<close>

section \<open>Registers\<close>

text \<open>\<open>lr_is_stmt\<close> is a C integer, which takes its default from a byte of the header.\<close>

record line_registers =
  lr_address :: u64
  lr_file :: u64
  lr_line :: u64
  lr_column :: u64
  lr_is_stmt :: u32
  lr_basic_block :: bool
  lr_end_sequence :: bool
  lr_prologue_end :: bool
  lr_epilogue_begin :: bool
  lr_isa :: u16
  lr_op_index :: u64
  lr_discriminator :: u64
  lr_call_context :: u64
  lr_subprogram :: u64

definition set_line_table_regs_default_values :: "u16 \<Rightarrow> u8 \<Rightarrow> line_registers" where
  "set_line_table_regs_default_values lineversion is_stmt =
     (let regs = \<lparr>lr_address = 0, lr_file = 1, lr_line = 1, lr_column = 0, lr_is_stmt = 0,
            lr_basic_block = False, lr_end_sequence = False, lr_prologue_end = False,
            lr_epilogue_begin = False, lr_isa = 0, lr_op_index = 0, lr_discriminator = 0,
            lr_call_context = 0, lr_subprogram = 0\<rparr>;
          regs = (if lineversion = 5 then regs\<lparr>lr_file := 1\<rparr> else regs)
      in regs\<lparr>lr_is_stmt := ucast is_stmt\<rparr>)"

section \<open>Arguments and local variables\<close>

record line_params =
  lp_dbg :: dwarf_debug
  lp_buf :: bytes
  lp_end :: ptr
  lp_context :: line_context
  lp_address_size :: u16
  lp_doaddrs :: bool
  lp_dolines :: bool
  lp_is_single_table :: bool
  lp_is_actuals_table :: bool

text \<open>
  The chain of rows is a list, whose length is \<open>line_count\<close>; the list of files is the part of the
  line context the program changes.
\<close>

record line_state =
  ls_ptr :: ptr
  ls_regs :: line_registers
  ls_is_addr_set :: bool
  ls_chain :: "dwarf_line list"
  ls_files :: file_list

abbreviation (input) upd_regs :: "(line_registers \<Rightarrow> line_registers) \<Rightarrow> line_state \<Rightarrow> line_state" where
  "upd_regs f st \<equiv> st\<lparr>ls_regs := f (ls_regs st)\<rparr>"

section \<open>What the operations share\<close>

definition read_uword_de :: "line_params \<Rightarrow> line_state \<Rightarrow> (u64 \<times> line_state) dw" where
  "read_uword_de p st = dw_bind (leb128_uword_wrapper (lp_buf p) (ls_ptr st) (lp_end p))
     (\<lambda>(v, q). DW_OK (v, st\<lparr>ls_ptr := q\<rparr>))"

definition read_sword_de :: "line_params \<Rightarrow> line_state \<Rightarrow> (s64 \<times> line_state) dw" where
  "read_sword_de p st = dw_bind (leb128_sword_wrapper (lp_buf p) (ls_ptr st) (lp_end p))
     (\<lambda>(v, q). DW_OK (v, st\<lparr>ls_ptr := q\<rparr>))"

text \<open>The address and the operation index after an advance by some operations.\<close>

definition advance_operations :: "line_context \<Rightarrow> u64 \<Rightarrow> line_registers \<Rightarrow> line_registers" where
  "advance_operations ctx operation_advance regs =
     (if lc_maximum_ops_per_instruction ctx < 2
      then regs\<lparr>lr_address := lr_address regs +
                  operation_advance * ucast (lc_minimum_instruction_length ctx)\<rparr>
      else regs\<lparr>lr_address := lr_address regs + ucast (lc_minimum_instruction_length ctx) *
                  ((lr_op_index regs + operation_advance) div ucast (lc_maximum_ops_per_instruction ctx)),
                lr_op_index := (lr_op_index regs + operation_advance) mod
                  ucast (lc_maximum_ops_per_instruction ctx)\<rparr>)"

text \<open>A new row holds the registers; the bit field for \<open>lr_is_stmt\<close> keeps its lowest bit.\<close>

definition line_of_regs :: "line_params \<Rightarrow> line_registers \<Rightarrow> bool \<Rightarrow> dwarf_line" where
  "line_of_regs p regs is_addr_set =
     \<lparr>li_address = lr_address regs, li_discriminator = lr_discriminator regs, li_file = lr_file regs,
      li_line = lr_line regs, li_column = ucast (lr_column regs), li_isa = lr_isa regs,
      li_call_context = lr_call_context regs, li_subprogram = lr_subprogram regs,
      li_is_stmt = bit (lr_is_stmt regs) 0, li_basic_block = lr_basic_block regs,
      li_end_sequence = lr_end_sequence regs, li_prologue_end = lr_prologue_end regs,
      li_epilogue_begin = lr_epilogue_begin regs, li_is_addr_set = is_addr_set,
      li_is_actuals_table = lp_is_actuals_table p\<rparr>"

definition append_line :: "line_params \<Rightarrow> line_state \<Rightarrow> line_state" where
  "append_line p st =
     (if lp_dolines p
      then st\<lparr>ls_is_addr_set := False,
              ls_chain := ls_chain st @ [line_of_regs p (ls_regs st) (ls_is_addr_set st)]\<rparr>
      else st)"

definition clear_row_flags :: "line_registers \<Rightarrow> line_registers" where
  "clear_row_flags regs =
     regs\<lparr>lr_basic_block := False, lr_prologue_end := False, lr_epilogue_begin := False,
          lr_discriminator := 0\<rparr>"

text \<open>\<open>(Dwarf_Signed)regs.lr_line < 0\<close>\<close>

definition check_line_number :: "line_state \<Rightarrow> line_state dw" where
  "check_line_number st =
     (if sint (lr_line (ls_regs st)) < 0 then DW_ERROR DW_DLE_LINE_TABLE_LINENO_ERROR else DW_OK st)"

section \<open>Opcodes of unknown meaning and special opcodes\<close>

fun discard_operands :: "nat \<Rightarrow> line_params \<Rightarrow> line_state \<Rightarrow> line_state dw" where
  "discard_operands 0 p st = DW_OK st"
| "discard_operands (Suc n) p st =
     dw_bind (read_uword_de p st) (\<lambda>(_, st). discard_operands n p st)"

definition op_discard :: "line_params \<Rightarrow> u8 \<Rightarrow> line_state \<Rightarrow> line_state dw" where
  "op_discard p opcode st =
     dw_bind (rd8 (lp_buf p) (lc_opcode_length_table (lp_context p) + unat opcode)) (\<lambda>opcnt.
       discard_operands (unat opcnt) p st)"

text \<open>A division by a line range of zero is a fault.\<close>

definition op_special :: "line_params \<Rightarrow> u8 \<Rightarrow> line_state \<Rightarrow> line_state dw" where
  "op_special p opcode st =
     (let ctx = lp_context p; opcode = opcode - lc_opcode_base ctx in
      if lc_line_range ctx = 0 then FAULT
      else
        let regs = advance_operations ctx (ucast (opcode div lc_line_range ctx)) (ls_regs st);
            regs = regs\<lparr>lr_line := lr_line regs + scast (lc_line_base ctx) +
                                   ucast (opcode mod lc_line_range ctx)\<rparr>
        in dw_bind (check_line_number (st\<lparr>ls_regs := regs\<rparr>)) (\<lambda>st.
             DW_OK (upd_regs clear_row_flags (append_line p st))))"

section \<open>Standard opcodes\<close>

definition op_copy :: "line_params \<Rightarrow> line_state \<Rightarrow> line_state dw" where
  "op_copy p st = DW_OK (upd_regs clear_row_flags (append_line p st))"

definition op_advance_pc :: "line_params \<Rightarrow> line_state \<Rightarrow> line_state dw" where
  "op_advance_pc p st =
     dw_bind (read_uword_de p st) (\<lambda>(leb128_num, st).
       DW_OK (upd_regs (\<lambda>r. r\<lparr>lr_address := lr_address r +
         ucast (lc_minimum_instruction_length (lp_context p)) * leb128_num\<rparr>) st))"

definition op_advance_line :: "line_params \<Rightarrow> line_state \<Rightarrow> line_state dw" where
  "op_advance_line p st =
     dw_bind (read_sword_de p st) (\<lambda>(advance_line, st).
       check_line_number (upd_regs (\<lambda>r. r\<lparr>lr_line := lr_line r + advance_line\<rparr>) st))"

definition op_set_file :: "line_params \<Rightarrow> line_state \<Rightarrow> line_state dw" where
  "op_set_file p st =
     dw_bind (read_uword_de p st) (\<lambda>(utmp2, st).
       if sint utmp2 < 0 then DW_ERROR DW_DLE_LINE_INDEX_WRONG
       else DW_OK (upd_regs (\<lambda>r. r\<lparr>lr_file := utmp2\<rparr>) st))"

definition op_set_column :: "line_params \<Rightarrow> line_state \<Rightarrow> line_state dw" where
  "op_set_column p st =
     dw_bind (read_uword_de p st) (\<lambda>(utmp2, st).
       if sint utmp2 < 0 then DW_ERROR DW_DLE_LINE_INDEX_WRONG
       else DW_OK (upd_regs (\<lambda>r. r\<lparr>lr_column := utmp2\<rparr>) st))"

definition op_negate_stmt :: "line_state \<Rightarrow> line_state dw" where
  "op_negate_stmt st =
     DW_OK (upd_regs (\<lambda>r. r\<lparr>lr_is_stmt := (if lr_is_stmt r = 0 then 1 else 0)\<rparr>) st)"

definition op_set_basic_block :: "line_state \<Rightarrow> line_state dw" where
  "op_set_basic_block st = DW_OK (upd_regs (\<lambda>r. r\<lparr>lr_basic_block := True\<rparr>) st)"

definition op_const_add_pc :: "line_params \<Rightarrow> line_state \<Rightarrow> line_state dw" where
  "op_const_add_pc p st =
     (let ctx = lp_context p; opcode = 255 - lc_opcode_base ctx in
      if lc_line_range ctx = 0 then FAULT
      else DW_OK (upd_regs (advance_operations ctx (ucast (opcode div lc_line_range ctx))) st))"

definition op_fixed_advance_pc :: "line_params \<Rightarrow> line_state \<Rightarrow> line_state dw" where
  "op_fixed_advance_pc p st =
     dw_bind (read_unaligned_ck (lp_dbg p) (lp_buf p) (ls_ptr st) 2 (lp_end p)) (\<lambda>fixed_advance_pc.
       let st = st\<lparr>ls_ptr := ls_ptr st + 2\<rparr> in
       if ls_ptr st > lp_end p then DW_ERROR DW_DLE_LINE_TABLE_BAD
       else
         let oldad = lr_address (ls_regs st) in
         if oldad + fixed_advance_pc < oldad then DW_ERROR DW_DLE_LINE_TABLE_BAD
         else DW_OK (upd_regs (\<lambda>r. r\<lparr>lr_address := oldad + fixed_advance_pc, lr_op_index := 0\<rparr>) st))"

definition op_set_prologue_end :: "line_state \<Rightarrow> line_state dw" where
  "op_set_prologue_end st = DW_OK (upd_regs (\<lambda>r. r\<lparr>lr_prologue_end := True\<rparr>) st)"

definition op_set_epilogue_begin :: "line_state \<Rightarrow> line_state dw" where
  "op_set_epilogue_begin st = DW_OK (upd_regs (\<lambda>r. r\<lparr>lr_epilogue_begin := True\<rparr>) st)"

definition op_set_isa :: "line_params \<Rightarrow> line_state \<Rightarrow> line_state dw" where
  "op_set_isa p st =
     dw_bind (read_uword_de p st) (\<lambda>(utmp2, st).
       let st = upd_regs (\<lambda>r. r\<lparr>lr_isa := ucast utmp2\<rparr>) st in
       if ucast (lr_isa (ls_regs st)) \<noteq> utmp2 then DW_ERROR DW_DLE_LINE_NUM_OPERANDS_BAD
       else DW_OK st)"

text \<open>The opcodes of two level line tables.\<close>

definition op_set_address_from_logical :: "line_params \<Rightarrow> line_state \<Rightarrow> line_state dw" where
  "op_set_address_from_logical p st =
     dw_bind (read_sword_de p st) (\<lambda>(advance_line, st).
     dw_bind (check_line_number (upd_regs (\<lambda>r. r\<lparr>lr_line := lr_line r + advance_line\<rparr>) st)) (\<lambda>st.
       let line = lr_line (ls_regs st); logicals = lc_linebuf_logicals (lp_context p) in
       if line \<ge> 1 \<and> unat (line - 1) < lc_linecount_logicals (lp_context p)
       then if unat (line - 1) < length logicals
            then DW_OK (upd_regs (\<lambda>r. r\<lparr>lr_address := li_address (logicals ! unat (line - 1)),
                                        lr_op_index := 0\<rparr>) st)
            else FAULT
       else DW_OK st))"

definition op_set_subprogram :: "line_params \<Rightarrow> line_state \<Rightarrow> line_state dw" where
  "op_set_subprogram p st =
     dw_bind (read_uword_de p (upd_regs (\<lambda>r. r\<lparr>lr_call_context := 0\<rparr>) st)) (\<lambda>(utmp2, st).
       DW_OK (upd_regs (\<lambda>r. r\<lparr>lr_subprogram := utmp2\<rparr>) st))"

definition op_inlined_call :: "line_params \<Rightarrow> line_state \<Rightarrow> line_state dw" where
  "op_inlined_call p st =
     dw_bind (read_sword_de p st) (\<lambda>(stmp, st).
     dw_bind (read_uword_de p
         (upd_regs (\<lambda>r. r\<lparr>lr_call_context := word_of_nat (length (ls_chain st)) + stmp\<rparr>) st))
       (\<lambda>(ilcuw, st). DW_OK (upd_regs (\<lambda>r. r\<lparr>lr_subprogram := ilcuw\<rparr>) st)))"

definition op_pop_context :: "line_state \<Rightarrow> line_state dw" where
  "op_pop_context st =
     (let logical_num = unat (lr_call_context (ls_regs st)) in
      if logical_num > 0 \<and> logical_num \<le> length (ls_chain st) then
        let logical_line = ls_chain st ! (logical_num - 1) in
        DW_OK (upd_regs (\<lambda>r. r\<lparr>lr_file := li_file logical_line, lr_line := li_line logical_line,
          lr_column := ucast (li_column logical_line),
          lr_discriminator := li_discriminator logical_line,
          lr_is_stmt := (if li_is_stmt logical_line then 1 else 0),
          lr_call_context := li_call_context logical_line,
          lr_subprogram := li_subprogram logical_line\<rparr>) st)
      else DW_OK st)"

definition standard_op :: "line_params \<Rightarrow> u8 \<Rightarrow> line_state \<Rightarrow> line_state dw" where
  "standard_op p opcode st =
     (if opcode = 0x01 then op_copy p st
      else if opcode = 0x02 then op_advance_pc p st
      else if opcode = 0x03 then op_advance_line p st
      else if opcode = 0x04 then op_set_file p st
      else if opcode = 0x05 then op_set_column p st
      else if opcode = 0x06 then op_negate_stmt st
      else if opcode = 0x07 then op_set_basic_block st
      else if opcode = 0x08 then op_const_add_pc p st
      else if opcode = 0x09 then op_fixed_advance_pc p st
      else if opcode = 0x0a then op_set_prologue_end st
      else if opcode = 0x0b then op_set_epilogue_begin st
      else if opcode = 0x0c then op_set_isa p st
      else if opcode = 0x0d then
        (if lp_is_actuals_table p then op_set_address_from_logical p st else op_set_subprogram p st)
      else if opcode = 0x0e then op_inlined_call p st
      else if opcode = 0x0f then op_pop_context st
      else DW_ERROR DW_DLE_LINE_TABLE_BAD)"

section \<open>Extended opcodes\<close>

text \<open>The row of an end of sequence is not marked with \<open>is_addr_set\<close>, which stays as it is.\<close>

definition op_end_sequence :: "line_params \<Rightarrow> line_state \<Rightarrow> line_state dw" where
  "op_end_sequence p st =
     (let st = upd_regs (\<lambda>r. r\<lparr>lr_end_sequence := True\<rparr>) st;
          st = (if lp_dolines p
                then st\<lparr>ls_chain := ls_chain st @ [line_of_regs p (ls_regs st) False]\<rparr> else st)
      in DW_OK (st\<lparr>ls_regs := set_line_table_regs_default_values
           (lc_version_number (lp_context p)) (lc_default_is_stmt (lp_context p))\<rparr>))"

definition address_line :: "u64 \<Rightarrow> bool \<Rightarrow> dwarf_line" where
  "address_line address is_addr_set =
     \<lparr>li_address = address, li_discriminator = 0, li_file = 0, li_line = 0, li_column = 0, li_isa = 0,
      li_call_context = 0, li_subprogram = 0, li_is_stmt = False, li_basic_block = False,
      li_end_sequence = False, li_prologue_end = False, li_epilogue_begin = False,
      li_is_addr_set = is_addr_set, li_is_actuals_table = False\<rparr>"

definition op_set_address :: "line_params \<Rightarrow> line_state \<Rightarrow> line_state dw" where
  "op_set_address p st =
     dw_bind (read_unaligned_ck (lp_dbg p) (lp_buf p) (ls_ptr st) (unat (lp_address_size p)) (lp_end p))
       (\<lambda>address.
         let st = (upd_regs (\<lambda>r. r\<lparr>lr_address := address\<rparr>) st)\<lparr>ls_is_addr_set := True\<rparr>;
             st = (if lp_doaddrs p
                   then st\<lparr>ls_is_addr_set := False, ls_chain := ls_chain st @ [address_line address True]\<rparr>
                   else st);
             st = (upd_regs (\<lambda>r. r\<lparr>lr_op_index := 0\<rparr>) st)\<lparr>ls_ptr := ls_ptr st + unat (lp_address_size p)\<rparr>
         in if ls_ptr st > lp_end p then DW_ERROR DW_DLE_LINE_TABLE_BAD else DW_OK st)"

text \<open>The entry is in the list while its fields are read; a failure abandons the whole context.\<close>

definition op_define_file :: "line_params \<Rightarrow> line_state \<Rightarrow> line_state dw" where
  "op_define_file p st =
     (if lp_dolines p then
        let name = ls_ptr st in
        dw_bind (check_string_valid (lp_dbg p) (lp_buf p) name name (lp_end p)
                   DW_DLE_DEFINE_FILE_STRING_BAD) (\<lambda>_.
        dw_bind (strlen (lp_buf p) name) (\<lambda>len.
        dw_bind (read_uword_de p (st\<lparr>ls_ptr := name + len + 1\<rparr>)) (\<lambda>(dir_index, st).
        dw_bind (read_uword_de p st) (\<lambda>(time_last_mod, st).
        dw_bind (read_uword_de p st) (\<lambda>(file_length, st).
          DW_OK (st\<lparr>ls_files := add_to_files_list (lc_version_number (lp_context p))
            (new_file_entry\<lparr>fi_file_name := Debug_Line name, fi_dir_index := dir_index,
             fi_time_last_mod := time_last_mod, fi_file_length := file_length,
             fi_dir_index_present := True, fi_time_last_mod_present := True,
             fi_file_length_present := True\<rparr>) (ls_files st)\<rparr>))))))
      else DW_OK st)"

definition op_set_discriminator :: "line_params \<Rightarrow> line_state \<Rightarrow> line_state dw" where
  "op_set_discriminator p st =
     dw_bind (read_uword_de p st) (\<lambda>(utmp2, st).
       DW_OK (upd_regs (\<lambda>r. r\<lparr>lr_discriminator := utmp2\<rparr>) st))"

abbreviation (input) DW_LNE_LEN_MAX :: u64 where "DW_LNE_LEN_MAX \<equiv> 100"

definition op_unknown_extended :: "line_params \<Rightarrow> u64 \<Rightarrow> line_state \<Rightarrow> line_state dw" where
  "op_unknown_extended p instr_length st =
     (let remaining_bytes = (if instr_length > 0 then instr_length - 1 else 0);
          space_left = (if ls_ptr st \<le> lp_end p then lp_end p - ls_ptr st else 0xfffffff)
      in if instr_length < 1 \<or> space_left < unat remaining_bytes \<or> remaining_bytes > DW_LNE_LEN_MAX
         then DW_ERROR DW_DLE_LINE_TABLE_BAD
         else
           let st = st\<lparr>ls_ptr := ls_ptr st + unat remaining_bytes\<rparr> in
           if ls_ptr st > lp_end p then DW_ERROR DW_DLE_LINE_TABLE_BAD else DW_OK st)"

definition extended_op :: "line_params \<Rightarrow> line_state \<Rightarrow> line_state dw" where
  "extended_op p st =
     dw_bind (read_uword_de p st) (\<lambda>(instr_length, st).
       if ls_ptr st \<ge> lp_end p then DW_ERROR DW_DLE_LINE_TABLE_BAD
       else dw_bind (rd8 (lp_buf p) (ls_ptr st)) (\<lambda>ext_opcode.
         let st = st\<lparr>ls_ptr := ls_ptr st + 1\<rparr> in
         if ls_ptr st > lp_end p then DW_ERROR DW_DLE_LINE_TABLE_BAD
         else if ext_opcode = 0x01 then op_end_sequence p st
         else if ext_opcode = 0x02 then op_set_address p st
         else if ext_opcode = 0x03 then op_define_file p st
         else if ext_opcode = 0x04 then op_set_discriminator p st
         else op_unknown_extended p instr_length st))"

section \<open>Steps and the whole program\<close>

datatype lop = LOP_EXTENDED | LOP_DISCARD | LOP_STANDARD | LOP_SPECIAL

definition what_is_opcode :: "u8 \<Rightarrow> u8 \<Rightarrow> u8 \<Rightarrow> lop" where
  "what_is_opcode opcode base highest_std =
     (if opcode < base then
        if opcode = 0 then LOP_EXTENDED
        else if unat highest_std + 1 \<ge> unat base then LOP_STANDARD
        else LOP_DISCARD
      else LOP_SPECIAL)"

definition line_step :: "line_params \<Rightarrow> line_state \<Rightarrow> line_state dw" where
  "line_step p st =
     dw_bind (rd8 (lp_buf p) (ls_ptr st)) (\<lambda>opcode.
       let st = st\<lparr>ls_ptr := ls_ptr st + 1\<rparr>; ctx = lp_context p in
       case what_is_opcode opcode (lc_opcode_base ctx) (lc_std_op_count ctx) of
         LOP_DISCARD \<Rightarrow> op_discard p opcode st
       | LOP_SPECIAL \<Rightarrow> op_special p opcode st
       | LOP_STANDARD \<Rightarrow> standard_op p opcode st
       | LOP_EXTENDED \<Rightarrow> extended_op p st)"

section \<open>Every step moves forward and stays inside\<close>

text \<open>
  What the header reader guarantees, and what memory safety rests on: the end of the table is in the
  section, the line range is not zero, the number of standard opcodes fits the opcode base, an address
  fits into a variable, and the linked tables have the length they claim.
\<close>

definition params_ok :: "line_params \<Rightarrow> bool" where
  "params_ok p \<longleftrightarrow> lp_end p \<le> length (lp_buf p) \<and> lc_line_range (lp_context p) \<noteq> 0 \<and>
     unat (lc_opcode_base (lp_context p)) \<le> unat (lc_std_op_count (lp_context p)) + 1 \<and>
     unat (lp_address_size p) \<le> 8 \<and> \<not> de_assume_string_in_bounds (lp_dbg p) \<and>
     lc_linecount_logicals (lp_context p) \<le> length (lc_linebuf_logicals (lp_context p))"

definition ahead :: "line_params \<Rightarrow> line_state \<Rightarrow> line_state \<Rightarrow> bool" where
  "ahead p st st' \<longleftrightarrow> ls_ptr st \<le> ls_ptr st' \<and> (ls_ptr st \<le> lp_end p \<longrightarrow> ls_ptr st' \<le> lp_end p)"

lemma ahead_refl [simp]: "ahead p st st"
  by (simp add: ahead_def)

lemma ahead_trans: "ahead p a b \<Longrightarrow> ahead p b c \<Longrightarrow> ahead p a c"
  by (auto simp: ahead_def)

lemma ahead_same_ptr: "ls_ptr b = ls_ptr c \<Longrightarrow> ahead p a b = ahead p a c"
  by (simp add: ahead_def)

definition forward :: "line_params \<Rightarrow> line_state \<Rightarrow> line_state dw \<Rightarrow> bool" where
  "forward p st m = spec (params_ok p) (ahead p st) m"

named_theorems op_forward \<open>operations only move forward\<close>

lemma spec_read_uword_de:
  "spec (params_ok p) (\<lambda>(v, st'). ls_ptr st < ls_ptr st' \<and> ls_ptr st' \<le> lp_end p) (read_uword_de p st)"
  using uword.read_no_fault [of "lp_end p" "lp_buf p" "ls_ptr st"]
    uword.read_advances [of "lp_buf p" "ls_ptr st" "lp_end p"]
  by (auto simp: read_uword_de_def spec_def dw_simps params_ok_def ahead_def)

lemma spec_read_sword_de:
  "spec (params_ok p) (\<lambda>(v, st'). ls_ptr st < ls_ptr st' \<and> ls_ptr st' \<le> lp_end p) (read_sword_de p st)"
  using sword.read_no_fault [of "lp_end p" "lp_buf p" "ls_ptr st"]
    sword.read_advances [of "lp_buf p" "ls_ptr st" "lp_end p"]
  by (auto simp: read_sword_de_def spec_def dw_simps params_ok_def ahead_def)

lemma spec_check_line_number: "spec G (\<lambda>st'. st' = st) (check_line_number st)"
  by (simp add: check_line_number_def)

lemmas line_intros = spec_bind_prod [OF spec_read_uword_de] spec_bind_prod [OF spec_read_sword_de]
  spec_bind [OF spec_check_line_number]

lemma forward_discard_operands: "forward p st (discard_operands n p st)"
  unfolding forward_def
proof (induction n arbitrary: st)
  case (Suc n)
  show ?case unfolding discard_operands.simps
  proof (rule spec_bind_prod [OF spec_read_uword_de])
    fix v :: u64 and st' :: line_state assume "ls_ptr st < ls_ptr st' \<and> ls_ptr st' \<le> lp_end p"
    then show "spec (params_ok p) (ahead p st) (discard_operands n p st')"
      by (intro spec_mono [OF Suc.IH]) (simp add: ahead_def)
  qed
qed simp

lemma ahead_append_line [simp]:
  "ls_ptr (append_line p st) = ls_ptr st" "ls_files (append_line p st) = ls_files st"
  by (simp_all add: append_line_def)

lemma forward_simple [op_forward]:
  "forward p st (op_copy p st)" "forward p st (op_negate_stmt st)"
  "forward p st (op_set_basic_block st)" "forward p st (op_set_prologue_end st)"
  "forward p st (op_set_epilogue_begin st)" "forward p st (op_pop_context st)"
  "forward p st (op_const_add_pc p st)"
  by (simp_all add: forward_def op_copy_def op_negate_stmt_def op_set_basic_block_def params_ok_def
      op_set_prologue_end_def op_set_epilogue_begin_def op_pop_context_def op_const_add_pc_def
      Let_def ahead_def)

lemma forward_special [op_forward]: "forward p st (op_special p opcode st)"
  by (auto simp: forward_def op_special_def Let_def params_ok_def ahead_def check_line_number_def)

lemma forward_operand [op_forward]:
  "forward p st (op_advance_pc p st)" "forward p st (op_set_file p st)"
  "forward p st (op_set_column p st)" "forward p st (op_set_isa p st)"
  "forward p st (op_set_discriminator p st)"
  unfolding forward_def op_advance_pc_def op_set_file_def op_set_column_def op_set_isa_def
    op_set_discriminator_def Let_def
  by (rule line_intros, simp add: ahead_def)+

lemma forward_advance_line [op_forward]: "forward p st (op_advance_line p st)"
  unfolding forward_def op_advance_line_def
  by (rule line_intros) (auto simp: check_line_number_def ahead_def)

lemma forward_set_address_from_logical [op_forward]: "forward p st (op_set_address_from_logical p st)"
  unfolding forward_def op_set_address_from_logical_def Let_def
  by (rule line_intros)+ (auto simp: ahead_def params_ok_def)

lemma forward_set_subprogram [op_forward]: "forward p st (op_set_subprogram p st)"
  unfolding forward_def op_set_subprogram_def
  by (rule spec_bind_prod [OF spec_read_uword_de]) (simp add: ahead_def)

lemma forward_inlined_call [op_forward]: "forward p st (op_inlined_call p st)"
  unfolding forward_def op_inlined_call_def
  by (rule spec_bind_prod [OF spec_read_sword_de], rule spec_bind_prod [OF spec_read_uword_de])
     (simp add: ahead_def)

lemma spec_read_unaligned:
  assumes "params_ok p \<Longrightarrow> n \<le> 8"
  shows "spec (params_ok p) (\<lambda>_. q + n \<le> lp_end p)
    (read_unaligned_ck (lp_dbg p) (lp_buf p) q n (lp_end p))"
  using assms read_unaligned_ck_OK [of "lp_dbg p" "lp_buf p" q n "lp_end p"]
    read_unaligned_ck_no_fault [of "lp_end p" "lp_buf p" n "lp_dbg p" q]
  by (auto simp: spec_def params_ok_def)

lemma forward_fixed_advance_pc [op_forward]: "forward p st (op_fixed_advance_pc p st)"
  unfolding forward_def op_fixed_advance_pc_def Let_def
  by (rule spec_bind [OF spec_read_unaligned]) (auto simp: ahead_def)

lemma forward_set_address [op_forward]: "forward p st (op_set_address p st)"
  unfolding forward_def op_set_address_def Let_def
  by (rule spec_bind [OF spec_read_unaligned]) (auto simp: ahead_def params_ok_def)

lemma forward_end_sequence [op_forward]: "forward p st (op_end_sequence p st)"
  by (simp add: forward_def op_end_sequence_def Let_def ahead_def)

lemma forward_unknown_extended [op_forward]: "forward p st (op_unknown_extended p n st)"
  by (simp add: forward_def op_unknown_extended_def Let_def ahead_def)

lemma forward_define_file [op_forward]: "forward p st (op_define_file p st)"
proof (cases "lp_dolines p")
  case True
  have f: "spec (params_ok p) (\<lambda>n. True) (strlen (lp_buf p) (ls_ptr st))"
    if "check_string_valid (lp_dbg p) (lp_buf p) (ls_ptr st) (ls_ptr st) (lp_end p) e = DW_OK u" for u e
    using that check_string_loop_OK [of "lp_buf p" "ls_ptr st" "lp_end p"]
    by (auto simp: spec_def params_ok_def check_string_valid_def split: if_splits)
  have "spec (params_ok p) (\<lambda>u. check_string_valid (lp_dbg p) (lp_buf p) (ls_ptr st) (ls_ptr st)
      (lp_end p) DW_DLE_DEFINE_FILE_STRING_BAD = DW_OK u)
    (check_string_valid (lp_dbg p) (lp_buf p) (ls_ptr st) (ls_ptr st) (lp_end p)
      DW_DLE_DEFINE_FILE_STRING_BAD)"
    using check_string_valid_no_fault [of "lp_end p" "lp_buf p"] by (auto simp: spec_def params_ok_def)
  then show ?thesis
    unfolding forward_def op_define_file_def Let_def if_P [OF True]
    apply (rule spec_bind)
    apply (rule spec_bind [OF f], assumption)
    apply (rule spec_bind_prod [OF spec_read_uword_de])+
    apply (simp add: ahead_def)
    done
qed (simp add: forward_def op_define_file_def)


lemma forward_discard [op_forward]:
  assumes "params_ok p \<Longrightarrow> lc_opcode_length_table (lp_context p) + unat opcode < length (lp_buf p)"
  shows "forward p st (op_discard p opcode st)"
  unfolding forward_def op_discard_def
proof (rule spec_bind)
  show "spec (params_ok p) (\<lambda>_. True)
      (rd8 (lp_buf p) (lc_opcode_length_table (lp_context p) + unat opcode))"
    using assms by (auto simp: spec_def)
qed (rule forward_discard_operands [unfolded forward_def])

lemma forward_if: "forward p st m \<Longrightarrow> forward p st n \<Longrightarrow> forward p st (if b then m else n)"
  by simp

lemma forward_standard_op [op_forward]: "forward p st (standard_op p opcode st)"
  unfolding standard_op_def by (intro forward_if op_forward) (simp add: forward_def)

lemma forward_from:
  "forward p st m \<Longrightarrow> ls_ptr s \<le> ls_ptr st \<Longrightarrow> ls_ptr st \<le> lp_end p \<Longrightarrow> spec (params_ok p) (ahead p s) m"
  unfolding forward_def by (erule spec_mono) (simp add: ahead_def)

lemma forward_extended_op [op_forward]: "forward p st (extended_op p st)"
  unfolding forward_def extended_op_def
proof (rule spec_bind_prod [OF spec_read_uword_de])
  fix n :: u64 and st' :: line_state
  assume st': "ls_ptr st < ls_ptr st' \<and> ls_ptr st' \<le> lp_end p"
  let ?s = "st'\<lparr>ls_ptr := ls_ptr st' + 1\<rparr>"
  have "forward p ?s (if b = 0x01 then op_end_sequence p ?s else if b = 0x02 then op_set_address p ?s
      else if b = 0x03 then op_define_file p ?s else if b = 0x04 then op_set_discriminator p ?s
      else op_unknown_extended p n ?s)" for b :: u8
    by (intro forward_if op_forward)
  note ops = forward_from [OF this]
  show "spec (params_ok p) (ahead p st)
    (if lp_end p \<le> ls_ptr st' then DW_ERROR DW_DLE_LINE_TABLE_BAD
     else dw_bind (rd8 (lp_buf p) (ls_ptr st')) (\<lambda>ext_opcode.
       let st = st'\<lparr>ls_ptr := ls_ptr st' + 1\<rparr> in
       if ls_ptr st > lp_end p then DW_ERROR DW_DLE_LINE_TABLE_BAD
       else if ext_opcode = 0x01 then op_end_sequence p st
       else if ext_opcode = 0x02 then op_set_address p st
       else if ext_opcode = 0x03 then op_define_file p st
       else if ext_opcode = 0x04 then op_set_discriminator p st
       else op_unknown_extended p n st))"
  proof (rule spec_if)
    assume "\<not> lp_end p \<le> ls_ptr st'"
    then show "spec (params_ok p) (ahead p st) (dw_bind (rd8 (lp_buf p) (ls_ptr st')) (\<lambda>ext_opcode.
       let st = st'\<lparr>ls_ptr := ls_ptr st' + 1\<rparr> in
       if ls_ptr st > lp_end p then DW_ERROR DW_DLE_LINE_TABLE_BAD
       else if ext_opcode = 0x01 then op_end_sequence p st
       else if ext_opcode = 0x02 then op_set_address p st
       else if ext_opcode = 0x03 then op_define_file p st
       else if ext_opcode = 0x04 then op_set_discriminator p st
       else op_unknown_extended p n st))"
      using st' ops [of st] unfolding Let_def
      by (intro spec_bind [where P = "\<lambda>_. True"]) (auto simp: spec_def params_ok_def)
  qed simp
qed

lemma not_discarded: "params_ok p \<Longrightarrow>
  what_is_opcode opcode (lc_opcode_base (lp_context p)) (lc_std_op_count (lp_context p)) \<noteq> LOP_DISCARD"
  by (simp add: what_is_opcode_def params_ok_def)

lemma line_step_spec:
  "spec (params_ok p) (\<lambda>st'. ls_ptr st < ls_ptr st' \<and> (ls_ptr st < lp_end p \<longrightarrow> ls_ptr st' \<le> lp_end p))
    (if ls_ptr st < lp_end p then line_step p st else DW_ERROR DW_DLE_LINE_TABLE_BAD)"
  (is "spec _ ?P _")
proof (cases "ls_ptr st < lp_end p")
  case True
  let ?s = "st\<lparr>ls_ptr := ls_ptr st + 1\<rparr>"
  have s: "spec (params_ok p) ?P m" if "forward p ?s m" for m
    using that True unfolding forward_def by (auto elim!: spec_mono simp: ahead_def)
  show ?thesis unfolding line_step_def Let_def if_P [OF True]
    apply (rule spec_bind [where P = "\<lambda>_. True"])
    subgoal using True by (auto simp: spec_def params_ok_def)
    subgoal for opcode
    proof (cases "what_is_opcode opcode (lc_opcode_base (lp_context p)) (lc_std_op_count (lp_context p))")
      case LOP_DISCARD
      then have "\<not> params_ok p" using not_discarded by blast
      then show ?thesis using LOP_DISCARD s [OF forward_discard] by simp
    qed (simp_all add: s op_forward)
    done
qed simp

lemma line_step_advances: "line_step p st = DW_OK st' \<Longrightarrow> ls_ptr st < lp_end p \<Longrightarrow> ls_ptr st < ls_ptr st'"
  using spec_result [OF line_step_spec [of p st], of st'] by simp

function line_loop :: "line_params \<Rightarrow> line_state \<Rightarrow> line_state dw" where
  "line_loop p st =
     (if ls_ptr st < lp_end p then
        case line_step p st of
          DW_OK st' \<Rightarrow> line_loop p st'
        | DW_NO_ENTRY \<Rightarrow> DW_NO_ENTRY
        | DW_ERROR e \<Rightarrow> DW_ERROR e
        | FAULT \<Rightarrow> FAULT
      else DW_OK st)"
  by pat_completeness auto
termination
  by (relation "measure (\<lambda>(p, st). lp_end p - ls_ptr st)") (auto dest: line_step_advances)

declare line_loop.simps [simp del]

text \<open>
  The function: the rows become the logicals or the actuals of the context, which also gets the files.
\<close>

definition init_line_state :: "line_params \<Rightarrow> ptr \<Rightarrow> line_state" where
  "init_line_state p line_ptr =
     \<lparr>ls_ptr = line_ptr,
      ls_regs = set_line_table_regs_default_values (lc_version_number (lp_context p))
                  (lc_default_is_stmt (lp_context p)),
      ls_is_addr_set = False, ls_chain = [], ls_files = lc_files (lp_context p)\<rparr>"

definition read_line_table_program :: "line_params \<Rightarrow> ptr \<Rightarrow> line_context dw" where
  "read_line_table_program p line_ptr =
     dw_bind (line_loop p (init_line_state p line_ptr)) (\<lambda>st.
       let ctx = (lp_context p)\<lparr>lc_files := ls_files st\<rparr> in
       if lp_is_single_table p \<or> \<not> lp_is_actuals_table p
       then DW_OK (ctx\<lparr>lc_linebuf_logicals := ls_chain st, lc_linecount_logicals := length (ls_chain st)\<rparr>)
       else DW_OK (ctx\<lparr>lc_linebuf_actuals := ls_chain st, lc_linecount_actuals := length (ls_chain st)\<rparr>))"

lemma line_loop_no_fault: "params_ok p \<Longrightarrow> line_loop p st \<noteq> FAULT"
proof (induction p st rule: line_loop.induct)
  case (1 p st)
  then show ?case
    using spec_no_fault [OF line_step_spec [of p st] "1.prems"]
    by (subst line_loop.simps) (auto split: dw.splits)
qed

section \<open>Runs as a step relation\<close>

text \<open>The states a program passes through, independent of the order in which the loop computes them.\<close>

inductive line_reaches :: "line_params \<Rightarrow> line_state \<Rightarrow> line_state \<Rightarrow> bool" for p where
  stay: "line_reaches p st st"
| go: "ls_ptr st < lp_end p \<Longrightarrow> line_step p st = DW_OK st' \<Longrightarrow> line_reaches p st' st'' \<Longrightarrow>
    line_reaches p st st''"

lemma line_reaches_trans: "line_reaches p a b \<Longrightarrow> line_reaches p b c \<Longrightarrow> line_reaches p a c"
  by (induction rule: line_reaches.induct) (auto intro: line_reaches.go)

lemma line_loop_reaches: "line_loop p st = DW_OK st' \<Longrightarrow> line_reaches p st st' \<and> \<not> ls_ptr st' < lp_end p"
proof (induction p st rule: line_loop.induct)
  case (1 p st)
  then show ?case
    by (subst (asm) (2) line_loop.simps)
       (auto intro: line_reaches.intros split: if_splits dw.splits)
qed

lemma line_reaches_inv:
  assumes "line_reaches p st st'" "I st"
    and "\<And>s s'. I s \<Longrightarrow> ls_ptr s < lp_end p \<Longrightarrow> line_step p s = DW_OK s' \<Longrightarrow> I s'"
  shows "I st'"
  using assms by (induction rule: line_reaches.induct) auto

section \<open>What the rows satisfy\<close>

text \<open>
  A row, read by the accessors as signed numbers, has no negative line and file number, and the row
  of an end of sequence does not say that an address was set.
\<close>

definition row_ok :: "dwarf_line \<Rightarrow> bool" where
  "row_ok l \<longleftrightarrow> 0 \<le> sint (li_line l) \<and> 0 \<le> sint (li_file l) \<and> \<not> (li_end_sequence l \<and> li_is_addr_set l)"

definition regs_ok :: "line_registers \<Rightarrow> bool" where
  "regs_ok r \<longleftrightarrow> 0 \<le> sint (lr_line r) \<and> 0 \<le> sint (lr_file r) \<and> \<not> lr_end_sequence r"

definition rows_inv :: "line_state \<Rightarrow> bool" where
  "rows_inv st \<longleftrightarrow> regs_ok (ls_regs st) \<and> (\<forall>l \<in> set (ls_chain st). row_ok l)"

text \<open>The result of an operation: at most one row more, and the invariant again.\<close>

definition grows :: "line_state \<Rightarrow> line_state dw \<Rightarrow> bool" where
  "grows st m \<longleftrightarrow> (\<forall>st'. m = DW_OK st' \<longrightarrow> rows_inv st \<longrightarrow>
     rows_inv st' \<and> length (ls_chain st') \<le> length (ls_chain st) + 1)"

named_theorems op_grows \<open>operations keep the invariant of the rows\<close>

lemma regs_ok_default: "regs_ok (set_line_table_regs_default_values v b)"
  by (simp add: regs_ok_def set_line_table_regs_default_values_def Let_def)

lemma rows_inv_append_line: "rows_inv st \<Longrightarrow> rows_inv (append_line p st)"
  by (auto simp: rows_inv_def append_line_def line_of_regs_def row_ok_def regs_ok_def)

lemma length_append_line: "length (ls_chain (append_line p st)) \<le> length (ls_chain st) + 1"
  by (simp add: append_line_def)

lemma ls_regs_append_line [simp]: "ls_regs (append_line p st) = ls_regs st"
  by (simp add: append_line_def)

lemma read_uword_de_same:
  "read_uword_de p st = DW_OK (v, st') \<Longrightarrow> \<exists>q. st' = st\<lparr>ls_ptr := q\<rparr>"
  by (auto simp: read_uword_de_def dw_simps)

lemma read_sword_de_same:
  "read_sword_de p st = DW_OK (v, st') \<Longrightarrow> \<exists>q. st' = st\<lparr>ls_ptr := q\<rparr>"
  by (auto simp: read_sword_de_def dw_simps)

lemmas read_same = read_uword_de_same read_sword_de_same

lemma advance_operations_other [simp]:
  "lr_line (advance_operations ctx n r) = lr_line r" "lr_file (advance_operations ctx n r) = lr_file r"
  "lr_end_sequence (advance_operations ctx n r) = lr_end_sequence r"
  by (simp_all add: advance_operations_def)

lemma clear_row_flags_other [simp]:
  "lr_line (clear_row_flags r) = lr_line r" "lr_file (clear_row_flags r) = lr_file r"
  "lr_end_sequence (clear_row_flags r) = lr_end_sequence r"
  by (simp_all add: clear_row_flags_def)

lemma grows_discard [op_grows]: "grows st (op_discard p opcode st)"
proof -
  have "grows st (discard_operands n p st)" for n
  proof (induction n arbitrary: st)
    case (Suc n)
    then show ?case by (fastforce simp: grows_def dw_simps rows_inv_def dest!: read_same)
  qed (simp add: grows_def)
  then show ?thesis by (auto simp: op_discard_def grows_def dw_simps)
qed

lemma check_line_number_OK:
  "check_line_number st = DW_OK st' \<longleftrightarrow> st' = st \<and> 0 \<le> sint (lr_line (ls_regs st))"
  by (auto simp: check_line_number_def)

lemma grows_row:
  assumes "0 \<le> sint (lr_line r)" "lr_file r = lr_file (ls_regs st)"
    "lr_end_sequence r = lr_end_sequence (ls_regs st)"
  shows "grows st (DW_OK (upd_regs clear_row_flags (append_line p (st\<lparr>ls_regs := r\<rparr>))))"
  unfolding grows_def
proof (intro allI impI conjI)
  fix st' assume st': "DW_OK (upd_regs clear_row_flags (append_line p (st\<lparr>ls_regs := r\<rparr>))) = DW_OK st'"
    and "rows_inv st"
  then have "rows_inv (st\<lparr>ls_regs := r\<rparr>)" using assms by (simp add: rows_inv_def regs_ok_def)
  then have "rows_inv (append_line p (st\<lparr>ls_regs := r\<rparr>))" by (rule rows_inv_append_line)
  then show "rows_inv st'" using st' by (auto simp: rows_inv_def regs_ok_def)
  show "length (ls_chain st') \<le> length (ls_chain st) + 1"
    using st' length_append_line [of p "st\<lparr>ls_regs := r\<rparr>"] by auto
qed

lemma grows_special [op_grows]: "grows st (op_special p opcode st)"
proof (cases "lc_line_range (lp_context p) = 0")
  case False
  define r where "r = (advance_operations (lp_context p)
      (ucast ((opcode - lc_opcode_base (lp_context p)) div lc_line_range (lp_context p))) (ls_regs st))
      \<lparr>lr_line := lr_line (ls_regs st) + scast (lc_line_base (lp_context p)) +
        ucast ((opcode - lc_opcode_base (lp_context p)) mod lc_line_range (lp_context p))\<rparr>"
  have "op_special p opcode st = dw_bind (check_line_number (st\<lparr>ls_regs := r\<rparr>)) (\<lambda>st.
      DW_OK (upd_regs clear_row_flags (append_line p st)))"
    using False by (simp add: op_special_def r_def Let_def)
  moreover have "lr_file r = lr_file (ls_regs st)" "lr_end_sequence r = lr_end_sequence (ls_regs st)"
    by (simp_all add: r_def)
  ultimately show ?thesis
    using grows_row [of r st p] by (auto simp: grows_def dw_simps check_line_number_OK)
qed (simp add: op_special_def Let_def grows_def)

lemma grows_copy [op_grows]: "grows st (op_copy p st)"
proof (cases "0 \<le> sint (lr_line (ls_regs st))")
  case True
  then show ?thesis using grows_row [of "ls_regs st" st p] by (simp add: op_copy_def)
qed (simp add: grows_def rows_inv_def regs_ok_def)

lemma grows_operand [op_grows]:
  "grows st (op_advance_pc p st)" "grows st (op_set_file p st)" "grows st (op_set_column p st)"
  "grows st (op_set_isa p st)" "grows st (op_set_discriminator p st)" "grows st (op_advance_line p st)"
  "grows st (op_set_address_from_logical p st)" "grows st (op_set_subprogram p st)"
  "grows st (op_inlined_call p st)"
  by (auto simp: grows_def op_advance_pc_def op_set_file_def op_set_column_def op_set_isa_def
      op_set_discriminator_def op_advance_line_def op_set_address_from_logical_def op_set_subprogram_def
      op_inlined_call_def dw_simps rows_inv_def regs_ok_def check_line_number_OK Let_def
      dest!: read_same split: if_splits)

lemma grows_plain [op_grows]:
  "grows st (op_negate_stmt st)" "grows st (op_set_basic_block st)" "grows st (op_const_add_pc p st)"
  "grows st (op_set_prologue_end st)" "grows st (op_set_epilogue_begin st)"
  "grows st (op_fixed_advance_pc p st)" "grows st (op_unknown_extended p n st)"
  by (auto simp: grows_def op_negate_stmt_def op_set_basic_block_def op_const_add_pc_def
      op_set_prologue_end_def op_set_epilogue_begin_def op_fixed_advance_pc_def
      op_unknown_extended_def dw_simps rows_inv_def regs_ok_def Let_def split: if_splits)

lemma grows_pop_context [op_grows]: "grows st (op_pop_context st)"
proof -
  have "row_ok (ls_chain st ! (n - 1))" if "rows_inv st" "0 < n" "n \<le> length (ls_chain st)" for n
    using that by (simp add: rows_inv_def)
  then show ?thesis
    by (auto simp: grows_def op_pop_context_def Let_def rows_inv_def regs_ok_def row_ok_def)
qed

lemma grows_end_sequence [op_grows]: "grows st (op_end_sequence p st)"
  using regs_ok_default [of "lc_version_number (lp_context p)" "lc_default_is_stmt (lp_context p)"]
  by (auto simp: grows_def op_end_sequence_def Let_def rows_inv_def row_ok_def line_of_regs_def regs_ok_def)

lemma grows_set_address [op_grows]: "grows st (op_set_address p st)"
  by (auto simp: grows_def op_set_address_def Let_def rows_inv_def regs_ok_def row_ok_def dw_simps
      address_line_def split: if_splits)

lemma grows_define_file [op_grows]: "grows st (op_define_file p st)"
  by (auto simp: grows_def op_define_file_def Let_def rows_inv_def dw_simps dest!: read_same
      split: if_splits)

lemma grows_if: "grows st m \<Longrightarrow> grows st n \<Longrightarrow> grows st (if b then m else n)"
  by simp

lemma grows_standard_op [op_grows]: "grows st (standard_op p opcode st)"
  unfolding standard_op_def by (intro grows_if op_grows) (simp add: grows_def)

lemma grows_bind: "(\<And>x. m = DW_OK x \<Longrightarrow> grows st (f x)) \<Longrightarrow> grows st (dw_bind m f)"
  by (cases m) (auto simp: grows_def)

lemma grows_ERROR [simp]: "grows st (DW_ERROR e)"
  by (simp add: grows_def)

lemma grows_ptr [simp]: "grows (st\<lparr>ls_ptr := q\<rparr>) m = grows st m"
  by (simp add: grows_def rows_inv_def)

lemmas moved_grows = op_grows [where st = "st\<lparr>ls_ptr := q\<rparr>" for st q, unfolded grows_ptr]

lemma grows_extended_op: "grows st (extended_op p st)"
  unfolding extended_op_def Let_def
  by (auto intro!: grows_bind moved_grows dest!: read_same)

lemma grows_line_step: "grows st (line_step p st)"
  unfolding line_step_def Let_def
  by (rule grows_bind)
     (auto split: lop.splits intro: moved_grows
       grows_extended_op [where st = "st\<lparr>ls_ptr := q\<rparr>" for q, unfolded grows_ptr])

lemma rows_inv_init: "rows_inv (init_line_state p q)"
  by (simp add: rows_inv_def init_line_state_def regs_ok_default)

lemma line_reaches_rows: "line_reaches p st st' \<Longrightarrow> rows_inv st \<Longrightarrow> rows_inv st'"
  by (erule line_reaches_inv) (use grows_line_step in \<open>auto simp: grows_def\<close>)

lemma line_reaches_bound:
  "line_reaches p st st' \<Longrightarrow> rows_inv st \<Longrightarrow>
   length (ls_chain st') + ls_ptr st \<le> length (ls_chain st) + ls_ptr st'"
proof (induction rule: line_reaches.induct)
  case (go st st' st'')
  have "rows_inv st'" "length (ls_chain st') \<le> length (ls_chain st) + 1"
    using grows_line_step [of st p] go by (auto simp: grows_def)
  then show ?case using go line_step_advances [OF go(2,1)] by auto
qed simp

lemma line_reaches_inside:
  assumes "line_reaches p st st'" "ls_ptr st \<le> lp_end p"
  shows "ls_ptr st' \<le> lp_end p"
  using assms(1,2)
  by (rule line_reaches_inv) (use spec_result [OF line_step_spec [of p]] in \<open>force split: if_splits\<close>)

section \<open>A concrete instance\<close>

definition sample_line_context :: line_context where
  "sample_line_context = new_line_context
     \<lparr>lc_version_number := 4, lc_minimum_instruction_length := 1, lc_maximum_ops_per_instruction := 1,
      lc_default_is_stmt := 1, lc_line_base := 0xfb, lc_line_range := 14, lc_opcode_base := 13,
      lc_std_op_count := 12\<rparr>"

definition sample_line_params :: "bytes \<Rightarrow> line_params" where
  "sample_line_params buf =
     \<lparr>lp_dbg = debug_le64, lp_buf = buf, lp_end = length buf, lp_context = sample_line_context,
      lp_address_size = 8, lp_doaddrs = False, lp_dolines = True, lp_is_single_table = True,
      lp_is_actuals_table = False\<rparr>"

lemma sample_params_ok: "params_ok (sample_line_params buf)"
  by (simp add: params_ok_def sample_line_params_def sample_line_context_def new_line_context_def debug_le64_def)

section \<open>Properties\<close>

text \<open>
  C21: Reading a line number program never leaves the section, whatever its bytes are, and comes to an end. Every row it
  records has a line and a file number that are not negative when read as signed numbers, a row that ends a
  sequence is never marked as one that sets an address, and there are no more rows than bytes.
\<close>

theorem line_program_safe:
  assumes "params_ok p" "line_ptr \<le> lp_end p"
  shows "read_line_table_program p line_ptr \<noteq> FAULT \<and>
    (\<forall>st. line_loop p (init_line_state p line_ptr) = DW_OK st \<longrightarrow>
      ls_ptr st = lp_end p \<and> (\<forall>l \<in> set (ls_chain st). row_ok l) \<and>
      length (ls_chain st) \<le> lp_end p - line_ptr)"
proof (intro conjI allI impI)
  show "read_line_table_program p line_ptr \<noteq> FAULT"
    using line_loop_no_fault [OF assms(1)] by (auto simp: read_line_table_program_def dw_simps Let_def)
  fix st assume "line_loop p (init_line_state p line_ptr) = DW_OK st"
  then have r: "line_reaches p (init_line_state p line_ptr) st" "\<not> ls_ptr st < lp_end p"
    using line_loop_reaches by blast+
  show "ls_ptr st = lp_end p"
    using line_reaches_inside [OF r(1)] r(2) assms(2) by (simp add: init_line_state_def)
  then show "length (ls_chain st) \<le> lp_end p - line_ptr"
    using line_reaches_bound [OF r(1) rows_inv_init] by (simp add: init_line_state_def)
  show "\<forall>l \<in> set (ls_chain st). row_ok l"
    using line_reaches_rows [OF r(1) rows_inv_init] by (simp add: rows_inv_def)
qed

theorem line_program_safe_witness:
  "read_line_table_program (sample_line_params [0x00, 0x05, 0x01, 0xff, 0x03]) 0 \<noteq> FAULT"
  using line_program_safe [OF sample_params_ok, of 0] by simp

end
