(* ===== verification/Srclines.thy ===== *)
theory Srclines
  imports Lines
begin

text \<open>
  Reading the lines of a unit: \<open>_dwarf_internal_srclines\<close> (\<open>dwarf_line.c\<close>) from the point where the offset of the table
  is known, with \<open>dwarf_srclines_b\<close> and the functions that read a finished line context. The offset comes from an attribute
  of a unit and the other one from a package index; both are arguments, as is the address size of the unit.
\<close>

section \<open>Reading a table\<close>

definition program_params ::
  "dwarf_debug \<Rightarrow> u8 \<Rightarrow> bool \<Rightarrow> bool \<Rightarrow> line_context \<Rightarrow> ptr \<Rightarrow> bool \<Rightarrow> bool \<Rightarrow> line_params"
where
  "program_params dbg cc_address_size doaddrs dolines ctx end_ptr is_single_table is_actuals_table =
     \<lparr>lp_dbg = dbg, lp_buf = de_debug_line dbg, lp_end = end_ptr, lp_context = ctx,
      lp_address_size = ucast cc_address_size, lp_doaddrs = doaddrs, lp_dolines = dolines,
      lp_is_single_table = is_single_table, lp_is_actuals_table = is_actuals_table\<rparr>"

text \<open>\<open>(Dwarf_Signed)count < 0\<close>\<close>

definition check_line_count :: "nat \<Rightarrow> unit dw" where
  "check_line_count n = (if sint (word_of_nat n :: s64) < 0 then DW_ERROR DW_DLE_LINE_COUNT_WRONG else DW_OK ())"

text \<open>The context is freed, not returned, when a caller of the old interface finds no lines.\<close>

definition srclines_result :: "bool \<Rightarrow> line_context \<Rightarrow> nat \<Rightarrow> nat \<Rightarrow> line_context option" where
  "srclines_result is_new_interface ctx linecount linecount_actuals =
     (if \<not> is_new_interface \<and> linecount = 0 \<and> linecount_actuals = 0 then None else Some ctx)"

text \<open>One program, or the logicals up to the start of the actuals and then the actuals.\<close>

definition read_line_programs ::
  "dwarf_debug \<Rightarrow> u8 \<Rightarrow> bool \<Rightarrow> bool \<Rightarrow> bool \<Rightarrow> line_context \<Rightarrow> ptr \<Rightarrow> line_context option dw"
where
  "read_line_programs dbg cc_address_size is_new_interface doaddrs dolines ctx line_ptr =
     (let params = program_params dbg cc_address_size doaddrs dolines in
      if lc_actuals_table_offset ctx = 0 then
        dw_bind (read_line_table_program (params ctx (lc_line_ptr_end ctx) True False) line_ptr) (\<lambda>ctx.
        dw_bind (check_line_count (lc_linecount_logicals ctx)) (\<lambda>_.
          DW_OK (srclines_result is_new_interface ctx (lc_linecount_logicals ctx) 0)))
      else
        let line_ptr_actuals = lc_line_prologue_start ctx + unat (lc_actuals_table_offset ctx) in
        dw_bind (read_line_table_program (params ctx line_ptr_actuals False False) line_ptr) (\<lambda>ctx.
        dw_bind (check_line_count (lc_linecount_logicals ctx)) (\<lambda>_.
          if is_new_interface then
            dw_bind (read_line_table_program (params ctx (lc_line_ptr_end ctx) False True)
                       line_ptr_actuals) (\<lambda>ctx.
            dw_bind (check_line_count (lc_linecount_actuals ctx)) (\<lambda>_.
              DW_OK (srclines_result is_new_interface ctx (lc_linecount_logicals ctx)
                       (lc_linecount_actuals ctx))))
          else DW_OK (srclines_result is_new_interface ctx (lc_linecount_logicals ctx) 0))))"

definition internal_srclines ::
  "dwarf_debug \<Rightarrow> u8 \<Rightarrow> u8 \<Rightarrow> u64 \<Rightarrow> u64 \<Rightarrow> bool \<Rightarrow> bool \<Rightarrow> bool \<Rightarrow> line_context option dw"
where
  "internal_srclines dbg cc_address_size cc_segment_selector_size line_offset fission_offset
       is_new_interface doaddrs dolines =
     (let buf = de_debug_line dbg; line_ptr = unat line_offset + unat fission_offset in
      if length buf = 0 then DW_NO_ENTRY
      else if unat line_offset \<ge> length buf then DW_ERROR DW_DLE_LINE_OFFSET_BAD
      else if line_ptr > length buf then DW_ERROR DW_DLE_FISSION_ADDITION_ERROR
      else if unat (line_offset + fission_offset) > length buf then DW_ERROR DW_DLE_LINE_OFFSET_BAD
      else
        dw_bind (read_line_table_header dbg cc_address_size cc_segment_selector_size buf line_ptr
                   new_line_context) (\<lambda>(ctx, newlinep).
          read_line_programs dbg cc_address_size is_new_interface doaddrs dolines ctx newlinep))"

text \<open>The version, the number of tables that have lines, and the context.\<close>

definition srclines_b ::
  "dwarf_debug \<Rightarrow> u8 \<Rightarrow> u8 \<Rightarrow> u64 \<Rightarrow> u64 \<Rightarrow> (u64 \<times> u8 \<times> line_context) dw"
where
  "srclines_b dbg cc_address_size cc_segment_selector_size line_offset fission_offset =
     dw_bind (internal_srclines dbg cc_address_size cc_segment_selector_size line_offset fission_offset
                True False True) (\<lambda>r.
       case r of
         None \<Rightarrow> FAULT
       | Some ctx \<Rightarrow>
           DW_OK (ucast (lc_version_number ctx),
                  (if lc_linecount_actuals ctx \<noteq> 0 then 1 else 0) +
                  (if lc_linecount_logicals ctx \<noteq> 0 then 1 else 0), ctx))"

section \<open>Reading a line context\<close>

definition srclines_from_linecontext :: "line_context \<Rightarrow> (dwarf_line list \<times> nat) dw" where
  "srclines_from_linecontext ctx =
     dw_bind (check_line_count (lc_linecount_logicals ctx)) (\<lambda>_.
       DW_OK (lc_linebuf_logicals ctx, lc_linecount_logicals ctx))"

definition srclines_two_level_from_linecontext ::
  "line_context \<Rightarrow> (dwarf_line list \<times> nat \<times> dwarf_line list \<times> nat) dw"
where
  "srclines_two_level_from_linecontext ctx =
     dw_bind (check_line_count (lc_linecount_logicals ctx)) (\<lambda>_.
     dw_bind (check_line_count (lc_linecount_actuals ctx)) (\<lambda>_.
       DW_OK (lc_linebuf_logicals ctx, lc_linecount_logicals ctx, lc_linebuf_actuals ctx,
              lc_linecount_actuals ctx)))"

definition srclines_subprog_count :: "line_context \<Rightarrow> s64 dw" where
  "srclines_subprog_count ctx =
     (if sint (lc_subprogs_count ctx) < 0 then DW_ERROR DW_DLE_LINE_COUNT_WRONG
      else DW_OK (lc_subprogs_count ctx))"

definition srclines_subprog_data :: "line_context \<Rightarrow> s64 \<Rightarrow> (section_string \<times> u64 \<times> u64) dw" where
  "srclines_subprog_data ctx index_in =
     (if sint index_in < 0 then DW_ERROR DW_DLE_LINE_INDEX_WRONG
      else if index_in < 1 \<or> index_in > lc_subprogs_count ctx then DW_ERROR DW_DLE_LINE_CONTEXT_INDEX_WRONG
      else if unat (index_in - 1) \<ge> length (lc_subprogs ctx) then FAULT
      else let sub = lc_subprogs ctx ! unat (index_in - 1) in
        DW_OK (ds_subprog_name sub, ds_decl_file sub, ds_decl_line sub))"

definition srclines_files_indexes :: "line_context \<Rightarrow> (s64 \<times> s64 \<times> s64) dw" where
  "srclines_files_indexes ctx =
     (let bi = lc_file_entry_baseindex (lc_files ctx); fc = lc_file_entry_count (lc_files ctx);
          ei = lc_file_entry_endindex (lc_files ctx)
      in if sint bi < 0 then DW_ERROR DW_DLE_LINE_INDEX_WRONG
         else if sint fc < 0 then DW_ERROR DW_DLE_LINE_COUNT_WRONG
         else if sint ei < 0 then DW_ERROR DW_DLE_LINE_INDEX_WRONG
         else DW_OK (bi, fc, ei))"

text \<open>
  The walk from the first entry: following the link of an entry that does not exist is a fault, and so is
  using one; a list that ends on the way is an error.
\<close>

fun walk_files :: "nat \<Rightarrow> file_entry list \<Rightarrow> file_entry list dw" where
  "walk_files 0 fs = DW_OK fs"
| "walk_files (Suc n) [] = FAULT"
| "walk_files (Suc n) (f # fs) = (if fs = [] then DW_ERROR DW_DLE_LINE_HEADER_CORRUPT else walk_files n fs)"

definition srclines_files_data_b ::
  "line_context \<Rightarrow> s64 \<Rightarrow> (section_string \<times> u64 \<times> u64 \<times> u64 \<times> bytes option) dw"
where
  "srclines_files_data_b ctx index_in =
     (if sint index_in < 0 then DW_ERROR DW_DLE_LINE_INDEX_WRONG
      else dw_bind (srclines_files_indexes ctx) (\<lambda>(baseindex, file_count, endindex).
        if sint index_in < sint baseindex \<or> sint index_in \<ge> sint endindex
        then DW_ERROR DW_DLE_LINE_CONTEXT_INDEX_WRONG
        else dw_bind (walk_files (nat (sint index_in - sint baseindex)) (lc_file_entries (lc_files ctx)))
          (\<lambda>fs. case fs of
             [] \<Rightarrow> FAULT
           | fi # _ \<Rightarrow> DW_OK (fi_file_name fi, fi_dir_index fi, fi_time_last_mod fi, fi_file_length fi,
               if fi_md5_present fi then Some (fi_md5_value fi) else None))))"

definition srclines_include_dir_count :: "line_context \<Rightarrow> s64 dw" where
  "srclines_include_dir_count ctx =
     (if sint (lc_include_directories_count ctx) < 0 then DW_ERROR DW_DLE_LINE_COUNT_WRONG
      else DW_OK (lc_include_directories_count ctx))"

definition srclines_include_dir_data :: "line_context \<Rightarrow> s64 \<Rightarrow> section_string dw" where
  "srclines_include_dir_data ctx index_in =
     (let dirs = lc_include_directories ctx; count = lc_include_directories_count ctx in
      if sint index_in < 0 then DW_ERROR DW_DLE_LINE_INDEX_WRONG
      else if lc_version_number ctx = 5 then
        if index_in \<ge> count then DW_ERROR DW_DLE_LINE_CONTEXT_INDEX_WRONG
        else if unat index_in < length dirs then DW_OK (dirs ! unat index_in) else FAULT
      else if index_in < 1 \<or> index_in > count then DW_ERROR DW_DLE_LINE_CONTEXT_INDEX_WRONG
      else if unat (index_in - 1) < length dirs then DW_OK (dirs ! unat (index_in - 1)) else FAULT)"

definition srclines_version :: "line_context \<Rightarrow> u64 \<times> u8" where
  "srclines_version ctx = (ucast (lc_version_number ctx), lc_table_count ctx)"

definition srclines_table_offset :: "line_context \<Rightarrow> nat" where
  "srclines_table_offset ctx = lc_section_offset ctx"


section \<open>The header reader keeps the counts of its lists\<close>

text \<open>The numbers that go with the list of files, which is empty or counted from 1 before version 5.\<close>

definition files_ok :: "u16 \<Rightarrow> file_list \<Rightarrow> bool" where
  "files_ok version files \<longleftrightarrow>
     lc_file_entry_count files = word_of_nat (length (lc_file_entries files)) \<and>
     lc_file_entry_baseindex files = (if version = 5 \<or> lc_file_entries files = [] then 0 else 1) \<and>
     lc_file_entry_endindex files = lc_file_entry_baseindex files + lc_file_entry_count files"

lemma files_ok_add:
  "files_ok v fl \<Longrightarrow> files_ok v (add_to_files_list v fe fl) \<and>
   length (lc_file_entries (add_to_files_list v fe fl)) = length (lc_file_entries fl) + 1"
  by (simp add: files_ok_def add_to_files_list_def Let_def algebra_simps)

text \<open>The counts of all the lists of a context, with bounds in terms of the size \<open>n\<close> of the section.\<close>

definition lists_ok :: "nat \<Rightarrow> nat \<Rightarrow> line_context \<Rightarrow> bool" where
  "lists_ok c n ctx \<longleftrightarrow> lc_line_ptr_end ctx \<le> n \<and> unat (lc_total_length ctx) \<le> n \<and>
     lc_include_directories_count ctx = word_of_nat (length (lc_include_directories ctx)) \<and>
     length (lc_include_directories ctx) \<le> n \<and>
     lc_subprogs_count ctx = word_of_nat (length (lc_subprogs ctx)) \<and> length (lc_subprogs ctx) \<le> n \<and>
     files_ok (lc_version_number ctx) (lc_files ctx) \<and>
     length (lc_file_entries (lc_files ctx)) \<le> c * n \<and>
     lc_linebuf_logicals ctx = [] \<and> lc_linecount_logicals ctx = 0 \<and>
     lc_linebuf_actuals ctx = [] \<and> lc_linecount_actuals ctx = 0"

lemma lists_ok_more: "lists_ok c n ctx \<Longrightarrow> c \<le> d \<Longrightarrow> lists_ok d n ctx"
  by (auto simp: lists_ok_def elim: order_trans)

lemma old_include_directories_length:
  "spec False (\<lambda>(ds, q). length ds \<le> length dirs + (lc_line_ptr_end ctx - p))
     (old_include_directories dbg buf s ctx dirs p)"
proof (induction dbg buf s ctx dirs p rule: old_include_directories.induct)
  case (1 dbg buf s ctx dirs p)
  show ?case
  proof (cases "rd8 buf p")
    case (DW_OK b)
    show ?thesis
    proof (cases "b = 0")
      case False
      have "spec False (\<lambda>(ds, q). length ds \<le> length dirs + (lc_line_ptr_end ctx - p))
          (old_include_directories dbg buf s ctx (dirs @ [Debug_Line p]) q)"
        if "header_string dbg buf s ctx p = DW_OK q" "\<not> lc_line_ptr_end ctx \<le> q" for q
        using "1.IH" [OF DW_OK False that] header_string_advances [OF that(1)] that(2)
        by (auto elim!: spec_mono)
      then show ?thesis
        using DW_OK False
        by (subst old_include_directories.simps)
           (auto intro!: spec_skip)
    qed (use DW_OK in \<open>subst old_include_directories.simps, simp\<close>)
  qed (subst old_include_directories.simps, rule spec_skip, simp)+
qed

lemma old_file_entries_ok:
  "files_ok (lc_version_number ctx) files \<Longrightarrow>
   spec False (\<lambda>(fs, q). files_ok (lc_version_number ctx) fs \<and>
       length (lc_file_entries fs) \<le> length (lc_file_entries files) + (lc_line_ptr_end ctx - p))
     (old_file_entries dbg buf s ctx files p)"
proof (induction dbg buf s ctx files p rule: old_file_entries.induct)
  case (1 dbg buf s ctx files p)
  let ?v = "lc_version_number ctx"
  show ?case
  proof (cases "rd8 buf p")
    case (DW_OK b)
    show ?thesis
    proof (cases "b = 0")
      case False
      have "spec False (\<lambda>(fs, q). files_ok ?v fs \<and>
            length (lc_file_entries fs) \<le> length (lc_file_entries files) + (lc_line_ptr_end ctx - p))
          (old_file_entries dbg buf s ctx (add_to_files_list ?v fe files) q)"
        if "old_file_entry dbg buf s ctx p = DW_OK (fe, q)" "\<not> lc_line_ptr_end ctx \<le> q" for fe q
        using "1.IH" [OF DW_OK False that(1) refl that(2)] old_file_entry_advances [OF that(1)] that(2)
          files_ok_add [OF "1.prems"] by (auto elim!: spec_mono)
      then show ?thesis
        using DW_OK False
        by (subst old_file_entries.simps)
           (auto intro!: spec_skip_prod)
    qed (use DW_OK "1.prems" in \<open>subst old_file_entries.simps, simp\<close>)
  qed (subst old_file_entries.simps, rule spec_skip, simp)+
qed

lemma file_names_ok:
  "files_ok (lc_version_number ctx) files \<Longrightarrow>
   spec False (\<lambda>(fs, q). files_ok (lc_version_number ctx) fs \<and>
       length (lc_file_entries fs) = length (lc_file_entries files) + k)
     (file_names k pairs dbg n buf ctx files p)"
proof (induction k arbitrary: files p)
  case (Suc k)
  have "spec False (\<lambda>(fs, q). files_ok (lc_version_number ctx) fs \<and>
        length (lc_file_entries fs) = length (lc_file_entries files) + Suc k)
      (file_names k pairs dbg n buf ctx (add_to_files_list (lc_version_number ctx) fe files) q)" for fe q
    using files_ok_add [OF Suc.prems, of fe] by (auto intro!: spec_mono [OF Suc.IH])
  then show ?case
    by (auto intro!: spec_skip_prod)
qed simp

lemma directories_length: "spec False (\<lambda>(ds, q). length ds = k) (directories k pairs dbg n buf e p)"
proof (induction k arbitrary: p)
  case (Suc k)
  have "length ds = k" if "directories k pairs dbg n buf e q = DW_OK (ds, r)" for q ds r
    using spec_result [OF Suc.IH that] by simp
  then show ?case
    by (auto intro!: spec_skip_prod)
qed simp

lemma subprogs_length: "spec False (\<lambda>(ds, q). length ds = k) (subprogs k pairs dbg n buf e p)"
proof (induction k arbitrary: p)
  case (Suc k)
  have "length ds = k" if "subprogs k pairs dbg n buf e q = DW_OK (ds, r)" for q ds r
    using spec_result [OF Suc.IH that] by simp
  then show ?case
    by (auto intro!: spec_skip_prod)
qed simp


text \<open>Each part of the header, in this respect.\<close>

lemma lists_part:
  assumes "lists_ok c n ctx" "spec False (\<lambda>(x, q). lists_ok c n (f x)) m"
  shows "spec False (\<lambda>(ctx', q). lists_ok c n ctx') (dw_bind m (\<lambda>(x, q). DW_OK (f x, q)))"
  by (rule spec_bind_prod [OF assms(2)]) simp

lemma lists_header_lengths:
  assumes "lists_ok 0 0 ctx" "length buf < 2 ^ 60"
  shows "spec False (\<lambda>((ctx', n), q). lists_ok 0 (length buf) ctx') (header_lengths dbg buf s ctx)"
proof -
  have "unat (word_of_nat (length buf) :: u64) \<le> length buf"
    by (simp add: unsigned_of_nat take_bit_nat_less_eq_self)
  then have "unat len \<le> length buf" if "len \<le> (word_of_nat (length buf) :: u64)" for len
    using that by (simp add: word_le_nat_alt)
  then have "spec False (\<lambda>((len, n, x), q). unat len \<le> length buf)
      (read_area_length_ck dbg buf s (word_of_nat (length buf)) (length buf))"
    by (auto simp: spec_def dest!: read_area_length_ck_OK)
  then show ?thesis unfolding header_lengths_def
    by (rule spec_bind) (use assms in \<open>auto simp: Let_def lists_ok_def\<close>)
qed

lemma lists_header_version:
  assumes "lists_ok 0 n ctx"
  shows "spec False (\<lambda>(ctx', q). lists_ok 0 n ctx') (header_version dbg buf a s ctx p)"
  using assms unfolding header_version_def
  by (auto intro!: spec_skip simp: Let_def lists_ok_def files_ok_def)

lemma lists_header_prologue:
  assumes "lists_ok c n ctx"
  shows "spec False (\<lambda>(ctx', q). lists_ok c n ctx') (header_prologue dbg buf k ctx p)"
  using assms unfolding header_prologue_def by (auto intro!: spec_skip simp: Let_def lists_ok_def)

lemma lists_header_max_ops:
  assumes "lists_ok c n ctx"
  shows "spec False (\<lambda>(ctx', q). lists_ok c n ctx') (header_max_ops buf ctx p)"
  using assms unfolding header_max_ops_def by (auto intro!: spec_skip simp: lists_ok_def)

lemma lists_header_opcodes:
  assumes "lists_ok c n ctx"
  shows "spec False (\<lambda>(ctx', q). lists_ok c n ctx') (header_opcodes buf ctx p)"
  using assms unfolding header_opcodes_def by (auto intro!: spec_skip simp: Let_def lists_ok_def)

lemma lists_old_directories:
  assumes "lists_ok c n ctx"
  shows "spec False (\<lambda>(ctx', q). lists_ok c n ctx') (header_old_directories dbg buf s ctx p)"
proof -
  have "length ds \<le> n" if "old_include_directories dbg buf s ctx [] p = DW_OK (ds, q)" for ds q
    using spec_result [OF old_include_directories_length that] assms by (auto simp: lists_ok_def)
  then show ?thesis using assms unfolding header_old_directories_def dw_bind_assoc
    by (auto intro!: spec_skip split: if_splits simp: lists_ok_def dw_simps)
qed

lemma lists_old_files:
  assumes "lists_ok 0 n ctx"
  shows "spec False (\<lambda>(ctx', q). lists_ok 1 n ctx') (header_old_files dbg buf s ctx p)"
proof -
  have "files_ok (lc_version_number ctx) fs \<and> length (lc_file_entries fs) \<le> n"
    if "old_file_entries dbg buf s ctx (lc_files ctx) p = DW_OK (fs, q)" for fs q
    using spec_result [OF old_file_entries_ok that] assms by (auto simp: lists_ok_def)
  then show ?thesis using assms lists_ok_more [OF assms, of 1] unfolding header_old_files_def dw_bind_assoc
    by (auto intro!: spec_skip split: if_splits simp: lists_ok_def dw_simps)
qed

lemma lists_experimental_offsets:
  assumes "lists_ok c n ctx"
  shows "spec False (\<lambda>(ctx', q). lists_ok c n ctx') (header_experimental_offsets dbg buf k ctx p)"
  using assms unfolding header_experimental_offsets_def
  by (auto intro!: spec_skip simp: Let_def lists_ok_def)

lemma lists_directories:
  assumes "lists_ok c n ctx"
  shows "spec False (\<lambda>(ctx', q). lists_ok c n ctx') (header_directories dbg buf k ctx p)"
proof -
  have "word_of_nat (length ds) = m \<and> length ds \<le> n"
    if "directories (unat m) pairs dbg k buf e r = DW_OK (ds, q)" "\<not> lc_total_length ctx < m" for m pairs e r ds q
    using spec_result [OF directories_length that(1)] that(2) assms
    by (auto simp: lists_ok_def not_less word_le_nat_alt of_nat_unat)
  then show ?thesis using assms unfolding header_directories_def Let_def
    by (auto intro!: spec_skip spec_skip_prod simp: lists_ok_def)
qed

lemma lists_files:
  assumes "lists_ok 1 n ctx"
  shows "spec False (\<lambda>(ctx', q). lists_ok 2 n ctx') (header_files dbg buf k ctx p)"
proof -
  have "files_ok (lc_version_number ctx) fs \<and> length (lc_file_entries fs) \<le> 2 * n"
    if "file_names (unat m) pairs dbg k buf ctx (lc_files ctx) r = DW_OK (fs, q)" "\<not> lc_total_length ctx < m"
    for m pairs r fs q
    using spec_result [OF file_names_ok that(1)] that(2) assms
    by (auto simp: lists_ok_def not_less word_le_nat_alt of_nat_unat)
  then show ?thesis using assms unfolding header_files_def Let_def
    by (auto intro!: spec_skip spec_skip_prod simp: lists_ok_def)
qed

lemma lists_subprograms:
  assumes "lists_ok c n ctx"
  shows "spec False (\<lambda>(ctx', q). lists_ok c n ctx') (header_subprograms dbg buf k ctx p)"
proof -
  have "word_of_nat (length ds) = m \<and> length ds \<le> n"
    if "subprogs (unat m) pairs dbg k buf e r = DW_OK (ds, q)" "\<not> lc_total_length ctx < m" for m pairs e r ds q
    using spec_result [OF subprogs_length that(1)] that(2) assms
    by (auto simp: lists_ok_def not_less word_le_nat_alt of_nat_unat)
  then show ?thesis using assms unfolding header_subprograms_def Let_def
    by (auto intro!: spec_skip spec_skip_prod simp: lists_ok_def)
qed

lemma lists_version5_part:
  assumes "lists_ok 1 n ctx"
  shows "spec False (\<lambda>(ctx', q). lists_ok 2 n ctx') (header_version5_part dbg buf k ctx p)"
  using assms lists_ok_more [OF assms, of 2] unfolding header_version5_part_def
  by (auto intro!: spec_bind_prod [OF lists_directories] spec_bind_prod [OF lists_files] lists_subprograms)

lemma lists_header_finish:
  assumes "lists_ok c n ctx"
  shows "spec False (\<lambda>(ctx', q). lists_ok c n ctx') (header_finish ctx p)"
  using assms unfolding header_finish_def by (auto simp: Let_def lists_ok_def)

lemma lists_read_line_table_header:
  assumes "length buf < 2 ^ 60"
  shows "spec False (\<lambda>(ctx, q). lists_ok 2 (length buf) ctx)
    (read_line_table_header dbg a g buf s new_line_context)"
proof -
  have "lists_ok 0 0 new_line_context"
    by (simp add: lists_ok_def new_line_context_def files_ok_def)
  note first = lists_header_lengths [OF this assms]
  show ?thesis
    unfolding read_line_table_header_def
    apply (rule spec_bind [OF first])
    apply clarsimp
    apply (rule spec_bind_prod [OF lists_header_version], assumption)
    apply (rule spec_bind_prod [OF lists_header_prologue], assumption)
    apply (rule spec_bind_prod [OF lists_header_max_ops], assumption)
    apply (rule spec_bind_prod [OF lists_header_opcodes], assumption)
    apply (rule spec_skip)
    apply (rule spec_bind_prod [OF lists_old_directories], assumption)
    apply (rule spec_bind_prod [OF lists_old_files], assumption)
    apply (rule spec_bind_prod [OF lists_experimental_offsets], assumption)
    apply (rule spec_bind_prod [OF lists_version5_part], assumption)
    by (rule lists_header_finish)
qed


section \<open>The programs add files and rows\<close>

text \<open>An operation adds at most one file, and keeps the numbers of the list right.\<close>

definition keeps_files :: "line_params \<Rightarrow> line_state \<Rightarrow> line_state dw \<Rightarrow> bool" where
  "keeps_files p st m =
     spec False (\<lambda>st'. ls_files st' = ls_files st \<or>
       (\<exists>fe. ls_files st' = add_to_files_list (lc_version_number (lp_context p)) fe (ls_files st))) m"

named_theorems op_keeps \<open>operations keep the list of files\<close>

lemma keeps_OK [simp]: "ls_files st' = ls_files st \<Longrightarrow> keeps_files p st (DW_OK st')"
  by (simp add: keeps_files_def)

lemma keeps_ERROR [simp]: "keeps_files p st (DW_ERROR e)" "keeps_files p st FAULT"
  by (simp_all add: keeps_files_def)

lemma keeps_bind: "(\<And>x. m = DW_OK x \<Longrightarrow> keeps_files p st (f x)) \<Longrightarrow> keeps_files p st (dw_bind m f)"
  unfolding keeps_files_def by (rule spec_skip)

lemma keeps_bind_prod:
  "(\<And>x y. m = DW_OK (x, y) \<Longrightarrow> keeps_files p st (f x y)) \<Longrightarrow> keeps_files p st (dw_bind m (\<lambda>(x, y). f x y))"
  unfolding keeps_files_def by (rule spec_skip_prod)

lemma read_keeps:
  "read_uword_de p st = DW_OK (v, st') \<Longrightarrow> ls_files st' = ls_files st"
  "read_sword_de p st = DW_OK (w, st') \<Longrightarrow> ls_files st' = ls_files st"
  by (auto simp: read_uword_de_def read_sword_de_def dw_bind_OK_iff)

lemma keeps_discard [op_keeps]: "keeps_files p st (op_discard p opcode st)"
proof -
  have "keeps_files p s (discard_operands n p st)" if "ls_files s = ls_files st" for n s
    using that
    by (induction n arbitrary: st) (auto intro!: keeps_bind_prod dest: read_keeps)
  then show ?thesis by (auto simp: op_discard_def intro!: keeps_bind)
qed

lemma keeps_ops [op_keeps]:
  "keeps_files p st (op_special p opcode st)" "keeps_files p st (op_copy p st)"
  "keeps_files p st (op_advance_pc p st)" "keeps_files p st (op_advance_line p st)"
  "keeps_files p st (op_set_file p st)" "keeps_files p st (op_set_column p st)"
  "keeps_files p st (op_negate_stmt st)" "keeps_files p st (op_set_basic_block st)"
  "keeps_files p st (op_const_add_pc p st)" "keeps_files p st (op_fixed_advance_pc p st)"
  "keeps_files p st (op_set_prologue_end st)" "keeps_files p st (op_set_epilogue_begin st)"
  "keeps_files p st (op_set_isa p st)" "keeps_files p st (op_set_address_from_logical p st)"
  "keeps_files p st (op_set_subprogram p st)" "keeps_files p st (op_inlined_call p st)"
  "keeps_files p st (op_pop_context st)" "keeps_files p st (op_end_sequence p st)"
  "keeps_files p st (op_set_address p st)" "keeps_files p st (op_set_discriminator p st)"
  "keeps_files p st (op_unknown_extended p n st)"
  by (auto simp: op_special_def op_copy_def op_advance_pc_def op_advance_line_def op_set_file_def
      op_set_column_def op_negate_stmt_def op_set_basic_block_def op_const_add_pc_def
      op_fixed_advance_pc_def op_set_prologue_end_def op_set_epilogue_begin_def op_set_isa_def
      op_set_address_from_logical_def op_set_subprogram_def op_inlined_call_def op_pop_context_def
      op_end_sequence_def op_set_address_def op_set_discriminator_def op_unknown_extended_def
      check_line_number_def Let_def intro!: keeps_bind dest!: read_keeps split: if_splits)

lemma keeps_define_file [op_keeps]: "keeps_files p st (op_define_file p st)"
  by (auto simp: op_define_file_def Let_def keeps_files_def intro!: spec_skip dest!: read_keeps)

lemma keeps_files_if: "keeps_files p st m \<Longrightarrow> keeps_files p st n \<Longrightarrow> keeps_files p st (if b then m else n)"
  by simp

lemma keeps_standard_op [op_keeps]: "keeps_files p st (standard_op p opcode st)"
  unfolding standard_op_def by (intro keeps_files_if op_keeps) simp

lemma keeps_ptr [simp]: "keeps_files p (st\<lparr>ls_ptr := q\<rparr>) m = keeps_files p st m"
  by (simp add: keeps_files_def)

lemmas moved_keeps = op_keeps [where st = "st\<lparr>ls_ptr := q\<rparr>" for st q, unfolded keeps_ptr]

lemma keeps_extended_op: "keeps_files p st (extended_op p st)"
proof -
  have same: "keeps_files p st m" if "keeps_files p s m" "ls_files s = ls_files st" for s m
    using that by (simp add: keeps_files_def)
  show ?thesis unfolding extended_op_def Let_def
    apply (auto intro!: keeps_bind dest!: read_keeps)
    by (rule same, rule moved_keeps, assumption)+
qed

lemma keeps_line_step: "keeps_files p st (line_step p st)"
  unfolding line_step_def Let_def
  by (rule keeps_bind)
     (auto split: lop.splits intro: moved_keeps
       keeps_extended_op [where st = "st\<lparr>ls_ptr := q\<rparr>" for q, unfolded keeps_ptr])

lemma line_reaches_files:
  "line_reaches p st st' \<Longrightarrow> files_ok (lc_version_number (lp_context p)) (ls_files st) \<Longrightarrow>
   files_ok (lc_version_number (lp_context p)) (ls_files st') \<and>
   length (lc_file_entries (ls_files st')) + ls_ptr st \<le> length (lc_file_entries (ls_files st)) + ls_ptr st'"
proof (induction rule: line_reaches.induct)
  case (go st st' st'')
  let ?v = "lc_version_number (lp_context p)"
  have "ls_files st' = ls_files st \<or> (\<exists>fe. ls_files st' = add_to_files_list ?v fe (ls_files st))"
    using spec_result [OF keeps_line_step [unfolded keeps_files_def] go(2)] .
  then have "files_ok ?v (ls_files st') \<and>
      length (lc_file_entries (ls_files st')) \<le> length (lc_file_entries (ls_files st)) + 1"
    using files_ok_add [OF go.prems] go.prems by auto
  then show ?case using go.IH line_step_advances [OF go(2,1)] by auto
qed simp

text \<open>What a program leaves behind, in terms of the state its loop ends in.\<close>

lemma line_loop_result:
  assumes "params_ok p" "files_ok (lc_version_number (lp_context p)) (lc_files (lp_context p))"
  shows "spec True (\<lambda>st. (\<forall>l \<in> set (ls_chain st). row_ok l) \<and> length (ls_chain st) \<le> lp_end p \<and>
      files_ok (lc_version_number (lp_context p)) (ls_files st) \<and>
      length (lc_file_entries (ls_files st)) \<le> length (lc_file_entries (lc_files (lp_context p))) + lp_end p)
    (line_loop p (init_line_state p q))"
proof (cases "line_loop p (init_line_state p q)")
  case (DW_OK st)
  let ?i = "init_line_state p q"
  have r: "line_reaches p ?i st" and e: "\<not> ls_ptr st < lp_end p"
    using line_loop_reaches [OF DW_OK] by auto
  have i: "ls_ptr ?i = q" "ls_chain ?i = []" "ls_files ?i = lc_files (lp_context p)"
    by (simp_all add: init_line_state_def)
  have m: "ls_ptr st - q \<le> lp_end p"
  proof (cases "q \<le> lp_end p")
    case True
    then show ?thesis using line_reaches_inside [OF r] by (simp add: i)
  next
    case False
    then have "line_loop p ?i = DW_OK ?i" by (subst line_loop.simps) (simp add: i)
    then show ?thesis using DW_OK i by simp
  qed
  have "length (ls_chain st) \<le> lp_end p"
    using line_reaches_bound [OF r rows_inv_init] m by (simp add: i)
  moreover have "files_ok (lc_version_number (lp_context p)) (ls_files st)"
    "length (lc_file_entries (ls_files st)) \<le> length (lc_file_entries (lc_files (lp_context p))) + lp_end p"
    using line_reaches_files [OF r] assms(2) m by (auto simp: i)
  moreover have "\<forall>l \<in> set (ls_chain st). row_ok l"
    using line_reaches_rows [OF r rows_inv_init] by (simp add: rows_inv_def)
  ultimately show ?thesis using DW_OK by simp
qed (use line_loop_no_fault [OF assms(1)] in \<open>simp_all add: spec_def\<close>)


section \<open>Well formed contexts\<close>

text \<open>
  Counts that agree with the lists, at most \<open>c * n\<close> files, and rows that are well formed; \<open>n\<close> is the size of the section.
\<close>

definition context_wf :: "nat \<Rightarrow> nat \<Rightarrow> line_context \<Rightarrow> bool" where
  "context_wf c n ctx \<longleftrightarrow>
     lc_include_directories_count ctx = word_of_nat (length (lc_include_directories ctx)) \<and>
     length (lc_include_directories ctx) \<le> n \<and>
     lc_subprogs_count ctx = word_of_nat (length (lc_subprogs ctx)) \<and> length (lc_subprogs ctx) \<le> n \<and>
     files_ok (lc_version_number ctx) (lc_files ctx) \<and>
     length (lc_file_entries (lc_files ctx)) \<le> c * n \<and>
     lc_linecount_logicals ctx = length (lc_linebuf_logicals ctx) \<and> length (lc_linebuf_logicals ctx) \<le> n \<and>
     lc_linecount_actuals ctx = length (lc_linebuf_actuals ctx) \<and> length (lc_linebuf_actuals ctx) \<le> n \<and>
     (\<forall>l \<in> set (lc_linebuf_logicals ctx) \<union> set (lc_linebuf_actuals ctx). row_ok l)"

lemma lists_ok_wf: "lists_ok c n ctx \<Longrightarrow> context_wf c n ctx"
  by (simp add: lists_ok_def context_wf_def)

lemma context_wf_more: "context_wf c n ctx \<Longrightarrow> c \<le> d \<Longrightarrow> context_wf d n ctx"
  by (auto simp: context_wf_def elim: order_trans)

text \<open>The parameters a program leaves alone.\<close>

definition same_parameters :: "line_context \<Rightarrow> line_context \<Rightarrow> bool" where
  "same_parameters ctx ctx' \<longleftrightarrow> lc_line_ptr_end ctx' = lc_line_ptr_end ctx \<and>
     lc_line_range ctx' = lc_line_range ctx \<and> lc_opcode_base ctx' = lc_opcode_base ctx \<and>
     lc_std_op_count ctx' = lc_std_op_count ctx \<and> lc_version_number ctx' = lc_version_number ctx"

lemma program_wf:
  assumes "params_ok p" "context_wf c n (lp_context p)" "lp_end p \<le> n"
  shows "spec True (\<lambda>ctx. context_wf (c + 1) n ctx \<and> same_parameters (lp_context p) ctx)
    (read_line_table_program p q)"
proof -
  have f: "files_ok (lc_version_number (lp_context p)) (lc_files (lp_context p))"
    using assms(2) by (simp add: context_wf_def)
  show ?thesis
    unfolding read_line_table_program_def
    by (rule spec_bind [OF line_loop_result [OF assms(1) f]])
       (use assms(2,3) in \<open>auto simp: Let_def context_wf_def same_parameters_def\<close>)
qed

lemma program_params_ok:
  assumes "in_bounds dbg" "unat a \<le> 8" "e \<le> length (de_debug_line dbg)" "lc_line_range ctx \<noteq> 0"
    "lc_std_op_count ctx = lc_opcode_base ctx - 1" "context_wf c n ctx"
  shows "params_ok (program_params dbg a doaddrs dolines ctx e single actuals)"
proof -
  have "unat (b :: u8) \<le> unat (b - 1) + 1" for b
    by (cases "b = 0") (simp_all add: unat_minus_one)
  moreover have "unat (ucast a :: u16) = unat a"
    by (simp add: unsigned_ucast_eq take_bit_nat_eq_self_iff less_trans [OF u8_bound])
  ultimately show ?thesis
    using assms by (auto simp: params_ok_def program_params_def context_wf_def)
qed

lemma spec_check_line_count: "spec G (\<lambda>_. True) (check_line_count n)"
  by (simp add: check_line_count_def)

lemma spec_conj: "spec G P m \<Longrightarrow> spec False Q m \<Longrightarrow> spec G (\<lambda>x. P x \<and> Q x) m"
  by (auto simp: spec_def)

lemma spec_read_line_programs:
  assumes "in_bounds dbg" "unat a \<le> 8" "header_inv (de_debug_line dbg) ctx q"
    and "lists_ok 2 (length (de_debug_line dbg)) ctx"
  shows "spec True (\<lambda>r. case r of None \<Rightarrow> \<not> is_new | Some ctx \<Rightarrow> context_wf 4 (length (de_debug_line dbg)) ctx)
    (read_line_programs dbg a is_new doaddrs dolines ctx q)"
proof -
  let ?n = "length (de_debug_line dbg)"
  have wf: "context_wf 2 ?n ctx" using assms(4) by (rule lists_ok_wf)
  have more: "context_wf 4 ?n x" if "context_wf 3 ?n x" for x
    using context_wf_more [OF that, of 4] by simp
  have first: "spec True (\<lambda>ctx'. context_wf 3 ?n ctx' \<and> same_parameters ctx ctx')
      (read_line_table_program (program_params dbg a doaddrs dolines ctx e single False) q)"
    if "e \<le> ?n" for e single
  proof -
    have ok: "params_ok (program_params dbg a doaddrs dolines ctx e single False)"
      by (rule program_params_ok [OF assms(1,2) that _ _ wf]) (use assms(3) in \<open>simp_all add: header_inv_def\<close>)
    show ?thesis using program_wf [OF ok, of 2 ?n q] wf that by (simp add: program_params_def numeral_3_eq_3)
  qed
  have second: "spec True (\<lambda>ctx''. context_wf 4 ?n ctx'')
      (read_line_table_program (program_params dbg a doaddrs dolines ctx' (lc_line_ptr_end ctx') False True) q')"
    if "context_wf 3 ?n ctx' \<and> same_parameters ctx ctx'" for ctx' q'
  proof -
    have e: "lc_line_ptr_end ctx' \<le> ?n" using that assms(3) by (simp add: header_inv_def same_parameters_def)
    have ok: "params_ok (program_params dbg a doaddrs dolines ctx' (lc_line_ptr_end ctx') False True)"
      by (rule program_params_ok [OF assms(1,2) e _ _ that [THEN conjunct1]])
         (use that assms(3) in \<open>simp_all add: header_inv_def same_parameters_def\<close>)
    show ?thesis using program_wf [OF ok, of 3 ?n q'] that e
      by (auto simp: program_params_def elim!: spec_mono)
  qed
  have "lc_line_ptr_end ctx \<le> ?n" "lc_line_prologue_start ctx + unat (lc_actuals_table_offset ctx) \<le> ?n"
    using assms(3) by (simp_all add: header_inv_def)
  then show ?thesis unfolding read_line_programs_def Let_def
    by (auto intro!: spec_bind [OF first] spec_bind [OF second] spec_bind [OF spec_check_line_count]
        simp: srclines_result_def more)
qed

lemma spec_internal_srclines:
  assumes "in_bounds dbg" "unat a \<le> 8" "length (de_debug_line dbg) < 2 ^ 60"
  shows "spec True (\<lambda>r. case r of None \<Rightarrow> \<not> is_new | Some ctx \<Rightarrow> context_wf 4 (length (de_debug_line dbg)) ctx)
    (internal_srclines dbg a g line_offset fission_offset is_new doaddrs dolines)"
proof -
  let ?buf = "de_debug_line dbg"
  have "spec True (\<lambda>(ctx, q). header_inv ?buf ctx q \<and> lists_ok 2 (length ?buf) ctx)
      (read_line_table_header dbg a g ?buf s new_line_context)" for s
    by (rule spec_mono [OF spec_conj [OF spec_read_line_table_header [OF assms(1)]
          lists_read_line_table_header [OF assms(3)]]]) auto
  then show ?thesis unfolding internal_srclines_def Let_def
    by (auto intro!: spec_bind_prod [where P = "\<lambda>ctx q. header_inv ?buf ctx q \<and> lists_ok 2 (length ?buf) ctx"]
        spec_read_line_programs [OF assms(1,2)])
qed

section \<open>Lookups in a context\<close>

lemma walk_files_eq:
  "k < length fs \<Longrightarrow> walk_files k fs = DW_OK (drop k fs)"
  by (induction k fs rule: walk_files.induct) auto


lemma unat_word_of_nat64: "k < 2 ^ 64 \<Longrightarrow> unat (word_of_nat k :: u64) = k"
  by (simp add: unsigned_of_nat take_bit_nat_eq_self_iff)

text \<open>
  The first and the past-the-end index of the files: the indexes of a list that is not empty start at 0 in
  version 5 and at 1 before.
\<close>

definition first_file_index :: "line_context \<Rightarrow> nat" where
  "first_file_index ctx = (if lc_version_number ctx = 5 \<or> lc_file_entries (lc_files ctx) = [] then 0 else 1)"

lemma files_indexes_wf:
  assumes "context_wf 4 n ctx" "n < 2 ^ 60"
  defines "k \<equiv> length (lc_file_entries (lc_files ctx))"
  shows "\<exists>bi fc ei. srclines_files_indexes ctx = DW_OK (bi, fc, ei) \<and> sint bi = int (first_file_index ctx) \<and>
    sint fc = int k \<and> sint ei = int (first_file_index ctx + k)"
proof -
  have k: "k < 2 ^ 63 - 1" using assms by (simp add: context_wf_def)
  let ?b = "first_file_index ctx"
  have b: "?b \<le> 1" by (simp add: first_file_index_def)
  have f: "lc_file_entry_baseindex (lc_files ctx) = word_of_nat ?b"
    "lc_file_entry_count (lc_files ctx) = word_of_nat k"
    "lc_file_entry_endindex (lc_files ctx) = word_of_nat (?b + k)"
    using assms by (simp_all add: context_wf_def files_ok_def first_file_index_def k_def)
  have "sint (word_of_nat ?b :: s64) = int ?b" "sint (word_of_nat k :: s64) = int k"
    "sint (word_of_nat (?b + k) :: s64) = int (?b + k)"
    using k b by (intro sint_of_small_nat; simp)+
  then show ?thesis by (simp add: srclines_files_indexes_def f Let_def)
qed

lemma files_data_wf:
  assumes "context_wf 4 n ctx" "n < 2 ^ 60"
  defines "b \<equiv> first_file_index ctx"
  shows "srclines_files_data_b ctx i =
    (if sint i < 0 then DW_ERROR DW_DLE_LINE_INDEX_WRONG
     else if unat i < b \<or> b + length (lc_file_entries (lc_files ctx)) \<le> unat i
     then DW_ERROR DW_DLE_LINE_CONTEXT_INDEX_WRONG
     else let fi = lc_file_entries (lc_files ctx) ! (unat i - b) in
       DW_OK (fi_file_name fi, fi_dir_index fi, fi_time_last_mod fi, fi_file_length fi,
         if fi_md5_present fi then Some (fi_md5_value fi) else None))"
proof (cases "sint i < 0")
  case False
  let ?fs = "lc_file_entries (lc_files ctx)"
  obtain bi fc ei where r: "srclines_files_indexes ctx = DW_OK (bi, fc, ei)" "sint bi = int b"
    "sint ei = int (b + length ?fs)"
    using files_indexes_wf [OF assms(1,2)] by (auto simp: b_def)
  have i: "sint i = int (unat i)" using False by (intro sint_nonneg_unat) simp
  show ?thesis
  proof (cases "unat i < b \<or> b + length ?fs \<le> unat i")
    case True
    then show ?thesis using False r i by (auto simp: srclines_files_data_b_def)
  next
    case inside: False
    then have k: "unat i - b < length ?fs" by auto
    have "nat (sint i - int b) = unat i - b" using i by simp
    then have "walk_files (nat (sint i - sint bi)) ?fs = DW_OK (?fs ! (unat i - b) # drop (Suc (unat i - b)) ?fs)"
      using k r(2) by (simp add: walk_files_eq Cons_nth_drop_Suc)
    then show ?thesis using False inside r i by (simp add: srclines_files_data_b_def Let_def)
  qed
qed (simp add: srclines_files_data_b_def)

lemma include_dir_wf:
  assumes "context_wf 4 n ctx" "n < 2 ^ 60"
  defines "b \<equiv> (if lc_version_number ctx = 5 then 0 else 1)"
  shows "srclines_include_dir_data ctx i =
    (if sint i < 0 then DW_ERROR DW_DLE_LINE_INDEX_WRONG
     else if unat i < b \<or> b + length (lc_include_directories ctx) \<le> unat i
     then DW_ERROR DW_DLE_LINE_CONTEXT_INDEX_WRONG
     else DW_OK (lc_include_directories ctx ! (unat i - b)))"
proof -
  have "unat (lc_include_directories_count ctx) = length (lc_include_directories ctx)"
    using assms by (simp add: context_wf_def unat_word_of_nat64)
  moreover have "unat (i - 1) = unat i - 1" if "1 \<le> unat i"
    using that by (metis unat_minus_one unat_eq_zero not_one_le_zero)
  ultimately show ?thesis
    by (auto simp: srclines_include_dir_data_def Let_def b_def word_le_nat_alt word_less_nat_alt)
qed

end
