(* ===== verification/Encoding.thy ===== *)
theory Encoding
  imports LineHeader
begin

text \<open>
  Encodings of numbers and strings, as an assembler writes them, and what the readers make of them at the place where they
  stand in a section. They serve the specifications of the components.
\<close>

section \<open>Numbers\<close>

fun le_bytes :: "nat \<Rightarrow> nat \<Rightarrow> bytes" where
  "le_bytes 0 v = []"
| "le_bytes (Suc n) v = word_of_nat v # le_bytes n (v div 256)"

definition fixed_bytes :: "dwarf_debug \<Rightarrow> nat \<Rightarrow> nat \<Rightarrow> bytes" where
  "fixed_bytes dbg n v =
     (case de_copy_word dbg of memcpy_noswap_bytes \<Rightarrow> le_bytes n v | memcpy_swap_bytes \<Rightarrow> rev (le_bytes n v))"

lemma length_le_bytes [simp]: "length (le_bytes n v) = n"
  by (induction n arbitrary: v) simp_all

lemma length_fixed_bytes [simp]: "length (fixed_bytes dbg n v) = n"
  by (simp add: fixed_bytes_def split: copy_word.splits)

lemma le_nat_le_bytes: "v < 256 ^ n \<Longrightarrow> le_nat (le_bytes n v) = v"
proof (induction n arbitrary: v)
  case (Suc n)
  then have "v div 256 < 256 ^ n" by (simp add: less_mult_imp_div_less mult.commute)
  then show ?case using Suc.IH [of "v div 256"] by (simp add: unsigned_of_nat take_bit_eq_mod)
qed simp

lemma number_of_fixed_bytes: "v < 256 ^ n \<Longrightarrow> number_of_bytes dbg (fixed_bytes dbg n v) = v"
  by (simp add: number_of_bytes_def fixed_bytes_def le_nat_le_bytes split: copy_word.splits)

lemma fixed_encoded:
  assumes "n \<le> 8" "length pre + n \<le> e" "e \<le> length (pre @ fixed_bytes dbg n v @ post)" "v < 256 ^ n"
  shows "read_unaligned_ck dbg (pre @ fixed_bytes dbg n v @ post) (length pre) n e = DW_OK (word_of_nat v)"
proof -
  have "seg (pre @ fixed_bytes dbg n v @ post) (length pre) (length pre + n) = fixed_bytes dbg n v"
    using seg_append [of pre "fixed_bytes dbg n v" post] by simp
  then show ?thesis using assms by (simp add: read_unaligned_ck_eq number_of_fixed_bytes)
qed

lemma uword_encoded:
  assumes "length pre + length (uleb_encode n) \<le> e" "e \<le> length (pre @ uleb_encode n @ post)" "n < 2 ^ 64"
  shows "leb128_uword_wrapper (pre @ uleb_encode n @ post) (length pre) e =
    DW_OK (word_of_nat n, length pre + length (uleb_encode n))"
proof -
  have u: "unat (word_of_nat n :: u64) = n" using assms(3) by (simp add: unsigned_of_nat take_bit_nat_eq_self_iff)
  have "encode_leb128 (word_of_nat n) 10 = Some (uleb_encode n)"
    using uleb_encode_u64 [of "word_of_nat n"] by (simp add: encode_leb128_eq u)
  from decode_encode_leb128 [OF this assms(1,2)] show ?thesis
    by (simp add: leb128_uword_wrapper_def decode_leb128_uword_len_ck_def)
qed

lemma sword_encoded:
  assumes "length pre + length (sleb_encode i) \<le> e" "e \<le> length (pre @ sleb_encode i @ post)"
    and "- (2 ^ 63) \<le> i" "i < 2 ^ 63"
  shows "leb128_sword_wrapper (pre @ sleb_encode i @ post) (length pre) e =
    DW_OK (word_of_int i, length pre + length (sleb_encode i))"
proof -
  have u: "sint (word_of_int i :: s64) = i"
    using assms(3,4) by (simp add: signed_of_int signed_take_bit_int_eq_self)
  have "encode_signed_leb128 (word_of_int i) 10 = Some (sleb_encode i)"
    using sleb_encode_s64 [of "word_of_int i"] by (simp add: encode_signed_leb128_eq u)
  from decode_encode_signed_leb128 [OF this assms(1,2)] show ?thesis
    by (simp add: leb128_sword_wrapper_def decode_leb128_sword_len_ck_def)
qed

lemma uleb_encode_not_Nil [simp]: "uleb_encode n \<noteq> []"
  by (subst uleb_encode.simps) simp

section \<open>Strings\<close>

text \<open>The string that starts at an offset of the section.\<close>

fun string_at :: "bytes \<Rightarrow> section_string \<Rightarrow> bytes option" where
  "string_at buf (Debug_Line p) = Some (takeWhile (\<lambda>b. b \<noteq> 0) (drop p buf))"
| "string_at buf _ = None"

definition encode_string :: "bytes \<Rightarrow> bytes" where
  "encode_string s = s @ [0]"

lemma length_encode_string [simp]: "length (encode_string s) = length s + 1"
  by (simp add: encode_string_def)

lemma string_at_encoded: "0 \<notin> set s \<Longrightarrow> string_at (pre @ encode_string s @ post) (Debug_Line (length pre)) = Some s"
  by (simp add: encode_string_def) (metis (mono_tags, lifting) append_Nil2 takeWhile.simps(2) takeWhile_append2)

lemma strlen_encoded:
  "0 \<notin> set s \<Longrightarrow> strlen (pre @ encode_string s @ post) (length pre) = DW_OK (length s)"
proof (induction s arbitrary: pre)
  case (Cons b s)
  then show ?case using Cons.IH [of "pre @ [b]"]
    by (subst strlen.simps) (simp add: encode_string_def)
qed (subst strlen.simps, simp add: encode_string_def)

lemma check_string_encoded:
  "0 \<notin> set s \<Longrightarrow> length pre + length s < e \<Longrightarrow>
   check_string_loop (pre @ encode_string s @ post) (length pre) e = DW_OK ()"
proof (induction s arbitrary: pre)
  case (Cons b s)
  then show ?case using Cons.IH [of "pre @ [b]"]
    by (subst check_string_loop.simps) (simp add: encode_string_def)
qed (subst check_string_loop.simps, simp add: encode_string_def)

lemma check_string_valid_encoded:
  "0 \<notin> set s \<Longrightarrow> length pre + length s < e \<Longrightarrow> start \<le> length pre \<Longrightarrow>
   check_string_valid dbg (pre @ encode_string s @ post) start (length pre) e err = DW_OK ()"
  by (simp add: check_string_valid_def check_string_encoded)


section \<open>Bytes at a place\<close>

definition holds_at :: "bytes \<Rightarrow> ptr \<Rightarrow> bytes \<Rightarrow> bool" where
  "holds_at buf p xs \<longleftrightarrow> p + length xs \<le> length buf \<and> take (length xs) (drop p buf) = xs"

lemma holds_atD: "holds_at buf p xs \<Longrightarrow> \<exists>pre post. buf = pre @ xs @ post \<and> length pre = p"
  by (rule exI [of _ "take p buf"], rule exI [of _ "drop (p + length xs) buf"])
     (simp add: holds_at_def, metis add.commute append_take_drop_id drop_drop)

lemma holds_atI: "holds_at (pre @ xs @ post) (length pre) xs"
  by (simp add: holds_at_def)

lemma holds_at_Nil [simp]: "holds_at buf p [] = (p \<le> length buf)"
  by (simp add: holds_at_def)

lemma holds_at_append [simp]:
  "holds_at buf p (xs @ ys) \<longleftrightarrow> holds_at buf p xs \<and> holds_at buf (p + length xs) ys"
proof
  assume a: "holds_at buf p (xs @ ys)"
  then obtain pre post where b: "buf = pre @ xs @ ys @ post" "length pre = p"
    using holds_atD [OF a] by auto
  then show "holds_at buf p xs \<and> holds_at buf (p + length xs) ys"
    using holds_atI [of pre xs "ys @ post"] holds_atI [of "pre @ xs" ys post] by simp
next
  assume a: "holds_at buf p xs \<and> holds_at buf (p + length xs) ys"
  then obtain pre post where b: "buf = pre @ xs @ post" "length pre = p"
    using holds_atD by blast
  then show "holds_at buf p (xs @ ys)"
    using a by (simp add: holds_at_def)
qed

lemma holds_at_Cons:
  "holds_at buf p (x # xs) \<longleftrightarrow> p < length buf \<and> buf ! p = x \<and> holds_at buf (p + 1) xs"
proof -
  have "holds_at buf p [x] \<longleftrightarrow> p < length buf \<and> buf ! p = x"
    by (auto simp: holds_at_def take_Suc_conv_app_nth hd_drop_conv_nth take_Suc)
  then show ?thesis using holds_at_append [of buf p "[x]" xs] by simp
qed

lemma holds_at_end: "holds_at buf p xs \<Longrightarrow> p + length xs \<le> length buf"
  by (simp add: holds_at_def)

lemma read_fixed_at:
  assumes "holds_at buf p (fixed_bytes dbg n v)" "n \<le> 8" "p + n \<le> e" "e \<le> length buf" "v < 256 ^ n"
  shows "read_unaligned_ck dbg buf p n e = DW_OK (word_of_nat v)"
  using holds_atD [OF assms(1)] fixed_encoded [of n _ e dbg v] assms(2-5) by auto

lemma uword_at:
  assumes "holds_at buf p (uleb_encode n)" "p + length (uleb_encode n) \<le> e" "e \<le> length buf" "n < 2 ^ 64"
  shows "leb128_uword_wrapper buf p e = DW_OK (word_of_nat n, p + length (uleb_encode n))"
  using holds_atD [OF assms(1)] uword_encoded [of _ n e] assms(2-4) by auto

lemma string_at_at:
  assumes "holds_at buf p (encode_string s)" "0 \<notin> set s"
  shows "string_at buf (Debug_Line p) = Some s" "strlen buf p = DW_OK (length s)"
  using holds_atD [OF assms(1)] string_at_encoded [OF assms(2)] strlen_encoded [OF assms(2)] by auto

lemma check_string_at:
  assumes "holds_at buf p (encode_string s)" "0 \<notin> set s" "p + length s < e" "start \<le> p"
  shows "check_string_valid dbg buf start p e err = DW_OK ()"
  using holds_atD [OF assms(1)] check_string_valid_encoded [OF assms(2), of _ e start] assms(3,4) by auto

end
