(* ===== verification/LineMachine.thy ===== *)
theory LineMachine
  imports Lines Encoding
begin

text \<open>
  The line number machine of the DWARF standard as an abstract specification, the encoding of its programs, and the proof
  that \<open>read_line_table_program\<close> (theory \<open>Lines\<close>) refines it: each instruction is simulated by one step of the reader.
\<close>

section \<open>The line number machine of the DWARF standard\<close>

text \<open>
  The abstract program: instructions with unbounded operands, and the registers as integers. A step gives the
  new registers and the rows it adds; it has no result where a value does not fit libdwarf's types,
  where an opcode is not in the table of the header, and for \<open>DW_LNS_advance_pc\<close> on a machine with several
  operations an instruction.
\<close>

datatype line_op = Special u8 | Copy | Advance_PC nat | Advance_Line int | Set_File nat | Set_Column nat
  | Negate_Stmt | Set_Basic_Block | Const_Add_PC | Fixed_Advance_PC nat | Set_Prologue_End
  | Set_Epilogue_Begin | Set_ISA nat | End_Sequence | Set_Address nat | Set_Discriminator nat
  | Vendor_Extended u8 bytes

record line_row =
  row_address :: nat
  row_file :: nat
  row_line :: int
  row_column :: nat
  row_is_stmt :: bool
  row_basic_block :: bool
  row_end_sequence :: bool
  row_prologue_end :: bool
  row_epilogue_begin :: bool
  row_isa :: nat
  row_discriminator :: nat

record machine = line_row +
  row_op_index :: nat

definition machine_row :: "machine \<Rightarrow> line_row" where
  "machine_row m = line_row.truncate m"

definition init_machine :: "line_context \<Rightarrow> machine" where
  "init_machine ctx =
     \<lparr>row_address = 0, row_file = 1, row_line = 1, row_column = 0,
      row_is_stmt = (lc_default_is_stmt ctx \<noteq> 0), row_basic_block = False, row_end_sequence = False,
      row_prologue_end = False, row_epilogue_begin = False, row_isa = 0, row_discriminator = 0,
      row_op_index = 0\<rparr>"

definition advance_machine :: "line_context \<Rightarrow> nat \<Rightarrow> machine \<Rightarrow> machine" where
  "advance_machine ctx n m =
     (let mininst = unat (lc_minimum_instruction_length ctx);
          maxops = unat (lc_maximum_ops_per_instruction ctx)
      in if maxops < 2 then m\<lparr>row_address := row_address m + mininst * n\<rparr>
         else m\<lparr>row_address := row_address m + mininst * ((row_op_index m + n) div maxops),
                row_op_index := (row_op_index m + n) mod maxops\<rparr>)"

definition after_row :: "machine \<Rightarrow> machine" where
  "after_row m = m\<lparr>row_basic_block := False, row_prologue_end := False, row_epilogue_begin := False,
     row_discriminator := 0\<rparr>"

definition fits :: "machine \<Rightarrow> bool" where
  "fits m \<longleftrightarrow> row_address m < 2 ^ 64 \<and> 0 \<le> row_line m \<and> row_line m < 2 ^ 63 \<and> row_file m < 2 ^ 63 \<and>
     row_column m < 2 ^ 16 \<and> row_isa m < 2 ^ 16 \<and> row_discriminator m < 2 ^ 64"

definition step_to :: "bool \<Rightarrow> machine \<Rightarrow> (machine \<times> line_row list) option" where
  "step_to ok m = (if ok \<and> fits m then Some (m, []) else None)"

fun machine_step :: "line_params \<Rightarrow> line_op \<Rightarrow> machine \<Rightarrow> (machine \<times> line_row list) option" where
  "machine_step p (Special opcode) m =
     (let ctx = lp_context p; n = unat (opcode - lc_opcode_base ctx); range = unat (lc_line_range ctx);
          m = advance_machine ctx (n div range) m;
          m = m\<lparr>row_line := row_line m + sint (lc_line_base ctx) + int (n mod range)\<rparr>
      in if opcode \<ge> lc_opcode_base ctx \<and> fits m then Some (after_row m, [machine_row m]) else None)"
| "machine_step p Copy m =
     (if lc_opcode_base (lp_context p) > 1 then Some (after_row m, [machine_row m]) else None)"
| "machine_step p (Advance_PC n) m =
     step_to (lc_opcode_base (lp_context p) > 2 \<and> lc_maximum_ops_per_instruction (lp_context p) < 2 \<and>
         n < 2 ^ 64) (advance_machine (lp_context p) n m)"
| "machine_step p (Advance_Line i) m =
     step_to (lc_opcode_base (lp_context p) > 3 \<and> - (2 ^ 63) \<le> i \<and> i < 2 ^ 63)
       (m\<lparr>row_line := row_line m + i\<rparr>)"
| "machine_step p (Set_File n) m = step_to (lc_opcode_base (lp_context p) > 4) (m\<lparr>row_file := n\<rparr>)"
| "machine_step p (Set_Column n) m = step_to (lc_opcode_base (lp_context p) > 5) (m\<lparr>row_column := n\<rparr>)"
| "machine_step p Negate_Stmt m =
     step_to (lc_opcode_base (lp_context p) > 6) (m\<lparr>row_is_stmt := \<not> row_is_stmt m\<rparr>)"
| "machine_step p Set_Basic_Block m =
     step_to (lc_opcode_base (lp_context p) > 7) (m\<lparr>row_basic_block := True\<rparr>)"
| "machine_step p Const_Add_PC m =
     step_to (lc_opcode_base (lp_context p) > 8)
       (advance_machine (lp_context p)
         ((255 - unat (lc_opcode_base (lp_context p))) div unat (lc_line_range (lp_context p))) m)"
| "machine_step p (Fixed_Advance_PC n) m =
     step_to (lc_opcode_base (lp_context p) > 9 \<and> n < 2 ^ 16)
       (m\<lparr>row_address := row_address m + n, row_op_index := 0\<rparr>)"
| "machine_step p Set_Prologue_End m =
     step_to (lc_opcode_base (lp_context p) > 10) (m\<lparr>row_prologue_end := True\<rparr>)"
| "machine_step p Set_Epilogue_Begin m =
     step_to (lc_opcode_base (lp_context p) > 11) (m\<lparr>row_epilogue_begin := True\<rparr>)"
| "machine_step p (Set_ISA n) m = step_to (lc_opcode_base (lp_context p) > 12) (m\<lparr>row_isa := n\<rparr>)"
| "machine_step p End_Sequence m =
     (if lc_opcode_base (lp_context p) > 0
      then Some (init_machine (lp_context p), [machine_row (m\<lparr>row_end_sequence := True\<rparr>)]) else None)"
| "machine_step p (Set_Address n) m =
     step_to (lc_opcode_base (lp_context p) > 0 \<and> n < 256 ^ unat (lp_address_size p))
       (m\<lparr>row_address := n, row_op_index := 0\<rparr>)"
| "machine_step p (Set_Discriminator n) m =
     step_to (lc_opcode_base (lp_context p) > 0) (m\<lparr>row_discriminator := n\<rparr>)"
| "machine_step p (Vendor_Extended opcode operand) m =
     step_to (lc_opcode_base (lp_context p) > 0 \<and> opcode \<notin> {1, 2, 3, 4} \<and> length operand \<le> 100) m"

fun machine_run :: "line_params \<Rightarrow> line_op list \<Rightarrow> machine \<Rightarrow> line_row list option" where
  "machine_run p [] m = Some []"
| "machine_run p (op # ops) m =
     (case machine_step p op m of
        None \<Rightarrow> None
      | Some (m', rows) \<Rightarrow> map_option (\<lambda>rs. rows @ rs) (machine_run p ops m'))"

section \<open>Its encoding\<close>

fun assemble :: "line_params \<Rightarrow> line_op \<Rightarrow> bytes" where
  "assemble p (Special opcode) = [opcode]"
| "assemble p Copy = [0x01]"
| "assemble p (Advance_PC n) = 0x02 # uleb_encode n"
| "assemble p (Advance_Line i) = 0x03 # sleb_encode i"
| "assemble p (Set_File n) = 0x04 # uleb_encode n"
| "assemble p (Set_Column n) = 0x05 # uleb_encode n"
| "assemble p Negate_Stmt = [0x06]"
| "assemble p Set_Basic_Block = [0x07]"
| "assemble p Const_Add_PC = [0x08]"
| "assemble p (Fixed_Advance_PC n) = 0x09 # fixed_bytes (lp_dbg p) 2 n"
| "assemble p Set_Prologue_End = [0x0a]"
| "assemble p Set_Epilogue_Begin = [0x0b]"
| "assemble p (Set_ISA n) = 0x0c # uleb_encode n"
| "assemble p End_Sequence = [0x00, 0x01, 0x01]"
| "assemble p (Set_Address n) =
     0x00 # uleb_encode (unat (lp_address_size p) + 1) @ 0x02 #
       fixed_bytes (lp_dbg p) (unat (lp_address_size p)) n"
| "assemble p (Set_Discriminator n) = 0x00 # uleb_encode (length (uleb_encode n) + 1) @ 0x04 # uleb_encode n"
| "assemble p (Vendor_Extended opcode operand) =
     0x00 # uleb_encode (length operand + 1) @ opcode # operand"

section \<open>Reading what was encoded\<close>

lemma read_uleb:
  assumes "lp_buf p = pre @ uleb_encode n @ post" "ls_ptr st = length pre"
    and "length pre + length (uleb_encode n) \<le> lp_end p" "lp_end p \<le> length (lp_buf p)" "n < 2 ^ 64"
  shows "read_uword_de p st = DW_OK (word_of_nat n, st\<lparr>ls_ptr := length pre + length (uleb_encode n)\<rparr>)"
  using uword_encoded [OF assms(3) _ assms(5), of post] assms(1,2,4) by (simp add: read_uword_de_def)

lemma read_sleb:
  assumes "lp_buf p = pre @ sleb_encode i @ post" "ls_ptr st = length pre"
    and "length pre + length (sleb_encode i) \<le> lp_end p" "lp_end p \<le> length (lp_buf p)"
    and "- (2 ^ 63) \<le> i" "i < 2 ^ 63"
  shows "read_sword_de p st = DW_OK (word_of_int i, st\<lparr>ls_ptr := length pre + length (sleb_encode i)\<rparr>)"
  using sword_encoded [OF assms(3) _ assms(5,6), of post] assms(1,2,4) by (simp add: read_sword_de_def)

lemma read_fixed:
  assumes "lp_buf p = pre @ fixed_bytes (lp_dbg p) n v @ post" "n \<le> 8"
    and "length pre + n \<le> lp_end p" "lp_end p \<le> length (lp_buf p)" "v < 256 ^ n"
  shows "read_unaligned_ck (lp_dbg p) (lp_buf p) (length pre) n (lp_end p) = DW_OK (word_of_nat v)"
  using fixed_encoded [OF assms(2,3) _ assms(5)] assms(1,4) by simp

section \<open>The simulation\<close>

definition row_of_line :: "dwarf_line \<Rightarrow> line_row" where
  "row_of_line l =
     \<lparr>row_address = unat (li_address l), row_file = unat (li_file l), row_line = sint (li_line l),
      row_column = unat (li_column l), row_is_stmt = li_is_stmt l, row_basic_block = li_basic_block l,
      row_end_sequence = li_end_sequence l, row_prologue_end = li_prologue_end l,
      row_epilogue_begin = li_epilogue_begin l, row_isa = unat (li_isa l),
      row_discriminator = unat (li_discriminator l)\<rparr>"

definition simulates :: "line_registers \<Rightarrow> machine \<Rightarrow> bool" where
  "simulates r m \<longleftrightarrow> fits m \<and> \<not> row_end_sequence m \<and> row_op_index m < 256 \<and>
     lr_address r = word_of_nat (row_address m) \<and> lr_file r = word_of_nat (row_file m) \<and>
     lr_line r = word_of_int (row_line m) \<and> lr_column r = word_of_nat (row_column m) \<and>
     lr_is_stmt r = (if row_is_stmt m then 1 else 0) \<and> lr_basic_block r = row_basic_block m \<and>
     lr_end_sequence r = row_end_sequence m \<and> lr_prologue_end r = row_prologue_end m \<and>
     lr_epilogue_begin r = row_epilogue_begin m \<and> lr_isa r = word_of_nat (row_isa m) \<and>
     lr_op_index r = word_of_nat (row_op_index m) \<and>
     lr_discriminator r = word_of_nat (row_discriminator m)"

lemma ucast_nat: "(ucast (b :: u8) :: u64) = word_of_nat (unat b)"
  by (simp add: of_nat_unat)

lemma unat_of_small: "n < 2 ^ 64 \<Longrightarrow> unat (word_of_nat n :: u64) = n"
  by (simp add: unsigned_of_nat take_bit_nat_eq_self_iff)

lemma word_of_nat_div_mod:
  assumes "a < 2 ^ 64" "b < 2 ^ 64"
  shows "(word_of_nat a :: u64) div word_of_nat b = word_of_nat (a div b)"
    "(word_of_nat a :: u64) mod word_of_nat b = word_of_nat (a mod b)"
proof -
  have "a div b < 2 ^ 64" "a mod b < 2 ^ 64"
    using assms(1) div_le_dividend [of a b] mod_less_eq_dividend [of a b] by linarith+
  then show "(word_of_nat a :: u64) div word_of_nat b = word_of_nat (a div b)"
    "(word_of_nat a :: u64) mod word_of_nat b = word_of_nat (a mod b)"
    using assms
    by (simp_all add: word_unat_eq_iff unat_div_distrib unat_mod_distrib unat_of_small del: word_of_nat_eq_iff)
qed

lemma simulates_advance:
  assumes "simulates r m" "fits (advance_machine ctx n m)" "n < 256"
  shows "simulates (advance_operations ctx (word_of_nat n) r) (advance_machine ctx n m)"
proof (cases "lc_maximum_ops_per_instruction ctx < 2")
  case True
  then have "unat (lc_maximum_ops_per_instruction ctx) < 2" by (simp add: word_less_nat_alt)
  then show ?thesis using True assms
    by (simp add: simulates_def advance_operations_def advance_machine_def Let_def ucast_nat fits_def
        mult.commute)
next
  case False
  let ?k = "unat (lc_maximum_ops_per_instruction ctx)"
  have k: "\<not> ?k < 2" "?k < 256" using False by (simp_all add: word_less_nat_alt)
  have "(row_op_index m + n) mod ?k < ?k" using k(1) by (intro mod_less_divisor) simp
  then have i: "row_op_index m < 256" "(row_op_index m + n) mod ?k < 256"
    using assms(1) k(2) by (simp_all add: simulates_def del: u8_bound)
  have "(word_of_nat (row_op_index m) + word_of_nat n :: u64) = word_of_nat (row_op_index m + n)" by simp
  moreover have "row_op_index m + n < 2 ^ 64" "?k < 2 ^ 64" using i(1) assms(3) less_trans [OF k(2), of "2 ^ 64"] by simp_all
  ultimately have "(word_of_nat (row_op_index m) + word_of_nat n :: u64) div word_of_nat ?k =
      word_of_nat ((row_op_index m + n) div ?k)"
    "(word_of_nat (row_op_index m) + word_of_nat n :: u64) mod word_of_nat ?k =
      word_of_nat ((row_op_index m + n) mod ?k)"
    using word_of_nat_div_mod by (metis, metis)
  then show ?thesis using False k i assms
    by (simp add: simulates_def advance_operations_def advance_machine_def Let_def ucast_nat fits_def)
qed

lemma row_of_line_eq:
  assumes "simulates r m"
  shows "row_of_line (line_of_regs p (r\<lparr>lr_end_sequence := e\<rparr>) b) =
    machine_row (m\<lparr>row_end_sequence := e\<rparr>)"
proof -
  have f: "fits m" using assms by (simp add: simulates_def)
  have "unat (ucast (word_of_nat (row_column m) :: u64) :: u16) = row_column m"
    using f by (simp add: fits_def unsigned_ucast_eq unsigned_of_nat take_bit_nat_eq_self_iff)
  moreover have "unat (word_of_nat (row_isa m) :: u16) = row_isa m"
    using f by (simp add: fits_def unsigned_of_nat take_bit_nat_eq_self_iff)
  moreover have "bit (if row_is_stmt m then 1 else 0 :: u32) 0 = row_is_stmt m" by simp
  ultimately show ?thesis using assms f
    by (cases m) (simp add: simulates_def row_of_line_def line_of_regs_def machine_row_def
        line_row.truncate_def fits_def unat_of_small sint_of_small)
qed

lemma row_of_line_eq':
  assumes "simulates r m"
  shows "row_of_line (line_of_regs p r b) = machine_row m"
proof -
  have "r\<lparr>lr_end_sequence := False\<rparr> = r" "m\<lparr>row_end_sequence := False\<rparr> = m"
    using assms by (simp_all add: simulates_def)
  then show ?thesis using row_of_line_eq [OF assms, of p False b] by simp
qed

lemma simulates_after_row: "simulates r m \<Longrightarrow> simulates (clear_row_flags r) (after_row m)"
  by (simp add: simulates_def clear_row_flags_def after_row_def fits_def)

lemma simulates_init:
  assumes "lc_default_is_stmt ctx \<in> {0, 1}"
  shows "simulates (set_line_table_regs_default_values v (lc_default_is_stmt ctx)) (init_machine ctx)"
  using assms
  by (auto simp: simulates_def set_line_table_regs_default_values_def Let_def init_machine_def fits_def)

text \<open>The state after an instruction whose bytes end at \<open>q\<close>.\<close>

definition sim_result ::
  "ptr \<Rightarrow> line_state \<Rightarrow> machine \<times> line_row list \<Rightarrow> line_state dw \<Rightarrow> bool"
where
  "sim_result q st mr res \<longleftrightarrow> (\<exists>st' ls. res = DW_OK st' \<and> ls_ptr st' = q \<and> simulates (ls_regs st') (fst mr) \<and>
     ls_chain st' = ls_chain st @ ls \<and> map row_of_line ls = snd mr \<and> ls_files st' = ls_files st)"

definition rows_params :: "line_params \<Rightarrow> bool" where
  "rows_params p \<longleftrightarrow> params_ok p \<and> lp_dolines p \<and> \<not> lp_doaddrs p \<and>
     lc_default_is_stmt (lp_context p) \<in> {0, 1}"

lemma sim_row:
  assumes "rows_params p" "simulates (ls_regs s) m" "ls_chain s = ls_chain st" "ls_files s = ls_files st"
    "ls_ptr s = q"
  shows "sim_result q st (after_row m, [machine_row m])
    (DW_OK (upd_regs clear_row_flags (append_line p s)))"
proof -
  have "ls_chain (append_line p s) = ls_chain st @ [line_of_regs p (ls_regs s) (ls_is_addr_set s)]"
    using assms by (simp add: append_line_def rows_params_def)
  then show ?thesis
    using assms simulates_after_row [OF assms(2)] row_of_line_eq' [OF assms(2)]
    by (simp add: sim_result_def)
qed

lemma sim_quiet:
  assumes "simulates (ls_regs s) m" "ls_chain s = ls_chain st" "ls_files s = ls_files st" "ls_ptr s = q"
  shows "sim_result q st (m, []) (DW_OK s)"
  using assms by (simp add: sim_result_def)

lemma line_step_standard:
  assumes "params_ok p" "ls_ptr st < length (lp_buf p)" "lp_buf p ! ls_ptr st = k"
    "0 < k" "k < lc_opcode_base (lp_context p)"
  shows "line_step p st = standard_op p k (st\<lparr>ls_ptr := ls_ptr st + 1\<rparr>)"
  using assms by (auto simp: line_step_def Let_def what_is_opcode_def params_ok_def)

lemma line_step_special:
  assumes "ls_ptr st < length (lp_buf p)" "lp_buf p ! ls_ptr st = k" "lc_opcode_base (lp_context p) \<le> k"
  shows "line_step p st = op_special p k (st\<lparr>ls_ptr := ls_ptr st + 1\<rparr>)"
  using assms by (auto simp: line_step_def Let_def what_is_opcode_def)

lemma line_step_extended:
  assumes "lp_buf p = pre @ 0 # uleb_encode n @ b # post" "ls_ptr st = length pre"
    and "length pre + length (uleb_encode n) + 2 \<le> lp_end p" "lp_end p \<le> length (lp_buf p)" "n < 2 ^ 64"
    and "0 < lc_opcode_base (lp_context p)"
  defines "s \<equiv> st\<lparr>ls_ptr := length pre + length (uleb_encode n) + 2\<rparr>"
  shows "line_step p st =
    (if b = 0x01 then op_end_sequence p s else if b = 0x02 then op_set_address p s
     else if b = 0x03 then op_define_file p s else if b = 0x04 then op_set_discriminator p s
     else op_unknown_extended p (word_of_nat n) s)"
proof -
  have r: "read_uword_de p (st\<lparr>ls_ptr := length (pre @ [0])\<rparr>) =
      DW_OK (word_of_nat n, st\<lparr>ls_ptr := length pre + length (uleb_encode n) + 1\<rparr>)"
    using read_uleb [of p "pre @ [0]" n "b # post" "st\<lparr>ls_ptr := length (pre @ [0])\<rparr>"] assms by simp
  have b: "rd8 (lp_buf p) (length pre + length (uleb_encode n) + 1) = DW_OK b"
    using assms(1) nth_append_length [of "pre @ 0 # uleb_encode n" b post] by simp
  have "rd8 (lp_buf p) (ls_ptr st) = DW_OK 0" using assms(1,2) by simp
  then have "line_step p st = extended_op p (st\<lparr>ls_ptr := length (pre @ [0])\<rparr>)"
    using assms(2,6) by (simp add: line_step_def Let_def what_is_opcode_def)
  also have "\<dots> = (if b = 0x01 then op_end_sequence p s else if b = 0x02 then op_set_address p s
     else if b = 0x03 then op_define_file p s else if b = 0x04 then op_set_discriminator p s
     else op_unknown_extended p (word_of_nat n) s)"
    unfolding extended_op_def r using b assms(3) by (simp add: s_def Let_def)
  finally show ?thesis .
qed

lemma step_to_eq: "step_to ok m = Some mr \<longleftrightarrow> ok \<and> fits m \<and> mr = (m, [])"
  by (auto simp: step_to_def)

lemma sim_special:
  assumes "rows_params p" "simulates (ls_regs st) m" "machine_step p (Special opcode) m = Some mr"
  shows "sim_result q st mr (op_special p opcode (st\<lparr>ls_ptr := q\<rparr>))"
proof -
  let ?ctx = "lp_context p"
  let ?d = "opcode - lc_opcode_base ?ctx"
  let ?n = "unat ?d div unat (lc_line_range ?ctx)"
  let ?a = "advance_machine ?ctx ?n m"
  let ?r = "unat ?d mod unat (lc_line_range ?ctx)"
  let ?m = "?a\<lparr>row_line := row_line ?a + sint (lc_line_base ?ctx) + int ?r\<rparr>"
  have f: "fits ?m" "mr = (after_row ?m, [machine_row ?m])"
    using assms(3) by (auto simp: Let_def split: if_splits)
  have f2: "fits (?a\<lparr>row_line := row_line m\<rparr>)"
    using f(1) assms(2) by (simp add: simulates_def fits_def)
  have "row_line ?a = row_line m" by (simp add: advance_machine_def Let_def)
  then have a: "?a\<lparr>row_line := row_line m\<rparr> = ?a" by (cases ?a) simp
  have n: "?n < 256" using div_le_dividend [of "unat ?d" "unat (lc_line_range ?ctx)"] u8_bound [of ?d]
    by linarith
  have s: "simulates (advance_operations ?ctx (word_of_nat ?n) (ls_regs st)) ?a" (is "simulates ?r' _")
    using simulates_advance [OF assms(2) _ n] f2 a by simp
  have dm: "(ucast (?d div lc_line_range ?ctx) :: u64) = word_of_nat ?n"
    "(ucast (?d mod lc_line_range ?ctx) :: u64) = word_of_nat ?r"
    by (simp_all only: ucast_nat unat_div_distrib unat_mod_distrib)
  let ?s = "(st\<lparr>ls_ptr := q\<rparr>)\<lparr>ls_regs := ?r'\<lparr>lr_line := lr_line ?r' + scast (lc_line_base ?ctx) + word_of_nat ?r\<rparr>\<rparr>"
  have l: "lr_line ?r' = word_of_int (row_line ?a)" using s unfolding simulates_def by blast
  have "lr_line (ls_regs ?s) = word_of_int (row_line ?a) + scast (lc_line_base ?ctx) + word_of_nat ?r"
    using l by simp
  also have "\<dots> = word_of_int (row_line ?a + sint (lc_line_base ?ctx) + int ?r)"
    by (simp only: scast_eq of_int_add of_int_of_nat_eq)
  also have "row_line ?a + sint (lc_line_base ?ctx) + int ?r = row_line ?m" by simp
  finally have l: "lr_line (ls_regs ?s) = word_of_int (row_line ?m)" .
  then have s2: "simulates (ls_regs ?s) ?m" using s f(1) by (simp add: simulates_def)
  have "check_line_number ?s = DW_OK ?s"
    using f(1) sint_of_small [of "row_line ?m"] l
    by (simp add: check_line_number_def fits_def)
  moreover have "lc_line_range ?ctx \<noteq> 0" using assms(1) by (simp add: rows_params_def params_ok_def)
  ultimately have "op_special p opcode (st\<lparr>ls_ptr := q\<rparr>) =
      DW_OK (upd_regs clear_row_flags (append_line p ?s))"
    by (simp add: op_special_def Let_def dm)
  then show ?thesis using sim_row [OF assms(1) s2, of st q] f(2) by simp
qed

lemma sim_const_add_pc:
  assumes "rows_params p" "simulates (ls_regs st) m" "machine_step p Const_Add_PC m = Some mr"
  shows "sim_result q st mr (op_const_add_pc p (st\<lparr>ls_ptr := q\<rparr>))"
proof -
  let ?ctx = "lp_context p"
  let ?n = "(255 - unat (lc_opcode_base ?ctx)) div unat (lc_line_range ?ctx)"
  have d: "unat (255 - lc_opcode_base ?ctx) = 255 - unat (lc_opcode_base ?ctx)"
    using u8_bound [of "lc_opcode_base ?ctx"]
    by (subst unat_sub) (simp_all add: word_le_nat_alt less_Suc_eq_le [symmetric] del: u8_bound)
  have dm: "(ucast ((255 - lc_opcode_base ?ctx) div lc_line_range ?ctx) :: u64) = word_of_nat ?n"
    by (simp only: ucast_nat unat_div_distrib d)
  have n: "?n < 256"
    using div_le_dividend [of "255 - unat (lc_opcode_base ?ctx)" "unat (lc_line_range ?ctx)"] by linarith
  have "simulates (advance_operations ?ctx (word_of_nat ?n) (ls_regs st)) (fst mr)" "snd mr = []"
    using simulates_advance [OF assms(2) _ n] assms(3) by (auto simp: step_to_eq)
  moreover have "lc_line_range ?ctx \<noteq> 0" using assms(1) by (simp add: rows_params_def params_ok_def)
  ultimately show ?thesis
    by (simp add: op_const_add_pc_def Let_def dm sim_result_def)
qed

lemma sim_register:
  assumes "simulates (ls_regs st) m" "simulates r m'" "mr = (m', [])"
  shows "sim_result q st mr (DW_OK (st\<lparr>ls_ptr := q, ls_regs := r\<rparr>))"
  using assms by (simp add: sim_result_def)

text \<open>
  The situation before an instruction: its bytes lie at the pointer, and the machine can make the step.
\<close>

definition at_op ::
  "line_params \<Rightarrow> bytes \<Rightarrow> line_op \<Rightarrow> bytes \<Rightarrow> line_state \<Rightarrow> machine \<Rightarrow> machine \<times> line_row list \<Rightarrow> bool"
where
  "at_op p pre op post st m mr \<longleftrightarrow> rows_params p \<and> lp_buf p = pre @ assemble p op @ post \<and>
     ls_ptr st = length pre \<and> length pre + length (assemble p op) \<le> lp_end p \<and>
     simulates (ls_regs st) m \<and> machine_step p op m = Some mr"

definition end_of_op :: "line_params \<Rightarrow> bytes \<Rightarrow> line_op \<Rightarrow> ptr" where
  "end_of_op p pre op = length pre + length (assemble p op)"

lemma at_opD:
  assumes "at_op p pre op post st m mr"
  shows "rows_params p" "params_ok p" "lp_end p \<le> length (lp_buf p)" "lp_buf p = pre @ assemble p op @ post"
    "ls_ptr st = length pre" "length pre + length (assemble p op) \<le> lp_end p"
    "simulates (ls_regs st) m" "machine_step p op m = Some mr"
  using assms unfolding at_op_def rows_params_def params_ok_def by blast+

lemma at_standard:
  assumes "at_op p pre op post st m mr" "assemble p op = k # bs" "0 < k" "k < lc_opcode_base (lp_context p)"
  shows "line_step p st = standard_op p k (st\<lparr>ls_ptr := length pre + 1\<rparr>)"
  using line_step_standard [OF at_opD(2) [OF assms(1)], of st k] at_opD [OF assms(1)] assms(2-4)
  by (simp add: nth_append)

lemma at_uleb:
  assumes "at_op p pre op post st m mr" "assemble p op = k # uleb_encode n" "n < 2 ^ 64"
  shows "read_uword_de p (st\<lparr>ls_ptr := length pre + 1\<rparr>) =
    DW_OK (word_of_nat n, st\<lparr>ls_ptr := end_of_op p pre op\<rparr>)"
  using read_uleb [of p "pre @ [k]" n post "st\<lparr>ls_ptr := length pre + 1\<rparr>"] at_opD [OF assms(1)] assms(2,3)
  by (simp add: end_of_op_def)

lemma at_sleb:
  assumes "at_op p pre op post st m mr" "assemble p op = k # sleb_encode i" "- (2 ^ 63) \<le> i" "i < 2 ^ 63"
  shows "read_sword_de p (st\<lparr>ls_ptr := length pre + 1\<rparr>) =
    DW_OK (word_of_int i, st\<lparr>ls_ptr := end_of_op p pre op\<rparr>)"
  using read_sleb [of p "pre @ [k]" i post "st\<lparr>ls_ptr := length pre + 1\<rparr>"] at_opD [OF assms(1)] assms(2-4)
  by (simp add: end_of_op_def)

lemma at_extended:
  assumes "at_op p pre op post st m mr" "assemble p op = 0 # uleb_encode n @ b # bs" "n < 2 ^ 64"
    "0 < lc_opcode_base (lp_context p)"
  defines "s \<equiv> st\<lparr>ls_ptr := length pre + length (uleb_encode n) + 2\<rparr>"
  shows "line_step p st =
    (if b = 0x01 then op_end_sequence p s else if b = 0x02 then op_set_address p s
     else if b = 0x03 then op_define_file p s else if b = 0x04 then op_set_discriminator p s
     else op_unknown_extended p (word_of_nat n) s)"
  using line_step_extended [of p pre n b "bs @ post" st] at_opD [OF assms(1)] assms(2-4)
  unfolding s_def by simp

lemmas sim_simps = sim_result_def simulates_def fits_def Let_def end_of_op_def

named_theorems op_simulated \<open>each instruction of the machine is simulated by a step of the code\<close>

lemma sim_Special [op_simulated]:
  assumes at: "at_op p pre (Special opcode) post st m mr"
  shows "sim_result (end_of_op p pre (Special opcode)) st mr (line_step p st)"
proof -
  note a = at_opD [OF at]
  have "line_step p st = op_special p opcode (st\<lparr>ls_ptr := end_of_op p pre (Special opcode)\<rparr>)"
    using line_step_special [of st p opcode] a by (simp add: end_of_op_def Let_def split: if_splits)
  then show ?thesis using sim_special [OF a(1,7,8)] by simp
qed

lemma sim_Copy [op_simulated]:
  assumes at: "at_op p pre Copy post st m mr"
  shows "sim_result (end_of_op p pre Copy) st mr (line_step p st)"
proof -
  note a = at_opD [OF at]
  have "line_step p st = op_copy p (st\<lparr>ls_ptr := end_of_op p pre Copy\<rparr>)" "mr = (after_row m, [machine_row m])"
    using at_standard [OF at, of 1 "[]"] a(8) by (auto simp: standard_op_def end_of_op_def split: if_splits)
  then show ?thesis
    using sim_row [OF a(1), of "st\<lparr>ls_ptr := end_of_op p pre Copy\<rparr>" m st] a(7) by (simp add: op_copy_def)
qed

lemma sim_Advance_PC [op_simulated]:
  assumes at: "at_op p pre (Advance_PC n) post st m mr"
  shows "sim_result (end_of_op p pre (Advance_PC n)) st mr (line_step p st)"
proof -
  have k: "2 < lc_opcode_base (lp_context p)" "n < 2 ^ 64" "lc_maximum_ops_per_instruction (lp_context p) < 2"
    "mr = (advance_machine (lp_context p) n m, [])" "fits (advance_machine (lp_context p) n m)"
    using at_opD(8) [OF at] by (auto simp: step_to_eq)
  then have "unat (lc_maximum_ops_per_instruction (lp_context p)) < 2" by (simp add: word_less_nat_alt)
  then show ?thesis
    using at_standard [OF at, of 2] at_uleb [OF at, of 2 n] at_opD(7) [OF at] k
    by (simp add: standard_op_def op_advance_pc_def advance_machine_def sim_simps ucast_nat)
qed

lemma sim_Advance_Line [op_simulated]:
  assumes at: "at_op p pre (Advance_Line i) post st m mr"
  shows "sim_result (end_of_op p pre (Advance_Line i)) st mr (line_step p st)"
proof -
  have k: "3 < lc_opcode_base (lp_context p)" "- (2 ^ 63) \<le> i" "i < 2 ^ 63"
    "mr = (m\<lparr>row_line := row_line m + i\<rparr>, [])" "fits (m\<lparr>row_line := row_line m + i\<rparr>)"
    using at_opD(8) [OF at] by (auto simp: step_to_eq)
  then have "sint (word_of_int (row_line m + i) :: u64) = row_line m + i"
    by (intro sint_of_small) (simp_all add: fits_def)
  then show ?thesis
    using at_standard [OF at, of 3] at_sleb [OF at, of 3 i] at_opD(7) [OF at] k
    by (simp add: standard_op_def op_advance_line_def check_line_number_def sim_simps)
qed

lemma sim_Set_File [op_simulated]:
  assumes at: "at_op p pre (Set_File n) post st m mr"
  shows "sim_result (end_of_op p pre (Set_File n)) st mr (line_step p st)"
proof -
  have k: "4 < lc_opcode_base (lp_context p)" "n < 2 ^ 63" "mr = (m\<lparr>row_file := n\<rparr>, [])"
    using at_opD(8) [OF at] by (auto simp: step_to_eq fits_def)
  then show ?thesis
    using at_standard [OF at, of 4] at_uleb [OF at, of 4 n] at_opD(7) [OF at] sint_of_small_nat [of n]
    by (simp add: standard_op_def op_set_file_def sim_simps)
qed

lemma sim_Set_Column [op_simulated]:
  assumes at: "at_op p pre (Set_Column n) post st m mr"
  shows "sim_result (end_of_op p pre (Set_Column n)) st mr (line_step p st)"
proof -
  have k: "5 < lc_opcode_base (lp_context p)" "n < 2 ^ 16" "mr = (m\<lparr>row_column := n\<rparr>, [])"
    using at_opD(8) [OF at] by (auto simp: step_to_eq fits_def)
  then show ?thesis
    using at_standard [OF at, of 5] at_uleb [OF at, of 5 n] at_opD(7) [OF at] sint_of_small_nat [of n]
    by (simp add: standard_op_def op_set_column_def sim_simps)
qed

lemma sim_flag:
  assumes at: "at_op p pre op post st m mr" and k: "assemble p op = [k]" "0 < k" "k < lc_opcode_base (lp_context p)"
    and f: "standard_op p k (st\<lparr>ls_ptr := length pre + 1\<rparr>) = DW_OK (st\<lparr>ls_ptr := length pre + 1, ls_regs := r\<rparr>)"
    and s: "simulates (ls_regs st) m \<Longrightarrow> simulates r (fst mr)" "snd mr = []"
  shows "sim_result (end_of_op p pre op) st mr (line_step p st)"
  using at_standard [OF at k] f s at_opD(7) [OF at] k(1) by (simp add: sim_result_def end_of_op_def)

lemma sim_Negate_Stmt [op_simulated]:
  assumes at: "at_op p pre Negate_Stmt post st m mr"
  shows "sim_result (end_of_op p pre Negate_Stmt) st mr (line_step p st)"
  by (rule sim_flag [OF at, of 6])
     (use at_opD(8) [OF at] in \<open>auto simp: standard_op_def op_negate_stmt_def step_to_eq sim_simps\<close>)

lemma sim_Set_Basic_Block [op_simulated]:
  assumes at: "at_op p pre Set_Basic_Block post st m mr"
  shows "sim_result (end_of_op p pre Set_Basic_Block) st mr (line_step p st)"
  by (rule sim_flag [OF at, of 7])
     (use at_opD(8) [OF at] in \<open>auto simp: standard_op_def op_set_basic_block_def step_to_eq sim_simps\<close>)

lemma sim_Set_Prologue_End [op_simulated]:
  assumes at: "at_op p pre Set_Prologue_End post st m mr"
  shows "sim_result (end_of_op p pre Set_Prologue_End) st mr (line_step p st)"
  by (rule sim_flag [OF at, of 10])
     (use at_opD(8) [OF at] in \<open>auto simp: standard_op_def op_set_prologue_end_def step_to_eq sim_simps\<close>)

lemma sim_Set_Epilogue_Begin [op_simulated]:
  assumes at: "at_op p pre Set_Epilogue_Begin post st m mr"
  shows "sim_result (end_of_op p pre Set_Epilogue_Begin) st mr (line_step p st)"
  by (rule sim_flag [OF at, of 11])
     (use at_opD(8) [OF at] in \<open>auto simp: standard_op_def op_set_epilogue_begin_def step_to_eq sim_simps\<close>)

lemma sim_Const_Add_PC [op_simulated]:
  assumes at: "at_op p pre Const_Add_PC post st m mr"
  shows "sim_result (end_of_op p pre Const_Add_PC) st mr (line_step p st)"
proof -
  note a = at_opD [OF at]
  have "line_step p st = op_const_add_pc p (st\<lparr>ls_ptr := end_of_op p pre Const_Add_PC\<rparr>)"
    using at_standard [OF at, of 8 "[]"] a(8) by (auto simp: standard_op_def step_to_eq end_of_op_def)
  then show ?thesis using sim_const_add_pc [OF a(1,7,8)] by simp
qed

lemma sim_Fixed_Advance_PC [op_simulated]:
  assumes at: "at_op p pre (Fixed_Advance_PC n) post st m mr"
  shows "sim_result (end_of_op p pre (Fixed_Advance_PC n)) st mr (line_step p st)"
proof -
  note a = at_opD [OF at]
  have k: "9 < lc_opcode_base (lp_context p)" "n < 2 ^ 16"
    "mr = (m\<lparr>row_address := row_address m + n, row_op_index := 0\<rparr>, [])" "row_address m + n < 2 ^ 64"
    using a(8) by (auto simp: step_to_eq fits_def)
  have s: "line_step p st = op_fixed_advance_pc p (st\<lparr>ls_ptr := length pre + 1\<rparr>)"
    using at_standard [OF at, of 9] k by (simp add: standard_op_def)
  have "read_unaligned_ck (lp_dbg p) (lp_buf p) (length pre + 1) 2 (lp_end p) = DW_OK (word_of_nat n)"
    using read_fixed [of p "pre @ [9]" 2 n post] a k(2) by simp
  moreover have "\<not> lr_address (ls_regs st) + word_of_nat n < lr_address (ls_regs st)"
    using a(7) k(4) unat_of_small [of "row_address m"] unat_of_small [of "row_address m + n"]
    by (simp add: simulates_def word_less_nat_alt)
  ultimately show ?thesis
    using k a(6,7) by (simp add: s op_fixed_advance_pc_def sim_simps)
qed

lemma sim_Set_ISA [op_simulated]:
  assumes at: "at_op p pre (Set_ISA n) post st m mr"
  shows "sim_result (end_of_op p pre (Set_ISA n)) st mr (line_step p st)"
proof -
  have k: "12 < lc_opcode_base (lp_context p)" "n < 2 ^ 16" "mr = (m\<lparr>row_isa := n\<rparr>, [])"
    using at_opD(8) [OF at] by (auto simp: step_to_eq fits_def)
  then have "(ucast (word_of_nat n :: u64) :: u16) = word_of_nat n"
    "(ucast (word_of_nat n :: u16) :: u64) = word_of_nat n"
    by (simp_all add: word_unat_eq_iff unsigned_ucast_eq unsigned_of_nat take_bit_nat_eq_self)
  then show ?thesis
    using at_standard [OF at, of 12] at_uleb [OF at, of 12 n] at_opD(7) [OF at] k
    by (simp add: standard_op_def op_set_isa_def sim_simps)
qed

lemma sim_End_Sequence [op_simulated]:
  assumes at: "at_op p pre End_Sequence post st m mr"
  shows "sim_result (end_of_op p pre End_Sequence) st mr (line_step p st)"
proof -
  note a = at_opD [OF at]
  have k: "0 < lc_opcode_base (lp_context p)"
    "mr = (init_machine (lp_context p), [machine_row (m\<lparr>row_end_sequence := True\<rparr>)])"
    using a(8) by (auto split: if_splits)
  have "uleb_encode 1 = [1]" by (simp add: uleb_encode.simps)
  then have "line_step p st = op_end_sequence p (st\<lparr>ls_ptr := end_of_op p pre End_Sequence\<rparr>)"
    using at_extended [OF at, of 1 1] k(1) by (simp add: end_of_op_def)
  then show ?thesis
    using k(2) a(1) row_of_line_eq [OF a(7)] simulates_init [of "lp_context p"]
    by (simp add: op_end_sequence_def Let_def sim_result_def rows_params_def)
qed

lemma sim_Set_Address [op_simulated]:
  assumes at: "at_op p pre (Set_Address n) post st m mr"
  shows "sim_result (end_of_op p pre (Set_Address n)) st mr (line_step p st)"
proof -
  note a = at_opD [OF at]
  let ?z = "unat (lp_address_size p)"
  let ?u = "uleb_encode (?z + 1)"
  let ?i = "pre @ 0 # ?u @ [2]"
  have k: "0 < lc_opcode_base (lp_context p)" "n < 256 ^ ?z" "?z \<le> 8"
    "mr = (m\<lparr>row_address := n, row_op_index := 0\<rparr>, [])" "n < 2 ^ 64"
    using a(2,8) by (auto simp: step_to_eq params_ok_def fits_def)
  have b: "lp_buf p = ?i @ fixed_bytes (lp_dbg p) ?z n @ post" using a(4) by simp
  have q: "end_of_op p pre (Set_Address n) = length ?i + ?z" by (simp add: end_of_op_def)
  have "line_step p st = op_set_address p (st\<lparr>ls_ptr := length ?i\<rparr>)"
    using at_extended [OF at, of "?z + 1" 2] k by simp
  moreover have "read_unaligned_ck (lp_dbg p) (lp_buf p) (length ?i) ?z (lp_end p) = DW_OK (word_of_nat n)"
    using read_fixed [OF b k(3) _ a(3) k(2)] a(6) by simp
  ultimately show ?thesis
    unfolding q using k a(1,6,7)
    by (simp add: op_set_address_def sim_simps rows_params_def)
qed

lemma sim_Set_Discriminator [op_simulated]:
  assumes at: "at_op p pre (Set_Discriminator n) post st m mr"
  shows "sim_result (end_of_op p pre (Set_Discriminator n)) st mr (line_step p st)"
proof -
  note a = at_opD [OF at]
  let ?l = "length (uleb_encode n) + 1"
  let ?i = "pre @ 0 # uleb_encode ?l @ [4]"
  have k: "0 < lc_opcode_base (lp_context p)" "n < 2 ^ 64" "mr = (m\<lparr>row_discriminator := n\<rparr>, [])"
    using a(8) by (auto simp: step_to_eq fits_def)
  have b: "lp_buf p = ?i @ uleb_encode n @ post" using a(4) by simp
  have q: "end_of_op p pre (Set_Discriminator n) = length ?i + length (uleb_encode n)"
    by (simp add: end_of_op_def)
  have l: "?l < 2 ^ 64" using uleb_encode_u64 [of "word_of_nat n"] unat_of_small [OF k(2)] by simp
  have "line_step p st = op_set_discriminator p (st\<lparr>ls_ptr := length ?i\<rparr>)"
    using at_extended [OF at, of ?l 4] k l by simp
  moreover have "read_uword_de p (st\<lparr>ls_ptr := length ?i\<rparr>) =
      DW_OK (word_of_nat n, st\<lparr>ls_ptr := length ?i + length (uleb_encode n)\<rparr>)"
    using read_uleb [OF b, of "st\<lparr>ls_ptr := length ?i\<rparr>"] a(3,6) k(2) by simp
  ultimately show ?thesis
    unfolding q using k a(7)
    by (simp add: op_set_discriminator_def sim_result_def simulates_def fits_def)
qed

lemma op_unknown_extended_known:
  assumes "length operand \<le> 100" "ls_ptr s + length operand \<le> lp_end p"
  shows "op_unknown_extended p (word_of_nat (length operand + 1)) s =
    DW_OK (s\<lparr>ls_ptr := ls_ptr s + length operand\<rparr>)"
proof -
  define w :: u64 where "w = word_of_nat (length operand + 1)"
  have w: "unat w = length operand + 1" unfolding w_def by (rule unat_of_small) (use assms(1) in simp)
  then have "0 < w" "\<not> w < 1" by (simp_all add: word_less_nat_alt)
  moreover have "w - 1 = word_of_nat (length operand)" by (simp add: w_def)
  moreover have "unat (word_of_nat (length operand) :: u64) = length operand"
    by (rule unat_of_small) (use assms(1) in simp)
  moreover from this have "\<not> 100 < (word_of_nat (length operand) :: u64)"
    using assms(1) by (simp add: word_less_nat_alt)
  ultimately show ?thesis unfolding w_def [symmetric] using assms(2)
    by (simp add: op_unknown_extended_def Let_def)
qed

lemma sim_Vendor_Extended [op_simulated]:
  assumes at: "at_op p pre (Vendor_Extended opcode operand) post st m mr"
  shows "sim_result (end_of_op p pre (Vendor_Extended opcode operand)) st mr (line_step p st)"
proof -
  note a = at_opD [OF at]
  let ?l = "length operand + 1"
  have k: "0 < lc_opcode_base (lp_context p)" "opcode \<notin> {1, 2, 3, 4}" "length operand \<le> 100" "mr = (m, [])"
    using a(8) by (auto simp: step_to_eq)
  have "line_step p st = op_unknown_extended p (word_of_nat ?l)
      (st\<lparr>ls_ptr := length pre + length (uleb_encode ?l) + 2\<rparr>)"
    using at_extended [OF at, of ?l opcode operand] k by simp
  then show ?thesis
    using op_unknown_extended_known [of operand "st\<lparr>ls_ptr := length pre + length (uleb_encode ?l) + 2\<rparr>" p]
      k a(6,7)
    by (simp add: sim_result_def end_of_op_def)
qed

lemma machine_step_sim:
  assumes "at_op p pre op post st m mr"
  shows "sim_result (end_of_op p pre op) st mr (line_step p st)"
  using assms by (cases op) (auto intro: op_simulated)

section \<open>Whole programs\<close>

lemma machine_run_sim:
  assumes "rows_params p" "lp_buf p = pre @ concat (map (assemble p) ops) @ post"
    and "ls_ptr st = length pre" "lp_end p = length pre + length (concat (map (assemble p) ops))"
    and "simulates (ls_regs st) m" "machine_run p ops m = Some rows"
  shows "\<exists>st' ls. line_loop p st = DW_OK st' \<and> ls_chain st' = ls_chain st @ ls \<and>
    map row_of_line ls = rows \<and> ls_files st' = ls_files st"
  using assms(2-)
proof (induction ops arbitrary: pre st m rows)
  case Nil
  then show ?case by (subst line_loop.simps) simp
next
  case (Cons op ops)
  obtain m' r rs where m': "machine_step p op m = Some (m', r)" "machine_run p ops m' = Some rs" "rows = r @ rs"
    using Cons.prems(5) by (auto split: option.splits)
  have at: "at_op p pre op (concat (map (assemble p) ops) @ post) st m (m', r)"
    using Cons.prems assms(1) m'(1) by (simp add: at_op_def)
  obtain st' ls where st': "line_step p st = DW_OK st'" "ls_ptr st' = end_of_op p pre op"
    "simulates (ls_regs st') m'" "ls_chain st' = ls_chain st @ ls" "map row_of_line ls = r"
    "ls_files st' = ls_files st"
    using machine_step_sim [OF at] by (auto simp: sim_result_def)
  have "\<exists>st'' ks. line_loop p st' = DW_OK st'' \<and> ls_chain st'' = ls_chain st' @ ks \<and>
      map row_of_line ks = rs \<and> ls_files st'' = ls_files st'"
    by (rule Cons.IH [of "pre @ assemble p op" st' m'])
       (use Cons.prems st' m' in \<open>simp_all add: end_of_op_def\<close>)
  moreover have "0 < length (assemble p op)" by (cases op) simp_all
  then have "line_loop p st = line_loop p st'"
    using st'(1) Cons.prems(2,3) by (subst line_loop.simps) simp
  ultimately show ?case using st' m'(3) by auto
qed

section \<open>Special opcodes and the instructions they stand for\<close>

definition without_ptr :: "line_state dw \<Rightarrow> line_state dw" where
  "without_ptr m = dw_bind m (\<lambda>st. DW_OK (st\<lparr>ls_ptr := 0\<rparr>))"

lemma without_ptr_append_line:
  "(append_line p st)\<lparr>ls_ptr := q\<rparr> = append_line p (st\<lparr>ls_ptr := q\<rparr>)"
  by (simp add: append_line_def)

lemma copy_without_ptr:
  "a\<lparr>ls_ptr := 0\<rparr> = b\<lparr>ls_ptr := 0\<rparr> \<Longrightarrow> without_ptr (op_copy p a) = without_ptr (op_copy p b)"
  by (cases a, cases b) (simp add: without_ptr_def op_copy_def append_line_def)

text \<open>What a special opcode does, as one advance of the address, one of the line, and a copy.\<close>

lemma op_special_parts:
  assumes "lc_line_range (lp_context p) \<noteq> 0" "lc_maximum_ops_per_instruction (lp_context p) < 2"
    "d = opcode - lc_opcode_base (lp_context p)"
    "n = unat d div unat (lc_line_range (lp_context p))"
    "i = sint (lc_line_base (lp_context p)) + int (unat d mod unat (lc_line_range (lp_context p)))"
  shows "op_special p opcode st =
    dw_bind (check_line_number (upd_regs (\<lambda>r. r\<lparr>lr_address := lr_address r +
        ucast (lc_minimum_instruction_length (lp_context p)) * word_of_nat n,
        lr_line := lr_line r + word_of_int i\<rparr>) st)) (op_copy p)"
proof -
  have dm: "(ucast (d div lc_line_range (lp_context p)) :: u64) = word_of_nat n"
    "(ucast (d mod lc_line_range (lp_context p)) :: u64) =
      word_of_nat (unat d mod unat (lc_line_range (lp_context p)))"
    unfolding assms(4) by (simp_all only: ucast_nat unat_div_distrib unat_mod_distrib)
  have i: "x + scast (lc_line_base (lp_context p)) +
      word_of_nat (unat d mod unat (lc_line_range (lp_context p))) = x + word_of_int i" for x :: u64
    unfolding assms(5) by (simp only: scast_eq of_int_add of_int_of_nat_eq add.assoc)
  have c: "op_copy p = (\<lambda>st. DW_OK (upd_regs clear_row_flags (append_line p st)))"
    by (rule ext) (simp add: op_copy_def)
  show ?thesis
    using assms(1,2) unfolding op_special_def Let_def assms(3) [symmetric] dm c
    by (simp add: i advance_operations_def mult.commute)
qed

lemma special_operands:
  assumes "d = (opcode :: u8) - b"
  shows "unat d div k < 2 ^ 64" "- (2 ^ 63) \<le> sint (l :: u8) + int (unat d mod k)"
    "sint l + int (unat d mod k) < 2 ^ 63"
proof -
  have "unat d div k \<le> unat d" "unat d mod k \<le> unat d" "unat d < 256" "- 128 \<le> sint l" "sint l < 128"
    using sint_ge [of l] sint_lt [of l] by simp_all
  then have b: "unat d div k < 256" "- 128 \<le> sint l + int (unat d mod k)"
      "sint l + int (unat d mod k) < 384"
    by linarith+
  show "unat d div k < 2 ^ 64" "- (2 ^ 63) \<le> sint l + int (unat d mod k)"
    "sint l + int (unat d mod k) < 2 ^ 63" using b by simp_all
qed

lemma special_is_three_steps:
  assumes ok: "params_ok p'" and ops: "lc_maximum_ops_per_instruction (lp_context p') < 2"
    and b: "3 < lc_opcode_base (lp_context p')"
    and d: "d = opcode - lc_opcode_base (lp_context p')"
    and n: "n = unat d div unat (lc_line_range (lp_context p'))"
    and i: "i = sint (lc_line_base (lp_context p')) + int (unat d mod unat (lc_line_range (lp_context p')))"
    and buf: "lp_buf p' = pre @ (0x02 # uleb_encode n) @ (0x03 # sleb_encode i) @ [0x01] @ post"
    and e: "lp_end p' = length pre + length (uleb_encode n) + length (sleb_encode i) + 3"
    and st: "ls_ptr st = length pre"
  shows "without_ptr (dw_bind (line_step p' st) (\<lambda>st. dw_bind (line_step p' st) (line_step p'))) =
    without_ptr (op_special p' opcode st)"
proof -
  have le: "lp_end p' \<le> length (lp_buf p')" using ok by (simp add: params_ok_def)
  have nb: "n < 2 ^ 64" "- (2 ^ 63) \<le> i" "i < 2 ^ 63"
    using special_operands [OF d] unfolding n i by blast+
  let ?a = "\<lambda>r. r\<lparr>lr_address := lr_address r +
      ucast (lc_minimum_instruction_length (lp_context p')) * word_of_nat n\<rparr>"
  let ?l = "\<lambda>r. r\<lparr>lr_line := lr_line r + word_of_int i\<rparr>"
  let ?q1 = "length pre + 1 + length (uleb_encode n)"
  let ?q2 = "?q1 + 1 + length (sleb_encode i)"
  let ?st1 = "(upd_regs ?a st)\<lparr>ls_ptr := ?q1\<rparr>"
  have s1: "line_step p' st = DW_OK ?st1"
  proof -
    have "line_step p' st = op_advance_pc p' (st\<lparr>ls_ptr := length (pre @ [2])\<rparr>)"
      using line_step_standard [OF ok, of st 2] buf b st by (simp add: standard_op_def word_less_nat_alt)
    moreover have "read_uword_de p' (st\<lparr>ls_ptr := length (pre @ [2])\<rparr>) =
        DW_OK (word_of_nat n, st\<lparr>ls_ptr := ?q1\<rparr>)"
      using read_uleb [of p' "pre @ [2]" n "(0x03 # sleb_encode i) @ [0x01] @ post"
        "st\<lparr>ls_ptr := length (pre @ [2])\<rparr>"] buf e le nb by simp
    ultimately show ?thesis by (cases st) (simp add: op_advance_pc_def)
  qed
  have s2: "line_step p' ?st1 = check_line_number ((upd_regs (\<lambda>r. ?l (?a r)) st)\<lparr>ls_ptr := ?q2\<rparr>)"
  proof -
    let ?pre = "pre @ 0x02 # uleb_encode n"
    have "lp_buf p' ! ?q1 = 3"
      using buf nth_append_length [of ?pre 3 "sleb_encode i @ [0x01] @ post"] by simp
    then have "line_step p' ?st1 = op_advance_line p' (?st1\<lparr>ls_ptr := length (?pre @ [3])\<rparr>)"
      using line_step_standard [OF ok, of ?st1 3] buf b st
      by (simp add: standard_op_def)
    moreover have "read_sword_de p' (?st1\<lparr>ls_ptr := length (?pre @ [3])\<rparr>) =
        DW_OK (word_of_int i, ?st1\<lparr>ls_ptr := ?q2\<rparr>)"
      using read_sleb [of p' "?pre @ [3]" i "[0x01] @ post" "?st1\<lparr>ls_ptr := length (?pre @ [3])\<rparr>"]
        buf e le nb by simp
    ultimately show ?thesis by (cases st) (simp add: op_advance_line_def)
  qed
  have s3: "line_step p' s = op_copy p' (s\<lparr>ls_ptr := ?q2 + 1\<rparr>)" if "ls_ptr s = ?q2" for s
  proof -
    have "lp_buf p' ! ?q2 = 1"
      using buf nth_append_length [of "pre @ (0x02 # uleb_encode n) @ 0x03 # sleb_encode i" 1 post]
      by (simp add: add.assoc)
    then show ?thesis
      using line_step_standard [OF ok, of s 1] buf b that
      by (simp add: standard_op_def word_less_nat_alt)
  qed
  have "without_ptr (dw_bind (check_line_number (s\<lparr>ls_ptr := ?q2\<rparr>)) (line_step p')) =
      without_ptr (dw_bind (check_line_number s) (op_copy p'))" for s
    using s3 [of "s\<lparr>ls_ptr := ?q2\<rparr>"] copy_without_ptr [of "s\<lparr>ls_ptr := ?q2 + 1\<rparr>" s p']
    by (simp add: check_line_number_def without_ptr_def)
  from this [of "upd_regs (\<lambda>r. ?l (?a r)) st"] show ?thesis
    using ok unfolding s1 dw_bind.simps s2
    by (subst op_special_parts [OF _ ops d n i]) (simp_all add: params_ok_def)
qed

section \<open>A concrete program\<close>

lemma sample_rows_params: "rows_params (sample_line_params buf)"
  by (simp add: rows_params_def sample_params_ok)
     (simp add: sample_line_params_def sample_line_context_def)

definition main_program :: "line_op list" where
  "main_program = [Set_Address 0x1000, Set_Column 5, Special 20, Advance_Line 100, Copy,
     Advance_PC 16, Negate_Stmt, Special 0xf3, Advance_PC 4, End_Sequence]"

section \<open>Properties\<close>

text \<open>
  C3: The reader implements the line number machine of the standard. Instructions with integer operands that the machine can
  execute are encoded anywhere in the section, in either byte order and for any header, with vendor extensions among
  them; then reading their bytes gives exactly the rows of the machine, and leaves the list of files alone.
\<close>

theorem line_program_rows:
  assumes "rows_params p" "lp_is_single_table p"
    and "lp_buf p = pre @ concat (map (assemble p) ops) @ post"
    and "lp_end p = length pre + length (concat (map (assemble p) ops))"
    and "machine_run p ops (init_machine (lp_context p)) = Some rows"
  shows "\<exists>ctx. read_line_table_program p (length pre) = DW_OK ctx \<and>
    map row_of_line (lc_linebuf_logicals ctx) = rows \<and> lc_linecount_logicals ctx = length rows \<and>
    lc_files ctx = lc_files (lp_context p)"
proof -
  have "simulates (ls_regs (init_line_state p (length pre))) (init_machine (lp_context p))"
    using assms(1) simulates_init by (simp add: init_line_state_def rows_params_def)
  then obtain st where "line_loop p (init_line_state p (length pre)) = DW_OK st"
    "map row_of_line (ls_chain st) = rows" "ls_files st = lc_files (lp_context p)"
    using machine_run_sim [OF assms(1,3) _ assms(4) _ assms(5), of "init_line_state p (length pre)"]
    by (auto simp: init_line_state_def)
  then show ?thesis using assms(2) by (auto simp: read_line_table_program_def Let_def)
qed

lemma sample_line_params_simps:
  "lp_buf (sample_line_params buf) = buf" "lp_end (sample_line_params buf) = length buf"
  "lp_is_single_table (sample_line_params buf)"
  by (simp_all add: sample_line_params_def)

lemma assemble_sample: "assemble (sample_line_params buf) op = assemble (sample_line_params []) op"
  by (cases op) (simp_all add: sample_line_params_def)

theorem line_program_rows_witness:
  "\<exists>ctx. read_line_table_program
       (sample_line_params (concat (map (assemble (sample_line_params [])) main_program))) 0 = DW_OK ctx \<and>
     map (\<lambda>l. (row_address (row_of_line l), row_line (row_of_line l), row_is_stmt (row_of_line l)))
       (lc_linebuf_logicals ctx) =
     [(0x1000, 3, True), (0x1000, 103, True), (0x1020, 104, False), (0x1024, 104, False)]"
proof -
  let ?p = "sample_line_params (concat (map (assemble (sample_line_params [])) main_program))"
  obtain rows where r: "machine_run ?p main_program (init_machine (lp_context ?p)) = Some rows"
    "map (\<lambda>r. (row_address r, row_line r, row_is_stmt r)) rows =
      [(0x1000, 3, True), (0x1000, 103, True), (0x1020, 104, False), (0x1024, 104, False)]"
    by (simp add: main_program_def sample_line_params_def sample_line_context_def init_machine_def step_to_def
        fits_def advance_machine_def after_row_def machine_row_def line_row.truncate_def Let_def)
  have e: "map (assemble ?p) main_program = map (assemble (sample_line_params [])) main_program"
    by (rule map_cong [OF refl]) (rule assemble_sample)
  have "\<exists>ctx. read_line_table_program ?p (length ([] :: bytes)) = DW_OK ctx \<and>
      map row_of_line (lc_linebuf_logicals ctx) = rows \<and> lc_linecount_logicals ctx = length rows \<and>
      lc_files ctx = lc_files (lp_context ?p)"
    by (rule line_program_rows [OF sample_rows_params _ _ _ r(1), where post = "[]"])
       (simp_all only: e sample_line_params_simps append_Nil append_Nil2 list.size add_0)
  then show ?thesis using r(2) by (auto simp: o_def simp flip: map_map)
qed

text \<open>
  On a machine with one operation an instruction a special opcode does exactly what the longer sequence does that advances the
  address by its operation advance and the line by its line advance and then copies: the registers, the rows and the
  error for a negative line number are the same.
\<close>

theorem special_opcode_abbreviates:
  assumes "params_ok p'" "lc_maximum_ops_per_instruction (lp_context p') < 2"
    and "3 < lc_opcode_base (lp_context p')" "lc_opcode_base (lp_context p') \<le> opcode"
    and "lp_context p = lp_context p'" "lp_dolines p = lp_dolines p'"
    and "lp_is_actuals_table p = lp_is_actuals_table p'"
    and "n = unat (opcode - lc_opcode_base (lp_context p')) div unat (lc_line_range (lp_context p'))"
    and "i = sint (lc_line_base (lp_context p')) +
           int (unat (opcode - lc_opcode_base (lp_context p')) mod unat (lc_line_range (lp_context p')))"
    and "lp_buf p' = pre @ (0x02 # uleb_encode n) @ (0x03 # sleb_encode i) @ [0x01] @ post"
    and "lp_end p' = length pre + length (uleb_encode n) + length (sleb_encode i) + 3"
    and "ls_ptr st = length pre" "lp_buf p = pre @ opcode # post"
  shows "without_ptr (dw_bind (line_step p' st) (\<lambda>st. dw_bind (line_step p' st) (line_step p'))) =
    without_ptr (line_step p st)"
proof -
  have a: "append_line p = append_line p'"
    using assms(6,7) by (intro ext) (simp add: append_line_def line_of_regs_def)
  have "line_step p st = op_special p opcode (st\<lparr>ls_ptr := ls_ptr st + 1\<rparr>)"
    using line_step_special [of st p opcode] assms by simp
  also have "\<dots> = op_special p' opcode (st\<lparr>ls_ptr := ls_ptr st + 1\<rparr>)"
    using a assms(5) by (simp add: op_special_def Let_def)
  also have "without_ptr \<dots> = without_ptr (op_special p' opcode st)"
    by (simp add: op_special_def Let_def check_line_number_def without_ptr_def append_line_def)
  finally show ?thesis
    using special_is_three_steps [OF assms(1-3) refl assms(8-12)] by simp
qed

theorem special_opcode_abbreviates_witness:
  "without_ptr (dw_bind (line_step (sample_line_params [2, 0, 3, 2, 1])
       (init_line_state (sample_line_params []) 0))
     (\<lambda>st. dw_bind (line_step (sample_line_params [2, 0, 3, 2, 1]) st)
       (line_step (sample_line_params [2, 0, 3, 2, 1])))) =
   without_ptr (line_step (sample_line_params [20]) (init_line_state (sample_line_params []) 0))"
proof -
  have "uleb_encode 0 = [0]" "sleb_encode 2 = [2]"
    by (simp_all add: uleb_encode.simps sleb_encode.simps sleb_last_def)
  then show ?thesis
    by (intro special_opcode_abbreviates [OF sample_params_ok, where opcode = 20 and n = 0 and i = 2
          and pre = "[]" and post = "[]"])
       (simp_all add: sample_line_params_def sample_line_context_def init_line_state_def)
qed

text \<open>
  The register \<open>is_stmt\<close> starts with the byte \<open>default_is_stmt\<close> of the header, of which a row keeps the lowest bit.
  With an even default other than zero a first copy records no statement, while the copy after two negations
  records one, so that negating twice is not the identity.
\<close>

theorem default_is_stmt_bit:
  assumes "lp_context p = (sample_line_context)\<lparr>lc_default_is_stmt := d\<rparr>" "lp_dolines p" "lp_is_single_table p"
    and "lp_end p = length (lp_buf p)" "lp_buf p = [0x01, 0x06, 0x06, 0x01]"
  shows "\<exists>ctx. read_line_table_program p 0 = DW_OK ctx \<and>
    map li_is_stmt (lc_linebuf_logicals ctx) = [bit d 0, d \<noteq> 0]"
proof -
  have "bit (ucast d :: u32) 0 = bit d 0" by (simp add: bit_ucast_iff)
  moreover have "(ucast d :: u32) = 0 \<longleftrightarrow> d = 0" 
  proof -
    have "unat (ucast d :: u32) = unat d"
      by (simp add: unsigned_ucast_eq take_bit_nat_eq_self less_trans [OF u8_bound])
    then show ?thesis by (metis unat_eq_zero)
  qed
  ultimately show ?thesis using assms
    by (simp add: read_line_table_program_def init_line_state_def line_loop.simps line_step_def
        what_is_opcode_def standard_op_def op_copy_def op_negate_stmt_def append_line_def
        line_of_regs_def clear_row_flags_def set_line_table_regs_default_values_def Let_def
        sample_line_context_def)
qed


theorem default_is_stmt_bit_witness:
  "\<exists>ctx. read_line_table_program ((sample_line_params [0x01, 0x06, 0x06, 0x01])
        \<lparr>lp_context := (sample_line_context)\<lparr>lc_default_is_stmt := 2\<rparr>\<rparr>) 0 = DW_OK ctx \<and>
    map li_is_stmt (lc_linebuf_logicals ctx) = [False, True]"
proof -
  have "bit (2 :: u8) 0 = False" by simp
  then show ?thesis
    using default_is_stmt_bit [of "(sample_line_params [0x01, 0x06, 0x06, 0x01])
        \<lparr>lp_context := (sample_line_context)\<lparr>lc_default_is_stmt := 2\<rparr>\<rparr>" 2]
    by (simp add: sample_line_params_def)
qed

end
