(* ===== verification/LineEncoding.thy ===== *)
theory LineEncoding
  imports Srclines LineMachine
begin

text \<open>
  A whole line table as an assembler writes it, with the header of any version from 2 to 5, in either format and byte
  order; and what reading it yields.
\<close>

section \<open>The description of a table and its encoding\<close>

record line_header =
  hd_dwarf64 :: bool
  hd_version :: nat
  hd_address_size :: u8
  hd_segment_size :: u8
  hd_min_inst :: u8
  hd_max_ops :: u8
  hd_default_is_stmt :: u8
  hd_line_base :: u8
  hd_line_range :: u8
  hd_opcode_base :: u8
  hd_dirs :: "bytes list"
  hd_files :: "(bytes \<times> nat \<times> nat \<times> nat) list"

definition encode_file :: "bytes \<times> nat \<times> nat \<times> nat \<Rightarrow> bytes" where
  "encode_file = (\<lambda>(name, dir, time, len).
     encode_string name @ uleb_encode dir @ uleb_encode time @ uleb_encode len)"

definition encode_params :: "line_header \<Rightarrow> bytes" where
  "encode_params h =
     [hd_min_inst h] @ (if hd_version h \<ge> 4 then [hd_max_ops h] else []) @
     [hd_default_is_stmt h, hd_line_base h, hd_line_range h, hd_opcode_base h] @
     take (unat (hd_opcode_base h) - 1) dwarf_standard_opcode_operand_count"

text \<open>Version 5 describes the format of the entries first: strings in place, and numbers in LEB128.\<close>

definition encode_lists :: "line_header \<Rightarrow> bytes" where
  "encode_lists h =
     (if hd_version h = 5
      then [1, 1, 8] @ uleb_encode (length (hd_dirs h)) @ concat (map encode_string (hd_dirs h)) @
        [4, 1, 8, 2, 0xf, 3, 0xf, 4, 0xf] @ uleb_encode (length (hd_files h)) @ concat (map encode_file (hd_files h))
      else concat (map encode_string (hd_dirs h)) @ [0] @ concat (map encode_file (hd_files h)) @ [0])"

definition offset_size :: "line_header \<Rightarrow> nat" where
  "offset_size h = (if hd_dwarf64 h then 8 else 4)"

definition encode_after_length :: "dwarf_debug \<Rightarrow> line_header \<Rightarrow> bytes" where
  "encode_after_length dbg h =
     fixed_bytes dbg 2 (hd_version h) @
     (if hd_version h = 5 then [hd_address_size h, hd_segment_size h] else []) @
     fixed_bytes dbg (offset_size h) (length (encode_params h) + length (encode_lists h)) @
     encode_params h @ encode_lists h"

definition encode_header :: "dwarf_debug \<Rightarrow> line_header \<Rightarrow> nat \<Rightarrow> bytes" where
  "encode_header dbg h n =
     (let len = length (encode_after_length dbg h) + n in
      (if hd_dwarf64 h then fixed_bytes dbg 4 0xffffffff @ fixed_bytes dbg 8 len else fixed_bytes dbg 4 len) @
      encode_after_length dbg h)"

text \<open>What can be encoded: lists without empty strings before version 5, and directories that exist there.\<close>

definition file_ok :: "line_header \<Rightarrow> bytes \<times> nat \<times> nat \<times> nat \<Rightarrow> bool" where
  "file_ok h = (\<lambda>(name, dir, time, len). 0 \<notin> set name \<and> dir < 2 ^ 64 \<and> time < 2 ^ 64 \<and> len < 2 ^ 64 \<and>
     (hd_version h < 5 \<longrightarrow> name \<noteq> [] \<and> dir \<le> length (hd_dirs h)))"

definition header_ok :: "line_header \<Rightarrow> bool" where
  "header_ok h \<longleftrightarrow> hd_version h \<in> {2, 3, 4, 5} \<and> hd_max_ops h \<noteq> 0 \<and> hd_line_range h \<noteq> 0 \<and>
     0 < unat (hd_opcode_base h) \<and> unat (hd_opcode_base h) \<le> 16 \<and>
     (\<forall>d \<in> set (hd_dirs h). 0 \<notin> set d \<and> (hd_version h < 5 \<longrightarrow> d \<noteq> [])) \<and>
     (\<forall>f \<in> set (hd_files h). file_ok h f)"

section \<open>The lists of versions up to 4\<close>

lemma header_string_at:
  assumes "holds_at buf p (encode_string s)" "0 \<notin> set s" "start \<le> p" "p + length s < lc_line_ptr_end ctx"
  shows "header_string dbg buf start ctx p = DW_OK (p + length s + 1)"
  using check_string_at [OF assms(1,2,4,3)] string_at_at [OF assms(1,2)] by (simp add: header_string_def)

lemma first_byte: "holds_at buf p (encode_string s @ xs) \<Longrightarrow> s \<noteq> [] \<Longrightarrow> 0 \<notin> set s \<Longrightarrow>
    p < length buf \<and> buf ! p \<noteq> 0"
  by (cases s) (auto simp: encode_string_def holds_at_Cons)

lemma old_include_directories_at:
  assumes "holds_at buf p (concat (map encode_string ds) @ [0])" "\<forall>d \<in> set ds. d \<noteq> [] \<and> 0 \<notin> set d"
    and "start \<le> p" "p + length (concat (map encode_string ds)) + 1 \<le> lc_line_ptr_end ctx"
  shows "\<exists>ss. old_include_directories dbg buf start ctx acc p =
      DW_OK (acc @ ss, p + length (concat (map encode_string ds)) + 1) \<and> map (string_at buf) ss = map Some ds"
  using assms
proof (induction ds arbitrary: p acc)
  case Nil
  then show ?case by (subst old_include_directories.simps) (simp add: holds_at_Cons)
next
  case (Cons d ds)
  let ?rest = "concat (map encode_string ds)"
  let ?q = "p + length d + 1"
  have d: "holds_at buf p (encode_string d)" "0 \<notin> set d" "d \<noteq> []" and
    r: "holds_at buf ?q (?rest @ [0])" using Cons.prems by (auto simp: add.assoc)
  have b: "p < length buf" "buf ! p \<noteq> 0" using first_byte [of buf p d "[]"] d by simp_all
  have s: "header_string dbg buf start ctx p = DW_OK ?q"
    by (rule header_string_at [OF d(1,2)]) (use Cons.prems in auto)
  obtain ss where ss: "old_include_directories dbg buf start ctx (acc @ [Debug_Line p]) ?q =
      DW_OK ((acc @ [Debug_Line p]) @ ss, ?q + length ?rest + 1)" "map (string_at buf) ss = map Some ds"
    using Cons.IH [OF r, of "acc @ [Debug_Line p]"] Cons.prems by auto
  have "old_include_directories dbg buf start ctx acc p =
      DW_OK (acc @ Debug_Line p # ss, p + length (encode_string d @ ?rest) + 1)"
    using Cons.prems(4) b s ss(1) by (subst old_include_directories.simps) simp
  moreover have "map (string_at buf) (Debug_Line p # ss) = map Some (d # ds)"
    using string_at_at(1) [OF d(1,2)] ss(2) by simp
  ultimately show ?case by (metis concat.simps(2) list.simps(9))
qed

definition file_desc :: "bytes \<Rightarrow> file_entry \<Rightarrow> (bytes \<times> nat \<times> nat \<times> nat) option" where
  "file_desc buf fe =
     map_option (\<lambda>name. (name, unat (fi_dir_index fe), unat (fi_time_last_mod fe), unat (fi_file_length fe)))
       (string_at buf (fi_file_name fe))"

lemma encode_file_parts:
  "encode_file (name, d, t, l) = encode_string name @ uleb_encode d @ uleb_encode t @ uleb_encode l"
  by (simp add: encode_file_def)

definition add_files :: "line_context \<Rightarrow> file_entry list \<Rightarrow> file_list \<Rightarrow> file_list" where
  "add_files ctx es files = fold (add_to_files_list (lc_version_number ctx)) es files"

lemma add_files_entries [simp]: "lc_file_entries (add_files ctx es fl) = lc_file_entries fl @ es"
  unfolding add_files_def
  by (induction es arbitrary: fl) (simp_all add: add_to_files_list_def Let_def)

lemma add_files_Cons:
  "add_files ctx (e # es) fl = add_files ctx es (add_to_files_list (lc_version_number ctx) e fl)"
  by (simp add: add_files_def)

lemma old_file_entry_at:
  assumes "holds_at buf p (encode_file (name, d, t, l))" "0 \<notin> set name" "start \<le> p"
    and "p + length (encode_file (name, d, t, l)) \<le> lc_line_ptr_end ctx" "lc_line_ptr_end ctx \<le> length buf"
    and "d < 2 ^ 64" "t < 2 ^ 64" "l < 2 ^ 64" "d \<le> unat (lc_include_directories_count ctx)"
  shows "\<exists>fe. old_file_entry dbg buf start ctx p = DW_OK (fe, p + length (encode_file (name, d, t, l))) \<and>
    file_desc buf fe = Some (name, d, t, l)"
proof -
  let ?a = "p + length name + 1"
  let ?b = "?a + length (uleb_encode d)"
  let ?c = "?b + length (uleb_encode t)"
  have h: "holds_at buf p (encode_string name)" "holds_at buf ?a (uleb_encode d)"
    "holds_at buf ?b (uleb_encode t)" "holds_at buf ?c (uleb_encode l)"
    using assms(1) by (simp_all add: encode_file_parts add.assoc)
  have e: "?c + length (uleb_encode l) \<le> lc_line_ptr_end ctx"
    using assms(4) by (simp add: encode_file_parts)
  have s: "header_string dbg buf start ctx p = DW_OK ?a"
    by (rule header_string_at [OF h(1) assms(2,3)]) (use e in linarith)
  note r = uword_at [OF h(2) _ assms(5,6)] uword_at [OF h(3) _ assms(5,7)] uword_at [OF h(4) _ assms(5,8)]
  have "\<not> word_of_nat d > lc_include_directories_count ctx"
    using assms(6,9) by (simp add: word_less_nat_alt unat_of_small not_less)
  then show ?thesis
    using s r e string_at_at(1) [OF h(1) assms(2)] assms(6-8)
    by (auto simp: old_file_entry_def file_desc_def encode_file_parts unat_of_small add.assoc)
qed

lemma old_file_entries_at:
  assumes "holds_at buf p (concat (map encode_file fs) @ [0])"
    and "\<forall>(name, d, t, l) \<in> set fs. name \<noteq> [] \<and> 0 \<notin> set name \<and> d < 2 ^ 64 \<and> t < 2 ^ 64 \<and> l < 2 ^ 64 \<and>
        d \<le> unat (lc_include_directories_count ctx)"
    and "start \<le> p" "p + length (concat (map encode_file fs)) + 1 \<le> lc_line_ptr_end ctx"
    and "lc_line_ptr_end ctx \<le> length buf"
  shows "\<exists>es. old_file_entries dbg buf start ctx files p =
      DW_OK (add_files ctx es files, p + length (concat (map encode_file fs)) + 1) \<and>
    map (file_desc buf) es = map Some fs"
  using assms(1-4)
proof (induction fs arbitrary: p files)
  case Nil
  then show ?case by (subst old_file_entries.simps) (simp add: holds_at_Cons add_files_def)
next
  case (Cons f fs)
  obtain name d t l where f: "f = (name, d, t, l)" by (cases f)
  let ?rest = "concat (map encode_file fs)"
  let ?q = "p + length (encode_file f)"
  have i: "name \<noteq> []" "0 \<notin> set name" "d < 2 ^ 64" "t < 2 ^ 64" "l < 2 ^ 64"
    "d \<le> unat (lc_include_directories_count ctx)" using Cons.prems(2) f by auto
  have h: "holds_at buf p (encode_file f)" "holds_at buf ?q (?rest @ [0])"
    using Cons.prems(1) by (auto simp: add.assoc)
  have b: "p < length buf" "buf ! p \<noteq> 0"
    using first_byte [OF _ i(1,2), of buf p "uleb_encode d @ uleb_encode t @ uleb_encode l"] h(1) f
    by (simp_all add: encode_file_parts)
  obtain fe where fe: "old_file_entry dbg buf start ctx p = DW_OK (fe, ?q)" "file_desc buf fe = Some f"
    using old_file_entry_at [OF h(1) [unfolded f] i(2) Cons.prems(3) _ assms(5) i(3-6)] Cons.prems(4) f by auto
  obtain es where es: "old_file_entries dbg buf start ctx (add_to_files_list (lc_version_number ctx) fe files) ?q =
      DW_OK (add_files ctx es (add_to_files_list (lc_version_number ctx) fe files), ?q + length ?rest + 1)"
    "map (file_desc buf) es = map Some fs"
    using Cons.IH [OF h(2), of "add_to_files_list (lc_version_number ctx) fe files"] Cons.prems by auto
  have "old_file_entries dbg buf start ctx files p =
      DW_OK (add_files ctx (fe # es) files, p + length (encode_file f @ ?rest) + 1)"
    using Cons.prems(4) b fe(1) es(1)
    by (subst old_file_entries.simps) (simp add: add_files_Cons)
  then show ?case using fe(2) es(2) by (intro exI [of _ "fe # es"]) simp
qed

section \<open>The lists of version 5\<close>

lemma line_string_at:
  assumes "holds_at buf p (encode_string s)" "0 \<notin> set s" "p + length s < e"
  shows "decode_line_string_form dbg 8 n buf p e = DW_OK (Debug_Line p, p + length s + 1)"
  using check_string_at [OF assms(1,2,3)] string_at_at(2) [OF assms(1,2)]
  by (simp add: decode_line_string_form_def)

lemma line_udata_at:
  assumes "holds_at buf p (uleb_encode v)" "p + length (uleb_encode v) \<le> e" "e \<le> length buf" "v < 2 ^ 64"
    and "ty \<in> {2, 3, 4}"
  shows "decode_line_udata_form dbg ty 0xf buf p e = DW_OK (word_of_nat v, p + length (uleb_encode v))"
  using uword_at [OF assms(1-4)] assms(5) by (auto simp: decode_line_udata_form_def Let_def)

lemma small_uleb_encode: "n < 128 \<Longrightarrow> uleb_encode n = [word_of_nat n]"
  by (subst uleb_encode.simps) simp

lemma small_uword_at:
  assumes "p < e" "e \<le> length buf" "buf ! p = word_of_nat n" "n < 128"
  shows "leb128_uword_wrapper buf p e = DW_OK (word_of_nat n, p + 1)"
proof -
  have "holds_at buf p (uleb_encode n)"
    using assms by (simp add: small_uleb_encode holds_at_Cons)
  then show ?thesis using uword_at [of buf p n e] assms by (simp add: small_uleb_encode)
qed

lemma directories_at:
  assumes "holds_at buf p (concat (map encode_string ds))" "\<forall>d \<in> set ds. 0 \<notin> set d"
    and "p + length (concat (map encode_string ds)) \<le> e" "e \<le> length buf"
  shows "\<exists>ss. directories (length ds) [(1, 8)] dbg n buf e p =
      DW_OK (ss, p + length (concat (map encode_string ds))) \<and> map (string_at buf) ss = map Some ds"
  using assms(1-3)
proof (induction ds arbitrary: p)
  case (Cons d ds)
  let ?rest = "concat (map encode_string ds)"
  let ?q = "p + length d + 1"
  have d: "holds_at buf p (encode_string d)" "0 \<notin> set d" and r: "holds_at buf ?q ?rest"
    using Cons.prems by (auto simp: add.assoc)
  have s: "decode_line_string_form dbg 8 n buf p e = DW_OK (Debug_Line p, ?q)"
    by (rule line_string_at [OF d]) (use Cons.prems in auto)
  obtain ss where ss: "directories (length ds) [(1, 8)] dbg n buf e ?q = DW_OK (ss, ?q + length ?rest)"
    "map (string_at buf) ss = map Some ds" using Cons.IH [OF r] Cons.prems by auto
  have "directories (length (d # ds)) [(1, 8)] dbg n buf e p =
      DW_OK (Debug_Line p # ss, p + length (encode_string d @ ?rest))"
    using Cons.prems(3) s ss(1) by simp
  then show ?case using string_at_at(1) [OF d] ss(2) by (intro exI [of _ "Debug_Line p # ss"]) simp
qed simp

abbreviation (input) "file_formats \<equiv> [(1, 8), (2, 0xf), (3, 0xf), (4, 0xf)]"

lemma file_fields_at:
  assumes "holds_at buf p (encode_file (name, d, t, l))" "0 \<notin> set name"
    and "p + length (encode_file (name, d, t, l)) \<le> e" "e \<le> length buf"
    and "d < 2 ^ 64" "t < 2 ^ 64" "l < 2 ^ 64"
  shows "\<exists>fe. file_fields file_formats dbg n buf e new_file_entry p =
      DW_OK (fe, p + length (encode_file (name, d, t, l))) \<and> file_desc buf fe = Some (name, d, t, l)"
proof -
  let ?a = "p + length name + 1"
  let ?b = "?a + length (uleb_encode d)"
  let ?c = "?b + length (uleb_encode t)"
  have h: "holds_at buf p (encode_string name)" "holds_at buf ?a (uleb_encode d)"
    "holds_at buf ?b (uleb_encode t)" "holds_at buf ?c (uleb_encode l)"
    using assms(1) by (simp_all add: encode_file_parts add.assoc)
  have e: "?c + length (uleb_encode l) \<le> e"
    using assms(3) by (simp add: encode_file_parts)
  have pos: "0 < length (uleb_encode k)" for k by simp
  have lt: "p < e" "?a < e" "?b < e" "?c < e"
    using e pos [of d] pos [of t] pos [of l] by linarith+
  have s: "decode_line_string_form dbg 8 n buf p e = DW_OK (Debug_Line p, ?a)"
    by (rule line_string_at [OF h(1) assms(2)]) (use lt in linarith)
  have r: "decode_line_udata_form dbg 2 0xf buf ?a e = DW_OK (word_of_nat d, ?b)"
    "decode_line_udata_form dbg 3 0xf buf ?b e = DW_OK (word_of_nat t, ?c)"
    "decode_line_udata_form dbg 4 0xf buf ?c e = DW_OK (word_of_nat l, ?c + length (uleb_encode l))"
    using line_udata_at [OF h(2) _ assms(4,5)] line_udata_at [OF h(3) _ assms(4,6)]
      line_udata_at [OF h(4) _ assms(4,7)] lt e by simp_all
  show ?thesis
    using s r lt e string_at_at(1) [OF h(1) assms(2)] assms(5-7)
    by (auto simp: file_field_def Let_def file_desc_def encode_file_parts unat_of_small add.assoc)
qed

lemma file_names_at:
  assumes "holds_at buf p (concat (map encode_file fs))"
    and "\<forall>(name, d, t, l) \<in> set fs. 0 \<notin> set name \<and> d < 2 ^ 64 \<and> t < 2 ^ 64 \<and> l < 2 ^ 64"
    and "p + length (concat (map encode_file fs)) \<le> lc_line_ptr_end ctx" "lc_line_ptr_end ctx \<le> length buf"
  shows "\<exists>es. file_names (length fs) file_formats dbg n buf ctx files p =
      DW_OK (add_files ctx es files, p + length (concat (map encode_file fs))) \<and>
    map (file_desc buf) es = map Some fs"
  using assms(1-3)
proof (induction fs arbitrary: p files)
  case Nil
  then show ?case by (simp add: add_files_def)
next
  case (Cons f fs)
  obtain name d t l where f: "f = (name, d, t, l)" by (cases f)
  let ?rest = "concat (map encode_file fs)"
  let ?q = "p + length (encode_file f)"
  let ?files = "\<lambda>fe. add_to_files_list (lc_version_number ctx) fe files"
  have i: "0 \<notin> set name" "d < 2 ^ 64" "t < 2 ^ 64" "l < 2 ^ 64" using Cons.prems(2) f by auto
  have h: "holds_at buf p (encode_file f)" "holds_at buf ?q ?rest" using Cons.prems(1) by auto
  obtain fe where fe: "file_fields file_formats dbg n buf (lc_line_ptr_end ctx) new_file_entry p = DW_OK (fe, ?q)"
    "file_desc buf fe = Some f"
    using file_fields_at [OF h(1) [unfolded f] i(1) _ assms(4) i(2-4)] Cons.prems(3) f by auto
  obtain es where es: "file_names (length fs) file_formats dbg n buf ctx (?files fe) ?q =
      DW_OK (add_files ctx es (?files fe), ?q + length ?rest)" "map (file_desc buf) es = map Some fs"
    using Cons.IH [OF h(2), of "?files fe"] Cons.prems by auto
  have "file_names (length (f # fs)) file_formats dbg n buf ctx files p =
      DW_OK (add_files ctx (fe # es) files, p + length (encode_file f @ ?rest))"
    using fe(1) es(1) by (simp add: add_files_Cons del: file_fields.simps)
  then show ?case using fe(2) es(2) by (intro exI [of _ "fe # es"]) simp
qed

section \<open>The fixed part\<close>

lemma area_length_at:
  assumes "holds_at buf s (if d then fixed_bytes dbg 4 0xffffffff @ fixed_bytes dbg 8 len else fixed_bytes dbg 4 len)"
    and "0 < len" "len \<le> length buf" "length buf < 2 ^ 60" "\<not> d \<Longrightarrow> len < 0xffffffff"
  shows "read_area_length_ck dbg buf s (word_of_nat (length buf)) (length buf) =
    DW_OK ((word_of_nat len, if d then 8 else 4, if d then 4 else 0), s + (if d then 12 else 4))"
proof -
  have l: "len < 2 ^ 64" "length buf < 2 ^ 64" using assms(3,4) by simp_all
  have nz: "word_of_nat len \<noteq> (0 :: u64)"
    using unat_of_small [OF l(1)] assms(2) by (metis less_numeral_extra(3) unsigned_0)
  have le: "\<not> word_of_nat len > (word_of_nat (length buf) :: u64)"
    using assms(3) l by (simp add: word_less_nat_alt unat_of_small not_less)
  show ?thesis
  proof (cases d)
    case True
    have r: "read_unaligned_ck dbg buf s 4 (length buf) = DW_OK (word_of_nat 0xffffffff)"
      "read_unaligned_ck dbg buf (s + 4) 8 (length buf) = DW_OK (word_of_nat len)"
      using assms(1) True l holds_at_end [OF assms(1)]
        read_fixed_at [of buf s dbg 4 "0xffffffff" "length buf"]
        read_fixed_at [of buf "s + 4" dbg 8 len "length buf"] by simp_all
    then show ?thesis using True le by (simp add: read_area_length_ck_def)
  next
    case False
    have small: "len < 0xffffffff" using assms(5) False by simp
    have r: "read_unaligned_ck dbg buf s 4 (length buf) = DW_OK (word_of_nat len)"
      using assms(1) False small holds_at_end [OF assms(1)] by (auto intro!: read_fixed_at)
    have ne: "word_of_nat len \<noteq> (0xffffffff :: u64)"
    proof
      assume "word_of_nat len = (0xffffffff :: u64)"
      then have "unat (word_of_nat len :: u64) = 0xffffffff" by simp
      then show False using small unat_of_small [OF l(1)] by simp
    qed
    then show ?thesis using False le nz r by (simp add: read_area_length_ck_def)
  qed
qed

lemma header_byte_at:
  "p < lc_line_ptr_end ctx \<Longrightarrow> lc_line_ptr_end ctx \<le> length buf \<Longrightarrow> header_byte buf ctx p err = DW_OK (buf ! p)"
  by (simp add: header_byte_def)

lemma header_version_at:
  assumes "holds_at buf p (fixed_bytes dbg 2 v @ (if v = 5 then [as, ss] else []))" "v \<in> {2, 3, 4, 5}"
    and "p + 4 \<le> lc_line_ptr_end ctx" "lc_line_ptr_end ctx \<le> length buf"
  shows "header_version dbg buf a g ctx p =
    DW_OK (ctx\<lparr>lc_version_number := word_of_nat v, lc_address_size := (if v = 5 then as else a),
      lc_segment_selector_size := (if v = 5 then ss else g)\<rparr>, p + (if v = 5 then 4 else 2))"
proof -
  have r: "read_unaligned_ck dbg buf p 2 (lc_line_ptr_end ctx) = DW_OK (word_of_nat v)"
    by (rule read_fixed_at) (use assms in auto)
  have u: "ucast (word_of_nat v :: u64) = (word_of_nat v :: u16)" using assms(2) by auto
  have b: "header_byte buf c (p + 2) err = DW_OK as" "header_byte buf c (Suc (p + 2)) err = DW_OK ss"
    if "v = 5" "lc_line_ptr_end c = lc_line_ptr_end ctx" for c err
    using that assms by (auto simp: header_byte_at holds_at_Cons)
  show ?thesis using assms(2) r u b by (auto simp: header_version_def Let_def)
qed

lemma header_prologue_at:
  assumes "holds_at buf p (fixed_bytes dbg k m @ [b])" "k \<le> 8" "m < 256 ^ k" "m < 2 ^ 64"
    and "m \<le> unat (lc_total_length ctx)" "p + k < lc_line_ptr_end ctx" "lc_line_ptr_end ctx \<le> length buf"
  shows "header_prologue dbg buf k ctx p =
    DW_OK (ctx\<lparr>lc_prologue_length := word_of_nat m, lc_line_prologue_start := p + k,
      lc_minimum_instruction_length := b\<rparr>, p + k + 1)"
proof -
  have r: "read_unaligned_ck dbg buf p k (lc_line_ptr_end ctx) = DW_OK (word_of_nat m)"
    by (rule read_fixed_at) (use assms in auto)
  have "\<not> word_of_nat m > lc_total_length ctx"
    using assms(4,5) by (simp add: word_less_nat_alt unat_of_small not_less)
  then show ?thesis using r assms by (simp add: header_prologue_def header_byte_at holds_at_Cons Let_def)
qed

lemma header_max_ops_at:
  assumes "holds_at buf p (if v \<ge> 4 then [b] else [])" "v \<in> {2, 3, 4, 5}" "lc_version_number ctx = word_of_nat v"
    and "p < lc_line_ptr_end ctx" "lc_line_ptr_end ctx \<le> length buf" "b \<noteq> 0"
  shows "header_max_ops buf ctx p =
    DW_OK (if v \<ge> 4 then ctx\<lparr>lc_maximum_ops_per_instruction := b\<rparr> else ctx, p + (if v \<ge> 4 then 1 else 0))"
proof (cases "4 \<le> v")
  case True
  then have "lc_version_number ctx \<in> {4, 5}" "header_byte buf ctx p DW_DLE_DEBUG_LINE_LENGTH_BAD = DW_OK b"
    using assms(1-5) by (auto simp: header_byte_at holds_at_Cons)
  then show ?thesis using True assms(6) by (auto simp: header_max_ops_def)
next
  case False
  then have "lc_version_number ctx \<in> {2, 3}" using assms(2,3) by auto
  then show ?thesis using False by (auto simp: header_max_ops_def)
qed

lemma header_opcodes_at:
  assumes "holds_at buf p [d, b, r, oc]" "r \<noteq> 0" "0 < unat oc"
    and "p + 4 + (unat oc - 1) < lc_line_ptr_end ctx" "lc_line_ptr_end ctx \<le> length buf"
  shows "header_opcodes buf ctx p =
    DW_OK (ctx\<lparr>lc_default_is_stmt := d, lc_line_base := b, lc_line_range := r, lc_opcode_base := oc,
      lc_opcode_length_table := p + 4, lc_std_op_count := oc - 1\<rparr>, p + 4 + (unat oc - 1))"
proof -
  have b: "buf ! p = d" "buf ! (p + 1) = b" "buf ! (p + 2) = r" "buf ! (p + 3) = oc"
    using assms(1) by (simp_all add: holds_at_Cons numeral_3_eq_3)
  have "header_byte buf ctx (p + k) err = DW_OK (buf ! (p + k))" if "k < 4" for k err
    by (rule header_byte_at) (use assms(4,5) that in linarith)+
  from this [of 0] this [of 1] this [of 2] this [of 3] show ?thesis
    using assms(2-4) b by (simp add: header_opcodes_def Let_def)
qed

lemma operandmismatch_from_same:
  "i + n \<le> length table \<Longrightarrow> t + i + n \<le> length buf \<Longrightarrow> (\<forall>j < n. buf ! (t + i + j) = table ! (i + j)) \<Longrightarrow>
   operandmismatch_from i table buf t n = DW_OK False"
proof (induction n arbitrary: i)
  case (Suc n)
  have "buf ! (t + i) = table ! i" using Suc.prems(3) by force
  moreover have "\<forall>j < n. buf ! (t + (i + 1) + j) = table ! (i + 1 + j)"
    using Suc.prems(3) by (metis (no_types, lifting) Suc_less_eq add.assoc plus_1_eq_Suc)
  ultimately show ?case using Suc by simp
qed simp

lemma header_operand_counts_at:
  assumes "holds_at buf t (take k dwarf_standard_opcode_operand_count)" "k \<le> 15" "t + k < length buf"
    and "lc_opcode_length_table ctx = t" "unat (lc_std_op_count ctx) = k"
  shows "header_operand_counts buf ctx = DW_OK ()"
proof -
  let ?t = dwarf_standard_opcode_operand_count
  have l: "length ?t = 15" by (simp add: dwarf_standard_opcode_operand_count_def)
  have "take k (drop t buf) = take k ?t" using assms(1,2) l by (simp add: holds_at_def)
  then have "\<forall>j < k. buf ! (t + j) = ?t ! j"
    using assms(3) by (metis (no_types, lifting) add_leD1 less_imp_le_nat nth_drop nth_take)
  then have "operandmismatch ?t buf t k = DW_OK False"
    using operandmismatch_from_same [of 0 k ?t t buf] assms(2,3) l by (simp add: operandmismatch_def)
  then show ?thesis using assms l by (simp add: header_operand_counts_def Let_def)
qed

lemma check_alloc_size_ok: "unat k * unat count < 2 ^ 64 \<Longrightarrow> check_alloc_size k count = DW_OK ()"
  using mult_div_exact [of count k] by (auto simp: check_alloc_size_def uint64_mult_def Let_def)

section \<open>The lists\<close>

text \<open>What the parts that read the lists do to the context.\<close>

definition lists_read :: "bytes \<Rightarrow> line_header \<Rightarrow> line_context \<Rightarrow> line_context \<Rightarrow> bool" where
  "lists_read buf h ctx ctx' \<longleftrightarrow>
     (\<exists>dirs es k1 f1 k2 f2. map (string_at buf) dirs = map Some (hd_dirs h) \<and>
        map (file_desc buf) es = map Some (hd_files h) \<and>
        ctx' = ctx\<lparr>lc_include_directories := dirs, lc_include_directories_count := word_of_nat (length dirs),
          lc_directory_entry_format_count := k1, lc_directory_format_values := f1,
          lc_file_name_format_count := k2, lc_file_format_values := f2,
          lc_files := add_files ctx es (lc_files ctx)\<rparr>)"

lemma length_concat_ge: "(\<And>x. x \<in> set xs \<Longrightarrow> 0 < length (f x)) \<Longrightarrow> length xs \<le> length (concat (map f xs))"
proof (induction xs)
  case (Cons x xs)
  have "0 < length (f x)" "length xs \<le> length (concat (map f xs))" using Cons by auto
  then have "Suc (length xs) \<le> length (f x) + length (concat (map f xs))" by linarith
  then show ?case by simp
qed simp

lemma encode_file_pos: "0 < length (encode_file f)"
  by (cases f) (simp add: encode_file_def)

lemma old_lists_at:
  assumes "holds_at buf p (encode_lists h)" "header_ok h" "hd_version h < 5"
    and "lc_version_number ctx = word_of_nat (hd_version h)"
    and "p + length (encode_lists h) \<le> lc_line_ptr_end ctx" "lc_line_ptr_end ctx \<le> length buf"
    and "length buf < 2 ^ 60" "start \<le> p"
  shows "\<exists>ctx'. dw_bind (header_old_directories dbg buf start ctx p) (\<lambda>(ctx, p).
        header_old_files dbg buf start ctx p) = DW_OK (ctx', p + length (encode_lists h)) \<and>
      lists_read buf h ctx ctx'"
proof -
  let ?e = "lc_line_ptr_end ctx"
  let ?d = "concat (map encode_string (hd_dirs h))"
  let ?f = "concat (map encode_file (hd_files h))"
  let ?q = "p + length ?d + 1"
  have v: "lc_version_number ctx < 5" using assms(2-4) by (auto simp: header_ok_def)
  have el: "encode_lists h = ?d @ [0] @ ?f @ [0]" using assms(3) by (simp add: encode_lists_def)
  have h: "holds_at buf p (?d @ [0])" "holds_at buf ?q (?f @ [0])"
    using assms(1) unfolding el by (simp_all add: add.assoc holds_at_Cons)
  have e: "?q + length ?f + 1 \<le> ?e" using assms(5) unfolding el by simp
  have d: "\<forall>d \<in> set (hd_dirs h). d \<noteq> [] \<and> 0 \<notin> set d" using assms(2,3) by (simp add: header_ok_def)
  have de: "p + length ?d + 1 \<le> ?e" using e by linarith
  obtain ss where ss: "old_include_directories dbg buf start ctx [] p = DW_OK ([] @ ss, ?q)"
    "map (string_at buf) ss = map Some (hd_dirs h)"
    using old_include_directories_at [OF h(1) d assms(8) de] by blast
  let ?ctx = "ctx\<lparr>lc_include_directories := ss, lc_include_directories_count := word_of_nat (length ss)\<rparr>"
  have l: "length ss = length (hd_dirs h)" using ss(2) by (metis length_map)
  have "length (hd_dirs h) \<le> length ?d" by (rule length_concat_ge) simp
  then have "length ss < 2 ^ 64" using l e assms(6,7) by simp
  then have u: "unat (word_of_nat (length ss) :: u64) = length (hd_dirs h)" using l by (simp add: unat_of_small)
  have f: "\<forall>(name, d, t, l) \<in> set (hd_files h). name \<noteq> [] \<and> 0 \<notin> set name \<and> d < 2 ^ 64 \<and> t < 2 ^ 64 \<and>
      l < 2 ^ 64 \<and> d \<le> unat (lc_include_directories_count ?ctx)"
    using assms(2,3) u by (auto simp: header_ok_def file_ok_def)
  obtain es where es: "old_file_entries dbg buf start ?ctx (lc_files ?ctx) ?q =
      DW_OK (add_files ?ctx es (lc_files ?ctx), ?q + length ?f + 1)" "map (file_desc buf) es = map Some (hd_files h)"
    using old_file_entries_at [OF h(2) f, of start dbg "lc_files ?ctx"] e assms(6,8) by auto
  have "header_old_directories dbg buf start ctx p = DW_OK (?ctx, ?q)"
    using v ss(1) e by (simp add: header_old_directories_def)
  moreover have "header_old_files dbg buf start ?ctx ?q =
      DW_OK (?ctx\<lparr>lc_files := add_files ctx es (lc_files ctx)\<rparr>, p + length (encode_lists h))"
    using v es(1) e unfolding el by (simp add: header_old_files_def add_files_def)
  moreover have "lists_read buf h ctx (?ctx\<lparr>lc_files := add_files ctx es (lc_files ctx)\<rparr>)"
    using ss(2) es(2) unfolding lists_read_def
    by (intro exI [of _ ss] exI [of _ es] exI [of _ "lc_directory_entry_format_count ctx"]
        exI [of _ "lc_directory_format_values ctx"] exI [of _ "lc_file_name_format_count ctx"]
        exI [of _ "lc_file_format_values ctx"]) simp
  ultimately show ?thesis by auto
qed

lemma read_format_pairs_at:
  assumes "\<forall>(a, b) \<in> set ps. a < 128 \<and> b < 128"
    and "holds_at buf p (concat (map (\<lambda>(a, b). [word_of_nat a, word_of_nat b]) ps))"
    and "p + 2 * length ps \<le> e" "e \<le> length buf"
  shows "read_format_pairs (length ps) buf p e =
    DW_OK (map (\<lambda>(a, b). (word_of_nat a, word_of_nat b)) ps, p + 2 * length ps)"
  using assms(1-3)
proof (induction ps arbitrary: p)
  case (Cons x ps)
  obtain a b where x: "x = (a, b)" by (cases x)
  have h: "buf ! p = word_of_nat a" "buf ! (p + 1) = word_of_nat b"
    "holds_at buf (p + 2) (concat (map (\<lambda>(a, b). [word_of_nat a, word_of_nat b]) ps))"
    using Cons.prems(2) x by (simp_all add: holds_at_Cons)
  have e: "p < e" "p + 1 < e" using Cons.prems(3) by simp_all
  have "leb128_uword_wrapper buf p e = DW_OK (word_of_nat a, p + 1)"
    "leb128_uword_wrapper buf (p + 1) e = DW_OK (word_of_nat b, p + 1 + 1)"
    using small_uword_at [OF e(1) assms(4) h(1)] small_uword_at [OF e(2) assms(4) h(2)] Cons.prems(1) x by simp_all
  moreover have "read_format_pairs (length ps) buf (p + 2) e =
      DW_OK (map (\<lambda>(a, b). (word_of_nat a, word_of_nat b)) ps, p + 2 + 2 * length ps)"
    using Cons.IH [OF _ h(3)] Cons.prems(1,3) by simp
  ultimately show ?case using x by simp
qed simp

lemma header_directories_at:
  assumes "holds_at buf p ([1, 1, 8] @ uleb_encode (length ds) @ concat (map encode_string ds))"
    and "\<forall>d \<in> set ds. 0 \<notin> set d" "length ds \<le> unat (lc_total_length ctx)"
    and "p + 3 + length (uleb_encode (length ds)) + length (concat (map encode_string ds)) \<le> lc_line_ptr_end ctx"
    and "lc_line_ptr_end ctx \<le> length buf" "length buf < 2 ^ 60"
  shows "\<exists>ss. header_directories dbg buf n ctx p =
      DW_OK (ctx\<lparr>lc_directory_entry_format_count := 1, lc_include_directories := ss,
          lc_directory_format_values := [(1, 8)], lc_include_directories_count := word_of_nat (length ss)\<rparr>,
        p + 3 + length (uleb_encode (length ds)) + length (concat (map encode_string ds))) \<and>
      map (string_at buf) ss = map Some ds"
proof -
  let ?e = "lc_line_ptr_end ctx"
  let ?u = "uleb_encode (length ds)"
  let ?d = "concat (map encode_string ds)"
  have pos: "0 < length ?u" by simp
  have h: "p < length buf" "buf ! p = 1" "buf ! (p + 1) = 1" "buf ! (p + 2) = 8"
    "holds_at buf (p + 3) ?u" "holds_at buf (p + 3 + length ?u) ?d"
    using assms(1) by (simp_all add: holds_at_Cons numeral_3_eq_3)
  have e: "p < ?e" "p + 1 < ?e" "p + 3 < ?e" "p + 3 + length ?u \<le> ?e" using assms(4) pos by linarith+
  have "length ds \<le> length ?d" by (rule length_concat_ge) simp
  then have l: "length ds < 2 ^ 60" using assms(4-6) by linarith
  then have l64: "length ds < 2 ^ 64" by simp
  have f: "read_format_pairs 1 buf (p + 1) ?e = DW_OK ([(1, 8)], p + 3)"
    using read_format_pairs_at [of "[(1, 8)]" buf "p + 1" ?e] h e assms(5)
    by (simp add: holds_at_Cons eval_nat_numeral)
  have u: "leb128_uword_wrapper buf (p + 3) ?e = DW_OK (word_of_nat (length ds), p + 3 + length ?u)"
    using uword_at [OF h(5) e(4) assms(5) l64] .
  obtain ss where ss: "directories (length ds) [(1, 8)] dbg n buf ?e (p + 3 + length ?u) =
      DW_OK (ss, p + 3 + length ?u + length ?d)" "map (string_at buf) ss = map Some ds"
    using directories_at [OF h(6) assms(2,4,5)] by blast
  have ls: "length ss = length ds" using ss(2) by (metis length_map)
  have c: "unat (word_of_nat (length ds) :: u64) = length ds" using l64 by (rule unat_of_small)
  have g: "(?e \<le> p + 1) = False" "(?e \<le> p + 3) = False"
    "(lc_total_length ctx < word_of_nat (length ds)) = False" "((1 :: u8) = 0) = False"
    using e assms(3) c by (simp_all add: word_less_nat_alt not_less)
  have k: "check_alloc_size 8 (word_of_nat (length ds)) = DW_OK ()"
    by (rule check_alloc_size_ok) (use c l in simp)
  have b: "header_byte buf ctx p DW_DLE_LINE_NUMBER_HEADER_ERROR = DW_OK 1"
    using header_byte_at [OF e(1) assms(5)] h(2) by simp
  have "header_directories dbg buf n ctx p =
      DW_OK (ctx\<lparr>lc_directory_entry_format_count := ucast (1 :: u8), lc_include_directories := ss,
          lc_directory_format_values := [(1, 8)], lc_include_directories_count := word_of_nat (length ds)\<rparr>,
        p + 3 + length ?u + length ?d)"
    by (simp only: header_directories_def Let_def b dw_bind.simps unsigned_1 g if_False f prod.case u k c ss(1)
        simp_thms)
  then show ?thesis using ss(2) ls by (intro exI [of _ ss]) simp
qed

lemma header_files_at:
  assumes "holds_at buf p ([4, 1, 8, 2, 0xf, 3, 0xf, 4, 0xf] @ uleb_encode (length fs) @ concat (map encode_file fs))"
    and "\<forall>(name, d, t, l) \<in> set fs. 0 \<notin> set name \<and> d < 2 ^ 64 \<and> t < 2 ^ 64 \<and> l < 2 ^ 64"
    and "length fs \<le> unat (lc_total_length ctx)"
    and "p + 9 + length (uleb_encode (length fs)) + length (concat (map encode_file fs)) \<le> lc_line_ptr_end ctx"
    and "lc_line_ptr_end ctx \<le> length buf" "length buf < 2 ^ 60"
  shows "\<exists>es. header_files dbg buf n ctx p =
      DW_OK (ctx\<lparr>lc_file_name_format_count := 4, lc_files := add_files ctx es (lc_files ctx),
          lc_file_format_values := file_formats\<rparr>,
        p + 9 + length (uleb_encode (length fs)) + length (concat (map encode_file fs))) \<and>
      map (file_desc buf) es = map Some fs"
proof -
  let ?e = "lc_line_ptr_end ctx"
  let ?u = "uleb_encode (length fs)"
  let ?f = "concat (map encode_file fs)"
  have pos: "0 < length ?u" by simp
  have h: "buf ! p = 4" "holds_at buf (p + 1) [1, 8, 2, 0xf, 3, 0xf, 4, 0xf]"
    "holds_at buf (p + 9) ?u" "holds_at buf (p + 9 + length ?u) ?f"
    using assms(1) by (simp_all add: holds_at_Cons eval_nat_numeral)
  have e: "p < ?e" "p + 1 < ?e" "p + 9 \<le> ?e" "p + 9 + length ?u \<le> ?e" using assms(4) pos by linarith+
  have "length fs \<le> length ?f" by (rule length_concat_ge) (simp only: encode_file_pos)
  then have l: "length fs < 2 ^ 60" using assms(4-6) by linarith
  then have l64: "length fs < 2 ^ 64" by simp
  have f: "read_format_pairs 4 buf (p + 1) ?e = DW_OK (file_formats, p + 9)"
    using read_format_pairs_at [of "[(1, 8), (2, 0xf), (3, 0xf), (4, 0xf)]" buf "p + 1" ?e] h(2) e assms(5)
    by (simp add: holds_at_Cons eval_nat_numeral)
  have u: "leb128_uword_wrapper buf (p + 9) ?e = DW_OK (word_of_nat (length fs), p + 9 + length ?u)"
    using uword_at [OF h(3) e(4) assms(5) l64] .
  obtain es where es: "file_names (length fs) file_formats dbg n buf ctx (lc_files ctx) (p + 9 + length ?u) =
      DW_OK (add_files ctx es (lc_files ctx), p + 9 + length ?u + length ?f)" "map (file_desc buf) es = map Some fs"
    using file_names_at [OF h(4) assms(2,4,5)] by blast
  have c: "unat (word_of_nat (length fs) :: u64) = length fs" using l64 by (rule unat_of_small)
  have g: "(?e \<le> p + 1) = False" "(lc_total_length ctx < word_of_nat (length fs)) = False"
    using e assms(3) c by (simp_all add: word_less_nat_alt not_less)
  have b: "header_byte buf ctx p DW_DLE_LINE_NUMBER_HEADER_ERROR = DW_OK 4"
    using header_byte_at [OF e(1) assms(5)] h(1) by simp
  have four: "unat (4 :: u8) = 4" "(ucast (4 :: u8) :: u64) = 4" by simp_all
  have "header_files dbg buf n ctx p =
      DW_OK (ctx\<lparr>lc_file_name_format_count := 4, lc_files := add_files ctx es (lc_files ctx),
          lc_file_format_values := file_formats\<rparr>, p + 9 + length ?u + length ?f)"
    by (simp only: header_files_def Let_def b dw_bind.simps four g if_False f prod.case u c es(1))
  then show ?thesis using es(2) by blast
qed

lemma version5_lists_at:
  assumes "holds_at buf p (encode_lists h)" "header_ok h" "hd_version h = 5"
    and "lc_version_number ctx = 5" "p + length (encode_lists h) \<le> lc_line_ptr_end ctx"
    and "lc_line_ptr_end ctx \<le> length buf" "length buf < 2 ^ 60"
    and "length (encode_lists h) \<le> unat (lc_total_length ctx)"
  shows "\<exists>ctx'. header_version5_part dbg buf n ctx p = DW_OK (ctx', p + length (encode_lists h)) \<and>
      lists_read buf h ctx ctx'"
proof -
  let ?e = "lc_line_ptr_end ctx"
  let ?u = "uleb_encode (length (hd_dirs h))"
  let ?d = "concat (map encode_string (hd_dirs h))"
  let ?w = "uleb_encode (length (hd_files h))"
  let ?f = "concat (map encode_file (hd_files h))"
  let ?D = "[1, 1, 8] @ ?u @ ?d"
  let ?F = "[4, 1, 8, 2, 0xf, 3, 0xf, 4, 0xf] @ ?w @ ?f"
  have el: "encode_lists h = ?D @ ?F" using assms(3) by (simp add: encode_lists_def)
  have h: "holds_at buf p ?D" "holds_at buf (p + length ?D) ?F"
    using assms(1) unfolding el holds_at_append by simp_all
  have e: "p + length ?D + length ?F \<le> ?e" "length ?D + length ?F \<le> unat (lc_total_length ctx)"
    using assms(5,8) unfolding el by simp_all
  have n: "length (hd_dirs h) \<le> length ?d" "length (hd_files h) \<le> length ?f"
    by (rule length_concat_ge, simp, rule length_concat_ge, simp only: encode_file_pos)
  have d: "\<forall>d \<in> set (hd_dirs h). 0 \<notin> set d" using assms(2) by (simp add: header_ok_def)
  have f: "\<forall>(name, d, t, l) \<in> set (hd_files h). 0 \<notin> set name \<and> d < 2 ^ 64 \<and> t < 2 ^ 64 \<and> l < 2 ^ 64"
    using assms(2) by (auto simp: header_ok_def file_ok_def)
  obtain ss where ss: "header_directories dbg buf n ctx p =
      DW_OK (ctx\<lparr>lc_directory_entry_format_count := 1, lc_include_directories := ss,
          lc_directory_format_values := [(1, 8)], lc_include_directories_count := word_of_nat (length ss)\<rparr>,
        p + 3 + length ?u + length ?d)" "map (string_at buf) ss = map Some (hd_dirs h)"
    using header_directories_at [OF h(1) d _ _ assms(6,7), of dbg n] n(1) e by auto
  let ?ctx = "ctx\<lparr>lc_directory_entry_format_count := 1, lc_include_directories := ss,
          lc_directory_format_values := [(1, 8)], lc_include_directories_count := word_of_nat (length ss)\<rparr>"
  have q: "p + length ?D = p + 3 + length ?u + length ?d" by simp
  obtain es where es: "header_files dbg buf n ?ctx (p + 3 + length ?u + length ?d) =
      DW_OK (?ctx\<lparr>lc_file_name_format_count := 4, lc_files := add_files ?ctx es (lc_files ?ctx),
          lc_file_format_values := file_formats\<rparr>,
        p + 3 + length ?u + length ?d + 9 + length ?w + length ?f)" "map (file_desc buf) es = map Some (hd_files h)"
    using header_files_at [OF h(2) [unfolded q] f, of ?ctx dbg n] n(2) e assms(6,7) by auto
  let ?ctx' = "?ctx\<lparr>lc_file_name_format_count := 4, lc_files := add_files ?ctx es (lc_files ?ctx),
          lc_file_format_values := file_formats\<rparr>"
  have l: "p + length (encode_lists h) = p + 3 + length ?u + length ?d + 9 + length ?w + length ?f"
    unfolding el by simp
  have "header_version5_part dbg buf n ctx p = DW_OK (?ctx', p + length (encode_lists h))"
    unfolding l using assms(4) ss(1) es(1) by (simp add: header_version5_part_def)
  moreover have "lists_read buf h ctx ?ctx'"
    using ss(2) es(2) unfolding lists_read_def
    by (intro exI [of _ ss] exI [of _ es] exI [of _ 1] exI [of _ "[(1, 8)]"] exI [of _ 4]
        exI [of _ file_formats]) (simp add: add_files_def)
  ultimately show ?thesis by blast
qed

section \<open>The whole header\<close>

text \<open>The context agrees with the description: its numbers, and the lists when their strings are looked up.\<close>

definition describes :: "bytes \<Rightarrow> line_header \<Rightarrow> line_context \<Rightarrow> bool" where
  "describes buf h ctx \<longleftrightarrow>
     lc_version_number ctx = word_of_nat (hd_version h) \<and>
     lc_minimum_instruction_length ctx = hd_min_inst h \<and>
     lc_maximum_ops_per_instruction ctx = (if hd_version h \<ge> 4 then hd_max_ops h else 0) \<and>
     lc_default_is_stmt ctx = hd_default_is_stmt h \<and> lc_line_base ctx = hd_line_base h \<and>
     lc_line_range ctx = hd_line_range h \<and> lc_opcode_base ctx = hd_opcode_base h \<and>
     lc_std_op_count ctx = hd_opcode_base h - 1 \<and> lc_actuals_table_offset ctx = 0 \<and>
     map (string_at buf) (lc_include_directories ctx) = map Some (hd_dirs h) \<and>
     map (file_desc buf) (lc_file_entries (lc_files ctx)) = map Some (hd_files h)"

lemma describes_finish:
  assumes "lists_read buf h ctx ctx'" "lc_file_entries (lc_files ctx) = []"
    and "describes buf (h\<lparr>hd_dirs := [], hd_files := []\<rparr>) ctx" "lc_include_directories ctx = []"
  shows "describes buf h (ctx'\<lparr>lc_line_ptr_start := q, lc_table_count := k\<rparr>)"
  using assms by (auto simp: lists_read_def describes_def)

lemma lists_part_at:
  assumes "holds_at buf p (encode_lists h)" "header_ok h"
    and "lc_version_number ctx = word_of_nat (hd_version h)"
    and "p + length (encode_lists h) \<le> lc_line_ptr_end ctx" "lc_line_ptr_end ctx \<le> length buf"
    and "length buf < 2 ^ 60" "start \<le> p" "length (encode_lists h) \<le> unat (lc_total_length ctx)"
    and "p < lc_line_ptr_end ctx"
  shows "\<exists>ctx'. dw_bind (header_old_directories dbg buf start ctx p) (\<lambda>(ctx, p).
      dw_bind (header_old_files dbg buf start ctx p) (\<lambda>(ctx, p).
      dw_bind (header_experimental_offsets dbg buf n ctx p) (\<lambda>(ctx, p).
        header_version5_part dbg buf n ctx p))) = DW_OK (ctx', p + length (encode_lists h)) \<and>
    lists_read buf h ctx ctx'"
proof (cases "hd_version h = 5")
  case True
  then have v: "lc_version_number ctx = 5" using assms(3) by simp
  obtain ctx' where "header_version5_part dbg buf n ctx p = DW_OK (ctx', p + length (encode_lists h))"
    "lists_read buf h ctx ctx'"
    using version5_lists_at [OF assms(1,2) True v assms(4-6,8)] by blast
  then show ?thesis
    using v assms(9) by (simp add: header_old_directories_def header_old_files_def header_experimental_offsets_def)
next
  case False
  then have v: "hd_version h \<in> {2, 3, 4}" using assms(2) by (auto simp: header_ok_def)
  then have v5: "hd_version h < 5" by auto
  obtain ctx' where c: "dw_bind (header_old_directories dbg buf start ctx p) (\<lambda>(ctx, p).
      header_old_files dbg buf start ctx p) = DW_OK (ctx', p + length (encode_lists h))"
    "lists_read buf h ctx ctx'"
    using old_lists_at [OF assms(1,2) v5 assms(3-7)] by blast
  have "lc_version_number ctx' = word_of_nat (hd_version h)"
    using c(2) assms(3) by (auto simp: lists_read_def)
  then have w: "lc_version_number ctx' \<in> {2, 3, 4}" using v by auto
  have "dw_bind (header_experimental_offsets dbg buf n ctx' q) (\<lambda>(ctx, p).
      header_version5_part dbg buf n ctx p) = DW_OK (ctx', q)" for q
    using w by (auto simp: header_experimental_offsets_def header_version5_part_def)
  then have "dw_bind (dw_bind (header_old_directories dbg buf start ctx p) (\<lambda>(ctx, p).
      header_old_files dbg buf start ctx p)) (\<lambda>(ctx, p).
      dw_bind (header_experimental_offsets dbg buf n ctx p) (\<lambda>(ctx, p).
        header_version5_part dbg buf n ctx p)) = DW_OK (ctx', p + length (encode_lists h))"
    using c(1) by simp
  then show ?thesis using c(2) unfolding dw_bind_assoc by (auto simp: split_def)
qed

text \<open>Where the lists start, and the context when they are reached.\<close>

definition lists_offset :: "line_header \<Rightarrow> nat" where
  "lists_offset h = (if hd_dwarf64 h then 12 else 4) + (if hd_version h = 5 then 4 else 2) + offset_size h + 1 +
     (if hd_version h \<ge> 4 then 1 else 0) + 4 + (unat (hd_opcode_base h) - 1)"

definition fixed_part_read :: "bytes \<Rightarrow> line_header \<Rightarrow> nat \<Rightarrow> ptr \<Rightarrow> ptr \<Rightarrow> line_context \<Rightarrow> bool" where
  "fixed_part_read buf h tot s e ctx \<longleftrightarrow> describes buf (h\<lparr>hd_dirs := [], hd_files := []\<rparr>) ctx \<and>
     lc_line_ptr_end ctx = e \<and> lc_total_length ctx = word_of_nat tot \<and>
     lc_line_prologue_start ctx + length (encode_params h) = s + lists_offset h \<and>
     lc_prologue_length ctx = word_of_nat (length (encode_params h) + length (encode_lists h)) \<and>
     lc_include_directories ctx = [] \<and> lc_file_entries (lc_files ctx) = [] \<and>
     lc_linecount_logicals ctx = 0 \<and> lc_linecount_actuals ctx = 0"

lemma encode_params_length:
  assumes "header_ok h"
  shows "length (encode_params h) = 1 + (if hd_version h \<ge> 4 then 1 else 0) + 4 + (unat (hd_opcode_base h) - 1)"
proof -
  have "length dwarf_standard_opcode_operand_count = 15"
    by (simp add: dwarf_standard_opcode_operand_count_def)
  moreover have "unat (hd_opcode_base h) - 1 \<le> 15" using assms by (auto simp: header_ok_def)
  ultimately show ?thesis by (simp add: encode_params_def)
qed

lemma encode_header_length:
  assumes "header_ok h"
  shows "length (encode_header dbg h n) = lists_offset h + length (encode_lists h)"
    "length (encode_header dbg h n) = (if hd_dwarf64 h then 12 else 4) + length (encode_after_length dbg h)"
  using encode_params_length [OF assms]
  by (simp_all add: encode_header_def Let_def lists_offset_def encode_after_length_def)

lemma fixed_part_at:
  assumes "holds_at buf s (encode_header dbg h n)" "header_ok h"
    and "s + length (encode_header dbg h n) + n \<le> length buf" "length buf < 2 ^ 60"
    and "\<not> hd_dwarf64 h \<Longrightarrow> length (encode_after_length dbg h) + n < 0xffffffff"
  defines "e \<equiv> s + length (encode_header dbg h n) + n"
    and "tot \<equiv> length (encode_after_length dbg h) + n"
  shows "\<exists>ctx. fixed_part_read buf h tot s e ctx \<and>
    read_line_table_header dbg a g buf s new_line_context =
      dw_bind (dw_bind (header_old_directories dbg buf s ctx (s + lists_offset h)) (\<lambda>(ctx, p).
        dw_bind (header_old_files dbg buf s ctx p) (\<lambda>(ctx, p).
        dw_bind (header_experimental_offsets dbg buf (offset_size h) ctx p) (\<lambda>(ctx, p).
          header_version5_part dbg buf (offset_size h) ctx p)))) (\<lambda>(ctx, p). header_finish ctx p)"
proof -
  let ?v = "hd_version h"
  let ?k = "offset_size h"
  let ?total = "length (encode_after_length dbg h) + n"
  let ?params = "encode_params h"
  let ?lists = "encode_lists h"
  let ?m = "length ?params + length ?lists"
  let ?s0 = "s + (if hd_dwarf64 h then 12 else 4)"
  let ?s1 = "?s0 + (if ?v = 5 then 4 else 2)"
  let ?s2 = "?s1 + ?k"
  let ?s4 = "?s2 + 1 + (if ?v \<ge> 4 then 1 else 0)"
  let ?s5 = "?s4 + 4 + (unat (hd_opcode_base h) - 1)"
  let ?e = "s + length (encode_header dbg h n) + n"
  have v: "?v \<in> {2, 3, 4, 5}" "hd_max_ops h \<noteq> 0" "hd_line_range h \<noteq> 0" "0 < unat (hd_opcode_base h)"
    "unat (hd_opcode_base h) \<le> 16" using assms(2) by (simp_all add: header_ok_def)
  have k: "?k = 4 \<or> ?k = 8" by (simp add: offset_size_def)
  note lp = encode_params_length [OF assms(2)]
  have la: "length (encode_after_length dbg h) = (if ?v = 5 then 4 else 2) + ?k + ?m"
    by (simp add: encode_after_length_def)
  note lh = encode_header_length(2) [OF assms(2), of dbg n]
  have e: "?e = ?s5 + length ?lists + n" "?e = ?s0 + ?total" unfolding lh la lp by simp_all
  have pos: "0 < length ?lists" by (simp add: encode_lists_def)
  have all: "holds_at buf s (if hd_dwarf64 h then fixed_bytes dbg 4 0xffffffff @ fixed_bytes dbg 8 ?total
      else fixed_bytes dbg 4 ?total)" "holds_at buf ?s0 (encode_after_length dbg h)"
    using assms(1) by (auto simp: encode_header_def Let_def)
  have h: "holds_at buf ?s0 (fixed_bytes dbg 2 ?v @ (if ?v = 5 then [hd_address_size h, hd_segment_size h] else []))"
    "holds_at buf ?s1 (fixed_bytes dbg ?k ?m)" "holds_at buf ?s2 (?params @ ?lists)"
    using all(2) unfolding encode_after_length_def by (auto simp: ac_simps)
  have hp: "holds_at buf ?s2 [hd_min_inst h]" "holds_at buf (?s2 + 1) (if ?v \<ge> 4 then [hd_max_ops h] else [])"
    "holds_at buf ?s4 [hd_default_is_stmt h, hd_line_base h, hd_line_range h, hd_opcode_base h]"
    "holds_at buf (?s4 + 4) (take (unat (hd_opcode_base h) - 1) dwarf_standard_opcode_operand_count)"
    using h(3) unfolding holds_at_append encode_params_def by (auto simp: ac_simps)
  have hl: "holds_at buf ?s5 ?lists" using h(3) unfolding holds_at_append lp by (simp add: ac_simps)
  have hm: "holds_at buf ?s1 (fixed_bytes dbg ?k ?m @ [hd_min_inst h])"
    unfolding holds_at_append using h(2) hp(1) by simp
  have eb: "?e \<le> length buf" using assms(3) by simp
  have tot: "?total < 2 ^ 60" "?total \<le> length buf" "0 < ?total" "?m < ?total"
    using eb assms(4) k unfolding e(2) la by auto
  have tu: "unat (word_of_nat ?total :: u64) = ?total" using tot(1) by (intro unat_of_small) simp
  let ?c1 = "new_line_context\<lparr>lc_line_ptr_start := s, lc_line_ptr_end := ?e,
      lc_length_field_length := word_of_nat ((if hd_dwarf64 h then 8 else 4) + (if hd_dwarf64 h then 4 else 0)),
      lc_section_offset := s, lc_total_length := word_of_nat ?total\<rparr>"
  have p1: "header_lengths dbg buf s new_line_context = DW_OK ((?c1, ?k), ?s0)"
    using area_length_at [OF all(1) tot(3,2) assms(4,5)] tu eb e(2)
    by (simp add: header_lengths_def Let_def offset_size_def)
  let ?c2 = "?c1\<lparr>lc_version_number := word_of_nat ?v, lc_address_size := (if ?v = 5 then hd_address_size h else a),
      lc_segment_selector_size := (if ?v = 5 then hd_segment_size h else g)\<rparr>"
  have le: "?s0 + 4 \<le> ?e" "?s1 + ?k < ?e" "?s2 + 1 < ?e" "?s5 < ?e" using e(1) k pos by auto
  have p2: "header_version dbg buf a g ?c1 ?s0 = DW_OK (?c2, ?s1)"
    using header_version_at [OF h(1) v(1), of ?c1 a g] le eb by simp
  let ?c3 = "?c2\<lparr>lc_prologue_length := word_of_nat ?m, lc_line_prologue_start := ?s2,
      lc_minimum_instruction_length := hd_min_inst h\<rparr>"
  have m: "?m < 256 ^ ?k" "?m < 2 ^ 64" using tot assms(5) by (auto simp: offset_size_def)
  have p3: "header_prologue dbg buf ?k ?c2 ?s1 = DW_OK (?c3, ?s2 + 1)"
    using header_prologue_at [OF hm _ m, of ?c2] k le eb tu tot(4) by auto
  let ?c4 = "if ?v \<ge> 4 then ?c3\<lparr>lc_maximum_ops_per_instruction := hd_max_ops h\<rparr> else ?c3"
  have p4: "header_max_ops buf ?c3 (?s2 + 1) = DW_OK (?c4, ?s4)"
    using header_max_ops_at [OF hp(2) v(1) _ _ _ v(2), of ?c3] le eb by simp
  have c4: "lc_line_ptr_end ?c4 = ?e" "lc_version_number ?c4 = word_of_nat ?v"
    "lc_total_length ?c4 = word_of_nat ?total" by simp_all
  let ?c5 = "?c4\<lparr>lc_default_is_stmt := hd_default_is_stmt h, lc_line_base := hd_line_base h,
      lc_line_range := hd_line_range h, lc_opcode_base := hd_opcode_base h, lc_opcode_length_table := ?s4 + 4,
      lc_std_op_count := hd_opcode_base h - 1\<rparr>"
  have p5: "header_opcodes buf ?c4 ?s4 = DW_OK (?c5, ?s5)"
    by (rule header_opcodes_at [OF hp(3) v(3,4)]) (use le eb c4 in simp_all)
  have "unat (hd_opcode_base h - 1) = unat (hd_opcode_base h) - 1" using v(4) by (simp add: unat_minus_one unat_gt_0)
  then have p6: "header_operand_counts buf ?c5 = DW_OK ()"
    by (intro header_operand_counts_at [OF hp(4)]) (use v(5) le eb in simp_all)
  have "fixed_part_read buf h tot s e ?c5"
    unfolding fixed_part_read_def lists_offset_def lp e_def tot_def
    by (cases "?v \<ge> 4"; simp add: describes_def new_line_context_def)
  moreover have "read_line_table_header dbg a g buf s new_line_context =
      dw_bind (dw_bind (header_old_directories dbg buf s ?c5 ?s5) (\<lambda>(ctx, p).
      dw_bind (header_old_files dbg buf s ctx p) (\<lambda>(ctx, p).
      dw_bind (header_experimental_offsets dbg buf ?k ctx p) (\<lambda>(ctx, p).
        header_version5_part dbg buf ?k ctx p)))) (\<lambda>(ctx, p). header_finish ctx p)"
    by (simp only: read_line_table_header_def p1 dw_bind.simps prod.case p2 p3 p4 p5 p6)
       (simp only: dw_bind_assoc split_def)
  moreover have "?s5 = s + lists_offset h" by (simp add: lists_offset_def)
  ultimately show ?thesis by metis
qed

lemma header_at:
  assumes "holds_at buf s (encode_header dbg h n)" "header_ok h"
    and "s + length (encode_header dbg h n) + n \<le> length buf" "length buf < 2 ^ 60"
    and "\<not> hd_dwarf64 h \<Longrightarrow> length (encode_after_length dbg h) + n < 0xffffffff"
  shows "\<exists>ctx. read_line_table_header dbg a g buf s new_line_context =
      DW_OK (ctx, s + length (encode_header dbg h n)) \<and> describes buf h ctx \<and>
    lc_line_ptr_end ctx = s + length (encode_header dbg h n) + n \<and>
    lc_linecount_logicals ctx = 0 \<and> lc_linecount_actuals ctx = 0"
proof -
  let ?total = "length (encode_after_length dbg h) + n"
  let ?lists = "encode_lists h"
  let ?m = "length (encode_params h) + length ?lists"
  let ?p = "s + lists_offset h"
  let ?q = "s + length (encode_header dbg h n)"
  obtain c5 where c5: "fixed_part_read buf h ?total s (?q + n) c5" and
    read: "read_line_table_header dbg a g buf s new_line_context =
      dw_bind (dw_bind (header_old_directories dbg buf s c5 ?p) (\<lambda>(ctx, p).
        dw_bind (header_old_files dbg buf s ctx p) (\<lambda>(ctx, p).
        dw_bind (header_experimental_offsets dbg buf (offset_size h) ctx p) (\<lambda>(ctx, p).
          header_version5_part dbg buf (offset_size h) ctx p)))) (\<lambda>(ctx, p). header_finish ctx p)"
    using fixed_part_at [OF assms] by auto
  have q: "?q = ?p + length ?lists" using encode_header_length(1) [OF assms(2)] by simp
  have hl: "holds_at buf ?p ?lists"
    using assms(1) encode_params_length [OF assms(2)]
    by (auto simp: encode_header_def encode_after_length_def Let_def lists_offset_def ac_simps)
  have m: "?m < ?total" "?total < 2 ^ 60"
    using assms(3,4) unfolding encode_header_length(2) [OF assms(2)]
    by (auto simp: encode_after_length_def offset_size_def)
  have tu: "unat (word_of_nat ?total :: u64) = ?total" "unat (word_of_nat ?m :: u64) = ?m"
    using m by (intro unat_of_small; simp)+
  have v: "lc_version_number c5 = word_of_nat (hd_version h)" "(word_of_nat (hd_version h) :: u16) \<noteq> 0xf006"
    using c5 assms(2) by (auto simp: fixed_part_read_def describes_def header_ok_def)
  have pos: "0 < length ?lists" by (simp add: encode_lists_def)
  have bnd: "?p + length ?lists \<le> lc_line_ptr_end c5" "lc_line_ptr_end c5 \<le> length buf" "s \<le> ?p"
    "length ?lists \<le> unat (lc_total_length c5)" "?p < lc_line_ptr_end c5"
    using c5 m tu assms(3) q pos by (simp_all add: fixed_part_read_def)
  obtain c6 where p7: "dw_bind (header_old_directories dbg buf s c5 ?p) (\<lambda>(ctx, p).
      dw_bind (header_old_files dbg buf s ctx p) (\<lambda>(ctx, p).
      dw_bind (header_experimental_offsets dbg buf (offset_size h) ctx p) (\<lambda>(ctx, p).
        header_version5_part dbg buf (offset_size h) ctx p))) = DW_OK (c6, ?q)" and
    c6: "lists_read buf h c5 c6"
    using lists_part_at [OF hl assms(2) v(1) bnd(1,2) assms(4) bnd(3-5)] unfolding q by blast
  have f6: "lc_line_ptr_end c6 = ?q + n" "lc_version_number c6 = word_of_nat (hd_version h)"
    "lc_line_prologue_start c6 + ?m = ?q" "lc_prologue_length c6 = word_of_nat ?m"
    "lc_linecount_logicals c6 = 0" "lc_linecount_actuals c6 = 0"
    using c6 c5 v(1) q by (auto simp: lists_read_def fixed_part_read_def)
  have "\<exists>k. header_finish c6 ?q = DW_OK (c6\<lparr>lc_line_ptr_start := ?q, lc_table_count := k\<rparr>, ?q)"
    unfolding header_finish_def Let_def f6(1,2,4) if_not_P [OF v(2)] tu f6(3) by auto
  then obtain k where p8: "header_finish c6 ?q = DW_OK (c6\<lparr>lc_line_ptr_start := ?q, lc_table_count := k\<rparr>, ?q)" ..
  have "describes buf h (c6\<lparr>lc_line_ptr_start := ?q, lc_table_count := k\<rparr>)"
    by (rule describes_finish [OF c6]) (use c5 in \<open>simp_all add: fixed_part_read_def\<close>)
  moreover have "read_line_table_header dbg a g buf s new_line_context =
      DW_OK (c6\<lparr>lc_line_ptr_start := ?q, lc_table_count := k\<rparr>, ?q)"
    unfolding read p7 dw_bind.simps prod.case p8 ..
  ultimately show ?thesis using f6(1,5,6)
    by (intro exI [of _ "c6\<lparr>lc_line_ptr_start := ?q, lc_table_count := k\<rparr>"]) simp
qed

section \<open>A table with its program\<close>

text \<open>What a program depends on besides its instructions.\<close>

definition header_parameters :: "line_header \<Rightarrow> line_context" where
  "header_parameters h = new_line_context
     \<lparr>lc_minimum_instruction_length := hd_min_inst h,
      lc_maximum_ops_per_instruction := (if hd_version h \<ge> 4 then hd_max_ops h else 0),
      lc_default_is_stmt := hd_default_is_stmt h, lc_line_base := hd_line_base h,
      lc_line_range := hd_line_range h, lc_opcode_base := hd_opcode_base h\<rparr>"

definition table_params :: "dwarf_debug \<Rightarrow> u8 \<Rightarrow> line_header \<Rightarrow> line_params" where
  "table_params dbg a h = program_params dbg a False True (header_parameters h) 0 True False"

definition encode_table :: "dwarf_debug \<Rightarrow> u8 \<Rightarrow> line_header \<Rightarrow> line_op list \<Rightarrow> bytes" where
  "encode_table dbg a h ops =
     (let program = concat (map (assemble (table_params dbg a h)) ops)
      in encode_header dbg h (length program) @ program)"

definition machine_of :: "line_context \<Rightarrow> u8 \<times> u8 \<times> u8 \<times> u8 \<times> u8 \<times> u8" where
  "machine_of ctx = (lc_minimum_instruction_length ctx, lc_maximum_ops_per_instruction ctx,
     lc_default_is_stmt ctx, lc_line_base ctx, lc_line_range ctx, lc_opcode_base ctx)"

lemma machine_step_same:
  assumes "machine_of (lp_context p) = machine_of (lp_context q)" "lp_address_size p = lp_address_size q"
  shows "machine_step p op m = machine_step q op m"
  using assms by (cases op) (simp_all add: machine_of_def advance_machine_def init_machine_def Let_def)

lemma machine_run_same:
  assumes "machine_of (lp_context p) = machine_of (lp_context q)" "lp_address_size p = lp_address_size q"
  shows "machine_run p ops m = machine_run q ops m"
  by (induction ops arbitrary: m) (simp_all add: machine_step_same [OF assms] split: option.splits)

lemma assemble_same: "lp_dbg p = lp_dbg q \<Longrightarrow> lp_address_size p = lp_address_size q \<Longrightarrow> assemble p op = assemble q op"
  by (cases op) simp_all

lemma describes_machine: "describes buf h ctx \<Longrightarrow> machine_of ctx = machine_of (header_parameters h)"
  by (simp add: describes_def machine_of_def header_parameters_def)

lemma program_at:
  assumes "in_bounds dbg" "unat a \<le> 8" "header_ok h" "hd_default_is_stmt h \<in> {0, 1}"
    and "describes (de_debug_line dbg) h ctx" "lc_linecount_logicals ctx = 0"
    and "de_debug_line dbg = pre @ concat (map (assemble (table_params dbg a h)) ops) @ post"
    and "e = length pre + length (concat (map (assemble (table_params dbg a h)) ops))"
    and "machine_run (table_params dbg a h) ops (init_machine (header_parameters h)) = Some rows"
  shows "\<exists>ls. read_line_table_program (program_params dbg a False True ctx e True False) (length pre) =
      DW_OK (ctx\<lparr>lc_linebuf_logicals := ls, lc_linecount_logicals := length ls\<rparr>) \<and> map row_of_line ls = rows"
proof -
  let ?p = "program_params dbg a False True ctx e True False"
  let ?q = "table_params dbg a h"
  have m: "machine_of (lp_context ?p) = machine_of (lp_context ?q)" "lp_address_size ?p = lp_address_size ?q"
    using describes_machine [OF assms(5)] by (simp_all add: program_params_def table_params_def)
  have asm: "assemble ?p = assemble ?q"
    by (rule ext, rule assemble_same) (simp_all add: program_params_def table_params_def)
  have init: "init_machine ctx = init_machine (header_parameters h)"
    using assms(5) by (simp add: init_machine_def describes_def header_parameters_def)
  have "unat (hd_opcode_base h) \<le> unat (hd_opcode_base h - 1) + 1"
    using assms(3) by (simp add: header_ok_def unat_minus_one unat_gt_0)
  moreover have "unat (ucast a :: u16) = unat a"
    by (simp add: unsigned_ucast_eq take_bit_nat_eq_self_iff less_trans [OF u8_bound])
  ultimately have ok: "rows_params ?p"
    using assms(1-8)
    by (auto simp: rows_params_def params_ok_def program_params_def describes_def header_ok_def)
  have buf: "lp_buf ?p = pre @ concat (map (assemble ?p) ops) @ post" and
    e: "lp_end ?p = length pre + length (concat (map (assemble ?p) ops))"
    unfolding asm using assms(7,8) by (simp_all add: program_params_def)
  have run: "machine_run ?p ops (init_machine ctx) = Some rows"
    using machine_run_same [OF m] assms(9) init by simp
  have "simulates (ls_regs (init_line_state ?p (length pre))) (init_machine ctx)"
    using ok simulates_init by (simp add: init_line_state_def rows_params_def program_params_def)
  then obtain st where "line_loop ?p (init_line_state ?p (length pre)) = DW_OK st"
    "map row_of_line (ls_chain st) = rows" "ls_files st = lc_files ctx"
    using machine_run_sim [OF ok buf _ e _ run, of "init_line_state ?p (length pre)"]
    by (auto simp: init_line_state_def program_params_def)
  then show ?thesis
    by (auto simp: read_line_table_program_def Let_def program_params_def)
qed

lemma srclines_at:
  assumes "in_bounds dbg" "unat a \<le> 8" "header_ok h" "hd_default_is_stmt h \<in> {0, 1}"
    and "de_debug_line dbg = pre @ encode_table dbg a h ops @ post" "length (de_debug_line dbg) < 2 ^ 60"
    and "\<not> hd_dwarf64 h \<Longrightarrow> length (encode_table dbg a h ops) < 0xffffffff"
    and "machine_run (table_params dbg a h) ops (init_machine (header_parameters h)) = Some rows"
  shows "\<exists>ctx. srclines_b dbg a g (word_of_nat (length pre)) 0 =
      DW_OK (word_of_nat (hd_version h), if rows = [] then 0 else 1, ctx) \<and>
    describes (de_debug_line dbg) h ctx \<and> map row_of_line (lc_linebuf_logicals ctx) = rows"
proof -
  let ?buf = "de_debug_line dbg"
  let ?prog = "concat (map (assemble (table_params dbg a h)) ops)"
  let ?h = "encode_header dbg h (length ?prog)"
  let ?s = "length pre"
  have tab: "encode_table dbg a h ops = ?h @ ?prog" by (simp add: encode_table_def Let_def)
  have hl: "0 < length ?h" by (simp add: encode_header_length(1) [OF assms(3)] lists_offset_def)
  have at: "holds_at ?buf ?s ?h" using assms(5) holds_atI [of pre ?h "?prog @ post"] by (simp add: tab)
  have len: "?s + length ?h + length ?prog \<le> length ?buf" using assms(5) by (simp add: tab)
  have small: "\<not> hd_dwarf64 h \<Longrightarrow> length (encode_after_length dbg h) + length ?prog < 0xffffffff"
    using assms(7) unfolding tab length_append encode_header_length(2) [OF assms(3)] by (simp split: if_splits)
  obtain ctx where hd: "read_line_table_header dbg a g ?buf ?s new_line_context = DW_OK (ctx, ?s + length ?h)"
    "describes ?buf h ctx" "lc_line_ptr_end ctx = ?s + length ?h + length ?prog"
    "lc_linecount_logicals ctx = 0" "lc_linecount_actuals ctx = 0"
    using header_at [OF at assms(3) len assms(6) small] by blast
  have buf: "?buf = (pre @ ?h) @ ?prog @ post" using assms(5) by (simp add: tab)
  obtain ls where pr: "read_line_table_program (program_params dbg a False True ctx (lc_line_ptr_end ctx) True False)
      (length (pre @ ?h)) = DW_OK (ctx\<lparr>lc_linebuf_logicals := ls, lc_linecount_logicals := length ls\<rparr>)"
    "map row_of_line ls = rows"
    using program_at [OF assms(1-4) hd(2,4) buf _ assms(8)] hd(3) by auto
  let ?ctx = "ctx\<lparr>lc_linebuf_logicals := ls, lc_linecount_logicals := length ls\<rparr>"
  have su: "unat (word_of_nat ?s :: u64) = ?s" using len assms(6) by (intro unat_of_small) simp
  have "internal_srclines dbg a g (word_of_nat ?s) 0 True False True =
      dw_bind (check_line_count (length ls)) (\<lambda>_. DW_OK (Some ?ctx))"
  proof -
    have lt: "?s < length ?buf" using len hl by linarith
    then have c: "(length ?buf = 0) = False" "(length ?buf \<le> unat (word_of_nat ?s :: u64)) = False"
      "unat (word_of_nat ?s :: u64) + unat (0 :: u64) = ?s" "(length ?buf < ?s) = False"
      "(word_of_nat ?s :: u64) + 0 = word_of_nat ?s" "(length ?buf < unat (word_of_nat ?s :: u64)) = False"
      using su by (auto simp del: word_of_nat_eq_iff)
    have pr': "read_line_table_program (program_params dbg a False True ctx (lc_line_ptr_end ctx) True False)
        (?s + length ?h) = DW_OK ?ctx" using pr(1) by simp
    have "lc_actuals_table_offset ctx = 0" using hd(2) by (simp add: describes_def)
    then have "read_line_programs dbg a True False True ctx (?s + length ?h) =
        dw_bind (check_line_count (length ls)) (\<lambda>_. DW_OK (Some ?ctx))"
      by (simp add: read_line_programs_def Let_def pr' srclines_result_def)
    then show ?thesis
      by (simp only: internal_srclines_def Let_def c if_False hd(1) dw_bind.simps prod.case)
  qed
  moreover have "check_line_count (length ls) = DW_OK ()"
  proof -
    have inv: "header_inv ?buf ctx (?s + length ?h)"
      using spec_result [OF spec_read_line_table_header [OF assms(1)] hd(1)] by simp
    have wf: "context_wf 2 (length ?buf) ctx"
      using spec_result [OF lists_read_line_table_header [OF assms(6)] hd(1)] by (simp add: lists_ok_wf)
    have ok: "params_ok (program_params dbg a False True ctx (lc_line_ptr_end ctx) True False)"
      by (rule program_params_ok [OF assms(1,2) _ _ _ wf]) (use inv in \<open>simp_all add: header_inv_def\<close>)
    have "context_wf 3 (length ?buf) ?ctx"
      using spec_result [OF program_wf [OF ok, of 2 "length ?buf"] pr(1)] wf hd(3) len by (simp add: program_params_def numeral_3_eq_3)
    then show ?thesis using assms(6) by (simp add: context_wf_def check_line_count_def sint_of_small_nat)
  qed
  ultimately have "srclines_b dbg a g (word_of_nat ?s) 0 =
      DW_OK (ucast (lc_version_number ctx), (if length ls \<noteq> 0 then 1 else 0), ?ctx)"
    using hd(5) by (simp add: srclines_b_def)
  moreover have "(ucast (lc_version_number ctx) :: u64) = word_of_nat (hd_version h)"
    using hd(2) assms(3) by (auto simp: describes_def header_ok_def)
  moreover have "describes ?buf h ?ctx" using hd(2) by (simp add: describes_def)
  ultimately show ?thesis using pr(2) by auto
qed

end
