(* ===== verification/LineTables.thy ===== *)
theory LineTables
  imports LineEncoding
begin

text \<open>
  The properties of the line tables of a unit as its caller sees them, and a concrete table on which they are
  evaluated: the header of any version with its lists, the programs that follow it, and the accessors of the line context.
\<close>

section \<open>A concrete table\<close>

lemma encode_table_line:
  "encode_table (dbg\<lparr>de_debug_line := b\<rparr>) a h ops = encode_table dbg a h ops"
proof -
  have f: "fixed_bytes (dbg\<lparr>de_debug_line := b\<rparr>) n v = fixed_bytes dbg n v" for n v
    by (simp add: fixed_bytes_def)
  then have "assemble (table_params (dbg\<lparr>de_debug_line := b\<rparr>) a h) op = assemble (table_params dbg a h) op" for op
    by (cases op) (simp_all add: table_params_def program_params_def)
  then have e: "map (assemble (table_params (dbg\<lparr>de_debug_line := b\<rparr>) a h)) ops = map (assemble (table_params dbg a h)) ops"
    by simp
  show ?thesis
    unfolding encode_table_def encode_header_def encode_after_length_def f Let_def e ..
qed

definition sample_header :: line_header where
  "sample_header =
     \<lparr>hd_dwarf64 = False, hd_version = 5, hd_address_size = 8, hd_segment_size = 0, hd_min_inst = 1,
      hd_max_ops = 1, hd_default_is_stmt = 1, hd_line_base = 0xfb, hd_line_range = 14, hd_opcode_base = 13,
      hd_dirs = [[0x2f, 0x73], [0x69]], hd_files = [([0x61], 0, 0, 7), ([0x62], 1, 0, 9)]\<rparr>"

definition sample_ops :: "line_op list" where
  "sample_ops = [Set_Address 0x1000, Special 20, Set_File 2, Special 0x4b, Advance_PC 4, End_Sequence]"

definition sample_table :: bytes where
  "sample_table = encode_table debug_le64 8 sample_header sample_ops"

definition sample_debug :: dwarf_debug where
  "sample_debug = debug_le64\<lparr>de_debug_line := [1, 2, 3] @ sample_table @ [4]\<rparr>"

lemma sample_debug_table:
  "de_debug_line sample_debug = [1, 2, 3] @ encode_table sample_debug 8 sample_header sample_ops @ [4]"
  by (simp add: sample_debug_def encode_table_line sample_table_def)

lemma sample_header_ok: "header_ok sample_header" "hd_default_is_stmt sample_header \<in> {0, 1}"
  by (simp_all add: header_ok_def file_ok_def sample_header_def)

lemma sample_table_length: "length sample_table < 200"
  unfolding sample_table_def encode_table_def Let_def length_append encode_header_length(1) [OF sample_header_ok(1)]
  by (simp add: lists_offset_def offset_size_def encode_lists_def encode_file_def small_uleb_encode
      sample_header_def sample_ops_def table_params_def program_params_def)

lemma sample_run:
  "\<exists>rows. machine_run (table_params sample_debug 8 sample_header) sample_ops
      (init_machine (header_parameters sample_header)) = Some rows \<and>
    map (\<lambda>r. (row_address r, row_file r, row_line r)) rows = [(0x1000, 1, 3), (0x1004, 2, 4), (0x1008, 2, 4)]"
  by (simp add: sample_ops_def table_params_def program_params_def header_parameters_def sample_header_def
      new_line_context_def init_machine_def step_to_def fits_def advance_machine_def after_row_def machine_row_def
      line_row.truncate_def Let_def)

lemma sample_debug_length: "length (de_debug_line sample_debug) < 204"
  using sample_table_length by (simp add: sample_debug_def)

lemma sample_table_again: "encode_table sample_debug 8 sample_header sample_ops = sample_table"
  by (simp only: sample_debug_def encode_table_line sample_table_def)

lemma sample_debug_facts:
  "\<not> de_assume_string_in_bounds sample_debug" "length (de_debug_line sample_debug) < 2 ^ 60"
  "length (encode_table sample_debug 8 sample_header sample_ops) < 0xffffffff"
proof -
  show "\<not> de_assume_string_in_bounds sample_debug" by (simp add: sample_debug_def debug_le64_def)
  show "length (de_debug_line sample_debug) < 2 ^ 60" using sample_debug_length by simp
  show "length (encode_table sample_debug 8 sample_header sample_ops) < 0xffffffff"
    unfolding sample_table_again using sample_table_length by simp
qed

lemma spec_srclines_b:
  assumes "\<not> de_assume_string_in_bounds dbg" "unat cc_address_size \<le> 8" "length (de_debug_line dbg) < 2 ^ 60"
  shows "spec True (\<lambda>(version, count, ctx). context_wf 4 (length (de_debug_line dbg)) ctx \<and>
      version = ucast (lc_version_number ctx) \<and>
      count = (if lc_linecount_actuals ctx \<noteq> 0 then 1 else 0) + (if lc_linecount_logicals ctx \<noteq> 0 then 1 else 0))
    (srclines_b dbg cc_address_size g line_offset fission_offset)"
  unfolding srclines_b_def
  by (rule spec_bind [OF spec_internal_srclines [OF assms, of True]]) (simp split: option.splits)

lemmas srclines_b_context = spec_result [OF spec_srclines_b, simplified prod.case]

lemma sample_srclines:
  "\<exists>ctx. srclines_b sample_debug 8 0 3 0 = DW_OK (5, 1, ctx) \<and>
    map (string_at (de_debug_line sample_debug)) (lc_include_directories ctx) = [Some [0x2f, 0x73], Some [0x69]] \<and>
    map (file_desc (de_debug_line sample_debug)) (lc_file_entries (lc_files ctx)) =
      [Some ([0x61], 0, 0, 7), Some ([0x62], 1, 0, 9)] \<and> lc_version_number ctx = 5"
proof -
  obtain rows where rows: "machine_run (table_params sample_debug 8 sample_header) sample_ops
      (init_machine (header_parameters sample_header)) = Some rows" "rows \<noteq> []"
    using sample_run by force
  obtain ctx where "srclines_b sample_debug 8 0 (word_of_nat (length [1, 2, 3 :: u8])) 0 =
      DW_OK (word_of_nat (hd_version sample_header), if rows = [] then 0 else 1, ctx)"
    "describes (de_debug_line sample_debug) sample_header ctx"
    using srclines_at [OF sample_debug_facts(1) _ sample_header_ok sample_debug_table sample_debug_facts(2,3) rows(1)]
    by auto
  then show ?thesis using rows(2) by (auto simp: describes_def sample_header_def)
qed

section \<open>Properties\<close>

text \<open>
  C18: Reading the line table of a unit never leaves the sections, whatever their bytes and the two offsets are: the header of any
  version, with its strings and forms, and the one or two programs that follow it. The limits are an address size
  of at most eight and strings that are checked.
\<close>

theorem srclines_safe:
  assumes "\<not> de_assume_string_in_bounds dbg" "unat cc_address_size \<le> 8" "length (de_debug_line dbg) < 2 ^ 60"
  shows "internal_srclines dbg cc_address_size g line_offset fission_offset is_new doaddrs dolines \<noteq> FAULT \<and>
    srclines_b dbg cc_address_size g line_offset fission_offset \<noteq> FAULT"
  using spec_no_fault [OF spec_internal_srclines [OF assms]] spec_no_fault [OF spec_srclines_b [OF assms]] by simp

theorem srclines_safe_witness:
  "srclines_b (debug_le64\<lparr>de_debug_line := [0xff, 0xff, 0xff, 0xff, 0, 1]\<rparr>) 8 0 1 2 \<noteq> FAULT"
  using srclines_safe [of "debug_le64\<lparr>de_debug_line := [0xff, 0xff, 0xff, 0xff, 0, 1]\<rparr>" 8 0 1 2]
  by (simp add: debug_le64_def)

text \<open>
  C31: A line context that is handed out is well typed: the counts of its directories, subprograms, files and rows are the lengths of
  its lists, the indexes of the files start at 0 in version 5 and at 1 before it, but at 0 there as well while there is no file, no list is
  longer than the section allows, and the rows are well formed. The table count that is returned is the number of row lists that are not empty,
  so that a two level table with an empty list counts as one. In both points \<open>libdwarf.h\<close> says otherwise.
\<close>

theorem srclines_context_typed:
  assumes "\<not> de_assume_string_in_bounds dbg" "unat cc_address_size \<le> 8" "length (de_debug_line dbg) < 2 ^ 60"
    and "srclines_b dbg cc_address_size g line_offset fission_offset = DW_OK (version, count, ctx)"
  shows "context_wf 4 (length (de_debug_line dbg)) ctx \<and> version = ucast (lc_version_number ctx) \<and>
    unat count = length (filter (\<lambda>ls. ls \<noteq> []) [lc_linebuf_logicals ctx, lc_linebuf_actuals ctx])"
  using srclines_b_context [OF assms] by (simp add: context_wf_def)

theorem srclines_context_typed_witness:
  "\<exists>ctx. srclines_b sample_debug 8 0 3 0 = DW_OK (5, 1, ctx) \<and> context_wf 4 (length (de_debug_line sample_debug)) ctx \<and>
    length (filter (\<lambda>ls. ls \<noteq> []) [lc_linebuf_logicals ctx, lc_linebuf_actuals ctx]) = 1"
proof -
  obtain ctx where "srclines_b sample_debug 8 0 3 0 = DW_OK (5, 1, ctx)" using sample_srclines by blast
  with srclines_context_typed [OF sample_debug_facts(1) _ sample_debug_facts(2) this] show ?thesis by fastforce
qed

text \<open>
  C28: Looking up files and directories in a context that was handed out: an index that is in the range of its version yields that
  entry of the list, and any other index, negative ones included, is the error for it. The link of a list that ends
  too early, an error of its own, is never met, and no lookup leaves a list.
\<close>

theorem srclines_lookups:
  assumes "\<not> de_assume_string_in_bounds dbg" "unat cc_address_size \<le> 8" "length (de_debug_line dbg) < 2 ^ 60"
    and "srclines_b dbg cc_address_size g line_offset fission_offset = DW_OK (version, count, ctx)"
  shows "srclines_files_data_b ctx i =
      (if sint i < 0 then DW_ERROR DW_DLE_LINE_INDEX_WRONG
       else if unat i < first_file_index ctx \<or>
           first_file_index ctx + length (lc_file_entries (lc_files ctx)) \<le> unat i
       then DW_ERROR DW_DLE_LINE_CONTEXT_INDEX_WRONG
       else let fi = lc_file_entries (lc_files ctx) ! (unat i - first_file_index ctx) in
         DW_OK (fi_file_name fi, fi_dir_index fi, fi_time_last_mod fi, fi_file_length fi,
           if fi_md5_present fi then Some (fi_md5_value fi) else None)) \<and>
    srclines_include_dir_data ctx i =
      (let base = if lc_version_number ctx = 5 then 0 else 1 in
       if sint i < 0 then DW_ERROR DW_DLE_LINE_INDEX_WRONG
       else if unat i < base \<or> base + length (lc_include_directories ctx) \<le> unat i
       then DW_ERROR DW_DLE_LINE_CONTEXT_INDEX_WRONG
       else DW_OK (lc_include_directories ctx ! (unat i - base)))"
proof -
  have wf: "context_wf 4 (length (de_debug_line dbg)) ctx" using srclines_b_context [OF assms] by simp
  show ?thesis using files_data_wf [OF wf assms(3), of i] include_dir_wf [OF wf assms(3), of i]
    unfolding Let_def by (rule conjI)
qed

theorem srclines_lookups_witness:
  "\<exists>ctx. srclines_b sample_debug 8 0 3 0 = DW_OK (5, 1, ctx) \<and>
    srclines_files_data_b ctx 1 = (let fi = lc_file_entries (lc_files ctx) ! 1 in
      DW_OK (fi_file_name fi, 1, 0, 9, if fi_md5_present fi then Some (fi_md5_value fi) else None)) \<and>
    srclines_include_dir_data ctx 2 = DW_ERROR DW_DLE_LINE_CONTEXT_INDEX_WRONG"
proof -
  obtain ctx where c: "srclines_b sample_debug 8 0 3 0 = DW_OK (5, 1, ctx)"
    "map (string_at (de_debug_line sample_debug)) (lc_include_directories ctx) = [Some [0x2f, 0x73], Some [0x69]]"
    "map (file_desc (de_debug_line sample_debug)) (lc_file_entries (lc_files ctx)) =
      [Some ([0x61], 0, 0, 7), Some ([0x62], 1, 0, 9)]" "lc_version_number ctx = 5"
    using sample_srclines by (elim exE conjE) (rule that)
  have n: "length (lc_include_directories ctx) = 2" using arg_cong [OF c(2), of length] by simp
  obtain f0 f1 where f: "lc_file_entries (lc_files ctx) = [f0, f1]"
    "file_desc (de_debug_line sample_debug) f1 = Some ([0x62], 1, 0, 9)"
    using c(3) by (auto simp: map_eq_Cons_conv)
  have d: "unat (fi_dir_index f1) = 1" "unat (fi_time_last_mod f1) = 0" "unat (fi_file_length f1) = 9"
    using f(2) by (auto simp: file_desc_def)
  then have "fi_dir_index f1 = 1" "fi_time_last_mod f1 = 0" "fi_file_length f1 = 9"
    by (simp_all add: word_unat_eq_iff)
  then show ?thesis
    using srclines_lookups [OF sample_debug_facts(1) _ sample_debug_facts(2) c(1), of 1]
      srclines_lookups [OF sample_debug_facts(1) _ sample_debug_facts(2) c(1), of 2] c(1,4) f(1) n
    by (intro exI [of _ ctx]) (simp add: first_file_index_def Let_def)
qed

text \<open>
  C2: The lines of a unit are those its assembler wrote. A line table with a header of version 2 to 5, in the 32 or the 64 bit format and
  in the byte order of the object, with directories, files and a program, stands anywhere in the section; then reading it
  at its offset yields the numbers of the header, the directories and files, and exactly the rows of the program.
\<close>

theorem srclines_of_encoded_table:
  assumes "\<not> de_assume_string_in_bounds dbg" "unat cc_address_size \<le> 8"
    and "header_ok h" "hd_default_is_stmt h \<in> {0, 1}"
    and "de_debug_line dbg = pre @ encode_table dbg cc_address_size h ops @ post"
    and "length (de_debug_line dbg) < 2 ^ 60"
    and "\<not> hd_dwarf64 h \<Longrightarrow> length (encode_table dbg cc_address_size h ops) < 0xffffffff"
    and "machine_run (table_params dbg cc_address_size h) ops (init_machine (header_parameters h)) = Some rows"
  shows "\<exists>ctx. srclines_b dbg cc_address_size g (word_of_nat (length pre)) 0 =
      DW_OK (word_of_nat (hd_version h), if rows = [] then 0 else 1, ctx) \<and>
    describes (de_debug_line dbg) h ctx \<and> map row_of_line (lc_linebuf_logicals ctx) = rows"
  using srclines_at [OF assms] by blast

theorem srclines_of_encoded_table_witness:
  "\<exists>ctx. srclines_b sample_debug 8 0 3 0 = DW_OK (5, 1, ctx) \<and>
    map (\<lambda>l. (row_address (row_of_line l), row_file (row_of_line l), row_line (row_of_line l)))
      (lc_linebuf_logicals ctx) = [(0x1000, 1, 3), (0x1004, 2, 4), (0x1008, 2, 4)]"
proof -
  obtain rows where rows: "machine_run (table_params sample_debug 8 sample_header) sample_ops
      (init_machine (header_parameters sample_header)) = Some rows"
    "map (\<lambda>r. (row_address r, row_file r, row_line r)) rows = [(0x1000, 1, 3), (0x1004, 2, 4), (0x1008, 2, 4)]"
    using sample_run by (elim exE conjE) (rule that)
  note t = srclines_of_encoded_table [OF sample_debug_facts(1) _ sample_header_ok sample_debug_table
      sample_debug_facts(2,3) rows(1), of 0]
  have a: "unat (8 :: u8) \<le> 8" by simp
  obtain ctx where ctx: "srclines_b sample_debug 8 0 (word_of_nat (length [1, 2, 3 :: u8])) 0 =
      DW_OK (word_of_nat (hd_version sample_header), if rows = [] then 0 else 1, ctx)"
    "map row_of_line (lc_linebuf_logicals ctx) = rows"
    using t [OF a] by (elim exE conjE) (rule that)
  have "rows \<noteq> []" using rows(2) by auto
  then show ?thesis
    using ctx(1) rows(2) unfolding ctx(2) [symmetric]
    by (intro exI [of _ ctx]) (simp add: sample_header_def o_def)
qed

end
