(* ===== verification/AbbrevForms.thy ===== *)
theory AbbrevForms
  imports Abbrev LineHeader
begin

text \<open>
  Finding the abbreviation of an entry as the users of \<open>_dwarf_get_abbrev_for_code\<close> do: the lookup, and the arrays of attributes and forms
  filled in on the first use. The invariant of the table that makes this safe on any section, and what a lookup yields when
  the section holds proper declarations.
\<close>

text \<open>The lookup of a code that must be there; \<open>missing\<close> is the error of the caller when it is not.\<close>

definition abbrev_for_code ::
  "bool \<Rightarrow> bytes option \<Rightarrow> dle \<Rightarrow> u64 \<Rightarrow> cu_context \<Rightarrow> cu_context \<times> abbrev_list dw"
where
  "abbrev_for_code allow_dup dss_data missing code ctx =
     (case get_abbrev_for_code allow_dup dss_data ctx code of
        (ctx, _, DW_OK ent) \<Rightarrow>
          (case dss_data of
             None \<Rightarrow> (ctx, FAULT)
           | Some buf \<Rightarrow>
               (case ensure_attr_form buf ent ctx of (ctx, ent, r) \<Rightarrow> (ctx, dw_bind r (\<lambda>_. DW_OK ent))))
      | (ctx, _, DW_NO_ENTRY) \<Rightarrow> (ctx, DW_ERROR missing)
      | (ctx, _, DW_ERROR e) \<Rightarrow> (ctx, DW_ERROR e)
      | (ctx, _, FAULT) \<Rightarrow> (ctx, FAULT))"

section \<open>Entries whose arrays are right\<close>

definition attr_forms :: "bytes \<Rightarrow> abbrev_list \<Rightarrow> attr_form list \<times> unit dw" where
  "attr_forms buf d =
     fill_loop (unat (abl_abbrev_count d)) (abl_implicit_const_count d > 0) buf (abl_abbrev_ptr d) (length buf)"

definition entry_ok :: "bytes \<Rightarrow> abbrev_list \<Rightarrow> bool" where
  "entry_ok buf ent \<longleftrightarrow> snd (attr_forms buf (plain ent)) \<noteq> FAULT \<and>
     (abl_attr_form ent = None \<or> abl_attr_form ent = Some (fst (attr_forms buf (plain ent))))"

definition table_entries :: "abbrev_table \<Rightarrow> abbrev_list set" where
  "table_entries ht = (case tb_entries ht of None \<Rightarrow> {} | Some es \<Rightarrow> \<Union> (set ` set es))"

definition context_inv :: "bytes \<Rightarrow> cu_context \<Rightarrow> bool" where
  "context_inv buf ctx \<longleftrightarrow> abbrevs_ok (cc_abbrev_hash_table ctx) \<and>
     (\<forall>ent \<in> table_entries (cc_abbrev_hash_table ctx). entry_ok buf ent) \<and>
     (cc_last_abbrev_ptr ctx \<noteq> None \<longrightarrow> cc_last_abbrev_endptr ctx = length buf)"

lemma plain_other [simp]:
  "abl_abbrev_count (plain ent) = abl_abbrev_count ent" "abl_abbrev_ptr (plain ent) = abl_abbrev_ptr ent"
  "abl_tag (plain ent) = abl_tag ent" "abl_has_child (plain ent) = abl_has_child ent"
  "abl_goffset (plain ent) = abl_goffset ent" "abl_attr_form (plain ent) = None"
  by (simp_all add: plain_def)

lemma entry_ok_reference [simp]: "entry_ok buf (ent\<lparr>abl_reference_count := n\<rparr>) = entry_ok buf ent"
  by (simp add: entry_ok_def)

lemma entry_ok_empty:
  "abl_abbrev_count ent = 0 \<Longrightarrow> abl_attr_form ent = None \<Longrightarrow> entry_ok buf ent"
  by (simp add: entry_ok_def attr_forms_def)

text \<open>Filling has no end of the list, and counting has seen every implicit constant that it meets.\<close>

lemma fill_spec_not_NO_ENTRY: "snd (fill_spec have buf p e) \<noteq> DW_NO_ENTRY"
proof -
  have u: "leb128_uword_wrapper buf q e \<noteq> DW_NO_ENTRY" "leb128_sword_wrapper buf q e \<noteq> DW_NO_ENTRY" for q
    by (auto simp: leb128_uword_wrapper_def leb128_sword_wrapper_def decode_leb128_uword_len_ck_def
        decode_leb128_sword_len_ck_def dw_simps split: leb_result.splits)
  show ?thesis using u by (auto simp: fill_spec_def dw_simps split: dw.splits)
qed

lemma fill_loop_not_NO_ENTRY: "snd (fill_loop n have buf p e) \<noteq> DW_NO_ENTRY"
proof (induction n arbitrary: p)
  case (Suc n)
  obtain x r where "fill_spec have buf p e = (x, r)" by fastforce
  moreover from this have "r \<noteq> DW_NO_ENTRY" by (metis fill_spec_not_NO_ENTRY snd_conv)
  ultimately show ?case using Suc.IH by (cases r) (auto simp: case_prod_beta)
qed simp

lemma sword_no_fault: "leb128_sword_wrapper buf p (length buf) \<noteq> FAULT"
  by (rule sword.read_no_fault) simp

lemma uword_no_fault: "leb128_uword_wrapper buf p (length buf) \<noteq> FAULT"
  by (rule uword.read_no_fault) simp

lemma fill_spec_no_fault:
  assumes "snd (fill_spec have buf p (length buf)) = FAULT"
  shows "\<not> have"
  using assms uword_no_fault [of buf] sword_no_fault [of buf]
  by (auto simp: fill_spec_def split: dw.splits if_splits prod.splits)

lemma fill_loop_no_fault: "snd (fill_loop n True buf p (length buf)) \<noteq> FAULT"
proof (induction n arbitrary: p)
  case (Suc n)
  obtain x r where r: "fill_spec True buf p (length buf) = (x, r)" by fastforce
  then have "r \<noteq> FAULT" using fill_spec_no_fault [of True buf p] by auto
  then show ?case using Suc.IH r by (cases r) (auto simp: case_prod_beta)
qed simp

lemma count_loop_step:
  assumes "count_loop allow_dup buf p e c i small ary = DW_OK (c', i', q)"
  obtains attr form small' ary' p1 where
    "count_round allow_dup buf p e small ary = DW_OK (attr, form, small', ary', p1)" "c + 1 \<le> NONSENSE_AT_COUNT"
    "c' = c \<and> i' = (if form = DW_FORM_implicit_const then i + 1 else i) \<or>
     count_loop allow_dup buf p1 e (c + 1) (if form = DW_FORM_implicit_const then i + 1 else i) small' ary' =
       DW_OK (c', i', q) \<and> p1 < e \<and> (attr \<noteq> 0 \<or> form \<noteq> 0)"
proof -
  obtain attr form small' ary' p1 where r:
    "count_round allow_dup buf p e small ary = DW_OK (attr, form, small', ary', p1)"
    using assms by (auto simp: count_loop.simps [of _ _ p] dw_simps)
  show thesis
    by (rule that [OF r]) (use assms r in \<open>auto simp: count_loop.simps [of _ _ p] Let_def not_less split: if_splits\<close>)
qed

lemma small_Suc: "(c :: u64) + 1 \<le> 340 \<Longrightarrow> c \<le> 340 \<Longrightarrow> unat (c + 1) = unat c + 1 \<and> c < 340"
  by (auto simp: word_le_nat_alt word_less_nat_alt unat_plus_if')

lemma count_loop_mono:
  assumes "count_loop allow_dup buf p e c i small ary = DW_OK (c', i', q)" "c \<le> NONSENSE_AT_COUNT" "i \<le> c"
  shows "c \<le> c' \<and> c' \<le> NONSENSE_AT_COUNT \<and> i \<le> i' \<and> i' \<le> c' + 1"
  using assms
proof (induction allow_dup buf p e c i small ary rule: count_loop.induct)
  case (1 allow_dup buf p e c i small ary)
  from 1(2) show ?case
  proof (rule count_loop_step)
    fix attr form small' ary' p1
    assume r: "count_round allow_dup buf p e small ary = DW_OK (attr, form, small', ary', p1)" "c + 1 \<le> NONSENSE_AT_COUNT"
    let ?i = "if form = DW_FORM_implicit_const then i + 1 else i"
    assume s: "c' = c \<and> i' = ?i \<or> count_loop allow_dup buf p1 e (c + 1) ?i small' ary' = DW_OK (c', i', q) \<and>
      p1 < e \<and> (attr \<noteq> 0 \<or> form \<noteq> 0)"
    note n = small_Suc [OF r(2) 1(3)]
    have i: "i \<le> ?i" "?i \<le> c + 1" using 1(4) n by (auto simp: word_le_nat_alt word_less_nat_alt unat_plus_if')
    show ?thesis
    proof (cases "c' = c \<and> i' = ?i")
      case True
      then show ?thesis using i 1(3) by auto
    next
      case False
      have "\<not> NONSENSE_AT_COUNT < c + 1" using r(2) by simp
      from 1(1) [OF r(1) refl refl refl refl refl refl this] s False r(2) i
      have "c + 1 \<le> c' \<and> c' \<le> NONSENSE_AT_COUNT \<and> ?i \<le> i' \<and> i' \<le> c' + 1" by auto
      then show ?thesis using n i by (auto simp: word_le_nat_alt word_less_nat_alt)
    qed
  qed
qed

text \<open>Where there is no implicit constant, filling goes the way counting went.\<close>

lemma fill_spec_counted:
  assumes "count_round allow_dup buf p e small ary = DW_OK (attr, form, small', ary', p1)" "form \<noteq> DW_FORM_implicit_const"
  shows "fill_spec have buf p e = ((ucast attr, ucast form, None), DW_OK p1)"
proof -
  obtain a f p0 where rs: "read_spec buf p e = DW_OK ((a, f), p0)"
    using assms(1) by (auto simp: count_round_def dw_simps)
  obtain x s y where d: "(if allow_dup then (False, small, ary) else check_duplicate a small ary) = (x, s, y)"
    by (rule prod_cases3)
  have r: "read_spec buf p e = DW_OK ((attr, form), p0)" "skip_implicit buf form p0 e = DW_OK p1"
    using assms(1) rs d by (auto simp: count_round_def dw_simps split: if_splits)
  then have "p0 = p1" using assms(2) by (simp add: skip_implicit_def)
  moreover have "form \<le> 0xffff" if "valid_form_we_know form attr"
    using that by (auto simp: valid_form_we_know_def word_le_nat_alt split: if_splits)
  ultimately show ?thesis using r(1) assms(2)
    by (auto simp: read_spec_def fill_spec_def dw_simps not_less word_le_nat_alt word_less_nat_alt split: if_splits)
qed

lemma count_fill:
  assumes "count_loop allow_dup buf p (length buf) c i small ary = DW_OK (c', i', q)" "c \<le> NONSENSE_AT_COUNT" "i \<le> c"
  shows "snd (fill_loop (unat (c' - c)) (i' > 0) buf p (length buf)) \<noteq> FAULT"
proof (cases "i' > 0")
  case True
  then show ?thesis using fill_loop_no_fault by simp
next
  case False
  show ?thesis using assms(1,2,3) False
  proof (induction allow_dup buf p "length buf" c i small ary rule: count_loop.induct)
    case (1 allow_dup buf p c i small ary)
    from 1(2) show ?case
    proof (rule count_loop_step)
      fix attr form small' ary' p1
      assume r: "count_round allow_dup buf p (length buf) small ary = DW_OK (attr, form, small', ary', p1)"
        "c + 1 \<le> NONSENSE_AT_COUNT"
      let ?i = "if form = DW_FORM_implicit_const then i + 1 else i"
      assume s: "c' = c \<and> i' = ?i \<or> count_loop allow_dup buf p1 (length buf) (c + 1) ?i small' ary' = DW_OK (c', i', q) \<and>
        p1 < length buf \<and> (attr \<noteq> 0 \<or> form \<noteq> 0)"
      note n = small_Suc [OF r(2) 1(3)]
      have i: "?i \<le> c + 1" "form = DW_FORM_implicit_const \<Longrightarrow> 0 < ?i"
        using 1(4) n by (auto simp: word_le_nat_alt word_less_nat_alt unat_plus_if' split: if_splits)
      show ?thesis
      proof (cases "c' = c \<and> i' = ?i")
        case False
        then have l: "count_loop allow_dup buf p1 (length buf) (c + 1) ?i small' ary' = DW_OK (c', i', q)"
          "p1 < length buf \<and> (attr \<noteq> 0 \<or> form \<noteq> 0)" using s by auto
        note m = count_loop_mono [OF l(1) r(2) i(1)]
        have f: "form \<noteq> DW_FORM_implicit_const" using m i(2) 1(5) by (auto simp: not_less)
        have k: "\<not> NONSENSE_AT_COUNT < c + 1" using r(2) by simp
        have "snd (fill_loop (unat (c' - (c + 1))) (i' > 0) buf p1 (length buf)) \<noteq> FAULT"
          using 1(1) [OF r(1) refl refl refl refl refl refl k] l r(2) i(1) 1(5) by simp
        moreover have "unat (c' - c) = Suc (unat (c' - (c + 1)))"
          using m n by (auto simp: word_le_nat_alt unat_sub_if')
        ultimately show ?thesis using fill_spec_counted [OF r(1) f] by (simp add: case_prod_beta)
      qed simp
    qed
  qed
qed


section \<open>The invariant under lookups\<close>

lemma entries_update:
  assumes "\<forall>x \<in> table_entries ht. P x" "P ent"
  shows "\<forall>x \<in> table_entries (update_entry h i ent ht). P x"
proof (cases "tb_entries ht")
  case (Some es)
  have all: "\<forall>c \<in> set es. \<forall>x \<in> set c. P x" using assms(1) Some by (auto simp: table_entries_def)
  then have "\<forall>x \<in> set (es ! h). P x" if "h < length es" using nth_mem [OF that] by blast
  then have "P x" if "h < length es" "x \<in> set ((es ! h)[i := ent])" for x
    using that assms(2) set_update_subset_insert [of "es ! h" i ent] by blast
  then have "P x" if "c \<in> set (es[h := (es ! h)[i := ent]])" "x \<in> set c" for c x
    using that all set_update_subset_insert [of es h "(es ! h)[i := ent]", THEN subsetD, OF that(1)]
    by (cases "h < length es") (auto simp: list_update_beyond)
  then show ?thesis using Some by (auto simp: table_entries_def update_entry_def)
qed (simp add: table_entries_def update_entry_def)

lemma entries_link:
  assumes "abbrevs_ok ht" "\<forall>x \<in> table_entries ht. P x" "P ent"
  shows "\<forall>x \<in> table_entries (link_entry ent ht). P x"
proof (cases "tb_entries ht")
  case (Some es)
  let ?h = "ht_hash (tb_table_entry_count ht) (abl_code ent)"
  have h: "?h < length es" using assms(1) Some ht_hash_less by (simp add: abbrevs_ok_def)
  have all: "\<forall>c \<in> set es. \<forall>x \<in> set c. P x" using assms(2) Some by (auto simp: table_entries_def)
  then have a: "\<forall>x \<in> set (es ! ?h). P x" using nth_mem [OF h] by blast
  have "P x" if "c \<in> set (es[?h := ent # es ! ?h])" "x \<in> set c" for c x
    using that assms(3) all a set_update_subset_insert [of es ?h "ent # es ! ?h", THEN subsetD, OF that(1)] by auto
  then show ?thesis using Some by (auto simp: table_entries_def link_entry_def Let_def)
qed (simp add: table_entries_def link_entry_def Let_def)

lemma entries_copy:
  assumes "abbrevs_ok ht" "tb_entries ht \<noteq> None" "\<forall>x \<in> table_entries ht. P x" "\<forall>x \<in> set ents. P x"
  shows "\<forall>x \<in> table_entries (fold link_entry ents ht). P x"
  using assms
proof (induction ents arbitrary: ht)
  case (Cons ent ents)
  have "\<forall>x \<in> table_entries (link_entry ent ht). P x"
    by (rule entries_link) (use Cons.prems in auto)
  then show ?case
    using link_entry_ok [OF Cons.prems(1,2), of ent] Cons.IH [of "link_entry ent ht"] Cons.prems(4) by simp
qed simp

lemma entries_prepare:
  assumes "abbrevs_ok ht" "\<forall>x \<in> table_entries ht. P x"
  shows "\<forall>x \<in> table_entries (prepare_table ht). P x"
proof (cases "tb_entries ht")
  case None
  then show ?thesis by (simp add: prepare_table_def table_entries_def)
next
  case (Some es)
  let ?n = "tb_table_entry_count ht * HT_MULTIPLE"
  have "abbrevs_ok (new_abbrev_table ?n)" "tb_entries (new_abbrev_table ?n) \<noteq> None"
    "\<forall>x \<in> table_entries (new_abbrev_table ?n). P x"
    using assms(1) Some by (simp_all add: abbrevs_ok_def new_abbrev_table_def table_entries_def)
  then have "\<forall>x \<in> table_entries (fold link_entry (concat es) (new_abbrev_table ?n)). P x"
    using assms(2) Some by (intro entries_copy) (auto simp: table_entries_def)
  then show ?thesis using Some assms(2) by (simp add: prepare_table_def copy_abbrev_table_to_new_table_def)
qed

lemma entries_highest [simp]: "table_entries (ht\<lparr>tb_highest_used_entry := n\<rparr>) = table_entries ht"
  by (simp add: table_entries_def)

lemma start_lookup_inv:
  "context_inv buf ctx \<Longrightarrow> context_inv buf (start_lookup code ctx) \<and>
     tb_entries (cc_abbrev_hash_table (start_lookup code ctx)) \<noteq> None"
  using start_lookup_ok [of ctx code] entries_prepare [of "cc_abbrev_hash_table ctx" "entry_ok buf"]
  by (auto simp: context_inv_def start_lookup_def note_code_def Let_def)

lemma note_code_inv [simp]: "context_inv buf (note_code code ctx) = context_inv buf ctx"
  "cc_abbrev_hash_table (note_code code ctx) = cc_abbrev_hash_table ctx"
  by (simp_all add: context_inv_def note_code_def)

lemma link_inv:
  assumes "context_inv buf ctx" "tb_entries (cc_abbrev_hash_table ctx) \<noteq> None" "entry_ok buf ent"
  shows "context_inv buf (ctx\<lparr>cc_abbrev_hash_table := link_entry ent (cc_abbrev_hash_table ctx)\<rparr>)"
  using assms link_entry_ok [of "cc_abbrev_hash_table ctx" ent] entries_link [of "cc_abbrev_hash_table ctx" "entry_ok buf" ent]
  by (simp add: context_inv_def)

lemma update_inv:
  assumes "context_inv buf ctx" "entry_ok buf ent" "h < tb_table_entry_count (cc_abbrev_hash_table ctx)"
    and "i < length (chain_of (cc_abbrev_hash_table ctx) h)"
    "plain ent = plain (chain_of (cc_abbrev_hash_table ctx) h ! i)"
  shows "context_inv buf (ctx\<lparr>cc_abbrev_hash_table := update_entry h i ent (cc_abbrev_hash_table ctx)\<rparr>)"
  using assms update_entry_ok [of "cc_abbrev_hash_table ctx" h i ent]
    entries_update [of "cc_abbrev_hash_table ctx" "entry_ok buf" ent h i]
  by (simp add: context_inv_def)

lemma chain_entry:
  assumes "abbrevs_ok ht" "h < tb_table_entry_count ht" "x \<in> set (chain_of ht h)"
  shows "x \<in> table_entries ht"
  using assms nth_mem by (fastforce simp: chain_of_def table_entries_def abbrevs_ok_def split: option.splits)


section \<open>Reading declarations\<close>

lemma read_abbrev_head_no_fault: "read_abbrev_head buf p (length buf) \<noteq> FAULT"
  using uword_no_fault [of buf] by (auto simp: read_abbrev_head_def dw_simps not_le rd8_def split: if_splits)

lemma count_round_no_fault: "count_round allow_dup buf p (length buf) small ary \<noteq> FAULT"
proof -
  have "read_spec buf p (length buf) \<noteq> FAULT"
    using uword_no_fault [of buf] by (auto simp: read_spec_def dw_simps split: if_splits)
  moreover have "skip_implicit buf f q (length buf) \<noteq> FAULT" for f q
    using skip.read_no_fault [of "length buf" buf] by (auto simp: skip_implicit_def dw_simps split: if_splits)
  ultimately show ?thesis
    by (auto simp: count_round_def dw_simps case_prod_beta split: if_splits)
qed

lemma count_loop_no_fault: "count_loop allow_dup buf p (length buf) c i small ary \<noteq> FAULT"
proof (induction allow_dup buf p "length buf" c i small ary rule: count_loop.induct)
  case (1 allow_dup buf p c i small ary)
  show ?case
  proof (cases "count_round allow_dup buf p (length buf) small ary")
    case (DW_OK x)
    obtain attr form small' ary' p1 where x: "x = (attr, form, small', ary', p1)" by (cases x) auto
    show ?thesis
      using 1(1) [OF DW_OK [unfolded x] refl refl refl refl refl refl] DW_OK x
      by (subst count_loop.simps) (simp add: Let_def)
  qed (use count_round_no_fault in \<open>subst count_loop.simps, simp\<close>)+
qed

lemma entry_ok_counted:
  assumes "count_abbrev_entries allow_dup buf p (length buf) = DW_OK (n, ic, q)"
    and "abl_abbrev_ptr ent = p" "abl_abbrev_count ent = n" "abl_implicit_const_count ent = ic" "abl_attr_form ent = None"
  shows "entry_ok buf ent"
proof -
  have "snd (fill_loop (unat (n - 0)) (ic > 0) buf p (length buf)) \<noteq> FAULT"
    by (rule count_fill) (use assms(1) in \<open>auto simp: count_abbrev_entries_def\<close>)
  then show ?thesis using assms by (simp add: entry_ok_def attr_forms_def plain_def)
qed

lemma linked_first:
  assumes "abbrevs_ok ht" "tb_entries ht \<noteq> None"
  shows "\<exists>rest. chain_of (link_entry ent ht) (ht_hash (tb_table_entry_count (link_entry ent ht)) (abl_code ent)) = ent # rest"
proof -
  obtain es where es: "tb_entries ht = Some es" using assms(2) by auto
  then have "ht_hash (tb_table_entry_count ht) (abl_code ent) < length es"
    using assms(1) ht_hash_less by (simp add: abbrevs_ok_def)
  then show ?thesis using es by (simp add: link_entry_def chain_of_def Let_def)
qed

text \<open>What every step of a lookup keeps, and what the entry it ends with is like.\<close>

definition found_entry :: "bytes \<Rightarrow> cu_context \<Rightarrow> abbrev_list \<Rightarrow> bool" where
  "found_entry buf ctx ent \<longleftrightarrow> entry_ok buf ent \<and>
     (let ht = cc_abbrev_hash_table ctx; h = ht_hash (tb_table_entry_count ht) (abl_code ent) in
      \<exists>i. find_code (abl_code ent) (chain_of ht h) 0 = Some i \<and> chain_of ht h ! i = ent)"

definition linked_entry :: "bytes \<Rightarrow> cu_context \<Rightarrow> abbrev_list \<Rightarrow> bool" where
  "linked_entry buf ctx ent \<longleftrightarrow> entry_ok buf ent \<and>
     (let ht = cc_abbrev_hash_table ctx in
      \<exists>rest. chain_of ht (ht_hash (tb_table_entry_count ht) (abl_code ent)) = ent # rest)"

definition context_step :: "bytes \<Rightarrow> cu_context \<Rightarrow> cu_context \<Rightarrow> bool" where
  "context_step buf ctx ctx' \<longleftrightarrow> context_inv buf ctx' \<and> tb_entries (cc_abbrev_hash_table ctx') \<noteq> None \<and>
     cc_last_abbrev_ptr ctx' = cc_last_abbrev_ptr ctx \<and> cc_last_abbrev_endptr ctx' = cc_last_abbrev_endptr ctx"

lemma add_abbrev_inv:
  assumes "context_inv buf ctx" "tb_entries (cc_abbrev_hash_table ctx) \<noteq> None"
    and "add_abbrev allow_dup buf p (length buf) ctx = (ctx', r)"
  shows "context_step buf ctx ctx' \<and> r \<noteq> FAULT \<and> (\<forall>ent q. r = DW_OK (ent, q) \<longrightarrow> linked_entry buf ctx' ent)"
proof (cases "read_abbrev_head buf p (length buf)")
  case (DW_OK x)
  obtain code tag child p1 where x: "x = ((code, tag, child), p1)" by (cases x) auto
  let ?e = "\<lparr>abl_code = code, abl_tag = ucast tag, abl_has_child = child, abl_reference_count = 0,
    abl_goffset = p, abl_abbrev_ptr = p1, abl_abbrev_count = 0, abl_implicit_const_count = 0, abl_attr_form = None\<rparr>"
  let ?ht = "cc_abbrev_hash_table ctx"
  let ?c = "note_code code ctx"
  have ok: "abbrevs_ok ?ht" using assms(1) by (simp add: context_inv_def)
  have c: "context_inv buf ?c" "tb_entries (cc_abbrev_hash_table ?c) \<noteq> None" using assms(1,2) by simp_all
  have nc: "count_abbrev_entries allow_dup buf p1 (length buf) \<noteq> FAULT"
    unfolding count_abbrev_entries_def by (rule count_loop_no_fault)
  have other: "context_step buf ctx (?c\<lparr>cc_abbrev_hash_table := link_entry ent ?ht\<rparr>)" if "entry_ok buf ent" for ent
    using link_inv [OF c that] link_entry_ok [OF ok assms(2), of ent]
    by (simp add: context_step_def note_code_def)
  show ?thesis
  proof (cases "count_abbrev_entries allow_dup buf p1 (length buf)")
    case (DW_OK y)
    obtain n ic q where y: "y = (n, ic, q)" by (cases y) auto
    let ?d = "?e\<lparr>abl_implicit_const_count := ic, abl_abbrev_count := n\<rparr>"
    have d: "entry_ok buf ?d" by (rule entry_ok_counted [OF DW_OK [unfolded y]]) simp_all
    have "update_entry (ht_hash (tb_table_entry_count ?ht) code) 0 ?d (link_entry ?e ?ht) = link_entry ?d ?ht"
      using update_linked [OF ok assms(2), of ?d ?e] by simp
    then have "ctx' = ?c\<lparr>cc_abbrev_hash_table := link_entry ?d ?ht\<rparr>" "r = DW_OK (?d, q)"
      using assms(3) \<open>read_abbrev_head buf p (length buf) = DW_OK x\<close> x DW_OK y
      by (auto simp: add_abbrev_def Let_def)
    moreover have "linked_entry buf (?c\<lparr>cc_abbrev_hash_table := link_entry ?d ?ht\<rparr>) ?d"
      using linked_first [OF ok assms(2), of ?d] d by (auto simp: linked_entry_def Let_def)
    ultimately show ?thesis using other [OF d] by simp
  qed (use assms(3) DW_OK x nc other [of ?e] entry_ok_empty [of ?e buf] in \<open>auto simp: add_abbrev_def Let_def\<close>)
qed (use assms read_abbrev_head_no_fault in \<open>auto simp: add_abbrev_def context_step_def\<close>)


lemma abbrev_scan_inv:
  assumes "context_inv buf ctx" "tb_entries (cc_abbrev_hash_table ctx) \<noteq> None"
    and "abbrev_scan allow_dup buf p (length buf) code ctx = (ctx', r)"
  shows "context_step buf ctx ctx' \<and> r \<noteq> FAULT \<and> (\<forall>ent q. r = DW_OK (ent, q) \<longrightarrow> linked_entry buf ctx' ent)"
  using assms
proof (induction allow_dup buf p "length buf" code ctx rule: abbrev_scan.induct)
  case (1 allow_dup buf p code ctx)
  obtain ctx1 r1 where a: "add_abbrev allow_dup buf p (length buf) ctx = (ctx1, r1)" by fastforce
  note s = add_abbrev_inv [OF 1(2,3) a]
  show ?case
  proof (cases r1)
    case (DW_OK x)
    obtain ent q where x: "x = (ent, q)" by (cases x)
    show ?thesis
    proof (cases "q < length buf \<and> buf ! q \<noteq> 0 \<and> abl_code ent \<noteq> code")
      case True
      then have rd: "rd8 buf q = DW_OK (buf ! q)" by simp
      have "abbrev_scan allow_dup buf q (length buf) code ctx1 = (ctx', r)"
        using 1(4) a DW_OK x True by (subst (asm) abbrev_scan.simps) (simp add: rd)
      then show ?thesis
        using 1(1) [OF a [unfolded DW_OK x, symmetric] refl refl _ rd] True s
        by (auto simp: context_step_def)
    next
      case False
      then have "(ctx', r) = (ctx1, r1)"
        using 1(4) a DW_OK x False by (cases "q < length buf"; subst (asm) abbrev_scan.simps) (auto simp: rd8_def)
      then show ?thesis using s by simp
    qed
  qed (use 1(4) a s in \<open>subst (asm) abbrev_scan.simps, simp\<close>)+
qed

text \<open>The entry found stays the one found when it is replaced by one with its code.\<close>

lemma find_updated:
  "find_code code es j = Some i \<Longrightarrow> abl_code e = code \<Longrightarrow> find_code code (es[i - j := e]) j = Some i \<and> i - j < length es"
proof (induction es arbitrary: j)
  case (Cons x es)
  show ?case
  proof (cases "abl_code x = code")
    case False
    then have f: "find_code code es (Suc j) = Some i" using Cons.prems by simp
    then have "Suc j \<le> i" using find_code_Some by blast
    then have "i - j = Suc (i - Suc j)" by simp
    then show ?thesis using Cons.IH [OF f Cons.prems(2)] False by simp
  qed (use Cons.prems in simp)
qed simp

lemma first_updated:
  assumes "abbrevs_ok ht" "tb_entries ht \<noteq> None" "h = ht_hash (tb_table_entry_count ht) (abl_code e)"
    and "find_code (abl_code e) (chain_of ht h) 0 = Some i"
  shows "find_code (abl_code e) (chain_of (update_entry h i e ht) h) 0 = Some i \<and>
    chain_of (update_entry h i e ht) h ! i = e \<and> tb_table_entry_count (update_entry h i e ht) = tb_table_entry_count ht"
proof -
  obtain es where es: "tb_entries ht = Some es" using assms(2) by auto
  then have "h < length es" using assms(1,3) ht_hash_less by (simp add: abbrevs_ok_def)
  then have "chain_of (update_entry h i e ht) h = (chain_of ht h)[i := e]"
    using es by (simp add: chain_of_def update_entry_def)
  then show ?thesis using find_updated [OF assms(4) refl] by (simp add: update_entry_def)
qed

lemma count_reference_inv:
  assumes "context_inv buf ctx" "h = ht_hash (tb_table_entry_count (cc_abbrev_hash_table ctx)) (abl_code ent)"
    and "find_code (abl_code ent) (chain_of (cc_abbrev_hash_table ctx) h) 0 = Some i"
    and "chain_of (cc_abbrev_hash_table ctx) h ! i = ent" "tb_entries (cc_abbrev_hash_table ctx) \<noteq> None" "entry_ok buf ent"
    and "count_reference h i ent ctx = (ctx', ent')"
  shows "context_step buf ctx ctx' \<and> found_entry buf ctx' ent' \<and> abl_code ent' = abl_code ent"
proof -
  let ?ht = "cc_abbrev_hash_table ctx"
  let ?e = "ent\<lparr>abl_reference_count := abl_reference_count ent + 1\<rparr>"
  have h: "h < tb_table_entry_count ?ht" using assms(1,2,5) by (auto simp: context_inv_def abbrevs_ok_def intro: ht_hash_less)
  note i = find_code_Some [OF assms(3)]
  have u: "ctx' = ctx\<lparr>cc_abbrev_hash_table := update_entry h i ?e ?ht\<rparr>" "ent' = ?e"
    using assms(7) by (auto simp: count_reference_def Let_def)
  have inv: "context_inv buf ctx'"
    unfolding u by (rule update_inv [OF assms(1) _ h]) (use i assms(4,6) in auto)
  have "find_code (abl_code ?e) (chain_of ?ht h) 0 = Some i" using assms(3) by simp
  note f = first_updated [OF _ assms(5) _ this]
  have "abbrevs_ok ?ht" using assms(1) by (simp add: context_inv_def)
  from f [OF this] assms(2) have "find_code (abl_code ?e) (chain_of (update_entry h i ?e ?ht) h) 0 = Some i \<and>
      chain_of (update_entry h i ?e ?ht) h ! i = ?e \<and> tb_table_entry_count (update_entry h i ?e ?ht) = tb_table_entry_count ?ht"
    by simp
  then have "found_entry buf ctx' ent'"
    using assms(2,6) by (auto simp: found_entry_def u Let_def)
  moreover have "tb_entries (update_entry h i ?e ?ht) \<noteq> None" using assms(5) by (auto simp: update_entry_def)
  ultimately show ?thesis using inv by (simp add: context_step_def u)
qed


lemma context_step_trans: "context_step buf a b \<Longrightarrow> context_step buf b c \<Longrightarrow> context_step buf a c"
  by (simp add: context_step_def)

text \<open>A lookup never leaves the section, keeps the invariant, and its entry is the first of its chain with the code.\<close>

lemma get_abbrev_inv:
  assumes "context_inv buf ctx" "get_abbrev_for_code allow_dup (Some buf) ctx code = (ctx', h, r)"
  shows "context_inv buf ctx' \<and> tb_entries (cc_abbrev_hash_table ctx') \<noteq> None \<and> r \<noteq> FAULT \<and>
    (\<forall>ent. r = DW_OK ent \<longrightarrow> found_entry buf ctx' ent \<and> abl_code ent = code)"
proof -
  let ?c = "start_lookup code ctx"
  let ?ht = "cc_abbrev_hash_table ?c"
  let ?h = "ht_hash (tb_table_entry_count ?ht) code"
  note s = start_lookup_inv [OF assms(1), of code]
  have h: "?h < tb_table_entry_count ?ht" using s by (auto simp: context_inv_def abbrevs_ok_def intro: ht_hash_less)
  show ?thesis
  proof (cases "find_code code (chain_of ?ht ?h) 0")
    case (Some i)
    note i = find_code_Some [OF Some]
    let ?e = "chain_of ?ht ?h ! i"
    have "?e \<in> table_entries ?ht" by (rule chain_entry [OF _ h]) (use s i in \<open>auto simp: context_inv_def\<close>)
    then have e: "entry_ok buf ?e" using s by (simp add: context_inv_def)
    have c: "abl_code ?e = code" using i by simp
    obtain ctx1 ent where u: "count_reference ?h i ?e ?c = (ctx1, ent)" by fastforce
    have "context_step buf ?c ctx1 \<and> found_entry buf ctx1 ent \<and> abl_code ent = abl_code ?e"
      by (rule count_reference_inv [OF conjunct1 [OF s] _ _ refl conjunct2 [OF s] e u]) (use c Some in simp_all)
    then show ?thesis using assms(2) Some u c by (auto simp: get_abbrev_for_code_def Let_def context_step_def)
  next
    case None
    have look: "scan_for_code allow_dup buf code ?c = (ctx', h, r)"
      using assms(2) None by (simp add: get_abbrev_for_code_def Let_def)
    obtain p e where pe: "(case cc_last_abbrev_ptr ?c of Some p \<Rightarrow> (p, cc_last_abbrev_endptr ?c)
        | None \<Rightarrow> (cc_abbrev_offset ?c, length buf)) = (p, e)" by fastforce
    then have e: "e = length buf" using s by (auto simp: context_inv_def split: option.splits)
    show ?thesis
    proof (cases "p < length buf \<and> buf ! p \<noteq> 0")
      case True
      obtain ctx1 r1 where sc: "abbrev_scan allow_dup buf p (length buf) code ?c = (ctx1, r1)" by fastforce
      note a = abbrev_scan_inv [OF conjunct1 [OF s] conjunct2 [OF s] sc]
      show ?thesis
      proof (cases r1)
        case (DW_OK x)
        obtain ent q where x: "x = (ent, q)" by (cases x)
        let ?c1 = "ctx1\<lparr>cc_last_abbrev_ptr := Some q, cc_last_abbrev_endptr := length buf\<rparr>"
        have c1: "context_inv buf ?c1" "tb_entries (cc_abbrev_hash_table ?c1) \<noteq> None" "linked_entry buf ?c1 ent"
          using a DW_OK x by (auto simp: context_step_def context_inv_def linked_entry_def)
        show ?thesis
        proof (cases "abl_code ent = code")
          case True
          let ?h1 = "ht_hash (tb_table_entry_count (cc_abbrev_hash_table ?c1)) code"
          obtain ctx2 ent2 where u: "count_reference ?h1 0 ent ?c1 = (ctx2, ent2)" by fastforce
          have "ctx' = ctx2 \<and> r = DW_OK ent2"
            using look pe e \<open>p < length buf \<and> buf ! p \<noteq> 0\<close> sc DW_OK x True u
            by (simp add: scan_for_code_def rd8_def Let_def)
          moreover have "context_step buf ?c1 ctx2 \<and> found_entry buf ctx2 ent2 \<and> abl_code ent2 = abl_code ent"
            by (rule count_reference_inv [OF c1(1) _ _ _ c1(2) _ u])
              (use True c1(3) in \<open>auto simp: linked_entry_def Let_def\<close>)
          ultimately show ?thesis using True by (auto simp: context_step_def)
        next
          case False
          then have "ctx' = ?c1 \<and> r = DW_NO_ENTRY"
            using look pe e \<open>p < length buf \<and> buf ! p \<noteq> 0\<close> sc DW_OK x
            by (simp add: scan_for_code_def rd8_def Let_def)
          then show ?thesis using c1 by simp
        qed
      qed (use look pe e True sc a in \<open>auto simp: scan_for_code_def rd8_def Let_def context_step_def\<close>)
    next
      case False
      then have "ctx' = ?c \<and> r = DW_NO_ENTRY"
        using look pe e by (auto simp: scan_for_code_def rd8_def split: if_splits)
      then show ?thesis using s by simp
    qed
  qed
qed


lemma ensure_attr_form_inv:
  assumes "context_inv buf ctx" "tb_entries (cc_abbrev_hash_table ctx) \<noteq> None" "found_entry buf ctx ent"
    and "ensure_attr_form buf ent ctx = (ctx', ent', r)"
  shows "context_step buf ctx ctx' \<and> r \<noteq> FAULT \<and> plain ent' = plain ent \<and>
    abl_attr_form ent' = Some (fst (attr_forms buf (plain ent))) \<and>
    (abl_attr_form ent = None \<longrightarrow> r = snd (attr_forms buf (plain ent))) \<and> (abl_attr_form ent \<noteq> None \<longrightarrow> r = DW_OK ())"
proof (cases "abl_attr_form ent")
  case (Some xs)
  then show ?thesis using assms
    by (auto simp: ensure_attr_form_def context_step_def found_entry_def entry_ok_def)
next
  case None
  let ?ht = "cc_abbrev_hash_table ctx"
  let ?h = "ht_hash (tb_table_entry_count ?ht) (abl_code ent)"
  obtain i where i: "find_code (abl_code ent) (chain_of ?ht ?h) 0 = Some i" "chain_of ?ht ?h ! i = ent"
    using assms(3) by (auto simp: found_entry_def Let_def)
  have h: "?h < tb_table_entry_count ?ht" using assms(1,2) by (auto simp: context_inv_def abbrevs_ok_def intro: ht_hash_less)
  obtain e r1 where f: "fill_in_attr_form_abtable buf (abl_abbrev_ptr ent) (length buf) ent = (e, r1)" by fastforce
  have p: "plain e = plain ent" using plain_fill [OF None, of buf "abl_abbrev_ptr ent" "length buf"] f by simp
  have "abl_implicit_const_count (plain ent) = abl_implicit_const_count ent" using None by (simp add: plain_def)
  then have a: "fill_loop (unat (abl_abbrev_count ent)) (abl_implicit_const_count ent > 0) buf (abl_abbrev_ptr ent) (length buf) =
      attr_forms buf (plain ent)" by (simp add: attr_forms_def)
  then have e: "abl_attr_form e = Some (fst (attr_forms buf (plain ent)))" "r1 = snd (attr_forms buf (plain ent))"
    using f unfolding fill_in_attr_form_abtable_def a by (auto simp: case_prod_beta)
  have u: "ctx' = ctx\<lparr>cc_abbrev_hash_table := update_entry ?h i e ?ht\<rparr>" "ent' = e" "r = r1"
    using assms(4) None f i(1) by (auto simp: ensure_attr_form_def Let_def)
  have ok: "entry_ok buf ent" using assms(3) by (simp add: found_entry_def)
  then have "entry_ok buf e" using e p by (simp add: entry_ok_def)
  then have "context_inv buf ctx'"
    unfolding u by (rule update_inv [OF assms(1) _ h]) (use i find_code_Some [OF i(1)] p in auto)
  moreover have "tb_entries (update_entry ?h i e ?ht) \<noteq> None" using assms(2) by (auto simp: update_entry_def)
  ultimately show ?thesis using u e p ok None by (simp add: context_step_def entry_ok_def)
qed

text \<open>The whole operation on any section.\<close>

lemma abbrev_for_code_inv:
  assumes "context_inv buf ctx" "abbrev_for_code allow_dup (Some buf) missing code ctx = (ctx', r)"
  shows "context_inv buf ctx' \<and> r \<noteq> FAULT \<and> r \<noteq> DW_NO_ENTRY \<and>
    (\<forall>ent. r = DW_OK ent \<longrightarrow> abl_code ent = code \<and> abl_attr_form ent = Some (fst (attr_forms buf (plain ent))))"
proof -
  obtain ctx1 h r1 where g: "get_abbrev_for_code allow_dup (Some buf) ctx code = (ctx1, h, r1)" by (rule prod_cases3)
  note i = get_abbrev_inv [OF assms(1) g]
  show ?thesis
  proof (cases r1)
    case (DW_OK ent)
    obtain ctx2 ent2 r2 where e: "ensure_attr_form buf ent ctx1 = (ctx2, ent2, r2)" by (rule prod_cases3)
    from i DW_OK have f: "context_inv buf ctx1" "tb_entries (cc_abbrev_hash_table ctx1) \<noteq> None" "found_entry buf ctx1 ent"
      "abl_code ent = code" by auto
    note s = ensure_attr_form_inv [OF f(1-3) e]
    have "r2 \<noteq> DW_NO_ENTRY"
      using s fill_loop_not_NO_ENTRY by (cases "abl_attr_form ent") (auto simp: attr_forms_def)
    moreover have "abl_code ent2 = code" using s f(4) by (metis plain_simps(1))
    ultimately show ?thesis using assms(2) g DW_OK e s
      by (cases r2) (auto simp: abbrev_for_code_def context_step_def)
  qed (use assms(2) g i in \<open>auto simp: abbrev_for_code_def\<close>)
qed

section \<open>Lookups among proper declarations\<close>

lemma ensure_attr_form_cache:
  assumes "cache_ok allow_dup buf ds ctx" "context_inv buf ctx" "tb_entries (cc_abbrev_hash_table ctx) \<noteq> None"
    and "found_entry buf ctx ent" "ensure_attr_form buf ent ctx = (ctx', ent', r)"
  shows "cache_ok allow_dup buf ds ctx'"
proof (cases "abl_attr_form ent")
  case None
  let ?ht = "cc_abbrev_hash_table ctx"
  let ?h = "ht_hash (tb_table_entry_count ?ht) (abl_code ent)"
  obtain i where i: "find_code (abl_code ent) (chain_of ?ht ?h) 0 = Some i" "chain_of ?ht ?h ! i = ent"
    using assms(4) by (auto simp: found_entry_def Let_def)
  have ok: "abbrevs_ok ?ht" using assms(2) by (simp add: context_inv_def)
  have h: "?h < tb_table_entry_count ?ht" using ok assms(3) by (auto simp: abbrevs_ok_def intro: ht_hash_less)
  obtain e r1 where f: "fill_in_attr_form_abtable buf (abl_abbrev_ptr ent) (length buf) ent = (e, r1)" by fastforce
  have "plain e = plain (chain_of ?ht ?h ! i)" using plain_fill [OF None, of buf "abl_abbrev_ptr ent" "length buf"] f i by simp
  note u = update_entry_ok [OF ok h _ this]
  have "ctx' = ctx\<lparr>cc_abbrev_hash_table := update_entry ?h i e ?ht\<rparr>"
    using assms(5) None f i(1) by (auto simp: ensure_attr_form_def Let_def)
  then show ?thesis
    by (intro cache_ok_cong [OF assms(1)]) (use u find_code_Some [OF i(1)] in auto)
qed (use assms in \<open>simp add: ensure_attr_form_def\<close>)

text \<open>
  A declaration is proper when its arrays can be filled in, and the constants can be skipped the way the reader of
  entries does it, from the first specification on.
\<close>

fun skips :: "nat \<Rightarrow> bytes \<Rightarrow> ptr \<Rightarrow> bool" where
  "skips 0 buf p = True"
| "skips (Suc n) buf p = (case leb128_skip_wrapper buf p (length buf) of DW_OK (_, q) \<Rightarrow> skips n buf q | _ \<Rightarrow> False)"

definition decl_forms :: "bytes \<Rightarrow> abbrev_list \<Rightarrow> attr_form list" where
  "decl_forms buf d = fst (attr_forms buf d)"

definition implicit_forms :: "attr_form list \<Rightarrow> nat" where
  "implicit_forms xs = length (filter (\<lambda>(_, form, _). form = 0x21) xs)"

definition proper_decl :: "bytes \<Rightarrow> abbrev_list \<Rightarrow> bool" where
  "proper_decl buf d \<longleftrightarrow> snd (attr_forms buf d) = DW_OK () \<and>
     skips (implicit_forms (decl_forms buf d)) buf (abl_abbrev_ptr d)"

lemma abbrev_for_code_declared:
  assumes "cache_ok allow_dup buf ds ctx" "context_inv buf ctx" "distinct (map abl_code ds)"
    and "abbrev_for_code allow_dup (Some buf) missing code ctx = (ctx', r)"
  shows "cache_ok allow_dup buf ds ctx' \<and> context_inv buf ctx' \<and>
    (case find (\<lambda>d. abl_code d = code) ds of
       None \<Rightarrow> r = DW_ERROR missing
     | Some d \<Rightarrow> proper_decl buf d \<longrightarrow>
         (\<exists>ent. r = DW_OK ent \<and> plain ent = d \<and> abl_attr_form ent = Some (decl_forms buf d)))"
proof -
  obtain ctx1 h r1 where g: "get_abbrev_for_code allow_dup (Some buf) ctx code = (ctx1, h, r1)" by (rule prod_cases3)
  note l = lookup_step [OF assms(1,3) g]
  note i = get_abbrev_inv [OF assms(2) g]
  show ?thesis
  proof (cases "find (\<lambda>d. abl_code d = code) ds")
    case None
    then show ?thesis using l i g assms(4) by (auto simp: abbrev_for_code_def)
  next
    case (Some d)
    then obtain ent where ent: "r1 = DW_OK ent" "plain ent = d" using l by auto
    obtain ctx2 ent2 r2 where e: "ensure_attr_form buf ent ctx1 = (ctx2, ent2, r2)" by (rule prod_cases3)
    from i ent(1) have f: "context_inv buf ctx1" "tb_entries (cc_abbrev_hash_table ctx1) \<noteq> None" "found_entry buf ctx1 ent"
      by auto
    note s = ensure_attr_form_inv [OF f e]
    have c: "cache_ok allow_dup buf ds ctx2" by (rule ensure_attr_form_cache [OF conjunct1 [OF l] f e])
    have r: "ctx' = ctx2" "r = dw_bind r2 (\<lambda>_. DW_OK ent2)"
      using assms(4) g ent(1) e by (simp_all add: abbrev_for_code_def)
    have "r2 = DW_OK ()" if "proper_decl buf d"
      using that s ent(2) by (cases "abl_attr_form ent") (auto simp: proper_decl_def)
    then show ?thesis using Some c s r ent(2) by (auto simp: context_step_def decl_forms_def)
  qed
qed

text \<open>The context a unit starts with.\<close>

lemma fresh_context_inv: "context_inv buf (fresh_context off)"
  by (simp add: context_inv_def fresh_context_def abbrevs_ok_def table_entries_def)

lemma fresh_context_cache:
  "declared allow_dup buf off ds q \<Longrightarrow> cache_ok allow_dup buf ds (fresh_context off)"
  unfolding cache_ok_def
  by (intro exI [of _ "[]"] exI [of _ ds] exI [of _ q]) (simp add: fresh_context_def next_decl_def abbrevs_ok_def listed_def)

end
