(* ===== verification/Units.thy ===== *)
theory Units
  imports AbbrevForms
begin

text \<open>
  Unit headers of \<open>.debug_info\<close> and \<open>.debug_types\<close> (\<open>dwarf_die_deliv.c\<close>): reading a header into a context, and the list of
  the contexts read so far. The attributes of the unit's root entry, from which the code completes a context, and the
  offsets of package files are not part of it.
\<close>

abbreviation (input) DW_UT_compile :: u16 where "DW_UT_compile \<equiv> 1"
abbreviation (input) DW_UT_type :: u16 where "DW_UT_type \<equiv> 2"
abbreviation (input) DW_UT_partial :: u16 where "DW_UT_partial \<equiv> 3"
abbreviation (input) DW_UT_skeleton :: u16 where "DW_UT_skeleton \<equiv> 4"
abbreviation (input) DW_UT_split_compile :: u16 where "DW_UT_split_compile \<equiv> 5"
abbreviation (input) DW_UT_split_type :: u16 where "DW_UT_split_type \<equiv> 6"
abbreviation (input) MINIMUM_ADDRESS_SIZE :: u8 where "MINIMUM_ADDRESS_SIZE \<equiv> 2"
abbreviation (input) MAXIMUM_ADDRESS_SIZE :: u8 where "MAXIMUM_ADDRESS_SIZE \<equiv> 8"

abbreviation (input) DW_DLE_CU_UT_TYPE_VALUE :: dle where "DW_DLE_CU_UT_TYPE_VALUE \<equiv> 454"

section \<open>Contexts\<close>

text \<open>
  \<open>struct Dwarf_CU_Context_s\<close> with the fields that come from the header; those for abbreviations are the record of their
  own. The signature is the eight bytes of a \<open>Dwarf_Sig8\<close>, \<open>None\<close> when it is not present.
\<close>

record unit_context =
  cc_length :: u64
  cc_length_size :: u8
  cc_extension_size :: u8
  cc_version_stamp :: u16
  cc_address_size :: u8
  cc_segment_selector_size :: u8
  cc_debug_offset :: u64
  cc_is_info :: bool
  cc_is_dwo :: bool
  cc_unit_type :: u16
  cc_signature :: "bytes option"
  cc_signature_offset :: u64
  cc_cu_die_global_sec_offset :: "u64 option"
  cc_abbrevs :: cu_context

text \<open>The context as it is allocated, all zero.\<close>

definition new_context :: unit_context where
  "new_context = \<lparr>cc_length = 0, cc_length_size = 0, cc_extension_size = 0, cc_version_stamp = 0, cc_address_size = 0,
     cc_segment_selector_size = 0, cc_debug_offset = 0, cc_is_info = False, cc_is_dwo = False, cc_unit_type = 0,
     cc_signature = None, cc_signature_offset = 0, cc_cu_die_global_sec_offset = None, cc_abbrevs = fresh_context 0\<rparr>"

definition is_unknown_UT_value :: "u16 \<Rightarrow> bool" where
  "is_unknown_UT_value ut \<longleftrightarrow>
     ut \<notin> {DW_UT_compile, DW_UT_type, DW_UT_partial, DW_UT_skeleton, DW_UT_split_compile, DW_UT_split_type}"

text \<open>The name of a section that has none is the null pointer.\<close>

definition section_name_ends_with_dwo :: "string option \<Rightarrow> bool" where
  "section_name_ends_with_dwo nm =
     (case nm of
        None \<Rightarrow> False
      | Some s \<Rightarrow> if length s < 5 then False else drop (length s - 4) s = ''.dwo'')"

section \<open>Reading a header\<close>

text \<open>\<open>read_info_area_length_and_check\<close>; it also returns the pointer behind the length and the offset behind the unit.\<close>

definition read_info_area_length_and_check ::
  "dwarf_debug \<Rightarrow> bytes \<Rightarrow> unit_context \<Rightarrow> u64 \<Rightarrow> ptr \<Rightarrow> u64 \<Rightarrow> ptr \<Rightarrow> (unit_context \<times> ptr \<times> u64) dw"
where
  "read_info_area_length_and_check dbg buf cu offset cu_ptr section_size section_end_ptr =
     dw_bind (read_area_length_ck dbg buf cu_ptr section_size section_end_ptr) (\<lambda>((len, lsize, xsize), p).
       if len = 0 then DW_NO_ENTRY
       else
         let cu = cu\<lparr>cc_length_size := word_of_nat lsize, cc_extension_size := word_of_nat xsize, cc_length := len\<rparr>;
             max_cu_global_offset = offset + len + word_of_nat xsize + word_of_nat lsize
         in if len > section_size \<or> len + word_of_nat lsize + word_of_nat xsize > section_size
            then DW_ERROR DW_DLE_CU_LENGTH_ERROR
            else if max_cu_global_offset > section_size then DW_ERROR DW_DLE_CU_LENGTH_ERROR
            else DW_OK (cu, p, max_cu_global_offset))"

text \<open>
  \<open>_dwarf_read_cu_version_and_abbrev_offset\<close> returns the address size, unit type, abbreviation offset, version and pointer it has reached. Before the
  reads of each branch the code checks for the room and creates an error, but does not return; the read that then fails creates
  another one, which is the one returned.
\<close>

definition read_cu_version_and_abbrev_offset ::
  "dwarf_debug \<Rightarrow> bytes \<Rightarrow> ptr \<Rightarrow> bool \<Rightarrow> nat \<Rightarrow> unit_context \<Rightarrow> ptr \<Rightarrow> (unit_context \<times> ptr) dw"
where
  "read_cu_version_and_abbrev_offset dbg buf data is_info offset_size cu end_data =
     dw_bind (read_unaligned_ck dbg buf data 2 end_data) (\<lambda>version.
     dw_bind
       (if version = 5 then
          dw_bind (read_unaligned_ck dbg buf (data + 2) 1 end_data) (\<lambda>unit_type.
            if is_unknown_UT_value (ucast unit_type) then DW_ERROR DW_DLE_CU_UT_TYPE_ERROR
            else
              dw_bind (read_unaligned_ck dbg buf (data + 3) 1 end_data) (\<lambda>addrsize.
              dw_bind (read_unaligned_ck dbg buf (data + 4) offset_size end_data) (\<lambda>abbrev_offset.
                DW_OK (unit_type, addrsize, abbrev_offset, data + 4 + offset_size))))
        else if version = 2 \<or> version = 3 \<or> version = 4 then
          dw_bind (read_unaligned_ck dbg buf (data + 2) offset_size end_data) (\<lambda>abbrev_offset.
          dw_bind (read_unaligned_ck dbg buf (data + 2 + offset_size) 1 end_data) (\<lambda>addrsize.
            DW_OK (if is_info then 1 else 2, addrsize, abbrev_offset, data + 2 + offset_size + 1)))
        else DW_ERROR DW_DLE_VERSION_STAMP_ERROR)
       (\<lambda>(unit_type, addrsize, abbrev_offset, p).
         let addrsize = ucast addrsize :: u8;
             cu = cu\<lparr>cc_version_stamp := ucast version, cc_unit_type := ucast unit_type, cc_address_size := addrsize,
                    cc_abbrevs := fresh_context (unat abbrev_offset)\<rparr>
         in if addrsize = 0 then DW_ERROR DW_DLE_ADDRESS_SIZE_ZERO
            else if addrsize < MINIMUM_ADDRESS_SIZE \<or> addrsize > MAXIMUM_ADDRESS_SIZE
            then DW_ERROR DW_DLE_ADDRESS_SIZE_ERROR
            else if addrsize > 8 then DW_ERROR DW_DLE_ADDRESS_SIZE_ERROR
            else DW_OK (cu\<lparr>cc_segment_selector_size := 0\<rparr>, p)))"

text \<open>The fields that follow in versions 4 and 5, and their length.\<close>

definition types_extra_len :: "u16 \<Rightarrow> u16 \<Rightarrow> u64 \<Rightarrow> u64 dw" where
  "types_extra_len version unit_type local_length_size =
     (if version = 5 \<or> version = 4 then
        if unit_type = DW_UT_split_type \<or> unit_type = DW_UT_type then DW_OK (8 + local_length_size)
        else if unit_type = DW_UT_skeleton \<or> unit_type = DW_UT_split_compile then DW_OK 8
        else if unit_type = DW_UT_compile \<or> unit_type = DW_UT_partial then DW_OK 0
        else DW_ERROR DW_DLE_CU_UT_TYPE_VALUE
      else DW_OK 0)"

definition read_signature :: "bytes \<Rightarrow> ptr \<Rightarrow> ptr \<Rightarrow> bytes dw" where
  "read_signature buf cu_ptr section_end_ptr =
     (if cu_ptr + 8 > section_end_ptr then DW_ERROR DW_DLE_CU_LENGTH_ERROR
      else if cu_ptr + 8 > length buf then FAULT
      else DW_OK (seg buf cu_ptr (cu_ptr + 8)))"

definition read_types_extra ::
  "dwarf_debug \<Rightarrow> bytes \<Rightarrow> ptr \<Rightarrow> ptr \<Rightarrow> u64 \<Rightarrow> unit_context \<Rightarrow> unit_context dw"
where
  "read_types_extra dbg buf cu_ptr section_end_ptr max_cu_local_offset cu =
     (if cc_unit_type cu = DW_UT_split_type \<or> cc_unit_type cu = DW_UT_type then
        dw_bind (read_signature buf cu_ptr section_end_ptr) (\<lambda>signature.
        dw_bind (read_unaligned_ck dbg buf (cu_ptr + 8) (unat (cc_length_size cu)) section_end_ptr) (\<lambda>typeoffset.
          if typeoffset \<ge> max_cu_local_offset then DW_ERROR DW_DLE_DEBUG_TYPEOFFSET_BAD
          else DW_OK (cu\<lparr>cc_signature := Some signature, cc_signature_offset := typeoffset\<rparr>)))
      else if cc_unit_type cu = DW_UT_skeleton \<or> cc_unit_type cu = DW_UT_split_compile then
        dw_bind (read_signature buf cu_ptr section_end_ptr) (\<lambda>signature.
          DW_OK (cu\<lparr>cc_signature := Some signature\<rparr>))
      else if cc_unit_type cu = DW_UT_compile \<or> cc_unit_type cu = DW_UT_partial then DW_OK cu
      else DW_ERROR DW_DLE_CU_UT_TYPE_VALUE)"

text \<open>
  \<open>_dwarf_make_CU_Context\<close>. A section without contents has no data pointer. The second result is what is stored in \<open>de_last_offset\<close>. The offset
  plus four is a 64 bit sum.
\<close>

definition make_CU_Context ::
  "dwarf_debug \<Rightarrow> string option \<Rightarrow> u64 \<Rightarrow> bool \<Rightarrow> (unit_context \<times> u64) dw"
where
  "make_CU_Context dbg secname offset is_info =
     (let buf = cu_section dbg is_info;
          section_size = word_of_nat (length buf) :: u64;
          cu = new_context\<lparr>cc_is_info := is_info, cc_is_dwo := section_name_ends_with_dwo secname\<rparr>
      in if buf = [] then DW_ERROR DW_DLE_INFO_HEADER_ERROR
         else if offset \<ge> section_size then DW_ERROR DW_DLE_INFO_HEADER_ERROR
         else if offset + 4 > section_size then DW_ERROR DW_DLE_INFO_HEADER_ERROR
         else
           dw_bind (read_info_area_length_and_check dbg buf cu offset (unat offset) section_size (length buf))
             (\<lambda>(cu, cu_ptr, max_cu_global_offset).
           let local_length_size = ucast (cc_length_size cu) :: u64;
               max_cu_local_offset = cc_length cu + local_length_size + ucast (cc_extension_size cu)
           in dw_bind (read_cu_version_and_abbrev_offset dbg buf cu_ptr is_info (unat local_length_size) cu (length buf))
             (\<lambda>(cu, cu_ptr).
               if cu_ptr > length buf then DW_ERROR DW_DLE_INFO_HEADER_ERROR
               else
                 dw_bind (types_extra_len (cc_version_stamp cu) (cc_unit_type cu) local_length_size) (\<lambda>extra.
                   if cc_length cu < 2 + local_length_size + 1 + extra then DW_ERROR DW_DLE_CU_LENGTH_ERROR
                   else
                     dw_bind (read_types_extra dbg buf cu_ptr (length buf) max_cu_local_offset cu) (\<lambda>cu.
                       DW_OK (cu\<lparr>cc_debug_offset := offset\<rparr>, max_cu_global_offset))))))"

section \<open>The list of contexts\<close>

text \<open>
  \<open>struct Dwarf_Debug_InfoTypes_s\<close>. The list is what hangs from \<open>de_cu_context_list\<close>, its last element is \<open>de_cu_context_list_end\<close>, and the
  current context is its position in the list.
\<close>

record info_types =
  de_cu_context :: "nat option"
  de_cu_context_list :: "unit_context list"
  de_last_offset :: u64

definition calculate_next_cu_context_offset :: "unit_context \<Rightarrow> u64" where
  "calculate_next_cu_context_offset cu =
     cc_debug_offset cu + cc_length cu + ucast (cc_length_size cu) + ucast (cc_extension_size cu)"

definition context_contains :: "u64 \<Rightarrow> unit_context \<Rightarrow> bool" where
  "context_contains offset cu \<longleftrightarrow> offset \<ge> cc_debug_offset cu \<and>
     offset < cc_debug_offset cu + cc_length cu + ucast (cc_length_size cu) + ucast (cc_extension_size cu)"

text \<open>The loops of \<open>_dwarf_find_CU_Context\<close>: the position of the first context that contains the offset.\<close>

fun find_from :: "u64 \<Rightarrow> unit_context list \<Rightarrow> nat \<Rightarrow> nat option" where
  "find_from offset [] i = None"
| "find_from offset (cu # cus) i = (if context_contains offset cu then Some i else find_from offset cus (i + 1))"

definition find_CU_Context :: "info_types \<Rightarrow> u64 \<Rightarrow> nat option" where
  "find_CU_Context dis offset =
     (let cus = de_cu_context_list dis in
      if offset \<ge> de_last_offset dis then None
      else
        case de_cu_context dis of
          None \<Rightarrow> find_from offset cus 0
        | Some c \<Rightarrow>
            if c + 1 < length cus \<and> cc_debug_offset (cus ! (c + 1)) = offset then Some (c + 1)
            else if cc_debug_offset (cus ! c) \<le> offset then
              (case find_from offset (drop c cus) c of
                 Some i \<Rightarrow> Some i
               | None \<Rightarrow> find_from offset cus 0)
            else find_from offset cus 0)"

text \<open>The loop that inserts before the first context with a greater offset; \<open>None\<close> is its error.\<close>

fun insert_middle :: "unit_context \<Rightarrow> unit_context list \<Rightarrow> unit_context list option" where
  "insert_middle icu [] = None"
| "insert_middle icu (cu # cus) =
     (if cc_debug_offset cu > cc_debug_offset icu then Some (icu # cu # cus)
      else map_option ((#) cu) (insert_middle icu cus))"

definition insert_into_cu_context_list :: "unit_context list \<Rightarrow> unit_context \<Rightarrow> unit_context list option" where
  "insert_into_cu_context_list cus icu =
     (if cus = [] then Some [icu]
      else if cc_debug_offset (last cus) < cc_debug_offset icu then Some (cus @ [icu])
      else if cc_debug_offset (hd cus) > cc_debug_offset icu then Some (icu # cus)
      else map_option ((#) (hd cus)) (insert_middle icu (tl cus)))"

section \<open>What a context promises\<close>

definition unit_end :: "unit_context \<Rightarrow> nat" where
  "unit_end cu = unat (cc_debug_offset cu) + unat (cc_length cu) + unat (cc_length_size cu) + unat (cc_extension_size cu)"

text \<open>The unit is a nonempty part of its section, its sizes are known ones, and its end is the sum the code computes.\<close>

definition unit_ok :: "nat \<Rightarrow> unit_context \<Rightarrow> bool" where
  "unit_ok n cu \<longleftrightarrow> unat (cc_debug_offset cu) < unit_end cu \<and> unit_end cu \<le> n \<and> n < 2 ^ 64 \<and>
     (cc_length_size cu, cc_extension_size cu) \<in> {(4, 0), (8, 4), (8, 0)} \<and>
     2 \<le> unat (cc_address_size cu) \<and> unat (cc_address_size cu) \<le> 8 \<and>
     2 \<le> unat (cc_version_stamp cu) \<and> unat (cc_version_stamp cu) \<le> 5 \<and>
     \<not> is_unknown_UT_value (cc_unit_type cu)"

lemma read_info_area_length_OK:
  assumes "read_info_area_length_and_check dbg buf cu off p s e = DW_OK (cu', q, m)"
  shows "(cc_length_size cu', cc_extension_size cu') \<in> {(4, 0), (8, 4), (8, 0)} \<and> 0 < cc_length cu' \<and> m \<le> s \<and>
    m = off + cc_length cu' + ucast (cc_extension_size cu') + ucast (cc_length_size cu') \<and>
    cc_length cu' \<le> s \<and> cc_length cu' + ucast (cc_length_size cu') + ucast (cc_extension_size cu') \<le> s \<and> p < q \<and> q \<le> e"
proof -
  obtain v l x p1 where r: "read_area_length_ck dbg buf p s e = DW_OK ((v, l, x), p1)"
    using assms by (auto simp: read_info_area_length_and_check_def dw_simps)
  from read_area_length_ck_OK [OF r] show ?thesis using assms r
    by (auto simp: read_info_area_length_and_check_def Let_def word_gt_0 split: if_splits)
qed

lemma read_cu_version_OK:
  assumes "read_cu_version_and_abbrev_offset dbg buf p is_info n cu e = DW_OK (cu', q)" "e \<le> length buf" "n \<le> 8"
  shows "cc_length cu' = cc_length cu \<and> cc_length_size cu' = cc_length_size cu \<and>
    cc_extension_size cu' = cc_extension_size cu \<and> p < q \<and> q \<le> e \<and>
    2 \<le> unat (cc_address_size cu') \<and> unat (cc_address_size cu') \<le> 8 \<and>
    2 \<le> unat (cc_version_stamp cu') \<and> unat (cc_version_stamp cu') \<le> 5 \<and> \<not> is_unknown_UT_value (cc_unit_type cu') \<and>
    cc_is_info cu' = cc_is_info cu \<and> (\<exists>a. cc_abbrevs cu' = fresh_context a)"
proof -
  let ?rest = "\<lambda>version (unit_type :: u64, addrsize :: u64, abbrev_offset :: u64, p :: nat).
         let addrsize = ucast addrsize :: u8;
             cu = cu\<lparr>cc_version_stamp := ucast (version :: u64), cc_unit_type := ucast unit_type, cc_address_size := addrsize,
                    cc_abbrevs := fresh_context (unat abbrev_offset)\<rparr>
         in if addrsize = 0 then DW_ERROR DW_DLE_ADDRESS_SIZE_ZERO
            else if addrsize < MINIMUM_ADDRESS_SIZE \<or> addrsize > MAXIMUM_ADDRESS_SIZE
            then DW_ERROR DW_DLE_ADDRESS_SIZE_ERROR
            else if addrsize > 8 then DW_ERROR DW_DLE_ADDRESS_SIZE_ERROR
            else DW_OK (cu\<lparr>cc_segment_selector_size := 0\<rparr>, p)"
  have rest: "cc_length cu' = cc_length cu \<and> cc_length_size cu' = cc_length_size cu \<and>
      cc_extension_size cu' = cc_extension_size cu \<and> q = pp \<and> cc_version_stamp cu' = ucast version \<and>
      cc_unit_type cu' = ucast ut \<and> 2 \<le> unat (cc_address_size cu') \<and> unat (cc_address_size cu') \<le> 8 \<and>
      cc_is_info cu' = cc_is_info cu \<and> (\<exists>a. cc_abbrevs cu' = fresh_context a)"
    if "?rest version (ut, asz, ab, pp) = DW_OK (cu', q)" for version ut asz ab pp
    using that by (auto simp: Let_def word_le_nat_alt word_less_nat_alt split: if_splits)
  obtain version where v: "read_unaligned_ck dbg buf p 2 e = DW_OK version"
    using assms by (auto simp: read_cu_version_and_abbrev_offset_def dw_simps)
  obtain ut asz ab pp where m: "?rest version (ut, asz, ab, pp) = DW_OK (cu', q)"
    "version = 5 \<and> \<not> is_unknown_UT_value (ucast ut) \<and> pp \<le> e \<and> p < pp \<or>
     version \<in> {2, 3, 4} \<and> ut = (if is_info then 1 else 2) \<and> pp \<le> e \<and> p < pp"
    using assms(1) v
    by (auto simp: read_cu_version_and_abbrev_offset_def dw_simps split: if_splits dest!: read_unaligned_ck_OK)
  then have "version \<in> {2, 3, 4, 5} \<and> p < pp \<and> pp \<le> e \<and> \<not> is_unknown_UT_value (ucast ut)"
    by (cases is_info) (auto simp: is_unknown_UT_value_def)
  then show ?thesis using rest [OF m(1)] by auto
qed

definition sizes_ok :: "u64 \<Rightarrow> u64 \<Rightarrow> unit_context \<Rightarrow> bool" where
  "sizes_ok s m cu \<longleftrightarrow> (cc_length_size cu, cc_extension_size cu) \<in> {(4, 0), (8, 4), (8, 0)} \<and> 0 < cc_length cu \<and> m \<le> s \<and>
     cc_length cu \<le> s \<and> cc_length cu + ucast (cc_length_size cu) + ucast (cc_extension_size cu) \<le> s"

lemma spec_info_area:
  "spec True (\<lambda>(cu', q, m). sizes_ok s m cu' \<and> cc_is_info cu' = cc_is_info cu \<and> q \<le> length buf \<and>
     m = off + cc_length cu' + ucast (cc_extension_size cu') + ucast (cc_length_size cu'))
     (read_info_area_length_and_check dbg buf cu off p s (length buf))"
  using read_info_area_length_OK [of dbg buf cu off p s "length buf"]
  by (auto simp: spec_def sizes_ok_def read_info_area_length_and_check_def dw_simps no_fault Let_def split: if_splits)

lemma spec_cu_version:
  assumes "n \<le> 8"
  shows "spec True (\<lambda>(cu', q). q \<le> length buf \<and>
      cc_length cu' = cc_length cu \<and> cc_length_size cu' = cc_length_size cu \<and> cc_extension_size cu' = cc_extension_size cu \<and>
      2 \<le> unat (cc_address_size cu') \<and> unat (cc_address_size cu') \<le> 8 \<and>
      2 \<le> unat (cc_version_stamp cu') \<and> unat (cc_version_stamp cu') \<le> 5 \<and> \<not> is_unknown_UT_value (cc_unit_type cu') \<and>
      cc_is_info cu' = cc_is_info cu \<and> (\<exists>a. cc_abbrevs cu' = fresh_context a))
     (read_cu_version_and_abbrev_offset dbg buf p is_info n cu (length buf))"
proof -
  have "read_cu_version_and_abbrev_offset dbg buf p is_info n cu (length buf) \<noteq> FAULT"
    using assms by (auto simp: read_cu_version_and_abbrev_offset_def dw_simps no_fault Let_def split: if_splits)
  then show ?thesis
    unfolding spec_def using read_cu_version_OK [of dbg buf p is_info n cu "length buf", OF _ order_refl assms] by fast
qed

lemma spec_types_extra:
  assumes "unat (cc_length_size cu) \<le> 8"
  shows "spec True (\<lambda>cu'. cc_length cu' = cc_length cu \<and> cc_length_size cu' = cc_length_size cu \<and>
      cc_extension_size cu' = cc_extension_size cu \<and> cc_address_size cu' = cc_address_size cu \<and>
      cc_version_stamp cu' = cc_version_stamp cu \<and> cc_unit_type cu' = cc_unit_type cu \<and>
      cc_is_info cu' = cc_is_info cu \<and> cc_abbrevs cu' = cc_abbrevs cu)
     (read_types_extra dbg buf p (length buf) m cu)"
  using assms by (auto simp: spec_def read_types_extra_def read_signature_def dw_simps no_fault split: if_splits)

text \<open>The sums of the check do not wrap around.\<close>

lemma unit_sum:
  assumes "sizes_ok s m cu" "m = off + cc_length cu + ucast (cc_extension_size cu) + ucast (cc_length_size cu)"
    and "unat off < unat s" "unat s < 2 ^ 62"
  shows "unat m = unat off + unat (cc_length cu) + unat (cc_length_size cu) + unat (cc_extension_size cu) \<and>
    unat off < unat m \<and> unat m \<le> unat s"
proof -
  have l: "unat (cc_length cu) \<le> unat s" "0 < unat (cc_length cu)" "unat m \<le> unat s"
    using assms(1) by (simp_all add: sizes_ok_def word_le_nat_alt word_less_nat_alt)
  have "unat (cc_length_size cu) + unat (cc_extension_size cu) \<le> 12" using assms(1) by (auto simp: sizes_ok_def)
  then have b: "unat off + unat (cc_length cu) + unat (cc_extension_size cu) + unat (cc_length_size cu) < 2 ^ 64"
    using l(1,2) assms(3,4) by simp
  have "unat m = unat off + unat (cc_length cu) + unat (cc_extension_size cu) + unat (cc_length_size cu)"
    unfolding assms(2) using b by (simp add: unat_word_ariths)
  then show ?thesis using l by simp
qed

lemma spec_make_CU_Context:
  assumes "length (cu_section dbg is_info) < 2 ^ 62"
  shows "spec True (\<lambda>(cu, m). unit_ok (length (cu_section dbg is_info)) cu \<and> cc_debug_offset cu = off \<and> unat m = unit_end cu \<and>
      cc_is_info cu = is_info \<and> (\<exists>a. cc_abbrevs cu = fresh_context a))
    (make_CU_Context dbg nm off is_info)"
proof -
  let ?b = "cu_section dbg is_info"
  let ?s = "word_of_nat (length ?b) :: u64"
  have s: "unat ?s = length ?b" using assms by (simp add: unat_of_nat)
  show ?thesis
    unfolding make_CU_Context_def Let_def
  proof (intro spec_if spec_ERROR, rule spec_bind [OF spec_info_area], goal_cases)
    case (1 x)
    then have off: "unat off < unat ?s" by (simp add: word_less_nat_alt not_le)
    obtain cu1 q1 m where x: "x = (cu1, q1, m)" by (rule prod_cases3)
    with 1 have z: "cc_is_info cu1 = is_info" "sizes_ok ?s m cu1" "m = off + cc_length cu1 + ucast (cc_extension_size cu1) + ucast (cc_length_size cu1)"
      by (auto simp: new_context_def)
    have "unat (cc_length_size cu1) \<le> 8" using z(2) by (auto simp: sizes_ok_def)
    then have n: "unat (ucast (cc_length_size cu1) :: u64) \<le> 8" by simp
    from unit_sum [OF z(2,3) off] s assms have u: "unat m = unat off + unat (cc_length cu1) + unat (cc_length_size cu1) +
      unat (cc_extension_size cu1)" "unat off < unat m" "unat m \<le> length ?b" by auto
    show ?case
      unfolding x prod.case
    proof (rule spec_bind_prod [OF spec_cu_version [OF n]], intro spec_if spec_ERROR, goal_cases)
      case (1 cu2 q2)
      note v = 1
      then have "unat (cc_length_size cu2) \<le> 8" using n by simp
      note e = spec_types_extra [OF this]
      have "spec True (\<lambda>_. True) (types_extra_len (cc_version_stamp cu2) (cc_unit_type cu2) (ucast (cc_length_size cu1)))"
        by (simp add: types_extra_len_def spec_def)
      then show ?case
      proof (rule spec_bind, intro spec_if spec_ERROR, goal_cases)
        case (1 extra)
        show ?case
          by (rule spec_bind [OF e])
            (use v z u assms in \<open>auto simp: unit_ok_def unit_end_def sizes_ok_def\<close>)
      qed
    qed
  qed
qed

section \<open>The contexts of a section\<close>

text \<open>Contexts that follow one another without a gap, from an offset on.\<close>

fun tiled :: "nat \<Rightarrow> nat \<Rightarrow> unit_context list \<Rightarrow> bool" where
  "tiled n off [] \<longleftrightarrow> True"
| "tiled n off (cu # cus) \<longleftrightarrow> unit_ok n cu \<and> unat (cc_debug_offset cu) = off \<and> tiled n (unit_end cu) cus"

fun tiled_end :: "nat \<Rightarrow> unit_context list \<Rightarrow> nat" where
  "tiled_end off [] = off"
| "tiled_end off (cu # cus) = tiled_end (unit_end cu) cus"

definition units_ok :: "nat \<Rightarrow> info_types \<Rightarrow> bool" where
  "units_ok n dis \<longleftrightarrow> tiled n 0 (de_cu_context_list dis) \<and> tiled_end 0 (de_cu_context_list dis) \<le> unat (de_last_offset dis) \<and>
     (\<forall>c. de_cu_context dis = Some c \<longrightarrow> c < length (de_cu_context_list dis))"

lemma unit_end_next:
  assumes "unit_ok n cu"
  shows "unat (calculate_next_cu_context_offset cu) = unit_end cu"
    "context_contains off cu \<longleftrightarrow> unat (cc_debug_offset cu) \<le> unat off \<and> unat off < unit_end cu"
proof -
  have b: "unit_end cu < 2 ^ 64" using assms by (simp add: unit_ok_def)
  have "unat (cc_debug_offset cu + cc_length cu + ucast (cc_length_size cu) + ucast (cc_extension_size cu)) = unit_end cu"
    using b by (simp add: unit_end_def unat_word_ariths)
  then show "unat (calculate_next_cu_context_offset cu) = unit_end cu"
    "context_contains off cu \<longleftrightarrow> unat (cc_debug_offset cu) \<le> unat off \<and> unat off < unit_end cu"
    by (simp_all add: calculate_next_cu_context_offset_def context_contains_def word_le_nat_alt word_less_nat_alt)
qed

lemma tiled_start_le_end: "tiled n off cus \<Longrightarrow> off \<le> tiled_end off cus"
  by (induction n off cus rule: tiled.induct) (auto simp: unit_ok_def)

lemma tiled_nth:
  "tiled n off cus \<Longrightarrow> i < length cus \<Longrightarrow>
   unit_ok n (cus ! i) \<and> off \<le> unat (cc_debug_offset (cus ! i)) \<and> unit_end (cus ! i) \<le> tiled_end off cus"
proof (induction n off cus arbitrary: i rule: tiled.induct)
  case (2 n off cu cus)
  then show ?case using tiled_start_le_end [of n "unit_end cu" cus] by (cases i) (fastforce simp: unit_ok_def)+
qed simp

lemma tiled_unique:
  assumes "tiled n off cus" "i < length cus" "j < length cus" "context_contains x (cus ! i)" "context_contains x (cus ! j)"
  shows "i = j"
  using assms
proof (induction n off cus arbitrary: i j rule: tiled.induct)
  case (2 n off cu cus)
  have later: False if "context_contains x cu" "context_contains x (cus ! k)" "k < length cus" for k
    using tiled_nth [of n "unit_end cu" cus k] 2(2) that unit_end_next(2) [of n cu x] unit_end_next(2) [of n "cus ! k" x] by auto
  show ?case using 2 later by (cases i; cases j) auto
qed simp

lemma tiled_append:
  "tiled n off (cus @ [cu]) \<longleftrightarrow> tiled n off cus \<and> unit_ok n cu \<and> unat (cc_debug_offset cu) = tiled_end off cus"
  "tiled_end off (cus @ [cu]) = unit_end cu"
  by (induction n off cus rule: tiled.induct) auto

lemma find_from_Some: "find_from x cus k = Some i \<Longrightarrow> k \<le> i \<and> i - k < length cus \<and> context_contains x (cus ! (i - k))"
proof (induction cus arbitrary: k)
  case (Cons cu cus)
  show ?case
  proof (cases "context_contains x cu")
    case False
    then have "k + 1 \<le> i \<and> i - (k + 1) < length cus \<and> context_contains x (cus ! (i - (k + 1)))"
      using Cons.IH [of "k + 1"] Cons.prems by simp
    moreover from this have "i - k = Suc (i - (k + 1))" by linarith
    ultimately show ?thesis by simp
  qed (use Cons.prems in simp)
qed simp

lemma find_from_None: "find_from x cus k = None \<longleftrightarrow> (\<forall>cu \<in> set cus. \<not> context_contains x cu)"
  by (induction cus arbitrary: k) auto

lemma find_CU_Context_iff:
  assumes "units_ok n dis"
  shows "find_CU_Context dis off = Some i \<longleftrightarrow>
    i < length (de_cu_context_list dis) \<and> context_contains off (de_cu_context_list dis ! i)"
proof -
  let ?cus = "de_cu_context_list dis"
  have t: "tiled n 0 ?cus" "tiled_end 0 ?cus \<le> unat (de_last_offset dis)" using assms by (simp_all add: units_ok_def)
  have in_last: "off < de_last_offset dis" if "i < length ?cus" "context_contains off (?cus ! i)" for i
    using tiled_nth [OF t(1) that(1)] t(2) unit_end_next(2) [of n "?cus ! i" off] that by (auto simp: word_less_nat_alt)
  have whole: "find_from off ?cus 0 = Some j \<longleftrightarrow> j < length ?cus \<and> context_contains off (?cus ! j)" for j
  proof (cases "find_from off ?cus 0")
    case None
    then have "\<not> context_contains off (?cus ! j)" if "j < length ?cus" using that by (simp add: find_from_None)
    then show ?thesis using None by auto
  next
    case (Some k)
    then show ?thesis using find_from_Some [OF Some] tiled_unique [OF t(1), of k j off] by auto
  qed
  have next_context: "context_contains off (?cus ! (c + 1))"
    if "c + 1 < length ?cus" "cc_debug_offset (?cus ! (c + 1)) = off" for c
  proof -
    note u = conjunct1 [OF tiled_nth [OF t(1) that(1)]]
    then have "unat (cc_debug_offset (?cus ! (c + 1))) < unit_end (?cus ! (c + 1))" by (simp add: unit_ok_def)
    then show ?thesis using unit_end_next(2) [OF u, of off] that(2) by simp
  qed
  have part: "j < length ?cus \<and> context_contains off (?cus ! j)" if "find_from off (drop c ?cus) c = Some j" for c j
    using find_from_Some [OF that] by auto
  have found: "find_CU_Context dis off = Some j \<Longrightarrow> j < length ?cus \<and> context_contains off (?cus ! j)" for j
    using next_context part whole
    by (auto simp: find_CU_Context_def Let_def split: option.splits if_splits)
  have finds: "\<exists>j. find_CU_Context dis off = Some j" if "i < length ?cus" "context_contains off (?cus ! i)"
    using in_last [OF that] whole [of i] that
    by (auto simp: find_CU_Context_def Let_def not_le split: option.splits)
  show ?thesis using found finds tiled_unique [OF t(1)] by (metis)
qed

text \<open>
  The states a section's contexts go through: a unit is made at the end of the last one and inserted, or given up after
  it was made; the current context is moved to one of the list, or reset.
\<close>

definition next_unit :: "info_types \<Rightarrow> u64" where
  "next_unit dis = (case de_cu_context_list dis of [] \<Rightarrow> 0 | cus \<Rightarrow> calculate_next_cu_context_offset (last cus))"

inductive units_read :: "dwarf_debug \<Rightarrow> string option \<Rightarrow> bool \<Rightarrow> info_types \<Rightarrow> bool" for dbg nm is_info where
  start: "units_read dbg nm is_info \<lparr>de_cu_context = None, de_cu_context_list = [], de_last_offset = 0\<rparr>"
| insert: "units_read dbg nm is_info dis \<Longrightarrow> make_CU_Context dbg nm (next_unit dis) is_info = DW_OK (cu, m) \<Longrightarrow>
    insert_into_cu_context_list (de_cu_context_list dis) cu = Some cus \<Longrightarrow>
    units_read dbg nm is_info (dis\<lparr>de_cu_context_list := cus, de_last_offset := m\<rparr>)"
| give_up: "units_read dbg nm is_info dis \<Longrightarrow> make_CU_Context dbg nm (next_unit dis) is_info = DW_OK (cu, m) \<Longrightarrow>
    units_read dbg nm is_info (dis\<lparr>de_last_offset := m\<rparr>)"
| move: "units_read dbg nm is_info dis \<Longrightarrow> c < length (de_cu_context_list dis) \<Longrightarrow>
    units_read dbg nm is_info (dis\<lparr>de_cu_context := Some c\<rparr>)"
| reset: "units_read dbg nm is_info dis \<Longrightarrow> units_read dbg nm is_info (dis\<lparr>de_cu_context := None\<rparr>)"

lemma next_unit_end:
  assumes "units_ok n dis"
  shows "unat (next_unit dis) = tiled_end 0 (de_cu_context_list dis)"
proof (cases "de_cu_context_list dis" rule: rev_exhaust)
  case (snoc cus cu)
  then have "unit_ok n cu" using assms by (simp add: units_ok_def tiled_append)
  then show ?thesis using snoc unit_end_next(1) by (cases cus) (simp_all add: next_unit_def tiled_append)
qed (simp add: next_unit_def)

lemma insert_at_end:
  assumes "units_ok n dis" "unit_ok n cu" "cc_debug_offset cu = next_unit dis"
  shows "insert_into_cu_context_list (de_cu_context_list dis) cu = Some (de_cu_context_list dis @ [cu])"
proof (cases "de_cu_context_list dis" rule: rev_exhaust)
  case (snoc cus l)
  then have "unit_ok n l" using assms(1) by (simp add: units_ok_def tiled_append)
  then have "unat (cc_debug_offset l) < unit_end l" by (simp add: unit_ok_def)
  moreover have "unat (cc_debug_offset cu) = unit_end l" using next_unit_end [OF assms(1)] assms(3) snoc by (simp add: tiled_append)
  ultimately show ?thesis using snoc by (simp add: insert_into_cu_context_list_def word_less_nat_alt)
qed (simp add: insert_into_cu_context_list_def)

lemma units_read_ok:
  assumes "units_read dbg nm is_info dis" "length (cu_section dbg is_info) < 2 ^ 62"
  shows "units_ok (length (cu_section dbg is_info)) dis"
  using assms(1)
proof induction
  case start
  then show ?case by (simp add: units_ok_def)
next
  case (insert dis cu m cus)
  have u: "unit_ok (length (cu_section dbg is_info)) cu" "cc_debug_offset cu = next_unit dis" "unat m = unit_end cu"
    using spec_result [OF spec_make_CU_Context [OF assms(2)] insert(2)] by simp_all
  with insert_at_end [OF insert.IH u(1,2)] insert(3) insert.IH next_unit_end [OF insert.IH]
  show ?case by (auto simp: units_ok_def tiled_append less_Suc_eq)
next
  case (give_up dis cu m)
  have u: "unit_ok (length (cu_section dbg is_info)) cu" "cc_debug_offset cu = next_unit dis" "unat m = unit_end cu"
    using spec_result [OF spec_make_CU_Context [OF assms(2)] give_up(2)] by simp_all
  then have "tiled_end 0 (de_cu_context_list dis) \<le> unat m"
    using next_unit_end [OF give_up.IH] by (simp add: unit_ok_def)
  then show ?case using give_up.IH by (simp add: units_ok_def)
qed (auto simp: units_ok_def)

section \<open>Properties\<close>

text \<open>Two units of version 4, the second without entries.\<close>

definition sample_info :: bytes where
  "sample_info = [16, 0, 0, 0, 4, 0, 0, 0, 0, 0, 8, 1, 3, 17, 2, 4, 0, 2, 8, 0,
     8, 0, 0, 0, 4, 0, 0, 0, 0, 0, 8, 0]"

definition debug_info_sample :: dwarf_debug where
  "debug_info_sample = debug_le64\<lparr>de_debug_info := sample_info,
     de_debug_abbrev := Some [1, 0x11, 1, 0, 0, 2, 0x24, 0, 0x0b, 0x0b, 0, 0, 3, 0x2e, 1, 1, 0x11, 0, 0, 0]\<rparr>"

definition sample_unit :: "u64 \<Rightarrow> u64 \<Rightarrow> unit_context" where
  "sample_unit off len = \<lparr>cc_length = len, cc_length_size = 4, cc_extension_size = 0, cc_version_stamp = 4, cc_address_size = 8,
     cc_segment_selector_size = 0, cc_debug_offset = off, cc_is_info = True, cc_is_dwo = False, cc_unit_type = 1,
     cc_signature = None, cc_signature_offset = 0, cc_cu_die_global_sec_offset = None, cc_abbrevs = fresh_context 0\<rparr>"

lemma sample_units:
  "make_CU_Context debug_info_sample None 0 True = DW_OK (sample_unit 0 16, 20)"
  "make_CU_Context debug_info_sample None 20 True = DW_OK (sample_unit 20 8, 32)"
  by code_simp+

text \<open>
  C25: Whatever bytes stand where a unit header is read, no byte outside the section is read; and when a context is made, the unit it
  describes is a nonempty part of the section, with the recorded end as its end in spite of 64 bit sums, an address size from 2 to
  8, a version from 2 to 5, a known unit type, and an offset size of 4 or 8.
\<close>

theorem unit_header_sound:
  assumes "length (cu_section dbg is_info) < 2 ^ 62"
  shows "make_CU_Context dbg nm off is_info \<noteq> FAULT \<and>
    (\<forall>cu m. make_CU_Context dbg nm off is_info = DW_OK (cu, m) \<longrightarrow>
      cc_debug_offset cu = off \<and> unat off < unat m \<and> unat m \<le> length (cu_section dbg is_info) \<and>
      unat m = unat off + unat (cc_length cu) + unat (cc_length_size cu) + unat (cc_extension_size cu) \<and>
      2 \<le> unat (cc_address_size cu) \<and> unat (cc_address_size cu) \<le> 8 \<and>
      2 \<le> unat (cc_version_stamp cu) \<and> unat (cc_version_stamp cu) \<le> 5 \<and>
      \<not> is_unknown_UT_value (cc_unit_type cu) \<and> cc_length_size cu \<in> {4, 8})"
  using spec_no_fault [OF spec_make_CU_Context [OF assms]] spec_result [OF spec_make_CU_Context [OF assms]]
  by (fastforce simp: unit_ok_def unit_end_def)

theorem unit_header_sound_witness:
  "\<exists>cu m. make_CU_Context debug_info_sample None 20 True = DW_OK (cu, m) \<and>
     unat m = 20 + unat (cc_length cu) + unat (cc_length_size cu) + unat (cc_extension_size cu) \<and> unat m \<le> 32"
proof -
  have l: "length (cu_section debug_info_sample True) = 32"
    by (simp add: cu_section_def debug_info_sample_def sample_info_def)
  then have "length (cu_section debug_info_sample True) < 2 ^ 62" by simp
  from unit_header_sound [OF this, of None 20] sample_units(2) l show ?thesis by auto
qed

text \<open>
  C14: However the units of a section were read, given up after an error, and made current or not, the contexts in the list follow
  one another from the start of the section without gap or overlap, and the search for an offset finds exactly the context whose unit
  contains it, or none when no unit read does.
\<close>

theorem unit_contexts_found:
  assumes "units_read dbg nm is_info dis" "length (cu_section dbg is_info) < 2 ^ 62"
  shows "tiled (length (cu_section dbg is_info)) 0 (de_cu_context_list dis) \<and>
    (find_CU_Context dis off = Some i \<longleftrightarrow> i < length (de_cu_context_list dis) \<and>
      unat (cc_debug_offset (de_cu_context_list dis ! i)) \<le> unat off \<and> unat off < unit_end (de_cu_context_list dis ! i))"
proof -
  note ok = units_read_ok [OF assms]
  then have t: "tiled (length (cu_section dbg is_info)) 0 (de_cu_context_list dis)" by (simp add: units_ok_def)
  then show ?thesis
    using find_CU_Context_iff [OF ok, of off i] tiled_nth [OF t, of i]
      unit_end_next(2) [of "length (cu_section dbg is_info)" "de_cu_context_list dis ! i" off] by blast
qed

theorem unit_contexts_found_witness:
  "\<exists>dis. units_read debug_info_sample None True dis \<and> de_cu_context dis = Some 0 \<and>
     de_cu_context_list dis = [sample_unit 0 16, sample_unit 20 8] \<and> find_CU_Context dis 31 = Some 1"
proof -
  let ?s = "\<lparr>de_cu_context = None, de_cu_context_list = [], de_last_offset = 0\<rparr>"
  let ?d1 = "?s\<lparr>de_cu_context_list := [sample_unit 0 16], de_last_offset := 20\<rparr>"
  let ?d2 = "?d1\<lparr>de_cu_context := Some 0\<rparr>"
  let ?d3 = "?d2\<lparr>de_cu_context_list := [sample_unit 0 16, sample_unit 20 8], de_last_offset := 32\<rparr>"
  have i: "insert_into_cu_context_list [] (sample_unit 0 16) = Some [sample_unit 0 16]"
    "insert_into_cu_context_list [sample_unit 0 16] (sample_unit 20 8) = Some [sample_unit 0 16, sample_unit 20 8]"
    by (simp_all add: insert_into_cu_context_list_def sample_unit_def)
  have n: "next_unit ?s = 0" "next_unit ?d2 = 20"
    by (simp_all add: next_unit_def calculate_next_cu_context_offset_def sample_unit_def)
  have "units_read debug_info_sample None True ?d1"
    by (rule units_read.insert [OF units_read.start]) (use n i sample_units in simp_all)
  then have "units_read debug_info_sample None True ?d2" by (rule units_read.move) simp
  then have r: "units_read debug_info_sample None True ?d3"
    by (rule units_read.insert) (use n i sample_units in simp_all)
  have "length (cu_section debug_info_sample True) < 2 ^ 62"
    by (simp add: cu_section_def debug_info_sample_def sample_info_def)
  from unit_contexts_found [OF r this, of 31 1] have "find_CU_Context ?d3 31 = Some 1"
    by (simp add: unit_end_def sample_unit_def)
  then show ?thesis using r by (intro exI [of _ ?d3]) simp
qed

end
