(* ===== verification/Dies.thy ===== *)
theory Dies
  imports Units
begin

text \<open>
  Debugging information entries (\<open>dwarf_die_deliv.c\<close>): moving over the attribute values of an entry, its first child and its next sibling.
  Pointers are offsets into \<open>.debug_info\<close> or \<open>.debug_types\<close>. The context of a unit is passed in and returned, since lookups
  change its table of abbreviations.
\<close>

abbreviation (input) DW_TAG_compile_unit :: u16 where "DW_TAG_compile_unit \<equiv> 0x11"
abbreviation (input) DW_TAG_partial_unit :: u16 where "DW_TAG_partial_unit \<equiv> 0x3c"
abbreviation (input) DW_TAG_type_unit :: u16 where "DW_TAG_type_unit \<equiv> 0x41"
abbreviation (input) DW_TAG_skeleton_unit :: u16 where "DW_TAG_skeleton_unit \<equiv> 0x4a"
abbreviation (input) DW_AT_sibling :: u16 where "DW_AT_sibling \<equiv> 0x01"

section \<open>Entries\<close>

text \<open>\<open>struct Dwarf_Die_s\<close> but for the context; the abbreviation is the entry as it was when the DIE was made.\<close>

record die =
  di_debug_ptr :: ptr
  di_abbrev_list :: abbrev_list
  di_abbrev_code :: u64
  di_is_info :: bool

definition calculate_info_section_end_ptr :: "unit_context \<Rightarrow> ptr" where
  "calculate_info_section_end_ptr cu =
     unat (cc_debug_offset cu) + unat (cc_length cu) + unat (cc_length_size cu) + unat (cc_extension_size cu)"

definition with_abbrevs :: "cu_context \<Rightarrow> unit_context \<Rightarrow> unit_context" where
  "with_abbrevs a cu = cu\<lparr>cc_abbrevs := a\<rparr>"

text \<open>The lookup of the code of an entry in its unit, with the arrays of the abbreviation filled in.\<close>

definition die_abbrev :: "bool \<Rightarrow> dwarf_debug \<Rightarrow> dle \<Rightarrow> u64 \<Rightarrow> unit_context \<Rightarrow> unit_context \<times> abbrev_list dw" where
  "die_abbrev allow_dup dbg missing code cu =
     (case abbrev_for_code allow_dup (de_debug_abbrev dbg) missing code (cc_abbrevs cu) of
        (a, r) \<Rightarrow> (with_abbrevs a cu, r))"

section \<open>Over the values of an entry\<close>

text \<open>
  The start of a round of the loop of \<open>_dwarf_next_die_info_ptr\<close>: the form the value really has, with the pointers into the section and into the
  abbreviations. An implicit constant is skipped from where the pointer into the abbreviations stands, which is
  not where the constant is.
\<close>

definition real_form :: "bytes \<Rightarrow> u16 \<Rightarrow> ptr \<Rightarrow> ptr \<Rightarrow> (u16 \<times> ptr) dw" where
  "real_form buf attr_form info_ptr die_info_end =
     (if ucast attr_form = DW_FORM_implicit_const then DW_OK (attr_form, info_ptr)
      else if ucast attr_form = DW_FORM_indirect then
        dw_bind (leb128_uword_wrapper buf info_ptr die_info_end) (\<lambda>(utmp6, info_ptr).
          let attr_form = ucast utmp6 :: u16 in
          if ucast attr_form = DW_FORM_implicit_const \<or> ucast attr_form = DW_FORM_indirect
          then DW_ERROR DW_DLE_NEXT_DIE_WRONG_FORM
          else DW_OK (attr_form, info_ptr))
      else DW_OK (attr_form, info_ptr))"

definition skip_constant :: "bytes \<Rightarrow> u16 \<Rightarrow> ptr \<Rightarrow> ptr dw" where
  "skip_constant abuf attr_form abbrev_ptr =
     (if ucast attr_form = DW_FORM_implicit_const
      then dw_bind (leb128_skip_wrapper abuf abbrev_ptr (length abuf)) (\<lambda>(_, p). DW_OK p)
      else DW_OK abbrev_ptr)"

text \<open>The offset a sibling attribute holds; \<open>None\<close> for the form that is treated as if there were no such attribute.\<close>

definition sibling_offset :: "dwarf_debug \<Rightarrow> bytes \<Rightarrow> u16 \<Rightarrow> ptr \<Rightarrow> ptr \<Rightarrow> u64 option dw" where
  "sibling_offset dbg buf attr_form info_ptr die_info_end =
     (if ucast attr_form = DW_FORM_ref1 then dw_bind (read_unaligned_ck dbg buf info_ptr 1 die_info_end) (DW_OK \<circ> Some)
      else if ucast attr_form = DW_FORM_ref2 then dw_bind (read_unaligned_ck dbg buf info_ptr 2 die_info_end) (DW_OK \<circ> Some)
      else if ucast attr_form = DW_FORM_ref4 then dw_bind (read_unaligned_ck dbg buf info_ptr 4 die_info_end) (DW_OK \<circ> Some)
      else if ucast attr_form = DW_FORM_ref8 then dw_bind (read_unaligned_ck dbg buf info_ptr 8 die_info_end) (DW_OK \<circ> Some)
      else if ucast attr_form = DW_FORM_ref_udata then
        dw_bind (leb128_uword_wrapper buf info_ptr die_info_end) (\<lambda>(v, _). DW_OK (Some v))
      else if ucast attr_form = DW_FORM_ref_addr then DW_OK None
      else DW_ERROR DW_DLE_NEXT_DIE_WRONG_FORM)"

definition sibling_target :: "u64 \<Rightarrow> ptr \<Rightarrow> ptr \<Rightarrow> ptr \<Rightarrow> ptr dw" where
  "sibling_target offset die_info_ptr die_info_end cu_info_start =
     (let plen = (if die_info_end \<ge> cu_info_start then word_of_nat (die_info_end - cu_info_start) else 0) in
      if offset > plen then DW_ERROR DW_DLE_SIBLING_OFFSET_WRONG
      else
        let next_die_ptr = cu_info_start + unat offset in
        if next_die_ptr \<le> die_info_ptr then DW_ERROR DW_DLE_SIBLING_OFFSET_WRONG else DW_OK next_die_ptr)"

text \<open>The step over a value.\<close>

definition skip_value :: "dwarf_debug \<Rightarrow> bytes \<Rightarrow> unit_context \<Rightarrow> u16 \<Rightarrow> ptr \<Rightarrow> ptr \<Rightarrow> ptr dw" where
  "skip_value dbg buf cu attr_form info_ptr die_info_end =
     (if attr_form \<noteq> 0 \<and> ucast attr_form \<noteq> DW_FORM_implicit_const then
        dw_bind (get_size_of_val dbg (ucast attr_form) (cc_version_stamp cu) (ucast (cc_address_size cu)) buf info_ptr
            (int (unat (cc_length_size cu))) 0 die_info_end) (\<lambda>sizeofval.
          let ssize = (if die_info_end \<ge> info_ptr then word_of_nat (die_info_end - info_ptr) else 0) in
          if sizeofval > ssize then DW_ERROR DW_DLE_NEXT_DIE_PAST_END
          else
            let info_ptr = info_ptr + unat sizeofval in
            if info_ptr > die_info_end then DW_ERROR DW_DLE_NEXT_DIE_PAST_END else DW_OK info_ptr)
      else DW_OK info_ptr)"

text \<open>The loop. It returns the pointer behind the entry, or the one a sibling attribute leads to with \<open>Some\<close>.\<close>

fun attr_loop ::
  "bool \<Rightarrow> dwarf_debug \<Rightarrow> bytes \<Rightarrow> bytes \<Rightarrow> unit_context \<Rightarrow> ptr \<times> ptr \<times> ptr \<Rightarrow> attr_form list \<Rightarrow> ptr \<Rightarrow> ptr \<Rightarrow> (bool \<times> ptr) dw"
where
  "attr_loop want_AT_sibling dbg buf abuf cu ptrs [] info_ptr abbrev_ptr = DW_OK (False, info_ptr)"
| "attr_loop want_AT_sibling dbg buf abuf cu (die_info_ptr, die_info_end, cu_info_start) ((attr, attr_form, _) # xs)
     info_ptr abbrev_ptr =
     dw_bind (real_form buf attr_form info_ptr die_info_end) (\<lambda>(attr_form, info_ptr).
     dw_bind (skip_constant abuf attr_form abbrev_ptr) (\<lambda>abbrev_ptr.
     dw_bind (if want_AT_sibling \<and> attr = DW_AT_sibling
              then sibling_offset dbg buf attr_form info_ptr die_info_end else DW_OK None) (\<lambda>sibling.
       case sibling of
         Some offset \<Rightarrow>
           dw_bind (sibling_target offset die_info_ptr die_info_end cu_info_start) (\<lambda>p. DW_OK (True, p))
       | None \<Rightarrow>
           dw_bind (skip_value dbg buf cu attr_form info_ptr die_info_end) (\<lambda>info_ptr.
             attr_loop want_AT_sibling dbg buf abuf cu (die_info_ptr, die_info_end, cu_info_start) xs info_ptr abbrev_ptr))))"

text \<open>\<open>_dwarf_next_die_info_ptr\<close> returns whether the entry has children that were not skipped, and the pointer.\<close>

definition next_die_info_ptr ::
  "bool \<Rightarrow> dwarf_debug \<Rightarrow> bytes \<Rightarrow> ptr \<Rightarrow> unit_context \<Rightarrow> ptr \<Rightarrow> ptr \<Rightarrow> bool \<Rightarrow> unit_context \<times> (bool \<times> ptr) dw"
where
  "next_die_info_ptr allow_dup dbg buf die_info_ptr cu die_info_end cu_info_start want_AT_sibling =
     (case leb128_uword_wrapper buf die_info_ptr die_info_end of
        DW_OK (abbrev_code, info_ptr) \<Rightarrow>
          if abbrev_code = 0 then (cu, DW_ERROR DW_DLE_NEXT_DIE_PTR_NULL)
          else
            (case die_abbrev allow_dup dbg DW_DLE_NEXT_DIE_NO_ABBREV_LIST abbrev_code cu of
               (cu, r) \<Rightarrow>
                 (cu, dw_bind r (\<lambda>abbrev_list.
                    case (de_debug_abbrev dbg, abl_attr_form abbrev_list) of
                      (Some abuf, Some xs) \<Rightarrow>
                        dw_bind (attr_loop want_AT_sibling dbg buf abuf cu (die_info_ptr, die_info_end, cu_info_start) xs
                            info_ptr (abl_abbrev_ptr abbrev_list)) (\<lambda>(skipped, p).
                          DW_OK (if skipped then False else abl_has_child abbrev_list \<noteq> 0, p))
                    | _ \<Rightarrow> FAULT)))
      | r \<Rightarrow> (cu, dw_bind r (\<lambda>_. DW_NO_ENTRY)))"

section \<open>Siblings\<close>

definition is_cu_tag :: "u16 \<Rightarrow> bool" where
  "is_cu_tag t \<longleftrightarrow>
     t = DW_TAG_compile_unit \<or> t = DW_TAG_partial_unit \<or> t = DW_TAG_skeleton_unit \<or> t = DW_TAG_type_unit"

text \<open>
  The inner loop at the end of a list of siblings: out one level for each zero byte, until there is a real entry or no level left.
  The depth is never negative.
\<close>

fun close_lists :: "bytes \<Rightarrow> ptr \<Rightarrow> ptr \<Rightarrow> nat \<Rightarrow> (ptr \<times> nat) dw" where
  "close_lists buf die_info_end die_info_ptr 0 = DW_OK (die_info_ptr, 0)"
| "close_lists buf die_info_end die_info_ptr (Suc child_depth) =
     (if die_info_ptr = die_info_end then DW_NO_ENTRY
      else dw_bind (rd8 buf die_info_ptr) (\<lambda>b.
        if b \<noteq> 0 then DW_OK (die_info_ptr, Suc child_depth)
        else close_lists buf die_info_end (die_info_ptr + 1) child_depth))"

text \<open>What a round of the outer loop does behind the entry it has moved over.\<close>

definition after_entry :: "bytes \<Rightarrow> ptr \<Rightarrow> bool \<Rightarrow> ptr \<Rightarrow> nat \<Rightarrow> (ptr \<times> nat) dw" where
  "after_entry buf die_info_end has_child die_info_ptr child_depth =
     dw_bind
       (if die_info_ptr < die_info_end then
          dw_bind (rd8 buf die_info_ptr) (\<lambda>b.
            if b = 0 \<and> has_child then DW_OK (die_info_ptr + 1, False) else DW_OK (die_info_ptr, has_child))
        else DW_OK (die_info_ptr, has_child))
       (\<lambda>(die_info_ptr, has_child).
         dw_bind (if die_info_ptr = die_info_end then DW_OK True
                  else dw_bind (rd8 buf die_info_ptr) (\<lambda>b. DW_OK (b = 0))) (\<lambda>at_end.
           if at_end then close_lists buf die_info_end die_info_ptr child_depth
           else DW_OK (die_info_ptr, if has_child then child_depth + 1 else child_depth)))"

lemma close_lists_ge: "close_lists buf e p d = DW_OK (q, d') \<Longrightarrow> p \<le> q"
  by (induction buf e p d rule: close_lists.induct) (force simp: dw_simps split: if_splits)+

lemma after_entry_ge: "after_entry buf e c p d = DW_OK (q, d') \<Longrightarrow> p \<le> q"
  by (auto simp: after_entry_def dw_simps split: if_splits dest!: close_lists_ge)

text \<open>
  The \<open>do\<close> loop. The two tests for a pointer that did not move forward have one outcome, so they are one test here.
\<close>

function sibling_loop ::
  "bool \<Rightarrow> dwarf_debug \<Rightarrow> bytes \<Rightarrow> unit_context \<Rightarrow> ptr \<Rightarrow> ptr \<Rightarrow> ptr \<Rightarrow> nat \<Rightarrow> unit_context \<times> ptr dw"
where
  "sibling_loop allow_dup dbg buf cu cu_info_start die_info_end die_info_ptr child_depth =
     (case next_die_info_ptr allow_dup dbg buf die_info_ptr cu die_info_end cu_info_start True of
        (cu, DW_OK (has_child, die_info_ptr2)) \<Rightarrow>
          if die_info_ptr2 \<le> die_info_ptr then (cu, DW_ERROR DW_DLE_NEXT_DIE_LOW_ERROR)
          else if die_info_ptr2 > die_info_end then (cu, DW_ERROR DW_DLE_NEXT_DIE_PAST_END)
          else
            (case after_entry buf die_info_end has_child die_info_ptr2 child_depth of
               DW_OK (p, child_depth) \<Rightarrow>
                 if child_depth \<noteq> 0 then sibling_loop allow_dup dbg buf cu cu_info_start die_info_end p child_depth
                 else (cu, DW_OK p)
             | r \<Rightarrow> (cu, dw_bind r (\<lambda>_. DW_NO_ENTRY)))
      | (cu, r) \<Rightarrow> (cu, dw_bind r (\<lambda>_. DW_NO_ENTRY)))"
  by pat_completeness auto
termination
  by (relation "measure (\<lambda>(_, dbg, buf, cu, s, e, p, d). e - p)") (auto dest!: after_entry_ge)

declare sibling_loop.simps [simp del]

text \<open>The end of \<open>_dwarf_siblingof_internal\<close> and of \<open>dwarf_child\<close>: the DIE at a place.\<close>

definition make_die ::
  "bool \<Rightarrow> dwarf_debug \<Rightarrow> dle \<Rightarrow> bool \<Rightarrow> ptr \<Rightarrow> u64 \<Rightarrow> unit_context \<Rightarrow> unit_context \<times> die dw"
where
  "make_die allow_dup dbg missing is_info p abbrev_code cu =
     (case die_abbrev allow_dup dbg missing abbrev_code cu of
        (cu, r) \<Rightarrow> (cu, dw_bind r (\<lambda>abbrev_list.
           DW_OK \<lparr>di_debug_ptr = p, di_abbrev_list = abbrev_list, di_abbrev_code = abbrev_code, di_is_info = is_info\<rparr>)))"

text \<open>
  What follows the loops of \<open>_dwarf_siblingof_internal\<close>; only the root entry's tag is checked. The test for a pointer past the end behind the
  code can not succeed and is left out.
\<close>

definition die_at_ptr ::
  "bool \<Rightarrow> dwarf_debug \<Rightarrow> bytes \<Rightarrow> bool \<Rightarrow> bool \<Rightarrow> ptr \<Rightarrow> ptr \<Rightarrow> unit_context \<Rightarrow> unit_context \<times> die dw"
where
  "die_at_ptr allow_dup dbg buf is_info want_cu_tag die_info_ptr die_info_end cu =
     (if die_info_ptr \<ge> die_info_end then (cu, DW_NO_ENTRY)
      else
        case rd8 buf die_info_ptr of
          DW_OK b \<Rightarrow>
            if b = 0 then (cu, DW_NO_ENTRY)
            else
              (case leb128_uword_wrapper buf die_info_ptr die_info_end of
                 DW_OK (abbrev_code, _) \<Rightarrow>
                   if abbrev_code = 0 then (cu, DW_NO_ENTRY)
                   else
                     (case make_die allow_dup dbg DW_DLE_DIE_ABBREV_LIST_NULL is_info die_info_ptr abbrev_code cu of
                        (cu, r) \<Rightarrow>
                          (cu, dw_bind r (\<lambda>die.
                             if want_cu_tag \<and> \<not> is_cu_tag (abl_tag (di_abbrev_list die))
                             then DW_ERROR DW_DLE_FIRST_DIE_NOT_CU else DW_OK die)))
               | r \<Rightarrow> (cu, dw_bind r (\<lambda>_. DW_NO_ENTRY)))
        | _ \<Rightarrow> (cu, FAULT))"

text \<open>\<open>dw_start_load_root_die\<close> on a context that is there; it returns the pointers to the entry and to the end.\<close>

definition start_load_root_die :: "dwarf_debug \<Rightarrow> unit_context \<Rightarrow> bool \<Rightarrow> unit_context \<times> (ptr \<times> ptr) dw" where
  "start_load_root_die dbg cu is_info =
     (let off2 = cc_debug_offset cu in
      case length_of_cu_header dbg off2 is_info of
        DW_OK headerlen \<Rightarrow>
          (cu\<lparr>cc_cu_die_global_sec_offset := Some (off2 + headerlen)\<rparr>,
           DW_OK (unat off2 + unat headerlen, calculate_info_section_end_ptr cu))
      | r \<Rightarrow> (cu, dw_bind r (\<lambda>_. DW_NO_ENTRY)))"

text \<open>
  \<open>_dwarf_siblingof_internal\<close>: the root entry of the unit when no DIE is given, its sibling otherwise. The DIE is one of the unit.
\<close>

definition siblingof_internal ::
  "bool \<Rightarrow> dwarf_debug \<Rightarrow> die option \<Rightarrow> bool \<Rightarrow> unit_context \<Rightarrow> unit_context \<times> die dw"
where
  "siblingof_internal allow_dup dbg die_opt is_info cu =
     (let buf = cu_section dbg is_info in
      if buf = [] then (cu, DW_NO_ENTRY)
      else
        case die_opt of
          None \<Rightarrow>
            (case start_load_root_die dbg cu is_info of
               (cu, DW_OK (p, e)) \<Rightarrow> die_at_ptr allow_dup dbg buf is_info True p e cu
             | (cu, r) \<Rightarrow> (cu, dw_bind r (\<lambda>_. DW_NO_ENTRY)))
        | Some die \<Rightarrow>
            (case rd8 buf (di_debug_ptr die) of
               DW_OK b \<Rightarrow>
                 if b = 0 then (cu, DW_NO_ENTRY)
                 else
                   let cu_info_start = unat (cc_debug_offset cu);
                       die_info_end = calculate_info_section_end_ptr cu
                   in (case sibling_loop allow_dup dbg buf cu cu_info_start die_info_end (di_debug_ptr die) 0 of
                         (cu, DW_OK p) \<Rightarrow> die_at_ptr allow_dup dbg buf is_info False p die_info_end cu
                       | (cu, r) \<Rightarrow> (cu, dw_bind r (\<lambda>_. DW_NO_ENTRY)))
             | _ \<Rightarrow> (cu, FAULT)))"

text \<open>The public operations; the flag of the caller is not used when there is a DIE.\<close>

definition siblingof_b ::
  "bool \<Rightarrow> dwarf_debug \<Rightarrow> die option \<Rightarrow> bool \<Rightarrow> unit_context option \<Rightarrow> unit_context option \<times> die dw"
where
  "siblingof_b allow_dup dbg die_opt is_info current =
     (case current of
        None \<Rightarrow> (None, if cu_section dbg is_info = [] then DW_NO_ENTRY else DW_ERROR DW_DLE_DBG_NO_CU_CONTEXT)
      | Some cu \<Rightarrow>
          (case siblingof_internal allow_dup dbg die_opt (if die_opt = None then is_info else cc_is_info cu) cu of
             (cu, r) \<Rightarrow> (Some cu, r)))"

definition siblingof_c :: "bool \<Rightarrow> dwarf_debug \<Rightarrow> die \<Rightarrow> unit_context \<Rightarrow> unit_context \<times> die dw" where
  "siblingof_c allow_dup dbg die cu = siblingof_internal allow_dup dbg (Some die) (cc_is_info cu) cu"

section \<open>Children\<close>

text \<open>The loop over padding, from the pointer kept for \<open>dwarf_validate_die_sibling\<close> on.\<close>

function skip_zeros :: "bytes \<Rightarrow> ptr \<Rightarrow> ptr \<Rightarrow> ptr dw" where
  "skip_zeros buf last_di_ptr die_info_end =
     (if last_di_ptr < die_info_end then
        dw_bind (rd8 buf last_di_ptr) (\<lambda>b.
          if b \<noteq> 0 then DW_OK last_di_ptr else skip_zeros buf (last_di_ptr + 1) die_info_end)
      else DW_OK last_di_ptr)"
  by pat_completeness auto
termination by (relation "measure (\<lambda>(buf, p, e). e - p)") auto

declare skip_zeros.simps [simp del]

text \<open>
  \<open>dwarf_child\<close>; the second result is what is left in \<open>de_last_di_ptr\<close>. The test for the end is made on the pointer to the parent, before
  it moves.
\<close>

definition child ::
  "bool \<Rightarrow> dwarf_debug \<Rightarrow> die \<Rightarrow> unit_context \<Rightarrow> unit_context \<times> ptr \<times> die dw"
where
  "child allow_dup dbg die cu =
     (let buf = cu_section dbg (di_is_info die);
          die_info_ptr = di_debug_ptr die;
          die_info_end = calculate_info_section_end_ptr cu
      in case rd8 buf die_info_ptr of
           DW_OK b \<Rightarrow>
             if b = 0 then (cu, die_info_ptr, DW_NO_ENTRY)
             else
               (case next_die_info_ptr allow_dup dbg buf die_info_ptr cu die_info_end 0 False of
                  (cu, DW_OK (has_die_child, die_info_ptr2)) \<Rightarrow>
                    if die_info_ptr = die_info_end then (cu, die_info_ptr, DW_NO_ENTRY)
                    else if \<not> has_die_child then
                      (case skip_zeros buf die_info_ptr2 die_info_end of
                         DW_OK last_di_ptr \<Rightarrow> (cu, last_di_ptr, DW_NO_ENTRY)
                       | _ \<Rightarrow> (cu, die_info_ptr2, FAULT))
                    else
                      (case leb128_uword_wrapper buf die_info_ptr2 die_info_end of
                         DW_OK (abbrev_code, p) \<Rightarrow>
                           if abbrev_code = 0 then
                             (case skip_zeros buf p die_info_end of
                                DW_OK last_di_ptr \<Rightarrow> (cu, last_di_ptr, DW_NO_ENTRY)
                              | _ \<Rightarrow> (cu, p, FAULT))
                           else
                             (case make_die allow_dup dbg DW_DLE_ABBREV_MISSING (di_is_info die) die_info_ptr2 abbrev_code cu of
                                (cu, r) \<Rightarrow> (cu, p, r))
                       | r \<Rightarrow> (cu, die_info_ptr2, dw_bind r (\<lambda>_. DW_NO_ENTRY)))
                | (cu, r) \<Rightarrow> (cu, die_info_ptr, dw_bind r (\<lambda>_. DW_NO_ENTRY)))
         | _ \<Rightarrow> (cu, die_info_ptr, FAULT))"

text \<open>\<open>dwarf_validate_die_sibling\<close> after a call of \<open>dwarf_child\<close>: whether the DIE is where that call stopped.\<close>

definition validate_die_sibling :: "die \<Rightarrow> ptr \<Rightarrow> bool" where
  "validate_die_sibling sibling last_di_ptr \<longleftrightarrow> di_debug_ptr sibling = last_di_ptr"

text \<open>The end of \<open>dwarf_offdie_b\<close>, for an offset and the context that was found for it.\<close>

definition offdie_in_context ::
  "bool \<Rightarrow> dwarf_debug \<Rightarrow> u64 \<Rightarrow> bool \<Rightarrow> unit_context \<Rightarrow> unit_context \<times> die dw"
where
  "offdie_in_context allow_dup dbg offset is_info cu =
     (case leb128_uword_wrapper (cu_section dbg is_info) (unat offset) (calculate_info_section_end_ptr cu) of
        DW_OK (abbrev_code, _) \<Rightarrow>
          if abbrev_code = 0 then (cu, DW_NO_ENTRY)
          else make_die allow_dup dbg DW_DLE_DIE_ABBREV_LIST_NULL is_info (unat offset) abbrev_code cu
      | r \<Rightarrow> (cu, dw_bind r (\<lambda>_. DW_NO_ENTRY)))"

section \<open>Any section is safe\<close>

text \<open>What a unit keeps: its header is sound and its table of abbreviations has the invariant of its section.\<close>

definition unit_inv :: "dwarf_debug \<Rightarrow> unit_context \<Rightarrow> bool" where
  "unit_inv dbg cu \<longleftrightarrow> unit_ok (length (cu_section dbg (cc_is_info cu))) cu \<and> \<not> de_assume_string_in_bounds dbg \<and>
     (\<forall>abuf. de_debug_abbrev dbg = Some abuf \<longrightarrow> context_inv abuf (cc_abbrevs cu))"

text \<open>The same unit after lookups.\<close>

definition unit_step :: "dwarf_debug \<Rightarrow> unit_context \<Rightarrow> unit_context \<Rightarrow> bool" where
  "unit_step dbg cu cu' \<longleftrightarrow> unit_inv dbg cu' \<and> (\<exists>a. cu' = with_abbrevs a cu)"

lemma with_abbrevs_simps [simp]:
  "cc_abbrevs (with_abbrevs a cu) = a" "with_abbrevs a (with_abbrevs b cu) = with_abbrevs a cu"
  "with_abbrevs (cc_abbrevs cu) cu = cu" "cc_is_info (with_abbrevs a cu) = cc_is_info cu"
  "cc_debug_offset (with_abbrevs a cu) = cc_debug_offset cu" "cc_length (with_abbrevs a cu) = cc_length cu"
  "cc_length_size (with_abbrevs a cu) = cc_length_size cu" "cc_extension_size (with_abbrevs a cu) = cc_extension_size cu"
  "cc_version_stamp (with_abbrevs a cu) = cc_version_stamp cu" "cc_address_size (with_abbrevs a cu) = cc_address_size cu"
  "cc_unit_type (with_abbrevs a cu) = cc_unit_type cu"
  "calculate_info_section_end_ptr (with_abbrevs a cu) = calculate_info_section_end_ptr cu"
  "unit_end (with_abbrevs a cu) = unit_end cu" "unit_ok n (with_abbrevs a cu) = unit_ok n cu"
  by (simp_all add: with_abbrevs_def calculate_info_section_end_ptr_def unit_end_def unit_ok_def)

lemma info_section_end [simp]: "calculate_info_section_end_ptr cu = unit_end cu"
  by (simp add: calculate_info_section_end_ptr_def unit_end_def)

lemma unit_step_refl: "unit_inv dbg cu \<Longrightarrow> unit_step dbg cu cu"
  unfolding unit_step_def by (auto intro: exI [of _ "cc_abbrevs cu"])

lemma unit_step_trans: "unit_step dbg a b \<Longrightarrow> unit_step dbg b c \<Longrightarrow> unit_step dbg a c"
  by (auto simp: unit_step_def)

lemma unit_step_same:
  assumes "unit_step dbg cu cu'"
  shows "unit_inv dbg cu'" "unit_end cu' = unit_end cu" "cc_is_info cu' = cc_is_info cu" "cc_debug_offset cu' = cc_debug_offset cu"
  using assms by (auto simp: unit_step_def)

lemma unit_invD:
  assumes "unit_inv dbg cu"
  shows "unit_end cu \<le> length (cu_section dbg (cc_is_info cu))" "unat (cc_debug_offset cu) < unit_end cu"
    "length (cu_section dbg (cc_is_info cu)) < 2 ^ 64" "\<not> de_assume_string_in_bounds dbg"
  using assms by (simp_all add: unit_inv_def unit_ok_def)

lemma die_abbrev_inv:
  assumes "unit_inv dbg cu" "die_abbrev allow_dup dbg missing code cu = (cu', r)"
  shows "unit_step dbg cu cu' \<and> r \<noteq> FAULT \<and> r \<noteq> DW_NO_ENTRY \<and>
    (\<forall>ent. r = DW_OK ent \<longrightarrow> abl_code ent = code \<and> abl_attr_form ent \<noteq> None \<and> de_debug_abbrev dbg \<noteq> None)"
proof (cases "de_debug_abbrev dbg")
  case None
  then show ?thesis using assms
    by (auto simp: die_abbrev_def abbrev_for_code_def get_abbrev_for_code_def intro: unit_step_refl)
next
  case (Some abuf)
  obtain a r1 where f: "abbrev_for_code allow_dup (Some abuf) missing code (cc_abbrevs cu) = (a, r1)" by fastforce
  have "context_inv abuf (cc_abbrevs cu)" using assms(1) Some by (simp add: unit_inv_def)
  note i = abbrev_for_code_inv [OF this f]
  have "cu' = with_abbrevs a cu" "r = r1" using assms(2) Some f by (auto simp: die_abbrev_def)
  then show ?thesis using i assms(1) Some by (auto simp: unit_step_def unit_inv_def)
qed

lemma make_die_inv:
  assumes "unit_inv dbg cu" "make_die allow_dup dbg missing is_info p code cu = (cu', r)"
  shows "unit_step dbg cu cu' \<and> r \<noteq> FAULT \<and> r \<noteq> DW_NO_ENTRY \<and>
    (\<forall>die. r = DW_OK die \<longrightarrow> di_debug_ptr die = p \<and> di_is_info die = is_info)"
proof -
  obtain cu1 r1 where d: "die_abbrev allow_dup dbg missing code cu = (cu1, r1)" by fastforce
  show ?thesis using die_abbrev_inv [OF assms(1) d] assms(2) d by (cases r1) (auto simp: make_die_def)
qed

lemma skip_value_spec:
  assumes "e \<le> length buf" "\<not> de_assume_string_in_bounds dbg" "p \<le> e"
  shows "spec True (\<lambda>q. p \<le> q \<and> q \<le> e) (skip_value dbg buf cu form p e)"
  using assms get_size_of_val_no_fault
  by (auto simp: spec_def skip_value_def dw_simps Let_def split: if_splits)

lemma real_form_spec:
  assumes "e \<le> length buf" "p \<le> e"
  shows "spec True (\<lambda>(f, q). p \<le> q \<and> q \<le> e) (real_form buf form p e)"
  using assms uword.read_no_fault [of e buf]
  by (auto simp: spec_def real_form_def dw_simps Let_def split: if_splits dest!: uword.read_advances)

lemma skip_constant_spec: "spec True (\<lambda>_. True) (skip_constant abuf form p)"
  using skip.read_no_fault [of "length abuf" abuf] by (auto simp: spec_def skip_constant_def dw_simps)

lemma sibling_offset_spec:
  "e \<le> length buf \<Longrightarrow> spec True (\<lambda>_. True) (sibling_offset dbg buf form p e)"
  using uword.read_no_fault [of e buf] by (auto simp: spec_def sibling_offset_def dw_simps no_fault)

lemma sibling_target_spec:
  assumes "s \<le> e" "e < 2 ^ 64"
  shows "spec True (\<lambda>q. p < q \<and> q \<le> e) (sibling_target off p e s)"
proof -
  have "unat (word_of_nat (e - s) :: u64) = e - s" using assms by (simp add: unat_of_nat del: of_nat_diff)
  then show ?thesis using assms by (auto simp: spec_def sibling_target_def Let_def word_le_nat_alt not_less)
qed

lemma attr_loop_spec:
  assumes "e \<le> length buf" "e < 2 ^ 64" "\<not> de_assume_string_in_bounds dbg" "want \<longrightarrow> s \<le> e" "p \<le> e"
  shows "spec True (\<lambda>(skipped, q). q \<le> e \<and> (if skipped then d < q else p \<le> q)) (attr_loop want dbg buf abuf cu (d, e, s) xs p ap)"
  using assms(5)
proof (induction xs arbitrary: p ap)
  case (Cons x xs)
  obtain attr form c where x: "x = (attr, form, c)" by (rule prod_cases3)
  show ?case
    unfolding x attr_loop.simps
  proof (rule spec_bind_prod [OF real_form_spec [OF assms(1) Cons.prems]], rule spec_bind [OF skip_constant_spec], goal_cases)
    case (1 f q ap')
    have "spec True (\<lambda>sib. sib \<noteq> None \<longrightarrow> want)
        (if want \<and> attr = DW_AT_sibling then sibling_offset dbg buf f q e else DW_OK None)"
      using sibling_offset_spec [OF assms(1)] by (auto simp: spec_def)
    then show ?case
    proof (rule spec_bind, goal_cases)
      case (1 sib)
      show ?case
      proof (cases sib)
        case None
        have rest: "spec True (\<lambda>(skipped, q). q \<le> e \<and> (if skipped then d < q else p \<le> q))
            (attr_loop want dbg buf abuf cu (d, e, s) xs q' ap')" if "q \<le> q' \<and> q' \<le> e" for q'
          using Cons.IH [of q' ap'] that \<open>p \<le> q \<and> q \<le> e\<close> by (auto simp: spec_def split: if_splits)
        show ?thesis
          unfolding None option.case
          by (rule spec_bind [OF skip_value_spec [OF assms(1,3)]]) (use rest \<open>p \<le> q \<and> q \<le> e\<close> in auto)
      next
        case (Some off)
        then have "s \<le> e" using 1 assms(4) by simp
        show ?thesis
          unfolding Some option.case
          by (rule spec_bind [OF sibling_target_spec [OF \<open>s \<le> e\<close> assms(2)]]) simp
      qed
    qed
  qed
qed simp

lemma next_die_info_ptr_inv:
  assumes "unit_inv dbg cu" "buf = cu_section dbg (cc_is_info cu)" "want \<longrightarrow> s \<le> unit_end cu"
    and "next_die_info_ptr allow_dup dbg buf p cu (unit_end cu) s want = (cu', r)"
  shows "unit_step dbg cu cu' \<and> r \<noteq> FAULT \<and> (\<forall>c q. r = DW_OK (c, q) \<longrightarrow> p < q \<and> q \<le> unit_end cu)"
proof -
  let ?e = "unit_end cu"
  note u = unit_invD [OF assms(1), folded assms(2)]
  show ?thesis
  proof (cases "leb128_uword_wrapper buf p ?e")
    case (DW_OK x)
    obtain code q where x: "x = (code, q)" by (cases x)
    have q: "p < q" "q \<le> ?e" using uword.read_advances DW_OK x by auto
    show ?thesis
    proof (cases "code = 0")
      case False
      obtain cu1 r1 where d: "die_abbrev allow_dup dbg DW_DLE_NEXT_DIE_NO_ABBREV_LIST code cu = (cu1, r1)" by fastforce
      note i = die_abbrev_inv [OF assms(1) d]
      show ?thesis
      proof (cases r1)
        case (DW_OK ent)
        then obtain abuf xs where a: "de_debug_abbrev dbg = Some abuf" "abl_attr_form ent = Some xs" using i by auto
        let ?l = "attr_loop want dbg buf abuf cu1 (p, ?e, s) xs q (abl_abbrev_ptr ent)"
        have "spec True (\<lambda>(skipped, q'). q' \<le> ?e \<and> (if skipped then p < q' else q \<le> q')) ?l"
          by (rule attr_loop_spec) (use u q assms(3) in auto)
        then have "?l \<noteq> FAULT" "?l = DW_OK (k, q') \<Longrightarrow> p < q' \<and> q' \<le> ?e" for k q'
          using q by (auto simp: spec_def split: if_splits)
        moreover have "cu' = cu1" "r = dw_bind ?l (\<lambda>(skipped, p). DW_OK (if skipped then False else abl_has_child ent \<noteq> 0, p))"
          using assms(4) \<open>leb128_uword_wrapper buf p ?e = DW_OK x\<close> x False d DW_OK a
          by (auto simp: next_die_info_ptr_def)
        ultimately show ?thesis using i by (cases ?l) auto
      qed (use assms(4) DW_OK x False d i in \<open>auto simp: next_die_info_ptr_def\<close>)
    qed (use assms(1,4) DW_OK x in \<open>auto simp: next_die_info_ptr_def intro: unit_step_refl\<close>)
  qed (use assms(1,4) uword.read_no_fault [OF u(1), of p] in \<open>auto simp: next_die_info_ptr_def intro: unit_step_refl\<close>)
qed

lemma close_lists_spec:
  "e \<le> length buf \<Longrightarrow> p \<le> e \<Longrightarrow> spec True (\<lambda>(q, d'). p \<le> q \<and> q \<le> e \<and> d' \<le> d) (close_lists buf e p d)"
proof (induction buf e p d rule: close_lists.induct)
  case (2 buf e p d)
  have "spec True (\<lambda>(q, d'). p \<le> q \<and> q \<le> e \<and> d' \<le> Suc d) (close_lists buf e (p + 1) d)" if "p \<noteq> e" "buf ! p = 0"
    by (rule spec_mono [OF 2(1) [of "0 :: u8"]]) (use that 2(2,3) in auto)
  then show ?case using 2(2,3) by (auto simp: rd8_def)
qed simp

lemma after_entry_spec:
  assumes "e \<le> length buf" "p \<le> e"
  shows "spec True (\<lambda>(q, d'). p \<le> q \<and> q \<le> e) (after_entry buf e c p d)"
proof -
  have r: "spec True (\<lambda>(q, c'). p \<le> q \<and> q \<le> e)
      (if p < e then dw_bind (rd8 buf p) (\<lambda>b. if b = 0 \<and> c then DW_OK (p + 1, False) else DW_OK (p, c)) else DW_OK (p, c))"
    using assms by (auto simp: rd8_def)
  show ?thesis
    unfolding after_entry_def
  proof (rule spec_bind_prod [OF r], goal_cases)
    case (1 q c')
    have "spec True (\<lambda>_. True) (if q = e then DW_OK True else dw_bind (rd8 buf q) (\<lambda>b. DW_OK (b = 0)))"
      using 1 assms by (auto simp: rd8_def)
    then show ?case
      by (rule spec_bind) (use 1 in \<open>auto intro: spec_mono [OF close_lists_spec [OF assms(1)]]\<close>)
  qed
qed

lemma sibling_loop_inv:
  assumes "unit_inv dbg cu" "buf = cu_section dbg (cc_is_info cu)" "p < unit_end cu"
    and "sibling_loop allow_dup dbg buf cu (unat (cc_debug_offset cu)) (unit_end cu) p d = (cu', r)"
  shows "unit_step dbg cu cu' \<and> r \<noteq> FAULT \<and> (\<forall>q. r = DW_OK q \<longrightarrow> p < q \<and> q \<le> unit_end cu)"
  using assms
proof (induction allow_dup dbg buf cu "unat (cc_debug_offset cu)" "unit_end cu" p d rule: sibling_loop.induct)
  case (1 allow_dup dbg buf cu p d)
  let ?e = "unit_end cu"
  let ?s = "unat (cc_debug_offset cu)"
  note u = unit_invD [OF 1(2), folded 1(3)]
  obtain cu1 r1 where nx: "next_die_info_ptr allow_dup dbg buf p cu ?e ?s True = (cu1, r1)" by fastforce
  have i: "unit_step dbg cu cu1 \<and> r1 \<noteq> FAULT \<and> (\<forall>c q. r1 = DW_OK (c, q) \<longrightarrow> p < q \<and> q \<le> ?e)"
    by (rule next_die_info_ptr_inv [OF 1(2,3) _ nx]) (use u in simp)
  note same = unit_step_same [OF conjunct1 [OF i]]
  show ?case
  proof (cases r1)
    case (DW_OK x)
    obtain c q where x: "x = (c, q)" by (cases x)
    then have q: "p < q" "q \<le> ?e" using i DW_OK by auto
    have a: "spec True (\<lambda>(q', d'). q \<le> q' \<and> q' \<le> ?e) (after_entry buf ?e c q d)"
      by (rule after_entry_spec [OF u(1) q(2)])
    show ?thesis
    proof (cases "after_entry buf ?e c q d")
      case (DW_OK y)
      obtain q' d' where y: "y = (q', d')" by (cases y)
      then have q': "q \<le> q'" "q' \<le> ?e" using spec_result [OF a] DW_OK by auto
      show ?thesis
      proof (cases "d' = 0")
        case True
        then show ?thesis using 1(5) nx \<open>r1 = DW_OK x\<close> x q q' DW_OK y i
          by (auto simp: sibling_loop.simps [of _ _ _ _ _ _ p])
      next
        case False
        then have l: "sibling_loop allow_dup dbg buf cu1 ?s ?e q' d' = (cu', r)"
          using 1(5) nx \<open>r1 = DW_OK x\<close> x q DW_OK y
          by (simp add: sibling_loop.simps [of _ _ _ _ _ _ p])
        show ?thesis
        proof (cases "q' < ?e")
          case True
          have "unit_step dbg cu1 cu' \<and> r \<noteq> FAULT \<and> (\<forall>q. r = DW_OK q \<longrightarrow> q' < q \<and> q \<le> unit_end cu1)"
            by (rule 1(1) [OF nx [symmetric, unfolded \<open>r1 = DW_OK x\<close> x] refl refl _ _ DW_OK [unfolded y] refl False])
              (use q 1(3) same True l in auto)
          then show ?thesis using same q q' unit_step_trans [OF conjunct1 [OF i]] by auto
        next
          case False
          then have "leb128_uword_wrapper buf q' ?e = DW_ERROR DW_DLE_LEB_IMPROPER"
            by (simp add: leb128_uword_wrapper_def decode_leb128_uword_len_ck_def decode_leb128_def)
          then have "sibling_loop allow_dup dbg buf cu1 ?s ?e q' d' = (cu1, DW_ERROR DW_DLE_LEB_IMPROPER)"
            by (simp add: sibling_loop.simps [of _ _ _ _ _ _ q'] next_die_info_ptr_def)
          then show ?thesis using l i by auto
        qed
      qed
    next
      case FAULT
      then show ?thesis using a by simp
    qed (use 1(5) nx DW_OK x q i in \<open>auto simp: sibling_loop.simps [of _ _ _ _ _ _ p]\<close>)
  qed (use 1(5) nx i in \<open>auto simp: sibling_loop.simps [of _ _ _ _ _ _ p]\<close>)
qed

lemma die_at_ptr_inv:
  assumes "unit_inv dbg cu" "buf = cu_section dbg (cc_is_info cu)"
    and "die_at_ptr allow_dup dbg buf is_info tag p (unit_end cu) cu = (cu', r)"
  shows "unit_step dbg cu cu' \<and> r \<noteq> FAULT \<and>
    (\<forall>die. r = DW_OK die \<longrightarrow> di_debug_ptr die = p \<and> p < unit_end cu \<and> di_is_info die = is_info)"
proof -
  note u = unit_invD [OF assms(1), folded assms(2)]
  show ?thesis
  proof (cases "p < unit_end cu \<and> buf ! p \<noteq> 0")
    case True
    then have b: "rd8 buf p = DW_OK (buf ! p)" using u by (simp add: rd8_def)
    show ?thesis
    proof (cases "leb128_uword_wrapper buf p (unit_end cu)")
      case (DW_OK x)
      obtain code q where x: "x = (code, q)" by (cases x)
      obtain cu1 r1 where m: "make_die allow_dup dbg DW_DLE_DIE_ABBREV_LIST_NULL is_info p code cu = (cu1, r1)" by fastforce
      show ?thesis using make_die_inv [OF assms(1) m] True b DW_OK x m assms(1,3)
        by (cases r1) (auto simp: die_at_ptr_def intro: unit_step_refl split: if_splits)
    qed (use True b assms(1,3) uword.read_no_fault [OF u(1), of p] in \<open>auto simp: die_at_ptr_def intro: unit_step_refl\<close>)
  qed (use u assms(1,3) in \<open>auto simp: die_at_ptr_def rd8_def intro: unit_step_refl split: if_splits\<close>)
qed

lemma start_load_root_die_inv:
  assumes "unit_inv dbg cu" "start_load_root_die dbg cu is_info = (cu', r)"
  shows "unit_inv dbg cu' \<and> unit_end cu' = unit_end cu \<and> cc_is_info cu' = cc_is_info cu \<and> r \<noteq> FAULT \<and>
    (\<forall>p e. r = DW_OK (p, e) \<longrightarrow> e = unit_end cu')"
proof -
  have "length_of_cu_header dbg (cc_debug_offset cu) is_info \<noteq> FAULT"
    by (auto simp: length_of_cu_header_def cu_header_size_def cu_header_size_v5_def Let_def dw_simps no_fault)
  then show ?thesis using assms
    by (auto simp: start_load_root_die_def Let_def unit_inv_def unit_end_def unit_ok_def split: dw.splits)
qed

lemma siblingof_internal_inv:
  assumes "unit_inv dbg cu" "is_info = cc_is_info cu" "\<forall>die. die_opt = Some die \<longrightarrow> di_debug_ptr die < unit_end cu"
    and "siblingof_internal allow_dup dbg die_opt is_info cu = (cu', r)"
  shows "unit_inv dbg cu' \<and> unit_end cu' = unit_end cu \<and> cc_is_info cu' = cc_is_info cu \<and> r \<noteq> FAULT \<and>
    (\<forall>sib. r = DW_OK sib \<longrightarrow> di_debug_ptr sib < unit_end cu \<and> di_is_info sib = is_info \<and>
      (\<forall>die. die_opt = Some die \<longrightarrow> di_debug_ptr die < di_debug_ptr sib))"
proof -
  let ?b = "cu_section dbg is_info"
  note u = unit_invD [OF assms(1), folded assms(2)]
  have ne: "?b \<noteq> []" using u by auto
  show ?thesis
  proof (cases die_opt)
    case None
    obtain cu1 r1 where s: "start_load_root_die dbg cu is_info = (cu1, r1)" by fastforce
    note i = start_load_root_die_inv [OF assms(1) s]
    show ?thesis
    proof (cases r1)
      case (DW_OK x)
      obtain p e where x: "x = (p, e)" by (cases x)
      then have d: "die_at_ptr allow_dup dbg ?b is_info True p (unit_end cu1) cu1 = (cu', r)"
        using assms(4) None s DW_OK i ne by (simp add: siblingof_internal_def Let_def)
      have "?b = cu_section dbg (cc_is_info cu1)" using assms(2) i by simp
      from die_at_ptr_inv [OF conjunct1 [OF i] this d] i None show ?thesis
        using unit_step_same [of dbg cu1 cu'] by auto
    qed (use assms(4) None s i ne in \<open>auto simp: siblingof_internal_def Let_def\<close>)
  next
    case (Some die)
    let ?p = "di_debug_ptr die"
    have p: "?p < unit_end cu" using assms(3) Some by simp
    then have b: "rd8 ?b ?p = DW_OK (?b ! ?p)" using u by (simp add: rd8_def)
    obtain cu1 r1 where s: "sibling_loop allow_dup dbg ?b cu (unat (cc_debug_offset cu)) (unit_end cu) ?p 0 = (cu1, r1)"
      by fastforce
    note i = sibling_loop_inv [OF assms(1) arg_cong [OF assms(2)] p s]
    note same = unit_step_same [OF conjunct1 [OF i]]
    show ?thesis
    proof (cases "?b ! ?p = 0")
      case True
      then show ?thesis using assms(1,4) Some b ne by (auto simp: siblingof_internal_def Let_def)
    next
      case False
      show ?thesis
      proof (cases r1)
        case (DW_OK q)
        then have d: "die_at_ptr allow_dup dbg ?b is_info False q (unit_end cu1) cu1 = (cu', r)"
          using assms(4) Some s b ne False same by (simp add: siblingof_internal_def Let_def)
        have "?b = cu_section dbg (cc_is_info cu1)" using assms(2) same by simp
        from die_at_ptr_inv [OF same(1) this d] i DW_OK Some same show ?thesis
          using unit_step_same [of dbg cu1 cu'] by auto
      qed (use assms(4) Some s i ne b False same in \<open>auto simp: siblingof_internal_def Let_def\<close>)
    qed
  qed
qed

lemma skip_zeros_no_fault: "e \<le> length buf \<Longrightarrow> \<exists>q. skip_zeros buf p e = DW_OK q"
proof (induction buf p e rule: skip_zeros.induct)
  case (1 buf p e)
  then show ?case by (subst skip_zeros.simps) (auto simp: rd8_def)
qed

lemma child_inv:
  assumes "unit_inv dbg cu" "di_is_info die = cc_is_info cu" "di_debug_ptr die < unit_end cu"
    and "child allow_dup dbg die cu = (cu', lp, r)"
  shows "unit_inv dbg cu' \<and> unit_end cu' = unit_end cu \<and> cc_is_info cu' = cc_is_info cu \<and> r \<noteq> FAULT \<and>
    (\<forall>c. r = DW_OK c \<longrightarrow> di_debug_ptr die < di_debug_ptr c \<and> di_debug_ptr c < unit_end cu \<and> di_is_info c = di_is_info die)"
proof -
  let ?b = "cu_section dbg (di_is_info die)"
  let ?p = "di_debug_ptr die"
  let ?e = "unit_end cu"
  note u = unit_invD [OF assms(1), folded assms(2)]
  have b: "rd8 ?b ?p = DW_OK (?b ! ?p)" using u assms(3) by (simp add: rd8_def)
  show ?thesis
  proof (cases "?b ! ?p = 0")
    case True
    then show ?thesis using assms(1,4) b by (auto simp: child_def Let_def)
  next
    case False
    obtain cu1 r1 where n: "next_die_info_ptr allow_dup dbg ?b ?p cu ?e 0 False = (cu1, r1)" by fastforce
    have i: "unit_step dbg cu cu1 \<and> r1 \<noteq> FAULT \<and> (\<forall>c q. r1 = DW_OK (c, q) \<longrightarrow> ?p < q \<and> q \<le> ?e)"
      by (rule next_die_info_ptr_inv [OF assms(1) _ _ n]) (simp_all add: assms(2))
    note same = unit_step_same [OF conjunct1 [OF i]]
    show ?thesis
    proof (cases r1)
      case (DW_OK x)
      obtain c q where x: "x = (c, q)" by (cases x)
      then have q: "?p < q" "q \<le> ?e" using i DW_OK by auto
      obtain z where z: "skip_zeros ?b q ?e = DW_OK z" using skip_zeros_no_fault [OF u(1)] by blast
      show ?thesis
      proof (cases "c \<and> q < ?e")
        case True
        show ?thesis
        proof (cases "leb128_uword_wrapper ?b q ?e")
          case (DW_OK y)
          obtain code q' where y: "y = (code, q')" by (cases y)
          obtain z' where z': "skip_zeros ?b q' ?e = DW_OK z'" using skip_zeros_no_fault [OF u(1)] by blast
          obtain cu2 r2 where m: "make_die allow_dup dbg DW_DLE_ABBREV_MISSING (di_is_info die) q code cu1 = (cu2, r2)" by fastforce
          note k = make_die_inv [OF same(1) m]
          show ?thesis
          proof (cases "code = 0")
            case True
            then show ?thesis using assms(4) b False n \<open>r1 = DW_OK x\<close> x DW_OK y z' same \<open>c \<and> q < ?e\<close> assms(3)
              by (auto simp: child_def Let_def)
          next
            case nz: False
            have "cu' = cu2" "r = r2"
              using assms(4) b False n \<open>r1 = DW_OK x\<close> x DW_OK y m nz \<open>c \<and> q < ?e\<close> assms(3)
              by (auto simp: child_def Let_def)
            then show ?thesis using k q True same unit_step_same [OF conjunct1 [OF k]] by auto
          qed
        qed (use assms(3,4) b False n \<open>r1 = DW_OK x\<close> x True same uword.read_no_fault [OF u(1), of q] in
            \<open>auto simp: child_def Let_def\<close>)
      next
        case no: False
        show ?thesis
        proof (cases c)
          case True
          then have "q = ?e" using no q by simp
          then have "leb128_uword_wrapper ?b q ?e = DW_ERROR DW_DLE_LEB_IMPROPER"
            by (simp add: leb128_uword_wrapper_def decode_leb128_uword_len_ck_def decode_leb128_def)
          then show ?thesis using assms(3,4) b False n DW_OK x True same
            by (auto simp: child_def Let_def)
        qed (use assms(3,4) b False n DW_OK x z same in \<open>auto simp: child_def Let_def\<close>)
      qed
    qed (use assms(4) b False n i same in \<open>auto simp: child_def Let_def\<close>)
  qed
qed

text \<open>The context of a unit just read keeps the invariant.\<close>

lemma unit_inv_made:
  assumes "make_CU_Context dbg nm off is_info = DW_OK (cu, m)" "length (cu_section dbg is_info) < 2 ^ 62"
    and "\<not> de_assume_string_in_bounds dbg"
  shows "unit_inv dbg cu" "cc_is_info cu = is_info"
  using spec_result [OF spec_make_CU_Context [OF assms(2)] assms(1)] assms(3) fresh_context_inv
  by (auto simp: unit_inv_def)

end
