(* ===== verification/DieTrees.thy ===== *)
theory DieTrees
  imports Dies
begin

text \<open>
  The trees of entries a unit stands for, as a relation between bytes and trees that does not follow the code's way through them, and the
  refinement: on a unit that holds trees, the operations of \<open>Dies\<close> lead from entry to entry the way the trees do.
\<close>

section \<open>Trees in a section\<close>

text \<open>An entry with its place, its declaration and its children.\<close>

datatype die_tree = Die ptr abbrev_list "die_tree list"

text \<open>
  Where the values of an entry end, and the offset its sibling attribute holds, the first one in a form that can be used. Both are over the
  declared attributes and forms.
\<close>

fun values_end :: "dwarf_debug \<Rightarrow> bytes \<Rightarrow> unit_context \<Rightarrow> attr_form list \<Rightarrow> ptr \<Rightarrow> ptr dw" where
  "values_end dbg buf cu [] p = DW_OK p"
| "values_end dbg buf cu ((_, form, _) # xs) p =
     dw_bind (real_form buf form p (unit_end cu)) (\<lambda>(form, p).
     dw_bind (skip_value dbg buf cu form p (unit_end cu)) (values_end dbg buf cu xs))"

fun sibling_attr :: "dwarf_debug \<Rightarrow> bytes \<Rightarrow> unit_context \<Rightarrow> attr_form list \<Rightarrow> ptr \<Rightarrow> u64 option dw" where
  "sibling_attr dbg buf cu [] p = DW_OK None"
| "sibling_attr dbg buf cu ((attr, form, _) # xs) p =
     dw_bind (real_form buf form p (unit_end cu)) (\<lambda>(form, p).
     dw_bind (if attr = DW_AT_sibling then sibling_offset dbg buf form p (unit_end cu) else DW_OK None) (\<lambda>s.
       case s of
         Some off \<Rightarrow> DW_OK (Some off)
       | None \<Rightarrow> dw_bind (skip_value dbg buf cu form p (unit_end cu)) (sibling_attr dbg buf cu xs)))"

text \<open>
  The entry at a place: its code, the declaration with that code, and its values. Its sibling attribute, if it has one, holds the
  offset from the start of the unit to the place behind its tree.
\<close>

definition entry_at ::
  "dwarf_debug \<Rightarrow> bytes \<Rightarrow> bytes \<Rightarrow> abbrev_list list \<Rightarrow> unit_context \<Rightarrow> ptr \<Rightarrow> abbrev_list \<Rightarrow> ptr \<Rightarrow> ptr \<Rightarrow> bool"
where
  "entry_at dbg buf abuf ds cu p d p2 q \<longleftrightarrow>
     d \<in> set ds \<and> proper_decl abuf d \<and> abl_code d \<noteq> 0 \<and>
     (\<exists>p1. leb128_uword_wrapper buf p (unit_end cu) = DW_OK (abl_code d, p1) \<and>
        values_end dbg buf cu (decl_forms abuf d) p1 = DW_OK p2 \<and>
        (\<exists>s. sibling_attr dbg buf cu (decl_forms abuf d) p1 = DW_OK s \<and>
           (\<forall>off. s = Some off \<longrightarrow> unat (cc_debug_offset cu) + unat off = q)))"

text \<open>
  A tree from a place to another, and a list of trees, which ends with a zero byte, or without one at the end of the unit. The list of an
  entry that says it has children does not begin at the end of the unit.
\<close>

inductive tree_at ::
  "dwarf_debug \<Rightarrow> bytes \<Rightarrow> bytes \<Rightarrow> abbrev_list list \<Rightarrow> unit_context \<Rightarrow> ptr \<Rightarrow> die_tree \<Rightarrow> ptr \<Rightarrow> bool"
and forest_at ::
  "dwarf_debug \<Rightarrow> bytes \<Rightarrow> bytes \<Rightarrow> abbrev_list list \<Rightarrow> unit_context \<Rightarrow> ptr \<Rightarrow> die_tree list \<Rightarrow> ptr \<Rightarrow> bool"
for dbg buf abuf ds cu
where
  childless: "entry_at dbg buf abuf ds cu p d q q \<Longrightarrow> abl_has_child d = 0 \<Longrightarrow>
    tree_at dbg buf abuf ds cu p (Die p d []) q"
| parent: "entry_at dbg buf abuf ds cu p d p2 q \<Longrightarrow> abl_has_child d \<noteq> 0 \<Longrightarrow> p2 < unit_end cu \<Longrightarrow>
    forest_at dbg buf abuf ds cu p2 ts q \<Longrightarrow> tree_at dbg buf abuf ds cu p (Die p d ts) q"
| zero: "p < unit_end cu \<Longrightarrow> buf ! p = 0 \<Longrightarrow> forest_at dbg buf abuf ds cu p [] (p + 1)"
| unit_ends: "p = unit_end cu \<Longrightarrow> forest_at dbg buf abuf ds cu p [] p"
| tree: "tree_at dbg buf abuf ds cu p t r \<Longrightarrow> forest_at dbg buf abuf ds cu r ts q \<Longrightarrow>
    forest_at dbg buf abuf ds cu p (t # ts) q"

inductive_cases forest_NilE: "forest_at dbg buf abuf ds cu p [] q"
inductive_cases forest_ConsE: "forest_at dbg buf abuf ds cu p (t # ts) q"
inductive_cases tree_atE: "tree_at dbg buf abuf ds cu p (Die x d ts) q"

section \<open>The loop over the values\<close>

text \<open>A reader of entries whose table is good: it holds the declarations of the unit.\<close>

definition good_table :: "bool \<Rightarrow> bytes \<Rightarrow> abbrev_list list \<Rightarrow> cu_context \<Rightarrow> bool" where
  "good_table allow_dup abuf ds a \<longleftrightarrow> cache_ok allow_dup abuf ds a \<and> context_inv abuf a"

lemma real_form_implicit: "real_form buf form p e = DW_OK (f, q) \<Longrightarrow> ucast f = DW_FORM_implicit_const \<longleftrightarrow> ucast form = DW_FORM_implicit_const"
  by (auto simp: real_form_def dw_simps Let_def split: if_splits)

lemma skip_value_context [simp]: "skip_value dbg buf (with_abbrevs a cu) = skip_value dbg buf cu"
  by (intro ext) (simp add: skip_value_def)

lemma implicit_form_16: "(ucast (form :: u16) :: u64) = 0x21 \<longleftrightarrow> form = 0x21"
  by (simp add: word_unat_eq_iff)

lemma skip_constant_next:
  assumes "skips (implicit_forms ((attr, form, c) # xs)) abuf ap"
  shows "\<exists>ap'. skip_constant abuf form ap = DW_OK ap' \<and> skips (implicit_forms xs) abuf ap'"
  using assms
  by (auto simp: skip_constant_def implicit_forms_def implicit_form_16 dw_simps split: dw.splits if_splits)

lemma skip_constant_same: "real_form buf form p e = DW_OK (f, q) \<Longrightarrow> skip_constant abuf f = skip_constant abuf form"
  by (rule ext) (use real_form_implicit in \<open>auto simp: skip_constant_def\<close>)

lemma attr_loop_values:
  assumes "values_end dbg buf cu xs p = DW_OK q" "skips (implicit_forms xs) abuf ap"
    and "want \<longrightarrow> sibling_attr dbg buf cu xs p = DW_OK s" "\<not> want \<longrightarrow> s = None"
    and "\<forall>off. s = Some off \<longrightarrow> sibling_target off d (unit_end cu) st = DW_OK t"
  shows "attr_loop want dbg buf abuf cu (d, unit_end cu, st) xs p ap = DW_OK (case s of None \<Rightarrow> (False, q) | Some _ \<Rightarrow> (True, t))"
  using assms(1-4)
proof (induction xs arbitrary: p ap)
  case Nil
  then show ?case by (cases want) auto
next
  case (Cons x xs)
  obtain attr form c where x: "x = (attr, form, c)" by (rule prod_cases3)
  obtain f p1 p2 where v: "real_form buf form p (unit_end cu) = DW_OK (f, p1)"
    "skip_value dbg buf cu f p1 (unit_end cu) = DW_OK p2" "values_end dbg buf cu xs p2 = DW_OK q"
    using Cons.prems(1) x by (auto simp: dw_simps)
  obtain ap' where ap: "skip_constant abuf form ap = DW_OK ap'" "skips (implicit_forms xs) abuf ap'"
    using skip_constant_next Cons.prems(2) x by blast
  define sib where "sib = (if want \<and> attr = DW_AT_sibling then sibling_offset dbg buf f p1 (unit_end cu) else DW_OK None)"
  show ?case
  proof (cases "\<exists>off. sib = DW_OK (Some off)")
    case True
    then obtain off where o: "sib = DW_OK (Some off)" by blast
    then have "want" "attr = DW_AT_sibling" by (auto simp: sib_def split: if_splits)
    then have "s = Some off" using Cons.prems(3) o v x by (auto simp: sib_def)
    then show ?thesis using v(1) ap(1) o assms(5) x by (simp add: skip_constant_same [OF v(1)] sib_def)
  next
    case False
    have none: "sib = DW_OK None"
    proof (cases "want \<and> attr = DW_AT_sibling")
      case True
      then show ?thesis using Cons.prems(3) v x False by (auto simp: sib_def dw_simps split: option.splits)
    qed (auto simp: sib_def)
    have "want \<longrightarrow> sibling_attr dbg buf cu xs p2 = DW_OK s"
      using Cons.prems(3) v x none by (auto simp: sib_def split: if_splits)
    note ih = Cons.IH [OF v(3) ap(2) this Cons.prems(4)]
    then show ?thesis using v ap(1) none x by (simp add: skip_constant_same [OF v(1)] sib_def)
  qed
qed

section \<open>Entries of good units\<close>

text \<open>
  A unit with a good header in a section, and the declarations its abbreviations are; its context is the one given, with a table that
  changes.
\<close>

definition unit_setup ::
  "dwarf_debug \<Rightarrow> bytes \<Rightarrow> bytes \<Rightarrow> abbrev_list list \<Rightarrow> unit_context \<Rightarrow> bool"
where
  "unit_setup dbg buf abuf ds cu \<longleftrightarrow> buf = cu_section dbg (cc_is_info cu) \<and> de_debug_abbrev dbg = Some abuf \<and>
     distinct (map abl_code ds) \<and> unit_ok (length buf) cu"

lemma unit_setupD:
  assumes "unit_setup dbg buf abuf ds cu"
  shows "unit_end cu \<le> length buf" "unat (cc_debug_offset cu) < unit_end cu" "unit_end cu < 2 ^ 64"
  using assms by (auto simp: unit_setup_def unit_ok_def)

lemma lookup_entry:
  assumes "unit_setup dbg buf abuf ds cu" "good_table allow_dup abuf ds a" "d \<in> set ds" "proper_decl abuf d"
  shows "\<exists>a' ent. die_abbrev allow_dup dbg missing (abl_code d) (with_abbrevs a cu) = (with_abbrevs a' cu, DW_OK ent) \<and>
    good_table allow_dup abuf ds a' \<and> plain ent = d \<and> abl_attr_form ent = Some (decl_forms abuf d)"
proof -
  obtain a' r where f: "abbrev_for_code allow_dup (Some abuf) missing (abl_code d) a = (a', r)" by fastforce
  have d: "distinct (map abl_code ds)" using assms(1) by (simp add: unit_setup_def)
  have "find (\<lambda>x. abl_code x = abl_code d) ds = Some d" by (rule find_declared [OF d assms(3) refl])
  then show ?thesis
    using abbrev_for_code_declared [OF _ _ d f] assms f by (auto simp: good_table_def die_abbrev_def unit_setup_def)
qed

lemma attr_loop_context [simp]:
  "attr_loop w dbg buf abuf (with_abbrevs a cu) (d, e, s) xs p ap = attr_loop w dbg buf abuf cu (d, e, s) xs p ap"
proof (induction xs arbitrary: p ap)
  case (Cons x xs)
  then show ?case by (cases x) simp
qed simp

lemma next_entry:
  assumes "unit_setup dbg buf abuf ds cu" "good_table allow_dup abuf ds a" "entry_at dbg buf abuf ds cu p d p2 q"
    and "p < q" "q \<le> unit_end cu"
  shows "\<exists>a' jump. good_table allow_dup abuf ds a' \<and> (\<forall>st. next_die_info_ptr allow_dup dbg buf p (with_abbrevs a cu)
      (unit_end cu) st False = (with_abbrevs a' cu, DW_OK (abl_has_child d \<noteq> 0, p2))) \<and>
    next_die_info_ptr allow_dup dbg buf p (with_abbrevs a cu) (unit_end cu) (unat (cc_debug_offset cu)) True =
      (with_abbrevs a' cu, DW_OK (if jump then (False, q) else (abl_has_child d \<noteq> 0, p2)))"
proof -
  note u = unit_setupD [OF assms(1)]
  obtain p1 s where e: "d \<in> set ds" "proper_decl abuf d" "abl_code d \<noteq> 0"
    "leb128_uword_wrapper buf p (unit_end cu) = DW_OK (abl_code d, p1)"
    "values_end dbg buf cu (decl_forms abuf d) p1 = DW_OK p2"
    "sibling_attr dbg buf cu (decl_forms abuf d) p1 = DW_OK s" "\<forall>off. s = Some off \<longrightarrow> unat (cc_debug_offset cu) + unat off = q"
    using assms(3) by (auto simp: entry_at_def)
  obtain a' ent where l: "die_abbrev allow_dup dbg DW_DLE_NEXT_DIE_NO_ABBREV_LIST (abl_code d) (with_abbrevs a cu) =
      (with_abbrevs a' cu, DW_OK ent)" "good_table allow_dup abuf ds a'" "plain ent = d"
    "abl_attr_form ent = Some (decl_forms abuf d)"
    using lookup_entry [OF assms(1,2) e(1,2)] by blast
  have ent: "abl_abbrev_ptr ent = abl_abbrev_ptr d" "abl_has_child ent = abl_has_child d" using l(3) by auto
  have sk: "skips (implicit_forms (decl_forms abuf d)) abuf (abl_abbrev_ptr ent)"
    using e(2) ent by (simp add: proper_decl_def)
  have target: "\<forall>off. s = Some off \<longrightarrow> sibling_target off p (unit_end cu) (unat (cc_debug_offset cu)) = DW_OK q"
  proof (intro allI impI)
    fix off assume "s = Some off"
    then have o: "unat (cc_debug_offset cu) + unat off = q" using e(7) by blast
    have "unat (word_of_nat (unit_end cu - unat (cc_debug_offset cu)) :: u64) = unit_end cu - unat (cc_debug_offset cu)"
      using u by (simp add: unat_of_nat del: of_nat_diff)
    then show "sibling_target off p (unit_end cu) (unat (cc_debug_offset cu)) = DW_OK q"
      using o assms(4,5) u(2) by (auto simp: sibling_target_def Let_def word_less_nat_alt)
  qed
  have dbg: "de_debug_abbrev dbg = Some abuf" using assms(1) by (simp add: unit_setup_def)
  have plain_loop: "attr_loop False dbg buf abuf cu (p, unit_end cu, st) (decl_forms abuf d) p1 (abl_abbrev_ptr ent) = DW_OK (False, p2)" for st
    using attr_loop_values [OF e(5) sk, of False None p st 0] by simp
  note sib_loop = attr_loop_values [OF e(5) sk, of True s p "unat (cc_debug_offset cu)" q, simplified, OF e(6) target [simplified]]
  show ?thesis
    by (intro exI [of _ a'] exI [of _ "s \<noteq> None"])
      (use l dbg e(3,4) ent plain_loop sib_loop in \<open>auto simp: next_die_info_ptr_def split: option.splits\<close>)
qed

lemma values_end_le: "values_end dbg buf cu xs p = DW_OK q \<Longrightarrow> p \<le> unit_end cu \<Longrightarrow> p \<le> q \<and> q \<le> unit_end cu"
proof (induction xs arbitrary: p)
  case (Cons x xs)
  obtain attr form c where x: "x = (attr, form, c)" by (rule prod_cases3)
  obtain f p1 p2 where v: "real_form buf form p (unit_end cu) = DW_OK (f, p1)"
    "skip_value dbg buf cu f p1 (unit_end cu) = DW_OK p2" "values_end dbg buf cu xs p2 = DW_OK q"
    using Cons.prems(1) x by (auto simp: dw_simps)
  have "p \<le> p1 \<and> p1 \<le> unit_end cu" using v(1) Cons.prems(2)
    by (auto simp: real_form_def dw_simps Let_def split: if_splits dest!: uword.read_advances)
  moreover from this have "p1 \<le> p2 \<and> p2 \<le> unit_end cu" using v(2)
    by (auto simp: skip_value_def dw_simps Let_def split: if_splits)
  ultimately show ?case using Cons.IH [OF v(3)] by auto
qed simp

lemma entry_starts:
  assumes "entry_at dbg buf abuf ds cu p d p2 q" "unit_end cu \<le> length buf"
  shows "p < p2 \<and> p2 \<le> unit_end cu \<and> buf ! p \<noteq> 0"
proof -
  obtain p1 where e: "abl_code d \<noteq> 0" "leb128_uword_wrapper buf p (unit_end cu) = DW_OK (abl_code d, p1)"
    "values_end dbg buf cu (decl_forms abuf d) p1 = DW_OK p2"
    using assms(1) by (auto simp: entry_at_def)
  have p1: "p < p1" "p1 \<le> unit_end cu" using uword.read_advances [OF e(2)] by simp_all
  have "buf ! p \<noteq> 0"
  proof
    assume "buf ! p = 0"
    then have "leb128_uword_wrapper buf p (unit_end cu) = DW_OK (0, p + 1)" using p1 assms(2)
      by (simp add: leb128_uword_wrapper_def decode_leb128_uword_len_ck_def decode_leb128_def Let_def)
    then show False using e(1,2) by simp
  qed
  then show ?thesis using values_end_le [OF e(3) p1(2)] p1 by simp
qed

lemma tree_places:
  "tree_at dbg buf abuf ds cu p t q \<Longrightarrow> unit_end cu \<le> length buf \<Longrightarrow> p < q \<and> q \<le> unit_end cu \<and> buf ! p \<noteq> 0"
  "forest_at dbg buf abuf ds cu p ts q \<Longrightarrow> unit_end cu \<le> length buf \<Longrightarrow> p \<le> q \<and> q \<le> unit_end cu"
  by (induction rule: tree_at_forest_at.inducts) (fastforce dest!: entry_starts)+

section \<open>The loop over siblings\<close>

text \<open>
  What is left to do when a whole tree has been passed: to close the lists that end behind it, and to go on while there are levels left. A loop that stops
  where no entry is counts as one that found none.
\<close>

definition resume ::
  "bool \<Rightarrow> dwarf_debug \<Rightarrow> bytes \<Rightarrow> unit_context \<Rightarrow> ptr \<Rightarrow> nat \<Rightarrow> unit_context \<times> ptr dw"
where
  "resume allow_dup dbg buf cu p d =
     (case close_lists buf (unit_end cu) p d of
        DW_OK (p, d) \<Rightarrow>
          if d \<noteq> 0 then sibling_loop allow_dup dbg buf cu (unat (cc_debug_offset cu)) (unit_end cu) p d else (cu, DW_OK p)
      | r \<Rightarrow> (cu, dw_bind r (\<lambda>_. DW_NO_ENTRY)))"

definition settle :: "bytes \<Rightarrow> ptr \<Rightarrow> unit_context \<times> ptr dw \<Rightarrow> unit_context \<times> ptr dw" where
  "settle buf e x =
     (case x of (cu, r) \<Rightarrow> (cu, dw_bind r (\<lambda>p. if p \<ge> e \<or> buf ! p = 0 then DW_NO_ENTRY else DW_OK p)))"

lemma after_entry_close:
  assumes "p \<le> e" "e \<le> length buf"
  shows "after_entry buf e False p d = close_lists buf e p d"
  using assms by (cases d) (auto simp: after_entry_def rd8_def)

lemma after_entry_children:
  assumes "p < e" "e \<le> length buf"
  shows "after_entry buf e True p d = close_lists buf e p (Suc d)"
  using assms after_entry_close [of "p + 1" e buf d] by (auto simp: after_entry_def rd8_def)

lemma sibling_loop_enter:
  assumes "next_die_info_ptr allow_dup dbg buf p cu (unit_end cu) (unat (cc_debug_offset cu)) True = (with_abbrevs a cu, DW_OK (c, q))"
    and "p < q" "q \<le> unit_end cu" "unit_end cu \<le> length buf" "c \<longrightarrow> q < unit_end cu"
  shows "sibling_loop allow_dup dbg buf cu (unat (cc_debug_offset cu)) (unit_end cu) p d =
    resume allow_dup dbg buf (with_abbrevs a cu) q (if c then Suc d else d)"
proof -
  have "after_entry buf (unit_end cu) c q d = close_lists buf (unit_end cu) q (if c then Suc d else d)"
    using after_entry_close [of q "unit_end cu" buf d] after_entry_children [of q "unit_end cu" buf d] assms(2-5) by (cases c) auto
  then show ?thesis using assms(1-3)
    by (subst sibling_loop.simps) (simp add: resume_def split: dw.splits)
qed

lemma tree_passed:
  assumes "unit_setup dbg buf abuf ds cu"
  shows "tree_at dbg buf abuf ds cu p t q \<Longrightarrow> good_table allow_dup abuf ds a \<Longrightarrow>
      \<exists>a'. good_table allow_dup abuf ds a' \<and>
        settle buf (unit_end cu) (sibling_loop allow_dup dbg buf (with_abbrevs a cu) (unat (cc_debug_offset cu)) (unit_end cu) p d) =
        settle buf (unit_end cu) (resume allow_dup dbg buf (with_abbrevs a' cu) q d)"
    and "forest_at dbg buf abuf ds cu p ts q \<Longrightarrow> good_table allow_dup abuf ds a \<Longrightarrow>
      \<exists>a'. good_table allow_dup abuf ds a' \<and>
        settle buf (unit_end cu) (resume allow_dup dbg buf (with_abbrevs a cu) p (Suc d)) =
        settle buf (unit_end cu) (resume allow_dup dbg buf (with_abbrevs a' cu) q d)"
proof (induction arbitrary: a d and a d rule: tree_at_forest_at.inducts)
  case (childless p d0 q)
  note u = unit_setupD [OF assms]
  have q: "p < q" "q \<le> unit_end cu" using entry_starts [OF childless(1) u(1)] by simp_all
  from next_entry [OF assms childless(3) childless(1) q] childless(2) obtain a' where n: "good_table allow_dup abuf ds a'"
    "next_die_info_ptr allow_dup dbg buf p (with_abbrevs a cu) (unit_end cu) (unat (cc_debug_offset cu)) True =
      (with_abbrevs a' cu, DW_OK (False, q))" by (auto split: if_splits)
  then show ?case
    using sibling_loop_enter [of allow_dup dbg buf p "with_abbrevs a cu" a' False q d] q u(1) by auto
next
  case (parent p d0 p2 q ts)
  note u = unit_setupD [OF assms]
  have p2: "p < p2" "p2 \<le> unit_end cu" using entry_starts [OF parent(1) u(1)] by simp_all
  have q: "p2 \<le> q" "q \<le> unit_end cu" using tree_places(2) [OF parent(3) u(1)] by simp_all
  have pq: "p < q" using p2 q by simp
  obtain a' jump where n: "good_table allow_dup abuf ds a'"
    "next_die_info_ptr allow_dup dbg buf p (with_abbrevs a cu) (unit_end cu) (unat (cc_debug_offset cu)) True =
      (with_abbrevs a' cu, DW_OK (if jump then (False, q) else (abl_has_child d0 \<noteq> 0, p2)))"
    using next_entry [OF assms parent(6) parent(1) pq q(2)] by blast
  show ?case
  proof (cases jump)
    case True
    then show ?thesis
      using sibling_loop_enter [of allow_dup dbg buf p "with_abbrevs a cu" a' False q d] n p2 q u(1) by auto
  next
    case False
    then have "sibling_loop allow_dup dbg buf (with_abbrevs a cu) (unat (cc_debug_offset cu)) (unit_end cu) p d =
        resume allow_dup dbg buf (with_abbrevs a' cu) p2 (Suc d)"
      using sibling_loop_enter [of allow_dup dbg buf p "with_abbrevs a cu" a' True p2 d] n p2 q u(1) parent(2,5) by auto
    then show ?thesis using parent(4) [OF n(1), of d] by simp
  qed
next
  case (zero p)
  then show ?case using unit_setupD [OF assms] by (intro exI [of _ a]) (auto simp: resume_def rd8_def)
next
  case (unit_ends p)
  then show ?case by (intro exI [of _ a]) (cases d; simp add: resume_def settle_def)
next
  case (tree p t r ts q)
  note u = unit_setupD [OF assms]
  have p: "p < unit_end cu" "buf ! p \<noteq> 0" using tree_places(1) [OF tree(1) u(1)] by auto
  then have "resume allow_dup dbg buf (with_abbrevs a cu) p (Suc d) =
      sibling_loop allow_dup dbg buf (with_abbrevs a cu) (unat (cc_debug_offset cu)) (unit_end cu) p (Suc d)"
    using u(1) by (simp add: resume_def rd8_def)
  with tree(2) [OF tree(5), of "Suc d"] obtain a1 where "good_table allow_dup abuf ds a1"
    "settle buf (unit_end cu) (resume allow_dup dbg buf (with_abbrevs a cu) p (Suc d)) =
     settle buf (unit_end cu) (resume allow_dup dbg buf (with_abbrevs a1 cu) r (Suc d))" by auto
  with tree(4) [OF this(1), of d] show ?case by auto
qed

section \<open>From entry to entry\<close>

text \<open>The DIE of a tree's first entry.\<close>

fun die_shows :: "bytes \<Rightarrow> bool \<Rightarrow> die \<Rightarrow> die_tree \<Rightarrow> bool" where
  "die_shows abuf is_info die (Die p d ts) \<longleftrightarrow> di_debug_ptr die = p \<and> plain (di_abbrev_list die) = d \<and>
     abl_attr_form (di_abbrev_list die) = Some (decl_forms abuf d) \<and> di_abbrev_code die = abl_code d \<and> di_is_info die = is_info"

lemma tree_entry:
  assumes "tree_at dbg buf abuf ds cu p t q"
  obtains d ts p2 where "t = Die p d ts" "entry_at dbg buf abuf ds cu p d p2 q"
  using assms by cases auto

lemma make_die_entry:
  assumes "unit_setup dbg buf abuf ds cu" "good_table allow_dup abuf ds a" "entry_at dbg buf abuf ds cu p d p2 q"
  shows "\<exists>a' die. make_die allow_dup dbg missing is_info p (abl_code d) (with_abbrevs a cu) = (with_abbrevs a' cu, DW_OK die) \<and>
    good_table allow_dup abuf ds a' \<and> die_shows abuf is_info die (Die p d ts)"
proof -
  have "d \<in> set ds" "proper_decl abuf d" using assms(3) by (simp_all add: entry_at_def)
  from lookup_entry [OF assms(1,2) this, of missing] show ?thesis by (auto simp: make_die_def)
qed

lemma die_at_tree:
  assumes "unit_setup dbg buf abuf ds cu" "good_table allow_dup abuf ds a" "tree_at dbg buf abuf ds cu p (Die x d ts) q"
    and "want \<longrightarrow> is_cu_tag (abl_tag d)"
  shows "\<exists>a' die. die_at_ptr allow_dup dbg buf is_info want p (unit_end cu) (with_abbrevs a cu) = (with_abbrevs a' cu, DW_OK die) \<and>
    good_table allow_dup abuf ds a' \<and> die_shows abuf is_info die (Die x d ts)"
proof -
  note u = unit_setupD [OF assms(1)]
  obtain p2 where e: "x = p" "entry_at dbg buf abuf ds cu p d p2 q"
    using assms(3) by (rule tree_entry) auto
  obtain p1 where c: "leb128_uword_wrapper buf p (unit_end cu) = DW_OK (abl_code d, p1)" "abl_code d \<noteq> 0"
    using e(2) by (auto simp: entry_at_def)
  have p: "p < unit_end cu" "buf ! p \<noteq> 0" using tree_places(1) [OF assms(3) u(1)] by auto
  then have b: "rd8 buf p = DW_OK (buf ! p)" using u(1) by (simp add: rd8_def)
  obtain a' die where m: "make_die allow_dup dbg DW_DLE_DIE_ABBREV_LIST_NULL is_info p (abl_code d) (with_abbrevs a cu) =
      (with_abbrevs a' cu, DW_OK die)" "good_table allow_dup abuf ds a'" "die_shows abuf is_info die (Die p d ts)"
    using make_die_entry [OF assms(1,2) e(2)] by blast
  then have "abl_tag (di_abbrev_list die) = abl_tag d" by (metis die_shows.simps plain_other(3))
  then show ?thesis using c p b m e(1) assms(4)
    by (intro exI [of _ a'] exI [of _ die]) (auto simp: die_at_ptr_def)
qed

lemma no_die_at:
  assumes "p \<ge> unit_end cu \<or> buf ! p = 0" "unit_end cu \<le> length buf"
  shows "die_at_ptr allow_dup dbg buf is_info want p (unit_end cu) cu = (cu, DW_NO_ENTRY)"
  using assms by (auto simp: die_at_ptr_def rd8_def)

lemma sibling_of_tree:
  assumes "unit_setup dbg buf abuf ds cu" "good_table allow_dup abuf ds a" "forest_at dbg buf abuf ds cu p (t # ts) q"
    and "die_shows abuf (cc_is_info cu) die t"
  shows "\<exists>a' r. siblingof_c allow_dup dbg die (with_abbrevs a cu) = (with_abbrevs a' cu, r) \<and>
    good_table allow_dup abuf ds a' \<and>
    (case ts of [] \<Rightarrow> r = DW_NO_ENTRY | s # _ \<Rightarrow> \<exists>sib. r = DW_OK sib \<and> die_shows abuf (cc_is_info cu) sib s)"
proof -
  note u = unit_setupD [OF assms(1)]
  have buf: "cu_section dbg (cc_is_info cu) = buf" using assms(1) by (simp add: unit_setup_def)
  obtain r where t: "tree_at dbg buf abuf ds cu p t r" "forest_at dbg buf abuf ds cu r ts q"
    using assms(3) by (rule forest_ConsE)
  obtain d cs p2 where d: "t = Die p d cs" "entry_at dbg buf abuf ds cu p d p2 r" by (rule tree_entry [OF t(1)])
  have p: "p < unit_end cu" "buf ! p \<noteq> 0" using tree_places(1) [OF t(1) u(1)] by auto
  have ptr: "di_debug_ptr die = p" using assms(4) d(1) by simp
  obtain a1 where g: "good_table allow_dup abuf ds a1"
    "settle buf (unit_end cu) (sibling_loop allow_dup dbg buf (with_abbrevs a cu) (unat (cc_debug_offset cu)) (unit_end cu) p 0) =
     settle buf (unit_end cu) (resume allow_dup dbg buf (with_abbrevs a1 cu) r 0)"
    using tree_passed(1) [OF assms(1) t(1) assms(2), of 0] by blast
  obtain cu2 r2 where l: "sibling_loop allow_dup dbg buf (with_abbrevs a cu) (unat (cc_debug_offset cu)) (unit_end cu) p 0 = (cu2, r2)"
    by fastforce
  have s: "cu2 = with_abbrevs a1 cu" "dw_bind r2 (\<lambda>p. if p \<ge> unit_end cu \<or> buf ! p = 0 then DW_NO_ENTRY else DW_OK p) =
      (if r \<ge> unit_end cu \<or> buf ! r = 0 then DW_NO_ENTRY else DW_OK r)"
    using g(2) l by (auto simp: settle_def resume_def)
  have ne: "buf \<noteq> []" using p u by auto
  have b: "rd8 buf p = DW_OK (buf ! p)" using p u(1) by (simp add: rd8_def)
  have fin: "siblingof_c allow_dup dbg die (with_abbrevs a cu) = (case r2 of
      DW_OK x \<Rightarrow> die_at_ptr allow_dup dbg buf (cc_is_info cu) False x (unit_end cu) (with_abbrevs a1 cu)
    | _ \<Rightarrow> (with_abbrevs a1 cu, dw_bind r2 (\<lambda>_. DW_NO_ENTRY)))"
    using l s(1) ptr p ne b buf by (cases r2) (simp_all add: siblingof_c_def siblingof_internal_def Let_def)
  show ?thesis
  proof (cases ts)
    case Nil
    then have "r \<ge> unit_end cu \<or> buf ! r = 0" using t(2) by (auto elim: forest_NilE)
    then have "r2 = DW_NO_ENTRY \<or> (\<exists>x. r2 = DW_OK x \<and> (x \<ge> unit_end cu \<or> buf ! x = 0))"
      using s(2) by (cases r2) (auto split: if_splits)
    then have "siblingof_c allow_dup dbg die (with_abbrevs a cu) = (with_abbrevs a1 cu, DW_NO_ENTRY)"
      using fin no_die_at [of "with_abbrevs a1 cu" _ buf allow_dup dbg "cc_is_info cu" False] u(1) by auto
    then show ?thesis using g(1) Nil by auto
  next
    case (Cons t' ts')
    then obtain r' where t': "tree_at dbg buf abuf ds cu r t' r'" using t(2) by (auto elim: forest_ConsE)
    obtain d' cs' p2' where d': "t' = Die r d' cs'" by (rule tree_entry [OF t'])
    have "\<not> (r \<ge> unit_end cu \<or> buf ! r = 0)" using tree_places(1) [OF t' u(1)] by auto
    then have "r2 = DW_OK r" using s(2) by (cases r2) (auto split: if_splits)
    then have "siblingof_c allow_dup dbg die (with_abbrevs a cu) =
        die_at_ptr allow_dup dbg buf (cc_is_info cu) False r (unit_end cu) (with_abbrevs a1 cu)" using fin by simp
    moreover obtain a3 sib where "die_at_ptr allow_dup dbg buf (cc_is_info cu) False r (unit_end cu) (with_abbrevs a1 cu) =
        (with_abbrevs a3 cu, DW_OK sib)" "good_table allow_dup abuf ds a3" "die_shows abuf (cc_is_info cu) sib t'"
      using die_at_tree [OF assms(1) g(1) t' [unfolded d'], of False "cc_is_info cu"] d' by auto
    ultimately show ?thesis using Cons by auto
  qed
qed

lemma child_of_tree:
  assumes "unit_setup dbg buf abuf ds cu" "good_table allow_dup abuf ds a" "tree_at dbg buf abuf ds cu p t q"
    and "die_shows abuf (cc_is_info cu) die t" "t = Die x d ts"
  shows "\<exists>a' lp r. child allow_dup dbg die (with_abbrevs a cu) = (with_abbrevs a' cu, lp, r) \<and>
    good_table allow_dup abuf ds a' \<and>
    (case ts of [] \<Rightarrow> r = DW_NO_ENTRY
     | s # _ \<Rightarrow> \<exists>c p2. r = DW_OK c \<and> die_shows abuf (cc_is_info cu) c s \<and> forest_at dbg buf abuf ds cu p2 ts q)"
proof -
  note u = unit_setupD [OF assms(1)]
  have buf: "cu_section dbg (di_is_info die) = buf" "di_is_info die = cc_is_info cu"
    using assms(1,4,5) by (simp_all add: unit_setup_def)
  have p: "p < q" "q \<le> unit_end cu" "p < unit_end cu" "buf ! p \<noteq> 0" using tree_places(1) [OF assms(3) u(1)] by auto
  then have b: "rd8 buf p = DW_OK (buf ! p)" using u(1) by (simp add: rd8_def)
  obtain p2 where e: "x = p" "entry_at dbg buf abuf ds cu p d p2 q"
    "abl_has_child d = 0 \<and> ts = [] \<or> abl_has_child d \<noteq> 0 \<and> p2 < unit_end cu \<and> forest_at dbg buf abuf ds cu p2 ts q"
    using assms(3) unfolding assms(5) by cases auto
  have ptr: "di_debug_ptr die = p" using assms(4,5) e(1) by simp
  obtain a' where n: "good_table allow_dup abuf ds a'"
    "next_die_info_ptr allow_dup dbg buf p (with_abbrevs a cu) (unit_end cu) 0 False =
      (with_abbrevs a' cu, DW_OK (abl_has_child d \<noteq> 0, p2))"
    using next_entry [OF assms(1,2) e(2) p(1,2)] by blast
  obtain z where z: "skip_zeros buf p2 (unit_end cu) = DW_OK z" using skip_zeros_no_fault [OF u(1)] by blast
  show ?thesis
  proof (cases "abl_has_child d = 0")
    case True
    then have "child allow_dup dbg die (with_abbrevs a cu) = (with_abbrevs a' cu, z, DW_NO_ENTRY)"
      using ptr p b buf n(2) z by (simp add: child_def Let_def)
    then show ?thesis using n(1) e(3) True by auto
  next
    case False
    then have f: "p2 < unit_end cu" "forest_at dbg buf abuf ds cu p2 ts q" using e(3) by auto
    show ?thesis
    proof (cases ts)
      case Nil
      then have "buf ! p2 = 0" using f by (auto elim: forest_NilE)
      then have "leb128_uword_wrapper buf p2 (unit_end cu) = DW_OK (0, p2 + 1)" using f(1) u(1)
        by (simp add: leb128_uword_wrapper_def decode_leb128_uword_len_ck_def decode_leb128_def Let_def)
      moreover obtain z' where "skip_zeros buf (p2 + 1) (unit_end cu) = DW_OK z'" using skip_zeros_no_fault [OF u(1)] by blast
      ultimately have "child allow_dup dbg die (with_abbrevs a cu) = (with_abbrevs a' cu, z', DW_NO_ENTRY)"
        using ptr p b buf n(2) False by (simp add: child_def Let_def)
      then show ?thesis using n(1) Nil by auto
    next
      case (Cons s ss)
      then obtain r where t: "tree_at dbg buf abuf ds cu p2 s r" using f(2) by (auto elim: forest_ConsE)
      obtain d' cs p3 where d': "s = Die p2 d' cs" "entry_at dbg buf abuf ds cu p2 d' p3 r" by (rule tree_entry [OF t])
      obtain p1 where c: "leb128_uword_wrapper buf p2 (unit_end cu) = DW_OK (abl_code d', p1)" "abl_code d' \<noteq> 0"
        using d'(2) by (auto simp: entry_at_def)
      obtain a2 cd where m: "make_die allow_dup dbg DW_DLE_ABBREV_MISSING (di_is_info die) p2 (abl_code d') (with_abbrevs a' cu) =
          (with_abbrevs a2 cu, DW_OK cd)" "good_table allow_dup abuf ds a2" "die_shows abuf (di_is_info die) cd (Die p2 d' cs)"
        using make_die_entry [OF assms(1) n(1) d'(2)] by blast
      then have "child allow_dup dbg die (with_abbrevs a cu) = (with_abbrevs a2 cu, p1, DW_OK cd)"
        using ptr p b buf n(2) False c by (simp add: child_def Let_def)
      then show ?thesis using m Cons d' buf(2) f(2) by auto
    qed
  qed
qed

section \<open>Reading all entries of a unit\<close>

text \<open>
  A client that reads an entry's children, then its siblings, the way \<open>dwarfdump\<close> prints a unit; \<open>None\<close> when the fuel does not suffice. It
  collects the places and abbreviations, without what lookups change in them.
\<close>

definition follow ::
  "(die \<Rightarrow> unit_context \<Rightarrow> (unit_context \<times> die_tree list dw) option) \<Rightarrow> unit_context \<times> die dw \<Rightarrow>
   (unit_context \<times> die_tree list dw) option"
where
  "follow f x =
     (case x of
        (cu, DW_OK die) \<Rightarrow> f die cu
      | (cu, DW_NO_ENTRY) \<Rightarrow> Some (cu, DW_OK [])
      | (cu, DW_ERROR e) \<Rightarrow> Some (cu, DW_ERROR e)
      | (cu, FAULT) \<Rightarrow> Some (cu, FAULT))"

fun walk :: "nat \<Rightarrow> bool \<Rightarrow> dwarf_debug \<Rightarrow> die \<Rightarrow> unit_context \<Rightarrow> (unit_context \<times> die_tree list dw) option" where
  "walk 0 allow_dup dbg die cu = None"
| "walk (Suc n) allow_dup dbg die cu =
     (case follow (walk n allow_dup dbg) (case child allow_dup dbg die cu of (cu, _, r) \<Rightarrow> (cu, r)) of
        None \<Rightarrow> None
      | Some (cu, r) \<Rightarrow>
          (case r of
             DW_OK cs \<Rightarrow>
               map_option (\<lambda>(cu, r). (cu, dw_bind r (\<lambda>ss. DW_OK (Die (di_debug_ptr die) (plain (di_abbrev_list die)) cs # ss))))
                 (follow (walk n allow_dup dbg) (siblingof_c allow_dup dbg die cu))
           | _ \<Rightarrow> Some (cu, r)))"

definition read_unit :: "nat \<Rightarrow> bool \<Rightarrow> dwarf_debug \<Rightarrow> unit_context \<Rightarrow> (unit_context \<times> die_tree list dw) option" where
  "read_unit n allow_dup dbg cu = follow (walk n allow_dup dbg) (siblingof_internal allow_dup dbg None (cc_is_info cu) cu)"

fun entries :: "die_tree \<Rightarrow> nat" where
  "entries (Die p d ts) = Suc (sum_list (map entries ts))"

lemma walk_trees:
  assumes "unit_setup dbg buf abuf ds cu"
  shows "good_table allow_dup abuf ds a \<Longrightarrow> forest_at dbg buf abuf ds cu p (t # ts) q \<Longrightarrow>
    die_shows abuf (cc_is_info cu) die t \<Longrightarrow> sum_list (map entries (t # ts)) \<le> n \<Longrightarrow>
    \<exists>a'. walk n allow_dup dbg die (with_abbrevs a cu) = Some (with_abbrevs a' cu, DW_OK (t # ts)) \<and> good_table allow_dup abuf ds a'"
proof (induction n arbitrary: a p t ts q die)
  case 0
  then show ?case by (cases t) simp
next
  case (Suc n)
  obtain x d cs where t: "t = Die x d cs" by (cases t)
  obtain r where f: "tree_at dbg buf abuf ds cu p t r" and rest: "forest_at dbg buf abuf ds cu r ts q"
    using Suc.prems(2) by (rule forest_ConsE)
  have die: "Die (di_debug_ptr die) (plain (di_abbrev_list die)) cs = t" using Suc.prems(3) t by simp
  obtain a1 lp r1 where c: "child allow_dup dbg die (with_abbrevs a cu) = (with_abbrevs a1 cu, lp, r1)"
    "good_table allow_dup abuf ds a1"
    "case cs of [] \<Rightarrow> r1 = DW_NO_ENTRY
     | s # _ \<Rightarrow> \<exists>c p2. r1 = DW_OK c \<and> die_shows abuf (cc_is_info cu) c s \<and> forest_at dbg buf abuf ds cu p2 cs r"
    using child_of_tree [OF assms Suc.prems(1) f Suc.prems(3) t] by blast
  have "\<exists>a2. follow (walk n allow_dup dbg) (with_abbrevs a1 cu, r1) = Some (with_abbrevs a2 cu, DW_OK cs) \<and>
      good_table allow_dup abuf ds a2"
  proof (cases cs)
    case Nil
    then show ?thesis using c(2,3) by (auto simp: follow_def)
  next
    case (Cons s ss)
    then obtain k p2 where k: "r1 = DW_OK k" "die_shows abuf (cc_is_info cu) k s" "forest_at dbg buf abuf ds cu p2 (s # ss) r"
      using c(3) by auto
    have "sum_list (map entries (s # ss)) \<le> n" using Suc.prems(4) t Cons by simp
    then show ?thesis using Suc.IH [OF c(2) k(3,2)] k(1) Cons by (simp add: follow_def)
  qed
  then obtain a2 where ch: "follow (walk n allow_dup dbg) (with_abbrevs a1 cu, r1) = Some (with_abbrevs a2 cu, DW_OK cs)"
    "good_table allow_dup abuf ds a2" by blast
  obtain a3 r3 where s: "siblingof_c allow_dup dbg die (with_abbrevs a2 cu) = (with_abbrevs a3 cu, r3)"
    "good_table allow_dup abuf ds a3"
    "case ts of [] \<Rightarrow> r3 = DW_NO_ENTRY | s # _ \<Rightarrow> \<exists>sib. r3 = DW_OK sib \<and> die_shows abuf (cc_is_info cu) sib s"
    using sibling_of_tree [OF assms ch(2) Suc.prems(2,3)] by blast
  have "\<exists>a4. follow (walk n allow_dup dbg) (with_abbrevs a3 cu, r3) = Some (with_abbrevs a4 cu, DW_OK ts) \<and>
      good_table allow_dup abuf ds a4"
  proof (cases ts)
    case Nil
    then show ?thesis using s(2,3) by (auto simp: follow_def)
  next
    case (Cons s' ss)
    then obtain sib where k: "r3 = DW_OK sib" "die_shows abuf (cc_is_info cu) sib s'" using s(3) by auto
    have "sum_list (map entries (s' # ss)) \<le> n" using Suc.prems(4) t Cons by simp
    then show ?thesis using Suc.IH [OF s(2) rest [unfolded Cons] k(2)] k(1) Cons by (simp add: follow_def)
  qed
  then show ?case using c(1) ch s(1) die by auto
qed

text \<open>On any section the walk ends, without a read outside the section.\<close>

lemma walk_safe:
  "unit_inv dbg cu \<Longrightarrow> di_is_info die = cc_is_info cu \<Longrightarrow> di_debug_ptr die < unit_end cu \<Longrightarrow>
   unit_end cu - di_debug_ptr die \<le> n \<Longrightarrow>
   \<exists>cu' r. walk n allow_dup dbg die cu = Some (cu', r) \<and> r \<noteq> FAULT \<and>
     unit_inv dbg cu' \<and> unit_end cu' = unit_end cu \<and> cc_is_info cu' = cc_is_info cu"
proof (induction n arbitrary: cu die)
  case (Suc n)
  obtain cu1 lp r1 where c: "child allow_dup dbg die cu = (cu1, lp, r1)" by (rule prod_cases3)
  note i = child_inv [OF Suc.prems(1-3) c]
  have "\<exists>cu2 r2. follow (walk n allow_dup dbg) (cu1, r1) = Some (cu2, r2) \<and> r2 \<noteq> FAULT \<and>
      unit_inv dbg cu2 \<and> unit_end cu2 = unit_end cu \<and> cc_is_info cu2 = cc_is_info cu"
  proof (cases r1)
    case (DW_OK k)
    then have "unit_end cu1 - di_debug_ptr k \<le> n" "di_is_info k = cc_is_info cu1" "di_debug_ptr k < unit_end cu1"
      using i Suc.prems(2,4) by auto
    then show ?thesis using Suc.IH [of cu1 k] i DW_OK by (auto simp: follow_def)
  qed (use i in \<open>auto simp: follow_def\<close>)
  then obtain cu2 r2 where f: "follow (walk n allow_dup dbg) (cu1, r1) = Some (cu2, r2)" "r2 \<noteq> FAULT" "unit_inv dbg cu2"
    "unit_end cu2 = unit_end cu" "cc_is_info cu2 = cc_is_info cu" by blast
  show ?case
  proof (cases "\<exists>cs. r2 = DW_OK cs")
    case True
    then obtain cs where cs: "r2 = DW_OK cs" by blast
    obtain cu3 r3 where s: "siblingof_c allow_dup dbg die cu2 = (cu3, r3)" by fastforce
    have j: "unit_inv dbg cu3 \<and> unit_end cu3 = unit_end cu2 \<and> cc_is_info cu3 = cc_is_info cu2 \<and> r3 \<noteq> FAULT \<and>
        (\<forall>sib. r3 = DW_OK sib \<longrightarrow> di_debug_ptr sib < unit_end cu2 \<and> di_is_info sib = cc_is_info cu2 \<and>
          (\<forall>d. Some die = Some d \<longrightarrow> di_debug_ptr d < di_debug_ptr sib))"
      by (rule siblingof_internal_inv [OF f(3) refl]) (use s Suc.prems(3) f(4) in \<open>simp_all add: siblingof_c_def\<close>)
    have "\<exists>cu4 r4. follow (walk n allow_dup dbg) (cu3, r3) = Some (cu4, r4) \<and> r4 \<noteq> FAULT \<and>
        unit_inv dbg cu4 \<and> unit_end cu4 = unit_end cu \<and> cc_is_info cu4 = cc_is_info cu"
    proof (cases r3)
      case (DW_OK k)
      then have "unit_end cu3 - di_debug_ptr k \<le> n" "di_is_info k = cc_is_info cu3" "di_debug_ptr k < unit_end cu3"
        using j f Suc.prems(4) by auto
      then show ?thesis using Suc.IH [of cu3 k] j f DW_OK by (auto simp: follow_def)
    qed (use j f in \<open>auto simp: follow_def\<close>)
    then obtain cu4 r4 where "follow (walk n allow_dup dbg) (cu3, r3) = Some (cu4, r4)" "r4 \<noteq> FAULT" "unit_inv dbg cu4"
      "unit_end cu4 = unit_end cu" "cc_is_info cu4 = cc_is_info cu" by blast
    then show ?thesis using c f(1) cs s by (cases r4) auto
  next
    case False
    then show ?thesis using c f by (cases r2) auto
  qed
qed simp

lemma read_unit_safe:
  assumes "unit_inv dbg cu" "unit_end cu \<le> n"
  shows "\<exists>cu' r. read_unit n allow_dup dbg cu = Some (cu', r) \<and> r \<noteq> FAULT"
proof -
  obtain cu1 r1 where s: "siblingof_internal allow_dup dbg None (cc_is_info cu) cu = (cu1, r1)" by fastforce
  have i: "unit_inv dbg cu1" "unit_end cu1 = unit_end cu" "cc_is_info cu1 = cc_is_info cu" "r1 \<noteq> FAULT"
    "r1 = DW_OK sib \<Longrightarrow> di_debug_ptr sib < unit_end cu \<and> di_is_info sib = cc_is_info cu" for sib
    using siblingof_internal_inv [OF assms(1) refl _ s] by auto
  show ?thesis
  proof (cases r1)
    case (DW_OK die)
    from i(5) [OF this] have "di_is_info die = cc_is_info cu1" "di_debug_ptr die < unit_end cu1" "unit_end cu1 - di_debug_ptr die \<le> n"
      using i(2,3) assms(2) by simp_all
    then show ?thesis using walk_safe [OF i(1), of die n allow_dup] s DW_OK by (auto simp: read_unit_def follow_def)
  qed (use s i in \<open>auto simp: read_unit_def follow_def\<close>)
qed

text \<open>The recorded place of the root entry plays no role in where trees stand.\<close>

lemma root_recorded:
  "values_end dbg buf (cu\<lparr>cc_cu_die_global_sec_offset := x\<rparr>) xs p = values_end dbg buf cu xs p"
  "sibling_attr dbg buf (cu\<lparr>cc_cu_die_global_sec_offset := x\<rparr>) xs p = sibling_attr dbg buf cu xs p"
  "unit_end (cu\<lparr>cc_cu_die_global_sec_offset := x\<rparr>) = unit_end cu"
proof -
  have [simp]: "skip_value dbg buf (cu\<lparr>cc_cu_die_global_sec_offset := x\<rparr>) = skip_value dbg buf cu"
    by (intro ext) (simp add: skip_value_def)
  have [simp]: "unit_end (cu\<lparr>cc_cu_die_global_sec_offset := x\<rparr>) = unit_end cu" by (simp add: unit_end_def)
  show "values_end dbg buf (cu\<lparr>cc_cu_die_global_sec_offset := x\<rparr>) xs p = values_end dbg buf cu xs p"
  proof (induction xs arbitrary: p)
    case (Cons y ys)
    then have "values_end dbg buf (cu\<lparr>cc_cu_die_global_sec_offset := x\<rparr>) ys = values_end dbg buf cu ys" by (rule ext)
    then show ?case by (cases y) simp
  qed simp
  show "sibling_attr dbg buf (cu\<lparr>cc_cu_die_global_sec_offset := x\<rparr>) xs p = sibling_attr dbg buf cu xs p"
  proof (induction xs arbitrary: p)
    case (Cons y ys)
    then have "sibling_attr dbg buf (cu\<lparr>cc_cu_die_global_sec_offset := x\<rparr>) ys = sibling_attr dbg buf cu ys" by (rule ext)
    then show ?case by (cases y) (simp cong: if_cong)
  qed simp
qed (simp add: unit_end_def)

lemma forest_root_recorded:
  "tree_at dbg buf abuf ds cu p t q \<Longrightarrow> tree_at dbg buf abuf ds (cu\<lparr>cc_cu_die_global_sec_offset := x\<rparr>) p t q"
  "forest_at dbg buf abuf ds cu p ts q \<Longrightarrow> forest_at dbg buf abuf ds (cu\<lparr>cc_cu_die_global_sec_offset := x\<rparr>) p ts q"
proof (induction rule: tree_at_forest_at.inducts)
  case (zero p)
  then show ?case by (intro tree_at_forest_at.zero) (simp_all only: root_recorded)
qed (auto intro!: tree_at_forest_at.childless tree_at_forest_at.parent tree_at_forest_at.unit_ends tree_at_forest_at.tree
    simp: entry_at_def root_recorded)

lemma read_unit_trees:
  assumes "unit_setup dbg buf abuf ds cu" "good_table allow_dup abuf ds (cc_abbrevs cu)"
    and "length_of_cu_header dbg (cc_debug_offset cu) (cc_is_info cu) = DW_OK h"
    and "forest_at dbg buf abuf ds cu (unat (cc_debug_offset cu) + unat h) [Die x d ts] q" "is_cu_tag (abl_tag d)"
    and "entries (Die x d ts) \<le> n"
  shows "\<exists>cu'. read_unit n allow_dup dbg cu = Some (cu', DW_OK [Die x d ts])"
proof -
  let ?off = "cc_debug_offset cu"
  let ?cu = "cu\<lparr>cc_cu_die_global_sec_offset := Some (?off + h)\<rparr>"
  let ?p = "unat ?off + unat h"
  have cu: "with_abbrevs (cc_abbrevs cu) ?cu = ?cu" "unit_setup dbg buf abuf ds ?cu"
    using assms(1) by (auto simp: with_abbrevs_def unit_setup_def unit_ok_def unit_end_def)
  have f: "forest_at dbg buf abuf ds ?cu ?p [Die x d ts] q" by (rule forest_root_recorded(2) [OF assms(4)])
  obtain r where t: "tree_at dbg buf abuf ds ?cu ?p (Die x d ts) r" using f by (rule forest_ConsE)
  have b: "cu_section dbg (cc_is_info cu) = buf" "buf \<noteq> []"
    using assms(1) unit_setupD [OF assms(1)] by (auto simp: unit_setup_def)
  obtain a' die where d: "die_at_ptr allow_dup dbg buf (cc_is_info cu) True ?p (unit_end ?cu) ?cu = (with_abbrevs a' ?cu, DW_OK die)"
    "good_table allow_dup abuf ds a'" "die_shows abuf (cc_is_info cu) die (Die x d ts)"
    using die_at_tree [OF cu(2) assms(2) t, of True "cc_is_info cu"] cu(1) assms(5) by auto
  then have "siblingof_internal allow_dup dbg None (cc_is_info cu) cu = (with_abbrevs a' ?cu, DW_OK die)"
    using b assms(3) by (simp add: siblingof_internal_def start_load_root_die_def Let_def root_recorded)
  moreover have "\<exists>a''. walk n allow_dup dbg die (with_abbrevs a' ?cu) = Some (with_abbrevs a'' ?cu, DW_OK [Die x d ts]) \<and>
      good_table allow_dup abuf ds a''"
    by (rule walk_trees [OF cu(2) d(2) f]) (use d(3) assms(6) in simp_all)
  ultimately show ?thesis by (auto simp: read_unit_def follow_def)
qed

section \<open>Properties\<close>

lemma made_unit:
  assumes "make_CU_Context dbg nm off is_info = DW_OK (cu, m)" "length (cu_section dbg is_info) < 2 ^ 62"
  obtains a where "unit_ok (length (cu_section dbg is_info)) cu" "cc_debug_offset cu = off" "unat m = unit_end cu"
    "cc_is_info cu = is_info" "cc_abbrevs cu = fresh_context a"
  using spec_result [OF spec_make_CU_Context [OF assms(2)] assms(1)] by auto

text \<open>
  C15: Reading a unit whole, each entry's children and then its siblings, comes to an end on any contents of the sections, and never reads outside
  of them, whatever the abbreviations, forms and sibling attributes claim: with as much fuel as the section has bytes the walk returns.
\<close>

theorem unit_walk_ends:
  assumes "make_CU_Context dbg nm off is_info = DW_OK (cu, m)" "length (cu_section dbg is_info) < 2 ^ 62"
    and "\<not> de_assume_string_in_bounds dbg" "length (cu_section dbg is_info) \<le> n"
  shows "\<exists>cu' r. read_unit n allow_dup dbg cu = Some (cu', r) \<and> r \<noteq> FAULT"
proof -
  note u = unit_inv_made [OF assms(1-3)]
  have "unit_end cu \<le> n" using unit_invD(1) [OF u(1)] u(2) assms(4) by simp
  then show ?thesis by (rule read_unit_safe [OF u(1)])
qed

theorem unit_walk_ends_witness:
  "\<exists>cu' r. read_unit 32 False debug_info_sample (sample_unit 0 16) = Some (cu', r) \<and> r \<noteq> FAULT"
  by (rule unit_walk_ends [OF sample_units(1)])
    (simp_all add: cu_section_def debug_info_sample_def sample_info_def debug_le64_def)

text \<open>
  C1: When a unit of a section holds a tree of entries, with the declarations its abbreviation offset leads to, values in
  any form and right sibling attributes or none, then reading the unit from its header on, through the hash table of
  abbreviations and over the depths of the tree, returns that tree: every entry at its place, with its declaration, its children and
  its siblings in their order.
\<close>

theorem unit_entries_read:
  assumes "make_CU_Context dbg nm off is_info = DW_OK (cu, m)" "length (cu_section dbg is_info) < 2 ^ 62"
    and "de_debug_abbrev dbg = Some abuf" "declared allow_dup abuf (cc_abbrev_offset (cc_abbrevs cu)) ds z"
    and "distinct (map abl_code ds)" "length_of_cu_header dbg off is_info = DW_OK h"
    and "forest_at dbg (cu_section dbg is_info) abuf ds cu (unat off + unat h) [Die x d ts] q"
    and "is_cu_tag (abl_tag d)" "entries (Die x d ts) \<le> n"
  shows "\<exists>cu'. read_unit n allow_dup dbg cu = Some (cu', DW_OK [Die x d ts])"
proof -
  obtain a where u: "unit_ok (length (cu_section dbg is_info)) cu" "cc_debug_offset cu = off" "cc_is_info cu = is_info"
    "cc_abbrevs cu = fresh_context a" using made_unit [OF assms(1,2)] by metis
  have "cc_abbrev_offset (fresh_context a) = a" by (simp add: fresh_context_def)
  then have "good_table allow_dup abuf ds (cc_abbrevs cu)"
    using fresh_context_cache assms(4) u(4) by (simp add: good_table_def fresh_context_inv)
  moreover have "unit_setup dbg (cu_section dbg is_info) abuf ds cu"
    using assms(3,5) u by (simp add: unit_setup_def)
  ultimately show ?thesis using read_unit_trees [of dbg "cu_section dbg is_info" abuf ds cu allow_dup h x d ts q n] u assms(6-9) by simp
qed

definition sample_abbrevs :: bytes where
  "sample_abbrevs = [1, 0x11, 1, 0, 0, 2, 0x24, 0, 0x0b, 0x0b, 0, 0, 3, 0x2e, 1, 1, 0x11, 0, 0, 0]"

definition sample_decl :: "u64 \<Rightarrow> u16 \<Rightarrow> u8 \<Rightarrow> nat \<Rightarrow> u64 \<Rightarrow> abbrev_list" where
  "sample_decl code tag hc p n = \<lparr>abl_code = code, abl_tag = tag, abl_has_child = hc, abl_reference_count = 0,
     abl_goffset = p, abl_abbrev_ptr = p + 3, abl_abbrev_count = n, abl_implicit_const_count = 0, abl_attr_form = None\<rparr>"

text \<open>A compile unit with a subprogram, whose sibling attribute leads over its child, and a base type behind it.\<close>

definition sample_tree :: die_tree where
  "sample_tree = Die 11 (sample_decl 1 0x11 1 0 0)
     [Die 12 (sample_decl 3 0x2e 1 12 1) [Die 14 (sample_decl 2 0x24 0 5 1) []], Die 17 (sample_decl 2 0x24 0 5 1) []]"

theorem unit_entries_read_witness:
  "\<exists>cu'. read_unit 4 False debug_info_sample (sample_unit 0 16) = Some (cu', DW_OK [sample_tree])"
proof -
  let ?ds = "[sample_decl 1 0x11 1 0 0, sample_decl 2 0x24 0 5 1, sample_decl 3 0x2e 1 12 1]"
  let ?cu = "sample_unit 0 16"
  have r: "read_decl False sample_abbrevs 0 = DW_OK (?ds ! 0, 5)" "read_decl False sample_abbrevs 5 = DW_OK (?ds ! 1, 12)"
    "read_decl False sample_abbrevs 12 = DW_OK (?ds ! 2, 19)"
    by code_simp+
  have d: "declared False sample_abbrevs 0 [?ds ! 0, ?ds ! 1, ?ds ! 2] 19"
    by (rule declared.decl [OF _ _ r(1)] declared.decl [OF _ _ r(2)] declared.decl [OF _ _ r(3)] declared.stop
        | simp add: sample_abbrevs_def)+
  have proper: "proper_decl sample_abbrevs (?ds ! 0)" "proper_decl sample_abbrevs (?ds ! 1)" "proper_decl sample_abbrevs (?ds ! 2)"
    by code_simp+
  have s: "cu_section debug_info_sample True = sample_info" "unit_end ?cu = 20"
    by (simp_all add: cu_section_def debug_info_sample_def unit_end_def sample_unit_def)
  have code: "leb128_uword_wrapper sample_info 11 20 = DW_OK (1, 12)" "leb128_uword_wrapper sample_info 12 20 = DW_OK (3, 13)"
    "leb128_uword_wrapper sample_info 14 20 = DW_OK (2, 15)" "leb128_uword_wrapper sample_info 17 20 = DW_OK (2, 18)"
    by code_simp+
  have vals: "values_end debug_info_sample sample_info ?cu (decl_forms sample_abbrevs (?ds ! 0)) 12 = DW_OK 12"
    "values_end debug_info_sample sample_info ?cu (decl_forms sample_abbrevs (?ds ! 2)) 13 = DW_OK 14"
    "values_end debug_info_sample sample_info ?cu (decl_forms sample_abbrevs (?ds ! 1)) 15 = DW_OK 16"
    "values_end debug_info_sample sample_info ?cu (decl_forms sample_abbrevs (?ds ! 1)) 18 = DW_OK 19"
    by code_simp+
  have sibs: "sibling_attr debug_info_sample sample_info ?cu (decl_forms sample_abbrevs (?ds ! 0)) 12 = DW_OK None"
    "sibling_attr debug_info_sample sample_info ?cu (decl_forms sample_abbrevs (?ds ! 2)) 13 = DW_OK (Some 17)"
    "sibling_attr debug_info_sample sample_info ?cu (decl_forms sample_abbrevs (?ds ! 1)) 15 = DW_OK None"
    "sibling_attr debug_info_sample sample_info ?cu (decl_forms sample_abbrevs (?ds ! 1)) 18 = DW_OK None"
    by code_simp+
  let ?entry = "entry_at debug_info_sample sample_info sample_abbrevs [?ds ! 0, ?ds ! 1, ?ds ! 2] ?cu"
  have e: "?entry 11 (?ds ! 0) 12 20" "?entry 12 (?ds ! 2) 14 17" "?entry 14 (?ds ! 1) 16 16" "?entry 17 (?ds ! 1) 19 19"
    using proper code vals sibs s(2) by (auto simp: entry_at_def sample_decl_def sample_unit_def)
  note f = tree_at_forest_at.intros [where dbg = debug_info_sample and buf = sample_info and abuf = sample_abbrevs and
      ds = "[?ds ! 0, ?ds ! 1, ?ds ! 2]" and cu = ?cu]
  have z: "sample_info ! 16 = 0" "sample_info ! 19 = 0" by (simp_all add: sample_info_def)
  have t14: "tree_at debug_info_sample sample_info sample_abbrevs [?ds ! 0, ?ds ! 1, ?ds ! 2] ?cu 14 (Die 14 (?ds ! 1) []) 16"
    by (rule f(1) [OF e(3)]) (simp add: sample_decl_def)
  have f14: "forest_at debug_info_sample sample_info sample_abbrevs [?ds ! 0, ?ds ! 1, ?ds ! 2] ?cu 14 [Die 14 (?ds ! 1) []] 17"
    using f(5) [OF t14 f(3) [where p = 16]] z(1) s(2) by simp
  have t12: "tree_at debug_info_sample sample_info sample_abbrevs [?ds ! 0, ?ds ! 1, ?ds ! 2] ?cu 12
      (Die 12 (?ds ! 2) [Die 14 (?ds ! 1) []]) 17"
    by (rule f(2) [OF e(2) _ _ f14]) (simp_all add: sample_decl_def s(2))
  have t17: "tree_at debug_info_sample sample_info sample_abbrevs [?ds ! 0, ?ds ! 1, ?ds ! 2] ?cu 17 (Die 17 (?ds ! 1) []) 19"
    by (rule f(1) [OF e(4)]) (simp add: sample_decl_def)
  have f12: "forest_at debug_info_sample sample_info sample_abbrevs [?ds ! 0, ?ds ! 1, ?ds ! 2] ?cu 12
      [Die 12 (?ds ! 2) [Die 14 (?ds ! 1) []], Die 17 (?ds ! 1) []] 20"
    using f(5) [OF t12 f(5) [OF t17 f(3) [where p = 19]]] z(2) s(2) by simp
  have "tree_at debug_info_sample sample_info sample_abbrevs [?ds ! 0, ?ds ! 1, ?ds ! 2] ?cu 11 sample_tree 20"
    unfolding sample_tree_def using f(2) [OF e(1) _ _ f12] s(2) by (simp add: sample_decl_def)
  from f(5) [OF this f(4) [where p = 20]] s
  have root: "forest_at debug_info_sample (cu_section debug_info_sample True) sample_abbrevs [?ds ! 0, ?ds ! 1, ?ds ! 2] ?cu
      (unat (0 :: u64) + unat (11 :: u64)) [sample_tree] 20" by simp
  have h: "length_of_cu_header debug_info_sample 0 True = DW_OK 11" by code_simp
  have l: "length (cu_section debug_info_sample True) < 2 ^ 62" by (simp add: s sample_info_def)
  have ab: "de_debug_abbrev debug_info_sample = Some sample_abbrevs"
    by (simp add: debug_info_sample_def sample_abbrevs_def)
  have d': "declared False sample_abbrevs (cc_abbrev_offset (cc_abbrevs ?cu)) [?ds ! 0, ?ds ! 1, ?ds ! 2] 19"
    using d by (simp add: sample_unit_def fresh_context_def)
  show ?thesis
    unfolding sample_tree_def
    by (rule unit_entries_read [OF sample_units(1) l ab d' _ h root [unfolded sample_tree_def]])
      (simp_all add: sample_decl_def is_cu_tag_def)
qed

end
