(* ===== verification/LocOps.thy ===== *)
theory LocOps
  imports Encoding
begin

text \<open>
  Location expressions: \<open>_dwarf_read_loc_expr_op\<close> (\<open>dwarf_locationop_read.c\<close>), which reads one operation with its operands, and the loop of
  \<open>_dwarf_fill_in_locdesc_op_c\<close> (\<open>dwarf_loc.c\<close>) that reads all operations of a block. The section stands in memory from the
  address \<open>base\<close> on: operands that are pointers are addresses, and a pointer to which a length is added may wrap around.
\<close>

abbreviation (input) DW_DLE_GNU_OPCODE_ERROR :: dle where "DW_DLE_GNU_OPCODE_ERROR \<equiv> 240"

abbreviation (input) DW_OP_addr :: u8 where "DW_OP_addr \<equiv> 0x03"
abbreviation (input) DW_OP_deref :: u8 where "DW_OP_deref \<equiv> 0x06"
abbreviation (input) DW_OP_const1u :: u8 where "DW_OP_const1u \<equiv> 0x08"
abbreviation (input) DW_OP_const1s :: u8 where "DW_OP_const1s \<equiv> 0x09"
abbreviation (input) DW_OP_const2u :: u8 where "DW_OP_const2u \<equiv> 0x0a"
abbreviation (input) DW_OP_const2s :: u8 where "DW_OP_const2s \<equiv> 0x0b"
abbreviation (input) DW_OP_const4u :: u8 where "DW_OP_const4u \<equiv> 0x0c"
abbreviation (input) DW_OP_const4s :: u8 where "DW_OP_const4s \<equiv> 0x0d"
abbreviation (input) DW_OP_const8u :: u8 where "DW_OP_const8u \<equiv> 0x0e"
abbreviation (input) DW_OP_const8s :: u8 where "DW_OP_const8s \<equiv> 0x0f"
abbreviation (input) DW_OP_constu :: u8 where "DW_OP_constu \<equiv> 0x10"
abbreviation (input) DW_OP_consts :: u8 where "DW_OP_consts \<equiv> 0x11"
abbreviation (input) DW_OP_dup :: u8 where "DW_OP_dup \<equiv> 0x12"
abbreviation (input) DW_OP_drop :: u8 where "DW_OP_drop \<equiv> 0x13"
abbreviation (input) DW_OP_over :: u8 where "DW_OP_over \<equiv> 0x14"
abbreviation (input) DW_OP_pick :: u8 where "DW_OP_pick \<equiv> 0x15"
abbreviation (input) DW_OP_swap :: u8 where "DW_OP_swap \<equiv> 0x16"
abbreviation (input) DW_OP_plus :: u8 where "DW_OP_plus \<equiv> 0x22"
abbreviation (input) DW_OP_plus_uconst :: u8 where "DW_OP_plus_uconst \<equiv> 0x23"
abbreviation (input) DW_OP_shl :: u8 where "DW_OP_shl \<equiv> 0x24"
abbreviation (input) DW_OP_xor :: u8 where "DW_OP_xor \<equiv> 0x27"
abbreviation (input) DW_OP_bra :: u8 where "DW_OP_bra \<equiv> 0x28"
abbreviation (input) DW_OP_eq :: u8 where "DW_OP_eq \<equiv> 0x29"
abbreviation (input) DW_OP_ne :: u8 where "DW_OP_ne \<equiv> 0x2e"
abbreviation (input) DW_OP_skip :: u8 where "DW_OP_skip \<equiv> 0x2f"
abbreviation (input) DW_OP_lit0 :: u8 where "DW_OP_lit0 \<equiv> 0x30"
abbreviation (input) DW_OP_lit31 :: u8 where "DW_OP_lit31 \<equiv> 0x4f"
abbreviation (input) DW_OP_reg0 :: u8 where "DW_OP_reg0 \<equiv> 0x50"
abbreviation (input) DW_OP_reg31 :: u8 where "DW_OP_reg31 \<equiv> 0x6f"
abbreviation (input) DW_OP_breg0 :: u8 where "DW_OP_breg0 \<equiv> 0x70"
abbreviation (input) DW_OP_breg31 :: u8 where "DW_OP_breg31 \<equiv> 0x8f"
abbreviation (input) DW_OP_regx :: u8 where "DW_OP_regx \<equiv> 0x90"
abbreviation (input) DW_OP_fbreg :: u8 where "DW_OP_fbreg \<equiv> 0x91"
abbreviation (input) DW_OP_bregx :: u8 where "DW_OP_bregx \<equiv> 0x92"
abbreviation (input) DW_OP_piece :: u8 where "DW_OP_piece \<equiv> 0x93"
abbreviation (input) DW_OP_deref_size :: u8 where "DW_OP_deref_size \<equiv> 0x94"
abbreviation (input) DW_OP_xderef_size :: u8 where "DW_OP_xderef_size \<equiv> 0x95"
abbreviation (input) DW_OP_nop :: u8 where "DW_OP_nop \<equiv> 0x96"
abbreviation (input) DW_OP_push_object_address :: u8 where "DW_OP_push_object_address \<equiv> 0x97"
abbreviation (input) DW_OP_call2 :: u8 where "DW_OP_call2 \<equiv> 0x98"
abbreviation (input) DW_OP_call4 :: u8 where "DW_OP_call4 \<equiv> 0x99"
abbreviation (input) DW_OP_call_ref :: u8 where "DW_OP_call_ref \<equiv> 0x9a"
abbreviation (input) DW_OP_form_tls_address :: u8 where "DW_OP_form_tls_address \<equiv> 0x9b"
abbreviation (input) DW_OP_call_frame_cfa :: u8 where "DW_OP_call_frame_cfa \<equiv> 0x9c"
abbreviation (input) DW_OP_bit_piece :: u8 where "DW_OP_bit_piece \<equiv> 0x9d"
abbreviation (input) DW_OP_implicit_value :: u8 where "DW_OP_implicit_value \<equiv> 0x9e"
abbreviation (input) DW_OP_stack_value :: u8 where "DW_OP_stack_value \<equiv> 0x9f"
abbreviation (input) DW_OP_implicit_pointer :: u8 where "DW_OP_implicit_pointer \<equiv> 0xa0"
abbreviation (input) DW_OP_addrx :: u8 where "DW_OP_addrx \<equiv> 0xa1"
abbreviation (input) DW_OP_constx :: u8 where "DW_OP_constx \<equiv> 0xa2"
abbreviation (input) DW_OP_entry_value :: u8 where "DW_OP_entry_value \<equiv> 0xa3"
abbreviation (input) DW_OP_const_type :: u8 where "DW_OP_const_type \<equiv> 0xa4"
abbreviation (input) DW_OP_regval_type :: u8 where "DW_OP_regval_type \<equiv> 0xa5"
abbreviation (input) DW_OP_deref_type :: u8 where "DW_OP_deref_type \<equiv> 0xa6"
abbreviation (input) DW_OP_xderef_type :: u8 where "DW_OP_xderef_type \<equiv> 0xa7"
abbreviation (input) DW_OP_convert :: u8 where "DW_OP_convert \<equiv> 0xa8"
abbreviation (input) DW_OP_reinterpret :: u8 where "DW_OP_reinterpret \<equiv> 0xa9"
abbreviation (input) DW_OP_GNU_push_tls_address :: u8 where "DW_OP_GNU_push_tls_address \<equiv> 0xe0"
abbreviation (input) DW_OP_LLVM_form_aspace_address :: u8 where "DW_OP_LLVM_form_aspace_address \<equiv> 0xe1"
abbreviation (input) DW_OP_LLVM_push_lane :: u8 where "DW_OP_LLVM_push_lane \<equiv> 0xe2"
abbreviation (input) DW_OP_LLVM_offset :: u8 where "DW_OP_LLVM_offset \<equiv> 0xe3"
abbreviation (input) DW_OP_LLVM_offset_uconst :: u8 where "DW_OP_LLVM_offset_uconst \<equiv> 0xe4"
abbreviation (input) DW_OP_LLVM_bit_offset :: u8 where "DW_OP_LLVM_bit_offset \<equiv> 0xe5"
abbreviation (input) DW_OP_LLVM_call_frame_entry_reg :: u8 where "DW_OP_LLVM_call_frame_entry_reg \<equiv> 0xe6"
abbreviation (input) DW_OP_LLVM_undefined :: u8 where "DW_OP_LLVM_undefined \<equiv> 0xe7"
abbreviation (input) DW_OP_LLVM_aspace_bregx :: u8 where "DW_OP_LLVM_aspace_bregx \<equiv> 0xe8"
abbreviation (input) DW_OP_LLVM_aspace_implicit_pointer :: u8 where "DW_OP_LLVM_aspace_implicit_pointer \<equiv> 0xe9"
abbreviation (input) DW_OP_LLVM_piece_end :: u8 where "DW_OP_LLVM_piece_end \<equiv> 0xea"
abbreviation (input) DW_OP_LLVM_extend :: u8 where "DW_OP_LLVM_extend \<equiv> 0xeb"
abbreviation (input) DW_OP_LLVM_select_bit_piece :: u8 where "DW_OP_LLVM_select_bit_piece \<equiv> 0xec"
abbreviation (input) DW_OP_GNU_uninit :: u8 where "DW_OP_GNU_uninit \<equiv> 0xf0"
abbreviation (input) DW_OP_GNU_encoded_addr :: u8 where "DW_OP_GNU_encoded_addr \<equiv> 0xf1"
abbreviation (input) DW_OP_GNU_implicit_pointer :: u8 where "DW_OP_GNU_implicit_pointer \<equiv> 0xf2"
abbreviation (input) DW_OP_GNU_entry_value :: u8 where "DW_OP_GNU_entry_value \<equiv> 0xf3"
abbreviation (input) DW_OP_GNU_const_type :: u8 where "DW_OP_GNU_const_type \<equiv> 0xf4"
abbreviation (input) DW_OP_GNU_regval_type :: u8 where "DW_OP_GNU_regval_type \<equiv> 0xf5"
abbreviation (input) DW_OP_GNU_deref_type :: u8 where "DW_OP_GNU_deref_type \<equiv> 0xf6"
abbreviation (input) DW_OP_GNU_convert :: u8 where "DW_OP_GNU_convert \<equiv> 0xf7"
abbreviation (input) DW_OP_GNU_reinterpret :: u8 where "DW_OP_GNU_reinterpret \<equiv> 0xf9"
abbreviation (input) DW_OP_GNU_parameter_ref :: u8 where "DW_OP_GNU_parameter_ref \<equiv> 0xfa"
abbreviation (input) DW_OP_GNU_addr_index :: u8 where "DW_OP_GNU_addr_index \<equiv> 0xfb"
abbreviation (input) DW_OP_GNU_const_index :: u8 where "DW_OP_GNU_const_index \<equiv> 0xfc"
abbreviation (input) DW_OP_GNU_variable_value :: u8 where "DW_OP_GNU_variable_value \<equiv> 0xfd"

section \<open>Operands\<close>

text \<open>\<open>SIGN_EXTEND\<close> on a 64 bit variable of which the low bytes are set: the bytes above are filled when the highest of them is negative.\<close>

definition SIGN_EXTEND :: "u64 \<Rightarrow> nat \<Rightarrow> u64" where
  "SIGN_EXTEND dest len = (if bit dest (8 * len - 1) then dest OR push_bit (8 * len) (- 1) else dest)"

text \<open>
  What the switch leaves behind: the three operands, the offset in the block and the address the pointer has reached. The
  context of a read is the debug object, the address the section stands at, its bytes and the pointer to its end.
\<close>

type_synonym operands = "(u64 \<times> u64 \<times> u64) \<times> u64 \<times> u64"
type_synonym loc_source = "dwarf_debug \<times> u64 \<times> bytes \<times> ptr"

definition address_of :: "u64 \<Rightarrow> ptr \<Rightarrow> u64" where
  "address_of base p = base + word_of_nat p"

text \<open>The branches that read a single operand.\<close>

definition no_operand :: "loc_source \<Rightarrow> u64 \<Rightarrow> ptr \<Rightarrow> u64 \<Rightarrow> operands dw" where
  "no_operand src operand1 p offset = (case src of (dbg, base, buf, section_end) \<Rightarrow>
     DW_OK ((operand1, 0, 0), offset, address_of base p))"

definition fixed_operand :: "loc_source \<Rightarrow> nat \<Rightarrow> (u64 \<Rightarrow> u64) \<Rightarrow> ptr \<Rightarrow> u64 \<Rightarrow> operands dw" where
  "fixed_operand src sz f p offset = (case src of (dbg, base, buf, section_end) \<Rightarrow>
     dw_bind (read_unaligned_ck dbg buf p sz section_end) (\<lambda>operand1.
       DW_OK ((f operand1, 0, 0), offset + word_of_nat sz, address_of base (p + sz))))"

definition byte_operand :: "loc_source \<Rightarrow> (u8 \<Rightarrow> u64) \<Rightarrow> ptr \<Rightarrow> u64 \<Rightarrow> operands dw" where
  "byte_operand src f p offset = (case src of (dbg, base, buf, section_end) \<Rightarrow>
     if p \<ge> section_end then DW_ERROR DW_DLE_LOCEXPR_OFF_SECTION_END
     else dw_bind (rd8 buf p) (\<lambda>b. DW_OK ((f b, 0, 0), offset + 1, address_of base (p + 1))))"

definition uleb_operand :: "loc_source \<Rightarrow> ptr \<Rightarrow> u64 \<Rightarrow> operands dw" where
  "uleb_operand src p offset = (case src of (dbg, base, buf, section_end) \<Rightarrow>
     dw_bind (decode_leb128_uword_len_ck buf p section_end) (\<lambda>((operand1, leblen), p).
       DW_OK ((operand1, 0, 0), offset + word_of_nat leblen, address_of base p)))"

definition sleb_operand :: "loc_source \<Rightarrow> ptr \<Rightarrow> u64 \<Rightarrow> operands dw" where
  "sleb_operand src p offset = (case src of (dbg, base, buf, section_end) \<Rightarrow>
     dw_bind (decode_leb128_sword_len_ck buf p section_end) (\<lambda>((operand1, leblen), p).
       DW_OK ((operand1, 0, 0), offset + word_of_nat leblen, address_of base p)))"

text \<open>The branches with two operands.\<close>

definition uleb_uleb_operands :: "loc_source \<Rightarrow> ptr \<Rightarrow> u64 \<Rightarrow> operands dw" where
  "uleb_uleb_operands src p offset = (case src of (dbg, base, buf, section_end) \<Rightarrow>
     dw_bind (decode_leb128_uword_len_ck buf p section_end) (\<lambda>((operand1, leblen), p).
     dw_bind (decode_leb128_uword_len_ck buf p section_end) (\<lambda>((operand2, leblen2), p).
       DW_OK ((operand1, operand2, 0), offset + word_of_nat leblen + word_of_nat leblen2, address_of base p))))"

definition uleb_sleb_operands :: "loc_source \<Rightarrow> ptr \<Rightarrow> u64 \<Rightarrow> operands dw" where
  "uleb_sleb_operands src p offset = (case src of (dbg, base, buf, section_end) \<Rightarrow>
     dw_bind (decode_leb128_uword_len_ck buf p section_end) (\<lambda>((operand1, leblen), p).
     dw_bind (decode_leb128_sword_len_ck buf p section_end) (\<lambda>((operand2, leblen2), p).
       DW_OK ((operand1, operand2, 0), offset + word_of_nat leblen + word_of_nat leblen2, address_of base p))))"

definition byte_uleb_operands :: "loc_source \<Rightarrow> ptr \<Rightarrow> u64 \<Rightarrow> operands dw" where
  "byte_uleb_operands src p offset = (case src of (dbg, base, buf, section_end) \<Rightarrow>
     if p \<ge> section_end then DW_ERROR DW_DLE_LOCEXPR_OFF_SECTION_END
     else
       dw_bind (rd8 buf p) (\<lambda>operand1.
       dw_bind (decode_leb128_uword_len_ck buf (p + 1) section_end) (\<lambda>((operand2, leblen), p).
         DW_OK ((ucast operand1, operand2, 0), offset + 1 + word_of_nat leblen, address_of base p))))"

text \<open>\<open>DW_OP_implicit_pointer\<close>; in the LLVM operation that is like it the offset does not count the first operand.\<close>

definition fixed_sleb_operands :: "loc_source \<Rightarrow> nat \<Rightarrow> nat \<Rightarrow> ptr \<Rightarrow> u64 \<Rightarrow> operands dw" where
  "fixed_sleb_operands src sz counted p offset = (case src of (dbg, base, buf, section_end) \<Rightarrow>
     dw_bind (read_unaligned_ck dbg buf p sz section_end) (\<lambda>operand1.
     if p + sz > section_end then DW_ERROR DW_DLE_LOCEXPR_OFF_SECTION_END
     else dw_bind (decode_leb128_sword_len_ck buf (p + sz) section_end) (\<lambda>((operand2, leblen), p).
       DW_OK ((operand1, operand2, 0), offset + word_of_nat counted + word_of_nat leblen, address_of base p))))"

text \<open>A block of bytes with its length before it; the second operand is the address of the bytes.\<close>

definition block_operand :: "loc_source \<Rightarrow> ptr \<Rightarrow> u64 \<Rightarrow> operands dw" where
  "block_operand src p offset = (case src of (dbg, base, buf, section_end) \<Rightarrow>
     dw_bind (decode_leb128_uword_len_ck buf p section_end) (\<lambda>((operand1, leblen), p).
       let operand2 = address_of base p;
           loc_ptr = address_of base p + operand1
       in if loc_ptr > address_of base section_end then DW_ERROR DW_DLE_LOCEXPR_OFF_SECTION_END
          else DW_OK ((operand1, operand2, 0), offset + word_of_nat leblen + operand1, loc_ptr)))"

definition const_type_operands :: "loc_source \<Rightarrow> ptr \<Rightarrow> u64 \<Rightarrow> operands dw" where
  "const_type_operands src p offset = (case src of (dbg, base, buf, section_end) \<Rightarrow>
     dw_bind (decode_leb128_uword_len_ck buf p section_end) (\<lambda>((operand1, leblen), p).
       if p \<ge> section_end then DW_ERROR DW_DLE_LOCEXPR_OFF_SECTION_END
       else
         dw_bind (rd8 buf p) (\<lambda>b.
           let operand2 = ucast b;
               operand3 = address_of base (p + 1);
               loc_ptr = address_of base (p + 1) + operand2
           in if loc_ptr > address_of base section_end then DW_ERROR DW_DLE_LOCEXPR_OFF_SECTION_END
              else DW_OK ((operand1, operand2, operand3), offset + word_of_nat leblen + 1 + operand2, loc_ptr))))"

text \<open>\<open>read_encoded_addr\<close>: the value and the number of bytes read, the encoding byte included.\<close>

definition read_encoded_addr :: "loc_source \<Rightarrow> ptr \<Rightarrow> u16 \<Rightarrow> (u64 \<times> nat) dw" where
  "read_encoded_addr src loc_ptr address_size = (case src of (dbg, base, buf, section_end) \<Rightarrow>
     dw_bind (rd8 buf loc_ptr) (\<lambda>b.
       let p = loc_ptr + 1;
           op = (if b = 0 then address_size else ucast b :: u16);
           op = (if op = 0xff then 0 else op AND 0xf)
       in if op = 0 then DW_OK (0, 1)
          else if op = 1 then
            dw_bind (decode_leb128_uword_len_ck buf p section_end) (\<lambda>((operand, leblen), _).
              if leblen > 200 then DW_ERROR DW_DLE_GNU_OPCODE_ERROR else DW_OK (operand, 1 + leblen))
          else if op = 2 then dw_bind (read_unaligned_ck dbg buf p 2 section_end) (\<lambda>operand. DW_OK (operand, 3))
          else if op = 4 then dw_bind (read_unaligned_ck dbg buf p 4 section_end) (\<lambda>operand. DW_OK (operand, 5))
          else if op = 8 then dw_bind (read_unaligned_ck dbg buf p 8 section_end) (\<lambda>operand. DW_OK (operand, 9))
          else if op = 9 then
            dw_bind (decode_leb128_sword_len_ck buf p section_end) (\<lambda>((operandsigned, leblen), _).
              if leblen > 200 then DW_ERROR DW_DLE_GNU_OPCODE_ERROR else DW_OK (operandsigned, 1 + leblen))
          else if op = 0xa then
            dw_bind (read_unaligned_ck dbg buf p 2 section_end) (\<lambda>operand. DW_OK (SIGN_EXTEND operand 2, 3))
          else if op = 0xb then
            dw_bind (read_unaligned_ck dbg buf p 4 section_end) (\<lambda>operand. DW_OK (SIGN_EXTEND operand 4, 5))
          else if op = 0xc then
            dw_bind (read_unaligned_ck dbg buf p 8 section_end) (\<lambda>operand. DW_OK (SIGN_EXTEND operand 8, 9))
          else DW_ERROR DW_DLE_GNU_OPCODE_ERROR))"

definition encoded_addr_operand :: "loc_source \<Rightarrow> u16 \<Rightarrow> ptr \<Rightarrow> u64 \<Rightarrow> operands dw" where
  "encoded_addr_operand src address_size p offset = (case src of (dbg, base, buf, section_end) \<Rightarrow>
     if p \<ge> section_end then DW_ERROR DW_DLE_LOCEXPR_OFF_SECTION_END
     else dw_bind (read_encoded_addr src p address_size) (\<lambda>(operand1, len).
       if p + len > section_end then DW_ERROR DW_DLE_LOCEXPR_OFF_SECTION_END
       else DW_OK ((operand1, 0, 0), offset + word_of_nat len, address_of base (p + len))))"

section \<open>One operation\<close>

text \<open>
  The switch, branches with one body joined. The tests behind a byte or fixed operand that was read can not succeed and are left out.
\<close>

definition read_operands ::
  "loc_source \<Rightarrow> u16 \<Rightarrow> u16 \<Rightarrow> u16 \<Rightarrow> u8 \<Rightarrow> ptr \<Rightarrow> u64 \<Rightarrow> operands dw"
where
  "read_operands src version_stamp offset_size address_size atom p offset =
     (if DW_OP_reg0 \<le> atom \<and> atom \<le> DW_OP_reg31 then no_operand src 0 p offset
      else if DW_OP_lit0 \<le> atom \<and> atom \<le> DW_OP_lit31 then no_operand src (ucast atom - ucast DW_OP_lit0) p offset
      else if DW_OP_breg0 \<le> atom \<and> atom \<le> DW_OP_breg31 then sleb_operand src p offset
      else if atom = DW_OP_addr then fixed_operand src (unat address_size) id p offset
      else if atom = DW_OP_const1u \<or> atom = DW_OP_pick \<or> atom = DW_OP_deref_size \<or> atom = DW_OP_xderef_size
        then byte_operand src ucast p offset
      else if atom = DW_OP_const1s then byte_operand src (\<lambda>b. SIGN_EXTEND (scast b) 1) p offset
      else if atom = DW_OP_const2u \<or> atom = DW_OP_call2 then fixed_operand src 2 id p offset
      else if atom = DW_OP_const2s \<or> atom = DW_OP_skip \<or> atom = DW_OP_bra
        then fixed_operand src 2 (\<lambda>v. SIGN_EXTEND v 2) p offset
      else if atom = DW_OP_const4u \<or> atom = DW_OP_call4 \<or> atom = DW_OP_GNU_parameter_ref
        then fixed_operand src 4 id p offset
      else if atom = DW_OP_const4s then fixed_operand src 4 (\<lambda>v. SIGN_EXTEND v 4) p offset
      else if atom = DW_OP_const8u \<or> atom = DW_OP_const8s then fixed_operand src 8 id p offset
      else if atom = DW_OP_regx \<or> atom = DW_OP_constu \<or> atom = DW_OP_plus_uconst \<or> atom = DW_OP_piece \<or>
              atom = DW_OP_convert \<or> atom = DW_OP_GNU_convert \<or> atom = DW_OP_reinterpret \<or> atom = DW_OP_GNU_reinterpret \<or>
              atom = DW_OP_addrx \<or> atom = DW_OP_GNU_addr_index \<or> atom = DW_OP_constx \<or> atom = DW_OP_GNU_const_index \<or>
              atom = DW_OP_LLVM_offset_uconst \<or> atom = DW_OP_LLVM_call_frame_entry_reg
        then uleb_operand src p offset
      else if atom = DW_OP_consts \<or> atom = DW_OP_fbreg then sleb_operand src p offset
      else if atom = DW_OP_bregx then uleb_sleb_operands src p offset
      else if atom = DW_OP_dup \<or> atom = DW_OP_drop \<or> atom = DW_OP_over \<or> DW_OP_swap \<le> atom \<and> atom \<le> DW_OP_plus \<or> atom = DW_OP_deref \<or>
              DW_OP_shl \<le> atom \<and> atom \<le> DW_OP_xor \<or> DW_OP_eq \<le> atom \<and> atom \<le> DW_OP_ne \<or> atom = DW_OP_nop \<or>
              atom = DW_OP_push_object_address \<or> atom = DW_OP_form_tls_address \<or> atom = DW_OP_call_frame_cfa \<or>
              atom = DW_OP_GNU_push_tls_address \<or> atom = DW_OP_stack_value \<or> atom = DW_OP_GNU_uninit \<or>
              atom = DW_OP_LLVM_form_aspace_address \<or> atom = DW_OP_LLVM_push_lane \<or> atom = DW_OP_LLVM_offset \<or>
              atom = DW_OP_LLVM_bit_offset \<or> atom = DW_OP_LLVM_undefined \<or> atom = DW_OP_LLVM_piece_end
        then no_operand src 0 p offset
      else if atom = DW_OP_xderef_type \<or> atom = DW_OP_deref_type \<or> atom = DW_OP_GNU_deref_type
        then byte_uleb_operands src p offset
      else if atom = DW_OP_call_ref then fixed_operand src (unat offset_size) id p offset
      else if atom = DW_OP_bit_piece \<or> atom = DW_OP_regval_type \<or> atom = DW_OP_GNU_regval_type \<or>
              atom = DW_OP_LLVM_aspace_bregx \<or> atom = DW_OP_LLVM_extend \<or> atom = DW_OP_LLVM_select_bit_piece
        then uleb_uleb_operands src p offset
      else if atom = DW_OP_implicit_value \<or> atom = DW_OP_entry_value \<or> atom = DW_OP_GNU_entry_value
        then block_operand src p offset
      else if atom = DW_OP_GNU_encoded_addr then encoded_addr_operand src address_size p offset
      else if atom = DW_OP_implicit_pointer \<or> atom = DW_OP_GNU_implicit_pointer then
        let iplen = unat (if version_stamp = 2 then address_size else offset_size)
        in fixed_sleb_operands src iplen iplen p offset
      else if atom = DW_OP_const_type \<or> atom = DW_OP_GNU_const_type then const_type_operands src p offset
      else if atom = DW_OP_GNU_variable_value then
        dw_bind (fixed_operand src (unat offset_size) id p offset) (\<lambda>(operands, _, loc_ptr). DW_OK (operands, offset, loc_ptr))
      else if atom = DW_OP_LLVM_aspace_implicit_pointer then fixed_sleb_operands src (unat offset_size) 0 p offset
      else DW_ERROR DW_DLE_LOC_EXPR_BAD)"

record loc_expr_op =
  lr_atom :: u8
  lr_number :: u64
  lr_number2 :: u64
  lr_number3 :: u64
  lr_offset :: u64
  lr_opnumber :: s64

text \<open>\<open>_dwarf_read_loc_expr_op\<close>: the operation at an offset of a block of \<open>bl_len\<close> bytes from \<open>bl_data\<close> on, and the offset of the next one.\<close>

definition read_loc_expr_op ::
  "loc_source \<Rightarrow> u64 \<Rightarrow> ptr \<Rightarrow> s64 \<Rightarrow> u16 \<Rightarrow> u16 \<Rightarrow> u16 \<Rightarrow> s64 \<Rightarrow> (u64 \<times> loc_expr_op) dw"
where
  "read_loc_expr_op src bl_len bl_data opnumber version_stamp offset_size address_size startoffset_in =
     (case src of (dbg, base, buf, section_end) \<Rightarrow>
      let offset = startoffset_in in
      if offset > bl_len then DW_ERROR DW_DLE_LOCEXPR_OFF_SECTION_END
      else if offset = bl_len then DW_NO_ENTRY
      else
        let loc_ptr = bl_data + unat offset in
        if loc_ptr + 1 > section_end then DW_ERROR DW_DLE_LOCEXPR_OFF_SECTION_END
        else
          dw_bind (rd8 buf loc_ptr) (\<lambda>atom.
          dw_bind (read_operands src version_stamp offset_size address_size atom (loc_ptr + 1) (offset + 1))
            (\<lambda>((operand1, operand2, operand3), next, loc_ptr).
              if loc_ptr > address_of base section_end then DW_ERROR DW_DLE_LOCEXPR_OFF_SECTION_END
              else if startoffset_in <s 0 \<or> next \<le> startoffset_in then DW_ERROR DW_DLE_LOCEXPR_OFF_SECTION_END
              else if next > bl_len then DW_ERROR DW_DLE_LOC_BAD_TERMINATION
              else DW_OK (next, \<lparr>lr_atom = atom, lr_number = operand1, lr_number2 = operand2, lr_number3 = operand3,
                                 lr_offset = offset, lr_opnumber = opnumber\<rparr>))))"

lemma read_loc_expr_op_next:
  "read_loc_expr_op src len data n v os as start = DW_OK (next, op) \<Longrightarrow>
   start < len \<and> start < next \<and> next \<le> len \<and> \<not> start <s 0 \<and> lr_offset op = start \<and> lr_opnumber op = n"
  by (cases src) (auto simp: read_loc_expr_op_def Let_def dw_simps split: if_splits)

section \<open>All operations of a block\<close>

text \<open>The loop of \<open>_dwarf_fill_in_locdesc_op_c\<close>.\<close>

function read_ops_loop ::
  "loc_source \<Rightarrow> u64 \<Rightarrow> ptr \<Rightarrow> u16 \<Rightarrow> u16 \<Rightarrow> u16 \<Rightarrow> u64 \<Rightarrow> u64 \<Rightarrow> loc_expr_op list dw"
where
  "read_ops_loop src bl_len bl_data version_stamp offset_size address_size op_count offset =
     (if offset \<le> bl_len then
        (case read_loc_expr_op src bl_len bl_data op_count version_stamp offset_size address_size offset of
           DW_NO_ENTRY \<Rightarrow> DW_OK []
         | DW_OK (nextoffset, op) \<Rightarrow>
             if op_count + 1 > bl_len then DW_ERROR DW_DLE_LOCATION_ERROR
             else dw_bind (read_ops_loop src bl_len bl_data version_stamp offset_size address_size (op_count + 1) nextoffset)
                    (\<lambda>ops. DW_OK (op # ops))
         | DW_ERROR e \<Rightarrow> DW_ERROR e
         | FAULT \<Rightarrow> FAULT)
      else DW_OK [])"
  by pat_completeness auto
termination
  by (relation "measure (\<lambda>(src, len, data, v, os, as, n, offset). unat len - unat offset)")
     (auto dest!: read_loc_expr_op_next simp: word_less_nat_alt word_le_nat_alt)

declare read_ops_loop.simps [simp del]

end
