(* ===== verification/LocExpr.thy ===== *)
theory LocExpr
  imports LocOps
begin

text \<open>
  Location expressions as the DWARF standard defines them, an operation with operands of the kinds its table of operations lists, their
  encoding, and the proof that \<open>LocOps\<close> decodes them. Reading any bytes is safe and yields operations that follow one another in the block.
\<close>

section \<open>The operations of the standard\<close>

datatype operand_kind = Fixed nat | Signed_Fixed nat | ULEB | SLEB | Block | Byte_Block

datatype operand = Unsigned nat | Signed int | Contents bytes

fun fits :: "operand_kind \<Rightarrow> operand \<Rightarrow> bool" where
  "fits (Fixed n) (Unsigned v) \<longleftrightarrow> v < 256 ^ n"
| "fits (Signed_Fixed n) (Signed i) \<longleftrightarrow> - (2 ^ (8 * n - 1)) \<le> i \<and> i < 2 ^ (8 * n - 1)"
| "fits ULEB (Unsigned v) \<longleftrightarrow> v < 2 ^ 64"
| "fits SLEB (Signed i) \<longleftrightarrow> - (2 ^ 63) \<le> i \<and> i < 2 ^ 63"
| "fits Block (Contents bs) \<longleftrightarrow> length bs < 2 ^ 64"
| "fits Byte_Block (Contents bs) \<longleftrightarrow> length bs < 256"
| "fits _ _ \<longleftrightarrow> False"

fun encode_operand :: "dwarf_debug \<Rightarrow> operand_kind \<Rightarrow> operand \<Rightarrow> bytes" where
  "encode_operand dbg (Fixed n) (Unsigned v) = fixed_bytes dbg n v"
| "encode_operand dbg (Signed_Fixed n) (Signed i) = fixed_bytes dbg n (nat (i mod 256 ^ n))"
| "encode_operand dbg ULEB (Unsigned v) = uleb_encode v"
| "encode_operand dbg SLEB (Signed i) = sleb_encode i"
| "encode_operand dbg Block (Contents bs) = uleb_encode (length bs) @ bs"
| "encode_operand dbg Byte_Block (Contents bs) = word_of_nat (length bs) # bs"
| "encode_operand dbg _ _ = []"

fun encode_operands :: "dwarf_debug \<Rightarrow> operand_kind list \<Rightarrow> operand list \<Rightarrow> bytes" where
  "encode_operands dbg (k # ks) (x # xs) = encode_operand dbg k x @ encode_operands dbg ks xs"
| "encode_operands dbg _ _ = []"

text \<open>The numbers an operand at a place is given as; a block of bytes is its length and the address of its bytes.\<close>

fun operand_numbers :: "u64 \<Rightarrow> dwarf_debug \<Rightarrow> ptr \<Rightarrow> operand_kind list \<Rightarrow> operand list \<Rightarrow> u64 list" where
  "operand_numbers base dbg p (k # ks) (x # xs) =
     (case x of
        Unsigned v \<Rightarrow> [word_of_nat v]
      | Signed i \<Rightarrow> [word_of_int i]
      | Contents bs \<Rightarrow>
          [word_of_nat (length bs), address_of base (p + length (encode_operand dbg k x) - length bs)]) @
     operand_numbers base dbg (p + length (encode_operand dbg k x)) ks xs"
| "operand_numbers base dbg p _ _ = []"

text \<open>The table of operations with the kinds of their operands.\<close>

definition operand_kinds :: "u16 \<Rightarrow> u16 \<Rightarrow> u16 \<Rightarrow> u8 \<Rightarrow> operand_kind list option" where
  "operand_kinds version offset_size address_size atom =
     (let a = unat atom; address = Fixed (unat address_size); reference = Fixed (unat offset_size) in
      if a = 0x03 then Some [address]
      else if a = 0x08 then Some [Fixed 1]
      else if a = 0x09 then Some [Signed_Fixed 1]
      else if a = 0x0a then Some [Fixed 2]
      else if a = 0x0b then Some [Signed_Fixed 2]
      else if a = 0x0c then Some [Fixed 4]
      else if a = 0x0d then Some [Signed_Fixed 4]
      else if a = 0x0e then Some [Fixed 8]
      else if a = 0x0f then Some [Signed_Fixed 8]
      else if a = 0x10 then Some [ULEB]
      else if a = 0x11 then Some [SLEB]
      else if a = 0x15 then Some [Fixed 1]
      else if a = 0x23 then Some [ULEB]
      else if a = 0x28 \<or> a = 0x2f then Some [Signed_Fixed 2]
      else if a = 0x06 \<or> 0x12 \<le> a \<and> a \<le> 0x27 \<or> 0x29 \<le> a \<and> a \<le> 0x6f then Some []
      else if 0x70 \<le> a \<and> a \<le> 0x8f then Some [SLEB]
      else if a = 0x90 then Some [ULEB]
      else if a = 0x91 then Some [SLEB]
      else if a = 0x92 then Some [ULEB, SLEB]
      else if a = 0x93 then Some [ULEB]
      else if a = 0x94 \<or> a = 0x95 then Some [Fixed 1]
      else if a = 0x96 \<or> a = 0x97 then Some []
      else if a = 0x98 then Some [Fixed 2]
      else if a = 0x99 then Some [Fixed 4]
      else if a = 0x9a then Some [reference]
      else if a = 0x9b \<or> a = 0x9c then Some []
      else if a = 0x9d then Some [ULEB, ULEB]
      else if a = 0x9e then Some [Block]
      else if a = 0x9f then Some []
      else if a = 0xa0 \<or> a = 0xf2 then Some [if version = 2 then address else reference, SLEB]
      else if a = 0xa1 \<or> a = 0xa2 then Some [ULEB]
      else if a = 0xa3 \<or> a = 0xf3 then Some [Block]
      else if a = 0xa4 \<or> a = 0xf4 then Some [ULEB, Byte_Block]
      else if a = 0xa5 \<or> a = 0xf5 then Some [ULEB, ULEB]
      else if a = 0xa6 \<or> a = 0xa7 \<or> a = 0xf6 then Some [Fixed 1, ULEB]
      else if a = 0xa8 \<or> a = 0xa9 \<or> a = 0xf7 \<or> a = 0xf9 then Some [ULEB]
      else if a = 0xe4 \<or> a = 0xe6 then Some [ULEB]
      else if 0xe0 \<le> a \<and> a \<le> 0xe7 \<or> a = 0xea then Some []
      else if a = 0xe8 \<or> a = 0xeb \<or> a = 0xec then Some [ULEB, ULEB]
      else if a = 0xe9 then Some [reference, SLEB]
      else if a = 0xf0 then Some []
      else if a = 0xfa then Some [Fixed 4]
      else if a = 0xfb \<or> a = 0xfc then Some [ULEB]
      else if a = 0xfd then Some [reference]
      else None)"

type_synonym operation = "u8 \<times> operand list"

definition well_formed :: "u16 \<Rightarrow> u16 \<Rightarrow> u16 \<Rightarrow> operation \<Rightarrow> bool" where
  "well_formed version offset_size address_size =
     (\<lambda>(atom, xs). case operand_kinds version offset_size address_size atom of
        None \<Rightarrow> False | Some ks \<Rightarrow> list_all2 fits ks xs)"

definition encode_operation :: "dwarf_debug \<Rightarrow> u16 \<Rightarrow> u16 \<Rightarrow> u16 \<Rightarrow> operation \<Rightarrow> bytes" where
  "encode_operation dbg version offset_size address_size =
     (\<lambda>(atom, xs). atom #
        encode_operands dbg (the (operand_kinds version offset_size address_size atom)) xs)"

text \<open>The three numbers an operation yields; a literal operation has its literal.\<close>

definition expected_numbers :: "u64 \<Rightarrow> dwarf_debug \<Rightarrow> ptr \<Rightarrow> u8 \<Rightarrow> operand_kind list \<Rightarrow> operand list \<Rightarrow> u64 list" where
  "expected_numbers base dbg p atom ks xs =
     (if 0x30 \<le> unat atom \<and> unat atom \<le> 0x4f then [word_of_nat (unat atom - 0x30)]
      else operand_numbers base dbg p ks xs) @ [0, 0, 0]"

text \<open>What an operation at a place of a block is decoded to.\<close>

definition decoded_operation ::
  "u64 \<Rightarrow> dwarf_debug \<Rightarrow> u16 \<Rightarrow> u16 \<Rightarrow> u16 \<Rightarrow> ptr \<Rightarrow> nat \<Rightarrow> nat \<Rightarrow> operation \<Rightarrow> loc_expr_op"
where
  "decoded_operation base dbg version offset_size address_size block i offset = (\<lambda>(atom, xs).
     let numbers = expected_numbers base dbg (block + offset + 1) atom
           (the (operand_kinds version offset_size address_size atom)) xs
     in \<lparr>lr_atom = atom, lr_number = numbers ! 0, lr_number2 = numbers ! 1, lr_number3 = numbers ! 2,
         lr_offset = word_of_nat offset, lr_opnumber = word_of_nat i\<rparr>)"

fun decoded_operations ::
  "u64 \<Rightarrow> dwarf_debug \<Rightarrow> u16 \<Rightarrow> u16 \<Rightarrow> u16 \<Rightarrow> ptr \<Rightarrow> nat \<Rightarrow> nat \<Rightarrow> operation list \<Rightarrow> loc_expr_op list"
where
  "decoded_operations base dbg v os as block i offset [] = []"
| "decoded_operations base dbg v os as block i offset (x # xs) =
     decoded_operation base dbg v os as block i offset x #
     decoded_operations base dbg v os as block (i + 1) (offset + length (encode_operation dbg v os as x)) xs"

section \<open>Reading encoded operands\<close>

lemma SIGN_EXTEND_take_bit:
  "0 < n \<Longrightarrow> n \<le> 8 \<Longrightarrow> SIGN_EXTEND (take_bit (8 * n) w) n = signed_take_bit (8 * n - 1) w"
proof (rule bit_word_eqI)
  fix m assume n: "0 < n" "n \<le> 8" and m: "m < LENGTH(64)"
  consider "m < 8 * n - 1" | "m = 8 * n - 1" | "8 * n \<le> m" by linarith
  then show "bit (SIGN_EXTEND (take_bit (8 * n) w) n) m = bit (signed_take_bit (8 * n - 1) w) m"
    by cases (use n m in \<open>auto simp: SIGN_EXTEND_def bit_simps min_def\<close>)
qed

lemma SIGN_EXTEND_of_int:
  assumes "0 < n" "n \<le> 8" "- (2 ^ (8 * n - 1)) \<le> i" "i < 2 ^ (8 * n - 1)"
  shows "SIGN_EXTEND (word_of_nat (nat (i mod 256 ^ n))) n = word_of_int i"
proof -
  have "(word_of_nat (nat (i mod 256 ^ n)) :: u64) = word_of_int (take_bit (8 * n) i)"
    by (simp add: take_bit_eq_mod power_mult [symmetric] flip: power_mult)
       (simp add: power_mult)
  also have "\<dots> = take_bit (8 * n) (word_of_int i)" by (simp add: take_bit_of_int)
  finally have "SIGN_EXTEND (word_of_nat (nat (i mod 256 ^ n))) n = signed_take_bit (8 * n - 1) (word_of_int i)"
    using SIGN_EXTEND_take_bit [OF assms(1,2)] by simp
  also have "\<dots> = word_of_int (signed_take_bit (8 * n - 1) i)" by (simp add: signed_take_bit_of_int)
  also have "signed_take_bit (8 * n - 1) i = i" using assms(3,4) by (simp add: signed_take_bit_int_eq_self)
  finally show ?thesis .
qed

lemma SIGN_EXTEND_scast: "SIGN_EXTEND (scast (b :: u8)) 1 = scast b"
  by (rule bit_word_eqI) (auto simp: SIGN_EXTEND_def bit_simps min_def)

lemma uleb_len_at:
  assumes "holds_at buf p (uleb_encode n)" "p + length (uleb_encode n) \<le> e" "e \<le> length buf" "n < 2 ^ 64"
  shows "decode_leb128_uword_len_ck buf p e = DW_OK ((word_of_nat n, length (uleb_encode n)), p + length (uleb_encode n))"
proof -
  obtain k where "decode_leb128_uword_len_ck buf p e = DW_OK ((word_of_nat n, k), p + length (uleb_encode n))"
    using uword_at [OF assms] by (auto simp: leb128_uword_wrapper_def dw_simps)
  then show ?thesis using decode_leb128_uword_len_ck_OK by fastforce
qed

lemma sword_at:
  assumes "holds_at buf p (sleb_encode i)" "p + length (sleb_encode i) \<le> e" "e \<le> length buf" "- (2 ^ 63) \<le> i" "i < 2 ^ 63"
  shows "leb128_sword_wrapper buf p e = DW_OK (word_of_int i, p + length (sleb_encode i))"
  using holds_atD [OF assms(1)] sword_encoded [of _ i e] assms(2-5) by auto

lemma sleb_len_at:
  assumes "holds_at buf p (sleb_encode i)" "p + length (sleb_encode i) \<le> e" "e \<le> length buf" "- (2 ^ 63) \<le> i" "i < 2 ^ 63"
  shows "decode_leb128_sword_len_ck buf p e = DW_OK ((word_of_int i, length (sleb_encode i)), p + length (sleb_encode i))"
proof -
  obtain k where "decode_leb128_sword_len_ck buf p e = DW_OK ((word_of_int i, k), p + length (sleb_encode i))"
    using sword_at [OF assms] by (auto simp: leb128_sword_wrapper_def dw_simps)
  then show ?thesis using decode_leb128_sword_len_ck_OK by fastforce
qed

lemma fits_iff [simp]:
  "fits (Fixed n) x \<longleftrightarrow> (\<exists>v. x = Unsigned v \<and> v < 256 ^ n)"
  "fits (Signed_Fixed n) x \<longleftrightarrow> (\<exists>i. x = Signed i \<and> - (2 ^ (8 * n - 1)) \<le> i \<and> i < 2 ^ (8 * n - 1))"
  "fits ULEB x \<longleftrightarrow> (\<exists>v. x = Unsigned v \<and> v < 2 ^ 64)"
  "fits SLEB x \<longleftrightarrow> (\<exists>i. x = Signed i \<and> - (2 ^ 63) \<le> i \<and> i < 2 ^ 63)"
  "fits Block x \<longleftrightarrow> (\<exists>bs. x = Contents bs \<and> length bs < 2 ^ 64)"
  "fits Byte_Block x \<longleftrightarrow> (\<exists>bs. x = Contents bs \<and> length bs < 256)"
  by (cases x; auto)+

lemma address_of_le:
  assumes "p \<le> e" "unat base + e < 2 ^ 64"
  shows "address_of base p \<le> address_of base e"
proof -
  have a: "unat (address_of base q) = unat base + q" if "q \<le> e" for q
    using that assms(2) by (simp add: address_of_def unat_word_ariths unsigned_of_nat take_bit_eq_mod)
  show ?thesis using a [of p] a [of e] assms(1) by (simp add: word_le_nat_alt)
qed

lemma address_of_add: "address_of base p + word_of_nat n = address_of base (p + n)"
  by (simp add: address_of_def)

text \<open>The branches, on the operands they expect.\<close>

lemma fixed_bytes_1: "fixed_bytes dbg (Suc 0) v = [word_of_nat v]"
  by (simp add: fixed_bytes_def split: copy_word.splits)

lemma fixed_operand_at:
  assumes "holds_at buf p (fixed_bytes dbg n v)" "p + n \<le> e" "e \<le> length buf" "n \<le> 8" "v < 256 ^ n"
  shows "fixed_operand (dbg, base, buf, e) n f p offset =
    DW_OK ((f (word_of_nat v), 0, 0), offset + word_of_nat n, address_of base (p + n))"
  using read_fixed_at [OF assms(1,4,2,3,5)] by (simp add: fixed_operand_def)

lemma byte_operand_at:
  assumes "holds_at buf p (fixed_bytes dbg 1 v)" "p + 1 \<le> e" "e \<le> length buf"
  shows "byte_operand (dbg, base, buf, e) f p offset =
    DW_OK ((f (word_of_nat v), 0, 0), offset + 1, address_of base (p + 1))"
  using assms by (simp add: byte_operand_def fixed_bytes_1 holds_at_Cons)

lemma byte_uleb_operands_at:
  assumes "holds_at buf p (fixed_bytes dbg 1 v @ uleb_encode n)" "p + 1 + length (uleb_encode n) \<le> e" "e \<le> length buf"
    and "n < 2 ^ 64"
  shows "byte_uleb_operands (dbg, base, buf, e) p offset =
    DW_OK ((ucast (word_of_nat v :: u8), word_of_nat n, 0), offset + 1 + word_of_nat (length (uleb_encode n)),
           address_of base (p + 1 + length (uleb_encode n)))"
  using assms uleb_len_at [of buf "p + 1" n e] by (simp add: byte_uleb_operands_def fixed_bytes_1 holds_at_Cons)

lemma block_operand_at:
  assumes "holds_at buf p (uleb_encode (length bs) @ bs)" "p + length (uleb_encode (length bs)) + length bs \<le> e"
    and "e \<le> length buf" "unat base + e < 2 ^ 64"
  shows "block_operand (dbg, base, buf, e) p offset =
    DW_OK ((word_of_nat (length bs), address_of base (p + length (uleb_encode (length bs))), 0),
           offset + word_of_nat (length (uleb_encode (length bs))) + word_of_nat (length bs),
           address_of base (p + length (uleb_encode (length bs)) + length bs))"
  using assms uleb_len_at [of buf p "length bs" e] address_of_le [OF assms(2,4)]
  by (simp add: block_operand_def Let_def address_of_add not_less [symmetric])

lemma const_type_operands_at:
  assumes "holds_at buf p (uleb_encode n @ word_of_nat (length bs) # bs)" "p + length (uleb_encode n) + 1 + length bs \<le> e"
    and "e \<le> length buf" "unat base + e < 2 ^ 64" "n < 2 ^ 64" "length bs < 256"
  shows "const_type_operands (dbg, base, buf, e) p offset =
    DW_OK ((word_of_nat n, word_of_nat (length bs), address_of base (p + length (uleb_encode n) + 1)),
           offset + word_of_nat (length (uleb_encode n)) + 1 + word_of_nat (length bs),
           address_of base (p + length (uleb_encode n) + 1 + length bs))"
proof -
  let ?q = "p + length (uleb_encode n)"
  have u: "(ucast (word_of_nat (length bs) :: u8) :: u64) = word_of_nat (length bs)"
  proof -
    have "take_bit 8 (length bs) = length bs" "take_bit 64 (length bs) = length bs"
      using assms(6) by (simp_all add: take_bit_nat_eq_self_iff)
    then show ?thesis by (simp add: word_unat_eq_iff unsigned_of_nat unsigned_ucast_eq)
  qed
  have "holds_at buf ?q (word_of_nat (length bs) # bs)" "holds_at buf p (uleb_encode n)" using assms(1) by simp_all
  then show ?thesis using assms(2-6) uleb_len_at [of buf p n e] address_of_le [OF assms(2,4)]
    by (simp add: const_type_operands_def Let_def holds_at_Cons u address_of_add not_less [symmetric])
qed

text \<open>Which branch the operands of an operation select.\<close>

lemma select_no_operand:
  assumes "operand_kinds v os as atom = Some []"
  shows "read_operands src v os as atom p off =
    no_operand src (if 0x30 \<le> unat atom \<and> unat atom \<le> 0x4f then word_of_nat (unat atom - 0x30) else 0) p off"
proof (cases "0x30 \<le> unat atom \<and> unat atom \<le> 0x6f")
  case True
  then have "ucast atom - ucast DW_OP_lit0 = (word_of_nat (unat atom - 0x30) :: u64)" by (simp add: of_nat_diff of_nat_unat)
  then show ?thesis using True by (auto simp: read_operands_def word_le_nat_alt)
next
  case False
  have "unat atom = 0x06 \<or> unat atom = 0x12 \<or> unat atom = 0x13 \<or> unat atom = 0x14 \<or> unat atom = 0x16 \<or>
     unat atom = 0x17 \<or> unat atom = 0x18 \<or> unat atom = 0x19 \<or> unat atom = 0x1a \<or> unat atom = 0x1b \<or>
     unat atom = 0x1c \<or> unat atom = 0x1d \<or> unat atom = 0x1e \<or> unat atom = 0x1f \<or> unat atom = 0x20 \<or>
     unat atom = 0x21 \<or> unat atom = 0x22 \<or> unat atom = 0x24 \<or> unat atom = 0x25 \<or> unat atom = 0x26 \<or>
     unat atom = 0x27 \<or> unat atom = 0x29 \<or> unat atom = 0x2a \<or> unat atom = 0x2b \<or> unat atom = 0x2c \<or>
     unat atom = 0x2d \<or> unat atom = 0x2e \<or> unat atom = 0x96 \<or> unat atom = 0x97 \<or> unat atom = 0x9b \<or>
     unat atom = 0x9c \<or> unat atom = 0x9f \<or> unat atom = 0xe0 \<or> unat atom = 0xe1 \<or> unat atom = 0xe2 \<or>
     unat atom = 0xe3 \<or> unat atom = 0xe5 \<or> unat atom = 0xe7 \<or> unat atom = 0xea \<or> unat atom = 0xf0"
    using False assms unfolding operand_kinds_def Let_def by (simp split: if_splits; presburger)
  then have "atom = 0x06 \<or> atom = 0x12 \<or> atom = 0x13 \<or> atom = 0x14 \<or> atom = 0x16 \<or> atom = 0x17 \<or>
     atom = 0x18 \<or> atom = 0x19 \<or> atom = 0x1a \<or> atom = 0x1b \<or> atom = 0x1c \<or> atom = 0x1d \<or>
     atom = 0x1e \<or> atom = 0x1f \<or> atom = 0x20 \<or> atom = 0x21 \<or> atom = 0x22 \<or> atom = 0x24 \<or>
     atom = 0x25 \<or> atom = 0x26 \<or> atom = 0x27 \<or> atom = 0x29 \<or> atom = 0x2a \<or> atom = 0x2b \<or>
     atom = 0x2c \<or> atom = 0x2d \<or> atom = 0x2e \<or> atom = 0x96 \<or> atom = 0x97 \<or> atom = 0x9b \<or>
     atom = 0x9c \<or> atom = 0x9f \<or> atom = 0xe0 \<or> atom = 0xe1 \<or> atom = 0xe2 \<or> atom = 0xe3 \<or>
     atom = 0xe5 \<or> atom = 0xe7 \<or> atom = 0xea \<or> atom = 0xf0"
    by (simp only: word_unat_eq_iff) simp
  then show ?thesis by (elim disjE) (simp_all add: read_operands_def)
qed

lemma select_uleb:
  assumes "operand_kinds v os as atom = Some [ULEB]"
  shows "read_operands src v os as atom p off = uleb_operand src p off"
proof -
  have "unat atom = 0x10 \<or> unat atom = 0x23 \<or> unat atom = 0x90 \<or> unat atom = 0x93 \<or> unat atom = 0xa1 \<or>
     unat atom = 0xa2 \<or> unat atom = 0xa8 \<or> unat atom = 0xa9 \<or> unat atom = 0xf7 \<or> unat atom = 0xf9 \<or>
     unat atom = 0xe4 \<or> unat atom = 0xe6 \<or> unat atom = 0xfb \<or> unat atom = 0xfc"
    using assms unfolding operand_kinds_def Let_def by (simp split: if_splits; presburger)
  then have "atom = 0x10 \<or> atom = 0x23 \<or> atom = 0x90 \<or> atom = 0x93 \<or> atom = 0xa1 \<or> atom = 0xa2 \<or>
     atom = 0xa8 \<or> atom = 0xa9 \<or> atom = 0xf7 \<or> atom = 0xf9 \<or> atom = 0xe4 \<or> atom = 0xe6 \<or>
     atom = 0xfb \<or> atom = 0xfc"
    by (simp only: word_unat_eq_iff) simp
  then show ?thesis using assms
    by (elim disjE; simp add: read_operands_def operand_kinds_def)
qed

lemma select_sleb:
  assumes "operand_kinds v os as atom = Some [SLEB]"
  shows "read_operands src v os as atom p off = sleb_operand src p off"
proof (cases "0x70 \<le> unat atom \<and> unat atom \<le> 0x8f")
  case True
  then show ?thesis by (auto simp: read_operands_def word_le_nat_alt)
next
  case False
  then have "unat atom = 0x11 \<or> unat atom = 0x91"
    using assms unfolding operand_kinds_def Let_def by (simp split: if_splits; presburger)
  then have "atom = 0x11 \<or> atom = 0x91" by (simp only: word_unat_eq_iff) simp
  then show ?thesis by (elim disjE) (simp_all add: read_operands_def)
qed

lemma select_uleb_sleb:
  assumes "operand_kinds v os as atom = Some [ULEB, SLEB]"
  shows "read_operands src v os as atom p off = uleb_sleb_operands src p off"
proof -
  have "unat atom = 0x92" using assms unfolding operand_kinds_def Let_def by (simp split: if_splits)
  then have "atom = 0x92" by (simp add: word_unat_eq_iff)
  then show ?thesis by (simp add: read_operands_def)
qed

lemma select_uleb_uleb:
  assumes "operand_kinds v os as atom = Some [ULEB, ULEB]"
  shows "read_operands src v os as atom p off = uleb_uleb_operands src p off"
proof -
  have "unat atom = 0x9d \<or> unat atom = 0xa5 \<or> unat atom = 0xf5 \<or> unat atom = 0xe8 \<or> unat atom = 0xeb \<or>
     unat atom = 0xec"
    using assms unfolding operand_kinds_def Let_def by (simp split: if_splits; presburger)
  then have "atom = 0x9d \<or> atom = 0xa5 \<or> atom = 0xf5 \<or> atom = 0xe8 \<or> atom = 0xeb \<or> atom = 0xec"
    by (simp only: word_unat_eq_iff) simp
  then show ?thesis using assms
    by (elim disjE; simp add: read_operands_def operand_kinds_def)
qed

lemma select_block:
  assumes "operand_kinds v os as atom = Some [Block]"
  shows "read_operands src v os as atom p off = block_operand src p off"
proof -
  have "unat atom = 0x9e \<or> unat atom = 0xa3 \<or> unat atom = 0xf3"
    using assms unfolding operand_kinds_def Let_def by (simp split: if_splits; presburger)
  then have "atom = 0x9e \<or> atom = 0xa3 \<or> atom = 0xf3"
    by (simp only: word_unat_eq_iff) simp
  then show ?thesis using assms
    by (elim disjE; simp add: read_operands_def operand_kinds_def)
qed

lemma select_const_type:
  assumes "operand_kinds v os as atom = Some [ULEB, Byte_Block]"
  shows "read_operands src v os as atom p off = const_type_operands src p off"
proof -
  have "unat atom = 0xa4 \<or> unat atom = 0xf4"
    using assms unfolding operand_kinds_def Let_def by (simp split: if_splits; presburger)
  then have "atom = 0xa4 \<or> atom = 0xf4"
    by (simp only: word_unat_eq_iff) simp
  then show ?thesis using assms
    by (elim disjE; simp add: read_operands_def operand_kinds_def)
qed

lemma select_byte_uleb:
  assumes "operand_kinds v os as atom = Some [Fixed n, ULEB]"
  shows "n = 1 \<and> read_operands src v os as atom p off = byte_uleb_operands src p off"
proof -
  have a: "unat atom = 0xa6 \<or> unat atom = 0xa7 \<or> unat atom = 0xf6"
    using assms unfolding operand_kinds_def Let_def by (simp split: if_splits; presburger)
  then have "atom = 0xa6 \<or> atom = 0xa7 \<or> atom = 0xf6" by (simp only: word_unat_eq_iff) simp
  then have "read_operands src v os as atom p off = byte_uleb_operands src p off"
    by (elim disjE; simp add: read_operands_def)
  moreover have "n = 1" using a assms by (elim disjE; simp add: operand_kinds_def)
  ultimately show ?thesis by simp
qed

lemma select_fixed_sleb:
  assumes "operand_kinds v os as atom = Some [Fixed n, SLEB]" "unat atom \<noteq> 0xe9"
  shows "read_operands src v os as atom p off = fixed_sleb_operands src n n p off \<and> n \<in> {unat os, unat as}"
proof -
  have "unat atom = 0xa0 \<or> unat atom = 0xf2"
    using assms unfolding operand_kinds_def Let_def by (simp split: if_splits; presburger)
  then have "atom = 0xa0 \<or> atom = 0xf2"
    by (simp only: word_unat_eq_iff) simp
  then show ?thesis using assms
    by (elim disjE; clarsimp simp: read_operands_def operand_kinds_def Let_def split: if_splits)
qed

lemma select_fixed:
  assumes "operand_kinds v os as atom = Some [Fixed n]" "unat atom \<noteq> 0xfd"
  shows "n = 1 \<and> read_operands src v os as atom p off = byte_operand src ucast p off \<or>
    read_operands src v os as atom p off = fixed_operand src n id p off \<and> n \<in> {2, 4, 8, unat os, unat as}"
proof -
  have "n = 1 \<and> (unat atom = 0x08 \<or> unat atom = 0x15 \<or> unat atom = 0x94 \<or> unat atom = 0x95) \<or>
     n = 2 \<and> (unat atom = 0x0a \<or> unat atom = 0x98) \<or> n = 4 \<and> (unat atom = 0x0c \<or> unat atom = 0x99 \<or> unat atom = 0xfa) \<or>
     n = 8 \<and> unat atom = 0x0e \<or> n = unat os \<and> unat atom = 0x9a \<or> n = unat as \<and> unat atom = 0x03"
    using assms unfolding operand_kinds_def Let_def by (simp split: if_splits; presburger)
  then have "n = 1 \<and> (atom = 0x08 \<or> atom = 0x15 \<or> atom = 0x94 \<or> atom = 0x95) \<or>
     n = 2 \<and> (atom = 0x0a \<or> atom = 0x98) \<or> n = 4 \<and> (atom = 0x0c \<or> atom = 0x99 \<or> atom = 0xfa) \<or>
     n = 8 \<and> atom = 0x0e \<or> n = unat os \<and> atom = 0x9a \<or> n = unat as \<and> atom = 0x03"
    by (simp only: word_unat_eq_iff) simp
  then show ?thesis by (elim disjE conjE) (simp_all add: read_operands_def)
qed

lemma select_signed:
  assumes "operand_kinds v os as atom = Some [Signed_Fixed n]"
  shows "n = 1 \<and> read_operands src v os as atom p off = byte_operand src (\<lambda>b. SIGN_EXTEND (scast b) 1) p off \<or>
    n \<in> {2, 4} \<and> read_operands src v os as atom p off = fixed_operand src n (\<lambda>v. SIGN_EXTEND v n) p off \<or>
    n = 8 \<and> read_operands src v os as atom p off = fixed_operand src n id p off"
proof -
  have "unat atom = 0x09 \<or> unat atom = 0x0b \<or> unat atom = 0x0d \<or> unat atom = 0x0f \<or> unat atom = 0x28 \<or>
     unat atom = 0x2f"
    using assms unfolding operand_kinds_def Let_def by (simp split: if_splits; presburger)
  then have "atom = 0x09 \<or> atom = 0x0b \<or> atom = 0x0d \<or> atom = 0x0f \<or> atom = 0x28 \<or> atom = 0x2f"
    by (simp only: word_unat_eq_iff) simp
  then show ?thesis using assms
    by (elim disjE; clarsimp simp: read_operands_def operand_kinds_def Let_def split: if_splits)
qed

lemma operand_kinds_cases:
  assumes "operand_kinds v os as atom = Some ks"
  shows "ks = [] \<or> ks = [ULEB] \<or> ks = [SLEB] \<or> ks = [ULEB, SLEB] \<or> ks = [ULEB, ULEB] \<or> ks = [Block] \<or> ks = [ULEB, Byte_Block] \<or>
    (\<exists>n. ks = [Fixed n, ULEB]) \<or> (\<exists>n. ks = [Fixed n, SLEB]) \<or> (\<exists>n. ks = [Fixed n]) \<or> (\<exists>n. ks = [Signed_Fixed n])"
  using assms unfolding operand_kinds_def Let_def by (simp split: if_splits; hypsubst; simp)

lemma SIGN_EXTEND_8: "SIGN_EXTEND w 8 = w"
  by (rule bit_word_eqI) (simp add: SIGN_EXTEND_def bit_simps)

lemma list_all2_fits [simp]:
  "list_all2 fits [] xs \<longleftrightarrow> xs = []"
  "list_all2 fits (k # ks) xs \<longleftrightarrow> (\<exists>y ys. xs = y # ys \<and> fits k y \<and> list_all2 fits ks ys)"
  by (auto simp: list_all2_Cons1)

lemma expected_operands:
  assumes "operand_kinds v os as atom = Some ks" "ks \<noteq> []"
  shows "expected_numbers base dbg p atom ks xs = operand_numbers base dbg p ks xs @ [0, 0, 0]"
proof -
  have "\<not> (0x30 \<le> unat atom \<and> unat atom \<le> 0x4f)"
    using assms unfolding operand_kinds_def Let_def by (auto split: if_splits)
  then show ?thesis by (auto simp: expected_numbers_def)
qed

lemma nat_mod_256_bound: "nat (i mod 256 ^ n) < 256 ^ n"
  by (simp add: nat_less_iff)

lemma word8_signed:
  assumes "- 128 \<le> i" "i < 128"
  shows "SIGN_EXTEND (scast (word_of_nat (nat (i mod 256)) :: u8)) 1 = word_of_int i"
proof -
  have "(word_of_nat (nat (i mod 256)) :: u8) = word_of_int (take_bit 8 i)" by (simp add: take_bit_eq_mod)
  then have w: "(word_of_nat (nat (i mod 256)) :: u8) = word_of_int i" by (simp add: word_of_int_eq_iff)
  have "sint (word_of_int i :: u8) = i" using assms by (simp add: signed_of_int signed_take_bit_int_eq_self)
  then have "(scast (word_of_int i :: u8) :: u64) = word_of_int i" by (simp add: scast_eq)
  then show ?thesis using SIGN_EXTEND_scast [of "word_of_int i"] by (simp add: w)
qed

lemma read_operands_encoded:
  assumes k: "operand_kinds v os as atom = Some ks" and fit: "list_all2 fits ks xs"
    and at: "holds_at buf p (encode_operands dbg ks xs)" "p + length (encode_operands dbg ks xs) \<le> e"
    and mem: "e \<le> length buf" "unat base + e < 2 ^ 64" and sizes: "unat os \<le> 8" "unat as \<le> 8"
    and counted: "unat atom \<noteq> 0xe9" "unat atom \<noteq> 0xfd"
  shows "read_operands (dbg, base, buf, e) v os as atom p off =
    DW_OK ((expected_numbers base dbg p atom ks xs ! 0, expected_numbers base dbg p atom ks xs ! 1,
            expected_numbers base dbg p atom ks xs ! 2),
           off + word_of_nat (length (encode_operands dbg ks xs)),
           address_of base (p + length (encode_operands dbg ks xs)))"
  using operand_kinds_cases [OF k]
proof (elim disjE exE)
  assume ks: "ks = []"
  show ?thesis using select_no_operand [OF k [unfolded ks]] fit
    by (simp add: ks no_operand_def expected_numbers_def)
next
  assume ks: "ks = [ULEB]"
  obtain n where x: "xs = [Unsigned n]" "n < 2 ^ 64" using fit by (auto simp: ks)
  show ?thesis using select_uleb [OF k [unfolded ks]] uleb_len_at [of buf p n e] at mem(1) x expected_operands [OF k]
    by (simp add: ks uleb_operand_def)
next
  assume ks: "ks = [SLEB]"
  obtain n where x: "xs = [Signed n]" "- (2 ^ 63) \<le> n" "n < 2 ^ 63" using fit by (auto simp: ks)
  show ?thesis using select_sleb [OF k [unfolded ks]] sleb_len_at [of buf p n e] at mem(1) x expected_operands [OF k]
    by (simp add: ks sleb_operand_def)
next
  assume ks: "ks = [ULEB, SLEB]"
  obtain n i where x: "xs = [Unsigned n, Signed i]" "n < 2 ^ 64" "- (2 ^ 63) \<le> i" "i < 2 ^ 63" using fit by (auto simp: ks)
  show ?thesis
    using select_uleb_sleb [OF k [unfolded ks]] uleb_len_at [of buf p n e] sleb_len_at [of buf "p + length (uleb_encode n)" i e]
      at mem(1) x expected_operands [OF k]
    by (simp add: ks uleb_sleb_operands_def add.assoc)
next
  assume ks: "ks = [ULEB, ULEB]"
  obtain n i where x: "xs = [Unsigned n, Unsigned i]" "n < 2 ^ 64" "i < 2 ^ 64" using fit by (auto simp: ks)
  show ?thesis
    using select_uleb_uleb [OF k [unfolded ks]] uleb_len_at [of buf p n e] uleb_len_at [of buf "p + length (uleb_encode n)" i e]
      at mem(1) x expected_operands [OF k]
    by (simp add: ks uleb_uleb_operands_def add.assoc)
next
  assume ks: "ks = [Block]"
  obtain bs where x: "xs = [Contents bs]" using fit by (auto simp: ks)
  show ?thesis
    using select_block [OF k [unfolded ks]] block_operand_at [of buf p bs e base dbg off] at mem x expected_operands [OF k]
    by (simp add: ks add.assoc)
next
  assume ks: "ks = [ULEB, Byte_Block]"
  obtain n bs where x: "xs = [Unsigned n, Contents bs]" "n < 2 ^ 64" "length bs < 256" using fit by (auto simp: ks)
  show ?thesis
    using select_const_type [OF k [unfolded ks]] const_type_operands_at [of buf p n bs e base dbg off] at mem x expected_operands [OF k]
    by (simp add: ks add.assoc)
next
  fix n assume ks: "ks = [Fixed n, ULEB]"
  then have s: "n = 1" "read_operands (dbg, base, buf, e) v os as atom p off = byte_uleb_operands (dbg, base, buf, e) p off"
    using select_byte_uleb k by blast+
  obtain b m where x: "xs = [Unsigned b, Unsigned m]" "b < 256" "m < 2 ^ 64" using fit by (auto simp: ks s(1))
  have "(ucast (word_of_nat b :: u8) :: u64) = word_of_nat b"
    using x(2) by (simp add: word_unat_eq_iff unsigned_of_nat unsigned_ucast_eq take_bit_nat_eq_self_iff take_bit_nat_eq_self)
  then show ?thesis using s(2) byte_uleb_operands_at [of buf p dbg b m e base off] at mem x expected_operands [OF k]
    by (simp add: ks s(1) add.assoc)
next
  fix n assume ks: "ks = [Fixed n, SLEB]"
  then have s: "n \<in> {unat os, unat as}" "read_operands (dbg, base, buf, e) v os as atom p off = fixed_sleb_operands (dbg, base, buf, e) n n p off"
    using select_fixed_sleb [of v os as atom n] k counted by blast+
  obtain b i where x: "xs = [Unsigned b, Signed i]" "b < 256 ^ n" "- (2 ^ 63) \<le> i" "i < 2 ^ 63" using fit by (auto simp: ks)
  show ?thesis
    using s sizes read_fixed_at [of buf p dbg n b e] sleb_len_at [of buf "p + n" i e] at mem(1) x expected_operands [OF k]
    by (auto simp add: ks fixed_sleb_operands_def add.assoc)
next
  fix n assume ks: "ks = [Fixed n]"
  obtain b where x: "xs = [Unsigned b]" "b < 256 ^ n" using fit by (auto simp: ks)
  from select_fixed [OF k [unfolded ks] counted(2), where src = "(dbg, base, buf, e)" and p = p and off = off] show ?thesis
  proof (elim disjE conjE)
    assume s: "n = 1" "read_operands (dbg, base, buf, e) v os as atom p off = byte_operand (dbg, base, buf, e) ucast p off"
    have "(ucast (word_of_nat b :: u8) :: u64) = word_of_nat b"
      using x(2) s(1) by (simp add: word_unat_eq_iff unsigned_of_nat unsigned_ucast_eq take_bit_nat_eq_self_iff take_bit_nat_eq_self)
    then show ?thesis using s(2) byte_operand_at [of buf p dbg b e base ucast off] at mem(1) x expected_operands [OF k]
      by (simp add: ks s(1))
  next
    assume s: "n \<in> {2, 4, 8, unat os, unat as}"
      "read_operands (dbg, base, buf, e) v os as atom p off = fixed_operand (dbg, base, buf, e) n id p off"
    then have "n \<le> 8" using sizes by auto
    then show ?thesis using s(2) fixed_operand_at [of buf p dbg n b e base id off] at mem(1) x expected_operands [OF k]
      by (simp add: ks)
  qed
next
  fix n assume ks: "ks = [Signed_Fixed n]"
  obtain i where x: "xs = [Signed i]" "- (2 ^ (8 * n - 1)) \<le> i" "i < 2 ^ (8 * n - 1)" using fit by (auto simp: ks)
  have b: "nat (i mod 256 ^ n) < 256 ^ n" by (rule nat_mod_256_bound)
  from select_signed [OF k [unfolded ks], where src = "(dbg, base, buf, e)" and p = p and off = off] show ?thesis
  proof (elim disjE conjE)
    assume s: "n = 1"
      "read_operands (dbg, base, buf, e) v os as atom p off = byte_operand (dbg, base, buf, e) (\<lambda>b. SIGN_EXTEND (scast b) 1) p off"
    show ?thesis using s(2) byte_operand_at [of buf p dbg "nat (i mod 256)" e base "\<lambda>b. SIGN_EXTEND (scast b) 1" off]
      at mem(1) x expected_operands [OF k] word8_signed [of i]
      by (simp add: ks s(1))
  next
    assume s: "n \<in> {2, 4}"
      "read_operands (dbg, base, buf, e) v os as atom p off = fixed_operand (dbg, base, buf, e) n (\<lambda>v. SIGN_EXTEND v n) p off"
    then have n: "0 < n" "n \<le> 8" by auto
    show ?thesis
      using s(2) fixed_operand_at [of buf p dbg n "nat (i mod 256 ^ n)" e base "\<lambda>v. SIGN_EXTEND v n" off] b n at mem(1) x
        expected_operands [OF k] SIGN_EXTEND_of_int [OF n x(2,3)]
      by (simp add: ks)
  next
    assume s: "n = 8" "read_operands (dbg, base, buf, e) v os as atom p off = fixed_operand (dbg, base, buf, e) n id p off"
    then have n: "0 < n" "n \<le> 8" by auto
    show ?thesis
      using s(2) fixed_operand_at [of buf p dbg n "nat (i mod 256 ^ n)" e base id off] b n at mem(1) x
        expected_operands [OF k] SIGN_EXTEND_of_int [OF n x(2,3)] SIGN_EXTEND_8
      by (simp add: ks s(1))
  qed
qed

section \<open>Reading encoded expressions\<close>

lemma length_encode_operation: "0 < length (encode_operation dbg v os as x)"
  by (cases x) (simp add: encode_operation_def)

lemma read_encoded_operation:
  assumes x: "well_formed v os as x" "unat (fst x) \<notin> {0xe9, 0xfd}"
    and at: "holds_at buf (block + off) (encode_operation dbg v os as x)" "off + length (encode_operation dbg v os as x) \<le> n"
    and mem: "block + n \<le> e" "e \<le> length buf" "unat base + e < 2 ^ 64" "n < 2 ^ 63" and sizes: "unat os \<le> 8" "unat as \<le> 8"
  shows "read_loc_expr_op (dbg, base, buf, e) (word_of_nat n) block (word_of_nat i) v os as (word_of_nat off) =
    DW_OK (word_of_nat (off + length (encode_operation dbg v os as x)), decoded_operation base dbg v os as block i off x)"
proof -
  obtain atom xs where a: "x = (atom, xs)" by fastforce
  obtain ks where k: "operand_kinds v os as atom = Some ks" "list_all2 fits ks xs"
    using x(1) by (auto simp: a well_formed_def split: option.splits)
  let ?L = "length (encode_operands dbg ks xs)"
  have L: "length (encode_operation dbg v os as x) = 1 + ?L" by (simp add: a encode_operation_def k)
  have h: "block + off < length buf" "buf ! (block + off) = atom" "holds_at buf (block + off + 1) (encode_operands dbg ks xs)"
    using at(1) by (simp_all add: a encode_operation_def k holds_at_Cons)
  have small: "off < 2 ^ 63" "off + 1 + ?L < 2 ^ 63" "off < n" "off + 1 + ?L \<le> n" using at(2) L mem(4) by simp_all
  have u: "unat (word_of_nat m :: u64) = m" if "m < 2 ^ 63" for m
    using that by (simp add: unsigned_of_nat take_bit_nat_eq_self_iff)
  have pos: "\<not> (word_of_nat off :: u64) <s 0"
    using sint_of_small_nat [OF small(1)] by (simp add: word_sless_alt)
  have next_off: "(word_of_nat off + 1 + word_of_nat ?L :: u64) = word_of_nat (off + 1 + ?L)" by simp
  note ops = read_operands_encoded [OF k h(3) _ mem(2,3) sizes, where off = "word_of_nat off + 1"]
  have "read_operands (dbg, base, buf, e) v os as atom (block + off + 1) (word_of_nat off + 1) =
    DW_OK ((expected_numbers base dbg (block + off + 1) atom ks xs ! 0, expected_numbers base dbg (block + off + 1) atom ks xs ! 1,
            expected_numbers base dbg (block + off + 1) atom ks xs ! 2),
           word_of_nat (off + 1 + ?L), address_of base (block + off + 1 + ?L))"
    using ops small mem x(2) by (simp add: a)
  moreover have "address_of base (block + off + 1 + ?L) \<le> address_of base e"
    using small(4) mem(1,3) by (intro address_of_le) simp_all
  moreover have "(word_of_nat off :: u64) < word_of_nat n" "(word_of_nat off :: u64) < word_of_nat (off + 1 + ?L)"
    "(word_of_nat (off + 1 + ?L) :: u64) \<le> word_of_nat n"
    using small mem(4) u by (simp_all add: word_less_nat_alt word_le_nat_alt del: of_nat_add of_nat_Suc)
  moreover have "(word_of_nat off :: u64) \<noteq> word_of_nat n"
    using small mem(4) u by (metis less_not_refl less_trans)
  ultimately show ?thesis using h small mem pos u [of off] L
    by (simp add: read_loc_expr_op_def Let_def decoded_operation_def a k leD del: of_nat_add of_nat_Suc)
qed

lemma read_encoded_operations:
  assumes xs: "\<forall>x \<in> set xs. well_formed v os as x \<and> unat (fst x) \<notin> {0xe9, 0xfd}"
    and at: "holds_at buf (block + off) (concat (map (encode_operation dbg v os as) xs))"
    and n: "off + length (concat (map (encode_operation dbg v os as) xs)) = n" and i: "i \<le> off"
    and mem: "block + n \<le> e" "e \<le> length buf" "unat base + e < 2 ^ 64" "n < 2 ^ 63" and sizes: "unat os \<le> 8" "unat as \<le> 8"
  shows "read_ops_loop (dbg, base, buf, e) (word_of_nat n) block v os as (word_of_nat i) (word_of_nat off) =
    DW_OK (decoded_operations base dbg v os as block i off xs)"
  using xs at n i
proof (induction xs arbitrary: i off)
  case Nil
  have "read_loc_expr_op (dbg, base, buf, e) (word_of_nat n) block (word_of_nat i) v os as (word_of_nat off) = DW_NO_ENTRY"
    using Nil.prems(3) by (simp add: read_loc_expr_op_def)
  then show ?case using Nil.prems(3) by (subst read_ops_loop.simps) simp
next
  case (Cons x xs)
  let ?L = "length (encode_operation dbg v os as x)"
  have h: "holds_at buf (block + off) (encode_operation dbg v os as x)"
    "holds_at buf (block + (off + ?L)) (concat (map (encode_operation dbg v os as) xs))"
    "off + ?L + length (concat (map (encode_operation dbg v os as) xs)) = n"
    using Cons.prems(2,3) by (simp_all add: add.assoc)
  have L: "0 < ?L" by (rule length_encode_operation)
  have op: "read_loc_expr_op (dbg, base, buf, e) (word_of_nat n) block (word_of_nat i) v os as (word_of_nat off) =
    DW_OK (word_of_nat (off + ?L), decoded_operation base dbg v os as block i off x)"
    using Cons.prems(1) h mem sizes by (intro read_encoded_operation) auto
  have u: "unat (word_of_nat m :: u64) = m" if "m < 2 ^ 63" for m
    using that by (simp add: unsigned_of_nat take_bit_nat_eq_self_iff)
  have "i + 1 < 2 ^ 63" "i + 1 \<le> n" "off < n" using h(3) L mem(4) Cons.prems(4) by linarith+
  then have le: "(word_of_nat off :: u64) \<le> word_of_nat n" "\<not> (word_of_nat n :: u64) < word_of_nat (i + 1)"
    using mem(4) u [of off] u [of n] u [of "i + 1"]
    by (simp_all add: word_le_nat_alt not_less del: of_nat_add of_nat_Suc)
  have rest: "read_ops_loop (dbg, base, buf, e) (word_of_nat n) block v os as (word_of_nat (i + 1)) (word_of_nat (off + ?L)) =
    DW_OK (decoded_operations base dbg v os as block (i + 1) (off + ?L) xs)"
  proof (rule Cons.IH)
    show "i + 1 \<le> off + ?L" using L Cons.prems(4) by linarith
  qed (use Cons.prems(1) h in simp_all)
  show ?case
    by (subst read_ops_loop.simps, insert op le rest) (simp add: add.commute)
qed

section \<open>Reading any bytes\<close>

text \<open>A result that is neither a memory fault nor one of the outcomes the loop gives a meaning of its own.\<close>

definition plain_result :: "'a dw \<Rightarrow> bool" where
  "plain_result m \<longleftrightarrow> m \<noteq> FAULT \<and> m \<noteq> DW_NO_ENTRY \<and> m \<noteq> DW_ERROR DW_DLE_LOCATION_ERROR"

lemma plain_result_simps [simp]:
  "plain_result (DW_OK x)" "\<not> plain_result FAULT" "\<not> plain_result DW_NO_ENTRY"
  "plain_result (DW_ERROR n) \<longleftrightarrow> n \<noteq> DW_DLE_LOCATION_ERROR"
  by (simp_all add: plain_result_def)

lemma plain_bind: "plain_result m \<Longrightarrow> (\<And>x. m = DW_OK x \<Longrightarrow> plain_result (f x)) \<Longrightarrow> plain_result (dw_bind m f)"
  by (cases m) auto

lemma plain_if: "(b \<Longrightarrow> plain_result m) \<Longrightarrow> (\<not> b \<Longrightarrow> plain_result n) \<Longrightarrow> plain_result (if b then m else n)"
  by simp

lemma plain_readers:
  assumes "e \<le> length buf"
  shows "plain_result (decode_leb128_uword_len_ck buf p e)" "plain_result (decode_leb128_sword_len_ck buf p e)"
    "n \<le> 8 \<Longrightarrow> plain_result (read_unaligned_ck dbg buf p n e)" "p < e \<Longrightarrow> plain_result (rd8 buf p)"
  using assms decode_leb128_no_fault [OF assms] decode_signed_leb128_no_fault [OF assms]
  by (auto simp: decode_leb128_uword_len_ck_def decode_leb128_sword_len_ck_def read_unaligned_ck_eq split: leb_result.splits)

lemma read_encoded_addr_plain:
  assumes "e \<le> length buf" "p < e"
  shows "plain_result (read_encoded_addr (dbg, base, buf, e) p as)"
  unfolding read_encoded_addr_def Let_def prod.case
  by (intro plain_bind plain_if) (use assms in \<open>auto simp: plain_readers\<close>)

lemma operands_plain:
  assumes "e \<le> length buf"
  shows "plain_result (no_operand (dbg, base, buf, e) x p off)"
    "n \<le> 8 \<Longrightarrow> plain_result (fixed_operand (dbg, base, buf, e) n f p off)"
    "plain_result (byte_operand (dbg, base, buf, e) g p off)"
    "plain_result (uleb_operand (dbg, base, buf, e) p off)"
    "plain_result (sleb_operand (dbg, base, buf, e) p off)"
    "plain_result (uleb_uleb_operands (dbg, base, buf, e) p off)"
    "plain_result (uleb_sleb_operands (dbg, base, buf, e) p off)"
    "plain_result (byte_uleb_operands (dbg, base, buf, e) p off)"
    "n \<le> 8 \<Longrightarrow> plain_result (fixed_sleb_operands (dbg, base, buf, e) n k p off)"
    "plain_result (block_operand (dbg, base, buf, e) p off)"
    "plain_result (const_type_operands (dbg, base, buf, e) p off)"
    "plain_result (encoded_addr_operand (dbg, base, buf, e) as p off)"
  using assms
  by (auto simp: no_operand_def fixed_operand_def byte_operand_def uleb_operand_def sleb_operand_def uleb_uleb_operands_def
      uleb_sleb_operands_def byte_uleb_operands_def fixed_sleb_operands_def block_operand_def const_type_operands_def
      encoded_addr_operand_def Let_def plain_readers read_encoded_addr_plain intro!: plain_bind)

lemma read_operands_plain:
  assumes "e \<le> length buf" "unat os \<le> 8" "unat as \<le> 8"
  shows "plain_result (read_operands (dbg, base, buf, e) v os as atom p off)"
  unfolding read_operands_def Let_def
  by (intro plain_if; (simp add: operands_plain assms; fail)?)
     (auto simp: operands_plain assms intro!: plain_bind)

text \<open>Operations that follow one another from an offset to the end of a block.\<close>

fun consecutive :: "bytes \<Rightarrow> ptr \<Rightarrow> u64 \<Rightarrow> nat \<Rightarrow> u64 \<Rightarrow> loc_expr_op list \<Rightarrow> bool" where
  "consecutive buf block n i off [] \<longleftrightarrow> off = n"
| "consecutive buf block n i off (op # ops) \<longleftrightarrow>
     lr_offset op = off \<and> lr_opnumber op = word_of_nat i \<and> off < n \<and> lr_atom op = buf ! (block + unat off) \<and>
     (\<exists>next. off < next \<and> consecutive buf block n (i + 1) next ops)"

lemma read_loc_expr_op_atom:
  "read_loc_expr_op (dbg, base, buf, e) len data n v os as start = DW_OK (nxt, op) \<Longrightarrow> lr_atom op = buf ! (data + unat start)"
  by (auto simp: read_loc_expr_op_def Let_def dw_simps rd8_eq_OK split: if_splits)

lemma read_ops_loop_any:
  assumes mem: "e \<le> length buf" and sizes: "unat os \<le> 8" "unat as \<le> 8"
    and "i \<le> unat off" "off \<le> n"
  shows "(read_ops_loop (dbg, base, buf, e) n block v os as (word_of_nat i) off \<noteq> FAULT \<and>
      read_ops_loop (dbg, base, buf, e) n block v os as (word_of_nat i) off \<noteq> DW_NO_ENTRY \<and>
      read_ops_loop (dbg, base, buf, e) n block v os as (word_of_nat i) off \<noteq> DW_ERROR DW_DLE_LOCATION_ERROR) \<and>
    (\<forall>ops. read_ops_loop (dbg, base, buf, e) n block v os as (word_of_nat i) off = DW_OK ops \<longrightarrow>
       consecutive buf block n i off ops)"
  using assms(4,5)
proof (induction "unat n - unat off" arbitrary: i off rule: less_induct)
  case less
  define r where "r = read_loc_expr_op (dbg, base, buf, e) n block (word_of_nat i) v os as off"
  show ?case
  proof (cases "off = n")
    case True
    then show ?thesis by (subst (1 2 3 4) read_ops_loop.simps) (simp add: read_loc_expr_op_def)
  next
    case False
    then have lt: "off < n" using less.prems by simp
    have plain: "plain_result r"
      unfolding r_def read_loc_expr_op_def prod.case Let_def case_prod_beta
      by (intro plain_if plain_bind) (use lt mem in \<open>auto intro!: plain_readers read_operands_plain sizes\<close>)
    show ?thesis
    proof (cases r)
      case (DW_OK z)
      obtain nxt op where z: "z = (nxt, op)" by fastforce
      have nxt: "off < nxt" "nxt \<le> n" "lr_offset op = off" "lr_opnumber op = word_of_nat i" "lr_atom op = buf ! (block + unat off)"
        using read_loc_expr_op_next [of "(dbg, base, buf, e)" n block "word_of_nat i" v os as off nxt op]
          read_loc_expr_op_atom [of dbg base buf e n block "word_of_nat i" v os as off nxt op] DW_OK
        by (auto simp: r_def z)
      have m: "unat n - unat nxt < unat n - unat off" "i + 1 \<le> unat nxt" "unat nxt \<le> unat n"
        using nxt(1,2) less.prems lt by (simp_all add: word_less_nat_alt word_le_nat_alt)
      have "unat (word_of_nat (i + 1) :: u64) = i + 1"
        using m(2) u64_bound [of nxt] by (simp add: unsigned_of_nat take_bit_nat_eq_self_iff del: u64_bound of_nat_add of_nat_Suc)
      then have c: "\<not> n < word_of_nat i + 1"
        using m(2,3) by (simp add: word_less_nat_alt add.commute)
      note IH = less.hyps [OF m(1) m(2) nxt(2)]
      have "read_ops_loop (dbg, base, buf, e) n block v os as (word_of_nat i) off =
        dw_bind (read_ops_loop (dbg, base, buf, e) n block v os as (word_of_nat (i + 1)) nxt) (\<lambda>ops. DW_OK (op # ops))"
        by (subst read_ops_loop.simps) (use DW_OK c lt less.prems(2) in \<open>simp add: r_def [symmetric] z add.commute\<close>)
      then show ?thesis using IH nxt lt
        by (cases "read_ops_loop (dbg, base, buf, e) n block v os as (word_of_nat (i + 1)) nxt")
           (auto simp del: of_nat_add of_nat_Suc)
    next
      case DW_NO_ENTRY
      then show ?thesis using plain by simp
    next
      case (DW_ERROR x)
      then show ?thesis using plain
        by (subst (1 2 3 4) read_ops_loop.simps) (use less.prems(2) in \<open>simp add: r_def\<close>)
    next
      case FAULT
      then show ?thesis using plain by simp
    qed
  qed
qed

section \<open>Properties\<close>

text \<open>
  C9: Reading a block that holds the encoding of any sequence of location operations, with operands of the kinds the standard lists and in
  any version, offset size, address size and byte order, yields exactly those operations, numbered, with their offsets and their operands;
  operands that are blocks are given by their length and address. The two operations whose first operand the code does not count are left out.
\<close>

theorem expression_decoded:
  assumes "\<forall>x \<in> set xs. well_formed v os as x \<and> unat (fst x) \<notin> {0xe9, 0xfd}"
    and "code = concat (map (encode_operation dbg v os as) xs)" "holds_at buf block code"
    and "block + length code \<le> e" "e \<le> length buf" "unat base + e < 2 ^ 64" "length code < 2 ^ 63" "unat os \<le> 8" "unat as \<le> 8"
  shows "read_ops_loop (dbg, base, buf, e) (word_of_nat (length code)) block v os as 0 0 =
    DW_OK (decoded_operations base dbg v os as block 0 0 xs)"
  using read_encoded_operations [of xs v os as buf block 0 dbg "length code" 0 e base] assms by simp

definition witness_expression :: "operation list" where
  "witness_expression = [(0x75, [Signed (- 8)]), (0x0b, [Signed (- 2)]), (0x9e, [Contents [1, 2, 3]]), (0x33, []),
     (0x9d, [Unsigned 200, Unsigned 4]), (0xa4, [Unsigned 7, Contents [9]])]"

definition witness_code :: bytes where
  "witness_code = [0x75, 0x78, 0x0b, 0xfe, 0xff, 0x9e, 3, 1, 2, 3, 0x33, 0x9d, 0xc8, 1, 4, 0xa4, 7, 1, 9]"

lemma le_bytes_2: "le_bytes 2 v = [word_of_nat v, word_of_nat (v div 256)]"
  by (simp add: numeral_2_eq_2)

lemma witness_code_encodes: "witness_code = concat (map (encode_operation debug_le64 5 4 8) witness_expression)"
  by (simp add: witness_code_def witness_expression_def encode_operation_def operand_kinds_def Let_def fixed_bytes_def debug_le64_def
      uleb_encode.simps sleb_encode.simps sleb_last_def le_bytes_2)

theorem expression_decoded_witness:
  "read_ops_loop (debug_le64, 0x1000, 0xff # witness_code, 20) 19 1 5 4 8 0 0 = DW_OK
     [\<lparr>lr_atom = 0x75, lr_number = - 8, lr_number2 = 0, lr_number3 = 0, lr_offset = 0, lr_opnumber = 0\<rparr>,
      \<lparr>lr_atom = 0x0b, lr_number = - 2, lr_number2 = 0, lr_number3 = 0, lr_offset = 2, lr_opnumber = 1\<rparr>,
      \<lparr>lr_atom = 0x9e, lr_number = 3, lr_number2 = 0x1008, lr_number3 = 0, lr_offset = 5, lr_opnumber = 2\<rparr>,
      \<lparr>lr_atom = 0x33, lr_number = 3, lr_number2 = 0, lr_number3 = 0, lr_offset = 10, lr_opnumber = 3\<rparr>,
      \<lparr>lr_atom = 0x9d, lr_number = 200, lr_number2 = 4, lr_number3 = 0, lr_offset = 11, lr_opnumber = 4\<rparr>,
      \<lparr>lr_atom = 0xa4, lr_number = 7, lr_number2 = 1, lr_number3 = 0x1013, lr_offset = 15, lr_opnumber = 5\<rparr>]"
proof -
  have "\<forall>x \<in> set witness_expression. well_formed 5 4 8 x \<and> unat (fst x) \<notin> {0xe9, 0xfd}"
    by (simp add: witness_expression_def well_formed_def operand_kinds_def Let_def)
  moreover have "holds_at (0xff # witness_code) 1 witness_code" by (simp add: holds_at_def)
  moreover have "length witness_code = 19" by (simp add: witness_code_def)
  ultimately have "read_ops_loop (debug_le64, 0x1000, 0xff # witness_code, 20) 19 1 5 4 8 0 0 =
      DW_OK (decoded_operations 0x1000 debug_le64 5 4 8 1 0 0 witness_expression)"
    using expression_decoded [OF _ witness_code_encodes, of "0xff # witness_code" 1 20 "0x1000"] by simp
  moreover have "decoded_operations 0x1000 debug_le64 5 4 8 1 0 0 witness_expression =
     [\<lparr>lr_atom = 0x75, lr_number = - 8, lr_number2 = 0, lr_number3 = 0, lr_offset = 0, lr_opnumber = 0\<rparr>,
      \<lparr>lr_atom = 0x0b, lr_number = - 2, lr_number2 = 0, lr_number3 = 0, lr_offset = 2, lr_opnumber = 1\<rparr>,
      \<lparr>lr_atom = 0x9e, lr_number = 3, lr_number2 = 0x1008, lr_number3 = 0, lr_offset = 5, lr_opnumber = 2\<rparr>,
      \<lparr>lr_atom = 0x33, lr_number = 3, lr_number2 = 0, lr_number3 = 0, lr_offset = 10, lr_opnumber = 3\<rparr>,
      \<lparr>lr_atom = 0x9d, lr_number = 200, lr_number2 = 4, lr_number3 = 0, lr_offset = 11, lr_opnumber = 4\<rparr>,
      \<lparr>lr_atom = 0xa4, lr_number = 7, lr_number2 = 1, lr_number3 = 0x1013, lr_offset = 15, lr_opnumber = 5\<rparr>]"
    by (simp add: witness_expression_def decoded_operation_def expected_numbers_def operand_kinds_def encode_operation_def address_of_def
        fixed_bytes_def debug_le64_def uleb_encode.simps sleb_encode.simps sleb_last_def Let_def)
  ultimately show ?thesis by simp
qed

text \<open>
  C19: Reading the operations of any block in any section is safe: nothing outside the section is read, and the result is an error or the list
  of the operations that follow one another from the start of the block to its very end, each at its offset and numbered. The error that there
  are more operations than bytes is never the outcome.
\<close>

theorem expression_read_safe:
  assumes "e \<le> length buf" "unat os \<le> 8" "unat as \<le> 8"
  shows "read_ops_loop (dbg, base, buf, e) n block v os as 0 0 \<noteq> FAULT \<and>
    read_ops_loop (dbg, base, buf, e) n block v os as 0 0 \<noteq> DW_NO_ENTRY \<and>
    read_ops_loop (dbg, base, buf, e) n block v os as 0 0 \<noteq> DW_ERROR DW_DLE_LOCATION_ERROR \<and>
    (\<forall>ops. read_ops_loop (dbg, base, buf, e) n block v os as 0 0 = DW_OK ops \<longrightarrow> consecutive buf block n 0 0 ops)"
  using read_ops_loop_any [OF assms, of 0 0 n dbg base block v] by simp

theorem expression_read_safe_witness:
  "read_ops_loop (debug_le64, 0x1000, [0x10, 0x80], 2) 2 0 5 4 8 0 0 \<noteq> FAULT"
  using expression_read_safe [of 2 "[0x10, 0x80]" 4 8 debug_le64 "0x1000" 2 0 5] by simp

end
