(* ===== verification/LocLists.thy ===== *)
theory LocLists
  imports LocExpr
begin

text \<open>
  Location lists and the descriptions made of them (\<open>dwarf_loc.c\<close>, \<open>dwarf_loclists.c\<close>): reading the entries of a list of \<open>.debug_loc\<close> in its standard
  and its GNU form and of \<open>.debug_loclists\<close>, the operations of each entry, and the addresses that follow from the entries before it.
  A list starts at an offset that is known; the lookup of an index in \<open>.debug_addr\<close> is an argument.
\<close>

abbreviation (input) DW_LKIND_expression :: u16 where "DW_LKIND_expression \<equiv> 0"
abbreviation (input) DW_LKIND_loclist :: u16 where "DW_LKIND_loclist \<equiv> 1"
abbreviation (input) DW_LKIND_GNU_exp_list :: u16 where "DW_LKIND_GNU_exp_list \<equiv> 2"
abbreviation (input) DW_LKIND_loclists :: u16 where "DW_LKIND_loclists \<equiv> 5"
abbreviation (input) DW_LKIND_unknown :: u16 where "DW_LKIND_unknown \<equiv> 99"
abbreviation (input) DW_LLEX_end_of_list_entry :: u8 where "DW_LLEX_end_of_list_entry \<equiv> 0"
abbreviation (input) DW_LLEX_base_address_selection_entry :: u8 where "DW_LLEX_base_address_selection_entry \<equiv> 1"
abbreviation (input) DW_LLEX_start_end_entry :: u8 where "DW_LLEX_start_end_entry \<equiv> 2"
abbreviation (input) DW_LLEX_start_length_entry :: u8 where "DW_LLEX_start_length_entry \<equiv> 3"
abbreviation (input) DW_LLEX_offset_pair_entry :: u8 where "DW_LLEX_offset_pair_entry \<equiv> 4"
abbreviation (input) DW_LLE_end_of_list :: u8 where "DW_LLE_end_of_list \<equiv> 0"
abbreviation (input) DW_LLE_base_addressx :: u8 where "DW_LLE_base_addressx \<equiv> 1"
abbreviation (input) DW_LLE_startx_endx :: u8 where "DW_LLE_startx_endx \<equiv> 2"
abbreviation (input) DW_LLE_startx_length :: u8 where "DW_LLE_startx_length \<equiv> 3"
abbreviation (input) DW_LLE_offset_pair :: u8 where "DW_LLE_offset_pair \<equiv> 4"
abbreviation (input) DW_LLE_default_location :: u8 where "DW_LLE_default_location \<equiv> 5"
abbreviation (input) DW_LLE_base_address :: u8 where "DW_LLE_base_address \<equiv> 6"
abbreviation (input) DW_LLE_start_end :: u8 where "DW_LLE_start_end \<equiv> 7"
abbreviation (input) DW_LLE_start_length :: u8 where "DW_LLE_start_length \<equiv> 8"
abbreviation (input) DW_LLE_VALUE_BOGUS :: u8 where "DW_LLE_VALUE_BOGUS \<equiv> 254"
abbreviation (input) DW_DLE_DEBUG_LOC_SECTION_SHORT :: dle where "DW_DLE_DEBUG_LOC_SECTION_SHORT \<equiv> 194"
abbreviation (input) DW_DLE_LLE_CODE_UNKNOWN :: dle where "DW_DLE_LLE_CODE_UNKNOWN \<equiv> 310"
abbreviation (input) DW_DLE_POINTER_SECTION_UNKNOWN :: dle where "DW_DLE_POINTER_SECTION_UNKNOWN \<equiv> 344"
abbreviation (input) DW_DLE_LOCLISTS_ERROR :: dle where "DW_DLE_LOCLISTS_ERROR \<equiv> 469"
abbreviation (input) DW_DLE_LOCLIST_INDEX_ERROR :: dle where "DW_DLE_LOCLIST_INDEX_ERROR \<equiv> 312"

section \<open>Data\<close>

text \<open>\<open>Dwarf_Block_c\<close>, with the pointer to the data as an offset into the section, and \<open>struct Dwarf_Locdesc_c_s\<close>.\<close>

record block_c =
  bl_len :: u64
  bl_data :: "ptr option"
  bl_kind :: u16
  bl_section_offset :: u64
  bl_locdesc_offset :: u64

record locdesc =
  ld_lkind :: u16
  ld_lle_value :: u8
  ld_index_failed :: bool
  ld_lle_bytecount :: u64
  ld_rawlow :: u64
  ld_lopc :: u64
  ld_rawhigh :: u64
  ld_highpc :: u64
  ld_entrylen :: u64
  ld_opsblock :: block_c
  ld_cents :: u64
  ld_s :: "loc_expr_op list"
  ld_section_offset :: u64
  ld_locdesc_offset :: u64

definition no_block :: block_c where
  "no_block = \<lparr>bl_len = 0, bl_data = None, bl_kind = 0, bl_section_offset = 0, bl_locdesc_offset = 0\<rparr>"

definition locdesc_c_constructor :: locdesc where
  "locdesc_c_constructor = \<lparr>ld_lkind = DW_LKIND_unknown, ld_lle_value = DW_LLE_VALUE_BOGUS, ld_index_failed = False, ld_lle_bytecount = 0,
     ld_rawlow = 0, ld_lopc = 0, ld_rawhigh = 0, ld_highpc = 0, ld_entrylen = 0, ld_opsblock = no_block, ld_cents = 0, ld_s = [],
     ld_section_offset = 0, ld_locdesc_offset = 0\<rparr>"

definition determine_location_lkind :: "u16 \<Rightarrow> u16 \<Rightarrow> bool \<Rightarrow> u16" where
  "determine_location_lkind version form is_dwo =
     (if ucast form \<in> {DW_FORM_exprloc, DW_FORM_block, DW_FORM_block1, DW_FORM_block2, DW_FORM_block4} then DW_LKIND_expression
      else if ucast form \<in> {DW_FORM_data4, DW_FORM_data8} then
        if version > 1 \<and> version < 4 then DW_LKIND_loclist else DW_LKIND_unknown
      else if ucast form = DW_FORM_sec_offset then
        if version = 5 then DW_LKIND_loclists
        else if version = 4 \<and> is_dwo then DW_LKIND_GNU_exp_list
        else DW_LKIND_loclist
      else if ucast form = DW_FORM_loclistx then
        if version = 5 then DW_LKIND_loclists else DW_LKIND_unknown
      else DW_LKIND_unknown)"

definition MAX_ADDR :: "u16 \<Rightarrow> u64" where
  "MAX_ADDR address_size = (if address_size = 8 then 0xffffffffffffffff else 0xffffffff)"

section \<open>The operations of an entry\<close>

definition loc_block_sanity_check :: "bytes \<Rightarrow> block_c \<Rightarrow> unit dw" where
  "loc_block_sanity_check buf loc_block =
     (if bl_kind loc_block = DW_LKIND_loclist \<or> bl_kind loc_block = DW_LKIND_loclists then
        case bl_data loc_block of
          None \<Rightarrow> DW_OK ()
        | Some loc_ptr \<Rightarrow>
            if loc_ptr + unat (bl_len loc_block) > length buf then DW_ERROR DW_DLE_DEBUG_LOC_SECTION_SHORT else DW_OK ()
      else DW_OK ())"

definition validate_lle_value :: "locdesc \<Rightarrow> unit dw" where
  "validate_lle_value ld =
     (if ld_lkind ld \<noteq> DW_LKIND_GNU_exp_list then
        if ld_lle_value ld \<in> {DW_LLE_end_of_list, DW_LLE_base_addressx, DW_LLE_startx_endx, DW_LLE_startx_length, DW_LLE_offset_pair,
             DW_LLE_default_location, DW_LLE_base_address, DW_LLE_start_end, DW_LLE_start_length}
        then DW_OK () else DW_ERROR DW_DLE_LOCATION_ERROR
      else
        if ld_lle_value ld \<in> {DW_LLEX_end_of_list_entry, DW_LLEX_base_address_selection_entry, DW_LLEX_start_end_entry,
             DW_LLEX_start_length_entry, DW_LLEX_offset_pair_entry}
        then DW_OK () else DW_ERROR DW_DLE_LOCATION_ERROR)"

text \<open>The code of an entry in the old kinds of lists, where the section holds none.\<close>

definition synthesized_lle_value :: "u16 \<Rightarrow> u16 \<Rightarrow> u64 \<Rightarrow> u64 \<Rightarrow> u16 \<Rightarrow> u8 \<Rightarrow> u8 dw" where
  "synthesized_lle_value lkind address_size lowpc highpc lle_op current =
     (if lkind = DW_LKIND_loclist then
        DW_OK (if highpc = 0 \<and> lowpc = 0 then DW_LLE_end_of_list
               else if lowpc = MAX_ADDR address_size then DW_LLE_base_address
               else DW_LLE_offset_pair)
      else if lkind = DW_LKIND_GNU_exp_list then DW_OK (ucast lle_op)
      else if lkind = DW_LKIND_expression then DW_OK DW_LLE_start_end
      else if lkind = DW_LKIND_loclists then DW_OK current
      else DW_ERROR DW_DLE_LOCATION_ERROR)"

text \<open>
  The section of a block that is not empty is the one its data lies in; for an empty block there is none, and none is looked at. The result
  is the place of the data with the end of the section.
\<close>

definition block_section :: "bytes \<Rightarrow> block_c \<Rightarrow> (ptr \<times> ptr) dw" where
  "block_section buf loc_block =
     (case bl_data loc_block of
        None \<Rightarrow> DW_OK (0, 0)
      | Some blockdataptr \<Rightarrow>
          if bl_len loc_block = 0 then DW_OK (blockdataptr, 0)
          else if blockdataptr \<ge> length buf then DW_ERROR DW_DLE_POINTER_SECTION_UNKNOWN
          else dw_bind (loc_block_sanity_check buf loc_block) (\<lambda>_. DW_OK (blockdataptr, length buf)))"

text \<open>\<open>_dwarf_fill_in_locdesc_op_c\<close> on the description at its index.\<close>

definition fill_in_locdesc_op_c ::
  "dwarf_debug \<Rightarrow> u64 \<Rightarrow> bytes \<Rightarrow> u16 \<Rightarrow> block_c \<Rightarrow> u16 \<Rightarrow> u16 \<Rightarrow> u16 \<Rightarrow> u64 \<Rightarrow> u64 \<Rightarrow> u16 \<Rightarrow> locdesc \<Rightarrow> locdesc dw"
where
  "fill_in_locdesc_op_c dbg base buf lkind loc_block address_size offset_size version_stamp lowpc highpc lle_op ld =
     dw_bind (block_section buf loc_block) (\<lambda>(blockdataptr, section_end).
     dw_bind (read_ops_loop (dbg, base, buf, section_end) (bl_len loc_block) blockdataptr version_stamp offset_size address_size 0 0)
       (\<lambda>block_loc.
     dw_bind (synthesized_lle_value lkind address_size lowpc highpc lle_op (ld_lle_value ld)) (\<lambda>lle_value.
       let ld = ld\<lparr>ld_lle_value := lle_value, ld_cents := word_of_nat (length block_loc), ld_s := block_loc, ld_lkind := lkind,
                   ld_section_offset := bl_section_offset loc_block, ld_locdesc_offset := bl_locdesc_offset loc_block,
                   ld_rawlow := lowpc, ld_rawhigh := highpc\<rparr>
       in dw_bind (validate_lle_value ld) (\<lambda>_. DW_OK (ld\<lparr>ld_index_failed := False\<rparr>)))))"

section \<open>Lists of the section .debug_loc\<close>

text \<open>\<open>_dwarf_read_loc_section\<close>: the block, the two addresses and the code of the entry at an offset.\<close>

definition read_loc_section :: "dwarf_debug \<Rightarrow> bytes \<Rightarrow> u64 \<Rightarrow> u16 \<Rightarrow> (block_c \<times> u64 \<times> u64 \<times> u16) dw" where
  "read_loc_section dbg buf sec_offset address_size =
     (let beg = unat sec_offset; n = unat address_size; exprblock_off = 2 * n + 2 in
      if sec_offset \<ge> word_of_nat (length buf) then DW_NO_ENTRY
      else if exprblock_off > length buf then DW_ERROR DW_DLE_DEBUG_LOC_SECTION_SHORT
      else
        dw_bind (read_unaligned_ck dbg buf beg n (length buf)) (\<lambda>start_addr.
        dw_bind (read_unaligned_ck dbg buf (beg + n) n (length buf)) (\<lambda>end_addr.
        let result = (\<lambda>exprblock_size exprblock_off lle_val.
              DW_OK (\<lparr>bl_len = exprblock_size, bl_data = Some (beg + exprblock_off), bl_kind = DW_LKIND_loclist,
                      bl_section_offset = word_of_nat (beg + exprblock_off), bl_locdesc_offset = 0\<rparr>,
                     start_addr, end_addr, ucast lle_val))
        in if start_addr = 0 \<and> end_addr = 0 then result 0 (exprblock_off - 2) DW_LLE_end_of_list
           else if start_addr = MAX_ADDR address_size then result 0 (exprblock_off - 2) DW_LLE_base_address
           else
             dw_bind (read_unaligned_ck dbg buf (beg + 2 * n) 2 (length buf)) (\<lambda>exprblock_size.
               if exprblock_size \<ge> word_of_nat (length buf) then DW_ERROR DW_DLE_DEBUG_LOC_SECTION_SHORT
               else if beg + exprblock_off + unat exprblock_size > length buf then DW_ERROR DW_DLE_DEBUG_LOC_SECTION_SHORT
               else result exprblock_size exprblock_off DW_LLE_start_end))))"

lemma read_unaligned_0:
  "read_unaligned_ck dbg buf p 0 (length buf) = (if p \<le> length buf then DW_OK 0 else DW_ERROR DW_DLE_READ_LITTLEENDIAN_ERROR)"
  by (simp add: read_unaligned_ck_eq number_of_bytes_def split: copy_word.splits)

text \<open>The block of an entry lies behind the entry, and inside the section.\<close>

lemma read_loc_section_OK:
  assumes r: "read_loc_section dbg buf off as = DW_OK (b, lowpc, hipc, v)"
  shows "\<exists>k. bl_data b = Some k \<and> bl_section_offset b = word_of_nat k \<and> k + unat (bl_len b) \<le> length buf \<and>
    (lowpc = 0 \<and> hipc = 0 \<or> unat off < k)"
proof (cases "as = 0")
  case True
  then show ?thesis using r
    by (auto simp: read_loc_section_def Let_def read_unaligned_0 split: if_splits)
next
  case False
  then have "0 < unat as" by (simp add: unat_gt_0)
  then show ?thesis using r
    by (auto simp: read_loc_section_def Let_def dw_simps dest!: read_unaligned_ck_OK split: if_splits)
qed

lemma read_loc_section_next:
  assumes "read_loc_section dbg buf off as = DW_OK (b, lowpc, hipc, v)" "\<not> (lowpc = 0 \<and> hipc = 0)" "length buf < 2 ^ 64"
  shows "off < bl_len b + bl_section_offset b"
proof -
  obtain k where k: "bl_section_offset b = word_of_nat k" "k + unat (bl_len b) \<le> length buf" "unat off < k"
    using read_loc_section_OK [OF assms(1)] assms(2) by blast
  then show ?thesis using assms(3)
    by (simp add: word_less_nat_alt unat_word_ariths unsigned_of_nat take_bit_eq_mod)
qed

text \<open>
  \<open>_dwarf_get_loclist_lle_count\<close>: the number of entries before the end of the list. The offset always moves forward, as was
  just shown; the test for it makes the definition total.
\<close>

function loclist_lle_count :: "dwarf_debug \<Rightarrow> bytes \<Rightarrow> u64 \<Rightarrow> u16 \<Rightarrow> nat dw" where
  "loclist_lle_count dbg buf offset address_size =
     dw_bind (read_loc_section dbg buf offset address_size) (\<lambda>(b, lowpc, highpc, _).
       let next = bl_len b + bl_section_offset b in
       if lowpc = 0 \<and> highpc = 0 then DW_OK 0
       else if next > offset then dw_bind (loclist_lle_count dbg buf next address_size) (\<lambda>n. DW_OK (n + 1))
       else FAULT)"
  by pat_completeness auto
termination
  by (relation "measure (\<lambda>(dbg, buf, offset, as). 2 ^ 64 - unat offset)") (auto simp: word_less_nat_alt intro: diff_less_mono2)

declare loclist_lle_count.simps [simp del]

section \<open>The GNU lists of split objects\<close>

text \<open>
  \<open>_dwarf_read_loc_section_dwo\<close>. The offset behind the entry for a base address does not count the index that follows its code.
\<close>

definition read_loc_section_dwo ::
  "dwarf_debug \<Rightarrow> bytes \<Rightarrow> u64 \<Rightarrow> u16 \<Rightarrow> u16 \<Rightarrow> (block_c \<times> u64 \<times> u64 \<times> bool \<times> u16) dw"
where
  "read_loc_section_dwo dbg buf sec_offset address_size lkind =
     (let section_end = length buf; beg = unat sec_offset;
          return_block = no_block\<lparr>bl_kind := lkind, bl_locdesc_offset := sec_offset\<rparr>;
          counted = (\<lambda>locptr lowpc highpc llecode.
            dw_bind (read_unaligned_ck dbg buf locptr 2 section_end) (\<lambda>exprlen.
              let expr_offset = word_of_nat (locptr + 2) in
              if expr_offset + exprlen > word_of_nat (length buf) then DW_ERROR DW_DLE_DEBUG_LOC_SECTION_SHORT
              else DW_OK (return_block\<lparr>bl_len := exprlen, bl_data := Some (locptr + 2), bl_section_offset := expr_offset\<rparr>,
                          lowpc, highpc, False, llecode)))
      in if sec_offset \<ge> word_of_nat (length buf) then DW_NO_ENTRY
         else
           dw_bind (rd8 buf beg) (\<lambda>llecode.
             let locptr = beg + 1 in
             if llecode = DW_LLEX_end_of_list_entry then
               DW_OK (return_block\<lparr>bl_section_offset := sec_offset + 1\<rparr>, 0, 0, True, ucast llecode)
             else if llecode = DW_LLEX_base_address_selection_entry then
               dw_bind (leb128_uword_wrapper buf locptr section_end) (\<lambda>(addr_index, _).
                 DW_OK (return_block\<lparr>bl_section_offset := sec_offset + 1\<rparr>, MAX_ADDR address_size, addr_index, False, ucast llecode))
             else if llecode = DW_LLEX_start_end_entry then
               dw_bind (leb128_uword_wrapper buf locptr section_end) (\<lambda>(addr_indexs, locptr).
               dw_bind (leb128_uword_wrapper buf locptr section_end) (\<lambda>(addr_indexe, locptr).
                 counted locptr addr_indexs addr_indexe (ucast llecode)))
             else if llecode = DW_LLEX_start_length_entry then
               dw_bind (leb128_uword_wrapper buf locptr section_end) (\<lambda>(addr_index, locptr).
               dw_bind (read_unaligned_ck dbg buf locptr 4 section_end) (\<lambda>range_length.
                 counted (locptr + 4) addr_index range_length (ucast llecode)))
             else if llecode = DW_LLEX_offset_pair_entry then
               dw_bind (read_unaligned_ck dbg buf locptr 4 section_end) (\<lambda>startoffset.
               dw_bind (read_unaligned_ck dbg buf (locptr + 4) 4 section_end) (\<lambda>endoffset.
                 counted (locptr + 8) startoffset endoffset (ucast llecode)))
             else DW_ERROR DW_DLE_LLE_CODE_UNKNOWN))"

lemma read_loc_section_dwo_next:
  assumes "read_loc_section_dwo dbg buf off as k = DW_OK (b, lowpc, hipc, at_end, v)" "length buf < 2 ^ 63"
  shows "off < bl_len b + bl_section_offset b"
proof -
  have "take_bit 64 (length buf) = length buf" using assms(2) by (simp add: take_bit_nat_eq_self_iff)
  then have off: "unat off < length buf" using assms(1)
    by (simp add: read_loc_section_dwo_def Let_def word_le_nat_alt unsigned_of_nat split: if_splits)
  have one: "off < off + 1" using off assms(2) by (simp add: word_less_nat_alt unat_word_ariths)
  have expr: "unat off < unat (n + w)"
    if "read_unaligned_ck dbg buf q 2 (length buf) = DW_OK n" "unat off < q" "w = word_of_nat (q + 2)" for q n w
  proof -
    have "q + 2 \<le> length buf" "unat n < 256 ^ 2"
      using read_unaligned_ck_OK [OF that(1)] unat_read_unaligned_ck(2) [OF _ _ that(1)] by simp_all
    then show ?thesis using that(2,3) assms(2)
      by (simp add: unat_word_ariths unsigned_of_nat take_bit_eq_mod)
  qed
  show ?thesis using assms(1) one
    by (auto simp: read_loc_section_dwo_def Let_def no_block_def dw_simps word_less_nat_alt dest!: uword.read_advances split: if_splits)
       (erule expr; simp)+
qed

function loclist_lle_count_dwo :: "dwarf_debug \<Rightarrow> bytes \<Rightarrow> u64 \<Rightarrow> u16 \<Rightarrow> u16 \<Rightarrow> nat dw" where
  "loclist_lle_count_dwo dbg buf offset address_size lkind =
     dw_bind (read_loc_section_dwo dbg buf offset address_size lkind) (\<lambda>(b, _, _, at_end, _).
       let next = bl_len b + bl_section_offset b in
       if at_end then DW_OK 1
       else if next > offset then dw_bind (loclist_lle_count_dwo dbg buf next address_size lkind) (\<lambda>n. DW_OK (n + 1))
       else FAULT)"
  by pat_completeness auto
termination
  by (relation "measure (\<lambda>(dbg, buf, offset, as, k). 2 ^ 64 - unat offset)") (auto simp: word_less_nat_alt intro: diff_less_mono2)

declare loclist_lle_count_dwo.simps [simp del]

section \<open>Building the descriptions\<close>

record loc_head =
  ll_locdesc :: "locdesc list"
  ll_lkind :: u16
  ll_cuversion :: u16
  ll_address_size :: u16
  ll_offset_size :: u16
  ll_cu_base_address_present :: bool
  ll_cu_base_address :: u64
  ll_llearea_offset :: u64
  ll_end_data_area :: ptr
  ll_bytes_total :: u64

text \<open>
  The loop of \<open>_dwarf_original_loclist_build\<close>: as many entries as were counted, the offset behind them, and the descriptions.
\<close>

fun original_loclist_loop ::
  "dwarf_debug \<Rightarrow> u64 \<Rightarrow> bytes \<Rightarrow> loc_head \<Rightarrow> nat \<Rightarrow> u64 \<Rightarrow> (u64 \<times> locdesc list) dw"
where
  "original_loclist_loop dbg base buf llhead 0 loclist_offset = DW_OK (loclist_offset, [])"
| "original_loclist_loop dbg base buf llhead (Suc n) loclist_offset =
     dw_bind
       (if ll_lkind llhead = DW_LKIND_GNU_exp_list then
          dw_bind (read_loc_section_dwo dbg buf loclist_offset (ll_address_size llhead) (ll_lkind llhead))
            (\<lambda>(b, lo, hi, _, op). DW_OK (b, lo, hi, op))
        else read_loc_section dbg buf loclist_offset (ll_address_size llhead))
       (\<lambda>(loc_block, rawlowpc, rawhighpc, lle_op).
     dw_bind (fill_in_locdesc_op_c dbg base buf (ll_lkind llhead) loc_block (ll_address_size llhead) (ll_offset_size llhead)
         (ll_cuversion llhead) rawlowpc rawhighpc lle_op locdesc_c_constructor) (\<lambda>ld.
     dw_bind (original_loclist_loop dbg base buf llhead n (bl_section_offset loc_block + bl_len loc_block)) (\<lambda>(off, lds).
       DW_OK (off, ld # lds))))"

text \<open>\<open>_dwarf_original_loclist_build\<close> from the offset of the list on.\<close>

definition original_loclist_build :: "dwarf_debug \<Rightarrow> u64 \<Rightarrow> bytes \<Rightarrow> loc_head \<Rightarrow> u64 \<Rightarrow> loc_head dw" where
  "original_loclist_build dbg base buf llhead loclist_offset =
     dw_bind
       (if ll_lkind llhead = DW_LKIND_GNU_exp_list
        then loclist_lle_count_dwo dbg buf loclist_offset (ll_address_size llhead) (ll_lkind llhead)
        else loclist_lle_count dbg buf loclist_offset (ll_address_size llhead))
       (\<lambda>loclist_count.
          if loclist_count = 0 then DW_NO_ENTRY
          else
            dw_bind (original_loclist_loop dbg base buf llhead loclist_count loclist_offset) (\<lambda>(end_offset, lds).
              DW_OK (llhead\<lparr>ll_locdesc := lds, ll_llearea_offset := loclist_offset, ll_bytes_total := end_offset - loclist_offset\<rparr>)))"

section \<open>Lists of the section .debug_loclists\<close>

text \<open>\<open>counted_loc_descr\<close>: the size of the counted expression with its count, the length of the expression, its place, and its offset.\<close>

definition counted_loc_descr :: "bytes \<Rightarrow> ptr \<Rightarrow> ptr \<Rightarrow> u64 \<Rightarrow> (nat \<times> u64 \<times> ptr \<times> u64) dw" where
  "counted_loc_descr buf data enddata offset =
     dw_bind (decode_leb128_uword_len_ck buf data enddata) (\<lambda>((ops_len, leblen), data).
       if ops_len > word_of_nat (enddata - data) then DW_ERROR DW_DLE_LOCLISTS_ERROR
       else DW_OK (unat ops_len + leblen, ops_len, data, offset + word_of_nat leblen))"

text \<open>The operands of an entry before its counted expression, and whether there is one.\<close>

definition lle_operands :: "dwarf_debug \<Rightarrow> bytes \<Rightarrow> ptr \<Rightarrow> ptr \<Rightarrow> u16 \<Rightarrow> u8 \<Rightarrow> (u64 \<times> u64 \<times> ptr \<times> bool) dw" where
  "lle_operands dbg buf data enddata address_size code =
     (let n = unat address_size in
      if code = DW_LLE_end_of_list then DW_OK (0, 0, data, False)
      else if code = DW_LLE_base_addressx then
        dw_bind (leb128_uword_wrapper buf data enddata) (\<lambda>(val1, data). DW_OK (val1, 0, data, False))
      else if code = DW_LLE_startx_endx \<or> code = DW_LLE_startx_length \<or> code = DW_LLE_offset_pair then
        dw_bind (leb128_uword_wrapper buf data enddata) (\<lambda>(val1, data).
        dw_bind (leb128_uword_wrapper buf data enddata) (\<lambda>(val2, data). DW_OK (val1, val2, data, True)))
      else if code = DW_LLE_default_location then DW_OK (0, 0, data, True)
      else if code = DW_LLE_base_address then
        dw_bind (read_unaligned_ck dbg buf data n enddata) (\<lambda>val1. DW_OK (val1, 0, data + n, False))
      else if code = DW_LLE_start_end then
        dw_bind (read_unaligned_ck dbg buf data n enddata) (\<lambda>val1.
        dw_bind (read_unaligned_ck dbg buf (data + n) n enddata) (\<lambda>val2. DW_OK (val1, val2, data + 2 * n, True)))
      else if code = DW_LLE_start_length then
        dw_bind (read_unaligned_ck dbg buf data n enddata) (\<lambda>val1.
        dw_bind (leb128_uword_wrapper buf (data + n) enddata) (\<lambda>(val2, data). DW_OK (val1, val2, data, True)))
      else DW_ERROR DW_DLE_LOCLISTS_ERROR)"

text \<open>
  \<open>read_single_lle_entry\<close>: the number of bytes, the code, two operands, the length of the expression, its offset, and its place. The offset is made
  from that of the list, not of the entry. The number of bytes is returned in 32 bits.
\<close>

definition read_single_lle_entry ::
  "dwarf_debug \<Rightarrow> bytes \<Rightarrow> ptr \<Rightarrow> u64 \<Rightarrow> ptr \<Rightarrow> u16 \<Rightarrow> (u32 \<times> u8 \<times> u64 \<times> u64 \<times> u64 \<times> u64 \<times> ptr option) dw"
where
  "read_single_lle_entry dbg buf startdata dataoffset enddata address_size =
     (if startdata \<ge> enddata then DW_ERROR DW_DLE_LOCLISTS_ERROR
      else
        dw_bind (rd8 buf startdata) (\<lambda>code.
        dw_bind (lle_operands dbg buf (startdata + 1) enddata address_size code) (\<lambda>(val1, val2, data, counted).
        dw_bind (if counted
                 then dw_bind (counted_loc_descr buf data enddata dataoffset) (\<lambda>(overall, len, opsdata, opsoffset).
                        DW_OK (overall, len, Some opsdata, opsoffset))
                 else DW_OK (0, 0, None, 0)) (\<lambda>(loc_ops_overall_size, loc_ops_len, lopsdata, lopsoffset).
          let data = data + loc_ops_overall_size; count = data - startdata in
          if data > enddata then DW_ERROR DW_DLE_LOCLISTS_ERROR
          else if count > length buf then DW_ERROR DW_DLE_LOCLISTS_ERROR
          else DW_OK (word_of_nat count, code, val1, val2, loc_ops_len, lopsoffset, lopsdata)))))"

definition new_lle_locdesc ::
  "u16 \<Rightarrow> u64 \<Rightarrow> u32 \<times> u8 \<times> u64 \<times> u64 \<times> u64 \<times> u64 \<times> ptr option \<Rightarrow> locdesc"
where
  "new_lle_locdesc lkind dataoffset = (\<lambda>(entrylen, code, val1, val2, opsblocksize, opsoffset, ops).
     locdesc_c_constructor\<lparr>ld_lkind := lkind, ld_lle_value := code, ld_entrylen := ucast entrylen, ld_rawlow := val1, ld_rawhigh := val2,
       ld_opsblock := \<lparr>bl_len = opsblocksize, bl_data = ops, bl_kind = lkind, bl_section_offset = opsoffset,
                       bl_locdesc_offset = dataoffset\<rparr>,
       ld_lle_bytecount := ucast entrylen\<rparr>)"

text \<open>
  The first loop of \<open>build_array_of_lle\<close>, with fuel because an entry of more than 32 bits of length may leave the pointer where it is;
  \<open>None\<close> when the fuel is used up. The result has the number of bytes.
\<close>

fun read_lle_entries ::
  "nat \<Rightarrow> dwarf_debug \<Rightarrow> bytes \<Rightarrow> loc_head \<Rightarrow> ptr \<Rightarrow> (u64 \<times> locdesc list) dw option"
where
  "read_lle_entries 0 dbg buf rctx data = None"
| "read_lle_entries (Suc fuel) dbg buf rctx data =
     (case read_single_lle_entry dbg buf data (ll_llearea_offset rctx) (ll_end_data_area rctx) (ll_address_size rctx) of
        DW_OK entry \<Rightarrow>
          (let ld = new_lle_locdesc (ll_lkind rctx) (ll_llearea_offset rctx) entry; entrylen = fst entry in
           if ld_lle_value ld = DW_LLE_end_of_list then Some (DW_OK (ucast entrylen, [ld]))
           else map_option (\<lambda>r. dw_bind r (\<lambda>(total, lds). DW_OK (ucast entrylen + total, ld # lds)))
                  (read_lle_entries fuel dbg buf rctx (data + unat entrylen)))
      | DW_NO_ENTRY \<Rightarrow> Some DW_NO_ENTRY
      | DW_ERROR x \<Rightarrow> Some (DW_ERROR x)
      | FAULT \<Rightarrow> Some FAULT)"

fun fill_in_lles :: "dwarf_debug \<Rightarrow> u64 \<Rightarrow> bytes \<Rightarrow> loc_head \<Rightarrow> locdesc list \<Rightarrow> locdesc list dw" where
  "fill_in_lles dbg base buf rctx [] = DW_OK []"
| "fill_in_lles dbg base buf rctx (ldc # ldcs) =
     dw_bind (fill_in_locdesc_op_c dbg base buf (ll_lkind rctx) (ld_opsblock ldc) (ll_address_size rctx) (ll_offset_size rctx)
         (ll_cuversion rctx) (ld_rawlow ldc) (ld_rawhigh ldc) (ucast (ld_lle_value ldc)) ldc) (\<lambda>ld.
     dw_bind (fill_in_lles dbg base buf rctx ldcs) (\<lambda>lds. DW_OK (ld # lds)))"

definition build_array_of_lle :: "nat \<Rightarrow> dwarf_debug \<Rightarrow> u64 \<Rightarrow> bytes \<Rightarrow> loc_head \<Rightarrow> loc_head dw option" where
  "build_array_of_lle fuel dbg base buf rctx =
     map_option (\<lambda>r. dw_bind r (\<lambda>(bytescounttotal, lds).
       dw_bind (fill_in_lles dbg base buf rctx lds) (\<lambda>lds. DW_OK (rctx\<lparr>ll_locdesc := lds, ll_bytes_total := bytescounttotal\<rparr>))))
     (read_lle_entries fuel dbg buf rctx (unat (ll_llearea_offset rctx)))"

section \<open>Addresses\<close>

text \<open>\<open>cook_original_loclist_contents\<close>: the loop with the base address it carries.\<close>

fun cook_original :: "u64 \<Rightarrow> locdesc list \<Rightarrow> locdesc list dw" where
  "cook_original baseaddress [] = DW_OK []"
| "cook_original baseaddress (llc # rest) =
     (if ld_lle_value llc = DW_LLE_end_of_list then dw_bind (cook_original baseaddress rest) (\<lambda>lds. DW_OK (llc # lds))
      else if ld_lle_value llc = DW_LLE_base_address then
        dw_bind (cook_original (ld_rawhigh llc) rest) (\<lambda>lds. DW_OK (llc\<lparr>ld_lopc := ld_rawhigh llc, ld_highpc := ld_rawhigh llc\<rparr> # lds))
      else if ld_lle_value llc = DW_LLE_offset_pair then
        dw_bind (cook_original baseaddress rest) (\<lambda>lds.
          DW_OK (llc\<lparr>ld_lopc := ld_rawlow llc + baseaddress, ld_highpc := ld_rawhigh llc + baseaddress\<rparr> # lds))
      else DW_ERROR DW_DLE_LOCLISTS_ERROR)"

text \<open>
  \<open>cook_gnu_loclist_contents\<close>; \<open>look\<close> stands for \<open>_dwarf_look_in_local_and_tied_by_index\<close>: the address it finds, or \<open>None\<close> when it does not
  return \<open>DW_DLV_OK\<close>; its errors are dropped.
\<close>

definition cook_gnu_entry :: "(u64 \<Rightarrow> u64 option) \<Rightarrow> u64 \<Rightarrow> locdesc \<Rightarrow> locdesc dw" where
  "cook_gnu_entry look baseaddress llc =
     (if ld_lle_value llc = DW_LLEX_base_address_selection_entry then
        (case look (ld_rawhigh llc) of
           None \<Rightarrow> DW_OK (llc\<lparr>ld_index_failed := True, ld_lopc := 0, ld_highpc := 0\<rparr>)
         | Some a \<Rightarrow> DW_OK (llc\<lparr>ld_lopc := a, ld_highpc := a\<rparr>))
      else if ld_lle_value llc = DW_LLEX_end_of_list_entry then DW_OK llc
      else if ld_lle_value llc = DW_LLEX_start_length_entry then
        (case look (ld_rawlow llc) of
           None \<Rightarrow> DW_OK (llc\<lparr>ld_index_failed := True, ld_lopc := 0\<rparr>)
         | Some a \<Rightarrow> DW_OK (llc\<lparr>ld_lopc := a, ld_highpc := a + ld_rawhigh llc\<rparr>))
      else if ld_lle_value llc = DW_LLEX_offset_pair_entry then
        DW_OK (llc\<lparr>ld_lopc := ld_rawlow llc + baseaddress, ld_highpc := ld_rawhigh llc + baseaddress\<rparr>)
      else if ld_lle_value llc = DW_LLEX_start_end_entry then
        (let llc = (case look (ld_rawlow llc) of
                      None \<Rightarrow> llc\<lparr>ld_index_failed := True, ld_lopc := 0\<rparr> | Some a \<Rightarrow> llc\<lparr>ld_lopc := a\<rparr>)
         in DW_OK (case look (ld_rawhigh llc) of
                     None \<Rightarrow> llc\<lparr>ld_index_failed := True, ld_highpc := 0\<rparr> | Some a \<Rightarrow> llc\<lparr>ld_highpc := a\<rparr>))
      else DW_ERROR DW_DLE_LOCLISTS_ERROR)"

fun cook_gnu :: "(u64 \<Rightarrow> u64 option) \<Rightarrow> u64 \<Rightarrow> locdesc list \<Rightarrow> locdesc list dw" where
  "cook_gnu look baseaddress [] = DW_OK []"
| "cook_gnu look baseaddress (llc # rest) =
     dw_bind (cook_gnu_entry look baseaddress llc) (\<lambda>ld. dw_bind (cook_gnu look baseaddress rest) (\<lambda>lds. DW_OK (ld # lds)))"

text \<open>
  \<open>cook_loclists_contents\<close>: what the loop carries is the base address, whether there is none, and whether a lookup in \<open>.debug_addr\<close> has
  failed, after which no further one is made.
\<close>

record cook_state =
  baseaddress :: u64
  base_address_fail :: bool
  debug_addr_fail :: bool

definition look_unless_failed :: "(u64 \<Rightarrow> u64 option) \<Rightarrow> cook_state \<Rightarrow> u64 \<Rightarrow> u64 option" where
  "look_unless_failed look st i = (if debug_addr_fail st then None else look i)"

definition cook_lle :: "(u64 \<Rightarrow> u64 option) \<Rightarrow> cook_state \<Rightarrow> locdesc \<Rightarrow> (cook_state \<times> locdesc) dw" where
  "cook_lle look st llc =
     (let code = ld_lle_value llc; failed = st\<lparr>debug_addr_fail := True\<rparr> in
      if code = DW_LLE_base_addressx then
        (case look_unless_failed look st (ld_rawlow llc) of
           None \<Rightarrow> DW_OK (failed\<lparr>base_address_fail := True\<rparr>, llc\<lparr>ld_index_failed := True, ld_lopc := 0\<rparr>)
         | Some a \<Rightarrow> DW_OK (st\<lparr>base_address_fail := False, baseaddress := a\<rparr>, llc\<lparr>ld_lopc := a\<rparr>))
      else if code = DW_LLE_startx_endx then
        (case (case look_unless_failed look st (ld_rawlow llc) of
                 None \<Rightarrow> (failed, llc\<lparr>ld_index_failed := True, ld_lopc := 0\<rparr>)
               | Some a \<Rightarrow> (st, llc\<lparr>ld_lopc := a\<rparr>)) of
           (st, llc) \<Rightarrow>
             (case look_unless_failed look st (ld_rawhigh llc) of
                None \<Rightarrow> DW_OK (st\<lparr>debug_addr_fail := True\<rparr>, llc\<lparr>ld_index_failed := True, ld_highpc := 0\<rparr>)
              | Some a \<Rightarrow> DW_OK (st, llc\<lparr>ld_highpc := a\<rparr>)))
      else if code = DW_LLE_startx_length then
        (case look_unless_failed look st (ld_rawlow llc) of
           None \<Rightarrow> DW_OK (failed, llc\<lparr>ld_index_failed := True, ld_lopc := 0\<rparr>)
         | Some a \<Rightarrow> DW_OK (st, llc\<lparr>ld_lopc := a, ld_highpc := a + ld_rawhigh llc\<rparr>))
      else if code = DW_LLE_offset_pair then
        (if base_address_fail st then DW_OK (st, llc\<lparr>ld_index_failed := True, ld_lopc := 0, ld_highpc := 0\<rparr>)
         else DW_OK (st, llc\<lparr>ld_lopc := ld_rawlow llc + baseaddress st, ld_highpc := ld_rawhigh llc + baseaddress st\<rparr>))
      else if code = DW_LLE_default_location then DW_OK (st, llc)
      else if code = DW_LLE_base_address then
        DW_OK (st\<lparr>baseaddress := ld_rawlow llc, base_address_fail := False\<rparr>, llc\<lparr>ld_lopc := ld_rawlow llc, ld_highpc := ld_rawlow llc\<rparr>)
      else if code = DW_LLE_start_end then DW_OK (st, llc\<lparr>ld_lopc := ld_rawlow llc, ld_highpc := ld_rawhigh llc\<rparr>)
      else if code = DW_LLE_start_length then
        DW_OK (st, llc\<lparr>ld_lopc := ld_rawlow llc, ld_highpc := ld_rawlow llc + ld_rawhigh llc\<rparr>)
      else if code = DW_LLE_end_of_list then DW_OK (st, llc)
      else DW_ERROR DW_DLE_LOCLISTS_ERROR)"

fun cook_lles :: "(u64 \<Rightarrow> u64 option) \<Rightarrow> cook_state \<Rightarrow> locdesc list \<Rightarrow> locdesc list dw" where
  "cook_lles look st [] = DW_OK []"
| "cook_lles look st (llc # rest) =
     dw_bind (cook_lle look st llc) (\<lambda>(st, ld). dw_bind (cook_lles look st rest) (\<lambda>lds. DW_OK (ld # lds)))"

definition cook_loclists_contents :: "(u64 \<Rightarrow> u64 option) \<Rightarrow> loc_head \<Rightarrow> loc_head dw" where
  "cook_loclists_contents look llhead =
     dw_bind (cook_lles look \<lparr>baseaddress = ll_cu_base_address llhead, base_address_fail = \<not> ll_cu_base_address_present llhead,
                              debug_addr_fail = False\<rparr> (ll_locdesc llhead))
       (\<lambda>lds. DW_OK (llhead\<lparr>ll_locdesc := lds\<rparr>))"

section \<open>The head a caller gets\<close>

text \<open>The part of \<open>dwarf_get_loclist_c\<close> that reads the list, by the kind the head has; an expression is read from its block.\<close>

definition loclist_of_kind ::
  "nat \<Rightarrow> dwarf_debug \<Rightarrow> u64 \<Rightarrow> bytes \<Rightarrow> (u64 \<Rightarrow> u64 option) \<Rightarrow> loc_head \<Rightarrow> u64 \<Rightarrow> loc_head dw option"
where
  "loclist_of_kind fuel dbg base buf look llhead loclist_offset =
     (if ll_lkind llhead = DW_LKIND_loclist \<or> ll_lkind llhead = DW_LKIND_GNU_exp_list then
        Some (dw_bind (original_loclist_build dbg base buf llhead loclist_offset) (\<lambda>llhead.
          dw_bind (if ll_lkind llhead = DW_LKIND_loclist then cook_original (ll_cu_base_address llhead) (ll_locdesc llhead)
                   else cook_gnu look (ll_cu_base_address llhead) (ll_locdesc llhead)) (\<lambda>lds.
            DW_OK (llhead\<lparr>ll_locdesc := lds\<rparr>))))
      else
        map_option (\<lambda>r. dw_bind r (cook_loclists_contents look))
          (build_array_of_lle fuel dbg base buf (llhead\<lparr>ll_llearea_offset := loclist_offset\<rparr>)))"

text \<open>\<open>_dwarf_original_expression_build\<close> on the block of the attribute.\<close>

definition original_expression_build :: "dwarf_debug \<Rightarrow> u64 \<Rightarrow> bytes \<Rightarrow> loc_head \<Rightarrow> block_c \<Rightarrow> loc_head dw" where
  "original_expression_build dbg base buf llhead loc_blockc =
     dw_bind (fill_in_locdesc_op_c dbg base buf (ll_lkind llhead) loc_blockc (ll_address_size llhead) (ll_offset_size llhead)
         (ll_cuversion llhead) 0 (MAX_ADDR (ll_address_size llhead)) 0 locdesc_c_constructor) (\<lambda>ld.
       DW_OK (llhead\<lparr>ll_locdesc := [ld], ll_bytes_total := ll_bytes_total llhead + bl_len loc_blockc\<rparr>))"

text \<open>\<open>dwarf_loclist_from_expr_c\<close>; the head has no context.\<close>

definition loclist_from_expr_c :: "dwarf_debug \<Rightarrow> u64 \<Rightarrow> bytes \<Rightarrow> ptr option \<Rightarrow> u64 \<Rightarrow> u16 \<Rightarrow> u16 \<Rightarrow> u16 \<Rightarrow> loc_head dw" where
  "loclist_from_expr_c dbg base buf expression_in expression_length address_size offset_size dwarf_version =
     (let loc_block = \<lparr>bl_len = expression_length, bl_data = expression_in, bl_kind = DW_LKIND_expression, bl_section_offset = 0,
                       bl_locdesc_offset = 0\<rparr>
      in dw_bind (fill_in_locdesc_op_c dbg base buf DW_LKIND_expression loc_block address_size offset_size dwarf_version 0
             (MAX_ADDR address_size) DW_LKIND_expression locdesc_c_constructor) (\<lambda>ld.
           DW_OK \<lparr>ll_locdesc = [ld], ll_lkind = DW_LKIND_expression, ll_cuversion = 0, ll_address_size = 0, ll_offset_size = 0,
                  ll_cu_base_address_present = False, ll_cu_base_address = 0, ll_llearea_offset = 0, ll_end_data_area = 0,
                  ll_bytes_total = 0\<rparr>))"

definition get_locdesc_entry :: "loc_head \<Rightarrow> u64 \<Rightarrow> locdesc dw" where
  "get_locdesc_entry head index =
     (if unat index \<ge> length (ll_locdesc head) then DW_ERROR DW_DLE_LOCLIST_INDEX_ERROR else DW_OK (ll_locdesc head ! unat index))"

definition get_location_op_value_c :: "locdesc \<Rightarrow> u64 \<Rightarrow> (u8 \<times> u64 \<times> u64 \<times> u64 \<times> u64) dw" where
  "get_location_op_value_c ld index =
     (if index \<ge> ld_cents ld then DW_ERROR DW_DLE_LOCLIST_INDEX_ERROR
      else let op = ld_s ld ! unat index in DW_OK (lr_atom op, lr_number op, lr_number2 op, lr_number3 op, lr_offset op))"

end
