(* ===== verification/LocEntries.thy ===== *)
theory LocEntries
  imports LocLists
begin

text \<open>
  The location lists of DWARF 5 as the standard defines them: entries with their operands and expressions, the ranges of addresses they stand
  for, their encoding, and the proof that reading an encoded list yields these ranges and expressions.
\<close>

section \<open>Entries and their meaning\<close>

datatype lle =
    Base_addressx nat
  | Startx_endx nat nat "operation list"
  | Startx_length nat nat "operation list"
  | Offset_pair nat nat "operation list"
  | Default_location "operation list"
  | Base_address nat
  | Start_end nat nat "operation list"
  | Start_length nat nat "operation list"

fun lle_code :: "lle \<Rightarrow> u8" where
  "lle_code (Base_addressx _) = 1"
| "lle_code (Startx_endx _ _ _) = 2"
| "lle_code (Startx_length _ _ _) = 3"
| "lle_code (Offset_pair _ _ _) = 4"
| "lle_code (Default_location _) = 5"
| "lle_code (Base_address _) = 6"
| "lle_code (Start_end _ _ _) = 7"
| "lle_code (Start_length _ _ _) = 8"

text \<open>The kinds of the operands of an entry, and their values.\<close>

fun lle_kinds :: "nat \<Rightarrow> lle \<Rightarrow> operand_kind list" where
  "lle_kinds n (Base_addressx _) = [ULEB]"
| "lle_kinds n (Startx_endx _ _ _) = [ULEB, ULEB]"
| "lle_kinds n (Startx_length _ _ _) = [ULEB, ULEB]"
| "lle_kinds n (Offset_pair _ _ _) = [ULEB, ULEB]"
| "lle_kinds n (Default_location _) = []"
| "lle_kinds n (Base_address _) = [Fixed n]"
| "lle_kinds n (Start_end _ _ _) = [Fixed n, Fixed n]"
| "lle_kinds n (Start_length _ _ _) = [Fixed n, ULEB]"

fun lle_values :: "lle \<Rightarrow> nat list" where
  "lle_values (Base_addressx i) = [i]"
| "lle_values (Startx_endx i j _) = [i, j]"
| "lle_values (Startx_length i n _) = [i, n]"
| "lle_values (Offset_pair a b _) = [a, b]"
| "lle_values (Default_location _) = []"
| "lle_values (Base_address a) = [a]"
| "lle_values (Start_end a b _) = [a, b]"
| "lle_values (Start_length a n _) = [a, n]"

fun lle_expression :: "lle \<Rightarrow> operation list option" where
  "lle_expression (Base_addressx _) = None"
| "lle_expression (Startx_endx _ _ xs) = Some xs"
| "lle_expression (Startx_length _ _ xs) = Some xs"
| "lle_expression (Offset_pair _ _ xs) = Some xs"
| "lle_expression (Default_location xs) = Some xs"
| "lle_expression (Base_address _) = None"
| "lle_expression (Start_end _ _ xs) = Some xs"
| "lle_expression (Start_length _ _ xs) = Some xs"

text \<open>The indices an entry looks up in the table of addresses.\<close>

fun lle_indices :: "lle \<Rightarrow> nat list" where
  "lle_indices (Base_addressx i) = [i]"
| "lle_indices (Startx_endx i j _) = [i, j]"
| "lle_indices (Startx_length i _ _) = [i]"
| "lle_indices _ = []"

text \<open>
  The ranges the bounded entries of a list stand for, for a table of addresses and the base address at the start, if there is one. Addresses
  are added modulo \<open>2 ^ 64\<close>.
\<close>

fun location_ranges :: "(nat \<Rightarrow> u64) \<Rightarrow> u64 option \<Rightarrow> lle list \<Rightarrow> (u64 \<times> u64) option list" where
  "location_ranges addrs base [] = []"
| "location_ranges addrs base (e # es) =
     (case e of
        Base_addressx i \<Rightarrow> None # location_ranges addrs (Some (addrs i)) es
      | Startx_endx i j _ \<Rightarrow> Some (addrs i, addrs j) # location_ranges addrs base es
      | Startx_length i n _ \<Rightarrow> Some (addrs i, addrs i + word_of_nat n) # location_ranges addrs base es
      | Offset_pair a b _ \<Rightarrow> map_option (\<lambda>x. (x + word_of_nat a, x + word_of_nat b)) base # location_ranges addrs base es
      | Default_location _ \<Rightarrow> None # location_ranges addrs base es
      | Base_address a \<Rightarrow> None # location_ranges addrs (Some (word_of_nat a)) es
      | Start_end a b _ \<Rightarrow> Some (word_of_nat a, word_of_nat b) # location_ranges addrs base es
      | Start_length a n _ \<Rightarrow> Some (word_of_nat a, word_of_nat a + word_of_nat n) # location_ranges addrs base es)"

section \<open>Encoding\<close>

text \<open>The format of a unit: version, offset size and address size.\<close>

type_synonym unit_format = "u16 \<times> u16 \<times> u16"

definition encode_expression :: "dwarf_debug \<Rightarrow> unit_format \<Rightarrow> operation list \<Rightarrow> bytes" where
  "encode_expression dbg = (\<lambda>(v, os, as) xs. concat (map (encode_operation dbg v os as) xs))"

definition encode_values :: "dwarf_debug \<Rightarrow> unit_format \<Rightarrow> lle \<Rightarrow> bytes" where
  "encode_values dbg = (\<lambda>(v, os, as) e. encode_operands dbg (lle_kinds (unat as) e) (map Unsigned (lle_values e)))"

definition encode_lle :: "dwarf_debug \<Rightarrow> unit_format \<Rightarrow> lle \<Rightarrow> bytes" where
  "encode_lle dbg f e = lle_code e # encode_values dbg f e @
     (case lle_expression e of
        None \<Rightarrow> []
      | Some xs \<Rightarrow> uleb_encode (length (encode_expression dbg f xs)) @ encode_expression dbg f xs)"

definition encode_loclist :: "dwarf_debug \<Rightarrow> unit_format \<Rightarrow> lle list \<Rightarrow> bytes" where
  "encode_loclist dbg f es = concat (map (encode_lle dbg f) es) @ [0]"

definition lle_well_formed :: "unit_format \<Rightarrow> lle \<Rightarrow> bool" where
  "lle_well_formed = (\<lambda>(v, os, as) e.
     list_all2 fits (lle_kinds (unat as) e) (map Unsigned (lle_values e)) \<and>
     (\<forall>xs. lle_expression e = Some xs \<longrightarrow> (\<forall>x \<in> set xs. well_formed v os as x \<and> unat (fst x) \<notin> {0xe9, 0xfd})))"

section \<open>What a list is read as\<close>

text \<open>Where the expression of an entry at a place begins.\<close>

definition expression_place :: "dwarf_debug \<Rightarrow> unit_format \<Rightarrow> ptr \<Rightarrow> lle \<Rightarrow> operation list \<Rightarrow> ptr" where
  "expression_place dbg f p e xs =
     p + 1 + length (encode_values dbg f e) + length (uleb_encode (length (encode_expression dbg f xs)))"

definition value_at :: "nat list \<Rightarrow> nat \<Rightarrow> u64" where
  "value_at vs i = (if i < length vs then word_of_nat (vs ! i) else 0)"

text \<open>A description fits an entry at a place that stands for a range.\<close>

definition describes ::
  "u64 \<Rightarrow> dwarf_debug \<Rightarrow> unit_format \<Rightarrow> ptr \<Rightarrow> lle \<Rightarrow> (u64 \<times> u64) option \<Rightarrow> locdesc \<Rightarrow> bool"
where
  "describes base dbg = (\<lambda>(v, os, as) p e range ld.
     ld_lle_value ld = lle_code e \<and> ld_rawlow ld = value_at (lle_values e) 0 \<and> ld_rawhigh ld = value_at (lle_values e) 1 \<and>
     ld_s ld = (case lle_expression e of
                  None \<Rightarrow> []
                | Some xs \<Rightarrow> decoded_operations base dbg v os as (expression_place dbg (v, os, as) p e xs) 0 0 xs) \<and>
     ld_cents ld = word_of_nat (length (ld_s ld)) \<and>
     (case range of
        Some (low, high) \<Rightarrow> \<not> ld_index_failed ld \<and> ld_lopc ld = low \<and> ld_highpc ld = high
      | None \<Rightarrow> (\<exists>a b xs. e = Offset_pair a b xs) \<longrightarrow> ld_index_failed ld))"

fun describe_all ::
  "u64 \<Rightarrow> dwarf_debug \<Rightarrow> unit_format \<Rightarrow> ptr \<Rightarrow> lle list \<Rightarrow> (u64 \<times> u64) option list \<Rightarrow> locdesc list \<Rightarrow> bool"
where
  "describe_all base dbg f p [] [] [ld] \<longleftrightarrow> ld_lle_value ld = DW_LLE_end_of_list \<and> ld_s ld = []"
| "describe_all base dbg f p (e # es) (r # rs) (ld # lds) \<longleftrightarrow>
     describes base dbg f p e r ld \<and> describe_all base dbg f (p + length (encode_lle dbg f e)) es rs lds"
| "describe_all base dbg f p _ _ _ \<longleftrightarrow> False"

section \<open>Reading the entries\<close>

lemma lle_operands_at:
  assumes fit: "list_all2 fits (lle_kinds (unat as) e) (map Unsigned (lle_values e))"
    and at: "holds_at buf p (encode_operands dbg (lle_kinds (unat as) e) (map Unsigned (lle_values e)))"
      "p + length (encode_operands dbg (lle_kinds (unat as) e) (map Unsigned (lle_values e))) \<le> q"
    and mem: "q \<le> length buf" "unat as \<le> 8"
  shows "lle_operands dbg buf p q as (lle_code e) =
    DW_OK (value_at (lle_values e) 0, value_at (lle_values e) 1,
           p + length (encode_operands dbg (lle_kinds (unat as) e) (map Unsigned (lle_values e))), lle_expression e \<noteq> None)"
proof (cases e)
  case (Base_addressx i)
  then show ?thesis using fit at mem uword_at [of buf p i q] by (simp add: lle_operands_def value_at_def)
next
  case (Startx_endx i j xs)
  then show ?thesis using fit at mem uword_at [of buf p i q] uword_at [of buf "p + length (uleb_encode i)" j q]
    by (simp add: lle_operands_def value_at_def)
next
  case (Startx_length i j xs)
  then show ?thesis using fit at mem uword_at [of buf p i q] uword_at [of buf "p + length (uleb_encode i)" j q]
    by (simp add: lle_operands_def value_at_def)
next
  case (Offset_pair i j xs)
  then show ?thesis using fit at mem uword_at [of buf p i q] uword_at [of buf "p + length (uleb_encode i)" j q]
    by (simp add: lle_operands_def value_at_def)
next
  case (Default_location xs)
  then show ?thesis by (simp add: lle_operands_def value_at_def)
next
  case (Base_address a)
  then show ?thesis using fit at mem read_fixed_at [of buf p dbg "unat as" a q] by (simp add: lle_operands_def value_at_def Let_def)
next
  case (Start_end a b xs)
  then show ?thesis
    using fit at mem read_fixed_at [of buf p dbg "unat as" a q] read_fixed_at [of buf "p + unat as" dbg "unat as" b q]
    by (simp add: lle_operands_def value_at_def Let_def)
next
  case (Start_length a n xs)
  then show ?thesis
    using fit at mem read_fixed_at [of buf p dbg "unat as" a q] uword_at [of buf "p + unat as" n q]
    by (simp add: lle_operands_def value_at_def Let_def)
qed

text \<open>The entry as it is read.\<close>

definition raw_entry ::
  "dwarf_debug \<Rightarrow> unit_format \<Rightarrow> u64 \<Rightarrow> ptr \<Rightarrow> lle \<Rightarrow> u32 \<times> u8 \<times> u64 \<times> u64 \<times> u64 \<times> u64 \<times> ptr option"
where
  "raw_entry dbg f dataoffset p e =
     (word_of_nat (length (encode_lle dbg f e)), lle_code e, value_at (lle_values e) 0, value_at (lle_values e) 1,
      case lle_expression e of
        None \<Rightarrow> (0, 0, None)
      | Some xs \<Rightarrow>
          (word_of_nat (length (encode_expression dbg f xs)),
           dataoffset + word_of_nat (length (uleb_encode (length (encode_expression dbg f xs)))),
           Some (expression_place dbg f p e xs)))"

lemma counted_loc_descr_at:
  assumes "holds_at buf p (uleb_encode (length c) @ c)" "p + length (uleb_encode (length c)) + length c \<le> q" "q \<le> length buf"
    and "q < 2 ^ 64"
  shows "counted_loc_descr buf p q off =
    DW_OK (length c + length (uleb_encode (length c)), word_of_nat (length c), p + length (uleb_encode (length c)),
           off + word_of_nat (length (uleb_encode (length c))))"
proof -
  have "length c < 2 ^ 64" "q - (p + length (uleb_encode (length c))) < 2 ^ 64" using assms(2,4) by linarith+
  then have "unat (word_of_nat (length c) :: u64) = length c"
    "unat (word_of_nat (q - (p + length (uleb_encode (length c)))) :: u64) = q - (p + length (uleb_encode (length c)))"
    by (simp_all add: unsigned_of_nat take_bit_nat_eq_self_iff)
  then have "\<not> (word_of_nat (q - (p + length (uleb_encode (length c)))) :: u64) < word_of_nat (length c)"
    "unat (word_of_nat (length c) :: u64) = length c"
    using assms(2) by (simp_all add: word_less_nat_alt del: of_nat_diff)
  then show ?thesis using assms uleb_len_at [of buf p "length c" q]
    by (simp add: counted_loc_descr_def del: of_nat_diff)
qed

lemma read_single_lle_entry_at:
  assumes wf: "lle_well_formed f e" and at: "holds_at buf p (encode_lle dbg f e)" "p + length (encode_lle dbg f e) \<le> q"
    and mem: "q \<le> length buf" "q < 2 ^ 64" "unat (snd (snd f)) \<le> 8"
  shows "read_single_lle_entry dbg buf p off q (snd (snd f)) = DW_OK (raw_entry dbg f off p e)"
proof -
  obtain v os as where f: "f = (v, os, as)" by (cases f)
  let ?vs = "encode_values dbg f e"
  have ops: "lle_operands dbg buf (p + 1) q as (lle_code e) =
    DW_OK (value_at (lle_values e) 0, value_at (lle_values e) 1, p + 1 + length ?vs, lle_expression e \<noteq> None)"
    using lle_operands_at [of as e buf "p + 1" dbg q] wf at mem
    by (simp add: lle_well_formed_def encode_lle_def encode_values_def f holds_at_Cons)
  have code: "p < q" "rd8 buf p = DW_OK (lle_code e)"
    using at mem(1) by (simp_all add: encode_lle_def holds_at_Cons)
  show ?thesis
  proof (cases "lle_expression e")
    case None
    then show ?thesis using ops code at mem
      by (simp add: read_single_lle_entry_def f raw_entry_def encode_lle_def Let_def)
  next
    case (Some xs)
    let ?c = "encode_expression dbg f xs"
    have "counted_loc_descr buf (p + 1 + length ?vs) q off =
      DW_OK (length ?c + length (uleb_encode (length ?c)), word_of_nat (length ?c), p + 1 + length ?vs + length (uleb_encode (length ?c)),
             off + word_of_nat (length (uleb_encode (length ?c))))"
      using at mem Some by (intro counted_loc_descr_at) (simp_all add: encode_lle_def holds_at_Cons)
    then show ?thesis using ops code at mem Some
      by (simp add: read_single_lle_entry_def f raw_entry_def encode_lle_def expression_place_def Let_def algebra_simps)
  qed
qed

fun raw_locdescs :: "dwarf_debug \<Rightarrow> unit_format \<Rightarrow> u16 \<Rightarrow> u64 \<Rightarrow> ptr \<Rightarrow> lle list \<Rightarrow> locdesc list" where
  "raw_locdescs dbg f lkind off p [] = [new_lle_locdesc lkind off (1, 0, 0, 0, 0, 0, None)]"
| "raw_locdescs dbg f lkind off p (e # es) =
     new_lle_locdesc lkind off (raw_entry dbg f off p e) # raw_locdescs dbg f lkind off (p + length (encode_lle dbg f e)) es"

lemma lle_code_not_end: "lle_code e \<noteq> 0"
  by (cases e) simp_all

lemma new_lle_locdesc_value: "ld_lle_value (new_lle_locdesc k off entry) = fst (snd entry)"
  by (cases entry) (simp add: new_lle_locdesc_def)

lemma read_lle_entries_at:
  assumes "\<forall>e \<in> set es. lle_well_formed f e" "holds_at buf p (encode_loclist dbg f es)"
    "p + length (encode_loclist dbg f es) \<le> ll_end_data_area rctx"
    and mem: "ll_end_data_area rctx \<le> length buf" "length buf < 2 ^ 32" "unat (snd (snd f)) \<le> 8" "ll_address_size rctx = snd (snd f)"
    and "length es < fuel"
  shows "read_lle_entries fuel dbg buf rctx p =
    Some (DW_OK (word_of_nat (length (encode_loclist dbg f es)), raw_locdescs dbg f (ll_lkind rctx) (ll_llearea_offset rctx) p es))"
  using assms(1-3,8)
proof (induction es arbitrary: p fuel)
  case Nil
  then obtain n where fuel: "fuel = Suc n" by (cases fuel) auto
  have "read_single_lle_entry dbg buf p (ll_llearea_offset rctx) (ll_end_data_area rctx) (ll_address_size rctx) =
    DW_OK (1, 0, 0, 0, 0, 0, None)"
    using Nil mem by (cases "buf = []") (simp_all add: read_single_lle_entry_def lle_operands_def encode_loclist_def holds_at_Cons Let_def)
  then show ?case by (simp add: fuel new_lle_locdesc_value encode_loclist_def)
next
  case (Cons e es)
  then obtain n where fuel: "fuel = Suc n" by (cases fuel) auto
  let ?L = "length (encode_lle dbg f e)"
  have enc: "encode_loclist dbg f (e # es) = encode_lle dbg f e @ encode_loclist dbg f es" by (simp add: encode_loclist_def)
  have h: "holds_at buf p (encode_lle dbg f e)" "holds_at buf (p + ?L) (encode_loclist dbg f es)" "p + ?L \<le> ll_end_data_area rctx"
    "?L < 2 ^ 32"
    using Cons.prems(2,3) mem by (simp_all add: enc)
  have one: "read_single_lle_entry dbg buf p (ll_llearea_offset rctx) (ll_end_data_area rctx) (ll_address_size rctx) =
    DW_OK (raw_entry dbg f (ll_llearea_offset rctx) p e)"
    using read_single_lle_entry_at [of f e buf p dbg "ll_end_data_area rctx"] Cons.prems(1) h mem by simp
  have u: "unat (word_of_nat ?L :: u32) = ?L" "(ucast (word_of_nat ?L :: u32) :: u64) = word_of_nat ?L"
    using h(4) by (simp_all add: unsigned_of_nat take_bit_nat_eq_self_iff word_unat_eq_iff unsigned_ucast_eq take_bit_nat_eq_self)
  have rest: "read_lle_entries n dbg buf rctx (p + ?L) =
    Some (DW_OK (word_of_nat (length (encode_loclist dbg f es)), raw_locdescs dbg f (ll_lkind rctx) (ll_llearea_offset rctx) (p + ?L) es))"
    using Cons.prems h(2) by (intro Cons.IH) (simp_all add: enc fuel)
  show ?case using one rest u
    by (simp add: fuel new_lle_locdesc_value raw_entry_def lle_code_not_end enc Let_def)
qed

section \<open>Their operations\<close>

text \<open>A description that is filled in but has no addresses yet.\<close>

definition filled :: "u64 \<Rightarrow> dwarf_debug \<Rightarrow> unit_format \<Rightarrow> ptr \<Rightarrow> lle \<Rightarrow> locdesc \<Rightarrow> bool" where
  "filled base dbg = (\<lambda>(v, os, as) p e ld.
     ld_lle_value ld = lle_code e \<and> ld_rawlow ld = value_at (lle_values e) 0 \<and> ld_rawhigh ld = value_at (lle_values e) 1 \<and>
     ld_s ld = (case lle_expression e of
                  None \<Rightarrow> []
                | Some xs \<Rightarrow> decoded_operations base dbg v os as (expression_place dbg (v, os, as) p e xs) 0 0 xs) \<and>
     ld_cents ld = word_of_nat (length (ld_s ld)) \<and> \<not> ld_index_failed ld)"

fun filled_all :: "u64 \<Rightarrow> dwarf_debug \<Rightarrow> unit_format \<Rightarrow> ptr \<Rightarrow> lle list \<Rightarrow> locdesc list \<Rightarrow> bool" where
  "filled_all base dbg f p [] lds \<longleftrightarrow> (\<exists>ld. lds = [ld] \<and> ld_lle_value ld = DW_LLE_end_of_list \<and> ld_s ld = [])"
| "filled_all base dbg f p (e # es) lds \<longleftrightarrow>
     (\<exists>ld lds'. lds = ld # lds' \<and> filled base dbg f p e ld \<and> filled_all base dbg f (p + length (encode_lle dbg f e)) es lds')"

lemma empty_block_operations: "read_ops_loop (dbg, base, buf, q) 0 p v os as 0 0 = DW_OK []"
  by (subst read_ops_loop.simps) (simp add: read_loc_expr_op_def)

lemma word_of_nat_eq_0: "n < 2 ^ 64 \<Longrightarrow> ((word_of_nat n :: u64) = 0) = (n = 0)"
  by (auto simp: word_unat_eq_iff unsigned_of_nat take_bit_nat_eq_self)

lemma fill_in_entry:
  fixes off :: u64
  assumes wf: "lle_well_formed (v, os, as) e"
    and at: "holds_at buf p (encode_lle dbg (v, os, as) e)"
    and mem: "length buf < 2 ^ 63" "unat base + length buf < 2 ^ 64" "unat os \<le> 8" "unat as \<le> 8"
  defines "raw \<equiv> new_lle_locdesc DW_LKIND_loclists off (raw_entry dbg (v, os, as) off p e)"
  shows "\<exists>ld. fill_in_locdesc_op_c dbg base buf DW_LKIND_loclists (ld_opsblock raw) as os v (ld_rawlow raw) (ld_rawhigh raw)
      (ucast (ld_lle_value raw)) raw = DW_OK ld \<and> filled base dbg (v, os, as) p e ld"
proof -
  have code: "validate_lle_value ld = DW_OK ()" if "ld_lkind ld = DW_LKIND_loclists" "ld_lle_value ld = lle_code e" for ld
    using that by (cases e) (simp_all add: validate_lle_value_def)
  show ?thesis
  proof (cases "lle_expression e")
    case None
    then show ?thesis
      by (simp add: raw_def new_lle_locdesc_def raw_entry_def fill_in_locdesc_op_c_def block_section_def empty_block_operations synthesized_lle_value_def
          code Let_def filled_def)
  next
    case (Some xs)
    let ?c = "encode_expression dbg (v, os, as) xs" and ?q = "expression_place dbg (v, os, as) p e xs"
    have c: "holds_at buf ?q ?c" "?q + length ?c \<le> length buf"
      using at Some holds_at_end [of buf ?q ?c] by (simp_all add: encode_lle_def holds_at_Cons expression_place_def)
    have len: "unat (word_of_nat (length ?c) :: u64) = length ?c" "(word_of_nat (length ?c) = (0 :: u64)) = (?c = [])"
      using c(2) mem(1) word_of_nat_eq_0 [of "length ?c"] by (simp_all add: unsigned_of_nat take_bit_nat_eq_self_iff)
    have ops: "read_ops_loop (dbg, base, buf, length buf) (word_of_nat (length ?c)) ?q v os as 0 0 =
      DW_OK (decoded_operations base dbg v os as ?q 0 0 xs)"
      using read_encoded_operations [of xs v os as buf ?q 0 dbg "length ?c" 0 "length buf" base] wf Some c mem
      by (simp add: lle_well_formed_def encode_expression_def)
    have raw: "ld_opsblock raw = \<lparr>bl_len = word_of_nat (length ?c), bl_data = Some ?q, bl_kind = DW_LKIND_loclists,
        bl_section_offset = off + word_of_nat (length (uleb_encode (length ?c))), bl_locdesc_offset = off\<rparr>"
      "ld_lle_value raw = lle_code e"
      by (simp_all add: raw_def new_lle_locdesc_def raw_entry_def Some)
    have "\<exists>se. block_section buf (ld_opsblock raw) = DW_OK (?q, se) \<and>
      read_ops_loop (dbg, base, buf, se) (word_of_nat (length ?c)) ?q v os as 0 0 =
        DW_OK (decoded_operations base dbg v os as ?q 0 0 xs)"
    proof (cases "?c = []")
      case True
      then show ?thesis using ops empty_block_operations [of dbg base buf _ ?q v os as]
        by (intro exI [of _ 0]) (simp add: block_section_def raw)
    next
      case False
      then have "?q < length buf" using c(2) by (cases ?c) simp_all
      then show ?thesis using ops c(2) False
        by (intro exI [of _ "length buf"]) (simp add: block_section_def len raw loc_block_sanity_check_def)
    qed
    then obtain se where "block_section buf (ld_opsblock raw) = DW_OK (?q, se)"
      "read_ops_loop (dbg, base, buf, se) (word_of_nat (length ?c)) ?q v os as 0 0 =
        DW_OK (decoded_operations base dbg v os as ?q 0 0 xs)" by blast
    then show ?thesis using Some
      by (simp add: fill_in_locdesc_op_c_def raw(2) synthesized_lle_value_def code Let_def filled_def)
         (simp add: raw raw_def new_lle_locdesc_def raw_entry_def)
  qed
qed

lemma fill_in_entries:
  assumes "\<forall>e \<in> set es. lle_well_formed f e" and f: "f = (v, os, as)" and "holds_at buf p (encode_loclist dbg f es)"
    and mem: "length buf < 2 ^ 63" "unat base + length buf < 2 ^ 64" "unat os \<le> 8" "unat as \<le> 8"
    and rctx: "ll_lkind rctx = DW_LKIND_loclists" "ll_cuversion rctx = v" "ll_offset_size rctx = os" "ll_address_size rctx = as"
  shows "\<exists>lds. fill_in_lles dbg base buf rctx (raw_locdescs dbg f DW_LKIND_loclists off p es) = DW_OK lds \<and> filled_all base dbg f p es lds"
  using assms(1,3)
proof (induction es arbitrary: p)
  case Nil
  then show ?case
    by (simp add: fill_in_locdesc_op_c_def block_section_def new_lle_locdesc_def empty_block_operations synthesized_lle_value_def validate_lle_value_def
        rctx Let_def)
next
  case (Cons e es)
  have h: "holds_at buf p (encode_lle dbg f e)" "holds_at buf (p + length (encode_lle dbg f e)) (encode_loclist dbg f es)"
    using Cons.prems(2) by (simp_all add: encode_loclist_def)
  obtain ld where ld: "fill_in_locdesc_op_c dbg base buf DW_LKIND_loclists
      (ld_opsblock (new_lle_locdesc DW_LKIND_loclists off (raw_entry dbg f off p e))) as os v
      (ld_rawlow (new_lle_locdesc DW_LKIND_loclists off (raw_entry dbg f off p e)))
      (ld_rawhigh (new_lle_locdesc DW_LKIND_loclists off (raw_entry dbg f off p e)))
      (ucast (ld_lle_value (new_lle_locdesc DW_LKIND_loclists off (raw_entry dbg f off p e))))
      (new_lle_locdesc DW_LKIND_loclists off (raw_entry dbg f off p e)) = DW_OK ld" "filled base dbg f p e ld"
    using fill_in_entry [OF _ h(1) [unfolded f] mem, of off] Cons.prems(1) by (auto simp: f)
  obtain lds where lds: "fill_in_lles dbg base buf rctx (raw_locdescs dbg f DW_LKIND_loclists off (p + length (encode_lle dbg f e)) es) =
      DW_OK lds" "filled_all base dbg f (p + length (encode_lle dbg f e)) es lds"
    using Cons.IH [OF _ h(2)] Cons.prems(1) by auto
  show ?case using ld lds by (simp add: rctx)
qed

section \<open>Their addresses\<close>

lemma cook_entries:
  assumes "filled_all base dbg f p es lds" "\<forall>e \<in> set es. \<forall>i \<in> set (lle_indices e). look (word_of_nat i) = Some (addrs i)"
    and "\<not> debug_addr_fail st" "base_address_fail st = (b = None)" "\<And>x. b = Some x \<Longrightarrow> baseaddress st = x"
  shows "\<exists>lds'. cook_lles look st lds = DW_OK lds' \<and> describe_all base dbg f p es (location_ranges addrs b es) lds'"
  using assms
proof (induction es arbitrary: p lds st b)
  case Nil
  then show ?case by (auto simp: cook_lle_def)
next
  case (Cons e es)
  obtain ld rest where lds: "lds = ld # rest" "filled base dbg f p e ld"
    "filled_all base dbg f (p + length (encode_lle dbg f e)) es rest"
    using Cons.prems(1) by auto
  obtain v os as where f: "f = (v, os, as)" by (cases f)
  let ?p = "p + length (encode_lle dbg f e)"
  have IH: "\<exists>lds'. cook_lles look st' rest = DW_OK lds' \<and> describe_all base dbg f ?p es (location_ranges addrs b' es) lds'"
    if "\<not> debug_addr_fail st'" "base_address_fail st' = (b' = None)" "\<And>x. b' = Some x \<Longrightarrow> baseaddress st' = x" for st' b'
    using Cons.IH [OF lds(3) _ that] Cons.prems(2) by simp
  have look: "i \<in> set (lle_indices e) \<Longrightarrow> look_unless_failed look st (word_of_nat i) = Some (addrs i)" for i
    using Cons.prems(2,3) by (simp add: look_unless_failed_def)
  have same: "\<exists>lds'. cook_lles look st rest = DW_OK lds' \<and> describe_all base dbg f ?p es (location_ranges addrs b es) lds'"
    using Cons.prems(3-5) by (intro IH) auto
  show ?case
  proof (cases e)
    case (Base_addressx i)
    then show ?thesis using lds(1,2) look IH [of "st\<lparr>base_address_fail := False, baseaddress := addrs i\<rparr>" "Some (addrs i)"] Cons.prems(3)
      by (auto simp: cook_lle_def filled_def f value_at_def describes_def)
  next
    case (Base_address a)
    then show ?thesis
      using lds(1,2) IH [of "st\<lparr>baseaddress := word_of_nat a, base_address_fail := False\<rparr>" "Some (word_of_nat a)"] Cons.prems(3)
      by (auto simp: cook_lle_def filled_def f value_at_def describes_def)
  next
    case (Offset_pair x y xs)
    have ld: "ld_lle_value ld = 4" "ld_rawlow ld = word_of_nat x" "ld_rawhigh ld = word_of_nat y"
      using lds(2) Offset_pair by (simp_all add: filled_def f value_at_def)
    have "(4 :: u8) \<noteq> 1" "(4 :: u8) \<noteq> 2" "(4 :: u8) \<noteq> 3" by simp_all
    then have "cook_lle look st ld = DW_OK (st, case b of
        None \<Rightarrow> ld\<lparr>ld_index_failed := True, ld_lopc := 0, ld_highpc := 0\<rparr>
      | Some z \<Rightarrow> ld\<lparr>ld_lopc := z + word_of_nat x, ld_highpc := z + word_of_nat y\<rparr>)"
      using Cons.prems(4,5) by (cases b) (simp_all add: cook_lle_def ld add.commute)
    then show ?thesis using lds(1,2) same Offset_pair
      by (cases b) (auto simp: filled_def f value_at_def describes_def)
  qed (use lds(1,2) same look in \<open>auto simp: cook_lle_def filled_def f value_at_def describes_def\<close>)
qed

section \<open>A concrete list\<close>

definition witness_lles :: "lle list" where
  "witness_lles = [Base_address 0x1000, Offset_pair 4 8 [(0x55, [])], Startx_length 2 16 [(0x91, [Signed (- 24)])]]"

definition witness_section :: bytes where
  "witness_section = [0xaa, 6, 0, 0x10, 0, 0, 4, 4, 8, 1, 0x55, 3, 2, 16, 2, 0x91, 0x68, 0]"

definition witness_head :: loc_head where
  "witness_head = \<lparr>ll_locdesc = [], ll_lkind = 5, ll_cuversion = 5, ll_address_size = 4, ll_offset_size = 4,
     ll_cu_base_address_present = False, ll_cu_base_address = 0, ll_llearea_offset = 0, ll_end_data_area = 18, ll_bytes_total = 0\<rparr>"

lemma le_bytes_4: "le_bytes 4 v = [word_of_nat v, word_of_nat (v div 256), word_of_nat (v div 65536), word_of_nat (v div 16777216)]"
proof -
  have four: "4 = Suc (Suc (Suc (Suc 0)))" by simp
  show ?thesis unfolding four by (simp add: div_mult2_eq [symmetric])
qed

lemma describe_all_length: "describe_all base dbg f p es rs lds \<Longrightarrow> length lds = length es + 1"
  by (induction base dbg f p es rs lds rule: describe_all.induct) auto

lemma witness_section_encodes: "witness_section = 0xaa # encode_loclist debug_le64 (5, 4, 4) witness_lles"
  by (simp add: witness_section_def witness_lles_def encode_loclist_def encode_lle_def encode_values_def encode_expression_def
      encode_operation_def operand_kinds_def Let_def fixed_bytes_def debug_le64_def uleb_encode.simps sleb_encode.simps sleb_last_def
      le_bytes_4)

section \<open>Properties\<close>

text \<open>
  C8: Reading a section that holds the encoding of any DWARF 5 location list, of any version, offset and address size and byte order, from any
  place on, returns one description for each entry and one for the end: with the operations of its expression, with its raw operands, and with the range
  of addresses the standard gives it, computed from the base address and the table of addresses; an offset pair without a base address is marked as failed.
\<close>

theorem loclist_described:
  assumes "\<forall>e \<in> set es. lle_well_formed (v, os, as) e" "holds_at buf p (encode_loclist dbg (v, os, as) es)"
    and "p + length (encode_loclist dbg (v, os, as) es) \<le> ll_end_data_area llhead" "ll_end_data_area llhead \<le> length buf"
    and "length buf < 2 ^ 32" "unat base + length buf < 2 ^ 64" "unat os \<le> 8" "unat as \<le> 8"
    and "ll_lkind llhead = DW_LKIND_loclists" "ll_cuversion llhead = v" "ll_offset_size llhead = os" "ll_address_size llhead = as"
    and "\<forall>e \<in> set es. \<forall>i \<in> set (lle_indices e). look (word_of_nat i) = Some (addrs i)" "length es < fuel"
  shows "\<exists>head. loclist_of_kind fuel dbg base buf look llhead (word_of_nat p) = Some (DW_OK head) \<and>
    describe_all base dbg (v, os, as) p es
      (location_ranges addrs (if ll_cu_base_address_present llhead then Some (ll_cu_base_address llhead) else None) es) (ll_locdesc head) \<and>
    ll_bytes_total head = word_of_nat (length (encode_loclist dbg (v, os, as) es))"
proof -
  let ?f = "(v, os, as)" and ?rctx = "llhead\<lparr>ll_llearea_offset := word_of_nat p\<rparr>"
  have "p < 2 ^ 32" using assms(3-5) by linarith
  then have p: "unat (word_of_nat p :: u64) = p" by (simp add: unsigned_of_nat take_bit_nat_eq_self_iff)
  have "read_lle_entries fuel dbg buf ?rctx p =
    Some (DW_OK (word_of_nat (length (encode_loclist dbg ?f es)), raw_locdescs dbg ?f DW_LKIND_loclists (word_of_nat p) p es))"
    using read_lle_entries_at [of es ?f buf p dbg ?rctx fuel] assms by simp
  moreover obtain lds where lds: "fill_in_lles dbg base buf ?rctx (raw_locdescs dbg ?f DW_LKIND_loclists (word_of_nat p) p es) = DW_OK lds"
    "filled_all base dbg ?f p es lds"
    using fill_in_entries [of es ?f v os as buf p dbg base ?rctx "word_of_nat p"] assms by auto
  moreover have "\<exists>lds'. cook_lles look \<lparr>baseaddress = ll_cu_base_address llhead,
      base_address_fail = \<not> ll_cu_base_address_present llhead, debug_addr_fail = False\<rparr> lds = DW_OK lds' \<and>
    describe_all base dbg ?f p es
      (location_ranges addrs (if ll_cu_base_address_present llhead then Some (ll_cu_base_address llhead) else None) es) lds'"
    by (rule cook_entries [OF lds(2) assms(13)]) (auto split: if_splits)
  ultimately show ?thesis
    by (auto simp: loclist_of_kind_def assms(9) build_array_of_lle_def cook_loclists_contents_def p)
qed

theorem loclist_described_witness:
  "\<exists>head. loclist_of_kind 4 debug_le64 0x7000 witness_section (\<lambda>i. if i = 2 then Some 0x2000 else None) witness_head 1 = Some (DW_OK head) \<and>
    map ld_lopc (ll_locdesc head) = [ld_lopc (ll_locdesc head ! 0), 0x1004, 0x2000, ld_lopc (ll_locdesc head ! 3)] \<and>
    map ld_highpc (ll_locdesc head) = [ld_highpc (ll_locdesc head ! 0), 0x1008, 0x2010, ld_highpc (ll_locdesc head ! 3)] \<and>
    map lr_number (ld_s (ll_locdesc head ! 2)) = [- 24]"
proof -
  have "\<exists>head. loclist_of_kind 4 debug_le64 0x7000 witness_section (\<lambda>i. if i = 2 then Some 0x2000 else None) witness_head (word_of_nat 1) =
      Some (DW_OK head) \<and>
    describe_all 0x7000 debug_le64 (5, 4, 4) 1 witness_lles (location_ranges (\<lambda>_. 0x2000)
      (if ll_cu_base_address_present witness_head then Some (ll_cu_base_address witness_head) else None) witness_lles) (ll_locdesc head) \<and>
    ll_bytes_total head = word_of_nat (length (encode_loclist debug_le64 (5, 4, 4) witness_lles))"
  proof (rule loclist_described)
    show "holds_at witness_section 1 (encode_loclist debug_le64 (5, 4, 4) witness_lles)"
      by (simp add: witness_section_encodes holds_at_def)
    have "length (encode_loclist debug_le64 (5, 4, 4) witness_lles) = 17"
      using arg_cong [OF witness_section_encodes, of length] by (simp add: witness_section_def)
    then show "1 + length (encode_loclist debug_le64 (5, 4, 4) witness_lles) \<le> ll_end_data_area witness_head"
      by (simp add: witness_head_def)
    show "\<forall>e \<in> set witness_lles. lle_well_formed (5, 4, 4) e"
      by (simp add: witness_lles_def lle_well_formed_def well_formed_def operand_kinds_def Let_def)
  qed (simp_all add: witness_head_def witness_section_def witness_lles_def)
  then obtain head where h: "loclist_of_kind 4 debug_le64 0x7000 witness_section (\<lambda>i. if i = 2 then Some 0x2000 else None) witness_head 1 =
      Some (DW_OK head)"
    "describe_all 0x7000 debug_le64 (5, 4, 4) 1 witness_lles [None, Some (0x1004, 0x1008), Some (0x2000, 0x2010)] (ll_locdesc head)"
    by (auto simp: witness_head_def witness_lles_def)
  have "length (ll_locdesc head) = Suc (Suc (Suc (Suc 0)))"
    using describe_all_length [OF h(2)] by (simp add: witness_lles_def)
  then obtain a b c d where lds: "ll_locdesc head = [a, b, c, d]"
    by (auto simp: length_Suc_conv)
  have "decoded_operations 0x7000 debug_le64 5 4 4 q 0 0 [(0x91, [Signed (- 24)])] =
    [\<lparr>lr_atom = 0x91, lr_number = - 24, lr_number2 = 0, lr_number3 = 0, lr_offset = 0, lr_opnumber = 0\<rparr>]" for q
    by (simp add: decoded_operation_def expected_numbers_def operand_kinds_def Let_def)
  then show ?thesis using h lds by (auto simp: witness_lles_def describes_def)
qed

end
