(* ===== verification/Crc.thy ===== *)
theory Crc
  imports Encoding
begin

text \<open>
  The checksum of separate debug files: \<open>dwarf_basic_crc32\<close> (\<open>dwarf_crc.c\<close>) with its table, \<open>dwarf_crc32\<close> (\<open>dwarf_crc32.c\<close>), which computes it over the
  object file in pieces, and the calls that read the file (\<open>dwarf_seekr.c\<close>). The abstract checksum shifts in one bit at a time.
\<close>

abbreviation (input) DW_DLE_SEEK_ERROR :: dle where "DW_DLE_SEEK_ERROR \<equiv> 418"
abbreviation (input) DW_DLE_READ_ERROR :: dle where "DW_DLE_READ_ERROR \<equiv> 419"

section \<open>The checksum of a buffer\<close>

definition crc32_table :: "u32 list" where
  "crc32_table = [
    0x00000000, 0x77073096, 0xee0e612c, 0x990951ba, 0x076dc419, 0x706af48f, 0xe963a535, 0x9e6495a3,
    0x0edb8832, 0x79dcb8a4, 0xe0d5e91e, 0x97d2d988, 0x09b64c2b, 0x7eb17cbd, 0xe7b82d07, 0x90bf1d91,
    0x1db71064, 0x6ab020f2, 0xf3b97148, 0x84be41de, 0x1adad47d, 0x6ddde4eb, 0xf4d4b551, 0x83d385c7,
    0x136c9856, 0x646ba8c0, 0xfd62f97a, 0x8a65c9ec, 0x14015c4f, 0x63066cd9, 0xfa0f3d63, 0x8d080df5,
    0x3b6e20c8, 0x4c69105e, 0xd56041e4, 0xa2677172, 0x3c03e4d1, 0x4b04d447, 0xd20d85fd, 0xa50ab56b,
    0x35b5a8fa, 0x42b2986c, 0xdbbbc9d6, 0xacbcf940, 0x32d86ce3, 0x45df5c75, 0xdcd60dcf, 0xabd13d59,
    0x26d930ac, 0x51de003a, 0xc8d75180, 0xbfd06116, 0x21b4f4b5, 0x56b3c423, 0xcfba9599, 0xb8bda50f,
    0x2802b89e, 0x5f058808, 0xc60cd9b2, 0xb10be924, 0x2f6f7c87, 0x58684c11, 0xc1611dab, 0xb6662d3d,
    0x76dc4190, 0x01db7106, 0x98d220bc, 0xefd5102a, 0x71b18589, 0x06b6b51f, 0x9fbfe4a5, 0xe8b8d433,
    0x7807c9a2, 0x0f00f934, 0x9609a88e, 0xe10e9818, 0x7f6a0dbb, 0x086d3d2d, 0x91646c97, 0xe6635c01,
    0x6b6b51f4, 0x1c6c6162, 0x856530d8, 0xf262004e, 0x6c0695ed, 0x1b01a57b, 0x8208f4c1, 0xf50fc457,
    0x65b0d9c6, 0x12b7e950, 0x8bbeb8ea, 0xfcb9887c, 0x62dd1ddf, 0x15da2d49, 0x8cd37cf3, 0xfbd44c65,
    0x4db26158, 0x3ab551ce, 0xa3bc0074, 0xd4bb30e2, 0x4adfa541, 0x3dd895d7, 0xa4d1c46d, 0xd3d6f4fb,
    0x4369e96a, 0x346ed9fc, 0xad678846, 0xda60b8d0, 0x44042d73, 0x33031de5, 0xaa0a4c5f, 0xdd0d7cc9,
    0x5005713c, 0x270241aa, 0xbe0b1010, 0xc90c2086, 0x5768b525, 0x206f85b3, 0xb966d409, 0xce61e49f,
    0x5edef90e, 0x29d9c998, 0xb0d09822, 0xc7d7a8b4, 0x59b33d17, 0x2eb40d81, 0xb7bd5c3b, 0xc0ba6cad,
    0xedb88320, 0x9abfb3b6, 0x03b6e20c, 0x74b1d29a, 0xead54739, 0x9dd277af, 0x04db2615, 0x73dc1683,
    0xe3630b12, 0x94643b84, 0x0d6d6a3e, 0x7a6a5aa8, 0xe40ecf0b, 0x9309ff9d, 0x0a00ae27, 0x7d079eb1,
    0xf00f9344, 0x8708a3d2, 0x1e01f268, 0x6906c2fe, 0xf762575d, 0x806567cb, 0x196c3671, 0x6e6b06e7,
    0xfed41b76, 0x89d32be0, 0x10da7a5a, 0x67dd4acc, 0xf9b9df6f, 0x8ebeeff9, 0x17b7be43, 0x60b08ed5,
    0xd6d6a3e8, 0xa1d1937e, 0x38d8c2c4, 0x4fdff252, 0xd1bb67f1, 0xa6bc5767, 0x3fb506dd, 0x48b2364b,
    0xd80d2bda, 0xaf0a1b4c, 0x36034af6, 0x41047a60, 0xdf60efc3, 0xa867df55, 0x316e8eef, 0x4669be79,
    0xcb61b38c, 0xbc66831a, 0x256fd2a0, 0x5268e236, 0xcc0c7795, 0xbb0b4703, 0x220216b9, 0x5505262f,
    0xc5ba3bbe, 0xb2bd0b28, 0x2bb45a92, 0x5cb36a04, 0xc2d7ffa7, 0xb5d0cf31, 0x2cd99e8b, 0x5bdeae1d,
    0x9b64c2b0, 0xec63f226, 0x756aa39c, 0x026d930a, 0x9c0906a9, 0xeb0e363f, 0x72076785, 0x05005713,
    0x95bf4a82, 0xe2b87a14, 0x7bb12bae, 0x0cb61b38, 0x92d28e9b, 0xe5d5be0d, 0x7cdcefb7, 0x0bdbdf21,
    0x86d3d2d4, 0xf1d4e242, 0x68ddb3f8, 0x1fda836e, 0x81be16cd, 0xf6b9265b, 0x6fb077e1, 0x18b74777,
    0x88085ae6, 0xff0f6a70, 0x66063bca, 0x11010b5c, 0x8f659eff, 0xf862ae69, 0x616bffd3, 0x166ccf45,
    0xa00ae278, 0xd70dd2ee, 0x4e048354, 0x3903b3c2, 0xa7672661, 0xd06016f7, 0x4969474d, 0x3e6e77db,
    0xaed16a4a, 0xd9d65adc, 0x40df0b66, 0x37d83bf0, 0xa9bcae53, 0xdebb9ec5, 0x47b2cf7f, 0x30b5ffe9,
    0xbdbdf21c, 0xcabac28a, 0x53b39330, 0x24b4a3a6, 0xbad03605, 0xcdd70693, 0x54de5729, 0x23d967bf,
    0xb3667a2e, 0xc4614ab8, 0x5d681b02, 0x2a6f2b94, 0xb40bbe37, 0xc30c8ea1, 0x5a05df1b, 0x2d02ef8d]"

text \<open>The loop of \<open>dwarf_basic_crc32\<close> from one pointer to the other.\<close>

function crc_loop :: "bytes \<Rightarrow> ptr \<Rightarrow> ptr \<Rightarrow> u32 \<Rightarrow> u32 dw" where
  "crc_loop buf p e crc =
     (if p < e then
        dw_bind (rd8 buf p) (\<lambda>b.
          crc_loop buf (p + 1) e (crc32_table ! unat ((crc XOR ucast b) AND 0xff) XOR drop_bit 8 crc))
      else DW_OK crc)"
  by pat_completeness auto
termination by (relation "measure (\<lambda>(buf, p, e, crc). e - p)") auto

declare crc_loop.simps [simp del]

definition basic_crc32 :: "bytes option \<Rightarrow> nat \<Rightarrow> u32 \<Rightarrow> u32 dw" where
  "basic_crc32 buf len crc =
     (case buf of
        None \<Rightarrow> DW_OK 0
      | Some buf \<Rightarrow> dw_bind (crc_loop buf 0 len (NOT crc)) (\<lambda>crc. DW_OK (NOT crc)))"

section \<open>The checksum of a file\<close>

text \<open>
  The calls of the system on the file that is open: \<open>lseek\<close> of an offset and a base returns the new position, negative when it fails; \<open>read\<close> at a
  position returns at most as many bytes as are asked for, or \<open>None\<close> when it fails.
\<close>

record file_calls =
  sys_lseek :: "u64 \<Rightarrow> int \<Rightarrow> s64"
  sys_read :: "nat \<Rightarrow> u64 \<Rightarrow> bytes option"

abbreviation (input) SEEK_SET :: int where "SEEK_SET \<equiv> 0"
abbreviation (input) SEEK_END :: int where "SEEK_END \<equiv> 2"

definition seekr :: "file_calls \<Rightarrow> u64 \<Rightarrow> int \<Rightarrow> u64 option" where
  "seekr sys loc seektype =
     (if loc <s 0 then None
      else let fsize = sys_lseek sys loc seektype in if fsize <s 0 then None else Some fsize)"

definition max_single_read :: u64 where
  "max_single_read = 0x1ffff000"

text \<open>\<open>_dwarf_readr\<close>: what is left to read and the position; at the start of each round the size is what is left.\<close>

function readr :: "file_calls \<Rightarrow> nat \<Rightarrow> u64 \<Rightarrow> bytes option" where
  "readr sys pos remaining_bytes =
     (if remaining_bytes > 0 then
        let sz = (if remaining_bytes > max_single_read then max_single_read else remaining_bytes) in
        case sys_read sys pos sz of
          None \<Rightarrow> None
        | Some data \<Rightarrow>
            if word_of_nat (length data) \<noteq> sz then None
            else map_option (\<lambda>rest. data @ rest) (readr sys (pos + length data) (remaining_bytes - sz))
      else Some [])"
  by pat_completeness auto
termination
  by (relation "measure (\<lambda>(sys, pos, n). unat n)")
     (auto simp: max_single_read_def word_less_nat_alt unat_sub word_le_nat_alt Let_def split: if_splits)

declare readr.simps [simp del]

text \<open>The loop of \<open>dwarf_crc32\<close>: what is left of the file, the size of the next piece, the position, and the checksum so far.\<close>

function crc_pieces :: "file_calls \<Rightarrow> u64 \<Rightarrow> u64 \<Rightarrow> nat \<Rightarrow> u32 \<Rightarrow> u32 dw" where
  "crc_pieces sys size_left readlenu pos init =
     (if size_left > 0 \<and> readlenu > 0 then
        let readlenu = (if size_left < readlenu then size_left else readlenu) in
        case readr sys pos readlenu of
          None \<Rightarrow> DW_ERROR DW_DLE_READ_ERROR
        | Some readbuf \<Rightarrow>
            dw_bind (basic_crc32 (Some readbuf) (unat readlenu) init) (\<lambda>tcrc.
              crc_pieces sys (size_left - readlenu) readlenu (pos + unat readlenu) tcrc)
      else DW_OK init)"
  by pat_completeness auto
termination
  by (relation "measure (\<lambda>(sys, n, len, pos, init). unat n)") (auto simp: word_less_nat_alt unat_sub word_le_nat_alt Let_def split: if_splits)

declare crc_pieces.simps [simp del]

record object_file =
  de_owns_fd :: bool
  de_fd :: int
  de_filesize :: u64

definition crc32 :: "object_file \<Rightarrow> file_calls \<Rightarrow> bool \<Rightarrow> bytes dw" where
  "crc32 dbg sys crcbuf =
     (if \<not> crcbuf then DW_NO_ENTRY
      else if \<not> de_owns_fd dbg then DW_NO_ENTRY
      else if de_fd dbg < 0 then DW_NO_ENTRY
      else
        case (if de_filesize dbg \<noteq> 0 then Some (de_filesize dbg) else seekr sys 0 SEEK_END) of
          None \<Rightarrow> DW_ERROR DW_DLE_SEEK_ERROR
        | Some fsize \<Rightarrow>
            if fsize \<le> 500 then DW_NO_ENTRY
            else
              case seekr sys 0 SEEK_SET of
                None \<Rightarrow> DW_ERROR DW_DLE_SEEK_ERROR
              | Some start \<Rightarrow> dw_bind (crc_pieces sys fsize 10000 (unat start) 0) (\<lambda>tcrc. DW_OK (le_bytes 4 (unat tcrc))))"

section \<open>Bit by bit\<close>

definition crc_bit :: "u32 \<Rightarrow> u32" where
  "crc_bit c = (if bit c 0 then drop_bit 1 c XOR 0xedb88320 else drop_bit 1 c)"

definition crc_byte :: "u32 \<Rightarrow> u8 \<Rightarrow> u32" where
  "crc_byte c b = (crc_bit ^^ 8) (c XOR ucast b)"

definition crc_of :: "u32 \<Rightarrow> bytes \<Rightarrow> u32" where
  "crc_of c bs = foldl crc_byte c bs"

lemma crc_bit_xor: "crc_bit (a XOR b) = crc_bit a XOR crc_bit b"
  by (simp add: crc_bit_def bit_xor_iff drop_bit_xor ac_simps)

lemma crc_bits_xor: "(crc_bit ^^ n) (a XOR b) = (crc_bit ^^ n) a XOR (crc_bit ^^ n) b"
  by (induction n) (simp_all add: crc_bit_xor)

lemma crc_bits_high:
  "take_bit n a = 0 \<Longrightarrow> (crc_bit ^^ n) a = drop_bit n a"
proof (induction n)
  case (Suc n)
  have no: "\<not> bit a i" if "i < Suc n" for i
    using Suc.prems that by (metis bit_take_bit_iff bit_0_eq bot_apply bot_bool_def)
  have "take_bit n a = 0" by (rule bit_eqI) (auto simp: bit_take_bit_iff no)
  then have "(crc_bit ^^ n) a = drop_bit n a" by (rule Suc.IH)
  then have "(crc_bit ^^ Suc n) a = crc_bit (drop_bit n a)" by simp
  also have "\<dots> = drop_bit 1 (drop_bit n a)" using no [of n] by (simp add: crc_bit_def [of "drop_bit n a"] bit_drop_bit_eq)
  finally show ?case by simp
qed simp

lemma eight_bits: "(crc_bit ^^ 8) c = crc_bit (crc_bit (crc_bit (crc_bit (crc_bit (crc_bit (crc_bit (crc_bit c)))))))"
  by (simp add: eval_nat_numeral)

definition all_bytes :: "u32 list" where
  "all_bytes = [
    0, 1, 2, 3, 4, 5, 6, 7, 8, 9, 10, 11, 12, 13, 14, 15, 16, 17, 18, 19, 20, 21, 22, 23, 24, 25, 26, 27, 28, 29, 30, 31,
    32, 33, 34, 35, 36, 37, 38, 39, 40, 41, 42, 43, 44, 45, 46, 47, 48, 49, 50, 51, 52, 53, 54, 55, 56, 57, 58, 59, 60, 61, 62, 63,
    64, 65, 66, 67, 68, 69, 70, 71, 72, 73, 74, 75, 76, 77, 78, 79, 80, 81, 82, 83, 84, 85, 86, 87, 88, 89, 90, 91, 92, 93, 94, 95,
    96, 97, 98, 99, 100, 101, 102, 103, 104, 105, 106, 107, 108, 109, 110, 111, 112, 113, 114, 115, 116, 117, 118, 119, 120, 121, 122, 123, 124, 125, 126, 127,
    128, 129, 130, 131, 132, 133, 134, 135, 136, 137, 138, 139, 140, 141, 142, 143, 144, 145, 146, 147, 148, 149, 150, 151, 152, 153, 154, 155, 156, 157, 158, 159,
    160, 161, 162, 163, 164, 165, 166, 167, 168, 169, 170, 171, 172, 173, 174, 175, 176, 177, 178, 179, 180, 181, 182, 183, 184, 185, 186, 187, 188, 189, 190, 191,
    192, 193, 194, 195, 196, 197, 198, 199, 200, 201, 202, 203, 204, 205, 206, 207, 208, 209, 210, 211, 212, 213, 214, 215, 216, 217, 218, 219, 220, 221, 222, 223,
    224, 225, 226, 227, 228, 229, 230, 231, 232, 233, 234, 235, 236, 237, 238, 239, 240, 241, 242, 243, 244, 245, 246, 247, 248, 249, 250, 251, 252, 253, 254, 255]"

lemma all_bytes_eq: "all_bytes = map word_of_nat [0..<256]"
proof -
  have "[0..<256] = [0..<2] @ [numeral (num.Bit0 num.One)..<256]" using upt_add_eq_append [of 0 2 254] by simp
  moreover have "[0..<2] = [0, 1 :: nat]" by (simp add: upt_rec)
  ultimately show ?thesis by (simp add: all_bytes_def)
qed

lemma crc32_table_entries: "map (crc_bit ^^ 8) all_bytes = crc32_table"
  unfolding all_bytes_def crc32_table_def list.map eight_bits by (simp add: crc_bit_def)

lemma word_of_unat: "word_of_nat (unat w) = (w :: 'a :: len word)"
  by (simp add: word_unat_eq_iff unsigned_of_nat take_bit_nat_eq_self_iff unsigned_less)

lemma table_entry: "i < 256 \<Longrightarrow> crc32_table ! i = (crc_bit ^^ 8) (word_of_nat i)"
  unfolding crc32_table_entries [symmetric] all_bytes_eq by (simp del: funpow.simps)

text \<open>One round of the loop shifts in the eight bits of a byte.\<close>

lemma crc_round: "crc32_table ! unat ((c XOR ucast b) AND 0xff) XOR drop_bit 8 c = crc_byte c b"
proof -
  let ?d = "c XOR ucast (b :: u8) :: u32"
  have low: "?d AND 0xff = take_bit 8 ?d" using take_bit_eq_mask [of 8 ?d] by (simp add: mask_eq_exp_minus_1)
  have "unat (take_bit 8 ?d) = take_bit 8 (unat ?d)" by (simp only: unsigned_take_bit_eq)
  then have "unat (take_bit 8 ?d) < 256" using take_bit_nat_less_exp [of 8 "unat ?d"] by (simp only:) simp
  then have t: "crc32_table ! unat (take_bit 8 ?d) = (crc_bit ^^ 8) (take_bit 8 ?d)" by (simp only: table_entry word_of_unat)
  have "take_bit 8 (push_bit 8 (drop_bit 8 ?d)) = 0" by (rule bit_word_eqI) (simp add: bit_simps)
  moreover have "drop_bit 8 (push_bit 8 (drop_bit 8 ?d)) = drop_bit 8 c" by (rule bit_word_eqI) (auto simp: bit_simps dest: bit_imp_le_length)
  ultimately have h: "(crc_bit ^^ 8) (push_bit 8 (drop_bit 8 ?d)) = drop_bit 8 c" by (simp only: crc_bits_high)
  have "?d = take_bit 8 ?d XOR push_bit 8 (drop_bit 8 ?d)"
    by (rule bit_word_eqI) (auto simp: bit_simps not_less, metis le_add_diff_inverse not_less)
  then have "(crc_bit ^^ 8) ?d = (crc_bit ^^ 8) (take_bit 8 ?d) XOR (crc_bit ^^ 8) (push_bit 8 (drop_bit 8 ?d))"
    by (metis crc_bits_xor)
  then show ?thesis by (simp only: crc_byte_def low t h)
qed

section \<open>The checksum of the file\<close>

lemma crc_loop_of: "e \<le> length buf \<Longrightarrow> crc_loop buf p e c = DW_OK (crc_of c (seg buf p e))"
proof (induction buf p e c rule: crc_loop.induct)
  case (1 buf p e c)
  show ?case
  proof (cases "p < e")
    case True
    then show ?thesis using 1(1) [OF True, of "buf ! p"] 1(2)
      by (subst crc_loop.simps) (simp add: rd8_def crc_round crc_of_def seg_Cons)
  qed (simp add: crc_loop.simps crc_of_def)
qed

lemma basic_crc32_of: "basic_crc32 (Some buf) (length buf) crc = DW_OK (NOT (crc_of (NOT crc) buf))"
  by (simp add: basic_crc32_def crc_loop_of seg_def)

lemma crc_of_append: "crc_of c (xs @ ys) = crc_of (crc_of c xs) ys"
  by (simp add: crc_of_def)

text \<open>A regular file: reading returns what is there.\<close>

definition regular_file :: "file_calls \<Rightarrow> bytes \<Rightarrow> bool" where
  "regular_file sys contents \<longleftrightarrow>
     (\<forall>pos n. sys_read sys pos n = Some (take (unat n) (drop pos contents))) \<and>
     sys_lseek sys 0 SEEK_SET = 0 \<and> sys_lseek sys 0 SEEK_END = word_of_nat (length contents)"

lemma readr_regular:
  assumes "regular_file sys contents" "pos + unat n \<le> length contents"
  shows "readr sys pos n = Some (take (unat n) (drop pos contents))"
  using assms
proof (induction sys pos n rule: readr.induct)
  case (1 sys pos n)
  show ?case
  proof (cases "n > 0")
    case True
    define m where m: "m = (if n > max_single_read then max_single_read else n)"
    define data where data: "data = take (unat m) (drop pos contents)"
    have n: "unat m \<le> unat n" by (simp add: m word_less_nat_alt)
    have len: "length data = unat m" "word_of_nat (length data) = m" using 1(3) n by (simp_all add: data word_of_unat)
    have read: "sys_read sys pos m = Some data" using 1(2) by (simp add: regular_file_def data)
    have rest: "unat (n - m) = unat n - unat m" using n by (simp add: unat_sub_if_size)
    have "readr sys (pos + length data) (n - m) = Some (take (unat (n - m)) (drop (pos + length data) contents))"
      using 1(2,3) n len rest by (intro 1(1) [OF True m read]) simp_all
    moreover have "data @ take (unat n - unat m) (drop (pos + unat m) contents) = take (unat n) (drop pos contents)"
      unfolding data using n by (metis add.commute drop_drop le_add_diff_inverse take_add)
    ultimately show ?thesis using True read len rest
      by (subst readr.simps) (simp add: Let_def m [symmetric])
  next
    case False
    then have "n = 0" by (simp add: word_gt_0)
    then show ?thesis by (simp add: readr.simps)
  qed
qed

lemma crc_pieces_of:
  assumes "regular_file sys contents" "pos + unat size_left = length contents" "0 < readlenu" "unat readlenu \<le> 10000"
  shows "crc_pieces sys size_left readlenu pos init = DW_OK (NOT (crc_of (NOT init) (drop pos contents)))"
  using assms
proof (induction sys size_left readlenu pos init rule: crc_pieces.induct)
  case (1 sys size_left readlenu pos init)
  show ?case
  proof (cases "size_left > 0")
    case True
    define m where m: "m = (if size_left < readlenu then size_left else readlenu)"
    define buf where buf: "buf = take (unat m) (drop pos contents)"
    have n: "unat m \<le> unat size_left" "0 < m" "unat m \<le> 10000" using True 1(4,5) by (simp_all add: m word_less_nat_alt not_less)
    have read: "readr sys pos m = Some buf" unfolding buf using 1(2,3) n by (intro readr_regular) simp_all
    have "length buf = unat m" using 1(3) n by (simp add: buf)
    then have crc: "basic_crc32 (Some buf) (unat m) init = DW_OK (NOT (crc_of (NOT init) buf))"
      using basic_crc32_of [of buf init] by (simp only:)
    have rest: "unat (size_left - m) = unat size_left - unat m" using n by (simp add: unat_sub_if_size)
    have "crc_pieces sys (size_left - m) m (pos + unat m) (NOT (crc_of (NOT init) buf)) =
        DW_OK (NOT (crc_of (NOT (NOT (crc_of (NOT init) buf))) (drop (pos + unat m) contents)))"
      using 1(2,3) True 1(4) n rest by (intro 1(1) [OF _ m read crc]) simp_all
    moreover have "buf @ drop (pos + unat m) contents = drop pos contents"
      unfolding buf by (metis add.commute append_take_drop_id drop_drop)
    ultimately show ?thesis using True 1(4) read crc crc_of_append [of "NOT init" buf "drop (pos + unat m) contents"]
      by (subst crc_pieces.simps) (simp add: Let_def m [symmetric])
  next
    case False
    then have "size_left = 0" by (simp add: word_gt_0)
    then show ?thesis using 1(3) by (simp add: crc_pieces.simps crc_of_def)
  qed
qed

section \<open>Detection of bursts\<close>

lemma xor_cancel: "(a XOR c = b XOR c) = (a = (b :: u32))"
proof
  assume "a XOR c = b XOR c"
  then have "(a XOR c) XOR c = (b XOR c) XOR c" by simp
  then show "a = b" by (simp add: xor.assoc)
qed simp

lemma crc_bit_inject: "crc_bit a = crc_bit b \<Longrightarrow> a = b"
proof -
  assume e: "crc_bit a = crc_bit b"
  have top: "bit (crc_bit c) 31 = bit c 0" for c
    by (simp add: crc_bit_def bit_simps) (auto dest: bit_imp_le_length)
  then have "bit a 0 = bit b 0" using e by metis
  then have d: "drop_bit 1 a = drop_bit 1 b"
    using e by (cases "bit a 0") (simp_all only: crc_bit_def if_True if_False xor_cancel)
  show ?thesis
  proof (rule bit_eqI)
    fix n
    show "bit a n = bit b n"
    proof (cases n)
      case 0
      then show ?thesis using \<open>bit a 0 = bit b 0\<close> by simp
    next
      case (Suc m)
      then show ?thesis using arg_cong [OF d, of "\<lambda>w. bit w m"] by (simp add: bit_drop_bit_eq)
    qed
  qed
qed

lemma crc_bits_inject: "(crc_bit ^^ n) a = (crc_bit ^^ n) b \<Longrightarrow> a = b"
  by (induction n) (auto dest: crc_bit_inject)

lemma crc_of_inject: "crc_of a bs = crc_of b bs \<Longrightarrow> a = b"
proof (induction bs arbitrary: a b)
  case (Cons x bs)
  then have "crc_byte a x = crc_byte b x" by (simp add: crc_of_def)
  then have "a XOR ucast x = b XOR ucast x" unfolding crc_byte_def by (rule crc_bits_inject)
  then show ?case by (simp only: xor_cancel)
qed (simp add: crc_of_def)

text \<open>Up to four bytes are shifted in at once.\<close>

fun word_of_bytes :: "bytes \<Rightarrow> u32" where
  "word_of_bytes [] = 0"
| "word_of_bytes (b # bs) = ucast b XOR push_bit 8 (word_of_bytes bs)"

lemma bit_word_of_bytes: "bit (word_of_bytes bs) i \<Longrightarrow> i < 8 * length bs"
proof (induction bs arbitrary: i)
  case (Cons b bs)
  show ?case
  proof (rule ccontr)
    assume "\<not> i < 8 * length (b # bs)"
    then have i: "8 \<le> i" "\<not> i - 8 < 8 * length bs" by auto
    then have "\<not> bit (word_of_bytes bs) (i - 8)" "\<not> bit b i" using Cons.IH bit_imp_le_length [of b i] by auto
    then show False using Cons.prems by (simp add: bit_simps)
  qed
qed simp

lemma push_word_of_bytes:
  assumes "length bs \<le> 3"
  shows "drop_bit 8 (push_bit 8 (word_of_bytes bs)) = word_of_bytes bs"
proof (rule bit_word_eqI)
  fix i
  show "bit (drop_bit 8 (push_bit 8 (word_of_bytes bs))) i = bit (word_of_bytes bs) i"
    using bit_word_of_bytes [of bs i] assms by (auto simp: bit_simps)
qed

lemma word_of_bytes_inject:
  "length xs = length ys \<Longrightarrow> length xs \<le> 4 \<Longrightarrow> word_of_bytes xs = word_of_bytes ys \<Longrightarrow> xs = ys"
proof (induction xs ys rule: list_induct2)
  case (Cons x xs y ys)
  have low: "ucast b = take_bit 8 (word_of_bytes (b # bs))" for b :: u8 and bs
    by (rule bit_word_eqI) (auto simp: bit_simps dest: bit_imp_le_length)
  have high: "word_of_bytes bs = drop_bit 8 (word_of_bytes (b # bs))" if "length bs \<le> 3" for b bs
  proof -
    have "drop_bit 8 (ucast b :: u32) = 0" by (rule bit_word_eqI) (auto simp: bit_simps dest: bit_imp_le_length)
    then show ?thesis using push_word_of_bytes [OF that] by (simp add: drop_bit_xor)
  qed
  have "(ucast x :: u32) = ucast y" using Cons.prems(2) by (simp only: low [of x xs] low [of y ys])
  then have "x = y" 
    using order_less_trans [OF unsigned_less [of x], of "2 ^ 32 :: nat"] order_less_trans [OF unsigned_less [of y], of "2 ^ 32 :: nat"]
    by (simp add: word_unat_eq_iff unsigned_ucast_eq take_bit_nat_eq_self)
  moreover have "word_of_bytes xs = word_of_bytes ys"
    using Cons.prems Cons.hyps by (simp only: high [of xs x] high [of ys y] list.size)
  ultimately show ?case using Cons by simp
qed simp

lemma crc_of_word: "length bs \<le> 4 \<Longrightarrow> crc_of c bs = (crc_bit ^^ (8 * length bs)) (c XOR word_of_bytes bs)"
proof (induction bs arbitrary: c)
  case (Cons b bs)
  let ?w = "word_of_bytes bs"
  have "take_bit 8 (push_bit 8 ?w) = 0" by (rule bit_word_eqI) (simp add: bit_simps)
  then have "(crc_bit ^^ 8) (push_bit 8 ?w) = ?w" using Cons.prems by (simp only: crc_bits_high push_word_of_bytes list.size)
  then have "crc_byte c b XOR ?w = (crc_bit ^^ 8) (c XOR word_of_bytes (b # bs))"
    by (simp only: crc_byte_def word_of_bytes.simps crc_bits_xor xor.assoc)
  moreover have "crc_of c (b # bs) = (crc_bit ^^ (8 * length bs)) (crc_byte c b XOR ?w)"
    using Cons by (simp add: crc_of_def)
  moreover have "8 * length (b # bs) = 8 * length bs + 8" by simp
  ultimately show ?case by (simp only: funpow_add comp_apply)
qed (simp add: crc_of_def)

text \<open>
  C26: Two buffers that differ within four bytes next to one another have different checksums, so damage of up to 32 bits in a row is always noticed.
\<close>

theorem crc32_burst:
  assumes "length xs = length ys" "length xs \<le> 4" "xs \<noteq> ys"
  shows "basic_crc32 (Some (pre @ xs @ post)) (length (pre @ xs @ post)) crc \<noteq>
    basic_crc32 (Some (pre @ ys @ post)) (length (pre @ ys @ post)) crc"
proof
  assume "basic_crc32 (Some (pre @ xs @ post)) (length (pre @ xs @ post)) crc =
    basic_crc32 (Some (pre @ ys @ post)) (length (pre @ ys @ post)) crc"
  then have "crc_of (NOT crc) (pre @ xs @ post) = crc_of (NOT crc) (pre @ ys @ post)"
    by (simp only: basic_crc32_of dw.inject bit.compl_eq_compl_iff)
  then have "crc_of (crc_of (NOT crc) pre) xs = crc_of (crc_of (NOT crc) pre) ys"
    by (simp only: crc_of_append) (rule crc_of_inject)
  then have "crc_of (NOT crc) pre XOR word_of_bytes xs = crc_of (NOT crc) pre XOR word_of_bytes ys"
    using assms(1,2) by (simp add: crc_of_word) (rule crc_bits_inject)
  then have "word_of_bytes xs = word_of_bytes ys" by (simp only: xor.commute [of "crc_of (NOT crc) pre"] xor_cancel)
  then show False using assms word_of_bytes_inject by blast
qed

lemma crc32_burst_witness:
  "basic_crc32 (Some [1, 2, 3, 4]) 4 0 \<noteq> basic_crc32 (Some [1, 3, 2, 4]) 4 0"
  using crc32_burst [of "[2, 3]" "[3, 2]" "[1]" "[4]" 0] by (simp add: eval_nat_numeral)

text \<open>
  C17: The table-driven checksum of a file, computed in pieces of at most 10000 bytes, is the bit by bit checksum of its whole contents, whatever
  its length above the 500 bytes an object file must have.
\<close>

theorem crc32_of_file:
  assumes "regular_file sys contents" "500 < length contents" "length contents < 2 ^ 63"
    and "de_owns_fd dbg" "0 \<le> de_fd dbg" "de_filesize dbg \<in> {0, word_of_nat (length contents)}"
  shows "crc32 dbg sys True = DW_OK (le_bytes 4 (unat (NOT (crc_of (NOT 0) contents))))"
proof -
  have u: "unat (word_of_nat (length contents) :: u64) = length contents" "\<not> (word_of_nat (length contents) :: u64) <s 0"
    using assms(3) by (simp_all add: unsigned_of_nat take_bit_nat_eq_self_iff word_sless_alt signed_of_nat signed_take_bit_int_eq_self)
  have seek: "seekr sys 0 SEEK_END = Some (word_of_nat (length contents))" "seekr sys 0 SEEK_SET = Some 0"
    using assms(1) u(2) by (simp_all add: seekr_def regular_file_def)
  have "(if de_filesize dbg \<noteq> 0 then Some (de_filesize dbg) else seekr sys 0 SEEK_END) = Some (word_of_nat (length contents))"
    using assms(6) seek by auto
  moreover have "\<not> (word_of_nat (length contents) :: u64) \<le> 500" using assms(2) u by (simp add: word_le_nat_alt)
  moreover have "crc_pieces sys (word_of_nat (length contents)) 10000 0 0 = DW_OK (NOT (crc_of (NOT 0) contents))"
    using crc_pieces_of [OF assms(1), of 0 "word_of_nat (length contents)" 10000 0] u by simp
  ultimately show ?thesis using assms(4,5) seek by (simp add: crc32_def)
qed

definition zero_file :: file_calls where
  "zero_file = \<lparr>sys_lseek = (\<lambda>loc seektype. if seektype = SEEK_END then 501 else 0),
                sys_read = (\<lambda>pos n. Some (take (unat n) (drop pos (replicate 501 0))))\<rparr>"

lemma crc32_of_file_witness:
  "crc32 \<lparr>de_owns_fd = True, de_fd = 3, de_filesize = 0\<rparr> zero_file True =
     DW_OK (le_bytes 4 (unat (NOT (crc_of (NOT 0) (replicate 501 0)))))"
  using crc32_of_file [of zero_file "replicate 501 0" "\<lparr>de_owns_fd = True, de_fd = 3, de_filesize = 0\<rparr>"]
  by (simp add: regular_file_def zero_file_def)

end
