(* ===== verification/FrameSection.thy ===== *)
theory FrameSection
  imports FrameQuery LocOps Forms
begin

text \<open>
  Reading a frame section (\<open>dwarf_frame2.c\<close>): the prefix of an entry, augmentations, CIEs, FDEs, and \<open>_dwarf_get_fde_list_internal\<close>, which walks over
  \<open>.debug_frame\<close> or \<open>.eh_frame\<close> and yields the arrays of CIEs and of FDEs in address order. The section is the list of bytes the walk is given; pointers
  into it are offsets, and the address it has in memory is an argument because one test depends on it. The sort of the C library is an argument as well.
\<close>

abbreviation (input) DW_DLE_NE :: dle where "DW_DLE_NE \<equiv> 0"
abbreviation (input) DW_DLE_DEBUG_FRAME_LENGTH_BAD :: dle where "DW_DLE_DEBUG_FRAME_LENGTH_BAD \<equiv> 89"
abbreviation (input) DW_DLE_FRAME_VERSION_BAD :: dle where "DW_DLE_FRAME_VERSION_BAD \<equiv> 90"
abbreviation (input) DW_DLE_CIE_RET_ADDR_REG_ERROR :: dle where "DW_DLE_CIE_RET_ADDR_REG_ERROR \<equiv> 91"
abbreviation (input) DW_DLE_FRAME_AUGMENTATION_UNKNOWN :: dle where "DW_DLE_FRAME_AUGMENTATION_UNKNOWN \<equiv> 195"
abbreviation (input) DW_DLE_FRAME_CIE_DECODE_ERROR :: dle where "DW_DLE_FRAME_CIE_DECODE_ERROR \<equiv> 200"
abbreviation (input) DW_DLE_ORPHAN_FDE :: dle where "DW_DLE_ORPHAN_FDE \<equiv> 221"
abbreviation (input) DW_DLE_DEBUG_FRAME_POSSIBLE_ADDRESS_BOTCH :: dle where "DW_DLE_DEBUG_FRAME_POSSIBLE_ADDRESS_BOTCH \<equiv> 229"
abbreviation (input) DW_DLE_AUGMENTATION_STRING_OFF_END :: dle where "DW_DLE_AUGMENTATION_STRING_OFF_END \<equiv> 362"
abbreviation (input) DW_DLE_AUG_DATA_LENGTH_BAD :: dle where "DW_DLE_AUG_DATA_LENGTH_BAD \<equiv> 393"

section \<open>Data\<close>

text \<open>
  What a walk works on: the debug object, the section, the address it stands at in memory, its virtual address, the value that marks a CIE, and whether the
  section is \<open>.eh_frame\<close>.
\<close>

record frame_source =
  fx_dbg :: dwarf_debug
  fx_buf :: bytes
  fx_base :: u64
  fx_dss_addr :: u64
  fx_cie_id_value :: u64
  fx_use_gnu_cie_calc :: bool

datatype augmentation_type = aug_empty_string | aug_irix_exception_table | aug_gcc_eh_z | aug_irix_mti_v1 | aug_eh | aug_armcc | aug_unknown | aug_metaware

text \<open>The structures with the fields the reader adds to those the queries use.\<close>

record section_cie = cie +
  ci_augmentation_type :: augmentation_type
  ci_gnu_personality_handler_encoding :: u8
  ci_gnu_lsda_encoding :: u8
  ci_gnu_fde_begin_encoding :: u8
  ci_gnu_personality_handler_addr :: u64
  ci_index :: u64
  ci_section_end :: ptr
  ci_segment_size :: u16

record section_fde = fde +
  fd_initial_loc_pos :: ptr
  fd_eh_table_value :: "u64 option"
  fd_section_end :: ptr

record cie_fde_prefix =
  cf_start_addr :: ptr
  cf_addr_after_prefix :: ptr
  cf_length :: u64
  cf_local_length_size :: nat
  cf_local_extension_size :: nat
  cf_cie_id :: u64
  cf_cie_id_addr :: ptr

section \<open>The prefix of an entry\<close>

text \<open>\<open>_dwarf_read_cie_fde_prefix\<close>; the pointer has been compared with the start of the section before.\<close>

definition read_cie_fde_prefix :: "frame_source \<Rightarrow> ptr \<Rightarrow> cie_fde_prefix dw" where
  "read_cie_fde_prefix src frame_ptr_in =
     (let dbg = fx_dbg src; buf = fx_buf src; section_end = length buf; section_length = word_of_nat (length buf) :: u64 in
      if frame_ptr_in \<ge> section_end then DW_ERROR DW_DLE_DEBUG_FRAME_LENGTH_BAD
      else if section_end < frame_ptr_in + 4 then DW_ERROR DW_DLE_DEBUG_FRAME_LENGTH_BAD
      else
        dw_bind (read_area_length_ck dbg buf frame_ptr_in section_length section_end) (\<lambda>((len, local_length_size, local_extension_size), frame_ptr).
        if len = 0 then DW_NO_ENTRY
        else if len \<ge> de_filesize dbg then DW_ERROR DW_DLE_DEBUG_FRAME_LENGTH_BAD
        else if len > section_length \<or> len + word_of_nat local_length_size + word_of_nat local_extension_size > section_length
        then DW_ERROR DW_DLE_DEBUG_FRAME_LENGTH_BAD
        else if frame_ptr + local_length_size \<ge> section_end then DW_ERROR DW_DLE_DEBUG_FRAME_LENGTH_BAD
        else
          dw_bind (read_unaligned_ck dbg buf frame_ptr local_length_size section_end) (\<lambda>cie_id.
          if frame_ptr + unat len > section_end then DW_ERROR DW_DLE_DEBUG_FRAME_LENGTH_BAD
          else DW_OK \<lparr>cf_start_addr = frame_ptr_in, cf_addr_after_prefix = frame_ptr + local_length_size, cf_length = len,
                      cf_local_length_size = local_length_size, cf_local_extension_size = local_extension_size,
                      cf_cie_id = SIGN_EXTEND cie_id local_length_size, cf_cie_id_addr = frame_ptr\<rparr>)))"

definition cf_end :: "cie_fde_prefix \<Rightarrow> ptr" where
  "cf_end prefix = cf_start_addr prefix + unat (cf_length prefix) + cf_local_length_size prefix + cf_local_extension_size prefix"

section \<open>Augmentations\<close>

definition chars :: "string \<Rightarrow> bytes" where
  "chars s = map (\<lambda>c. of_char c) s"

definition get_augmentation_type :: "bytes \<Rightarrow> bool \<Rightarrow> augmentation_type" where
  "get_augmentation_type ag_string is_gcc_eh_frame =
     (if ag_string = [] then aug_empty_string
      else if ag_string = chars ''mti v1'' then aug_irix_mti_v1
      else if ag_string ! 0 = of_char (CHR ''z'') then
        if is_gcc_eh_frame then aug_gcc_eh_z
        else if length ag_string = 1 then aug_irix_exception_table
        else aug_unknown
      else if take 2 ag_string = chars ''eh'' then aug_eh
      else if ag_string = chars ''armcc+'' then aug_armcc
      else if ag_string = chars ''HC'' then aug_metaware
      else aug_unknown)"

abbreviation (input) DW_EH_PE_pcrel :: u8 where "DW_EH_PE_pcrel \<equiv> 0x10"

text \<open>\<open>_dwarf_read_encoded_ptr\<close>: the address and the pointer behind it; \<open>section_pointer\<close> tells whether that argument is not null.\<close>

definition read_encoded_ptr :: "frame_source \<Rightarrow> bool \<Rightarrow> ptr \<Rightarrow> u8 \<Rightarrow> ptr \<Rightarrow> u16 \<Rightarrow> (u64 \<times> ptr) dw" where
  "read_encoded_ptr src section_pointer input_field gnu_encoding section_end addr_size =
     (let dbg = fx_dbg src; buf = fx_buf src; value_type = gnu_encoding AND 0xf;
          fixed = (\<lambda>n. dw_bind (read_unaligned_ck dbg buf input_field n section_end) (\<lambda>v. DW_OK (v, input_field + n)));
          signed = (\<lambda>n. dw_bind (read_unaligned_ck dbg buf input_field n section_end) (\<lambda>v. DW_OK (SIGN_EXTEND v n, input_field + n)))
      in if gnu_encoding = 0xff then DW_OK (0, input_field)
         else
           dw_bind
             (if value_type = 0 then fixed (unat addr_size)
              else if value_type = 1 then leb128_uword_wrapper buf input_field section_end
              else if value_type = 2 then fixed 2
              else if value_type = 3 then fixed 4
              else if value_type = 4 then fixed 8
              else if value_type = 9 then leb128_sword_wrapper buf input_field section_end
              else if value_type = 0xa then signed 2
              else if value_type = 0xb then signed 4
              else if value_type = 0xc then fixed 8
              else DW_ERROR DW_DLE_FRAME_AUGMENTATION_UNKNOWN)
             (\<lambda>(addr, updated).
                if section_pointer \<and> gnu_encoding AND 0x70 = DW_EH_PE_pcrel
                then DW_OK (addr + (fx_dss_addr src + word_of_nat input_field), updated)
                else DW_OK (addr, updated)))"

record gnu_encodings =
  pers_hand_enc :: u8
  lsda_enc :: u8
  fde_begin_enc :: u8
  gnu_pers_addr :: u64

definition no_encodings :: gnu_encodings where
  "no_encodings = \<lparr>pers_hand_enc = 0, lsda_enc = 0, fde_begin_enc = 0, gnu_pers_addr = 0\<rparr>"

text \<open>\<open>_dwarf_gnu_aug_encodings\<close> from a character of the augmentation on.\<close>

fun gnu_aug_encodings :: "frame_source \<Rightarrow> bytes \<Rightarrow> ptr \<Rightarrow> ptr \<Rightarrow> u16 \<Rightarrow> gnu_encodings \<Rightarrow> gnu_encodings dw" where
  "gnu_aug_encodings src [] cur_aug_p end_aug_p addr_size enc = DW_OK enc"
| "gnu_aug_encodings src (c # nc) cur_aug_p end_aug_p addr_size enc =
     (if c = of_char (CHR ''z'') \<or> c = of_char (CHR ''S'') then gnu_aug_encodings src nc cur_aug_p end_aug_p addr_size enc
      else if c = of_char (CHR ''L'') then
        if cur_aug_p \<ge> end_aug_p then DW_ERROR DW_DLE_FRAME_AUGMENTATION_UNKNOWN
        else dw_bind (rd8 (fx_buf src) cur_aug_p) (\<lambda>b. gnu_aug_encodings src nc (cur_aug_p + 1) end_aug_p addr_size (enc\<lparr>lsda_enc := b\<rparr>))
      else if c = of_char (CHR ''R'') then
        if cur_aug_p \<ge> end_aug_p then DW_ERROR DW_DLE_FRAME_AUGMENTATION_UNKNOWN
        else dw_bind (rd8 (fx_buf src) cur_aug_p) (\<lambda>b. gnu_aug_encodings src nc (cur_aug_p + 1) end_aug_p addr_size (enc\<lparr>fde_begin_enc := b\<rparr>))
      else if c = of_char (CHR ''P'') then
        if cur_aug_p \<ge> end_aug_p then DW_ERROR DW_DLE_FRAME_AUGMENTATION_UNKNOWN
        else
          dw_bind (rd8 (fx_buf src) cur_aug_p) (\<lambda>encoding.
          dw_bind (read_encoded_ptr src False (cur_aug_p + 1) encoding end_aug_p addr_size) (\<lambda>(addr, updated_aug_p).
            if updated_aug_p > end_aug_p then DW_ERROR DW_DLE_FRAME_AUGMENTATION_UNKNOWN
            else gnu_aug_encodings src nc updated_aug_p end_aug_p addr_size (enc\<lparr>pers_hand_enc := encoding, gnu_pers_addr := addr\<rparr>)))
      else DW_ERROR DW_DLE_FRAME_AUGMENTATION_UNKNOWN)"

text \<open>\<open>_dwarf_get_gcc_eh_augmentation\<close> as it is called, for the prefix \<open>eh\<close>: there must be no suffix, and there is no data to skip.\<close>

definition get_gcc_eh_augmentation :: "bytes \<Rightarrow> nat dw" where
  "get_gcc_eh_augmentation augmentation =
     (if drop 2 augmentation \<noteq> [] then DW_ERROR DW_DLE_FRAME_AUGMENTATION_UNKNOWN else DW_OK 0)"

section \<open>A CIE\<close>

text \<open>The sizes a CIE of version 4 has after its augmentation.\<close>

definition read_cie_sizes :: "frame_source \<Rightarrow> u8 \<Rightarrow> ptr \<Rightarrow> (u16 \<times> u16 \<times> ptr) dw" where
  "read_cie_sizes src version frame_ptr =
     (let buf = fx_buf src; section_end = length buf in
      if version = 4 then
        if frame_ptr + 2 \<ge> section_end then DW_ERROR DW_DLE_DEBUG_FRAME_LENGTH_BAD
        else
          dw_bind (rd8 buf frame_ptr) (\<lambda>addr_size.
          if addr_size < 1 then DW_ERROR DW_DLE_ADDRESS_SIZE_ZERO
          else if addr_size > 8 then DW_ERROR DW_DLE_ADDRESS_SIZE_ERROR
          else
            dw_bind (rd8 buf (frame_ptr + 1)) (\<lambda>segment_size.
            if segment_size > 8 then DW_ERROR DW_DLE_SEGMENT_SIZE_BAD
            else DW_OK (ucast addr_size, ucast segment_size, frame_ptr + 2)))
      else DW_OK (ucast (de_pointer_size (fx_dbg src)), 0, frame_ptr))"

text \<open>
  The alignment factors and the return address register. The signed decoder is called without its macro, so its failure leaves no error object
  behind: error number \<open>DW_DLE_NE\<close>.
\<close>

definition read_cie_factors :: "frame_source \<Rightarrow> u8 \<Rightarrow> ptr \<Rightarrow> (u64 \<times> s64 \<times> u64 \<times> ptr) dw" where
  "read_cie_factors src version frame_ptr =
     (let dbg = fx_dbg src; buf = fx_buf src; section_end = length buf in
      if frame_ptr + 2 \<ge> section_end then DW_ERROR DW_DLE_DEBUG_FRAME_LENGTH_BAD
      else
        dw_bind (leb128_uword_wrapper buf frame_ptr section_end) (\<lambda>(code_alignment_factor, frame_ptr).
        case decode_signed_leb128 buf frame_ptr True section_end of
          LEB_FAULT \<Rightarrow> FAULT
        | LEB_ERROR _ \<Rightarrow> DW_ERROR DW_DLE_NE
        | LEB_OK leb128_length data_alignment_factor \<Rightarrow>
            let frame_ptr = frame_ptr + leb128_length in
            if frame_ptr + 1 \<ge> section_end then DW_ERROR DW_DLE_DEBUG_FRAME_LENGTH_BAD
            else
              dw_bind (get_return_address_reg buf frame_ptr (uint version) section_end) (\<lambda>(return_address_register, sz).
              if return_address_register \<noteq> de_frame_cfa_col_number dbg \<and>
                 return_address_register > de_frame_reg_rules_entry_count dbg
              then DW_ERROR DW_DLE_CIE_RET_ADDR_REG_ERROR
              else if frame_ptr + sz > section_end then DW_ERROR DW_DLE_DEBUG_FRAME_LENGTH_BAD
              else DW_OK (code_alignment_factor, data_alignment_factor, return_address_register, frame_ptr + sz))))"

text \<open>
  The switch on the kind of augmentation: the pointer to the instructions, the length and place of the augmentation data, and the encodings.
\<close>

definition read_cie_augmentation ::
  "frame_source \<Rightarrow> cie_fde_prefix \<Rightarrow> augmentation_type \<Rightarrow> bytes \<Rightarrow> u16 \<Rightarrow> ptr \<Rightarrow> (ptr \<times> u64 \<times> ptr \<times> gnu_encodings) dw"
where
  "read_cie_augmentation src prefix augt augmentation addr_size frame_ptr =
     (let dbg = fx_dbg src; buf = fx_buf src; section_end = length buf;
          plain = (\<lambda>frame_ptr. DW_OK (frame_ptr, 0, 0, no_encodings));
          unknown = (if cf_end prefix > section_end then DW_ERROR DW_DLE_DEBUG_FRAME_LENGTH_BAD else plain (cf_end prefix))
      in case augt of
        aug_empty_string \<Rightarrow> plain frame_ptr
      | aug_irix_mti_v1 \<Rightarrow> plain frame_ptr
      | aug_irix_exception_table \<Rightarrow>
          dw_bind (leb128_uword_wrapper buf frame_ptr section_end) (\<lambda>(length_of_augmented_fields, frame_ptr).
            if length_of_augmented_fields \<ge> de_filesize dbg then DW_ERROR DW_DLE_DEBUG_FRAME_LENGTH_BAD
            else plain (frame_ptr + unat length_of_augmented_fields))
      | aug_eh \<Rightarrow>
          if \<not> fx_use_gnu_cie_calc src then DW_ERROR DW_DLE_FRAME_AUGMENTATION_UNKNOWN
          else dw_bind (get_gcc_eh_augmentation augmentation) (\<lambda>increment. plain (frame_ptr + increment))
      | aug_gcc_eh_z \<Rightarrow>
          if frame_ptr + 1 > section_end then DW_ERROR DW_DLE_DEBUG_FRAME_LENGTH_BAD
          else
            dw_bind (leb128_uword_wrapper buf frame_ptr section_end) (\<lambda>(adlen, cie_aug_data).
            if adlen \<noteq> 0 \<and> cie_aug_data + unat adlen > section_end then DW_ERROR DW_DLE_AUG_DATA_LENGTH_BAD
            else
              case gnu_aug_encodings src augmentation cie_aug_data (cie_aug_data + unat adlen) addr_size no_encodings of
                DW_OK enc \<Rightarrow> DW_OK (cie_aug_data + unat adlen, adlen, cie_aug_data, enc)
              | FAULT \<Rightarrow> FAULT
              | _ \<Rightarrow> DW_ERROR DW_DLE_FRAME_AUGMENTATION_UNKNOWN)
      | aug_armcc \<Rightarrow> plain frame_ptr
      | _ \<Rightarrow> unknown)"

text \<open>\<open>_dwarf_create_cie_from_after_start\<close>.\<close>

definition create_cie_from_after_start :: "frame_source \<Rightarrow> cie_fde_prefix \<Rightarrow> ptr \<Rightarrow> u64 \<Rightarrow> section_cie dw" where
  "create_cie_from_after_start src prefix frame_ptr cie_count =
     (let dbg = fx_dbg src; buf = fx_buf src; section_end = length buf in
      if frame_ptr \<ge> section_end then DW_ERROR DW_DLE_DEBUG_FRAME_LENGTH_BAD
      else
        dw_bind (rd8 buf frame_ptr) (\<lambda>version.
        if frame_ptr + 2 \<ge> section_end then DW_ERROR DW_DLE_DEBUG_FRAME_LENGTH_BAD
        else if version \<notin> {1, 3, 4, 5} then DW_ERROR DW_DLE_FRAME_VERSION_BAD
        else
          dw_bind (check_string_valid dbg buf 0 (frame_ptr + 1) section_end DW_DLE_AUGMENTATION_STRING_OFF_END) (\<lambda>_.
          dw_bind (strlen buf (frame_ptr + 1)) (\<lambda>n.
          let augmentation = seg buf (frame_ptr + 1) (frame_ptr + 1 + n); frame_ptr = frame_ptr + 1 + n + 1 in
          if frame_ptr \<ge> section_end then DW_ERROR DW_DLE_DEBUG_FRAME_LENGTH_BAD
          else
            let augt = get_augmentation_type augmentation (fx_use_gnu_cie_calc src) in
            dw_bind (read_cie_sizes src version frame_ptr) (\<lambda>(addr_size, segment_size, frame_ptr).
            dw_bind (read_cie_factors src version frame_ptr) (\<lambda>(code_alignment_factor, data_alignment_factor, return_address_register, frame_ptr).
            dw_bind (read_cie_augmentation src prefix augt augmentation addr_size frame_ptr) (\<lambda>(frame_ptr, cie_aug_data_len, cie_aug_data, enc).
            if frame_ptr > section_end then DW_ERROR DW_DLE_DF_FRAME_DECODING_ERROR
            else if cf_end prefix > section_end then DW_ERROR DW_DLE_DF_FRAME_DECODING_ERROR
            else DW_OK
              \<lparr>ci_length = cf_length prefix, ci_augmentation = Some augmentation,
               ci_code_alignment_factor = ucast (ucast code_alignment_factor :: u8),
               ci_data_alignment_factor = scast (ucast data_alignment_factor :: u8),
               ci_cie_start = cf_start_addr prefix, ci_cie_instr_start = frame_ptr, ci_cie_end = cf_end prefix,
               ci_length_size = word_of_nat (cf_local_length_size prefix), ci_extension_size = word_of_nat (cf_local_extension_size prefix),
               ci_address_size = addr_size, ci_return_address_register = return_address_register,
               ci_cie_version_number = ucast version, ci_section_ptr = 0, ci_gnu_eh_augmentation_len = cie_aug_data_len,
               ci_gnu_eh_augmentation_bytes = cie_aug_data, ci_initial_table = None,
               ci_augmentation_type = augt, ci_gnu_personality_handler_encoding = pers_hand_enc enc, ci_gnu_lsda_encoding = lsda_enc enc,
               ci_gnu_fde_begin_encoding = fde_begin_enc enc, ci_gnu_personality_handler_addr = gnu_pers_addr enc,
               ci_index = cie_count, ci_section_end = section_end, ci_segment_size = segment_size\<rparr>)))))))"

text \<open>\<open>_dwarf_create_cie_from_start\<close>; the pointer was computed and may lie before the section.\<close>

definition create_cie_from_start :: "frame_source \<Rightarrow> int \<Rightarrow> u64 \<Rightarrow> section_cie dw" where
  "create_cie_from_start src cie_ptr_val cie_count =
     (if cie_ptr_val < 0 \<or> cie_ptr_val \<ge> int (length (fx_buf src)) then DW_ERROR DW_DLE_DEBUG_FRAME_LENGTH_BAD
      else
        case read_cie_fde_prefix src (nat cie_ptr_val) of
          DW_OK prefix \<Rightarrow>
            if cf_cie_id prefix \<noteq> fx_cie_id_value src then DW_ERROR DW_DLE_FRAME_CIE_DECODE_ERROR
            else create_cie_from_after_start src prefix (cf_addr_after_prefix prefix) cie_count
        | DW_NO_ENTRY \<Rightarrow> DW_ERROR DW_DLE_FRAME_CIE_DECODE_ERROR
        | DW_ERROR e \<Rightarrow> DW_ERROR e
        | FAULT \<Rightarrow> FAULT)"

section \<open>An FDE\<close>

text \<open>The location and the range of an FDE; with a \<open>z\<close> augmentation also the length and the place of its data.\<close>

definition read_fde_range :: "frame_source \<Rightarrow> section_cie \<Rightarrow> u16 \<Rightarrow> ptr \<Rightarrow> (u64 \<times> u64 \<times> u64 \<times> ptr \<times> ptr) dw" where
  "read_fde_range src cieptr addr_size frame_ptr =
     (let dbg = fx_dbg src; buf = fx_buf src; section_end = length buf; n = unat addr_size in
      if ci_augmentation_type cieptr = aug_gcc_eh_z then
        dw_bind (read_encoded_ptr src True frame_ptr (ci_gnu_fde_begin_encoding cieptr) section_end addr_size) (\<lambda>(initial_location, frame_ptr).
        dw_bind (read_encoded_ptr src False frame_ptr (ci_gnu_fde_begin_encoding cieptr) section_end addr_size) (\<lambda>(address_range, frame_ptr).
        dw_bind (leb128_uword_wrapper buf frame_ptr section_end) (\<lambda>(adlen, fde_aug_data).
          if fde_aug_data \<ge> section_end then DW_ERROR DW_DLE_AUG_DATA_LENGTH_BAD
          else if word_of_nat (section_end - fde_aug_data) \<le> adlen then DW_ERROR DW_DLE_AUG_DATA_LENGTH_BAD
          else if adlen \<ge> word_of_nat (length buf) then DW_ERROR DW_DLE_AUG_DATA_LENGTH_BAD
          else if adlen \<noteq> 0 \<and> fde_aug_data + unat adlen \<ge> section_end then DW_ERROR DW_DLE_AUG_DATA_LENGTH_BAD
          else DW_OK (initial_location, address_range, adlen, fde_aug_data, fde_aug_data + unat adlen))))
      else if frame_ptr + 2 * n > section_end then DW_ERROR DW_DLE_DEBUG_FRAME_LENGTH_BAD
      else
        dw_bind (read_unaligned_ck dbg buf frame_ptr n section_end) (\<lambda>initial_location.
        dw_bind (read_unaligned_ck dbg buf (frame_ptr + n) n section_end) (\<lambda>address_range.
          DW_OK (initial_location, address_range, 0, 0, frame_ptr + 2 * n))))"

text \<open>The switch on the kind of augmentation: the offset into exception tables, the value of the table of \<open>eh\<close>, and the pointer.\<close>

definition read_fde_augmentation :: "frame_source \<Rightarrow> augmentation_type \<Rightarrow> u16 \<Rightarrow> ptr \<Rightarrow> (s64 \<times> u64 option \<times> ptr) dw" where
  "read_fde_augmentation src augt addr_size frame_ptr =
     (let dbg = fx_dbg src; buf = fx_buf src; section_end = length buf; n = unat addr_size;
          DW_DLX_NO_EH_OFFSET = - 1
      in case augt of
        aug_irix_exception_table \<Rightarrow>
          dw_bind (leb128_uword_wrapper buf frame_ptr section_end) (\<lambda>(length_of_augmented_fields, frame_ptr).
            if length_of_augmented_fields \<ge> de_filesize dbg then DW_ERROR DW_DLE_DEBUG_FRAME_LENGTH_BAD
            else if frame_ptr + 4 > section_end then DW_ERROR DW_DLE_DEBUG_FRAME_LENGTH_BAD
            else
              dw_bind (read_unaligned_ck dbg buf frame_ptr 4 section_end) (\<lambda>v.
                let offset_into_exception_tables = SIGN_EXTEND v 4 in
                if 0 <s offset_into_exception_tables \<and> offset_into_exception_tables \<ge> de_filesize dbg
                then DW_ERROR DW_DLE_DEBUG_FRAME_LENGTH_BAD
                else DW_OK (offset_into_exception_tables, None, frame_ptr + unat length_of_augmented_fields)))
      | aug_eh \<Rightarrow>
          if \<not> fx_use_gnu_cie_calc src then DW_ERROR DW_DLE_FRAME_AUGMENTATION_UNKNOWN
          else if frame_ptr + n > section_end then DW_ERROR DW_DLE_DEBUG_FRAME_LENGTH_BAD
          else dw_bind (read_unaligned_ck dbg buf frame_ptr n section_end) (\<lambda>v. DW_OK (DW_DLX_NO_EH_OFFSET, Some v, frame_ptr + n))
      | aug_unknown \<Rightarrow> DW_ERROR DW_DLE_FRAME_AUGMENTATION_UNKNOWN
      | _ \<Rightarrow> DW_OK (DW_DLX_NO_EH_OFFSET, None, frame_ptr))"

text \<open>\<open>_dwarf_create_fde_from_after_start\<close>, for an FDE whose CIE is known. The memory for it is zero.\<close>

definition create_fde_from_after_start :: "frame_source \<Rightarrow> cie_fde_prefix \<Rightarrow> ptr \<Rightarrow> section_cie \<Rightarrow> u16 \<Rightarrow> section_fde dw" where
  "create_fde_from_after_start src prefix frame_ptr cieptr addr_size =
     (let section_end = length (fx_buf src); initloc = frame_ptr; augt = ci_augmentation_type cieptr in
      dw_bind (read_fde_range src cieptr addr_size frame_ptr) (\<lambda>(initial_location, address_range, fde_aug_data_len, fde_aug_data, frame_ptr).
      dw_bind (read_fde_augmentation src augt addr_size frame_ptr) (\<lambda>(offset_into_exception_tables, eh_table_value, frame_ptr).
      if frame_ptr > section_end then DW_ERROR DW_DLE_DF_FRAME_DECODING_ERROR
      else if frame_ptr < initloc then DW_ERROR DW_DLE_DF_FRAME_DECODING_ERROR
      else if cf_end prefix > section_end then DW_ERROR DW_DLE_DF_FRAME_DECODING_ERROR
      else DW_OK
        \<lparr>fd_length = cf_length prefix, fd_cie_offset = cf_cie_id prefix, fd_cie_index = ci_index cieptr, fd_cie = cie.truncate cieptr,
         fd_initial_location = initial_location, fd_address_range = address_range, fd_fde_start = cf_start_addr prefix,
         fd_fde_instr_start = frame_ptr, fd_fde_end = cf_end prefix,
         fd_length_size = word_of_nat (cf_local_length_size prefix), fd_extension_size = word_of_nat (cf_local_extension_size prefix),
         fd_is_eh = fx_use_gnu_cie_calc src, fd_section_ptr = 0,
         fd_gnu_eh_aug_present = (augt = aug_gcc_eh_z), fd_gnu_eh_augmentation_len = fde_aug_data_len,
         fd_gnu_eh_augmentation_bytes = fde_aug_data, fd_offset_into_exception_tables = offset_into_exception_tables,
         fd_fde_frame_table = \<lparr>fs_loc = 0, fs_reg_count = 0, fs_regtable = None, fs_owns_regtable = False\<rparr>,
         fd_fde_pc_requested = 0, fd_have_fde_frame_tab = False,
         fd_initial_loc_pos = initloc, fd_eh_table_value = eh_table_value, fd_section_end = section_end\<rparr>)))"

section \<open>The walk over the section\<close>

text \<open>\<open>get_cieptr_given_offset\<close>: the test on the pointer to the CIE id looks at its address in memory.\<close>

definition get_cieptr_given_offset :: "frame_source \<Rightarrow> u64 \<Rightarrow> ptr \<Rightarrow> int dw" where
  "get_cieptr_given_offset src cie_id_value cie_id_addr =
     (if cie_id_value \<ge> word_of_nat (length (fx_buf src)) then DW_ERROR DW_DLE_DEBUG_FRAME_LENGTH_BAD
      else if fx_use_gnu_cie_calc src then
        if address_of (fx_base src) cie_id_addr \<le> cie_id_value then DW_ERROR DW_DLE_DEBUG_FRAME_LENGTH_BAD
        else DW_OK (int cie_id_addr - uint cie_id_value)
      else DW_OK (uint cie_id_value))"

text \<open>What the loop keeps: the CIEs in the order they were made, the position of the one used last, and the FDEs.\<close>

record fde_list_state =
  fl_cies :: "section_cie list"
  fl_cur_cie :: "nat option"
  fl_fdes :: "section_fde list"

fun find_cie_from :: "int \<Rightarrow> nat \<Rightarrow> section_cie list \<Rightarrow> nat option" where
  "find_cie_from cie_ptr i [] = None"
| "find_cie_from cie_ptr i (c # next) = (if cie_ptr = int (ci_cie_start c) then Some i else find_cie_from cie_ptr (i + 1) next)"

definition find_existing_cie_ptr :: "int \<Rightarrow> fde_list_state \<Rightarrow> nat option" where
  "find_existing_cie_ptr cie_ptr st =
     (case fl_cur_cie st of
        Some i \<Rightarrow> if cie_ptr = int (ci_cie_start (fl_cies st ! i)) then Some i else find_cie_from cie_ptr 0 (fl_cies st)
      | None \<Rightarrow> find_cie_from cie_ptr 0 (fl_cies st))"

text \<open>A CIE that was made is counted, and chained to the last one. When the count gets too high no error object is made.\<close>

definition chain_up_cie :: "frame_source \<Rightarrow> section_cie \<Rightarrow> fde_list_state \<Rightarrow> (nat \<times> fde_list_state) dw" where
  "chain_up_cie src c st =
     (let i = length (fl_cies st) in
      if i + 1 \<ge> length (fx_buf src) div 14 then DW_ERROR DW_DLE_NE
      else DW_OK (i, st\<lparr>fl_cies := fl_cies st @ [c], fl_cur_cie := Some i\<rparr>))"

definition entry_end :: "ptr \<Rightarrow> u64 \<Rightarrow> 'a :: len word \<Rightarrow> 'a word \<Rightarrow> ptr" where
  "entry_end start len length_size extension_size = start + unat len + unat length_size + unat extension_size"

text \<open>The CIE at a prefix, and the pointer behind it.\<close>

definition cie_step :: "frame_source \<Rightarrow> cie_fde_prefix \<Rightarrow> fde_list_state \<Rightarrow> (fde_list_state \<times> ptr) dw" where
  "cie_step src prefix st =
     dw_bind
       (case find_existing_cie_ptr (int (cf_start_addr prefix)) st of
          Some i \<Rightarrow> DW_OK (i, st\<lparr>fl_cur_cie := Some i\<rparr>)
        | None \<Rightarrow>
            dw_bind (create_cie_from_after_start src prefix (cf_addr_after_prefix prefix) (word_of_nat (length (fl_cies st))))
              (\<lambda>c. chain_up_cie src c st))
       (\<lambda>(i, st). let c = fl_cies st ! i in
          DW_OK (st, entry_end (ci_cie_start c) (ci_length c) (ci_length_size c) (ci_extension_size c)))"

text \<open>The FDE at a prefix: its CIE, which may not have been met yet, then the FDE itself.\<close>

definition fde_step :: "frame_source \<Rightarrow> cie_fde_prefix \<Rightarrow> fde_list_state \<Rightarrow> (fde_list_state \<times> ptr) dw" where
  "fde_step src prefix st =
     dw_bind (get_cieptr_given_offset src (cf_cie_id prefix) (cf_cie_id_addr prefix)) (\<lambda>cieptr_val.
     dw_bind
       (case find_existing_cie_ptr cieptr_val st of
          Some i \<Rightarrow> DW_OK (i, st\<lparr>fl_cur_cie := Some i\<rparr>)
        | None \<Rightarrow>
            dw_bind (create_cie_from_start src cieptr_val (word_of_nat (length (fl_cies st)))) (\<lambda>c. chain_up_cie src c st))
       (\<lambda>(i, st).
     dw_bind (create_fde_from_after_start src prefix (cf_addr_after_prefix prefix) (fl_cies st ! i) (ci_address_size (fl_cies st ! i))) (\<lambda>f.
       let st = st\<lparr>fl_fdes := fl_fdes st @ [f]\<rparr>;
           next = entry_end (fd_fde_start f) (fd_length f) (fd_length_size f) (fd_extension_size f)
       in if length (fl_fdes st) \<ge> length (fx_buf src) div (8 + unat (de_pointer_size (fx_dbg src)) * 2) then DW_ERROR DW_DLE_NE
          else if next < fd_fde_instr_start f then DW_ERROR DW_DLE_DEBUG_FRAME_POSSIBLE_ADDRESS_BOTCH
          else DW_OK (st, next))))"

text \<open>The loop of \<open>_dwarf_get_fde_list_internal\<close>, with fuel; \<open>None\<close> when the fuel is used up.\<close>

fun fde_list_loop :: "nat \<Rightarrow> frame_source \<Rightarrow> ptr \<Rightarrow> fde_list_state \<Rightarrow> fde_list_state dw option" where
  "fde_list_loop 0 src frame_ptr st = None"
| "fde_list_loop (Suc fuel) src frame_ptr st =
     (let section_end = length (fx_buf src) in
      if frame_ptr < section_end then
        (case read_cie_fde_prefix src frame_ptr of
           DW_NO_ENTRY \<Rightarrow> Some (DW_OK st)
         | DW_ERROR e \<Rightarrow> Some (DW_ERROR e)
         | FAULT \<Rightarrow> Some FAULT
         | DW_OK prefix \<Rightarrow>
             if cf_addr_after_prefix prefix \<ge> section_end then Some (DW_ERROR DW_DLE_DEBUG_FRAME_LENGTH_BAD)
             else
               case (if cf_cie_id prefix = fx_cie_id_value src then cie_step src prefix st else fde_step src prefix st) of
                 DW_OK (st, frame_ptr) \<Rightarrow> fde_list_loop fuel src frame_ptr st
               | DW_NO_ENTRY \<Rightarrow> Some DW_NO_ENTRY
               | DW_ERROR e \<Rightarrow> Some (DW_ERROR e)
               | FAULT \<Rightarrow> Some FAULT)
      else Some (DW_OK st))"

text \<open>
  \<open>_dwarf_get_fde_list_internal\<close>: the debug object it leaves, the CIEs in the order in which they were made, and the FDEs sorted. A section without contents
  stands for a null pointer.
\<close>

definition get_fde_list_internal ::
  "nat \<Rightarrow> (section_fde list \<Rightarrow> section_fde list) \<Rightarrow> frame_source \<Rightarrow> dwarf_debug \<times> (section_cie list \<times> section_fde list) dw option"
where
  "get_fde_list_internal fuel qsort src =
     (if fx_buf src = [] then (fx_dbg src, Some DW_NO_ENTRY)
      else
        case validate_register_numbers (fx_dbg src) of
          (dbg, DW_ERROR e) \<Rightarrow> (dbg, Some (DW_ERROR e))
        | (dbg, _) \<Rightarrow>
            (case fde_list_loop fuel (src\<lparr>fx_dbg := dbg\<rparr>) 0 \<lparr>fl_cies = [], fl_cur_cie = None, fl_fdes = []\<rparr> of
               Some (DW_OK st) \<Rightarrow>
                 if fl_cies st = [] then (dbg, Some (if fl_fdes st \<noteq> [] then DW_ERROR DW_DLE_ORPHAN_FDE else DW_NO_ENTRY))
                 else
                   let n = length (fl_fdes st) in
                   (if fx_use_gnu_cie_calc src then dbg\<lparr>de_fde_count_eh := n\<rparr> else dbg\<lparr>de_fde_count := n\<rparr>,
                    Some (DW_OK (fl_cies st, if n > 0 then qsort (fl_fdes st) else [])))
             | Some DW_NO_ENTRY \<Rightarrow> (dbg, Some DW_NO_ENTRY)
             | Some (DW_ERROR e) \<Rightarrow> (dbg, Some (DW_ERROR e))
             | Some FAULT \<Rightarrow> (dbg, Some FAULT)
             | None \<Rightarrow> (dbg, None)))"

text \<open>\<open>dwarf_get_fde_list\<close> and \<open>dwarf_get_fde_list_eh\<close> on the section once it is loaded.\<close>

definition frame_section :: "bool \<Rightarrow> dwarf_debug \<Rightarrow> bytes \<Rightarrow> u64 \<Rightarrow> u64 \<Rightarrow> frame_source" where
  "frame_section eh dbg buf base dss_addr =
     \<lparr>fx_dbg = dbg, fx_buf = buf, fx_base = base, fx_dss_addr = dss_addr,
      fx_cie_id_value = (if eh then 0 else - 1), fx_use_gnu_cie_calc = eh\<rparr>"

definition get_fde_list where
  "get_fde_list fuel qsort dbg buf base dss_addr = get_fde_list_internal fuel qsort (frame_section False dbg buf base dss_addr)"

definition get_fde_list_eh where
  "get_fde_list_eh fuel qsort dbg buf base dss_addr = get_fde_list_internal fuel qsort (frame_section True dbg buf base dss_addr)"

end
