(* ===== verification/FrameLists.thy ===== *)
theory FrameLists
  imports FrameSection "HOL-Library.Multiset"
begin

text \<open>
  Reading any frame section is safe and ends, and what it yields is fit for the queries.
\<close>

definition source_ok :: "frame_source \<Rightarrow> bool" where
  "source_ok src \<longleftrightarrow> length (fx_buf src) < 2 ^ 62 \<and> unat (de_pointer_size (fx_dbg src)) \<le> 8 \<and> \<not> de_assume_string_in_bounds (fx_dbg src)"

definition prefix_ok :: "frame_source \<Rightarrow> ptr \<Rightarrow> cie_fde_prefix \<Rightarrow> bool" where
  "prefix_ok src p pf \<longleftrightarrow> cf_start_addr pf = p \<and> p < cf_end pf \<and> cf_end pf \<le> length (fx_buf src) \<and>
     cf_local_length_size pf \<le> 8 \<and> cf_local_extension_size pf \<le> 4"

lemma read_cie_fde_prefix_spec: "spec True (prefix_ok src p) (read_cie_fde_prefix src p)"
  unfolding read_cie_fde_prefix_def Let_def
  by (auto simp: spec_def dw_simps no_fault prefix_ok_def cf_end_def word_gt_0 unat_gt_0 split: if_splits
      dest!: read_area_length_ck_OK read_unaligned_ck_OK)

lemma read_encoded_ptr_spec:
  assumes "e \<le> length (fx_buf src)" "unat n \<le> 8" "p \<le> e"
  shows "spec True (\<lambda>(v, q). p \<le> q \<and> q \<le> e) (read_encoded_ptr src sp p enc e n)"
  unfolding read_encoded_ptr_def Let_def using assms
  by (auto simp: spec_def dw_simps no_fault uword.read_no_fault sword.read_no_fault split: if_splits
      dest!: uword.read_advances sword.read_advances read_unaligned_ck_OK)

lemma gnu_aug_encodings_spec:
  "p \<le> e \<Longrightarrow> e \<le> length (fx_buf src) \<Longrightarrow> unat n \<le> 8 \<Longrightarrow> spec True (\<lambda>_. True) (gnu_aug_encodings src nc p e n enc)"
proof (induction nc arbitrary: p enc)
  case (Cons c nc)
  have P: "spec True (\<lambda>_. True) (dw_bind (read_encoded_ptr src False (p + 1) encoding e n) (\<lambda>(addr, q).
      if q > e then DW_ERROR DW_DLE_FRAME_AUGMENTATION_UNKNOWN
      else gnu_aug_encodings src nc q e n (enc\<lparr>pers_hand_enc := encoding, gnu_pers_addr := addr\<rparr>)))" if "p < e" for encoding
    by (rule spec_bind [OF read_encoded_ptr_spec]) (use that Cons in auto)
  show ?case using Cons P by auto
qed simp

lemma unat_ucast8_16: "unat (ucast (b :: u8) :: u16) = unat b"
proof -
  have "unat b < 2 ^ 16" by (rule less_trans [OF u8_bound]) simp
  then show ?thesis by (simp only: unsigned_ucast_eq) (simp add: take_bit_nat_eq_self_iff)
qed

lemma read_cie_sizes_spec:
  assumes "source_ok src"
  shows "spec True (\<lambda>(asz, ssz, q). unat asz \<le> 8) (read_cie_sizes src version p)"
  using assms unfolding read_cie_sizes_def Let_def source_ok_def
  by (auto simp: unat_ucast8_16 word_less_nat_alt not_less)

lemma get_return_address_reg_spec: "e \<le> length buf \<Longrightarrow> spec True (\<lambda>_. True) (get_return_address_reg buf p v e)"
  by (auto simp: get_return_address_reg_def spec_def dw_simps no_fault)

lemma read_cie_factors_spec: "spec True (\<lambda>(caf, daf, rar, q). q \<le> length (fx_buf src)) (read_cie_factors src version p)"
proof -
  have *: "spec True (\<lambda>(caf, daf, rar, q). q \<le> length (fx_buf src))
     (case decode_signed_leb128 (fx_buf src) p True (length (fx_buf src)) of LEB_FAULT \<Rightarrow> FAULT | LEB_ERROR _ \<Rightarrow> DW_ERROR DW_DLE_NE
      | LEB_OK n daf \<Rightarrow>
          if p + n + 1 \<ge> length (fx_buf src) then DW_ERROR DW_DLE_DEBUG_FRAME_LENGTH_BAD
          else
            dw_bind (get_return_address_reg (fx_buf src) (p + n) (uint version) (length (fx_buf src))) (\<lambda>(rar, sz).
              if rar \<noteq> de_frame_cfa_col_number (fx_dbg src) \<and> rar > de_frame_reg_rules_entry_count (fx_dbg src)
              then DW_ERROR DW_DLE_CIE_RET_ADDR_REG_ERROR
              else if p + n + sz > length (fx_buf src) then DW_ERROR DW_DLE_DEBUG_FRAME_LENGTH_BAD
              else DW_OK (caf, daf, rar, p + n + sz)))" for p caf
  proof (cases "decode_signed_leb128 (fx_buf src) p True (length (fx_buf src))")
    case (LEB_OK n daf)
    show ?thesis unfolding LEB_OK leb_result.case
      by (rule spec_if, simp, rule spec_bind [OF get_return_address_reg_spec]) auto
  qed (use decode_signed_leb128_no_fault in auto)
  show ?thesis unfolding read_cie_factors_def Let_def
    by (rule spec_if, simp, rule spec_bind [OF spec_uword]) (auto intro: *)
qed

lemma read_cie_augmentation_spec:
  assumes "prefix_ok src p pf" "unat n \<le> 8" "q \<le> length (fx_buf src)"
  shows "spec True (\<lambda>_. True) (read_cie_augmentation src pf augt aug n q)"
proof (cases augt)
  case aug_gcc_eh_z
  have "spec True (\<lambda>_. True)
    (if adlen \<noteq> 0 \<and> d + unat adlen > length (fx_buf src) then DW_ERROR DW_DLE_AUG_DATA_LENGTH_BAD
     else case gnu_aug_encodings src aug d (d + unat adlen) n no_encodings of
            DW_OK enc \<Rightarrow> DW_OK (d + unat adlen, adlen, d, enc)
          | FAULT \<Rightarrow> FAULT | _ \<Rightarrow> DW_ERROR DW_DLE_FRAME_AUGMENTATION_UNKNOWN)" if "d \<le> length (fx_buf src)" for adlen :: u64 and d
  proof -
    have "spec True (\<lambda>_. True) (gnu_aug_encodings src aug d (d + unat adlen) n no_encodings)"
      if "d + unat adlen \<le> length (fx_buf src)" using that assms(2) by (intro gnu_aug_encodings_spec) simp_all
    then show ?thesis using \<open>d \<le> length (fx_buf src)\<close> by (auto simp: spec_def not_less split: dw.splits)
  qed
  then show ?thesis unfolding read_cie_augmentation_def Let_def aug_gcc_eh_z augmentation_type.case
    by (intro spec_if spec_bind [OF spec_uword]) (auto simp del: spec_def)
next
  case aug_irix_exception_table
  show ?thesis unfolding read_cie_augmentation_def Let_def aug_irix_exception_table augmentation_type.case
    by (rule spec_bind [OF spec_uword]) auto
qed (auto simp: read_cie_augmentation_def Let_def get_gcc_eh_augmentation_def)

definition cie_made :: "frame_source \<Rightarrow> cie_fde_prefix \<Rightarrow> u64 \<Rightarrow> section_cie \<Rightarrow> bool" where
  "cie_made src pf n c \<longleftrightarrow> ci_cie_start c = cf_start_addr pf \<and> ci_length c = cf_length pf \<and>
     ci_length_size c = word_of_nat (cf_local_length_size pf) \<and> ci_extension_size c = word_of_nat (cf_local_extension_size pf) \<and>
     ci_cie_end c = cf_end pf \<and> ci_cie_instr_start c \<le> length (fx_buf src) \<and> unat (ci_address_size c) \<le> 8 \<and>
     ci_initial_table c = None \<and> ci_index c = n"

lemma create_cie_from_after_start_spec:
  assumes "source_ok src" "prefix_ok src p pf"
  shows "spec True (cie_made src pf n) (create_cie_from_after_start src pf q n)"
proof -
  have str: "spec True (\<lambda>_. \<exists>n. strlen (fx_buf src) q = DW_OK n)
      (check_string_valid (fx_dbg src) (fx_buf src) 0 q (length (fx_buf src)) err)" for q err
    using spec_check_string [of "length (fx_buf src)" "fx_buf src" "fx_dbg src" q 0 err] assms(1)
    by (auto simp: source_ok_def spec_def)
  show ?thesis unfolding create_cie_from_after_start_def Let_def
    apply (rule spec_if, simp)
    apply (rule spec_bind [of _ "\<lambda>_. True"], simp add: not_le)
    apply (rule spec_if, simp)+
    apply (rule spec_bind [OF str])
    apply (elim exE, simp only: dw_bind.simps)
    apply (rule spec_if, simp)
    apply (rule spec_bind [OF read_cie_sizes_spec [OF assms(1)]], simp only: split_paired_all prod.case)
    apply (rule spec_bind [OF read_cie_factors_spec], simp only: split_paired_all prod.case)
    apply (rule spec_bind [OF read_cie_augmentation_spec [OF assms(2)]], assumption, assumption, simp only: split_paired_all prod.case)
    apply (auto simp: cie_made_def)
    done
qed

lemma create_cie_from_start_spec:
  assumes "source_ok src"
  shows "spec True (\<lambda>c. 0 \<le> k \<and> (\<exists>pf. prefix_ok src (nat k) pf \<and> cie_made src pf n c)) (create_cie_from_start src k n)"
proof (cases "k < 0 \<or> k \<ge> int (length (fx_buf src))")
  case False
  then show ?thesis using read_cie_fde_prefix_spec [of src "nat k"] create_cie_from_after_start_spec [OF assms, of "nat k" _ n]
    by (cases "read_cie_fde_prefix src (nat k)") (auto simp: create_cie_from_start_def spec_def)
qed (auto simp: create_cie_from_start_def)

section \<open>FDEs\<close>

lemma read_fde_range_spec:
  assumes "unat n \<le> 8" "q \<le> length (fx_buf src)"
  shows "spec True (\<lambda>_. True) (read_fde_range src c n q)"
  unfolding read_fde_range_def Let_def
  apply (rule spec_if)
   apply (rule spec_bind [OF read_encoded_ptr_spec], simp, rule assms, rule assms, simp only: split_paired_all prod.case)
   apply (rule spec_bind [OF read_encoded_ptr_spec], simp, rule assms, simp, simp only: split_paired_all prod.case)
   apply (rule spec_bind [OF spec_uword], simp, auto)[1]
  apply (rule spec_if, simp)
  apply (rule spec_bind [OF spec_unaligned], simp, rule assms)+
  apply simp
  done

lemma read_fde_augmentation_spec:
  assumes "unat n \<le> 8"
  shows "spec True (\<lambda>_. True) (read_fde_augmentation src augt n q)"
proof (cases augt)
  case aug_irix_exception_table
  show ?thesis unfolding aug_irix_exception_table read_fde_augmentation_def Let_def augmentation_type.case
    by (rule spec_bind [OF spec_uword], simp, simp only: split_paired_all prod.case)
       (intro spec_if spec_bind [OF spec_unaligned]; simp)
next
  case aug_eh
  show ?thesis using assms unfolding aug_eh read_fde_augmentation_def Let_def augmentation_type.case
    by (intro spec_if spec_bind [OF spec_unaligned]; simp)
qed (auto simp: read_fde_augmentation_def Let_def)

definition fde_made :: "frame_source \<Rightarrow> cie_fde_prefix \<Rightarrow> section_cie \<Rightarrow> section_fde \<Rightarrow> bool" where
  "fde_made src pf c f \<longleftrightarrow> fd_fde_start f = cf_start_addr pf \<and> fd_length f = cf_length pf \<and>
     fd_length_size f = word_of_nat (cf_local_length_size pf) \<and> fd_extension_size f = word_of_nat (cf_local_extension_size pf) \<and>
     fd_fde_end f = cf_end pf \<and> fd_cie f = cie.truncate c \<and> fd_cie_index f = ci_index c \<and> \<not> fd_have_fde_frame_tab f \<and>
     fd_is_eh f = fx_use_gnu_cie_calc src"

lemma create_fde_from_after_start_spec:
  assumes "unat n \<le> 8" "q \<le> length (fx_buf src)"
  shows "spec True (fde_made src pf c) (create_fde_from_after_start src pf q c n)"
  unfolding create_fde_from_after_start_def Let_def
  apply (rule spec_bind [OF read_fde_range_spec [OF assms]], simp only: split_paired_all prod.case)
  apply (rule spec_bind [OF read_fde_augmentation_spec [OF assms(1)]], simp only: split_paired_all prod.case)
  apply (auto simp: fde_made_def)
  done

section \<open>The invariant of the walk\<close>

definition cie_read :: "frame_source \<Rightarrow> nat \<Rightarrow> section_cie \<Rightarrow> bool" where
  "cie_read src i c \<longleftrightarrow> (\<exists>pf. prefix_ok src (ci_cie_start c) pf \<and> cie_made src pf (word_of_nat i) c)"

definition fde_read :: "frame_source \<Rightarrow> section_cie list \<Rightarrow> section_fde \<Rightarrow> bool" where
  "fde_read src cies f \<longleftrightarrow> fd_fde_start f < fd_fde_end f \<and> fd_fde_end f \<le> length (fx_buf src) \<and> fd_fde_instr_start f \<le> fd_fde_end f \<and>
     \<not> fd_have_fde_frame_tab f \<and> fd_is_eh f = fx_use_gnu_cie_calc src \<and>
     (\<exists>i < length cies. fd_cie f = cie.truncate (cies ! i) \<and> fd_cie_index f = word_of_nat i)"

definition list_ok :: "frame_source \<Rightarrow> fde_list_state \<Rightarrow> bool" where
  "list_ok src st \<longleftrightarrow> (\<forall>i < length (fl_cies st). cie_read src i (fl_cies st ! i)) \<and> distinct (map ci_cie_start (fl_cies st)) \<and>
     (\<forall>i. fl_cur_cie st = Some i \<longrightarrow> i < length (fl_cies st)) \<and> (\<forall>f \<in> set (fl_fdes st). fde_read src (fl_cies st) f)"

lemma word_of_nat_small_sizes:
  "n \<le> 8 \<Longrightarrow> unat (word_of_nat n :: u16) = n" "n \<le> 8 \<Longrightarrow> unat (word_of_nat n :: u8) = n"
  by (simp_all add: unsigned_of_nat take_bit_nat_eq_self_iff)

lemma cie_made_end:
  assumes "prefix_ok src p pf" "cie_made src pf n c"
  shows "entry_end (ci_cie_start c) (ci_length c) (ci_length_size c) (ci_extension_size c) = cf_end pf"
  using assms by (simp add: prefix_ok_def cie_made_def entry_end_def cf_end_def word_of_nat_small_sizes)

lemma cie_read_end:
  assumes "cie_read src i c"
  shows "ci_cie_start c < entry_end (ci_cie_start c) (ci_length c) (ci_length_size c) (ci_extension_size c) \<and>
    entry_end (ci_cie_start c) (ci_length c) (ci_length_size c) (ci_extension_size c) = ci_cie_end c \<and> ci_cie_end c \<le> length (fx_buf src) \<and>
    unat (ci_address_size c) \<le> 8 \<and> ci_initial_table c = None"
  using assms cie_made_end by (auto simp: cie_read_def prefix_ok_def cie_made_def)

lemma find_cie_from_Some:
  "find_cie_from k n cs = Some i \<Longrightarrow> n \<le> i \<and> i < n + length cs \<and> int (ci_cie_start (cs ! (i - n))) = k"
  by (induction k n cs rule: find_cie_from.induct) (auto simp: nth_Cons' split: if_splits)

lemma find_cie_from_None: "find_cie_from k n cs = None \<Longrightarrow> c \<in> set cs \<Longrightarrow> int (ci_cie_start c) \<noteq> k"
  by (induction k n cs rule: find_cie_from.induct) (auto split: if_splits)

lemma find_existing_Some:
  assumes "find_existing_cie_ptr k st = Some i" "\<forall>i. fl_cur_cie st = Some i \<longrightarrow> i < length (fl_cies st)"
  shows "i < length (fl_cies st) \<and> int (ci_cie_start (fl_cies st ! i)) = k"
  using assms find_cie_from_Some [of k 0 "fl_cies st" i]
  by (auto simp: find_existing_cie_ptr_def split: option.splits if_splits)

lemma find_existing_None: "find_existing_cie_ptr k st = None \<Longrightarrow> c \<in> set (fl_cies st) \<Longrightarrow> int (ci_cie_start c) \<noteq> k"
  by (auto simp: find_existing_cie_ptr_def dest: find_cie_from_None split: option.splits if_splits)

lemma list_ok_cur: "list_ok src st \<Longrightarrow> i < length (fl_cies st) \<Longrightarrow> list_ok src (st\<lparr>fl_cur_cie := Some i\<rparr>)"
  by (simp add: list_ok_def)

lemma list_ok_end:
  "list_ok src st \<Longrightarrow> i < length (fl_cies st) \<Longrightarrow> ci_cie_start (fl_cies st ! i) <
     entry_end (ci_cie_start (fl_cies st ! i)) (ci_length (fl_cies st ! i)) (ci_length_size (fl_cies st ! i)) (ci_extension_size (fl_cies st ! i))"
  using cie_read_end by (auto simp: list_ok_def)

lemma fde_read_more: "fde_read src cies f \<Longrightarrow> fde_read src (cies @ others) f"
  unfolding fde_read_def by (metis length_append nth_append trans_less_add1)

lemma chain_up_cie_spec:
  assumes "list_ok src st" "cie_read src (length (fl_cies st)) c" "\<forall>d \<in> set (fl_cies st). ci_cie_start d \<noteq> ci_cie_start c"
  shows "spec True (\<lambda>(i, st'). list_ok src st' \<and> i < length (fl_cies st') \<and> fl_cies st' ! i = c) (chain_up_cie src c st)"
  using assms by (auto simp: chain_up_cie_def Let_def list_ok_def nth_append less_Suc_eq fde_read_more)

lemma use_or_make:
  assumes "list_ok src st"
    and "find_existing_cie_ptr k st = None \<Longrightarrow> spec True (\<lambda>c. int (ci_cie_start c) = k \<and> cie_read src (length (fl_cies st)) c) m"
  shows "spec True (\<lambda>(i, st'). list_ok src st' \<and> i < length (fl_cies st') \<and> int (ci_cie_start (fl_cies st' ! i)) = k)
    (case find_existing_cie_ptr k st of Some i \<Rightarrow> DW_OK (i, st\<lparr>fl_cur_cie := Some i\<rparr>) | None \<Rightarrow> dw_bind m (\<lambda>c. chain_up_cie src c st))"
proof (cases "find_existing_cie_ptr k st")
  case (Some i)
  then show ?thesis using find_existing_Some [OF Some] list_ok_cur [OF assms(1)] assms(1) by (simp add: list_ok_def)
next
  case None
  have "spec True (\<lambda>(i, st'). list_ok src st' \<and> i < length (fl_cies st') \<and> int (ci_cie_start (fl_cies st' ! i)) = k) (chain_up_cie src c st)"
    if "int (ci_cie_start c) = k" "cie_read src (length (fl_cies st)) c" for c
    by (rule spec_mono [OF chain_up_cie_spec [OF assms(1) that(2)]])
       (use that(1) find_existing_None [OF None] in auto)
  then show ?thesis unfolding None option.case by (intro spec_bind [OF assms(2) [OF None]]) simp
qed

lemma cie_step_spec:
  assumes "source_ok src" "list_ok src st" "prefix_ok src p pf"
  shows "spec True (\<lambda>(st', q). list_ok src st' \<and> p < q) (cie_step src pf st)"
proof -
  have p: "cf_start_addr pf = p" using assms(3) by (simp add: prefix_ok_def)
  have m: "spec True (\<lambda>c. int (ci_cie_start c) = int p \<and> cie_read src (length (fl_cies st)) c)
      (create_cie_from_after_start src pf (cf_addr_after_prefix pf) (word_of_nat (length (fl_cies st))))"
    by (rule spec_mono [OF create_cie_from_after_start_spec [OF assms(1,3)]]) (use assms(3) in \<open>auto simp: cie_read_def cie_made_def prefix_ok_def\<close>)
  show ?thesis unfolding cie_step_def p Let_def
    by (rule spec_bind [OF use_or_make [OF assms(2) m]]) (auto dest: list_ok_end)
qed

lemma fde_step_spec:
  assumes "source_ok src" "list_ok src st" "prefix_ok src p pf" "cf_addr_after_prefix pf < length (fx_buf src)"
  shows "spec True (\<lambda>(st', q). list_ok src st' \<and> p < q) (fde_step src pf st)"
proof -
  have m: "spec True (\<lambda>c. int (ci_cie_start c) = k \<and> cie_read src (length (fl_cies st)) c)
      (create_cie_from_start src k (word_of_nat (length (fl_cies st))))" for k
    by (rule spec_mono [OF create_cie_from_start_spec [OF assms(1)]])
       (auto simp: cie_read_def cie_made_def prefix_ok_def)
  have f: "spec True (\<lambda>(st'', q). list_ok src st'' \<and> p < q)
      (dw_bind (create_fde_from_after_start src pf (cf_addr_after_prefix pf) (fl_cies st' ! i) (ci_address_size (fl_cies st' ! i))) (\<lambda>f.
       let st'' = st'\<lparr>fl_fdes := fl_fdes st' @ [f]\<rparr>;
           next = entry_end (fd_fde_start f) (fd_length f) (fd_length_size f) (fd_extension_size f)
       in if length (fl_fdes st'') \<ge> length (fx_buf src) div (8 + unat (de_pointer_size (fx_dbg src)) * 2) then DW_ERROR DW_DLE_NE
          else if next < fd_fde_instr_start f then DW_ERROR DW_DLE_DEBUG_FRAME_POSSIBLE_ADDRESS_BOTCH
          else DW_OK (st'', next)))" if "list_ok src st'" "i < length (fl_cies st')" for st' i
  proof -
    have c: "cie_read src i (fl_cies st' ! i)" using that by (simp add: list_ok_def)
    have e: "entry_end (fd_fde_start f) (fd_length f) (fd_length_size f) (fd_extension_size f) = cf_end pf"
      if "fde_made src pf (fl_cies st' ! i) f" for f
      using that assms(3) by (simp add: fde_made_def prefix_ok_def entry_end_def cf_end_def word_of_nat_small_sizes)
    have "fde_read src (fl_cies st') f" if "fde_made src pf (fl_cies st' ! i) f" "fd_fde_instr_start f \<le> cf_end pf" for f
      using that assms(3) c \<open>i < length (fl_cies st')\<close>
      by (auto simp: fde_made_def fde_read_def prefix_ok_def cie_read_def cie_made_def)
    then show ?thesis using that(1) assms(3) e cie_read_end [OF c] assms(4) unfolding Let_def
      by (intro spec_bind [OF create_fde_from_after_start_spec [where pf = pf and c = "fl_cies st' ! i"]])
         (auto simp: list_ok_def prefix_ok_def)
  qed
  have "get_cieptr_given_offset src (cf_cie_id pf) (cf_cie_id_addr pf) \<noteq> FAULT"
    by (simp add: get_cieptr_given_offset_def)
  then show ?thesis unfolding fde_step_def
    apply (intro spec_bind [where P = "\<lambda>_. True" and m = "get_cieptr_given_offset src (cf_cie_id pf) (cf_cie_id_addr pf)"])
     apply (simp add: spec_def)
    apply (rule spec_bind [OF use_or_make [OF assms(2) m]], simp only: split_paired_all prod.case)
    apply (rule f; simp)
    done
qed

lemma fde_list_loop_spec:
  assumes "source_ok src"
  shows "list_ok src st \<Longrightarrow> length (fx_buf src) - p < fuel \<Longrightarrow>
    \<exists>r. fde_list_loop fuel src p st = Some r \<and> spec True (list_ok src) r"
proof (induction fuel arbitrary: p st)
  case (Suc fuel)
  show ?case
  proof (cases "p < length (fx_buf src)")
    case True
    show ?thesis
    proof (cases "read_cie_fde_prefix src p")
      case (DW_OK pf)
      have pf: "prefix_ok src p pf" using read_cie_fde_prefix_spec [of src p] DW_OK by simp
      let ?m = "if cf_cie_id pf = fx_cie_id_value src then cie_step src pf st else fde_step src pf st"
      have m: "spec True (\<lambda>(st', q). list_ok src st' \<and> p < q) ?m" if "cf_addr_after_prefix pf < length (fx_buf src)"
        using cie_step_spec [OF assms Suc.prems(1) pf] fde_step_spec [OF assms Suc.prems(1) pf that] by simp
      show ?thesis
      proof (cases "cf_addr_after_prefix pf < length (fx_buf src)")
        case below: True
        show ?thesis
        proof (cases ?m)
          case r: (DW_OK x)
          obtain st' q where x: "x = (st', q)" "list_ok src st'" "p < q" using m [OF below] r by (cases x) auto
          then show ?thesis using Suc.IH [OF x(2), of q] Suc.prems(2) True DW_OK below r by (simp add: Let_def)
        qed (use m [OF below] True DW_OK below in \<open>simp_all add: Let_def\<close>)
      qed (use True DW_OK in \<open>simp add: Let_def\<close>)
    qed (use True Suc.prems(1) read_cie_fde_prefix_spec [of src p] in \<open>simp_all add: Let_def\<close>)
  qed (use Suc.prems(1) in simp)
qed simp

section \<open>The result\<close>

text \<open>What the C library promises of \<open>qsort\<close> with the comparison of initial locations; equal ones may come in any order.\<close>

definition sorts :: "(section_fde list \<Rightarrow> section_fde list) \<Rightarrow> bool" where
  "sorts qsort \<longleftrightarrow> (\<forall>fs. mset (qsort fs) = mset fs \<and> sorted (map fd_initial_location (qsort fs)))"

lemma sorts_sort_key: "sorts (sort_key fd_initial_location)"
  by (simp add: sorts_def)

text \<open>The arrays a reading returns: no CIE twice, FDEs in address order, each with a CIE of the array and with its bytes in the section.\<close>

definition lists_ok :: "frame_source \<Rightarrow> section_cie list \<Rightarrow> section_fde list \<Rightarrow> bool" where
  "lists_ok src cies fdes \<longleftrightarrow> cies \<noteq> [] \<and> distinct (map ci_cie_start cies) \<and> sorted (map fd_initial_location fdes) \<and>
     (\<forall>f \<in> set fdes. fde_read src cies f \<and> (\<forall>n. fde_ok n (fx_buf src) (fde.truncate f)))"

lemma fde_read_ok:
  assumes "list_ok src st" "fde_read src (fl_cies st) f"
  shows "fde_ok n (fx_buf src) (fde.truncate f)"
proof -
  obtain i where i: "i < length (fl_cies st)" "fd_cie f = cie.truncate (fl_cies st ! i)"
    using assms(2) by (auto simp: fde_read_def)
  have "cie_read src i (fl_cies st ! i)" using assms(1) i(1) by (simp add: list_ok_def)
  note c = cie_read_end [OF this]
  show ?thesis using assms(2) i c by (simp add: fde_ok_def fde_read_def fde.defs cie.defs)
qed

lemma validate_register_numbers_dbg:
  assumes "validate_register_numbers dbg = (dbg', r)"
  shows "(dbg' = dbg \<or> dbg' = dbg\<lparr>de_frame_numbers_validated := True\<rparr>) \<and> (r = DW_OK () \<or> (\<exists>e. r = DW_ERROR e))"
proof -
  define P where "P = (\<lambda>(d, r :: unit dw). (d = dbg \<or> d = dbg\<lparr>de_frame_numbers_validated := True\<rparr>) \<and> (r = DW_OK () \<or> (\<exists>e. r = DW_ERROR e)))"
  have "P (if c then x else y)" if "P x" "P y" for c x y using that by simp
  then have "P (validate_register_numbers dbg)" unfolding validate_register_numbers_def by (simp add: P_def)
  then show ?thesis by (simp add: assms P_def)
qed

lemma get_fde_list_internal_ok:
  assumes "source_ok src" "sorts qsort" "length (fx_buf src) < fuel" "get_fde_list_internal fuel qsort src = (dbg', res)"
  shows "\<exists>r. res = Some r \<and> r \<noteq> FAULT \<and>
    (\<forall>cies fdes. r = DW_OK (cies, fdes) \<longrightarrow> lists_ok src cies fdes \<and>
      (if fx_use_gnu_cie_calc src then de_fde_count_eh dbg' else de_fde_count dbg') = length fdes)"
proof (cases "fx_buf src = []")
  case False
  obtain dbg v where v: "validate_register_numbers (fx_dbg src) = (dbg, v)" by fastforce
  have d: "dbg = fx_dbg src \<or> dbg = (fx_dbg src)\<lparr>de_frame_numbers_validated := True\<rparr>" "v = DW_OK () \<or> (\<exists>e. v = DW_ERROR e)"
    using validate_register_numbers_dbg [OF v] by auto
  let ?src = "src\<lparr>fx_dbg := dbg\<rparr>" and ?st = "\<lparr>fl_cies = [], fl_cur_cie = None, fl_fdes = []\<rparr>"
  have ok: "source_ok ?src" using assms(1) d(1) by (auto simp: source_ok_def)
  have "list_ok ?src ?st" by (simp add: list_ok_def)
  then obtain r where r: "fde_list_loop fuel ?src 0 ?st = Some r" "spec True (list_ok ?src) r"
    using fde_list_loop_spec [OF ok, of ?st 0 fuel] assms(3) by auto
  have lists: "lists_ok src (fl_cies st) fdes \<and> length fdes = length (fl_fdes st)"
    if "list_ok ?src st" "fl_cies st \<noteq> []" "fdes = (if length (fl_fdes st) > 0 then qsort (fl_fdes st) else [])" for st fdes
  proof -
    have m: "mset fdes = mset (fl_fdes st)" "sorted (map fd_initial_location fdes)"
      using that(3) assms(2) by (auto simp: sorts_def)
    have "set fdes = set (fl_fdes st)" "length fdes = length (fl_fdes st)"
      using m(1) mset_eq_setD mset_eq_length by blast+
    moreover have "fde_read src cies f = fde_read ?src cies f" for cies f by (simp add: fde_read_def)
    ultimately show ?thesis using that(1,2) m(2) fde_read_ok [OF that(1)] by (auto simp: lists_ok_def list_ok_def)
  qed
  show ?thesis
  proof (cases r)
    case (DW_OK st)
    show ?thesis using False v d(2) r lists [OF _ _ refl, of st] assms(4) DW_OK
      by (auto simp: get_fde_list_internal_def Let_def split: if_splits)
  qed (use False v d(2) r assms(4) in \<open>auto simp: get_fde_list_internal_def Let_def\<close>)
qed (use assms(4) in \<open>auto simp: get_fde_list_internal_def\<close>)

text \<open>
  C13: Reading any frame section, in either format, reads nothing outside it and ends with as much fuel as the section has bytes. Lists that are returned hold
  no CIE twice; the FDEs are in address order, as many as the debug object says, each has a CIE of the list, lies with its instructions inside the
  section, and is fit for the queries of rows.
\<close>

theorem frame_section_read:
  assumes "length buf < 2 ^ 62" "unat (de_pointer_size dbg) \<le> 8" "\<not> de_assume_string_in_bounds dbg" "sorts qsort" "length buf < fuel"
    and "get_fde_list_internal fuel qsort (frame_section eh dbg buf base dss_addr) = (dbg', res)"
  shows "\<exists>r. res = Some r \<and> r \<noteq> FAULT \<and>
    (\<forall>cies fdes. r = DW_OK (cies, fdes) \<longrightarrow> lists_ok (frame_section eh dbg buf base dss_addr) cies fdes \<and>
      (if eh then de_fde_count_eh dbg' else de_fde_count dbg') = length fdes)"
  using get_fde_list_internal_ok [OF _ assms(4) _ assms(6)] assms(1-3,5)
  by (simp add: source_ok_def frame_section_def)

definition sample_eh_frame :: bytes where
  "sample_eh_frame =
     [0x10, 0, 0, 0, 0, 0, 0, 0, 1, 0, 1, 0x7c, 0x10, 0x0c, 7, 8, 0x90, 1, 0, 0,
      0x1c, 0, 0, 0, 0x18, 0, 0, 0, 0x40, 1, 0, 0, 0, 0, 0, 0, 0x10, 0, 0, 0, 0, 0, 0, 0, 0x41, 0x0e, 0x10, 0, 0, 0, 0, 0]"

lemma sample_eh_frame_read:
  "case get_fde_list_eh 60 (sort_key fd_initial_location) debug_le64 sample_eh_frame 0x1000 0 of
     (dbg, Some (DW_OK (cies, fdes))) \<Rightarrow>
       map fd_initial_location fdes = [0x140] \<and> map fd_address_range fdes = [0x10] \<and> map ci_data_alignment_factor cies = [- 4] \<and>
       map fd_fde_instr_start fdes = [44] \<and> de_fde_count_eh dbg = 1
   | _ \<Rightarrow> False"
  by code_simp

theorem frame_section_read_witness:
  "\<exists>dbg cies fdes. get_fde_list_eh 60 (sort_key fd_initial_location) debug_le64 sample_eh_frame 0x1000 0 = (dbg, Some (DW_OK (cies, fdes))) \<and>
     map fd_initial_location fdes = [0x140] \<and> lists_ok (frame_section True debug_le64 sample_eh_frame 0x1000 0) cies fdes"
proof -
  obtain dbg res where r: "get_fde_list_eh 60 (sort_key fd_initial_location) debug_le64 sample_eh_frame 0x1000 0 = (dbg, res)" by fastforce
  have "length sample_eh_frame = 52" by (simp add: sample_eh_frame_def)
  then have "\<exists>x. res = Some x \<and> x \<noteq> FAULT \<and> (\<forall>cies fdes. x = DW_OK (cies, fdes) \<longrightarrow>
      lists_ok (frame_section True debug_le64 sample_eh_frame 0x1000 0) cies fdes \<and>
      (if True then de_fde_count_eh dbg else de_fde_count dbg) = length fdes)"
    by (intro frame_section_read [OF _ _ _ sorts_sort_key _ r [unfolded get_fde_list_eh_def]]) (simp_all add: debug_le64_def)
  then show ?thesis using sample_eh_frame_read r by (auto split: option.splits dw.splits)
qed

end
