(* ===== verification/FrameEncoding.thy ===== *)
theory FrameEncoding
  imports FrameLists LineEncoding LocExpr
begin

text \<open>
  Frame sections as an assembler writes them: CIEs and FDEs in any order, in both formats, with 32 and 64 bit lengths; and the proof that reading
  an encoded section yields exactly its FDEs, each with the CIE it names, so that the search finds the FDE of a pc.
\<close>

section \<open>Descriptions\<close>

text \<open>
  A CIE as the assembler is told to write it: the version, the size of an address, the two alignment factors, the return address register, the encoding of
  pointers (used in \<open>.eh_frame\<close> only, whose CIEs have the augmentation \<open>zR\<close>) and the initial instructions.
\<close>

record cie_desc =
  cd_version :: nat
  cd_address_size :: nat
  cd_code :: nat
  cd_data :: int
  cd_ra :: nat
  cd_encoding :: u8
  cd_instrs :: bytes

text \<open>An FDE names its CIE by the position of that entry in the section.\<close>

record fde_desc =
  dd_cie :: nat
  dd_location :: u64
  dd_range :: u64
  dd_data :: bytes
  dd_instrs :: bytes

text \<open>The flag of an entry tells whether its length has 64 bits.\<close>

datatype frame_entry = CIE_entry bool cie_desc | FDE_entry bool fde_desc

section \<open>Encoding\<close>

definition id_size :: "bool \<Rightarrow> nat" where
  "id_size d64 = (if d64 then 8 else 4)"

definition length_size :: "bool \<Rightarrow> nat" where
  "length_size d64 = (if d64 then 12 else 4)"

definition entry_bytes :: "dwarf_debug \<Rightarrow> bool \<Rightarrow> nat \<Rightarrow> bytes \<Rightarrow> bytes" where
  "entry_bytes dbg d64 ident rest =
     (let len = id_size d64 + length rest in
      (if d64 then fixed_bytes dbg 4 0xffffffff @ fixed_bytes dbg 8 len else fixed_bytes dbg 4 len) @
      fixed_bytes dbg (id_size d64) ident @ rest)"

definition augmentation_string :: "bool \<Rightarrow> bytes" where
  "augmentation_string eh = (if eh then chars ''zR'' else [])"

definition cie_head :: "bool \<Rightarrow> cie_desc \<Rightarrow> bytes" where
  "cie_head eh c =
     [word_of_nat (cd_version c)] @ encode_string (augmentation_string eh) @
     (if cd_version c = 4 then [word_of_nat (cd_address_size c), 0] else []) @
     uleb_encode (cd_code c) @ sleb_encode (cd_data c) @
     (if cd_version c = 1 then [word_of_nat (cd_ra c)] else uleb_encode (cd_ra c)) @
     (if eh then uleb_encode 1 @ [cd_encoding c] else [])"

definition pointer_width :: "cie_desc \<Rightarrow> bool \<Rightarrow> nat" where
  "pointer_width c eh =
     (let t = cd_encoding c AND 0xf in
      if \<not> eh \<or> t = 0 then cd_address_size c else if t = 2 \<or> t = 10 then 2 else if t = 3 \<or> t = 11 then 4 else 8)"

definition stored_location :: "bool \<Rightarrow> u64 \<Rightarrow> cie_desc \<Rightarrow> ptr \<Rightarrow> u64 \<Rightarrow> u64" where
  "stored_location eh dss_addr c place loc =
     (if eh \<and> cd_encoding c AND 0x70 = 0x10 then loc - (dss_addr + word_of_nat place) else loc)"

definition pointer_bytes :: "dwarf_debug \<Rightarrow> bool \<Rightarrow> cie_desc \<Rightarrow> u64 \<Rightarrow> bytes" where
  "pointer_bytes dbg eh c w = (let n = pointer_width c eh in fixed_bytes dbg n (unat w mod 256 ^ n))"

definition fde_head :: "dwarf_debug \<Rightarrow> bool \<Rightarrow> u64 \<Rightarrow> cie_desc \<Rightarrow> ptr \<Rightarrow> fde_desc \<Rightarrow> bytes" where
  "fde_head dbg eh dss_addr c place f =
     pointer_bytes dbg eh c (stored_location eh dss_addr c place (dd_location f)) @ pointer_bytes dbg eh c (dd_range f) @
     (if eh then uleb_encode (length (dd_data f)) @ dd_data f else [])"

fun cie_of_entry :: "frame_entry \<Rightarrow> cie_desc option" where
  "cie_of_entry (CIE_entry _ c) = Some c"
| "cie_of_entry (FDE_entry _ _) = None"

definition cie_at :: "frame_entry list \<Rightarrow> nat \<Rightarrow> cie_desc" where
  "cie_at es k = (case cie_of_entry (es ! k) of Some c \<Rightarrow> c | None \<Rightarrow> undefined)"

definition entry_size :: "bool \<Rightarrow> frame_entry list \<Rightarrow> frame_entry \<Rightarrow> nat" where
  "entry_size eh es e =
     (case e of
        CIE_entry d64 c \<Rightarrow> length_size d64 + id_size d64 + length (cie_head eh c) + length (cd_instrs c)
      | FDE_entry d64 f \<Rightarrow> length_size d64 + id_size d64 + 2 * pointer_width (cie_at es (dd_cie f)) eh +
          (if eh then length (uleb_encode (length (dd_data f))) + length (dd_data f) else 0) + length (dd_instrs f))"

text \<open>Where the entry at a position begins.\<close>

definition entry_place :: "bool \<Rightarrow> frame_entry list \<Rightarrow> nat \<Rightarrow> ptr" where
  "entry_place eh es k = sum_list (map (entry_size eh es) (take k es))"

definition encode_entry :: "dwarf_debug \<Rightarrow> bool \<Rightarrow> u64 \<Rightarrow> frame_entry list \<Rightarrow> ptr \<Rightarrow> frame_entry \<Rightarrow> bytes" where
  "encode_entry dbg eh dss_addr es p e =
     (case e of
        CIE_entry d64 c \<Rightarrow> entry_bytes dbg d64 (if eh then 0 else 256 ^ id_size d64 - 1) (cie_head eh c @ cd_instrs c)
      | FDE_entry d64 f \<Rightarrow>
          let q = entry_place eh es (dd_cie f); c = cie_at es (dd_cie f) in
          entry_bytes dbg d64 (if eh then p + length_size d64 - q else q)
            (fde_head dbg eh dss_addr c (p + length_size d64 + id_size d64) f @ dd_instrs f))"

definition encode_section :: "dwarf_debug \<Rightarrow> bool \<Rightarrow> u64 \<Rightarrow> frame_entry list \<Rightarrow> bytes" where
  "encode_section dbg eh dss_addr es =
     concat (map (\<lambda>k. encode_entry dbg eh dss_addr es (entry_place eh es k) (es ! k)) [0..<length es])"

section \<open>Well-formed sections\<close>

text \<open>A pointer can be stored in the width and the signedness of the encoding.\<close>

definition representable :: "bool \<Rightarrow> cie_desc \<Rightarrow> u64 \<Rightarrow> bool" where
  "representable eh c w \<longleftrightarrow>
     (let n = pointer_width c eh in
      if eh \<and> cd_encoding c AND 0xf \<in> {10, 11} then - (2 ^ (8 * n - 1)) \<le> sint w \<and> sint w < 2 ^ (8 * n - 1)
      else unat w < 256 ^ n)"

definition cie_ok :: "dwarf_debug \<Rightarrow> bool \<Rightarrow> cie_desc \<Rightarrow> bool" where
  "cie_ok dbg eh c \<longleftrightarrow> cd_version c \<in> {1, 3, 4} \<and> cd_code c < 256 \<and> - 128 \<le> cd_data c \<and> cd_data c < 128 \<and>
     0 < cd_address_size c \<and> (if cd_version c = 4 then cd_address_size c \<le> 8 else cd_address_size c = unat (de_pointer_size dbg)) \<and>
     cd_ra c < (if cd_version c = 1 then 2 ^ 8 else 2 ^ 64) \<and>
     (word_of_nat (cd_ra c) = de_frame_cfa_col_number dbg \<or> word_of_nat (cd_ra c) \<le> de_frame_reg_rules_entry_count dbg) \<and>
     cd_instrs c \<noteq> [] \<and> (eh \<longrightarrow> cd_encoding c \<noteq> 0xff \<and> cd_encoding c AND 0xf \<in> {0, 2, 3, 4, 10, 11, 12})"

definition fde_ok_at :: "dwarf_debug \<Rightarrow> bool \<Rightarrow> u64 \<Rightarrow> frame_entry list \<Rightarrow> nat \<Rightarrow> bool \<Rightarrow> fde_desc \<Rightarrow> bool" where
  "fde_ok_at dbg eh dss_addr es k d64 f \<longleftrightarrow> dd_cie f < length es \<and> cie_of_entry (es ! dd_cie f) \<noteq> None \<and> (eh \<longrightarrow> dd_cie f < k) \<and>
     (let c = cie_at es (dd_cie f); place = entry_place eh es k + length_size d64 + id_size d64 in
      representable eh c (stored_location eh dss_addr c place (dd_location f)) \<and> representable eh c (dd_range f)) \<and> (eh \<longrightarrow> dd_instrs f \<noteq> [])"

definition entries_ok :: "dwarf_debug \<Rightarrow> bool \<Rightarrow> u64 \<Rightarrow> frame_entry list \<Rightarrow> bool" where
  "entries_ok dbg eh dss_addr es \<longleftrightarrow>
     (\<forall>k < length es. case es ! k of CIE_entry d64 c \<Rightarrow> cie_ok dbg eh c | FDE_entry d64 f \<Rightarrow> fde_ok_at dbg eh dss_addr es k d64 f)"

section \<open>What is read\<close>

definition describes_cie :: "bytes \<Rightarrow> cie_desc \<Rightarrow> cie \<Rightarrow> bool" where
  "describes_cie buf c r \<longleftrightarrow> ci_cie_version_number r = word_of_nat (cd_version c) \<and> unat (ci_address_size r) = cd_address_size c \<and>
     ci_code_alignment_factor r = word_of_nat (cd_code c) \<and> ci_data_alignment_factor r = word_of_int (cd_data c) \<and>
     ci_return_address_register r = word_of_nat (cd_ra c) \<and> ci_initial_table r = None \<and>
     holds_at buf (ci_cie_instr_start r) (cd_instrs c) \<and> ci_cie_end r = ci_cie_instr_start r + length (cd_instrs c)"

definition describes_fde :: "bytes \<Rightarrow> bool \<Rightarrow> frame_entry list \<Rightarrow> fde_desc \<Rightarrow> section_fde \<Rightarrow> bool" where
  "describes_fde buf eh es f r \<longleftrightarrow> fd_initial_location r = dd_location f \<and> fd_address_range r = dd_range f \<and>
     describes_cie buf (cie_at es (dd_cie f)) (fd_cie r) \<and>
     holds_at buf (fd_fde_instr_start r) (dd_instrs f) \<and> fd_fde_end r = fd_fde_instr_start r + length (dd_instrs f) \<and>
     fd_is_eh r = eh \<and> fd_gnu_eh_aug_present r = eh \<and>
     (eh \<longrightarrow> unat (fd_gnu_eh_augmentation_len r) = length (dd_data f) \<and> holds_at buf (fd_gnu_eh_augmentation_bytes r) (dd_data f))"

section \<open>Reading a prefix\<close>

lemma length_entry_bytes: "length (entry_bytes dbg d64 ident rest) = length_size d64 + id_size d64 + length rest"
  by (simp add: entry_bytes_def Let_def length_size_def id_size_def)

lemma prefix_at:
  assumes "holds_at (fx_buf src) p (entry_bytes (fx_dbg src) d64 ident rest)" "rest \<noteq> []" "ident < 256 ^ id_size d64"
    and "length (fx_buf src) < 2 ^ 31" "length (fx_buf src) < unat (de_filesize (fx_dbg src))"
  shows "read_cie_fde_prefix src p = DW_OK
    \<lparr>cf_start_addr = p, cf_addr_after_prefix = p + length_size d64 + id_size d64, cf_length = word_of_nat (id_size d64 + length rest),
     cf_local_length_size = id_size d64, cf_local_extension_size = (if d64 then 4 else 0),
     cf_cie_id = SIGN_EXTEND (word_of_nat ident) (id_size d64), cf_cie_id_addr = p + length_size d64\<rparr>"
proof -
  let ?buf = "fx_buf src" and ?dbg = "fx_dbg src"
  define len where "len = id_size d64 + length rest"
  have e: "p + (length_size d64 + id_size d64 + length rest) \<le> length ?buf"
    using holds_at_end [OF assms(1)] by (simp add: length_entry_bytes)
  have h: "holds_at ?buf p (if d64 then fixed_bytes ?dbg 4 0xffffffff @ fixed_bytes ?dbg 8 len else fixed_bytes ?dbg 4 len)"
    "holds_at ?buf (p + length_size d64) (fixed_bytes ?dbg (id_size d64) ident)"
    using assms(1) by (simp_all add: entry_bytes_def Let_def length_size_def len_def split: if_splits)
  have n: "0 < len" "len \<le> length ?buf" "len < 2 ^ 31" using e assms(4) by (auto simp: id_size_def len_def)
  have u: "unat (word_of_nat len :: u64) = len" "unat (word_of_nat (length ?buf) :: u64) = length ?buf"
    using n(3) assms(4) by (auto intro!: unat_of_small)
  have area: "read_area_length_ck ?dbg ?buf p (word_of_nat (length ?buf)) (length ?buf) =
      DW_OK ((word_of_nat len, id_size d64, if d64 then 4 else 0), p + length_size d64)"
    using area_length_at [OF h(1) n(1,2)] assms(4) n(3) by (simp add: id_size_def length_size_def)
  have ident: "read_unaligned_ck ?dbg ?buf (p + length_size d64) (id_size d64) (length ?buf) = DW_OK (word_of_nat ident)"
    using h(2) e assms(3) by (intro read_fixed_at) (auto simp: id_size_def)
  have nz: "word_of_nat len \<noteq> (0 :: u64)" using n(1) u(1) by (metis less_numeral_extra(3) unsigned_0)
  have total: "unat (word_of_nat len + word_of_nat (id_size d64) + word_of_nat (if d64 then 4 else 0) :: u64) = len + length_size d64"
    using n(3) u(1) by (simp add: unat_word_ariths unsigned_of_nat take_bit_eq_mod id_size_def length_size_def)
  have tests: "\<not> word_of_nat len \<ge> de_filesize ?dbg" "\<not> word_of_nat len > (word_of_nat (length ?buf) :: u64)"
    "\<not> (word_of_nat len + word_of_nat (id_size d64) + word_of_nat (if d64 then 4 else 0)) > (word_of_nat (length ?buf) :: u64)"
    using e n(2) u assms(5) total by (auto simp: word_le_nat_alt word_less_nat_alt len_def simp del: of_nat_add)
  have "4 \<le> length_size d64" "0 < length rest" using assms(2) by (simp_all add: length_size_def)
  then have ends: "\<not> p \<ge> length ?buf" "\<not> length ?buf < p + 4" "\<not> p + length_size d64 + id_size d64 \<ge> length ?buf"
    "\<not> p + length_size d64 + len > length ?buf"
    using e unfolding len_def by linarith+
  show ?thesis unfolding len_def [symmetric] read_cie_fde_prefix_def Let_def
    using area ident nz u tests ends by simp
qed

section \<open>Reading a CIE\<close>

lemma augmentation_type_of: "get_augmentation_type (augmentation_string eh) eh = (if eh then aug_gcc_eh_z else aug_empty_string)"
  by (cases eh) (simp_all add: get_augmentation_type_def augmentation_string_def chars_def)

lemma augmentation_string_no_nul: "0 \<notin> set (augmentation_string eh)"
  by (simp add: augmentation_string_def chars_def)

lemma aug_encodings_at:
  assumes "holds_at (fx_buf src) p [enc]"
  shows "gnu_aug_encodings src (augmentation_string True) p (p + 1) n no_encodings = DW_OK (no_encodings\<lparr>fde_begin_enc := enc\<rparr>)"
  using assms by (simp add: augmentation_string_def chars_def holds_at_Cons rd8_def)

lemma sleb_at:
  assumes "holds_at buf p (sleb_encode i)" "p + length (sleb_encode i) \<le> e" "e \<le> length buf" "- (2 ^ 63) \<le> i" "i < 2 ^ 63"
  shows "decode_signed_leb128 buf p True e = LEB_OK (length (sleb_encode i)) (word_of_int i)"
  using sleb_len_at [OF assms] by (auto simp: decode_leb128_sword_len_ck_def split: leb_result.splits)

text \<open>The section is in memory, not longer than the file, and below two gigabytes, where the sign extension of the CIE pointer is harmless.\<close>

definition source_fits :: "frame_source \<Rightarrow> bool \<Rightarrow> bool" where
  "source_fits src eh \<longleftrightarrow> length (fx_buf src) < 2 ^ 31 \<and> length (fx_buf src) < unat (de_filesize (fx_dbg src)) \<and>
     src = frame_section eh (fx_dbg src) (fx_buf src) (fx_base src) (fx_dss_addr src) \<and>
     (eh \<longrightarrow> fx_base src \<noteq> 0 \<and> unat (fx_base src) + length (fx_buf src) < 2 ^ 64)"

lemma source_fitsD:
  assumes "source_fits src eh"
  shows "fx_cie_id_value src = (if eh then 0 else - 1)" "fx_use_gnu_cie_calc src = eh"
    "length (fx_buf src) < 2 ^ 31" "length (fx_buf src) < unat (de_filesize (fx_dbg src))"
proof -
  have s: "src = frame_section eh (fx_dbg src) (fx_buf src) (fx_base src) (fx_dss_addr src)" using assms by (simp add: source_fits_def)
  show "fx_cie_id_value src = (if eh then 0 else - 1)" "fx_use_gnu_cie_calc src = eh"
    by (subst s, simp add: frame_section_def)+
qed (use assms in \<open>simp_all add: source_fits_def\<close>)

lemma sleb_encode_not_Nil [simp]: "sleb_encode i \<noteq> []"
  by (subst sleb_encode.simps) (simp add: Let_def)

lemma ucast_of_byte: "n < 2 ^ 8 \<Longrightarrow> ucast (word_of_nat n :: u8) = (word_of_nat n :: u64)"
proof -
  assume n: "n < 2 ^ 8"
  then have "n < 2 ^ 64" by simp
  with n have "take_bit 8 n = n" "take_bit 64 n = n" by (simp_all only: take_bit_nat_eq_self_iff)
  then show ?thesis by (simp add: word_unat_eq_iff unsigned_ucast_eq unsigned_of_nat)
qed

lemma cie_factors_at:
  assumes "holds_at (fx_buf src) p (uleb_encode (cd_code c) @ sleb_encode (cd_data c) @
      (if cd_version c = 1 then [word_of_nat (cd_ra c)] else uleb_encode (cd_ra c)) @ x # xs)"
    and "cie_ok (fx_dbg src) eh c"
  shows "read_cie_factors src (word_of_nat (cd_version c)) p =
    DW_OK (word_of_nat (cd_code c), word_of_int (cd_data c), word_of_nat (cd_ra c),
      p + length (uleb_encode (cd_code c)) + length (sleb_encode (cd_data c)) +
      length (if cd_version c = 1 then [word_of_nat (cd_ra c)] else uleb_encode (cd_ra c)))"
proof -
  let ?buf = "fx_buf src" and ?q = "p + length (uleb_encode (cd_code c))"
  let ?r = "?q + length (sleb_encode (cd_data c))"
  let ?ra = "if cd_version c = 1 then [word_of_nat (cd_ra c)] else uleb_encode (cd_ra c)"
  have len: "0 < length (uleb_encode (cd_code c))" "0 < length (sleb_encode (cd_data c))" "0 < length ?ra"
    by auto
  have h: "holds_at ?buf p (uleb_encode (cd_code c))" "holds_at ?buf ?q (sleb_encode (cd_data c))" "holds_at ?buf ?r ?ra"
    "holds_at ?buf (?r + length ?ra) (x # xs)"
    using assms(1) by (simp_all add: add.assoc)
  have e: "?r + length ?ra < length ?buf" using h(4) by (simp add: holds_at_Cons)
  have ok: "cd_code c < 2 ^ 64" "- (2 ^ 63) \<le> cd_data c" "cd_data c < 2 ^ 63" "cd_version c \<in> {1, 3, 4}"
    "cd_ra c < (if cd_version c = 1 then 2 ^ 8 else 2 ^ 64)"
    using assms(2) by (auto simp: cie_ok_def)
  have code: "leb128_uword_wrapper ?buf p (length ?buf) = DW_OK (word_of_nat (cd_code c), ?q)"
    using e by (intro uword_at [OF h(1)] ok) simp_all
  have data: "decode_signed_leb128 ?buf ?q True (length ?buf) = LEB_OK (length (sleb_encode (cd_data c))) (word_of_int (cd_data c))"
    using e by (intro sleb_at [OF h(2)] ok) simp_all
  have ra: "get_return_address_reg ?buf ?r (uint (word_of_nat (cd_version c) :: u8)) (length ?buf) = DW_OK (word_of_nat (cd_ra c), length ?ra)"
  proof (cases "cd_version c = 1")
    case True
    then have "rd8 ?buf ?r = DW_OK (word_of_nat (cd_ra c))" using h(3) by (simp add: holds_at_Cons rd8_def)
    moreover have "ucast (word_of_nat (cd_ra c) :: u8) = (word_of_nat (cd_ra c) :: u64)"
      using ok(5) True by (intro ucast_of_byte) simp
    ultimately show ?thesis using e True by (simp add: get_return_address_reg_def)
  next
    case False
    then have "uint (word_of_nat (cd_version c) :: u8) \<noteq> 1" using ok(4) by auto
    moreover have "decode_leb128_uword_len_ck ?buf ?r (length ?buf) = DW_OK ((word_of_nat (cd_ra c), length ?ra), ?r + length ?ra)"
      using uleb_len_at [of ?buf ?r "cd_ra c" "length ?buf"] h(3) e ok(5) False by simp
    ultimately show ?thesis by (simp add: get_return_address_reg_def)
  qed
  have reg: "\<not> (word_of_nat (cd_ra c) \<noteq> de_frame_cfa_col_number (fx_dbg src) \<and>
      word_of_nat (cd_ra c) > de_frame_reg_rules_entry_count (fx_dbg src))"
    using assms(2) by (auto simp: cie_ok_def)
  have ends: "\<not> p + 2 \<ge> length ?buf" "\<not> ?r + 1 \<ge> length ?buf" "\<not> ?r + length ?ra > length ?buf"
    using e len by linarith+
  show ?thesis unfolding read_cie_factors_def Let_def using code data ra reg ends by simp
qed

text \<open>The CIE the reader makes of an encoded one that starts at a place and is the one of a number.\<close>

definition decoded_cie :: "frame_source \<Rightarrow> bool \<Rightarrow> ptr \<Rightarrow> bool \<Rightarrow> cie_desc \<Rightarrow> u64 \<Rightarrow> section_cie" where
  "decoded_cie src eh p d64 c i =
     (let start = p + length_size d64 + id_size d64 + length (cie_head eh c) in
      \<lparr>ci_length = word_of_nat (id_size d64 + length (cie_head eh c @ cd_instrs c)),
       ci_augmentation = Some (augmentation_string eh), ci_code_alignment_factor = word_of_nat (cd_code c),
       ci_data_alignment_factor = word_of_int (cd_data c), ci_cie_start = p, ci_cie_instr_start = start,
       ci_cie_end = start + length (cd_instrs c), ci_length_size = word_of_nat (id_size d64),
       ci_extension_size = word_of_nat (if d64 then 4 else 0), ci_address_size = word_of_nat (cd_address_size c),
       ci_return_address_register = word_of_nat (cd_ra c), ci_cie_version_number = word_of_nat (cd_version c), ci_section_ptr = 0,
       ci_gnu_eh_augmentation_len = (if eh then 1 else 0), ci_gnu_eh_augmentation_bytes = (if eh then start - 1 else 0), ci_initial_table = None,
       ci_augmentation_type = (if eh then aug_gcc_eh_z else aug_empty_string), ci_gnu_personality_handler_encoding = 0,
       ci_gnu_lsda_encoding = 0, ci_gnu_fde_begin_encoding = (if eh then cd_encoding c else 0), ci_gnu_personality_handler_addr = 0,
       ci_index = i, ci_section_end = length (fx_buf src), ci_segment_size = 0\<rparr>)"

lemma cie_sizes_at:
  assumes "holds_at (fx_buf src) p ((if cd_version c = 4 then [word_of_nat (cd_address_size c), 0] else []) @ x # xs)"
    and "cie_ok (fx_dbg src) eh c"
  shows "read_cie_sizes src (word_of_nat (cd_version c)) p =
    DW_OK (word_of_nat (cd_address_size c), 0, p + length (if cd_version c = 4 then [word_of_nat (cd_address_size c) :: u8, 0] else []))"
proof (cases "cd_version c = 4")
  case True
  have n: "0 < cd_address_size c" "cd_address_size c \<le> 8" using assms(2) True by (auto simp: cie_ok_def)
  then have "unat (word_of_nat (cd_address_size c) :: u8) = cd_address_size c" by (intro word_of_nat_small_sizes)
  moreover have "ucast (word_of_nat (cd_address_size c) :: u8) = (word_of_nat (cd_address_size c) :: u16)"
    using n by (simp add: word_unat_eq_iff unat_ucast8_16 word_of_nat_small_sizes)
  moreover have "p + 2 < length (fx_buf src)" "rd8 (fx_buf src) p = DW_OK (word_of_nat (cd_address_size c))" "rd8 (fx_buf src) (p + 1) = DW_OK 0"
    using assms(1) True by (simp_all add: holds_at_Cons rd8_def)
  ultimately show ?thesis using True n unfolding read_cie_sizes_def Let_def
    by (simp add: word_less_nat_alt not_less)
next
  case False
  then have "cd_address_size c = unat (de_pointer_size (fx_dbg src))" "cd_version c \<in> {1, 3}" using assms(2) by (auto simp: cie_ok_def)
  then show ?thesis using False unfolding read_cie_sizes_def Let_def by (auto simp: of_nat_unat)
qed

lemma cie_augmentation_at:
  assumes "holds_at (fx_buf src) p ((if eh then uleb_encode 1 @ [enc] else []) @ x # xs)"
  shows "read_cie_augmentation src pf (if eh then aug_gcc_eh_z else aug_empty_string) (augmentation_string eh) n p =
    DW_OK (if eh then (p + 2, 1, p + 1, no_encodings\<lparr>fde_begin_enc := enc\<rparr>) else (p, 0, 0, no_encodings))"
proof (cases eh)
  case True
  have h: "holds_at (fx_buf src) p (uleb_encode 1)" "holds_at (fx_buf src) (p + 1) [enc]" "p + 2 < length (fx_buf src)"
    using assms True by (simp_all add: small_uleb_encode holds_at_Cons)
  have "leb128_uword_wrapper (fx_buf src) p (length (fx_buf src)) = DW_OK (1, p + 1)"
    using uword_at [OF h(1), of "length (fx_buf src)"] h(3) by (simp add: small_uleb_encode)
  then show ?thesis using True h aug_encodings_at [OF h(2), of n] by (simp add: read_cie_augmentation_def Let_def)
qed (simp add: read_cie_augmentation_def Let_def)

lemma narrow_code: "n < 256 \<Longrightarrow> ucast (ucast (word_of_nat n :: u64) :: u8) = (word_of_nat n :: u64)"
proof -
  assume n: "n < 256"
  then have "(ucast (word_of_nat n :: u64) :: u8) = word_of_nat n"
    by (simp add: word_unat_eq_iff unsigned_ucast_eq unsigned_of_nat min_def)
  then show ?thesis using n by (simp add: ucast_of_byte)
qed

lemma narrow_data: "- 128 \<le> i \<Longrightarrow> i < 128 \<Longrightarrow> scast (ucast (word_of_int i :: u64) :: u8) = (word_of_int i :: s64)"
proof -
  assume i: "- 128 \<le> i" "i < 128"
  have "(ucast (word_of_int i :: u64) :: u8) = word_of_int i"
    by (simp add: word_uint_eq_iff unsigned_ucast_eq unsigned_of_int min_def)
  moreover have "sint (word_of_int i :: u8) = i" "sint (word_of_int i :: s64) = i"
    using i by (simp_all add: signed_of_int signed_take_bit_int_eq_self_iff)
  ultimately show ?thesis by (simp only: scast_eq)
qed

lemma create_cie_at:
  assumes "holds_at (fx_buf src) (p + length_size d64 + id_size d64) (cie_head eh c @ cd_instrs c)"
    and "cie_ok (fx_dbg src) eh c" "fx_use_gnu_cie_calc src = eh" "length (fx_buf src) < 2 ^ 31"
    and "cf_start_addr pf = p" "cf_length pf = word_of_nat (id_size d64 + length (cie_head eh c @ cd_instrs c))"
    and "cf_local_length_size pf = id_size d64" "cf_local_extension_size pf = (if d64 then 4 else 0)"
  shows "create_cie_from_after_start src pf (p + length_size d64 + id_size d64) i = DW_OK (decoded_cie src eh p d64 c i)"
proof -
  let ?buf = "fx_buf src" and ?dbg = "fx_dbg src" and ?v = "word_of_nat (cd_version c) :: u8" and ?aug = "augmentation_string eh"
  define q where "q = p + length_size d64 + id_size d64"
  define sizes where "sizes = (if cd_version c = 4 then [word_of_nat (cd_address_size c) :: u8, 0] else [])"
  define ra where "ra = (if cd_version c = 1 then [word_of_nat (cd_ra c)] else uleb_encode (cd_ra c))"
  define augs where "augs = (if eh then uleb_encode 1 @ [cd_encoding c] else [])"
  define q1 where "q1 = q + 1 + length ?aug + 1"
  define q2 where "q2 = q1 + length sizes"
  define q3 where "q3 = q2 + length (uleb_encode (cd_code c)) + length (sleb_encode (cd_data c)) + length ra"
  define q4 where "q4 = q3 + length augs"
  obtain x xs where x: "cd_instrs c = x # xs" using assms(2) by (cases "cd_instrs c") (auto simp: cie_ok_def)
  have head: "cie_head eh c = [?v] @ encode_string ?aug @ sizes @ uleb_encode (cd_code c) @ sleb_encode (cd_data c) @ ra @ augs"
    by (simp add: cie_head_def sizes_def ra_def augs_def)
  have h: "holds_at ?buf q [?v]" "holds_at ?buf (q + 1) (encode_string ?aug)" "holds_at ?buf q1 sizes"
    "holds_at ?buf q2 (uleb_encode (cd_code c) @ sleb_encode (cd_data c) @ ra)" "holds_at ?buf q3 augs" "holds_at ?buf q4 (x # xs)"
    using assms(1) unfolding head q_def [symmetric] x [symmetric] by (simp_all add: q1_def q2_def q3_def q4_def add.assoc holds_at_Cons)
  have e: "q4 + length (cd_instrs c) \<le> length ?buf" using holds_at_end [OF h(6)] x by simp
  have "0 < length (uleb_encode (cd_code c))" "0 < length (sleb_encode (cd_data c))" "0 < length ra" "0 < length (cd_instrs c)"
    using x by (auto simp: ra_def)
  then have pos: "q < q1" "q1 \<le> q2" "q2 + 3 \<le> q3" "q3 \<le> q4" "q4 < length ?buf"
    using e unfolding q1_def q2_def q3_def q4_def by linarith+
  have head_len: "q + length (cie_head eh c) = q4"
    unfolding head by (simp add: q1_def q2_def q3_def q4_def)
  have v: "?v \<in> {1, 3, 4, 5}" using assms(2) by (auto simp: cie_ok_def)
  have rv: "rd8 ?buf q = DW_OK ?v" using h(1) by (simp add: holds_at_Cons rd8_def)
  have str: "check_string_valid ?dbg ?buf 0 (q + 1) (length ?buf) DW_DLE_AUGMENTATION_STRING_OFF_END = DW_OK ()"
    using pos by (intro check_string_at [OF h(2)] augmentation_string_no_nul) (simp_all add: q1_def)
  have len: "strlen ?buf (q + 1) = DW_OK (length ?aug)" by (rule string_at_at(2) [OF h(2) augmentation_string_no_nul])
  have seg: "seg ?buf (q + 1) (q + 1 + length ?aug) = ?aug"
    using h(2) unfolding encode_string_def holds_at_append by (simp add: holds_at_def seg_def drop_take)
  have sz: "read_cie_sizes src ?v q1 = DW_OK (word_of_nat (cd_address_size c), 0, q2)"
  proof -
    obtain y ys where "uleb_encode (cd_code c) @ sleb_encode (cd_data c) @ ra = y # ys" by (cases "uleb_encode (cd_code c)") auto
    then have "holds_at ?buf q2 (y # ys)" using h(4) by simp
    then have "holds_at ?buf q1 (sizes @ y # ys)" using h(3) by (simp add: q2_def)
    then show ?thesis using cie_sizes_at [OF _ assms(2), of q1 y ys] unfolding sizes_def q2_def by simp
  qed
  have fac: "read_cie_factors src ?v q2 = DW_OK (word_of_nat (cd_code c), word_of_int (cd_data c), word_of_nat (cd_ra c), q3)"
  proof -
    obtain y ys where y: "augs @ cd_instrs c = y # ys" using x by (cases "augs @ cd_instrs c") auto
    have "holds_at ?buf q3 (augs @ cd_instrs c)" using h(5,6) x unfolding holds_at_append q4_def by simp
    then have "holds_at ?buf q2 (uleb_encode (cd_code c) @ sleb_encode (cd_data c) @ ra @ y # ys)"
      using h(4) unfolding y q3_def by (simp add: add.assoc)
    then show ?thesis using cie_factors_at [OF _ assms(2), of q2 y ys] unfolding ra_def q3_def by simp
  qed
  have aug: "read_cie_augmentation src pf (if eh then aug_gcc_eh_z else aug_empty_string) ?aug (word_of_nat (cd_address_size c)) q3 =
      DW_OK (if eh then (q3 + 2, 1, q3 + 1, no_encodings\<lparr>fde_begin_enc := cd_encoding c\<rparr>) else (q3, 0, 0, no_encodings))"
    using h(5,6) unfolding augs_def q4_def by (intro cie_augmentation_at [where x = x and xs = xs]) (simp only: holds_at_append simp_thms)
  have fits: "unat (cf_length pf) = id_size d64 + length (cie_head eh c @ cd_instrs c)"
    unfolding assms(6) using e head_len assms(4) q_def by (intro unat_of_small) (simp add: id_size_def)
  have cf: "cf_end pf = q4 + length (cd_instrs c)"
    unfolding cf_end_def fits assms(5,7,8) using head_len by (cases d64) (simp_all add: q_def length_size_def id_size_def)
  have instrs: "(if eh then q3 + 2 else q3) = q4" by (simp add: q4_def augs_def small_uleb_encode)
  have augt: "get_augmentation_type ?aug (fx_use_gnu_cie_calc src) = (if eh then aug_gcc_eh_z else aug_empty_string)"
    unfolding assms(3) by (rule augmentation_type_of)
  have factors: "ucast (ucast (word_of_nat (cd_code c) :: u64) :: u8) = (word_of_nat (cd_code c) :: u64)"
    "scast (ucast (word_of_int (cd_data c) :: u64) :: u8) = (word_of_int (cd_data c) :: s64)" "ucast ?v = (word_of_nat (cd_version c) :: u16)"
    using assms(2) by (auto simp: cie_ok_def intro: narrow_code narrow_data)
  have aug_bytes: "eh \<Longrightarrow> q4 - Suc 0 = Suc q3" using instrs by auto
  have ends: "\<not> q \<ge> length ?buf" "\<not> q + 2 \<ge> length ?buf" "\<not> q1 \<ge> length ?buf" "\<not> q4 > length ?buf" "\<not> cf_end pf > length ?buf"
    using pos e cf by (auto simp: q1_def)
  have behind: "q + 1 + length ?aug + 1 = q1" by (simp add: q1_def)
  show ?thesis
  proof (cases eh)
    case True
    then show ?thesis unfolding create_cie_from_after_start_def q_def [symmetric] Let_def rv dw_bind.simps str len behind seg augt fac sz prod.case
      using v ends aug instrs head_len cf factors aug_bytes assms(5-8)
      by (simp add: decoded_cie_def Let_def q_def [symmetric] no_encodings_def)
  next
    case False
    then show ?thesis unfolding create_cie_from_after_start_def q_def [symmetric] Let_def rv dw_bind.simps str len behind seg augt fac sz prod.case
      using v ends aug instrs head_len cf factors aug_bytes assms(5-8)
      by (simp add: decoded_cie_def Let_def q_def [symmetric] no_encodings_def)
  qed
qed

section \<open>Reading an FDE\<close>

lemma uint_mod_sint: "n \<le> 8 \<Longrightarrow> uint (w :: u64) mod 256 ^ n = sint w mod 256 ^ n"
proof -
  assume "n \<le> 8"
  moreover have "(256 :: int) ^ n = 2 ^ (8 * n)" by (simp add: power_mult)
  ultimately show ?thesis by (simp add: uint_sint flip: take_bit_eq_mod)
qed

lemma word_of_pointer: "unat w < 256 ^ n \<Longrightarrow> word_of_nat (unat w mod 256 ^ n) = w"
  by (simp add: of_nat_unat)

lemma word_of_signed_pointer:
  assumes "0 < n" "n \<le> 8" "- (2 ^ (8 * n - 1)) \<le> sint w" "sint w < 2 ^ (8 * n - 1)"
  shows "SIGN_EXTEND (word_of_nat (unat (w :: u64) mod 256 ^ n)) n = w"
proof -
  have "int (unat w mod 256 ^ n) = sint w mod 256 ^ n" using uint_mod_sint [OF assms(2), of w] by (simp add: zmod_int uint_nat)
  then have "unat w mod 256 ^ n = nat (sint w mod 256 ^ n)" by (simp flip: nat_int)
  then show ?thesis using SIGN_EXTEND_of_int [OF assms] by simp
qed

lemma length_pointer_bytes [simp]: "length (pointer_bytes dbg eh c w) = pointer_width c eh"
  by (simp add: pointer_bytes_def Let_def)

lemma pointer_width_bound: "cie_ok dbg eh c \<Longrightarrow> unat (de_pointer_size dbg) \<le> 8 \<Longrightarrow> pointer_width c eh \<le> 8"
  by (auto simp: pointer_width_def cie_ok_def Let_def)

lemma encoded_ptr_at:
  assumes "holds_at (fx_buf src) p (pointer_bytes (fx_dbg src) True c w)" "cie_ok (fx_dbg src) True c" "representable True c w"
    and "unat (de_pointer_size (fx_dbg src)) \<le> 8"
  shows "read_encoded_ptr src sp p (cd_encoding c) (length (fx_buf src)) (word_of_nat (cd_address_size c)) =
    DW_OK (if sp \<and> cd_encoding c AND 0x70 = 0x10 then w + (fx_dss_addr src + word_of_nat p) else w, p + pointer_width c True)"
proof -
  let ?buf = "fx_buf src" and ?n = "pointer_width c True" and ?enc = "cd_encoding c"
  have n: "?n \<le> 8" by (rule pointer_width_bound [OF assms(2,4)])
  have e: "p + ?n \<le> length ?buf" using holds_at_end [OF assms(1)] by simp
  have val: "read_unaligned_ck (fx_dbg src) ?buf p ?n (length ?buf) = DW_OK (word_of_nat (unat w mod 256 ^ ?n))"
    using assms(1) n e unfolding pointer_bytes_def Let_def by (intro read_fixed_at) simp_all
  have as: "unat (word_of_nat (cd_address_size c) :: u16) = cd_address_size c"
    using assms(2,4) by (intro word_of_nat_small_sizes) (auto simp: cie_ok_def split: if_splits)
  have enc: "?enc \<noteq> 0xff" "?enc AND 0xf \<in> {0, 2, 3, 4, 10, 11, 12}" using assms(2) by (auto simp: cie_ok_def)
  show ?thesis
  proof (cases "?enc AND 0xf \<in> {10, 11}")
    case True
    then have "0 < ?n" by (auto simp: pointer_width_def)
    then have "SIGN_EXTEND (word_of_nat (unat w mod 256 ^ ?n)) ?n = w"
      using n assms(3) True by (intro word_of_signed_pointer) (simp_all add: representable_def Let_def)
    then show ?thesis using True enc val unfolding read_encoded_ptr_def Let_def
      by (auto simp: pointer_width_def Let_def)
  next
    case False
    then have "word_of_nat (unat w mod 256 ^ ?n) = w"
      using assms(3) by (intro word_of_pointer) (simp add: representable_def Let_def)
    then show ?thesis using False enc val as unfolding read_encoded_ptr_def Let_def
      by (auto simp: pointer_width_def Let_def)
  qed
qed

lemma fixed_ptr_at:
  assumes "holds_at (fx_buf src) p (pointer_bytes (fx_dbg src) False c w)" "cie_ok (fx_dbg src) eh c" "representable False c w"
    and "unat (de_pointer_size (fx_dbg src)) \<le> 8"
  shows "read_unaligned_ck (fx_dbg src) (fx_buf src) p (cd_address_size c) (length (fx_buf src)) = DW_OK w"
proof -
  have n: "pointer_width c False = cd_address_size c" by (simp add: pointer_width_def)
  have "cd_address_size c \<le> 8" using assms(2,4) by (auto simp: cie_ok_def split: if_splits)
  moreover have w: "unat w < 256 ^ cd_address_size c" using assms(3) by (simp add: representable_def Let_def n)
  ultimately have "read_unaligned_ck (fx_dbg src) (fx_buf src) p (cd_address_size c) (length (fx_buf src)) =
      DW_OK (word_of_nat (unat w mod 256 ^ cd_address_size c))"
    using assms(1) holds_at_end [OF assms(1)] unfolding pointer_bytes_def Let_def n by (intro read_fixed_at) simp_all
  then show ?thesis using word_of_pointer [OF w] by simp
qed

definition decoded_fde :: "frame_source \<Rightarrow> bool \<Rightarrow> ptr \<Rightarrow> bool \<Rightarrow> cie_desc \<Rightarrow> section_cie \<Rightarrow> fde_desc \<Rightarrow> u64 \<Rightarrow> section_fde" where
  "decoded_fde src eh p d64 c r f ident =
     (let place = p + length_size d64 + id_size d64; head = fde_head (fx_dbg src) eh (fx_dss_addr src) c place f; start = place + length head in
      \<lparr>fd_length = word_of_nat (id_size d64 + length (head @ dd_instrs f)), fd_cie_offset = ident, fd_cie_index = ci_index r,
       fd_cie = cie.truncate r, fd_initial_location = dd_location f, fd_address_range = dd_range f, fd_fde_start = p,
       fd_fde_instr_start = start, fd_fde_end = start + length (dd_instrs f),
       fd_length_size = word_of_nat (id_size d64), fd_extension_size = word_of_nat (if d64 then 4 else 0), fd_is_eh = eh, fd_section_ptr = 0,
       fd_gnu_eh_aug_present = eh, fd_gnu_eh_augmentation_len = (if eh then word_of_nat (length (dd_data f)) else 0),
       fd_gnu_eh_augmentation_bytes = (if eh then start - length (dd_data f) else 0), fd_offset_into_exception_tables = - 1,
       fd_fde_frame_table = \<lparr>fs_loc = 0, fs_reg_count = 0, fs_regtable = None, fs_owns_regtable = False\<rparr>,
       fd_fde_pc_requested = 0, fd_have_fde_frame_tab = False,
       fd_initial_loc_pos = place, fd_eh_table_value = None, fd_section_end = length (fx_buf src)\<rparr>)"

lemma fde_range_at:
  assumes "holds_at (fx_buf src) p (fde_head (fx_dbg src) eh (fx_dss_addr src) c p f @ dd_instrs f)" "cie_ok (fx_dbg src) eh c"
    and "representable eh c (stored_location eh (fx_dss_addr src) c p (dd_location f))" "representable eh c (dd_range f)"
    and "unat (de_pointer_size (fx_dbg src)) \<le> 8" "eh \<longrightarrow> dd_instrs f \<noteq> []" "length (fx_buf src) < 2 ^ 31"
    and "ci_augmentation_type r = (if eh then aug_gcc_eh_z else aug_empty_string)" "eh \<longrightarrow> ci_gnu_fde_begin_encoding r = cd_encoding c"
  shows "read_fde_range src r (word_of_nat (cd_address_size c)) p =
    (let start = p + length (fde_head (fx_dbg src) eh (fx_dss_addr src) c p f) in
     DW_OK (dd_location f, dd_range f, if eh then word_of_nat (length (dd_data f)) else 0, if eh then start - length (dd_data f) else 0, start))"
proof (cases eh)
  case True
  let ?buf = "fx_buf src" and ?w = "pointer_width c True" and ?d = "dd_data f"
  define q where "q = p + ?w + ?w"
  define a where "a = q + length (uleb_encode (length ?d))"
  have h: "holds_at ?buf p (pointer_bytes (fx_dbg src) True c (stored_location True (fx_dss_addr src) c p (dd_location f)))"
    "holds_at ?buf (p + ?w) (pointer_bytes (fx_dbg src) True c (dd_range f))" "holds_at ?buf q (uleb_encode (length ?d))"
    "holds_at ?buf a ?d" "holds_at ?buf (a + length ?d) (dd_instrs f)"
    using assms(1) True by (simp_all add: fde_head_def q_def a_def add.assoc)
  have e: "a + length ?d < length ?buf" using holds_at_end [OF h(5)] assms(6) True by (cases "dd_instrs f") auto
  have loc: "read_encoded_ptr src True p (cd_encoding c) (length ?buf) (word_of_nat (cd_address_size c)) = DW_OK (dd_location f, p + ?w)"
    using encoded_ptr_at [OF h(1)] assms(2,3,5) True by (simp add: stored_location_def)
  have rng: "read_encoded_ptr src False (p + ?w) (cd_encoding c) (length ?buf) (word_of_nat (cd_address_size c)) = DW_OK (dd_range f, q)"
    using encoded_ptr_at [OF h(2)] assms(2,4,5) True by (simp add: q_def)
  have adlen: "leb128_uword_wrapper ?buf q (length ?buf) = DW_OK (word_of_nat (length ?d), a)"
    unfolding a_def using e assms(7) by (intro uword_at [OF h(3)]) (simp_all add: a_def)
  have u: "unat (word_of_nat (length ?d) :: u64) = length ?d" "unat (word_of_nat (length ?buf) :: u64) = length ?buf"
    "unat (word_of_nat (length ?buf - a) :: u64) = length ?buf - a"
    using e assms(7) by (intro unat_of_small; simp)+
  have tests: "\<not> a \<ge> length ?buf" "\<not> word_of_nat (length ?buf - a) \<le> (word_of_nat (length ?d) :: u64)"
    "\<not> (word_of_nat (length ?d) :: u64) \<ge> word_of_nat (length ?buf)"
    using e u by (simp_all add: word_le_nat_alt not_le)
  have start: "p + length (fde_head (fx_dbg src) eh (fx_dss_addr src) c p f) = a + length ?d"
    using True by (simp add: fde_head_def q_def a_def)
  show ?thesis unfolding read_fde_range_def Let_def start using True loc rng adlen u tests e assms(8,9) by simp
next
  case False
  let ?buf = "fx_buf src" and ?n = "cd_address_size c"
  have n: "pointer_width c False = ?n" by (simp add: pointer_width_def)
  have h: "holds_at ?buf p (pointer_bytes (fx_dbg src) False c (dd_location f))"
    "holds_at ?buf (p + ?n) (pointer_bytes (fx_dbg src) False c (dd_range f))"
    using assms(1) False by (simp_all add: fde_head_def stored_location_def n)
  have e: "p + 2 * ?n \<le> length ?buf" using holds_at_end [OF h(2)] by (simp add: n)
  have as: "unat (word_of_nat ?n :: u16) = ?n"
    using assms(2,5) by (intro word_of_nat_small_sizes) (auto simp: cie_ok_def split: if_splits)
  have start: "p + length (fde_head (fx_dbg src) eh (fx_dss_addr src) c p f) = p + 2 * ?n"
    using False by (simp add: fde_head_def n)
  have "read_unaligned_ck (fx_dbg src) ?buf p ?n (length ?buf) = DW_OK (dd_location f)"
    "read_unaligned_ck (fx_dbg src) ?buf (p + ?n) ?n (length ?buf) = DW_OK (dd_range f)"
    using h assms(2-5) False by (auto intro!: fixed_ptr_at simp: stored_location_def)
  then show ?thesis unfolding read_fde_range_def Let_def start using False as e assms(8) by simp
qed

lemma create_fde_at:
  assumes "holds_at (fx_buf src) (p + length_size d64 + id_size d64)
      (fde_head (fx_dbg src) eh (fx_dss_addr src) c (p + length_size d64 + id_size d64) f @ dd_instrs f)"
    and "cie_ok (fx_dbg src) eh c"
    and "representable eh c (stored_location eh (fx_dss_addr src) c (p + length_size d64 + id_size d64) (dd_location f))"
    and "representable eh c (dd_range f)" "unat (de_pointer_size (fx_dbg src)) \<le> 8" "eh \<longrightarrow> dd_instrs f \<noteq> []"
    and "length (fx_buf src) < 2 ^ 31" "fx_use_gnu_cie_calc src = eh" "cf_start_addr pf = p"
    and "cf_length pf = word_of_nat (id_size d64 + length (fde_head (fx_dbg src) eh (fx_dss_addr src) c (p + length_size d64 + id_size d64) f @ dd_instrs f))"
    and "cf_local_length_size pf = id_size d64" "cf_local_extension_size pf = (if d64 then 4 else 0)" "cf_cie_id pf = ident"
    and "ci_augmentation_type r = (if eh then aug_gcc_eh_z else aug_empty_string)" "eh \<longrightarrow> ci_gnu_fde_begin_encoding r = cd_encoding c"
  shows "create_fde_from_after_start src pf (p + length_size d64 + id_size d64) r (word_of_nat (cd_address_size c)) =
    DW_OK (decoded_fde src eh p d64 c r f ident)"
proof -
  define q where "q = p + length_size d64 + id_size d64"
  let ?head = "fde_head (fx_dbg src) eh (fx_dss_addr src) c q f" and ?buf = "fx_buf src"
  have e: "q + length ?head + length (dd_instrs f) \<le> length ?buf" using holds_at_end [OF assms(1)] by (simp add: q_def)
  have fits: "unat (cf_length pf) = id_size d64 + length (?head @ dd_instrs f)"
    unfolding assms(10) using e assms(7) by (intro unat_of_small [THEN trans]) (simp_all add: q_def id_size_def)
  have cf: "cf_end pf = q + length ?head + length (dd_instrs f)"
    unfolding cf_end_def fits assms(9,11,12) by (cases d64) (simp_all add: q_def length_size_def id_size_def)
  have range: "read_fde_range src r (word_of_nat (cd_address_size c)) q =
      DW_OK (dd_location f, dd_range f, if eh then word_of_nat (length (dd_data f)) else 0,
        if eh then q + length ?head - length (dd_data f) else 0, q + length ?head)"
    using fde_range_at [OF assms(1-7,14,15)] by (simp add: q_def Let_def)
  have augm: "read_fde_augmentation src (ci_augmentation_type r) n s = DW_OK (- 1, None, s)" for n s
    unfolding assms(14) by (cases eh) (simp_all add: read_fde_augmentation_def)
  have len: "length (fde_head (fx_dbg src) eh (fx_dss_addr src) c q f @ dd_instrs f) = length ?head + length (dd_instrs f)" by simp
  have ends: "\<not> q + length ?head > length ?buf" "\<not> q + length ?head < q" "\<not> cf_end pf > length ?buf" using e cf by auto
  have aug: "(ci_augmentation_type r = aug_gcc_eh_z) = eh" unfolding assms(14) by simp
  show ?thesis unfolding create_fde_from_after_start_def q_def [symmetric] Let_def range dw_bind.simps prod.case augm if_not_P [OF ends(1)] if_not_P [OF ends(2)]
      if_not_P [OF ends(3)] decoded_fde_def aug
    using assms(8-13) cf by (simp add: q_def [symmetric] Let_def)
qed

section \<open>The layout of a section\<close>

lemma length_fde_head: "length (fde_head dbg eh a c p f) =
    2 * pointer_width c eh + (if eh then length (uleb_encode (length (dd_data f))) + length (dd_data f) else 0)"
  by (simp add: fde_head_def)

lemma length_encode_entry: "length (encode_entry dbg eh a es p e) = entry_size eh es e"
  by (cases e) (simp_all add: encode_entry_def entry_size_def Let_def length_entry_bytes length_fde_head)

lemma entry_place_Suc: "k < length es \<Longrightarrow> entry_place eh es (Suc k) = entry_place eh es k + entry_size eh es (es ! k)"
  by (simp add: entry_place_def take_Suc_conv_app_nth)

lemma entry_size_pos: "0 < entry_size eh es e"
  by (cases e) (simp_all add: entry_size_def length_size_def)

lemma entry_place_less: "j < k \<Longrightarrow> k \<le> length es \<Longrightarrow> entry_place eh es j < entry_place eh es k"
proof (induction k)
  case (Suc k)
  then have "entry_place eh es k < entry_place eh es (Suc k)" using entry_place_Suc [of k es eh] entry_size_pos by simp
  then show ?case using Suc by (cases "j = k") auto
qed simp

lemma entry_place_inj: "i < length es \<Longrightarrow> j < length es \<Longrightarrow> entry_place eh es i = entry_place eh es j \<longleftrightarrow> i = j"
  using entry_place_less [of i j es eh] entry_place_less [of j i es eh] by (metis less_imp_le_nat linorder_neqE_nat less_irrefl)

lemma length_encoded_part:
  "k \<le> length es \<Longrightarrow> length (concat (map (\<lambda>k. encode_entry dbg eh a es (entry_place eh es k) (es ! k)) [0..<k])) = entry_place eh es k"
proof (induction k)
  case (Suc k)
  then show ?case using entry_place_Suc [of k es eh] by (simp add: length_encode_entry)
qed (simp add: entry_place_def)

lemma length_encode_section: "length (encode_section dbg eh a es) = entry_place eh es (length es)"
  by (simp add: encode_section_def length_encoded_part)

lemma entry_holds:
  assumes "k < length es"
  shows "holds_at (encode_section dbg eh a es) (entry_place eh es k) (encode_entry dbg eh a es (entry_place eh es k) (es ! k))"
proof -
  let ?f = "\<lambda>k. encode_entry dbg eh a es (entry_place eh es k) (es ! k)"
  have "[0..<length es] = [0..<k] @ k # [Suc k..<length es]"
    using assms upt_add_eq_append [of 0 k "length es - k"] upt_conv_Cons [of k "length es"] by simp
  then have "encode_section dbg eh a es = concat (map ?f [0..<k]) @ ?f k @ concat (map ?f [Suc k..<length es])"
    by (simp add: encode_section_def)
  then show ?thesis using holds_atI [of "concat (map ?f [0..<k])" "?f k" "concat (map ?f [Suc k..<length es])"] assms
    by (simp add: length_encoded_part)
qed

section \<open>The entries of a section in place\<close>

definition cie_positions :: "frame_entry list \<Rightarrow> nat \<Rightarrow> nat list" where
  "cie_positions es k = filter (\<lambda>j. cie_of_entry (es ! j) \<noteq> None) [0..<k]"

definition fde_positions :: "frame_entry list \<Rightarrow> nat \<Rightarrow> nat list" where
  "fde_positions es k = filter (\<lambda>j. cie_of_entry (es ! j) = None) [0..<k]"

text \<open>
  The sections the theorems are about. The last two conditions restrict the number of entries in proportion to the length of the section: the reader
  refuses a section with more, see \<open>chain_up_cie\<close> and \<open>fde_step\<close>.
\<close>

definition section_ok :: "frame_source \<Rightarrow> bool \<Rightarrow> frame_entry list \<Rightarrow> bool" where
  "section_ok src eh es \<longleftrightarrow> fx_buf src = encode_section (fx_dbg src) eh (fx_dss_addr src) es \<and> source_fits src eh \<and>
     unat (de_pointer_size (fx_dbg src)) \<le> 8 \<and> entries_ok (fx_dbg src) eh (fx_dss_addr src) es \<and>
     length (cie_positions es (length es)) < length (fx_buf src) div 14 \<and>
     length (fde_positions es (length es)) < length (fx_buf src) div (8 + unat (de_pointer_size (fx_dbg src)) * 2)"

lemma section_okD:
  assumes "section_ok src eh es"
  shows "fx_buf src = encode_section (fx_dbg src) eh (fx_dss_addr src) es" "source_fits src eh"
    "unat (de_pointer_size (fx_dbg src)) \<le> 8" "entries_ok (fx_dbg src) eh (fx_dss_addr src) es"
    "length (cie_positions es (length es)) < length (fx_buf src) div 14"
    "length (fde_positions es (length es)) < length (fx_buf src) div (8 + unat (de_pointer_size (fx_dbg src)) * 2)"
  using assms unfolding section_ok_def by blast+

lemma place_bounds:
  assumes "section_ok src eh es" "k < length es"
  shows "entry_place eh es k < length (fx_buf src)" "entry_place eh es (Suc k) \<le> length (fx_buf src)" "length (fx_buf src) < 2 ^ 31"
proof -
  have "length (fx_buf src) = entry_place eh es (length es)"
    by (subst section_okD(1) [OF assms(1)]) (rule length_encode_section)
  then show "entry_place eh es k < length (fx_buf src)" "entry_place eh es (Suc k) \<le> length (fx_buf src)"
    using assms(2) entry_place_less [of k "length es" es eh] entry_place_less [of "Suc k" "length es" es eh] by (cases "Suc k = length es"; simp)+
  show "length (fx_buf src) < 2 ^ 31" by (rule source_fitsD(3) [OF section_okD(2) [OF assms(1)]])
qed

lemma SIGN_EXTEND_small: "i < 2 ^ 31 \<Longrightarrow> SIGN_EXTEND (word_of_nat i) (id_size d64) = (word_of_nat i :: u64)"
proof -
  assume i: "i < 2 ^ 31"
  then have "nat (int i mod 256 ^ id_size d64) = i" by (simp add: id_size_def)
  then show ?thesis using SIGN_EXTEND_of_int [of "id_size d64" "int i"] i by (simp add: id_size_def)
qed

lemma cie_id_read: "SIGN_EXTEND (word_of_nat (if eh then 0 else 256 ^ id_size d64 - 1)) (id_size d64) = (if eh then 0 else - 1 :: u64)"
proof (cases eh)
  case True
  then show ?thesis using SIGN_EXTEND_small [of 0 d64] by simp
next
  case False
  have "nat (- 1 mod 256 ^ id_size d64) = 256 ^ id_size d64 - 1" by (simp add: id_size_def)
  then show ?thesis using SIGN_EXTEND_of_int [of "id_size d64" "- 1"] False by (simp add: id_size_def)
qed

lemma cie_in_place:
  assumes "section_ok src eh es" "k < length es" "es ! k = CIE_entry d64 c"
  shows "cie_ok (fx_dbg src) eh c"
    "holds_at (fx_buf src) (entry_place eh es k) (entry_bytes (fx_dbg src) d64 (if eh then 0 else 256 ^ id_size d64 - 1) (cie_head eh c @ cd_instrs c))"
proof -
  show "cie_ok (fx_dbg src) eh c" using section_okD(4) [OF assms(1)] assms(2,3) by (auto simp: entries_ok_def split: frame_entry.splits)
  show "holds_at (fx_buf src) (entry_place eh es k) (entry_bytes (fx_dbg src) d64 (if eh then 0 else 256 ^ id_size d64 - 1) (cie_head eh c @ cd_instrs c))"
    using entry_holds [OF assms(2), of "fx_dbg src" eh "fx_dss_addr src"] assms(3)
    unfolding section_okD(1) [OF assms(1), symmetric] by (simp add: encode_entry_def)
qed

lemma holds_entry_rest:
  assumes "holds_at buf p (entry_bytes dbg d64 ident rest)"
  shows "holds_at buf (p + length_size d64 + id_size d64) rest"
  using assms by (cases d64) (simp_all add: entry_bytes_def Let_def length_size_def id_size_def)

lemma cie_prefix_at:
  assumes "section_ok src eh es" "k < length es" "es ! k = CIE_entry d64 c"
  shows "\<exists>pf. read_cie_fde_prefix src (entry_place eh es k) = DW_OK pf \<and> cf_cie_id pf = fx_cie_id_value src \<and>
    cf_start_addr pf = entry_place eh es k \<and> cf_addr_after_prefix pf < length (fx_buf src) \<and>
    (\<forall>i. create_cie_from_after_start src pf (cf_addr_after_prefix pf) i = DW_OK (decoded_cie src eh (entry_place eh es k) d64 c i))"
proof -
  let ?p = "entry_place eh es k" and ?rest = "cie_head eh c @ cd_instrs c"
  have fits: "source_fits src eh" by (rule section_okD(2) [OF assms(1)])
  note c = cie_in_place [OF assms]
  have ne: "?rest \<noteq> []" by (simp add: cie_head_def)
  have rest: "holds_at (fx_buf src) (?p + length_size d64 + id_size d64) ?rest" by (rule holds_entry_rest [OF c(2)])
  have e: "?p + length_size d64 + id_size d64 < length (fx_buf src)" using holds_at_end [OF rest] ne by (cases ?rest) auto
  show ?thesis
    using prefix_at [OF c(2) ne _ source_fitsD(3,4) [OF fits]] e source_fitsD(1) [OF fits] cie_id_read [of eh d64]
      create_cie_at [OF rest c(1) source_fitsD(2,3) [OF fits]] by (simp add: id_size_def)
qed

text \<open>The number an FDE at a position refers to its CIE with.\<close>

definition cie_pointer :: "bool \<Rightarrow> frame_entry list \<Rightarrow> nat \<Rightarrow> bool \<Rightarrow> fde_desc \<Rightarrow> nat" where
  "cie_pointer eh es k d64 f =
     (let q = entry_place eh es (dd_cie f) in if eh then entry_place eh es k + length_size d64 - q else q)"

lemma fde_in_place:
  assumes "section_ok src eh es" "k < length es" "es ! k = FDE_entry d64 f"
  shows "fde_ok_at (fx_dbg src) eh (fx_dss_addr src) es k d64 f"
    "holds_at (fx_buf src) (entry_place eh es k) (entry_bytes (fx_dbg src) d64 (cie_pointer eh es k d64 f)
      (fde_head (fx_dbg src) eh (fx_dss_addr src) (cie_at es (dd_cie f)) (entry_place eh es k + length_size d64 + id_size d64) f @ dd_instrs f))"
proof -
  show "fde_ok_at (fx_dbg src) eh (fx_dss_addr src) es k d64 f"
    using section_okD(4) [OF assms(1)] assms(2,3) by (auto simp: entries_ok_def split: frame_entry.splits)
  show "holds_at (fx_buf src) (entry_place eh es k) (entry_bytes (fx_dbg src) d64 (cie_pointer eh es k d64 f)
      (fde_head (fx_dbg src) eh (fx_dss_addr src) (cie_at es (dd_cie f)) (entry_place eh es k + length_size d64 + id_size d64) f @ dd_instrs f))"
    using entry_holds [OF assms(2), of "fx_dbg src" eh "fx_dss_addr src"] assms(3)
    unfolding section_okD(1) [OF assms(1), symmetric] by (simp add: encode_entry_def Let_def cie_pointer_def)
qed

lemma fde_cie:
  assumes "section_ok src eh es" "k < length es" "es ! k = FDE_entry d64 f"
  obtains d where "dd_cie f < length es" "es ! dd_cie f = CIE_entry d (cie_at es (dd_cie f))" "eh \<Longrightarrow> dd_cie f < k"
proof -
  have f: "dd_cie f < length es" "cie_of_entry (es ! dd_cie f) \<noteq> None" "eh \<Longrightarrow> dd_cie f < k"
    using fde_in_place(1) [OF assms] by (simp_all add: fde_ok_at_def)
  then obtain d c where "es ! dd_cie f = CIE_entry d c" by (cases "es ! dd_cie f") auto
  then show thesis using that f by (simp add: cie_at_def)
qed

lemma cie_pointer_bounds:
  assumes "section_ok src eh es" "k < length es" "es ! k = FDE_entry d64 f"
  shows "cie_pointer eh es k d64 f < length (fx_buf src)" "eh \<Longrightarrow> 0 < cie_pointer eh es k d64 f"
    "eh \<Longrightarrow> entry_place eh es (dd_cie f) + cie_pointer eh es k d64 f = entry_place eh es k + length_size d64"
    "entry_place eh es k + length_size d64 + id_size d64 \<le> length (fx_buf src)"
proof -
  obtain d where d: "dd_cie f < length es" "eh \<Longrightarrow> dd_cie f < k" using fde_cie [OF assms] by metis
  show e: "entry_place eh es k + length_size d64 + id_size d64 \<le> length (fx_buf src)"
    using holds_at_end [OF holds_entry_rest [OF fde_in_place(2) [OF assms]]] by simp
  have less: "eh \<Longrightarrow> entry_place eh es (dd_cie f) < entry_place eh es k"
    using d(2) assms(2) by (intro entry_place_less) simp_all
  have id: "0 < id_size d64" by (simp add: id_size_def)
  show "cie_pointer eh es k d64 f < length (fx_buf src)"
    using e less id place_bounds(1) [OF assms(1) d(1)] by (auto simp: cie_pointer_def Let_def)
  show "eh \<Longrightarrow> 0 < cie_pointer eh es k d64 f" "eh \<Longrightarrow> entry_place eh es (dd_cie f) + cie_pointer eh es k d64 f = entry_place eh es k + length_size d64"
    using less by (auto simp: cie_pointer_def Let_def)
qed

lemma cieptr_at:
  assumes "section_ok src eh es" "k < length es" "es ! k = FDE_entry d64 f"
  shows "get_cieptr_given_offset src (word_of_nat (cie_pointer eh es k d64 f)) (entry_place eh es k + length_size d64) =
    DW_OK (int (entry_place eh es (dd_cie f)))"
proof -
  let ?n = "cie_pointer eh es k d64 f" and ?a = "entry_place eh es k + length_size d64" and ?buf = "fx_buf src"
  note b = cie_pointer_bounds [OF assms] and fits = section_okD(2) [OF assms(1)]
  have len: "length ?buf < 2 ^ 31" by (rule place_bounds(3) [OF assms(1,2)])
  have u: "unat (word_of_nat ?n :: u64) = ?n" "unat (word_of_nat (length ?buf) :: u64) = length ?buf" "unat (word_of_nat ?a :: u64) = ?a"
    using b(1,4) len by (intro unat_of_small; simp)+
  have small: "\<not> word_of_nat ?n \<ge> (word_of_nat (length ?buf) :: u64)" using b(1) u by (simp add: word_le_nat_alt)
  have ui: "uint (word_of_nat ?n :: u64) = int ?n" using u(1) by (simp only: uint_nat)
  show ?thesis
  proof (cases eh)
    case True
    have base: "fx_base src \<noteq> 0" "unat (fx_base src) + length ?buf < 2 ^ 64"
      using fits True unfolding source_fits_def by blast+
    then have "unat (address_of (fx_base src) ?a) = unat (fx_base src) + ?a"
      unfolding address_of_def unat_word_ariths u(3) using b(4) by simp
    then have "\<not> address_of (fx_base src) ?a \<le> word_of_nat ?n"
      using b(3) True u(1) base(1) unat_eq_zero [of "fx_base src"] unfolding word_le_nat_alt by linarith
    then show ?thesis using b(3) True small source_fitsD(2) [OF fits] ui
      by (simp add: get_cieptr_given_offset_def)
  next
    case False
    then show ?thesis using small source_fitsD(2) [OF fits] ui by (simp add: get_cieptr_given_offset_def cie_pointer_def Let_def)
  qed
qed

lemma fde_prefix_at:
  assumes "section_ok src eh es" "k < length es" "es ! k = FDE_entry d64 f"
    and "ci_augmentation_type r = (if eh then aug_gcc_eh_z else aug_empty_string)"
    and "eh \<longrightarrow> ci_gnu_fde_begin_encoding r = cd_encoding (cie_at es (dd_cie f))"
    and "ci_address_size r = word_of_nat (cd_address_size (cie_at es (dd_cie f)))"
  shows "\<exists>pf. read_cie_fde_prefix src (entry_place eh es k) = DW_OK pf \<and> cf_cie_id pf = word_of_nat (cie_pointer eh es k d64 f) \<and>
    cf_cie_id pf \<noteq> fx_cie_id_value src \<and> cf_cie_id_addr pf = entry_place eh es k + length_size d64 \<and>
    cf_addr_after_prefix pf < length (fx_buf src) \<and>
    create_fde_from_after_start src pf (cf_addr_after_prefix pf) r (ci_address_size r) =
      DW_OK (decoded_fde src eh (entry_place eh es k) d64 (cie_at es (dd_cie f)) r f (word_of_nat (cie_pointer eh es k d64 f)))"
proof -
  let ?p = "entry_place eh es k" and ?n = "cie_pointer eh es k d64 f" and ?c = "cie_at es (dd_cie f)"
  let ?rest = "fde_head (fx_dbg src) eh (fx_dss_addr src) ?c (?p + length_size d64 + id_size d64) f @ dd_instrs f"
  note fits = section_okD(2) [OF assms(1)] and f = fde_in_place [OF assms(1-3)] and b = cie_pointer_bounds [OF assms(1-3)]
  obtain d where d: "dd_cie f < length es" "es ! dd_cie f = CIE_entry d ?c" using fde_cie [OF assms(1-3)] by metis
  have c: "cie_ok (fx_dbg src) eh ?c" by (rule cie_in_place(1) [OF assms(1) d])
  have len: "length (fx_buf src) < 2 ^ 31" by (rule place_bounds(3) [OF assms(1,2)])
  have n: "?n < 2 ^ 31" using b(1) len by simp
  have "0 < pointer_width ?c eh" using c by (auto simp: pointer_width_def cie_ok_def Let_def)
  then have "0 < length ?rest" unfolding length_append length_fde_head by simp
  then have ne: "?rest \<noteq> []" by blast
  have rest: "holds_at (fx_buf src) (?p + length_size d64 + id_size d64) ?rest" by (rule holds_entry_rest [OF f(2)])
  have e: "?p + length_size d64 + id_size d64 < length (fx_buf src)" using holds_at_end [OF rest] ne by (cases ?rest) auto
  have u: "unat (word_of_nat ?n :: u64) = ?n" using n by (intro unat_of_small) simp
  have id: "word_of_nat ?n \<noteq> (if eh then 0 else - 1 :: u64)"
  proof
    assume "word_of_nat ?n = (if eh then 0 else - 1 :: u64)"
    then have "?n = unat (if eh then 0 else - 1 :: u64)" using u by metis
    then show False using b(2) n by (cases eh) (simp_all add: unsigned_minus_1_eq_mask mask_eq_exp_minus_1)
  qed
  have id_bound: "?n < 256 ^ id_size d64" using n by (cases d64) (simp_all add: id_size_def)
  have fde: "representable eh ?c (stored_location eh (fx_dss_addr src) ?c (?p + length_size d64 + id_size d64) (dd_location f))"
    "representable eh ?c (dd_range f)" "eh \<longrightarrow> dd_instrs f \<noteq> []"
    using f(1) by (simp_all add: fde_ok_at_def Let_def)
  show ?thesis
    using prefix_at [OF f(2) ne id_bound source_fitsD(3,4) [OF fits]] e source_fitsD(1) [OF fits] id SIGN_EXTEND_small [OF n, of d64]
      create_fde_at [OF rest c fde(1,2) section_okD(3) [OF assms(1)] fde(3) len source_fitsD(2) [OF fits]] assms(4-6) by simp
qed

section \<open>The walk\<close>

text \<open>A CIE of the list stands for the entry at a position.\<close>

definition cie_of :: "frame_source \<Rightarrow> bool \<Rightarrow> frame_entry list \<Rightarrow> nat \<Rightarrow> section_cie \<Rightarrow> bool" where
  "cie_of src eh es j r \<longleftrightarrow> j < length es \<and>
     (\<exists>d64 c. es ! j = CIE_entry d64 c \<and> r = decoded_cie src eh (entry_place eh es j) d64 c (ci_index r))"

definition fde_of :: "frame_source \<Rightarrow> bool \<Rightarrow> frame_entry list \<Rightarrow> section_cie list \<Rightarrow> nat \<Rightarrow> section_fde \<Rightarrow> bool" where
  "fde_of src eh es cies j r \<longleftrightarrow>
     (\<exists>d64 f. es ! j = FDE_entry d64 f \<and> (\<exists>c \<in> set cies. cie_of src eh es (dd_cie f) c \<and>
        r = decoded_fde src eh (entry_place eh es j) d64 (cie_at es (dd_cie f)) c f (word_of_nat (cie_pointer eh es j d64 f))))"

text \<open>What the walk has made when it has come to a position of the section.\<close>

definition walk_at :: "frame_source \<Rightarrow> bool \<Rightarrow> frame_entry list \<Rightarrow> nat \<Rightarrow> fde_list_state \<Rightarrow> bool" where
  "walk_at src eh es k st \<longleftrightarrow> (\<forall>r \<in> set (fl_cies st). \<exists>j. cie_of src eh es j r) \<and> distinct (map ci_cie_start (fl_cies st)) \<and>
     (\<forall>i. fl_cur_cie st = Some i \<longrightarrow> i < length (fl_cies st)) \<and>
     (\<forall>j \<in> set (cie_positions es k). \<exists>r \<in> set (fl_cies st). cie_of src eh es j r) \<and> (0 < k \<longrightarrow> fl_cies st \<noteq> []) \<and>
     list_all2 (fde_of src eh es (fl_cies st)) (fde_positions es k) (fl_fdes st)"

lemma cie_of_start: "cie_of src eh es j r \<Longrightarrow> ci_cie_start r = entry_place eh es j"
  unfolding cie_of_def decoded_cie_def Let_def by (metis section_cie.select_convs(1) cie.select_convs(5))

lemma cie_of_unique: "cie_of src eh es i r \<Longrightarrow> ci_cie_start r = entry_place eh es j \<Longrightarrow> j < length es \<Longrightarrow> i = j"
  using cie_of_start entry_place_inj by (metis cie_of_def)

lemma cie_of_position: "cie_of src eh es j r \<Longrightarrow> j \<in> set (cie_positions es (length es))"
  unfolding cie_of_def cie_positions_def by auto

lemma fde_of_more: "fde_of src eh es cies j r \<Longrightarrow> set cies \<subseteq> set more_cies \<Longrightarrow> fde_of src eh es more_cies j r"
  unfolding fde_of_def by blast

lemma few_cies:
  assumes "\<forall>r \<in> set rs. \<exists>j. cie_of src eh es j r" "distinct (map ci_cie_start rs)"
  shows "length rs \<le> length (cie_positions es (length es))"
proof -
  have "set (map ci_cie_start rs) \<subseteq> entry_place eh es ` set (cie_positions es (length es))"
  proof
    fix s assume "s \<in> set (map ci_cie_start rs)"
    then obtain r where r: "r \<in> set rs" "s = ci_cie_start r" by auto
    then obtain j where j: "cie_of src eh es j r" using assms(1) by blast
    show "s \<in> entry_place eh es ` set (cie_positions es (length es))"
      unfolding r(2) cie_of_start [OF j] using cie_of_position [OF j] by (rule imageI)
  qed
  then have "card (set (map ci_cie_start rs)) \<le> card (set (cie_positions es (length es)))"
    by (meson List.finite_set card_image_le card_mono finite_imageI le_trans)
  moreover have "distinct (cie_positions es (length es))" by (simp add: cie_positions_def)
  ultimately show ?thesis using distinct_card [OF assms(2)] by (simp add: distinct_card)
qed

lemma use_or_make_at:
  assumes "section_ok src eh es" "walk_at src eh es k st" "j < length es" "es ! j = CIE_entry d64 c"
    and "m = DW_OK (decoded_cie src eh (entry_place eh es j) d64 c n)"
  shows "\<exists>i st'. (case find_existing_cie_ptr (int (entry_place eh es j)) st of
        Some i \<Rightarrow> DW_OK (i, st\<lparr>fl_cur_cie := Some i\<rparr>) | None \<Rightarrow> dw_bind m (\<lambda>c. chain_up_cie src c st)) = DW_OK (i, st') \<and>
      i < length (fl_cies st') \<and> cie_of src eh es j (fl_cies st' ! i) \<and> fl_fdes st' = fl_fdes st \<and> walk_at src eh es k st'"
proof (cases "find_existing_cie_ptr (int (entry_place eh es j)) st")
  case (Some i)
  have i: "i < length (fl_cies st)" "ci_cie_start (fl_cies st ! i) = entry_place eh es j"
    using find_existing_Some [OF Some] assms(2) by (auto simp: walk_at_def)
  then obtain j' where j': "cie_of src eh es j' (fl_cies st ! i)"
    using assms(2) nth_mem [OF i(1)] unfolding walk_at_def by blast
  then have "cie_of src eh es j (fl_cies st ! i)" using cie_of_unique [OF j' i(2) assms(3)] by simp
  then show ?thesis using Some i assms(2) by (auto simp: walk_at_def)
next
  case None
  let ?r = "decoded_cie src eh (entry_place eh es j) d64 c n"
  have r: "cie_of src eh es j ?r" using assms(3,4) by (auto simp: cie_of_def decoded_cie_def Let_def)
  have new: "\<forall>x \<in> set (fl_cies st). ci_cie_start x \<noteq> ci_cie_start ?r"
    using find_existing_None [OF None] cie_of_start [OF r] by auto
  let ?st = "st\<lparr>fl_cies := fl_cies st @ [?r], fl_cur_cie := Some (length (fl_cies st))\<rparr>"
  have cies: "\<forall>x \<in> set (fl_cies ?st). \<exists>j. cie_of src eh es j x" "distinct (map ci_cie_start (fl_cies ?st))"
    using assms(2) r new by (auto simp: walk_at_def)
  have "length (fl_cies ?st) \<le> length (cie_positions es (length es))" by (rule few_cies [OF cies])
  then have "chain_up_cie src ?r st = DW_OK (length (fl_cies st), ?st)"
    using section_okD(5) [OF assms(1)] by (simp add: chain_up_cie_def Let_def)
  moreover have "walk_at src eh es k ?st"
  proof -
    have "list_all2 (fde_of src eh es (fl_cies ?st)) (fde_positions es k) (fl_fdes st)"
      using assms(2) unfolding walk_at_def by (auto intro: fde_of_more elim!: list_all2_mono)
    then show ?thesis using assms(2) cies unfolding walk_at_def by auto
  qed
  ultimately show ?thesis using None r assms(5) by auto
qed

lemma entry_end_at:
  assumes "id_size d64 + n < 2 ^ 31"
  shows "entry_end p (word_of_nat (id_size d64 + n)) (word_of_nat (id_size d64) :: u16) (word_of_nat (if d64 then 4 else 0)) =
      p + length_size d64 + id_size d64 + n"
    "entry_end p (word_of_nat (id_size d64 + n)) (word_of_nat (id_size d64) :: u8) (word_of_nat (if d64 then 4 else 0)) =
      p + length_size d64 + id_size d64 + n"
proof -
  have "unat (word_of_nat (id_size d64 + n) :: u64) = id_size d64 + n" using assms by (intro unat_of_small) simp
  then show "entry_end p (word_of_nat (id_size d64 + n)) (word_of_nat (id_size d64) :: u16) (word_of_nat (if d64 then 4 else 0)) =
      p + length_size d64 + id_size d64 + n"
    "entry_end p (word_of_nat (id_size d64 + n)) (word_of_nat (id_size d64) :: u8) (word_of_nat (if d64 then 4 else 0)) =
      p + length_size d64 + id_size d64 + n"
    unfolding entry_end_def by (cases d64; simp add: id_size_def length_size_def word_of_nat_small_sizes del: of_nat_add)+
qed

lemma cie_of_end:
  assumes "section_ok src eh es" "cie_of src eh es j r"
  shows "entry_end (ci_cie_start r) (ci_length r) (ci_length_size r) (ci_extension_size r) = entry_place eh es (Suc j)"
proof -
  obtain d64 c where j: "j < length es" "es ! j = CIE_entry d64 c" and r: "r = decoded_cie src eh (entry_place eh es j) d64 c (ci_index r)"
    using assms(2) by (auto simp: cie_of_def)
  have s: "entry_place eh es (Suc j) = entry_place eh es j + length_size d64 + id_size d64 + length (cie_head eh c @ cd_instrs c)"
    using entry_place_Suc [OF j(1)] j(2) by (simp add: entry_size_def)
  then have "id_size d64 + length (cie_head eh c @ cd_instrs c) < 2 ^ 31"
    using place_bounds(2,3) [OF assms(1) j(1)] by linarith
  from entry_end_at(1) [OF this] show ?thesis unfolding s by (subst r, subst (2) r, subst (3) r, subst (4) r) (simp add: decoded_cie_def Let_def)
qed

lemma positions_Suc:
  "cie_positions es (Suc k) = cie_positions es k @ (if cie_of_entry (es ! k) \<noteq> None then [k] else [])"
  "fde_positions es (Suc k) = fde_positions es k @ (if cie_of_entry (es ! k) = None then [k] else [])"
  by (simp_all add: cie_positions_def fde_positions_def)

lemma cie_step_at:
  assumes "section_ok src eh es" "walk_at src eh es k st" "k < length es" "es ! k = CIE_entry d64 c"
  obtains pf st' where "read_cie_fde_prefix src (entry_place eh es k) = DW_OK pf" "cf_addr_after_prefix pf < length (fx_buf src)"
    "cf_cie_id pf = fx_cie_id_value src" "cie_step src pf st = DW_OK (st', entry_place eh es (Suc k))" "walk_at src eh es (Suc k) st'"
proof -
  obtain pf where pf: "read_cie_fde_prefix src (entry_place eh es k) = DW_OK pf" "cf_cie_id pf = fx_cie_id_value src"
    "cf_start_addr pf = entry_place eh es k" "cf_addr_after_prefix pf < length (fx_buf src)"
    "\<And>i. create_cie_from_after_start src pf (cf_addr_after_prefix pf) i = DW_OK (decoded_cie src eh (entry_place eh es k) d64 c i)"
    using cie_prefix_at [OF assms(1,3,4)] by blast
  obtain i st' where st': "(case find_existing_cie_ptr (int (entry_place eh es k)) st of
        Some i \<Rightarrow> DW_OK (i, st\<lparr>fl_cur_cie := Some i\<rparr>)
      | None \<Rightarrow> dw_bind (create_cie_from_after_start src pf (cf_addr_after_prefix pf) (word_of_nat (length (fl_cies st))))
          (\<lambda>c. chain_up_cie src c st)) = DW_OK (i, st')"
    "i < length (fl_cies st')" "cie_of src eh es k (fl_cies st' ! i)" "walk_at src eh es k st'"
    using use_or_make_at [OF assms pf(5)] by blast
  have "cie_step src pf st = DW_OK (st', entry_place eh es (Suc k))"
    unfolding cie_step_def pf(3) st'(1) using cie_of_end [OF assms(1) st'(3)] by (simp add: Let_def)
  moreover have "walk_at src eh es (Suc k) st'"
    using st'(2-4) assms(4) nth_mem [OF st'(2)] unfolding walk_at_def positions_Suc by auto
  ultimately show thesis using that pf by blast
qed

lemma cie_of_fields:
  assumes "cie_of src eh es j r"
  shows "ci_augmentation_type r = (if eh then aug_gcc_eh_z else aug_empty_string)"
    "eh \<longrightarrow> ci_gnu_fde_begin_encoding r = cd_encoding (cie_at es j)" "ci_address_size r = word_of_nat (cd_address_size (cie_at es j))"
proof -
  obtain d64 c where j: "es ! j = CIE_entry d64 c" and r: "r = decoded_cie src eh (entry_place eh es j) d64 c (ci_index r)"
    using assms by (auto simp: cie_of_def)
  have "cie_at es j = c" using j by (simp add: cie_at_def)
  then show "ci_augmentation_type r = (if eh then aug_gcc_eh_z else aug_empty_string)"
    "eh \<longrightarrow> ci_gnu_fde_begin_encoding r = cd_encoding (cie_at es j)" "ci_address_size r = word_of_nat (cd_address_size (cie_at es j))"
    by (subst r, simp add: decoded_cie_def Let_def)+
qed

lemma create_cie_from_start_at:
  assumes "section_ok src eh es" "j < length es" "es ! j = CIE_entry d64 c"
  shows "create_cie_from_start src (int (entry_place eh es j)) i = DW_OK (decoded_cie src eh (entry_place eh es j) d64 c i)"
  using cie_prefix_at [OF assms] place_bounds(1) [OF assms(1,2)] by (auto simp: create_cie_from_start_def)

lemma decoded_fde_end:
  assumes "section_ok src eh es" "k < length es" "es ! k = FDE_entry d64 f"
    and "x = decoded_fde src eh (entry_place eh es k) d64 (cie_at es (dd_cie f)) r f n"
  shows "entry_end (fd_fde_start x) (fd_length x) (fd_length_size x) (fd_extension_size x) = entry_place eh es (Suc k)"
    "fd_fde_instr_start x \<le> entry_place eh es (Suc k)"
proof -
  let ?place = "entry_place eh es k + length_size d64 + id_size d64"
  let ?head = "fde_head (fx_dbg src) eh (fx_dss_addr src) (cie_at es (dd_cie f)) ?place f"
  have s: "entry_place eh es (Suc k) = ?place + length (?head @ dd_instrs f)"
    using entry_place_Suc [OF assms(2)] assms(3) by (simp add: entry_size_def length_fde_head)
  then have "id_size d64 + length (?head @ dd_instrs f) < 2 ^ 31"
    using place_bounds(2,3) [OF assms(1,2)] by linarith
  from entry_end_at(2) [OF this] show "entry_end (fd_fde_start x) (fd_length x) (fd_length_size x) (fd_extension_size x) = entry_place eh es (Suc k)"
    unfolding s assms(4) by (simp add: decoded_fde_def Let_def)
  show "fd_fde_instr_start x \<le> entry_place eh es (Suc k)"
    unfolding s assms(4) by (simp add: decoded_fde_def Let_def)
qed

lemma fde_step_at:
  assumes "section_ok src eh es" "walk_at src eh es k st" "k < length es" "es ! k = FDE_entry d64 f"
  obtains pf st' where "read_cie_fde_prefix src (entry_place eh es k) = DW_OK pf" "cf_addr_after_prefix pf < length (fx_buf src)"
    "cf_cie_id pf \<noteq> fx_cie_id_value src" "fde_step src pf st = DW_OK (st', entry_place eh es (Suc k))" "walk_at src eh es (Suc k) st'"
proof -
  obtain d where d: "dd_cie f < length es" "es ! dd_cie f = CIE_entry d (cie_at es (dd_cie f))"
    using fde_cie [OF assms(1,3,4)] by metis
  obtain i st' where st': "(case find_existing_cie_ptr (int (entry_place eh es (dd_cie f))) st of
        Some i \<Rightarrow> DW_OK (i, st\<lparr>fl_cur_cie := Some i\<rparr>)
      | None \<Rightarrow> dw_bind (create_cie_from_start src (int (entry_place eh es (dd_cie f))) (word_of_nat (length (fl_cies st))))
          (\<lambda>c. chain_up_cie src c st)) = DW_OK (i, st')"
    "i < length (fl_cies st')" "cie_of src eh es (dd_cie f) (fl_cies st' ! i)" "fl_fdes st' = fl_fdes st" "walk_at src eh es k st'"
    using use_or_make_at [OF assms(1,2) d create_cie_from_start_at [OF assms(1) d]] by blast
  let ?r = "fl_cies st' ! i" and ?n = "cie_pointer eh es k d64 f"
  define x where "x = decoded_fde src eh (entry_place eh es k) d64 (cie_at es (dd_cie f)) ?r f (word_of_nat ?n)"
  obtain pf where pf: "read_cie_fde_prefix src (entry_place eh es k) = DW_OK pf" "cf_cie_id pf = word_of_nat ?n"
    "cf_cie_id pf \<noteq> fx_cie_id_value src" "cf_cie_id_addr pf = entry_place eh es k + length_size d64"
    "cf_addr_after_prefix pf < length (fx_buf src)"
    "create_fde_from_after_start src pf (cf_addr_after_prefix pf) ?r (ci_address_size ?r) = DW_OK x"
    using fde_prefix_at [OF assms(1,3,4) cie_of_fields [OF st'(3)]] unfolding x_def by blast
  let ?st = "st'\<lparr>fl_fdes := fl_fdes st' @ [x]\<rparr>"
  have x: "fde_of src eh es (fl_cies st') k x" using st'(2,3) assms(4) unfolding fde_of_def x_def by auto
  have w: "walk_at src eh es (Suc k) ?st"
    using st'(2,5) assms(4) x nth_mem [OF st'(2)] unfolding walk_at_def positions_Suc by (auto intro: list_all2_appendI)
  have "length (fl_fdes ?st) = length (fde_positions es (Suc k))"
    using w unfolding walk_at_def by (auto dest: list_all2_lengthD)
  moreover have "length (fde_positions es (Suc k)) \<le> length (fde_positions es (length es))"
  proof -
    have "length es = Suc k + (length es - Suc k)" using assms(3) by simp
    then have "[0..<length es] = [0..<Suc k] @ [Suc k..<length es]" using upt_add_eq_append [OF le0, of "Suc k" "length es - Suc k"] by metis
    then show ?thesis by (simp add: fde_positions_def del: upt_Suc)
  qed
  ultimately have count: "\<not> length (fl_fdes ?st) \<ge> length (fx_buf src) div (8 + unat (de_pointer_size (fx_dbg src)) * 2)"
    using section_okD(6) [OF assms(1)] by linarith
  note e = decoded_fde_end [OF assms(1,3,4) x_def]
  have "fde_step src pf st = DW_OK (?st, entry_place eh es (Suc k))"
    unfolding fde_step_def pf(2,4) cieptr_at [OF assms(1,3,4)] dw_bind.simps st'(1) prod.case pf(6) Let_def e(1) if_not_P [OF count]
    using e(2) by simp
  then show thesis using that pf w by blast
qed

lemma walk_reads:
  assumes "section_ok src eh es"
  shows "k \<le> length es \<Longrightarrow> walk_at src eh es k st \<Longrightarrow> length es - k < fuel \<Longrightarrow>
    \<exists>st'. fde_list_loop fuel src (entry_place eh es k) st = Some (DW_OK st') \<and> walk_at src eh es (length es) st'"
proof (induction fuel arbitrary: k st)
  case (Suc fuel)
  show ?case
  proof (cases "k = length es")
    case True
    then have "entry_place eh es k = length (fx_buf src)" by (subst section_okD(1) [OF assms]) (simp add: length_encode_section)
    then show ?thesis using Suc.prems(2) True by simp
  next
    case False
    then have k: "k < length es" using Suc.prems(1) by simp
    have "\<exists>pf st'. read_cie_fde_prefix src (entry_place eh es k) = DW_OK pf \<and> cf_addr_after_prefix pf < length (fx_buf src) \<and>
        (if cf_cie_id pf = fx_cie_id_value src then cie_step src pf st else fde_step src pf st) = DW_OK (st', entry_place eh es (Suc k)) \<and>
        walk_at src eh es (Suc k) st'"
    proof (cases "es ! k")
      case (CIE_entry d64 c)
      from cie_step_at [OF assms Suc.prems(2) k this] show ?thesis by metis
    next
      case (FDE_entry d64 f)
      from fde_step_at [OF assms Suc.prems(2) k this] show ?thesis by metis
    qed
    then obtain pf st' where s: "read_cie_fde_prefix src (entry_place eh es k) = DW_OK pf" "cf_addr_after_prefix pf < length (fx_buf src)"
        "(if cf_cie_id pf = fx_cie_id_value src then cie_step src pf st else fde_step src pf st) = DW_OK (st', entry_place eh es (Suc k))"
        "walk_at src eh es (Suc k) st'" by blast
    have "\<exists>st''. fde_list_loop fuel src (entry_place eh es (Suc k)) st' = Some (DW_OK st'') \<and> walk_at src eh es (length es) st''"
      using Suc.prems(3) k by (intro Suc.IH s(4)) simp_all
    then show ?thesis using s(2) place_bounds(1) [OF assms k] unfolding fde_list_loop.simps Let_def s(1) dw.case s(3) prod.case by simp
  qed
qed simp

section \<open>What is read describes the section\<close>

fun fde_descs :: "frame_entry list \<Rightarrow> fde_desc list" where
  "fde_descs [] = []"
| "fde_descs (CIE_entry _ _ # es) = fde_descs es"
| "fde_descs (FDE_entry _ f # es) = f # fde_descs es"

lemma fde_descs_append [simp]: "fde_descs (es @ es') = fde_descs es @ fde_descs es'"
  by (induction es rule: fde_descs.induct) simp_all

lemma list_all2_descs:
  assumes "\<And>j r. R j r \<Longrightarrow> \<exists>d64 f. es ! j = FDE_entry d64 f \<and> Q f r"
  shows "k \<le> length es \<Longrightarrow> list_all2 R (fde_positions es k) rs \<Longrightarrow> list_all2 Q (fde_descs (take k es)) rs"
proof (induction k arbitrary: rs)
  case (Suc k)
  show ?case
  proof (cases "es ! k")
    case (CIE_entry d64 c)
    then show ?thesis using Suc by (simp add: positions_Suc take_Suc_conv_app_nth)
  next
    case (FDE_entry d64 f)
    then obtain rs' r where "rs = rs' @ [r]" "list_all2 R (fde_positions es k) rs'" "R k r"
      using Suc.prems(2) by (auto simp: positions_Suc list_all2_append1 list_all2_Cons1)
    then show ?thesis using Suc assms [of k r] FDE_entry by (auto simp: take_Suc_conv_app_nth intro!: list_all2_appendI)
  qed
qed (simp add: fde_positions_def)

lemma cie_of_describes:
  assumes "section_ok src eh es" "cie_of src eh es j r"
  shows "describes_cie (fx_buf src) (cie_at es j) (cie.truncate r)"
proof -
  obtain d64 c where j: "j < length es" "es ! j = CIE_entry d64 c" and r: "r = decoded_cie src eh (entry_place eh es j) d64 c (ci_index r)"
    using assms(2) by (auto simp: cie_of_def)
  have c: "cie_at es j = c" using j(2) by (simp add: cie_at_def)
  have "holds_at (fx_buf src) (entry_place eh es j + length_size d64 + id_size d64) (cie_head eh c @ cd_instrs c)"
    by (rule holds_entry_rest [OF cie_in_place(2) [OF assms(1) j]])
  then have h: "holds_at (fx_buf src) (entry_place eh es j + length_size d64 + id_size d64 + length (cie_head eh c)) (cd_instrs c)" by simp
  have "unat (word_of_nat (cd_address_size c) :: u16) = cd_address_size c"
    using cie_in_place(1) [OF assms(1) j] section_okD(3) [OF assms(1)] by (intro word_of_nat_small_sizes) (auto simp: cie_ok_def split: if_splits)
  then have "describes_cie (fx_buf src) c (cie.truncate (decoded_cie src eh (entry_place eh es j) d64 c (ci_index r)))"
    using h by (simp add: describes_cie_def decoded_cie_def Let_def cie.defs)
  then show ?thesis unfolding c by (subst r)
qed

lemma fde_of_describes:
  assumes "section_ok src eh es" "j < length es" "fde_of src eh es cies j r"
  shows "\<exists>d64 f. es ! j = FDE_entry d64 f \<and> describes_fde (fx_buf src) eh es f r"
proof -
  obtain d64 f c where j: "es ! j = FDE_entry d64 f" and c: "cie_of src eh es (dd_cie f) c"
    and r: "r = decoded_fde src eh (entry_place eh es j) d64 (cie_at es (dd_cie f)) c f (word_of_nat (cie_pointer eh es j d64 f))"
    using assms(3) by (auto simp: fde_of_def)
  let ?place = "entry_place eh es j + length_size d64 + id_size d64"
  let ?head = "fde_head (fx_dbg src) eh (fx_dss_addr src) (cie_at es (dd_cie f)) ?place f"
  have h: "holds_at (fx_buf src) ?place (?head @ dd_instrs f)"
    by (rule holds_entry_rest [OF fde_in_place(2) [OF assms(1,2) j]])
  have data: "eh \<longrightarrow> unat (word_of_nat (length (dd_data f)) :: u64) = length (dd_data f) \<and>
      holds_at (fx_buf src) (?place + length ?head - length (dd_data f)) (dd_data f)"
  proof
    assume eh
    then have d: "holds_at (fx_buf src) (?place + length ?head - length (dd_data f)) (dd_data f)"
      using h by (simp add: fde_head_def add.assoc)
    have "length (dd_data f) < 2 ^ 64" using holds_at_end [OF d] place_bounds(3) [OF assms(1,2)] by simp
    then show "unat (word_of_nat (length (dd_data f)) :: u64) = length (dd_data f) \<and>
      holds_at (fx_buf src) (?place + length ?head - length (dd_data f)) (dd_data f)" using d by (simp add: unat_of_small)
  qed
  have "describes_fde (fx_buf src) eh es f r"
    using h data cie_of_describes [OF assms(1) c] unfolding describes_fde_def r decoded_fde_def Let_def by simp
  then show ?thesis using j by blast
qed

text \<open>The two lists describe the section: one CIE for each entry that is one, and the FDEs in their order.\<close>

definition reads_section :: "bytes \<Rightarrow> bool \<Rightarrow> frame_entry list \<Rightarrow> section_cie list \<Rightarrow> section_fde list \<Rightarrow> bool" where
  "reads_section buf eh es cies fdes \<longleftrightarrow> distinct (map ci_cie_start cies) \<and>
     (\<forall>r \<in> set cies. \<exists>j \<in> set (cie_positions es (length es)).
        ci_cie_start r = entry_place eh es j \<and> describes_cie buf (cie_at es j) (cie.truncate r)) \<and>
     (\<forall>j \<in> set (cie_positions es (length es)). \<exists>r \<in> set cies. ci_cie_start r = entry_place eh es j) \<and>
     list_all2 (describes_fde buf eh es) (fde_descs es) fdes"

lemma walk_at_end:
  assumes "section_ok src eh es" "walk_at src eh es (length es) st"
  shows "reads_section (fx_buf src) eh es (fl_cies st) (fl_fdes st)"
proof -
  have "list_all2 (describes_fde (fx_buf src) eh es) (fde_descs (take (length es) es)) (fl_fdes st)"
  proof (rule list_all2_descs [where R = "\<lambda>j r. j < length es \<and> fde_of src eh es (fl_cies st) j r"])
    have "\<forall>j \<in> set (fde_positions es (length es)). j < length es" by (simp add: fde_positions_def)
    then show "list_all2 (\<lambda>j r. j < length es \<and> fde_of src eh es (fl_cies st) j r) (fde_positions es (length es)) (fl_fdes st)"
      using assms(2) unfolding walk_at_def by (auto elim!: list_all2_mono simp: list_all2_conv_all_nth)
  qed (use fde_of_describes [OF assms(1)] in auto)
  moreover have "\<exists>j \<in> set (cie_positions es (length es)).
      ci_cie_start r = entry_place eh es j \<and> describes_cie (fx_buf src) (cie_at es j) (cie.truncate r)" if "r \<in> set (fl_cies st)" for r
    using assms(2) that cie_of_start cie_of_position cie_of_describes [OF assms(1)] unfolding walk_at_def by meson
  moreover have "\<exists>r \<in> set (fl_cies st). ci_cie_start r = entry_place eh es j" if "j \<in> set (cie_positions es (length es))" for j
    using assms(2) that cie_of_start unfolding walk_at_def by meson
  ultimately show ?thesis using assms(2) unfolding reads_section_def walk_at_def by simp
qed

section \<open>Results\<close>

lemma fixed_bytes_validated [simp]: "fixed_bytes (dbg\<lparr>de_frame_numbers_validated := v\<rparr>) n x = fixed_bytes dbg n x"
  by (simp add: fixed_bytes_def)

lemma entry_bytes_validated [simp]: "entry_bytes (dbg\<lparr>de_frame_numbers_validated := v\<rparr>) d64 n rest = entry_bytes dbg d64 n rest"
  by (cases d64) (simp_all add: entry_bytes_def)

lemma fde_head_validated [simp]: "fde_head (dbg\<lparr>de_frame_numbers_validated := v\<rparr>) eh a c p f = fde_head dbg eh a c p f"
  by (simp add: fde_head_def pointer_bytes_def)

lemma encode_entry_validated [simp]: "encode_entry (dbg\<lparr>de_frame_numbers_validated := v\<rparr>) eh a es p e = encode_entry dbg eh a es p e"
  by (cases e) (simp_all add: encode_entry_def Let_def)

lemma encode_section_validated: "encode_section (dbg\<lparr>de_frame_numbers_validated := v\<rparr>) eh a es = encode_section dbg eh a es"
  by (simp add: encode_section_def)

lemma entries_ok_validated: "entries_ok (dbg\<lparr>de_frame_numbers_validated := v\<rparr>) eh a es = entries_ok dbg eh a es"
  by (auto simp: entries_ok_def cie_ok_def fde_ok_at_def split: frame_entry.splits)

lemma section_ok_validated:
  "section_ok (frame_section eh (dbg\<lparr>de_frame_numbers_validated := v\<rparr>) buf base a) eh es = section_ok (frame_section eh dbg buf base a) eh es"
  by (simp add: section_ok_def source_fits_def frame_section_def encode_section_validated entries_ok_validated)

lemma section_decoded:
  assumes "section_ok (frame_section eh dbg buf base a) eh es" "es \<noteq> []" "snd (validate_register_numbers dbg) = DW_OK ()" "length es < fuel"
  shows "\<exists>dbg' cies rs. get_fde_list_internal fuel qsort (frame_section eh dbg buf base a) =
      (dbg', Some (DW_OK (cies, if rs \<noteq> [] then qsort rs else []))) \<and> reads_section buf eh es cies rs \<and>
      (if eh then de_fde_count_eh dbg' else de_fde_count dbg') = length rs"
proof -
  obtain d where d: "validate_register_numbers dbg = (d, DW_OK ())" using assms(3) by (metis prod.collapse)
  let ?src = "frame_section eh d buf base a" and ?st = "\<lparr>fl_cies = [], fl_cur_cie = None, fl_fdes = []\<rparr>"
  have ok: "section_ok ?src eh es"
    using validate_register_numbers_dbg [OF d] assms(1) by (elim conjE disjE) (simp_all only: section_ok_validated)
  have buf: "fx_buf ?src = buf" by (simp add: frame_section_def)
  have "walk_at ?src eh es 0 ?st" by (simp add: walk_at_def cie_positions_def fde_positions_def)
  then obtain st where st: "fde_list_loop fuel ?src 0 ?st = Some (DW_OK st)" "walk_at ?src eh es (length es) st"
    using walk_reads [OF ok, of 0 ?st fuel] assms(4) by (auto simp: entry_place_def)
  have reads: "reads_section buf eh es (fl_cies st) (fl_fdes st)" using walk_at_end [OF ok st(2)] by (simp add: buf)
  have cies: "fl_cies st \<noteq> []" using st(2) assms(2) by (simp add: walk_at_def)
  have ne: "buf \<noteq> []" using place_bounds(1) [OF ok, of 0] assms(2) unfolding buf by auto
  have src: "(frame_section eh dbg buf base a)\<lparr>fx_dbg := d\<rparr> = ?src" "fx_dbg (frame_section eh dbg buf base a) = dbg"
    "fx_buf (frame_section eh dbg buf base a) = buf" "fx_use_gnu_cie_calc (frame_section eh dbg buf base a) = eh" by (simp_all add: frame_section_def)
  let ?n = "length (fl_fdes st)"
  have "get_fde_list_internal fuel qsort (frame_section eh dbg buf base a) =
      (if eh then d\<lparr>de_fde_count_eh := ?n\<rparr> else d\<lparr>de_fde_count := ?n\<rparr>,
       Some (DW_OK (fl_cies st, if fl_fdes st \<noteq> [] then qsort (fl_fdes st) else [])))"
    unfolding get_fde_list_internal_def src(2-4) d if_not_P [OF ne] prod.case dw.case src(1) st(1) option.case if_not_P [OF cies] Let_def
    by simp
  then show ?thesis using reads by fastforce
qed

definition disjoint_ranges :: "fde_desc list \<Rightarrow> bool" where
  "disjoint_ranges fs \<longleftrightarrow> distinct (map dd_location fs) \<and>
     (\<forall>f \<in> set fs. unat (dd_location f) + unat (dd_range f) < 2 ^ 64) \<and>
     (\<forall>f \<in> set fs. \<forall>g \<in> set fs. dd_location f < dd_location g \<longrightarrow> unat (dd_location f) + unat (dd_range f) \<le> unat (dd_location g))"

lemma sorted_fdes:
  assumes "list_all2 (describes_fde buf eh es) fs rs" "disjoint_ranges fs" "sorts qsort"
  shows "fdes_sorted (length rs) (map fde.truncate (qsort rs))"
proof -
  have m: "mset (qsort rs) = mset rs" "sorted (map fd_initial_location (qsort rs))" using assms(3) by (simp_all add: sorts_def)
  have len: "length (qsort rs) = length rs" using m(1) mset_eq_length by blast
  have all: "length fs = length rs" "\<And>i. i < length rs \<Longrightarrow> fd_initial_location (rs ! i) = dd_location (fs ! i) \<and> fd_address_range (rs ! i) = dd_range (fs ! i)"
    using assms(1) by (auto simp: list_all2_conv_all_nth describes_fde_def)
  have locs: "map fd_initial_location rs = map dd_location fs" using all by (auto intro: nth_equalityI)
  have "mset (map fd_initial_location (qsort rs)) = mset (map fd_initial_location rs)" by (simp add: m(1))
  then have dist: "distinct (map fd_initial_location (qsort rs))"
    using assms(2) unfolding disjoint_ranges_def locs by (metis mset_eq_imp_distinct_iff)
  have desc: "\<exists>f \<in> set fs. fd_initial_location r = dd_location f \<and> fd_address_range r = dd_range f" if "r \<in> set (qsort rs)" for r
    using that mset_eq_setD [OF m(1)] all by (metis in_set_conv_nth)
  have less: "fd_initial_location (qsort rs ! i) < fd_initial_location (qsort rs ! j)" if "i < j" "j < length rs" for i j
    using sorted_nth_mono [OF m(2), of i j] nth_eq_iff_index_eq [OF dist, of i j] that len by (simp add: order.strict_iff_order)
  have "unat (fd_initial_location (qsort rs ! i)) + unat (fd_address_range (qsort rs ! i)) \<le> unat (fd_initial_location (qsort rs ! j))"
    if "i < j" "j < length rs" for i j
    using desc [of "qsort rs ! i"] desc [of "qsort rs ! j"] less [OF that] assms(2) that len unfolding disjoint_ranges_def by fastforce
  moreover have "unat (fd_initial_location (qsort rs ! i)) + unat (fd_address_range (qsort rs ! i)) < 2 ^ 64" if "i < length rs" for i
    using desc [of "qsort rs ! i"] assms(2) that len unfolding disjoint_ranges_def by fastforce
  ultimately show ?thesis using len by (simp add: fdes_sorted_def fde.defs)
qed

definition pc_in :: "u64 \<Rightarrow> fde_desc \<Rightarrow> bool" where
  "pc_in pc f \<longleftrightarrow> unat (dd_location f) \<le> unat pc \<and> unat pc < unat (dd_location f) + unat (dd_range f)"

lemma found_among_sorted:
  assumes "list_all2 (describes_fde buf eh es) fs rs" "disjoint_ranges fs" "sorts qsort" "rs \<noteq> []"
    and "(if eh then de_fde_count_eh dbg else de_fde_count dbg) = length rs"
  shows "(\<forall>f \<in> set fs. pc_in pc f \<longrightarrow> (\<exists>r \<in> set (qsort rs). describes_fde buf eh es f r \<and>
      get_fde_at_pc dbg (map fde.truncate (qsort rs)) pc = DW_OK (fde.truncate r, dd_location f, dd_location f + dd_range f - 1))) \<and>
    ((\<forall>f \<in> set fs. \<not> pc_in pc f) \<longrightarrow> get_fde_at_pc dbg (map fde.truncate (qsort rs)) pc = DW_NO_ENTRY)"
proof -
  let ?d = "map fde.truncate (qsort rs)"
  have m: "mset (qsort rs) = mset rs" using assms(3) by (simp add: sorts_def)
  have len: "length (qsort rs) = length rs" "set (qsort rs) = set rs" using m mset_eq_length mset_eq_setD by blast+
  have ne: "?d \<noteq> []" using len assms(4) by auto
  have desc: "\<exists>f \<in> set fs. describes_fde buf eh es f r" if "r \<in> set rs" for r
    using assms(1) that by (metis in_set_conv_nth list_all2_conv_all_nth)
  have "qsort rs ! 0 \<in> set rs" using len assms(4) nth_mem [of 0 "qsort rs"] by auto
  then have "fd_is_eh (?d ! 0) = eh" using desc ne by (fastforce simp: describes_fde_def fde.defs)
  then have count: "fde_count dbg ?d = length rs" using assms(5) by (simp add: fde_count_def)
  have sorted: "fdes_sorted (fde_count dbg ?d) ?d" unfolding count by (rule sorted_fdes [OF assms(1-3)])
  note search = fde_search_eq [where low = 0 and high = "int (fde_count dbg ?d) - 1" and pc = pc, OF sorted]
  have covers: "covers (fde.truncate r) pc = pc_in pc f" if "describes_fde buf eh es f r" for r f
    using that by (simp add: covers_def pc_in_def describes_fde_def fde.defs)
  have found: "\<exists>r \<in> set (qsort rs). describes_fde buf eh es f r \<and>
      get_fde_at_pc dbg ?d pc = DW_OK (fde.truncate r, dd_location f, dd_location f + dd_range f - 1)" if f: "f \<in> set fs" "pc_in pc f" for f
  proof -
    obtain r where r: "r \<in> set (qsort rs)" "describes_fde buf eh es f r"
      using assms(1) f(1) len(2) by (metis in_set_conv_nth list_all2_conv_all_nth)
    then obtain i where i: "i < length rs" "qsort rs ! i = r" using len(1) by (metis in_set_conv_nth)
    have "covers (?d ! i) pc" using covers [OF r(2)] f(2) i len(1) by simp
    then have "fde_search ?d pc 0 (int (fde_count dbg ?d) - 1) = DW_OK (?d ! i)" using search i(1) count by simp
    then show ?thesis using r i len(1) ne by (auto simp: get_fde_at_pc_def describes_fde_def fde.defs)
  qed
  have "get_fde_at_pc dbg ?d pc = DW_NO_ENTRY" if none: "\<forall>f \<in> set fs. \<not> pc_in pc f"
  proof -
    have "\<not> covers (?d ! i) pc" if "i < length rs" for i
      using desc [of "qsort rs ! i"] covers none that len nth_mem [of i "qsort rs"] by fastforce
    then have "fde_search ?d pc 0 (int (fde_count dbg ?d) - 1) = DW_NO_ENTRY" using search count by simp
    then show ?thesis using ne by (simp add: get_fde_at_pc_def)
  qed
  with found show ?thesis by blast
qed

text \<open>An \<open>.eh_frame\<close> with two FDEs, the second one at the lower address and with a 64 bit length.\<close>

definition sample_cie_desc :: cie_desc where
  "sample_cie_desc = \<lparr>cd_version = 1, cd_address_size = 8, cd_code = 1, cd_data = - 8, cd_ra = 16, cd_encoding = 0x1b,
     cd_instrs = [0x0c, 7, 8, 0x90, 1, 0, 0]\<rparr>"

definition sample_entries :: "frame_entry list" where
  "sample_entries =
     [CIE_entry False sample_cie_desc,
      FDE_entry False \<lparr>dd_cie = 0, dd_location = 0x1040, dd_range = 0x20, dd_data = [], dd_instrs = [0x41, 0x0e, 0x10, 0, 0, 0, 0]\<rparr>,
      FDE_entry True \<lparr>dd_cie = 0, dd_location = 0x1000, dd_range = 0x30, dd_data = [5], dd_instrs = [0x44, 0x0e, 0x10, 0]\<rparr>]"

definition sample_section :: bytes where
  "sample_section = encode_section debug_le64 True 0x2000 sample_entries"

lemma sleb_minus_8: "sleb_encode (- 8) = [0x78]"
  by (subst sleb_encode.simps) (simp add: sleb_last_def)

lemma sample_width: "pointer_width sample_cie_desc True = 4"
  by (simp add: pointer_width_def sample_cie_desc_def)

lemma sample_head: "length (cie_head True sample_cie_desc) = 9" "length (cd_instrs sample_cie_desc) = 7"
  by (simp_all add: cie_head_def sample_cie_desc_def augmentation_string_def chars_def small_uleb_encode sleb_minus_8)

lemma sample_cie_at: "cie_at sample_entries 0 = sample_cie_desc"
  by (simp add: cie_at_def sample_entries_def)

lemma sample_sizes: "map (entry_size True sample_entries) sample_entries = [24, 24, 34]"
  by (subst (2) sample_entries_def)
    (simp add: entry_size_def sample_width sample_head sample_cie_at length_size_def id_size_def small_uleb_encode)

lemma sample_places: "entry_place True sample_entries 0 = 0" "entry_place True sample_entries 1 = 24"
    "entry_place True sample_entries 2 = 48" "entry_place True sample_entries 3 = 82"
  unfolding entry_place_def take_map [symmetric] sample_sizes by (simp_all add: numeral_2_eq_2 numeral_3_eq_3)

lemma sample_validated: "snd (validate_register_numbers debug_le64) = DW_OK ()"
  by code_simp

lemma sample_positions: "cie_positions sample_entries (length sample_entries) = [0]" "fde_positions sample_entries (length sample_entries) = [1, 2]"
  by (simp_all add: cie_positions_def fde_positions_def sample_entries_def upt_rec)

lemma sample_descs: "fde_descs sample_entries =
    [\<lparr>dd_cie = 0, dd_location = 0x1040, dd_range = 0x20, dd_data = [], dd_instrs = [0x41, 0x0e, 0x10, 0, 0, 0, 0]\<rparr>,
     \<lparr>dd_cie = 0, dd_location = 0x1000, dd_range = 0x30, dd_data = [5], dd_instrs = [0x44, 0x0e, 0x10, 0]\<rparr>]"
  by (simp add: sample_entries_def)

lemma sample_section_ok: "section_ok (frame_section True debug_le64 sample_section 0x400000 0x2000) True sample_entries"
proof -
  have n: "length sample_entries = 3" by (simp add: sample_entries_def)
  have len: "length sample_section = 82" unfolding sample_section_def length_encode_section n sample_places ..
  note pos = sample_positions [unfolded n]
  have "cie_ok debug_le64 True sample_cie_desc"
    by (simp add: cie_ok_def sample_cie_desc_def debug_le64_def)
  moreover have "fde_ok_at debug_le64 True 0x2000 sample_entries k d64 f" if "k < 3" "sample_entries ! k = FDE_entry d64 f" for k d64 f
  proof -
    have "k = 1 \<or> k = 2" using that by (cases "k = 0") (auto simp: sample_entries_def)
    then show ?thesis using that(2) sample_places
      by (auto simp: fde_ok_at_def Let_def representable_def stored_location_def pointer_width_def sample_entries_def sample_cie_desc_def cie_at_def
          length_size_def id_size_def)
  qed
  ultimately have "entries_ok debug_le64 True 0x2000 sample_entries"
    unfolding entries_ok_def n by (auto simp: less_Suc_eq numeral_3_eq_3 sample_entries_def split: frame_entry.splits)
  then show ?thesis using len n pos by (simp add: section_ok_def source_fits_def frame_section_def debug_le64_def sample_section_def)
qed

text \<open>
  C5: An encoded frame section is read exactly: the array of CIEs holds one for every CIE of the section, and the array of FDEs holds, in the order
  of the sort, one for every FDE, with its range, its CIE, its augmentation data and its instructions.
\<close>

theorem frame_section_decoded:
  assumes "section_ok (frame_section eh dbg buf base dss_addr) eh es" "es \<noteq> []" "snd (validate_register_numbers dbg) = DW_OK ()" "length es < fuel"
  shows "\<exists>dbg' cies rs. get_fde_list_internal fuel qsort (frame_section eh dbg buf base dss_addr) =
      (dbg', Some (DW_OK (cies, if rs \<noteq> [] then qsort rs else []))) \<and> reads_section buf eh es cies rs \<and>
      (if eh then de_fde_count_eh dbg' else de_fde_count dbg') = length rs"
  by (rule section_decoded [OF assms])

theorem frame_section_decoded_witness:
  "\<exists>dbg' cies f g. get_fde_list_internal 4 (sort_key fd_initial_location) (frame_section True debug_le64 sample_section 0x400000 0x2000) =
      (dbg', Some (DW_OK (cies, [f, g]))) \<and> map ci_cie_start cies = [0] \<and>
     fd_initial_location f = 0x1000 \<and> fd_address_range f = 0x30 \<and> fd_initial_location g = 0x1040 \<and>
     ci_data_alignment_factor (fd_cie f) = - 8 \<and> holds_at sample_section (fd_gnu_eh_augmentation_bytes f) [5] \<and>
     holds_at sample_section (fd_fde_instr_start g) [0x41, 0x0e, 0x10, 0, 0, 0, 0]"
proof -
  obtain dbg' cies rs where r: "get_fde_list_internal 4 (sort_key fd_initial_location) (frame_section True debug_le64 sample_section 0x400000 0x2000) =
      (dbg', Some (DW_OK (cies, if rs \<noteq> [] then sort_key fd_initial_location rs else [])))"
    and reads: "reads_section sample_section True sample_entries cies rs"
    using frame_section_decoded [OF sample_section_ok _ sample_validated, of 4 "sort_key fd_initial_location"]
    by (auto simp: sample_entries_def)
  obtain g f where rs: "rs = [g, f]" "describes_fde sample_section True sample_entries (fde_descs sample_entries ! 0) g"
    "describes_fde sample_section True sample_entries (fde_descs sample_entries ! 1) f"
    using reads unfolding reads_section_def by (auto simp: sample_entries_def list_all2_Cons1)
  have "\<forall>r \<in> set cies. ci_cie_start r = 0" "cies \<noteq> []" "distinct (map ci_cie_start cies)"
    using reads unfolding reads_section_def by (auto simp: sample_positions sample_places)
  then have c: "map ci_cie_start cies = [0]" by (cases cies rule: remdups_adj.cases) auto
  have "fd_initial_location g = 0x1040" "fd_initial_location f = 0x1000" "fd_address_range f = 0x30" "ci_data_alignment_factor (fd_cie f) = - 8"
    "holds_at sample_section (fd_gnu_eh_augmentation_bytes f) [5]" "holds_at sample_section (fd_fde_instr_start g) [0x41, 0x0e, 0x10, 0, 0, 0, 0]"
    using rs(2,3) by (simp_all add: describes_fde_def describes_cie_def sample_descs sample_cie_at sample_cie_desc_def)
  then show ?thesis using r c rs(1) by (auto simp: insort_key.simps)
qed

text \<open>
  C4: When the ranges of the FDEs of an encoded section are disjoint, reading the section and searching for a pc gives the FDE whose range contains
  it, whatever the order in the section is, and there is no entry when no range contains it. The high pc returned with it is the
  address of the last byte of the range; the comment of \<open>dwarf_get_fde_at_pc\<close> in \<open>libdwarf.h\<close> says that it is one past that byte.
\<close>

theorem encoded_fde_found:
  assumes "section_ok (frame_section eh dbg buf base dss_addr) eh es" "fde_descs es \<noteq> []" "snd (validate_register_numbers dbg) = DW_OK ()"
    and "length es < fuel" "sorts qsort" "disjoint_ranges (fde_descs es)"
  shows "\<exists>dbg' cies fdes. get_fde_list_internal fuel qsort (frame_section eh dbg buf base dss_addr) = (dbg', Some (DW_OK (cies, fdes))) \<and>
    (\<forall>f \<in> set (fde_descs es). pc_in pc f \<longrightarrow> (\<exists>r \<in> set fdes. describes_fde buf eh es f r \<and>
       get_fde_at_pc dbg' (map fde.truncate fdes) pc = DW_OK (fde.truncate r, dd_location f, dd_location f + dd_range f - 1))) \<and>
    ((\<forall>f \<in> set (fde_descs es). \<not> pc_in pc f) \<longrightarrow> get_fde_at_pc dbg' (map fde.truncate fdes) pc = DW_NO_ENTRY)"
proof -
  have "es \<noteq> []" using assms(2) by auto
  then obtain dbg' cies rs where r: "get_fde_list_internal fuel qsort (frame_section eh dbg buf base dss_addr) =
      (dbg', Some (DW_OK (cies, if rs \<noteq> [] then qsort rs else [])))" "reads_section buf eh es cies rs"
      "(if eh then de_fde_count_eh dbg' else de_fde_count dbg') = length rs"
    using section_decoded [OF assms(1) _ assms(3,4), of qsort] by blast
  have l: "list_all2 (describes_fde buf eh es) (fde_descs es) rs" using r(2) by (simp add: reads_section_def)
  have ne: "rs \<noteq> []" using l assms(2) by auto
  show ?thesis using found_among_sorted [OF l assms(6,5) ne r(3), of pc] r(1) ne by auto
qed

theorem encoded_fde_found_witness:
  "\<exists>dbg' cies fdes r. get_fde_list_internal 4 (sort_key fd_initial_location) (frame_section True debug_le64 sample_section 0x400000 0x2000) =
      (dbg', Some (DW_OK (cies, fdes))) \<and> get_fde_at_pc dbg' (map fde.truncate fdes) 0x102f = DW_OK (fde.truncate r, 0x1000, 0x102f) \<and>
     describes_fde sample_section True sample_entries (fde_descs sample_entries ! 1) r"
proof -
  have "disjoint_ranges (fde_descs sample_entries)" by (simp add: disjoint_ranges_def sample_descs)
  then have "\<exists>dbg' cies fdes. get_fde_list_internal 4 (sort_key fd_initial_location) (frame_section True debug_le64 sample_section 0x400000 0x2000) =
      (dbg', Some (DW_OK (cies, fdes))) \<and>
    (\<forall>f \<in> set (fde_descs sample_entries). pc_in 0x102f f \<longrightarrow> (\<exists>r \<in> set fdes. describes_fde sample_section True sample_entries f r \<and>
       get_fde_at_pc dbg' (map fde.truncate fdes) 0x102f = DW_OK (fde.truncate r, dd_location f, dd_location f + dd_range f - 1))) \<and>
    ((\<forall>f \<in> set (fde_descs sample_entries). \<not> pc_in 0x102f f) \<longrightarrow> get_fde_at_pc dbg' (map fde.truncate fdes) 0x102f = DW_NO_ENTRY)"
    by (intro encoded_fde_found [OF sample_section_ok _ sample_validated _ sorts_sort_key]) (simp_all add: sample_entries_def)
  moreover have "fde_descs sample_entries ! 1 \<in> set (fde_descs sample_entries)" "pc_in 0x102f (fde_descs sample_entries ! 1)"
    "dd_location (fde_descs sample_entries ! 1) = 0x1000" "dd_range (fde_descs sample_entries ! 1) = 0x30"
    by (simp_all add: sample_descs pc_in_def)
  ultimately show ?thesis by fastforce
qed

end
