(* ===== verification/XuIndex.thy ===== *)
theory XuIndex
  imports LineHeader
begin

text \<open>
  The index of a package file (\<open>dwarf_xu_index.c\<close>): the header of \<open>.debug_cu_index\<close> or \<open>.debug_tu_index\<close>, its hash table of signatures, its tables of section
  offsets and sizes, and the search for the unit of a signature or of an offset. The index sections are byte lists that are present; whether the section a
  column is about can be loaded, and its size, are arguments.
\<close>

abbreviation (input) DW_DLE_FISSION_SECNUM_ERR :: dle where "DW_DLE_FISSION_SECNUM_ERR \<equiv> 295"

abbreviation (input) DW_SECT_INFO :: u64 where "DW_SECT_INFO \<equiv> 1"
abbreviation (input) DW_SECT_TYPES :: u64 where "DW_SECT_TYPES \<equiv> 2"
abbreviation (input) DW_SECT_ABBREV :: u64 where "DW_SECT_ABBREV \<equiv> 3"
abbreviation (input) DW_SECT_LINE :: u64 where "DW_SECT_LINE \<equiv> 4"
abbreviation (input) DW_SECT_LOCLISTS :: u64 where "DW_SECT_LOCLISTS \<equiv> 5"
abbreviation (input) DW_SECT_STR_OFFSETS :: u64 where "DW_SECT_STR_OFFSETS \<equiv> 6"
abbreviation (input) DW_SECT_MACRO :: u64 where "DW_SECT_MACRO \<equiv> 7"
abbreviation (input) DW_SECT_RNGLISTS :: u64 where "DW_SECT_RNGLISTS \<equiv> 8"
abbreviation (input) DW_FISSION_SECT_COUNT :: nat where "DW_FISSION_SECT_COUNT \<equiv> 12"

section \<open>Data\<close>

record xu_index_header =
  gx_section_data :: bytes
  gx_section_length :: u64
  gx_version :: u64
  gx_column_count_sections :: u64
  gx_units_in_index :: u64
  gx_slots_in_hash :: u64
  gx_hash_table_offset :: u64
  gx_index_table_offset :: u64
  gx_section_offsets_headerline_offset :: u64
  gx_section_offsets_offset :: u64
  gx_section_sizes_offset :: u64
  gx_section_id :: "u64 list"
  gx_type :: string

text \<open>The sections a column can be about.\<close>

datatype xu_target = debug_info | debug_types | debug_abbrev | debug_line | debug_loc | debug_loclists | debug_str_offsets | debug_macro
  | debug_ranges | debug_rnglists

text \<open>
  The fields of the debug object that matter here. \<open>pk_dss_size\<close> is the size of a section, zero when it is not there or not loaded yet; \<open>pk_load_section\<close> is
  the outcome of loading it, with its size, and the last two fields are the outcome of \<open>_dwarf_load_debug_info\<close> and \<open>_dwarf_load_debug_types\<close>.
\<close>

record package_debug =
  pk_dbg :: dwarf_debug
  de_debug_cu_index :: bytes
  de_debug_tu_index :: bytes
  de_cu_hashindex_data :: "xu_index_header option"
  de_tu_hashindex_data :: "xu_index_header option"
  pk_dss_size :: "xu_target \<Rightarrow> u64"
  pk_load_section :: "xu_target \<Rightarrow> u64 dw"
  pk_load_debug_info :: "unit dw"
  pk_load_debug_types :: "unit dw"

text \<open>\<open>Dwarf_Debug_Fission_Per_CU\<close>, and what \<open>clear_pcu_data\<close> leaves of it.\<close>

record fission_per_cu =
  pcu_type :: string
  pcu_index :: u64
  pcu_hash :: bytes
  pcu_offset :: "u64 list"
  pcu_size :: "u64 list"

definition zerohashkey :: bytes where
  "zerohashkey = replicate 8 0"

definition clear_pcu_data :: "fission_per_cu \<Rightarrow> fission_per_cu" where
  "clear_pcu_data percu = percu\<lparr>pcu_offset := replicate DW_FISSION_SECT_COUNT 0, pcu_size := replicate DW_FISSION_SECT_COUNT 0, pcu_hash := zerohashkey\<rparr>"

section \<open>The header\<close>

text \<open>\<open>fill_in_offsets_headerline\<close> from column \<open>i\<close> on: the section numbers.\<close>

fun fill_in_offsets_headerline :: "dwarf_debug \<Rightarrow> bytes \<Rightarrow> ptr \<Rightarrow> nat \<Rightarrow> nat \<Rightarrow> u64 list \<Rightarrow> u64 list dw" where
  "fill_in_offsets_headerline dbg buf data 0 i ids = DW_OK ids"
| "fill_in_offsets_headerline dbg buf data (Suc n) i ids =
     dw_bind (read_unaligned_ck dbg buf data 4 (length buf)) (\<lambda>v.
       if v > DW_SECT_RNGLISTS then DW_ERROR DW_DLE_XU_NAME_COL_ERROR
       else if i \<ge> length ids then FAULT
       else fill_in_offsets_headerline dbg buf (data + 4) n (i + 1) (ids[i := v]))"

text \<open>The tests on the numbers in the header and the places of the tables that follow from them, before the section numbers are read.\<close>

definition xu_header_tables :: "bytes \<Rightarrow> string \<Rightarrow> u64 \<Rightarrow> u64 \<Rightarrow> u64 \<Rightarrow> u64 \<Rightarrow> xu_index_header dw" where
  "xu_header_tables sect section_type local_version num_secs num_CUs num_slots =
     (let dss_size = word_of_nat (length sect);
          hash_tab_offset = 4 * 4;
          indexes_tab_offset = hash_tab_offset + num_slots * 8;
          section_offsets_headerline_offset = indexes_tab_offset + num_slots * 4;
          section_offsets_tab_offset = section_offsets_headerline_offset + num_secs * 4;
          section_sizes_tab_offset = section_offsets_tab_offset + num_CUs * num_secs * 4;
          tables_end_offset = section_sizes_tab_offset + num_CUs * num_secs * 4
      in if num_slots > dss_size then DW_ERROR DW_DLE_ERRONEOUS_XU_INDEX_SECTION
         else if 4 * num_slots > dss_size then DW_ERROR DW_DLE_ERRONEOUS_XU_INDEX_SECTION
         else if num_secs > dss_size then DW_ERROR DW_DLE_ERRONEOUS_XU_INDEX_SECTION
         else if 4 * num_secs > dss_size then DW_ERROR DW_DLE_ERRONEOUS_XU_INDEX_SECTION
         else if tables_end_offset > dss_size then DW_ERROR DW_DLE_ERRONEOUS_XU_INDEX_SECTION
         else DW_OK
           \<lparr>gx_section_data = sect, gx_section_length = dss_size, gx_version = local_version, gx_column_count_sections = num_secs,
            gx_units_in_index = num_CUs, gx_slots_in_hash = num_slots, gx_hash_table_offset = hash_tab_offset,
            gx_index_table_offset = indexes_tab_offset, gx_section_offsets_headerline_offset = section_offsets_headerline_offset,
            gx_section_offsets_offset = section_offsets_tab_offset, gx_section_sizes_offset = section_sizes_tab_offset,
            gx_section_id = replicate 9 0, gx_type = section_type\<rparr>)"

definition get_xu_index_header :: "package_debug \<Rightarrow> string \<Rightarrow> xu_index_header dw" where
  "get_xu_index_header pkg section_type =
     (let dbg = pk_dbg pkg in
      if section_type \<noteq> ''cu'' \<and> section_type \<noteq> ''tu'' then DW_ERROR DW_DLE_XU_TYPE_ARG_ERROR
      else
        let sect = (if section_type = ''cu'' then de_debug_cu_index pkg else de_debug_tu_index pkg);
            dss_size = word_of_nat (length sect) :: u64; section_end = length sect
        in if dss_size = 0 then DW_NO_ENTRY
           else if dss_size < 4 * 4 then DW_ERROR DW_DLE_ERRONEOUS_XU_INDEX_SECTION
           else
             dw_bind (read_unaligned_ck dbg sect 0 4 section_end) (\<lambda>local_version.
             if local_version < 2 \<or> local_version > 5 then DW_ERROR DW_DLE_XU_NAME_COL_ERROR
             else
               dw_bind (read_unaligned_ck dbg sect 4 4 section_end) (\<lambda>num_secs.
               if num_secs > DW_SECT_RNGLISTS then DW_ERROR DW_DLE_XU_NAME_COL_ERROR
               else
                 dw_bind (read_unaligned_ck dbg sect 8 4 section_end) (\<lambda>num_CUs.
                 if num_CUs \<ge> dss_size \<or> num_CUs div 4 \<ge> dss_size then DW_ERROR DW_DLE_XU_NAME_COL_ERROR
                 else
                   dw_bind (read_unaligned_ck dbg sect 12 4 section_end) (\<lambda>num_slots.
                   dw_bind (xu_header_tables sect section_type local_version num_secs num_CUs num_slots) (\<lambda>indexptr.
                   dw_bind (fill_in_offsets_headerline dbg sect (unat (gx_section_offsets_headerline_offset indexptr)) (unat num_secs) 0
                       (gx_section_id indexptr)) (\<lambda>ids.
                     DW_OK (indexptr\<lparr>gx_section_id := ids\<rparr>))))))))"

section \<open>Rows and columns\<close>

text \<open>\<open>dwarf_get_xu_hash_entry\<close>; the signature is copied before the pointer into the table of rows is tested.\<close>

definition get_xu_hash_entry :: "package_debug \<Rightarrow> xu_index_header \<Rightarrow> u64 \<Rightarrow> (bytes \<times> u64) dw" where
  "get_xu_hash_entry pkg xuhdr index =
     (let buf = gx_section_data xuhdr; section_end = length buf in
      if gx_slots_in_hash xuhdr = 0 then DW_ERROR DW_DLE_XU_HASH_ROW_ERROR
      else if index \<ge> gx_slots_in_hash xuhdr then DW_NO_ENTRY
      else
        let hashentry = unat (gx_hash_table_offset xuhdr) + unat (index * 8);
            indexentry = unat (gx_index_table_offset xuhdr) + unat (index * 4)
        in if hashentry + 8 > length buf then FAULT
           else if indexentry \<ge> section_end \<or> indexentry + 4 > section_end then DW_ERROR DW_DLE_XU_HASH_ROW_ERROR
           else
             dw_bind (read_unaligned_ck (pk_dbg pkg) buf indexentry 4 section_end) (\<lambda>indexval.
             if indexval > gx_units_in_index xuhdr then DW_ERROR DW_DLE_XU_HASH_INDEX_ERROR
             else DW_OK (seg buf hashentry (hashentry + 8), indexval)))"

definition xu_target_section :: "xu_index_header \<Rightarrow> u64 \<Rightarrow> xu_target option" where
  "xu_target_section xuhdr sec_num =
     (if sec_num = DW_SECT_INFO then Some debug_info
      else if sec_num = DW_SECT_TYPES then Some debug_types
      else if sec_num = DW_SECT_ABBREV then Some debug_abbrev
      else if sec_num = DW_SECT_LINE then Some debug_line
      else if sec_num = DW_SECT_LOCLISTS then Some (if gx_version xuhdr < 5 then debug_loc else debug_loclists)
      else if sec_num = DW_SECT_STR_OFFSETS then Some debug_str_offsets
      else if sec_num = DW_SECT_MACRO then Some debug_macro
      else if sec_num = DW_SECT_RNGLISTS then Some (if gx_version xuhdr < 5 then debug_ranges else debug_rnglists)
      else None)"

definition find_xu_target_sec_size :: "package_debug \<Rightarrow> xu_index_header \<Rightarrow> u64 \<Rightarrow> u64 dw" where
  "find_xu_target_sec_size pkg xuhdr column_index =
     (if column_index \<ge> gx_column_count_sections xuhdr then DW_ERROR DW_DLE_XU_NAME_COL_ERROR
      else if unat column_index \<ge> length (gx_section_id xuhdr) then FAULT
      else
        case xu_target_section xuhdr (gx_section_id xuhdr ! unat column_index) of
          None \<Rightarrow> DW_ERROR DW_DLE_XU_NAME_COL_ERROR
        | Some secptr \<Rightarrow>
            if pk_dss_size pkg secptr = 0 then
              case pk_load_section pkg secptr of
                DW_OK dss_size \<Rightarrow> DW_OK dss_size
              | FAULT \<Rightarrow> FAULT
              | _ \<Rightarrow> DW_NO_ENTRY
            else DW_OK (pk_dss_size pkg secptr))"

text \<open>\<open>dwarf_get_xu_section_names\<close>; the arrays of section numbers and of names have nine and ten entries.\<close>

definition get_xu_section_names :: "xu_index_header \<Rightarrow> u64 \<Rightarrow> u64 dw" where
  "get_xu_section_names xuhdr column_index =
     (if column_index \<ge> gx_column_count_sections xuhdr then DW_ERROR DW_DLE_XU_NAME_COL_ERROR
      else
        let sec_num = gx_section_id xuhdr ! unat column_index in
        if unat column_index \<ge> length (gx_section_id xuhdr) then FAULT
        else if sec_num < 1 then DW_NO_ENTRY
        else if sec_num > 9 then FAULT
        else DW_OK sec_num)"

text \<open>\<open>dwarf_get_xu_section_offset\<close>: the offset and the size of a contribution, tested against the section it is in, when that can be found.\<close>

definition check_contribution :: "package_debug \<Rightarrow> xu_index_header \<Rightarrow> u64 \<Rightarrow> u64 \<Rightarrow> u64 \<Rightarrow> (u64 \<times> u64) dw" where
  "check_contribution pkg xuhdr column_index offset sz =
     (if sz = 0 then DW_OK (offset, sz)
      else
        case find_xu_target_sec_size pkg xuhdr column_index of
          DW_ERROR e \<Rightarrow> DW_ERROR e
        | FAULT \<Rightarrow> FAULT
        | DW_NO_ENTRY \<Rightarrow>
            if offset > de_filesize (pk_dbg pkg) then DW_ERROR DW_DLE_XU_NAME_COL_ERROR
            else if sz > de_filesize (pk_dbg pkg) then DW_ERROR DW_DLE_XU_NAME_COL_ERROR
            else DW_OK (offset, sz)
        | DW_OK target_sec_size \<Rightarrow>
            if offset \<noteq> 0 \<and> offset \<ge> target_sec_size then DW_ERROR DW_DLE_XU_NAME_COL_ERROR
            else if sz > target_sec_size then DW_ERROR DW_DLE_XU_NAME_COL_ERROR
            else DW_OK (offset, sz))"

definition get_xu_section_offset :: "package_debug \<Rightarrow> xu_index_header \<Rightarrow> u64 \<Rightarrow> u64 \<Rightarrow> (u64 \<times> u64) dw" where
  "get_xu_section_offset pkg xuhdr irow_index column_index =
     (let dbg = pk_dbg pkg; buf = gx_section_data xuhdr; section_end = length buf;
          row_index = irow_index - 1; column_count = gx_column_count_sections xuhdr; secsize = gx_section_length xuhdr;
          ofrow = row_index * column_count * 4; ofentry = column_index * 4;
          offsetentry = unat (gx_section_offsets_offset xuhdr) + unat ofrow + unat ofentry;
          sizeentry = unat (gx_section_sizes_offset xuhdr) + unat ofrow + unat ofentry
      in if column_index > column_count then DW_ERROR DW_DLE_XU_TYPE_ARG_ERROR
         else if irow_index = 0 then DW_ERROR DW_DLE_XU_NAME_COL_ERROR
         else if row_index \<ge> gx_units_in_index xuhdr then DW_ERROR DW_DLE_XU_NAME_COL_ERROR
         else if column_index \<ge> column_count then DW_ERROR DW_DLE_XU_NAME_COL_ERROR
         else if ofrow \<ge> secsize \<or> ofentry \<ge> secsize then DW_ERROR DW_DLE_XU_NAME_COL_ERROR
         else
           dw_bind (read_unaligned_ck dbg buf offsetentry 4 section_end) (\<lambda>offset.
           dw_bind (read_unaligned_ck dbg buf sizeentry 4 section_end) (\<lambda>sz.
             check_contribution pkg xuhdr column_index offset sz)))"

section \<open>Searches\<close>

lemma unat_next: "h < (n :: u64) \<Longrightarrow> unat (h + 1) = unat h + 1"
proof -
  assume "h < n"
  then have "unat h + 1 \<le> unat n" by (simp add: word_less_nat_alt)
  also have "\<dots> < 2 ^ 64" using unsigned_less [of n] by simp
  finally show ?thesis by (simp add: unat_word_ariths)
qed

text \<open>The loop of \<open>_dwarf_search_fission_for_key\<close> from slot \<open>h\<close> on.\<close>

function search_key_loop :: "package_debug \<Rightarrow> xu_index_header \<Rightarrow> bytes \<Rightarrow> u64 \<Rightarrow> u64 dw" where
  "search_key_loop pkg xuhdr key_in h =
     (if h < gx_slots_in_hash xuhdr then
        dw_bind (get_xu_hash_entry pkg xuhdr h) (\<lambda>(hashentry_key, percu_index).
          if percu_index = 0 \<and> hashentry_key = zerohashkey then search_key_loop pkg xuhdr key_in (h + 1)
          else if key_in = hashentry_key then DW_OK percu_index
          else search_key_loop pkg xuhdr key_in (h + 1))
      else DW_NO_ENTRY)"
  by pat_completeness auto

termination
  by (relation "measure (\<lambda>(pkg, xuhdr, key, h). unat (gx_slots_in_hash xuhdr) - unat h)")
     (auto simp: unat_next word_less_nat_alt)

declare search_key_loop.simps [simp del]

definition search_fission_for_key :: "package_debug \<Rightarrow> xu_index_header \<Rightarrow> bytes \<Rightarrow> u64 dw" where
  "search_fission_for_key pkg xuhdr key_in =
     (let slots = gx_slots_in_hash xuhdr in
      if slots > gx_section_length xuhdr then DW_ERROR DW_DLE_XU_NAME_COL_ERROR
      else if slots = 0 then DW_NO_ENTRY
      else if 4 * slots > gx_section_length xuhdr then DW_ERROR DW_DLE_XU_NAME_COL_ERROR
      else search_key_loop pkg xuhdr key_in 0)"

text \<open>The column of a section number, from column \<open>i\<close> on.\<close>

function find_sect_column :: "xu_index_header \<Rightarrow> u64 \<Rightarrow> u64 \<Rightarrow> u64 dw" where
  "find_sect_column xuhdr dfp_sect_num i =
     (if i < gx_column_count_sections xuhdr then
        dw_bind (get_xu_section_names xuhdr i) (\<lambda>num.
          if num = dfp_sect_num then DW_OK i else find_sect_column xuhdr dfp_sect_num (i + 1))
      else DW_ERROR DW_DLE_FISSION_SECNUM_ERR)"
  by pat_completeness auto

termination
  by (relation "measure (\<lambda>(xuhdr, num, i). unat (gx_column_count_sections xuhdr) - unat i)") (auto simp: unat_next word_less_nat_alt)

declare find_sect_column.simps [simp del]

function search_offset_loop :: "package_debug \<Rightarrow> xu_index_header \<Rightarrow> u64 \<Rightarrow> u64 \<Rightarrow> u64 \<Rightarrow> (u64 \<times> bytes) dw" where
  "search_offset_loop pkg xuhdr offset secnum_index m =
     (if m < gx_slots_in_hash xuhdr then
        dw_bind (get_xu_hash_entry pkg xuhdr m) (\<lambda>(hash, indexn).
          if indexn = 0 \<and> hash = zerohashkey then search_offset_loop pkg xuhdr offset secnum_index (m + 1)
          else
            dw_bind (get_xu_section_offset pkg xuhdr indexn secnum_index) (\<lambda>(sec_offset, sec_size).
              if sec_offset \<noteq> offset then search_offset_loop pkg xuhdr offset secnum_index (m + 1)
              else DW_OK (indexn, hash)))
      else DW_NO_ENTRY)"
  by pat_completeness auto

termination
  by (relation "measure (\<lambda>(pkg, xuhdr, offset, secnum, m). unat (gx_slots_in_hash xuhdr) - unat m)") (auto simp: unat_next word_less_nat_alt)

declare search_offset_loop.simps [simp del]

definition search_fission_for_offset :: "package_debug \<Rightarrow> xu_index_header \<Rightarrow> u64 \<Rightarrow> u64 \<Rightarrow> (u64 \<times> bytes) dw" where
  "search_fission_for_offset pkg xuhdr offset dfp_sect_num =
     dw_bind (find_sect_column xuhdr dfp_sect_num 0) (\<lambda>secnum_index. search_offset_loop pkg xuhdr offset secnum_index 0)"

definition get_xuhdr :: "package_debug \<Rightarrow> string \<Rightarrow> xu_index_header dw" where
  "get_xuhdr pkg sigtype =
     (if sigtype = ''tu'' then
        case de_tu_hashindex_data pkg of None \<Rightarrow> DW_NO_ENTRY | Some xuhdr \<Rightarrow> DW_OK xuhdr
      else if sigtype = ''cu'' then
        case de_cu_hashindex_data pkg of None \<Rightarrow> DW_NO_ENTRY | Some xuhdr \<Rightarrow> DW_OK xuhdr
      else DW_ERROR DW_DLE_SIG_TYPE_WRONG_STRING)"

text \<open>\<open>transform_xu_to_dfp\<close>: the section numbers of the columns, then the contribution of each column to the arrays. The arrays hold twelve numbers.\<close>

function column_sections :: "xu_index_header \<Rightarrow> u64 \<Rightarrow> u64 list dw" where
  "column_sections xuhdr i =
     (if i < gx_column_count_sections xuhdr then
        dw_bind (get_xu_section_names xuhdr i) (\<lambda>num.
          if unat i \<ge> DW_FISSION_SECT_COUNT then FAULT
          else dw_bind (column_sections xuhdr (i + 1)) (\<lambda>secnums. DW_OK (num # secnums)))
      else DW_OK [])"
  by pat_completeness auto

termination
  by (relation "measure (\<lambda>(xuhdr, i). unat (gx_column_count_sections xuhdr) - unat i)") (auto simp: unat_next word_less_nat_alt)

declare column_sections.simps [simp del]

fun fill_contributions :: "package_debug \<Rightarrow> xu_index_header \<Rightarrow> u64 \<Rightarrow> u64 list \<Rightarrow> u64 \<Rightarrow> fission_per_cu \<Rightarrow> fission_per_cu dw" where
  "fill_contributions pkg xuhdr n [] l percu_out = DW_OK percu_out"
| "fill_contributions pkg xuhdr n (l_as_sect # secnums) l percu_out =
     dw_bind (get_xu_section_offset pkg xuhdr n l) (\<lambda>(sec_off, sec_size).
       if unat l_as_sect \<ge> DW_FISSION_SECT_COUNT then FAULT
       else
         fill_contributions pkg xuhdr n secnums (l + 1)
           (percu_out\<lparr>pcu_offset := (pcu_offset percu_out)[unat l_as_sect := sec_off], pcu_size := (pcu_size percu_out)[unat l_as_sect := sec_size]\<rparr>))"

definition transform_xu_to_dfp :: "package_debug \<Rightarrow> xu_index_header \<Rightarrow> u64 \<Rightarrow> bytes \<Rightarrow> string \<Rightarrow> fission_per_cu \<Rightarrow> fission_per_cu dw" where
  "transform_xu_to_dfp pkg xuhdr percu_index key sig_type percu_out =
     dw_bind (column_sections xuhdr 0) (\<lambda>secnums.
     dw_bind (fill_contributions pkg xuhdr percu_index secnums 0 (clear_pcu_data percu_out)) (\<lambda>percu_out.
       DW_OK (percu_out\<lparr>pcu_type := sig_type, pcu_index := percu_index, pcu_hash := key\<rparr>)))"

definition get_debugfission_for_offset :: "package_debug \<Rightarrow> u64 \<Rightarrow> string \<Rightarrow> fission_per_cu \<Rightarrow> fission_per_cu dw" where
  "get_debugfission_for_offset pkg offset_wanted key_type percu_out =
     dw_bind (get_xuhdr pkg key_type) (\<lambda>xuhdr.
     dw_bind (search_fission_for_offset pkg xuhdr offset_wanted DW_SECT_INFO) (\<lambda>(percu_index, key).
       transform_xu_to_dfp pkg xuhdr percu_index key key_type percu_out))"

text \<open>A section that has to be loaded first, and may be missing.\<close>

definition unless_error :: "unit dw \<Rightarrow> 'a dw \<Rightarrow> 'a dw" where
  "unless_error res rest = (case res of DW_ERROR e \<Rightarrow> DW_ERROR e | FAULT \<Rightarrow> FAULT | _ \<Rightarrow> rest)"

definition get_debugfission_for_key :: "package_debug \<Rightarrow> bytes \<Rightarrow> string \<Rightarrow> fission_per_cu \<Rightarrow> fission_per_cu dw" where
  "get_debugfission_for_key pkg key key_type percu_out =
     unless_error (pk_load_debug_info pkg) (unless_error (pk_load_debug_types pkg) (
     dw_bind (get_xuhdr pkg key_type) (\<lambda>xuhdr.
     dw_bind (search_fission_for_key pkg xuhdr key) (\<lambda>percu_index.
       transform_xu_to_dfp pkg xuhdr percu_index key key_type percu_out))))"

end
