(* ===== verification/XuLookup.thy ===== *)
theory XuLookup
  imports XuIndex Encoding
begin

text \<open>
  The searches in the index of a package file are safe for any section; in an encoded index they find the unit of a signature or an offset.
\<close>

section \<open>An accepted header\<close>

definition header_fits :: "xu_index_header \<Rightarrow> bool" where
  "header_fits h \<longleftrightarrow>
     (let buf = gx_section_data h; N = unat (gx_column_count_sections h); U = unat (gx_units_in_index h); S = unat (gx_slots_in_hash h) in
      length buf < 2 ^ 62 \<and> gx_section_length h = word_of_nat (length buf) \<and> N \<le> 8 \<and> U < 2 ^ 32 \<and> S < 2 ^ 32 \<and>
      unat (gx_hash_table_offset h) = 16 \<and> unat (gx_index_table_offset h) = 16 + 8 * S \<and>
      unat (gx_section_offsets_headerline_offset h) = 16 + 12 * S \<and> unat (gx_section_offsets_offset h) = 16 + 12 * S + 4 * N \<and>
      unat (gx_section_sizes_offset h) = 16 + 12 * S + 4 * N + 4 * U * N \<and> 16 + 12 * S + 4 * N + 8 * U * N \<le> length buf \<and>
      length (gx_section_id h) = 9 \<and> (\<forall>x \<in> set (gx_section_id h). x \<le> 8))"

lemma unat_word_of_small: "n < 2 ^ 64 \<Longrightarrow> unat (word_of_nat n :: u64) = n"
  by (simp add: unsigned_of_nat take_bit_nat_eq_self_iff)

lemma word_of_nat_unat: "word_of_nat (unat w) = (w :: 'a :: len word)"
  by (simp add: word_unat_eq_iff unsigned_of_nat take_bit_nat_eq_self_iff unsigned_less)

text \<open>The header of an index with a number of columns, units and slots.\<close>

definition table_header :: "bytes \<Rightarrow> string \<Rightarrow> u64 \<Rightarrow> nat \<Rightarrow> nat \<Rightarrow> nat \<Rightarrow> xu_index_header" where
  "table_header buf ty version N U S =
     \<lparr>gx_section_data = buf, gx_section_length = word_of_nat (length buf), gx_version = version,
      gx_column_count_sections = word_of_nat N, gx_units_in_index = word_of_nat U, gx_slots_in_hash = word_of_nat S,
      gx_hash_table_offset = 16, gx_index_table_offset = word_of_nat (16 + 8 * S), gx_section_offsets_headerline_offset = word_of_nat (16 + 12 * S),
      gx_section_offsets_offset = word_of_nat (16 + 12 * S + 4 * N), gx_section_sizes_offset = word_of_nat (16 + 12 * S + 4 * N + 4 * U * N),
      gx_section_id = replicate 9 0, gx_type = ty\<rparr>"

lemma xu_header_tables_eq:
  assumes "length sect < 2 ^ 62" "N \<le> 8" "U < 2 ^ 32" "S < 2 ^ 32"
  shows "xu_header_tables sect ty version (word_of_nat N) (word_of_nat U) (word_of_nat S) =
    (if 16 + 12 * S + 4 * N + 8 * U * N > length sect then DW_ERROR DW_DLE_ERRONEOUS_XU_INDEX_SECTION else DW_OK (table_header sect ty version N U S))"
proof -
  let ?N = "word_of_nat N :: u64" and ?U = "word_of_nat U :: u64" and ?S = "word_of_nat S :: u64"
  have UN: "U * N \<le> 2 ^ 32 * 8" using assms by (intro mult_le_mono) simp_all
  have places: "4 * 4 + ?S * 8 = word_of_nat (16 + 8 * S)" "4 * 4 + ?S * 8 + ?S * 4 = word_of_nat (16 + 12 * S)"
    "4 * 4 + ?S * 8 + ?S * 4 + ?N * 4 = word_of_nat (16 + 12 * S + 4 * N)"
    "4 * 4 + ?S * 8 + ?S * 4 + ?N * 4 + ?U * ?N * 4 = word_of_nat (16 + 12 * S + 4 * N + 4 * U * N)"
    "4 * 4 + ?S * 8 + ?S * 4 + ?N * 4 + ?U * ?N * 4 + ?U * ?N * 4 = word_of_nat (16 + 12 * S + 4 * N + 8 * U * N)"
    "4 * ?S = word_of_nat (4 * S)" "4 * ?N = word_of_nat (4 * N)"
    by (simp_all add: algebra_simps)
  have u: "unat (word_of_nat (16 + 12 * S + 4 * N + 8 * U * N) :: u64) = 16 + 12 * S + 4 * N + 8 * U * N" "unat ?N = N" "unat ?S = S"
    "unat (word_of_nat (4 * S) :: u64) = 4 * S" "unat (word_of_nat (4 * N) :: u64) = 4 * N" "unat (word_of_nat (length sect) :: u64) = length sect"
    using assms UN by (intro unat_word_of_small; simp)+
  show ?thesis unfolding xu_header_tables_def Let_def
    unfolding places(5) unfolding places(4) unfolding places(3) unfolding places(2) unfolding places(1) unfolding places(6,7)
    unfolding word_less_nat_alt u table_header_def by simp
qed

lemma table_header_fits:
  assumes "16 + 12 * S + 4 * N + 8 * U * N \<le> length buf" "length buf < 2 ^ 62" "N \<le> 8" "U < 2 ^ 32" "S < 2 ^ 32"
  shows "header_fits (table_header buf ty version N U S)"
proof -
  have "unat (word_of_nat N :: u64) = N" "unat (word_of_nat U :: u64) = U" "unat (word_of_nat S :: u64) = S" "unat (word_of_nat (16 + 8 * S) :: u64) = 16 + 8 * S"
    "unat (word_of_nat (16 + 12 * S) :: u64) = 16 + 12 * S" "unat (word_of_nat (16 + 12 * S + 4 * N) :: u64) = 16 + 12 * S + 4 * N"
    "unat (word_of_nat (16 + 12 * S + 4 * N + 4 * U * N) :: u64) = 16 + 12 * S + 4 * N + 4 * U * N"
    using assms by (intro unat_word_of_small; simp)+
  then show ?thesis using assms by (simp add: header_fits_def Let_def table_header_def del: of_nat_add of_nat_mult)
qed

lemma xu_header_tables_spec:
  assumes "length sect < 2 ^ 62" "unat num_secs \<le> 8" "unat num_CUs < 2 ^ 32" "unat num_slots < 2 ^ 32"
  shows "spec True (\<lambda>h. header_fits h \<and> gx_column_count_sections h = num_secs \<and> gx_section_id h = replicate 9 0)
    (xu_header_tables sect ty version num_secs num_CUs num_slots)"
  using xu_header_tables_eq [OF assms, of ty version] table_header_fits [OF _ assms]
  unfolding word_of_nat_unat by (auto simp: not_less) (simp_all add: table_header_def word_of_nat_unat)

lemma spec_read4: "e \<le> length buf \<Longrightarrow> spec True (\<lambda>v. unat v < 2 ^ 32 \<and> p + 4 \<le> e) (read_unaligned_ck dbg buf p 4 e)"
  using unat_read_unaligned_ck(2) [of e buf 4 dbg p] read_unaligned_ck_OK [of dbg buf p 4 e] by (auto simp: spec_def no_fault)

lemma fill_in_offsets_headerline_spec:
  "i + n \<le> length ids \<Longrightarrow> \<forall>x \<in> set ids. x \<le> 8 \<Longrightarrow>
    spec True (\<lambda>ids'. length ids' = length ids \<and> (\<forall>x \<in> set ids'. x \<le> 8)) (fill_in_offsets_headerline dbg buf p n i ids)"
proof (induction n arbitrary: p i ids)
  case (Suc n)
  have "spec True (\<lambda>ids'. length ids' = length ids \<and> (\<forall>x \<in> set ids'. x \<le> 8)) (fill_in_offsets_headerline dbg buf (p + 4) n (i + 1) (ids[i := v]))"
    if "v \<le> 8" for v
    using Suc.IH [of "i + 1" "ids[i := v]" "p + 4"] Suc.prems that set_update_subset_insert [of ids i v] by fastforce
  then show ?case unfolding fill_in_offsets_headerline.simps using Suc.prems(1)
    by (intro spec_bind [OF spec_read4] spec_if) (auto simp: not_less)
qed simp

text \<open>The section of an index.\<close>

definition index_section :: "package_debug \<Rightarrow> string \<Rightarrow> bytes" where
  "index_section pkg section_type = (if section_type = ''cu'' then de_debug_cu_index pkg else de_debug_tu_index pkg)"

lemma get_xu_index_header_spec:
  assumes "length (index_section pkg section_type) < 2 ^ 62"
  shows "spec True header_fits (get_xu_index_header pkg section_type)"
proof -
  let ?sect = "index_section pkg section_type"
  show ?thesis unfolding get_xu_index_header_def Let_def index_section_def [symmetric]
    apply (intro spec_if, simp, simp, simp)
    apply (rule spec_bind [OF spec_read4], simp)
    apply (rule spec_if, simp)
    apply (rule spec_bind [OF spec_read4], simp)
    apply (rule spec_if, simp)
    apply (rule spec_bind [OF spec_read4], simp)
    apply (rule spec_if, simp)
    apply (rule spec_bind [OF spec_read4], simp)
    apply (rule spec_bind [OF xu_header_tables_spec], rule assms, simp add: not_less word_le_nat_alt, simp, simp)
    apply (rule spec_bind [OF fill_in_offsets_headerline_spec])
      apply (auto simp: header_fits_def Let_def not_less word_le_nat_alt)
    done
qed

section \<open>Lookups stay inside the section\<close>

definition loads :: "package_debug \<Rightarrow> bool" where
  "loads pkg \<longleftrightarrow> (\<forall>t. pk_load_section pkg t \<noteq> FAULT) \<and> pk_load_debug_info pkg \<noteq> FAULT \<and> pk_load_debug_types pkg \<noteq> FAULT"

lemma unat_times:
  "unat x < 2 ^ 32 \<Longrightarrow> unat ((x :: u64) * 8) = unat x * 8" "unat x < 2 ^ 32 \<Longrightarrow> unat (x * 4) = unat x * 4"
  by (simp_all add: unat_word_ariths)

lemma get_xu_hash_entry_spec:
  assumes "header_fits h"
  shows "spec True (\<lambda>(sig, k). length sig = 8 \<and> k \<le> gx_units_in_index h) (get_xu_hash_entry pkg h i)"
proof -
  let ?buf = "gx_section_data h" and ?S = "unat (gx_slots_in_hash h)"
  have h: "unat (gx_hash_table_offset h) = 16" "?S < 2 ^ 32" "16 + 12 * ?S \<le> length ?buf"
    using assms by (simp_all add: header_fits_def Let_def)
  have "16 + unat (i * 8) + 8 \<le> length ?buf" if "\<not> gx_slots_in_hash h \<le> i"
  proof -
    have "unat i < ?S" using that by (simp add: word_le_nat_alt)
    then show ?thesis using unat_times(1) [of i] h by simp
  qed
  then show ?thesis unfolding get_xu_hash_entry_def Let_def h(1)
    by (intro spec_if spec_bind [OF spec_read4]) (auto simp: seg_def not_less)
qed

lemma column_in_array:
  "header_fits h \<Longrightarrow> \<not> gx_column_count_sections h \<le> column \<Longrightarrow> unat column < 9 \<and> length (gx_section_id h) = 9 \<and> gx_section_id h ! unat column \<le> 8"
  using nth_mem [of "unat column" "gx_section_id h"] by (simp add: header_fits_def Let_def word_le_nat_alt)

lemma check_contribution_spec:
  assumes "header_fits h" "loads pkg"
  shows "spec True (\<lambda>_. True) (check_contribution pkg h column offset sz)"
proof -
  have "find_xu_target_sec_size pkg h column \<noteq> FAULT"
    using assms column_in_array [OF assms(1), of column]
    by (cases "gx_column_count_sections h \<le> column") (auto simp: find_xu_target_sec_size_def loads_def split: option.splits dw.splits)
  then show ?thesis by (auto simp: check_contribution_def spec_def split: dw.splits if_splits)
qed

lemma get_xu_section_offset_spec: "header_fits h \<Longrightarrow> loads pkg \<Longrightarrow> spec True (\<lambda>_. True) (get_xu_section_offset pkg h row column)"
  unfolding get_xu_section_offset_def Let_def
  by (intro spec_if spec_bind [OF spec_read4] check_contribution_spec) simp_all

lemma get_xu_section_names_spec:
  assumes "header_fits h"
  shows "spec True (\<lambda>num. num \<noteq> 0 \<and> num \<le> 8) (get_xu_section_names h column)"
proof (cases "gx_column_count_sections h \<le> column")
  case False
  then show ?thesis using column_in_array [OF assms False] unfolding get_xu_section_names_def Let_def
    by (intro spec_if) (auto simp: not_less word_le_nat_alt word_less_nat_alt)
qed (simp add: get_xu_section_names_def)

lemma search_key_loop_spec: "header_fits h \<Longrightarrow> spec True (\<lambda>_. True) (search_key_loop pkg h key i)"
proof (induction pkg h key i rule: search_key_loop.induct)
  case (1 pkg h key i)
  show ?case
  proof (cases "i < gx_slots_in_hash h")
    case True
    show ?thesis using True 1 get_xu_hash_entry_spec [OF 1(3), of pkg i]
      by (subst search_key_loop.simps) (cases "get_xu_hash_entry pkg h i"; auto)
  qed (simp add: search_key_loop.simps)
qed

lemma search_offset_loop_spec: "header_fits h \<Longrightarrow> loads pkg \<Longrightarrow> spec True (\<lambda>_. True) (search_offset_loop pkg h offset column i)"
proof (induction pkg h offset column i rule: search_offset_loop.induct)
  case (1 pkg h offset column i)
  show ?case
  proof (cases "i < gx_slots_in_hash h \<and> (\<exists>sig k. get_xu_hash_entry pkg h i = DW_OK (sig, k))")
    case True
    then obtain sig k where e: "i < gx_slots_in_hash h" "get_xu_hash_entry pkg h i = DW_OK (sig, k)" by blast
    then show ?thesis using 1 get_xu_section_offset_spec [OF 1(3,4), of k column]
      by (subst search_offset_loop.simps) (cases "get_xu_section_offset pkg h k column"; auto)
  next
    case False
    then show ?thesis using get_xu_hash_entry_spec [OF 1(3), of pkg i]
      by (subst search_offset_loop.simps) (cases "get_xu_hash_entry pkg h i"; auto)
  qed
qed

lemma find_sect_column_spec: "header_fits h \<Longrightarrow> spec True (\<lambda>_. True) (find_sect_column h num i)"
proof (induction h num i rule: find_sect_column.induct)
  case (1 h num i)
  then show ?case using get_xu_section_names_spec [OF 1(2), of i]
    by (subst find_sect_column.simps) (cases "get_xu_section_names h i"; auto)
qed

lemma column_sections_spec:
  "header_fits h \<Longrightarrow> spec True (\<lambda>nums. \<forall>x \<in> set nums. x \<noteq> 0 \<and> x \<le> 8) (column_sections h i)"
proof (induction h i rule: column_sections.induct)
  case (1 h i)
  then show ?case using get_xu_section_names_spec [OF 1(2), of i] column_in_array [OF 1(2), of i]
    by (subst column_sections.simps) (cases "get_xu_section_names h i"; cases "column_sections h (i + 1)"; auto simp: not_le)
qed

definition percu_fits :: "fission_per_cu \<Rightarrow> bool" where
  "percu_fits percu \<longleftrightarrow> length (pcu_offset percu) = DW_FISSION_SECT_COUNT \<and> length (pcu_size percu) = DW_FISSION_SECT_COUNT"

lemma fill_contributions_spec:
  "header_fits h \<Longrightarrow> loads pkg \<Longrightarrow> \<forall>x \<in> set nums. x \<le> 8 \<Longrightarrow> percu_fits percu \<Longrightarrow> spec True percu_fits (fill_contributions pkg h n nums l percu)"
proof (induction nums arbitrary: l percu)
  case (Cons x nums)
  have "unat x \<le> 8" using Cons.prems(3) by (simp add: word_le_nat_alt)
  then show ?case using Cons unfolding fill_contributions.simps
    by (intro spec_bind [OF get_xu_section_offset_spec]) (auto simp: percu_fits_def)
qed simp

lemma transform_xu_to_dfp_spec:
  assumes "header_fits h" "loads pkg"
  shows "spec True percu_fits (transform_xu_to_dfp pkg h n key ty percu)"
  unfolding transform_xu_to_dfp_def
  by (rule spec_bind [OF column_sections_spec [OF assms(1)]], rule spec_bind [OF fill_contributions_spec [OF assms]])
     (auto simp: percu_fits_def clear_pcu_data_def)

definition index_fits :: "package_debug \<Rightarrow> bool" where
  "index_fits pkg \<longleftrightarrow> loads pkg \<and> (\<forall>h. de_cu_hashindex_data pkg = Some h \<longrightarrow> header_fits h) \<and> (\<forall>h. de_tu_hashindex_data pkg = Some h \<longrightarrow> header_fits h)"

lemma get_xuhdr_spec: "index_fits pkg \<Longrightarrow> spec True header_fits (get_xuhdr pkg ty)"
  by (auto simp: get_xuhdr_def index_fits_def split: option.splits)

lemma search_fission_for_key_spec: "header_fits h \<Longrightarrow> spec True (\<lambda>_. True) (search_fission_for_key pkg h key)"
  unfolding search_fission_for_key_def Let_def by (intro spec_if search_key_loop_spec) simp_all

lemma spec_unless_error: "res \<noteq> FAULT \<Longrightarrow> spec True P rest \<Longrightarrow> spec True P (unless_error res rest)"
  by (auto simp: unless_error_def split: dw.split)

lemma debugfission_for_key_spec: "index_fits pkg \<Longrightarrow> spec True percu_fits (get_debugfission_for_key pkg key ty percu)"
  unfolding get_debugfission_for_key_def
  by (rule spec_unless_error, simp add: index_fits_def loads_def, rule spec_unless_error, simp add: index_fits_def loads_def,
      rule spec_bind [OF get_xuhdr_spec], assumption, rule spec_bind [OF search_fission_for_key_spec], assumption, rule transform_xu_to_dfp_spec)
     (simp_all add: index_fits_def)

lemma debugfission_for_offset_spec:
  assumes "index_fits pkg"
  shows "spec True percu_fits (get_debugfission_for_offset pkg offset ty percu)"
proof -
  have l: "loads pkg" using assms by (simp add: index_fits_def)
  show ?thesis unfolding get_debugfission_for_offset_def search_fission_for_offset_def
    by (rule spec_bind [OF get_xuhdr_spec [OF assms]], rule spec_bind [OF spec_bind [OF find_sect_column_spec search_offset_loop_spec]])
       (auto intro: l transform_xu_to_dfp_spec)
qed

section \<open>Encoded indexes\<close>

text \<open>
  An index as a packager writes it: the version, the section numbers of the columns, for each unit its contributions, an offset and a size for each column, and
  the slots of the hash table, each with a signature and the number of its unit counted from one, or zeroes when it is not used.
\<close>

record index_desc =
  xd_version :: nat
  xd_columns :: "nat list"
  xd_units :: "(nat \<times> nat) list list"
  xd_slots :: "(bytes \<times> nat) list"

definition numbers :: "dwarf_debug \<Rightarrow> nat list \<Rightarrow> bytes" where
  "numbers dbg ns = concat (map (fixed_bytes dbg 4) ns)"

definition encode_index :: "dwarf_debug \<Rightarrow> index_desc \<Rightarrow> bytes" where
  "encode_index dbg x =
     numbers dbg [xd_version x, length (xd_columns x), length (xd_units x), length (xd_slots x)] @
     concat (map fst (xd_slots x)) @ numbers dbg (map snd (xd_slots x)) @ numbers dbg (xd_columns x) @
     numbers dbg (map fst (concat (xd_units x))) @ numbers dbg (map snd (concat (xd_units x)))"

text \<open>A contribution lies in the section it is to, as far as its size is known.\<close>

definition target_of :: "nat \<Rightarrow> nat \<Rightarrow> xu_target" where
  "target_of version s =
     (if version < 5 then [debug_info, debug_info, debug_types, debug_abbrev, debug_line, debug_loc, debug_str_offsets, debug_macro, debug_ranges] ! s
      else [debug_info, debug_info, debug_types, debug_abbrev, debug_line, debug_loclists, debug_str_offsets, debug_macro, debug_rnglists] ! s)"

definition contribution_ok :: "package_debug \<Rightarrow> nat \<Rightarrow> nat \<Rightarrow> nat \<times> nat \<Rightarrow> bool" where
  "contribution_ok pkg version s c =
     (case c of (off, sz) \<Rightarrow> off < 2 ^ 32 \<and> sz < 2 ^ 32 \<and> off + sz \<le> unat (pk_dss_size pkg (target_of version s)))"

definition index_ok :: "package_debug \<Rightarrow> index_desc \<Rightarrow> bool" where
  "index_ok pkg x \<longleftrightarrow> 2 \<le> xd_version x \<and> xd_version x \<le> 5 \<and> xd_columns x \<noteq> [] \<and> distinct (xd_columns x) \<and> (\<forall>s \<in> set (xd_columns x). 1 \<le> s \<and> s \<le> 8) \<and>
     length (xd_columns x) \<le> 8 \<and> length (xd_units x) < 2 ^ 32 \<and> length (xd_slots x) < 2 ^ 32 \<and>
     (\<forall>row \<in> set (xd_units x). list_all2 (contribution_ok pkg (xd_version x)) (xd_columns x) row) \<and>
     (\<forall>(sig, k) \<in> set (xd_slots x). length sig = 8 \<and> k \<le> length (xd_units x) \<and> (k = 0 \<longrightarrow> sig = zerohashkey))"

lemma holds_at_concat:
  "holds_at buf p (concat (map f xs)) \<Longrightarrow> (\<And>x. x \<in> set xs \<Longrightarrow> length (f x) = n) \<Longrightarrow> i < length xs \<Longrightarrow> holds_at buf (p + n * i) (f (xs ! i))"
proof (induction xs arbitrary: p i)
  case (Cons x xs)
  then have h: "holds_at buf p (f x)" "holds_at buf (p + n) (concat (map f xs))" by simp_all
  show ?case
  proof (cases i)
    case (Suc j)
    then show ?thesis using Cons.IH [OF h(2), of j] Cons.prems by (simp add: algebra_simps)
  qed (use h in simp)
qed simp

lemma length_numbers [simp]: "length (numbers dbg ns) = 4 * length ns"
  by (induction ns) (simp_all add: numbers_def)

lemma number_at:
  assumes "holds_at buf p (numbers dbg ns)" "i < length ns" "ns ! i < 2 ^ 32"
  shows "read_unaligned_ck dbg buf (p + 4 * i) 4 (length buf) = DW_OK (word_of_nat (ns ! i))"
proof -
  have h: "holds_at buf (p + 4 * i) (fixed_bytes dbg 4 (ns ! i))"
    using assms(1,2) unfolding numbers_def by (intro holds_at_concat) simp_all
  show ?thesis using holds_at_end [OF h] assms(3) by (intro read_fixed_at [OF h]) simp_all
qed

definition decoded_header :: "bytes \<Rightarrow> string \<Rightarrow> index_desc \<Rightarrow> xu_index_header" where
  "decoded_header buf ty x =
     (table_header buf ty (word_of_nat (xd_version x)) (length (xd_columns x)) (length (xd_units x)) (length (xd_slots x)))
       \<lparr>gx_section_id := map word_of_nat (xd_columns x) @ replicate (9 - length (xd_columns x)) 0\<rparr>"

lemma length_concat_units: "index_ok pkg x \<Longrightarrow> length (concat (xd_units x)) = length (xd_units x) * length (xd_columns x)"
proof -
  assume "index_ok pkg x"
  then have "\<forall>row \<in> set (xd_units x). length row = length (xd_columns x)"
    using list_all2_lengthD by (fastforce simp: index_ok_def)
  then have "length (concat rows) = length rows * length (xd_columns x)" if "set rows \<subseteq> set (xd_units x)" for rows
    using that by (induction rows) auto
  then show ?thesis by simp
qed

lemma length_concat_sigs: "index_ok pkg x \<Longrightarrow> length (concat (map fst (xd_slots x))) = 8 * length (xd_slots x)"
proof -
  assume "index_ok pkg x"
  then have "\<forall>s \<in> set (xd_slots x). length (fst s) = 8" by (auto simp: index_ok_def)
  then have "length (concat (map fst ss)) = 8 * length ss" if "set ss \<subseteq> set (xd_slots x)" for ss :: "(bytes \<times> nat) list"
    using that by (induction ss) auto
  then show ?thesis by simp
qed

lemma index_parts:
  assumes "index_ok pkg x"
  defines "buf \<equiv> encode_index (pk_dbg pkg) x" and "N \<equiv> length (xd_columns x)" and "U \<equiv> length (xd_units x)" and "S \<equiv> length (xd_slots x)"
  shows "length buf = 16 + 12 * S + 4 * N + 8 * U * N"
    "holds_at buf 0 (numbers (pk_dbg pkg) [xd_version x, N, U, S])" "holds_at buf 16 (concat (map fst (xd_slots x)))"
    "holds_at buf (16 + 8 * S) (numbers (pk_dbg pkg) (map snd (xd_slots x)))" "holds_at buf (16 + 12 * S) (numbers (pk_dbg pkg) (xd_columns x))"
    "holds_at buf (16 + 12 * S + 4 * N) (numbers (pk_dbg pkg) (map fst (concat (xd_units x))))"
    "holds_at buf (16 + 12 * S + 4 * N + 4 * U * N) (numbers (pk_dbg pkg) (map snd (concat (xd_units x))))"
proof -
  note len = length_concat_units [OF assms(1)] length_concat_sigs [OF assms(1)]
  show "length buf = 16 + 12 * S + 4 * N + 8 * U * N"
    unfolding buf_def encode_index_def N_def U_def S_def using len by simp
  have "holds_at buf 0 buf" by (simp add: holds_at_def)
  then have "holds_at buf 0 (encode_index (pk_dbg pkg) x)" unfolding buf_def .
  then show "holds_at buf 0 (numbers (pk_dbg pkg) [xd_version x, N, U, S])" "holds_at buf 16 (concat (map fst (xd_slots x)))"
    "holds_at buf (16 + 8 * S) (numbers (pk_dbg pkg) (map snd (xd_slots x)))" "holds_at buf (16 + 12 * S) (numbers (pk_dbg pkg) (xd_columns x))"
    "holds_at buf (16 + 12 * S + 4 * N) (numbers (pk_dbg pkg) (map fst (concat (xd_units x))))"
    "holds_at buf (16 + 12 * S + 4 * N + 4 * U * N) (numbers (pk_dbg pkg) (map snd (concat (xd_units x))))"
    unfolding encode_index_def N_def U_def S_def using len by (simp_all add: algebra_simps)
qed

text \<open>An encoded index is its section.\<close>

definition has_index :: "package_debug \<Rightarrow> string \<Rightarrow> index_desc \<Rightarrow> bool" where
  "has_index pkg ty x \<longleftrightarrow> ty \<in> {''cu'', ''tu''} \<and> pk_load_debug_info pkg \<in> {DW_OK (), DW_NO_ENTRY} \<and> pk_load_debug_types pkg \<in> {DW_OK (), DW_NO_ENTRY} \<and>
     index_ok pkg x \<and> index_section pkg ty = encode_index (pk_dbg pkg) x \<and>
     length (index_section pkg ty) < 2 ^ 62"

lemma fill_in_offsets_at:
  assumes "holds_at buf p (numbers dbg ns)" "\<forall>n \<in> set ns. n \<le> 8" "length done + length ns \<le> 9"
  shows "fill_in_offsets_headerline dbg buf p (length ns) (length done) (done @ replicate (9 - length done) 0) =
    DW_OK (done @ map word_of_nat ns @ replicate (9 - length done - length ns) 0)"
  using assms
proof (induction ns arbitrary: p "done")
  case (Cons n ns)
  have r: "read_unaligned_ck dbg buf p 4 (length buf) = DW_OK (word_of_nat n)"
    using number_at [OF Cons.prems(1), of 0] Cons.prems(2) by simp
  have n: "\<not> (word_of_nat n :: u64) > 8" using Cons.prems(2) by (simp add: word_less_nat_alt unat_word_of_small)
  have "holds_at buf (p + 4) (numbers dbg ns)" using Cons.prems(1) by (simp add: numbers_def)
  moreover have "(done @ replicate (9 - length done) 0)[length done := word_of_nat n] =
      (done @ [word_of_nat n]) @ replicate (9 - length (done @ [word_of_nat n])) 0"
    using Cons.prems(3) by (cases "9 - length done") (simp_all add: list_update_append)
  ultimately show ?case using Cons.IH [of "p + 4" "done @ [word_of_nat n]"] Cons.prems(2,3) r n by simp
qed simp

lemma index_header_at:
  assumes "has_index pkg ty x"
  shows "get_xu_index_header pkg ty = DW_OK (decoded_header (index_section pkg ty) ty x)"
proof -
  let ?dbg = "pk_dbg pkg" and ?buf = "index_section pkg ty"
  define N U S where "N = length (xd_columns x)" and "U = length (xd_units x)" and "S = length (xd_slots x)"
  have ok: "index_ok pkg x" and buf: "?buf = encode_index ?dbg x" and ty: "ty = ''cu'' \<or> ty = ''tu''" and len: "length ?buf < 2 ^ 62"
    using assms by (auto simp: has_index_def)
  note parts = index_parts [OF ok, folded buf N_def U_def S_def]
  have b: "2 \<le> xd_version x" "xd_version x \<le> 5" "1 \<le> N" "N \<le> 8" "U < 2 ^ 32" "S < 2 ^ 32" "\<forall>n \<in> set (xd_columns x). n \<le> 8"
    using ok by (auto simp: index_ok_def N_def U_def S_def Suc_le_eq)
  have UN: "U \<le> U * N" using b by simp
  have four: "\<forall>n \<in> set [xd_version x, N, U, S]. n < 2 ^ 32" using b by simp
  have r: "read_unaligned_ck ?dbg ?buf 0 4 (length ?buf) = DW_OK (word_of_nat (xd_version x))"
    "read_unaligned_ck ?dbg ?buf 4 4 (length ?buf) = DW_OK (word_of_nat N)"
    "read_unaligned_ck ?dbg ?buf 8 4 (length ?buf) = DW_OK (word_of_nat U)"
    "read_unaligned_ck ?dbg ?buf 12 4 (length ?buf) = DW_OK (word_of_nat S)"
    using number_at [OF parts(2), of 0] number_at [OF parts(2), of 1] number_at [OF parts(2), of 2] number_at [OF parts(2), of 3] four
    by (simp_all add: numeral_2_eq_2 numeral_3_eq_3)
  have u: "unat (word_of_nat (xd_version x) :: u64) = xd_version x" "unat (word_of_nat N :: u64) = N" "unat (word_of_nat U :: u64) = U"
    "unat (word_of_nat S :: u64) = S" "unat (word_of_nat (length ?buf) :: u64) = length ?buf"
    "unat (word_of_nat (16 + 12 * S) :: u64) = 16 + 12 * S"
    using b len by (intro unat_word_of_small; simp)+
  have tables: "xu_header_tables ?buf ty (word_of_nat (xd_version x)) (word_of_nat N) (word_of_nat U) (word_of_nat S) =
      DW_OK (table_header ?buf ty (word_of_nat (xd_version x)) N U S)"
    using xu_header_tables_eq [OF len b(4-6)] parts(1) by simp
  have fill: "fill_in_offsets_headerline ?dbg ?buf (16 + 12 * S) N 0 (replicate 9 0) = DW_OK (map word_of_nat (xd_columns x) @ replicate (9 - N) 0)"
    using fill_in_offsets_at [OF parts(5), of "[]"] b by (simp add: N_def)
  have big: "16 + U < length ?buf + 16" "16 \<le> length ?buf"
    using parts(1) UN b(3) mult.assoc [of 8 U N] by linarith+
  have tests: "(word_of_nat (length ?buf) :: u64) \<noteq> 0" "\<not> (word_of_nat (length ?buf) :: u64) < 4 * 4"
    "\<not> ((word_of_nat (xd_version x) :: u64) < 2 \<or> (word_of_nat (xd_version x) :: u64) > 5)" "\<not> (word_of_nat N :: u64) > 8"
    "\<not> ((word_of_nat U :: u64) \<ge> word_of_nat (length ?buf) \<or> (word_of_nat U :: u64) div 4 \<ge> word_of_nat (length ?buf))"
    using u b big by (auto simp: word_less_nat_alt word_le_nat_alt unat_div_distrib)
  have ty': "\<not> (ty \<noteq> ''cu'' \<and> ty \<noteq> ''tu'')" using ty by blast
  have places: "gx_section_offsets_headerline_offset (table_header ?buf ty v N U S) = word_of_nat (16 + 12 * S)"
    "gx_section_id (table_header ?buf ty v N U S) = replicate 9 0" for v by (simp_all add: table_header_def)
  show ?thesis unfolding get_xu_index_header_def Let_def index_section_def [symmetric] if_not_P [OF ty'] if_not_P [OF tests(1)] if_not_P [OF tests(2)]
      r dw_bind.simps if_not_P [OF tests(3)] if_not_P [OF tests(4)] if_not_P [OF tests(5)] tables places u(2,6) fill
    unfolding decoded_header_def N_def U_def S_def ..
qed

lemma nth_concat_rows:
  "\<forall>row \<in> set rows. length row = n \<Longrightarrow> k < length rows \<Longrightarrow> l < n \<Longrightarrow> concat rows ! (k * n + l) = rows ! k ! l"
proof (induction rows arbitrary: k)
  case (Cons row rows)
  then show ?case by (cases k) (simp_all add: nth_append)
qed simp

lemma row_lengths: "index_ok pkg x \<Longrightarrow> row \<in> set (xd_units x) \<Longrightarrow> length row = length (xd_columns x)"
  using list_all2_lengthD by (fastforce simp: index_ok_def)

lemma decoded_simps:
  "gx_section_data (decoded_header buf ty x) = buf" "gx_section_length (decoded_header buf ty x) = word_of_nat (length buf)"
  "gx_version (decoded_header buf ty x) = word_of_nat (xd_version x)"
  "gx_column_count_sections (decoded_header buf ty x) = word_of_nat (length (xd_columns x))"
  "gx_units_in_index (decoded_header buf ty x) = word_of_nat (length (xd_units x))"
  "gx_slots_in_hash (decoded_header buf ty x) = word_of_nat (length (xd_slots x))" "gx_hash_table_offset (decoded_header buf ty x) = 16"
  "gx_index_table_offset (decoded_header buf ty x) = word_of_nat (16 + 8 * length (xd_slots x))"
  "gx_section_offsets_offset (decoded_header buf ty x) = word_of_nat (16 + 12 * length (xd_slots x) + 4 * length (xd_columns x))"
  "gx_section_sizes_offset (decoded_header buf ty x) =
     word_of_nat (16 + 12 * length (xd_slots x) + 4 * length (xd_columns x) + 4 * length (xd_units x) * length (xd_columns x))"
  "gx_section_id (decoded_header buf ty x) = map word_of_nat (xd_columns x) @ replicate (9 - length (xd_columns x)) 0"
  by (simp_all add: decoded_header_def table_header_def)

lemma index_bounds:
  assumes "has_index pkg ty x"
  defines "buf \<equiv> index_section pkg ty" and "N \<equiv> length (xd_columns x)" and "U \<equiv> length (xd_units x)" and "S \<equiv> length (xd_slots x)"
  shows "unat (word_of_nat N :: u64) = N" "unat (word_of_nat U :: u64) = U" "unat (word_of_nat S :: u64) = S"
    "unat (word_of_nat (16 + 8 * S) :: u64) = 16 + 8 * S" "unat (word_of_nat (16 + 12 * S + 4 * N) :: u64) = 16 + 12 * S + 4 * N"
    "unat (word_of_nat (16 + 12 * S + 4 * N + 4 * U * N) :: u64) = 16 + 12 * S + 4 * N + 4 * U * N" "unat (word_of_nat (length buf) :: u64) = length buf"
    "length buf = 16 + 12 * S + 4 * N + 8 * U * N" "length buf < 2 ^ 62" "N \<le> 8" "U < 2 ^ 32" "S < 2 ^ 32"
proof -
  have ok: "index_ok pkg x" "buf = encode_index (pk_dbg pkg) x" and len: "length buf < 2 ^ 62" using assms(1) by (auto simp: has_index_def buf_def)
  show l: "length buf = 16 + 12 * S + 4 * N + 8 * U * N" unfolding ok(2) N_def U_def S_def by (rule index_parts(1) [OF ok(1)])
  show b: "N \<le> 8" "U < 2 ^ 32" "S < 2 ^ 32" using ok(1) by (simp_all add: index_ok_def N_def U_def S_def)
  show "length buf < 2 ^ 62" by (rule len)
  show "unat (word_of_nat N :: u64) = N" "unat (word_of_nat U :: u64) = U" "unat (word_of_nat S :: u64) = S"
    "unat (word_of_nat (16 + 8 * S) :: u64) = 16 + 8 * S" "unat (word_of_nat (16 + 12 * S + 4 * N) :: u64) = 16 + 12 * S + 4 * N"
    "unat (word_of_nat (16 + 12 * S + 4 * N + 4 * U * N) :: u64) = 16 + 12 * S + 4 * N + 4 * U * N" "unat (word_of_nat (length buf) :: u64) = length buf"
    using l b len by (intro unat_word_of_small; simp)+
qed

lemma index_places:
  assumes "has_index pkg ty x"
  defines "buf \<equiv> index_section pkg ty" and "N \<equiv> length (xd_columns x)" and "U \<equiv> length (xd_units x)" and "S \<equiv> length (xd_slots x)"
  shows "holds_at buf 16 (concat (map fst (xd_slots x)))" "holds_at buf (16 + 8 * S) (numbers (pk_dbg pkg) (map snd (xd_slots x)))"
    "holds_at buf (16 + 12 * S + 4 * N) (numbers (pk_dbg pkg) (map fst (concat (xd_units x))))"
    "holds_at buf (16 + 12 * S + 4 * N + 4 * U * N) (numbers (pk_dbg pkg) (map snd (concat (xd_units x))))"
proof -
  have ok: "index_ok pkg x" "buf = encode_index (pk_dbg pkg) x" using assms(1) by (auto simp: has_index_def buf_def)
  show "holds_at buf 16 (concat (map fst (xd_slots x)))" "holds_at buf (16 + 8 * S) (numbers (pk_dbg pkg) (map snd (xd_slots x)))"
    "holds_at buf (16 + 12 * S + 4 * N) (numbers (pk_dbg pkg) (map fst (concat (xd_units x))))"
    "holds_at buf (16 + 12 * S + 4 * N + 4 * U * N) (numbers (pk_dbg pkg) (map snd (concat (xd_units x))))"
    unfolding ok(2) N_def U_def S_def by (rule index_parts [OF ok(1)])+
qed

lemma hash_entry_at:
  assumes "has_index pkg ty x" "i < length (xd_slots x)"
  shows "get_xu_hash_entry pkg (decoded_header (index_section pkg ty) ty x) (word_of_nat i) =
    DW_OK (fst (xd_slots x ! i), word_of_nat (snd (xd_slots x ! i)))"
proof -
  let ?buf = "index_section pkg ty" and ?S = "length (xd_slots x)"
  note b = index_bounds [OF assms(1)] and h = index_places [OF assms(1)]
  obtain sig k where s: "xd_slots x ! i = (sig, k)" by fastforce
  have ok: "index_ok pkg x" using assms(1) by (simp add: has_index_def)
  then have sig: "length sig = 8" "k \<le> length (xd_units x)" using nth_mem [OF assms(2)] s by (auto simp: index_ok_def)
  have i: "unat (word_of_nat i :: u64) = i" using assms(2) b(12) by (intro unat_word_of_small) simp
  have ui: "unat (word_of_nat i * 8 :: u64) = i * 8" "unat (word_of_nat i * 4 :: u64) = i * 4"
    using unat_times [of "word_of_nat i"] i assms(2) b(12) by simp_all
  have "holds_at ?buf (16 + 8 * i) (fst (xd_slots x ! i))"
    using ok assms(2) by (intro holds_at_concat [OF h(1)]) (auto simp: index_ok_def)
  then have bytes: "seg ?buf (16 + i * 8) (16 + i * 8 + 8) = sig" using sig(1) by (simp add: s holds_at_def seg_def drop_take mult.commute)
  have r: "read_unaligned_ck (pk_dbg pkg) ?buf (16 + 8 * ?S + i * 4) 4 (length ?buf) = DW_OK (word_of_nat k)"
    using number_at [OF h(2), of i] assms(2) sig(2) b(11) by (simp add: s mult.commute)
  have k: "\<not> word_of_nat k > (word_of_nat (length (xd_units x)) :: u64)"
    using sig(2) b(2,11) by (simp add: word_less_nat_alt unat_word_of_small)
  have tests: "(word_of_nat ?S :: u64) \<noteq> 0" "\<not> word_of_nat i \<ge> (word_of_nat ?S :: u64)" "\<not> 16 + i * 8 + 8 > length ?buf"
    "\<not> (16 + 8 * ?S + i * 4 \<ge> length ?buf \<or> 16 + 8 * ?S + i * 4 + 4 > length ?buf)"
    using b(3,8) i assms(2) by (auto simp: word_le_nat_alt)
  have u16: "unat (16 :: u64) = 16" by simp
  show ?thesis unfolding get_xu_hash_entry_def Let_def decoded_simps b(4) ui u16 if_not_P [OF tests(1)] if_not_P [OF tests(2)] if_not_P [OF tests(3)]
      if_not_P [OF tests(4)] r dw_bind.simps if_not_P [OF k] bytes s by simp
qed

lemma target_at:
  assumes "1 \<le> s" "s \<le> 8" "gx_version h = word_of_nat v" "2 \<le> v" "v \<le> 5"
  shows "xu_target_section h (word_of_nat s) = Some (target_of v s)"
proof -
  have v: "(gx_version h < 5) = (v < 5)" using assms(3-5) by (simp add: word_less_nat_alt unat_word_of_small)
  have "s \<in> {1, 2, 3, 4, 5, 6, 7, 8}" using assms(1,2) by auto
  then show ?thesis by (elim insertE emptyE) (simp_all add: xu_target_section_def target_of_def v)
qed

lemma contribution_at:
  assumes "has_index pkg ty x" "l < length (xd_columns x)" "contribution_ok pkg (xd_version x) (xd_columns x ! l) (off, sz)"
  shows "check_contribution pkg (decoded_header (index_section pkg ty) ty x) (word_of_nat l) (word_of_nat off) (word_of_nat sz) =
    DW_OK (word_of_nat off, word_of_nat sz)"
proof (cases "sz = 0")
  case False
  let ?h = "decoded_header (index_section pkg ty) ty x" and ?s = "xd_columns x ! l"
  have ok: "index_ok pkg x" using assms(1) by (simp add: has_index_def)
  have N: "length (xd_columns x) \<le> 8" using ok by (simp add: index_ok_def)
  have l: "unat (word_of_nat l :: u64) = l" using assms(2) N by (intro unat_word_of_small) simp
  have u: "unat (word_of_nat off :: u64) = off" "unat (word_of_nat sz :: u64) = sz"
    using assms(3) by (auto simp: contribution_ok_def intro: unat_word_of_small)
  have "1 \<le> ?s" "?s \<le> 8" using ok nth_mem [OF assms(2)] by (auto simp: index_ok_def)
  moreover have "2 \<le> xd_version x" "xd_version x \<le> 5" using ok by (simp_all add: index_ok_def)
  ultimately have "xu_target_section ?h (word_of_nat ?s) = Some (target_of (xd_version x) ?s)"
    by (intro target_at) (simp_all add: decoded_simps)
  moreover have "gx_section_id ?h ! unat (word_of_nat l :: u64) = word_of_nat ?s"
    using assms(2) l by (simp add: decoded_simps nth_append)
  moreover have "\<not> word_of_nat l \<ge> gx_column_count_sections ?h"
    using assms(2) l index_bounds(1) [OF assms(1)] by (simp add: decoded_simps word_le_nat_alt)
  moreover have fit: "off + sz \<le> unat (pk_dss_size pkg (target_of (xd_version x) ?s))" using assms(3) by (simp add: contribution_ok_def)
  moreover have "pk_dss_size pkg (target_of (xd_version x) ?s) \<noteq> 0"
  proof
    assume "pk_dss_size pkg (target_of (xd_version x) ?s) = 0"
    with fit have "off + sz \<le> 0" by simp
    with False show False by simp
  qed
  ultimately have "find_xu_target_sec_size pkg ?h (word_of_nat l) = DW_OK (pk_dss_size pkg (target_of (xd_version x) ?s))"
    using assms(2) N l by (simp add: find_xu_target_sec_size_def decoded_simps)
  then show ?thesis using fit False u by (auto simp: check_contribution_def word_le_nat_alt word_less_nat_alt)
qed (simp add: check_contribution_def)

lemma power_numeral_64: "(2 :: nat) ^ 64 = 18446744073709551616"
  by simp

lemma section_offset_at:
  assumes "has_index pkg ty x" "k < length (xd_units x)" "l < length (xd_columns x)" "xd_units x ! k ! l = (off, sz)"
  shows "get_xu_section_offset pkg (decoded_header (index_section pkg ty) ty x) (word_of_nat (k + 1)) (word_of_nat l) =
    DW_OK (word_of_nat off, word_of_nat sz)"
proof -
  let ?buf = "index_section pkg ty" and ?S = "length (xd_slots x)"
  define N U where "N = length (xd_columns x)" and "U = length (xd_units x)"
  note b = index_bounds [OF assms(1), folded N_def U_def] and h = index_places [OF assms(1), folded N_def U_def]
  have ok: "index_ok pkg x" using assms(1) by (simp add: has_index_def)
  have k: "k < U" "l < N" using assms(2,3) by (simp_all add: N_def U_def)
  have c: "contribution_ok pkg (xd_version x) (xd_columns x ! l) (off, sz)"
  proof -
    have "list_all2 (contribution_ok pkg (xd_version x)) (xd_columns x) (xd_units x ! k)"
      using ok nth_mem [OF assms(2)] unfolding index_ok_def by blast
    then show ?thesis using assms(3,4) by (metis list_all2_nthD)
  qed
  have rows: "\<forall>row \<in> set (xd_units x). length row = N" using row_lengths [OF ok] by (simp add: N_def)
  have pos: "k * N + l < U * N"
  proof -
    have "k * N + l < (k + 1) * N" using k(2) by simp
    also have "\<dots> \<le> U * N" using k(1) by (intro mult_le_mono1) simp
    finally show ?thesis .
  qed
  have cell: "concat (xd_units x) ! (k * N + l) = (off, sz)" "k * N + l < length (concat (xd_units x))"
    using nth_concat_rows [OF rows assms(2) k(2)] assms(4) length_concat_units [OF ok] pos by (simp_all add: N_def U_def)
  have UN: "U * N \<le> 2 ^ 32 * 8" using b(10,11) by (intro mult_le_mono) simp_all
  have row: "word_of_nat k * word_of_nat N * 4 = (word_of_nat (k * N * 4) :: u64)" "word_of_nat (k + 1) - 1 = (word_of_nat k :: u64)"
    by simp_all
  have col: "word_of_nat l * 4 = (word_of_nat (l * 4) :: u64)" by simp
  have "k < 2 ^ 64" "l < 2 ^ 64" "k * N * 4 < 2 ^ 64" "l * 4 < 2 ^ 64" "k + 1 < 2 ^ 64"
    using k b(10) b(11) [simplified] pos UN [simplified] unfolding power_numeral_64 by linarith+
  note u = this [THEN unat_word_of_small]
  have read: "read_unaligned_ck (pk_dbg pkg) ?buf (16 + 12 * ?S + 4 * N + k * N * 4 + l * 4) 4 (length ?buf) = DW_OK (word_of_nat off)"
    "read_unaligned_ck (pk_dbg pkg) ?buf (16 + 12 * ?S + 4 * N + 4 * U * N + k * N * 4 + l * 4) 4 (length ?buf) = DW_OK (word_of_nat sz)"
    using number_at [OF h(3), of "k * N + l"] number_at [OF h(4), of "k * N + l"] cell c by (simp_all add: contribution_ok_def algebra_simps)
  have tests: "\<not> word_of_nat l > (word_of_nat N :: u64)" "(word_of_nat (k + 1) :: u64) \<noteq> 0" "\<not> word_of_nat k \<ge> (word_of_nat U :: u64)"
    "\<not> word_of_nat l \<ge> (word_of_nat N :: u64)"
    "\<not> (word_of_nat (k * N * 4) \<ge> (word_of_nat (length ?buf) :: u64) \<or> word_of_nat (l * 4) \<ge> (word_of_nat (length ?buf) :: u64))"
  proof -
    have "k * N * 4 < length ?buf" "l * 4 < length ?buf" using b(8) pos k(2) mult.assoc [of 8 U N] by linarith+
    then show "\<not> (word_of_nat (k * N * 4) \<ge> (word_of_nat (length ?buf) :: u64) \<or> word_of_nat (l * 4) \<ge> (word_of_nat (length ?buf) :: u64))"
      unfolding word_le_nat_alt u(3,4) b(7) by simp
  qed (use k b u in \<open>simp_all add: word_le_nat_alt word_less_nat_alt word_unat_eq_iff del: of_nat_add of_nat_Suc\<close>)
  show ?thesis unfolding get_xu_section_offset_def Let_def decoded_simps N_def [symmetric] U_def [symmetric] row(2) unfolding row(1) col b(5,6) u
      if_not_P [OF tests(1)] if_not_P [OF tests(2)] if_not_P [OF tests(3)] if_not_P [OF tests(4)] if_not_P [OF tests(5)] read dw_bind.simps
    using contribution_at [OF assms(1,3) c] by simp
qed

section \<open>Finding units\<close>

lemma section_names_at:
  assumes "has_index pkg ty x" "l < length (xd_columns x)"
  shows "get_xu_section_names (decoded_header buf ty x) (word_of_nat l) = DW_OK (word_of_nat (xd_columns x ! l))"
proof -
  have ok: "index_ok pkg x" using assms(1) by (simp add: has_index_def)
  have l: "unat (word_of_nat l :: u64) = l" using assms(2) index_bounds(10) [OF assms(1)] by (intro unat_word_of_small) simp
  have s: "1 \<le> xd_columns x ! l" "xd_columns x ! l \<le> 8" using ok nth_mem [OF assms(2)] by (auto simp: index_ok_def)
  then have "\<not> (word_of_nat (xd_columns x ! l) :: u64) < 1" "\<not> (word_of_nat (xd_columns x ! l) :: u64) > 9"
    by (simp_all add: word_less_nat_alt unat_word_of_small)
  then show ?thesis using assms(2) l index_bounds(1) [OF assms(1)]
    by (simp add: get_xu_section_names_def Let_def decoded_simps word_le_nat_alt nth_append)
qed

lemma word_of_nat_less:
  "l < n \<Longrightarrow> n < 2 ^ 64 \<Longrightarrow> (word_of_nat l :: u64) < word_of_nat n" "\<not> (word_of_nat n :: u64) < word_of_nat n"
  by (simp_all add: word_less_nat_alt unat_word_of_small)

lemma column_sections_at:
  assumes "has_index pkg ty x"
  shows "l \<le> length (xd_columns x) \<Longrightarrow> column_sections (decoded_header buf ty x) (word_of_nat l) = DW_OK (map word_of_nat (drop l (xd_columns x)))"
proof (induction "length (xd_columns x) - l" arbitrary: l)
  case 0
  then show ?case by (subst column_sections.simps) (simp add: decoded_simps)
next
  case (Suc n)
  then have l: "l < length (xd_columns x)" by simp
  have small: "length (xd_columns x) < 2 ^ 64" using index_bounds(10) [OF assms] by simp
  have next_word: "word_of_nat l + 1 = (word_of_nat (Suc l) :: u64)" by (simp add: add.commute)
  have l12: "\<not> unat (word_of_nat l :: u64) \<ge> 12" using l index_bounds(10) [OF assms] by (subst unat_word_of_small) simp_all
  have "column_sections (decoded_header buf ty x) (word_of_nat (Suc l)) = DW_OK (map word_of_nat (drop (Suc l) (xd_columns x)))"
    using Suc.hyps(2) l by (intro Suc.hyps(1)) simp_all
  then show ?case using word_of_nat_less(1) [OF l small] section_names_at [OF assms l] l12
    by (subst column_sections.simps) (simp add: decoded_simps next_word Cons_nth_drop_Suc [OF l, symmetric])
qed

definition contribution :: "index_desc \<Rightarrow> nat \<Rightarrow> nat \<Rightarrow> nat \<times> nat" where
  "contribution x k s = (case map_of (zip (xd_columns x) (xd_units x ! k)) s of Some c \<Rightarrow> c | None \<Rightarrow> (0, 0))"

text \<open>The record of the unit at a position.\<close>

definition unit_record :: "index_desc \<Rightarrow> string \<Rightarrow> bytes \<Rightarrow> nat \<Rightarrow> fission_per_cu" where
  "unit_record x ty key k =
     \<lparr>pcu_type = ty, pcu_index = word_of_nat (k + 1), pcu_hash = key,
      pcu_offset = map (\<lambda>s. word_of_nat (fst (contribution x k s))) [0..<12],
      pcu_size = map (\<lambda>s. word_of_nat (snd (contribution x k s))) [0..<12]\<rparr>"

lemma map_upt_update: "i < n \<Longrightarrow> (map f [0..<n])[i := y] = map (f(i := y)) [0..<n]"
  by (rule nth_equalityI) (auto simp: nth_list_update)

lemma fill_contributions_at:
  assumes "has_index pkg ty x" "k < length (xd_units x)"
  shows "l \<le> length (xd_columns x) \<Longrightarrow> pcu_offset percu = map f [0..<12] \<Longrightarrow> pcu_size percu = map g [0..<12] \<Longrightarrow>
    fill_contributions pkg (decoded_header (index_section pkg ty) ty x) (word_of_nat (k + 1)) (map word_of_nat (drop l (xd_columns x))) (word_of_nat l) percu =
    DW_OK (percu
      \<lparr>pcu_offset := map (\<lambda>s. case map_of (zip (drop l (xd_columns x)) (drop l (xd_units x ! k))) s of Some c \<Rightarrow> word_of_nat (fst c) | None \<Rightarrow> f s) [0..<12],
       pcu_size := map (\<lambda>s. case map_of (zip (drop l (xd_columns x)) (drop l (xd_units x ! k))) s of Some c \<Rightarrow> word_of_nat (snd c) | None \<Rightarrow> g s) [0..<12]\<rparr>)"
proof (induction "length (xd_columns x) - l" arbitrary: l percu f g)
  case 0
  then show ?case by simp
next
  case (Suc n)
  let ?h = "decoded_header (index_section pkg ty) ty x" and ?row = "xd_units x ! k" and ?s = "xd_columns x ! l"
  have ok: "index_ok pkg x" using assms(1) by (simp add: has_index_def)
  have l: "l < length (xd_columns x)" "l < length ?row"
    using Suc.hyps(2) row_lengths [OF ok nth_mem [OF assms(2)]] by simp_all
  obtain off sz where c: "?row ! l = (off, sz)" by fastforce
  have s: "?s \<le> 8" using ok nth_mem [OF l(1)] by (auto simp: index_ok_def)
  have us: "unat (word_of_nat ?s :: u64) = ?s" using s by (intro unat_word_of_small) simp
  have next_word: "word_of_nat l + 1 = (word_of_nat (Suc l) :: u64)" by (simp add: add.commute)
  have d: "?s \<notin> set (drop (Suc l) (xd_columns x))"
    using ok l(1) Cons_nth_drop_Suc [OF l(1)] distinct_drop [of "xd_columns x" l] by (metis distinct.simps(2) index_ok_def)
  let ?percu = "percu\<lparr>pcu_offset := (pcu_offset percu)[?s := word_of_nat off], pcu_size := (pcu_size percu)[?s := word_of_nat sz]\<rparr>"
  let ?f = "f(?s := word_of_nat off)" and ?g = "g(?s := word_of_nat sz)"
  have IH: "fill_contributions pkg ?h (word_of_nat (k + 1)) (map word_of_nat (drop (Suc l) (xd_columns x))) (word_of_nat (Suc l)) ?percu =
    DW_OK (?percu
      \<lparr>pcu_offset := map (\<lambda>s. case map_of (zip (drop (Suc l) (xd_columns x)) (drop (Suc l) ?row)) s of Some c \<Rightarrow> word_of_nat (fst c) | None \<Rightarrow> ?f s) [0..<12],
       pcu_size := map (\<lambda>s. case map_of (zip (drop (Suc l) (xd_columns x)) (drop (Suc l) ?row)) s of Some c \<Rightarrow> word_of_nat (snd c) | None \<Rightarrow> ?g s) [0..<12]\<rparr>)"
    using Suc.hyps(2) l s Suc.prems(2,3) by (intro Suc.hyps(1)) (simp_all add: map_upt_update)
  have none: "map_of (zip (drop (Suc l) (xd_columns x)) (drop (Suc l) ?row)) ?s = None"
    using d by (auto simp: map_of_eq_None_iff dest: set_zip_leftD)
  have eq: "(\<lambda>s. case map_of (zip (drop (Suc l) (xd_columns x)) (drop (Suc l) ?row)) s of Some c \<Rightarrow> word_of_nat (p c) | None \<Rightarrow> (e(?s := word_of_nat (p (off, sz)))) s) =
      (\<lambda>s. case map_of (zip (drop l (xd_columns x)) (drop l ?row)) s of Some c \<Rightarrow> word_of_nat (p c) | None \<Rightarrow> e s)"
    for p :: "nat \<times> nat \<Rightarrow> nat" and e :: "nat \<Rightarrow> u64"
  proof
    fix s
    show "(case map_of (zip (drop (Suc l) (xd_columns x)) (drop (Suc l) ?row)) s of Some c \<Rightarrow> word_of_nat (p c) | None \<Rightarrow> (e(?s := word_of_nat (p (off, sz)))) s) =
      (case map_of (zip (drop l (xd_columns x)) (drop l ?row)) s of Some c \<Rightarrow> word_of_nat (p c) | None \<Rightarrow> e s)"
      using none c by (simp add: Cons_nth_drop_Suc [OF l(1), symmetric] Cons_nth_drop_Suc [OF l(2), symmetric] split: option.split)
  qed
  have step: "get_xu_section_offset pkg ?h (word_of_nat (k + 1)) (word_of_nat l) = DW_OK (word_of_nat off, word_of_nat sz)"
    by (rule section_offset_at [OF assms l(1) c])
  have s12: "\<not> ?s \<ge> 12" using s by simp
  have columns: "map word_of_nat (drop l (xd_columns x)) = (word_of_nat ?s :: u64) # map word_of_nat (drop (Suc l) (xd_columns x))"
    by (simp add: Cons_nth_drop_Suc [OF l(1), symmetric])
  note eqs = eq [where p = fst and e = f, unfolded fst_conv] eq [where p = snd and e = g, unfolded snd_conv]
  show ?case unfolding columns fill_contributions.simps step dw_bind.simps prod.case us next_word if_not_P [OF s12] IH eqs by simp
qed

lemma transform_at:
  assumes "has_index pkg ty x" "k < length (xd_units x)"
  shows "transform_xu_to_dfp pkg (decoded_header (index_section pkg ty) ty x) (word_of_nat (k + 1)) key ty percu = DW_OK (unit_record x ty key k)"
proof -
  have z: "replicate 12 (0 :: u64) = map (\<lambda>s. 0) [0..<12]" by (simp add: map_replicate_const)
  have c: "pcu_offset (clear_pcu_data percu) = map (\<lambda>s. 0) [0..<12]" "pcu_size (clear_pcu_data percu) = map (\<lambda>s. 0) [0..<12]"
    unfolding z [symmetric] by (simp_all add: clear_pcu_data_def)
  have "map_of (zip (xd_columns x) (xd_units x ! k)) s = None \<Longrightarrow> contribution x k s = (0, 0)" for s by (simp add: contribution_def)
  then have e: "(\<lambda>s. case map_of (zip (xd_columns x) (xd_units x ! k)) s of Some c \<Rightarrow> word_of_nat (p c) | None \<Rightarrow> 0) =
      (\<lambda>s. word_of_nat (p (contribution x k s)) :: u64)" if "p (0, 0) = 0" for p :: "nat \<times> nat \<Rightarrow> nat"
    using that by (auto simp: contribution_def split: option.splits)
  have cols: "column_sections (decoded_header (index_section pkg ty) ty x) 0 = DW_OK (map word_of_nat (xd_columns x))"
    using column_sections_at [OF assms(1), of 0] by simp
  show ?thesis unfolding transform_xu_to_dfp_def cols dw_bind.simps
    using fill_contributions_at [OF assms, of 0 "clear_pcu_data percu", OF _ c] e [of fst] e [of snd]
    by (simp add: unit_record_def clear_pcu_data_def)
qed

text \<open>The unit of a signature: the slots are looked at in order.\<close>

definition unit_of_signature :: "index_desc \<Rightarrow> bytes \<Rightarrow> nat option" where
  "unit_of_signature x key = map_option snd (find (\<lambda>(sig, k). k \<noteq> 0 \<and> sig = key) (xd_slots x))"

lemma index_slot:
  assumes "has_index pkg ty x" "i < length (xd_slots x)"
  shows "snd (xd_slots x ! i) \<le> length (xd_units x)" "snd (xd_slots x ! i) = 0 \<longrightarrow> fst (xd_slots x ! i) = zerohashkey"
    "(word_of_nat (snd (xd_slots x ! i)) = (0 :: u64)) = (snd (xd_slots x ! i) = 0)"
proof -
  have ok: "index_ok pkg x" using assms(1) by (simp add: has_index_def)
  then show b: "snd (xd_slots x ! i) \<le> length (xd_units x)" and "snd (xd_slots x ! i) = 0 \<longrightarrow> fst (xd_slots x ! i) = zerohashkey"
    using nth_mem [OF assms(2)] by (auto simp: index_ok_def)
  define m where "m = snd (xd_slots x ! i)"
  have "unat (word_of_nat m :: u64) = m" using b index_bounds(11) [OF assms(1)] unfolding m_def by (intro unat_word_of_small) simp
  then have "(word_of_nat m = (0 :: u64)) = (m = 0)" by (cases "m = 0") auto
  then show "(word_of_nat (snd (xd_slots x ! i)) = (0 :: u64)) = (snd (xd_slots x ! i) = 0)" by (simp only: m_def)
qed

lemma slot_next: "i < length (xd_slots x) \<Longrightarrow> has_index pkg ty x \<Longrightarrow>
    (word_of_nat i :: u64) < gx_slots_in_hash (decoded_header buf ty x) \<and> word_of_nat i + 1 = (word_of_nat (Suc i) :: u64)"
  using index_bounds(12) [of pkg ty x] word_of_nat_less(1) [of i "length (xd_slots x)"] by (simp add: decoded_simps add.commute)

lemma search_key_at:
  assumes "has_index pkg ty x"
  shows "i \<le> length (xd_slots x) \<Longrightarrow> search_key_loop pkg (decoded_header (index_section pkg ty) ty x) key (word_of_nat i) =
    (case find (\<lambda>(sig, k). k \<noteq> 0 \<and> sig = key) (drop i (xd_slots x)) of Some (sig, k) \<Rightarrow> DW_OK (word_of_nat k) | None \<Rightarrow> DW_NO_ENTRY)"
proof (induction "length (xd_slots x) - i" arbitrary: i)
  case 0
  then show ?case by (subst search_key_loop.simps) (simp add: decoded_simps)
next
  case (Suc n)
  then have i: "i < length (xd_slots x)" by simp
  let ?h = "decoded_header (index_section pkg ty) ty x"
  obtain sig k where s: "xd_slots x ! i = (sig, k)" by fastforce
  have IH: "search_key_loop pkg ?h key (word_of_nat (Suc i)) =
      (case find (\<lambda>(sig, k). k \<noteq> 0 \<and> sig = key) (drop (Suc i) (xd_slots x)) of Some (sig, k) \<Rightarrow> DW_OK (word_of_nat k) | None \<Rightarrow> DW_NO_ENTRY)"
    using Suc.hyps(2) i by (intro Suc.hyps(1)) simp_all
  note zero = index_slot [OF assms i, unfolded s fst_conv snd_conv]
  have d: "find P (drop i (xd_slots x)) = (if P (sig, k) then Some (sig, k) else find P (drop (Suc i) (xd_slots x)))" for P
    by (simp add: Cons_nth_drop_Suc [OF i, symmetric] s)
  note e = slot_next [OF i assms, of "index_section pkg ty"]
  show ?case unfolding search_key_loop.simps [of pkg ?h key "word_of_nat i"] if_P [OF conjunct1 [OF e]] conjunct2 [OF e] hash_entry_at [OF assms i]
      dw_bind.simps prod.case s fst_conv snd_conv zero(3) d IH
    using zero(2) by auto
qed

text \<open>The unit that has its contribution to a column at an offset, and its signature.\<close>

definition unit_at_offset :: "index_desc \<Rightarrow> nat \<Rightarrow> u64 \<Rightarrow> (bytes \<times> nat) option" where
  "unit_at_offset x l offset = find (\<lambda>(sig, k). k \<noteq> 0 \<and> word_of_nat (fst (xd_units x ! (k - 1) ! l)) = offset) (xd_slots x)"

lemma search_offset_at:
  assumes "has_index pkg ty x" "l < length (xd_columns x)"
  shows "i \<le> length (xd_slots x) \<Longrightarrow> search_offset_loop pkg (decoded_header (index_section pkg ty) ty x) offset (word_of_nat l) (word_of_nat i) =
    (case find (\<lambda>(sig, k). k \<noteq> 0 \<and> word_of_nat (fst (xd_units x ! (k - 1) ! l)) = offset) (drop i (xd_slots x)) of
       Some (sig, k) \<Rightarrow> DW_OK (word_of_nat k, sig) | None \<Rightarrow> DW_NO_ENTRY)"
proof (induction "length (xd_slots x) - i" arbitrary: i)
  case 0
  then show ?case by (subst search_offset_loop.simps) (simp add: decoded_simps)
next
  case (Suc n)
  then have i: "i < length (xd_slots x)" by simp
  let ?h = "decoded_header (index_section pkg ty) ty x"
  obtain sig k where s: "xd_slots x ! i = (sig, k)" by fastforce
  have IH: "search_offset_loop pkg ?h offset (word_of_nat l) (word_of_nat (Suc i)) =
      (case find (\<lambda>(sig, k). k \<noteq> 0 \<and> word_of_nat (fst (xd_units x ! (k - 1) ! l)) = offset) (drop (Suc i) (xd_slots x)) of
         Some (sig, k) \<Rightarrow> DW_OK (word_of_nat k, sig) | None \<Rightarrow> DW_NO_ENTRY)"
    using Suc.hyps(2) i by (intro Suc.hyps(1)) simp_all
  note zero = index_slot [OF assms(1) i, unfolded s fst_conv snd_conv]
  have d: "find P (drop i (xd_slots x)) = (if P (sig, k) then Some (sig, k) else find P (drop (Suc i) (xd_slots x)))" for P
    by (simp add: Cons_nth_drop_Suc [OF i, symmetric] s)
  note e = slot_next [OF i assms(1), of "index_section pkg ty"]
  have step: "get_xu_section_offset pkg ?h (word_of_nat k) (word_of_nat l) =
      DW_OK (word_of_nat (fst (xd_units x ! (k - 1) ! l)), word_of_nat (snd (xd_units x ! (k - 1) ! l)))" if "k \<noteq> 0"
    using section_offset_at [OF assms(1) _ assms(2), of "k - 1"] zero(1) that by (cases "xd_units x ! (k - 1) ! l") simp
  show ?case unfolding search_offset_loop.simps [of pkg ?h offset "word_of_nat l" "word_of_nat i"] if_P [OF conjunct1 [OF e]] conjunct2 [OF e]
      hash_entry_at [OF assms(1) i] dw_bind.simps prod.case s fst_conv snd_conv zero(3) d IH
    using zero(2) step by (cases "k = 0") auto
qed

lemma find_sect_column_at:
  assumes "has_index pkg ty x"
  shows "l \<le> m \<Longrightarrow> m < length (xd_columns x) \<Longrightarrow> find_sect_column (decoded_header buf ty x) (word_of_nat (xd_columns x ! m)) (word_of_nat l) = DW_OK (word_of_nat m)"
proof (induction "m - l" arbitrary: l)
  case 0
  then have l: "l = m" "m < length (xd_columns x)" by simp_all
  have small: "length (xd_columns x) < 2 ^ 64" using index_bounds(10) [OF assms] by simp
  show ?case using word_of_nat_less(1) [OF l(2) small] section_names_at [OF assms l(2), of buf] unfolding l(1)
    by (subst find_sect_column.simps) (simp add: decoded_simps)
next
  case (Suc n)
  then have l: "l < m" "l < length (xd_columns x)" by simp_all
  have small: "length (xd_columns x) < 2 ^ 64" using index_bounds(10) [OF assms] by simp
  have ok: "index_ok pkg x" using assms by (simp add: has_index_def)
  have next_word: "word_of_nat l + 1 = (word_of_nat (Suc l) :: u64)" by (simp add: add.commute)
  have "xd_columns x ! l \<noteq> xd_columns x ! m" using ok l Suc.prems(2) nth_eq_iff_index_eq [of "xd_columns x" l m] by (auto simp: index_ok_def)
  moreover have "xd_columns x ! l \<le> 8" "xd_columns x ! m \<le> 8" using ok nth_mem [OF l(2)] nth_mem [OF Suc.prems(2)] by (auto simp: index_ok_def)
  ultimately have ne: "(word_of_nat (xd_columns x ! l) :: u64) \<noteq> word_of_nat (xd_columns x ! m)"
    using unat_word_of_small [of "xd_columns x ! l"] unat_word_of_small [of "xd_columns x ! m"] by auto
  have "find_sect_column (decoded_header buf ty x) (word_of_nat (xd_columns x ! m)) (word_of_nat (Suc l)) = DW_OK (word_of_nat m)"
    using Suc.hyps(2) l Suc.prems(2) by (intro Suc.hyps(1)) simp_all
  then show ?case using word_of_nat_less(1) [OF l(2) small] section_names_at [OF assms l(2), of buf] ne
    by (subst find_sect_column.simps) (simp add: decoded_simps next_word)
qed

section \<open>Properties\<close>

definition store_header :: "package_debug \<Rightarrow> string \<Rightarrow> xu_index_header \<Rightarrow> package_debug" where
  "store_header pkg ty h = (if ty = ''cu'' then pkg\<lparr>de_cu_hashindex_data := Some h\<rparr> else pkg\<lparr>de_tu_hashindex_data := Some h\<rparr>)"

lemma has_index_stored: "has_index (store_header pkg t h) ty x = has_index pkg ty x"
  "pk_dbg (store_header pkg t h) = pk_dbg pkg" "index_section (store_header pkg t h) ty = index_section pkg ty"
  by (simp_all add: has_index_def index_ok_def contribution_ok_def [abs_def] index_section_def store_header_def)

lemma stored_header: "ty \<in> {''cu'', ''tu''} \<Longrightarrow> get_xuhdr (store_header pkg ty h) ty = DW_OK h"
  by (auto simp: get_xuhdr_def store_header_def)

lemma slot_found:
  assumes "has_index pkg ty x" "find P (xd_slots x) = Some (sig, k)" "P (sig, k) \<Longrightarrow> k \<noteq> 0"
  shows "k - 1 < length (xd_units x)" "k - 1 + 1 = k"
proof -
  obtain i where i: "i < length (xd_slots x)" "xd_slots x ! i = (sig, k)" "P (sig, k)"
    using assms(2) by (auto simp: find_Some_iff)
  then show "k - 1 < length (xd_units x)" "k - 1 + 1 = k" using index_slot(1) [OF assms(1) i(1)] assms(3) by simp_all
qed

lemma search_for_key_at:
  assumes "has_index pkg ty x"
  shows "search_fission_for_key pkg (decoded_header (index_section pkg ty) ty x) key =
    (case find (\<lambda>(sig, k). k \<noteq> 0 \<and> sig = key) (xd_slots x) of Some (sig, k) \<Rightarrow> DW_OK (word_of_nat k) | None \<Rightarrow> DW_NO_ENTRY)"
proof -
  let ?h = "decoded_header (index_section pkg ty) ty x" and ?S = "length (xd_slots x)"
  note b = index_bounds [OF assms]
  have loop: "search_key_loop pkg ?h key 0 =
      (case find (\<lambda>(sig, k). k \<noteq> 0 \<and> sig = key) (xd_slots x) of Some (sig, k) \<Rightarrow> DW_OK (word_of_nat k) | None \<Rightarrow> DW_NO_ENTRY)"
    using search_key_at [OF assms, of 0 key] by simp
  have u: "unat (gx_slots_in_hash ?h) = ?S" "unat (4 * gx_slots_in_hash ?h) = 4 * ?S" "unat (gx_section_length ?h) = length (index_section pkg ty)"
    using unat_word_of_small [of "4 * ?S"] b(3,7,12) by (simp_all add: decoded_simps)
  have le: "4 * ?S \<le> length (index_section pkg ty)" using b(8) by simp
  show ?thesis
  proof (cases "xd_slots x = []")
    case True
    then show ?thesis unfolding search_fission_for_key_def Let_def by (simp add: decoded_simps)
  next
    case False
    have z: "\<not> gx_slots_in_hash ?h = 0" using u(1) False by auto
    have s: "\<not> gx_slots_in_hash ?h > gx_section_length ?h" "\<not> 4 * gx_slots_in_hash ?h > gx_section_length ?h"
      using le unfolding word_less_nat_alt u by simp_all
    show ?thesis unfolding search_fission_for_key_def Let_def if_not_P [OF s(1)] if_not_P [OF z] if_not_P [OF s(2)] by (rule loop)
  qed
qed

lemma stored_lookups:
  assumes "has_index pkg ty x"
  defines "h \<equiv> decoded_header (index_section pkg ty) ty x"
  shows "dw_bind (search_fission_for_key pkg h key) (\<lambda>k. transform_xu_to_dfp pkg h k key ty percu) =
      (case unit_of_signature x key of Some k \<Rightarrow> DW_OK (unit_record x ty key (k - 1)) | None \<Rightarrow> DW_NO_ENTRY)"
    "l < length (xd_columns x) \<Longrightarrow> xd_columns x ! l = 1 \<Longrightarrow>
      dw_bind (search_fission_for_offset pkg h offset 1) (\<lambda>(k, sig). transform_xu_to_dfp pkg h k sig ty percu) =
      (case unit_at_offset x l offset of Some (sig, k) \<Rightarrow> DW_OK (unit_record x ty sig (k - 1)) | None \<Rightarrow> DW_NO_ENTRY)"
proof -
  note b = index_bounds [OF assms(1)]
  have unit: "transform_xu_to_dfp pkg h (word_of_nat k) sig ty percu = DW_OK (unit_record x ty sig (k - 1))"
    if "find P (xd_slots x) = Some (sig', k)" "P (sig', k) \<Longrightarrow> k \<noteq> 0" for P sig sig' k
    using transform_at [OF assms(1), of "k - 1" sig percu] slot_found [OF assms(1) that] unfolding h_def by metis
  show "dw_bind (search_fission_for_key pkg h key) (\<lambda>k. transform_xu_to_dfp pkg h k key ty percu) =
      (case unit_of_signature x key of Some k \<Rightarrow> DW_OK (unit_record x ty key (k - 1)) | None \<Rightarrow> DW_NO_ENTRY)"
  proof (cases "find (\<lambda>(sig, k). k \<noteq> 0 \<and> sig = key) (xd_slots x)")
    case None
    then show ?thesis unfolding h_def search_for_key_at [OF assms(1)] unit_of_signature_def by simp
  next
    case (Some s)
    obtain sig k where s: "s = (sig, k)" by fastforce
    note f = Some [unfolded s]
    show ?thesis unfolding search_for_key_at [OF assms(1), folded h_def] unit_of_signature_def f
      using unit [OF f, of key] by simp
  qed
  assume l: "l < length (xd_columns x)" "xd_columns x ! l = 1"
  have column: "find_sect_column h 1 0 = DW_OK (word_of_nat l)"
    using find_sect_column_at [OF assms(1), of 0 l "index_section pkg ty"] l by (simp add: h_def)
  have offs: "search_fission_for_offset pkg h offset 1 =
      (case unit_at_offset x l offset of Some (sig, k) \<Rightarrow> DW_OK (word_of_nat k, sig) | None \<Rightarrow> DW_NO_ENTRY)"
    using search_offset_at [OF assms(1) l(1), of 0 offset, folded h_def]
    unfolding search_fission_for_offset_def column dw_bind.simps unit_at_offset_def by simp
  show "dw_bind (search_fission_for_offset pkg h offset 1) (\<lambda>(k, sig). transform_xu_to_dfp pkg h k sig ty percu) =
      (case unit_at_offset x l offset of Some (sig, k) \<Rightarrow> DW_OK (unit_record x ty sig (k - 1)) | None \<Rightarrow> DW_NO_ENTRY)"
  proof (cases "unit_at_offset x l offset")
    case (Some s)
    obtain sig k where s: "s = (sig, k)" by fastforce
    have "transform_xu_to_dfp pkg h (word_of_nat k) sig ty percu = DW_OK (unit_record x ty sig (k - 1))"
      using Some unfolding s unit_at_offset_def by (rule unit) simp
    then show ?thesis unfolding offs Some s by simp
  qed (simp add: offs)
qed

text \<open>
  C20: Whatever the bytes of the index sections of a package file are, reading a header of an index, and searching for a unit by its signature or by its
  offset when the headers stored in the debug object were read from these sections, reads nothing outside the sections and writes nothing outside the
  arrays of the result.
\<close>

theorem package_lookups_safe:
  assumes "length (de_debug_cu_index pkg) < 2 ^ 62" "length (de_debug_tu_index pkg) < 2 ^ 62" "loads pkg"
    and "\<forall>h. de_cu_hashindex_data pkg = Some h \<longrightarrow> get_xu_index_header pkg ''cu'' = DW_OK h"
    and "\<forall>h. de_tu_hashindex_data pkg = Some h \<longrightarrow> get_xu_index_header pkg ''tu'' = DW_OK h"
  shows "get_xu_index_header pkg ty \<noteq> FAULT \<and> get_debugfission_for_key pkg key ty percu \<noteq> FAULT \<and> get_debugfission_for_offset pkg offset ty percu \<noteq> FAULT"
proof -
  have h: "spec True header_fits (get_xu_index_header pkg ty)" for ty
    by (rule get_xu_index_header_spec, unfold index_section_def, cases "ty = ''cu''") (use assms(1,2) in simp_all)
  have "index_fits pkg" using assms(3-5) h by (auto simp: index_fits_def spec_def)
  then show ?thesis using h debugfission_for_key_spec debugfission_for_offset_spec by (auto simp: spec_def)
qed

definition sample_index :: index_desc where
  "sample_index = \<lparr>xd_version = 5, xd_columns = [1, 3], xd_units = [[(0, 0x20), (0, 0x10)], [(0x20, 0x30), (0x10, 8)]],
     xd_slots = [([1, 2, 3, 4, 5, 6, 7, 8], 2), (zerohashkey, 0), ([9, 9, 9, 9, 9, 9, 9, 9], 1)]\<rparr>"

definition sample_package :: package_debug where
  "sample_package = \<lparr>pk_dbg = debug_le64, de_debug_cu_index = encode_index debug_le64 sample_index, de_debug_tu_index = [],
     de_cu_hashindex_data = None, de_tu_hashindex_data = None, pk_dss_size = (\<lambda>t. 0x80), pk_load_section = (\<lambda>t. DW_NO_ENTRY),
     pk_load_debug_info = DW_OK (), pk_load_debug_types = DW_NO_ENTRY\<rparr>"

definition empty_percu :: fission_per_cu where
  "empty_percu = \<lparr>pcu_type = [], pcu_index = 0, pcu_hash = zerohashkey, pcu_offset = replicate 12 0, pcu_size = replicate 12 0\<rparr>"

lemma sample_has_index: "has_index sample_package ''cu'' sample_index"
proof -
  have ok: "index_ok sample_package sample_index"
    by (simp add: index_ok_def sample_index_def sample_package_def contribution_ok_def zerohashkey_def)
  have "length (encode_index (pk_dbg sample_package) sample_index) < 2 ^ 62"
    unfolding index_parts(1) [OF ok] by (simp add: sample_index_def)
  then show ?thesis using ok by (simp add: has_index_def index_section_def sample_package_def)
qed

theorem package_lookups_safe_witness:
  "get_debugfission_for_key (store_header sample_package ''cu'' (decoded_header (encode_index debug_le64 sample_index) ''cu'' sample_index)) zerohashkey ''cu'' empty_percu
     \<noteq> FAULT"
proof -
  let ?h = "decoded_header (encode_index debug_le64 sample_index) ''cu'' sample_index"
  let ?pkg = "store_header sample_package ''cu'' ?h"
  have s: "index_section ?pkg ''cu'' = encode_index debug_le64 sample_index" by (simp add: index_section_def store_header_def sample_package_def)
  have x: "has_index ?pkg ''cu'' sample_index" unfolding has_index_stored(1) by (rule sample_has_index)
  have "get_xu_index_header ?pkg ''cu'' = DW_OK ?h" using index_header_at [OF x] by (simp add: s)
  moreover have "length (index_section ?pkg ''cu'') < 2 ^ 62" using x unfolding has_index_def by blast
  ultimately show ?thesis
    using package_lookups_safe [of ?pkg "''cu''" zerohashkey empty_percu 0] by (simp add: loads_def index_section_def store_header_def sample_package_def)
qed

text \<open>
  C16: In an index section that was written from a table of units, the search for a signature yields the record of the unit of the first slot in use
  that holds it, with the offset and the size of its contribution to every section, and no entry when there is no such slot; the search for an offset in
  \<open>.debug_info\<close> does the same with the first slot whose unit begins there.
\<close>

theorem package_unit_found:
  assumes "has_index pkg ty x" "get_xu_index_header pkg ty = DW_OK h" "l < length (xd_columns x)" "xd_columns x ! l = 1"
  shows "get_debugfission_for_key (store_header pkg ty h) key ty percu =
      (case unit_of_signature x key of Some k \<Rightarrow> DW_OK (unit_record x ty key (k - 1)) | None \<Rightarrow> DW_NO_ENTRY) \<and>
    get_debugfission_for_offset (store_header pkg ty h) offset ty percu =
      (case unit_at_offset x l offset of Some (sig, k) \<Rightarrow> DW_OK (unit_record x ty sig (k - 1)) | None \<Rightarrow> DW_NO_ENTRY)"
proof -
  let ?pkg = "store_header pkg ty h"
  have x: "has_index ?pkg ty x" unfolding has_index_stored(1) by (rule assms(1))
  have h: "h = decoded_header (index_section ?pkg ty) ty x"
    using index_header_at [OF assms(1)] assms(2) unfolding has_index_stored(3) by (metis dw.inject(1))
  have hdr: "get_xuhdr ?pkg ty = DW_OK h" using assms(1) by (intro stored_header) (simp add: has_index_def)
  have load: "unless_error (pk_load_debug_info ?pkg) rest = rest" "unless_error (pk_load_debug_types ?pkg) rest = rest" for rest :: "fission_per_cu dw"
    using x by (auto simp: has_index_def unless_error_def)
  note key = stored_lookups(1) [OF x, folded h] and offs = stored_lookups(2) [OF x assms(3,4), folded h]
  show ?thesis unfolding get_debugfission_for_key_def get_debugfission_for_offset_def load hdr dw_bind.simps key offs by blast
qed

lemma sample_unit_two: "unit_of_signature sample_index [1, 2, 3, 4, 5, 6, 7, 8] = Some 2"
  "unit_at_offset sample_index 0 0x20 = Some ([1, 2, 3, 4, 5, 6, 7, 8], 2)" "length (xd_columns sample_index) = 2" "xd_columns sample_index ! 0 = 1"
  by (simp_all add: unit_of_signature_def unit_at_offset_def sample_index_def zerohashkey_def)

lemma sample_record: "unit_record sample_index ''cu'' key (Suc 0) =
    \<lparr>pcu_type = ''cu'', pcu_index = 2, pcu_hash = key, pcu_offset = [0, 0x20, 0, 0x10, 0, 0, 0, 0, 0, 0, 0, 0], pcu_size = [0, 0x30, 0, 8, 0, 0, 0, 0, 0, 0, 0, 0]\<rparr>"
  by (simp add: unit_record_def contribution_def sample_index_def upt_rec)

theorem package_unit_found_witness:
  "\<exists>h. get_xu_index_header sample_package ''cu'' = DW_OK h \<and>
     get_debugfission_for_key (store_header sample_package ''cu'' h) [1, 2, 3, 4, 5, 6, 7, 8] ''cu'' empty_percu =
       DW_OK \<lparr>pcu_type = ''cu'', pcu_index = 2, pcu_hash = [1, 2, 3, 4, 5, 6, 7, 8],
         pcu_offset = [0, 0x20, 0, 0x10, 0, 0, 0, 0, 0, 0, 0, 0], pcu_size = [0, 0x30, 0, 8, 0, 0, 0, 0, 0, 0, 0, 0]\<rparr> \<and>
     get_debugfission_for_offset (store_header sample_package ''cu'' h) 0x20 ''cu'' empty_percu =
       DW_OK \<lparr>pcu_type = ''cu'', pcu_index = 2, pcu_hash = [1, 2, 3, 4, 5, 6, 7, 8],
         pcu_offset = [0, 0x20, 0, 0x10, 0, 0, 0, 0, 0, 0, 0, 0], pcu_size = [0, 0x30, 0, 8, 0, 0, 0, 0, 0, 0, 0, 0]\<rparr>"
proof -
  obtain h where h: "get_xu_index_header sample_package ''cu'' = DW_OK h" using index_header_at [OF sample_has_index] by blast
  have l: "0 < length (xd_columns sample_index)" by (simp add: sample_unit_two(3))
  show ?thesis
    using package_unit_found [OF sample_has_index h l sample_unit_two(4), of "[1, 2, 3, 4, 5, 6, 7, 8]" empty_percu "0x20"] h
    unfolding sample_unit_two(1,2) by (simp add: sample_record)
qed

end
