(* ===== verification/Spec2Isabelle.thy ===== *)
theory Spec2Isabelle
  imports SafeArith Forms FrameQuery Abbrev AllocTree SectionGroups LineTables DieTrees LocEntries Crc FrameEncoding XuLookup
begin

text \<open>
  A model of libdwarf, the library that reads DWARF debugging information from object files
  (\<open>src/lib/libdwarf/\<close>), and the theorems that make it correct. All file names below are relative to that directory.

  \<^bold>\<open>The program.\<close> An object reader loads the sections of an object file into memory; the rest of the library decodes them on
  request. The lowest layer reads numbers: LEB128 (\<open>dwarf_leb.c\<close>), fixed width numbers in the byte order of the object and
  initial lengths (\<open>dwarf_util.h\<close>, \<open>dwarf_util.c\<close>, \<open>dwarf_memcpy_swap.c\<close>). On top of it stand the sizes of
  attribute values and of unit headers (\<open>dwarf_util.c\<close>) and checked arithmetic (\<open>dwarf_safe_arithmetic.c\<close>). Five decoders use
  these: abbreviations (\<open>dwarf_abbrev.c\<close> and the hash table of a unit in \<open>dwarf_util.c\<close>), units and debugging information entries
  (\<open>dwarf_die_deliv.c\<close>), line tables (\<open>dwarf_line.c\<close>, \<open>dwarf_line_table_reader_common.h\<close>), location expressions and lists
  (\<open>dwarf_locationop_read.c\<close>, \<open>dwarf_loc.c\<close>, \<open>dwarf_loclists.c\<close>), and call frame information
  (\<open>dwarf_frame2.c\<close>, \<open>dwarf_frame_cfa_read.c\<close>, \<open>dwarf_frame.c\<close>). A generic hash table (\<open>dwarf_tsearchhash.c\<close>) records allocations
  (\<open>dwarf_alloc.c\<close>) and section groups (\<open>dwarf_groups.c\<close>). The checksum of a file (\<open>dwarf_crc.c\<close>, \<open>dwarf_crc32.c\<close>) identifies separate debug files.
  The index of a package file (\<open>dwarf_xu_index.c\<close>) says where the sections of its units are.

  \<^bold>\<open>Conventions.\<close> (\<open>Prelude\<close>) A result of type \<open>'a dw\<close> is one of the three return codes of the library,
  \<open>DW_OK\<close> with the values of the out-parameters, \<open>DW_NO_ENTRY\<close>, or \<open>DW_ERROR\<close> with the number of the error of
  \<open>libdwarf.h\<close> (message texts are not modelled), or \<open>FAULT\<close>: the code reads outside a buffer or through a null pointer, or
  divides by zero. That a function never yields \<open>FAULT\<close> is its memory safety, and is proved, not assumed. Machine integers are words of the
  width the code declares, conversions are written out. A pointer into a section is an offset into its list of bytes; differences and comparisons of pointers are those
  of the offsets, and sums of pointers do not wrap. A null pointer that the code tests is \<open>None\<close>; a section whose data pointer is null is an empty
  list. Structures are records with the fields that matter, changed by explicit state passing. The host is little endian, the object may have either order.
  Allocation succeeds. Reports of harmless irregularities are output only and left out.

  \<^bold>\<open>Theories.\<close>
  \<^item> \<open>Prelude\<close>: widths, results, Hoare-style rules (\<open>spec\<close>) that carry the safety proofs, reading one byte, and the locale \<open>bounded_reader\<close> for
    decoders that read within their limits and move forward, with what follows for sequences of reads.
  \<^item> \<open>Leb\<close>: both decoders, the skipper and both encoders of \<open>dwarf_leb.c\<close>. Round trips for every value, padding, agreement of skipping with
    decoding, and no access outside the buffer. The locale \<open>leb_codec\<close> is the contract between an encoder and its decoder.
  \<^item> \<open>SafeArith\<close>: the overflow tests of \<open>dwarf_safe_arithmetic.c\<close> against integer arithmetic.
  \<^item> \<open>Reader\<close>: \<open>READ_UNALIGNED_CK\<close>, \<open>READ_AREA_LENGTH_CK\<close>, the LEB128 wrappers and the debug object. The value read is the number the bytes stand for in
    either byte order; each reader is an instance of \<open>bounded_reader\<close>.
  \<^item> \<open>Forms\<close>: \<open>_dwarf_get_size_of_val\<close>, \<open>_dwarf_check_string_valid\<close>, \<open>_dwarf_length_of_cu_header\<close>. Measuring a value never leaves the section; a value in indirect form is
    measured at the wrong place (\<open>indirect_value_misplaced\<close>).
  \<^item> \<open>FrameExec\<close>, \<open>FrameQuery\<close>: \<open>_dwarf_exec_frame_instr\<close> in all its modes and the functions that ask for the row of a pc. Safety for any bytes; a search ends in the row that
    covers the pc; a remembered state is restored; the binary search for an FDE finds the right one.
  \<^item> \<open>FrameSection\<close>, \<open>FrameLists\<close>, \<open>FrameEncoding\<close>: the walk over \<open>.debug_frame\<close> and \<open>.eh_frame\<close> (\<open>dwarf_frame2.c\<close>) that makes the lists of CIEs and FDEs. Any section is
    read safely and to an end, and what is returned is fit for the queries. An encoded section is read back exactly, and the search in what was read finds the FDE of a pc.
  \<^item> \<open>XuIndex\<close>, \<open>XuLookup\<close>: the index of a package file. Any index is read and searched safely; an encoded index (\<open>encode_index\<close>) yields for a signature or an offset
    the contributions of its unit.
  \<^item> \<open>Crc\<close>: the table-driven checksum is the bit by bit one, in one piece and for a file read in pieces, and detects changes within four adjacent bytes.
  \<^item> \<open>Tsearch\<close>, \<open>AllocTree\<close>, \<open>SectionGroups\<close>: the hash table refines a multiset of keys over any sequence of operations, for every hash function and comparison that meet
    the locale \<open>hash_keys\<close>; the two users instantiate it.
  \<^item> \<open>Abbrev\<close>, \<open>AbbrevForms\<close>: attribute specifications, the lookup of a code in the growing hash table of a unit, and the arrays of attributes and forms. Any sequence of lookups gives what the section
    declares (the relation \<open>declared\<close>).
  \<^item> \<open>LineHeader\<close>, \<open>Lines\<close>, \<open>Srclines\<close>: the header of a line table of version 2 to 5 and of two level tables, the line number program, and the
    functions on a finished table. Safety and termination for any bytes.
  \<^item> \<open>Encoding\<close>, \<open>LineMachine\<close>, \<open>LineEncoding\<close>, \<open>LineTables\<close>: the line number machine of the DWARF standard as an abstract specification, encodings of programs and of
    whole tables, and the refinement: reading an encoded table yields the rows of the machine.
  \<^item> \<open>Units\<close>: \<open>_dwarf_make_CU_Context\<close>, the list of unit contexts with its search and insertion. An accepted unit lies within its section;
    in every reachable state (\<open>units_read\<close>) the contexts tile the section and the search finds the one that contains an offset.
  \<^item> \<open>Dies\<close>, \<open>DieTrees\<close>: root entry, sibling and child. Any section is walked safely and to an end; a unit that holds a tree of entries (\<open>tree_at\<close>) is read as that tree.
  \<^item> \<open>LocOps\<close>, \<open>LocExpr\<close>: \<open>_dwarf_read_loc_expr_op\<close> and the loop over the operations of a block (\<open>dwarf_locationop_read.c\<close>, \<open>dwarf_loc.c\<close>). Encoded
    expressions are read back exactly; any block is read safely.
  \<^item> \<open>LocLists\<close>, \<open>LocEntries\<close>: location lists of the three kinds (\<open>dwarf_loc.c\<close>, \<open>dwarf_loclists.c\<close>). The lists of DWARF 5 are read as the expressions and the address
    ranges the standard gives their entries (\<open>location_ranges\<close>).

  \<^bold>\<open>Bounds and fuel.\<close> Loops over a buffer have its rest as a measure. The walks over a unit and over a frame section have fuel: the length of the section is enough, and this is proved, because each entry takes
  at least a byte and pointers only move forward. The interpreters of frame and line programs are total functions. The recursion of the hash table between search and resize is bounded by the number of primes
  in its table of sizes. Hypotheses bound the length of a section by \<open>2 ^ 62\<close> or \<open>2 ^ 64\<close>, which any object in memory meets.

  \<^bold>\<open>Not modelled.\<close> Object file formats, section loading and relocation (file access; the sections they yield are the
  byte lists the model starts from); deallocation; message texts and generated tables of names; printing, \<open>dwarfdump\<close> and the producer library; lookups by signature across objects. What out-parameters hold after an error is left out where callers discard it. Attribute values, range lists, address
  ranges, macros and the other index sections are not modelled either; the manifest lists every part with its reason.
\<close>

end
